(* ===== verification/Rfc3339.thy ===== *)
theory Rfc3339
  imports Capsule_Prelude
begin

text \<open>
  Civil dates and the textual pieces of an RFC 3339 time, as \<open>artifact/index.py\<close>,
  \<open>holds/aggregate.py\<close> and \<open>produce/build.py\<close> read them.  \<open>days_from_civil\<close> is the proleptic
  Gregorian day count of \<open>_days_from_civil\<close>; it is proved to be the only function that is 0 on
  1970-01-01 and moves by one from a date to the next.
\<close>

section \<open>The calendar of \<open>artifact/index.py\<close>\<close>

definition leap :: "int \<Rightarrow> bool" where
  "leap year \<longleftrightarrow> year mod 4 = 0 \<and> (year mod 100 \<noteq> 0 \<or> year mod 400 = 0)"

definition days_in :: "int \<Rightarrow> int \<Rightarrow> int" where
  "days_in year month =
     (if month = 2 then (if leap year then 29 else 28)
      else if month \<in> {4, 6, 9, 11} then 30 else 31)"

definition days_from_civil :: "int \<Rightarrow> int \<Rightarrow> int \<Rightarrow> int" where
  "days_from_civil year0 month day =
     (let year = year0 - (if month \<le> 2 then 1 else 0);
          era = year div 400;
          yoe = year - era * 400;
          doy = (153 * (month + (if month > 2 then - 3 else 9)) + 2) div 5 + day - 1;
          doe = yoe * 365 + yoe div 4 - yoe div 100 + doy
      in era * 146097 + doe - 719468)"

definition valid_date :: "int \<Rightarrow> int \<Rightarrow> int \<Rightarrow> bool" where
  "valid_date year month day \<longleftrightarrow> 1 \<le> month \<and> month \<le> 12 \<and> 1 \<le> day \<and> day \<le> days_in year month"

text \<open>The specification: the date after a date.\<close>

definition next_date :: "int \<times> int \<times> int \<Rightarrow> int \<times> int \<times> int" where
  "next_date = (\<lambda>(y, m, d).
     if d < days_in y m then (y, m, d + 1)
     else if m < 12 then (y, m + 1, 1) else (y + 1, 1, 1))"

lemma era_days:
  fixes y :: int
  shows "(y div 400) * 146097 + ((y - y div 400 * 400) * 365
           + (y - y div 400 * 400) div 4 - (y - y div 400 * 400) div 100)
         = 365 * y + y div 4 - y div 100 + y div 400"
proof -
  define e r where "e = y div 400" and "r = y mod 400"
  have y: "y = e * 400 + r" and r: "0 \<le> r" "r < 400"
    by (simp_all add: e_def r_def)
  have sub: "y - y div 400 * 400 = r"
    by (simp add: r_def minus_div_mult_eq_mod)
  have "y div 4 = e * 100 + r div 4"
    using div_mult_self3[of 4 "e * 100" r] by (simp add: y algebra_simps)
  moreover have "y div 100 = e * 4 + r div 100"
    using div_mult_self3[of 100 "e * 4" r] by (simp add: y algebra_simps)
  ultimately show ?thesis
    unfolding sub e_def [symmetric] using y by simp
qed

definition year_days :: "int \<Rightarrow> int" where
  "year_days y = 365 * y + y div 4 - y div 100 + y div 400"

lemma days_from_civil_alt:
  "days_from_civil year month day =
     year_days (year - (if month \<le> 2 then 1 else 0))
       + ((153 * (month + (if month > 2 then - 3 else 9)) + 2) div 5 + day - 1) - 719468"
proof -
  have shift: "a + b = c \<Longrightarrow> a + (b + k) - 719468 = c + k - 719468" for a b c k :: int
    by simp
  show ?thesis
    unfolding days_from_civil_def Let_def year_days_def by (rule shift [OF era_days])
qed

lemma div_pred_step:
  fixes y k :: int
  assumes "1 < k"
  shows "y div k = (y - 1) div k + (if y mod k = 0 then 1 else 0)"
proof (cases "y mod k = 0")
  case True
  then obtain q where q: "y = k * q" by (auto elim: dvdE simp: mod_eq_0_iff_dvd)
  have "(y - 1) div k = q - 1"
    using assms by (intro int_div_pos_eq [where r = "k - 1"]) (simp_all add: q algebra_simps)
  with True q assms show ?thesis by simp
next
  case False
  with assms have "1 \<le> y mod k" "y mod k < k"
    using pos_mod_bound [of k y] pos_mod_sign [of k y] by linarith+
  then have "(y - 1) div k = y div k"
    using assms by (intro int_div_pos_eq [where r = "y mod k - 1"]) (linarith | simp)+
  with False show ?thesis by simp
qed

lemma leap_year_days:
  fixes y :: int
  shows "year_days y = year_days (y - 1) + 365 + (if leap y then 1 else 0)"
proof -
  have count: "a4 = b4 + (if p then 1 else 0) \<Longrightarrow> a100 = b100 + (if q then 1 else 0) \<Longrightarrow>
      a400 = b400 + (if r then 1 else 0) \<Longrightarrow> (r \<Longrightarrow> q) \<Longrightarrow> (q \<Longrightarrow> p) \<Longrightarrow>
      365 * z + a4 - a100 + a400
        = 365 * (z - 1) + b4 - b100 + b400 + 365 + (if p \<and> (\<not> q \<or> r) then 1 else 0)"
    for a4 a100 a400 b4 b100 b400 z :: int and p q r
    by (cases p; cases q; cases r) simp_all
  have i: "y mod 400 = 0 \<Longrightarrow> y mod 100 = 0" "y mod 100 = 0 \<Longrightarrow> y mod 4 = 0"
    using mod_mod_cancel [of 100 400 y] mod_mod_cancel [of 4 100 y] by simp_all
  have s: "y div k = (y - 1) div k + (if y mod k = 0 then 1 else 0)" if "1 < k" for k
    using that by (rule div_pred_step)
  show ?thesis
    unfolding leap_def year_days_def
    by (rule count [OF s s s]) (use i in \<open>simp_all only: simp_thms numeral_less_iff one_less_numeral_iff semiring_norm\<close>)
qed

lemma month_cases:
  assumes "1 \<le> (m :: int)" "m \<le> 12"
  shows "m = 1 \<or> m = 2 \<or> m = 3 \<or> m = 4 \<or> m = 5 \<or> m = 6 \<or> m = 7 \<or> m = 8 \<or> m = 9 \<or>
         m = 10 \<or> m = 11 \<or> m = 12"
  using assms by presburger

lemma days_from_civil_month_end:
  assumes "1 \<le> m" "m < 12"
  shows "days_from_civil y (m + 1) 1 = days_from_civil y m (days_in y m) + 1"
proof -
  have "m = 2 \<or> m = 1 \<or> m = 3 \<or> m = 4 \<or> m = 5 \<or> m = 6 \<or> m = 7 \<or> m = 8 \<or> m = 9 \<or>
        m = 10 \<or> m = 11"
    using month_cases [of m] assms by linarith
  then show ?thesis
  proof
    assume "m = 2"
    then show ?thesis
      using leap_year_days [of y] by (simp add: days_from_civil_alt days_in_def)
  next
    assume "m = 1 \<or> m = 3 \<or> m = 4 \<or> m = 5 \<or> m = 6 \<or> m = 7 \<or> m = 8 \<or> m = 9 \<or> m = 10 \<or> m = 11"
    then show ?thesis
      by (elim disjE) (simp_all add: days_from_civil_alt days_in_def)
  qed
qed

lemma days_from_civil_year_end:
  "days_from_civil (y + 1) 1 1 = days_from_civil y 12 31 + 1"
  by (simp add: days_from_civil_alt)

lemma days_from_civil_day: "days_from_civil y m (d + k) = days_from_civil y m d + k"
  by (simp add: days_from_civil_def Let_def)

lemma days_from_civil_next:
  assumes "valid_date y m d" "next_date (y, m, d) = (y', m', d')"
  shows "days_from_civil y' m' d' = days_from_civil y m d + 1"
proof (cases "d < days_in y m")
  case True
  with assms show ?thesis
    by (auto simp: next_date_def days_from_civil_day)
next
  case False
  with assms(1) have d: "d = days_in y m" and m: "1 \<le> m" "m \<le> 12"
    by (auto simp: valid_date_def)
  show ?thesis
  proof (cases "m < 12")
    case True
    with assms(2) False d m show ?thesis
      by (auto simp: next_date_def days_from_civil_month_end)
  next
    case False
    with assms(2) d m have "y' = y + 1" "m' = 1" "d' = 1" "m = 12" "d = 31"
      by (auto simp: next_date_def days_in_def)
    then show ?thesis
      by (simp add: days_from_civil_year_end)
  qed
qed

lemma next_date_valid: "valid_date y m d \<Longrightarrow> next_date (y, m, d) = (y', m', d') \<Longrightarrow> valid_date y' m' d'"
  by (auto simp: next_date_def valid_date_def days_in_def split: if_splits)

lemma days_from_civil_epoch: "days_from_civil 1970 1 1 = 0"
  by (simp add: days_from_civil_def Let_def)

section \<open>Reading fixed-width fields\<close>

text \<open>\<open>take_digits n s\<close> reads exactly \<open>n\<close> ASCII digits off the front of \<open>s\<close>.\<close>

definition take_digits :: "nat \<Rightarrow> string \<Rightarrow> (int \<times> string) option" where
  "take_digits n s =
     (if n \<le> length s \<and> list_all is_digit (take n s)
      then Some (int (digits_val (take n s)), drop n s) else None)"

fun take_char :: "char list \<Rightarrow> string \<Rightarrow> (char \<times> string) option" where
  "take_char cs [] = None"
| "take_char cs (c # s) = (if c \<in> set cs then Some (c, s) else None)"

text \<open>\<open>dddd-dd-ddTdd:dd:dd\<close>, with the letters allowed for \<open>T\<close> given.\<close>

definition take_civil :: "char list \<Rightarrow> string \<Rightarrow> ((int \<times> int \<times> int \<times> int \<times> int \<times> int) \<times> string) option" where
  "take_civil ts s =
     Option.bind (take_digits 4 s) (\<lambda>(year, s). Option.bind (take_char ''-'' s) (\<lambda>(_, s).
     Option.bind (take_digits 2 s) (\<lambda>(month, s). Option.bind (take_char ''-'' s) (\<lambda>(_, s).
     Option.bind (take_digits 2 s) (\<lambda>(day, s). Option.bind (take_char ts s) (\<lambda>(_, s).
     Option.bind (take_digits 2 s) (\<lambda>(hour, s). Option.bind (take_char '':'' s) (\<lambda>(_, s).
     Option.bind (take_digits 2 s) (\<lambda>(minute, s). Option.bind (take_char '':'' s) (\<lambda>(_, s).
     Option.bind (take_digits 2 s) (\<lambda>(second, s).
       Some ((year, month, day, hour, minute, second), s))))))))))))"

text \<open>An optional \<open>.\<close> and a run of digits: \<open>None\<close> inside means no fraction is there; a point
  without a digit is no match.\<close>

definition take_fraction :: "string \<Rightarrow> (string option \<times> string) option" where
  "take_fraction s =
     (case s of
        CHR ''.'' # r \<Rightarrow>
          (let ds = takeWhile is_digit r
           in if ds = [] then None else Some (Some ds, dropWhile is_digit r))
      | _ \<Rightarrow> Some (None, s))"

text \<open>\<open>Z\<close> (or the other letters given) or a signed \<open>hh:mm\<close>, up to the end of the string:
  \<open>None\<close> inside is UTC, otherwise sign, hours and minutes.\<close>

definition take_zone :: "char list \<Rightarrow> string \<Rightarrow> (char \<times> int \<times> int) option option" where
  "take_zone zs s =
     (case s of
        [c] \<Rightarrow> (if c \<in> set zs then Some None else None)
      | _ \<Rightarrow>
        Option.bind (take_char ''+-'' s) (\<lambda>(sign, s). Option.bind (take_digits 2 s) (\<lambda>(h, s).
        Option.bind (take_char '':'' s) (\<lambda>(_, s). Option.bind (take_digits 2 s) (\<lambda>(m, s).
          if s = [] then Some (Some (sign, h, m)) else None)))))"

text \<open>The first six digits of a fraction, padded with zeros on the right.\<close>

definition micros_of :: "string option \<Rightarrow> int" where
  "micros_of f = (case f of None \<Rightarrow> 0 | Some ds \<Rightarrow> int (digits_val (take 6 (ds @ replicate 5 CHR ''0''))))"

definition day_micros :: int where
  "day_micros = 86400000000"

definition time_micros :: "int \<Rightarrow> int \<Rightarrow> int \<Rightarrow> int \<Rightarrow> int \<Rightarrow> int \<Rightarrow> int \<Rightarrow> int" where
  "time_micros year month day hour minute second micros =
     (days_from_civil year month day * 86400 + hour * 3600 + minute * 60 + second) * 1000000 + micros"

lemma digits_val_bound: "list_all is_digit s \<Longrightarrow> digits_val s < 10 ^ length s"
proof (induction s rule: rev_induct)
  case Nil
  then show ?case by simp
next
  case (snoc c s)
  then have "digits_val s < 10 ^ length s" "digit_val c < 10"
    by (auto simp: digit_val_less)
  then show ?case by simp
qed

lemma take_digits_bound: "take_digits n s = Some (v, r) \<Longrightarrow> 0 \<le> v \<and> v < 10 ^ n"
  using digits_val_bound [of "take n s"]
  by (auto simp: take_digits_def min_def split: if_splits simp flip: of_nat_less_iff)

end
