(* ===== verification/Audit_Log.thy ===== *)
theory Audit_Log
  imports Capsule_Prelude
begin

text \<open>
  The interface of an append-only log as its writers rely on it.  A successful append either adds the
  record at the end or finds the very same record already there, and it never puts two different
  records under one key.  The hold engine's ledger and the chains built on a ledger are clients.
\<close>

locale audit_log =
  fixes app :: "'env \<Rightarrow> 'r \<Rightarrow> 'r list \<Rightarrow> 'e + 'r list" and key :: "'r \<Rightarrow> 'k"
  assumes app_shape: "app env r L = Inr L' \<Longrightarrow> L' = L @ [r] \<or> (L' = L \<and> r \<in> set L)"
    and app_conflict: "app env r L = Inr L' \<Longrightarrow> r \<notin> set L \<Longrightarrow> key r \<notin> key ` set L"
    and app_present: "app env r L = Inr L' \<Longrightarrow> r \<in> set L \<Longrightarrow> L' = L"
begin

lemma app_prefix: "app env r L = Inr L' \<Longrightarrow> prefix L L'"
  using app_shape by (fastforce simp: prefix_def)

lemma app_new: "app env r L = Inr L' \<Longrightarrow> r \<notin> set L \<Longrightarrow> L' = L @ [r]"
  using app_shape by blast

lemma app_member: "app env r L = Inr L' \<Longrightarrow> r \<in> set L'"
  using app_shape by fastforce

lemma app_distinct:
  assumes "app env r L = Inr L'" "distinct (map key L)"
  shows "distinct (map key L')"
proof (cases "r \<in> set L")
  case True
  with assms app_present show ?thesis by blast
next
  case False
  with assms app_new app_conflict show ?thesis by force
qed

text \<open>A batch of appends stops at the first failure.\<close>

definition app_all :: "('env \<times> 'r) list \<Rightarrow> 'r list \<Rightarrow> 'e + 'r list" where
  "app_all rs L = foldM_r (\<lambda>L (env, r). app env r L) L rs"

lemma app_all_Cons: "app_all ((env, r) # rs) L = sbind (app env r L) (app_all rs)"
  by (simp add: app_all_def sbind_def split: sum.splits)

lemma app_all_prefix: "app_all rs L = Inr L' \<Longrightarrow> prefix L L'"
proof (induction rs arbitrary: L)
  case Nil
  then show ?case by (simp add: app_all_def)
next
  case (Cons er rs)
  then show ?case
    by (cases er) (auto simp: app_all_Cons res_simps dest!: app_prefix intro: prefix_order.trans)
qed

lemma app_all_set:
  assumes "app_all rs L = Inr L'"
  shows "set L' = set L \<union> snd ` set rs"
  using assms
proof (induction rs arbitrary: L)
  case Nil
  then show ?case by (simp add: app_all_def)
next
  case (Cons er rs)
  obtain env r where er: "er = (env, r)" by fastforce
  with Cons.prems obtain L1 where L1: "app env r L = Inr L1" "app_all rs L1 = Inr L'"
    by (auto simp: app_all_Cons res_simps)
  have "set L1 = insert r (set L)"
    using app_shape [OF L1(1)] by auto
  with Cons.IH [OF L1(2)] er show ?case by auto
qed

lemma app_all_distinct:
  "app_all rs L = Inr L' \<Longrightarrow> distinct (map key L) \<Longrightarrow> distinct (map key L')"
proof (induction rs arbitrary: L)
  case Nil
  then show ?case by (simp add: app_all_def)
next
  case (Cons er rs)
  then show ?case
    by (cases er) (auto simp: app_all_Cons res_simps dest: app_distinct)
qed

end

end
