(* ===== verification/Hold_Records.thy ===== *)
theory Hold_Records
  imports Audit_Log
begin

text \<open>
  The records of the hold engine: \<open>holds/action.py\<close>, \<open>holds/capsules.py\<close>, \<open>holds/errors.py\<close>, and
  the view \<open>ledger.py\<close> gives of a ledger's lines.

  A ledger line is the record \<open>capsule\<close>: the members the hold code reads are fields, a missing
  member is \<open>None\<close> (or the empty \<open>asg_payload\<close>), and every other member is in \<open>c_other\<close>.  Members
  have the JSON types the capsule profile gives them; a truthy member of another type, on which
  Python would raise \<open>AttributeError\<close>, is outside the model.

  The code of \<open>agent_action_capsule\<close> (the capsule id, the verifier), the clock, \<open>uuid4\<close> and the
  operating system are not under \<open>src/\<close>: they are the fields of the records \<open>hold_cfg\<close> and \<open>henv\<close>,
  arguments of the definitions that use them.
\<close>

named_theorems hold_defs \<open>definitions of the hold records and their builders\<close>

section \<open>\<open>holds/action.py\<close>\<close>

record action =
  act_verb :: string
  act_operator :: string
  act_developer :: string
  act_action_class :: "string option"
  act_action_id :: "string option"
  act_timestamp :: "string option"
  act_amount_minor :: json
  act_currency :: json
  act_target :: json
  act_expires_at :: json

text \<open>What one engine call takes from its surroundings: the value \<open>uuid4\<close> returns, the clock, the
  failure the operating system or the ledger lock reports when it writes (\<open>None\<close>: it writes), and
  whether the serialization point can be reached.\<close>

datatype hold_exn =
    HoldError string
  | PyTypeError
  | FlatLedgerWriteRefused
  | LedgerConflictError
  | LedgerWriteError string

record henv =
  e_uuid :: string
  e_now :: string
  e_write_error :: "hold_exn option"
  e_engine_available :: bool

definition new_action_id :: "henv \<Rightarrow> string \<Rightarrow> string" where
  "new_action_id env verb = verb @ ''/'' @ e_uuid env"

definition resolved_action_id :: "henv \<Rightarrow> action \<Rightarrow> string" where
  "resolved_action_id env a =
     (case act_action_id a of
        Some i \<Rightarrow> if i \<noteq> [] then i else new_action_id env (act_verb a)
      | None \<Rightarrow> new_action_id env (act_verb a))"

definition resolved_timestamp :: "henv \<Rightarrow> action \<Rightarrow> string" where
  "resolved_timestamp env a =
     (case act_timestamp a of
        Some t \<Rightarrow> if t \<noteq> [] then t else e_now env
      | None \<Rightarrow> e_now env)"

section \<open>Ledger lines\<close>

record disposition =
  d_decision :: string
  d_approver :: string
  d_human_disposed :: bool
  d_verdict_class :: "string option"

record chain =
  ch_parent :: string
  ch_relation :: string

record assurance =
  as_attestation_mode :: string
  as_effect_mode :: string
  as_ledger_mode :: string

record constraint =
  cn_id :: string
  cn_result :: string
  cn_check_type :: string

record capsule =
  c_kind :: "string option"
  c_record_type :: "string option"
  c_spec_version :: string
  c_format_version :: string
  c_canonicalization_id :: string
  c_capsule_id :: "string option"
  c_action_id :: "string option"
  c_action_type :: string
  c_operator :: "string option"
  c_developer :: "string option"
  c_timestamp :: "string option"
  c_assurance :: "assurance option"
  c_disposition :: "disposition option"
  c_chain :: "chain option"
  c_constraints :: "constraint list"
  c_asg_payload :: dict
  c_other :: dict

text \<open>The configuration of one engine: the constructor's arguments and the external functions.\<close>

record hold_cfg =
  g_cap_minor :: "string option \<Rightarrow> int option"
  g_tolerance_minor :: "string option \<Rightarrow> int option"
  g_layout_flat :: bool
  g_flat_writes_stopped :: bool
  g_compute_id :: "capsule \<Rightarrow> string"
  g_verify_ok :: "capsule \<Rightarrow> bool"
  g_float_add :: "int \<Rightarrow> pyfloat \<Rightarrow> pyfloat"
  g_float_rsub :: "int \<Rightarrow> pyfloat \<Rightarrow> pyfloat"
  g_float_gt :: "pyfloat \<Rightarrow> int \<Rightarrow> bool"
  g_float_le :: "pyfloat \<Rightarrow> int \<Rightarrow> bool"
  g_py_str :: "json \<Rightarrow> string"
  g_py_repr :: "string option \<Rightarrow> string"

section \<open>\<open>holds/errors.py\<close> and the vocabulary of \<open>holds/capsules.py\<close>\<close>

abbreviation FLOAT_IN_HOLD_AMOUNT :: string where "FLOAT_IN_HOLD_AMOUNT \<equiv> ''float_in_hold_amount''"
abbreviation NON_INTEGER_HOLD_AMOUNT :: string where "NON_INTEGER_HOLD_AMOUNT \<equiv> ''non_integer_hold_amount''"
abbreviation HOLD_NOT_FOUND :: string where "HOLD_NOT_FOUND \<equiv> ''hold_not_found''"
abbreviation HOLD_ALREADY_TERMINAL :: string where "HOLD_ALREADY_TERMINAL \<equiv> ''hold_already_terminal''"
abbreviation HOLD_STATUS_AMBIGUOUS :: string where "HOLD_STATUS_AMBIGUOUS \<equiv> ''hold_status_ambiguous''"
abbreviation RECONCILE_AFTER_EXPIRY :: string where "RECONCILE_AFTER_EXPIRY \<equiv> ''reconcile_after_expiry_denied''"
abbreviation OVER_TOLERANCE :: string where "OVER_TOLERANCE \<equiv> ''reconcile_over_tolerance''"
abbreviation CAP_EXCEEDED :: string where "CAP_EXCEEDED \<equiv> ''cap_exceeded''"
abbreviation SEQUENCER_UNAVAILABLE :: string where "SEQUENCER_UNAVAILABLE \<equiv> ''sequencer_unavailable''"

datatype outcome = ALLOW | DENY  \<comment> \<open>the strings ''allow'' and ''deny''\<close>

abbreviation SUPERSEDES :: string where "SUPERSEDES \<equiv> ''supersedes''"
abbreviation CONFIRMS :: string where "CONFIRMS \<equiv> ''confirms''"

definition SPEC_VERSION :: string where
  "SPEC_VERSION = ''draft-mih-scitt-agent-action-capsule-05''"

section \<open>Builders of \<open>holds/capsules.py\<close>\<close>

definition check_integer_amount :: "json \<Rightarrow> hold_exn + int" where
  "check_integer_amount v =
     (case v of
        JBool _ \<Rightarrow> Inl (HoldError NON_INTEGER_HOLD_AMOUNT)
      | JFloat _ \<Rightarrow> Inl (HoldError FLOAT_IN_HOLD_AMOUNT)
      | JInt i \<Rightarrow> Inr i
      | _ \<Rightarrow> Inl (HoldError NON_INTEGER_HOLD_AMOUNT))"

definition hold_action :: "henv \<Rightarrow> action \<Rightarrow> string \<Rightarrow> action" where
  "hold_action env a verb =
     \<lparr>act_verb = verb, act_operator = act_operator a, act_developer = act_developer a,
      act_action_class = act_action_class a, act_action_id = None,
      act_timestamp = Some (resolved_timestamp env a), act_amount_minor = act_amount_minor a,
      act_currency = act_currency a, act_target = act_target a, act_expires_at = JNull\<rparr>"

definition seal_body :: "hold_cfg \<Rightarrow> capsule \<Rightarrow> capsule" where
  "seal_body cfg body = body\<lparr>c_capsule_id := Some (g_compute_id cfg body)\<rparr>"

definition hold_body :: "henv \<Rightarrow> action \<Rightarrow> chain option \<Rightarrow> dict \<Rightarrow> string \<Rightarrow>
    string option \<Rightarrow> constraint list \<Rightarrow> capsule" where
  "hold_body env ha ch payload decision verdict_class constraints =
       \<lparr>c_kind = None, c_record_type = None,
        c_spec_version = SPEC_VERSION, c_format_version = ''4'', c_canonicalization_id = ''jcs'',
        c_capsule_id = None,
        c_action_id = Some (resolved_action_id env ha), c_action_type = ''decide'',
        c_operator = Some (act_operator ha), c_developer = Some (act_developer ha),
        c_timestamp = Some (resolved_timestamp env ha),
        c_assurance = Some \<lparr>as_attestation_mode = ''self_attested'',
          as_effect_mode = ''not_applicable'',
          as_ledger_mode = (if ch \<noteq> None then ''chained'' else ''standalone'')\<rparr>,
        c_disposition = Some \<lparr>d_decision = decision, d_approver = ''policy'',
          d_human_disposed = False, d_verdict_class = verdict_class\<rparr>,
        c_chain = ch, c_constraints = constraints, c_asg_payload = payload, c_other = []\<rparr>"

definition build_hold :: "hold_cfg \<Rightarrow> henv \<Rightarrow> action \<Rightarrow> chain option \<Rightarrow> dict \<Rightarrow> string \<Rightarrow>
    string option \<Rightarrow> constraint list \<Rightarrow> capsule" where
  "build_hold cfg env ha ch payload decision verdict_class constraints =
     seal_body cfg (hold_body env ha ch payload decision verdict_class constraints)"

text \<open>A payload member that is left out when its value is \<open>None\<close>.\<close>

definition opt_member :: "string \<Rightarrow> json \<Rightarrow> dict" where
  "opt_member k v = (case v of JNull \<Rightarrow> [] | _ \<Rightarrow> [(k, v)])"

definition str_opt :: "string option \<Rightarrow> json" where
  "str_opt x = (case x of None \<Rightarrow> JNull | Some s \<Rightarrow> JStr s)"

definition int_opt :: "int option \<Rightarrow> json" where
  "int_opt x = (case x of None \<Rightarrow> JNull | Some i \<Rightarrow> JInt i)"

definition build_hold_reserve_capsule ::
    "hold_cfg \<Rightarrow> henv \<Rightarrow> action \<Rightarrow> json \<Rightarrow> int \<Rightarrow> int option \<Rightarrow> hold_exn + capsule" where
  "build_hold_reserve_capsule cfg env a reserved aggregate_before cap =
     sbind (check_integer_amount reserved) (\<lambda>amount.
       Inr (build_hold cfg env (hold_action env a ''hold.reserve'') None
         ([(''amount_minor'', JInt amount),
           (''reserved_amount_minor'', JInt amount),
           (''hold_scope'', JObj [(''action_class'', str_opt (act_action_class a)),
                                  (''subject'', JStr (act_developer a))]),
           (''aggregate_before_minor'', JInt aggregate_before)]
          @ opt_member ''cap_minor'' (int_opt cap)
          @ opt_member ''currency'' (act_currency a)
          @ opt_member ''target'' (act_target a)
          @ opt_member ''expires_at'' (act_expires_at a))
         ''accept'' None []))"

definition build_hold_release_capsule ::
    "hold_cfg \<Rightarrow> henv \<Rightarrow> action \<Rightarrow> string \<Rightarrow> json \<Rightarrow> string option \<Rightarrow> hold_exn + capsule" where
  "build_hold_release_capsule cfg env a reserve_id reserved reason =
     sbind (check_integer_amount reserved) (\<lambda>amount.
       Inr (build_hold cfg env (hold_action env a ''hold.release'')
         (Some \<lparr>ch_parent = reserve_id, ch_relation = SUPERSEDES\<rparr>)
         ([(''amount_minor'', JInt (- amount)),
           (''released_amount_minor'', JInt amount)]
          @ opt_member ''reason'' (str_opt reason))
         ''accept'' None []))"

definition build_hold_expire_capsule ::
    "hold_cfg \<Rightarrow> henv \<Rightarrow> action \<Rightarrow> string \<Rightarrow> json \<Rightarrow> string option \<Rightarrow> hold_exn + capsule" where
  "build_hold_expire_capsule cfg env a reserve_id reserved reason =
     sbind (check_integer_amount reserved) (\<lambda>amount.
       Inr (build_hold cfg env (hold_action env a ''hold.expire'')
         (Some \<lparr>ch_parent = reserve_id, ch_relation = SUPERSEDES\<rparr>)
         ([(''amount_minor'', JInt (- amount)),
           (''expired_amount_minor'', JInt amount)]
          @ opt_member ''reason'' (str_opt reason))
         ''accept'' None []))"

definition build_hold_reconcile_capsule ::
    "hold_cfg \<Rightarrow> henv \<Rightarrow> action \<Rightarrow> string \<Rightarrow> string option \<Rightarrow> json \<Rightarrow> json \<Rightarrow> int \<Rightarrow>
     hold_exn + capsule" where
  "build_hold_reconcile_capsule cfg env a reserve_id execution_id reserved executed tolerance =
     sbind (check_integer_amount reserved) (\<lambda>res. sbind (check_integer_amount executed) (\<lambda>exe.
       Inr (build_hold cfg env (hold_action env a ''hold.reconcile'')
         (Some \<lparr>ch_parent = reserve_id, ch_relation = SUPERSEDES\<rparr>)
         ([(''amount_minor'', JInt (exe - res)),
           (''reserved_amount_minor'', JInt res),
           (''executed_amount_minor'', JInt exe),
           (''delta_minor'', JInt (exe - res)),
           (''tolerance_minor'', JInt tolerance)]
          @ opt_member ''execution_capsule_id'' (str_opt execution_id))
         ''accept'' None [])))"

definition disposition_by_outcome :: "outcome \<Rightarrow> string \<times> string option" where
  "disposition_by_outcome outcome =
     (case outcome of ALLOW \<Rightarrow> (''accept'', None) | DENY \<Rightarrow> (''reject'', Some ''blocked''))"

definition build_hold_decision_capsule ::
    "hold_cfg \<Rightarrow> henv \<Rightarrow> action \<Rightarrow> outcome \<Rightarrow> string \<Rightarrow> string \<Rightarrow> int option \<Rightarrow> string option \<Rightarrow>
     string \<Rightarrow> capsule" where
  "build_hold_decision_capsule cfg env a outcome reason_code reason aggregate_before chain_parent
       chain_relation =
     build_hold cfg env (hold_action env a (act_verb a))
       (case chain_parent of None \<Rightarrow> None
         | Some p \<Rightarrow> Some \<lparr>ch_parent = p, ch_relation = chain_relation\<rparr>)
       ([(''reason_code'', JStr reason_code), (''reason'', JStr reason)]
         @ opt_member ''aggregate_before_minor'' (int_opt aggregate_before))
       (fst (disposition_by_outcome outcome)) (snd (disposition_by_outcome outcome))
       [\<lparr>cn_id = reason_code, cn_result = ''fail'', cn_check_type = ''policy''\<rparr>]"

declare hold_action_def [hold_defs] build_hold_def [hold_defs] hold_body_def [hold_defs] seal_body_def [hold_defs]
  resolved_action_id_def [hold_defs] new_action_id_def [hold_defs] resolved_timestamp_def [hold_defs]

lemma check_integer_amount_Inr [simp]: "check_integer_amount v = Inr i \<longleftrightarrow> v = JInt i"
  by (auto simp: check_integer_amount_def split: json.splits)

lemma check_integer_amount_JInt [simp]: "check_integer_amount (JInt i) = Inr i"
  by simp

lemma check_integer_amount_Inl:
  "check_integer_amount v = Inl e \<Longrightarrow>
     e = HoldError (case v of JFloat _ \<Rightarrow> FLOAT_IN_HOLD_AMOUNT | _ \<Rightarrow> NON_INTEGER_HOLD_AMOUNT)"
  by (auto simp: check_integer_amount_def split: json.splits)

section \<open>The ledger of \<open>ledger.py\<close>\<close>

definition NON_CAPSULE_KINDS :: "string list" where
  "NON_CAPSULE_KINDS =
     [''checkpoint_stamp'', ''disclosure_record'', ''checkpoint_witness_backfill'', ''archived_segment'']"

definition is_capsule_line :: "capsule \<Rightarrow> bool" where
  "is_capsule_line r \<longleftrightarrow>
     (case c_kind r of None \<Rightarrow> True | Some k \<Rightarrow> k \<notin> set NON_CAPSULE_KINDS) \<and>
     c_record_type r \<noteq> Some ''padding''"

definition read_ledger :: "capsule list \<Rightarrow> capsule list" where
  "read_ledger entries = filter is_capsule_line entries"

text \<open>\<open>append_to_ledger\<close> (\<open>LegacyLedger._write\<close>): a line without a 64-hex id is refused, then the lock or
  the file may fail; an identical line is not written again, a different line under the same id is a
  conflict.  Every exception leaves the file as it was.\<close>

definition valid_line_id :: "capsule \<Rightarrow> bool" where
  "valid_line_id c = (case c_capsule_id c of None \<Rightarrow> False | Some i \<Rightarrow> hex_string 64 i)"

definition append_to_ledger :: "henv \<Rightarrow> capsule \<Rightarrow> capsule list \<Rightarrow> hold_exn + capsule list" where
  "append_to_ledger env c L =
     (if \<not> valid_line_id c then Inl (LedgerWriteError ''capsule id'')
      else (case e_write_error env of
        Some e \<Rightarrow> Inl e
      | None \<Rightarrow>
          (case find (\<lambda>r. c_capsule_id r = c_capsule_id c) L of
             Some r \<Rightarrow> if r = c then Inr L else Inl LedgerConflictError
           | None \<Rightarrow> Inr (L @ [c]))))"

lemma read_ledger_append: "read_ledger (L @ L') = read_ledger L @ read_ledger L'"
  by (simp add: read_ledger_def)

lemma append_to_ledger_cases:
  assumes "append_to_ledger env c L = Inr L'"
  shows "L' = L @ [c] \<or> (L' = L \<and> c \<in> set L)"
  using assms
  by (auto simp: append_to_ledger_def dest: find_SomeD split: option.splits if_splits)

lemma append_to_ledger_fresh:
  assumes "append_to_ledger env c L = Inr L'" "c \<notin> set L"
  shows "L' = L @ [c]" "\<forall>r \<in> set L. c_capsule_id r \<noteq> c_capsule_id c"
  using assms
  by (auto simp: append_to_ledger_def find_None_iff dest: find_SomeD split: option.splits if_splits)

text \<open>The ledger file keeps the contract of an append-only log keyed by the capsule id.\<close>

interpretation ledger_file: audit_log append_to_ledger c_capsule_id
proof
  fix env r L L'
  assume ok: "append_to_ledger env r L = (Inr L' :: hold_exn + capsule list)"
  show "L' = L @ [r] \<or> (L' = L \<and> r \<in> set L)"
    using ok by (rule append_to_ledger_cases)
  show "c_capsule_id r \<notin> c_capsule_id ` set L" if "r \<notin> set L"
    using append_to_ledger_fresh(2) [OF ok that] by force
  show "L' = L" if "r \<in> set L"
    using ok that
    by (auto simp: append_to_ledger_def find_None_iff split: option.splits if_splits)
qed

end
