(* ===== verification/Hold_Aggregate.thy ===== *)
theory Hold_Aggregate
  imports Rfc3339 Hold_Records
begin

text \<open>
  \<open>holds/aggregate.py\<close>: the active exposure of a subject, a plain sum of signed deltas over the
  accepted \<open>hold.*\<close> records.  \<open>active_exposure_minor\<close> follows the loop of the source;
  \<open>exposure\<close> is its value without a cutoff, and the lemmas say how appending a line moves it.
\<close>

section \<open>Time stamps\<close>

text \<open>\<open>_instant\<close>: microseconds since the epoch.  \<open>datetime\<close> refuses years below 1, fields out of
  range and offsets of a day or more.\<close>

definition instant :: "string \<Rightarrow> int option" where
  "instant value =
     Option.bind (take_civil ''Tt'' value) (\<lambda>((year, month, day, hour, minute, second), s).
     Option.bind (take_fraction s) (\<lambda>(fraction, s).
     Option.bind (take_zone ''Zz'' s) (\<lambda>zone.
       let offset = (case zone of None \<Rightarrow> 0
                     | Some (sign, h, m) \<Rightarrow> (if sign = CHR ''-'' then - (h * 60 + m) else h * 60 + m))
       in if 1 \<le> year \<and> valid_date year month day \<and> hour \<le> 23 \<and> minute \<le> 59 \<and> second \<le> 59
             \<and> \<bar>offset\<bar> < 1440
          then Some (time_micros year month day hour minute second (micros_of fraction)
                     - offset * 60000000)
          else None)))"

section \<open>The sum\<close>

definition sub_get :: "json \<Rightarrow> string \<Rightarrow> json" where
  "sub_get v k = (case v of JObj d \<Rightarrow> dget d k | _ \<Rightarrow> JNull)"

definition action_id_of :: "capsule \<Rightarrow> string" where
  "action_id_of c = (case c_action_id c of None \<Rightarrow> '''' | Some i \<Rightarrow> i)"

definition hold_scope_class :: "capsule \<Rightarrow> json" where
  "hold_scope_class c = sub_get (dget (c_asg_payload c) ''hold_scope'') ''action_class''"

text \<open>\<open>_reserve_action_class_by_id\<close>: later records overwrite earlier ones.\<close>

fun reserve_action_class_by_id :: "capsule list \<Rightarrow> (string \<Rightarrow> json option) \<Rightarrow> (string \<Rightarrow> json option)" where
  "reserve_action_class_by_id [] m = m"
| "reserve_action_class_by_id (c # cs) m =
     (if \<not> prefix ''hold.reserve/'' (action_id_of c) then reserve_action_class_by_id cs m
      else (case c_capsule_id c of
              None \<Rightarrow> reserve_action_class_by_id cs m
            | Some i \<Rightarrow> if i = [] then reserve_action_class_by_id cs m
                        else reserve_action_class_by_id cs (m(i \<mapsto> hold_scope_class c))))"

definition record_action_class :: "capsule \<Rightarrow> (string \<Rightarrow> json option) \<Rightarrow> json" where
  "record_action_class c by_id =
     (if prefix ''hold.reserve/'' (action_id_of c) then hold_scope_class c
      else (case c_chain c of
              None \<Rightarrow> JNull
            | Some ch \<Rightarrow> (case by_id (ch_parent ch) of None \<Rightarrow> JNull | Some v \<Rightarrow> v)))"

definition in_window :: "int option \<Rightarrow> capsule \<Rightarrow> bool" where
  "in_window cutoff c =
     (case cutoff of
        None \<Rightarrow> True
      | Some limit \<Rightarrow>
          (case Option.bind (c_timestamp c) instant of None \<Rightarrow> False | Some stamped \<Rightarrow> stamped \<le> limit))"

text \<open>What one record adds: 0 where the loop of the source says \<open>continue\<close>.\<close>

definition contribution ::
    "string \<Rightarrow> string option \<Rightarrow> int option \<Rightarrow> (string \<Rightarrow> json option) \<Rightarrow> capsule \<Rightarrow> int" where
  "contribution subject cls cutoff by_id c =
     (if c_developer c \<noteq> Some subject then 0
      else if \<not> in_window cutoff c then 0
      else if map_option d_decision (c_disposition c) \<noteq> Some ''accept'' then 0
      else if \<not> prefix ''hold.'' (action_id_of c) then 0
      else if cls \<noteq> None \<and> record_action_class c by_id \<noteq> str_opt cls then 0
      else (case dget (c_asg_payload c) ''amount_minor'' of JInt amount \<Rightarrow> amount | _ \<Rightarrow> 0))"

fun exposure_loop :: "(capsule \<Rightarrow> int) \<Rightarrow> int \<Rightarrow> capsule list \<Rightarrow> int" where
  "exposure_loop contrib acc [] = acc"
| "exposure_loop contrib acc (c # cs) = exposure_loop contrib (acc + contrib c) cs"

text \<open>The exception is the \<open>ValueError\<close> for an \<open>as_of\<close> that is no RFC 3339 time.\<close>

definition active_exposure_minor ::
    "capsule list \<Rightarrow> string \<Rightarrow> string option \<Rightarrow> string option \<Rightarrow> string + int" where
  "active_exposure_minor records subject cls as_of =
     (let cutoff = Option.bind as_of instant;
          by_id = (if cls \<noteq> None then reserve_action_class_by_id records Map.empty else Map.empty)
      in if as_of \<noteq> None \<and> cutoff = None then Inl (the as_of)
         else Inr (exposure_loop (contribution subject cls cutoff by_id) 0 records))"

text \<open>The value without a cutoff.\<close>

definition exposure :: "capsule list \<Rightarrow> string \<Rightarrow> string option \<Rightarrow> int" where
  "exposure records subject cls =
     sum_list (map (contribution subject cls None
       (if cls \<noteq> None then reserve_action_class_by_id records Map.empty else Map.empty)) records)"

lemma exposure_loop_sum: "exposure_loop f t cs = t + sum_list (map f cs)"
  by (induction cs arbitrary: t) auto

lemma active_exposure_minor_exposure [simp]:
  "active_exposure_minor records subject cls None = Inr (exposure records subject cls)"
  by (simp add: active_exposure_minor_def exposure_def exposure_loop_sum)

section \<open>Appending a line\<close>

lemma reserve_class_append:
  "reserve_action_class_by_id (xs @ ys) m =
     reserve_action_class_by_id ys (reserve_action_class_by_id xs m)"
  by (induction xs arbitrary: m) (auto split: option.splits)

lemma reserve_class_other:
  "i \<notin> {j. \<exists>c \<in> set cs. c_capsule_id c = Some j} \<Longrightarrow> reserve_action_class_by_id cs m i = m i"
  by (induction cs arbitrary: m) (auto split: option.splits)

lemma reserve_class_no_reserve:
  "(\<And>c. c \<in> set cs \<Longrightarrow> c_capsule_id c = Some i \<Longrightarrow> \<not> prefix ''hold.reserve/'' (action_id_of c)) \<Longrightarrow>
     reserve_action_class_by_id cs m i = m i"
  by (induction cs arbitrary: m) (auto split: option.splits)

lemma reserve_class_lookup:
  assumes "distinct (map c_capsule_id cs)" "c \<in> set cs" "c_capsule_id c = Some i" "i \<noteq> []"
    "prefix ''hold.reserve/'' (action_id_of c)"
  shows "reserve_action_class_by_id cs m i = Some (hold_scope_class c)"
  using assms
proof (induction cs arbitrary: m)
  case Nil
  then show ?case by simp
next
  case (Cons x xs)
  show ?case
  proof (cases "x = c")
    case True
    with Cons.prems(1,3) have "i \<notin> {j. \<exists>c \<in> set xs. c_capsule_id c = Some j}"
      by (auto simp: image_iff)
    with True Cons.prems(3-5) show ?thesis
      by (simp add: reserve_class_other)
  next
    case False
    with Cons.prems have "c \<in> set xs" "distinct (map c_capsule_id xs)" by auto
    then show ?thesis
      using Cons.IH [OF _ _ Cons.prems(3-5)] by (auto split: option.splits)
  qed
qed

text \<open>A record of a ledger whose chain parents all precede it keeps its contribution when a line
  with a new id is appended.\<close>

definition parents_in :: "capsule list \<Rightarrow> bool" where
  "parents_in cs \<longleftrightarrow>
     (\<forall>c \<in> set cs. \<forall>ch. c_chain c = Some ch \<and> prefix ''hold.'' (action_id_of c) \<longrightarrow>
        Some (ch_parent ch) \<in> c_capsule_id ` set cs)"

lemma contribution_append_stable:
  assumes "parents_in cs" "c \<in> set cs" "c_capsule_id x \<notin> c_capsule_id ` set cs"
  shows "contribution d cls t (reserve_action_class_by_id (cs @ [x]) m) c
       = contribution d cls t (reserve_action_class_by_id cs m) c"
proof -
  have "reserve_action_class_by_id (cs @ [x]) m (ch_parent ch)
      = reserve_action_class_by_id cs m (ch_parent ch)"
    if "c_chain c = Some ch" "prefix ''hold.'' (action_id_of c)" for ch
  proof -
    have "Some (ch_parent ch) \<noteq> c_capsule_id x"
      using assms that by (auto simp: parents_in_def)
    then show ?thesis
      by (auto simp: reserve_class_append split: option.splits)
  qed
  then show ?thesis
    by (auto simp: contribution_def record_action_class_def split: option.splits)
qed

lemma exposure_append:
  assumes "parents_in cs" "c_capsule_id x \<notin> c_capsule_id ` set cs"
  shows "exposure (cs @ [x]) d cls = exposure cs d cls
    + contribution d cls None
        (if cls \<noteq> None then reserve_action_class_by_id (cs @ [x]) Map.empty else Map.empty) x"
proof -
  have "map (contribution d cls None (reserve_action_class_by_id (cs @ [x]) Map.empty)) cs
      = map (contribution d cls None (reserve_action_class_by_id cs Map.empty)) cs"
    using assms by (simp add: contribution_append_stable)
  then show ?thesis
    by (cases cls) (simp_all add: exposure_def del: map_eq_conv)
qed

text \<open>A record that is not accepted, or not a hold record, adds nothing.\<close>

lemma contribution_not_accepted:
  "map_option d_decision (c_disposition c) \<noteq> Some ''accept'' \<Longrightarrow> contribution d cls t m c = 0"
  by (simp add: contribution_def)

lemma contribution_not_hold:
  "\<not> prefix ''hold.'' (action_id_of c) \<Longrightarrow> contribution d cls t m c = 0"
  by (simp add: contribution_def)

end
