(* ===== verification/Hold_Engine.thy ===== *)
theory Hold_Engine
  imports Hold_Aggregate
begin

text \<open>
  \<open>holds/engine.py\<close>.  Every branch of an operation builds at most one capsule, appends it and
  returns a \<open>HoldDecision\<close> that carries it.  An operation is therefore a \<open>plan\<close>, the decision
  computed from what was read of the ledger, followed by \<open>commit\<close>, the one append.  The split is
  what \<open>Hold_Concurrency\<close> interleaves: the plan is made under the scope's lock from a snapshot,
  and other scopes may append before the commit.
\<close>

section \<open>States and decisions\<close>

datatype hold_status = ACTIVE | RELEASED | EXPIRED | RECONCILED | AMBIGUOUS

fun status_value :: "hold_status \<Rightarrow> string" where
  "status_value ACTIVE = ''active''"
| "status_value RELEASED = ''released''"
| "status_value EXPIRED = ''expired''"
| "status_value RECONCILED = ''reconciled''"
| "status_value AMBIGUOUS = ''ambiguous''"

record hold_decision =
  h_outcome :: outcome
  h_capsule :: "capsule option"
  h_reason :: string
  h_reason_code :: "string option"
  h_hold_status :: "hold_status option"
  h_aggregate_minor :: "int option"

definition verb_of :: "capsule \<Rightarrow> string" where
  "verb_of c = takeWhile (\<lambda>x. x \<noteq> CHR ''/'') (action_id_of c)"

definition terminal_verbs :: "string \<Rightarrow> hold_status option" where
  "terminal_verbs v =
     (if v = ''hold.release'' then Some RELEASED
      else if v = ''hold.expire'' then Some EXPIRED
      else if v = ''hold.reconcile'' then Some RECONCILED else None)"

definition engine_append :: "hold_cfg \<Rightarrow> henv \<Rightarrow> capsule \<Rightarrow> capsule list \<Rightarrow> hold_exn + capsule list" where
  "engine_append cfg env c L =
     (if g_layout_flat cfg \<and> g_flat_writes_stopped cfg then Inl FlatLedgerWriteRefused
      else append_to_ledger env c L)"

interpretation engine_log: audit_log "engine_append cfg" c_capsule_id for cfg
  by unfold_locales
    (auto simp: engine_append_def ledger_file.app_present dest: ledger_file.app_shape
       ledger_file.app_conflict split: if_splits)

definition commit :: "hold_cfg \<Rightarrow> henv \<Rightarrow> hold_decision \<Rightarrow> capsule list \<Rightarrow>
    hold_exn + (hold_decision \<times> capsule list)" where
  "commit cfg env d L =
     (case h_capsule d of
        None \<Rightarrow> Inr (d, L)
      | Some c \<Rightarrow> sbind (engine_append cfg env c L) (\<lambda>L'. Inr (d, L')))"

section \<open>Python arithmetic on an amount\<close>

definition py_add :: "hold_cfg \<Rightarrow> int \<Rightarrow> json \<Rightarrow> hold_exn + json" where
  "py_add cfg i v =
     (case v of
        JInt j \<Rightarrow> Inr (JInt (i + j))
      | JBool b \<Rightarrow> Inr (JInt (i + of_bool b))
      | JFloat f \<Rightarrow> Inr (JFloat (g_float_add cfg i f))
      | _ \<Rightarrow> Inl PyTypeError)"

definition py_rsub :: "hold_cfg \<Rightarrow> int \<Rightarrow> json \<Rightarrow> hold_exn + json" where
  "py_rsub cfg i v =
     (case v of
        JInt j \<Rightarrow> Inr (JInt (i - j))
      | JBool b \<Rightarrow> Inr (JInt (i - of_bool b))
      | JFloat f \<Rightarrow> Inr (JFloat (g_float_rsub cfg i f))
      | _ \<Rightarrow> Inl PyTypeError)"

definition py_gt :: "hold_cfg \<Rightarrow> json \<Rightarrow> int \<Rightarrow> bool" where
  "py_gt cfg v i =
     (case v of JInt j \<Rightarrow> j > i | JFloat f \<Rightarrow> g_float_gt cfg f i | _ \<Rightarrow> False)"

definition py_le :: "hold_cfg \<Rightarrow> json \<Rightarrow> int \<Rightarrow> bool" where
  "py_le cfg v i =
     (case v of JInt j \<Rightarrow> j \<le> i | JFloat f \<Rightarrow> g_float_le cfg f i | _ \<Rightarrow> False)"

lemmas py_arith = py_add_def py_rsub_def py_gt_def py_le_def

section \<open>Evaluate and reserve\<close>

definition plan_deny :: "hold_cfg \<Rightarrow> henv \<Rightarrow> action \<Rightarrow> string \<Rightarrow> string \<Rightarrow> int option \<Rightarrow> hold_decision" where
  "plan_deny cfg env a reason_code reason aggregate_before =
     \<lparr>h_outcome = DENY,
      h_capsule = Some (build_hold_decision_capsule cfg env a DENY reason_code reason
                          aggregate_before None CONFIRMS),
      h_reason = reason, h_reason_code = Some reason_code, h_hold_status = None,
      h_aggregate_minor = None\<rparr>"

definition cap_reason :: "hold_cfg \<Rightarrow> int \<Rightarrow> json \<Rightarrow> int \<Rightarrow> string option \<Rightarrow> string" where
  "cap_reason cfg current requested cap cls =
     ''aggregate '' @ int_str current @ '' + requested '' @ g_py_str cfg requested @
     '' exceeds cap '' @ int_str cap @ '' for '' @ g_py_repr cfg cls"

definition plan_reserve :: "hold_cfg \<Rightarrow> henv \<Rightarrow> action \<Rightarrow> capsule list \<Rightarrow> hold_exn + hold_decision" where
  "plan_reserve cfg env a L =
     (let current = exposure (read_ledger L) (act_developer a) (act_action_class a);
          requested = (case act_amount_minor a of JNull \<Rightarrow> JInt 0 | v \<Rightarrow> v);
          cap = g_cap_minor cfg (act_action_class a);
          reserve =
            sbind (build_hold_reserve_capsule cfg env a requested current cap) (\<lambda>c.
            sbind (check_integer_amount requested) (\<lambda>amount.
              Inr \<lparr>h_outcome = ALLOW, h_capsule = Some c, h_reason = ''reserved'',
                   h_reason_code = None, h_hold_status = Some ACTIVE,
                   h_aggregate_minor = Some (current + amount)\<rparr>))
      in (case cap of
            None \<Rightarrow> reserve
          | Some limit \<Rightarrow> sbind (py_add cfg current requested) (\<lambda>next.
              if py_gt cfg next limit
              then Inr (plan_deny cfg env a CAP_EXCEEDED
                         (cap_reason cfg current requested limit (act_action_class a)) (Some current))
              else reserve)))"

definition plan_evaluate :: "hold_cfg \<Rightarrow> henv \<Rightarrow> action \<Rightarrow> capsule list \<Rightarrow> hold_exn + hold_decision" where
  "plan_evaluate cfg env a L =
     (if \<not> e_engine_available env
      then Inr (plan_deny cfg env a SEQUENCER_UNAVAILABLE
        ''scope serialization point is unreachable; fail closed (no reserve -> no pass)'' None)
      else plan_reserve cfg env a L)"

definition evaluate_and_reserve ::
    "hold_cfg \<Rightarrow> henv \<Rightarrow> action \<Rightarrow> capsule list \<Rightarrow> hold_exn + (hold_decision \<times> capsule list)" where
  "evaluate_and_reserve cfg env a L = sbind (plan_evaluate cfg env a L) (\<lambda>d. commit cfg env d L)"

section \<open>Hold status\<close>

text \<open>\<open>by_id.get(id)\<close>, where \<open>by_id\<close> keeps the last record of each non-empty id.\<close>

definition by_id :: "capsule list \<Rightarrow> string \<Rightarrow> capsule option" where
  "by_id records i =
     (if i = [] then None else find (\<lambda>r. c_capsule_id r = Some i) (rev records))"

definition closes :: "string \<Rightarrow> capsule \<Rightarrow> bool" where
  "closes reserve_id r \<longleftrightarrow>
     (case c_chain r of
        None \<Rightarrow> False
      | Some ch \<Rightarrow> ch_parent ch = reserve_id \<and> ch_relation ch = SUPERSEDES) \<and>
     terminal_verbs (verb_of r) \<noteq> None"

definition hold_status :: "hold_cfg \<Rightarrow> capsule list \<Rightarrow> string \<Rightarrow> hold_status \<times> capsule option" where
  "hold_status cfg L reserve_id =
     (case by_id (read_ledger L) reserve_id of
        None \<Rightarrow> (AMBIGUOUS, None)
      | Some reserve_record \<Rightarrow>
          if \<not> g_verify_ok cfg reserve_record then (AMBIGUOUS, None)
          else (case find (closes reserve_id) (read_ledger L) of
                  None \<Rightarrow> (ACTIVE, None)
                | Some r \<Rightarrow>
                    if \<not> g_verify_ok cfg r then (AMBIGUOUS, Some r)
                    else (the (terminal_verbs (verb_of r)), Some r)))"

section \<open>Release, expire, reconcile\<close>

definition class_of_json :: "json \<Rightarrow> string option" where
  "class_of_json v = (case v of JStr s \<Rightarrow> Some s | _ \<Rightarrow> None)"

definition reserved_amount_of :: "capsule \<Rightarrow> json" where
  "reserved_amount_of r =
     (case map_of (c_asg_payload r) ''reserved_amount_minor'' of None \<Rightarrow> JInt 0 | Some v \<Rightarrow> v)"

definition developer_of :: "capsule \<Rightarrow> string" where
  "developer_of r = (case c_developer r of None \<Rightarrow> '''' | Some d \<Rightarrow> d)"

definition operator_of :: "capsule \<Rightarrow> string" where
  "operator_of r = (case c_operator r of None \<Rightarrow> '''' | Some d \<Rightarrow> d)"

definition attempt_action :: "capsule \<Rightarrow> string \<Rightarrow> action" where
  "attempt_action r verb =
     \<lparr>act_verb = (if prefix ''hold.'' verb then verb else ''hold.'' @ verb),
      act_operator = operator_of r, act_developer = developer_of r,
      act_action_class = class_of_json (hold_scope_class r),
      act_action_id = None, act_timestamp = None, act_amount_minor = JNull,
      act_currency = dget (c_asg_payload r) ''currency'',
      act_target = dget (c_asg_payload r) ''target'', act_expires_at = JNull\<rparr>"

text \<open>The horizontal ellipsis of the messages, in UTF-8.\<close>

definition short_id :: "string \<Rightarrow> string" where
  "short_id i = take 16 i @ [CHR 0xE2, CHR 0x80, CHR 0xA6]"

definition not_found_decision :: "string \<Rightarrow> hold_decision" where
  "not_found_decision i =
     \<lparr>h_outcome = DENY, h_capsule = None,
      h_reason = HOLD_NOT_FOUND @ '': hold '' @ short_id i @ '' not found'',
      h_reason_code = Some HOLD_NOT_FOUND, h_hold_status = None, h_aggregate_minor = None\<rparr>"

definition terminal_reason :: "string \<Rightarrow> hold_status \<Rightarrow> string \<Rightarrow> string \<times> string" where
  "terminal_reason i status verb =
     (if status = AMBIGUOUS then
        (HOLD_STATUS_AMBIGUOUS, ''hold '' @ short_id i @ '' status could not be determined '' @
          ''(missing or unverifiable record); failing closed as terminal for this consequential class'')
      else if status = EXPIRED \<and> verb = ''reconcile'' then
        (RECONCILE_AFTER_EXPIRY, ''hold '' @ short_id i @
          '' already expired; a late approval is authentication, '' @
          ''not authorization -- resume requires a fresh evaluate_and_reserve, not resumption/'' @
          ''reconciliation of the expired hold'')
      else
        (HOLD_ALREADY_TERMINAL, ''hold '' @ short_id i @ '' is already '' @ status_value status @
          ''; cannot '' @ verb @ '' it again''))"

definition plan_deny_terminal ::
    "hold_cfg \<Rightarrow> henv \<Rightarrow> string \<Rightarrow> capsule \<Rightarrow> hold_status \<Rightarrow> capsule option \<Rightarrow> string \<Rightarrow> hold_decision" where
  "plan_deny_terminal cfg env reserve_id r status terminal verb =
     (let (reason_code, reason) = terminal_reason reserve_id status verb;
          parent = (case Option.bind terminal c_capsule_id of
                      Some i \<Rightarrow> if i \<noteq> [] then i else reserve_id | None \<Rightarrow> reserve_id)
      in \<lparr>h_outcome = DENY,
          h_capsule = Some (build_hold_decision_capsule cfg env (attempt_action r verb) DENY
                              reason_code reason None (Some parent) CONFIRMS),
          h_reason = reason, h_reason_code = Some reason_code, h_hold_status = Some status,
          h_aggregate_minor = None\<rparr>)"

datatype close_verb = Release | Expire

fun close_name :: "close_verb \<Rightarrow> string" where
  "close_name Release = ''release''"
| "close_name Expire = ''expire''"

text \<open>The part of \<open>_close\<close> under the lock: \<open>r\<close> is the record the unlocked read found.\<close>

definition plan_close_locked ::
    "hold_cfg \<Rightarrow> henv \<Rightarrow> string \<Rightarrow> close_verb \<Rightarrow> string option \<Rightarrow> capsule \<Rightarrow> capsule list \<Rightarrow>
     hold_exn + hold_decision" where
  "plan_close_locked cfg env reserve_id v reason r L =
     (let (status, terminal) = hold_status cfg L reserve_id
      in if status \<noteq> ACTIVE
         then Inr (plan_deny_terminal cfg env reserve_id r status terminal (close_name v))
         else sbind ((case v of Release \<Rightarrow> build_hold_release_capsule | Expire \<Rightarrow> build_hold_expire_capsule)
                  cfg env (attempt_action r (close_name v)) reserve_id (reserved_amount_of r) reason) (\<lambda>c.
                Inr \<lparr>h_outcome = ALLOW, h_capsule = Some c,
                     h_reason = ''hold '' @ close_name v @ ''d'', h_reason_code = None,
                     h_hold_status = Some (case v of Release \<Rightarrow> RELEASED | Expire \<Rightarrow> EXPIRED),
                     h_aggregate_minor = None\<rparr>))"

definition close_hold ::
    "hold_cfg \<Rightarrow> henv \<Rightarrow> string \<Rightarrow> close_verb \<Rightarrow> string option \<Rightarrow> capsule list \<Rightarrow>
     hold_exn + (hold_decision \<times> capsule list)" where
  "close_hold cfg env reserve_id v reason L =
     (case by_id (read_ledger L) reserve_id of
        None \<Rightarrow> Inr (not_found_decision reserve_id, L)
      | Some r \<Rightarrow> sbind (plan_close_locked cfg env reserve_id v reason r L) (\<lambda>d. commit cfg env d L))"

definition release :: "hold_cfg \<Rightarrow> henv \<Rightarrow> string \<Rightarrow> string option \<Rightarrow> capsule list \<Rightarrow>
     hold_exn + (hold_decision \<times> capsule list)" where
  "release cfg env reserve_id reason L = close_hold cfg env reserve_id Release reason L"

definition expire :: "hold_cfg \<Rightarrow> henv \<Rightarrow> string \<Rightarrow> string option \<Rightarrow> capsule list \<Rightarrow>
     hold_exn + (hold_decision \<times> capsule list)" where
  "expire cfg env reserve_id reason L = close_hold cfg env reserve_id Expire reason L"

definition tolerance_of :: "hold_cfg \<Rightarrow> capsule \<Rightarrow> int" where
  "tolerance_of cfg r =
     (case g_tolerance_minor cfg (class_of_json (hold_scope_class r)) of None \<Rightarrow> 0 | Some t \<Rightarrow> t)"

definition over_tolerance_reason :: "hold_cfg \<Rightarrow> int \<Rightarrow> json \<Rightarrow> json \<Rightarrow> int \<Rightarrow> string" where
  "over_tolerance_reason cfg executed reserved delta tolerance =
     ''executed '' @ int_str executed @ '' exceeds reserved '' @ g_py_str cfg reserved @ '' by '' @
     g_py_str cfg delta @ '' (minor units), beyond tolerance '' @ int_str tolerance"

definition plan_reconcile_locked ::
    "hold_cfg \<Rightarrow> henv \<Rightarrow> string \<Rightarrow> int \<Rightarrow> string option \<Rightarrow> capsule \<Rightarrow> capsule list \<Rightarrow>
     hold_exn + hold_decision" where
  "plan_reconcile_locked cfg env reserve_id executed execution_id r L =
     (let (status, terminal) = hold_status cfg L reserve_id
      in if status \<noteq> ACTIVE
         then Inr (plan_deny_terminal cfg env reserve_id r status terminal ''reconcile'')
         else sbind (py_rsub cfg executed (reserved_amount_of r)) (\<lambda>delta.
           let tolerance = tolerance_of cfg r; attempt = attempt_action r ''reconcile''
           in if py_le cfg delta tolerance
              then sbind (build_hold_reconcile_capsule cfg env attempt reserve_id execution_id
                            (reserved_amount_of r) (JInt executed) tolerance) (\<lambda>c.
                Inr \<lparr>h_outcome = ALLOW, h_capsule = Some c, h_reason = ''reconciled'',
                     h_reason_code = None, h_hold_status = Some RECONCILED, h_aggregate_minor = None\<rparr>)
              else Inr \<lparr>h_outcome = DENY,
                     h_capsule = Some (build_hold_decision_capsule cfg env attempt DENY OVER_TOLERANCE
                       (over_tolerance_reason cfg executed (reserved_amount_of r) delta tolerance)
                       None (Some reserve_id) CONFIRMS),
                     h_reason = ''over-tolerance conversion; routed as a limit event, aggregate not silently adjusted'',
                     h_reason_code = Some OVER_TOLERANCE, h_hold_status = Some ACTIVE,
                     h_aggregate_minor = None\<rparr>))"

definition reconcile ::
    "hold_cfg \<Rightarrow> henv \<Rightarrow> string \<Rightarrow> json \<Rightarrow> string option \<Rightarrow> capsule list \<Rightarrow>
     hold_exn + (hold_decision \<times> capsule list)" where
  "reconcile cfg env reserve_id executed execution_id L =
     sbind (check_integer_amount executed) (\<lambda>exe.
       (case by_id (read_ledger L) reserve_id of
          None \<Rightarrow> Inr (not_found_decision reserve_id, L)
        | Some r \<Rightarrow> sbind (plan_reconcile_locked cfg env reserve_id exe execution_id r L)
                      (\<lambda>d. commit cfg env d L)))"

end
