(* ===== verification/Hold_Lifecycle.thy ===== *)
theory Hold_Lifecycle
  imports Hold_Engine
begin

text \<open>
  What the engine keeps of a ledger.  \<open>hold_inv\<close> is the invariant of every ledger that engine calls
  and foreign writers produce; \<open>settled\<close> is the abstract value of one hold (its reserved amount while
  it is active, nothing once it is released or expired, the executed amount once it is reconciled).
  The main lemma is that the loop of \<open>aggregate.py\<close> computes the sum of these values.
\<close>

section \<open>Operations and runs\<close>

datatype hold_op =
    EvaluateAndReserve action
  | CloseHold string close_verb "string option"
  | ReconcileHold string json "string option"

fun run_op :: "hold_cfg \<Rightarrow> henv \<Rightarrow> hold_op \<Rightarrow> capsule list \<Rightarrow> hold_exn + (hold_decision \<times> capsule list)" where
  "run_op cfg env (EvaluateAndReserve a) L = evaluate_and_reserve cfg env a L"
| "run_op cfg env (CloseHold i v reason) L = close_hold cfg env i v reason L"
| "run_op cfg env (ReconcileHold i executed execution_id) L = reconcile cfg env i executed execution_id L"

text \<open>\<open>uuid4\<close> does not repeat: no line of the ledger has an action id that ends in it.\<close>

definition fresh_uuid :: "henv \<Rightarrow> capsule list \<Rightarrow> bool" where
  "fresh_uuid env L \<longleftrightarrow> (\<forall>r \<in> set L. \<forall>v. c_action_id r \<noteq> Some (v @ ''/'' @ e_uuid env))"

text \<open>A line some other part of the library writes: not a hold record, under an id of its own.\<close>

definition foreign_line :: "capsule \<Rightarrow> capsule list \<Rightarrow> bool" where
  "foreign_line c L \<longleftrightarrow> \<not> prefix ''hold.'' (action_id_of c)
     \<and> (\<exists>i. c_capsule_id c = Some i \<and> i \<noteq> []) \<and> c_capsule_id c \<notin> c_capsule_id ` set L"

inductive hold_step :: "hold_cfg \<Rightarrow> capsule list \<Rightarrow> capsule list \<Rightarrow> bool" for cfg where
  engine: "run_op cfg env op L = Inr (d, L') \<Longrightarrow> fresh_uuid env L \<Longrightarrow> hold_step cfg L L'"
| foreign: "foreign_line c L \<Longrightarrow> hold_step cfg L (L @ [c])"

inductive hold_reachable :: "hold_cfg \<Rightarrow> capsule list \<Rightarrow> bool" for cfg where
  empty: "hold_reachable cfg []"
| step: "hold_reachable cfg L \<Longrightarrow> hold_step cfg L L' \<Longrightarrow> hold_reachable cfg L'"

text \<open>What the external functions are documented to do: an id is a nonempty hex string, and the
  verifier accepts a body under the id computed for it.\<close>

definition cfg_ok :: "hold_cfg \<Rightarrow> bool" where
  "cfg_ok cfg \<longleftrightarrow> (\<forall>b. g_compute_id cfg b \<noteq> []) \<and>
     (\<forall>b. c_capsule_id b = None \<longrightarrow> g_verify_ok cfg (seal_body cfg b))"

section \<open>What the engine writes\<close>

definition hold_built :: "hold_cfg \<Rightarrow> henv \<Rightarrow> capsule \<Rightarrow> bool" where
  "hold_built cfg env c \<longleftrightarrow> is_capsule_line c \<and> g_verify_ok cfg c \<and>
     (\<exists>i. c_capsule_id c = Some i \<and> i \<noteq> []) \<and> (\<exists>v. c_action_id c = Some (v @ ''/'' @ e_uuid env))"

definition accepted :: "capsule \<Rightarrow> bool" where
  "accepted c \<longleftrightarrow> map_option d_decision (c_disposition c) = Some ''accept''"

definition int_member :: "capsule \<Rightarrow> string \<Rightarrow> int" where
  "int_member c k = (case dget (c_asg_payload c) k of JInt i \<Rightarrow> i | _ \<Rightarrow> 0)"

definition is_reserve :: "capsule \<Rightarrow> bool" where
  "is_reserve c \<longleftrightarrow> prefix ''hold.reserve/'' (action_id_of c)"

text \<open>The three kinds of line the engine appends.\<close>

definition refusal_line :: "capsule \<Rightarrow> bool" where
  "refusal_line c \<longleftrightarrow> \<not> accepted c \<and> hold_scope_class c = JNull \<and>
     (\<forall>ch. c_chain c = Some ch \<longrightarrow> ch_relation ch = CONFIRMS)"

definition reserve_line :: "action \<Rightarrow> int \<Rightarrow> capsule \<Rightarrow> bool" where
  "reserve_line a amount c \<longleftrightarrow> accepted c \<and> is_reserve c \<and> c_chain c = None \<and>
     c_developer c = Some (act_developer a) \<and> hold_scope_class c = str_opt (act_action_class a) \<and>
     dget (c_asg_payload c) ''amount_minor'' = JInt amount \<and>
     map_of (c_asg_payload c) ''reserved_amount_minor'' = Some (JInt amount)"

definition terminal_line :: "capsule \<Rightarrow> string \<Rightarrow> hold_status \<Rightarrow> int \<Rightarrow> capsule \<Rightarrow> bool" where
  "terminal_line r reserve_id status delta c \<longleftrightarrow> accepted c \<and>
     c_chain c = Some \<lparr>ch_parent = reserve_id, ch_relation = SUPERSEDES\<rparr> \<and>
     c_developer c = Some (developer_of r) \<and> \<not> is_reserve c \<and> prefix ''hold.'' (action_id_of c) \<and>
     terminal_verbs (verb_of c) = Some status \<and> hold_scope_class c = JNull \<and>
     dget (c_asg_payload c) ''amount_minor'' = JInt delta"

lemma hold_scope_class_no_scope:
  "dget (c_asg_payload c) ''hold_scope'' = JNull \<Longrightarrow> hold_scope_class c = JNull"
  by (simp add: hold_scope_class_def sub_get_def)

lemma build_hold_built:
  assumes "cfg_ok cfg" "act_action_id ha = None"
  shows "hold_built cfg env (build_hold cfg env ha ch p dec vc cs)"
proof -
  have "c_capsule_id (hold_body env ha ch p dec vc cs) = None"
    by (simp add: hold_body_def)
  with assms(1) have "g_verify_ok cfg (build_hold cfg env ha ch p dec vc cs)"
    by (simp add: cfg_ok_def build_hold_def)
  then show ?thesis
    using assms by (simp add: hold_built_def cfg_ok_def is_capsule_line_def hold_defs)
qed

lemma build_hold_simps [simp]:
  "c_action_id (build_hold cfg env ha ch p dec vc cs) = Some (resolved_action_id env ha)"
  "c_chain (build_hold cfg env ha ch p dec vc cs) = ch"
  "c_asg_payload (build_hold cfg env ha ch p dec vc cs) = p"
  "c_developer (build_hold cfg env ha ch p dec vc cs) = Some (act_developer ha)"
  "accepted (build_hold cfg env ha ch p dec vc cs) \<longleftrightarrow> dec = ''accept''"
  by (simp_all add: build_hold_def hold_body_def seal_body_def accepted_def)

lemma hold_action_simps [simp]:
  "act_action_id (hold_action env a v) = None"
  "act_developer (hold_action env a v) = act_developer a"
  "resolved_action_id env (hold_action env a v) = v @ ''/'' @ e_uuid env"
  by (simp_all add: hold_action_def resolved_action_id_def new_action_id_def)

lemma attempt_action_simps [simp]:
  "act_developer (attempt_action r v) = developer_of r"
  by (simp add: attempt_action_def)

lemma dget_opt_member [simp]: "k \<noteq> k' \<Longrightarrow> dget (opt_member k v @ d) k' = dget d k'"
  by (cases v) (simp_all add: opt_member_def)

lemma dget_opt_member_last [simp]: "k \<noteq> k' \<Longrightarrow> dget (opt_member k v) k' = JNull"
  by (cases v) (simp_all add: opt_member_def)

lemma verb_of_slash:
  "c_action_id c = Some (v @ ''/'' @ u) \<Longrightarrow> CHR ''/'' \<notin> set v \<Longrightarrow> verb_of c = v"
  by (auto simp: verb_of_def action_id_of_def takeWhile_append)

lemma decision_capsule:
  assumes "cfg_ok cfg"
  shows "hold_built cfg env (build_hold_decision_capsule cfg env a DENY rc rs agg p CONFIRMS)"
    and "refusal_line (build_hold_decision_capsule cfg env a DENY rc rs agg p CONFIRMS)"
    and "c_chain (build_hold_decision_capsule cfg env a DENY rc rs agg p CONFIRMS)
         = map_option (\<lambda>q. \<lparr>ch_parent = q, ch_relation = CONFIRMS\<rparr>) p"
  using assms
  by (auto simp: build_hold_decision_capsule_def build_hold_built refusal_line_def
      disposition_by_outcome_def hold_scope_class_no_scope split: option.splits)

lemma reserve_capsule:
  assumes "cfg_ok cfg" "build_hold_reserve_capsule cfg env a v agg cap = Inr c"
  shows "hold_built cfg env c" and "\<exists>i. v = JInt i \<and> reserve_line a i c"
  using assms
  by (auto simp: build_hold_reserve_capsule_def build_hold_built res_simps reserve_line_def
      is_reserve_def action_id_of_def hold_scope_class_def sub_get_def)

lemma terminal_capsule:
  assumes "cfg_ok cfg"
  shows "build_hold_release_capsule cfg env (attempt_action r w) i v reason = Inr c \<Longrightarrow>
      hold_built cfg env c \<and> (\<exists>a. v = JInt a \<and> terminal_line r i RELEASED (- a) c)"
    and "build_hold_expire_capsule cfg env (attempt_action r w) i v reason = Inr c \<Longrightarrow>
      hold_built cfg env c \<and> (\<exists>a. v = JInt a \<and> terminal_line r i EXPIRED (- a) c)"
    and "build_hold_reconcile_capsule cfg env (attempt_action r w) i ex v (JInt exe) tol = Inr c \<Longrightarrow>
      hold_built cfg env c \<and> (\<exists>a. v = JInt a \<and> terminal_line r i RECONCILED (exe - a) c
        \<and> int_member c ''executed_amount_minor'' = exe)"
  using assms
  by (auto simp: build_hold_release_capsule_def build_hold_expire_capsule_def int_member_def
      build_hold_reconcile_capsule_def build_hold_built res_simps terminal_line_def is_reserve_def
      action_id_of_def hold_scope_class_def sub_get_def verb_of_def terminal_verbs_def)

end
