(* ===== verification/Hold_Refinement.thy ===== *)
theory Hold_Refinement
  imports Hold_Lifecycle
begin

text \<open>
  The invariant of engine ledgers and the refinement: the aggregate is the sum of the settled values
  of the holds.  Appending one line changes both sides in the same way; the cases are the three
  kinds of line the engine writes.
\<close>

section \<open>Looking up and closing after an append\<close>

lemma by_id_append:
  "by_id (xs @ [x]) i = (if i \<noteq> [] \<and> c_capsule_id x = Some i then Some x else by_id xs i)"
  by (simp add: by_id_def)

lemma by_id_SomeD: "by_id xs i = Some r \<Longrightarrow> r \<in> set xs \<and> c_capsule_id r = Some i \<and> i \<noteq> []"
  by (auto simp: by_id_def dest: find_SomeD split: if_splits)

lemma by_id_distinct:
  assumes "distinct (map c_capsule_id xs)" "r \<in> set xs" "c_capsule_id r = Some i" "i \<noteq> []"
  shows "by_id xs i = Some r"
proof -
  have "find (\<lambda>r. c_capsule_id r = Some i) (rev xs) \<noteq> None"
    using assms(2,3) by (auto simp: find_None_iff)
  then obtain r' where r': "by_id xs i = Some r'"
    using assms(4) by (auto simp: by_id_def)
  then have "r' \<in> set xs" "c_capsule_id r' = Some i"
    by (auto dest: by_id_SomeD)
  with assms(1-3) have "r' = r"
    by (auto simp: distinct_map inj_on_def)
  with r' show ?thesis by simp
qed

lemma hold_status_active_iff: "hold_status cfg L i = (ACTIVE, t) \<longleftrightarrow>
    t = None \<and> (\<exists>r. by_id (read_ledger L) i = Some r \<and> g_verify_ok cfg r)
      \<and> find (closes i) (read_ledger L) = None"
proof -
  have "the (terminal_verbs (verb_of x)) \<noteq> ACTIVE" if "find (closes i) (read_ledger L) = Some x" for x
    using find_SomeD [OF that] by (auto simp: closes_def terminal_verbs_def split: if_splits)
  then show ?thesis
    by (auto simp: hold_status_def split: option.splits if_splits)
qed

lemma closes_hold: "closes i r \<Longrightarrow> prefix ''hold.'' (action_id_of r)"
proof -
  assume "closes i r"
  then have "takeWhile (\<lambda>x. x \<noteq> CHR ''/'') (action_id_of r)
      \<in> {''hold.release'', ''hold.expire'', ''hold.reconcile''}"
    by (auto simp: closes_def terminal_verbs_def verb_of_def split: if_splits)
  then have "prefix ''hold.'' (takeWhile (\<lambda>x. x \<noteq> CHR ''/'') (action_id_of r))"
    by auto
  then show ?thesis
    by (meson prefix_order.trans takeWhile_is_prefix)
qed

lemma hold_status_append_other:
  assumes "c_capsule_id x \<noteq> Some i" "is_capsule_line x \<Longrightarrow> \<not> closes i x"
  shows "hold_status cfg (L @ [x]) i = hold_status cfg L i"
  using assms
  by (cases "is_capsule_line x")
     (auto simp: hold_status_def read_ledger_def by_id_append find_append split: option.splits)

lemma hold_status_append_terminal:
  assumes "hold_status cfg L i = (ACTIVE, t)" "closes i x" "g_verify_ok cfg x"
    "c_capsule_id x \<noteq> Some i" "is_capsule_line x"
  shows "hold_status cfg (L @ [x]) i = (the (terminal_verbs (verb_of x)), Some x)"
  using assms
  by (auto simp: hold_status_active_iff hold_status_def [of cfg "L @ [x]"] read_ledger_def
      by_id_append find_append split: option.splits)

lemma hold_status_new:
  assumes "c_capsule_id x = Some i" "i \<noteq> []" "g_verify_ok cfg x" "is_capsule_line x"
    "\<And>r. r \<in> set L \<Longrightarrow> \<not> closes i r" "\<not> closes i x"
  shows "hold_status cfg (L @ [x]) i = (ACTIVE, None)"
  using assms
  by (auto simp: hold_status_active_iff read_ledger_def by_id_append find_append find_None_iff
      split: option.splits)

section \<open>The invariant\<close>

definition ids :: "capsule list \<Rightarrow> string option set" where
  "ids L = c_capsule_id ` set L"

definition hold_line_ok :: "hold_cfg \<Rightarrow> capsule list \<Rightarrow> capsule \<Rightarrow> bool" where
  "hold_line_ok cfg L r \<longleftrightarrow>
     (prefix ''hold.'' (action_id_of r) \<longrightarrow>
        is_capsule_line r \<and> g_verify_ok cfg r \<and>
        (\<forall>ch. c_chain r = Some ch \<longrightarrow> Some (ch_parent ch) \<in> ids (read_ledger L))) \<and>
     (is_reserve r \<and> hold_scope_class r \<noteq> JNull \<longrightarrow>
        accepted r \<and> c_developer r \<noteq> None \<and>
        (\<exists>a. dget (c_asg_payload r) ''amount_minor'' = JInt a \<and>
             map_of (c_asg_payload r) ''reserved_amount_minor'' = Some (JInt a)))"

definition hold_inv :: "hold_cfg \<Rightarrow> capsule list \<Rightarrow> bool" where
  "hold_inv cfg L \<longleftrightarrow> distinct (map c_capsule_id L) \<and>
     (\<forall>r \<in> set L. \<exists>i. c_capsule_id r = Some i \<and> i \<noteq> []) \<and>
     (\<forall>r \<in> set L. hold_line_ok cfg L r)"

lemma ids_append [simp]: "ids (L @ [x]) = insert (c_capsule_id x) (ids L)"
  by (simp add: ids_def)

lemma ids_read_ledger: "ids (read_ledger L) \<subseteq> ids L"
  by (auto simp: ids_def read_ledger_def)

lemma is_reserve_hold: "is_reserve r \<Longrightarrow> prefix ''hold.'' (action_id_of r)"
  by (auto simp: is_reserve_def prefix_def)

lemma hold_line_ok_append: "hold_line_ok cfg L r \<Longrightarrow> hold_line_ok cfg (L @ [x]) r"
  by (auto simp: hold_line_ok_def ids_def read_ledger_def)

lemma hold_inv_Nil [simp]: "hold_inv cfg []"
  by (simp add: hold_inv_def)

lemma hold_inv_append:
  assumes "hold_inv cfg L" "c_capsule_id x \<notin> ids L" "c_capsule_id x = Some i" "i \<noteq> []"
    "hold_line_ok cfg L x"
  shows "hold_inv cfg (L @ [x])"
  using assms by (auto simp: hold_inv_def ids_def hold_line_ok_append)

lemma hold_inv_parents: "hold_inv cfg L \<Longrightarrow> parents_in (read_ledger L)"
  by (auto simp: parents_in_def hold_inv_def hold_line_ok_def ids_def read_ledger_def)

lemma hold_inv_distinct: "hold_inv cfg L \<Longrightarrow> distinct (map c_capsule_id (read_ledger L))"
  unfolding read_ledger_def hold_inv_def by (simp add: distinct_map_filter)

section \<open>The abstract value of the holds\<close>

definition settled :: "hold_cfg \<Rightarrow> capsule list \<Rightarrow> capsule \<Rightarrow> int" where
  "settled cfg L r =
     (case c_capsule_id r of
        None \<Rightarrow> 0
      | Some i \<Rightarrow>
          (case hold_status cfg L i of
             (ACTIVE, _) \<Rightarrow> int_member r ''reserved_amount_minor''
           | (RECONCILED, Some t) \<Rightarrow> int_member t ''executed_amount_minor''
           | _ \<Rightarrow> 0))"

definition scope_holds :: "capsule list \<Rightarrow> string \<Rightarrow> string \<Rightarrow> capsule list" where
  "scope_holds L d c =
     filter (\<lambda>r. is_reserve r \<and> c_developer r = Some d \<and> hold_scope_class r = JStr c) (read_ledger L)"

definition settled_total :: "hold_cfg \<Rightarrow> capsule list \<Rightarrow> string \<Rightarrow> string \<Rightarrow> int" where
  "settled_total cfg L d c = sum_list (map (settled cfg L) (scope_holds L d c))"

lemma scope_holds_append:
  "scope_holds (L @ [x]) d c = scope_holds L d c @
     (if is_capsule_line x \<and> is_reserve x \<and> c_developer x = Some d \<and> hold_scope_class x = JStr c
      then [x] else [])"
  by (simp add: scope_holds_def read_ledger_def)

lemma scope_holdsD:
  "r \<in> set (scope_holds L d c) \<Longrightarrow>
     r \<in> set (read_ledger L) \<and> is_reserve r \<and> c_developer r = Some d \<and> hold_scope_class r = JStr c"
  by (simp add: scope_holds_def)

lemma sum_list_change_one:
  fixes f g :: "'a \<Rightarrow> int"
  assumes "distinct xs" "r \<in> set xs" "\<And>y. y \<in> set xs \<Longrightarrow> y \<noteq> r \<Longrightarrow> f y = g y"
  shows "sum_list (map f xs) = sum_list (map g xs) + (f r - g r)"
  using assms
proof (induction xs)
  case Nil
  then show ?case by simp
next
  case (Cons x xs)
  show ?case
  proof (cases "x = r")
    case True
    with Cons.prems have "map f xs = map g xs" by auto
    with True show ?thesis by (simp del: map_eq_conv)
  next
    case False
    with Cons.prems have "sum_list (map f xs) = sum_list (map g xs) + (f r - g r)"
      by (intro Cons.IH) auto
    with False Cons.prems(3) [of x] show ?thesis by simp
  qed
qed

lemma settled_append_other:
  assumes "hold_inv cfg L" "c_capsule_id x \<notin> ids L" "r \<in> set (scope_holds L d c)"
    "\<And>i. c_capsule_id r = Some i \<Longrightarrow> \<not> closes i x"
  shows "settled cfg (L @ [x]) r = settled cfg L r"
proof -
  have "r \<in> set L"
    using scope_holdsD [OF assms(3)] by (simp add: read_ledger_def)
  then obtain i where i: "c_capsule_id r = Some i" and "c_capsule_id x \<noteq> Some i"
    using assms(1,2) by (auto simp: hold_inv_def ids_def) (metis image_eqI)
  then have "hold_status cfg (L @ [x]) i = hold_status cfg L i"
    using assms(4) by (intro hold_status_append_other) auto
  then show ?thesis
    by (simp add: settled_def i)
qed

text \<open>The three appends.\<close>

lemma settled_total_neutral:
  assumes "hold_inv cfg L" "c_capsule_id x \<notin> ids L" "\<not> (is_reserve x \<and> hold_scope_class x = JStr c)"
    "\<And>i. \<not> closes i x"
  shows "settled_total cfg (L @ [x]) d c = settled_total cfg L d c"
proof -
  have "scope_holds (L @ [x]) d c = scope_holds L d c"
    using assms(3) by (simp add: scope_holds_append)
  moreover have "map (settled cfg (L @ [x])) (scope_holds L d c) = map (settled cfg L) (scope_holds L d c)"
    using assms by (auto intro: settled_append_other)
  ultimately show ?thesis
    by (simp add: settled_total_def del: map_eq_conv)
qed

lemma settled_total_reserve:
  assumes inv: "hold_inv cfg L" and id: "c_capsule_id x \<notin> ids L" "c_capsule_id x = Some i" "i \<noteq> []"
    and line: "reserve_line a amount x" and ok: "g_verify_ok cfg x" "is_capsule_line x"
  shows "settled_total cfg (L @ [x]) d c = settled_total cfg L d c
    + (if act_developer a = d \<and> act_action_class a = Some c then amount else 0)"
proof -
  have nc: "\<not> closes j x" for j
    using line by (simp add: reserve_line_def closes_def)
  have old: "map (settled cfg (L @ [x])) (scope_holds L d c) = map (settled cfg L) (scope_holds L d c)"
    using inv id nc by (auto intro: settled_append_other)
  have "\<not> closes i r" if "r \<in> set L" for r
  proof
    assume "closes i r"
    then have "Some i \<in> ids (read_ledger L)"
      using that inv closes_hold [of i r]
      by (auto simp: hold_inv_def hold_line_ok_def closes_def split: option.splits)
    with id ids_read_ledger [of L] show False by auto
  qed
  then have "hold_status cfg (L @ [x]) i = (ACTIVE, None)"
    using id ok nc by (intro hold_status_new) auto
  then have "settled cfg (L @ [x]) x = amount"
    using id line by (simp add: settled_def reserve_line_def int_member_def dget_def)
  moreover have "hold_scope_class x = JStr c \<longleftrightarrow> act_action_class a = Some c"
    using line by (auto simp: reserve_line_def str_opt_def split: option.splits)
  ultimately show ?thesis
    using line old ok
    by (auto simp: settled_total_def scope_holds_append reserve_line_def simp del: map_eq_conv)
qed

lemma distinct_scope_holds: "hold_inv cfg L \<Longrightarrow> distinct (scope_holds L d c)"
  unfolding scope_holds_def read_ledger_def hold_inv_def by (auto simp: distinct_map)

lemma settled_total_terminal:
  assumes inv: "hold_inv cfg L" and id: "c_capsule_id x \<notin> ids L"
    and r: "by_id (read_ledger L) i = Some r" and active: "hold_status cfg L i = (ACTIVE, None)"
    and line: "terminal_line r i st delta x" and ok: "g_verify_ok cfg x" "is_capsule_line x"
    and val: "st = RECONCILED \<Longrightarrow> int_member x ''executed_amount_minor'' = delta + int_member r ''reserved_amount_minor''"
      "st \<noteq> RECONCILED \<Longrightarrow> delta = - int_member r ''reserved_amount_minor''"
  shows "settled_total cfg (L @ [x]) d c = settled_total cfg L d c
    + (if is_reserve r \<and> c_developer r = Some d \<and> hold_scope_class r = JStr c then delta else 0)"
proof -
  have same: "scope_holds (L @ [x]) d c = scope_holds L d c"
    using line by (simp add: scope_holds_append terminal_line_def)
  have rL: "r \<in> set (read_ledger L)" "c_capsule_id r = Some i"
    using by_id_SomeD [OF r] by auto
  have cl: "closes j x \<longleftrightarrow> j = i" for j
    using line by (auto simp: closes_def terminal_line_def)
  have others: "settled cfg (L @ [x]) y = settled cfg L y" if "y \<in> set (scope_holds L d c)" "y \<noteq> r" for y
  proof -
    have "inj_on c_capsule_id (set (read_ledger L))"
      using hold_inv_distinct [OF inv] by (simp add: distinct_map)
    then have "c_capsule_id y \<noteq> Some i"
      using scope_holdsD [OF that(1)] that(2) rL by (metis inj_onD)
    with inv id that(1) cl show ?thesis
      by (intro settled_append_other) auto
  qed
  have "Some i \<in> ids L"
    using rL ids_read_ledger [of L] by (metis ids_def image_eqI subsetD)
  then have "c_capsule_id x \<noteq> Some i"
    using id by metis
  then have "hold_status cfg (L @ [x]) i = (st, Some x)"
    using hold_status_append_terminal [OF active, of x] cl ok line by (simp add: terminal_line_def)
  moreover have "st \<in> {RELEASED, EXPIRED, RECONCILED}"
    using line by (auto simp: terminal_line_def terminal_verbs_def split: if_splits)
  ultimately have "settled cfg (L @ [x]) r
      = (if st = RECONCILED then int_member x ''executed_amount_minor'' else 0)"
    by (auto simp: settled_def rL(2))
  moreover have "settled cfg L r = int_member r ''reserved_amount_minor''"
    by (simp add: settled_def rL(2) active)
  ultimately have change: "settled cfg (L @ [x]) r - settled cfg L r = delta"
    using val by (cases "st = RECONCILED") simp_all
  show ?thesis
  proof (cases "r \<in> set (scope_holds L d c)")
    case True
    then have "is_reserve r \<and> c_developer r = Some d \<and> hold_scope_class r = JStr c"
      by (simp add: scope_holdsD)
    with sum_list_change_one [OF distinct_scope_holds [OF inv] True others] change same show ?thesis
      by (simp add: settled_total_def)
  next
    case False
    then have "map (settled cfg (L @ [x])) (scope_holds L d c) = map (settled cfg L) (scope_holds L d c)"
      using others by auto
    with False rL same show ?thesis
      by (auto simp: settled_total_def scope_holds_def simp del: map_eq_conv)
  qed
qed

end
