(* ===== verification/Hold_Safety.thy ===== *)
theory Hold_Safety
  imports Hold_Refinement
begin

text \<open>
  \<open>line_effect\<close> is the abstract specification of one append: which lines may follow a ledger, with
  the guards under which the engine writes them.  Every engine call either leaves the ledger alone
  or appends one line with such an effect; the invariant, the refinement to settled values and the
  cap all follow by cases on it.
\<close>

section \<open>The abstract transition\<close>

definition new_line :: "hold_cfg \<Rightarrow> capsule list \<Rightarrow> capsule \<Rightarrow> bool" where
  "new_line cfg L x \<longleftrightarrow> is_capsule_line x \<and> g_verify_ok cfg x \<and> c_capsule_id x \<notin> ids L \<and>
     (\<exists>i. c_capsule_id x = Some i \<and> i \<noteq> [])"

text \<open>\<open>ok\<close> says which amounts callers request.\<close>

fun requested_amount :: "action \<Rightarrow> json" where
  "requested_amount a = (case act_amount_minor a of JNull \<Rightarrow> JInt 0 | v \<Rightarrow> v)"

definition request_ok :: "(int \<Rightarrow> bool) \<Rightarrow> hold_op \<Rightarrow> bool" where
  "request_ok ok op \<longleftrightarrow>
     (case op of EvaluateAndReserve a \<Rightarrow> (\<forall>i. requested_amount a = JInt i \<longrightarrow> ok i) | _ \<Rightarrow> True)"

inductive line_effect :: "hold_cfg \<Rightarrow> (int \<Rightarrow> bool) \<Rightarrow> capsule list \<Rightarrow> capsule \<Rightarrow> bool" for cfg ok L where
  refusal: "\<lbrakk>new_line cfg L x; refusal_line x;
      \<And>ch. c_chain x = Some ch \<Longrightarrow> Some (ch_parent ch) \<in> ids (read_ledger L)\<rbrakk>
    \<Longrightarrow> line_effect cfg ok L x"
| reserve: "\<lbrakk>new_line cfg L x; reserve_line a amount x; ok amount;
      \<And>cap. g_cap_minor cfg (act_action_class a) = Some cap \<Longrightarrow>
        exposure (read_ledger L) (act_developer a) (act_action_class a) + amount \<le> cap\<rbrakk>
    \<Longrightarrow> line_effect cfg ok L x"
| terminal: "\<lbrakk>new_line cfg L x; by_id (read_ledger L) i = Some r; hold_status cfg L i = (ACTIVE, None);
      terminal_line r i st delta x; reserved_amount_of r = JInt amount;
      st = RECONCILED \<Longrightarrow> delta \<le> tolerance_of cfg r \<and> int_member x ''executed_amount_minor'' = delta + amount;
      st \<noteq> RECONCILED \<Longrightarrow> delta = - amount\<rbrakk>
    \<Longrightarrow> line_effect cfg ok L x"
| foreign: "foreign_line x L \<Longrightarrow> line_effect cfg ok L x"

section \<open>Engine calls have these effects\<close>

lemma commit_new_line:
  assumes "commit cfg env d L = Inr (d', L')" "h_capsule d = Some x" "hold_built cfg env x"
    "fresh_uuid env L"
  shows "L' = L @ [x] \<and> new_line cfg L x \<and> d' = d"
proof -
  from assms(1,2) have app: "append_to_ledger env x L = Inr L'" and d: "d' = d"
    by (auto simp: commit_def engine_append_def res_simps split: if_splits)
  have "x \<notin> set L"
    using assms(3,4) by (auto simp: hold_built_def fresh_uuid_def)
  from append_to_ledger_fresh [OF app this] d assms(3) show ?thesis
    by (auto simp: new_line_def hold_built_def ids_def)
qed

lemma plan_deny_effect:
  assumes "cfg_ok cfg" "commit cfg env (plan_deny cfg env a rc rs agg) L = Inr (d, L')" "fresh_uuid env L"
  shows "\<exists>x. L' = L @ [x] \<and> h_capsule d = Some x \<and> line_effect cfg ok L x"
proof -
  define x where "x = build_hold_decision_capsule cfg env a DENY rc rs agg None CONFIRMS"
  have "L' = L @ [x] \<and> new_line cfg L x \<and> d = plan_deny cfg env a rc rs agg"
    using assms by (intro commit_new_line [where env = env]) (auto simp: plan_deny_def x_def decision_capsule)
  moreover have "refusal_line x" "c_chain x = None"
    using decision_capsule [OF assms(1)] by (auto simp: x_def)
  ultimately show ?thesis
    by (auto simp: plan_deny_def x_def [symmetric] intro: line_effect.refusal)
qed

lemma plan_deny_terminal_effect:
  assumes "cfg_ok cfg" "commit cfg env (plan_deny_terminal cfg env i r st t v) L = Inr (d, L')"
    "fresh_uuid env L" "by_id (read_ledger L) i = Some r" "hold_status cfg L i = (st, t)"
  shows "\<exists>x. L' = L @ [x] \<and> h_capsule d = Some x \<and> line_effect cfg ok L x"
proof -
  obtain rc rs where reason: "terminal_reason i st v = (rc, rs)"
    by (cases "terminal_reason i st v")
  define p where "p = (case Option.bind t c_capsule_id of
      Some j \<Rightarrow> if j \<noteq> [] then j else i | None \<Rightarrow> i)"
  define x where "x = build_hold_decision_capsule cfg env (attempt_action r v) DENY rc rs None (Some p) CONFIRMS"
  have x: "h_capsule (plan_deny_terminal cfg env i r st t v) = Some x"
    by (simp add: plan_deny_terminal_def reason x_def p_def)
  have p: "p = i \<or> (\<exists>u. t = Some u \<and> c_capsule_id u = Some p)"
    by (cases t) (auto simp: p_def split: option.splits)
  have "L' = L @ [x] \<and> new_line cfg L x \<and> d = plan_deny_terminal cfg env i r st t v"
    using assms x by (intro commit_new_line [where env = env]) (auto simp: x_def decision_capsule)
  moreover have "refusal_line x" "c_chain x = Some \<lparr>ch_parent = p, ch_relation = CONFIRMS\<rparr>"
    using decision_capsule [OF assms(1)] by (auto simp: x_def)
  moreover have "Some p \<in> ids (read_ledger L)"
  proof -
    have "u \<in> set (read_ledger L)" if "t = Some u" for u
      using assms(5) that
      by (auto simp: hold_status_def split: option.splits if_splits dest: find_SomeD)
    with p by_id_SomeD [OF assms(4)] show ?thesis
      by (auto simp: ids_def intro: rev_image_eqI)
  qed
  ultimately show ?thesis
    using x by (auto intro: line_effect.refusal)
qed

lemma plan_deny_outcome [simp]: "h_outcome (plan_deny cfg env a rc rs agg) = DENY"
  by (simp add: plan_deny_def)

lemma plan_deny_not_allow [simp]:
  "plan_deny cfg env a rc rs agg \<noteq> \<lparr>h_outcome = ALLOW, h_capsule = c, h_reason = r, h_reason_code = k,
     h_hold_status = st, h_aggregate_minor = m\<rparr>"
  by (simp add: plan_deny_def)

lemma plan_reserve_cases:
  assumes "plan_reserve cfg env a L = Inr d"
  obtains (deny) rs agg where "d = plan_deny cfg env a CAP_EXCEEDED rs agg"
  | (allow) c amount where "build_hold_reserve_capsule cfg env a (JInt amount)
        (exposure (read_ledger L) (act_developer a) (act_action_class a))
        (g_cap_minor cfg (act_action_class a)) = Inr c"
      "h_capsule d = Some c" "h_outcome d = ALLOW"
      "(case act_amount_minor a of JNull \<Rightarrow> JInt 0 | v \<Rightarrow> v) = JInt amount"
      "h_aggregate_minor d = Some (exposure (read_ledger L) (act_developer a) (act_action_class a) + amount)"
      "\<And>cap. g_cap_minor cfg (act_action_class a) = Some cap \<Longrightarrow>
        exposure (read_ledger L) (act_developer a) (act_action_class a) + amount \<le> cap"
proof -
  define requested where "requested = (case act_amount_minor a of JNull \<Rightarrow> JInt 0 | v \<Rightarrow> v)"
  define current where "current = exposure (read_ledger L) (act_developer a) (act_action_class a)"
  show ?thesis
  proof (cases "g_cap_minor cfg (act_action_class a)")
    case None
    with assms show ?thesis
      by (auto simp: plan_reserve_def Let_def res_simps simp flip: requested_def current_def
          intro: allow [unfolded requested_def [symmetric] current_def [symmetric]])
  next
    case (Some cap)
    show ?thesis
    proof (cases "\<exists>rs agg. d = plan_deny cfg env a CAP_EXCEEDED rs agg")
      case True
      then show ?thesis by (auto intro: deny)
    next
      case False
      with assms Some obtain c amount where "build_hold_reserve_capsule cfg env a (JInt amount) current (Some cap) = Inr c"
        "requested = JInt amount" "current + amount \<le> cap"
        "h_capsule d = Some c" "h_outcome d = ALLOW" "h_aggregate_minor d = Some (current + amount)"
        by (auto simp: plan_reserve_def Let_def res_simps py_gt_def py_add_def
            simp flip: requested_def current_def split: if_splits)
      with Some show ?thesis
        by (intro allow [unfolded requested_def [symmetric] current_def [symmetric]]) auto
    qed
  qed
qed

lemma plan_evaluate_effect:
  assumes "cfg_ok cfg" "evaluate_and_reserve cfg env a L = Inr (d, L')" "fresh_uuid env L"
    "request_ok ok (EvaluateAndReserve a)"
  shows "\<exists>x. L' = L @ [x] \<and> h_capsule d = Some x \<and> line_effect cfg ok L x"
proof -
  from assms(2) obtain p where p: "plan_evaluate cfg env a L = Inr p" "commit cfg env p L = Inr (d, L')"
    by (auto simp: evaluate_and_reserve_def elim: sbindE)
  show ?thesis
  proof (cases "e_engine_available env")
    case False
    with p assms(1,3) show ?thesis
      by (auto simp: plan_evaluate_def intro: plan_deny_effect)
  next
    case True
    with p(1) have "plan_reserve cfg env a L = Inr p"
      by (simp add: plan_evaluate_def)
    then show ?thesis
    proof (cases rule: plan_reserve_cases)
      case deny
      with p(2) assms(1,3) show ?thesis
        by (auto intro: plan_deny_effect)
    next
      case (allow c amount)
      have "L' = L @ [c] \<and> new_line cfg L c \<and> d = p"
        using p(2) allow(2) reserve_capsule(1) [OF assms(1) allow(1)] assms(3) by (rule commit_new_line)
      moreover have "reserve_line a amount c"
        using reserve_capsule(2) [OF assms(1) allow(1)] by simp
      moreover have "ok amount"
        using assms(4) allow(4) by (simp add: request_ok_def)
      ultimately show ?thesis
        using allow by (auto intro: line_effect.reserve)
    qed
  qed
qed

lemma close_effect:
  assumes "cfg_ok cfg" "close_hold cfg env i v reason L = Inr (d, L')" "fresh_uuid env L"
  shows "L' = L \<or> (\<exists>x. L' = L @ [x] \<and> h_capsule d = Some x \<and> line_effect cfg ok L x)"
proof (cases "by_id (read_ledger L) i")
  case None
  with assms(2) show ?thesis by (auto simp: close_hold_def)
next
  case (Some r)
  obtain st t where st: "hold_status cfg L i = (st, t)" by fastforce
  from assms(2) Some obtain p where p: "plan_close_locked cfg env i v reason r L = Inr p"
      "commit cfg env p L = Inr (d, L')"
    by (auto simp: close_hold_def elim: sbindE)
  show ?thesis
  proof (cases "st = ACTIVE")
    case False
    with p st have "p = plan_deny_terminal cfg env i r st t (close_name v)"
      by (simp add: plan_close_locked_def)
    with plan_deny_terminal_effect [OF assms(1) _ assms(3) Some st] p(2) show ?thesis
      by blast
  next
    case True
    with st have act: "hold_status cfg L i = (ACTIVE, None)"
      by (simp add: hold_status_active_iff)
    from p(1) act obtain c where c: "h_capsule p = Some c"
      "(case v of Release \<Rightarrow> build_hold_release_capsule | Expire \<Rightarrow> build_hold_expire_capsule)
         cfg env (attempt_action r (close_name v)) i (reserved_amount_of r) reason = Inr c"
      by (auto simp: plan_close_locked_def res_simps)
    have "hold_built cfg env c \<and> (\<exists>a st. st \<noteq> RECONCILED \<and> reserved_amount_of r = JInt a \<and>
        terminal_line r i st (- a) c)"
      using c(2) terminal_capsule(1,2) [OF assms(1)] by (cases v) fastforce+
    moreover from this have "L' = L @ [c] \<and> new_line cfg L c \<and> d = p"
      using p(2) c(1) assms(3) by (intro commit_new_line) auto
    ultimately show ?thesis
      using c(1) Some act by (auto intro: line_effect.terminal)
  qed
qed

lemma reconcile_effect:
  assumes "cfg_ok cfg" "reconcile cfg env i ex execution L = Inr (d, L')" "fresh_uuid env L"
  shows "L' = L \<or> (\<exists>x. L' = L @ [x] \<and> h_capsule d = Some x \<and> line_effect cfg ok L x)"
proof (cases "by_id (read_ledger L) i")
  case None
  with assms(2) show ?thesis by (auto simp: reconcile_def res_simps)
next
  case (Some r)
  obtain st t where st: "hold_status cfg L i = (st, t)" by fastforce
  from assms(2) Some obtain exe p where p: "plan_reconcile_locked cfg env i exe execution r L = Inr p"
      "commit cfg env p L = Inr (d, L')"
    by (auto simp: reconcile_def res_simps)
  show ?thesis
  proof (cases "st = ACTIVE")
    case False
    with p st have "p = plan_deny_terminal cfg env i r st t ''reconcile''"
      by (simp add: plan_reconcile_locked_def)
    with plan_deny_terminal_effect [OF assms(1) _ assms(3) Some st] p(2) show ?thesis
      by blast
  next
    case True
    with st have act: "hold_status cfg L i = (ACTIVE, None)"
      by (simp add: hold_status_active_iff)
    from p(1) act obtain delta where delta: "py_rsub cfg exe (reserved_amount_of r) = Inr delta"
      by (auto simp: plan_reconcile_locked_def res_simps)
    show ?thesis
    proof (cases "py_le cfg delta (tolerance_of cfg r)")
      case True
      with p(1) act delta obtain c where c: "h_capsule p = Some c"
        "build_hold_reconcile_capsule cfg env (attempt_action r ''reconcile'') i execution
           (reserved_amount_of r) (JInt exe) (tolerance_of cfg r) = Inr c"
        by (auto simp: plan_reconcile_locked_def res_simps)
      from terminal_capsule(3) [OF assms(1) c(2)] obtain a where a: "hold_built cfg env c"
        "reserved_amount_of r = JInt a" "terminal_line r i RECONCILED (exe - a) c"
        "int_member c ''executed_amount_minor'' = exe" by auto
      have "L' = L @ [c] \<and> new_line cfg L c \<and> d = p"
        using p(2) c(1) a(1) assms(3) by (rule commit_new_line)
      moreover have "exe - a \<le> tolerance_of cfg r"
        using True delta a(2) by (auto simp: py_le_def py_rsub_def)
      ultimately show ?thesis
        using c(1) a Some act by (auto intro!: line_effect.terminal [where st = RECONCILED])
    next
      case False
      define c where "c = build_hold_decision_capsule cfg env (attempt_action r ''reconcile'') DENY OVER_TOLERANCE
        (over_tolerance_reason cfg exe (reserved_amount_of r) delta (tolerance_of cfg r)) None (Some i) CONFIRMS"
      from False p(1) act delta have c: "h_capsule p = Some c"
        by (auto simp: plan_reconcile_locked_def c_def)
      have "L' = L @ [c] \<and> new_line cfg L c \<and> d = p"
        using p(2) c decision_capsule(1) [OF assms(1)] assms(3) unfolding c_def by (rule commit_new_line)
      moreover have "refusal_line c" "c_chain c = Some \<lparr>ch_parent = i, ch_relation = CONFIRMS\<rparr>"
        using decision_capsule [OF assms(1)] by (auto simp: c_def)
      moreover have "Some i \<in> ids (read_ledger L)"
        using by_id_SomeD [OF Some] by (auto simp: ids_def intro: rev_image_eqI)
      ultimately show ?thesis
        using c by (auto intro: line_effect.refusal)
    qed
  qed
qed

lemma run_op_effect:
  assumes "cfg_ok cfg" "run_op cfg env op L = Inr (d, L')" "fresh_uuid env L" "request_ok ok op"
  shows "L' = L \<or> (\<exists>x. L' = L @ [x] \<and> h_capsule d = Some x \<and> line_effect cfg ok L x)"
  using assms
  by (cases op) (auto dest: plan_evaluate_effect close_effect reconcile_effect)

lemma request_ok_any [simp]: "request_ok (\<lambda>_. True) op"
  by (simp add: request_ok_def split: hold_op.splits)

lemma hold_step_effect:
  assumes "cfg_ok cfg" "hold_step cfg L L'"
  shows "L' = L \<or> (\<exists>x. L' = L @ [x] \<and> line_effect cfg (\<lambda>_. True) L x)"
  using assms(2)
proof cases
  case (engine op d env)
  with run_op_effect [OF assms(1) engine(1,2) request_ok_any] show ?thesis by auto
next
  case (foreign c)
  then show ?thesis by (auto intro: line_effect.foreign)
qed

section \<open>The invariant is kept\<close>

lemma terminal_not_reserve: "terminal_line r i st delta x \<Longrightarrow> \<not> is_reserve x"
  by (simp add: terminal_line_def)

lemma foreign_not_reserve: "foreign_line x L \<Longrightarrow> \<not> is_reserve x"
  by (auto simp: foreign_line_def dest: is_reserve_hold)

lemma line_effect_new:
  assumes "line_effect cfg ok L x"
  shows "c_capsule_id x \<notin> ids L \<and> (\<exists>i. c_capsule_id x = Some i \<and> i \<noteq> [])"
  using assms by cases (auto simp: new_line_def foreign_line_def ids_def)

lemma line_effect_ok:
  assumes "line_effect cfg ok L x"
  shows "hold_line_ok cfg L x"
  using assms
proof cases
  case refusal
  then show ?thesis by (auto simp: hold_line_ok_def new_line_def refusal_line_def)
next
  case (reserve a amount)
  then show ?thesis by (auto simp: hold_line_ok_def new_line_def reserve_line_def)
next
  case (terminal i r st delta amount)
  then have "Some i \<in> ids (read_ledger L)"
    by (auto simp: ids_def dest!: by_id_SomeD intro: rev_image_eqI)
  with terminal show ?thesis
    by (auto simp: hold_line_ok_def new_line_def terminal_line_def)
next
  case foreign
  then show ?thesis
    by (auto simp: hold_line_ok_def foreign_line_def dest: is_reserve_hold)
qed

lemma line_effect_inv: "hold_inv cfg L \<Longrightarrow> line_effect cfg ok L x \<Longrightarrow> hold_inv cfg (L @ [x])"
  using line_effect_new line_effect_ok hold_inv_append by metis

lemma hold_reachable_inv:
  assumes "cfg_ok cfg" "hold_reachable cfg L"
  shows "hold_inv cfg L"
  using assms(2)
proof induction
  case empty
  show ?case by simp
next
  case (step L L')
  from hold_step_effect [OF assms(1) step(2)] step(3) show ?case
    by (auto intro: line_effect_inv)
qed

section \<open>How an append moves the exposure\<close>

lemma exposure_line:
  assumes "hold_inv cfg L" "c_capsule_id x \<notin> ids L"
  shows "exposure (read_ledger (L @ [x])) d (Some c) = exposure (read_ledger L) d (Some c)
    + (if is_capsule_line x then contribution d (Some c) None
         (reserve_action_class_by_id (read_ledger L @ [x]) Map.empty) x else 0)"
proof -
  have "c_capsule_id x \<notin> c_capsule_id ` set (read_ledger L)"
    using assms(2) ids_read_ledger [of L] by (auto simp: ids_def)
  with exposure_append [OF hold_inv_parents [OF assms(1)] this, of d "Some c"] show ?thesis
    by (simp add: read_ledger_def)
qed

lemma parent_class:
  assumes "hold_inv cfg L" "by_id (read_ledger L) i = Some r" "\<not> is_reserve x"
  shows "reserve_action_class_by_id (read_ledger L @ [x]) Map.empty i
    = (if is_reserve r then Some (hold_scope_class r) else None)"
proof -
  have r: "r \<in> set (read_ledger L)" "c_capsule_id r = Some i" "i \<noteq> []"
    using by_id_SomeD [OF assms(2)] by auto
  note dist = hold_inv_distinct [OF assms(1)]
  have "reserve_action_class_by_id (read_ledger L) Map.empty i
      = (if is_reserve r then Some (hold_scope_class r) else None)"
  proof (cases "is_reserve r")
    case True
    with reserve_class_lookup [OF dist r] show ?thesis by (simp add: is_reserve_def)
  next
    case False
    have "\<not> is_reserve y" if "y \<in> set (read_ledger L)" "c_capsule_id y = Some i" for y
      using that r False dist by (metis distinct_map inj_onD)
    then have "reserve_action_class_by_id (read_ledger L) m i = m i" for m
      by (intro reserve_class_no_reserve) (auto simp: is_reserve_def)
    with False show ?thesis by simp
  qed
  with assms(3) show ?thesis
    by (simp add: reserve_class_append is_reserve_def)
qed

definition scope_of_line :: "capsule \<Rightarrow> string \<Rightarrow> string \<Rightarrow> bool" where
  "scope_of_line r d c \<longleftrightarrow> is_reserve r \<and> c_developer r = Some d \<and> hold_scope_class r = JStr c"

lemma exposure_refusal:
  assumes "hold_inv cfg L" "c_capsule_id x \<notin> ids L" "\<not> accepted x \<or> \<not> prefix ''hold.'' (action_id_of x)"
  shows "exposure (read_ledger (L @ [x])) d (Some c) = exposure (read_ledger L) d (Some c)"
  using assms by (auto simp: exposure_line contribution_def accepted_def)

lemma exposure_reserve:
  assumes "hold_inv cfg L" "new_line cfg L x" "reserve_line a amount x"
  shows "exposure (read_ledger (L @ [x])) d (Some c) = exposure (read_ledger L) d (Some c)
    + (if act_developer a = d \<and> act_action_class a = Some c then amount else 0)"
proof -
  have "prefix ''hold.'' (action_id_of x)"
    using assms(3) by (intro is_reserve_hold) (simp add: reserve_line_def)
  then show ?thesis
    using assms
    by (auto simp: exposure_line new_line_def contribution_def reserve_line_def accepted_def
        record_action_class_def is_reserve_def str_opt_def in_window_def split: option.splits)
qed

lemma exposure_terminal:
  assumes inv: "hold_inv cfg L" and new: "new_line cfg L x" and r: "by_id (read_ledger L) i = Some r"
    and line: "terminal_line r i st delta x"
  shows "exposure (read_ledger (L @ [x])) d (Some c) = exposure (read_ledger L) d (Some c)
    + (if scope_of_line r d c then delta else 0)"
proof -
  let ?m = "reserve_action_class_by_id (read_ledger L @ [x]) Map.empty"
  have rL: "r \<in> set L"
    using by_id_SomeD [OF r] by (simp add: read_ledger_def)
  have "record_action_class x ?m = (if is_reserve r then hold_scope_class r else JNull)"
    using line parent_class [OF inv r terminal_not_reserve [OF line]]
    by (simp add: record_action_class_def terminal_line_def is_reserve_def)
  moreover have "c_developer r = Some (developer_of r)" if "is_reserve r" "hold_scope_class r = JStr c"
  proof -
    have "hold_line_ok cfg L r" using inv rL by (simp add: hold_inv_def)
    with that show ?thesis by (auto simp: hold_line_ok_def developer_of_def)
  qed
  ultimately have "contribution d (Some c) None ?m x = (if scope_of_line r d c then delta else 0)"
    using line
    by (auto simp: contribution_def terminal_line_def accepted_def in_window_def str_opt_def
        scope_of_line_def)
  with inv new show ?thesis
    by (simp add: exposure_line new_line_def)
qed

lemma reserved_int_member: "reserved_amount_of r = JInt a \<Longrightarrow> int_member r ''reserved_amount_minor'' = a"
  by (auto simp: reserved_amount_of_def int_member_def dget_def split: option.splits)

section \<open>The refinement\<close>

lemma line_effect_refines:
  assumes inv: "hold_inv cfg L" and eff: "line_effect cfg ok L x"
    and eq: "exposure (read_ledger L) d (Some c) = settled_total cfg L d c"
  shows "exposure (read_ledger (L @ [x])) d (Some c) = settled_total cfg (L @ [x]) d c"
  using eff
proof cases
  case refusal
  then have nc: "\<not> closes i x" for i
    by (auto simp: refusal_line_def closes_def split: option.splits)
  from refusal show ?thesis
    using exposure_refusal [OF inv, of x] settled_total_neutral [OF inv, of x] nc eq
    by (auto simp: new_line_def refusal_line_def)
next
  case (reserve a amount)
  then obtain i where "c_capsule_id x \<notin> ids L" "c_capsule_id x = Some i" "i \<noteq> []"
      "g_verify_ok cfg x" "is_capsule_line x"
    by (auto simp: new_line_def)
  with settled_total_reserve [OF inv this(1-3) reserve(2) this(4,5)]
    exposure_reserve [OF inv reserve(1,2)] eq show ?thesis by simp
next
  case (terminal i r st delta amount)
  have x: "c_capsule_id x \<notin> ids L" "g_verify_ok cfg x" "is_capsule_line x"
    using terminal(1) by (auto simp: new_line_def)
  have "settled_total cfg (L @ [x]) d c = settled_total cfg L d c + (if scope_of_line r d c then delta else 0)"
    unfolding scope_of_line_def using terminal reserved_int_member [of r]
    by (intro settled_total_terminal [OF inv x(1) terminal(2,3,4) x(2,3)]) auto
  with exposure_terminal [OF inv terminal(1,2,4)] eq show ?thesis by simp
next
  case foreign
  then have nc: "\<not> closes i x" for i
    by (auto simp: foreign_line_def dest: closes_hold)
  have "c_capsule_id x \<notin> ids L" "\<not> prefix ''hold.'' (action_id_of x)"
    using foreign by (auto simp: foreign_line_def ids_def)
  with exposure_refusal [OF inv, of x] settled_total_neutral [OF inv, of x] nc eq
    foreign_not_reserve [OF foreign] show ?thesis by auto
qed

lemma exposure_Nil [simp]: "exposure [] d cls = 0"
  by (simp add: exposure_def)

lemma hold_reachable_refines:
  assumes "cfg_ok cfg" "hold_reachable cfg L"
  shows "exposure (read_ledger L) d (Some c) = settled_total cfg L d c"
  using assms(2)
proof induction
  case empty
  show ?case by (simp add: settled_total_def scope_holds_def read_ledger_def)
next
  case (step L L')
  from hold_step_effect [OF assms(1) step(2)] step(3) hold_reachable_inv [OF assms(1) step(1)]
  show ?case by (auto intro: line_effect_refines)
qed

section \<open>The cap\<close>

text \<open>Reservations a caller asks for are not negative.  (\<open>check_integer_amount\<close> does not refuse a
  negative one; \<open>negative_reservation_defeats_cap\<close> in the root theory shows what it costs.)\<close>

definition nonneg_reserves :: "capsule list \<Rightarrow> bool" where
  "nonneg_reserves L \<longleftrightarrow>
     (\<forall>r \<in> set L. is_reserve r \<and> accepted r \<longrightarrow> 0 \<le> int_member r ''reserved_amount_minor'')"

definition scope_tolerance :: "hold_cfg \<Rightarrow> string \<Rightarrow> int" where
  "scope_tolerance cfg c = (case g_tolerance_minor cfg (Some c) of None \<Rightarrow> 0 | Some t \<Rightarrow> t)"

text \<open>With the tolerance of the scope at zero (the default), the cap bounds the exposure.\<close>

lemma line_effect_cap:
  assumes inv: "hold_inv cfg L" and eff: "line_effect cfg ok L x" and nn: "nonneg_reserves (L @ [x])"
    and cap: "g_cap_minor cfg (Some c) = Some m" and tol: "scope_tolerance cfg c \<le> 0"
    and le: "exposure (read_ledger L) d (Some c) \<le> m"
  shows "exposure (read_ledger (L @ [x])) d (Some c) \<le> m"
  using eff
proof cases
  case refusal
  with exposure_refusal [OF inv, of x] le show ?thesis
    by (auto simp: new_line_def refusal_line_def)
next
  case (reserve a amount)
  with exposure_reserve [OF inv reserve(1,2)] cap le show ?thesis by auto
next
  case (terminal i r st delta amount)
  have "delta \<le> 0" if s: "scope_of_line r d c"
  proof (cases "st = RECONCILED")
    case True
    with terminal(6) s tol show ?thesis
      by (simp add: scope_of_line_def tolerance_of_def class_of_json_def scope_tolerance_def)
  next
    case False
    have "r \<in> set L"
      using by_id_SomeD [OF terminal(2)] by (simp add: read_ledger_def)
    moreover from this s inv have "accepted r"
      by (auto simp: scope_of_line_def hold_inv_def hold_line_ok_def)
    ultimately have "0 \<le> int_member r ''reserved_amount_minor''"
      using nn s by (auto simp: nonneg_reserves_def scope_of_line_def)
    with False terminal(5,7) show ?thesis
      by (simp add: reserved_int_member)
  qed
  with exposure_terminal [OF inv terminal(1,2,4), of d c] le show ?thesis by auto
next
  case foreign
  with exposure_refusal [OF inv, of x d c] le show ?thesis
    by (auto simp: foreign_line_def ids_def)
qed

inductive capped_run :: "hold_cfg \<Rightarrow> capsule list \<Rightarrow> bool" for cfg where
  empty: "capped_run cfg []"
| engine: "\<lbrakk>capped_run cfg L; run_op cfg env op L = Inr (d, L'); fresh_uuid env L; request_ok (\<lambda>i. 0 \<le> i) op\<rbrakk>
    \<Longrightarrow> capped_run cfg L'"
| foreign: "\<lbrakk>capped_run cfg L; foreign_line c L\<rbrakk> \<Longrightarrow> capped_run cfg (L @ [c])"

lemma capped_run_reachable: "capped_run cfg L \<Longrightarrow> hold_reachable cfg L"
  by (induction rule: capped_run.induct) (auto intro: hold_reachable.intros hold_step.intros)

lemma capped_effect:
  assumes "line_effect cfg (\<lambda>i. 0 \<le> i) L x" "nonneg_reserves L"
  shows "nonneg_reserves (L @ [x])"
proof -
  have "0 \<le> int_member x ''reserved_amount_minor''" if "is_reserve x" "accepted x"
    using assms(1)
  proof cases
    case (reserve a amount)
    then show ?thesis by (auto simp: reserve_line_def int_member_def dget_def)
  qed (use that in \<open>auto simp: refusal_line_def dest: terminal_not_reserve foreign_not_reserve\<close>)
  with assms(2) show ?thesis by (auto simp: nonneg_reserves_def)
qed

lemma capped_run_exposure:
  assumes "cfg_ok cfg" "g_cap_minor cfg (Some c) = Some m" "0 \<le> m" "scope_tolerance cfg c \<le> 0"
    "capped_run cfg L"
  shows "exposure (read_ledger L) d (Some c) \<le> m \<and> nonneg_reserves L"
  using assms(5)
proof induction
  case empty
  from assms(3) show ?case by (simp add: read_ledger_def nonneg_reserves_def)
next
  case (engine L env op dec L')
  from run_op_effect [OF assms(1) engine(2,3,4)]
  show ?case
  proof
    assume "L' = L"
    with engine show ?case by simp
  next
    assume "\<exists>x. L' = L @ [x] \<and> h_capsule dec = Some x \<and> line_effect cfg (\<lambda>i. 0 \<le> i) L x"
    with engine(5) show ?case
      using line_effect_cap [OF hold_reachable_inv [OF assms(1) capped_run_reachable [OF engine(1)]]]
        assms(2,4) capped_effect by blast
  qed
next
  case (foreign L x)
  then have "line_effect cfg (\<lambda>i. 0 \<le> i) L x" by (auto intro: line_effect.foreign)
  with foreign(3) show ?case
    using line_effect_cap [OF hold_reachable_inv [OF assms(1) capped_run_reachable [OF foreign(1)]]]
      assms(2,4) capped_effect by blast
qed

end
