(* ===== verification/Hold_Concurrency.thy ===== *)
theory Hold_Concurrency
  imports Hold_Safety
begin

text \<open>
  Many callers of one engine (\<open>holds/scope.py\<close>).  A caller takes its scope's lock, plans from the
  ledger it reads, and commits its append; other callers and other writers may append between the
  plan and the commit.  The lock is the reason the plan's guard still holds at the commit: only
  lines of the same scope move the scope's exposure or close its holds.
\<close>

section \<open>Scopes and locks\<close>

type_synonym scope = "string \<times> string"

definition or_empty :: "string option \<Rightarrow> string" where
  "or_empty x = (case x of None \<Rightarrow> '''' | Some s \<Rightarrow> s)"

definition action_scope :: "action \<Rightarrow> scope" where
  "action_scope a = (or_empty (act_action_class a), act_developer a)"

definition record_scope :: "capsule \<Rightarrow> scope" where
  "record_scope r = (or_empty (class_of_json (hold_scope_class r)), developer_of r)"

text \<open>The work a caller does under the lock.  A close or a reconcile carries the record its unlocked
  read found.\<close>

datatype job =
    JReserve action
  | JClose string close_verb "string option" capsule
  | JReconcile string int "string option" capsule

fun job_scope :: "job \<Rightarrow> scope" where
  "job_scope (JReserve a) = action_scope a"
| "job_scope (JClose i v reason r) = record_scope r"
| "job_scope (JReconcile i exe x r) = record_scope r"

fun plan_job :: "hold_cfg \<Rightarrow> henv \<Rightarrow> job \<Rightarrow> capsule list \<Rightarrow> hold_exn + hold_decision" where
  "plan_job cfg env (JReserve a) L = plan_reserve cfg env a L"
| "plan_job cfg env (JClose i v reason r) L = plan_close_locked cfg env i v reason r L"
| "plan_job cfg env (JReconcile i exe x r) L = plan_reconcile_locked cfg env i exe x r L"

fun job_ready :: "capsule list \<Rightarrow> job \<Rightarrow> bool" where
  "job_ready L (JReserve a) = (\<forall>i. requested_amount a = JInt i \<longrightarrow> 0 \<le> i)"
| "job_ready L (JClose i v reason r) = (by_id (read_ledger L) i = Some r)"
| "job_ready L (JReconcile i exe x r) = (by_id (read_ledger L) i = Some r)"

datatype phase =
    Idle
  | Waiting henv job
  | Entered henv job
  | Planned henv job hold_decision

record csys =
  s_ledger :: "capsule list"
  s_lock :: "scope \<Rightarrow> nat option"
  s_phase :: "nat \<Rightarrow> phase"

text \<open>\<open>ScopeLocks.get\<close> creates a lock on first use; a scope nobody holds is \<open>None\<close> either way.\<close>

inductive cstep :: "hold_cfg \<Rightarrow> csys \<Rightarrow> csys \<Rightarrow> bool" for cfg where
  start: "\<lbrakk>s_phase s t = Idle; job_ready (s_ledger s) j\<rbrakk>
    \<Longrightarrow> cstep cfg s (s\<lparr>s_phase := (s_phase s)(t := Waiting env j)\<rparr>)"
| acquire: "\<lbrakk>s_phase s t = Waiting env j; s_lock s (job_scope j) = None\<rbrakk>
    \<Longrightarrow> cstep cfg s (s\<lparr>s_lock := (s_lock s)(job_scope j := Some t),
                      s_phase := (s_phase s)(t := Entered env j)\<rparr>)"
| plan: "\<lbrakk>s_phase s t = Entered env j; plan_job cfg env j (s_ledger s) = Inr d\<rbrakk>
    \<Longrightarrow> cstep cfg s (s\<lparr>s_phase := (s_phase s)(t := Planned env j d)\<rparr>)"
| plan_raises: "\<lbrakk>s_phase s t = Entered env j; plan_job cfg env j (s_ledger s) = Inl e\<rbrakk>
    \<Longrightarrow> cstep cfg s (s\<lparr>s_lock := (s_lock s)(job_scope j := None), s_phase := (s_phase s)(t := Idle)\<rparr>)"
| commit: "\<lbrakk>s_phase s t = Planned env j d; fresh_uuid env (s_ledger s);
      commit cfg env d (s_ledger s) = Inr (d', L')\<rbrakk>
    \<Longrightarrow> cstep cfg s (s\<lparr>s_ledger := L', s_lock := (s_lock s)(job_scope j := None),
                      s_phase := (s_phase s)(t := Idle)\<rparr>)"
| commit_raises: "\<lbrakk>s_phase s t = Planned env j d; commit cfg env d (s_ledger s) = Inl e\<rbrakk>
    \<Longrightarrow> cstep cfg s (s\<lparr>s_lock := (s_lock s)(job_scope j := None), s_phase := (s_phase s)(t := Idle)\<rparr>)"
| unavailable: "\<lbrakk>\<not> e_engine_available env; fresh_uuid env (s_ledger s);
      evaluate_and_reserve cfg env a (s_ledger s) = Inr (d, L')\<rbrakk>
    \<Longrightarrow> cstep cfg s (s\<lparr>s_ledger := L'\<rparr>)"
| foreign: "foreign_line x (s_ledger s) \<Longrightarrow> cstep cfg s (s\<lparr>s_ledger := s_ledger s @ [x]\<rparr>)"

definition csys_init :: csys where
  "csys_init = \<lparr>s_ledger = [], s_lock = (\<lambda>_. None), s_phase = (\<lambda>_. Idle)\<rparr>"

inductive creachable :: "hold_cfg \<Rightarrow> csys \<Rightarrow> bool" for cfg where
  init: "creachable cfg csys_init"
| step: "creachable cfg s \<Longrightarrow> cstep cfg s s' \<Longrightarrow> creachable cfg s'"

section \<open>What a plan guarantees, and for how long\<close>

text \<open>The guard of a planned line, as it must hold when the line is appended.\<close>

definition line_guard :: "hold_cfg \<Rightarrow> capsule list \<Rightarrow> scope \<Rightarrow> capsule \<Rightarrow> bool" where
  "line_guard cfg L sc x \<longleftrightarrow>
     (refusal_line x \<and> (\<forall>ch. c_chain x = Some ch \<longrightarrow> Some (ch_parent ch) \<in> ids (read_ledger L))) \<or>
     (\<exists>a amount. reserve_line a amount x \<and> 0 \<le> amount \<and> action_scope a = sc \<and>
        (\<forall>c m. act_action_class a = Some c \<and> g_cap_minor cfg (Some c) = Some m \<longrightarrow>
           exposure (read_ledger L) (act_developer a) (Some c) + amount \<le> m)) \<or>
     (\<exists>i r st delta amount. by_id (read_ledger L) i = Some r \<and> hold_status cfg L i = (ACTIVE, None) \<and>
        record_scope r = sc \<and> terminal_line r i st delta x \<and> reserved_amount_of r = JInt amount \<and>
        (st = RECONCILED \<longrightarrow> delta \<le> tolerance_of cfg r \<and>
           int_member x ''executed_amount_minor'' = delta + amount) \<and>
        (st \<noteq> RECONCILED \<longrightarrow> delta = - amount))"

lemma line_guard_cases:
  assumes "line_guard cfg L sc x"
  obtains (refuse) "refusal_line x" "\<And>ch. c_chain x = Some ch \<Longrightarrow> Some (ch_parent ch) \<in> ids (read_ledger L)"
  | (res) a amount where "reserve_line a amount x" "0 \<le> amount" "action_scope a = sc"
      "\<And>c m. act_action_class a = Some c \<Longrightarrow> g_cap_minor cfg (Some c) = Some m \<Longrightarrow>
           exposure (read_ledger L) (act_developer a) (Some c) + amount \<le> m"
  | (clos) i r st delta amount where "by_id (read_ledger L) i = Some r"
      "hold_status cfg L i = (ACTIVE, None)" "record_scope r = sc" "terminal_line r i st delta x"
      "reserved_amount_of r = JInt amount"
      "st = RECONCILED \<Longrightarrow> delta \<le> tolerance_of cfg r \<and> int_member x ''executed_amount_minor'' = delta + amount"
      "st \<noteq> RECONCILED \<Longrightarrow> delta = - amount"
  using assms unfolding line_guard_def by blast

lemma line_guard_refuse:
  "refusal_line x \<Longrightarrow> (\<And>ch. c_chain x = Some ch \<Longrightarrow> Some (ch_parent ch) \<in> ids (read_ledger L))
     \<Longrightarrow> line_guard cfg L sc x"
  unfolding line_guard_def by blast

lemma line_guard_reserve:
  "\<lbrakk>reserve_line a amount x; 0 \<le> amount; action_scope a = sc;
    \<And>c m. act_action_class a = Some c \<Longrightarrow> g_cap_minor cfg (Some c) = Some m \<Longrightarrow>
      exposure (read_ledger L) (act_developer a) (Some c) + amount \<le> m\<rbrakk>
     \<Longrightarrow> line_guard cfg L sc x"
  unfolding line_guard_def by blast

lemma line_guard_terminal:
  "\<lbrakk>by_id (read_ledger L) i = Some r; hold_status cfg L i = (ACTIVE, None); record_scope r = sc;
    terminal_line r i st delta x; reserved_amount_of r = JInt amount;
    st = RECONCILED \<Longrightarrow> delta \<le> tolerance_of cfg r \<and> int_member x ''executed_amount_minor'' = delta + amount;
    st \<noteq> RECONCILED \<Longrightarrow> delta = - amount\<rbrakk>
     \<Longrightarrow> line_guard cfg L sc x"
  unfolding line_guard_def by blast

lemma line_guard_effect:
  assumes "line_guard cfg L sc x" "new_line cfg L x" "g_cap_minor cfg None = None"
  shows "line_effect cfg (\<lambda>i. 0 \<le> i) L x"
  using assms(1)
proof (cases rule: line_guard_cases)
  case refuse
  with assms(2) show ?thesis by (rule line_effect.refusal)
next
  case (res a amount)
  have "exposure (read_ledger L) (act_developer a) (act_action_class a) + amount \<le> cap"
    if "g_cap_minor cfg (act_action_class a) = Some cap" for cap
    using that res(4) assms(3) by (cases "act_action_class a") auto
  with assms(2) res(1,2) show ?thesis by (rule line_effect.reserve)
next
  case (clos i r st delta amount)
  show ?thesis
    using assms(2) clos(1,2,4,5) by (rule line_effect.terminal) (use clos(6,7) in auto)
qed

text \<open>Appending a line of another scope keeps the guard.\<close>

definition line_scope :: "capsule list \<Rightarrow> capsule \<Rightarrow> scope \<Rightarrow> bool" where
  "line_scope L x sc \<longleftrightarrow>
     (\<exists>a amount. reserve_line a amount x \<and> action_scope a = sc) \<or>
     (\<exists>i r st delta. by_id (read_ledger L) i = Some r \<and> terminal_line r i st delta x \<and> record_scope r = sc)"

lemma by_id_stable:
  assumes "by_id (read_ledger L) i = Some r" "c_capsule_id x \<notin> ids L"
  shows "by_id (read_ledger (L @ [x])) i = Some r"
proof -
  have "Some i \<in> ids L"
    using by_id_SomeD [OF assms(1)] ids_read_ledger [of L] by (auto simp: ids_def read_ledger_def intro: rev_image_eqI)
  with assms show ?thesis
    by (auto simp: read_ledger_def by_id_append)
qed

lemma reserve_line_scope: "reserve_line a amount x \<Longrightarrow> line_scope L x (action_scope a)"
  unfolding line_scope_def by blast

lemma terminal_line_scope:
  "by_id (read_ledger L) i = Some r \<Longrightarrow> terminal_line r i st delta x \<Longrightarrow> line_scope L x (record_scope r)"
  unfolding line_scope_def by blast

lemma status_stable:
  assumes eff: "line_effect cfg ok L x" and r: "by_id (read_ledger L) i = Some r"
    and sc: "\<not> line_scope L x (record_scope r)"
  shows "hold_status cfg (L @ [x]) i = hold_status cfg L i"
proof (rule hold_status_append_other)
  show "c_capsule_id x \<noteq> Some i"
    using line_effect_new [OF eff] by_id_SomeD [OF r] by (auto simp: ids_def read_ledger_def intro: rev_image_eqI)
  show "\<not> closes i x"
    using eff
  proof cases
    case (terminal j r' st delta amount)
    show ?thesis
    proof
      assume "closes i x"
      with terminal(4) have "j = i" by (auto simp: terminal_line_def closes_def)
      with terminal(2) r have "r' = r" by simp
      with terminal_line_scope [OF terminal(2,4)] sc show False by simp
    qed
  next
    case foreign
    then show ?thesis by (auto simp: foreign_line_def dest: closes_hold)
  qed (auto simp: closes_def refusal_line_def reserve_line_def split: option.splits)
qed

lemma exposure_stable:
  assumes inv: "hold_inv cfg L" and eff: "line_effect cfg ok L x" and sc: "\<not> line_scope L x (c, d)"
  shows "exposure (read_ledger (L @ [x])) d (Some c) = exposure (read_ledger L) d (Some c)"
  using eff
proof cases
  case refusal
  with exposure_refusal [OF inv, of x] show ?thesis by (auto simp: new_line_def refusal_line_def)
next
  case (reserve a amount)
  have "action_scope a = (c, d)" if "act_developer a = d \<and> act_action_class a = Some c"
    using that by (simp add: action_scope_def or_empty_def)
  with reserve_line_scope [OF reserve(2), of L] sc exposure_reserve [OF inv reserve(1,2), of d c]
  show ?thesis by auto
next
  case (terminal i r st delta amount)
  have "record_scope r = (c, d)" if "scope_of_line r d c"
    using that by (simp add: record_scope_def or_empty_def class_of_json_def scope_of_line_def developer_of_def)
  with terminal_line_scope [OF terminal(2,4)] sc exposure_terminal [OF inv terminal(1,2,4), of d c]
  show ?thesis by auto
next
  case foreign
  with exposure_refusal [OF inv, of x] show ?thesis by (auto simp: foreign_line_def ids_def)
qed

lemma line_guard_stable:
  assumes inv: "hold_inv cfg L" and eff: "line_effect cfg ok L x" and sc: "\<not> line_scope L x sc"
    and guard: "line_guard cfg L sc y"
  shows "line_guard cfg (L @ [x]) sc y"
proof -
  have new: "c_capsule_id x \<notin> ids L" using line_effect_new [OF eff] by simp
  have ids: "ids (read_ledger L) \<subseteq> ids (read_ledger (L @ [x]))"
    by (auto simp: ids_def read_ledger_def)
  have expo: "exposure (read_ledger (L @ [x])) (act_developer a) (Some c)
      = exposure (read_ledger L) (act_developer a) (Some c)"
    if "action_scope a = sc" "act_action_class a = Some c" for a c
    using that sc by (intro exposure_stable [OF inv eff]) (auto simp: action_scope_def or_empty_def)
  have stat: "by_id (read_ledger (L @ [x])) i = Some r" "hold_status cfg (L @ [x]) i = hold_status cfg L i"
    if "by_id (read_ledger L) i = Some r" "record_scope r = sc" for i r
    using that sc status_stable [OF eff] by_id_stable [OF _ new] by blast+
  from guard show ?thesis
  proof (cases rule: line_guard_cases)
    case refuse
    with ids show ?thesis by (intro line_guard_refuse) auto
  next
    case (res a amount)
    with expo show ?thesis by (intro line_guard_reserve [of a amount y]) auto
  next
    case (clos i r st delta amount)
    with stat [OF clos(1,3)] show ?thesis by (intro line_guard_terminal [of _ i r _ _ st delta]) auto
  qed
qed

lemma line_guard_scope:
  assumes "line_guard cfg L sc x" "line_scope L x sc'"
  shows "sc' = sc"
  using assms(1)
proof (cases rule: line_guard_cases)
  case refuse
  with assms(2) show ?thesis
    by (auto simp: line_scope_def refusal_line_def reserve_line_def terminal_line_def)
next
  case (res a amount)
  then have "\<not> terminal_line r i st delta x" for r i st delta
    by (auto simp: reserve_line_def terminal_line_def)
  with assms(2) obtain a' amount' where "reserve_line a' amount' x" "action_scope a' = sc'"
    unfolding line_scope_def by blast
  with res(1,3) have "act_developer a' = act_developer a"
      "str_opt (act_action_class a') = str_opt (act_action_class a)"
    by (simp_all add: reserve_line_def)
  with res(3) \<open>action_scope a' = sc'\<close> show ?thesis
    by (auto simp: action_scope_def str_opt_def split: option.splits)
next
  case (clos i r st delta amount)
  then have "\<not> reserve_line a am x" for a am
    by (auto simp: reserve_line_def terminal_line_def)
  with assms(2) obtain i' r' st' delta' where "by_id (read_ledger L) i' = Some r'"
      "terminal_line r' i' st' delta' x" "record_scope r' = sc'"
    unfolding line_scope_def by blast
  moreover from this clos(4) have "i' = i" by (simp add: terminal_line_def)
  ultimately show ?thesis using clos(1,3) by simp
qed

lemma no_scope:
  "refusal_line x \<Longrightarrow> \<not> line_scope L x sc"
  "foreign_line x L' \<Longrightarrow> \<not> line_scope L x sc"
  by (auto simp: line_scope_def refusal_line_def reserve_line_def terminal_line_def foreign_line_def
      dest: is_reserve_hold)

section \<open>What a plan writes\<close>

lemma plan_job_record:
  assumes "plan_job cfg env j L = Inr d" "job_ready L j"
  obtains x where "h_capsule d = Some x"
  using assms
  by (cases j)
     (auto simp: plan_reserve_def plan_close_locked_def plan_reconcile_locked_def plan_deny_def
        plan_deny_terminal_def Let_def res_simps split: option.splits prod.splits if_splits)

lemma plan_reserve_guard:
  assumes "cfg_ok cfg" "plan_reserve cfg env a L = Inr d" "job_ready L (JReserve a)" "h_capsule d = Some x"
  shows "hold_built cfg env x \<and> line_guard cfg L (action_scope a) x"
  using assms(2)
proof (cases rule: plan_reserve_cases)
  case (deny rs agg)
  then have "x = build_hold_decision_capsule cfg env a DENY CAP_EXCEEDED rs agg None CONFIRMS"
    using assms(4) by (simp add: plan_deny_def)
  with decision_capsule [OF assms(1)] show ?thesis
    by (auto intro: line_guard_refuse)
next
  case (allow c amount)
  then have x: "x = c" using assms(4) by simp
  have "0 \<le> amount" using assms(3) allow(4) by simp
  with reserve_capsule [OF assms(1) allow(1)] allow(6) show ?thesis
    unfolding x by (auto intro: line_guard_reserve [of a amount])
qed

lemma decision_guard:
  assumes "cfg_ok cfg" "Some p \<in> ids (read_ledger L)"
  shows "hold_built cfg env (build_hold_decision_capsule cfg env a DENY rc rs agg (Some p) CONFIRMS) \<and>
    line_guard cfg L sc (build_hold_decision_capsule cfg env a DENY rc rs agg (Some p) CONFIRMS)"
proof -
  have "line_guard cfg L sc (build_hold_decision_capsule cfg env a DENY rc rs agg (Some p) CONFIRMS)"
    by (rule line_guard_refuse) (use decision_capsule [OF assms(1)] assms(2) in auto)
  with decision_capsule(1) [OF assms(1)] show ?thesis by blast
qed

lemma plan_deny_terminal_guard:
  assumes "cfg_ok cfg" "by_id (read_ledger L) i = Some r" "hold_status cfg L i = (st, t)"
    "h_capsule (plan_deny_terminal cfg env i r st t v) = Some x"
  shows "hold_built cfg env x \<and> line_guard cfg L sc x"
proof -
  obtain p rc rs where x: "x = build_hold_decision_capsule cfg env (attempt_action r v) DENY rc rs None (Some p) CONFIRMS"
      and p: "p = i \<or> (\<exists>u. t = Some u \<and> c_capsule_id u = Some p)"
    using assms(4)
    by (cases "terminal_reason i st v"; cases t; cases "c_capsule_id (the t)")
       (auto simp: plan_deny_terminal_def split: if_splits)
  have "u \<in> set (read_ledger L)" if "t = Some u" for u
    using assms(3) that
    by (auto simp: hold_status_def split: option.splits if_splits dest: find_SomeD)
  with p by_id_SomeD [OF assms(2)] have "Some p \<in> ids (read_ledger L)"
    by (auto simp: ids_def intro: rev_image_eqI)
  with decision_guard [OF assms(1)] show ?thesis unfolding x by blast
qed

lemma plan_close_guard:
  assumes "cfg_ok cfg" "plan_close_locked cfg env i v reason r L = Inr d" "by_id (read_ledger L) i = Some r"
    "h_capsule d = Some x"
  shows "hold_built cfg env x \<and> line_guard cfg L (record_scope r) x"
proof -
  obtain st t where st: "hold_status cfg L i = (st, t)" by fastforce
  show ?thesis
  proof (cases "st = ACTIVE")
    case False
    with assms(2) st have "d = plan_deny_terminal cfg env i r st t (close_name v)"
      by (simp add: plan_close_locked_def)
    with plan_deny_terminal_guard [OF assms(1,3) st] assms(4) show ?thesis by blast
  next
    case True
    with st have act: "hold_status cfg L i = (ACTIVE, None)"
      by (simp add: hold_status_active_iff)
    with assms(2,4) have
      "(case v of Release \<Rightarrow> build_hold_release_capsule | Expire \<Rightarrow> build_hold_expire_capsule)
         cfg env (attempt_action r (close_name v)) i (reserved_amount_of r) reason = Inr x"
      by (auto simp: plan_close_locked_def res_simps)
    then have "hold_built cfg env x \<and> (\<exists>a st. st \<noteq> RECONCILED \<and> reserved_amount_of r = JInt a \<and>
        terminal_line r i st (- a) x)"
      using terminal_capsule(1,2) [OF assms(1)] by (cases v) fastforce+
    with act assms(3) show ?thesis by (auto intro: line_guard_terminal)
  qed
qed

lemma plan_reconcile_guard:
  assumes "cfg_ok cfg" "plan_reconcile_locked cfg env i exe execution r L = Inr d"
    "by_id (read_ledger L) i = Some r" "h_capsule d = Some x"
  shows "hold_built cfg env x \<and> line_guard cfg L (record_scope r) x"
proof -
  obtain st t where st: "hold_status cfg L i = (st, t)" by fastforce
  consider (shut) "st \<noteq> ACTIVE" | (over) delta where "st = ACTIVE"
      "py_rsub cfg exe (reserved_amount_of r) = Inr delta" "\<not> py_le cfg delta (tolerance_of cfg r)"
    | (fits) delta where "st = ACTIVE"
      "py_rsub cfg exe (reserved_amount_of r) = Inr delta" "py_le cfg delta (tolerance_of cfg r)"
    using assms(2) st
    by (cases "st = ACTIVE"; cases "py_rsub cfg exe (reserved_amount_of r)")
       (auto simp: plan_reconcile_locked_def)
  then show ?thesis
  proof cases
    case shut
    with assms(2) st have "d = plan_deny_terminal cfg env i r st t ''reconcile''"
      by (simp add: plan_reconcile_locked_def)
    with plan_deny_terminal_guard [OF assms(1,3) st] assms(4) show ?thesis by blast
  next
    case over
    with assms(2,4) st have x: "x = build_hold_decision_capsule cfg env (attempt_action r ''reconcile'')
        DENY OVER_TOLERANCE
        (over_tolerance_reason cfg exe (reserved_amount_of r) delta (tolerance_of cfg r)) None (Some i) CONFIRMS"
      by (auto simp: plan_reconcile_locked_def)
    have "Some i \<in> ids (read_ledger L)"
      using by_id_SomeD [OF assms(3)] by (auto simp: ids_def intro: rev_image_eqI)
    with decision_guard [OF assms(1)] show ?thesis unfolding x by blast
  next
    case fits
    with assms(2,4) st have "build_hold_reconcile_capsule cfg env (attempt_action r ''reconcile'') i execution
           (reserved_amount_of r) (JInt exe) (tolerance_of cfg r) = Inr x"
      by (auto simp: plan_reconcile_locked_def res_simps)
    from terminal_capsule(3) [OF assms(1) this] obtain a where a: "hold_built cfg env x"
      "reserved_amount_of r = JInt a" "terminal_line r i RECONCILED (exe - a) x"
      "int_member x ''executed_amount_minor'' = exe" by auto
    have "exe - a \<le> tolerance_of cfg r"
      using fits a(2) by (auto simp: py_le_def py_rsub_def)
    moreover have "hold_status cfg L i = (ACTIVE, None)"
      using st fits(1) by (simp add: hold_status_active_iff)
    ultimately show ?thesis
      using a assms(3) by (auto intro!: line_guard_terminal [where st = RECONCILED])
  qed
qed

lemma plan_job_guard:
  assumes "cfg_ok cfg" "plan_job cfg env j L = Inr d" "job_ready L j" "h_capsule d = Some x"
  shows "hold_built cfg env x \<and> line_guard cfg L (job_scope j) x"
  using assms
  by (cases j) (auto simp del: job_ready.simps(1) dest: plan_reserve_guard plan_close_guard plan_reconcile_guard)

section \<open>The invariant of the interleaving\<close>

fun inside :: "phase \<Rightarrow> job option" where
  "inside (Entered env j) = Some j"
| "inside (Planned env j d) = Some j"
| "inside _ = None"

fun phase_ok :: "hold_cfg \<Rightarrow> capsule list \<Rightarrow> phase \<Rightarrow> bool" where
  "phase_ok cfg L Idle = True"
| "phase_ok cfg L (Waiting env j) = job_ready L j"
| "phase_ok cfg L (Entered env j) = job_ready L j"
| "phase_ok cfg L (Planned env j d) =
     (\<forall>x. h_capsule d = Some x \<longrightarrow> hold_built cfg env x \<and> line_guard cfg L (job_scope j) x)"

definition caps_kept :: "hold_cfg \<Rightarrow> capsule list \<Rightarrow> bool" where
  "caps_kept cfg L \<longleftrightarrow>
     (\<forall>c d m. g_cap_minor cfg (Some c) = Some m \<and> 0 \<le> m \<and> scope_tolerance cfg c \<le> 0 \<longrightarrow>
        exposure (read_ledger L) d (Some c) \<le> m)"

definition cinv :: "hold_cfg \<Rightarrow> csys \<Rightarrow> bool" where
  "cinv cfg s \<longleftrightarrow> hold_inv cfg (s_ledger s) \<and> nonneg_reserves (s_ledger s) \<and> caps_kept cfg (s_ledger s) \<and>
     (\<forall>t j. inside (s_phase s t) = Some j \<longrightarrow> s_lock s (job_scope j) = Some t) \<and>
     (\<forall>t. phase_ok cfg (s_ledger s) (s_phase s t))"

lemma job_ready_append:
  "job_ready L j \<Longrightarrow> c_capsule_id x \<notin> ids L \<Longrightarrow> job_ready (L @ [x]) j"
  by (cases j) (auto intro: by_id_stable)

text \<open>An append keeps the ledger's part of the invariant, and every phase of another scope.\<close>

lemma append_keeps:
  assumes "hold_inv cfg L" "nonneg_reserves L" "caps_kept cfg L" "line_effect cfg (\<lambda>i. 0 \<le> i) L x"
  shows "hold_inv cfg (L @ [x]) \<and> nonneg_reserves (L @ [x]) \<and> caps_kept cfg (L @ [x])"
  using assms line_effect_inv [OF assms(1,4)] capped_effect [OF assms(4,2)]
    line_effect_cap [OF assms(1,4)]
  unfolding caps_kept_def by blast

lemma append_phase_ok:
  assumes "hold_inv cfg L" "line_effect cfg (\<lambda>i. 0 \<le> i) L x" "phase_ok cfg L p"
    "\<And>j. inside p = Some j \<Longrightarrow> \<not> line_scope L x (job_scope j)"
  shows "phase_ok cfg (L @ [x]) p"
  using assms line_effect_new [OF assms(2)]
  by (cases p) (auto intro: job_ready_append line_guard_stable)

lemma unavailable_effect:
  assumes "cfg_ok cfg" "\<not> e_engine_available env" "fresh_uuid env L"
    "evaluate_and_reserve cfg env a L = Inr (d, L')"
  obtains x where "L' = L @ [x]" "line_effect cfg ok L x" "refusal_line x"
proof -
  obtain rc rs where eff: "commit cfg env (plan_deny cfg env a rc rs None) L = Inr (d, L')"
    using assms(2,4) by (auto simp: evaluate_and_reserve_def plan_evaluate_def)
  with plan_deny_effect [OF assms(1) eff assms(3)] obtain x where x: "L' = L @ [x]" "h_capsule d = Some x"
      "line_effect cfg ok L x" by blast
  have "d = plan_deny cfg env a rc rs None"
    using eff by (auto simp: commit_def plan_deny_def res_simps)
  with x(2) have "refusal_line x"
    using decision_capsule(2) [OF assms(1)] by (auto simp: plan_deny_def)
  with x show thesis by (intro that)
qed

text \<open>The four ways a step changes the state: a thread moves without leaving or entering a critical
  section or the ledger growing, it enters, it leaves without a write, it leaves with one.\<close>

lemma cinv_init: "cinv cfg csys_init"
  by (auto simp: cinv_def csys_init_def nonneg_reserves_def caps_kept_def read_ledger_def)

lemma cinv_move:
  assumes "cinv cfg s" "phase_ok cfg (s_ledger s) p"
    "\<And>j. inside p = Some j \<Longrightarrow> s_lock s (job_scope j) = Some t"
  shows "cinv cfg (s\<lparr>s_phase := (s_phase s)(t := p)\<rparr>)"
  using assms by (auto simp: cinv_def)

lemma cinv_leave:
  assumes "cinv cfg s" "inside (s_phase s t) = Some j"
  shows "cinv cfg (s\<lparr>s_lock := (s_lock s)(job_scope j := None), s_phase := (s_phase s)(t := Idle)\<rparr>)"
  using assms unfolding cinv_def by (auto split: if_splits) (metis option.inject)+

lemma cinv_append:
  assumes "cinv cfg s" "line_effect cfg (\<lambda>i. 0 \<le> i) (s_ledger s) x"
    "\<And>t j. inside (s_phase s t) = Some j \<Longrightarrow> \<not> line_scope (s_ledger s) x (job_scope j)"
  shows "cinv cfg (s\<lparr>s_ledger := s_ledger s @ [x]\<rparr>)"
  using assms append_keeps [of cfg "s_ledger s" x] append_phase_ok [OF _ assms(2)]
  unfolding cinv_def by simp

lemma cinv_step:
  assumes "cfg_ok cfg" "g_cap_minor cfg None = None" "cstep cfg s s'" "cinv cfg s"
  shows "cinv cfg s'"
  using assms(3)
proof cases
  case (start t j env)
  with assms(4) show ?thesis by (auto intro: cinv_move)
next
  case (acquire t env j)
  from assms(4) acquire(2) have "phase_ok cfg (s_ledger s) (Waiting env j)"
    by (metis cinv_def)
  moreover have "job_scope j' \<noteq> job_scope j" if "inside (s_phase s t') = Some j'" for t' j'
    using assms(4) that acquire(3) unfolding cinv_def by (metis option.distinct(1))
  ultimately show ?thesis
    using assms(4) acquire(1) unfolding cinv_def by auto
next
  case (plan t env j d)
  from assms(4) plan(2) have "phase_ok cfg (s_ledger s) (Entered env j)" "s_lock s (job_scope j) = Some t"
    unfolding cinv_def by (metis, metis inside.simps(1))
  with assms(1,4) plan show ?thesis
    by (auto intro!: cinv_move dest: plan_job_guard)
next
  case (plan_raises t env j e)
  with assms(4) show ?thesis by (auto intro: cinv_leave)
next
  case (commit t env j d d' L')
  from assms(4) commit(2) have ok: "phase_ok cfg (s_ledger s) (Planned env j d)"
      and mine: "s_lock s (job_scope j) = Some t"
    unfolding cinv_def by (metis, metis inside.simps(2))
  show ?thesis
  proof (cases "h_capsule d")
    case None
    with commit have "s_ledger s = L'" by (auto simp: commit_def)
    with cinv_leave [OF assms(4), of t j] commit(1,2) show ?thesis by auto
  next
    case (Some x)
    with ok have x: "hold_built cfg env x" "line_guard cfg (s_ledger s) (job_scope j) x" by auto
    have L': "L' = s_ledger s @ [x]" and new: "new_line cfg (s_ledger s) x"
      using commit_new_line [OF commit(4) Some x(1) commit(3)] by auto
    define s1 where "s1 = s\<lparr>s_lock := (s_lock s)(job_scope j := None), s_phase := (s_phase s)(t := Idle)\<rparr>"
    have "cinv cfg s1"
      using cinv_leave [OF assms(4)] commit(2) by (simp add: s1_def)
    moreover have "line_effect cfg (\<lambda>i. 0 \<le> i) (s_ledger s1) x"
      using line_guard_effect [OF x(2) new assms(2)] by (simp add: s1_def)
    moreover have "\<not> line_scope (s_ledger s1) x (job_scope j')" if "inside (s_phase s1 t') = Some j'" for t' j'
    proof
      assume "line_scope (s_ledger s1) x (job_scope j')"
      with line_guard_scope [OF x(2)] have "job_scope j' = job_scope j" by (simp add: s1_def)
      moreover have "s_lock s1 (job_scope j') = Some t'"
        using \<open>cinv cfg s1\<close> that by (simp add: cinv_def)
      ultimately show False by (simp add: s1_def)
    qed
    ultimately have "cinv cfg (s1\<lparr>s_ledger := s_ledger s1 @ [x]\<rparr>)"
      by (rule cinv_append)
    moreover have "s1\<lparr>s_ledger := s_ledger s1 @ [x]\<rparr> = s'"
      using commit(1) L' by (cases s) (simp add: s1_def)
    ultimately show ?thesis by simp
  qed
next
  case (commit_raises t env j d e)
  with assms(4) show ?thesis by (auto intro: cinv_leave)
next
  case (unavailable env a d L')
  from unavailable_effect [OF assms(1) unavailable(2,3,4)] obtain x where
    "L' = s_ledger s @ [x]" "line_effect cfg (\<lambda>i. 0 \<le> i) (s_ledger s) x" "refusal_line x" by blast
  with cinv_append [OF assms(4)] unavailable(1) no_scope(1) show ?thesis by blast
next
  case (foreign x)
  then have "line_effect cfg (\<lambda>i. 0 \<le> i) (s_ledger s) x" by (auto intro: line_effect.foreign)
  with cinv_append [OF assms(4)] foreign no_scope(2) show ?thesis by blast
qed

lemma creachable_inv:
  assumes "cfg_ok cfg" "g_cap_minor cfg None = None" "creachable cfg s"
  shows "cinv cfg s"
  using assms(3) by induction (auto intro: cinv_init cinv_step [OF assms(1,2)])

end
