(* ===== verification/Hold_Properties.thy ===== *)
theory Hold_Properties
  imports Hold_Concurrency
begin

text \<open>
  The properties of the hold engine.  \<open>demo_cfg\<close> is the engine the witnesses run: a cap of 100 for the
  class \<open>''wire''\<close>, ids that are computed from the action id, and a verifier that recomputes them.
\<close>

section \<open>A concrete engine\<close>

definition hold_id :: "string \<Rightarrow> string" where
  "hold_id s = drop (length s - 2) s @ replicate 62 CHR ''0''"

definition demo_id :: "capsule \<Rightarrow> string" where
  "demo_id c = hold_id (action_id_of c)"

definition demo_cfg :: hold_cfg where
  "demo_cfg =
     \<lparr>g_cap_minor = (\<lambda>c. if c = Some ''wire'' then Some 100 else None), g_tolerance_minor = (\<lambda>_. None),
      g_layout_flat = False, g_flat_writes_stopped = False,
      g_compute_id = demo_id, g_verify_ok = (\<lambda>c. c_capsule_id c = Some (demo_id c)),
      g_float_add = (\<lambda>i f. f), g_float_rsub = (\<lambda>i f. f), g_float_gt = (\<lambda>f i. True),
      g_float_le = (\<lambda>f i. False), g_py_str = (\<lambda>_. ''?''), g_py_repr = (\<lambda>_. ''?'')\<rparr>"

definition demo_env :: "string \<Rightarrow> henv" where
  "demo_env u = \<lparr>e_uuid = u, e_now = ''2026-01-01T00:00:00Z'', e_write_error = None, e_engine_available = True\<rparr>"

definition demo_action :: "int \<Rightarrow> action" where
  "demo_action amount =
     \<lparr>act_verb = ''pay'', act_operator = ''op'', act_developer = ''dev'', act_action_class = Some ''wire'',
      act_action_id = None, act_timestamp = None, act_amount_minor = JInt amount, act_currency = JNull,
      act_target = JNull, act_expires_at = JNull\<rparr>"

text \<open>The ledger after a list of calls; a call that raises ends it.\<close>

fun run_ops :: "hold_cfg \<Rightarrow> (henv \<times> hold_op) list \<Rightarrow> capsule list \<Rightarrow> hold_exn + capsule list" where
  "run_ops cfg [] L = Inr L"
| "run_ops cfg ((env, op) # ops) L = sbind (run_op cfg env op L) (\<lambda>(d, L'). run_ops cfg ops L')"

lemma demo_cfg_ok: "cfg_ok demo_cfg"
  by (simp add: cfg_ok_def demo_cfg_def demo_id_def hold_id_def seal_body_def action_id_of_def)

text \<open>Executable forms, for the witnesses.\<close>

lemma fresh_uuid_code [code]:
  "fresh_uuid env L \<longleftrightarrow>
     list_all (\<lambda>r. case c_action_id r of None \<Rightarrow> True | Some i \<Rightarrow> \<not> suffix (''/'' @ e_uuid env) i) L"
  by (auto simp: fresh_uuid_def list_all_iff suffix_def split: option.splits)

lemma request_ok_code [code]:
  "request_ok ok op \<longleftrightarrow>
     (case op of EvaluateAndReserve a \<Rightarrow> (case requested_amount a of JInt i \<Rightarrow> ok i | _ \<Rightarrow> True) | _ \<Rightarrow> True)"
  by (auto simp: request_ok_def split: hold_op.splits json.splits)

fun good_ops :: "(henv \<times> hold_op) list \<Rightarrow> capsule list \<Rightarrow> bool" where
  "good_ops [] L = True"
| "good_ops ((env, op) # ops) L \<longleftrightarrow> fresh_uuid env L \<and> request_ok (\<lambda>i. 0 \<le> i) op \<and>
     (case run_op demo_cfg env op L of Inl _ \<Rightarrow> False | Inr (d, L') \<Rightarrow> good_ops ops L')"

lemma good_ops_capped:
  assumes "capped_run demo_cfg L" "good_ops ops L" "run_ops demo_cfg ops L = Inr L'"
  shows "capped_run demo_cfg L'"
  using assms
proof (induction ops L rule: good_ops.induct)
  case (1 L)
  then show ?case by simp
next
  case (2 env op ops L)
  from 2(4) obtain d L1 where L1: "run_op demo_cfg env op L = Inr (d, L1)" "run_ops demo_cfg ops L1 = Inr L'"
    by (auto simp: res_simps)
  with 2(3) have "fresh_uuid env L" "request_ok (\<lambda>i. 0 \<le> i) op" "good_ops ops L1" by auto
  with 2(1) [OF L1(1)] 2(2) L1 show ?case by (auto intro: capped_run.engine)
qed

definition demo_ops :: "(henv \<times> hold_op) list" where
  "demo_ops =
     [(demo_env ''01'', EvaluateAndReserve (demo_action 60)),
      (demo_env ''02'', EvaluateAndReserve (demo_action 30)),
      (demo_env ''03'', ReconcileHold (hold_id ''01'') (JInt 45) None)]"

definition demo_ledger :: "capsule list" where
  "demo_ledger = (case run_ops demo_cfg demo_ops [] of Inl _ \<Rightarrow> [] | Inr L \<Rightarrow> L)"

lemma demo_ledger_capped: "capped_run demo_cfg demo_ledger"
proof -
  have "good_ops demo_ops []" by code_simp
  moreover have "run_ops demo_cfg demo_ops [] = Inr demo_ledger" by code_simp
  ultimately show ?thesis using good_ops_capped capped_run.empty by blast
qed

lemma demo_ledger_reachable: "hold_reachable demo_cfg demo_ledger"
  by (rule capped_run_reachable) (rule demo_ledger_capped)

section \<open>What every call does to the ledger\<close>

lemma commit_append:
  "commit cfg env d L = Inr (d', L') \<Longrightarrow>
     d' = d \<and> (case h_capsule d of None \<Rightarrow> L' = L | Some c \<Rightarrow> engine_append cfg env c L = Inr L')"
  by (auto simp: commit_def res_simps split: option.splits)

lemma run_op_commit:
  assumes "run_op cfg env op L = Inr (d, L')"
  shows "commit cfg env d L = Inr (d, L')"
proof -
  have "commit cfg env (not_found_decision i) L = Inr (not_found_decision i, L)" for i
    by (simp add: commit_def not_found_decision_def)
  moreover have "commit cfg env d L = Inr (d, L')" if "commit cfg env p L = Inr (d, L')" for p
    using commit_append [OF that] that by metis
  ultimately show ?thesis
    using assms
    by (cases op)
       (auto simp: evaluate_and_reserve_def close_hold_def reconcile_def res_simps split: option.splits)
qed

lemma run_op_prefix:
  assumes "run_op cfg env op L = Inr (d, L')"
  shows "prefix L L'"
  using commit_append [OF run_op_commit [OF assms]]
  by (auto split: option.splits dest: engine_log.app_prefix)

lemma run_op_distinct:
  assumes "run_op cfg env op L = Inr (d, L')" "distinct (map c_capsule_id L)"
  shows "distinct (map c_capsule_id L')"
  using commit_append [OF run_op_commit [OF assms(1)]] assms(2)
  by (auto split: option.splits dest: engine_log.app_distinct)

lemma deny_decision:
  "h_capsule (plan_deny cfg env a rc rs agg) = Some (build_hold_decision_capsule cfg env a DENY rc rs agg None CONFIRMS)"
  "h_outcome (plan_deny cfg env a rc rs agg) = DENY"
  "h_reason_code (plan_deny cfg env a rc rs agg) = Some rc"
  by (simp_all add: plan_deny_def)

lemma deny_terminal_decision:
  "\<exists>a rs p. h_capsule (plan_deny_terminal cfg env i r st t v)
     = Some (build_hold_decision_capsule cfg env a DENY (fst (terminal_reason i st v)) rs None p CONFIRMS)"
  "h_outcome (plan_deny_terminal cfg env i r st t v) = DENY"
  "h_reason_code (plan_deny_terminal cfg env i r st t v) = Some (fst (terminal_reason i st v))"
  "h_hold_status (plan_deny_terminal cfg env i r st t v) = Some st"
  by (cases "terminal_reason i st v"; auto simp: plan_deny_terminal_def)+

lemma denied_record:
  assumes "cfg_ok cfg" "run_op cfg env op L = Inr (d, L')" "h_outcome d = DENY" "h_capsule d = Some c"
  shows "refusal_line c"
proof -
  note built = decision_capsule(2) [OF assms(1)]
  have denied: "refusal_line c" if "h_capsule d = Some (build_hold_decision_capsule cfg env a DENY rc rs agg p CONFIRMS)"
    for a rc rs agg p using built that assms(4) by simp
  have commit: "d = p" if "commit cfg env p L = Inr (d, L')" for p
    using commit_append [OF that] by simp
  show ?thesis
  proof (cases op)
    case (EvaluateAndReserve a)
    with assms(2) obtain p where p: "plan_evaluate cfg env a L = Inr p" "d = p"
      using commit by (auto simp: evaluate_and_reserve_def res_simps)
    have "\<exists>rc rs agg. p = plan_deny cfg env a rc rs agg"
    proof (cases "e_engine_available env")
      case True
      with p(1) have "plan_reserve cfg env a L = Inr p" by (simp add: plan_evaluate_def)
      then show ?thesis using assms(3) p(2) by (cases rule: plan_reserve_cases) auto
    next
      case False
      with p(1) show ?thesis by (auto simp: plan_evaluate_def)
    qed
    with p(2) show ?thesis by (auto intro: denied simp: deny_decision)
  next
    case (CloseHold i v reason)
    with assms(2,4) obtain r p where p: "plan_close_locked cfg env i v reason r L = Inr p" "d = p"
      using commit by (auto simp: close_hold_def res_simps not_found_decision_def split: option.splits)
    obtain st t where st: "hold_status cfg L i = (st, t)" by fastforce
    with p assms(3) have "d = plan_deny_terminal cfg env i r st t (close_name v)"
      by (auto simp: plan_close_locked_def res_simps split: if_splits)
    with deny_terminal_decision(1) denied show ?thesis by metis
  next
    case (ReconcileHold i ex execution)
    with assms(2,4) obtain r exe p where p: "plan_reconcile_locked cfg env i exe execution r L = Inr p" "d = p"
      using commit by (auto simp: reconcile_def res_simps not_found_decision_def split: option.splits)
    obtain st t where st: "hold_status cfg L i = (st, t)" by fastforce
    show ?thesis
    proof (cases "st = ACTIVE")
      case True
      with p st obtain delta where delta: "py_rsub cfg exe (reserved_amount_of r) = Inr delta"
        by (auto simp: plan_reconcile_locked_def res_simps)
      with p st assms(3) True have "\<not> py_le cfg delta (tolerance_of cfg r)"
        by (auto simp: plan_reconcile_locked_def res_simps)
      with p st delta True have "h_capsule d = Some (build_hold_decision_capsule cfg env
          (attempt_action r ''reconcile'') DENY OVER_TOLERANCE
          (over_tolerance_reason cfg exe (reserved_amount_of r) delta (tolerance_of cfg r)) None (Some i) CONFIRMS)"
        by (auto simp: plan_reconcile_locked_def)
      then show ?thesis by (rule denied)
    next
      case False
      with p st have "d = plan_deny_terminal cfg env i r st t ''reconcile''"
        by (simp add: plan_reconcile_locked_def)
      with deny_terminal_decision(1) denied show ?thesis by metis
    qed
  qed
qed

lemma exposure_refused:
  assumes "hold_inv cfg L" "c_capsule_id x \<notin> ids L" "\<not> accepted x"
  shows "exposure (read_ledger (L @ [x])) d cls = exposure (read_ledger L) d cls"
proof -
  have "c_capsule_id x \<notin> c_capsule_id ` set (read_ledger L)"
    using assms(2) ids_read_ledger [of L] by (auto simp: ids_def)
  from exposure_append [OF hold_inv_parents [OF assms(1)] this] assms(3) show ?thesis
    by (auto simp: read_ledger_def contribution_def accepted_def)
qed

lemma status_kept:
  assumes "hold_status cfg L i = (st, Some t)" "c_capsule_id x \<notin> ids L"
  shows "hold_status cfg (L @ [x]) i = (st, Some t)"
proof -
  obtain r u where r: "by_id (read_ledger L) i = Some r" "g_verify_ok cfg r"
      and f: "find (closes i) (read_ledger L) = Some u"
    using assms(1) by (auto simp: hold_status_def split: option.splits if_splits)
  have "find (closes i) (read_ledger (L @ [x])) = Some u"
    using f by (simp add: read_ledger_append find_append)
  with by_id_stable [OF r(1) assms(2)] r f assms(1) show ?thesis
    by (simp add: hold_status_def)
qed

lemma built_append:
  assumes "hold_built cfg env x" "fresh_uuid env L" "engine_append cfg env x L = Inr L'"
  shows "L' = L @ [x] \<and> new_line cfg L x"
proof -
  have "commit cfg env \<lparr>h_outcome = ALLOW, h_capsule = Some x, h_reason = [], h_reason_code = None,
      h_hold_status = None, h_aggregate_minor = None\<rparr> L = Inr (\<lparr>h_outcome = ALLOW, h_capsule = Some x,
      h_reason = [], h_reason_code = None, h_hold_status = None, h_aggregate_minor = None\<rparr>, L')"
    using assms(3) by (simp add: commit_def)
  from commit_new_line [OF this _ assms(1,2)] show ?thesis by simp
qed

lemma reserve_active:
  assumes inv: "hold_inv cfg L" and new: "new_line cfg L x" and line: "reserve_line a n x"
    and i: "c_capsule_id x = Some i" "i \<noteq> []"
  shows "hold_status cfg (L @ [x]) i = (ACTIVE, None)"
proof -
  have "\<not> closes i r" if "r \<in> set L" for r
  proof
    assume "closes i r"
    then have "Some i \<in> ids (read_ledger L)"
      using that inv closes_hold [of i r]
      by (auto simp: hold_inv_def hold_line_ok_def closes_def split: option.splits)
    with i new ids_read_ledger [of L] show False by (auto simp: new_line_def)
  qed
  moreover have "\<not> closes i x" using line by (simp add: reserve_line_def closes_def)
  ultimately show ?thesis
    using new i by (intro hold_status_new) (auto simp: new_line_def)
qed

lemma terminal_append:
  assumes inv: "hold_inv cfg L" and new: "new_line cfg L x" and r: "by_id (read_ledger L) i = Some r"
    and active: "hold_status cfg L i = (ACTIVE, None)" and line: "terminal_line r i st delta x"
    and scope: "scope_of_line r d c"
  shows "hold_status cfg (L @ [x]) i = (st, Some x) \<and>
    exposure (read_ledger (L @ [x])) d (Some c) = exposure (read_ledger L) d (Some c) + delta"
proof -
  have "closes i x" using line by (simp add: closes_def terminal_line_def)
  moreover have "Some i \<in> ids L"
    using by_id_SomeD [OF r] by (auto simp: ids_def read_ledger_def intro: rev_image_eqI)
  then have "c_capsule_id x \<noteq> Some i" using new by (auto simp: new_line_def)
  ultimately show ?thesis
    using hold_status_append_terminal [OF active, of x] exposure_terminal [OF inv new r line, of d c] new line scope
    by (simp add: new_line_def terminal_line_def)
qed

section \<open>Properties\<close>

text \<open>C1: In every ledger that engine calls and other writers can produce, the aggregate of a class
  and a subject is the sum of what its holds are worth: the reserved amount of an active hold, nothing
  for a released or expired one, the executed amount of a reconciled one.\<close>

theorem aggregate_is_settled_total:
  assumes "cfg_ok cfg" "hold_reachable cfg L"
  shows "active_exposure_minor (read_ledger L) d (Some c) None = Inr (settled_total cfg L d c)"
  using hold_reachable_refines [OF assms] by simp

theorem aggregate_is_settled_total_witness:
  "active_exposure_minor (read_ledger demo_ledger) ''dev'' (Some ''wire'') None = Inr 75 \<and>
   settled_total demo_cfg demo_ledger ''dev'' ''wire'' = 75"
proof -
  have "settled_total demo_cfg demo_ledger ''dev'' ''wire'' = 75" by code_simp
  then show ?thesis
    using aggregate_is_settled_total [OF demo_cfg_ok demo_ledger_reachable, of "''dev''" "''wire''"] by simp
qed

text \<open>C3: While callers request amounts that are not negative and the tolerance of the class is zero
  (the default), no sequence of reservations, closes, reconciliations and foreign writes takes the
  aggregate of a class above its cap.\<close>

theorem cap_is_never_exceeded:
  assumes "cfg_ok cfg" "capped_run cfg L"
    "g_cap_minor cfg (Some c) = Some m" "0 \<le> m" "scope_tolerance cfg c \<le> 0"
  shows "exposure (read_ledger L) d (Some c) \<le> m"
  using capped_run_exposure [OF assms(1,3,4,5,2)] by blast

theorem cap_is_never_exceeded_witness: "exposure (read_ledger demo_ledger) ''dev'' (Some ''wire'') \<le> 100"
  by (rule cap_is_never_exceeded [OF demo_cfg_ok demo_ledger_capped])
     (simp_all add: demo_cfg_def scope_tolerance_def)

text \<open>C2: With any number of callers interleaved with each other and with other writers at the read, the
  decision and the append, and with requests that are not negative, the aggregate of a class of zero
  tolerance stays within its cap: the per-scope lock closes the race between deciding and appending.\<close>

theorem concurrent_callers_keep_cap:
  assumes "cfg_ok cfg" "g_cap_minor cfg None = None" "creachable cfg s"
    "g_cap_minor cfg (Some c) = Some m" "0 \<le> m" "scope_tolerance cfg c \<le> 0"
  shows "exposure (read_ledger (s_ledger s)) d (Some c) \<le> m"
  using creachable_inv [OF assms(1-3)] assms(4-6) unfolding cinv_def caps_kept_def by blast

text \<open>Two callers race for one scope: the second one waits, then finds the cap used up.\<close>

definition race_plan :: "string \<Rightarrow> int \<Rightarrow> capsule list \<Rightarrow> hold_decision" where
  "race_plan u amount L = projr (plan_job demo_cfg (demo_env u) (JReserve (demo_action amount)) L)"

definition race_write :: "string \<Rightarrow> int \<Rightarrow> capsule list \<Rightarrow> capsule list" where
  "race_write u amount L = snd (projr (commit demo_cfg (demo_env u) (race_plan u amount L) L))"

definition race_two :: "capsule list \<Rightarrow> nat option \<Rightarrow> phase \<Rightarrow> phase \<Rightarrow> csys" where
  "race_two L owner p q =
     \<lparr>s_ledger = L, s_lock = (\<lambda>_. None)((''wire'', ''dev'') := owner), s_phase = (\<lambda>_. Idle)(0 := p, 1 := q)\<rparr>"

lemma race_two_simps [simp]:
  "s_ledger (race_two L owner p q) = L" "s_lock (race_two L owner p q) (''wire'', ''dev'') = owner"
  "s_phase (race_two L owner p q) 0 = p" "s_phase (race_two L owner p q) 1 = q"
  "s_phase (race_two L owner p q) (Suc 0) = q"
  by (simp_all add: race_two_def)

lemma race_two_eqs:
  "(race_two L owner p q)\<lparr>s_phase := (s_phase (race_two L owner p q))(0 := p')\<rparr> = race_two L owner p' q"
  "(race_two L owner p q)\<lparr>s_phase := (s_phase (race_two L owner p q))(1 := q')\<rparr> = race_two L owner p q'"
  "(race_two L owner p q)\<lparr>s_lock := (s_lock (race_two L owner p q))((''wire'', ''dev'') := owner'),
      s_phase := (s_phase (race_two L owner p q))(0 := p')\<rparr> = race_two L owner' p' q"
  "(race_two L owner p q)\<lparr>s_lock := (s_lock (race_two L owner p q))((''wire'', ''dev'') := owner'),
      s_phase := (s_phase (race_two L owner p q))(1 := q')\<rparr> = race_two L owner' p q'"
  "(race_two L owner p q)\<lparr>s_ledger := L',
      s_lock := (s_lock (race_two L owner p q))((''wire'', ''dev'') := owner'),
      s_phase := (s_phase (race_two L owner p q))(0 := p')\<rparr> = race_two L' owner' p' q"
  "(race_two L owner p q)\<lparr>s_ledger := L',
      s_lock := (s_lock (race_two L owner p q))((''wire'', ''dev'') := owner'),
      s_phase := (s_phase (race_two L owner p q))(1 := q')\<rparr> = race_two L' owner' p q'"
  by (auto simp: race_two_def fun_upd_def fun_eq_iff)

definition race_L1 :: "capsule list" where "race_L1 = race_write ''01'' 60 []"
definition race_L2 :: "capsule list" where "race_L2 = race_write ''02'' 50 race_L1"

lemma not_isl_Inr: "\<not> isl x \<Longrightarrow> x = Inr (projr x)"
  by (cases x) auto

lemma commit_decision: "\<not> isl (commit cfg env d L) \<Longrightarrow> commit cfg env d L = Inr (d, snd (projr (commit cfg env d L)))"
  using commit_append [of cfg env d L] by (cases "commit cfg env d L") auto

lemma race_reachable: "creachable demo_cfg (race_two race_L2 None Idle Idle)"
proof -
  let ?a = "JReserve (demo_action 60)" and ?b = "JReserve (demo_action 50)"
  let ?ea = "demo_env ''01''" and ?eb = "demo_env ''02''"
  let ?da = "race_plan ''01'' 60 []" and ?db = "race_plan ''02'' 50 race_L1"
  have sc: "job_scope ?a = (''wire'', ''dev'')" "job_scope ?b = (''wire'', ''dev'')" by code_simp+
  have ready: "job_ready L ?a" "job_ready L ?b" for L by (simp_all add: demo_action_def)
  have pa: "plan_job demo_cfg ?ea ?a [] = Inr ?da"
    unfolding race_plan_def by (rule not_isl_Inr) code_simp
  have pb: "plan_job demo_cfg ?eb ?b race_L1 = Inr ?db"
    unfolding race_plan_def by (rule not_isl_Inr) code_simp
  have ca: "commit demo_cfg ?ea ?da [] = Inr (?da, race_L1)"
    unfolding race_L1_def race_write_def by (rule commit_decision) code_simp
  have cb: "commit demo_cfg ?eb ?db race_L1 = Inr (?db, race_L2)"
    unfolding race_L2_def race_write_def by (rule commit_decision) code_simp
  have fresh: "fresh_uuid ?ea []" "fresh_uuid ?eb race_L1" by code_simp+
  have "csys_init = race_two [] None Idle Idle"
    by (auto simp: csys_init_def race_two_def)
  then have "creachable demo_cfg (race_two [] None Idle Idle)"
    using creachable.init by metis
  then have "creachable demo_cfg (race_two [] None (Waiting ?ea ?a) Idle)"
    by (rule creachable.step) (use cstep.start [of "race_two [] None Idle Idle" 0 ?a] ready in \<open>simp add: race_two_eqs del: One_nat_def job_ready.simps\<close>)
  then have "creachable demo_cfg (race_two [] None (Waiting ?ea ?a) (Waiting ?eb ?b))"
    by (rule creachable.step)
       (use cstep.start [of "race_two [] None (Waiting ?ea ?a) Idle" 1 ?b] ready in \<open>simp add: race_two_eqs del: One_nat_def job_ready.simps\<close>)
  then have "creachable demo_cfg (race_two [] (Some 0) (Entered ?ea ?a) (Waiting ?eb ?b))"
    by (rule creachable.step)
       (use cstep.acquire [of "race_two [] None (Waiting ?ea ?a) (Waiting ?eb ?b)" 0 ?ea ?a] sc in \<open>simp add: race_two_eqs del: One_nat_def job_ready.simps\<close>)
  then have "creachable demo_cfg (race_two [] (Some 0) (Planned ?ea ?a ?da) (Waiting ?eb ?b))"
    by (rule creachable.step)
       (use cstep.plan [of "race_two [] (Some 0) (Entered ?ea ?a) (Waiting ?eb ?b)" 0 ?ea ?a] pa in \<open>simp add: race_two_eqs del: One_nat_def job_ready.simps\<close>)
  then have "creachable demo_cfg (race_two race_L1 None Idle (Waiting ?eb ?b))"
    by (rule creachable.step)
       (use cstep.commit [of "race_two [] (Some 0) (Planned ?ea ?a ?da) (Waiting ?eb ?b)" 0 ?ea ?a ?da] ca fresh sc
         in \<open>simp add: race_two_eqs del: One_nat_def job_ready.simps\<close>)
  then have "creachable demo_cfg (race_two race_L1 (Some 1) Idle (Entered ?eb ?b))"
    by (rule creachable.step)
       (use cstep.acquire [of "race_two race_L1 None Idle (Waiting ?eb ?b)" 1 ?eb ?b] sc in \<open>simp add: race_two_eqs del: One_nat_def job_ready.simps\<close>)
  then have "creachable demo_cfg (race_two race_L1 (Some 1) Idle (Planned ?eb ?b ?db))"
    by (rule creachable.step)
       (use cstep.plan [of "race_two race_L1 (Some 1) Idle (Entered ?eb ?b)" 1 ?eb ?b] pb in \<open>simp add: race_two_eqs del: One_nat_def job_ready.simps\<close>)
  then show ?thesis
    by (rule creachable.step)
       (use cstep.commit [of "race_two race_L1 (Some 1) Idle (Planned ?eb ?b ?db)" 1 ?eb ?b ?db] cb fresh sc
         in \<open>simp add: race_two_eqs del: One_nat_def job_ready.simps\<close>)
qed

text \<open>In the race the first caller gets its 60 and the second, who asks for 50 more, is refused.\<close>

theorem concurrent_callers_keep_cap_witness:
  "exposure (read_ledger race_L2) ''dev'' (Some ''wire'') \<le> 100 \<and> length race_L2 = 2"
proof -
  have "length race_L2 = 2" by code_simp
  moreover have "exposure (read_ledger (s_ledger (race_two race_L2 None Idle Idle))) ''dev'' (Some ''wire'') \<le> 100"
    by (rule concurrent_callers_keep_cap [OF demo_cfg_ok _ race_reachable])
       (simp_all add: demo_cfg_def scope_tolerance_def)
  ultimately show ?thesis by simp
qed

text \<open>No two callers are ever inside the critical section of one scope.\<close>

theorem one_caller_per_scope:
  assumes "cfg_ok cfg" "g_cap_minor cfg None = None" "creachable cfg s"
    "inside (s_phase s t) = Some j" "inside (s_phase s t') = Some j'" "job_scope j = job_scope j'"
  shows "t = t'"
proof -
  have "cinv cfg s" by (rule creachable_inv [OF assms(1-3)])
  with assms(4,5) have "s_lock s (job_scope j) = Some t" "s_lock s (job_scope j') = Some t'"
    unfolding cinv_def by blast+
  with assms(6) show ?thesis by simp
qed

definition race_entered :: csys where
  "race_entered = race_two [] (Some 0)
     (Entered (demo_env ''01'') (JReserve (demo_action 60))) (Waiting (demo_env ''02'') (JReserve (demo_action 50)))"

lemma race_entered_reachable: "creachable demo_cfg race_entered"
proof -
  let ?a = "JReserve (demo_action 60)" and ?b = "JReserve (demo_action 50)"
  let ?ea = "demo_env ''01''" and ?eb = "demo_env ''02''"
  have sc: "job_scope ?a = (''wire'', ''dev'')" by code_simp
  have ready: "job_ready L ?a" "job_ready L ?b" for L by (simp_all add: demo_action_def)
  have "csys_init = race_two [] None Idle Idle"
    by (auto simp: csys_init_def race_two_def)
  then have "creachable demo_cfg (race_two [] None Idle Idle)"
    using creachable.init by metis
  then have "creachable demo_cfg (race_two [] None (Waiting ?ea ?a) Idle)"
    by (rule creachable.step) (use cstep.start [of "race_two [] None Idle Idle" 0 ?a] ready in \<open>simp add: race_two_eqs del: One_nat_def job_ready.simps\<close>)
  then have "creachable demo_cfg (race_two [] None (Waiting ?ea ?a) (Waiting ?eb ?b))"
    by (rule creachable.step)
       (use cstep.start [of "race_two [] None (Waiting ?ea ?a) Idle" 1 ?b] ready in \<open>simp add: race_two_eqs del: One_nat_def job_ready.simps\<close>)
  then show ?thesis
    unfolding race_entered_def by (rule creachable.step)
       (use cstep.acquire [of "race_two [] None (Waiting ?ea ?a) (Waiting ?eb ?b)" 0 ?ea ?a] sc in \<open>simp add: race_two_eqs del: One_nat_def job_ready.simps\<close>)
qed

theorem one_caller_per_scope_witness:
  "inside (s_phase race_entered 0) = Some (JReserve (demo_action 60)) \<and>
   inside (s_phase race_entered 1) \<noteq> Some (JReserve (demo_action 60))"
proof -
  have in0: "inside (s_phase race_entered 0) = Some (JReserve (demo_action 60))"
    by (simp add: race_entered_def)
  have "(0 :: nat) = 1" if "inside (s_phase race_entered 1) = Some (JReserve (demo_action 60))"
    by (rule one_caller_per_scope [OF demo_cfg_ok _ race_entered_reachable in0 that])
       (simp_all add: demo_cfg_def)
  with in0 show ?thesis by auto
qed

text \<open>The ledger is append-only: whatever a sequence of engine calls does, every line it found is
  still there, in its place, and no capsule id is used twice.\<close>

theorem engine_ledger_append_only:
  assumes "run_ops cfg ops L = Inr L'" "distinct (map c_capsule_id L)"
  shows "prefix L L' \<and> distinct (map c_capsule_id L')"
  using assms
proof (induction ops arbitrary: L)
  case Nil
  then show ?case by simp
next
  case (Cons eo ops)
  obtain env op where "eo = (env, op)" by fastforce
  with Cons.prems(1) obtain d L1 where L1: "run_op cfg env op L = Inr (d, L1)" "run_ops cfg ops L1 = Inr L'"
    by (auto simp: res_simps)
  from Cons.IH [OF L1(2) run_op_distinct [OF L1(1) Cons.prems(2)]] run_op_prefix [OF L1(1)] show ?case
    by (meson prefix_order.trans)
qed

theorem engine_ledger_append_only_witness: "distinct (map c_capsule_id demo_ledger)"
proof -
  have "run_ops demo_cfg demo_ops [] = Inr demo_ledger" by code_simp
  from engine_ledger_append_only [OF this] show ?thesis by simp
qed

lemma demo_u4_ok:
  "\<not> isl (run_op demo_cfg (demo_env ''04'') (CloseHold (hold_id ''01'') Release None) demo_ledger)"
  by code_simp

text \<open>C5: A closed hold stays closed, by the same record: once \<open>hold_status\<close> reports a terminal record,
  no later call or foreign write changes the answer.\<close>

theorem terminal_status_is_final:
  assumes "cfg_ok cfg" "(hold_step cfg)\<^sup>*\<^sup>* L L'" "hold_status cfg L i = (st, Some t)"
  shows "hold_status cfg L' i = (st, Some t)"
  using assms(2)
proof induction
  case base
  show ?case by (rule assms(3))
next
  case (step L1 L2)
  with hold_step_effect [OF assms(1) step(2)] show ?case
    by (auto intro!: status_kept dest: line_effect_new)
qed

theorem terminal_status_is_final_witness:
  "\<exists>d L'. run_op demo_cfg (demo_env ''04'') (CloseHold (hold_id ''01'') Release None) demo_ledger = Inr (d, L') \<and>
     fst (hold_status demo_cfg L' (hold_id ''01'')) = RECONCILED"
proof -
  let ?run = "run_op demo_cfg (demo_env ''04'') (CloseHold (hold_id ''01'') Release None) demo_ledger"
  obtain d L' where run: "?run = Inr (d, L')"
    using not_isl_Inr [of ?run] by (metis prod.collapse demo_u4_ok)
  have "hold_step demo_cfg demo_ledger L'"
    by (rule hold_step.engine [OF run]) code_simp
  moreover have "hold_status demo_cfg demo_ledger (hold_id ''01'') = (RECONCILED, Some (last demo_ledger))"
    by code_simp
  ultimately have "hold_status demo_cfg L' (hold_id ''01'') = (RECONCILED, Some (last demo_ledger))"
    using terminal_status_is_final [OF demo_cfg_ok] by blast
  with run show ?thesis by simp
qed

text \<open>A refused call never moves an aggregate, whatever it refused and whichever scope is asked:
  the line it leaves is no hold record.\<close>

theorem denied_call_keeps_aggregates:
  assumes "cfg_ok cfg" "hold_reachable cfg L" "fresh_uuid env L"
    "run_op cfg env op L = Inr (d, L')" "h_outcome d = DENY"
  shows "exposure (read_ledger L') s cls = exposure (read_ledger L) s cls"
proof -
  note inv = hold_reachable_inv [OF assms(1,2)]
  from run_op_effect [OF assms(1,4,3) request_ok_any]
  consider "L' = L" | x where "L' = L @ [x]" "h_capsule d = Some x" "line_effect cfg (\<lambda>_. True) L x" by blast
  then show ?thesis
  proof cases
    case 2
    with denied_record [OF assms(1,4,5)] have "\<not> accepted x" by (simp add: refusal_line_def)
    with exposure_refused [OF inv] line_effect_new [OF 2(3)] 2(1) show ?thesis by blast
  qed simp
qed

definition demo_denied :: "hold_exn + (hold_decision \<times> capsule list)" where
  "demo_denied = run_op demo_cfg (demo_env ''05'') (EvaluateAndReserve (demo_action 26)) demo_ledger"

theorem denied_call_keeps_aggregates_witness:
  "exposure (read_ledger (snd (projr demo_denied))) ''dev'' (Some ''wire'') = 75"
proof -
  have run: "run_op demo_cfg (demo_env ''05'') (EvaluateAndReserve (demo_action 26)) demo_ledger
      = Inr (fst (projr demo_denied), snd (projr demo_denied))"
    unfolding prod.collapse by (subst demo_denied_def [symmetric], rule not_isl_Inr) code_simp
  have fresh: "fresh_uuid (demo_env ''05'') demo_ledger" by code_simp
  have deny: "h_outcome (fst (projr demo_denied)) = DENY" by code_simp
  have "exposure (read_ledger demo_ledger) ''dev'' (Some ''wire'') = 75" by code_simp
  with denied_call_keeps_aggregates [OF demo_cfg_ok demo_ledger_reachable fresh run deny] show ?thesis
    by simp
qed

text \<open>When the serialization point cannot be reached the engine denies without looking at the
  ledger: the decision and the line it records are the same for every ledger.\<close>

theorem unreachable_engine_denies:
  assumes "cfg_ok cfg" "\<not> e_engine_available env"
  shows "\<exists>c d. (\<forall>L. evaluate_and_reserve cfg env a L
            = sbind (engine_append cfg env c L) (\<lambda>L'. Inr (d, L')))
          \<and> h_outcome d = DENY \<and> h_reason_code d = Some SEQUENCER_UNAVAILABLE
          \<and> h_capsule d = Some c \<and> refusal_line c"
proof -
  define rs where "rs = ''scope serialization point is unreachable; fail closed (no reserve -> no pass)''"
  define c where "c = build_hold_decision_capsule cfg env a DENY SEQUENCER_UNAVAILABLE rs None None CONFIRMS"
  define d where "d = plan_deny cfg env a SEQUENCER_UNAVAILABLE rs None"
  have "evaluate_and_reserve cfg env a L = sbind (engine_append cfg env c L) (\<lambda>L'. Inr (d, L'))" for L
    using assms(2) deny_decision(1) [of cfg env a SEQUENCER_UNAVAILABLE rs None]
    by (simp add: evaluate_and_reserve_def plan_evaluate_def commit_def d_def c_def rs_def)
  moreover have "refusal_line c"
    unfolding c_def by (rule decision_capsule(2) [OF assms(1)])
  ultimately show ?thesis
    using deny_decision [of cfg env a SEQUENCER_UNAVAILABLE rs None] c_def d_def by metis
qed

theorem unreachable_engine_denies_witness:
  "\<exists>c d. evaluate_and_reserve demo_cfg (demo_env ''0a'' \<lparr>e_engine_available := False\<rparr>) (demo_action 5) []
     = Inr (d, [c]) \<and> h_outcome d = DENY"
proof -
  let ?env = "demo_env ''0a'' \<lparr>e_engine_available := False\<rparr>"
  obtain c d where cd: "\<And>L. evaluate_and_reserve demo_cfg ?env (demo_action 5) L
      = sbind (engine_append demo_cfg ?env c L) (\<lambda>L'. Inr (d, L'))" "h_outcome d = DENY"
    using unreachable_engine_denies [OF demo_cfg_ok, of ?env "demo_action 5"] by auto
  moreover have "\<not> isl (evaluate_and_reserve demo_cfg ?env (demo_action 5) [])" by code_simp
  ultimately have "\<not> isl (engine_append demo_cfg ?env c [])"
    by (cases "engine_append demo_cfg ?env c []") auto
  then obtain L where L: "engine_append demo_cfg ?env c [] = Inr L" by (metis not_isl_Inr)
  then have "L = [c]" using engine_log.app_new by fastforce
  with L cd show ?thesis by auto
qed

text \<open>A reservation of an exact amount is allowed precisely when the aggregate plus the amount is
  within the cap; an allowed one appends an active hold of that amount and reports the new aggregate.
  The call raises only when the append does.\<close>

theorem evaluate_and_reserve_spec:
  assumes "cfg_ok cfg" "hold_reachable cfg L" "fresh_uuid env L" "e_engine_available env"
    "act_amount_minor a = JInt n" "act_action_class a = Some c"
  shows "\<exists>x d. evaluate_and_reserve cfg env a L = sbind (engine_append cfg env x L) (\<lambda>L'. Inr (d, L')) \<and>
     (h_outcome d = ALLOW \<longleftrightarrow> (\<forall>m. g_cap_minor cfg (Some c) = Some m \<longrightarrow>
        exposure (read_ledger L) (act_developer a) (Some c) + n \<le> m)) \<and>
     (h_outcome d = DENY \<longrightarrow> h_reason_code d = Some CAP_EXCEEDED) \<and>
     (\<forall>L'. engine_append cfg env x L = Inr L' \<and> h_outcome d = ALLOW \<longrightarrow>
        L' = L @ [x] \<and> (\<exists>i. c_capsule_id x = Some i \<and> hold_status cfg L' i = (ACTIVE, None)) \<and>
        int_member x ''reserved_amount_minor'' = n \<and>
        exposure (read_ledger L') (act_developer a) (Some c)
          = exposure (read_ledger L) (act_developer a) (Some c) + n \<and>
        h_aggregate_minor d = Some (exposure (read_ledger L') (act_developer a) (Some c)))"
proof -
  note inv = hold_reachable_inv [OF assms(1,2)]
  let ?current = "exposure (read_ledger L) (act_developer a) (Some c)"
  define fits where "fits \<longleftrightarrow> (\<forall>m. g_cap_minor cfg (Some c) = Some m \<longrightarrow> ?current + n \<le> m)"
  have eval: "evaluate_and_reserve cfg env a L = sbind (plan_reserve cfg env a L) (\<lambda>d. commit cfg env d L)"
    using assms(4) by (simp add: evaluate_and_reserve_def plan_evaluate_def)
  show ?thesis
  proof (cases fits)
    case False
    then obtain m where m: "g_cap_minor cfg (Some c) = Some m" "m < ?current + n"
      by (auto simp: fits_def)
    define rs where "rs = cap_reason cfg ?current (JInt n) m (Some c)"
    have plan: "plan_reserve cfg env a L = Inr (plan_deny cfg env a CAP_EXCEEDED rs (Some ?current))"
      using m assms(5,6) by (simp add: plan_reserve_def py_add_def py_gt_def Let_def rs_def)
    define d where "d = plan_deny cfg env a CAP_EXCEEDED rs (Some ?current)"
    obtain x where x: "h_capsule d = Some x" by (simp add: d_def deny_decision)
    have "evaluate_and_reserve cfg env a L = sbind (engine_append cfg env x L) (\<lambda>L'. Inr (d, L'))"
      using x plan by (simp add: eval commit_def flip: d_def)
    moreover have "h_outcome d = DENY" "h_reason_code d = Some CAP_EXCEEDED"
      by (simp_all add: d_def deny_decision)
    ultimately show ?thesis
      using False unfolding fits_def by (intro exI [of _ x] exI [of _ d]) simp
  next
    case True
    obtain x where x: "build_hold_reserve_capsule cfg env a (JInt n) ?current (g_cap_minor cfg (Some c)) = Inr x"
      by (simp add: build_hold_reserve_capsule_def)
    define d where "d = \<lparr>h_outcome = ALLOW, h_capsule = Some x, h_reason = ''reserved'', h_reason_code = None,
      h_hold_status = Some ACTIVE, h_aggregate_minor = Some (?current + n)\<rparr>"
    have plan: "plan_reserve cfg env a L = Inr d"
      using True x assms(5,6)
      by (cases "g_cap_minor cfg (Some c)") (auto simp: plan_reserve_def py_add_def py_gt_def fits_def d_def)
    have "L' = L @ [x] \<and> (\<exists>i. c_capsule_id x = Some i \<and> hold_status cfg L' i = (ACTIVE, None)) \<and>
        int_member x ''reserved_amount_minor'' = n \<and>
        exposure (read_ledger L') (act_developer a) (Some c) = ?current + n"
      if app: "engine_append cfg env x L = Inr L'" for L'
    proof -
      have line: "reserve_line a n x" using reserve_capsule(2) [OF assms(1) x] by simp
      have L': "L' = L @ [x]" and new: "new_line cfg L x"
        using built_append [OF reserve_capsule(1) [OF assms(1) x] assms(3) app] by auto
      obtain i where i: "c_capsule_id x = Some i" "i \<noteq> []" using new by (auto simp: new_line_def)
      have "hold_status cfg (L @ [x]) i = (ACTIVE, None)"
        using reserve_active [OF inv new line i] .
      moreover have "int_member x ''reserved_amount_minor'' = n"
        using line by (simp add: reserve_line_def int_member_def dget_def)
      ultimately show ?thesis
        using L' i exposure_reserve [OF inv new line, of "act_developer a" c] assms(6) by simp
    qed
    moreover have "evaluate_and_reserve cfg env a L = sbind (engine_append cfg env x L) (\<lambda>L'. Inr (d, L'))"
      using plan by (simp add: eval commit_def d_def)
    moreover have "h_outcome d = ALLOW" "h_aggregate_minor d = Some (?current + n)"
      by (simp_all add: d_def)
    ultimately show ?thesis
      using True unfolding fits_def by (intro exI [of _ x] exI [of _ d]) simp
  qed
qed

end
