(* ===== verification/Hold_Outcomes.thy ===== *)
theory Hold_Outcomes
  imports Hold_Properties
begin

text \<open>
  What each call that ends a hold does, branch by branch, and what the engine lets through: closes of
  records that are not reservations, and negative reservations.
\<close>

section \<open>Closing\<close>

text \<open>The witness of the reservation rule: 25 more fits under the cap of 100 when 75 are used.\<close>

theorem evaluate_and_reserve_spec_witness:
  "\<exists>x d. evaluate_and_reserve demo_cfg (demo_env ''06'') (demo_action 25) demo_ledger
       = sbind (engine_append demo_cfg (demo_env ''06'') x demo_ledger) (\<lambda>L'. Inr (d, L')) \<and> h_outcome d = ALLOW"
proof -
  have amount: "act_amount_minor (demo_action 25) = JInt 25" "act_action_class (demo_action 25) = Some ''wire''"
      "e_engine_available (demo_env ''06'')"
    by (simp_all add: demo_action_def demo_env_def)
  have fresh: "fresh_uuid (demo_env ''06'') demo_ledger" by code_simp
  have room: "exposure (read_ledger demo_ledger) (act_developer (demo_action 25)) (Some ''wire'') = 75" by code_simp
  have cap: "g_cap_minor demo_cfg (Some ''wire'') = Some 100" by (simp add: demo_cfg_def)
  from evaluate_and_reserve_spec [OF demo_cfg_ok demo_ledger_reachable fresh amount(3,1,2)] room cap
  show ?thesis by auto
qed

text \<open>Releasing or expiring an active hold of a reserved amount takes exactly that amount off the
  aggregate of its scope and closes the hold, by one new line.\<close>

theorem close_hold_spec:
  assumes "cfg_ok cfg" "hold_reachable cfg L" "fresh_uuid env L"
    "by_id (read_ledger L) i = Some r" "hold_status cfg L i = (ACTIVE, None)"
    "reserved_amount_of r = JInt n" "scope_of_line r dv c"
  shows "\<exists>x d. close_hold cfg env i v reason L = sbind (engine_append cfg env x L) (\<lambda>L'. Inr (d, L')) \<and>
     h_outcome d = ALLOW \<and>
     (\<forall>L'. engine_append cfg env x L = Inr L' \<longrightarrow> L' = L @ [x] \<and>
        hold_status cfg L' i = (case v of Release \<Rightarrow> RELEASED | Expire \<Rightarrow> EXPIRED, Some x) \<and>
        exposure (read_ledger L') dv (Some c) = exposure (read_ledger L) dv (Some c) - n)"
proof -
  note inv = hold_reachable_inv [OF assms(1,2)]
  let ?build = "case v of Release \<Rightarrow> build_hold_release_capsule | Expire \<Rightarrow> build_hold_expire_capsule"
  let ?st = "case v of Release \<Rightarrow> RELEASED | Expire \<Rightarrow> EXPIRED"
  obtain x where x: "?build cfg env (attempt_action r (close_name v)) i (JInt n) reason = Inr x"
    by (cases v) (simp_all add: build_hold_release_capsule_def build_hold_expire_capsule_def)
  then have built: "hold_built cfg env x" and line: "terminal_line r i ?st (- n) x"
    using terminal_capsule(1,2) [OF assms(1)] by (cases v; fastforce)+
  define d where "d = \<lparr>h_outcome = ALLOW, h_capsule = Some x, h_reason = ''hold '' @ close_name v @ ''d'',
      h_reason_code = None, h_hold_status = Some ?st, h_aggregate_minor = None\<rparr>"
  have plan: "plan_close_locked cfg env i v reason r L = Inr d"
    using x assms(5,6) by (simp add: plan_close_locked_def d_def)
  have "close_hold cfg env i v reason L = sbind (engine_append cfg env x L) (\<lambda>L'. Inr (d, L'))"
    using plan assms(4) by (simp add: close_hold_def commit_def d_def)
  moreover have "L' = L @ [x] \<and> hold_status cfg L' i = (?st, Some x) \<and>
        exposure (read_ledger L') dv (Some c) = exposure (read_ledger L) dv (Some c) - n"
    if app: "engine_append cfg env x L = Inr L'" for L'
    using built_append [OF built assms(3) app] terminal_append [OF inv _ assms(4,5) line assms(7)] by auto
  ultimately show ?thesis
    by (intro exI [of _ x] exI [of _ d]) (simp add: d_def)
qed

text \<open>The second hold of the demonstration ledger, of 30, is still active.\<close>

definition demo_hold :: capsule where
  "demo_hold = demo_ledger ! 1"

lemma demo_hold_facts:
  "by_id (read_ledger demo_ledger) (hold_id ''02'') = Some demo_hold"
  "hold_status demo_cfg demo_ledger (hold_id ''02'') = (ACTIVE, None)"
  "reserved_amount_of demo_hold = JInt 30" "scope_of_line demo_hold ''dev'' ''wire''"
  "tolerance_of demo_cfg demo_hold = 0"
  "exposure (read_ledger demo_ledger) ''dev'' (Some ''wire'') = 75"
  by code_simp+

lemma demo_fresh: "fresh_uuid (demo_env ''07'') demo_ledger"
  by code_simp

theorem close_hold_spec_witness:
  "\<exists>x d. close_hold demo_cfg (demo_env ''07'') (hold_id ''02'') Expire None demo_ledger
       = sbind (engine_append demo_cfg (demo_env ''07'') x demo_ledger) (\<lambda>L'. Inr (d, L')) \<and> h_outcome d = ALLOW"
  using close_hold_spec [OF demo_cfg_ok demo_ledger_reachable demo_fresh demo_hold_facts(1-4)] by blast

text \<open>C4: A reconciliation converts an active hold from its reserved to its executed amount when the
  difference is within the tolerance of the hold's own class; beyond it the hold stays active, the
  aggregate stays as it is and the refusal is recorded.\<close>

theorem reconcile_spec:
  assumes "cfg_ok cfg" "hold_reachable cfg L" "fresh_uuid env L"
    "by_id (read_ledger L) i = Some r" "hold_status cfg L i = (ACTIVE, None)"
    "reserved_amount_of r = JInt n" "scope_of_line r dv c"
  shows "\<exists>x d. reconcile cfg env i (JInt e) ex L = sbind (engine_append cfg env x L) (\<lambda>L'. Inr (d, L')) \<and>
     (h_outcome d = ALLOW \<longleftrightarrow> e - n \<le> tolerance_of cfg r) \<and>
     (h_outcome d = DENY \<longrightarrow> h_reason_code d = Some OVER_TOLERANCE) \<and>
     (\<forall>L'. engine_append cfg env x L = Inr L' \<longrightarrow> L' = L @ [x] \<and>
        (if h_outcome d = ALLOW
         then hold_status cfg L' i = (RECONCILED, Some x) \<and>
           exposure (read_ledger L') dv (Some c) = exposure (read_ledger L) dv (Some c) - n + e
         else hold_status cfg L' i = (ACTIVE, None) \<and>
           exposure (read_ledger L') dv (Some c) = exposure (read_ledger L) dv (Some c)))"
proof -
  note inv = hold_reachable_inv [OF assms(1,2)]
  let ?a = "attempt_action r ''reconcile''" and ?tol = "tolerance_of cfg r"
  have rec: "reconcile cfg env i (JInt e) ex L
      = sbind (plan_reconcile_locked cfg env i e ex r L) (\<lambda>d. commit cfg env d L)"
    using assms(4) by (simp add: reconcile_def)
  show ?thesis
  proof (cases "e - n \<le> ?tol")
    case True
    obtain x where x: "build_hold_reconcile_capsule cfg env ?a i ex (JInt n) (JInt e) ?tol = Inr x"
      by (simp add: build_hold_reconcile_capsule_def)
    then have built: "hold_built cfg env x" and line: "terminal_line r i RECONCILED (e - n) x"
      using terminal_capsule(3) [OF assms(1) x] by auto
    define d where "d = \<lparr>h_outcome = ALLOW, h_capsule = Some x, h_reason = ''reconciled'',
        h_reason_code = None, h_hold_status = Some RECONCILED, h_aggregate_minor = None\<rparr>"
    have plan: "plan_reconcile_locked cfg env i e ex r L = Inr d"
      using x True assms(5,6) by (simp add: plan_reconcile_locked_def py_rsub_def py_le_def Let_def d_def)
    have "L' = L @ [x] \<and> hold_status cfg L' i = (RECONCILED, Some x) \<and>
        exposure (read_ledger L') dv (Some c) = exposure (read_ledger L) dv (Some c) - n + e"
      if app: "engine_append cfg env x L = Inr L'" for L'
      using built_append [OF built assms(3) app] terminal_append [OF inv _ assms(4,5) line assms(7)] by auto
    with plan True rec show ?thesis
      by (intro exI [of _ x] exI [of _ d]) (simp add: commit_def d_def)
  next
    case False
    define x where "x = build_hold_decision_capsule cfg env ?a DENY OVER_TOLERANCE
        (over_tolerance_reason cfg e (JInt n) (JInt (e - n)) ?tol) None (Some i) CONFIRMS"
    obtain d where d: "plan_reconcile_locked cfg env i e ex r L = Inr d" "h_capsule d = Some x"
        "h_outcome d = DENY" "h_reason_code d = Some OVER_TOLERANCE"
      using False assms(5,6) by (simp add: plan_reconcile_locked_def py_rsub_def py_le_def Let_def x_def)
    have x: "hold_built cfg env x" "refusal_line x"
      unfolding x_def by (simp_all add: decision_capsule [OF assms(1)])
    have "L' = L @ [x] \<and> hold_status cfg L' i = (ACTIVE, None) \<and>
        exposure (read_ledger L') dv (Some c) = exposure (read_ledger L) dv (Some c)"
      if app: "engine_append cfg env x L = Inr L'" for L'
    proof -
      have L': "L' = L @ [x]" and new: "new_line cfg L x"
        using built_append [OF x(1) assms(3) app] by auto
      have "c_capsule_id x \<noteq> Some i"
        using by_id_SomeD [OF assms(4)] new by (force simp: new_line_def ids_def read_ledger_def)
      moreover have "\<not> closes i x"
        using x(2) by (auto simp: refusal_line_def closes_def split: option.splits)
      moreover have "\<not> accepted x" using x(2) by (simp add: refusal_line_def)
      ultimately show ?thesis
        using L' new assms(5) exposure_refused [OF inv, of x dv "Some c"]
        by (simp add: hold_status_append_other new_line_def)
    qed
    with d False rec show ?thesis
      by (intro exI [of _ x] exI [of _ d]) (simp add: commit_def)
  qed
qed

theorem reconcile_spec_witness:
  "\<exists>x d. reconcile demo_cfg (demo_env ''07'') (hold_id ''02'') (JInt 31) None demo_ledger
       = sbind (engine_append demo_cfg (demo_env ''07'') x demo_ledger) (\<lambda>L'. Inr (d, L')) \<and>
     h_outcome d = DENY"
proof -
  have "h_outcome d = DENY" if "h_outcome d \<noteq> ALLOW" for d
    using that by (cases "h_outcome d") auto
  with reconcile_spec [OF demo_cfg_ok demo_ledger_reachable demo_fresh demo_hold_facts(1-4), of 31 None]
  show ?thesis by (auto simp: demo_hold_facts(5))
qed

text \<open>A reconciliation that arrives after the hold expired is denied as such, the refusal is chained
  to the expiry record, and no aggregate moves: a late approval must reserve again.\<close>

theorem late_reconcile_denied:
  assumes "cfg_ok cfg" "hold_reachable cfg L" "fresh_uuid env L" "hold_status cfg L i = (EXPIRED, Some t)"
  shows "\<exists>x d p. reconcile cfg env i (JInt e) ex L = sbind (engine_append cfg env x L) (\<lambda>L'. Inr (d, L')) \<and>
     h_outcome d = DENY \<and> h_reason_code d = Some RECONCILE_AFTER_EXPIRY \<and>
     c_capsule_id t = Some p \<and> c_chain x = Some \<lparr>ch_parent = p, ch_relation = CONFIRMS\<rparr> \<and>
     (\<forall>L' s cls. engine_append cfg env x L = Inr L' \<longrightarrow>
        L' = L @ [x] \<and> exposure (read_ledger L') s cls = exposure (read_ledger L) s cls)"
proof -
  note inv = hold_reachable_inv [OF assms(1,2)]
  obtain r where r: "by_id (read_ledger L) i = Some r" and t: "t \<in> set (read_ledger L)"
    using assms(4) by (auto simp: hold_status_def dest: find_SomeD split: option.splits if_splits)
  then obtain p where p: "c_capsule_id t = Some p" "p \<noteq> []"
    using inv by (auto simp: hold_inv_def read_ledger_def)
  define d where "d = plan_deny_terminal cfg env i r EXPIRED (Some t) ''reconcile''"
  define x where "x = build_hold_decision_capsule cfg env (attempt_action r ''reconcile'') DENY
      RECONCILE_AFTER_EXPIRY (snd (terminal_reason i EXPIRED ''reconcile'')) None (Some p) CONFIRMS"
  have d: "h_capsule d = Some x" "h_outcome d = DENY" "h_reason_code d = Some RECONCILE_AFTER_EXPIRY"
    using p by (simp_all add: d_def x_def plan_deny_terminal_def terminal_reason_def)
  have call: "reconcile cfg env i (JInt e) ex L = sbind (engine_append cfg env x L) (\<lambda>L'. Inr (d, L'))"
    using r assms(4) d(1) by (simp add: reconcile_def plan_reconcile_locked_def commit_def flip: d_def)
  have x: "hold_built cfg env x" "refusal_line x" "c_chain x = Some \<lparr>ch_parent = p, ch_relation = CONFIRMS\<rparr>"
    unfolding x_def by (simp_all add: decision_capsule [OF assms(1)])
  have "L' = L @ [x] \<and> exposure (read_ledger L') s cls = exposure (read_ledger L) s cls"
    if app: "engine_append cfg env x L = Inr L'" for L' s cls
    using built_append [OF x(1) assms(3) app] exposure_refused [OF inv, of x s cls] x(2)
    by (auto simp: new_line_def refusal_line_def)
  with call d x(3) p(1) show ?thesis by blast
qed

definition expired_ops :: "(henv \<times> hold_op) list" where
  "expired_ops = demo_ops @ [(demo_env ''08'', CloseHold (hold_id ''02'') Expire (Some ''timeout''))]"

definition expired_ledger :: "capsule list" where
  "expired_ledger = projr (run_ops demo_cfg expired_ops [])"

lemma expired_ledger_reachable: "hold_reachable demo_cfg expired_ledger"
proof -
  have "good_ops expired_ops []" by code_simp
  moreover have "run_ops demo_cfg expired_ops [] = Inr expired_ledger"
    unfolding expired_ledger_def by (rule not_isl_Inr) code_simp
  ultimately show ?thesis
    using good_ops_capped capped_run.empty capped_run_reachable by blast
qed

theorem late_reconcile_denied_witness:
  "\<exists>x d. reconcile demo_cfg (demo_env ''09'') (hold_id ''02'') (JInt 30) None expired_ledger
       = sbind (engine_append demo_cfg (demo_env ''09'') x expired_ledger) (\<lambda>L'. Inr (d, L')) \<and>
     h_outcome d = DENY \<and> h_reason_code d = Some RECONCILE_AFTER_EXPIRY"
proof -
  have "fresh_uuid (demo_env ''09'') expired_ledger" by code_simp
  moreover have "hold_status demo_cfg expired_ledger (hold_id ''02'') = (EXPIRED, Some (last expired_ledger))"
    by code_simp
  ultimately show ?thesis
    using late_reconcile_denied [OF demo_cfg_ok expired_ledger_reachable] by blast
qed

text \<open>An amount that is no exact integer (a float, a bool, a string) is never reserved and never
  reconciled: reconciling raises before the ledger is read, reserving raises or is refused.\<close>

theorem inexact_amount_never_moves_money:
  assumes "\<forall>n. v \<noteq> JInt n" "v \<noteq> JNull"
  shows "reconcile cfg env i v ex L
           = Inl (HoldError (case v of JFloat _ \<Rightarrow> FLOAT_IN_HOLD_AMOUNT | _ \<Rightarrow> NON_INTEGER_HOLD_AMOUNT)) \<and>
     (case evaluate_and_reserve cfg env (a\<lparr>act_amount_minor := v\<rparr>) L of
        Inl e \<Rightarrow> True | Inr (d, L') \<Rightarrow> h_outcome d = DENY)"
proof (rule conjI)
  have bad: "check_integer_amount v
      = Inl (HoldError (case v of JFloat _ \<Rightarrow> FLOAT_IN_HOLD_AMOUNT | _ \<Rightarrow> NON_INTEGER_HOLD_AMOUNT))"
    using assms by (cases v) (simp_all add: check_integer_amount_def)
  then show "reconcile cfg env i v ex L
      = Inl (HoldError (case v of JFloat _ \<Rightarrow> FLOAT_IN_HOLD_AMOUNT | _ \<Rightarrow> NON_INTEGER_HOLD_AMOUNT))"
    by (simp add: reconcile_def)
  have "h_outcome d = DENY" if run: "evaluate_and_reserve cfg env (a\<lparr>act_amount_minor := v\<rparr>) L = Inr (d, L')" for d L'
  proof -
    from run obtain p where p: "plan_evaluate cfg env (a\<lparr>act_amount_minor := v\<rparr>) L = Inr p"
        "commit cfg env p L = Inr (d, L')"
      by (auto simp: evaluate_and_reserve_def res_simps)
    have "h_outcome p = DENY"
    proof (cases "e_engine_available env")
      case True
      with p(1) have "plan_reserve cfg env (a\<lparr>act_amount_minor := v\<rparr>) L = Inr p"
        by (simp add: plan_evaluate_def)
      then show ?thesis
        by (cases rule: plan_reserve_cases) (use assms in \<open>auto split: json.splits\<close>)
    next
      case False
      with p(1) show ?thesis by (auto simp: plan_evaluate_def)
    qed
    with commit_append [OF p(2)] show ?thesis by simp
  qed
  then show "case evaluate_and_reserve cfg env (a\<lparr>act_amount_minor := v\<rparr>) L of
      Inl e \<Rightarrow> True | Inr (d, L') \<Rightarrow> h_outcome d = DENY"
    by (auto split: sum.splits)
qed

theorem inexact_amount_never_moves_money_witness:
  "reconcile demo_cfg (demo_env ''07'') (hold_id ''02'') (JBool True) None demo_ledger
     = Inl (HoldError NON_INTEGER_HOLD_AMOUNT)"
  using inexact_amount_never_moves_money [of "JBool True"] by simp

section \<open>Reports as of an instant\<close>

lemma exposure_at:
  assumes "instant t = Some T"
  shows "active_exposure_minor records s cls (Some t) = Inr (sum_list (map (contribution s cls (Some T)
    (if cls \<noteq> None then reserve_action_class_by_id records Map.empty else Map.empty)) records))"
  using assms by (simp add: active_exposure_minor_def exposure_loop_sum)

lemma exposure_at_append:
  assumes inv: "hold_inv cfg L" and new: "c_capsule_id x \<notin> ids L"
    and late: "\<And>u. Option.bind (c_timestamp x) instant = Some u \<Longrightarrow> T < u" and t: "instant t = Some T"
  shows "active_exposure_minor (read_ledger (L @ [x])) s cls (Some t)
       = active_exposure_minor (read_ledger L) s cls (Some t)"
proof (cases "is_capsule_line x")
  case True
  have "c_capsule_id x \<notin> c_capsule_id ` set (read_ledger L)"
    using new ids_read_ledger [of L] by (auto simp: ids_def)
  note old = contribution_append_stable [OF hold_inv_parents [OF inv] _ this]
  have "\<not> in_window (Some T) x"
    using late by (auto simp: in_window_def split: option.splits)
  then have "contribution s cls (Some T) m x = 0" for m
    by (simp add: contribution_def)
  moreover have "map (contribution s cls (Some T) (reserve_action_class_by_id (read_ledger L @ [x]) Map.empty)) (read_ledger L)
      = map (contribution s cls (Some T) (reserve_action_class_by_id (read_ledger L) Map.empty)) (read_ledger L)"
    using old by simp
  ultimately show ?thesis
    using True by (cases cls) (simp_all add: exposure_at [OF t] read_ledger_def del: map_eq_conv)
next
  case False
  then show ?thesis by (simp add: read_ledger_def)
qed

text \<open>A report as of an instant is history: whatever is appended later, by the engine or by others,
  with a later time stamp or without a readable one, does not change it.\<close>

theorem report_as_of_is_stable:
  assumes "cfg_ok cfg" "hold_reachable cfg L" "hold_step cfg L L'" "instant t = Some T"
    "\<forall>x \<in> set L' - set L. \<forall>u. Option.bind (c_timestamp x) instant = Some u \<longrightarrow> T < u"
  shows "active_exposure_minor (read_ledger L') s cls (Some t) = active_exposure_minor (read_ledger L) s cls (Some t)"
proof -
  from hold_step_effect [OF assms(1,3)] consider "L' = L" | x where "L' = L @ [x]" "line_effect cfg (\<lambda>_. True) L x"
    by blast
  then show ?thesis
  proof cases
    case 2
    note new = line_effect_new [OF 2(2)]
    then have "x \<in> set L' - set L" using 2(1) by (auto simp: ids_def)
    with assms(5) have late: "\<And>u. Option.bind (c_timestamp x) instant = Some u \<Longrightarrow> T < u" by blast
    from exposure_at_append [OF hold_reachable_inv [OF assms(1,2)] _ late assms(4)] new 2(1)
    show ?thesis by blast
  qed simp
qed

theorem report_as_of_is_stable_witness:
  "\<exists>x. foreign_line x demo_ledger \<and>
     active_exposure_minor (read_ledger (demo_ledger @ [x])) ''dev'' None (Some ''2026-01-01T01:00:00+01:00'') = Inr 75"
proof -
  define x where "x = (last demo_ledger)\<lparr>c_capsule_id := Some ''other'', c_action_id := Some ''pay/1'',
      c_timestamp := Some ''2026-01-01T00:00:00.000001Z''\<rparr>"
  have line: "foreign_line x demo_ledger"
  proof -
    have "Some ''other'' \<notin> c_capsule_id ` set demo_ledger" by code_simp
    then show ?thesis by (auto simp: foreign_line_def x_def action_id_of_def)
  qed
  obtain T where T: "instant ''2026-01-01T01:00:00+01:00'' = Some T" "instant ''2026-01-01T00:00:00.000001Z'' = Some (T + 1)"
    by (rule that [of 1767225600000000]) code_simp+
  have "active_exposure_minor (read_ledger demo_ledger) ''dev'' None (Some ''2026-01-01T01:00:00+01:00'') = Inr 75"
    by code_simp
  moreover have "active_exposure_minor (read_ledger (demo_ledger @ [x])) ''dev'' None (Some ''2026-01-01T01:00:00+01:00'')
      = active_exposure_minor (read_ledger demo_ledger) ''dev'' None (Some ''2026-01-01T01:00:00+01:00'')"
    by (rule report_as_of_is_stable [OF demo_cfg_ok demo_ledger_reachable hold_step.foreign [OF line] T(1)])
       (auto simp: x_def T(2))
  ultimately show ?thesis using line by auto
qed

section \<open>What the engine lets through\<close>

text \<open>The exposure and the outcomes after a list of calls.\<close>

fun outcomes :: "hold_cfg \<Rightarrow> (henv \<times> hold_op) list \<Rightarrow> capsule list \<Rightarrow> outcome list" where
  "outcomes cfg [] L = []"
| "outcomes cfg ((env, op) # ops) L =
     (case run_op cfg env op L of Inl _ \<Rightarrow> [] | Inr (d, L') \<Rightarrow> h_outcome d # outcomes cfg ops L')"

definition reconcile_then_release :: "(henv \<times> hold_op) list" where
  "reconcile_then_release =
     [(demo_env ''01'', EvaluateAndReserve (demo_action 60)),
      (demo_env ''02'', ReconcileHold (hold_id ''01'') (JInt 60) None),
      (demo_env ''03'', CloseHold (hold_id ''02'') Release None)]"

text \<open>\<open>release\<close> accepts the id of any hold record.  Releasing the record of a reconciliation, whose
  payload repeats the reserved amount, is allowed and takes that amount off the subject's aggregate over
  all classes a second time: 60 were executed, the aggregate says 0.\<close>

theorem release_of_reconcile_record_is_counted:
  "outcomes demo_cfg reconcile_then_release [] = [ALLOW, ALLOW, ALLOW] \<and>
   exposure (read_ledger (projr (run_ops demo_cfg (take 2 reconcile_then_release) []))) ''dev'' None = 60 \<and>
   exposure (read_ledger (projr (run_ops demo_cfg reconcile_then_release []))) ''dev'' None = 0 \<and>
   settled_total demo_cfg (projr (run_ops demo_cfg reconcile_then_release [])) ''dev'' ''wire'' = 60"
proof (intro conjI)
  show "outcomes demo_cfg reconcile_then_release [] = [ALLOW, ALLOW, ALLOW]" by code_simp
  show "exposure (read_ledger (projr (run_ops demo_cfg (take 2 reconcile_then_release) []))) ''dev'' None = 60" by code_simp
  show "exposure (read_ledger (projr (run_ops demo_cfg reconcile_then_release []))) ''dev'' None = 0" by code_simp
  show "settled_total demo_cfg (projr (run_ops demo_cfg reconcile_then_release [])) ''dev'' ''wire'' = 60" by code_simp
qed

definition negative_reservation :: "(henv \<times> hold_op) list" where
  "negative_reservation =
     [(demo_env ''01'', EvaluateAndReserve (demo_action (- 100))),
      (demo_env ''02'', EvaluateAndReserve (demo_action 200)),
      (demo_env ''03'', CloseHold (hold_id ''01'') Release None)]"

text \<open>The premise of the cap theorem cannot be dropped: \<open>check_integer_amount\<close> accepts a negative
  amount, and releasing a negative reservation after the room it made was used takes the aggregate
  to 200 under a cap of 100.\<close>

theorem negative_reservation_defeats_cap:
  "outcomes demo_cfg negative_reservation [] = [ALLOW, ALLOW, ALLOW] \<and>
   exposure (read_ledger (projr (run_ops demo_cfg negative_reservation []))) ''dev'' (Some ''wire'') = 200 \<and>
   g_cap_minor demo_cfg (Some ''wire'') = Some 100"
proof (intro conjI)
  show "outcomes demo_cfg negative_reservation [] = [ALLOW, ALLOW, ALLOW]" by code_simp
  show "exposure (read_ledger (projr (run_ops demo_cfg negative_reservation []))) ''dev'' (Some ''wire'') = 200" by code_simp
  show "g_cap_minor demo_cfg (Some ''wire'') = Some 100" by code_simp
qed

end
