(* ===== verification/Json_Text.thy ===== *)
theory Json_Text
  imports Capsule_Prelude
begin

text \<open>
  JSON text as the stores write and read it: \<open>json.dumps\<close> with compact separators and without ASCII
  escaping (\<open>_dumps\<close> of \<open>artifact/record.py\<close>), and \<open>decode_strict_json\<close>, the decoder of Python's
  \<open>json.loads\<close> with the hooks that refuse duplicate keys and non-JSON constants and the depth limit.

  A Python string is the list of the octets of its UTF-8 encoding (a lone surrogate, which only an
  escape can produce, as its three octets).  What the C library does to a decimal, reading it as a
  binary64, is the parameter \<open>read_float\<close>.
\<close>

section \<open>UTF-8\<close>

abbreviation byte :: "char \<Rightarrow> nat" where
  "byte c \<equiv> of_char c"

definition cont :: "char \<Rightarrow> bool" where
  "cont c \<longleftrightarrow> 128 \<le> byte c \<and> byte c < 192"

text \<open>How many continuation octets follow a lead octet, and the range of the first of them.\<close>

definition lead :: "char \<Rightarrow> (nat \<times> nat \<times> nat) option" where
  "lead c =
     (let b = byte c in
      if b < 128 then Some (0, 0, 0)
      else if 194 \<le> b \<and> b < 224 then Some (1, 128, 192)
      else if b = 224 then Some (2, 160, 192)
      else if b = 237 then Some (2, 128, 160)
      else if 225 \<le> b \<and> b < 240 then Some (2, 128, 192)
      else if b = 240 then Some (3, 144, 192)
      else if 241 \<le> b \<and> b < 244 then Some (3, 128, 192)
      else if b = 244 then Some (3, 128, 144)
      else None)"

function utf8_ok :: "string \<Rightarrow> bool" where
  "utf8_ok [] = True"
| "utf8_ok (c # s) =
     (case lead c of
        None \<Rightarrow> False
      | Some (n, lo, hi) \<Rightarrow>
          n \<le> length s \<and> (n = 0 \<or> lo \<le> byte (hd s) \<and> byte (hd s) < hi) \<and>
          list_all cont (take n s) \<and> utf8_ok (drop n s))"
  by pat_completeness auto
termination by (relation "measure length") auto

definition utf8_encode :: "nat \<Rightarrow> string" where
  "utf8_encode u =
     (if u < 128 then [char_of u]
      else if u < 2048 then [char_of (192 + u div 64), char_of (128 + u mod 64)]
      else if u < 65536 then
        [char_of (224 + u div 4096), char_of (128 + u div 64 mod 64), char_of (128 + u mod 64)]
      else
        [char_of (240 + u div 262144), char_of (128 + u div 4096 mod 64),
         char_of (128 + u div 64 mod 64), char_of (128 + u mod 64)])"

lemma utf8_ok_append: "utf8_ok s \<Longrightarrow> utf8_ok t \<Longrightarrow> utf8_ok (s @ t)"
proof (induction s rule: utf8_ok.induct)
  case 1
  then show ?case by simp
next
  case (2 c s)
  from 2(2) obtain n lo hi where l: "lead c = Some (n, lo, hi)" "n \<le> length s"
      "n = 0 \<or> lo \<le> byte (hd s) \<and> byte (hd s) < hi" "list_all cont (take n s)" "utf8_ok (drop n s)"
    by (auto split: option.splits)
  have "utf8_ok (drop n s @ t)"
    using 2(1) [OF l(1) refl refl l(5) 2(3)] .
  moreover have "n = 0 \<or> hd (s @ t) = hd s"
    using l(2) by (cases s) auto
  ultimately show ?case
    using l by auto
qed

lemma utf8_ok_ascii: "list_all (\<lambda>c. byte c < 128) s \<Longrightarrow> utf8_ok s"
  by (induction s) (auto simp: lead_def Let_def)

section \<open>Writing\<close>

definition hex_digit :: "nat \<Rightarrow> char" where
  "hex_digit n = (if n < 10 then char_of (48 + n) else char_of (87 + n))"

definition esc_char :: "char \<Rightarrow> string" where
  "esc_char c =
     (if c = CHR 0x22 then [CHR 0x5C, CHR 0x22]
      else if c = CHR 0x5C then [CHR 0x5C, CHR 0x5C]
      else if c = CHR 0x0A then [CHR 0x5C, CHR ''n'']
      else if c = CHR 0x0D then [CHR 0x5C, CHR ''r'']
      else if c = CHR 0x09 then [CHR 0x5C, CHR ''t'']
      else if c = CHR 0x0C then [CHR 0x5C, CHR ''f'']
      else if c = CHR 0x08 then [CHR 0x5C, CHR ''b'']
      else if byte c < 32 then
        [CHR 0x5C, CHR ''u'', CHR ''0'', CHR ''0'', hex_digit (byte c div 16), hex_digit (byte c mod 16)]
      else [c])"

definition quote :: "string \<Rightarrow> string" where
  "quote s = CHR 0x22 # concat (map esc_char s) @ [CHR 0x22]"

text \<open>\<open>float.__repr__\<close>: the shortest digits, in positional notation for a point between the fourth zero
  after it and the sixteenth digit, otherwise with an exponent of at least two digits.\<close>

definition digit_string :: "nat list \<Rightarrow> string" where
  "digit_string ds = map digit_char ds"

definition exponent_string :: "int \<Rightarrow> string" where
  "exponent_string e =
     (let s = nat_str (nat \<bar>e\<bar>)
      in (if e < 0 then CHR ''-'' else CHR ''+'') # (if length s < 2 then CHR ''0'' # s else s))"

definition float_repr_abs :: "nat list \<Rightarrow> int \<Rightarrow> string" where
  "float_repr_abs ds n =
     (if n \<le> - 4 \<or> 16 < n then
        digit_string (take 1 ds) @ (if length ds = 1 then [] else CHR ''.'' # digit_string (drop 1 ds)) @
        CHR ''e'' # exponent_string (n - 1)
      else if n \<le> 0 then ''0.'' @ replicate (nat (- n)) CHR ''0'' @ digit_string ds
      else if n < int (length ds) then
        digit_string (take (nat n) ds) @ CHR ''.'' # digit_string (drop (nat n) ds)
      else digit_string ds @ replicate (nat n - length ds) CHR ''0'' @ ''.0'')"

fun float_repr :: "pyfloat \<Rightarrow> string" where
  "float_repr FNaN = ''nan''"
| "float_repr (FInf neg) = (if neg then ''-inf'' else ''inf'')"
| "float_repr (FZero neg) = (if neg then ''-0.0'' else ''0.0'')"
| "float_repr (FFin neg ds n) = (if neg then CHR ''-'' # float_repr_abs ds n else float_repr_abs ds n)"

definition json_float :: "pyfloat \<Rightarrow> string" where
  "json_float f =
     (case f of FNaN \<Rightarrow> ''NaN'' | FInf neg \<Rightarrow> (if neg then ''-Infinity'' else ''Infinity'') | _ \<Rightarrow> float_repr f)"

text \<open>Members or elements with commas between them.\<close>

fun commas :: "string list \<Rightarrow> string" where
  "commas [] = []"
| "commas [x] = x"
| "commas (x # xs) = x @ CHR '','' # commas xs"

fun json_dumps :: "json \<Rightarrow> string" where
  "json_dumps JNull = ''null''"
| "json_dumps (JBool b) = (if b then ''true'' else ''false'')"
| "json_dumps (JInt i) = int_str i"
| "json_dumps (JFloat f) = json_float f"
| "json_dumps (JStr s) = quote s"
| "json_dumps (JArr vs) = CHR ''['' # commas (map json_dumps vs) @ '']''"
| "json_dumps (JObj d) = CHR ''{'' # commas (map (\<lambda>(k, v). quote k @ CHR '':'' # json_dumps v) d) @ ''}''"

section \<open>Reading\<close>

definition is_ws :: "char \<Rightarrow> bool" where
  "is_ws c \<longleftrightarrow> c = CHR '' '' \<or> c = CHR 0x09 \<or> c = CHR 0x0A \<or> c = CHR 0x0D"

definition skip_ws :: "string \<Rightarrow> string" where
  "skip_ws s = dropWhile is_ws s"

lemma length_skip_ws: "length (skip_ws s) \<le> length s"
  by (simp add: skip_ws_def length_dropWhile_le)

lemma skip_ws_shorter: "skip_ws s = c # q \<Longrightarrow> Suc (2 * length q) < 2 * length s"
  using length_skip_ws [of s] by simp

lemma skip_ws_double:
  "length q \<le> n \<Longrightarrow> 2 * length (skip_ws q) \<le> Suc (Suc (2 * n))"
  "length q < n \<Longrightarrow> 2 * length (skip_ws q) \<le> Suc (2 * n)"
  "length q < n \<Longrightarrow> Suc (2 * length (skip_ws q)) \<le> 2 * n"
  using length_skip_ws [of q] by simp_all

definition hex_val :: "char \<Rightarrow> nat option" where
  "hex_val c =
     (if is_digit c then Some (byte c - 48)
      else if 97 \<le> byte c \<and> byte c \<le> 102 then Some (byte c - 87)
      else if 65 \<le> byte c \<and> byte c \<le> 70 then Some (byte c - 55)
      else None)"

definition take_hex4 :: "string \<Rightarrow> (nat \<times> string) option" where
  "take_hex4 s =
     (case s of
        a # b # c # d # r \<Rightarrow>
          (case (hex_val a, hex_val b, hex_val c, hex_val d) of
             (Some w, Some x, Some y, Some z) \<Rightarrow> Some (4096 * w + 256 * x + 16 * y + z, r)
           | _ \<Rightarrow> None)
      | _ \<Rightarrow> None)"

text \<open>A \<open>\u\<close> escape after its \<open>u\<close>: a high surrogate takes the low surrogate escape that follows it.\<close>

definition take_unicode :: "string \<Rightarrow> (string \<times> string) option" where
  "take_unicode s =
     (case take_hex4 s of
        None \<Rightarrow> None
      | Some (u, r) \<Rightarrow>
          (if 0xD800 \<le> u \<and> u \<le> 0xDBFF then
             (case r of
                b # x # r' \<Rightarrow>
                  if b = CHR 0x5C \<and> x = CHR ''u'' then
                    (case take_hex4 r' of
                       None \<Rightarrow> None
                     | Some (u2, r2) \<Rightarrow>
                         if 0xDC00 \<le> u2 \<and> u2 \<le> 0xDFFF
                         then Some (utf8_encode (0x10000 + 1024 * (u - 0xD800) + (u2 - 0xDC00)), r2)
                         else Some (utf8_encode u, r))
                  else Some (utf8_encode u, r)
              | _ \<Rightarrow> Some (utf8_encode u, r))
           else Some (utf8_encode u, r)))"

definition escape_of :: "char \<Rightarrow> char option" where
  "escape_of c =
     (if c = CHR 0x22 \<or> c = CHR 0x5C \<or> c = CHR ''/'' then Some c
      else if c = CHR ''b'' then Some CHR 0x08
      else if c = CHR ''f'' then Some CHR 0x0C
      else if c = CHR ''n'' then Some CHR 0x0A
      else if c = CHR ''r'' then Some CHR 0x0D
      else if c = CHR ''t'' then Some CHR 0x09
      else None)"

text \<open>The body of a string, after its opening quote.  Comparing lengths makes the recursion visible;
  \<open>take_unicode\<close> always consumes its input.\<close>

function (sequential) p_string :: "string \<Rightarrow> (string \<times> string) option" where
  "p_string [] = None"
| "p_string (c # s) =
     (if c = CHR 0x22 then Some ([], s)
      else if c = CHR 0x5C then
        (case s of
           [] \<Rightarrow> None
         | e # r \<Rightarrow>
             (if e = CHR ''u'' then
                (case take_unicode r of
                   None \<Rightarrow> None
                 | Some (u, r') \<Rightarrow>
                     if length r' \<le> length r then map_option (\<lambda>(t, q). (u @ t, q)) (p_string r') else None)
              else (case escape_of e of
                      None \<Rightarrow> None
                    | Some x \<Rightarrow> map_option (\<lambda>(t, q). (x # t, q)) (p_string r))))
      else if byte c < 32 then None
      else map_option (\<lambda>(t, q). (c # t, q)) (p_string s))"
  by pat_completeness auto
termination by (relation "measure length") auto

text \<open>\<open>NUMBER_RE\<close>: a minus, an integer part without leading zeros, a fraction and an exponent.\<close>

definition take_run :: "string \<Rightarrow> string \<times> string" where
  "take_run s = (takeWhile is_digit s, dropWhile is_digit s)"

definition number_int :: "string \<Rightarrow> (string \<times> string) option" where
  "number_int s =
     (case s of
        [] \<Rightarrow> None
      | c # r \<Rightarrow> if c = CHR ''0'' then Some (''0'', r)
                else if is_digit c then Some (take_run s) else None)"

definition number_frac :: "string \<Rightarrow> string \<times> string" where
  "number_frac s =
     (case s of
        [] \<Rightarrow> ([], s)
      | c # r \<Rightarrow> if c = CHR ''.'' \<and> fst (take_run r) \<noteq> [] then (c # fst (take_run r), snd (take_run r))
                else ([], s))"

definition number_exp :: "string \<Rightarrow> string \<times> string" where
  "number_exp s =
     (case s of
        [] \<Rightarrow> ([], s)
      | c # r \<Rightarrow>
          if c = CHR ''e'' \<or> c = CHR ''E'' then
            (let (sgn, r') = (case r of [] \<Rightarrow> ([], r)
                 | d # q \<Rightarrow> if d = CHR ''-'' \<or> d = CHR ''+'' then ([d], q) else ([], r))
             in if fst (take_run r') \<noteq> [] then (c # sgn @ fst (take_run r'), snd (take_run r')) else ([], s))
          else ([], s))"

text \<open>\<open>max_digits\<close> is the limit of \<open>int()\<close> on the digits it reads, which raises \<open>ValueError\<close>.\<close>

record json_env =
  je_strict :: bool
  je_read_float :: "string \<Rightarrow> pyfloat"
  je_max_digits :: nat

definition p_number :: "json_env \<Rightarrow> string \<Rightarrow> (json \<times> string) option" where
  "p_number je s =
     (let neg = (take 1 s = ''-''); s1 = (if neg then drop 1 s else s)
      in (case number_int s1 of
            None \<Rightarrow> None
          | Some (ds, s2) \<Rightarrow>
              (let (fr, s3) = number_frac s2; (ex, s4) = number_exp s3
               in if fr = [] \<and> ex = [] then
                    (if length ds \<le> je_max_digits je
                     then Some (JInt (if neg then - int (digits_val ds) else int (digits_val ds)), s2) else None)
                  else Some (JFloat (je_read_float je ((if neg then ''-'' else []) @ ds @ fr @ ex)), s4))))"

definition strip_word :: "string \<Rightarrow> string \<Rightarrow> string option" where
  "strip_word w s = (if prefix w s then Some (drop (length w) s) else None)"

text \<open>A constant raises in \<open>_reject_constant\<close>, a repeated key in \<open>_reject_duplicates\<close>; without the hooks
  (\<open>je_strict\<close> false) a constant is a float and the last value of a key wins, in the place of the first.\<close>

definition p_constant :: "json_env \<Rightarrow> string \<Rightarrow> (json \<times> string) option" where
  "p_constant je s =
     (if je_strict je then None
      else if prefix ''NaN'' s then Some (JFloat FNaN, drop 3 s)
      else if prefix ''Infinity'' s then Some (JFloat (FInf False), drop 8 s)
      else if prefix ''-Infinity'' s then Some (JFloat (FInf True), drop 9 s)
      else None)"

fun dict_set :: "dict \<Rightarrow> string \<Rightarrow> json \<Rightarrow> dict" where
  "dict_set [] k v = [(k, v)]"
| "dict_set ((k', v') # d) k v = (if k = k' then (k, v) # d else (k', v') # dict_set d k v)"

text \<open>\<open>d.update(e)\<close>, \<open>d.get(k, v)\<close>\<close>

definition dict_update :: "dict \<Rightarrow> dict \<Rightarrow> dict" where
  "dict_update d e = foldl (\<lambda>d (k, v). dict_set d k v) d e"

definition dget_default :: "dict \<Rightarrow> string \<Rightarrow> json \<Rightarrow> json" where
  "dget_default d k v = (if dhas d k then dget d k else v)"

definition object_of :: "json_env \<Rightarrow> dict \<Rightarrow> dict option" where
  "object_of je ms =
     (if distinct (map fst ms) then Some ms
      else if je_strict je then None
      else Some (foldl (\<lambda>d (k, v). dict_set d k v) [] ms))"

text \<open>The scanner.\<close>

function (sequential)
  p_value :: "json_env \<Rightarrow> string \<Rightarrow> (json \<times> string) option" and
  p_elems :: "json_env \<Rightarrow> string \<Rightarrow> (json list \<times> string) option" and
  p_members :: "json_env \<Rightarrow> string \<Rightarrow> ((string \<times> json) list \<times> string) option"
where
  "p_value je [] = None"
| "p_value je (c # s) =
     (if c = CHR 0x22 then map_option (\<lambda>(t, r). (JStr t, r)) (p_string s)
      else if c = CHR ''{'' then
        (case skip_ws s of
           [] \<Rightarrow> None
         | d # r \<Rightarrow>
             if d = CHR ''}'' then Some (JObj [], r)
             else (case p_members je (skip_ws s) of
                     None \<Rightarrow> None
                   | Some (ms, q) \<Rightarrow> map_option (\<lambda>d. (JObj d, q)) (object_of je ms)))
      else if c = CHR ''['' then
        (case skip_ws s of
           [] \<Rightarrow> None
         | d # r \<Rightarrow>
             if d = CHR '']'' then Some (JArr [], r)
             else map_option (\<lambda>(vs, q). (JArr vs, q)) (p_elems je (skip_ws s)))
      else if c = CHR ''n'' then map_option (\<lambda>r. (JNull, r)) (strip_word ''null'' (c # s))
      else if c = CHR ''t'' then map_option (\<lambda>r. (JBool True, r)) (strip_word ''true'' (c # s))
      else if c = CHR ''f'' then map_option (\<lambda>r. (JBool False, r)) (strip_word ''false'' (c # s))
      else if c = CHR ''N'' \<or> c = CHR ''I'' \<or> prefix ''-I'' (c # s) then p_constant je (c # s)
      else p_number je (c # s))"
| "p_elems je s =
     (case p_value je s of
        None \<Rightarrow> None
      | Some (v, r) \<Rightarrow>
          (case skip_ws r of
             [] \<Rightarrow> None
           | c # q \<Rightarrow>
               if c = CHR '']'' then Some ([v], q)
               else if c = CHR '','' \<and> length q < length s
                    then map_option (\<lambda>(vs, t). (v # vs, t)) (p_elems je (skip_ws q))
               else None))"
| "p_members je [] = None"
| "p_members je (c # s) =
     (if c \<noteq> CHR 0x22 then None
      else (case p_string s of
        None \<Rightarrow> None
      | Some (k, r) \<Rightarrow>
          (case skip_ws r of
             [] \<Rightarrow> None
           | d # q \<Rightarrow>
               if d \<noteq> CHR '':'' \<or> \<not> length q \<le> length s then None
               else (case p_value je (skip_ws q) of
                   None \<Rightarrow> None
                 | Some (v, r2) \<Rightarrow>
                     (case skip_ws r2 of
                        [] \<Rightarrow> None
                      | e # q2 \<Rightarrow>
                          if e = CHR ''}'' then Some ([(k, v)], q2)
                          else if e = CHR '','' \<and> length q2 < length s
                               then map_option (\<lambda>(ms, t). ((k, v) # ms, t)) (p_members je (skip_ws q2))
                          else None)))))"
  by pat_completeness auto
termination
proof (relation "measure (\<lambda>x. case x of Inl (je, s) \<Rightarrow> 2 * length s
    | Inr (Inl (je, s)) \<Rightarrow> 2 * length s + 1 | Inr (Inr (je, s)) \<Rightarrow> 2 * length s + 1)", goal_cases)
qed (auto simp: less_Suc_eq_le dest: skip_ws_shorter intro: skip_ws_double)

text \<open>\<open>_depth\<close>, and the decoder.\<close>

fun json_depth :: "json \<Rightarrow> nat" where
  "json_depth (JArr vs) = Suc (foldr max (map json_depth vs) 0)"
| "json_depth (JObj d) = Suc (foldr max (map (\<lambda>(k, v). json_depth v) d) 0)"
| "json_depth _ = 1"

definition MAX_JSON_DEPTH :: nat where
  "MAX_JSON_DEPTH = 1000"

definition json_loads :: "json_env \<Rightarrow> string \<Rightarrow> json option" where
  "json_loads je s =
     (case p_value je (skip_ws s) of
        None \<Rightarrow> None
      | Some (v, r) \<Rightarrow> if skip_ws r = [] then Some v else None)"

definition decode_strict_json :: "json_env \<Rightarrow> string \<Rightarrow> json option" where
  "decode_strict_json je data =
     (if \<not> utf8_ok data then None
      else (case json_loads (je\<lparr>je_strict := True\<rparr>) data of
              None \<Rightarrow> None
            | Some v \<Rightarrow> if json_depth v > MAX_JSON_DEPTH then None else Some v))"

section \<open>The round trip\<close>

lemma hex_val_digit: "n < 16 \<Longrightarrow> hex_val (hex_digit n) = Some n"
  by (cases "n < 10") (simp_all add: hex_digit_def hex_val_def is_digit_def)

lemma take_unicode_low:
  assumes "u < 256"
  shows "take_unicode (CHR ''0'' # CHR ''0'' # hex_digit (u div 16) # hex_digit (u mod 16) # s)
    = Some (utf8_encode u, s)"
proof -
  have "hex_val CHR ''0'' = Some 0" by code_simp
  moreover have "hex_val (hex_digit (u div 16)) = Some (u div 16)" "hex_val (hex_digit (u mod 16)) = Some (u mod 16)"
    using assms by (auto intro!: hex_val_digit simp: less_mult_imp_div_less)
  moreover have "16 * (u div 16) + u mod 16 = u" by simp
  ultimately show ?thesis
    using assms by (simp add: take_unicode_def take_hex4_def)
qed

lemma esc_char_cases:
  obtains (short) e where "esc_char c = [CHR 0x5C, e]" "escape_of e = Some c" "e \<noteq> CHR ''u''"
  | (control) "byte c < 32" "esc_char c = [CHR 0x5C, CHR ''u'', CHR ''0'', CHR ''0'',
        hex_digit (byte c div 16), hex_digit (byte c mod 16)]"
  | (plain) "esc_char c = [c]" "c \<noteq> CHR 0x22" "c \<noteq> CHR 0x5C" "\<not> byte c < 32"
proof -
  consider "c \<in> {CHR 0x22, CHR 0x5C, CHR 0x0A, CHR 0x0D, CHR 0x09, CHR 0x0C, CHR 0x08}"
    | "c \<notin> {CHR 0x22, CHR 0x5C, CHR 0x0A, CHR 0x0D, CHR 0x09, CHR 0x0C, CHR 0x08}" by blast
  then show thesis
  proof cases
    case 1
    then obtain e where "esc_char c = [CHR 0x5C, e]" "escape_of e = Some c" "e \<noteq> CHR ''u''"
      by (auto simp: esc_char_def escape_of_def)
    then show thesis by (rule short)
  next
    case 2
    then show thesis
      by (cases "byte c < 32") (auto simp: esc_char_def intro: control plain)
  qed
qed

lemma p_string_esc:
  "p_string (esc_char c @ s) = map_option (\<lambda>(t, q). (c # t, q)) (p_string s)"
proof (cases c rule: esc_char_cases)
  case (short e)
  then show ?thesis by simp
next
  case control
  then have "utf8_encode (byte c) = [c]" by (simp add: utf8_encode_def)
  with control take_unicode_low [of "byte c" s] show ?thesis by simp
next
  case plain
  then show ?thesis by simp
qed

lemma p_string_quote: "p_string (concat (map esc_char t) @ CHR 0x22 # s) = Some (t, s)"
  by (induction t) (simp_all add: p_string_esc del: p_string.simps(2) split: prod.splits, simp)

text \<open>Digits end where a character that no number continues with comes.\<close>

definition num_end :: "string \<Rightarrow> bool" where
  "num_end s \<longleftrightarrow> (case s of [] \<Rightarrow> True | c # _ \<Rightarrow> \<not> is_digit c \<and> c \<noteq> CHR ''.'' \<and> c \<noteq> CHR ''e'' \<and> c \<noteq> CHR ''E'')"

lemma take_run_digits:
  assumes "list_all is_digit ds" "num_end s"
  shows "take_run (ds @ s) = (ds, s)"
  using assms
  by (cases s) (auto simp: take_run_def num_end_def list_all_iff takeWhile_append2 dropWhile_append2)

lemma number_tail: "num_end s \<Longrightarrow> number_frac s = ([], s) \<and> number_exp s = ([], s)"
  by (cases s) (auto simp: number_frac_def number_exp_def num_end_def)

lemma nat_str_zero: "nat_str n = CHR ''0'' # t \<longleftrightarrow> n = 0 \<and> t = []"
proof
  assume *: "nat_str n = CHR ''0'' # t"
  then have "n = 0" using hd_nat_str [of n] by (cases "n = 0") auto
  moreover have "nat_str 0 = ''0''" by code_simp
  ultimately show "n = 0 \<and> t = []" using * by simp
next
  assume "n = 0 \<and> t = []"
  moreover have "nat_str 0 = ''0''" by code_simp
  ultimately show "nat_str n = CHR ''0'' # t" by simp
qed

lemma number_int_nat_str:
  assumes "num_end s"
  shows "number_int (nat_str n @ s) = Some (nat_str n, s)"
proof (cases "nat_str n")
  case Nil
  then show ?thesis by simp
next
  case (Cons c t)
  have d: "list_all is_digit (nat_str n)" by (rule nat_str_digits)
  show ?thesis
  proof (cases "c = CHR ''0''")
    case True
    with Cons nat_str_zero [of n t] show ?thesis by (simp add: number_int_def)
  next
    case False
    with Cons d take_run_digits [OF d assms] show ?thesis by (simp add: number_int_def)
  qed
qed

lemma p_number_int:
  assumes "num_end s" "length (nat_str (nat \<bar>i\<bar>)) \<le> je_max_digits je"
  shows "p_number je (int_str i @ s) = Some (JInt i, s)"
proof (cases "i < 0")
  case True
  with assms number_int_nat_str [OF assms(1)] number_tail [OF assms(1)] show ?thesis
    by (simp add: p_number_def int_str_def)
next
  case False
  obtain c t where ct: "nat_str (nat i) = c # t" by (cases "nat_str (nat i)") auto
  moreover have "is_digit c" using nat_str_digits [of "nat i"] ct by simp
  then have "c \<noteq> CHR ''-''" by (auto simp: is_digit_def)
  ultimately have "take 1 (nat_str (nat i) @ s) \<noteq> ''-''" by simp
  with False assms number_int_nat_str [OF assms(1)] number_tail [OF assms(1)] show ?thesis
    by (simp add: p_number_def int_str_def)
qed

text \<open>Values without floats, with distinct keys and integers within the digit limit.\<close>

fun json_plain :: "nat \<Rightarrow> json \<Rightarrow> bool" where
  "json_plain k (JFloat f) = False"
| "json_plain k (JInt i) \<longleftrightarrow> length (nat_str (nat \<bar>i\<bar>)) \<le> k"
| "json_plain k (JArr vs) \<longleftrightarrow> list_all (json_plain k) vs"
| "json_plain k (JObj d) \<longleftrightarrow> distinct (map fst d) \<and> list_all (\<lambda>(_, v). json_plain k v) d"
| "json_plain k _ = True"

lemma int_str_head:
  obtains c t where "int_str i = c # t" "is_digit c \<or> c = CHR ''-''"
proof (cases "i < 0")
  case True
  then show thesis by (intro that) (auto simp: int_str_def)
next
  case False
  obtain c t where ct: "nat_str (nat i) = c # t" by (cases "nat_str (nat i)") auto
  moreover have "is_digit c" using nat_str_digits [of "nat i"] ct by simp
  ultimately show thesis using False by (intro that) (auto simp: int_str_def)
qed

lemma int_str_second:
  assumes "int_str i = c # t"
  shows "\<not> prefix ''-I'' (c # t @ r)"
proof
  assume "prefix ''-I'' (c # t @ r)"
  then have c: "c = CHR ''-''" and p: "prefix ''I'' (t @ r)" by auto
  have neg: "i < 0"
  proof (rule ccontr)
    assume "\<not> i < 0"
    with assms c have "\<not> is_digit (hd (nat_str (nat i)))" "nat_str (nat i) \<noteq> []"
      by (auto simp: int_str_def is_digit_def)
    with nat_str_digits [of "nat i"] show False by (cases "nat_str (nat i)") auto
  qed
  with assms have t: "t = nat_str (nat (- i))" by (simp add: int_str_def)
  then have "t \<noteq> []" by simp
  then obtain d u where "t = d # u" by (cases t) auto
  moreover have "list_all is_digit t" unfolding t by (rule nat_str_digits)
  ultimately show False using p by (auto simp: is_digit_def)
qed

lemma skip_ws_head: "\<not> is_ws c \<Longrightarrow> skip_ws (c # s) = c # s"
  by (simp add: skip_ws_def)

lemma num_end_simps [simp]:
  "num_end (CHR '','' # s)" "num_end (CHR '']'' # s)" "num_end (CHR ''}'' # s)" "num_end []"
  by (simp_all add: num_end_def is_digit_def)

lemma is_ws_simps [simp]:
  "\<not> is_ws CHR '',''" "\<not> is_ws CHR '']''" "\<not> is_ws CHR ''}''" "\<not> is_ws CHR '':''" "\<not> is_ws CHR 0x22"
  by (simp_all add: is_ws_def)

lemma commas_Cons: "xs \<noteq> [] \<Longrightarrow> commas (x # xs) = x @ CHR '','' # commas xs"
  by (cases xs) auto

lemma commas_nonempty_head:
  assumes "xs \<noteq> []" "hd xs = c # t"
  obtains t' where "commas xs = c # t'"
  using assms by (cases xs rule: commas.cases) auto

text \<open>What the writers of JSON share: they differ in how they quote a text, and promise that what they quote reads back.
  \<open>fits\<close> says of a value that its texts are of those.\<close>

locale json_writer =
  fixes quoted :: "string \<Rightarrow> string"
    and text_ok :: "string \<Rightarrow> bool"
    and written :: "json \<Rightarrow> string"
    and fits :: "json \<Rightarrow> bool"
  assumes quoted_reads: "text_ok s \<Longrightarrow> \<exists>b. quoted s = CHR 0x22 # b \<and> (\<forall>r. p_string (b @ r) = Some (s, r))"
    and written_constants: "written JNull = ''null''" "written (JBool b) = (if b then ''true'' else ''false'')"
    and written_int: "written (JInt i) = int_str i"
    and written_str: "written (JStr s) = quoted s"
    and written_arr: "written (JArr vs) = CHR ''['' # commas (map written vs) @ '']''"
    and written_obj: "written (JObj d) = CHR ''{'' # commas (map (\<lambda>(k, v). quoted k @ CHR '':'' # written v) d) @ ''}''"
    and fits_str: "fits (JStr s) \<Longrightarrow> text_ok s"
    and fits_arr: "fits (JArr vs) \<Longrightarrow> v \<in> set vs \<Longrightarrow> fits v"
    and fits_obj: "fits (JObj d) \<Longrightarrow> (k, v) \<in> set d \<Longrightarrow> text_ok k \<and> fits v"
begin

definition member :: "string \<times> json \<Rightarrow> string" where
  "member = (\<lambda>(k, v). quoted k @ CHR '':'' # written v)"

definition plain :: "nat \<Rightarrow> json \<Rightarrow> bool" where
  "plain k v \<longleftrightarrow> json_plain k v \<and> fits v"

definition reads :: "json_env \<Rightarrow> json \<Rightarrow> bool" where
  "reads je v \<longleftrightarrow> (\<forall>r. num_end r \<longrightarrow> p_value je (written v @ r) = Some (v, r))"

lemma written_head:
  assumes "plain k v"
  obtains c t where "written v = c # t" "\<not> is_ws c" "c \<noteq> CHR '']''"
proof (cases v)
  case (JInt i)
  obtain c t where "int_str i = c # t" "is_digit c \<or> c = CHR ''-''" by (rule int_str_head)
  with JInt show thesis by (intro that) (auto simp: is_ws_def is_digit_def written_int)
next
  case (JBool b)
  then show thesis by (cases b) (auto intro: that simp: is_ws_def written_constants)
next
  case (JStr s)
  with assms have "text_ok s" by (auto simp: plain_def dest: fits_str)
  from quoted_reads [OF this] JStr show thesis by (auto intro: that simp: written_str is_ws_def)
qed (use assms that in \<open>auto simp: is_ws_def plain_def written_constants written_arr written_obj\<close>)

lemma p_elems_written:
  assumes "vs \<noteq> []" "\<forall>v \<in> set vs. reads je v \<and> plain k v"
  shows "p_elems je (commas (map written vs) @ CHR '']'' # r) = Some (vs, r)"
  using assms
proof (induction vs)
  case Nil
  then show ?case by simp
next
  case (Cons v vs)
  have v: "p_value je (written v @ r') = Some (v, r')" if "num_end r'" for r'
    using Cons.prems(2) that by (simp add: reads_def)
  show ?case
  proof (cases "vs = []")
    case True
    then show ?thesis by (simp add: v skip_ws_head p_elems.simps)
  next
    case False
    then obtain w ws where vs: "vs = w # ws" by (cases vs) auto
    define q where "q = commas (map written vs) @ CHR '']'' # r"
    obtain c t where c: "written w = c # t" "\<not> is_ws c"
      using Cons.prems(2) vs by (auto elim: written_head)
    then obtain t' where "q = c # t'"
      using vs by (cases ws) (auto simp: q_def)
    with c have "skip_ws q = q" by (simp add: skip_ws_head)
    moreover have "p_elems je q = Some (vs, r)"
      using Cons.IH False Cons.prems(2) by (simp add: q_def)
    ultimately have "p_elems je (written v @ CHR '','' # q) = Some (v # vs, r)"
      by (subst p_elems.simps) (simp add: v skip_ws_head)
    with False show ?thesis by (simp add: commas_Cons q_def)
  qed
qed

lemma p_members_one:
  assumes "reads je v" "plain n v" "text_ok k" "num_end r"
  shows "p_members je (member (k, v) @ r) =
     (case skip_ws r of
        [] \<Rightarrow> None
      | e # q2 \<Rightarrow>
          if e = CHR ''}'' then Some ([(k, v)], q2)
          else if e = CHR '','' \<and> length q2 < length (member (k, v) @ r) - 1
               then map_option (\<lambda>(ms, t). ((k, v) # ms, t)) (p_members je (skip_ws q2))
          else None)"
proof -
  obtain c t where c: "written v = c # t" "\<not> is_ws c" using assms(2) by (auto elim: written_head)
  obtain b where b: "quoted k = CHR 0x22 # b" "p_string (b @ s) = Some (k, s)" for s
    using quoted_reads [OF assms(3)] by auto
  have v: "p_value je (written v @ r) = Some (v, r)" using assms(1,4) by (simp add: reads_def)
  have form: "member (k, v) @ r = CHR 0x22 # b @ CHR '':'' # written v @ r"
    by (simp add: member_def b(1))
  have ws: "skip_ws (written v @ r) = written v @ r" using c by (simp add: skip_ws_head)
  show ?thesis
    unfolding form by (auto simp: b(2) skip_ws_head ws v split: list.split)
qed

lemma p_members_written:
  assumes "ms \<noteq> []" "\<forall>(k, v) \<in> set ms. reads je v \<and> plain n v \<and> text_ok k"
  shows "p_members je (commas (map member ms) @ CHR ''}'' # r) = Some (ms, r)"
  using assms
proof (induction ms)
  case Nil
  then show ?case by simp
next
  case (Cons m ms)
  obtain k v where m: "m = (k, v)" by fastforce
  with Cons.prems have v: "reads je v" "plain n v" "text_ok k" by auto
  show ?case
  proof (cases "ms = []")
    case True
    with p_members_one [OF v, of "CHR ''}'' # r"] m show ?thesis by (simp add: skip_ws_head)
  next
    case False
    then obtain k' v' ms' where ms: "ms = (k', v') # ms'" by (cases ms) auto
    define q where "q = commas (map member ms) @ CHR ''}'' # r"
    have "text_ok k'" using Cons.prems(2) ms by simp
    then obtain t' where "q = CHR 0x22 # t'"
      using ms quoted_reads [of k'] by (cases ms') (auto simp: q_def member_def)
    then have "skip_ws q = q" by (simp add: skip_ws_head)
    moreover have "p_members je q = Some (ms, r)"
      using Cons.IH False Cons.prems(2) by (simp add: q_def)
    moreover have "length q < length (member (k, v) @ CHR '','' # q) - 1"
      using quoted_reads [OF v(3)] by (auto simp: member_def)
    ultimately have "p_members je (member (k, v) @ CHR '','' # q) = Some (m # ms, r)"
      using p_members_one [OF v, of "CHR '','' # q"] m by (simp add: skip_ws_head)
    with False m show ?thesis by (simp add: commas_Cons q_def)
  qed
qed

lemma written_reads: "plain (je_max_digits je) v \<Longrightarrow> reads je v"
proof (induction v)
  case (JInt i)
  obtain c t where c: "int_str i = c # t" "is_digit c \<or> c = CHR ''-''" by (rule int_str_head)
  then have head: "c \<notin> {CHR 0x22, CHR ''{'', CHR ''['', CHR ''n'', CHR ''t'', CHR ''f'', CHR ''N'', CHR ''I''}"
    by (auto simp: is_digit_def)
  have "\<not> prefix ''-I'' (c # t @ r)" for r
    by (rule int_str_second [OF c(1)])
  with JInt c(1) head p_number_int [of _ i je] show ?case
    by (auto simp: reads_def written_int plain_def simp del: Cons_prefix_Cons)
next
  case (JStr s)
  then have "text_ok s" by (auto simp: plain_def dest: fits_str)
  from quoted_reads [OF this] show ?case by (auto simp: reads_def written_str)
next
  case (JArr vs)
  show ?case
  proof (cases "vs = []")
    case True
    then show ?thesis by (simp add: reads_def skip_ws_head written_arr)
  next
    case False
    have plain: "\<forall>v \<in> set vs. plain (je_max_digits je) v"
      using JArr.prems by (auto simp: plain_def list_all_iff dest: fits_arr)
    from False obtain w ws where vs: "vs = w # ws" by (cases vs) auto
    with plain obtain c t where c: "written w = c # t" "\<not> is_ws c" "c \<noteq> CHR '']''"
      by (auto elim: written_head)
    with vs obtain t' where t': "commas (map written vs) = c # t'"
      using commas_nonempty_head [of "map written vs" c t] by auto
    have all: "\<forall>v \<in> set vs. reads je v \<and> plain (je_max_digits je) v"
      using JArr.IH plain by auto
    show ?thesis
      using p_elems_written [OF False all] t' c by (auto simp: reads_def skip_ws_head written_arr)
  qed
next
  case (JObj d)
  show ?case
  proof (cases "d = []")
    case True
    then show ?thesis by (simp add: reads_def skip_ws_head written_obj)
  next
    case False
    have plain: "\<forall>(k, v) \<in> set d. plain (je_max_digits je) v \<and> text_ok k"
      using JObj.prems by (auto simp: plain_def list_all_iff dest: fits_obj)
    from False obtain k v ms where d: "d = (k, v) # ms" by (cases d) auto
    with plain have "text_ok k" by simp
    from quoted_reads [OF this] obtain t' where t': "commas (map member d) = CHR 0x22 # t'"
      using d by (cases ms) (auto simp: member_def)
    have all: "\<forall>(k, v) \<in> set d. reads je v \<and> plain (je_max_digits je) v \<and> text_ok k"
      using JObj.IH plain by fastforce
    show ?thesis
      using p_members_written [OF False all] t' JObj.prems
      by (auto simp: reads_def skip_ws_head object_of_def written_obj plain_def member_def [symmetric])
  qed
qed (auto simp: reads_def strip_word_def written_constants plain_def)

lemma loads_written:
  assumes "json_plain (je_max_digits je) v" "fits v"
  shows "json_loads je (written v) = Some v"
proof -
  have p: "plain (je_max_digits je) v" using assms by (simp add: plain_def)
  obtain c t where c: "written v = c # t" "\<not> is_ws c" using p by (auto elim: written_head)
  have "p_value je (written v @ []) = Some (v, [])"
    using written_reads [OF p] unfolding reads_def by (metis num_end_simps(4))
  with c show ?thesis by (simp add: json_loads_def skip_ws_head) (simp add: skip_ws_def)
qed

end

interpretation compact: json_writer quote "\<lambda>_. True" json_dumps "\<lambda>_. True"
  by unfold_locales (auto simp: quote_def p_string_quote)

lemma json_loads_dumps: "json_plain (je_max_digits je) v \<Longrightarrow> json_loads je (json_dumps v) = Some v"
  by (rule compact.loads_written) simp_all

definition member_text :: "string \<times> json \<Rightarrow> string" where
  "member_text = (\<lambda>(k, v). quote k @ CHR '':'' # json_dumps v)"

lemma json_dumps_members: "json_dumps (JObj d) = CHR ''{'' # commas (map member_text d) @ ''}''"
  by (simp add: member_text_def)

section \<open>What is written is UTF-8\<close>

lemma escape_of_ascii: "escape_of e = Some c \<Longrightarrow> byte c < 128 \<and> byte e < 128"
  by (auto simp: escape_of_def split: if_splits)

lemma esc_char_high: "128 \<le> byte c \<Longrightarrow> esc_char c = [c]"
  by (cases c rule: esc_char_cases) (auto dest: escape_of_ascii)

lemma hex_digit_ascii: "n < 16 \<Longrightarrow> byte (hex_digit n) < 128"
  by (cases "n < 10") (simp_all add: hex_digit_def)

lemma esc_char_ascii:
  assumes "byte c < 128"
  shows "list_all (\<lambda>d. byte d < 128) (esc_char c)"
proof (cases c rule: esc_char_cases)
  case (short e)
  with escape_of_ascii show ?thesis by simp
next
  case control
  then have "byte (hex_digit (byte c div 16)) < 128" "byte (hex_digit (byte c mod 16)) < 128"
    by (auto intro!: hex_digit_ascii)
  with control show ?thesis by simp
next
  case plain
  with assms show ?thesis by simp
qed

lemma esc_cont: "list_all cont t \<Longrightarrow> concat (map esc_char t) = t"
  by (induction t) (auto simp: cont_def esc_char_high)

lemma utf8_ok_Cons_ascii: "byte c < 128 \<Longrightarrow> utf8_ok (c # s) = utf8_ok s"
  by (simp add: lead_def)

lemma utf8_ok_esc: "utf8_ok s \<Longrightarrow> utf8_ok (concat (map esc_char s))"
proof (induction s rule: utf8_ok.induct)
  case 1
  then show ?case by simp
next
  case (2 c s)
  from 2(2) obtain n lo hi where l: "lead c = Some (n, lo, hi)" "n \<le> length s"
      "n = 0 \<or> lo \<le> byte (hd s) \<and> byte (hd s) < hi" "list_all cont (take n s)" "utf8_ok (drop n s)"
    by (auto split: option.splits)
  have rest: "utf8_ok (concat (map esc_char (drop n s)))"
    using 2(1) [OF l(1) refl refl l(5)] .
  show ?case
  proof (cases "byte c < 128")
    case True
    with l have "n = 0" by (simp add: lead_def)
    with True rest show ?thesis
      by (simp add: utf8_ok_append utf8_ok_ascii esc_char_ascii)
  next
    case False
    have "concat (map esc_char s) = concat (map esc_char (take n s)) @ concat (map esc_char (drop n s))"
      by (metis append_take_drop_id concat_append map_append)
    moreover note esc_cont [OF l(4)]
    ultimately have "concat (map esc_char (c # s)) = (c # take n s) @ concat (map esc_char (drop n s))"
      using False by (simp add: esc_char_high)
    moreover have "utf8_ok (c # take n s)"
      using l by (cases "n = 0") (auto simp: hd_take min_def)
    ultimately show ?thesis using rest utf8_ok_append by presburger
  qed
qed

declare utf8_ok.simps(2) [simp del]

lemma utf8_ok_quote: "utf8_ok s \<Longrightarrow> utf8_ok (quote s)"
  unfolding quote_def
  by (subst utf8_ok_Cons_ascii) (simp_all add: utf8_ok_append utf8_ok_esc utf8_ok_ascii)

lemma utf8_ok_commas: "list_all utf8_ok xs \<Longrightarrow> utf8_ok (commas xs)"
  by (induction xs rule: commas.induct)
     (simp_all add: utf8_ok_append utf8_ok_Cons_ascii)

lemma utf8_ok_digits: "list_all is_digit s \<Longrightarrow> utf8_ok s"
  by (rule utf8_ok_ascii) (auto simp: list_all_iff is_digit_def)

lemma utf8_ok_int_str: "utf8_ok (int_str i)"
  by (simp add: int_str_def utf8_ok_Cons_ascii utf8_ok_digits nat_str_digits)

fun json_utf8 :: "json \<Rightarrow> bool" where
  "json_utf8 (JStr s) = utf8_ok s"
| "json_utf8 (JArr vs) = list_all json_utf8 vs"
| "json_utf8 (JObj d) = list_all (\<lambda>(k, v). utf8_ok k \<and> json_utf8 v) d"
| "json_utf8 _ = True"

lemma utf8_ok_dumps: "json_plain k v \<Longrightarrow> json_utf8 v \<Longrightarrow> utf8_ok (json_dumps v)"
proof (induction v)
  case (JArr vs)
  then have "list_all utf8_ok (map json_dumps vs)" by (auto simp: list_all_iff)
  then show ?case
    by (simp add: utf8_ok_append utf8_ok_commas utf8_ok_Cons_ascii)
next
  case (JObj d)
  then have "utf8_ok (member_text m)" if "m \<in> set d" for m
    using that unfolding member_text_def
    by (cases m) (fastforce simp: list_all_iff intro!: utf8_ok_append utf8_ok_quote
        simp add: utf8_ok_Cons_ascii)
  then have "list_all utf8_ok (map member_text d)" by (auto simp: list_all_iff)
  then show ?case
    unfolding json_dumps_members
    by (simp add: utf8_ok_append utf8_ok_commas utf8_ok_Cons_ascii)
qed (auto simp: utf8_ok_quote utf8_ok_int_str utf8_ok_Cons_ascii)

text \<open>What is written holds no control character, so it is one line.\<close>

abbreviation printable :: "string \<Rightarrow> bool" where
  "printable \<equiv> list_all (\<lambda>c. 32 \<le> byte c)"

lemma esc_char_printable: "printable (esc_char c)"
proof (cases c rule: esc_char_cases)
  case (short e)
  then show ?thesis by (auto simp: escape_of_def split: if_splits)
next
  case control
  have "n < 16 \<Longrightarrow> 32 \<le> byte (hex_digit n)" for n
    by (cases "n < 10") (simp_all add: hex_digit_def)
  with control show ?thesis by simp
next
  case plain
  then show ?thesis by simp
qed

lemma printable_quote: "printable (quote s)"
  using esc_char_printable by (induction s) (auto simp: quote_def)

lemma printable_commas: "list_all printable xs \<Longrightarrow> printable (commas xs)"
  by (induction xs rule: commas.induct) simp_all

lemma printable_int_str: "printable (int_str i)"
proof -
  have "is_digit c \<Longrightarrow> 32 \<le> byte c" for c by (simp add: is_digit_def)
  with nat_str_digits have "printable (nat_str n)" for n by (metis list_all_iff)
  then show ?thesis by (simp add: int_str_def)
qed

lemma printable_dumps: "json_plain k v \<Longrightarrow> printable (json_dumps v)"
proof (induction v)
  case (JArr vs)
  then have "list_all printable (map json_dumps vs)" by (auto simp: list_all_iff)
  then show ?case by (simp add: printable_commas)
next
  case (JObj d)
  then have "printable (member_text m)" if "m \<in> set d" for m
    using that JObj.IH JObj.prems unfolding member_text_def
    by (cases m) (fastforce simp: list_all_iff printable_quote [unfolded list_all_iff])
  then have "list_all printable (map member_text d)" by (auto simp: list_all_iff)
  then show ?case
    unfolding json_dumps_members by (simp add: printable_commas)
qed (simp_all add: printable_quote printable_int_str)

lemma decode_dumps:
  assumes "json_plain (je_max_digits je) v" "json_utf8 v" "json_depth v \<le> MAX_JSON_DEPTH"
  shows "decode_strict_json je (json_dumps v) = Some v"
  using assms utf8_ok_dumps json_loads_dumps [of "je\<lparr>je_strict := True\<rparr>" v] by (simp add: decode_strict_json_def)

end
