(* ===== verification/Base64.thy ===== *)
theory Base64
  imports Capsule_Prelude
begin

text \<open>
  Standard base64 as \<open>artifact/record.py\<close> uses it: \<open>_b64\<close> writes with padding, \<open>_unb64\<close> reads with
  \<open>validate=True\<close>, which admits the alphabet and complete padding only.
\<close>

definition b64_alphabet :: string where
  "b64_alphabet = ''ABCDEFGHIJKLMNOPQRSTUVWXYZabcdefghijklmnopqrstuvwxyz0123456789+/''"

definition b64_char :: "nat \<Rightarrow> char" where
  "b64_char n = b64_alphabet ! n"

definition b64_val :: "char \<Rightarrow> nat option" where
  "b64_val c = map_of (zip b64_alphabet [0..<64]) c"

fun b64_encode :: "string \<Rightarrow> string" where
  "b64_encode [] = []"
| "b64_encode [a] =
     (let x = of_char a :: nat in [b64_char (x div 4), b64_char (x mod 4 * 16), CHR ''='', CHR ''=''])"
| "b64_encode [a, b] =
     (let x = of_char a :: nat; y = of_char b :: nat
      in [b64_char (x div 4), b64_char (x mod 4 * 16 + y div 16), b64_char (y mod 16 * 4), CHR ''=''])"
| "b64_encode (a # b # c # s) =
     (let x = of_char a :: nat; y = of_char b :: nat; z = of_char c :: nat
      in b64_char (x div 4) # b64_char (x mod 4 * 16 + y div 16) # b64_char (y mod 16 * 4 + z div 64)
         # b64_char (z mod 64) # b64_encode s)"

fun b64_decode :: "string \<Rightarrow> string option" where
  "b64_decode [] = Some []"
| "b64_decode (a # b # c # d # s) =
     (case (b64_val a, b64_val b) of
        (Some p, Some q) \<Rightarrow>
          (if c = CHR ''='' \<and> d = CHR ''='' \<and> s = [] then Some [char_of (4 * p + q div 16)]
           else (case b64_val c of
              None \<Rightarrow> None
            | Some r \<Rightarrow>
                if d = CHR ''='' \<and> s = []
                then Some [char_of (4 * p + q div 16), char_of (q mod 16 * 16 + r div 4)]
                else (case (b64_val d, b64_decode s) of
                   (Some t, Some rest) \<Rightarrow>
                     Some (char_of (4 * p + q div 16) # char_of (q mod 16 * 16 + r div 4)
                           # char_of (r mod 4 * 64 + t) # rest)
                 | _ \<Rightarrow> None)))
      | _ \<Rightarrow> None)"
| "b64_decode _ = None"

lemma b64_alphabet_facts: "length b64_alphabet = 64" "distinct b64_alphabet" "CHR ''='' \<notin> set b64_alphabet"
  by (simp_all add: b64_alphabet_def)

lemma b64_val_char: "n < 64 \<Longrightarrow> b64_val (b64_char n) = Some n"
  unfolding b64_val_def b64_char_def
  using b64_alphabet_facts by (subst map_of_zip_nth) auto

lemma b64_char_not_pad: "n < 64 \<Longrightarrow> b64_char n \<noteq> CHR ''=''"
  unfolding b64_char_def using b64_alphabet_facts by (metis nth_mem)

lemma b64_val_pad: "b64_val CHR ''='' = None"
  unfolding b64_val_def using b64_alphabet_facts by (auto simp: map_of_eq_None_iff dest: set_zip_leftD)

lemma digit_pair:
  fixes u w k :: nat
  assumes "w < k"
  shows "(u * k + w) div k = u" "(u * k + w) mod k = w"
  using assms by simp_all

lemma split_parts:
  fixes x y z :: nat
  assumes "x < 256" "y < 256" "z < 256"
  shows "x div 4 < 64" "x mod 4 * 16 < 64" "x mod 4 * 16 + y div 16 < 64" "y mod 16 * 4 < 64"
    "y mod 16 * 4 + z div 64 < 64" "z mod 64 < 64"
    "4 * (x div 4) + x mod 4 * 16 div 16 = x"
    "4 * (x div 4) + (x mod 4 * 16 + y div 16) div 16 = x"
    "(x mod 4 * 16 + y div 16) mod 16 * 16 + y mod 16 * 4 div 4 = y"
    "(x mod 4 * 16 + y div 16) mod 16 * 16 + (y mod 16 * 4 + z div 64) div 4 = y"
    "(y mod 16 * 4 + z div 64) mod 4 * 64 + z mod 64 = z"
proof -
  have b: "x div 4 < 64" "y div 16 < 16" "z div 64 < 4" "x mod 4 < 4" "y mod 16 < 16"
    using assms by (simp_all add: less_mult_imp_div_less)
  then show "x div 4 < 64" "x mod 4 * 16 < 64" "x mod 4 * 16 + y div 16 < 64" "y mod 16 * 4 < 64"
    "y mod 16 * 4 + z div 64 < 64" "z mod 64 < 64" by linarith+
  note p = digit_pair [OF b(2)] digit_pair [OF b(3)]
  show "4 * (x div 4) + x mod 4 * 16 div 16 = x" "4 * (x div 4) + (x mod 4 * 16 + y div 16) div 16 = x"
    "(x mod 4 * 16 + y div 16) mod 16 * 16 + y mod 16 * 4 div 4 = y"
    "(x mod 4 * 16 + y div 16) mod 16 * 16 + (y mod 16 * 4 + z div 64) div 4 = y"
    "(y mod 16 * 4 + z div 64) mod 4 * 64 + z mod 64 = z"
    by (simp_all only: p nonzero_mult_div_cancel_right mult_div_mod_eq div_mult_mod_eq zero_neq_numeral
        not_False_eq_True nonzero_mult_div_cancel_right [of 16] nonzero_mult_div_cancel_right [of 4])
qed

lemma b64_decode_encode: "b64_decode (b64_encode s) = Some s"
proof (induction s rule: b64_encode.induct)
  case 1
  then show ?case by simp
next
  case (2 a)
  define x where "x = (of_char a :: nat)"
  have a: "x < 256" by (simp add: x_def)
  define p q where "p = x div 4" and "q = x mod 4 * 16"
  have "p < 64" "q < 64" "4 * p + q div 16 = x"
    unfolding p_def q_def by (rule split_parts [OF a a a])+
  then have "b64_decode [b64_char p, b64_char q, CHR ''='', CHR ''=''] = Some [a]"
    by (simp add: b64_val_char) (simp add: x_def)
  then show ?case by (simp add: Let_def p_def q_def x_def)
next
  case (3 a b)
  define x y where "x = (of_char a :: nat)" and "y = (of_char b :: nat)"
  have ab: "x < 256" "y < 256" by (simp_all add: x_def y_def)
  define p q r where "p = x div 4" and "q = x mod 4 * 16 + y div 16" and "r = y mod 16 * 4"
  have "p < 64" "q < 64" "r < 64" "4 * p + q div 16 = x" "q mod 16 * 16 + r div 4 = y"
    unfolding p_def q_def r_def by (rule split_parts [OF ab ab(1)])+
  then have "b64_decode [b64_char p, b64_char q, b64_char r, CHR ''=''] = Some [a, b]"
    by (simp add: b64_val_char b64_char_not_pad) (simp add: x_def y_def)
  then show ?case by (simp add: Let_def p_def q_def r_def x_def y_def)
next
  case (4 a b c s)
  define x y z where "x = (of_char a :: nat)" and "y = (of_char b :: nat)" and "z = (of_char c :: nat)"
  have abc: "x < 256" "y < 256" "z < 256" by (simp_all add: x_def y_def z_def)
  define p q r t where "p = x div 4" and "q = x mod 4 * 16 + y div 16" and "r = y mod 16 * 4 + z div 64"
    and "t = z mod 64"
  have "p < 64" "q < 64" "r < 64" "t < 64" "4 * p + q div 16 = x" "q mod 16 * 16 + r div 4 = y"
      "r mod 4 * 64 + t = z"
    unfolding p_def q_def r_def t_def by (rule split_parts [OF abc])+
  with 4 have "b64_decode (b64_char p # b64_char q # b64_char r # b64_char t # b64_encode s) = Some (a # b # c # s)"
    by (simp add: b64_val_char b64_char_not_pad) (simp add: x_def y_def z_def)
  then show ?case by (simp add: Let_def p_def q_def r_def t_def x_def y_def z_def)
qed

lemma b64_encode_ascii: "list_all (\<lambda>c. of_char c < (128 :: nat)) (b64_encode s)"
proof -
  have "list_all (\<lambda>c. of_char c < (128 :: nat)) b64_alphabet" by (simp add: b64_alphabet_def)
  then have "of_char (b64_char n) < (128 :: nat)" if "n < 64" for n
    using that b64_alphabet_facts by (simp add: b64_char_def list_all_length)
  moreover have "x mod 4 * 16 + y div 16 < 64" if "y < 256" for x y :: nat
  proof -
    have "y div 16 < 16" using that by (simp add: less_mult_imp_div_less)
    moreover have "x mod 4 < 4" by simp
    ultimately show ?thesis by linarith
  qed
  moreover have "y mod 16 * 4 + z div 64 < 64" if "z < 256" for y z :: nat
  proof -
    have "z div 64 < 4" using that by (simp add: less_mult_imp_div_less)
    moreover have "y mod 16 < 16" by simp
    ultimately show ?thesis by linarith
  qed
  ultimately show ?thesis
    by (induction s rule: b64_encode.induct) (simp_all add: Let_def less_mult_imp_div_less)
qed

end
