(* ===== verification/Artifact_Record.thy ===== *)
theory Artifact_Record
  imports Json_Text Base64 "HOL-Library.Char_ord" "HOL-Library.List_Lexorder"
begin

text \<open>
  \<open>artifact/record.py\<close>: the record model of the artifact store, its admission checks, its
  verification and the JSON line it is stored as.  Octets are \<^typ>\<open>string\<close>s.  SHA-256, the JSON digest
  and the two verifiers of \<open>agent_action_capsule\<close> are the fields of \<open>artifact_ext\<close>.  Error messages are
  left out: an error is its class.
\<close>

section \<open>Names, ids, errors\<close>

type_synonym octets = string

datatype artifact_error =
    InvalidError
  | ConflictError
  | NotFoundError
  | PurgedError
  | DigestMismatchError
  | UntrustedSignerError
  | CorruptError
  | UnsupportedError
  | OtherError string

definition name_char :: "char \<Rightarrow> bool" where
  "name_char c \<longleftrightarrow> is_alnum c \<or> c = CHR ''.'' \<or> c = CHR ''_'' \<or> c = CHR ''-''"

definition valid_name :: "string \<Rightarrow> bool" where
  "valid_name s =
     (case s of [] \<Rightarrow> False | c # r \<Rightarrow> is_alnum c \<and> length r \<le> 63 \<and> list_all name_char r)"

definition valid_id :: "string \<Rightarrow> bool" where
  "valid_id s = hex_string 64 s"

definition PAYLOAD_DIGEST :: "string list" where
  "PAYLOAD_DIGEST = [''model_attestation'', ''compute_attestation'', ''agent_input_digest'']"

definition AGENT_OUTPUT_DIGEST :: "string list" where
  "AGENT_OUTPUT_DIGEST = [''model_attestation'', ''compute_attestation'', ''agent_output_digest'']"

definition EFFECT_REQUEST_DIGEST :: "string list" where
  "EFFECT_REQUEST_DIGEST = [''effect'', ''request_digest'']"

definition EFFECT_RESPONSE_DIGEST :: "string list" where
  "EFFECT_RESPONSE_DIGEST = [''effect'', ''response_digest'']"

abbreviation PRESENT :: string where "PRESENT \<equiv> ''present''"
abbreviation PURGED :: string where "PURGED \<equiv> ''purged''"
abbreviation NEVER_RETAINED :: string where "NEVER_RETAINED \<equiv> ''never_retained''"

definition MAX_ARTIFACTS :: nat where "MAX_ARTIFACTS = 64"
definition MAX_ENVELOPE :: nat where "MAX_ENVELOPE = 65535"
definition MAX_TOTAL :: nat where "MAX_TOTAL = 8 * 1024 * 1024"

definition PADDING_RECORD_TYPE :: string where
  "PADDING_RECORD_TYPE = ''padding''"

definition PADDING_MEMBERS :: "string list" where
  "PADDING_MEMBERS = [''capsule_id'', ''record_type'', ''epistemic_type'', ''store_nonce'']"

section \<open>Records\<close>

record artifact =
  a_name :: string
  a_state :: string
  a_binding :: string
  a_content :: "octets option"
  a_sha256 :: string

record art_record =
  ar_capsule_id :: string
  ar_capsule :: octets
  ar_envelope :: octets
  ar_artifacts :: "artifact list"

record art_verification =
  v_state :: string
  v_bound :: bool
  v_verified :: bool

record artifact_ext =
  ax_json :: json_env
  ax_sha256 :: "octets \<Rightarrow> string"
  ax_json_digest :: "json \<Rightarrow> string option"
  ax_class1 :: "json \<Rightarrow> string option"
  ax_envelope :: "string \<Rightarrow> octets \<Rightarrow> octets option"

text \<open>\<open>ax_class1\<close> is the capsule id of a capsule that passes Class 1 verification, \<open>ax_envelope\<close> the
  public key of an envelope that verifies over an id, \<open>ax_json_digest\<close> is \<open>None\<close> where the digest raises.\<close>

definition decode_json :: "artifact_ext \<Rightarrow> octets \<Rightarrow> json option" where
  "decode_json ax data = decode_strict_json (ax_json ax) data"

definition decode_capsule :: "artifact_ext \<Rightarrow> octets \<Rightarrow> dict option" where
  "decode_capsule ax data =
     (case decode_json ax data of
        Some (JObj capsule) \<Rightarrow>
          if dget capsule ''format_version'' \<noteq> JStr ''4'' \<or> dget capsule ''canonicalization_id'' \<noteq> JStr ''jcs''
          then None else Some capsule
      | _ \<Rightarrow> None)"

fun digest_walk :: "json \<Rightarrow> string list \<Rightarrow> json option" where
  "digest_walk v [] = Some v"
| "digest_walk (JObj d) (k # ks) = (if dhas d k then digest_walk (dget d k) ks else None)"
| "digest_walk _ (k # ks) = None"

fun join_dots :: "string list \<Rightarrow> string" where
  "join_dots [] = []"
| "join_dots [x] = x"
| "join_dots (x # xs) = x @ CHR ''.'' # join_dots xs"

definition DIGEST_FIELDS :: "string list list" where
  "DIGEST_FIELDS = [PAYLOAD_DIGEST, AGENT_OUTPUT_DIGEST, EFFECT_REQUEST_DIGEST, EFFECT_RESPONSE_DIGEST]"

definition digest_at :: "dict \<Rightarrow> string \<Rightarrow> artifact_error + string" where
  "digest_at capsule binding =
     (case find (\<lambda>ks. join_dots ks = binding) DIGEST_FIELDS of
        None \<Rightarrow> Inl InvalidError
      | Some ks \<Rightarrow>
          (case digest_walk (JObj capsule) ks of
             Some (JStr s) \<Rightarrow> if valid_id s then Inr s else Inl InvalidError
           | _ \<Rightarrow> Inl InvalidError))"

definition content_digest :: "artifact_ext \<Rightarrow> octets \<Rightarrow> string option" where
  "content_digest ax content = Option.bind (decode_json ax content) (ax_json_digest ax)"

definition verify_padding :: "artifact_ext \<Rightarrow> string \<Rightarrow> dict \<Rightarrow> artifact_error + unit" where
  "verify_padding ax capsule_id padding =
     sbind (ensure (list_all (\<lambda>(k, v). k \<in> set PADDING_MEMBERS) padding) InvalidError) (\<lambda>_.
     sbind (ensure (dget padding ''epistemic_type'' = JStr ''producer_claim'') InvalidError) (\<lambda>_.
     sbind (ensure (case dget padding ''store_nonce'' of JStr s \<Rightarrow> valid_id s | _ \<Rightarrow> False) InvalidError) (\<lambda>_.
     if dget padding ''capsule_id'' \<noteq> JStr capsule_id then Inl InvalidError
     else (case ax_json_digest ax (JObj (filter (\<lambda>(k, v). k \<noteq> ''capsule_id'') padding)) of
             None \<Rightarrow> Inl (OtherError ''json_digest'')
           | Some i \<Rightarrow> if i \<noteq> capsule_id then Inl InvalidError else Inr ()))))"

section \<open>Verification\<close>

text \<open>One round of the loop over the originals; \<open>seen\<close> are the results so far.\<close>

definition verify_artifact ::
    "artifact_ext \<Rightarrow> dict \<Rightarrow> (string \<times> art_verification) list \<Rightarrow> artifact \<Rightarrow>
     artifact_error + (string \<times> art_verification) list" where
  "verify_artifact ax capsule seen a =
     sbind (ensure (valid_name (a_name a)) InvalidError) (\<lambda>_.
     sbind (ensure (a_name a \<notin> fst ` set seen) InvalidError) (\<lambda>_.
     sbind (if a_binding a \<noteq> [] then digest_at capsule (a_binding a) else Inr []) (\<lambda>committed.
     sbind (if a_state a = PRESENT then
              (case a_content a of
                 None \<Rightarrow> Inl InvalidError
               | Some content \<Rightarrow>
                   if a_sha256 a \<noteq> [] \<and> a_sha256 a \<noteq> ax_sha256 ax content then Inl CorruptError
                   else if a_binding a \<noteq> [] then
                     (if content_digest ax content = Some committed then Inr True else Inl DigestMismatchError)
                   else Inr False)
            else if a_state a = PURGED then
              (if a_content a \<noteq> None \<or> \<not> valid_id (a_sha256 a) then Inl InvalidError else Inr False)
            else if a_state a = NEVER_RETAINED then
              (if a_content a \<noteq> None \<or> a_sha256 a \<noteq> [] then Inl InvalidError else Inr False)
            else Inl InvalidError) (\<lambda>verified.
     Inr (seen @ [(a_name a, \<lparr>v_state = a_state a, v_bound = (a_binding a \<noteq> []), v_verified = verified\<rparr>)])))))"

definition verified_capsule :: "artifact_ext \<Rightarrow> art_record \<Rightarrow> artifact_error + dict" where
  "verified_capsule ax r =
     (case decode_json ax (ar_capsule r) of
        None \<Rightarrow> Inl InvalidError
      | Some decoded \<Rightarrow>
          (case decoded of
             JObj padding \<Rightarrow>
               if dget padding ''record_type'' = JStr PADDING_RECORD_TYPE
               then sbind (verify_padding ax (ar_capsule_id r) padding) (\<lambda>_. Inr padding)
               else (case decode_capsule ax (ar_capsule r) of
                       None \<Rightarrow> Inl InvalidError
                     | Some capsule \<Rightarrow>
                         if ax_class1 ax (JObj capsule) = Some (ar_capsule_id r) then Inr capsule
                         else Inl InvalidError)
           | _ \<Rightarrow> Inl InvalidError))"

definition verify_record ::
    "artifact_ext \<Rightarrow> octets list \<Rightarrow> art_record \<Rightarrow> artifact_error + (string \<times> art_verification) list" where
  "verify_record ax trusted r =
     sbind (ensure (valid_id (ar_capsule_id r)) InvalidError) (\<lambda>_.
     sbind (verified_capsule ax r) (\<lambda>capsule.
     (case ax_envelope ax (ar_capsule_id r) (ar_envelope r) of
        None \<Rightarrow> Inl InvalidError
      | Some public_key \<Rightarrow>
          if \<not> list_ex (\<lambda>key. length key = 32 \<and> key = public_key) trusted then Inl UntrustedSignerError
          else foldM_r (verify_artifact ax capsule) [] (ar_artifacts r))))"

section \<open>Checksum, admission, purge\<close>

definition opt_str :: "string \<Rightarrow> string \<Rightarrow> dict" where
  "opt_str k v = (if v \<noteq> [] then [(k, JStr v)] else [])"

definition checksum_item :: "artifact \<Rightarrow> json" where
  "checksum_item a =
     JObj ([(''name'', JStr (a_name a))] @ opt_str ''binding'' (a_binding a)
       @ [(''state'', JStr (if a_state a = PURGED then PRESENT else a_state a))]
       @ opt_str ''content_sha256'' (a_sha256 a))"

definition storage_checksum :: "artifact_ext \<Rightarrow> art_record \<Rightarrow> string" where
  "storage_checksum ax r =
     ax_sha256 ax (json_dumps (JObj
       [(''capsule_id'', JStr (ar_capsule_id r)),
        (''capsule'', JStr (b64_encode (ar_capsule r))),
        (''producer_envelope'', JStr (b64_encode (ar_envelope r))),
        (''artifacts'', JArr (map checksum_item (sort_key a_name (ar_artifacts r))))]))"

text \<open>The loop of \<open>prepare\<close>; \<open>n\<close> is the running octet count.\<close>

fun prepare_artifacts :: "artifact_ext \<Rightarrow> nat \<Rightarrow> artifact list \<Rightarrow> artifact_error + (nat \<times> artifact list)" where
  "prepare_artifacts ax n [] = Inr (n, [])"
| "prepare_artifacts ax n (a # as) =
     (if a_state a = PURGED then Inl PurgedError
      else
        let n' = (case a_content a of None \<Rightarrow> n | Some c \<Rightarrow> n + length c);
            digest = ax_sha256 ax (case a_content a of None \<Rightarrow> [] | Some c \<Rightarrow> c)
        in if a_state a = PRESENT \<and> a_sha256 a \<noteq> [] \<and> a_sha256 a \<noteq> digest then Inl CorruptError
           else sbind (prepare_artifacts ax n' as) (\<lambda>(k, as').
             Inr (k, (if a_state a = PRESENT then a\<lparr>a_sha256 := digest\<rparr> else a) # as')))"

definition prepare :: "artifact_ext \<Rightarrow> art_record \<Rightarrow> artifact_error + art_record" where
  "prepare ax r =
     (if MAX_ARTIFACTS < length (ar_artifacts r) \<or> MAX_ENVELOPE < length (ar_envelope r) then Inl InvalidError
      else sbind (prepare_artifacts ax (length (ar_capsule r) + length (ar_envelope r)) (ar_artifacts r))
        (\<lambda>(n, as). if MAX_TOTAL < n then Inl InvalidError else Inr (r\<lparr>ar_artifacts := as\<rparr>)))"

definition purge_artifact :: "artifact \<Rightarrow> artifact" where
  "purge_artifact a = (if a_state a = PRESENT then a\<lparr>a_content := None, a_state := PURGED\<rparr> else a)"

definition purged_copy :: "art_record \<Rightarrow> art_record" where
  "purged_copy r = r\<lparr>ar_artifacts := map purge_artifact (ar_artifacts r)\<rparr>"

definition has_purged :: "art_record \<Rightarrow> bool" where
  "has_purged r \<longleftrightarrow> list_ex (\<lambda>a. a_state a = PURGED) (ar_artifacts r)"

definition trusted_keys :: "octets list \<Rightarrow> artifact_error + octets list" where
  "trusted_keys keys =
     (if keys = [] then Inl InvalidError
      else if list_ex (\<lambda>k. length k \<noteq> 32) keys then Inl InvalidError
      else Inr keys)"

definition check_store_config :: "string \<Rightarrow> octets list \<Rightarrow> artifact_error + octets list" where
  "check_store_config namespace trusted =
     (if \<not> valid_name namespace then Inl InvalidError else trusted_keys trusted)"

section \<open>The stored line\<close>

definition wire_item :: "artifact \<Rightarrow> json" where
  "wire_item a =
     JObj ([(''name'', JStr (a_name a))] @ opt_str ''binding'' (a_binding a)
       @ (case a_content a of None \<Rightarrow> [] | Some c \<Rightarrow> [(''content'', JStr (b64_encode c))])
       @ [(''state'', JStr (a_state a))] @ opt_str ''content_sha256'' (a_sha256 a))"

definition encode_record :: "art_record \<Rightarrow> string" where
  "encode_record r = json_dumps (JObj
     [(''capsule_id'', JStr (ar_capsule_id r)),
      (''capsule'', JStr (b64_encode (ar_capsule r))),
      (''producer_envelope'', JStr (b64_encode (ar_envelope r))),
      (''artifacts'', JArr (map wire_item (ar_artifacts r)))])"

definition unb64 :: "json \<Rightarrow> artifact_error + octets" where
  "unb64 v =
     (case v of
        JStr s \<Rightarrow> (case b64_decode s of None \<Rightarrow> Inl CorruptError | Some d \<Rightarrow> Inr d)
      | _ \<Rightarrow> Inl CorruptError)"

definition decode_item :: "json \<Rightarrow> artifact_error + artifact" where
  "decode_item raw =
     (case raw of
        JObj d \<Rightarrow>
          (case (dget d ''name'', dget d ''state'', dget_default d ''binding'' (JStr ''''),
                 dget_default d ''content_sha256'' (JStr '''')) of
             (JStr name, JStr state, JStr binding, JStr sha) \<Rightarrow>
               sbind (if dhas d ''content'' then sbind (unb64 (dget d ''content'')) (\<lambda>c. Inr (Some c)) else Inr None)
                 (\<lambda>content. Inr \<lparr>a_name = name, a_state = state, a_binding = binding, a_content = content,
                                 a_sha256 = sha\<rparr>)
           | _ \<Rightarrow> Inl CorruptError)
      | _ \<Rightarrow> Inl CorruptError)"

definition decode_record :: "artifact_ext \<Rightarrow> string \<Rightarrow> artifact_error + art_record" where
  "decode_record ax line =
     (case json_loads ((ax_json ax)\<lparr>je_strict := False\<rparr>) line of
        Some (JObj stored) \<Rightarrow>
          (case (dget stored ''capsule_id'', dget stored ''artifacts'') of
             (JStr i, JArr raws) \<Rightarrow>
               sbind (mapM_r decode_item raws) (\<lambda>artifacts.
               sbind (unb64 (dget stored ''capsule'')) (\<lambda>capsule.
               sbind (unb64 (dget stored ''producer_envelope'')) (\<lambda>envelope.
                 Inr \<lparr>ar_capsule_id = i, ar_capsule = capsule, ar_envelope = envelope, ar_artifacts = artifacts\<rparr>)))
           | _ \<Rightarrow> Inl CorruptError)
      | _ \<Rightarrow> Inl CorruptError)"

section \<open>The stored line reads back\<close>

lemma dget_opt_str: "dget (opt_str k v @ d) k' = (if k' = k \<and> v \<noteq> [] then JStr v else dget d k')"
  by (simp add: opt_str_def)

lemma dhas_opt_str: "dhas (opt_str k v @ d) k' \<longleftrightarrow> (k' = k \<and> v \<noteq> []) \<or> dhas d k'"
  by (auto simp: opt_str_def dhas_def)

lemma dhas_Cons [simp]: "dhas ((k, v) # d) k' \<longleftrightarrow> k' = k \<or> dhas d k'"
  by (auto simp: dhas_def)

lemma dhas_Nil [simp]: "\<not> dhas [] k"
  by (simp add: dhas_def)

lemma unb64_encode [simp]: "unb64 (JStr (b64_encode c)) = Inr c"
  by (simp add: unb64_def b64_decode_encode)

lemma decode_wire_item: "decode_item (wire_item a) = Inr a"
  by (cases a; cases "a_content a"; cases "a_binding a = []"; cases "a_sha256 a = []")
     (simp_all add: decode_item_def wire_item_def opt_str_def dget_default_def)

lemma wire_plain: "json_plain k (wire_item a)"
  by (cases "a_content a") (simp_all add: wire_item_def opt_str_def)

lemma decode_items: "mapM_r decode_item (map wire_item as) = Inr as"
  by (induction as) (simp_all add: decode_wire_item)

lemma loads_encoded_record:
  "json_loads ((ax_json ax)\<lparr>je_strict := False\<rparr>) (encode_record r) = Some (JObj
     [(''capsule_id'', JStr (ar_capsule_id r)),
      (''capsule'', JStr (b64_encode (ar_capsule r))),
      (''producer_envelope'', JStr (b64_encode (ar_envelope r))),
      (''artifacts'', JArr (map wire_item (ar_artifacts r)))])"
  unfolding encode_record_def by (rule json_loads_dumps) (simp add: wire_plain list_all_iff)

lemma decode_encode_record: "decode_record ax (encode_record r) = Inr r"
  by (simp add: decode_record_def loads_encoded_record decode_items)

lemma encode_record_printable: "printable (encode_record r)"
  unfolding encode_record_def by (rule printable_dumps [of 0]) (simp add: wire_plain list_all_iff)

section \<open>Purging keeps what the record commits to\<close>

lemma purge_artifact_simps [simp]:
  "a_name (purge_artifact a) = a_name a" "a_binding (purge_artifact a) = a_binding a"
  "a_sha256 (purge_artifact a) = a_sha256 a"
  by (simp_all add: purge_artifact_def)

lemma checksum_item_purge: "checksum_item (purge_artifact a) = checksum_item a"
  by (simp add: checksum_item_def purge_artifact_def)

lemma insort_key_map: "(\<And>x. f (g x) = f x) \<Longrightarrow> insort_key f (g x) (map g xs) = map g (insort_key f x xs)"
  by (induction xs) simp_all

lemma sort_key_map: "(\<And>x. f (g x) = f x) \<Longrightarrow> sort_key f (map g xs) = map g (sort_key f xs)"
  by (induction xs) (simp_all add: insort_key_map)

lemma purged_copy_simps [simp]:
  "ar_capsule_id (purged_copy r) = ar_capsule_id r" "ar_capsule (purged_copy r) = ar_capsule r"
  "ar_envelope (purged_copy r) = ar_envelope r"
  by (simp_all add: purged_copy_def)

lemma storage_checksum_purged: "storage_checksum ax (purged_copy r) = storage_checksum ax r"
  by (simp add: storage_checksum_def purged_copy_def sort_key_map checksum_item_purge comp_def)

lemma purged_copy_idem: "purged_copy (purged_copy r) = purged_copy r"
  by (simp add: purged_copy_def purge_artifact_def comp_def)

text \<open>After admission every present original carries its SHA-256.\<close>

definition prepared_ok :: "artifact_ext \<Rightarrow> art_record \<Rightarrow> bool" where
  "prepared_ok ax r \<longleftrightarrow>
     (\<forall>a \<in> set (ar_artifacts r). a_state a = PRESENT \<longrightarrow>
        a_sha256 a = ax_sha256 ax (case a_content a of None \<Rightarrow> [] | Some c \<Rightarrow> c))"

lemma prepare_ConsE:
  assumes "prepare_artifacts ax n (a # as) = Inr (m, bs)"
  obtains cs where "prepare_artifacts ax (case a_content a of None \<Rightarrow> n | Some c \<Rightarrow> n + length c) as = Inr (m, cs)"
    "bs = (if a_state a = PRESENT
          then a\<lparr>a_sha256 := ax_sha256 ax (case a_content a of None \<Rightarrow> [] | Some c \<Rightarrow> c)\<rparr> else a) # cs"
    "a_state a \<noteq> PURGED"
  using assms by (auto simp: res_simps Let_def split: if_splits)

definition sealed_artifact :: "artifact_ext \<Rightarrow> artifact \<Rightarrow> bool" where
  "sealed_artifact ax a \<longleftrightarrow> a_state a \<noteq> PURGED \<and>
     (a_state a = PRESENT \<longrightarrow> a_sha256 a = ax_sha256 ax (case a_content a of None \<Rightarrow> [] | Some c \<Rightarrow> c))"

lemma prepare_artifacts_ok:
  "prepare_artifacts ax n as = Inr (m, bs) \<Longrightarrow> list_all (sealed_artifact ax) bs \<and> length bs = length as"
proof (induction as arbitrary: n m bs)
  case Nil
  then show ?case by simp
next
  case (Cons a as)
  from Cons.prems obtain cs where cs: "prepare_artifacts ax (case a_content a of None \<Rightarrow> n | Some c \<Rightarrow> n + length c) as = Inr (m, cs)"
    "bs = (if a_state a = PRESENT
          then a\<lparr>a_sha256 := ax_sha256 ax (case a_content a of None \<Rightarrow> [] | Some c \<Rightarrow> c)\<rparr> else a) # cs"
    "a_state a \<noteq> PURGED"
    by (rule prepare_ConsE)
  with Cons.IH [OF cs(1)] show ?case by (simp add: sealed_artifact_def)
qed

lemma prepare_ok: "prepare ax r = Inr p \<Longrightarrow> prepared_ok ax p \<and> \<not> has_purged p \<and> ar_capsule_id p = ar_capsule_id r"
  by (auto simp: prepare_def res_simps prepared_ok_def has_purged_def list_ex_iff list_all_iff
      sealed_artifact_def dest!: prepare_artifacts_ok split: if_splits)

lemma prepare_artifacts_idem:
  "prepare_artifacts ax n as = Inr (m, bs) \<Longrightarrow> prepare_artifacts ax n bs = Inr (m, bs)"
proof (induction as arbitrary: n m bs)
  case Nil
  then show ?case by simp
next
  case (Cons a as)
  from Cons.prems obtain cs where rest: "prepare_artifacts ax (case a_content a of None \<Rightarrow> n | Some c \<Rightarrow> n + length c) as = Inr (m, cs)"
    and bs: "bs = (if a_state a = PRESENT
          then a\<lparr>a_sha256 := ax_sha256 ax (case a_content a of None \<Rightarrow> [] | Some c \<Rightarrow> c)\<rparr> else a) # cs"
    and st: "a_state a \<noteq> PURGED"
    by (rule prepare_ConsE)
  from Cons.IH [OF rest] st show ?case
    by (simp add: bs Let_def)
qed

lemma prepare_idem: "prepare ax r = Inr p \<Longrightarrow> prepare ax p = Inr p"
proof -
  assume *: "prepare ax r = Inr p"
  then obtain m as where as: "prepare_artifacts ax (length (ar_capsule r) + length (ar_envelope r)) (ar_artifacts r) = Inr (m, as)"
      "m \<le> MAX_TOTAL" "p = r\<lparr>ar_artifacts := as\<rparr>" "length (ar_artifacts r) \<le> MAX_ARTIFACTS"
      "length (ar_envelope r) \<le> MAX_ENVELOPE"
    by (auto simp: prepare_def res_simps split: if_splits)
  have "length as = length (ar_artifacts r)"
    using prepare_artifacts_ok [OF as(1)] by simp
  with as prepare_artifacts_idem [OF as(1)] show ?thesis
    by (simp add: prepare_def)
qed

end
