(* ===== verification/Artifact_Store.thy ===== *)
theory Artifact_Store
  imports Artifact_Record
begin

text \<open>
  The contract of \<open>Store\<close> in \<open>artifact/__init__.py\<close> (\<open>docs/artifact-store.md\<close>), as a locale: what a
  successful \<open>put\<close>, \<open>get\<close> and \<open>purge\<close> do to the stored records.  An operation that raises leaves the
  store as it was.  The clients of the contract are the lemmas about whole histories of calls: what a
  record commits to never changes and erased originals never come back.
\<close>

section \<open>Verification survives a purge\<close>

definition purged_result :: "string \<times> art_verification \<Rightarrow> string \<times> art_verification" where
  "purged_result = (\<lambda>(n, v). (n, if v_state v = PRESENT then v\<lparr>v_state := PURGED, v_verified := False\<rparr> else v))"

definition sha_ok :: "artifact_ext \<Rightarrow> bool" where
  "sha_ok ax \<longleftrightarrow> (\<forall>b. valid_id (ax_sha256 ax b))"

lemma fst_purged_result [simp]: "fst (purged_result r) = fst r"
  by (cases r) (simp add: purged_result_def)

lemma valid_id_nonempty: "valid_id s \<Longrightarrow> s \<noteq> []"
  by (auto simp: valid_id_def hex_string_def)

lemma verify_artifact_purge:
  assumes "verify_artifact ax capsule seen a = Inr seen'" "sha_ok ax"
    "a_state a = PRESENT \<Longrightarrow> a_sha256 a = ax_sha256 ax (case a_content a of None \<Rightarrow> [] | Some c \<Rightarrow> c)"
  shows "verify_artifact ax capsule (map purged_result seen) (purge_artifact a) = Inr (map purged_result seen')"
proof -
  have seen: "fst ` set (map purged_result seen) = fst ` set seen"
    by (simp add: image_image)
  show ?thesis
  proof (cases "a_state a = PRESENT")
    case True
    with assms(3) have "a_sha256 a = ax_sha256 ax (case a_content a of None \<Rightarrow> [] | Some c \<Rightarrow> c)" by simp
    with assms(2) have "valid_id (a_sha256 a)" by (simp add: sha_ok_def)
    with True assms(1) seen show ?thesis
      by (auto simp: verify_artifact_def res_simps purge_artifact_def purged_result_def
          split: option.splits if_splits)
  next
    case False
    with assms(1) seen show ?thesis
      by (auto simp: verify_artifact_def res_simps purge_artifact_def purged_result_def split: if_splits)
  qed
qed

lemma verify_artifacts_purge:
  assumes "foldM_r (verify_artifact ax capsule) seen as = Inr res" "sha_ok ax"
    "\<forall>a \<in> set as. a_state a = PRESENT \<longrightarrow> a_sha256 a = ax_sha256 ax (case a_content a of None \<Rightarrow> [] | Some c \<Rightarrow> c)"
  shows "foldM_r (verify_artifact ax capsule) (map purged_result seen) (map purge_artifact as)
    = Inr (map purged_result res)"
  using assms
proof (induction as arbitrary: seen)
  case Nil
  then show ?case by simp
next
  case (Cons a as)
  then obtain seen' where "verify_artifact ax capsule seen a = Inr seen'"
      "foldM_r (verify_artifact ax capsule) seen' as = Inr res"
    by (auto simp: res_simps)
  with Cons verify_artifact_purge [of ax capsule seen a seen'] show ?case by simp
qed

lemma verify_purged:
  assumes "verify_record ax trusted r = Inr res" "prepared_ok ax r" "sha_ok ax"
  shows "verify_record ax trusted (purged_copy r) = Inr (map purged_result res)"
proof -
  from assms(1) obtain capsule pk where v: "valid_id (ar_capsule_id r)" "verified_capsule ax r = Inr capsule"
      "ax_envelope ax (ar_capsule_id r) (ar_envelope r) = Some pk"
      "list_ex (\<lambda>key. length key = 32 \<and> key = pk) trusted"
      "foldM_r (verify_artifact ax capsule) [] (ar_artifacts r) = Inr res"
    by (auto simp: verify_record_def res_simps split: option.splits if_splits)
  have "verified_capsule ax (purged_copy r) = Inr capsule"
    using v(2) unfolding verified_capsule_def purged_copy_simps .
  moreover have "foldM_r (verify_artifact ax capsule) [] (ar_artifacts (purged_copy r)) = Inr (map purged_result res)"
    using verify_artifacts_purge [OF v(5) assms(3)] assms(2) by (simp add: prepared_ok_def purged_copy_def)
  ultimately show ?thesis
    using v by (simp add: verify_record_def)
qed

text \<open>What a verified record means: who signed it and what every bound original hashes to.\<close>

lemma verify_artifacts_sound:
  assumes "foldM_r (verify_artifact ax capsule) seen as = Inr res" "a \<in> set as"
  shows "a_state a \<in> {PRESENT, PURGED, NEVER_RETAINED} \<and> valid_name (a_name a) \<and>
    (a_state a = PRESENT \<longrightarrow> (\<exists>c. a_content a = Some c \<and> (a_sha256 a \<noteq> [] \<longrightarrow> a_sha256 a = ax_sha256 ax c) \<and>
       (a_binding a \<noteq> [] \<longrightarrow> (\<exists>d. digest_at capsule (a_binding a) = Inr d \<and> content_digest ax c = Some d)))) \<and>
    (a_state a \<noteq> PRESENT \<longrightarrow> a_content a = None)"
  using assms
proof (induction as arbitrary: seen)
  case Nil
  then show ?case by simp
next
  case (Cons b as)
  from Cons.prems(1) obtain seen' where b: "verify_artifact ax capsule seen b = Inr seen'"
      "foldM_r (verify_artifact ax capsule) seen' as = Inr res"
    by (auto simp: res_simps)
  show ?case
  proof (cases "a = b")
    case True
    with b(1) show ?thesis
      by (auto simp: verify_artifact_def res_simps split: option.splits if_splits)
  next
    case False
    with Cons.prems(2) Cons.IH [OF b(2)] show ?thesis by simp
  qed
qed

lemma verify_artifacts_names:
  assumes "foldM_r (verify_artifact ax capsule) seen as = Inr res" "distinct (map fst seen)"
  shows "map fst res = map fst seen @ map a_name as \<and> distinct (map fst res)"
  using assms
proof (induction as arbitrary: seen)
  case Nil
  then show ?case by simp
next
  case (Cons a as)
  from Cons.prems(1) obtain seen' where a: "verify_artifact ax capsule seen a = Inr seen'"
      "foldM_r (verify_artifact ax capsule) seen' as = Inr res"
    by (auto simp: res_simps)
  from a(1) obtain v where v: "seen' = seen @ [(a_name a, v)]" "a_name a \<notin> fst ` set seen"
    by (auto simp: verify_artifact_def res_simps)
  with Cons.prems(2) have "distinct (map fst seen')" by simp
  note ih = Cons.IH [OF a(2) this]
  have "map fst seen' @ map a_name as = map fst seen @ map a_name (a # as)" using v(1) by simp
  with ih show ?case by argo
qed

section \<open>The contract\<close>

definition admit :: "artifact_ext \<Rightarrow> octets list \<Rightarrow> art_record \<Rightarrow> artifact_error + art_record" where
  "admit ax trusted r =
     sbind (prepare ax r) (\<lambda>p. sbind (verify_record ax trusted p) (\<lambda>_. Inr p))"

definition erased :: "art_record \<Rightarrow> bool" where
  "erased r \<longleftrightarrow> (\<forall>a \<in> set (ar_artifacts r). a_state a \<noteq> PRESENT)"

lemma erased_purged: "erased (purged_copy r)"
  by (auto simp: erased_def purged_copy_def purge_artifact_def)

datatype store_op = Put art_record | Purge string

text \<open>A history of calls; a call that raises changes nothing.\<close>

fun store_step ::
    "(art_record \<Rightarrow> 's \<Rightarrow> artifact_error + 's) \<Rightarrow> (string \<Rightarrow> 's \<Rightarrow> artifact_error + 's) \<Rightarrow>
     store_op \<Rightarrow> 's \<Rightarrow> 's" where
  "store_step put purge (Put r) s = (case put r s of Inl _ \<Rightarrow> s | Inr s' \<Rightarrow> s')"
| "store_step put purge (Purge i) s = (case purge i s of Inl _ \<Rightarrow> s | Inr s' \<Rightarrow> s')"

definition store_history ::
    "(art_record \<Rightarrow> 's \<Rightarrow> artifact_error + 's) \<Rightarrow> (string \<Rightarrow> 's \<Rightarrow> artifact_error + 's) \<Rightarrow>
     store_op list \<Rightarrow> 's \<Rightarrow> 's" where
  "store_history put purge ops s = fold (store_step put purge) ops s"

locale artifact_store =
  fixes ax :: artifact_ext and trusted :: "octets list"
    and inv :: "'s \<Rightarrow> bool" and content :: "'s \<Rightarrow> string \<Rightarrow> art_record option"
    and put :: "art_record \<Rightarrow> 's \<Rightarrow> artifact_error + 's"
    and get :: "string \<Rightarrow> 's \<Rightarrow> artifact_error + art_record"
    and purge :: "string \<Rightarrow> 's \<Rightarrow> artifact_error + 's"
  assumes put_admits: "inv s \<Longrightarrow> put r s = Inr s' \<Longrightarrow> \<exists>p. admit ax trusted r = Inr p"
    and put_new: "inv s \<Longrightarrow> put r s = Inr s' \<Longrightarrow> admit ax trusted r = Inr p \<Longrightarrow>
        content s (ar_capsule_id p) = None \<Longrightarrow> content s' = (content s)(ar_capsule_id p \<mapsto> p)"
    and put_again: "inv s \<Longrightarrow> put r s = Inr s' \<Longrightarrow> admit ax trusted r = Inr p \<Longrightarrow>
        content s (ar_capsule_id p) = Some old \<Longrightarrow>
        content s' = content s \<and> storage_checksum ax old = storage_checksum ax p \<and> \<not> has_purged old"
    and purge_content: "inv s \<Longrightarrow> purge i s = Inr s' \<Longrightarrow>
        \<exists>r. content s i = Some r \<and> content s' = (content s)(i \<mapsto> purged_copy r)"
    and get_content: "inv s \<Longrightarrow> get i s = Inr r \<Longrightarrow> content s i = Some r \<and> (\<exists>res. verify_record ax trusted r = Inr res)"
    and put_inv: "inv s \<Longrightarrow> put r s = Inr s' \<Longrightarrow> inv s'"
    and purge_inv: "inv s \<Longrightarrow> purge i s = Inr s' \<Longrightarrow> inv s'"
begin

abbreviation step :: "store_op \<Rightarrow> 's \<Rightarrow> 's" where
  "step \<equiv> store_step put purge"

abbreviation history :: "store_op list \<Rightarrow> 's \<Rightarrow> 's" where
  "history \<equiv> store_history put purge"

lemma step_inv: "inv s \<Longrightarrow> inv (step op s)"
  by (cases op) (auto split: sum.splits intro: put_inv purge_inv)

lemma history_inv: "inv s \<Longrightarrow> inv (history ops s)"
  unfolding store_history_def by (induction ops arbitrary: s) (simp_all add: step_inv)

text \<open>What happens to one stored record in one call: nothing, or it is purged.\<close>

lemma step_content:
  assumes "inv s" "content s i = Some r"
  shows "content (step op s) i = Some r \<or> content (step op s) i = Some (purged_copy r)"
proof (cases op)
  case (Put q)
  show ?thesis
  proof (cases "put q s")
    case (Inr s')
    with put_admits [OF assms(1) Inr] obtain p where p: "admit ax trusted q = Inr p" by blast
    show ?thesis
    proof (cases "content s (ar_capsule_id p)")
      case None
      with put_new [OF assms(1) Inr p] assms(2) Put Inr show ?thesis by auto
    next
      case (Some old)
      with put_again [OF assms(1) Inr p] assms(2) Put Inr show ?thesis by auto
    qed
  qed (use assms Put in auto)
next
  case (Purge j)
  show ?thesis
  proof (cases "purge j s")
    case (Inr s')
    with purge_content [OF assms(1) Inr] assms(2) Purge show ?thesis by auto
  qed (use assms Purge in auto)
qed

lemma history_content:
  assumes "inv s" "content s i = Some r"
  shows "content (history ops s) i = Some r \<or> content (history ops s) i = Some (purged_copy r)"
  using assms
proof (induction ops arbitrary: s r)
  case Nil
  then show ?case by (simp add: store_history_def)
next
  case (Cons op ops)
  note inv' = step_inv [OF Cons.prems(1), of op]
  from step_content [OF Cons.prems, of op] show ?case
  proof
    assume "content (step op s) i = Some r"
    from Cons.IH [OF inv' this] show ?thesis by (simp add: store_history_def)
  next
    assume "content (step op s) i = Some (purged_copy r)"
    from Cons.IH [OF inv' this] show ?thesis by (simp add: store_history_def purged_copy_idem)
  qed
qed

text \<open>The commitments of a stored record are immutable.\<close>

lemma commitments_immutable:
  assumes "inv s" "content s i = Some r"
  shows "\<exists>r'. content (history ops s) i = Some r' \<and> storage_checksum ax r' = storage_checksum ax r
    \<and> ar_capsule r' = ar_capsule r \<and> ar_envelope r' = ar_envelope r"
  using history_content [OF assms, of ops] storage_checksum_purged by auto

text \<open>Erased originals stay erased.\<close>

lemma purge_is_final:
  assumes "inv s" "purge i s = Inr s'"
  shows "\<exists>r'. content (history ops s') i = Some r' \<and> erased r'"
proof -
  obtain r where "content s' i = Some (purged_copy r)"
    using purge_content [OF assms] by auto
  moreover note erased_purged [of r]
  ultimately show ?thesis
    using history_content [OF purge_inv [OF assms], of i "purged_copy r" ops] by (auto simp: purged_copy_idem)
qed

text \<open>A record that was put and can be read is the prepared record, or what a purge left of it.\<close>

lemma read_back:
  assumes "inv s" "put r s = Inr s'" "admit ax trusted r = Inr p" "content s (ar_capsule_id p) = None"
    "get (ar_capsule_id p) (history ops s') = Inr q"
  shows "q = p \<or> q = purged_copy p"
proof -
  have "content s' (ar_capsule_id p) = Some p"
    using put_new [OF assms(1-4)] by simp
  from history_content [OF put_inv [OF assms(1,2)] this, of ops]
    get_content [OF history_inv [OF put_inv [OF assms(1,2)]] assms(5)]
  show ?thesis by auto
qed

end

end
