(* ===== verification/Artifact_Index.thy ===== *)
theory Artifact_Index
  imports Artifact_Record Rfc3339
begin

text \<open>
  \<open>artifact/index.py\<close>: declared index paths, what a record contributes to the index, the checks of a
  query, and the in-memory index of the memory and jsonl stores.  Arguments that the source checks at run
  time are \<^typ>\<open>json\<close> values (\<open>None\<close> is \<open>JNull\<close>).
\<close>

section \<open>Paths\<close>

definition MAX_INDEX_PATHS :: nat where "MAX_INDEX_PATHS = 32"
definition DEFAULT_FIND_LIMIT :: int where "DEFAULT_FIND_LIMIT = 100"
definition MAX_FIND_LIMIT :: int where "MAX_FIND_LIMIT = 1000"

definition valid_segment :: "string \<Rightarrow> bool" where
  "valid_segment s \<longleftrightarrow> 1 \<le> length s \<and> length s \<le> 64 \<and>
     list_all (\<lambda>c. is_alnum c \<or> c = CHR ''_'' \<or> c = CHR ''-'') s"

fun split_dots :: "string \<Rightarrow> string list" where
  "split_dots [] = [[]]"
| "split_dots (c # s) =
     (if c = CHR ''.'' then [] # split_dots s
      else (case split_dots s of [] \<Rightarrow> [[c]] | x # xs \<Rightarrow> (c # x) # xs))"

definition valid_path :: "json \<Rightarrow> bool" where
  "valid_path v =
     (case v of
        JStr s \<Rightarrow> length s \<le> 255 \<and> length (split_dots s) \<le> 8 \<and> list_all valid_segment (split_dots s)
      | _ \<Rightarrow> False)"

fun str_of :: "json \<Rightarrow> string" where
  "str_of (JStr s) = s"
| "str_of _ = []"

text \<open>\<open>list(paths)\<close>: a dict iterates over its keys, a number does not iterate.\<close>

definition path_list :: "json \<Rightarrow> artifact_error + json list" where
  "path_list paths =
     (case paths of
        JArr vs \<Rightarrow> Inr vs
      | JObj d \<Rightarrow> Inr (map (\<lambda>(k, v). JStr k) d)
      | JStr _ \<Rightarrow> Inl InvalidError
      | JNull \<Rightarrow> Inl InvalidError
      | _ \<Rightarrow> Inl (OtherError ''TypeError''))"

definition normalize_paths :: "json \<Rightarrow> artifact_error + string list" where
  "normalize_paths paths =
     sbind (path_list paths) (\<lambda>vs.
     if MAX_INDEX_PATHS < length vs then Inl InvalidError
     else if \<not> list_all valid_path vs then Inl InvalidError
     else let normalized = sort (map str_of vs)
          in if \<not> distinct normalized then Inl InvalidError else Inr normalized)"

definition encode_paths :: "string list \<Rightarrow> string" where
  "encode_paths paths = ''['' @ commas (map (\<lambda>p. CHR 0x22 # p @ [CHR 0x22]) paths) @ '']''"

definition decode_paths :: "json_env \<Rightarrow> octets \<Rightarrow> artifact_error + string list" where
  "decode_paths je stored =
     (case decode_strict_json je stored of
        Some (JArr vs) \<Rightarrow>
          (case normalize_paths (JArr vs) of Inl _ \<Rightarrow> Inl CorruptError | Inr ps \<Rightarrow> Inr ps)
      | _ \<Rightarrow> Inl CorruptError)"

section \<open>Values\<close>

definition parse_timestamp :: "string \<Rightarrow> int option" where
  "parse_timestamp value =
     Option.bind (take_civil ''T'' value) (\<lambda>((year, month, day, hour, minute, second), s).
     Option.bind (take_fraction s) (\<lambda>(fraction, s).
     Option.bind (take_zone ''Z'' s) (\<lambda>zone.
       if (case fraction of None \<Rightarrow> True | Some ds \<Rightarrow> length ds \<le> 9)
          \<and> valid_date year month day \<and> hour \<le> 23 \<and> minute \<le> 59 \<and> second \<le> 59
          \<and> (case zone of None \<Rightarrow> True | Some (_, oh, om) \<Rightarrow> oh \<le> 23 \<and> om \<le> 59)
       then let offset = (case zone of None \<Rightarrow> 0
                  | Some (sign, oh, om) \<Rightarrow> if sign = CHR ''-'' then - (oh * 60 + om) else oh * 60 + om)
            in Some (time_micros year month day hour minute second (micros_of fraction) - offset * 60000000)
       else None)))"

record extracted =
  ex_entries :: "(string \<times> string) list"
  ex_ts :: "int option"

fun path_value :: "json \<Rightarrow> string list \<Rightarrow> json" where
  "path_value v [] = v"
| "path_value (JObj d) (k # ks) = path_value (dget d k) ks"
| "path_value _ (k # ks) = path_value JNull ks"

fun distinct_strs :: "string list \<Rightarrow> json list \<Rightarrow> string list" where
  "distinct_strs seen [] = []"
| "distinct_strs seen (JStr s # vs) =
     (if s \<in> set seen then distinct_strs seen vs else s # distinct_strs (s # seen) vs)"
| "distinct_strs seen (_ # vs) = distinct_strs seen vs"

definition path_entries :: "json \<Rightarrow> string \<Rightarrow> (string \<times> string) list" where
  "path_entries root path =
     (case path_value root (split_dots path) of
        JStr s \<Rightarrow> [(path, s)]
      | JArr vs \<Rightarrow> map (\<lambda>s. (path, s)) (distinct_strs [] vs)
      | _ \<Rightarrow> [])"

definition extract_entries :: "json_env \<Rightarrow> octets \<Rightarrow> string list \<Rightarrow> artifact_error + extracted" where
  "extract_entries je capsule paths =
     (case decode_strict_json je capsule of
        None \<Rightarrow> Inl CorruptError
      | Some (JObj root) \<Rightarrow>
          Inr \<lparr>ex_entries = concat (map (path_entries (JObj root)) paths),
               ex_ts = (case dget root ''timestamp'' of JStr t \<Rightarrow> parse_timestamp t | _ \<Rightarrow> None)\<rparr>
      | Some _ \<Rightarrow> Inr \<lparr>ex_entries = [], ex_ts = None\<rparr>)"

section \<open>Queries\<close>

record checked =
  q_where :: "(string \<times> string) list"
  q_since :: "int option"
  q_after :: nat
  q_limit :: nat

definition MAX_CURSOR :: nat where "MAX_CURSOR = 2 ^ 63 - 1"

definition cursor_syntax :: "string \<Rightarrow> bool" where
  "cursor_syntax s \<longleftrightarrow> (case s of [] \<Rightarrow> False | c # r \<Rightarrow> is_digit c \<and> c \<noteq> CHR ''0'' \<and> list_all is_digit r)"

fun where_pairs :: "string list \<Rightarrow> dict \<Rightarrow> artifact_error + (string \<times> string) list" where
  "where_pairs declared [] = Inr []"
| "where_pairs declared ((path, v) # d) =
     (if path \<notin> set declared then Inl InvalidError
      else (case v of
              JStr s \<Rightarrow> sbind (where_pairs declared d) (\<lambda>ps. Inr ((path, s) # ps))
            | _ \<Rightarrow> Inl InvalidError))"

definition check_since :: "json \<Rightarrow> artifact_error + int option" where
  "check_since since =
     (if since = JNull \<or> since = JStr '''' then Inr None
      else (case since of
              JStr s \<Rightarrow> (case parse_timestamp s of None \<Rightarrow> Inl InvalidError | Some t \<Rightarrow> Inr (Some t))
            | _ \<Rightarrow> Inl InvalidError))"

text \<open>\<open>int(after)\<close> raises \<open>ValueError\<close> beyond the digit limit, before the bound is compared.\<close>

definition check_after :: "json_env \<Rightarrow> json \<Rightarrow> artifact_error + nat" where
  "check_after je after =
     (if after = JNull \<or> after = JStr '''' then Inr 0
      else (case after of
              JStr s \<Rightarrow>
                if \<not> cursor_syntax s then Inl InvalidError
                else if je_max_digits je < length s then Inl (OtherError ''ValueError'')
                else if MAX_CURSOR < digits_val s then Inl InvalidError
                else Inr (digits_val s)
            | _ \<Rightarrow> Inl InvalidError))"

definition check_query ::
    "json_env \<Rightarrow> json \<Rightarrow> json \<Rightarrow> json \<Rightarrow> json \<Rightarrow> string list \<Rightarrow> artifact_error + checked" where
  "check_query je whr since after limit declared =
     (case limit of
        JInt l \<Rightarrow>
          if l < 1 \<or> MAX_FIND_LIMIT < l then Inl InvalidError
          else sbind (case whr of JNull \<Rightarrow> Inr [] | JObj d \<Rightarrow> Inr d | _ \<Rightarrow> Inl InvalidError) (\<lambda>d.
               sbind (where_pairs declared d) (\<lambda>pairs.
               sbind (check_since since) (\<lambda>since_us.
               sbind (check_after je after) (\<lambda>position.
                 Inr \<lparr>q_where = sort_key fst pairs, q_since = since_us, q_after = position, q_limit = nat l\<rparr>))))
      | _ \<Rightarrow> Inl InvalidError)"

definition cursor :: "nat \<Rightarrow> string" where
  "cursor position = nat_str position"

section \<open>The in-memory index\<close>

record memory_index =
  x_paths :: "string list option"
  x_ids :: "string list"
  x_ts :: "int option list"
  x_values :: "string \<Rightarrow> string \<Rightarrow> nat list"
  x_position :: "string \<Rightarrow> nat option"

record page =
  pg_ids :: "string list"
  pg_next :: string

definition empty_index :: memory_index where
  "empty_index = \<lparr>x_paths = None, x_ids = [], x_ts = [], x_values = (\<lambda>_ _. []), x_position = (\<lambda>_. None)\<rparr>"

definition reset_index :: "string list \<Rightarrow> memory_index \<Rightarrow> memory_index" where
  "reset_index normalized ix =
     \<lparr>x_paths = Some normalized, x_ids = [], x_ts = [], x_values = (\<lambda>_ _. []), x_position = (\<lambda>_. None)\<rparr>"

definition declare_index :: "json \<Rightarrow> memory_index \<Rightarrow> artifact_error + (bool \<times> memory_index)" where
  "declare_index paths ix =
     sbind (normalize_paths paths) (\<lambda>normalized.
       (case x_paths ix of
          Some ps \<Rightarrow> if ps \<noteq> normalized then Inl ConflictError else Inr (False, ix)
        | None \<Rightarrow> Inr (True, reset_index normalized ix)))"

fun add_entries :: "nat \<Rightarrow> (string \<times> string) list \<Rightarrow> (string \<Rightarrow> string \<Rightarrow> nat list) \<Rightarrow> (string \<Rightarrow> string \<Rightarrow> nat list)" where
  "add_entries position [] values = values"
| "add_entries position ((path, v) # es) values =
     add_entries position es (values(path := (values path)(v := values path v @ [position])))"

definition add_index :: "json_env \<Rightarrow> string \<Rightarrow> octets \<Rightarrow> memory_index \<Rightarrow> artifact_error + memory_index" where
  "add_index je capsule_id capsule ix =
     (case x_paths ix of
        None \<Rightarrow> Inr ix
      | Some paths \<Rightarrow>
          if x_position ix capsule_id \<noteq> None then Inr ix
          else sbind (extract_entries je capsule paths) (\<lambda>e.
            let position = length (x_ids ix) + 1
            in Inr (ix\<lparr>x_ids := x_ids ix @ [capsule_id],
                       x_position := (x_position ix)(capsule_id \<mapsto> position),
                       x_ts := x_ts ix @ [ex_ts e],
                       x_values := add_entries position (ex_entries e) (x_values ix)\<rparr>)))"

text \<open>\<open>bisect.bisect_left\<close>.\<close>

function bisect_loop :: "nat list \<Rightarrow> nat \<Rightarrow> nat \<Rightarrow> nat \<Rightarrow> nat" where
  "bisect_loop xs x lo hi =
     (if lo < hi then
        let mid = (lo + hi) div 2
        in if xs ! mid < x then bisect_loop xs x (mid + 1) hi else bisect_loop xs x lo mid
      else lo)"
  by pat_completeness auto
termination by (relation "measure (\<lambda>(xs, x, lo, hi). hi - lo)") (auto simp: less_eq_Suc_le)

declare bisect_loop.simps [simp del]

definition bisect_left :: "nat list \<Rightarrow> nat \<Rightarrow> nat" where
  "bisect_left xs x = bisect_loop xs x 0 (length xs)"

definition index_matches :: "memory_index \<Rightarrow> checked \<Rightarrow> nat \<Rightarrow> bool" where
  "index_matches ix c p \<longleftrightarrow>
     (case q_since c of
        None \<Rightarrow> True
      | Some since \<Rightarrow> (case x_ts ix ! (p - 1) of None \<Rightarrow> False | Some ts \<Rightarrow> \<not> ts < since)) \<and>
     list_all (\<lambda>(path, v).
        let positions = x_values ix path v; i = bisect_left positions p
        in \<not> (i = length positions \<or> positions ! i \<noteq> p)) (drop 1 (q_where c))"

fun find_loop :: "(nat \<Rightarrow> bool) \<Rightarrow> (nat \<Rightarrow> string) \<Rightarrow> nat \<Rightarrow> string list \<Rightarrow> nat \<Rightarrow> nat list \<Rightarrow> page" where
  "find_loop match id_at limit ids last_pos [] = \<lparr>pg_ids = ids, pg_next = ''''\<rparr>"
| "find_loop match id_at limit ids last_pos (p # ps) =
     (if \<not> match p then find_loop match id_at limit ids last_pos ps
      else if length ids = limit then \<lparr>pg_ids = ids, pg_next = cursor last_pos\<rparr>
      else find_loop match id_at limit (ids @ [id_at p]) p ps)"

definition candidates :: "memory_index \<Rightarrow> checked \<Rightarrow> nat list" where
  "candidates ix c =
     (case q_where c of
        (path, v) # _ \<Rightarrow>
          (let positions = x_values ix path v in drop (bisect_left positions (q_after c + 1)) positions)
      | [] \<Rightarrow> [q_after c + 1 ..< length (x_ids ix) + 1])"

definition find_index :: "json_env \<Rightarrow> json \<Rightarrow> json \<Rightarrow> json \<Rightarrow> json \<Rightarrow> memory_index \<Rightarrow> artifact_error + page" where
  "find_index je whr since after limit ix =
     (case x_paths ix of
        None \<Rightarrow> Inl InvalidError
      | Some paths \<Rightarrow>
          sbind (check_query je whr since after limit paths) (\<lambda>c.
            Inr (find_loop (index_matches ix c) (\<lambda>p. x_ids ix ! (p - 1)) (q_limit c) [] 0 (candidates ix c))))"

section \<open>Binary search\<close>

lemma bisect_loop_range:
  assumes "sorted xs" "lo \<le> hi" "hi \<le> length xs" "\<forall>i < lo. xs ! i < x" "\<forall>i. hi \<le> i \<and> i < length xs \<longrightarrow> x \<le> xs ! i"
  shows "bisect_loop xs x lo hi \<le> length xs \<and> (\<forall>i < bisect_loop xs x lo hi. xs ! i < x) \<and>
    (\<forall>i. bisect_loop xs x lo hi \<le> i \<and> i < length xs \<longrightarrow> x \<le> xs ! i)"
  using assms
proof (induction xs x lo hi rule: bisect_loop.induct)
  case (1 xs x lo hi)
  show ?case
  proof (cases "lo < hi")
    case False
    with 1(3-) show ?thesis by (subst (1 2 3) bisect_loop.simps) auto
  next
    case True
    define mid where "mid = (lo + hi) div 2"
    have mid: "lo \<le> mid" "mid < hi" using True by (auto simp: mid_def)
    show ?thesis
    proof (cases "xs ! mid < x")
      case less: True
      have "\<forall>i < mid + 1. xs ! i < x"
      proof (intro allI impI)
        fix i assume "i < mid + 1"
        then have "xs ! i \<le> xs ! mid" using 1(3,5) mid by (intro sorted_nth_mono) auto
        with less show "xs ! i < x" by simp
      qed
      with 1(1) [OF True mid_def less 1(3) _ 1(5) _ 1(7)] mid True less show ?thesis
        by (subst (1 2 3) bisect_loop.simps) (simp add: Let_def flip: mid_def)
    next
      case False
      have "\<forall>i. mid \<le> i \<and> i < length xs \<longrightarrow> x \<le> xs ! i"
      proof (intro allI impI)
        fix i assume i: "mid \<le> i \<and> i < length xs"
        then have "xs ! mid \<le> xs ! i" using 1(3) by (intro sorted_nth_mono) auto
        with False show "x \<le> xs ! i" by simp
      qed
      with 1(2) [OF True mid_def False 1(3) _ _ 1(6)] mid True False 1(5) show ?thesis
        by (subst (1 2 3) bisect_loop.simps) (simp add: Let_def flip: mid_def)
    qed
  qed
qed

lemma bisect_left_split:
  assumes "sorted xs"
  shows "bisect_left xs x \<le> length xs" "\<forall>i < bisect_left xs x. xs ! i < x"
    "\<forall>i. bisect_left xs x \<le> i \<and> i < length xs \<longrightarrow> x \<le> xs ! i"
  using bisect_loop_range [OF assms, of 0 "length xs" x] by (simp_all add: bisect_left_def)

lemma bisect_left_member:
  assumes "sorted xs"
  shows "\<not> (bisect_left xs x = length xs \<or> xs ! bisect_left xs x \<noteq> x) \<longleftrightarrow> x \<in> set xs"
proof
  assume "\<not> (bisect_left xs x = length xs \<or> xs ! bisect_left xs x \<noteq> x)"
  with bisect_left_split(1) [OF assms, of x] show "x \<in> set xs" by (metis le_neq_implies_less nth_mem)
next
  assume "x \<in> set xs"
  then obtain j where j: "j < length xs" "xs ! j = x" by (auto simp: in_set_conv_nth)
  let ?i = "bisect_left xs x"
  have "?i \<le> j" using bisect_left_split(2) [OF assms, of x] j by (meson linorder_not_less nat_less_le)
  then have i: "?i < length xs" using j by simp
  then have "x \<le> xs ! ?i" using bisect_left_split(3) [OF assms, of x] by simp
  moreover have "xs ! ?i \<le> x" using assms \<open>?i \<le> j\<close> j by (metis sorted_nth_mono)
  ultimately show "\<not> (?i = length xs \<or> xs ! ?i \<noteq> x)" using i by simp
qed

lemma drop_bisect_left:
  assumes "sorted xs"
  shows "drop (bisect_left xs x) xs = filter (\<lambda>y. x \<le> y) xs"
proof -
  let ?i = "bisect_left xs x"
  have "filter (\<lambda>y. x \<le> y) (take ?i xs) = []"
    using bisect_left_split(1,2) [OF assms, of x] by (auto simp: filter_empty_conv in_set_conv_nth linorder_not_le)
  moreover have "filter (\<lambda>y. x \<le> y) (drop ?i xs) = drop ?i xs"
    using bisect_left_split(1,3) [OF assms, of x] by (auto simp: filter_id_conv in_set_conv_nth)
  ultimately show ?thesis
    by (metis append_self_conv2 append_take_drop_id filter_append)
qed

section \<open>What an index holds\<close>

text \<open>\<open>recs\<close> are the admitted records in order, each with what it contributes.\<close>

definition pos_list :: "nat \<Rightarrow> nat list" where
  "pos_list n = [1 ..< n + 1]"

lemma pos_list_simps [simp]:
  "pos_list 0 = []" "pos_list (Suc n) = pos_list n @ [Suc n]" "p \<in> set (pos_list n) \<longleftrightarrow> 0 < p \<and> p \<le> n"
  by (auto simp: pos_list_def)

lemma sorted_pos_list: "sorted (pos_list n)"
  unfolding pos_list_def by (rule sorted_upt)

definition holders :: "(string \<times> extracted) list \<Rightarrow> string \<Rightarrow> string \<Rightarrow> nat list" where
  "holders recs path v =
     filter (\<lambda>p. (path, v) \<in> set (ex_entries (snd (recs ! (p - 1))))) (pos_list (length recs))"

definition represents :: "memory_index \<Rightarrow> string list \<Rightarrow> (string \<times> extracted) list \<Rightarrow> bool" where
  "represents ix paths recs \<longleftrightarrow>
     x_paths ix = Some paths \<and> distinct paths \<and> distinct (map fst recs) \<and>
     x_ids ix = map fst recs \<and> x_ts ix = map (ex_ts \<circ> snd) recs \<and>
     (\<forall>i. x_position ix i \<noteq> None \<longleftrightarrow> i \<in> fst ` set recs) \<and>
     (\<forall>path v. x_values ix path v = holders recs path v)"

lemma sorted_holders: "sorted (holders recs path v)"
  unfolding holders_def by (rule sorted_wrt_filter) (rule sorted_pos_list)

lemma holders_append:
  "holders (recs @ [r]) path v =
     holders recs path v @ (if (path, v) \<in> set (ex_entries (snd r)) then [length recs + 1] else [])"
proof -
  have "filter (\<lambda>p. (path, v) \<in> set (ex_entries (snd ((recs @ [r]) ! (p - 1))))) (pos_list (length recs))
      = filter (\<lambda>p. (path, v) \<in> set (ex_entries (snd (recs ! (p - 1))))) (pos_list (length recs))"
    by (rule filter_cong) (auto simp: nth_append)
  then show ?thesis
    by (simp add: holders_def)
qed

lemma add_entries_distinct:
  "distinct es \<Longrightarrow> add_entries p es vs path v = vs path v @ (if (path, v) \<in> set es then [p] else [])"
  by (induction p es vs rule: add_entries.induct) (auto simp: fun_upd_def)

lemma distinct_strs_distinct: "distinct (distinct_strs seen vs) \<and> set (distinct_strs seen vs) \<inter> set seen = {}"
  by (induction seen vs rule: distinct_strs.induct) auto

lemma path_entries_distinct: "distinct (path_entries root path)"
  using distinct_strs_distinct [of "[]"] by (auto simp: path_entries_def distinct_map inj_on_def split: json.splits)

lemma path_entries_path: "x \<in> set (path_entries root path) \<Longrightarrow> fst x = path"
  by (auto simp: path_entries_def split: json.splits)

lemma extract_distinct:
  assumes "extract_entries je capsule paths = Inr e" "distinct paths"
  shows "distinct (ex_entries e)"
proof -
  have "distinct (concat (map (path_entries root) paths))" for root
    using assms(2)
  proof (induction paths)
    case Nil
    then show ?case by simp
  next
    case (Cons p ps)
    then have "distinct (concat (map (path_entries root) ps))" by simp
    moreover have "x \<notin> set (concat (map (path_entries root) ps))" if "x \<in> set (path_entries root p)" for x
    proof
      assume "x \<in> set (concat (map (path_entries root) ps))"
      then obtain q where "q \<in> set ps" "x \<in> set (path_entries root q)" by auto
      with that path_entries_path [of x root] have "p \<in> set ps" by metis
      with Cons.prems show False by simp
    qed
    moreover have "concat (map (path_entries root) (p # ps))
        = path_entries root p @ concat (map (path_entries root) ps)" by simp
    ultimately show ?case
      using path_entries_distinct [of root p] by (metis disjoint_iff distinct_append)
  qed
  with assms(1) show ?thesis
    by (auto simp: extract_entries_def split: option.splits json.splits)
qed

lemma reset_represents: "distinct paths \<Longrightarrow> represents (reset_index paths ix) paths []"
  by (simp add: represents_def reset_index_def holders_def)

lemma add_represents:
  assumes "represents ix paths recs" "i \<notin> fst ` set recs" "extract_entries je capsule paths = Inr e"
  shows "\<exists>ix'. add_index je i capsule ix = Inr ix' \<and> represents ix' paths (recs @ [(i, e)])"
proof -
  have "distinct (ex_entries e)"
    using assms(1,3) extract_distinct by (simp add: represents_def)
  with assms show ?thesis
    by (auto simp: represents_def add_index_def Let_def holders_append add_entries_distinct)
qed

lemma add_present:
  "represents ix paths recs \<Longrightarrow> i \<in> fst ` set recs \<Longrightarrow> add_index je i capsule ix = Inr ix"
  by (simp add: represents_def add_index_def)

section \<open>What a query returns\<close>

definition rec_matches :: "checked \<Rightarrow> string \<times> extracted \<Rightarrow> bool" where
  "rec_matches c r \<longleftrightarrow>
     (case q_since c of
        None \<Rightarrow> True | Some since \<Rightarrow> (case ex_ts (snd r) of None \<Rightarrow> False | Some ts \<Rightarrow> since \<le> ts)) \<and>
     set (q_where c) \<subseteq> set (ex_entries (snd r))"

definition hits :: "checked \<Rightarrow> nat \<Rightarrow> (string \<times> extracted) list \<Rightarrow> nat list" where
  "hits c a recs = filter (\<lambda>p. a < p \<and> rec_matches c (recs ! (p - 1))) (pos_list (length recs))"

definition page_of :: "checked \<Rightarrow> (string \<times> extracted) list \<Rightarrow> page" where
  "page_of c recs =
     (let ms = hits c (q_after c) recs
      in \<lparr>pg_ids = map (\<lambda>p. fst (recs ! (p - 1))) (take (q_limit c) ms),
          pg_next = (if q_limit c < length ms then cursor (ms ! (q_limit c - 1)) else '''')\<rparr>)"

lemma find_loop_filter: "find_loop m f l ids k ps = find_loop (\<lambda>_. True) f l ids k (filter m ps)"
  by (induction ps arbitrary: ids k) auto

lemma find_loop_page:
  assumes "length ids \<le> l" "ids = [] \<Longrightarrow> 0 < l"
  shows "find_loop (\<lambda>_. True) f l ids k ps =
    \<lparr>pg_ids = ids @ map f (take (l - length ids) ps),
     pg_next = (if l < length ids + length ps
                then cursor (if l = length ids then k else ps ! (l - length ids - 1)) else '''')\<rparr>"
  using assms
proof (induction ps arbitrary: ids k)
  case Nil
  then show ?case by simp
next
  case (Cons p ps)
  show ?case
  proof (cases "length ids = l")
    case True
    then show ?thesis by simp
  next
    case False
    with Cons.prems obtain m where l: "l = Suc (length ids + m)"
      using less_imp_Suc_add [of "length ids" l] by auto
    then have "length (ids @ [f p]) \<le> l" by simp
    from Cons.IH [OF this, of p] l show ?thesis
      by (cases m) (auto simp: nth_Cons')
  qed
qed

lemma index_matches_rec:
  assumes "represents ix paths recs" "0 < p" "p \<le> length recs"
    "q_where c \<noteq> [] \<Longrightarrow> hd (q_where c) \<in> set (ex_entries (snd (recs ! (p - 1))))"
  shows "index_matches ix c p \<longleftrightarrow> rec_matches c (recs ! (p - 1))"
proof -
  have ts: "x_ts ix ! (p - 1) = ex_ts (snd (recs ! (p - 1)))"
    using assms by (simp add: represents_def)
  have mem: "p \<in> set (holders recs path v) \<longleftrightarrow> (path, v) \<in> set (ex_entries (snd (recs ! (p - 1))))" for path v
    using assms by (auto simp: holders_def)
  have test: "(let positions = x_values ix path v; i = bisect_left positions p
        in \<not> (i = length positions \<or> positions ! i \<noteq> p))
      \<longleftrightarrow> (path, v) \<in> set (ex_entries (snd (recs ! (p - 1))))" for path v
    using assms(1) bisect_left_member [OF sorted_holders [of recs path v], of p] mem
    by (simp add: represents_def Let_def)
  have "list_all (\<lambda>(path, v). let positions = x_values ix path v; i = bisect_left positions p
        in \<not> (i = length positions \<or> positions ! i \<noteq> p)) (drop 1 (q_where c))
      \<longleftrightarrow> set (drop 1 (q_where c)) \<subseteq> set (ex_entries (snd (recs ! (p - 1))))"
    unfolding list_all_iff test by auto
  moreover have "set (q_where c) \<subseteq> S \<longleftrightarrow> set (drop 1 (q_where c)) \<subseteq> S" if "q_where c \<noteq> [] \<Longrightarrow> hd (q_where c) \<in> S" for S
    using that by (cases "q_where c") auto
  ultimately show ?thesis
    using assms(4) ts by (auto simp: index_matches_def rec_matches_def linorder_not_less split: option.splits)
qed

lemma find_index_page:
  assumes rep: "represents ix paths recs" and chk: "check_query je whr since after limit paths = Inr c"
    and pos: "0 < q_limit c"
  shows "find_index je whr since after limit ix = Inr (page_of c recs)"
proof -
  let ?f = "\<lambda>p. x_ids ix ! (p - 1)"
  have cand: "filter (index_matches ix c) (candidates ix c) = hits c (q_after c) recs"
  proof (cases "q_where c")
    case Nil
    have "candidates ix c = filter (\<lambda>p. q_after c < p) (pos_list (length recs))"
    proof -
      have "[q_after c + 1 ..< n + 1] = filter (\<lambda>p. q_after c < p) (pos_list n)" for n
        by (induction n) auto
      with Nil rep show ?thesis by (simp add: candidates_def represents_def)
    qed
    moreover have "index_matches ix c p \<longleftrightarrow> rec_matches c (recs ! (p - 1))" if "p \<in> set (pos_list (length recs))" for p
      using that Nil by (intro index_matches_rec [OF rep]) auto
    ultimately show ?thesis
      by (auto simp: hits_def intro!: filter_cong)
  next
    case (Cons q qs)
    obtain path v where q: "q = (path, v)" by fastforce
    have "candidates ix c = filter (\<lambda>p. q_after c < p) (holders recs path v)"
      using Cons q rep by (simp add: candidates_def represents_def drop_bisect_left sorted_holders Suc_le_eq)
    moreover have "index_matches ix c p \<longleftrightarrow> rec_matches c (recs ! (p - 1))"
      if "p \<in> set (pos_list (length recs))" "(path, v) \<in> set (ex_entries (snd (recs ! (p - 1))))" for p
      using that Cons q by (intro index_matches_rec [OF rep]) auto
    moreover have "(path, v) \<in> set (ex_entries (snd (recs ! k)))" if "rec_matches c (recs ! k)" for k
      using that Cons q by (simp add: rec_matches_def)
    ultimately show ?thesis
      by (auto simp: hits_def holders_def intro!: filter_cong)
  qed
  have "map ?f (take n (hits c a recs)) = map (\<lambda>p. fst (recs ! (p - 1))) (take n (hits c a recs))" for n a
    using rep by (auto simp: represents_def hits_def dest!: in_set_takeD)
  with rep chk cand pos show ?thesis
    by (simp add: find_index_def represents_def find_loop_filter [of "index_matches ix c"] find_loop_page page_of_def
        Let_def)
qed

section \<open>Paging\<close>

text \<open>A reader that follows \<open>next\<close> until it is empty.  \<open>fuel\<close> bounds the number of pages.\<close>

fun walk_pages ::
    "nat \<Rightarrow> json_env \<Rightarrow> json \<Rightarrow> json \<Rightarrow> json \<Rightarrow> json \<Rightarrow> memory_index \<Rightarrow> artifact_error + string list" where
  "walk_pages 0 je whr since after limit ix = Inl (OtherError ''fuel'')"
| "walk_pages (Suc fuel) je whr since after limit ix =
     sbind (find_index je whr since after limit ix) (\<lambda>pg.
       if pg_next pg = '''' then Inr (pg_ids pg)
       else sbind (walk_pages fuel je whr since (JStr (pg_next pg)) limit ix) (\<lambda>ids. Inr (pg_ids pg @ ids)))"

lemma cursor_nonempty [simp]: "cursor p \<noteq> []"
  by (simp add: cursor_def)

lemma check_after_cursor:
  assumes "0 < p" "p \<le> MAX_CURSOR" "length (nat_str p) \<le> je_max_digits je"
  shows "check_after je (JStr (cursor p)) = Inr p"
proof -
  obtain c t where ct: "nat_str p = c # t" by (cases "nat_str p") auto
  with nat_str_digits [of p] hd_nat_str [OF assms(1)] have "cursor_syntax (nat_str p)"
    by (simp add: cursor_syntax_def)
  with assms show ?thesis by (simp add: check_after_def cursor_def)
qed

lemma check_query_after:
  assumes "check_query je whr since after limit paths = Inr c" "check_after je after' = Inr a"
  shows "check_query je whr since after' limit paths = Inr (c\<lparr>q_after := a\<rparr>)"
  using assms by (auto simp: check_query_def res_simps split: json.splits if_splits)

lemma check_query_facts:
  assumes "check_query je whr since after limit paths = Inr c"
  shows "0 < q_limit c" "check_after je after = Inr (q_after c)" "fst ` set (q_where c) \<subseteq> set paths"
proof -
  have "where_pairs declared d = Inr ps \<Longrightarrow> fst ` set ps \<subseteq> set declared" for declared d ps
    by (induction declared d arbitrary: ps rule: where_pairs.induct)
       (fastforce simp: res_simps split: json.splits if_splits)+
  then have pairs: "where_pairs declared d = Inr ps \<Longrightarrow> x \<in> set ps \<Longrightarrow> fst x \<in> set declared" for declared d ps x
    by blast
  from assms show "0 < q_limit c" "check_after je after = Inr (q_after c)" "fst ` set (q_where c) \<subseteq> set paths"
    by (auto simp: check_query_def res_simps dest: pairs split: json.splits if_splits)
qed

definition hit_ids :: "(string \<times> extracted) list \<Rightarrow> nat list \<Rightarrow> string list" where
  "hit_ids recs ps = map (\<lambda>p. fst (recs ! (p - 1))) ps"

lemma hits_sorted: "sorted (hits c a recs)"
  unfolding hits_def by (rule sorted_wrt_filter) (rule sorted_pos_list)

lemma hits_distinct: "distinct (hits c a recs)"
  unfolding hits_def pos_list_def by (rule distinct_filter) (rule distinct_upt)

lemma hits_after_update [simp]: "hits (c\<lparr>q_after := b\<rparr>) a recs = hits c a recs"
  by (simp add: hits_def rec_matches_def)

lemma drop_sorted_filter:
  assumes "sorted xs" "distinct xs" "k < length xs"
  shows "drop (Suc k) xs = filter (\<lambda>p. xs ! k < p) xs"
proof -
  have s: "sorted_wrt (<) xs" using assms(1,2) by (simp add: strict_sorted_iff)
  have "filter (\<lambda>p. xs ! k < p) (take (Suc k) xs) = []"
    using s assms(3)
    by (auto simp: filter_empty_conv in_set_conv_nth not_less less_Suc_eq_le sorted_wrt_iff_nth_less le_less)
  moreover have "filter (\<lambda>p. xs ! k < p) (drop (Suc k) xs) = drop (Suc k) xs"
    using s assms(3) by (auto simp: filter_id_conv in_set_conv_nth sorted_wrt_iff_nth_less)
  ultimately show ?thesis
    by (metis append_self_conv2 append_take_drop_id filter_append)
qed

lemma hits_drop:
  assumes "k < length (hits c a recs)"
  shows "hits c (hits c a recs ! k) recs = drop (Suc k) (hits c a recs)"
proof -
  have "hits c a recs ! k \<in> set (hits c a recs)" using assms by (rule nth_mem)
  then have "a < hits c a recs ! k" by (simp add: hits_def)
  then have "hits c (hits c a recs ! k) recs = filter (\<lambda>p. hits c a recs ! k < p) (hits c a recs)"
    by (auto simp: hits_def intro!: filter_cong)
  with drop_sorted_filter [OF hits_sorted hits_distinct assms] show ?thesis by simp
qed

lemma walk_pages_hits:
  assumes rep: "represents ix paths recs" and small: "length recs \<le> MAX_CURSOR"
    and digits: "\<And>p. p \<le> length recs \<Longrightarrow> length (nat_str p) \<le> je_max_digits je"
    and chk: "check_query je whr since after limit paths = Inr c"
    and fuel: "length (hits c (q_after c) recs) < fuel"
  shows "walk_pages fuel je whr since after limit ix = Inr (hit_ids recs (hits c (q_after c) recs))"
  using chk fuel
proof (induction fuel arbitrary: after c)
  case 0
  then show ?case by simp
next
  case (Suc fuel)
  let ?ms = "hits c (q_after c) recs" and ?l = "q_limit c"
  note l = check_query_facts(1) [OF Suc.prems(1)]
  have pg: "find_index je whr since after limit ix = Inr (page_of c recs)"
    by (rule find_index_page [OF rep Suc.prems(1) l])
  show ?case
  proof (cases "?l < length ?ms")
    case False
    with pg show ?thesis by (simp add: page_of_def Let_def hit_ids_def)
  next
    case True
    define p where "p = ?ms ! (?l - 1)"
    have k: "?l - 1 < length ?ms" using True by simp
    then have "p \<in> set ?ms" unfolding p_def by (rule nth_mem)
    then have p: "0 < p" "p \<le> length recs" by (simp_all add: hits_def)
    with small digits have "check_after je (JStr (cursor p)) = Inr p" by (intro check_after_cursor) auto
    from check_query_after [OF Suc.prems(1) this]
    have chk': "check_query je whr since (JStr (cursor p)) limit paths = Inr (c\<lparr>q_after := p\<rparr>)" .
    have ms: "hits c p recs = drop ?l ?ms"
      using hits_drop [OF k] l by (simp add: p_def)
    then have "length (hits (c\<lparr>q_after := p\<rparr>) (q_after (c\<lparr>q_after := p\<rparr>)) recs) < fuel"
      using True Suc.prems(2) l by simp
    from Suc.IH [OF chk' this] ms
    have "walk_pages fuel je whr since (JStr (cursor p)) limit ix = Inr (hit_ids recs (drop ?l ?ms))" by simp
    moreover have "pg_next (page_of c recs) = cursor p" "pg_ids (page_of c recs) = hit_ids recs (take ?l ?ms)"
      using True by (simp_all add: page_of_def Let_def p_def hit_ids_def)
    moreover have "hit_ids recs (take ?l ?ms) @ hit_ids recs (drop ?l ?ms) = hit_ids recs ?ms"
      by (simp add: hit_ids_def flip: map_append)
    ultimately show ?thesis using pg by simp
  qed
qed

section \<open>The stored declaration\<close>

lemma split_dots_chars: "set s \<subseteq> insert (CHR ''.'') (\<Union> (set ` set (split_dots s)))"
proof (induction s)
  case Nil
  then show ?case by simp
next
  case (Cons c s)
  then show ?case by (cases "split_dots s") auto
qed

lemma valid_path_chars:
  assumes "valid_path (JStr p)" "c \<in> set p"
  shows "is_alnum c \<or> c = CHR ''_'' \<or> c = CHR ''-'' \<or> c = CHR ''.''"
  using assms split_dots_chars [of p]
  by (auto simp: valid_path_def valid_segment_def list_all_iff)

lemma valid_path_plain:
  assumes "valid_path (JStr p)"
  shows "concat (map esc_char p) = p"
proof -
  note ok = valid_path_chars [OF assms]
  have "esc_char c = [c]" if "c \<in> set p" for c
  proof -
    have "\<not> is_alnum (CHR 0x22)" "\<not> is_alnum (CHR 0x5C)" by code_simp+
    moreover have "\<not> byte c < 32"
      using ok [OF that] by (auto simp: is_alnum_def is_digit_def is_lower_def is_upper_def)
    ultimately show ?thesis
      using ok [OF that] by (cases c rule: esc_char_cases) (auto simp: escape_of_def esc_char_def split: if_splits)
  qed
  then show ?thesis by (induction p) auto
qed

lemma normalize_paths_facts:
  assumes "normalize_paths v = Inr ps"
  shows "distinct ps" "sorted ps" "length ps \<le> MAX_INDEX_PATHS" "\<forall>p \<in> set ps. valid_path (JStr p)"
proof -
  from assms obtain vs where list: "path_list v = Inr vs"
    by (auto simp: normalize_paths_def res_simps)
  with assms have vs: "length vs \<le> MAX_INDEX_PATHS" "list_all valid_path vs" "ps = sort (map str_of vs)" "distinct ps"
    by (auto simp: normalize_paths_def Let_def split: if_splits)
  have "valid_path (JStr (str_of v))" if "valid_path v" for v
    using that by (cases v) (auto simp: valid_path_def)
  with vs show "distinct ps" "sorted ps" "length ps \<le> MAX_INDEX_PATHS" "\<forall>p \<in> set ps. valid_path (JStr p)"
    by (auto simp: list_all_iff)
qed

lemma encode_paths_dumps:
  assumes "\<forall>p \<in> set ps. valid_path (JStr p)"
  shows "encode_paths ps = json_dumps (JArr (map JStr ps))"
proof -
  have "map (\<lambda>p. CHR 0x22 # p @ [CHR 0x22]) ps = map (\<lambda>p. quote p) ps"
    using assms valid_path_plain by (auto simp: quote_def)
  then have "commas (map (\<lambda>p. CHR 0x22 # p @ [CHR 0x22]) ps) = commas (map quote ps)"
    by (simp del: map_eq_conv)
  then show ?thesis by (simp add: encode_paths_def comp_def)
qed

lemma valid_path_ascii:
  assumes "valid_path (JStr p)"
  shows "utf8_ok p"
proof (rule utf8_ok_ascii)
  have alnum: "is_alnum c \<Longrightarrow> byte c < 128" for c
    by (auto simp: is_alnum_def is_digit_def is_lower_def is_upper_def)
  have "byte c < 128" if "c \<in> set p" for c
    using valid_path_chars [OF assms that] alnum [of c] by auto
  then show "list_all (\<lambda>c. byte c < 128) p" by (simp add: list_all_iff)
qed

lemma map_str_of: "map (str_of \<circ> JStr) ps = ps"
  by (induction ps) simp_all

lemma decode_encode_paths:
  assumes "normalize_paths v = Inr ps"
  shows "decode_paths je (encode_paths ps) = Inr ps"
proof -
  note ps = normalize_paths_facts [OF assms]
  have depth: "json_depth (JArr (map JStr qs)) \<le> 2" for qs by (induction qs) simp_all
  have plain: "json_plain (je_max_digits je) (JArr (map JStr ps))" by (simp add: list_all_iff)
  have utf8: "json_utf8 (JArr (map JStr ps))"
    using ps(4) valid_path_ascii by (simp add: list_all_iff)
  have small: "json_depth (JArr (map JStr ps)) \<le> MAX_JSON_DEPTH"
    using depth [of ps] by (simp add: MAX_JSON_DEPTH_def)
  have "decode_strict_json je (encode_paths ps) = Some (JArr (map JStr ps))"
    unfolding encode_paths_dumps [OF ps(4)] by (rule decode_dumps [OF plain utf8 small])
  moreover have "normalize_paths (JArr (map JStr ps)) = Inr ps"
    using ps by (simp add: normalize_paths_def path_list_def map_str_of sorted_sort_id list_all_iff)
  ultimately show ?thesis by (simp add: decode_paths_def)
qed

end
