(* ===== verification/Artifact_Memory.thy ===== *)
theory Artifact_Memory
  imports Artifact_Store Artifact_Index
begin

text \<open>
  \<open>artifact/memory.py\<close>: records by capsule id, the admission order and the in-memory index.  The store
  keeps the contract of \<open>Artifact_Store\<close>, and its index answers every query with the admitted records
  that match, in admission order.
\<close>

section \<open>The store\<close>

record mem_store =
  ms_records :: "string \<Rightarrow> art_record option"
  ms_order :: "string list"
  ms_lookup :: memory_index

definition mem_empty :: mem_store where
  "mem_empty = \<lparr>ms_records = Map.empty, ms_order = [], ms_lookup = empty_index\<rparr>"

definition mem_new :: "string \<Rightarrow> octets list \<Rightarrow> artifact_error + (octets list \<times> mem_store)" where
  "mem_new namespace trusted =
     sbind (check_store_config namespace trusted) (\<lambda>keys. Inr (keys, mem_empty))"

text \<open>In \<open>put\<close> the record is entered before it is indexed; indexing a verified record does not raise
  (\<open>admitted_extract\<close>), so the failure branch leaves nothing to undo.\<close>

definition mem_put :: "artifact_ext \<Rightarrow> octets list \<Rightarrow> art_record \<Rightarrow> mem_store \<Rightarrow> artifact_error + mem_store" where
  "mem_put ax trusted r s =
     sbind (prepare ax r) (\<lambda>prepared.
     sbind (verify_record ax trusted prepared) (\<lambda>_.
     let checksum = storage_checksum ax prepared
     in (case ms_records s (ar_capsule_id prepared) of
           None \<Rightarrow>
             sbind (add_index (ax_json ax) (ar_capsule_id prepared) (ar_capsule prepared) (ms_lookup s)) (\<lambda>ix.
               Inr (s\<lparr>ms_records := (ms_records s)(ar_capsule_id prepared \<mapsto> prepared),
                      ms_order := ms_order s @ [ar_capsule_id prepared], ms_lookup := ix\<rparr>))
         | Some existing \<Rightarrow>
             if storage_checksum ax existing \<noteq> checksum then Inl ConflictError
             else if has_purged existing then Inl PurgedError
             else Inr s)))"

definition mem_get :: "artifact_ext \<Rightarrow> octets list \<Rightarrow> string \<Rightarrow> mem_store \<Rightarrow> artifact_error + art_record" where
  "mem_get ax trusted i s =
     (if \<not> valid_id i then Inl InvalidError
      else (case ms_records s i of
              None \<Rightarrow> Inl NotFoundError
            | Some stored \<Rightarrow> sbind (verify_record ax trusted stored) (\<lambda>_. Inr stored)))"

definition mem_purge :: "string \<Rightarrow> mem_store \<Rightarrow> artifact_error + mem_store" where
  "mem_purge i s =
     (if \<not> valid_id i then Inl InvalidError
      else (case ms_records s i of
              None \<Rightarrow> Inl NotFoundError
            | Some stored \<Rightarrow> Inr (s\<lparr>ms_records := (ms_records s)(i \<mapsto> purged_copy stored)\<rparr>)))"

definition index_all :: "artifact_ext \<Rightarrow> mem_store \<Rightarrow> memory_index \<Rightarrow> artifact_error + memory_index" where
  "index_all ax s ix =
     foldM_r (\<lambda>ix i. add_index (ax_json ax) i (ar_capsule (the (ms_records s i))) ix) ix (ms_order s)"

definition mem_init_index :: "artifact_ext \<Rightarrow> json \<Rightarrow> mem_store \<Rightarrow> artifact_error + mem_store" where
  "mem_init_index ax paths s =
     sbind (declare_index paths (ms_lookup s)) (\<lambda>(fresh, ix).
       if fresh then sbind (index_all ax s ix) (\<lambda>ix'. Inr (s\<lparr>ms_lookup := ix'\<rparr>)) else Inr s)"

definition mem_reindex :: "artifact_ext \<Rightarrow> json \<Rightarrow> mem_store \<Rightarrow> artifact_error + mem_store" where
  "mem_reindex ax paths s =
     sbind (normalize_paths paths) (\<lambda>normalized.
     sbind (index_all ax s (reset_index normalized (ms_lookup s))) (\<lambda>ix.
       Inr (s\<lparr>ms_lookup := ix\<rparr>)))"

definition mem_find :: "artifact_ext \<Rightarrow> json \<Rightarrow> json \<Rightarrow> json \<Rightarrow> json \<Rightarrow> mem_store \<Rightarrow> artifact_error + page" where
  "mem_find ax whr since after limit s = find_index (ax_json ax) whr since after limit (ms_lookup s)"

section \<open>The invariant\<close>

definition admitted :: "artifact_ext \<Rightarrow> octets list \<Rightarrow> art_record \<Rightarrow> bool" where
  "admitted ax trusted r \<longleftrightarrow> prepared_ok ax r \<and> (\<exists>res. verify_record ax trusted r = Inr res)"

definition mem_recs :: "artifact_ext \<Rightarrow> string list \<Rightarrow> mem_store \<Rightarrow> (string \<times> extracted) list" where
  "mem_recs ax paths s =
     map (\<lambda>i. (i, projr (extract_entries (ax_json ax) (ar_capsule (the (ms_records s i))) paths))) (ms_order s)"

definition index_ok :: "artifact_ext \<Rightarrow> mem_store \<Rightarrow> bool" where
  "index_ok ax s \<longleftrightarrow>
     (case x_paths (ms_lookup s) of
        None \<Rightarrow> ms_lookup s = empty_index
      | Some paths \<Rightarrow> represents (ms_lookup s) paths (mem_recs ax paths s))"

definition mem_inv :: "artifact_ext \<Rightarrow> octets list \<Rightarrow> mem_store \<Rightarrow> bool" where
  "mem_inv ax trusted s \<longleftrightarrow>
     distinct (ms_order s) \<and> set (ms_order s) = dom (ms_records s) \<and>
     (\<forall>i r. ms_records s i = Some r \<longrightarrow> ar_capsule_id r = i \<and> admitted ax trusted r) \<and> index_ok ax s"

lemma admit_admitted: "admit ax trusted r = Inr p \<Longrightarrow> admitted ax trusted p \<and> \<not> has_purged p"
  by (auto simp: admit_def admitted_def res_simps dest: prepare_ok)

lemma admitted_purged: "admitted ax trusted r \<Longrightarrow> sha_ok ax \<Longrightarrow> admitted ax trusted (purged_copy r)"
  using verify_purged by (force simp: admitted_def prepared_ok_def purged_copy_def purge_artifact_def)

lemma admitted_extract:
  assumes "admitted ax trusted r"
  obtains e where "extract_entries (ax_json ax) (ar_capsule r) paths = Inr e"
proof -
  from assms obtain v where "decode_strict_json (ax_json ax) (ar_capsule r) = Some v"
    by (auto simp: admitted_def verify_record_def verified_capsule_def decode_json_def res_simps split: option.splits)
  then show thesis
    by (cases v) (auto simp: extract_entries_def intro: that)
qed

lemma mem_empty_inv: "mem_inv ax trusted mem_empty"
  by (simp add: mem_inv_def mem_empty_def index_ok_def empty_index_def)

lemma mem_put_cases:
  assumes "mem_put ax trusted r s = Inr s'"
  obtains (new) p ix where "admit ax trusted r = Inr p" "ms_records s (ar_capsule_id p) = None"
      "add_index (ax_json ax) (ar_capsule_id p) (ar_capsule p) (ms_lookup s) = Inr ix"
      "s' = s\<lparr>ms_records := (ms_records s)(ar_capsule_id p \<mapsto> p),
              ms_order := ms_order s @ [ar_capsule_id p], ms_lookup := ix\<rparr>"
  | (again) p old where "admit ax trusted r = Inr p" "ms_records s (ar_capsule_id p) = Some old" "s' = s"
      "storage_checksum ax old = storage_checksum ax p" "\<not> has_purged old"
proof -
  from assms obtain p v where p: "prepare ax r = Inr p" "verify_record ax trusted p = Inr v"
    by (auto simp: mem_put_def res_simps)
  then have adm: "admit ax trusted r = Inr p" by (simp add: admit_def)
  show thesis
  proof (cases "ms_records s (ar_capsule_id p)")
    case None
    with assms p obtain ix where "add_index (ax_json ax) (ar_capsule_id p) (ar_capsule p) (ms_lookup s) = Inr ix"
        "s' = s\<lparr>ms_records := (ms_records s)(ar_capsule_id p \<mapsto> p),
                ms_order := ms_order s @ [ar_capsule_id p], ms_lookup := ix\<rparr>"
      by (auto simp: mem_put_def Let_def res_simps)
    with new adm None show thesis by blast
  next
    case (Some old)
    with assms p have "s' = s" "storage_checksum ax old = storage_checksum ax p" "\<not> has_purged old"
      by (auto simp: mem_put_def Let_def split: if_splits)
    with again adm Some show thesis by blast
  qed
qed

lemma mem_recs_put:
  assumes "ms_records s i = None" "set (ms_order s) = dom (ms_records s)"
  shows "mem_recs ax paths (s\<lparr>ms_records := (ms_records s)(i \<mapsto> p), ms_order := ms_order s @ [i], ms_lookup := ix\<rparr>)
    = mem_recs ax paths s @ [(i, projr (extract_entries (ax_json ax) (ar_capsule p) paths))]"
  using assms by (auto simp: mem_recs_def)

lemma mem_put_inv:
  assumes "mem_inv ax trusted s" "mem_put ax trusted r s = Inr s'"
  shows "mem_inv ax trusted s'"
  using assms(2)
proof (cases rule: mem_put_cases)
  case (new p ix)
  let ?i = "ar_capsule_id p"
  note p = admit_admitted [OF new(1)]
  have dom: "?i \<notin> set (ms_order s)"
    using assms(1) new(2) by (auto simp: mem_inv_def)
  have "index_ok ax s'"
  proof (cases "x_paths (ms_lookup s)")
    case None
    with new assms(1) show ?thesis
      by (auto simp: index_ok_def mem_inv_def add_index_def)
  next
    case (Some paths)
    obtain e where e: "extract_entries (ax_json ax) (ar_capsule p) paths = Inr e"
      using admitted_extract p by blast
    have rep: "represents (ms_lookup s) paths (mem_recs ax paths s)"
      using assms(1) Some by (simp add: mem_inv_def index_ok_def)
    have "?i \<notin> fst ` set (mem_recs ax paths s)"
      using dom by (auto simp: mem_recs_def)
    from add_represents [OF rep this e] new(3)
    have "represents ix paths (mem_recs ax paths s @ [(?i, e)])" by simp
    moreover have "mem_recs ax paths s' = mem_recs ax paths s @ [(?i, e)]"
      unfolding new(4) using mem_recs_put [OF new(2)] assms(1) e by (simp add: mem_inv_def)
    ultimately show ?thesis
      using new(4) by (simp add: index_ok_def represents_def)
  qed
  with assms(1) new p dom show ?thesis
    by (auto simp: mem_inv_def)
next
  case again
  with assms(1) show ?thesis by simp
qed

lemma mem_purge_cases:
  assumes "mem_purge i s = Inr s'"
  obtains r where "ms_records s i = Some r" "s' = s\<lparr>ms_records := (ms_records s)(i \<mapsto> purged_copy r)\<rparr>"
  using assms by (auto simp: mem_purge_def split: option.splits if_splits)

lemma mem_purge_inv:
  assumes "mem_inv ax trusted s" "sha_ok ax" "mem_purge i s = Inr s'"
  shows "mem_inv ax trusted s'"
proof -
  obtain r where r: "ms_records s i = Some r" and s': "s' = s\<lparr>ms_records := (ms_records s)(i \<mapsto> purged_copy r)\<rparr>"
    using assms(3) by (rule mem_purge_cases)
  have "mem_recs ax paths s' = mem_recs ax paths s" for paths
    using r by (simp add: mem_recs_def s')
  then have "index_ok ax s'"
    using assms(1) by (simp add: s' index_ok_def mem_inv_def split: option.splits)
  with assms(1,2) r show ?thesis
    by (auto simp: mem_inv_def s' admitted_purged)
qed

interpretation mem: artifact_store ax trusted "\<lambda>s. sha_ok ax \<and> mem_inv ax trusted s" ms_records
    "mem_put ax trusted" "mem_get ax trusted" mem_purge
  for ax trusted
proof unfold_locales
  fix s s' :: mem_store and r p old i
  assume inv: "sha_ok ax \<and> mem_inv ax trusted s"
  show "\<exists>p. admit ax trusted r = Inr p" if "mem_put ax trusted r s = Inr s'"
    using that by (rule mem_put_cases) auto
  show "ms_records s' = (ms_records s)(ar_capsule_id p \<mapsto> p)"
    if "mem_put ax trusted r s = Inr s'" "admit ax trusted r = Inr p" "ms_records s (ar_capsule_id p) = None"
    using that(1) by (cases rule: mem_put_cases) (use that in auto)
  show "ms_records s' = ms_records s \<and> storage_checksum ax old = storage_checksum ax p \<and> \<not> has_purged old"
    if "mem_put ax trusted r s = Inr s'" "admit ax trusted r = Inr p" "ms_records s (ar_capsule_id p) = Some old"
    using that(1) by (cases rule: mem_put_cases) (use that in auto)
  show "\<exists>r. ms_records s i = Some r \<and> ms_records s' = (ms_records s)(i \<mapsto> purged_copy r)" if "mem_purge i s = Inr s'"
    using that by (rule mem_purge_cases) auto
  show "ms_records s i = Some r \<and> (\<exists>res. verify_record ax trusted r = Inr res)" if "mem_get ax trusted i s = Inr r"
    using that by (auto simp: mem_get_def res_simps split: option.splits if_splits)
  show "sha_ok ax \<and> mem_inv ax trusted s'" if "mem_put ax trusted r s = Inr s'"
    using inv that mem_put_inv by blast
  show "sha_ok ax \<and> mem_inv ax trusted s'" if "mem_purge i s = Inr s'"
    using inv that mem_purge_inv by blast
qed

section \<open>Indexing what is stored\<close>

lemma index_all_represents:
  assumes "mem_inv ax trusted s" "distinct paths"
  shows "\<exists>ix'. index_all ax s (reset_index paths ix) = Inr ix' \<and> represents ix' paths (mem_recs ax paths s)"
proof -
  define add where "add = (\<lambda>ix i. add_index (ax_json ax) i (ar_capsule (the (ms_records s i))) ix)"
  define rec_of where "rec_of = (\<lambda>i. (i, projr (extract_entries (ax_json ax) (ar_capsule (the (ms_records s i))) paths)))"
  have "\<exists>ix'. foldM_r add ix is = Inr ix' \<and> represents ix' paths (recs @ map rec_of is)"
    if "represents ix paths recs" "distinct is" "set is \<inter> fst ` set recs = {}" "set is \<subseteq> dom (ms_records s)" for ix recs "is"
    using that
  proof (induction "is" arbitrary: ix recs)
    case Nil
    then show ?case by simp
  next
    case (Cons i js)
    obtain r where r: "ms_records s i = Some r" using Cons.prems(4) by auto
    then obtain e where e: "extract_entries (ax_json ax) (ar_capsule r) paths = Inr e"
      using assms(1) admitted_extract by (metis mem_inv_def)
    have "i \<notin> fst ` set recs" using Cons.prems(3) by auto
    from add_represents [OF Cons.prems(1) this e] obtain ix1 where ix1:
        "add_index (ax_json ax) i (ar_capsule r) ix = Inr ix1" "represents ix1 paths (recs @ [(i, e)])" by blast
    have "\<exists>ix'. foldM_r add ix1 js = Inr ix' \<and> represents ix' paths ((recs @ [(i, e)]) @ map rec_of js)"
      using Cons.prems by (intro Cons.IH [OF ix1(2)]) auto
    moreover have "add ix i = Inr ix1" "rec_of i = (i, e)"
      using r e ix1(1) by (simp_all add: add_def rec_of_def)
    ultimately show ?case by simp
  qed
  from this [OF reset_represents [OF assms(2)], of "ms_order s"] assms(1) show ?thesis
    by (auto simp: index_all_def mem_recs_def mem_inv_def add_def rec_of_def)
qed

lemma mem_init_index_inv:
  assumes "mem_inv ax trusted s" "mem_init_index ax paths s = Inr s'"
  shows "mem_inv ax trusted s' \<and> ms_records s' = ms_records s \<and> ms_order s' = ms_order s \<and> x_paths (ms_lookup s') \<noteq> None"
proof (cases "x_paths (ms_lookup s)")
  case None
  from assms(2) None obtain ps ix where ps: "normalize_paths paths = Inr ps" "index_all ax s (reset_index ps (ms_lookup s)) = Inr ix"
      "s' = s\<lparr>ms_lookup := ix\<rparr>"
    by (auto simp: mem_init_index_def declare_index_def res_simps)
  from index_all_represents [OF assms(1) normalize_paths_facts(1) [OF ps(1)], of "ms_lookup s"] ps(2)
  have "represents ix ps (mem_recs ax ps s)" by simp
  moreover have "mem_recs ax ps s' = mem_recs ax ps s" by (simp add: mem_recs_def ps(3))
  ultimately show ?thesis
    using assms(1) ps(3) by (simp add: mem_inv_def index_ok_def represents_def)
next
  case (Some qs)
  with assms show ?thesis
    by (auto simp: mem_init_index_def declare_index_def res_simps split: if_splits)
qed

lemma mem_reindex_inv:
  assumes "mem_inv ax trusted s" "mem_reindex ax paths s = Inr s'"
  shows "mem_inv ax trusted s' \<and> ms_records s' = ms_records s \<and> ms_order s' = ms_order s"
proof -
  from assms(2) obtain ps ix where ps: "normalize_paths paths = Inr ps" "index_all ax s (reset_index ps (ms_lookup s)) = Inr ix"
      "s' = s\<lparr>ms_lookup := ix\<rparr>"
    by (auto simp: mem_reindex_def res_simps)
  from index_all_represents [OF assms(1) normalize_paths_facts(1) [OF ps(1)], of "ms_lookup s"] ps(2)
  have "represents ix ps (mem_recs ax ps s)" by simp
  moreover have "mem_recs ax ps s' = mem_recs ax ps s" by (simp add: mem_recs_def ps(3))
  ultimately show ?thesis
    using assms(1) ps(3) by (simp add: mem_inv_def index_ok_def represents_def)
qed

section \<open>Histories with index calls\<close>

datatype mem_op = MPut art_record | MPurge string | MInitIndex json | MReindex json

fun mem_step :: "artifact_ext \<Rightarrow> octets list \<Rightarrow> mem_op \<Rightarrow> mem_store \<Rightarrow> mem_store" where
  "mem_step ax trusted (MPut r) s = (case mem_put ax trusted r s of Inl _ \<Rightarrow> s | Inr s' \<Rightarrow> s')"
| "mem_step ax trusted (MPurge i) s = (case mem_purge i s of Inl _ \<Rightarrow> s | Inr s' \<Rightarrow> s')"
| "mem_step ax trusted (MInitIndex paths) s = (case mem_init_index ax paths s of Inl _ \<Rightarrow> s | Inr s' \<Rightarrow> s')"
| "mem_step ax trusted (MReindex paths) s = (case mem_reindex ax paths s of Inl _ \<Rightarrow> s | Inr s' \<Rightarrow> s')"

definition mem_run :: "artifact_ext \<Rightarrow> octets list \<Rightarrow> mem_op list \<Rightarrow> mem_store" where
  "mem_run ax trusted ops = fold (mem_step ax trusted) ops mem_empty"

lemma mem_step_inv: "sha_ok ax \<Longrightarrow> mem_inv ax trusted s \<Longrightarrow> mem_inv ax trusted (mem_step ax trusted op s)"
  by (cases op) (auto split: sum.splits dest: mem_put_inv mem_purge_inv mem_init_index_inv mem_reindex_inv)

lemma fold_mem_inv: "sha_ok ax \<Longrightarrow> mem_inv ax trusted s \<Longrightarrow> mem_inv ax trusted (fold (mem_step ax trusted) ops s)"
  by (induction ops arbitrary: s) (simp_all add: mem_step_inv)

lemma mem_run_inv: "sha_ok ax \<Longrightarrow> mem_inv ax trusted (mem_run ax trusted ops)"
  unfolding mem_run_def by (rule fold_mem_inv) (simp_all add: mem_empty_inv)

text \<open>The index entry of a stored record, and the ids a query must return.\<close>

definition entry_of :: "artifact_ext \<Rightarrow> string list \<Rightarrow> mem_store \<Rightarrow> string \<Rightarrow> string \<times> extracted" where
  "entry_of ax paths s i = (i, projr (extract_entries (ax_json ax) (ar_capsule (the (ms_records s i))) paths))"

lemma mem_recs_entries: "mem_recs ax paths s = map (entry_of ax paths s) (ms_order s)"
  by (simp add: mem_recs_def entry_of_def)

lemma hit_ids_all:
  assumes "\<And>i. fst (f i) = i"
  shows "hit_ids (map f is) (hits c 0 (map f is)) = filter (\<lambda>i. rec_matches c (f i)) is"
proof (induction "is" rule: rev_induct)
  case Nil
  then show ?case by (simp add: hit_ids_def hits_def pos_list_def)
next
  case (snoc i js)
  have "hits c 0 (map f (js @ [i])) = hits c 0 (map f js) @ (if rec_matches c (f i) then [Suc (length js)] else [])"
  proof -
    have "filter (\<lambda>p. 0 < p \<and> rec_matches c (map f (js @ [i]) ! (p - 1))) (pos_list (length js)) = hits c 0 (map f js)"
      unfolding hits_def length_map by (rule filter_cong) (auto simp: pos_list_def nth_append)
    then show ?thesis
      unfolding hits_def [of _ _ "map f (js @ [i])"] by (simp add: nth_append)
  qed
  moreover have "hit_ids (map f (js @ [i])) (hits c 0 (map f js)) = hit_ids (map f js) (hits c 0 (map f js))"
    by (auto simp: hit_ids_def hits_def pos_list_def nth_append)
  moreover have "hit_ids (map f (js @ [i])) (ps @ qs) = hit_ids (map f (js @ [i])) ps @ hit_ids (map f (js @ [i])) qs" for ps qs
    by (simp add: hit_ids_def)
  moreover have "hit_ids (map f (js @ [i])) (if rec_matches c (f i) then [Suc (length js)] else [])
      = filter (\<lambda>i. rec_matches c (f i)) [i]"
    using assms by (simp add: hit_ids_def nth_append)
  ultimately show ?case
    using snoc.IH by (simp only: filter_append)
qed

end
