(* ===== verification/Artifact_Properties.thy ===== *)
theory Artifact_Properties
  imports Artifact_Memory
begin

text \<open>
  Properties of the artifact store over the definitions of \<open>Artifact_Record\<close>, \<open>Artifact_Index\<close> and
  \<open>Artifact_Memory\<close>, each with a concrete record and concrete external functions as its witness.
\<close>

section \<open>A concrete record\<close>

definition demo_id :: "char \<Rightarrow> string" where
  "demo_id c = replicate 64 c"

definition demo_ax :: artifact_ext where
  "demo_ax = \<lparr>ax_json = \<lparr>je_strict = True, je_read_float = (\<lambda>_. FZero False), je_max_digits = 4300\<rparr>,
     ax_sha256 = (\<lambda>b. demo_id (if b = '''' then CHR ''0'' else CHR ''1'')), ax_json_digest = (\<lambda>v. Some (demo_id CHR ''d'')),
     ax_class1 = (\<lambda>_. Some (demo_id CHR ''a'')), ax_envelope = (\<lambda>_ e. if e = ''e'' then Some (replicate 32 CHR ''k'') else None)\<rparr>"

definition demo_fields :: dict where
  "demo_fields = [(''format_version'', JStr ''4''), (''canonicalization_id'', JStr ''jcs''),
     (''effect'', JObj [(''request_digest'', JStr (demo_id CHR ''d''))])]"

definition demo_body :: json where
  "demo_body = JObj demo_fields"

definition demo_original :: artifact where
  "demo_original = \<lparr>a_name = ''request'', a_state = PRESENT, a_binding = ''effect.request_digest'',
     a_content = Some (json_dumps JNull), a_sha256 = ''''\<rparr>"

definition demo_record :: art_record where
  "demo_record = \<lparr>ar_capsule_id = demo_id CHR ''a'', ar_capsule = json_dumps demo_body, ar_envelope = ''e'',
     ar_artifacts = [demo_original]\<rparr>"

definition demo_prepared :: art_record where
  "demo_prepared = demo_record\<lparr>ar_artifacts := [demo_original\<lparr>a_sha256 := demo_id CHR ''1''\<rparr>]\<rparr>"

lemma demo_id_ok:
  assumes "c \<in> {CHR ''0'', CHR ''1'', CHR ''a'', CHR ''d''}"
  shows "valid_id (demo_id c)" "utf8_ok (demo_id c)"
  using assms by (auto simp: demo_id_def valid_id_def hex_string_def is_hex_def is_digit_def list_all_iff
      intro!: utf8_ok_ascii)

lemma demo_sha_ok: "sha_ok demo_ax"
  using demo_id_ok by (simp add: sha_ok_def demo_ax_def)

lemma demo_decode: "decode_json demo_ax (json_dumps demo_body) = Some demo_body" (is ?body)
  and demo_decode_content: "decode_json demo_ax (json_dumps JNull) = Some JNull" (is ?null)
proof -
  have "utf8_ok ''4'' \<and> utf8_ok ''jcs'' \<and> utf8_ok ''format_version'' \<and> utf8_ok ''canonicalization_id'' \<and>
      utf8_ok ''effect'' \<and> utf8_ok ''request_digest''"
    by (intro conjI; rule utf8_ok_ascii; simp)
  then show ?body
    unfolding decode_json_def
    by (intro decode_dumps) (simp_all add: demo_body_def demo_fields_def demo_id_ok demo_ax_def MAX_JSON_DEPTH_def)
  show ?null
    unfolding decode_json_def by (rule decode_dumps) (simp_all add: MAX_JSON_DEPTH_def demo_ax_def)
qed

lemma demo_prepare: "prepare demo_ax demo_record = Inr demo_prepared"
  by (simp add: prepare_def demo_record_def demo_prepared_def demo_original_def demo_ax_def MAX_ARTIFACTS_def
      MAX_ENVELOPE_def MAX_TOTAL_def demo_body_def demo_fields_def demo_id_def quote_def esc_char_def)

lemma demo_verify: "verify_record demo_ax [replicate 32 CHR ''k''] demo_prepared
    = Inr [(''request'', \<lparr>v_state = PRESENT, v_bound = True, v_verified = True\<rparr>)]"
proof -
  have "dget demo_fields ''format_version'' = JStr ''4'' \<and> dget demo_fields ''canonicalization_id'' = JStr ''jcs'' \<and>
      dget demo_fields ''record_type'' = JNull"
    by (simp add: demo_fields_def)
  moreover have "ax_class1 demo_ax (JObj demo_fields) = Some (demo_id CHR ''a'')" by (simp add: demo_ax_def)
  moreover have "decode_json demo_ax (ar_capsule demo_prepared) = Some (JObj demo_fields)"
      "ar_capsule_id demo_prepared = demo_id CHR ''a''"
    using demo_decode by (simp_all add: demo_prepared_def demo_record_def flip: demo_body_def)
  ultimately have "verified_capsule demo_ax demo_prepared = Inr demo_fields"
    by (simp add: verified_capsule_def decode_capsule_def PADDING_RECORD_TYPE_def)
  moreover have "digest_at demo_fields ''effect.request_digest'' = Inr (demo_id CHR ''d'')"
    by (simp add: digest_at_def DIGEST_FIELDS_def PAYLOAD_DIGEST_def AGENT_OUTPUT_DIGEST_def
        EFFECT_REQUEST_DIGEST_def EFFECT_RESPONSE_DIGEST_def demo_fields_def demo_id_ok)
  moreover have "content_digest demo_ax (json_dumps JNull) = Some (demo_id CHR ''d'')"
    unfolding content_digest_def demo_decode_content by (simp add: demo_ax_def)
  moreover have "valid_name ''request''"
    by (simp add: valid_name_def is_alnum_def is_lower_def is_digit_def is_upper_def name_char_def)
  moreover have "ax_sha256 demo_ax (json_dumps JNull) = demo_id CHR ''1''"
      "ax_envelope demo_ax (demo_id CHR ''a'') ''e'' = Some (replicate 32 CHR ''k'')"
    by (simp_all add: demo_ax_def)
  ultimately show ?thesis
    by (simp add: verify_record_def demo_prepared_def demo_record_def demo_original_def demo_id_ok
        verify_artifact_def del: json_dumps.simps)
qed

lemma demo_admit: "admit demo_ax [replicate 32 CHR ''k''] demo_record = Inr demo_prepared"
  by (simp add: admit_def demo_prepare demo_verify)

section \<open>Records\<close>

definition original_ok :: "artifact_ext \<Rightarrow> dict \<Rightarrow> artifact \<Rightarrow> bool" where
  "original_ok ax capsule a \<longleftrightarrow>
     (case a_content a of
        None \<Rightarrow> a_state a = PURGED \<or> a_state a = NEVER_RETAINED
      | Some c \<Rightarrow> a_state a = PRESENT \<and> a_sha256 a \<in> {'''', ax_sha256 ax c} \<and>
          (a_binding a = '''' \<or> (\<exists>d. digest_at capsule (a_binding a) = Inr d \<and> content_digest ax c = Some d)))"

text \<open>The line a record is stored as is one line without control characters, and reading it gives back
  exactly the record: every id, octet string, artifact name, state, binding, checksum, and whether the
  content is absent or empty.\<close>

theorem stored_line_round_trip:
  "decode_record ax (encode_record r) = Inr r \<and> list_all (\<lambda>c. 32 \<le> byte c) (encode_record r)"
  by (simp add: decode_encode_record encode_record_printable)

text \<open>C31: A record that verifies was signed by one of the caller's keys over a well-formed capsule id, its
  names are distinct, an original that is present hashes to its checksum, and a present original that is
  bound has the digest the capsule commits to under that binding; nothing else carries content.\<close>

theorem verified_record_is_sound:
  assumes "verify_record ax trusted r = Inr res"
  shows "valid_id (ar_capsule_id r) \<and>
    (\<exists>key \<in> set trusted. length key = 32 \<and> ax_envelope ax (ar_capsule_id r) (ar_envelope r) = Some key) \<and>
    distinct (map a_name (ar_artifacts r)) \<and> map fst res = map a_name (ar_artifacts r) \<and>
    (\<exists>capsule. verified_capsule ax r = Inr capsule \<and> list_all (original_ok ax capsule) (ar_artifacts r))"
proof -
  from assms obtain capsule pk where v: "valid_id (ar_capsule_id r)" "verified_capsule ax r = Inr capsule"
      "ax_envelope ax (ar_capsule_id r) (ar_envelope r) = Some pk"
      "list_ex (\<lambda>key. length key = 32 \<and> key = pk) trusted"
      "foldM_r (verify_artifact ax capsule) [] (ar_artifacts r) = Inr res"
    by (auto simp: verify_record_def res_simps split: option.splits if_splits)
  have key: "\<exists>key \<in> set trusted. length key = 32 \<and> ax_envelope ax (ar_capsule_id r) (ar_envelope r) = Some key"
    using v(3,4) by (auto simp: list_ex_iff)
  have names: "map fst res = map a_name (ar_artifacts r)" and "distinct (map fst res)"
    using verify_artifacts_names [OF v(5)] by auto
  moreover have "original_ok ax capsule a" if "a \<in> set (ar_artifacts r)" for a
    using verify_artifacts_sound [OF v(5) that] by (cases "a_content a") (auto simp: original_ok_def)
  ultimately show ?thesis
    using key v(1,2) by (simp add: list_all_iff)
qed

theorem verified_record_is_sound_witness:
  "valid_id (demo_id CHR ''a'') \<and> distinct (map a_name (ar_artifacts demo_prepared))"
  using verified_record_is_sound [OF demo_verify]
  by (simp add: demo_prepared_def demo_record_def)

text \<open>Purging an admitted record erases every original and keeps everything that was authenticated: the
  storage checksum is unchanged and the purged record verifies under the same keys, with the same names and
  bindings and every original that was present reported as purged.\<close>

theorem purge_keeps_verification:
  assumes "sha_ok ax" "prepare ax r = Inr p" "verify_record ax trusted p = Inr res"
  shows "verify_record ax trusted (purged_copy p) = Inr (map purged_result res) \<and> erased (purged_copy p) \<and>
    storage_checksum ax (purged_copy p) = storage_checksum ax p \<and> purged_copy (purged_copy p) = purged_copy p"
  using verify_purged [OF assms(3) _ assms(1)] prepare_ok [OF assms(2)]
  by (simp add: storage_checksum_purged purged_copy_idem erased_purged)

theorem purge_keeps_verification_witness:
  "verify_record demo_ax [replicate 32 CHR ''k''] (purged_copy demo_prepared)
    = Inr [(''request'', \<lparr>v_state = PURGED, v_bound = True, v_verified = False\<rparr>)]"
  using purge_keeps_verification [OF demo_sha_ok demo_prepare demo_verify]
  by (simp add: purged_result_def)

section \<open>The store over time\<close>

definition demo_trusted :: "octets list" where
  "demo_trusted = [replicate 32 CHR ''k'']"

definition demo_mem :: mem_store where
  "demo_mem = mem_empty\<lparr>ms_records := [demo_id CHR ''a'' \<mapsto> demo_prepared], ms_order := [demo_id CHR ''a'']\<rparr>"

lemma demo_put: "mem_put demo_ax demo_trusted demo_record mem_empty = Inr demo_mem"
proof -
  have "ar_capsule_id demo_prepared = demo_id CHR ''a''"
    by (simp add: demo_prepared_def demo_record_def)
  then show ?thesis
    using demo_verify
    by (simp add: mem_put_def demo_prepare demo_trusted_def mem_empty_def demo_mem_def add_index_def empty_index_def)
qed

lemma demo_mem_inv: "mem_inv demo_ax demo_trusted demo_mem"
  using mem_put_inv [OF mem_empty_inv demo_put] .

text \<open>Whatever sequence of puts and purges follows, a stored record keeps its storage checksum, its capsule
  bytes and its envelope bytes; no later put replaces it.\<close>

theorem stored_commitments_immutable:
  assumes "sha_ok ax" "mem_inv ax trusted s" "ms_records s i = Some r"
  shows "\<exists>r'. ms_records (store_history (mem_put ax trusted) mem_purge ops s) i = Some r' \<and>
    storage_checksum ax r' = storage_checksum ax r \<and> ar_capsule r' = ar_capsule r \<and> ar_envelope r' = ar_envelope r"
  by (rule mem.commitments_immutable) (use assms in auto)

theorem stored_commitments_immutable_witness:
  "\<exists>r'. ms_records (store_history (mem_put demo_ax demo_trusted) mem_purge
      [Purge (demo_id CHR ''a''), Put demo_record] demo_mem) (demo_id CHR ''a'') = Some r' \<and>
    ar_capsule r' = ar_capsule demo_record"
  using stored_commitments_immutable [OF demo_sha_ok demo_mem_inv, of "demo_id CHR ''a''" demo_prepared]
  by (fastforce simp: demo_mem_def demo_prepared_def)

text \<open>Once a purge of an id has succeeded no sequence of puts and purges brings an original back: the record
  stays, with every artifact in it purged or never retained.\<close>

theorem purge_is_permanent:
  assumes "sha_ok ax" "mem_inv ax trusted s" "mem_purge i s = Inr s'"
  shows "\<exists>r'. ms_records (store_history (mem_put ax trusted) mem_purge ops s') i = Some r' \<and> erased r'"
  by (rule mem.purge_is_final) (use assms in auto)

theorem purge_is_permanent_witness:
  "\<exists>s' r'. mem_purge (demo_id CHR ''a'') demo_mem = Inr s' \<and>
    ms_records (store_history (mem_put demo_ax demo_trusted) mem_purge [Put demo_record] s') (demo_id CHR ''a'') = Some r' \<and>
    erased r'"
proof -
  obtain s' where "mem_purge (demo_id CHR ''a'') demo_mem = Inr s'"
    by (simp add: mem_purge_def demo_id_ok demo_mem_def)
  with purge_is_permanent [OF demo_sha_ok demo_mem_inv this, of "[Put demo_record]"] show ?thesis by blast
qed

text \<open>What \<open>get\<close> returns for a record that was newly put, after any further puts and purges, is the record
  as it was admitted, or that record with its originals replaced by tombstones.\<close>

theorem get_returns_what_was_put:
  assumes "sha_ok ax" "mem_inv ax trusted s" "mem_put ax trusted r s = Inr s'" "admit ax trusted r = Inr p"
    "ms_records s (ar_capsule_id p) = None"
    "mem_get ax trusted (ar_capsule_id p) (store_history (mem_put ax trusted) mem_purge ops s') = Inr q"
  shows "q = p \<or> q = purged_copy p"
  by (rule mem.read_back) (use assms in auto)

theorem get_returns_what_was_put_witness:
  "\<exists>q. mem_get demo_ax demo_trusted (demo_id CHR ''a'')
      (store_history (mem_put demo_ax demo_trusted) mem_purge [] demo_mem) = Inr q \<and>
    (q = demo_prepared \<or> q = purged_copy demo_prepared)"
proof -
  have "ar_capsule_id demo_prepared = demo_id CHR ''a''"
    by (simp add: demo_prepared_def demo_record_def)
  moreover have "mem_get demo_ax demo_trusted (demo_id CHR ''a'')
      (store_history (mem_put demo_ax demo_trusted) mem_purge [] demo_mem) = Inr demo_prepared"
    using demo_verify by (simp add: mem_get_def store_history_def demo_mem_def demo_id_ok demo_trusted_def)
  ultimately show ?thesis
    using get_returns_what_was_put [OF demo_sha_ok mem_empty_inv demo_put, of demo_prepared "[]" demo_prepared] demo_admit
    by (simp add: demo_trusted_def mem_empty_def)
qed

section \<open>Queries\<close>

text \<open>C35: A reader that asks the memory store for a page and follows the cursors gets, after finitely many pages,
  exactly the admitted ids whose capsule matches the query, in admission order and each once, whatever
  calls led to the store and whatever page size it asks for; a purge does not hide a record.\<close>

theorem find_pages_complete:
  assumes "sha_ok ax" "s = mem_run ax trusted ops" "x_paths (ms_lookup s) = Some paths"
    and query: "check_query (ax_json ax) whr since JNull limit paths = Inr c"
    and size: "length (ms_order s) \<le> MAX_CURSOR" "19 \<le> je_max_digits (ax_json ax)"
  shows "walk_pages (Suc (length (ms_order s))) (ax_json ax) whr since JNull limit (ms_lookup s)
    = Inr (filter (\<lambda>i. rec_matches c (entry_of ax paths s i)) (ms_order s))"
proof -
  let ?recs = "mem_recs ax paths s"
  have rep: "represents (ms_lookup s) paths ?recs"
    using mem_run_inv [OF assms(1), of trusted ops] assms(2,3) by (simp add: mem_inv_def index_ok_def)
  have after: "q_after c = 0"
    using check_query_facts(2) [OF query] by (simp add: check_after_def)
  have len: "length ?recs = length (ms_order s)" by (simp add: mem_recs_def)
  have "length (hits c (q_after c) ?recs) \<le> length ?recs"
    unfolding hits_def by (rule order_trans [OF length_filter_le]) (cases "length ?recs", auto simp: pos_list_def)
  with len have fuel: "length (hits c (q_after c) ?recs) < Suc (length (ms_order s))" by simp
  have digits: "length (nat_str p) \<le> je_max_digits (ax_json ax)" if "p \<le> length ?recs" for p
    using length_nat_str [of p 19] that len size by (simp add: MAX_CURSOR_def)
  have "walk_pages (Suc (length (ms_order s))) (ax_json ax) whr since JNull limit (ms_lookup s)
      = Inr (hit_ids ?recs (hits c (q_after c) ?recs))"
    by (rule walk_pages_hits [OF rep _ digits query fuel]) (use size len in simp_all)
  also have "hit_ids ?recs (hits c (q_after c) ?recs)
      = filter (\<lambda>i. rec_matches c (entry_of ax paths s i)) (ms_order s)"
    unfolding mem_recs_entries after by (rule hit_ids_all) (simp add: entry_of_def)
  finally show ?thesis .
qed

definition demo_ops :: "mem_op list" where
  "demo_ops = [MInitIndex (JArr [JStr ''format_version'']), MPut demo_record, MPurge (demo_id CHR ''a'')]"

lemma demo_extract: "extract_entries (ax_json demo_ax) (json_dumps demo_body) [''format_version'']
    = Inr \<lparr>ex_entries = [(''format_version'', ''4'')], ex_ts = None\<rparr>"
proof -
  have "decode_strict_json (ax_json demo_ax) (json_dumps demo_body) = Some (JObj demo_fields)"
    using demo_decode unfolding decode_json_def by (simp only: demo_body_def)
  then show ?thesis
    by (simp add: extract_entries_def) (simp add: demo_fields_def path_entries_def)
qed

lemma demo_run:
  "x_paths (ms_lookup (mem_run demo_ax demo_trusted demo_ops)) = Some [''format_version''] \<and>
   ms_order (mem_run demo_ax demo_trusted demo_ops) = [demo_id CHR ''a''] \<and>
   ms_records (mem_run demo_ax demo_trusted demo_ops) (demo_id CHR ''a'') = Some (purged_copy demo_prepared)"
proof -
  have "valid_path (JStr ''format_version'')"
    by (simp add: valid_path_def valid_segment_def is_alnum_def is_lower_def is_digit_def is_upper_def)
  then have "normalize_paths (JArr [JStr ''format_version'']) = Inr [''format_version'']"
    by (simp add: normalize_paths_def path_list_def MAX_INDEX_PATHS_def)
  then have init: "mem_step demo_ax demo_trusted (MInitIndex (JArr [JStr ''format_version''])) mem_empty
      = mem_empty\<lparr>ms_lookup := reset_index [''format_version''] empty_index\<rparr>"
    by (simp add: mem_init_index_def declare_index_def mem_empty_def index_all_def empty_index_def)
  have p: "ar_capsule_id demo_prepared = demo_id CHR ''a''" "ar_capsule demo_prepared = json_dumps demo_body"
    by (simp_all add: demo_prepared_def demo_record_def)
  obtain ix where ix: "add_index (ax_json demo_ax) (demo_id CHR ''a'') (json_dumps demo_body)
      (reset_index [''format_version''] empty_index) = Inr ix" "x_paths ix = Some [''format_version'']"
    using demo_extract by (simp add: add_index_def reset_index_def)
  have "mem_put demo_ax demo_trusted demo_record (mem_empty\<lparr>ms_lookup := reset_index [''format_version''] empty_index\<rparr>)
      = Inr \<lparr>ms_records = [demo_id CHR ''a'' \<mapsto> demo_prepared], ms_order = [demo_id CHR ''a''], ms_lookup = ix\<rparr>"
    using demo_verify p ix by (simp add: mem_put_def demo_prepare demo_trusted_def mem_empty_def)
  with init ix show ?thesis
    by (simp add: mem_run_def demo_ops_def mem_purge_def demo_id_ok)
qed

theorem find_pages_complete_witness:
  "walk_pages 2 (ax_json demo_ax) (JObj [(''format_version'', JStr ''4'')]) JNull JNull (JInt 1)
     (ms_lookup (mem_run demo_ax demo_trusted demo_ops)) = Inr [demo_id CHR ''a'']"
proof -
  define c where "c = \<lparr>q_where = [(''format_version'', ''4'')], q_since = None, q_after = 0, q_limit = 1\<rparr>"
  have c: "check_query (ax_json demo_ax) (JObj [(''format_version'', JStr ''4'')]) JNull JNull (JInt 1) [''format_version'']
      = Inr c"
    by (simp add: check_query_def c_def MAX_FIND_LIMIT_def check_since_def check_after_def)
  have m: "rec_matches c (entry_of demo_ax [''format_version''] (mem_run demo_ax demo_trusted demo_ops) (demo_id CHR ''a''))"
    using demo_run demo_extract
    by (simp add: entry_of_def demo_prepared_def demo_record_def rec_matches_def c_def)
  have "19 \<le> je_max_digits (ax_json demo_ax)" "Suc 0 \<le> MAX_CURSOR" by (simp_all add: demo_ax_def MAX_CURSOR_def)
  with find_pages_complete [OF demo_sha_ok refl _ c, of demo_trusted demo_ops] m demo_run
  show ?thesis by (simp add: numeral_2_eq_2 del: walk_pages.simps)
qed

text \<open>The declared index paths survive storage: what \<open>normalize_paths\<close> accepts is written as text that
  \<open>decode_paths\<close> reads back as the same paths.\<close>

theorem index_paths_round_trip:
  assumes "normalize_paths v = Inr ps"
  shows "decode_paths je (encode_paths ps) = Inr ps \<and> sorted ps \<and> distinct ps"
  using decode_encode_paths [OF assms] normalize_paths_facts [OF assms] by simp

theorem index_paths_round_trip_witness:
  "decode_paths (ax_json demo_ax) (encode_paths [''a'', ''b'']) = Inr [''a'', ''b'']"
proof -
  have "valid_path (JStr ''a'') \<and> valid_path (JStr ''b'')"
    by (simp add: valid_path_def valid_segment_def is_alnum_def is_lower_def is_digit_def is_upper_def)
  then have "normalize_paths (JArr [JStr ''b'', JStr ''a'']) = Inr [''a'', ''b'']"
    by (simp add: normalize_paths_def path_list_def MAX_INDEX_PATHS_def)
  from index_paths_round_trip [OF this] show ?thesis by simp
qed

end
