(* ===== verification/Artifact_Jsonl.thy ===== *)
theory Artifact_Jsonl
  imports Artifact_Properties
begin

text \<open>
  \<open>artifact/jsonl.py\<close>: the store of one file, on the octets of the file.  A line is indexed by its offset and length; a
  torn last line, one without a newline, is never indexed; a purge rewrites the file.  Reads and writes of the file
  succeed and are atomic.  The store is a second provider of the contract of \<open>Artifact_Store\<close>, and refines the
  memory store.
\<close>

section \<open>Lines of a file\<close>

abbreviation newline :: char where "newline \<equiv> CHR 0x0A"

text \<open>The lines that end with a newline, and the torn rest.\<close>

fun split_lines :: "octets \<Rightarrow> octets list \<times> octets" where
  "split_lines [] = ([], [])"
| "split_lines (c # s) =
     (let (ls, torn) = split_lines s in
      if c = newline then ([] # ls, torn)
      else (case ls of [] \<Rightarrow> ([], c # torn) | l # ls' \<Rightarrow> ((c # l) # ls', torn)))"

fun line_spans :: "nat \<Rightarrow> octets list \<Rightarrow> (nat \<times> octets) list" where
  "line_spans offset [] = []"
| "line_spans offset (l # ls) = (offset, l) # line_spans (offset + length l + 1) ls"

definition unlines :: "octets list \<Rightarrow> octets" where
  "unlines ls = concat (map (\<lambda>l. l @ [newline]) ls)"

text \<open>\<open>json.loads\<close> of octets guesses the encoding.  Octets that are no strict UTF-8, that begin with a byte-order mark
  or have a zero octet among the first four are read by \<open>wide\<close>, a parameter; all others as UTF-8.\<close>

definition plain_start :: "octets \<Rightarrow> bool" where
  "plain_start line \<longleftrightarrow> CHR 0x00 \<notin> set (take 4 line) \<and> take 3 line \<noteq> [CHR 0xEF, CHR 0xBB, CHR 0xBF]"

definition loads_octets :: "artifact_ext \<Rightarrow> (octets \<Rightarrow> json option) \<Rightarrow> octets \<Rightarrow> json option" where
  "loads_octets ax wide line =
     (if utf8_ok line \<and> plain_start line then json_loads ((ax_json ax)\<lparr>je_strict := False\<rparr>) line else wide line)"

definition peek_id :: "artifact_ext \<Rightarrow> (octets \<Rightarrow> json option) \<Rightarrow> octets \<Rightarrow> string option" where
  "peek_id ax wide line =
     (case loads_octets ax wide line of
        Some (JObj d) \<Rightarrow> (case dget d ''capsule_id'' of JStr i \<Rightarrow> if i \<noteq> [] then Some i else None | _ \<Rightarrow> None)
      | _ \<Rightarrow> None)"

type_synonym span = "nat \<times> nat"

text \<open>The index of a list of lines with their ids: the last line of an id wins.  The order is that of first appearance.\<close>

definition index_of_lines :: "(string option \<times> nat \<times> octets) list \<Rightarrow> string \<Rightarrow> span option" where
  "index_of_lines es = fold (\<lambda>(i, offset, line) ix. case i of None \<Rightarrow> ix | Some i \<Rightarrow> ix(i \<mapsto> (offset, length line))) es (\<lambda>_. None)"

definition order_of :: "(string option \<times> nat \<times> octets) list \<Rightarrow> string list" where
  "order_of es = fold (\<lambda>(i, offset, line) order. case i of None \<Rightarrow> order
     | Some i \<Rightarrow> if i \<in> set order then order else order @ [i]) es []"

definition id_of_line :: "artifact_ext \<Rightarrow> (octets \<Rightarrow> json option) \<Rightarrow> octets \<Rightarrow> string option" where
  "id_of_line ax wide l = (if l = [] then None else peek_id ax wide l)"

definition entries :: "artifact_ext \<Rightarrow> (octets \<Rightarrow> json option) \<Rightarrow> octets list \<Rightarrow> (string option \<times> nat \<times> octets) list" where
  "entries ax wide ls = map (\<lambda>(offset, l). (id_of_line ax wide l, offset, l)) (line_spans 0 ls)"

definition entries_of :: "artifact_ext \<Rightarrow> (octets \<Rightarrow> json option) \<Rightarrow> octets \<Rightarrow> (string option \<times> nat \<times> octets) list" where
  "entries_of ax wide f = entries ax wide (fst (split_lines f))"

section \<open>The store\<close>

record jsonl_store =
  js_file :: "octets option"
  js_index :: "string \<Rightarrow> span option"
  js_order :: "string list"
  js_lookup :: memory_index

definition js_open :: "artifact_ext \<Rightarrow> (octets \<Rightarrow> json option) \<Rightarrow> octets option \<Rightarrow> jsonl_store" where
  "js_open ax wide file =
     \<lparr>js_file = file, js_index = (case file of None \<Rightarrow> (\<lambda>_. None) | Some f \<Rightarrow> index_of_lines (entries_of ax wide f)),
      js_order = (case file of None \<Rightarrow> [] | Some f \<Rightarrow> order_of (entries_of ax wide f)), js_lookup = empty_index\<rparr>"

definition js_init :: "jsonl_store \<Rightarrow> jsonl_store" where
  "js_init s = (if js_file s = None then s\<lparr>js_file := Some []\<rparr> else s)"

definition no_file :: artifact_error where
  "no_file = OtherError ''FileNotFoundError''"

definition read_at :: "artifact_ext \<Rightarrow> octets option \<Rightarrow> span \<Rightarrow> artifact_error + art_record" where
  "read_at ax file sp =
     (case file of
        None \<Rightarrow> Inl no_file
      | Some f \<Rightarrow>
          let data = take (snd sp) (drop (fst sp) f) in
          if length data \<noteq> snd sp then Inl CorruptError
          else if \<not> utf8_ok data then Inl CorruptError
          else decode_record ax data)"

definition read_indexed :: "artifact_ext \<Rightarrow> jsonl_store \<Rightarrow> string \<Rightarrow> span \<Rightarrow> artifact_error + art_record" where
  "read_indexed ax s i sp =
     sbind (read_at ax (js_file s) sp) (\<lambda>r. if ar_capsule_id r \<noteq> i then Inl CorruptError else Inr r)"

text \<open>The index is extended after the line is written; the extraction cannot fail on a verified record.\<close>

definition js_append :: "artifact_ext \<Rightarrow> art_record \<Rightarrow> octets \<Rightarrow> jsonl_store \<Rightarrow> artifact_error + jsonl_store" where
  "js_append ax p f s =
     (let line = encode_record p;
          before = (if f \<noteq> [] \<and> last f \<noteq> newline then [newline] else [])
      in if \<not> utf8_ok line then Inl (OtherError ''UnicodeEncodeError'')
         else sbind (add_index (ax_json ax) (ar_capsule_id p) (ar_capsule p) (js_lookup s)) (\<lambda>ix.
           Inr (s\<lparr>js_file := Some (f @ before @ line @ [newline]),
                  js_index := (js_index s)(ar_capsule_id p \<mapsto> (length f + length before, length line)),
                  js_order := js_order s @ [ar_capsule_id p], js_lookup := ix\<rparr>)))"

definition js_put :: "artifact_ext \<Rightarrow> octets list \<Rightarrow> art_record \<Rightarrow> jsonl_store \<Rightarrow> artifact_error + jsonl_store" where
  "js_put ax trusted r s =
     sbind (prepare ax r) (\<lambda>p.
     sbind (verify_record ax trusted p) (\<lambda>_.
       (case js_index s (ar_capsule_id p) of
          Some sp \<Rightarrow>
            sbind (read_indexed ax s (ar_capsule_id p) sp) (\<lambda>existing.
            sbind (verify_record ax trusted existing) (\<lambda>_.
              if storage_checksum ax existing \<noteq> storage_checksum ax p then Inl ConflictError
              else if has_purged existing then Inl PurgedError
              else Inr s))
        | None \<Rightarrow> (case js_file s of None \<Rightarrow> Inl no_file | Some f \<Rightarrow> js_append ax p f s))))"

definition js_get :: "artifact_ext \<Rightarrow> octets list \<Rightarrow> string \<Rightarrow> jsonl_store \<Rightarrow> artifact_error + art_record" where
  "js_get ax trusted i s =
     (if \<not> valid_id i then Inl InvalidError
      else (case js_index s i of
              None \<Rightarrow> Inl NotFoundError
            | Some sp \<Rightarrow> sbind (read_indexed ax s i sp) (\<lambda>r. sbind (verify_record ax trusted r) (\<lambda>_. Inr r))))"

definition js_rewrite :: "artifact_ext \<Rightarrow> (octets \<Rightarrow> json option) \<Rightarrow> string \<Rightarrow> octets \<Rightarrow> jsonl_store \<Rightarrow> artifact_error + jsonl_store" where
  "js_rewrite ax wide i replacement s =
     (case js_file s of
        None \<Rightarrow> Inl no_file
      | Some f \<Rightarrow>
          let old = entries_of ax wide f;
              lines = map (\<lambda>(j, offset, line). if j = Some i then replacement else line) old
          in if \<not> list_ex (\<lambda>(j, offset, line). j = Some i) old then Inl CorruptError
             else Inr (s\<lparr>js_file := Some (unlines lines @ snd (split_lines f)),
                         js_index := index_of_lines (zip (map fst old) (line_spans 0 lines))\<rparr>))"

definition js_purge :: "artifact_ext \<Rightarrow> (octets \<Rightarrow> json option) \<Rightarrow> string \<Rightarrow> jsonl_store \<Rightarrow> artifact_error + jsonl_store" where
  "js_purge ax wide i s =
     (if \<not> valid_id i then Inl InvalidError
      else (case js_index s i of
              None \<Rightarrow> Inl NotFoundError
            | Some sp \<Rightarrow> sbind (read_indexed ax s i sp) (\<lambda>r.
                let replacement = encode_record (purged_copy r) in
                if \<not> utf8_ok replacement then Inl (OtherError ''UnicodeEncodeError'')
                else js_rewrite ax wide i replacement s)))"

text \<open>A record that does not read is left out of the index; any other error ends the rebuild.\<close>

definition add_readable ::
    "artifact_ext \<Rightarrow> jsonl_store \<Rightarrow> memory_index \<Rightarrow> string \<Rightarrow> artifact_error + memory_index" where
  "add_readable ax s ix i =
     (case js_index s i of
        None \<Rightarrow> Inl (OtherError ''KeyError'')
      | Some sp \<Rightarrow>
          (case read_at ax (js_file s) sp of
             Inl CorruptError \<Rightarrow> Inr ix
           | Inl e \<Rightarrow> Inl e
           | Inr r \<Rightarrow>
               if ar_capsule_id r = i then
                 (case add_index (ax_json ax) i (ar_capsule r) ix of Inl CorruptError \<Rightarrow> Inr ix | x \<Rightarrow> x)
               else Inr ix))"

definition js_rebuilt :: "artifact_ext \<Rightarrow> string list \<Rightarrow> jsonl_store \<Rightarrow> artifact_error + memory_index" where
  "js_rebuilt ax paths s = foldM_r (add_readable ax s) (reset_index paths empty_index) (js_order s)"

definition js_reindex :: "artifact_ext \<Rightarrow> json \<Rightarrow> jsonl_store \<Rightarrow> artifact_error + jsonl_store" where
  "js_reindex ax paths s =
     sbind (normalize_paths paths) (\<lambda>normalized.
       let s' = js_init s in sbind (js_rebuilt ax normalized s') (\<lambda>ix. Inr (s'\<lparr>js_lookup := ix\<rparr>)))"

definition js_init_index :: "artifact_ext \<Rightarrow> json \<Rightarrow> jsonl_store \<Rightarrow> artifact_error + jsonl_store" where
  "js_init_index ax paths s =
     sbind (normalize_paths paths) (\<lambda>normalized.
       let s' = js_init s in
       (case x_paths (js_lookup s') of
          Some ps \<Rightarrow> if ps \<noteq> normalized then Inl ConflictError else Inr s'
        | None \<Rightarrow> sbind (js_rebuilt ax normalized s') (\<lambda>ix. Inr (s'\<lparr>js_lookup := ix\<rparr>))))"

definition js_find ::
    "artifact_ext \<Rightarrow> json \<Rightarrow> json \<Rightarrow> json \<Rightarrow> json \<Rightarrow> jsonl_store \<Rightarrow> artifact_error + page" where
  "js_find ax whr since after limit s = find_index (ax_json ax) whr since after limit (js_lookup s)"

section \<open>Lines and spans\<close>

definition line_ok :: "octets \<Rightarrow> bool" where
  "line_ok l \<longleftrightarrow> newline \<notin> set l"

lemma unlines_simps [simp]:
  "unlines [] = []" "unlines (l # ls) = l @ newline # unlines ls" "unlines (ls @ ks) = unlines ls @ unlines ks"
  by (simp_all add: unlines_def)

lemma split_lines_inv:
  "split_lines f = (ls, torn) \<Longrightarrow> f = unlines ls @ torn \<and> list_all line_ok ls \<and> line_ok torn"
proof (induction f arbitrary: ls torn)
  case (Cons c f)
  obtain ks t where k: "split_lines f = (ks, t)" by fastforce
  note ih = Cons.IH [OF k]
  show ?case
  proof (cases "c = newline")
    case True
    then show ?thesis using Cons.prems k ih by (auto simp: line_ok_def)
  next
    case False
    then show ?thesis using Cons.prems k ih by (cases ks) (auto simp: line_ok_def)
  qed
qed (simp add: line_ok_def)

lemma split_lines_line: "line_ok l \<Longrightarrow> split_lines (l @ newline # s) = (l # fst (split_lines s), snd (split_lines s))"
  by (induction l) (auto simp: line_ok_def Let_def split: prod.splits)

lemma split_lines_torn: "line_ok t \<Longrightarrow> split_lines t = ([], t)"
  by (induction t) (auto simp: line_ok_def)

lemma split_unlines: "list_all line_ok ls \<Longrightarrow> line_ok t \<Longrightarrow> split_lines (unlines ls @ t) = (ls, t)"
  by (induction ls) (simp_all add: split_lines_line split_lines_torn)

lemma line_spans_append: "line_spans n (ls @ ks) = line_spans n ls @ line_spans (n + length (unlines ls)) ks"
  by (induction ls arbitrary: n) (simp_all add: add.assoc)

lemma line_spans_lines [simp]: "map snd (line_spans n ls) = ls"
  by (induction ls arbitrary: n) simp_all

lemma line_spans_slice:
  "(n, l) \<in> set (line_spans (length before) ls) \<Longrightarrow> take (length l) (drop n (before @ unlines ls @ t)) = l"
proof (induction ls arbitrary: before)
  case (Cons k ls)
  show ?case
  proof (cases "(n, l) = (length before, k)")
    case False
    then have "(n, l) \<in> set (line_spans (length (before @ k @ [newline])) ls)" using Cons.prems by auto
    from Cons.IH [OF this] show ?thesis by simp
  qed simp
qed simp

section \<open>The index\<close>

lemma entries_of_unlines: "list_all line_ok ls \<Longrightarrow> line_ok t \<Longrightarrow> entries_of ax wide (unlines ls @ t) = entries ax wide ls"
  by (simp add: entries_of_def split_unlines)

lemma entries_append:
  "entries ax wide (ls @ [l]) = entries ax wide ls @ [(id_of_line ax wide l, length (unlines ls), l)]"
  by (simp add: entries_def line_spans_append)

lemma index_of_lines_snoc:
  "index_of_lines (es @ [(i, n, l)]) = (case i of None \<Rightarrow> index_of_lines es | Some i \<Rightarrow> (index_of_lines es)(i \<mapsto> (n, length l)))"
  by (simp add: index_of_lines_def split: option.splits)

lemma order_of_snoc:
  "order_of (es @ [(i, n, l)]) =
    (case i of None \<Rightarrow> order_of es | Some i \<Rightarrow> if i \<in> set (order_of es) then order_of es else order_of es @ [i])"
  by (simp add: order_of_def split: option.splits)

lemma set_order_of: "set (order_of es) = {i. \<exists>n l. (Some i, n, l) \<in> set es}"
  by (induction es rule: rev_induct) (auto simp: order_of_snoc, auto simp: order_of_def split: option.splits if_splits)

text \<open>The line that an id reads from.\<close>

definition line_for :: "artifact_ext \<Rightarrow> (octets \<Rightarrow> json option) \<Rightarrow> octets list \<Rightarrow> string \<Rightarrow> octets option" where
  "line_for ax wide ls i = (let ms = filter (\<lambda>l. id_of_line ax wide l = Some i) ls in if ms = [] then None else Some (last ms))"

lemma line_for_snoc:
  "line_for ax wide (ls @ [l]) i = (if id_of_line ax wide l = Some i then Some l else line_for ax wide ls i)"
  by (simp add: line_for_def Let_def)

lemma index_of_line_entries:
  "(case index_of_lines (entries ax wide ls) i of None \<Rightarrow> line_for ax wide ls i = None
    | Some (n, k) \<Rightarrow> \<exists>l. line_for ax wide ls i = Some l \<and> k = length l \<and> (n, l) \<in> set (line_spans 0 ls))"
proof (induction ls rule: rev_induct)
  case Nil
  then show ?case by (simp add: entries_def index_of_lines_def line_for_def)
next
  case (snoc l ls)
  have "(n, m) \<in> set (line_spans 0 ls) \<Longrightarrow> (n, m) \<in> set (line_spans 0 (ls @ [l]))" for n m
    by (simp add: line_spans_append)
  moreover have "(length (unlines ls), l) \<in> set (line_spans 0 (ls @ [l]))" by (simp add: line_spans_append)
  ultimately show ?case
    using snoc.IH
    by (auto simp: entries_append index_of_lines_snoc line_for_snoc split: option.splits if_splits)
qed


section \<open>What is stored\<close>

definition stored_in :: "artifact_ext \<Rightarrow> string \<Rightarrow> octets \<Rightarrow> art_record option" where
  "stored_in ax i l =
     (if \<not> utf8_ok l then None
      else (case decode_record ax l of Inl _ \<Rightarrow> None | Inr r \<Rightarrow> if ar_capsule_id r = i then Some r else None))"

definition js_content :: "artifact_ext \<Rightarrow> jsonl_store \<Rightarrow> string \<Rightarrow> art_record option" where
  "js_content ax s i =
     (case js_index s i of None \<Rightarrow> None
      | Some sp \<Rightarrow> (case read_indexed ax s i sp of Inl _ \<Rightarrow> None | Inr r \<Rightarrow> Some r))"

text \<open>Index and order are those of the file, and the torn rest of the file names no record.\<close>

definition js_inv :: "artifact_ext \<Rightarrow> (octets \<Rightarrow> json option) \<Rightarrow> jsonl_store \<Rightarrow> bool" where
  "js_inv ax wide s \<longleftrightarrow>
     (case js_file s of
        None \<Rightarrow> js_index s = (\<lambda>_. None) \<and> js_order s = []
      | Some f \<Rightarrow> js_index s = index_of_lines (entries_of ax wide f) \<and> js_order s = order_of (entries_of ax wide f) \<and>
          id_of_line ax wide (snd (split_lines f)) = None)"

lemma js_inv_lines:
  assumes "js_inv ax wide s" "js_file s = Some f"
  obtains ls t where "f = unlines ls @ t" "list_all line_ok ls" "line_ok t" "split_lines f = (ls, t)"
    "js_index s = index_of_lines (entries ax wide ls)" "js_order s = order_of (entries ax wide ls)" "id_of_line ax wide t = None"
proof -
  obtain ls t where "split_lines f = (ls, t)" by fastforce
  with assms split_lines_inv [OF this] that show thesis by (simp add: js_inv_def entries_of_def)
qed

lemma js_open_inv:
  "(case file of None \<Rightarrow> True | Some f \<Rightarrow> id_of_line ax wide (snd (split_lines f)) = None) \<Longrightarrow> js_inv ax wide (js_open ax wide file)"
  by (simp add: js_inv_def js_open_def split: option.splits)

lemma read_at_span:
  "(n, l) \<in> set (line_spans 0 ls) \<Longrightarrow> read_at ax (Some (unlines ls @ t)) (n, length l)
    = (if utf8_ok l then decode_record ax l else Inl CorruptError)"
  using line_spans_slice [of n l "[]" ls t] by (simp add: read_at_def)

lemma js_content_lines:
  assumes "js_file s = Some (unlines ls @ t)" "js_index s = index_of_lines (entries ax wide ls)"
  shows "js_content ax s i = Option.bind (line_for ax wide ls i) (stored_in ax i)"
proof (cases "js_index s i")
  case None
  then show ?thesis using index_of_line_entries [of ax wide ls i] assms(2) by (simp add: js_content_def)
next
  case (Some sp)
  with index_of_line_entries [of ax wide ls i] assms(2) obtain n l where "line_for ax wide ls i = Some l" "sp = (n, length l)"
      "(n, l) \<in> set (line_spans 0 ls)"
    by (cases sp) auto
  with Some assms(1) read_at_span [of n l ls ax t] show ?thesis
    by (auto simp: js_content_def read_indexed_def stored_in_def res_simps split: sum.splits)
qed

lemma line_for_id: "line_for ax wide ls i = Some l \<Longrightarrow> id_of_line ax wide l = Some i \<and> l \<in> set ls"
  by (auto simp: line_for_def Let_def split: if_splits dest: last_in_set)

section \<open>Lines of records\<close>

lemma encode_record_line: "line_ok (encode_record r)"
  using encode_record_printable [of r] by (auto simp: line_ok_def list_all_iff)

lemma encode_record_head: "\<exists>l. encode_record r = CHR ''{'' # l"
  by (simp add: encode_record_def)

lemma id_of_encoded:
  assumes "utf8_ok (encode_record r)" "ar_capsule_id r \<noteq> []"
  shows "id_of_line ax wide (encode_record r) = Some (ar_capsule_id r)"
proof -
  obtain l where l: "encode_record r = CHR ''{'' # l" using encode_record_head by blast
  have "CHR 0x00 \<notin> set (encode_record r)"
    using encode_record_printable [of r] by (auto simp: list_all_iff)
  then have "plain_start (encode_record r)"
    using l by (auto simp: plain_start_def dest: in_set_takeD)
  then show ?thesis
    using assms l loads_encoded_record [of ax r] by (simp add: id_of_line_def peek_id_def loads_octets_def)
qed

lemma stored_encoded: "utf8_ok (encode_record r) \<Longrightarrow> stored_in ax i (encode_record r) = (if ar_capsule_id r = i then Some r else None)"
  by (simp add: stored_in_def decode_encode_record)


section \<open>Put\<close>

lemma byte_alnum: "is_alnum c \<Longrightarrow> byte c < 128"
  by (auto simp: is_alnum_def is_digit_def is_lower_def is_upper_def)

lemma valid_name_utf8: "valid_name s \<Longrightarrow> utf8_ok s"
  by (rule utf8_ok_ascii) (auto simp: valid_name_def name_char_def byte_alnum list_all_iff split: list.splits)

lemma valid_id_utf8: "valid_id s \<Longrightarrow> utf8_ok s"
  by (rule utf8_ok_ascii) (auto simp: valid_id_def hex_string_def is_hex_def is_digit_def list_all_iff)

lemma digest_at_utf8:
  assumes "digest_at capsule binding = Inr d"
  shows "utf8_ok binding"
proof (rule utf8_ok_ascii)
  have "list_all (\<lambda>ks. list_all (\<lambda>c. byte c < 128) (join_dots ks)) DIGEST_FIELDS"
    by (simp add: DIGEST_FIELDS_def PAYLOAD_DIGEST_def AGENT_OUTPUT_DIGEST_def EFFECT_REQUEST_DIGEST_def
        EFFECT_RESPONSE_DIGEST_def)
  moreover obtain ks where "ks \<in> set DIGEST_FIELDS" "join_dots ks = binding"
    using assms by (auto simp: digest_at_def find_Some_iff split: option.splits intro: nth_mem)
  ultimately show "list_all (\<lambda>c. byte c < 128) binding" by (auto simp: list_all_iff [of _ DIGEST_FIELDS])
qed

text \<open>Every octet string of a line is base 64, and every other string of an admitted record is plain ASCII.\<close>

lemma b64_utf8: "utf8_ok (b64_encode d)"
  by (rule utf8_ok_ascii) (use b64_encode_ascii [of d] in \<open>simp add: list_all_iff\<close>)

lemma json_utf8_wire:
  assumes "utf8_ok (a_name a)" "utf8_ok (a_binding a)" "utf8_ok (a_state a)" "utf8_ok (a_sha256 a)"
  shows "json_utf8 (wire_item a)"
proof -
  have keys: "utf8_ok ''name''" "utf8_ok ''binding''" "utf8_ok ''content''" "utf8_ok ''state''" "utf8_ok ''content_sha256''"
    by (rule utf8_ok_ascii, simp)+
  show ?thesis
    using assms keys by (cases "a_content a") (simp_all add: wire_item_def opt_str_def b64_utf8)
qed

lemma encoded_utf8:
  assumes "utf8_ok (ar_capsule_id r)" "\<forall>a \<in> set (ar_artifacts r). json_utf8 (wire_item a)"
  shows "utf8_ok (encode_record r)"
proof -
  have "utf8_ok ''capsule_id''" "utf8_ok ''capsule''" "utf8_ok ''producer_envelope''" "utf8_ok ''artifacts''"
    by (rule utf8_ok_ascii, simp)+
  with assms show ?thesis
    unfolding encode_record_def
    by (intro utf8_ok_dumps [of 0]) (simp_all add: wire_plain list_all_iff b64_utf8)
qed

lemma verified_binding:
  assumes "foldM_r (verify_artifact ax capsule) seen as = Inr res" "a \<in> set as"
  shows "valid_name (a_name a) \<and> a_state a \<in> {PRESENT, PURGED, NEVER_RETAINED} \<and>
    (a_binding a = [] \<or> (\<exists>d. digest_at capsule (a_binding a) = Inr d)) \<and>
    (a_state a = PRESENT \<or> a_sha256 a = [] \<or> valid_id (a_sha256 a))"
  using assms
proof (induction as arbitrary: seen)
  case Nil
  then show ?case by simp
next
  case (Cons b as)
  from Cons.prems(1) obtain seen' where b: "verify_artifact ax capsule seen b = Inr seen'"
      "foldM_r (verify_artifact ax capsule) seen' as = Inr res"
    by (auto simp: res_simps)
  show ?case
  proof (cases "a = b")
    case True
    with b(1) show ?thesis
      by (auto simp: verify_artifact_def res_simps split: option.splits if_splits)
  next
    case False
    with Cons.prems(2) Cons.IH [OF b(2)] show ?thesis by simp
  qed
qed

lemma admitted_utf8:
  assumes "admitted ax trusted r" "sha_ok ax"
  shows "utf8_ok (encode_record r)"
proof (rule encoded_utf8)
  from assms(1) obtain capsule res where v: "valid_id (ar_capsule_id r)"
      "foldM_r (verify_artifact ax capsule) [] (ar_artifacts r) = Inr res" "prepared_ok ax r"
    by (auto simp: admitted_def verify_record_def res_simps split: option.splits if_splits)
  show "utf8_ok (ar_capsule_id r)" by (rule valid_id_utf8) (rule v(1))
  show "\<forall>a \<in> set (ar_artifacts r). json_utf8 (wire_item a)"
  proof
    fix a
    assume a: "a \<in> set (ar_artifacts r)"
    note s = verified_binding [OF v(2) a]
    have "utf8_ok PRESENT" "utf8_ok PURGED" "utf8_ok NEVER_RETAINED" "utf8_ok []"
      by (rule utf8_ok_ascii, simp)+
    moreover have "utf8_ok (a_sha256 a)"
    proof (cases "a_state a = PRESENT")
      case True
      with v(3) a have "a_sha256 a = ax_sha256 ax (case a_content a of None \<Rightarrow> [] | Some c \<Rightarrow> c)"
        by (simp add: prepared_ok_def)
      with assms(2) show ?thesis by (simp add: sha_ok_def valid_id_utf8)
    qed (use s in \<open>auto intro: valid_id_utf8 utf8_ok_ascii\<close>)
    ultimately show "json_utf8 (wire_item a)"
      using s by (intro json_utf8_wire) (auto intro: valid_name_utf8 digest_at_utf8)
  qed
qed

text \<open>A read inside the old file is not changed by what is appended.\<close>

lemma last_unlines:
  assumes "line_ok t"
  shows "(unlines ls @ t \<noteq> [] \<and> last (unlines ls @ t) \<noteq> newline) \<longleftrightarrow> t \<noteq> []"
proof (cases "t = []")
  case True
  then show ?thesis by (cases ls rule: rev_cases) auto
next
  case False
  from last_in_set [OF this] have "last t \<noteq> newline" using assms by (metis line_ok_def)
  with False show ?thesis by simp
qed

lemma js_append_lines:
  assumes "js_append ax p (unlines ls @ t) s = Inr s'" "line_ok t"
  obtains ix where "utf8_ok (encode_record p)"
    "add_index (ax_json ax) (ar_capsule_id p) (ar_capsule p) (js_lookup s) = Inr ix"
    "s' = s\<lparr>js_file := Some (unlines (ls @ (if t = [] then [] else [t]) @ [encode_record p])),
      js_index := (js_index s)(ar_capsule_id p \<mapsto>
        (length (unlines (ls @ (if t = [] then [] else [t]))), length (encode_record p))),
      js_order := js_order s @ [ar_capsule_id p], js_lookup := ix\<rparr>"
  using assms(1) last_unlines [OF assms(2), of ls] that
  by (fastforce simp: js_append_def Let_def res_simps split: if_splits)

lemma js_put_cases:
  assumes "js_put ax trusted r s = Inr s'"
  obtains (new) p f where "admit ax trusted r = Inr p" "js_index s (ar_capsule_id p) = None" "js_file s = Some f"
      "js_append ax p f s = Inr s'"
  | (again) p old where "admit ax trusted r = Inr p" "js_content ax s (ar_capsule_id p) = Some old" "s' = s"
      "js_index s (ar_capsule_id p) \<noteq> None" "\<exists>res. verify_record ax trusted old = Inr res"
      "storage_checksum ax old = storage_checksum ax p" "\<not> has_purged old"
proof -
  from assms obtain p v where p: "prepare ax r = Inr p" "verify_record ax trusted p = Inr v"
    by (auto simp: js_put_def res_simps)
  then have adm: "admit ax trusted r = Inr p" by (simp add: admit_def)
  show thesis
  proof (cases "js_index s (ar_capsule_id p)")
    case None
    with assms p have "\<exists>f. js_file s = Some f \<and> js_append ax p f s = Inr s'"
      by (auto simp: js_put_def split: option.splits)
    with new adm None show thesis by blast
  next
    case (Some sp)
    with assms p obtain old res where "read_indexed ax s (ar_capsule_id p) sp = Inr old" "verify_record ax trusted old = Inr res"
        "storage_checksum ax old = storage_checksum ax p" "\<not> has_purged old" "s' = s"
      by (auto simp: js_put_def res_simps split: if_splits)
    with again adm Some show thesis by (auto simp: js_content_def)
  qed
qed

lemma line_for_none: "id_of_line ax wide t = None \<Longrightarrow>
    line_for ax wide (ls @ (if t = [] then [] else [t])) i = line_for ax wide ls i"
  by (simp add: line_for_snoc)

lemma entries_torn:
  assumes "id_of_line ax wide t = None"
  shows "index_of_lines (entries ax wide (ls @ (if t = [] then [] else [t]))) = index_of_lines (entries ax wide ls)"
    "order_of (entries ax wide (ls @ (if t = [] then [] else [t]))) = order_of (entries ax wide ls)"
  using assms by (simp_all add: entries_append index_of_lines_snoc order_of_snoc)

lemma order_index: "i \<in> set (order_of (entries ax wide ls)) \<longleftrightarrow> index_of_lines (entries ax wide ls) i \<noteq> None"
proof (induction ls rule: rev_induct)
  case Nil
  then show ?case by (simp add: entries_def index_of_lines_def order_of_def)
next
  case (snoc l ls)
  then show ?case by (auto simp: entries_append index_of_lines_snoc order_of_snoc split: option.splits)
qed

text \<open>What a put writes: the lines, index and order afterwards are those of a file with one more line.\<close>

lemma js_append_inv:
  assumes inv: "js_inv ax wide s" and f: "js_file s = Some f" and new: "js_index s (ar_capsule_id p) = None"
    and put: "js_append ax p f s = Inr s'" and id: "ar_capsule_id p \<noteq> []"
  shows "js_inv ax wide s' \<and> js_content ax s' = (js_content ax s)(ar_capsule_id p \<mapsto> p) \<and>
    js_order s' = js_order s @ [ar_capsule_id p] \<and> js_file s' \<noteq> None"
proof -
  obtain ls t where lines: "f = unlines ls @ t" "list_all line_ok ls" "line_ok t" "split_lines f = (ls, t)"
      "js_index s = index_of_lines (entries ax wide ls)" "js_order s = order_of (entries ax wide ls)" "id_of_line ax wide t = None"
    using inv f by (rule js_inv_lines)
  define ks where "ks = ls @ (if t = [] then [] else [t])"
  obtain ix where s': "utf8_ok (encode_record p)"
    "s' = s\<lparr>js_file := Some (unlines (ks @ [encode_record p])),
      js_index := (js_index s)(ar_capsule_id p \<mapsto> (length (unlines ks), length (encode_record p))),
      js_order := js_order s @ [ar_capsule_id p], js_lookup := ix\<rparr>"
    using put [unfolded lines(1)] lines(3) by (rule js_append_lines) (auto simp: ks_def)
  have ok: "list_all line_ok (ks @ [encode_record p])"
    using lines(2,3) by (simp add: ks_def encode_record_line)
  note enc = id_of_encoded [OF s'(1) id, of ax wide]
  note torn = entries_torn [OF lines(7), of ls, folded ks_def]
  have entries: "entries_of ax wide (unlines (ks @ [encode_record p])) = entries ax wide (ks @ [encode_record p])"
    using entries_of_unlines [OF ok, of "[]"] by (simp add: line_ok_def del: unlines_simps)
  have split: "snd (split_lines (unlines (ks @ [encode_record p]))) = []"
    using split_unlines [OF ok, of "[]"] by (simp add: line_ok_def del: unlines_simps)
  have index: "js_index s' = index_of_lines (entries ax wide (ks @ [encode_record p]))"
    using s'(2) enc torn lines(5) by (simp add: entries_append index_of_lines_snoc)
  have order: "js_order s' = order_of (entries ax wide (ks @ [encode_record p]))"
    using s'(2) enc torn lines(5,6) new order_index [of "ar_capsule_id p" ax wide ls]
    by (simp add: entries_append order_of_snoc)
  have "js_inv ax wide s'"
    using index order split entries s'(2) by (simp add: js_inv_def id_of_line_def del: unlines_simps)
  moreover have "js_content ax s' = (js_content ax s)(ar_capsule_id p \<mapsto> p)"
  proof
    fix i
    have "js_content ax s' i = Option.bind (line_for ax wide (ks @ [encode_record p]) i) (stored_in ax i)"
      using js_content_lines [of s' "ks @ [encode_record p]" "[]" ax wide i] index s'(2) by (simp del: unlines_simps)
    also have "\<dots> = (if i = ar_capsule_id p then Some p else Option.bind (line_for ax wide ls i) (stored_in ax i))"
      using enc line_for_none [OF lines(7), of ls i, folded ks_def] by (simp add: line_for_snoc stored_encoded [OF s'(1)])
    also have "\<dots> = ((js_content ax s)(ar_capsule_id p \<mapsto> p)) i"
      using js_content_lines [OF f [unfolded lines(1)] lines(5)] by simp
    finally show "js_content ax s' i = ((js_content ax s)(ar_capsule_id p \<mapsto> p)) i" .
  qed
  ultimately show ?thesis using s'(2) by simp
qed

lemma js_put_inv:
  assumes "js_inv ax wide s" "js_put ax trusted r s = Inr s'"
  shows "js_inv ax wide s'"
  using assms(2)
proof (cases rule: js_put_cases)
  case (new p f)
  then have "ar_capsule_id p \<noteq> []"
    by (auto simp: admit_def verify_record_def res_simps valid_id_nonempty)
  from js_append_inv [OF assms(1) new(3,2,4) this] show ?thesis by blast
qed (use assms in simp)

section \<open>Purge\<close>

lemma order_of_ids: "map fst es = map fst es' \<Longrightarrow> order_of es = order_of es'"
proof (induction es arbitrary: es' rule: rev_induct)
  case (snoc e es)
  then obtain ds d where "es' = ds @ [d]" by (cases es' rule: rev_cases) auto
  with snoc show ?case by (cases e; cases d) (auto simp: order_of_snoc split: option.splits)
qed simp

definition replaced :: "artifact_ext \<Rightarrow> (octets \<Rightarrow> json option) \<Rightarrow> string \<Rightarrow> octets \<Rightarrow> octets list \<Rightarrow> octets list" where
  "replaced ax wide i replacement ls = map (\<lambda>l. if id_of_line ax wide l = Some i then replacement else l) ls"

lemma entries_fst: "map fst (entries ax wide ls) = map (id_of_line ax wide) ls"
proof -
  have "map fst (entries ax wide ls) = map (id_of_line ax wide) (map snd (line_spans 0 ls))"
    unfolding entries_def map_map by (rule map_cong) auto
  then show ?thesis by simp
qed

lemma entries_zip: "entries ax wide ls = zip (map (id_of_line ax wide) ls) (line_spans 0 ls)"
proof -
  have "entries ax wide ls = zip (map fst (entries ax wide ls)) (map snd (entries ax wide ls))"
    by (simp add: zip_map_fst_snd)
  moreover have "map snd (entries ax wide ls) = line_spans 0 ls" by (simp add: entries_def case_prod_unfold comp_def)
  ultimately show ?thesis by (simp add: entries_fst)
qed

lemma replaced_ids:
  "id_of_line ax wide replacement = Some i \<Longrightarrow>
    map (id_of_line ax wide) (replaced ax wide i replacement ls) = map (id_of_line ax wide) ls"
  by (simp add: replaced_def)

lemma replaced_ok: "list_all line_ok ls \<Longrightarrow> line_ok replacement \<Longrightarrow> list_all line_ok (replaced ax wide i replacement ls)"
  by (auto simp: replaced_def list_all_iff)

lemma line_for_replaced:
  assumes "id_of_line ax wide replacement = Some i"
  shows "line_for ax wide (replaced ax wide i replacement ls) j =
    (if j = i \<and> line_for ax wide ls i \<noteq> None then Some replacement else line_for ax wide ls j)"
  using assms by (induction ls rule: rev_induct) (auto simp: replaced_def line_for_snoc, auto simp: line_for_def)

lemma js_rewrite_lines:
  assumes "js_file s = Some (unlines ls @ t)" "list_all line_ok ls" "line_ok t" "js_rewrite ax wide i replacement s = Inr s'"
    "id_of_line ax wide replacement = Some i"
  shows "s' = s\<lparr>js_file := Some (unlines (replaced ax wide i replacement ls) @ t),
    js_index := index_of_lines (entries ax wide (replaced ax wide i replacement ls))\<rparr>"
proof -
  have lines: "map (\<lambda>(j, offset, line). if j = Some i then replacement else line) (entries ax wide ls)
      = replaced ax wide i replacement ls"
  proof -
    have "map (\<lambda>(j, offset, line). if j = Some i then replacement else line) (entries ax wide ls)
        = map (\<lambda>l. if id_of_line ax wide l = Some i then replacement else l) (map snd (line_spans 0 ls))"
      unfolding entries_def map_map by (rule map_cong) auto
    then show ?thesis by (simp add: replaced_def)
  qed
  show ?thesis
    using assms(1,4) entries_of_unlines [OF assms(2,3), of ax wide] split_unlines [OF assms(2,3)] replaced_ids [OF assms(5), of ls]
    by (auto simp: js_rewrite_def lines entries_fst entries_zip [of ax wide "replaced ax wide i replacement ls"] Let_def
        split: if_splits)
qed

lemma js_purge_cases:
  assumes "js_purge ax wide i s = Inr s'"
  obtains r where "js_content ax s i = Some r" "js_index s i \<noteq> None" "utf8_ok (encode_record (purged_copy r))" "valid_id i"
    "ar_capsule_id r = i" "js_rewrite ax wide i (encode_record (purged_copy r)) s = Inr s'"
  using assms
  by (auto simp: js_purge_def js_content_def read_indexed_def Let_def res_simps split: option.splits if_splits)

lemma js_purge_effect:
  assumes inv: "js_inv ax wide s" and purge: "js_purge ax wide i s = Inr s'"
  shows "js_inv ax wide s' \<and> js_order s' = js_order s \<and> js_lookup s' = js_lookup s \<and> js_file s' \<noteq> None \<and>
    (\<exists>r. js_content ax s i = Some r \<and> js_content ax s' = (js_content ax s)(i \<mapsto> purged_copy r))"
proof -
  obtain r where r: "js_content ax s i = Some r" "js_index s i \<noteq> None" "utf8_ok (encode_record (purged_copy r))" "valid_id i"
      "ar_capsule_id r = i" "js_rewrite ax wide i (encode_record (purged_copy r)) s = Inr s'"
    using purge by (rule js_purge_cases)
  then obtain f where f: "js_file s = Some f" by (auto simp: js_rewrite_def split: option.splits)
  obtain ls t where lines: "f = unlines ls @ t" "list_all line_ok ls" "line_ok t" "split_lines f = (ls, t)"
      "js_index s = index_of_lines (entries ax wide ls)" "js_order s = order_of (entries ax wide ls)" "id_of_line ax wide t = None"
    using inv f by (rule js_inv_lines)
  let ?l = "encode_record (purged_copy r)"
  have enc: "id_of_line ax wide ?l = Some i"
    using id_of_encoded [OF r(3)] r(4,5) valid_id_nonempty by (auto simp: purged_copy_def)
  define ks where "ks = replaced ax wide i ?l ls"
  note s' = js_rewrite_lines [OF f [unfolded lines(1)] lines(2,3) r(6) enc, folded ks_def]
  have ok: "list_all line_ok ks"
    unfolding ks_def by (rule replaced_ok [OF lines(2) encode_record_line])
  have order: "order_of (entries ax wide ks) = order_of (entries ax wide ls)"
    by (rule order_of_ids) (simp add: entries_fst replaced_ids [OF enc] ks_def)
  have "js_inv ax wide s'"
    using s' order lines(6,7) entries_of_unlines [OF ok lines(3)] split_unlines [OF ok lines(3)]
    by (simp add: js_inv_def)
  moreover have "js_content ax s' = (js_content ax s)(i \<mapsto> purged_copy r)"
  proof
    fix j
    have "js_content ax s j = Option.bind (line_for ax wide ls j) (stored_in ax j)" for j
      by (rule js_content_lines [OF f [unfolded lines(1)] lines(5)])
    moreover from this [of i] r(1) have "line_for ax wide ls i \<noteq> None" by (cases "line_for ax wide ls i") auto
    moreover have "js_content ax s' j = Option.bind (line_for ax wide ks j) (stored_in ax j)"
      by (rule js_content_lines [of _ _ t]) (simp_all add: s')
    ultimately show "js_content ax s' j = ((js_content ax s)(i \<mapsto> purged_copy r)) j"
      using r(5) by (simp add: ks_def line_for_replaced [OF enc] stored_encoded [OF r(3)])
  qed
  ultimately show ?thesis
    using r(1) s' by auto
qed

interpretation jsonl: artifact_store ax trusted "js_inv ax wide" "js_content ax" "js_put ax trusted" "js_get ax trusted"
    "js_purge ax wide"
  for ax trusted wide
proof unfold_locales
  fix s s' :: jsonl_store and r p old i
  assume inv: "js_inv ax wide s"
  show "\<exists>p. admit ax trusted r = Inr p" if "js_put ax trusted r s = Inr s'"
    using that by (rule js_put_cases) auto
  show "js_content ax s' = (js_content ax s)(ar_capsule_id p \<mapsto> p)"
    if "js_put ax trusted r s = Inr s'" "admit ax trusted r = Inr p" "js_content ax s (ar_capsule_id p) = None"
    using that(1)
  proof (cases rule: js_put_cases)
    case (new q f)
    then have "ar_capsule_id q \<noteq> []"
      by (auto simp: admit_def verify_record_def res_simps valid_id_nonempty)
    with js_append_inv [OF inv new(3,2,4)] new(1) that(2) show ?thesis by simp
  qed (use that in auto)
  show "js_content ax s' = js_content ax s \<and> storage_checksum ax old = storage_checksum ax p \<and> \<not> has_purged old"
    if "js_put ax trusted r s = Inr s'" "admit ax trusted r = Inr p" "js_content ax s (ar_capsule_id p) = Some old"
    using that(1) by (cases rule: js_put_cases) (use that in \<open>auto simp: js_content_def\<close>)
  show "\<exists>r. js_content ax s i = Some r \<and> js_content ax s' = (js_content ax s)(i \<mapsto> purged_copy r)"
    if "js_purge ax wide i s = Inr s'"
    using js_purge_effect [OF inv that] by blast
  show "js_content ax s i = Some r \<and> (\<exists>res. verify_record ax trusted r = Inr res)" if "js_get ax trusted i s = Inr r"
    using that by (auto simp: js_get_def js_content_def res_simps split: option.splits if_splits)
  show "js_inv ax wide s'" if "js_put ax trusted r s = Inr s'"
    using inv that by (rule js_put_inv)
  show "js_inv ax wide s'" if "js_purge ax wide i s = Inr s'"
    using js_purge_effect [OF inv that] by blast
qed

section \<open>The store refines the memory store\<close>

text \<open>The calls of one process on an open store; a call that raises leaves the store as it was (the file exists).\<close>

fun js_call :: "artifact_ext \<Rightarrow> (octets \<Rightarrow> json option) \<Rightarrow> octets list \<Rightarrow> mem_op \<Rightarrow> jsonl_store \<Rightarrow> artifact_error + jsonl_store" where
  "js_call ax wide trusted (MPut r) s = js_put ax trusted r s"
| "js_call ax wide trusted (MPurge i) s = js_purge ax wide i s"
| "js_call ax wide trusted (MInitIndex paths) s = js_init_index ax paths s"
| "js_call ax wide trusted (MReindex paths) s = js_reindex ax paths s"

fun mem_call :: "artifact_ext \<Rightarrow> octets list \<Rightarrow> mem_op \<Rightarrow> mem_store \<Rightarrow> artifact_error + mem_store" where
  "mem_call ax trusted (MPut r) s = mem_put ax trusted r s"
| "mem_call ax trusted (MPurge i) s = mem_purge i s"
| "mem_call ax trusted (MInitIndex paths) s = mem_init_index ax paths s"
| "mem_call ax trusted (MReindex paths) s = mem_reindex ax paths s"

definition js_step :: "artifact_ext \<Rightarrow> (octets \<Rightarrow> json option) \<Rightarrow> octets list \<Rightarrow> mem_op \<Rightarrow> jsonl_store \<Rightarrow> jsonl_store" where
  "js_step ax wide trusted op s = (case js_call ax wide trusted op s of Inl _ \<Rightarrow> s | Inr s' \<Rightarrow> s')"

definition js_run :: "artifact_ext \<Rightarrow> (octets \<Rightarrow> json option) \<Rightarrow> octets list \<Rightarrow> mem_op list \<Rightarrow> jsonl_store \<Rightarrow> jsonl_store" where
  "js_run ax wide trusted ops s = fold (js_step ax wide trusted) ops s"

definition js_sim :: "artifact_ext \<Rightarrow> (octets \<Rightarrow> json option) \<Rightarrow> octets list \<Rightarrow> jsonl_store \<Rightarrow> mem_store \<Rightarrow> bool" where
  "js_sim ax wide trusted s m \<longleftrightarrow>
     js_inv ax wide s \<and> mem_inv ax trusted m \<and> js_file s \<noteq> None \<and> js_content ax s = ms_records m \<and>
     js_order s = ms_order m \<and> js_lookup s = ms_lookup m"

definition call_sim :: "artifact_ext \<Rightarrow> (octets \<Rightarrow> json option) \<Rightarrow> octets list \<Rightarrow>
    (artifact_error + jsonl_store) \<Rightarrow> (artifact_error + mem_store) \<Rightarrow> bool" where
  "call_sim ax wide trusted x y \<longleftrightarrow>
     (case (x, y) of (Inl e, Inl e') \<Rightarrow> e = e' | (Inr s, Inr m) \<Rightarrow> js_sim ax wide trusted s m | _ \<Rightarrow> False)"

lemma sim_index:
  assumes "js_sim ax wide trusted s m"
  shows "(case ms_records m i of None \<Rightarrow> js_index s i = None
    | Some r \<Rightarrow> \<exists>sp. js_index s i = Some sp \<and> read_indexed ax s i sp = Inr r)"
proof -
  obtain f where f: "js_file s = Some f" using assms by (auto simp: js_sim_def)
  have "js_inv ax wide s" using assms by (simp add: js_sim_def)
  then obtain ls t where "js_index s = index_of_lines (entries ax wide ls)" "js_order s = order_of (entries ax wide ls)"
    using f by (rule js_inv_lines)
  then have "js_index s i \<noteq> None \<longleftrightarrow> i \<in> set (js_order s)" using order_index [of i ax wide ls] by simp
  also have "\<dots> \<longleftrightarrow> ms_records m i \<noteq> None" using assms by (auto simp: js_sim_def mem_inv_def)
  finally have "js_index s i \<noteq> None \<longleftrightarrow> ms_records m i \<noteq> None" .
  moreover have "js_content ax s i = ms_records m i" using assms by (simp add: js_sim_def)
  ultimately show ?thesis
    by (cases "js_index s i"; cases "ms_records m i") (auto simp: js_content_def split: sum.splits)
qed

lemma sim_get:
  assumes "js_sim ax wide trusted s m"
  shows "js_get ax trusted i s = mem_get ax trusted i m"
  using sim_index [OF assms, of i] by (auto simp: js_get_def mem_get_def split: option.splits)

lemma sim_put:
  assumes sim: "js_sim ax wide trusted s m" and sha: "sha_ok ax"
  shows "call_sim ax wide trusted (js_put ax trusted r s) (mem_put ax trusted r m)"
proof (cases "admit ax trusted r")
  case (Inl e)
  then show ?thesis
    by (cases "prepare ax r") (auto simp: admit_def js_put_def mem_put_def call_sim_def res_simps split: sum.splits)
next
  case (Inr p)
  then obtain v where p: "prepare ax r = Inr p" "verify_record ax trusted p = Inr v"
    by (auto simp: admit_def res_simps)
  let ?i = "ar_capsule_id p"
  have inv: "js_inv ax wide s" "mem_inv ax trusted m" and eq: "js_content ax s = ms_records m" "js_order s = ms_order m"
      "js_lookup s = ms_lookup m"
    using sim by (simp_all add: js_sim_def)
  obtain f where f: "js_file s = Some f" using sim by (auto simp: js_sim_def)
  show ?thesis
  proof (cases "ms_records m ?i")
    case (Some old)
    with sim_index [OF sim, of ?i] obtain sp where "js_index s ?i = Some sp" "read_indexed ax s ?i sp = Inr old" by auto
    moreover obtain w where "verify_record ax trusted old = Inr w"
      using inv(2) Some by (metis mem_inv_def admitted_def)
    ultimately show ?thesis
      using p Some sim by (simp add: js_put_def mem_put_def Let_def call_sim_def)
  next
    case None
    with sim_index [OF sim, of ?i] have idx: "js_index s ?i = None" by simp
    have adm: "admitted ax trusted p" using admit_admitted [OF Inr] by simp
    have js: "js_put ax trusted r s = js_append ax p f s" using p idx f by (simp add: js_put_def)
    show ?thesis
    proof (cases "add_index (ax_json ax) ?i (ar_capsule p) (ms_lookup m)")
      case (Inl e)
      then show ?thesis
        using p None js eq(3) admitted_utf8 [OF adm sha] by (simp add: mem_put_def js_append_def Let_def call_sim_def)
    next
      case (Inr ix)
      define m' where "m' = m\<lparr>ms_records := (ms_records m)(?i \<mapsto> p), ms_order := ms_order m @ [?i], ms_lookup := ix\<rparr>"
      have m': "mem_put ax trusted r m = Inr m'" using p None Inr by (simp add: mem_put_def m'_def)
      obtain s' where s': "js_append ax p f s = Inr s'" "js_lookup s' = ix"
        using Inr eq(3) admitted_utf8 [OF adm sha] by (simp add: js_append_def Let_def)
      have "?i \<noteq> []" using p(2) by (auto simp: verify_record_def res_simps valid_id_nonempty)
      from js_append_inv [OF inv(1) f idx s'(1) this] mem_put_inv [OF inv(2) m'] s' m' js eq
      show ?thesis by (simp add: call_sim_def js_sim_def) (simp add: m'_def)
    qed
  qed
qed

lemma sim_purge:
  assumes sim: "js_sim ax wide trusted s m" and sha: "sha_ok ax"
  shows "call_sim ax wide trusted (js_purge ax wide i s) (mem_purge i m)"
proof (cases "valid_id i \<and> ms_records m i \<noteq> None")
  case False
  with sim_index [OF sim, of i] show ?thesis
    by (auto simp: js_purge_def mem_purge_def call_sim_def split: option.splits)
next
  case True
  then obtain r where r: "ms_records m i = Some r" by auto
  with sim_index [OF sim, of i] obtain sp where sp: "js_index s i = Some sp" "read_indexed ax s i sp = Inr r" by auto
  have inv: "js_inv ax wide s" "mem_inv ax trusted m" and eq: "js_content ax s = ms_records m" "js_order s = ms_order m"
      "js_lookup s = ms_lookup m"
    using sim by (simp_all add: js_sim_def)
  obtain f where f: "js_file s = Some f" using sim by (auto simp: js_sim_def)
  have "admitted ax trusted r" using inv(2) r by (auto simp: mem_inv_def)
  then have utf8: "utf8_ok (encode_record (purged_copy r))" using admitted_utf8 [OF admitted_purged [OF _ sha] sha] by blast
  have "index_of_lines (entries_of ax wide f) i \<noteq> None" using inv(1) f sp(1) by (simp add: js_inv_def)
  then have "list_ex (\<lambda>(j, offset, line). j = Some i) (entries_of ax wide f)"
    using order_index [of i ax wide "fst (split_lines f)"] by (force simp: entries_of_def set_order_of list_ex_iff)
  then obtain s' where s': "js_purge ax wide i s = Inr s'"
    using True sp utf8 f by (simp add: js_purge_def js_rewrite_def Let_def)
  define m' where "m' = m\<lparr>ms_records := (ms_records m)(i \<mapsto> purged_copy r)\<rparr>"
  have m': "mem_purge i m = Inr m'" using True r by (simp add: mem_purge_def m'_def)
  from js_purge_effect [OF inv(1) s'] mem_purge_inv [OF inv(2) sha m'] s' m' eq r
  show ?thesis by (simp add: call_sim_def js_sim_def) (simp add: m'_def)
qed

text \<open>Rebuilding the index reads every record back from the file.\<close>

lemma foldM_r_cong: "(\<And>x y. y \<in> set ys \<Longrightarrow> f x y = g x y) \<Longrightarrow> foldM_r f x ys = foldM_r g x ys"
proof (induction ys arbitrary: x)
  case (Cons y ys)
  then have "f x y = g x y" by simp
  moreover have "foldM_r f z ys = foldM_r g z ys" for z using Cons by simp
  ultimately show ?case by (cases "g x y") simp_all
qed simp

lemma sim_rebuilt:
  assumes sim: "js_sim ax wide trusted s m"
  shows "js_rebuilt ax paths s = index_all ax m (reset_index paths ix)"
proof -
  have inv: "mem_inv ax trusted m" and order: "js_order s = ms_order m" using sim by (simp_all add: js_sim_def)
  have "add_readable ax s ix i = add_index (ax_json ax) i (ar_capsule (the (ms_records m i))) ix"
    if i: "i \<in> set (ms_order m)" for ix i
  proof -
    obtain r where r: "ms_records m i = Some r" using i inv by (auto simp: mem_inv_def)
    with sim_index [OF sim, of i] obtain sp where sp: "js_index s i = Some sp" "read_indexed ax s i sp = Inr r" by auto
    then have rd: "read_at ax (js_file s) sp = Inr r" "ar_capsule_id r = i"
      by (auto simp: read_indexed_def res_simps split: if_splits)
    have "admitted ax trusted r" using inv r by (auto simp: mem_inv_def)
    then have "\<exists>e. extract_entries (ax_json ax) (ar_capsule r) ps = Inr e" for ps
      using admitted_extract by metis
    then have "\<exists>ix'. add_index (ax_json ax) i (ar_capsule r) ix = Inr ix'"
      by (auto simp: add_index_def Let_def res_simps split: option.splits)
    with r sp rd show ?thesis by (auto simp: add_readable_def)
  qed
  then show ?thesis
    unfolding js_rebuilt_def index_all_def order reset_index_def by (rule foldM_r_cong)
qed

lemma js_init_sim: "js_sim ax wide trusted s m \<Longrightarrow> js_init s = s"
  by (simp add: js_sim_def js_init_def)

lemma js_lookup_update [simp]:
  "js_inv ax wide (s\<lparr>js_lookup := ix\<rparr>) = js_inv ax wide s" "js_content ax (s\<lparr>js_lookup := ix\<rparr>) = js_content ax s"
  by (simp_all add: js_inv_def js_content_def read_indexed_def fun_eq_iff cong: option.case_cong)

lemma sim_lookup:
  assumes "js_sim ax wide trusted s m" "mem_inv ax trusted (m\<lparr>ms_lookup := ix\<rparr>)"
  shows "js_sim ax wide trusted (s\<lparr>js_lookup := ix\<rparr>) (m\<lparr>ms_lookup := ix\<rparr>)"
  using assms by (simp add: js_sim_def)

lemma sim_reindex:
  assumes sim: "js_sim ax wide trusted s m"
  shows "call_sim ax wide trusted (js_reindex ax paths s) (mem_reindex ax paths m)"
proof (cases "mem_reindex ax paths m")
  case (Inl e)
  then show ?thesis
    by (auto simp: js_reindex_def mem_reindex_def js_init_sim [OF sim] sim_rebuilt [OF sim, of _ "ms_lookup m"] call_sim_def
        Let_def res_simps split: sum.splits)
next
  case (Inr m')
  then obtain ps ix where ps: "normalize_paths paths = Inr ps" "index_all ax m (reset_index ps (ms_lookup m)) = Inr ix"
      "m' = m\<lparr>ms_lookup := ix\<rparr>"
    by (auto simp: mem_reindex_def res_simps)
  have "mem_inv ax trusted m'" using mem_reindex_inv [OF _ Inr] sim by (simp add: js_sim_def)
  with ps sim_lookup [OF sim, of ix] show ?thesis
    by (simp add: Inr js_reindex_def js_init_sim [OF sim] sim_rebuilt [OF sim, of _ "ms_lookup m"] call_sim_def Let_def)
qed

lemma sim_init_index:
  assumes sim: "js_sim ax wide trusted s m"
  shows "call_sim ax wide trusted (js_init_index ax paths s) (mem_init_index ax paths m)"
proof (cases "normalize_paths paths")
  case (Inl e)
  then show ?thesis by (simp add: js_init_index_def mem_init_index_def declare_index_def call_sim_def)
next
  case (Inr ps)
  have lookup: "js_lookup s = ms_lookup m" using sim by (simp add: js_sim_def)
  show ?thesis
  proof (cases "x_paths (ms_lookup m)")
    case (Some qs)
    with Inr lookup sim show ?thesis
      by (simp add: js_init_index_def mem_init_index_def declare_index_def js_init_sim [OF sim] call_sim_def Let_def)
  next
    case None
    note defs = js_init_index_def mem_init_index_def declare_index_def js_init_sim [OF sim] sim_rebuilt [OF sim, of _ "ms_lookup m"]
    show ?thesis
    proof (cases "index_all ax m (reset_index ps (ms_lookup m))")
      case (Inl e)
      with Inr None lookup show ?thesis by (simp add: defs call_sim_def Let_def)
    next
      case (Inr ix)
      have m': "mem_init_index ax paths m = Inr (m\<lparr>ms_lookup := ix\<rparr>)"
        using \<open>normalize_paths paths = Inr ps\<close> None Inr by (simp add: mem_init_index_def declare_index_def)
      then have "mem_inv ax trusted (m\<lparr>ms_lookup := ix\<rparr>)"
        using mem_init_index_inv [OF _ m'] sim by (simp add: js_sim_def)
      from sim_lookup [OF sim this] \<open>normalize_paths paths = Inr ps\<close> None Inr lookup m' show ?thesis
        by (simp add: js_init_index_def js_init_sim [OF sim] sim_rebuilt [OF sim, of _ "ms_lookup m"] call_sim_def Let_def)
    qed
  qed
qed

lemma sim_call:
  "js_sim ax wide trusted s m \<Longrightarrow> sha_ok ax \<Longrightarrow> call_sim ax wide trusted (js_call ax wide trusted op s) (mem_call ax trusted op m)"
  by (cases op) (simp_all add: sim_put sim_purge sim_init_index sim_reindex)

lemma mem_step_call: "mem_step ax trusted op m = (case mem_call ax trusted op m of Inl _ \<Rightarrow> m | Inr m' \<Rightarrow> m')"
  by (cases op) simp_all

lemma sim_step:
  "js_sim ax wide trusted s m \<Longrightarrow> sha_ok ax \<Longrightarrow> js_sim ax wide trusted (js_step ax wide trusted op s) (mem_step ax trusted op m)"
  using sim_call [of ax wide trusted s m op]
  by (auto simp: js_step_def mem_step_call call_sim_def split: sum.splits)

lemma sim_fold:
  "js_sim ax wide trusted s m \<Longrightarrow> sha_ok ax \<Longrightarrow>
    js_sim ax wide trusted (fold (js_step ax wide trusted) ops s) (fold (mem_step ax trusted) ops m)"
  by (induction ops arbitrary: s m) (simp_all add: sim_step)

definition js_fresh :: jsonl_store where
  "js_fresh = \<lparr>js_file = Some [], js_index = (\<lambda>_. None), js_order = [], js_lookup = empty_index\<rparr>"

lemma js_fresh_init: "js_init (js_open ax wide None) = js_fresh"
  by (simp add: js_init_def js_open_def js_fresh_def)

lemma js_fresh_sim: "js_sim ax wide trusted js_fresh mem_empty"
proof -
  have "js_inv ax wide js_fresh"
    by (simp add: js_inv_def js_fresh_def entries_of_def entries_def index_of_lines_def order_of_def id_of_line_def)
  moreover have "js_content ax js_fresh = ms_records mem_empty"
    by (rule ext) (simp add: js_content_def js_fresh_def mem_empty_def)
  ultimately show ?thesis
    using mem_empty_inv by (simp add: js_sim_def) (simp add: js_fresh_def mem_empty_def)
qed

lemma js_run_sim: "sha_ok ax \<Longrightarrow> js_sim ax wide trusted (js_run ax wide trusted ops js_fresh) (mem_run ax trusted ops)"
  unfolding js_run_def mem_run_def by (rule sim_fold [OF js_fresh_sim])

section \<open>Properties\<close>

lemma js_init_inv: "js_inv ax wide s \<Longrightarrow> js_inv ax wide (js_init s) \<and> js_content ax (js_init s) = js_content ax s"
  by (auto simp: js_init_def js_inv_def js_content_def entries_of_def entries_def index_of_lines_def order_of_def id_of_line_def)

lemma js_step_effect:
  assumes "js_inv ax wide s"
  shows "js_inv ax wide (js_step ax wide trusted op s) \<and>
    (js_content ax s i = Some r \<longrightarrow> js_content ax (js_step ax wide trusted op s) i \<in> {Some r, Some (purged_copy r)})"
proof (cases op)
  case (MPut q)
  then have step: "js_step ax wide trusted op s = store_step (js_put ax trusted) (js_purge ax wide) (Put q) s"
    by (simp add: js_step_def)
  show ?thesis
    using jsonl.step_inv [OF assms, of trusted "Put q"] jsonl.step_content [OF assms, of i r trusted "Put q"] by (auto simp: step)
next
  case (MPurge j)
  then have step: "js_step ax wide trusted op s = store_step (js_put ax trusted) (js_purge ax wide) (Purge j) s"
    by (simp add: js_step_def)
  show ?thesis
    using jsonl.step_inv [OF assms, of trusted "Purge j"] jsonl.step_content [OF assms, of i r trusted "Purge j"] by (auto simp: step)
next
  case (MInitIndex paths)
  with js_init_inv [OF assms] assms show ?thesis
    by (auto simp: js_step_def js_init_index_def Let_def res_simps split: sum.splits option.splits if_splits)
next
  case (MReindex paths)
  with js_init_inv [OF assms] assms show ?thesis
    by (auto simp: js_step_def js_reindex_def Let_def res_simps split: sum.splits)
qed

lemma js_run_effect:
  assumes "js_inv ax wide s"
  shows "js_inv ax wide (js_run ax wide trusted ops s) \<and>
    (js_content ax s i = Some r \<longrightarrow> js_content ax (js_run ax wide trusted ops s) i \<in> {Some r, Some (purged_copy r)})"
  using assms
proof (induction ops arbitrary: s r)
  case Nil
  then show ?case by (simp add: js_run_def)
next
  case (Cons op ops)
  let ?s = "js_step ax wide trusted op s"
  have step: "js_inv ax wide ?s" "js_content ax s i = Some r \<Longrightarrow> js_content ax ?s i \<in> {Some r, Some (purged_copy r)}"
    using js_step_effect [OF Cons.prems, of trusted op i r] by auto
  have "js_run ax wide trusted (op # ops) s = js_run ax wide trusted ops ?s" by (simp add: js_run_def)
  with Cons.IH [OF step(1), of r] Cons.IH [OF step(1), of "purged_copy r"] step(2) show ?case
    by (auto simp: purged_copy_idem)
qed

lemma js_inv_reopen: "js_inv ax wide s \<Longrightarrow> js_open ax wide (js_file s) = s\<lparr>js_lookup := empty_index\<rparr>"
  by (cases s) (auto simp: js_inv_def js_open_def split: option.splits)

text \<open>C33: Whatever puts, purges and index calls a process makes on a store file, and whatever was in the file, opening the
  file again gives the index, the admission order and the records the process had, all but the declaration of index
  paths; and a record of the old file is still there, unchanged or purged.  The file it began with must not end in a
  record that lost only its newline.\<close>

theorem reopening_restores_the_store:
  assumes "id_of_line ax wide (snd (split_lines f)) = None" "s = js_run ax wide trusted ops (js_open ax wide (Some f))"
  shows "js_open ax wide (js_file s) = s\<lparr>js_lookup := empty_index\<rparr> \<and>
    js_content ax (js_open ax wide (js_file s)) = js_content ax s \<and>
    (js_content ax (js_open ax wide (Some f)) i = Some r \<longrightarrow> js_content ax s i \<in> {Some r, Some (purged_copy r)})"
proof -
  have inv: "js_inv ax wide (js_open ax wide (Some f))" by (rule js_open_inv) (use assms(1) in simp)
  note run = js_run_effect [OF inv, of trusted ops i r, folded assms(2)]
  with js_inv_reopen [of ax wide s] show ?thesis by simp
qed

text \<open>C32: The store of one file refines the memory store: after the same puts, purges and index calls on a new file, both
  hold the same records in the same order, answer every get and every query alike, and raise the same error on the next
  call or none.\<close>

theorem jsonl_refines_memory:
  assumes "sha_ok ax" "s = js_run ax wide trusted ops (js_init (js_open ax wide None))" "m = mem_run ax trusted ops"
  shows "js_content ax s = ms_records m \<and> js_order s = ms_order m \<and>
    js_get ax trusted i s = mem_get ax trusted i m \<and>
    js_find ax whr since after limit s = mem_find ax whr since after limit m \<and>
    map_sum id (\<lambda>_. ()) (js_call ax wide trusted op s) = map_sum id (\<lambda>_. ()) (mem_call ax trusted op m)"
proof -
  have sim: "js_sim ax wide trusted s m"
    using js_run_sim [OF assms(1)] assms(2,3) by (simp add: js_fresh_init)
  moreover have "map_sum id (\<lambda>_. ()) (js_call ax wide trusted op s) = map_sum id (\<lambda>_. ()) (mem_call ax trusted op m)"
    using sim_call [OF sim assms(1), of op] by (auto simp: call_sim_def split: sum.splits)
  ultimately show ?thesis
    using sim_get [OF sim, of i] by (simp add: js_sim_def js_find_def mem_find_def)
qed

lemma demo_file_put:
  "js_get demo_ax demo_trusted (demo_id CHR ''a'')
     (js_run demo_ax (\<lambda>_. None) demo_trusted [MPut demo_record] (js_init (js_open demo_ax (\<lambda>_. None) None))) = Inr demo_prepared"
proof -
  have "mem_run demo_ax demo_trusted [MPut demo_record] = demo_mem"
    using demo_put by (simp add: mem_run_def)
  moreover have "mem_get demo_ax demo_trusted (demo_id CHR ''a'') demo_mem = Inr demo_prepared"
    using demo_verify by (simp add: mem_get_def demo_mem_def demo_id_ok demo_trusted_def)
  ultimately show ?thesis
    using sim_get [OF js_run_sim [OF demo_sha_ok], of demo_trusted "demo_id CHR ''a''" "\<lambda>_. None" "[MPut demo_record]"]
    by (simp add: js_fresh_init)
qed

theorem jsonl_refines_memory_witness:
  "js_get demo_ax demo_trusted (demo_id CHR ''a'')
     (js_run demo_ax (\<lambda>_. None) demo_trusted [MPut demo_record] (js_init (js_open demo_ax (\<lambda>_. None) None))) = Inr demo_prepared \<and>
   mem_get demo_ax demo_trusted (demo_id CHR ''a'') (mem_run demo_ax demo_trusted [MPut demo_record]) = Inr demo_prepared"
  using jsonl_refines_memory [OF demo_sha_ok refl refl, where i = "demo_id CHR ''a''" and wide = "\<lambda>_. None"
    and trusted = demo_trusted and ops = "[MPut demo_record]"] demo_file_put by simp

theorem reopening_restores_the_store_witness:
  "js_open demo_ax (\<lambda>_. None) (js_file (js_run demo_ax (\<lambda>_. None) demo_trusted [MPut demo_record] (js_open demo_ax (\<lambda>_. None) (Some []))))
    = (js_run demo_ax (\<lambda>_. None) demo_trusted [MPut demo_record] (js_open demo_ax (\<lambda>_. None) (Some [])))\<lparr>js_lookup := empty_index\<rparr>"
proof -
  have "id_of_line demo_ax (\<lambda>_. None) (snd (split_lines [])) = None" by (simp add: id_of_line_def)
  from reopening_restores_the_store [OF this refl, where trusted = demo_trusted and ops = "[MPut demo_record]"] show ?thesis by blast
qed

lemma torn_line_ends:
  assumes "sha_ok ax" "admitted ax trusted q" "list_all line_ok ls" "line_for ax wide ls (ar_capsule_id q) = None"
    and s: "s = js_open ax wide (Some (unlines ls @ encode_record q))"
    and put: "js_put ax trusted r s = Inr s'" "admit ax trusted r = Inr p" "line_for ax wide ls (ar_capsule_id p) = None"
      "ar_capsule_id p \<noteq> ar_capsule_id q"
  shows "js_get ax trusted (ar_capsule_id q) s' = Inl NotFoundError \<and> js_purge ax wide (ar_capsule_id q) s' = Inl NotFoundError \<and>
    js_get ax trusted (ar_capsule_id q) (js_open ax wide (js_file s')) = Inr q"
proof -
  let ?q = "ar_capsule_id q" and ?p = "ar_capsule_id p" and ?t = "encode_record q"
  note t = encode_record_line [of q]
  have q: "valid_id ?q" "\<exists>res. verify_record ax trusted q = Inr res" "utf8_ok ?t" "?t \<noteq> []"
    using assms(1,2) admitted_utf8 [OF assms(2,1)] encode_record_head [of q] by (auto simp: admitted_def verify_record_def res_simps)
  have at: "js_file s = Some (unlines ls @ ?t)" and index: "js_index s = index_of_lines (entries ax wide ls)"
    using s entries_of_unlines [OF assms(3) t] by (simp_all add: js_open_def)
  have none: "js_index s ?q = None" "js_index s ?p = None"
    using index_of_line_entries [of ax wide ls ?q] index_of_line_entries [of ax wide ls ?p] assms(4) put(3)
    by (auto simp: index split: option.splits)
  obtain ix where s': "utf8_ok (encode_record p)" "s' = s\<lparr>js_file := Some (unlines (ls @ [?t] @ [encode_record p])),
      js_index := (js_index s)(?p \<mapsto> (length (unlines (ls @ [?t])), length (encode_record p))),
      js_order := js_order s @ [?p], js_lookup := ix\<rparr>"
    using put(1)
  proof (cases rule: js_put_cases)
    case (new p' f)
    then show ?thesis
      using js_append_lines [of ax p ls ?t s s'] t put(2) at q(4) that by (simp del: unlines_simps) metis
  next
    case (again p' old)
    then show ?thesis using put(2) none(2) by simp
  qed
  have p: "?p \<noteq> []" using put(2) by (auto simp: admit_def verify_record_def res_simps valid_id_nonempty)
  have "js_index s' ?q = None" using s'(2) none(1) put(4) by simp
  moreover have "js_get ax trusted ?q (js_open ax wide (js_file s')) = Inr q"
  proof -
    let ?ls = "ls @ [?t] @ [encode_record p]"
    let ?o = "js_open ax wide (js_file s')"
    have ok: "list_all line_ok ?ls" using assms(3) t by (simp add: encode_record_line)
    have o: "js_file ?o = Some (unlines ?ls @ [])" "js_index ?o = index_of_lines (entries ax wide ?ls)"
      using s'(2) entries_of_unlines [OF ok, of "[]" ax wide] by (simp_all add: js_open_def line_ok_def del: unlines_simps)
    have "id_of_line ax wide ?t = Some ?q" "id_of_line ax wide (encode_record p) = Some ?p"
      using id_of_encoded [OF q(3)] id_of_encoded [OF s'(1) p] valid_id_nonempty [OF q(1)] by simp_all
    then have "line_for ax wide ?ls ?q = Some ?t"
      using put(4) line_for_snoc [of ax wide "ls @ [?t]" "encode_record p" ?q] line_for_snoc [of ax wide ls ?t ?q] by simp
    then have "js_content ax ?o ?q = Some q"
      using js_content_lines [OF o] stored_encoded [OF q(3)] by simp
    then show ?thesis using q(1,2) by (auto simp: js_content_def js_get_def split: option.splits sum.splits)
  qed
  ultimately show ?thesis using q(1) by (simp add: js_get_def js_purge_def)
qed

text \<open>C34: A record whose line lost only its newline in a crash is not indexed, as the format says of a torn line, so the open
  store can neither read nor purge it; but the next put of another, new record ends that line, and from then on the file
  holds it: whoever opens the file again reads the record with its originals.\<close>

theorem torn_record_comes_back:
  assumes "sha_ok ax" "admitted ax trusted q" "list_all line_ok ls" "line_for ax wide ls (ar_capsule_id q) = None"
    and "s = js_open ax wide (Some (unlines ls @ encode_record q))"
    and "js_put ax trusted r s = Inr s'" "admit ax trusted r = Inr p" "line_for ax wide ls (ar_capsule_id p) = None"
      "ar_capsule_id p \<noteq> ar_capsule_id q"
  shows "js_get ax trusted (ar_capsule_id q) s' = Inl NotFoundError \<and> js_purge ax wide (ar_capsule_id q) s' = Inl NotFoundError \<and>
    js_get ax trusted (ar_capsule_id q) (js_open ax wide (js_file s')) = Inr q"
  using torn_line_ends [OF assms] .

text \<open>Two records without originals.\<close>

definition bare_fields :: "char \<Rightarrow> dict" where
  "bare_fields c = [(''format_version'', JStr ''4''), (''canonicalization_id'', JStr ''jcs''), (''action'', JStr [c])]"

definition pair_ax :: artifact_ext where
  "pair_ax = demo_ax\<lparr>ax_class1 := (\<lambda>v. case v of JObj d \<Rightarrow>
     (case dget d ''action'' of JStr s \<Rightarrow> Some (demo_id (hd s)) | _ \<Rightarrow> None) | _ \<Rightarrow> None)\<rparr>"

definition bare_record :: "char \<Rightarrow> art_record" where
  "bare_record c = \<lparr>ar_capsule_id = demo_id c, ar_capsule = json_dumps (JObj (bare_fields c)), ar_envelope = ''e'', ar_artifacts = []\<rparr>"

lemma bare_admit:
  assumes "c \<in> {CHR ''a'', CHR ''d''}"
  shows "admit pair_ax demo_trusted (bare_record c) = Inr (bare_record c)"
proof -
  have "utf8_ok ''4'' \<and> utf8_ok ''jcs'' \<and> utf8_ok ''format_version'' \<and> utf8_ok ''canonicalization_id'' \<and>
      utf8_ok ''action'' \<and> utf8_ok [c]"
    using assms by (intro conjI; intro utf8_ok_ascii; auto)
  then have "decode_json pair_ax (json_dumps (JObj (bare_fields c))) = Some (JObj (bare_fields c))"
    unfolding decode_json_def
    by (intro decode_dumps) (simp_all add: bare_fields_def pair_ax_def demo_ax_def MAX_JSON_DEPTH_def)
  moreover have "dget (bare_fields c) ''format_version'' = JStr ''4'' \<and> dget (bare_fields c) ''canonicalization_id'' = JStr ''jcs'' \<and>
      dget (bare_fields c) ''record_type'' = JNull \<and> dget (bare_fields c) ''action'' = JStr [c]"
    by (simp add: bare_fields_def)
  ultimately have "verified_capsule pair_ax (bare_record c) = Inr (bare_fields c)"
    by (simp add: verified_capsule_def decode_capsule_def PADDING_RECORD_TYPE_def bare_record_def) (simp add: pair_ax_def)
  moreover have "valid_id (demo_id c)" using assms by (intro demo_id_ok) auto
  moreover have "ax_envelope pair_ax (demo_id c) ''e'' = Some (replicate 32 CHR ''k'')" by (simp add: pair_ax_def demo_ax_def)
  ultimately have "verify_record pair_ax demo_trusted (bare_record c) = Inr []"
    by (simp add: verify_record_def demo_trusted_def) (simp add: bare_record_def)
  moreover have "length (json_dumps (JObj (bare_fields c))) \<le> 200"
    using assms by (auto simp: bare_fields_def quote_def esc_char_def)
  then have "prepare pair_ax (bare_record c) = Inr (bare_record c)"
    by (simp add: prepare_def bare_record_def MAX_ARTIFACTS_def MAX_ENVELOPE_def MAX_TOTAL_def del: json_dumps.simps)
  ultimately show ?thesis by (simp add: admit_def)
qed

theorem torn_record_comes_back_witness:
  "\<exists>s'. js_put pair_ax demo_trusted (bare_record CHR ''d'')
      (js_open pair_ax (\<lambda>_. None) (Some (encode_record (bare_record CHR ''a'')))) = Inr s' \<and>
    js_purge pair_ax (\<lambda>_. None) (demo_id CHR ''a'') s' = Inl NotFoundError \<and>
    js_get pair_ax demo_trusted (demo_id CHR ''a'') (js_open pair_ax (\<lambda>_. None) (js_file s')) = Inr (bare_record CHR ''a'')"
proof -
  let ?q = "bare_record CHR ''a''" and ?p = "bare_record CHR ''d''"
  let ?s = "js_open pair_ax (\<lambda>_. None) (Some (unlines [] @ encode_record ?q))"
  have sha: "sha_ok pair_ax" using demo_sha_ok by (simp add: sha_ok_def pair_ax_def)
  have adm: "admit pair_ax demo_trusted ?q = Inr ?q" "admit pair_ax demo_trusted ?p = Inr ?p" by (simp_all add: bare_admit)
  have ids: "ar_capsule_id ?q = demo_id CHR ''a''" "ar_capsule_id ?p = demo_id CHR ''d''" "demo_id CHR ''a'' \<noteq> demo_id CHR ''d''"
    by (simp_all add: bare_record_def demo_id_def)
  have none: "line_for pair_ax (\<lambda>_. None) [] i = None" for i by (simp add: line_for_def)
  have s: "js_file ?s = Some (encode_record ?q)" "js_index ?s i = None" "js_lookup ?s = empty_index" for i
    using split_lines_torn [OF encode_record_line [of ?q]]
    by (simp_all add: js_open_def entries_of_def entries_def index_of_lines_def)
  have "utf8_ok (encode_record ?p)"
    using admitted_utf8 [OF _ sha] admit_admitted [OF adm(2)] by blast
  then obtain s' where s': "js_put pair_ax demo_trusted ?p ?s = Inr s'"
    using adm(2) s by (auto simp: js_put_def admit_def res_simps js_append_def Let_def add_index_def empty_index_def)
  have "admitted pair_ax demo_trusted ?q" using admit_admitted [OF adm(1)] by simp
  from torn_record_comes_back [OF sha this _ none refl s' adm(2) none] ids s' show ?thesis by simp
qed

end
