(* ===== verification/Python_Values.thy ===== *)
theory Python_Values
  imports Capsule_Prelude
begin

text \<open>
  Python's \<open>==\<close> on decoded JSON values.  A bool equals the integer 0 or 1, the order of the keys of a dict
  does not count.  An integer is compared with a float by its exact value, which the shortest digits do not
  give: that comparison is the parameter \<open>ife\<close>.  The identity shortcut of containers, which makes a list
  holding a NaN equal to itself, is left out.
\<close>

fun float_eq :: "pyfloat \<Rightarrow> pyfloat \<Rightarrow> bool" where
  "float_eq FNaN _ = False"
| "float_eq _ FNaN = False"
| "float_eq (FZero _) (FZero _) = True"
| "float_eq v w = (v = w)"

fun num_int :: "json \<Rightarrow> int option" where
  "num_int (JInt i) = Some i"
| "num_int (JBool b) = Some (if b then 1 else 0)"
| "num_int _ = None"

function (sequential) py_eq :: "(int \<Rightarrow> pyfloat \<Rightarrow> bool) \<Rightarrow> json \<Rightarrow> json \<Rightarrow> bool" where
  "py_eq ife (JArr vs) (JArr ws) \<longleftrightarrow>
     length vs = length ws \<and> list_all (\<lambda>(v, w). py_eq ife v w) (zip vs ws)"
| "py_eq ife (JObj d) (JObj e) \<longleftrightarrow>
     length d = length e \<and> list_all (\<lambda>(k, v). dhas e k \<and> py_eq ife v (dget e k)) d"
| "py_eq ife JNull JNull \<longleftrightarrow> True"
| "py_eq ife (JStr s) (JStr t) \<longleftrightarrow> s = t"
| "py_eq ife (JFloat f) (JFloat g) \<longleftrightarrow> float_eq f g"
| "py_eq ife v w \<longleftrightarrow>
     (case (num_int v, num_int w) of
        (Some i, Some j) \<Rightarrow> i = j
      | (Some i, None) \<Rightarrow> (case w of JFloat f \<Rightarrow> ife i f | _ \<Rightarrow> False)
      | (None, Some j) \<Rightarrow> (case v of JFloat f \<Rightarrow> ife j f | _ \<Rightarrow> False)
      | _ \<Rightarrow> False)"
  by pat_completeness auto
termination
proof (relation "measure (\<lambda>(ife, v, w). size v)", goal_cases)
  case 1
  then show ?case by simp
next
  case (2 ife vs ws x a b)
  then have "a \<in> set vs" by (auto dest: set_zip_leftD)
  then show ?case by (auto simp: less_Suc_eq_le dest: size_list_estimation' [where f = size])
next
  case (3 ife d e x a b)
  then have "(a, b) \<in> set d" by simp
  then have "size_prod (\<lambda>_. 0) size (a, b) \<le> size_list (size_prod (\<lambda>_. 0) size) d"
    by (rule size_list_estimation') simp
  then show ?case by simp
qed

fun nan_free :: "json \<Rightarrow> bool" where
  "nan_free (JFloat f) = (f \<noteq> FNaN)"
| "nan_free (JArr vs) = list_all nan_free vs"
| "nan_free (JObj d) = (distinct (map fst d) \<and> list_all (\<lambda>(k, v). nan_free v) d)"
| "nan_free _ = True"

lemma dget_member: "distinct (map fst d) \<Longrightarrow> (k, v) \<in> set d \<Longrightarrow> dget d k = v \<and> dhas d k"
  by (force simp: dget_def dhas_def)

lemma float_eq_refl: "f \<noteq> FNaN \<Longrightarrow> float_eq f f"
  by (cases f) simp_all

lemma py_eq_refl: "nan_free v \<Longrightarrow> py_eq ife v v"
proof (induction v)
  case (JArr vs)
  then show ?case by (auto simp: list_all_iff in_set_zip)
next
  case (JObj d)
  then show ?case
    by (fastforce simp: list_all_iff dest: dget_member)
qed (simp_all add: float_eq_refl)

end
