(* ===== verification/Account.thy ===== *)
theory Account
  imports Python_Values
begin

text \<open>
  \<open>account/\<close>: definitions as data and their digest (\<open>definition.py\<close>), accounts and their fail-closed
  construction (\<open>account.py\<close>), and verification by recomputation or by provenance (\<open>replay.py\<close>).  The JSON
  digest of \<open>agent_action_capsule\<close> is the parameter \<open>json_digest\<close>, which may raise.
\<close>

section \<open>Errors\<close>

datatype digest_exn = FloatInDigestExn | UnsafeIntegerExn

datatype account_error =
    AccountDefinitionError string
  | AccountConstructionError string
  | PyTypeError

definition MALFORMED_DEFINITION :: string where "MALFORMED_DEFINITION = ''malformed_definition''"
definition UNKNOWN_DERIVATION_CLASS :: string where "UNKNOWN_DERIVATION_CLASS = ''unknown_derivation_class''"
definition UNKNOWN_SELECTION_KIND :: string where "UNKNOWN_SELECTION_KIND = ''unknown_selection_kind''"
definition EMPTY_READS :: string where "EMPTY_READS = ''empty_reads''"
definition DUPLICATE_READ_PATH :: string where "DUPLICATE_READ_PATH = ''duplicate_read_path''"
definition UNDECLARED_PREDICATE_FIELD :: string where "UNDECLARED_PREDICATE_FIELD = ''undeclared_predicate_field''"
definition UNBOUNDED_PREDICATE_OP :: string where "UNBOUNDED_PREDICATE_OP = ''unbounded_predicate_operation''"
definition FLOAT_IN_DEFINITION :: string where "FLOAT_IN_DEFINITION = ''float_in_definition''"
definition UNSAFE_INTEGER_IN_DEFINITION :: string where "UNSAFE_INTEGER_IN_DEFINITION = ''unsafe_integer_in_definition''"
definition MISSING_PROVENANCE :: string where "MISSING_PROVENANCE = ''model_assisted_account_missing_provenance''"
definition PROVENANCE_ON_DETERMINISTIC :: string where "PROVENANCE_ON_DETERMINISTIC = ''provenance_on_deterministic_account''"
definition MALFORMED_COVERAGE :: string where "MALFORMED_COVERAGE = ''malformed_coverage''"
definition PER_MEMBER_DIGEST_ON_RANGE :: string where "PER_MEMBER_DIGEST_ON_RANGE = ''per_member_digest_on_range_selection''"
definition DERIVATION_CLASS_MISMATCH :: string where "DERIVATION_CLASS_MISMATCH = ''derivation_class_mismatch''"
definition DEFINITION_DIGEST_MISMATCH :: string where "DEFINITION_DIGEST_MISMATCH = ''definition_digest_mismatch''"
definition RECOMPUTE_REQUIRED_DETERMINISTIC :: string where "RECOMPUTE_REQUIRED_DETERMINISTIC = ''recompute_required_for_deterministic''"
definition RESULT_MISMATCH :: string where "RESULT_MISMATCH = ''asserted_result_mismatch''"
definition NOT_RE_ADJUDICABLE :: string where "NOT_RE_ADJUDICABLE = ''model_assisted_not_re_adjudicable''"

section \<open>Definitions\<close>

abbreviation DERIVATION_DETERMINISTIC :: string where "DERIVATION_DETERMINISTIC \<equiv> ''deterministic''"
abbreviation DERIVATION_MODEL_ASSISTED :: string where "DERIVATION_MODEL_ASSISTED \<equiv> ''model_assisted''"
abbreviation SELECTION_RANGE :: string where "SELECTION_RANGE \<equiv> ''range''"
abbreviation SELECTION_EXPLICIT_SET :: string where "SELECTION_EXPLICIT_SET \<equiv> ''explicit_set''"
abbreviation SELECTION_CHAIN_SEGMENT :: string where "SELECTION_CHAIN_SEGMENT \<equiv> ''chain_segment''"

definition DERIVATION_CLASSES :: "string list" where
  "DERIVATION_CLASSES = [DERIVATION_DETERMINISTIC, DERIVATION_MODEL_ASSISTED]"

definition SELECTION_KINDS :: "string list" where
  "SELECTION_KINDS = [SELECTION_RANGE, SELECTION_EXPLICIT_SET, SELECTION_CHAIN_SEGMENT]"

definition BOUNDED_PREDICATE_OPS :: "string list" where
  "BOUNDED_PREDICATE_OPS = [''eq'', ''ne'', ''in'', ''not_in'', ''prefix'', ''gt'', ''gte'', ''lt'', ''lte'']"

record predicate =
  p_field :: string
  p_op :: string
  p_operand :: json

record account_definition =
  d_name :: string
  d_selection_kind :: string
  d_reads :: "string list"
  d_derivation_class :: string
  d_predicate :: "predicate list"

definition predicate_document :: "predicate \<Rightarrow> json" where
  "predicate_document p =
     JObj [(''field'', JStr (p_field p)), (''op'', JStr (p_op p)), (''value'', p_operand p)]"

definition canonical_document :: "account_definition \<Rightarrow> json" where
  "canonical_document d =
     JObj ([(''name'', JStr (d_name d)), (''selection_kind'', JStr (d_selection_kind d)),
            (''reads'', JArr (map JStr (d_reads d))), (''derivation_class'', JStr (d_derivation_class d))]
           @ (if d_predicate d \<noteq> [] then [(''predicate'', JArr (map predicate_document (d_predicate d)))] else []))"

definition definition_digest ::
    "(json \<Rightarrow> digest_exn + string) \<Rightarrow> account_definition \<Rightarrow> account_error + string" where
  "definition_digest json_digest d =
     (case json_digest (canonical_document d) of
        Inr s \<Rightarrow> Inr s
      | Inl FloatInDigestExn \<Rightarrow> Inl (AccountDefinitionError FLOAT_IN_DEFINITION)
      | Inl UnsafeIntegerExn \<Rightarrow> Inl (AccountDefinitionError UNSAFE_INTEGER_IN_DEFINITION))"

text \<open>Membership in a frozenset of names: an unhashable value raises \<open>TypeError\<close>.\<close>

definition in_names :: "json \<Rightarrow> string list \<Rightarrow> account_error + bool" where
  "in_names v names =
     (case v of JArr _ \<Rightarrow> Inl PyTypeError | JObj _ \<Rightarrow> Inl PyTypeError | JStr s \<Rightarrow> Inr (s \<in> set names) | _ \<Rightarrow> Inr False)"

definition named :: "json \<Rightarrow> string list \<Rightarrow> string \<Rightarrow> account_error + string" where
  "named v names reason =
     sbind (in_names v names) (\<lambda>b.
       case v of JStr s \<Rightarrow> if b then Inr s else Inl (AccountDefinitionError reason)
       | _ \<Rightarrow> Inl (AccountDefinitionError reason))"

fun reject_float :: "json \<Rightarrow> account_error + unit" where
  "reject_float (JFloat _) = Inl (AccountDefinitionError FLOAT_IN_DEFINITION)"
| "reject_float (JArr vs) = (if list_ex (\<lambda>v. reject_float v \<noteq> Inr ()) vs
     then Inl (AccountDefinitionError FLOAT_IN_DEFINITION) else Inr ())"
| "reject_float _ = Inr ()"

fun parse_reads :: "string list \<Rightarrow> json list \<Rightarrow> account_error + string list" where
  "parse_reads seen [] = Inr []"
| "parse_reads seen (v # vs) =
     (case v of
        JStr path \<Rightarrow>
          if path = [] then Inl (AccountDefinitionError MALFORMED_DEFINITION)
          else if path \<in> set seen then Inl (AccountDefinitionError DUPLICATE_READ_PATH)
          else sbind (parse_reads (path # seen) vs) (\<lambda>reads. Inr (path # reads))
      | _ \<Rightarrow> Inl (AccountDefinitionError MALFORMED_DEFINITION))"

fun nonempty_str :: "json \<Rightarrow> bool" where
  "nonempty_str (JStr s) = (s \<noteq> [])"
| "nonempty_str _ = False"

fun is_arr :: "json \<Rightarrow> bool" where
  "is_arr (JArr _) = True"
| "is_arr _ = False"

definition parse_clause :: "string list \<Rightarrow> json \<Rightarrow> account_error + predicate" where
  "parse_clause declared clause =
     (case clause of
        JObj c \<Rightarrow>
          sbind (named (dget c ''op'') BOUNDED_PREDICATE_OPS UNBOUNDED_PREDICATE_OP) (\<lambda>op.
          sbind (named (dget c ''field'') declared UNDECLARED_PREDICATE_FIELD) (\<lambda>field.
          sbind (ensure (\<not> (op \<in> {''in'', ''not_in''} \<and> \<not> is_arr (dget c ''value'')))
                   (AccountDefinitionError UNBOUNDED_PREDICATE_OP)) (\<lambda>_.
          sbind (reject_float (dget c ''value'')) (\<lambda>_.
            Inr \<lparr>p_field = field, p_op = op, p_operand = dget c ''value''\<rparr>))))
      | _ \<Rightarrow> Inl (AccountDefinitionError MALFORMED_DEFINITION))"

definition parse_name :: "json \<Rightarrow> account_error + string" where
  "parse_name v =
     (if nonempty_str v then Inr (case v of JStr s \<Rightarrow> s) else Inl (AccountDefinitionError MALFORMED_DEFINITION))"

definition parse_read_list :: "json \<Rightarrow> account_error + string list" where
  "parse_read_list v =
     (case v of
        JArr vs \<Rightarrow> if vs = [] then Inl (AccountDefinitionError EMPTY_READS) else parse_reads [] vs
      | _ \<Rightarrow> Inl (AccountDefinitionError EMPTY_READS))"

definition parse_predicate :: "string list \<Rightarrow> json \<Rightarrow> account_error + predicate list" where
  "parse_predicate declared v =
     (if \<not> truthy v then Inr []
      else (case v of
              JArr cs \<Rightarrow> mapM_r (parse_clause declared) cs
            | _ \<Rightarrow> Inl (AccountDefinitionError MALFORMED_DEFINITION)))"

definition parse_definition :: "json \<Rightarrow> account_error + account_definition" where
  "parse_definition data =
     (case data of
        JObj d \<Rightarrow>
          sbind (parse_name (dget d ''name'')) (\<lambda>name.
          sbind (named (dget d ''selection_kind'') SELECTION_KINDS UNKNOWN_SELECTION_KIND) (\<lambda>kind.
          sbind (named (dget d ''derivation_class'') DERIVATION_CLASSES UNKNOWN_DERIVATION_CLASS) (\<lambda>cls.
          sbind (parse_read_list (dget d ''reads'')) (\<lambda>reads.
          sbind (parse_predicate reads (dget d ''predicate'')) (\<lambda>predicate.
            Inr \<lparr>d_name = name, d_selection_kind = kind, d_reads = reads, d_derivation_class = cls,
                 d_predicate = predicate\<rparr>)))))
      | _ \<Rightarrow> Inl (AccountDefinitionError MALFORMED_DEFINITION))"

section \<open>Accounts\<close>

text \<open>\<open>None\<close> is \<^const>\<open>JNull\<close>; \<open>range\<close> is \<open>Some\<close> of its members when it is a tuple.\<close>

record coverage =
  v_coverage_root :: json
  v_range :: "json list option"
  v_references :: "string list"
  v_start_digest :: json
  v_end_digest :: json
  v_relation :: json

record selection =
  s_kind :: string
  s_coverage :: coverage

record derivation =
  r_derivation_class :: string
  r_definition_digest :: "string option"
  r_registry_token :: "string option"

record provenance =
  m_model_id :: string
  m_prompt_digest :: string
  m_seed :: json
  m_entropy :: "string option"
  m_re_adjudicable :: bool

record account =
  t_selection :: selection
  t_derivation :: derivation
  t_asserted_result :: json
  t_provenance :: "provenance option"

definition input_identity :: "coverage \<Rightarrow> string \<Rightarrow> account_error + json" where
  "input_identity c kind =
     (if kind = SELECTION_RANGE then
        (case v_range c of
           None \<Rightarrow> Inl PyTypeError
         | Some r \<Rightarrow> Inr (JObj [(''coverage_root'', v_coverage_root c), (''range'', JArr r)]))
      else if kind = SELECTION_EXPLICIT_SET then Inr (JObj [(''references'', JArr (map JStr (v_references c)))])
      else if kind = SELECTION_CHAIN_SEGMENT then
        Inr (JObj [(''start_digest'', v_start_digest c), (''end_digest'', v_end_digest c), (''relation'', v_relation c)])
      else Inl (AccountConstructionError UNKNOWN_SELECTION_KIND))"

definition opt_entry :: "string \<Rightarrow> json \<Rightarrow> dict" where
  "opt_entry k v = (if v \<noteq> JNull then [(k, v)] else [])"

definition opt_json :: "string option \<Rightarrow> json" where
  "opt_json v = (case v of None \<Rightarrow> JNull | Some s \<Rightarrow> JStr s)"

definition provenance_document :: "provenance \<Rightarrow> json" where
  "provenance_document p =
     JObj ([(''model_id'', JStr (m_model_id p)), (''prompt_digest'', JStr (m_prompt_digest p)),
            (''re_adjudicable'', JBool (m_re_adjudicable p))]
           @ opt_entry ''seed'' (m_seed p) @ opt_entry ''entropy'' (opt_json (m_entropy p)))"

definition account_document :: "account \<Rightarrow> account_error + json" where
  "account_document a =
     sbind (input_identity (s_coverage (t_selection a)) (s_kind (t_selection a))) (\<lambda>identity.
       Inr (JObj ([(''selection'', JObj [(''kind'', JStr (s_kind (t_selection a))), (''input_identity'', identity)]),
                   (''derivation'', JObj ([(''derivation_class'', JStr (r_derivation_class (t_derivation a)))]
                      @ opt_entry ''definition_digest'' (opt_json (r_definition_digest (t_derivation a)))
                      @ opt_entry ''registry_token'' (opt_json (r_registry_token (t_derivation a))))),
                   (''asserted_result'', t_asserted_result a)]
                  @ (case t_provenance a of None \<Rightarrow> [] | Some p \<Rightarrow> [(''provenance'', provenance_document p)]))))"

definition range_ok :: "json list option \<Rightarrow> bool" where
  "range_ok r = (case r of Some [JInt lo, JInt hi] \<Rightarrow> lo \<le> hi | _ \<Rightarrow> False)"

definition validate_coverage :: "string \<Rightarrow> coverage \<Rightarrow> account_error + unit" where
  "validate_coverage kind c =
     (let malformed = AccountConstructionError MALFORMED_COVERAGE
      in if kind = SELECTION_RANGE then
           if v_references c \<noteq> [] then Inl (AccountConstructionError PER_MEMBER_DIGEST_ON_RANGE)
           else if \<not> nonempty_str (v_coverage_root c) then Inl malformed
           else if \<not> range_ok (v_range c) then Inl malformed else Inr ()
         else if kind = SELECTION_EXPLICIT_SET then
           if v_references c = [] then Inl malformed else Inr ()
         else if kind = SELECTION_CHAIN_SEGMENT then
           if v_references c \<noteq> [] then Inl (AccountConstructionError PER_MEMBER_DIGEST_ON_RANGE)
           else if \<not> nonempty_str (v_start_digest c) then Inl malformed
           else if \<not> nonempty_str (v_end_digest c) then Inl malformed
           else if \<not> nonempty_str (v_relation c) then Inl malformed else Inr ()
         else Inl malformed)"

definition build_account ::
    "(json \<Rightarrow> digest_exn + string) \<Rightarrow> account_definition \<Rightarrow> selection \<Rightarrow> json \<Rightarrow> provenance option \<Rightarrow>
     string option \<Rightarrow> account_error + account" where
  "build_account json_digest d sel result prov token =
     sbind (ensure (s_kind sel = d_selection_kind d) (AccountConstructionError MALFORMED_COVERAGE)) (\<lambda>_.
     sbind (validate_coverage (s_kind sel) (s_coverage sel)) (\<lambda>_.
     let cls = d_derivation_class d
     in if cls = DERIVATION_MODEL_ASSISTED \<and> prov = None then Inl (AccountConstructionError MISSING_PROVENANCE)
        else if cls = DERIVATION_DETERMINISTIC \<and> prov \<noteq> None
          then Inl (AccountConstructionError PROVENANCE_ON_DETERMINISTIC)
        else sbind (if token \<noteq> None then Inr None
                    else sbind (definition_digest json_digest d) (\<lambda>s. Inr (Some s))) (\<lambda>digest.
          Inr \<lparr>t_selection = sel,
               t_derivation = \<lparr>r_derivation_class = cls, r_definition_digest = digest, r_registry_token = token\<rparr>,
               t_asserted_result = result, t_provenance = prov\<rparr>)))"

text \<open>The two guards after it, against citing neither or both, can not fire: exactly one of \<open>digest\<close> and
  \<open>token\<close> is \<open>None\<close> (\<open>build_account_facts\<close>).\<close>

section \<open>Verification\<close>

record verification =
  w_ok :: bool
  w_method :: string
  w_reason :: "string option"

definition verify_deterministic ::
    "(int \<Rightarrow> pyfloat \<Rightarrow> bool) \<Rightarrow> account \<Rightarrow> (selection \<Rightarrow> json) option \<Rightarrow> verification" where
  "verify_deterministic ife a recompute =
     (case recompute of
        None \<Rightarrow> \<lparr>w_ok = False, w_method = ''recompute'', w_reason = Some RECOMPUTE_REQUIRED_DETERMINISTIC\<rparr>
      | Some f \<Rightarrow>
          if py_eq ife (f (t_selection a)) (t_asserted_result a)
          then \<lparr>w_ok = True, w_method = ''recompute'', w_reason = None\<rparr>
          else \<lparr>w_ok = False, w_method = ''recompute'', w_reason = Some RESULT_MISMATCH\<rparr>)"

definition verify_model_assisted :: "account \<Rightarrow> verification" where
  "verify_model_assisted a =
     (let refuse = (\<lambda>r. \<lparr>w_ok = False, w_method = ''provenance'', w_reason = Some r\<rparr>)
      in case t_provenance a of
           None \<Rightarrow> refuse MISSING_PROVENANCE
         | Some p \<Rightarrow>
             if \<not> m_re_adjudicable p then refuse NOT_RE_ADJUDICABLE
             else if m_model_id p = [] \<or> m_prompt_digest p = [] then refuse MISSING_PROVENANCE
             else if m_seed p = JNull \<and> m_entropy p = None then refuse MISSING_PROVENANCE
             else \<lparr>w_ok = True, w_method = ''provenance'', w_reason = None\<rparr>)"

definition verify_account ::
    "(json \<Rightarrow> digest_exn + string) \<Rightarrow> (int \<Rightarrow> pyfloat \<Rightarrow> bool) \<Rightarrow> account \<Rightarrow> account_definition option \<Rightarrow>
     (selection \<Rightarrow> json) option \<Rightarrow> account_error + verification" where
  "verify_account json_digest ife a d recompute =
     (let cls = r_derivation_class (t_derivation a);
          path = (if cls = DERIVATION_DETERMINISTIC then ''recompute'' else ''provenance'');
          run = (if cls = DERIVATION_MODEL_ASSISTED then verify_model_assisted a
                 else verify_deterministic ife a recompute)
      in if s_kind (t_selection a) \<notin> set SELECTION_KINDS
         then Inr \<lparr>w_ok = False, w_method = ''refused'', w_reason = Some UNKNOWN_SELECTION_KIND\<rparr>
         else if cls \<notin> set DERIVATION_CLASSES
         then Inr \<lparr>w_ok = False, w_method = ''refused'', w_reason = Some UNKNOWN_DERIVATION_CLASS\<rparr>
         else (case d of
                 None \<Rightarrow> Inr run
               | Some def \<Rightarrow>
                   if d_derivation_class def \<noteq> cls
                   then Inr \<lparr>w_ok = False, w_method = path, w_reason = Some DERIVATION_CLASS_MISMATCH\<rparr>
                   else (case r_definition_digest (t_derivation a) of
                           None \<Rightarrow> Inr run
                         | Some cited \<Rightarrow>
                             sbind (definition_digest json_digest def) (\<lambda>s.
                               if cited \<noteq> s
                               then Inr \<lparr>w_ok = False, w_method = path, w_reason = Some DEFINITION_DIGEST_MISMATCH\<rparr>
                               else Inr run))))"

section \<open>Definitions survive their document\<close>

definition wf_clause :: "string list \<Rightarrow> predicate \<Rightarrow> bool" where
  "wf_clause declared p \<longleftrightarrow>
     p_op p \<in> set BOUNDED_PREDICATE_OPS \<and> p_field p \<in> set declared \<and>
     (p_op p \<in> {''in'', ''not_in''} \<longrightarrow> is_arr (p_operand p)) \<and> reject_float (p_operand p) = Inr ()"

definition wf_definition :: "account_definition \<Rightarrow> bool" where
  "wf_definition d \<longleftrightarrow>
     d_name d \<noteq> [] \<and> d_selection_kind d \<in> set SELECTION_KINDS \<and> d_derivation_class d \<in> set DERIVATION_CLASSES \<and>
     d_reads d \<noteq> [] \<and> distinct (d_reads d) \<and> [] \<notin> set (d_reads d) \<and>
     list_all (wf_clause (d_reads d)) (d_predicate d)"

lemma named_Inr [res_simps]: "named v names reason = Inr s \<longleftrightarrow> v = JStr s \<and> s \<in> set names"
  by (cases v) (auto simp: named_def in_names_def)

lemma named_str [simp]: "s \<in> set names \<Longrightarrow> named (JStr s) names reason = Inr s"
  by (simp add: named_Inr)

lemma parse_reads_wf:
  "parse_reads seen vs = Inr reads \<Longrightarrow>
     distinct reads \<and> set reads \<inter> set seen = {} \<and> [] \<notin> set reads \<and> vs = map JStr reads"
  by (induction seen vs arbitrary: reads rule: parse_reads.induct)
    (fastforce simp: res_simps split: json.splits if_splits)+

lemma parse_reads_strs:
  "distinct reads \<Longrightarrow> set reads \<inter> set seen = {} \<Longrightarrow> [] \<notin> set reads \<Longrightarrow> parse_reads seen (map JStr reads) = Inr reads"
  by (induction reads arbitrary: seen) auto

lemma parse_clause_wf: "parse_clause declared v = Inr p \<Longrightarrow> wf_clause declared p"
  by (auto simp: parse_clause_def wf_clause_def res_simps split: json.splits)

lemma parse_clause_document: "wf_clause declared p \<Longrightarrow> parse_clause declared (predicate_document p) = Inr p"
  by (auto simp: parse_clause_def predicate_document_def wf_clause_def sbind_ensure)

lemma mapM_r_map: "(\<And>x. x \<in> set xs \<Longrightarrow> f (g x) = Inr x) \<Longrightarrow> mapM_r f (map g xs) = Inr xs"
  by (induction xs) auto

lemma parse_name_wf: "parse_name v = Inr s \<Longrightarrow> s \<noteq> []"
  by (cases v) (auto simp: parse_name_def split: if_splits)

lemma parse_read_list_wf:
  "parse_read_list v = Inr reads \<Longrightarrow> reads \<noteq> [] \<and> distinct reads \<and> [] \<notin> set reads"
  by (cases v) (auto simp: parse_read_list_def dest: parse_reads_wf split: if_splits)

lemma parse_predicate_wf: "parse_predicate declared v = Inr ps \<Longrightarrow> list_all (wf_clause declared) ps"
  by (cases v) (fastforce simp: parse_predicate_def list_all_iff list_all2_conv_all_nth in_set_conv_nth
      dest!: mapM_r_all intro: parse_clause_wf split: if_splits)+

lemma parse_definition_wf: "parse_definition data = Inr d \<Longrightarrow> wf_definition d"
  by (cases data) (auto simp: parse_definition_def wf_definition_def res_simps
      dest: parse_name_wf parse_read_list_wf parse_predicate_wf)

lemma parse_document:
  assumes "wf_definition d"
  shows "parse_definition (canonical_document d) = Inr d"
proof -
  have reads: "parse_reads [] (map JStr (d_reads d)) = Inr (d_reads d)"
    using assms by (intro parse_reads_strs) (simp_all add: wf_definition_def)
  have clauses: "mapM_r (parse_clause (d_reads d)) (map predicate_document (d_predicate d)) = Inr (d_predicate d)"
    using assms by (intro mapM_r_map parse_clause_document) (simp add: wf_definition_def list_all_iff)
  show ?thesis
    using assms reads clauses
    by (cases "d_predicate d") (simp_all add: parse_definition_def canonical_document_def wf_definition_def
        parse_name_def parse_read_list_def parse_predicate_def)
qed

lemma canonical_document_inj:
  "wf_definition d \<Longrightarrow> wf_definition e \<Longrightarrow> canonical_document d = canonical_document e \<Longrightarrow> d = e"
  by (metis parse_document sum.inject(2))

section \<open>What construction guarantees\<close>

definition wf_account :: "account_definition \<Rightarrow> account \<Rightarrow> bool" where
  "wf_account d a \<longleftrightarrow>
     s_kind (t_selection a) = d_selection_kind d \<and>
     validate_coverage (d_selection_kind d) (s_coverage (t_selection a)) = Inr () \<and>
     r_derivation_class (t_derivation a) = d_derivation_class d \<and>
     (d_derivation_class d = DERIVATION_MODEL_ASSISTED \<longrightarrow> t_provenance a \<noteq> None) \<and>
     (d_derivation_class d = DERIVATION_DETERMINISTIC \<longrightarrow> t_provenance a = None) \<and>
     (r_definition_digest (t_derivation a) = None \<longleftrightarrow> r_registry_token (t_derivation a) \<noteq> None)"

lemma build_account_facts:
  assumes "build_account jd d sel result prov token = Inr a"
  shows "wf_account d a" "t_selection a = sel" "t_asserted_result a = result" "t_provenance a = prov"
    "r_registry_token (t_derivation a) = token"
    "token = None \<Longrightarrow> \<exists>s. definition_digest jd d = Inr s \<and> r_definition_digest (t_derivation a) = Some s"
  using assms by (auto simp: build_account_def wf_account_def res_simps Let_def split: if_splits)

lemma coverage_kind: "validate_coverage k c = Inr u \<Longrightarrow> k \<in> set SELECTION_KINDS"
  by (auto simp: validate_coverage_def SELECTION_KINDS_def Let_def split: if_splits)

lemma coverage_references:
  "validate_coverage k c = Inr u \<Longrightarrow> k \<noteq> SELECTION_EXPLICIT_SET \<Longrightarrow> v_references c = []"
  by (auto simp: validate_coverage_def Let_def split: if_splits)

lemma coverage_identity: "validate_coverage k c = Inr u \<Longrightarrow> \<exists>v. input_identity c k = Inr v"
  by (auto simp: validate_coverage_def input_identity_def Let_def range_ok_def split: if_splits option.splits)

lemma account_document_total: "wf_account d a \<Longrightarrow> \<exists>v. account_document a = Inr v"
  using coverage_identity by (fastforce simp: wf_account_def account_document_def)

lemma verify_path:
  assumes "wf_account d a" "d_derivation_class d \<in> set DERIVATION_CLASSES"
    "r_definition_digest (t_derivation a) = None \<or> definition_digest jd d = Inr (the (r_definition_digest (t_derivation a)))"
  shows "verify_account jd ife a (Some d) recompute
    = Inr (if d_derivation_class d = DERIVATION_MODEL_ASSISTED then verify_model_assisted a
           else verify_deterministic ife a recompute)"
  using assms coverage_kind by (auto simp: verify_account_def wf_account_def Let_def split: option.splits)

section \<open>Properties\<close>

text \<open>The definition document is a faithful form of a definition: a document that parses gives a definition
  whose own document parses back to it, and two parsed definitions with the same document are equal, so the
  digest is a function of the definition and of nothing else.\<close>

theorem definition_document_round_trip:
  assumes "parse_definition v = Inr d" "parse_definition w = Inr e"
  shows "parse_definition (canonical_document d) = Inr d \<and> (canonical_document d = canonical_document e) = (d = e)"
  using parse_document [OF parse_definition_wf [OF assms(1)]]
    canonical_document_inj [OF parse_definition_wf [OF assms(1)] parse_definition_wf [OF assms(2)]] by auto

definition demo_definition :: "string \<Rightarrow> account_definition" where
  "demo_definition cls = \<lparr>d_name = ''spend'', d_selection_kind = SELECTION_RANGE, d_reads = [''amount'', ''who''],
     d_derivation_class = cls, d_predicate = [\<lparr>p_field = ''who'', p_op = ''eq'', p_operand = JStr ''a''\<rparr>]\<rparr>"

lemma demo_definition_wf: "cls \<in> set DERIVATION_CLASSES \<Longrightarrow> wf_definition (demo_definition cls)"
  by (simp add: wf_definition_def demo_definition_def wf_clause_def SELECTION_KINDS_def BOUNDED_PREDICATE_OPS_def)

theorem definition_document_round_trip_witness:
  "parse_definition (canonical_document (demo_definition DERIVATION_DETERMINISTIC))
    = Inr (demo_definition DERIVATION_DETERMINISTIC)"
proof -
  have "wf_definition (demo_definition DERIVATION_DETERMINISTIC)"
    by (rule demo_definition_wf) (simp add: DERIVATION_CLASSES_def)
  note p = parse_document [OF this]
  from definition_document_round_trip [OF p p] show ?thesis by simp
qed

text \<open>An account that was built cites its definition in exactly one way, carries provenance exactly when its
  class asks for it, names a range or a chain segment by its end points and never by its members, has a
  document, and verifies against its own definition: by any recomputation that gives the asserted result, or
  by provenance that is complete and re-adjudicable.\<close>

theorem built_account_verifies:
  assumes "parse_definition v = Inr d" "build_account jd d sel result prov token = Inr a"
    and "nan_free result"
  shows "wf_account d a \<and> (\<exists>doc. account_document a = Inr doc) \<and>
    (s_kind sel = SELECTION_EXPLICIT_SET \<or> v_references (s_coverage sel) = []) \<and>
    verify_account jd ife a (Some d) (Some (\<lambda>_. result)) =
      Inr (case prov of
             None \<Rightarrow> \<lparr>w_ok = True, w_method = ''recompute'', w_reason = None\<rparr>
           | Some p \<Rightarrow> verify_model_assisted a)"
proof -
  note f = build_account_facts [OF assms(2)]
  have cls: "d_derivation_class d \<in> set DERIVATION_CLASSES"
    using parse_definition_wf [OF assms(1)] by (simp add: wf_definition_def)
  have cite: "r_definition_digest (t_derivation a) = None \<or>
      definition_digest jd d = Inr (the (r_definition_digest (t_derivation a)))"
    using f(1,5,6) by (cases token) (auto simp: wf_account_def)
  have "verify_account jd ife a (Some d) (Some (\<lambda>_. result))
      = Inr (if d_derivation_class d = DERIVATION_MODEL_ASSISTED then verify_model_assisted a
             else verify_deterministic ife a (Some (\<lambda>_. result)))"
    by (rule verify_path [OF f(1) cls cite])
  moreover have "d_derivation_class d = DERIVATION_MODEL_ASSISTED \<longleftrightarrow> prov \<noteq> None"
    using f(1,4) cls by (auto simp: wf_account_def DERIVATION_CLASSES_def)
  moreover have "verify_deterministic ife a (Some (\<lambda>_. result)) = \<lparr>w_ok = True, w_method = ''recompute'', w_reason = None\<rparr>"
    using py_eq_refl [OF assms(3)] f(3) by (simp add: verify_deterministic_def)
  moreover have "s_kind sel = SELECTION_EXPLICIT_SET \<or> v_references (s_coverage sel) = []"
    using f(1,2) coverage_references by (auto simp: wf_account_def)
  ultimately show ?thesis
    using f(1) account_document_total [OF f(1)] by (auto split: option.splits)
qed

definition demo_selection :: selection where
  "demo_selection = \<lparr>s_kind = SELECTION_RANGE, s_coverage = \<lparr>v_coverage_root = JStr ''root'',
     v_range = Some [JInt 0, JInt 9], v_references = [], v_start_digest = JNull, v_end_digest = JNull,
     v_relation = JNull\<rparr>\<rparr>"

definition demo_digest :: "json \<Rightarrow> digest_exn + string" where
  "demo_digest v = (case v of JObj d \<Rightarrow> Inr (case dget d ''name'' of JStr s \<Rightarrow> s | _ \<Rightarrow> []) | _ \<Rightarrow> Inl FloatInDigestExn)"

definition demo_account :: account where
  "demo_account = \<lparr>t_selection = demo_selection, t_derivation = \<lparr>r_derivation_class = DERIVATION_DETERMINISTIC,
     r_definition_digest = Some ''spend'', r_registry_token = None\<rparr>, t_asserted_result = JInt 7, t_provenance = None\<rparr>"

lemma demo_build: "build_account demo_digest (demo_definition DERIVATION_DETERMINISTIC) demo_selection (JInt 7) None None
    = Inr demo_account"
  by (simp add: build_account_def demo_selection_def demo_definition_def demo_account_def validate_coverage_def
      range_ok_def definition_digest_def demo_digest_def canonical_document_def Let_def)

theorem built_account_verifies_witness:
  "verify_account demo_digest (\<lambda>_ _. False) demo_account (Some (demo_definition DERIVATION_DETERMINISTIC))
     (Some (\<lambda>_. JInt 7)) = Inr \<lparr>w_ok = True, w_method = ''recompute'', w_reason = None\<rparr>"
proof -
  have "wf_definition (demo_definition DERIVATION_DETERMINISTIC)"
    by (rule demo_definition_wf) (simp add: DERIVATION_CLASSES_def)
  from built_account_verifies [OF parse_document [OF this] demo_build, of "\<lambda>_ _. False"] show ?thesis by simp
qed

text \<open>A swapped definition is caught: an account that cites a definition by digest verifies only against a
  definition with that digest, so where the digest separates the two documents only against the definition it
  was built from; an account with an unknown kind or class is refused whatever else is supplied.\<close>

theorem swapped_definition_is_refused:
  assumes "build_account jd d sel result prov None = Inr a" "verify_account jd ife a (Some e) recompute = Inr w" "w_ok w"
    and "wf_definition d" "wf_definition e"
    and "\<And>s. jd (canonical_document d) = Inr s \<Longrightarrow> jd (canonical_document e) = Inr s \<Longrightarrow>
           canonical_document d = canonical_document e"
  shows "e = d"
proof -
  obtain s where s: "definition_digest jd d = Inr s" "r_definition_digest (t_derivation a) = Some s"
    using build_account_facts(6) [OF assms(1)] by auto
  have "definition_digest jd e = Inr s"
    using assms(2,3) s(2)
    by (auto simp: verify_account_def Let_def res_simps split: if_splits)
  with s(1) assms(6) have "canonical_document d = canonical_document e"
    by (auto simp: definition_digest_def split: sum.splits digest_exn.splits)
  with assms(4,5) canonical_document_inj show ?thesis by blast
qed

theorem swapped_definition_is_refused_witness:
  "\<exists>w. verify_account demo_digest (\<lambda>_ _. False) demo_account (Some (demo_definition DERIVATION_DETERMINISTIC))
     (Some (\<lambda>_. JInt 7)) = Inr w \<and> w_ok w \<and>
   demo_definition DERIVATION_DETERMINISTIC = demo_definition DERIVATION_DETERMINISTIC"
proof -
  have wf: "wf_definition (demo_definition DERIVATION_DETERMINISTIC)"
    by (rule demo_definition_wf) (simp add: DERIVATION_CLASSES_def)
  have v: "verify_account demo_digest (\<lambda>_ _. False) demo_account (Some (demo_definition DERIVATION_DETERMINISTIC))
      (Some (\<lambda>_. JInt 7)) = Inr \<lparr>w_ok = True, w_method = ''recompute'', w_reason = None\<rparr>"
    using verify_path [OF build_account_facts(1) [OF demo_build], of demo_digest "\<lambda>_ _. False" "Some (\<lambda>_. JInt 7)"]
    by (simp add: demo_definition_def demo_account_def definition_digest_def demo_digest_def canonical_document_def
        DERIVATION_CLASSES_def verify_deterministic_def)
  from swapped_definition_is_refused [OF demo_build v _ wf wf] v show ?thesis by auto
qed

end
