(* ===== verification/Reconciliation.thy ===== *)
theory Reconciliation
  imports Python_Values
begin

text \<open>
  \<open>reconciliation.py\<close>: the fold of two independently sealed halves of the same exchanges into the states
  matched, requester_only and contradicted, and the completeness sample; \<open>relations.py\<close>: the registered
  chain relations and the legacy tokens that stand for them.  The correlator \<open>key_fn\<close> and the random
  generator are the caller's and stay parameters.
\<close>

section \<open>Relations\<close>

definition REGISTERED_RELATIONS :: "string list" where
  "REGISTERED_RELATIONS = [''follows'', ''confirms'', ''supersedes'', ''epoch_opens'', ''duplicates'']"

definition LEGACY_RELATION_ALIASES :: "(string \<times> string) list" where
  "LEGACY_RELATION_ALIASES =
     [(''sequence'', ''follows''), (''resolves'', ''supersedes''), (''escalates'', ''supersedes''),
      (''adjudicates'', ''confirms''), (''assesses'', ''confirms'')]"

definition registered_meaning :: "json \<Rightarrow> string option" where
  "registered_meaning relation =
     (case relation of
        JStr r \<Rightarrow> if r \<in> set REGISTERED_RELATIONS then Some r else map_of LEGACY_RELATION_ALIASES r
      | _ \<Rightarrow> None)"

lemma registered_meaning_registered:
  "registered_meaning v = Some r \<Longrightarrow> r \<in> set REGISTERED_RELATIONS \<and> registered_meaning (JStr r) = Some r"
  by (cases v) (auto simp: registered_meaning_def REGISTERED_RELATIONS_def LEGACY_RELATION_ALIASES_def
      split: if_splits)

section \<open>Reconciling two sides\<close>

datatype reconciliation_state = MATCHED | REQUESTER_ONLY | CONTRADICTED

datatype reconcile_exn = AttributeError | ValueError

record exchange =
  x_key :: string
  x_state :: reconciliation_state
  x_requester_digest :: json
  x_counterparty_digest :: json

text \<open>\<open>(v or {}).get(k)\<close>: a truthy value that is no dict has no \<open>get\<close>.\<close>

definition get_or_empty :: "json \<Rightarrow> string \<Rightarrow> reconcile_exn + json" where
  "get_or_empty v k =
     (if \<not> truthy v then Inr JNull else (case v of JObj d \<Rightarrow> Inr (dget d k) | _ \<Rightarrow> Inl AttributeError))"

definition digest_of :: "dict \<Rightarrow> string \<Rightarrow> reconcile_exn + json" where
  "digest_of r digest_field =
     sbind (get_or_empty (dget r ''model_attestation'') ''compute_attestation'') (\<lambda>ca. get_or_empty ca digest_field)"

definition by_key :: "(dict \<Rightarrow> string) \<Rightarrow> dict list \<Rightarrow> string \<Rightarrow> dict option" where
  "by_key key_fn rs = map_of (rev (map (\<lambda>r. (key_fn r, r)) rs))"

definition reconcile_one ::
    "(int \<Rightarrow> pyfloat \<Rightarrow> bool) \<Rightarrow> (dict \<Rightarrow> string) \<Rightarrow> string \<Rightarrow> (string \<Rightarrow> dict option) \<Rightarrow> dict \<Rightarrow> reconcile_exn + exchange" where
  "reconcile_one ife key_fn digest_field counterparty req =
     sbind (digest_of req digest_field) (\<lambda>req_digest.
       (case counterparty (key_fn req) of
          None \<Rightarrow> Inr \<lparr>x_key = key_fn req, x_state = REQUESTER_ONLY, x_requester_digest = req_digest,
                      x_counterparty_digest = JNull\<rparr>
        | Some cp \<Rightarrow> sbind (digest_of cp digest_field) (\<lambda>cp_digest.
            Inr \<lparr>x_key = key_fn req,
                 x_state = (if req_digest \<noteq> JNull \<and> py_eq ife req_digest cp_digest then MATCHED else CONTRADICTED),
                 x_requester_digest = req_digest, x_counterparty_digest = cp_digest\<rparr>)))"

definition reconcile_records ::
    "(int \<Rightarrow> pyfloat \<Rightarrow> bool) \<Rightarrow> (dict \<Rightarrow> string) \<Rightarrow> string \<Rightarrow> dict list \<Rightarrow> dict list \<Rightarrow> reconcile_exn + exchange list" where
  "reconcile_records ife key_fn digest_field requester counterparty =
     mapM_r (reconcile_one ife key_fn digest_field (by_key key_fn counterparty)) requester"

record fold_counts =
  n_matched :: nat
  n_requester_only :: nat
  n_contradicted :: nat
  n_total :: nat

definition bump :: "fold_counts \<Rightarrow> exchange \<Rightarrow> fold_counts" where
  "bump c r =
     (case x_state r of
        MATCHED \<Rightarrow> c\<lparr>n_matched := n_matched c + 1\<rparr>
      | REQUESTER_ONLY \<Rightarrow> c\<lparr>n_requester_only := n_requester_only c + 1\<rparr>
      | CONTRADICTED \<Rightarrow> c\<lparr>n_contradicted := n_contradicted c + 1\<rparr>)"

definition fold_results :: "exchange list \<Rightarrow> fold_counts" where
  "fold_results rs =
     (foldl bump \<lparr>n_matched = 0, n_requester_only = 0, n_contradicted = 0, n_total = 0\<rparr> rs)\<lparr>n_total := length rs\<rparr>"

definition n_of_m :: "nat \<Rightarrow> nat \<Rightarrow> string" where
  "n_of_m n m = nat_str n @ '' of '' @ nat_str m"

definition format_fold :: "fold_counts \<Rightarrow> (string \<times> string) list" where
  "format_fold c =
     [(''matched'', n_of_m (n_matched c) (n_total c)),
      (''requester_only'', n_of_m (n_requester_only c) (n_total c)),
      (''contradicted'', n_of_m (n_contradicted c) (n_total c))]"

record completeness =
  m_sampled :: int
  m_found :: int
  m_not_found_keys :: "string list"

text \<open>\<open>rng\<close> is \<open>Random.sample\<close> on a population and a size that is not larger; a negative size raises.\<close>

definition sample_completeness ::
    "(dict list \<Rightarrow> nat \<Rightarrow> dict list) \<Rightarrow> (dict \<Rightarrow> string) \<Rightarrow> dict list \<Rightarrow> dict list \<Rightarrow> int \<Rightarrow> reconcile_exn + completeness" where
  "sample_completeness rng key_fn source other k0 =
     (let k = min k0 (int (length source))
      in if k < 0 then Inl ValueError
         else let sampled = (if k \<noteq> 0 then rng source (nat k) else []);
                  other_keys = key_fn ` set other;
                  missing = map key_fn (filter (\<lambda>r. key_fn r \<notin> other_keys) sampled)
              in Inr \<lparr>m_sampled = k, m_found = k - int (length missing), m_not_found_keys = missing\<rparr>)"

section \<open>Lemmas\<close>

lemma list_all2_memberR: "list_all2 P xs ys \<Longrightarrow> y \<in> set ys \<Longrightarrow> \<exists>x \<in> set xs. P x y"
  by (induction rule: list_all2_induct) auto

lemma list_all2_memberL: "list_all2 P xs ys \<Longrightarrow> x \<in> set xs \<Longrightarrow> \<exists>y \<in> set ys. P x y"
  by (induction rule: list_all2_induct) auto

lemma by_key_member: "by_key key_fn rs k = Some r \<Longrightarrow> r \<in> set rs \<and> key_fn r = k"
  by (auto simp: by_key_def dest: map_of_SomeD)

lemma by_key_None: "by_key key_fn rs k = None \<longleftrightarrow> k \<notin> key_fn ` set rs"
  by (auto simp: by_key_def map_of_eq_None_iff image_image)

lemma by_key_unique:
  assumes "distinct (map key_fn rs)" "r \<in> set rs"
  shows "by_key key_fn rs (key_fn r) = Some r"
proof -
  have "distinct (map fst (rev (map (\<lambda>r. (key_fn r, r)) rs)))"
    using assms(1) by (simp add: rev_map [symmetric] o_def)
  moreover have "(key_fn r, r) \<in> set (rev (map (\<lambda>r. (key_fn r, r)) rs))" using assms(2) by simp
  ultimately show ?thesis unfolding by_key_def by (rule map_of_is_SomeI)
qed

definition count_state :: "reconciliation_state \<Rightarrow> exchange list \<Rightarrow> nat" where
  "count_state st rs = length (filter (\<lambda>r. x_state r = st) rs)"

lemma fold_results_counts:
  "fold_results rs = \<lparr>n_matched = count_state MATCHED rs, n_requester_only = count_state REQUESTER_ONLY rs,
     n_contradicted = count_state CONTRADICTED rs, n_total = length rs\<rparr>"
proof -
  have "foldl bump c rs
      = c\<lparr>n_matched := n_matched c + count_state MATCHED rs,
          n_requester_only := n_requester_only c + count_state REQUESTER_ONLY rs,
          n_contradicted := n_contradicted c + count_state CONTRADICTED rs\<rparr>" for c
    by (induction rs arbitrary: c) (auto simp: count_state_def bump_def split: reconciliation_state.splits)
  then show ?thesis by (simp add: fold_results_def)
qed

lemma count_states_total: "count_state MATCHED rs + count_state REQUESTER_ONLY rs + count_state CONTRADICTED rs = length rs"
proof (induction rs)
  case (Cons r rs)
  then show ?case by (cases "x_state r") (simp_all add: count_state_def)
qed (simp add: count_state_def)

lemma reconcile_states:
  assumes "reconcile_records ife key_fn f req cp = Inr xs"
  shows "list_all2 (\<lambda>r x. reconcile_one ife key_fn f (by_key key_fn cp) r = Inr x) req xs"
  using assms unfolding reconcile_records_def by (rule mapM_r_all)

lemma reconcile_one_key: "reconcile_one ife key_fn f m r = Inr x \<Longrightarrow> x_key x = key_fn r"
  by (auto simp: reconcile_one_def res_simps split: option.splits)

lemma reconcile_one_state:
  assumes "reconcile_one ife key_fn f m r = Inr x"
  shows "x_state x = (case m (key_fn r) of None \<Rightarrow> REQUESTER_ONLY
    | Some c \<Rightarrow> if (\<exists>v w. digest_of r f = Inr v \<and> digest_of c f = Inr w \<and> v \<noteq> JNull \<and> py_eq ife v w)
        then MATCHED else CONTRADICTED)"
  using assms by (auto simp: reconcile_one_def res_simps split: option.splits if_splits)

lemma reconcile_keys: "reconcile_records ife key_fn f req cp = Inr xs \<Longrightarrow> map x_key xs = map key_fn req"
  using reconcile_states reconcile_one_key
  by (fastforce intro!: nth_equalityI simp: list_all2_conv_all_nth)

section \<open>Properties\<close>

text \<open>Every exchange of the requester gets exactly one state, in the requester's order: requester_only exactly
  when no counterparty record has its key, matched exactly when the two digests are present and equal.  The
  counts of the fold add up to the number of requester records.\<close>

theorem reconciliation_partitions_the_exchanges:
  assumes "reconcile_records ife key_fn f req cp = Inr xs"
  shows "map x_key xs = map key_fn req \<and>
    list_all2 (\<lambda>r x. x_state x = REQUESTER_ONLY \<longleftrightarrow> key_fn r \<notin> key_fn ` set cp) req xs \<and>
    n_matched (fold_results xs) + n_requester_only (fold_results xs) + n_contradicted (fold_results xs) = length req \<and>
    n_total (fold_results xs) = length req"
proof -
  have only: "x_state x = REQUESTER_ONLY \<longleftrightarrow> key_fn r \<notin> key_fn ` set cp"
    if "reconcile_one ife key_fn f (by_key key_fn cp) r = Inr x" for r x
    using reconcile_one_state [OF that] by_key_None [of key_fn cp "key_fn r"] by (auto split: option.splits)
  have "length xs = length req"
    using reconcile_keys [OF assms] map_eq_imp_length_eq by blast
  with reconcile_keys [OF assms] list_all2_mono [OF reconcile_states [OF assms] only] count_states_total [of xs] show ?thesis
    by (simp add: fold_results_counts)
qed

definition demo_half :: "string \<Rightarrow> string \<Rightarrow> dict" where
  "demo_half k d = [(''key'', JStr k),
     (''model_attestation'', JObj [(''compute_attestation'', JObj [(''agent_output_digest'', JStr d)])])]"

definition demo_key :: "dict \<Rightarrow> string" where
  "demo_key r = (case dget r ''key'' of JStr s \<Rightarrow> s | _ \<Rightarrow> [])"

lemma demo_reconcile:
  "reconcile_records (\<lambda>_ _. False) demo_key ''agent_output_digest''
     [demo_half ''1'' ''a'', demo_half ''2'' ''b'', demo_half ''3'' ''c''] [demo_half ''2'' ''b'', demo_half ''3'' ''x'']
   = Inr [\<lparr>x_key = ''1'', x_state = REQUESTER_ONLY, x_requester_digest = JStr ''a'', x_counterparty_digest = JNull\<rparr>,
          \<lparr>x_key = ''2'', x_state = MATCHED, x_requester_digest = JStr ''b'', x_counterparty_digest = JStr ''b''\<rparr>,
          \<lparr>x_key = ''3'', x_state = CONTRADICTED, x_requester_digest = JStr ''c'', x_counterparty_digest = JStr ''x''\<rparr>]"
  by (simp add: reconcile_records_def reconcile_one_def by_key_def demo_half_def demo_key_def digest_of_def get_or_empty_def)

theorem reconciliation_partitions_the_exchanges_witness:
  "\<exists>xs. reconcile_records (\<lambda>_ _. False) demo_key ''agent_output_digest''
     [demo_half ''1'' ''a'', demo_half ''2'' ''b'', demo_half ''3'' ''c''] [demo_half ''2'' ''b'', demo_half ''3'' ''x''] = Inr xs \<and>
   map x_key xs = [''1'', ''2'', ''3''] \<and> n_total (fold_results xs) = 3"
  using reconciliation_partitions_the_exchanges [OF demo_reconcile] demo_reconcile
  by (simp add: demo_key_def demo_half_def)

definition string_digests :: "string \<Rightarrow> dict list \<Rightarrow> bool" where
  "string_digests f rs \<longleftrightarrow>
     list_all (\<lambda>r. case digest_of r f of Inl _ \<Rightarrow> True | Inr v \<Rightarrow> is_str v \<or> v = JNull) rs"

lemma string_digestsD: "string_digests f rs \<Longrightarrow> r \<in> set rs \<Longrightarrow> digest_of r f = Inr v \<Longrightarrow> is_str v \<or> v = JNull"
  by (fastforce simp: string_digests_def list_all_iff)

text \<open>Agreement is mutual: when keys are unique on each side and digests are strings or absent, an exchange
  the requester finds matched is one the counterparty finds matched, so editing one side after the fact is
  seen from both.\<close>

theorem matched_is_mutual:
  assumes "reconcile_records ife key_fn f a b = Inr xs" "reconcile_records ife key_fn f b a = Inr ys"
    and "distinct (map key_fn a)" "distinct (map key_fn b)"
    and "string_digests f (a @ b)"
  shows "{x_key x | x. x \<in> set xs \<and> x_state x = MATCHED} = {x_key y | y. y \<in> set ys \<and> x_state y = MATCHED}"
proof -
  have sub: "{x_key x | x. x \<in> set xs \<and> x_state x = MATCHED} \<subseteq> {x_key y | y. y \<in> set ys \<and> x_state y = MATCHED}"
    if xs: "reconcile_records ife key_fn f a b = Inr xs" and ys: "reconcile_records ife key_fn f b a = Inr ys"
      and da: "distinct (map key_fn a)"
      and str: "string_digests f (a @ b)" for a b xs ys
  proof clarify
    fix x assume x: "x \<in> set xs" "x_state x = MATCHED"
    obtain r where r: "r \<in> set a" "reconcile_one ife key_fn f (by_key key_fn b) r = Inr x"
      using list_all2_memberR [OF reconcile_states [OF xs] x(1)] by blast
    obtain c v w where c: "by_key key_fn b (key_fn r) = Some c" "digest_of r f = Inr v" "digest_of c f = Inr w"
        "v \<noteq> JNull" "py_eq ife v w"
      using reconcile_one_state [OF r(2)] x(2) by (auto split: option.splits if_splits)
    have cb: "c \<in> set b" "key_fn c = key_fn r" using by_key_member [OF c(1)] by auto
    have "is_str v" "w = v"
      using string_digestsD [OF str, of r] string_digestsD [OF str, of c] r(1) cb(1) c(2-5) by (auto simp: is_str_iff)
    obtain y where y: "y \<in> set ys" "reconcile_one ife key_fn f (by_key key_fn a) c = Inr y"
      using list_all2_memberL [OF reconcile_states [OF ys] cb(1)] by blast
    have "by_key key_fn a (key_fn c) = Some r"
      using by_key_unique [OF da r(1)] cb(2) by simp
    with reconcile_one_state [OF y(2)] c(2,3) \<open>is_str v\<close> \<open>w = v\<close> have "x_state y = MATCHED"
      by (auto simp: is_str_iff)
    moreover have "x_key y = x_key x"
      using reconcile_one_key [OF y(2)] reconcile_one_key [OF r(2)] cb(2) by simp
    ultimately show "\<exists>y. x_key x = x_key y \<and> y \<in> set ys \<and> x_state y = MATCHED" using y(1) by metis
  qed
  have str': "string_digests f (b @ a)" using assms(5) by (auto simp: string_digests_def)
  from sub [OF assms(1,2,3,5)] sub [OF assms(2,1,4) str'] show ?thesis by blast
qed

theorem matched_is_mutual_witness:
  "\<exists>xs ys. reconcile_records (\<lambda>_ _. False) demo_key ''agent_output_digest'' [demo_half ''1'' ''a''] [demo_half ''1'' ''a''] = Inr xs \<and>
    {x_key x | x. x \<in> set xs \<and> x_state x = MATCHED} = {''1''}"
proof -
  have d: "digest_of (demo_half ''1'' ''a'') ''agent_output_digest'' = Inr (JStr ''a'')"
    by (simp add: digest_of_def get_or_empty_def demo_half_def)
  have r: "reconcile_records (\<lambda>_ _. False) demo_key ''agent_output_digest'' [demo_half ''1'' ''a''] [demo_half ''1'' ''a'']
    = Inr [\<lparr>x_key = ''1'', x_state = MATCHED, x_requester_digest = JStr ''a'', x_counterparty_digest = JStr ''a''\<rparr>]"
    using d by (simp add: reconcile_records_def reconcile_one_def by_key_def demo_key_def) (simp add: demo_half_def)
  have "string_digests ''agent_output_digest'' ([demo_half ''1'' ''a''] @ [demo_half ''1'' ''a''])"
    using d by (simp add: string_digests_def)
  from matched_is_mutual [OF r r _ _ this] r show ?thesis by simp
qed

end
