(* ===== verification/Numbers.thy ===== *)
theory Numbers
  imports Json_Text
begin

text \<open>
  \<open>numbers.py\<close>: the decimal text of a binary64 in digest-bearing fields, and the walk that replaces every
  float of a payload by it.  \<open>float_to_str\<close> reformats the text of \<open>repr\<close>; the theorems compare it with
  ECMA-262 \<open>Number::toString\<close>, stated apart from the code as \<open>es_text\<close> over the significand of the float, its
  number of digits and the decimal exponent, and show that the text determines the float.  The walk is compared
  with the relation \<open>rendered\<close> and the places of the floats.  Tuples, which the code turns into lists, and values
  that are not JSON have no counterpart in the type of payloads.
\<close>

section \<open>The code\<close>

datatype number_error = FloatInDigestError string

definition CANONICALIZATION_ID :: string where
  "CANONICALIZATION_ID = ''jcs''"

text \<open>\<open>int\<close> of an exponent with its sign.\<close>

definition exponent_val :: "string \<Rightarrow> int" where
  "exponent_val s =
     (case s of
        [] \<Rightarrow> 0
      | c # r \<Rightarrow> if c = CHR ''-'' then - int (digits_val r)
                else if c = CHR ''+'' then int (digits_val r) else int (digits_val s))"

definition dot_pos :: "string \<Rightarrow> nat" where
  "dot_pos s = length (takeWhile (\<lambda>c. c \<noteq> CHR ''.'') s)"

definition drop_dot :: "string \<Rightarrow> string" where
  "drop_dot s = take (dot_pos s) s @ drop (dot_pos s + 1) s"

text \<open>The digits of the text and the number of them before the decimal point.\<close>

definition parse_repr :: "string \<Rightarrow> string \<times> int" where
  "parse_repr r =
     (if CHR ''e'' \<in> set r then
        (let mant = takeWhile (\<lambda>c. c \<noteq> CHR ''e'') r; n_adj = exponent_val (drop (length mant + 1) r)
         in if CHR ''.'' \<in> set mant then (drop_dot mant, n_adj + int (dot_pos mant))
            else (mant, n_adj + int (length mant)))
      else if CHR ''.'' \<in> set r then (drop_dot r, int (dot_pos r))
      else (r, int (length r)))"

definition strip_zeros :: "string \<times> int \<Rightarrow> string \<times> int" where
  "strip_zeros = (\<lambda>(digits, n).
     let d1 = rev (dropWhile (\<lambda>c. c = CHR ''0'') (rev digits));
         d2 = dropWhile (\<lambda>c. c = CHR ''0'') d1
     in (d2, n - int (length d1 - length d2)))"

definition sci_exponent :: "int \<Rightarrow> string" where
  "sci_exponent e = (if 0 \<le> e then ''e+'' @ int_str e else CHR ''e'' # int_str e)"

definition es_layout :: "string \<Rightarrow> int \<Rightarrow> string" where
  "es_layout digits n =
     (let k = int (length digits)
      in if k \<le> n \<and> n \<le> 21 then digits @ replicate (nat (n - k)) CHR ''0''
         else if 0 < n \<and> n \<le> 21 then take (nat n) digits @ CHR ''.'' # drop (nat n) digits
         else if - 6 < n \<and> n \<le> 0 then ''0.'' @ replicate (nat (- n)) CHR ''0'' @ digits
         else if k = 1 then take 1 digits @ sci_exponent (n - 1)
         else take 1 digits @ CHR ''.'' # drop 1 digits @ sci_exponent (n - 1))"

definition float_to_str :: "pyfloat \<Rightarrow> string \<Rightarrow> number_error + string" where
  "float_to_str v field =
     (case v of
        FZero _ \<Rightarrow> Inr ''0''
      | FNaN \<Rightarrow> Inl (FloatInDigestError field)
      | FInf _ \<Rightarrow> Inl (FloatInDigestError field)
      | FFin negative ds p \<Rightarrow>
          (let (digits, n) = strip_zeros (parse_repr (float_repr (FFin False ds p)))
           in if digits = [] then Inr ''0''
              else let body = es_layout digits n in Inr (if negative then CHR ''-'' # body else body)))"

definition key_path :: "string \<Rightarrow> string \<Rightarrow> string" where
  "key_path field key = (if field \<noteq> [] then field @ CHR ''.'' # key else key)"

definition index_path :: "string \<Rightarrow> nat \<Rightarrow> string" where
  "index_path field i = field @ CHR ''['' # nat_str i @ '']''"

fun canonicalize_for_digest :: "string \<Rightarrow> json \<Rightarrow> number_error + json"
  and canonicalize_members :: "string \<Rightarrow> dict \<Rightarrow> number_error + dict"
  and canonicalize_items :: "string \<Rightarrow> nat \<Rightarrow> json list \<Rightarrow> number_error + json list" where
  "canonicalize_for_digest field (JFloat f) = sbind (float_to_str f field) (\<lambda>s. Inr (JStr s))"
| "canonicalize_for_digest field (JObj d) = sbind (canonicalize_members field d) (\<lambda>d'. Inr (JObj d'))"
| "canonicalize_for_digest field (JArr vs) = sbind (canonicalize_items field 0 vs) (\<lambda>ws. Inr (JArr ws))"
| "canonicalize_for_digest field v = Inr v"
| "canonicalize_members field [] = Inr []"
| "canonicalize_members field ((k, v) # d) =
     sbind (canonicalize_for_digest (key_path field k) v) (\<lambda>w.
     sbind (canonicalize_members field d) (\<lambda>d'. Inr ((k, w) # d')))"
| "canonicalize_items field i [] = Inr []"
| "canonicalize_items field i (v # vs) =
     sbind (canonicalize_for_digest (index_path field i) v) (\<lambda>w.
     sbind (canonicalize_items field (Suc i) vs) (\<lambda>ws. Inr (w # ws)))"

section \<open>Reading the digits back from the text\<close>

abbreviation zeros :: "nat \<Rightarrow> string" where
  "zeros k \<equiv> replicate k CHR ''0''"

definition digits_of :: "string \<Rightarrow> string \<times> int" where
  "digits_of s = strip_zeros (parse_repr s)"

definition good_digits :: "nat list \<Rightarrow> bool" where
  "good_digits ds \<longleftrightarrow> ds \<noteq> [] \<and> list_all (\<lambda>d. d < 10) ds \<and> hd ds \<noteq> 0 \<and> last ds \<noteq> 0"

lemma digit_char_zero: "d < 10 \<Longrightarrow> digit_char d = CHR ''0'' \<longleftrightarrow> d = 0"
proof -
  assume d: "d < 10"
  have "digit_char 0 = CHR ''0''" by code_simp
  with digit_char_inj [of d 0] d show ?thesis by auto
qed

lemma dstr_facts:
  assumes "good_digits ds"
  shows "digit_string ds \<noteq> []" "hd (digit_string ds) \<noteq> CHR ''0''" "last (digit_string ds) \<noteq> CHR ''0''"
    "list_all is_digit (digit_string ds)"
proof -
  from assms have "hd ds < 10" "last ds < 10" by (auto simp: good_digits_def list_all_iff)
  with assms show "digit_string ds \<noteq> []" "hd (digit_string ds) \<noteq> CHR ''0''" "last (digit_string ds) \<noteq> CHR ''0''"
    by (simp_all add: good_digits_def digit_string_def hd_map last_map digit_char_zero)
  from assms show "list_all is_digit (digit_string ds)"
    by (auto simp: good_digits_def digit_string_def list_all_iff)
qed

lemma dropWhile_zeros: "s \<noteq> [] \<Longrightarrow> hd s \<noteq> CHR ''0'' \<Longrightarrow> dropWhile (\<lambda>c. c = CHR ''0'') (zeros a @ s) = s"
  by (induction a) (cases s; simp)+

lemma strip_zeros_norm:
  assumes "good_digits ds"
  shows "strip_zeros (zeros a @ digit_string ds @ zeros b, m) = (digit_string ds, m - int a)"
proof -
  note d = dstr_facts [OF assms]
  have "hd (rev (digit_string ds)) \<noteq> CHR ''0''" using d(1,3) by (simp add: hd_rev)
  then have "hd (rev (digit_string ds) @ zeros a) \<noteq> CHR ''0''" using d(1) by simp
  with d(1) have "dropWhile (\<lambda>c. c = CHR ''0'') (zeros b @ rev (digit_string ds) @ zeros a) = rev (digit_string ds) @ zeros a"
    by (intro dropWhile_zeros) simp_all
  with dropWhile_zeros [OF d(1,2), of a] show ?thesis
    by (simp add: strip_zeros_def Let_def)
qed

lemma digit_not_special: "is_digit c \<Longrightarrow> c \<noteq> CHR ''e'' \<and> c \<noteq> CHR ''.'' \<and> c \<noteq> CHR ''-'' \<and> c \<noteq> CHR ''+''"
  by (auto simp: is_digit_def)

lemma all_digits_not_special:
  assumes "list_all is_digit s"
  shows "CHR ''e'' \<notin> set s" "CHR ''.'' \<notin> set s"
  using assms digit_not_special by (auto simp: list_all_iff)
lemma dot_pos_split: "CHR ''.'' \<notin> set a \<Longrightarrow> dot_pos (a @ CHR ''.'' # b) = length a \<and> drop_dot (a @ CHR ''.'' # b) = a @ b"
proof -
  assume "CHR ''.'' \<notin> set a"
  then have "takeWhile (\<lambda>c. c \<noteq> CHR ''.'') (a @ CHR ''.'' # b) = a" by (subst takeWhile_append2) auto
  then show ?thesis by (simp add: dot_pos_def drop_dot_def)
qed

lemma parse_plain: "list_all is_digit s \<Longrightarrow> parse_repr s = (s, int (length s))"
  using all_digits_not_special by (simp add: parse_repr_def)

lemma parse_dotted:
  assumes "list_all is_digit a" "list_all is_digit b"
  shows "parse_repr (a @ CHR ''.'' # b) = (a @ b, int (length a))"
  using all_digits_not_special [OF assms(1)] all_digits_not_special [OF assms(2)] dot_pos_split [of a b]
  by (simp add: parse_repr_def)

lemma parse_exp:
  assumes "list_all is_digit a" "list_all is_digit b"
  shows "parse_repr (a @ CHR ''e'' # x) = (a, exponent_val x + int (length a))"
    and "parse_repr (a @ CHR ''.'' # b @ CHR ''e'' # x) = (a @ b, exponent_val x + int (length a))"
proof -
  note s = all_digits_not_special [OF assms(1)] all_digits_not_special [OF assms(2)]
  have "takeWhile (\<lambda>c. c \<noteq> CHR ''e'') (a @ CHR ''e'' # x) = a"
    using s by (subst takeWhile_append2) auto
  with s show "parse_repr (a @ CHR ''e'' # x) = (a, exponent_val x + int (length a))"
    by (simp add: parse_repr_def)
  have "takeWhile (\<lambda>c. c \<noteq> CHR ''e'') ((a @ CHR ''.'' # b) @ CHR ''e'' # x) = a @ CHR ''.'' # b"
    using s by (subst takeWhile_append2) auto
  with s dot_pos_split [of a b] show "parse_repr (a @ CHR ''.'' # b @ CHR ''e'' # x) = (a @ b, exponent_val x + int (length a))"
    by (simp add: parse_repr_def)
qed

lemma exponent_val_digits: "list_all is_digit s \<Longrightarrow> s \<noteq> [] \<Longrightarrow> exponent_val s = int (digits_val s)"
  by (cases s) (auto simp: exponent_val_def dest: digit_not_special)

lemma digits_val_Cons0: "digits_val (CHR ''0'' # s) = digits_val s"
  by (simp add: digits_val_def digit_val_def)

lemma exponent_val_repr: "exponent_val (exponent_string e) = e"
  by (simp add: exponent_string_def exponent_val_def Let_def digits_val_Cons0)

lemma exponent_val_sci: "exponent_val (drop 1 (sci_exponent e)) = e"
  by (simp add: sci_exponent_def exponent_val_def int_str_def)

lemma sci_exponent_e: "sci_exponent e = CHR ''e'' # drop 1 (sci_exponent e)"
  by (simp add: sci_exponent_def)

lemma list_all_take_drop: "list_all P s \<Longrightarrow> list_all P (take k s) \<and> list_all P (drop k s)"
  by (metis append_take_drop_id list_all_append)

lemma is_digit_zeros [simp]: "list_all is_digit (zeros k)"
  by (induction k) (simp_all add: is_digit_def)

text \<open>The digits of every layout that either notation uses.\<close>

lemma digits_of_integer:
  assumes "good_digits ds"
  shows "digits_of (digit_string ds @ zeros k) = (digit_string ds, int (length ds + k))"
    and "digits_of (digit_string ds @ zeros k @ ''.0'') = (digit_string ds, int (length ds + k))"
proof -
  have d: "list_all is_digit (digit_string ds @ zeros k)" using dstr_facts(4) [OF assms] by simp
  from strip_zeros_norm [OF assms, of 0 k] show "digits_of (digit_string ds @ zeros k) = (digit_string ds, int (length ds + k))"
    by (simp add: digits_of_def parse_plain [OF d]) (simp add: digit_string_def)
  have "parse_repr ((digit_string ds @ zeros k) @ CHR ''.'' # ''0'') = (digit_string ds @ zeros (k + 1), int (length ds + k))"
    using parse_dotted [OF d, of "''0''"] by (simp add: is_digit_def digit_string_def replicate_append_same)
  with strip_zeros_norm [OF assms, of 0 "k + 1"]
  show "digits_of (digit_string ds @ zeros k @ ''.0'') = (digit_string ds, int (length ds + k))"
    by (simp add: digits_of_def)
qed

lemma digits_of_point:
  assumes "good_digits ds" "0 < n" "n < int (length ds)"
  shows "digits_of (take (nat n) (digit_string ds) @ CHR ''.'' # drop (nat n) (digit_string ds)) = (digit_string ds, n)"
proof -
  note d = list_all_take_drop [OF dstr_facts(4) [OF assms(1)], of "nat n"]
  have "int (length (take (nat n) (digit_string ds))) = n"
    using assms(2,3) by (simp add: digit_string_def)
  with parse_dotted [OF conjunct1 [OF d] conjunct2 [OF d]] strip_zeros_norm [OF assms(1), of 0 0] show ?thesis
    by (simp add: digits_of_def)
qed

lemma digits_of_small:
  assumes "good_digits ds" "n \<le> 0"
  shows "digits_of (''0.'' @ zeros (nat (- n)) @ digit_string ds) = (digit_string ds, n)"
proof -
  have "list_all is_digit (zeros (nat (- n)) @ digit_string ds)" using dstr_facts(4) [OF assms(1)] by simp
  from parse_dotted [of "''0''", OF _ this]
  have "parse_repr (''0.'' @ zeros (nat (- n)) @ digit_string ds) = (zeros (Suc (nat (- n))) @ digit_string ds, 1)"
    by (simp add: is_digit_def)
  with strip_zeros_norm [OF assms(1), of "Suc (nat (- n))" 0] assms(2) show ?thesis
    by (simp add: digits_of_def)
qed

lemma digits_of_scientific:
  assumes "good_digits ds" "exponent_val x = n - 1"
  shows "length ds = 1 \<Longrightarrow> digits_of (take 1 (digit_string ds) @ CHR ''e'' # x) = (digit_string ds, n)"
    and "digits_of (take 1 (digit_string ds) @ CHR ''.'' # drop 1 (digit_string ds) @ CHR ''e'' # x) = (digit_string ds, n)"
proof -
  note d = list_all_take_drop [OF dstr_facts(4) [OF assms(1)], of 1]
  have len: "length (take 1 (digit_string ds)) = 1"
    using dstr_facts(1) [OF assms(1)] by (cases "digit_string ds") simp_all
  note p = parse_exp [OF conjunct1 [OF d] conjunct2 [OF d], of x]
  from strip_zeros_norm [OF assms(1), of 0 0]
  have norm: "strip_zeros (digit_string ds, n) = (digit_string ds, n)" by simp
  have "parse_repr (take 1 (digit_string ds) @ CHR ''.'' # drop 1 (digit_string ds) @ CHR ''e'' # x) = (digit_string ds, n)"
    unfolding p(2) append_take_drop_id len assms(2) by simp
  with norm show "digits_of (take 1 (digit_string ds) @ CHR ''.'' # drop 1 (digit_string ds) @ CHR ''e'' # x) = (digit_string ds, n)"
    by (simp only: digits_of_def)
  assume "length ds = 1"
  then have "take 1 (digit_string ds) = digit_string ds" by (simp add: digit_string_def)
  with p(1) len assms(2) norm show "digits_of (take 1 (digit_string ds) @ CHR ''e'' # x) = (digit_string ds, n)"
    by (simp add: digits_of_def)
qed

lemma good_digits_single: "good_digits ds \<Longrightarrow> length ds \<noteq> 1 \<longleftrightarrow> 1 < length ds"
  by (cases ds) (auto simp: good_digits_def)

lemma digits_of_repr:
  assumes "good_digits ds"
  shows "digits_of (float_repr_abs ds n) = (digit_string ds, n)"
proof -
  note sci = digits_of_scientific [OF assms exponent_val_repr]
  consider "n \<le> - 4 \<or> 16 < n" | "\<not> (n \<le> - 4 \<or> 16 < n)" "n \<le> 0"
    | "\<not> (n \<le> - 4 \<or> 16 < n)" "\<not> n \<le> 0" "n < int (length ds)"
    | "\<not> (n \<le> - 4 \<or> 16 < n)" "\<not> n \<le> 0" "\<not> n < int (length ds)" by blast
  then show ?thesis
  proof cases
    case 1
    with sci show ?thesis
      by (cases "length ds = 1") (simp_all add: float_repr_abs_def digit_string_def take_map drop_map)
  next
    case 2
    with digits_of_small [OF assms] show ?thesis by (simp add: float_repr_abs_def)
  next
    case 3
    with digits_of_point [OF assms] show ?thesis
      by (simp add: float_repr_abs_def digit_string_def take_map drop_map)
  next
    case 4
    with digits_of_integer(2) [OF assms, of "nat n - length ds"] show ?thesis
      by (simp add: float_repr_abs_def)
  qed
qed

lemma digits_of_layout:
  assumes "good_digits ds"
  shows "digits_of (es_layout (digit_string ds) n) = (digit_string ds, n)"
proof -
  let ?D = "digit_string ds"
  have k: "length ?D = length ds" by (simp add: digit_string_def)
  note sci = digits_of_scientific [OF assms exponent_val_sci]
  consider "int (length ds) \<le> n" "n \<le> 21" | "\<not> int (length ds) \<le> n" "0 < n" "n \<le> 21"
    | "- 6 < n" "n \<le> 0" | "n \<le> - 6 \<or> 21 < n" by linarith
  then show ?thesis
  proof cases
    case 1
    with digits_of_integer(1) [OF assms, of "nat (n - int (length ds))"] show ?thesis
      by (simp add: es_layout_def k)
  next
    case 2
    with digits_of_point [OF assms] show ?thesis by (simp add: es_layout_def k)
  next
    case 3
    then have "\<not> int (length ds) \<le> n" using assms by (cases ds) (auto simp: good_digits_def)
    with 3 digits_of_small [OF assms] show ?thesis by (simp add: es_layout_def k)
  next
    case 4
    then have "\<not> n \<le> 21 \<or> \<not> - 6 < n" "\<not> (int (length ds) \<le> n \<and> n \<le> 21)" "\<not> (0 < n \<and> n \<le> 21)"
      by auto
    then have lay: "es_layout ?D n = (if length ds = 1 then take 1 ?D @ CHR ''e'' # drop 1 (sci_exponent (n - 1))
        else take 1 ?D @ CHR ''.'' # drop 1 ?D @ CHR ''e'' # drop 1 (sci_exponent (n - 1)))"
      unfolding es_layout_def Let_def k sci_exponent_e [symmetric] by (auto simp del: take_Suc)
    show ?thesis
      by (cases "length ds = 1") (simp_all only: lay sci if_True if_False refl)
  qed
qed

section \<open>What the code computes\<close>

lemma float_to_str_finite:
  assumes "good_digits ds"
  shows "float_to_str (FFin neg ds n) field
    = Inr ((if neg then ''-'' else []) @ es_layout (digit_string ds) n)"
  using digits_of_repr [OF assms, of n] dstr_facts(1) [OF assms]
  by (simp add: float_to_str_def digits_of_def Let_def)

fun non_finite :: "pyfloat \<Rightarrow> bool" where
  "non_finite FNaN = True"
| "non_finite (FInf _) = True"
| "non_finite _ = False"

lemma float_to_str_total:
  assumes "valid_float v"
  shows "if non_finite v then float_to_str v field = Inl (FloatInDigestError field)
    else \<exists>s. \<forall>f. float_to_str v f = Inr s"
proof (cases v)
  case (FFin neg ds n)
  with assms have "good_digits ds" by (simp add: good_digits_def)
  with float_to_str_finite FFin show ?thesis by simp
qed (simp_all add: float_to_str_def)

lemma int_str_not_digit_hd: "list_all is_digit s \<Longrightarrow> s \<noteq> [] \<Longrightarrow> hd s \<noteq> CHR ''-''"
  by (cases s) (auto dest: digit_not_special)

lemma es_layout_hd:
  assumes "good_digits ds"
  shows "es_layout (digit_string ds) n \<noteq> [] \<and> hd (es_layout (digit_string ds) n) \<noteq> CHR ''-''"
proof -
  obtain c t where D: "digit_string ds = c # t" "is_digit c"
    using dstr_facts(1,4) [OF assms] by (cases "digit_string ds") auto
  then have "c \<noteq> CHR ''-''" using digit_not_special by blast
  moreover have "0 < n \<Longrightarrow> take (nat n) (c # t) = c # take (nat n - 1) t" by (cases "nat n") simp_all
  ultimately show ?thesis by (auto simp: es_layout_def Let_def D(1))
qed

text \<open>The text determines sign, digits and point.\<close>

lemma layout_inj:
  assumes "good_digits ds" "good_digits es" "es_layout (digit_string ds) n = es_layout (digit_string es) m"
  shows "ds = es \<and> n = m"
proof -
  have "(digit_string ds, n) = (digit_string es, m)"
    using assms digits_of_layout by metis
  then have "map digit_char ds = map digit_char es" "n = m" by (simp_all add: digit_string_def)
  moreover have "inj_on digit_char (set ds \<union> set es)"
    using assms(1,2) digit_char_inj by (fastforce simp: inj_on_def good_digits_def list_all_iff)
  ultimately show ?thesis using map_inj_on by blast
qed

lemma sign_cancel:
  assumes "x \<noteq> [] \<and> hd x \<noteq> c" "y \<noteq> [] \<and> hd y \<noteq> c" "(if a then [c] else []) @ x = (if b then [c] else []) @ y"
  shows "a = b \<and> x = y"
  using assms by (cases a; cases b) auto

lemma float_to_str_inj:
  assumes "valid_float v" "valid_float w" "float_to_str v f = Inr s" "float_to_str w g = Inr s"
  shows "v = w \<or> (\<exists>a b. v = FZero a \<and> w = FZero b)"
proof -
  have zero: False if "good_digits ds" "(if neg then ''-'' else []) @ es_layout (digit_string ds) n = ''0''" for ds neg n
  proof -
    have "es_layout (digit_string ds) n = ''0''"
      using that es_layout_hd [OF that(1), of n] by (cases neg) (auto simp: append_eq_Cons_conv)
    then have "digits_of ''0'' = (digit_string ds, n)" using digits_of_layout [OF that(1), of n] by simp
    moreover have "fst (digits_of ''0'') = []" by code_simp
    ultimately show False using dstr_facts(1) [OF that(1)] by simp
  qed
  show ?thesis
  proof (cases v)
    case (FFin a ds n)
    with assms have v: "good_digits ds" "s = (if a then ''-'' else []) @ es_layout (digit_string ds) n"
      using float_to_str_finite by (auto simp: good_digits_def)
    show ?thesis
    proof (cases w)
      case (FFin b es m)
      with assms have w: "good_digits es" "s = (if b then ''-'' else []) @ es_layout (digit_string es) m"
        using float_to_str_finite by (auto simp: good_digits_def)
      have "a = b \<and> es_layout (digit_string ds) n = es_layout (digit_string es) m"
        by (rule sign_cancel [OF es_layout_hd [OF v(1)] es_layout_hd [OF w(1)]]) (use v(2) w(2) in argo)
      with layout_inj [OF v(1) w(1)] FFin \<open>v = FFin a ds n\<close> show ?thesis by blast
    qed (use assms v zero in \<open>auto simp: float_to_str_def\<close>)
  next
    case (FZero a)
    with assms have s: "s = ''0''" by (simp add: float_to_str_def)
    show ?thesis
    proof (cases w)
      case (FFin b es m)
      with assms s have "good_digits es" "(if b then ''-'' else []) @ es_layout (digit_string es) m = ''0''"
        using float_to_str_finite by (auto simp: good_digits_def)
      with zero show ?thesis by blast
    qed (use assms FZero in \<open>auto simp: float_to_str_def\<close>)
  qed (use assms in \<open>simp_all add: float_to_str_def\<close>)
qed

section \<open>The numbers of ECMA-262\<close>

text \<open>The decimal digits of \<open>s\<close> from position \<open>hi - 1\<close> down to position \<open>lo\<close>, where position 0 is the units.\<close>

definition decimals :: "nat \<Rightarrow> nat \<Rightarrow> nat \<Rightarrow> string" where
  "decimals s hi lo = map (\<lambda>i. digit_char (s div 10 ^ i mod 10)) (rev [lo..<hi])"

text \<open>\<open>Number::toString\<close>, steps 6 to 10, of the number \<open>s * 10^(n - k)\<close> where \<open>s\<close> has \<open>k\<close> decimal digits.\<close>

definition es_text :: "nat \<Rightarrow> nat \<Rightarrow> int \<Rightarrow> string" where
  "es_text k s n =
     (if n \<in> {1..21} then
        (if int k \<le> n then decimals s k 0 @ zeros (nat n - k)
         else decimals s k (k - nat n) @ ''.'' @ decimals s (k - nat n) 0)
      else if n \<in> {-5..0} then ''0.'' @ zeros (nat (- n)) @ decimals s k 0
      else decimals s k (k - 1) @ (if k = 1 then [] else ''.'' @ decimals s (k - 1) 0) @
        (if n \<le> 0 then ''e-'' else ''e+'') @ nat_str (nat \<bar>n - 1\<bar>))"

abbreviation significand :: "nat list \<Rightarrow> nat" where
  "significand ds \<equiv> foldl (\<lambda>s d. 10 * s + d) 0 ds"

text \<open>What a float is written as: nothing for NaN and the infinities, \<open>0\<close> for both zeros, and otherwise the
  sign and the text of its shortest significand.\<close>

definition number_text :: "pyfloat \<Rightarrow> string option" where
  "number_text v =
     (case v of
        FNaN \<Rightarrow> None
      | FInf _ \<Rightarrow> None
      | FZero _ \<Rightarrow> Some ''0''
      | FFin negative ds n \<Rightarrow>
          Some ((if negative then ''-'' else []) @ es_text (length ds) (significand ds) n))"

lemma decimals_snoc:
  assumes "d < 10"
  shows "decimals (10 * s + d) (Suc k) 0 = decimals s k 0 @ [digit_char d]"
proof -
  have "rev [0..<Suc k] = map Suc (rev [0..<k]) @ [0]"
    by (simp add: upt_conv_Cons map_Suc_upt [symmetric] rev_map del: upt_Suc)
  moreover have "(10 * s + d) div 10 ^ Suc i mod 10 = s div 10 ^ i mod 10" for i
    using assms by (simp add: div_mult2_eq)
  ultimately show ?thesis using assms by (simp add: decimals_def comp_def del: power_Suc)
qed

lemma digit_string_decimals:
  "list_all (\<lambda>d. d < 10) ds \<Longrightarrow> digit_string ds = decimals (significand ds) (length ds) 0"
proof (induction ds rule: rev_induct)
  case Nil
  show ?case by (simp add: digit_string_def decimals_def)
next
  case (snoc d ds)
  then show ?case by (simp add: digit_string_def decimals_snoc)
qed

lemma decimals_split:
  assumes "m \<le> k"
  shows "take m (decimals s k 0) = decimals s k (k - m)" "drop m (decimals s k 0) = decimals s (k - m) 0"
proof -
  have "[0..<k] = [0..<k - m] @ [k - m..<k]"
    using assms by (metis diff_le_self le0 upt_add_eq_append le_add_diff_inverse)
  then have "rev [0..<k] = rev [k - m..<k] @ rev [0..<k - m]" by (metis rev_append)
  then show "take m (decimals s k 0) = decimals s k (k - m)" "drop m (decimals s k 0) = decimals s (k - m) 0"
    using assms by (simp_all add: decimals_def)
qed

lemma significand_bounds:
  assumes "good_digits ds"
  shows "10 ^ (length ds - 1) \<le> significand ds" "significand ds < 10 ^ length ds" "\<not> 10 dvd significand ds"
proof -
  have b: "d * 10 ^ length xs \<le> foldl (\<lambda>s d. 10 * s + d) d xs \<and>
      (list_all (\<lambda>d. d < 10) xs \<longrightarrow> foldl (\<lambda>s d. 10 * s + d) d xs < Suc d * 10 ^ length xs)" for d xs
    by (induction xs rule: rev_induct) auto
  obtain d xs where ds: "ds = d # xs" "0 < d" "d < 10" "list_all (\<lambda>d. d < 10) xs"
    using assms by (cases ds) (auto simp: good_digits_def)
  have "10 ^ length xs \<le> d * 10 ^ length xs" "Suc d * 10 ^ length xs \<le> 10 * 10 ^ length xs"
    using ds(2,3) by (simp_all del: mult_Suc)
  then have "10 ^ length xs \<le> foldl (\<lambda>s d. 10 * s + d) d xs" "foldl (\<lambda>s d. 10 * s + d) d xs < 10 * 10 ^ length xs"
    using b [of d xs] ds(4) by (meson le_trans less_le_trans)+
  then show "10 ^ (length ds - 1) \<le> significand ds" "significand ds < 10 ^ length ds"
    by (simp_all add: ds(1))
  obtain ys e where "ds = ys @ [e]" using assms by (cases ds rule: rev_cases) (auto simp: good_digits_def)
  then show "\<not> 10 dvd significand ds"
    using assms by (auto simp: good_digits_def dvd_eq_mod_eq_0)
qed

lemma layout_is_es_text:
  assumes "good_digits ds"
  shows "es_layout (digit_string ds) n = es_text (length ds) (significand ds) n"
proof -
  let ?s = "significand ds" and ?k = "length ds"
  have D: "digit_string ds = decimals ?s ?k 0" and k: "0 < ?k"
    using assms digit_string_decimals by (auto simp: good_digits_def)
  have len: "length (decimals ?s ?k 0) = ?k" by (simp add: decimals_def)
  note cut = decimals_split [of _ ?k ?s]
  have one: "take 1 (decimals ?s ?k 0) = decimals ?s ?k (?k - 1)" "drop 1 (decimals ?s ?k 0) = decimals ?s (?k - 1) 0"
    using cut [of 1] k by (simp_all add: Suc_le_eq)
  consider "1 \<le> n" "n \<le> 21" "int ?k \<le> n" | "1 \<le> n" "n \<le> 21" "n < int ?k" | "-5 \<le> n" "n \<le> 0" | "n < -5" | "21 < n" by linarith
  then show ?thesis
  proof cases
    case 1
    then have "nat (n - int ?k) = nat n - ?k" by linarith
    with 1 show ?thesis by (simp add: es_layout_def es_text_def D len)
  next
    case 2
    then have "nat n \<le> ?k" by linarith
    with 2 cut [of "nat n"] show ?thesis by (simp add: es_layout_def es_text_def D len)
  next
    case 3
    then have "\<not> int ?k \<le> n" using k by linarith
    with 3 show ?thesis by (simp add: es_layout_def es_text_def D len)
  next
    case 4
    then have c: "\<not> (int ?k \<le> n \<and> n \<le> 21)" "\<not> (0 < n \<and> n \<le> 21)" "\<not> (- 6 < n \<and> n \<le> 0)" "n \<notin> {1..21}" "n \<notin> {-5..0}"
      "n - 1 < 0" "n \<le> 0" "nat \<bar>n - 1\<bar> = nat (- (n - 1))" using k by auto
    from c(6) have e: "sci_exponent (n - 1) = ''e-'' @ nat_str (nat \<bar>n - 1\<bar>)"
      by (simp add: sci_exponent_def int_str_def c(8))
    from c(1-5,7) show ?thesis
      unfolding es_layout_def es_text_def Let_def D len one e by (simp only: if_False if_True of_nat_eq_1_iff) simp
  next
    case 5
    then have c: "\<not> (int ?k \<le> n \<and> n \<le> 21)" "\<not> (0 < n \<and> n \<le> 21)" "\<not> (- 6 < n \<and> n \<le> 0)" "n \<notin> {1..21}" "n \<notin> {-5..0}"
      "\<not> n - 1 < 0" "\<not> n \<le> 0" "nat \<bar>n - 1\<bar> = nat (n - 1)" using k by auto
    from c(6) have e: "sci_exponent (n - 1) = ''e+'' @ nat_str (nat \<bar>n - 1\<bar>)"
      by (simp add: sci_exponent_def int_str_def c(8))
    from c(1-5,7) show ?thesis
      unfolding es_layout_def es_text_def Let_def D len one e by (simp only: if_False if_True of_nat_eq_1_iff) simp
  qed
qed

lemma float_to_str_number_text:
  assumes "valid_float v"
  shows "float_to_str v field = (case number_text v of None \<Rightarrow> Inl (FloatInDigestError field) | Some t \<Rightarrow> Inr t)"
proof (cases v)
  case (FFin negative ds n)
  with assms have "good_digits ds" by (simp add: good_digits_def)
  with FFin show ?thesis by (simp add: float_to_str_finite layout_is_es_text number_text_def)
qed (simp_all add: number_text_def float_to_str_def)

section \<open>Payloads\<close>

fun float_free :: "json \<Rightarrow> bool" where
  "float_free (JFloat _) = False"
| "float_free (JArr vs) = list_all float_free vs"
| "float_free (JObj d) = list_all (\<lambda>(k, v). float_free v) d"
| "float_free _ = True"

fun json_floats :: "json \<Rightarrow> pyfloat list" where
  "json_floats (JFloat f) = [f]"
| "json_floats (JArr vs) = concat (map json_floats vs)"
| "json_floats (JObj d) = concat (map (\<lambda>(k, v). json_floats v) d)"
| "json_floats _ = []"

lemma canonicalize_float_free:
  "canonicalize_for_digest field v = Inr w \<Longrightarrow> float_free w"
  "canonicalize_members field d = Inr d' \<Longrightarrow> list_all (\<lambda>(k, v). float_free v) d' \<and> map fst d' = map fst d"
  "canonicalize_items field i vs = Inr ws \<Longrightarrow> list_all float_free ws \<and> length ws = length vs"
  by (induction field v and field d and field i vs arbitrary: w and d' and ws
      rule: canonicalize_for_digest_canonicalize_members_canonicalize_items.induct)
    (auto simp: res_simps)

lemma canonicalize_same:
  "float_free v \<Longrightarrow> canonicalize_for_digest field v = Inr v"
  "list_all (\<lambda>(k, v). float_free v) d \<Longrightarrow> canonicalize_members field d = Inr d"
  "list_all float_free vs \<Longrightarrow> canonicalize_items field i vs = Inr vs"
  by (induction field v and field d and field i vs
      rule: canonicalize_for_digest_canonicalize_members_canonicalize_items.induct) auto

text \<open>The floats of a payload in document order with their places, and the text of a place below a field.\<close>

datatype place = Key string | Item nat

fun path_text :: "string \<Rightarrow> place list \<Rightarrow> string" where
  "path_text field [] = field"
| "path_text field (Key k # p) = path_text (if field = '''' then k else field @ ''.'' @ k) p"
| "path_text field (Item i # p) = path_text (field @ ''['' @ nat_str i @ '']'') p"

fun float_places :: "json \<Rightarrow> (place list \<times> pyfloat) list"
  and member_places :: "dict \<Rightarrow> (place list \<times> pyfloat) list"
  and item_places :: "nat \<Rightarrow> json list \<Rightarrow> (place list \<times> pyfloat) list" where
  "float_places (JFloat f) = [([], f)]"
| "float_places (JObj d) = member_places d"
| "float_places (JArr vs) = item_places 0 vs"
| "float_places _ = []"
| "member_places [] = []"
| "member_places ((k, v) # d) = map (\<lambda>(p, f). (Key k # p, f)) (float_places v) @ member_places d"
| "item_places i [] = []"
| "item_places i (v # vs) = map (\<lambda>(p, f). (Item i # p, f)) (float_places v) @ item_places (Suc i) vs"

text \<open>The same payload with every float as its text.\<close>

inductive rendered :: "json \<Rightarrow> json \<Rightarrow> bool" where
  "number_text f = Some t \<Longrightarrow> rendered (JFloat f) (JStr t)"
| "list_all2 rendered vs ws \<Longrightarrow> rendered (JArr vs) (JArr ws)"
| "list_all2 (rel_prod (=) rendered) d e \<Longrightarrow> rendered (JObj d) (JObj e)"
| "rendered JNull JNull"
| "rendered (JBool b) (JBool b)"
| "rendered (JInt i) (JInt i)"
| "rendered (JStr s) (JStr s)"

definition unwritable :: "place list \<times> pyfloat \<Rightarrow> bool" where
  "unwritable pf \<longleftrightarrow> number_text (snd pf) = None"

lemma unwritable_pair [simp]: "unwritable (p, f) \<longleftrightarrow> number_text f = None"
  by (simp add: unwritable_def)

lemma find_unwritable:
  "find unwritable (map (\<lambda>(p, f). (g p, f)) xs @ ys)
     = (case find unwritable xs of None \<Rightarrow> find unwritable ys | Some (p, f) \<Rightarrow> Some (g p, f))"
  by (induction xs) auto

lemma canonicalize_cases:
  "list_all valid_float (json_floats v) \<Longrightarrow>
     (case find unwritable (float_places v) of
        Some (p, f) \<Rightarrow> canonicalize_for_digest field v = Inl (FloatInDigestError (path_text field p))
      | None \<Rightarrow> \<exists>w. canonicalize_for_digest field v = Inr w \<and> rendered v w)"
  "list_all valid_float (json_floats (JObj d)) \<Longrightarrow>
     (case find unwritable (member_places d) of
        Some (p, f) \<Rightarrow> canonicalize_members field d = Inl (FloatInDigestError (path_text field p))
      | None \<Rightarrow> \<exists>e. canonicalize_members field d = Inr e \<and> list_all2 (rel_prod (=) rendered) d e)"
  "list_all valid_float (json_floats (JArr vs)) \<Longrightarrow>
     (case find unwritable (item_places i vs) of
        Some (p, f) \<Rightarrow> canonicalize_items field i vs = Inl (FloatInDigestError (path_text field p))
      | None \<Rightarrow> \<exists>ws. canonicalize_items field i vs = Inr ws \<and> list_all2 rendered vs ws)"
proof (induction field v and field d and field i vs
      rule: canonicalize_for_digest_canonicalize_members_canonicalize_items.induct)
  case (1 field f)
  then show ?case
    using float_to_str_number_text [of f field]
    by (auto simp: unwritable_def split: option.splits intro: rendered.intros)
next
  case (6 field k v d)
  from 6(3) have "list_all valid_float (json_floats v)" "list_all valid_float (json_floats (JObj d))" by simp_all
  note ih = 6(1) [OF this(1)] 6(2) [OF this(2)]
  show ?case
    using ih by (cases "find unwritable (float_places v)"; cases "find unwritable (member_places d)")
      (force simp: find_unwritable key_path_def split: prod.splits)+
next
  case (8 field i v vs)
  from 8(3) have "list_all valid_float (json_floats v)" "list_all valid_float (json_floats (JArr vs))" by simp_all
  note ih = 8(1) [OF this(1)] 8(2) [OF this(2)]
  show ?case
    using ih by (cases "find unwritable (float_places v)"; cases "find unwritable (item_places (Suc i) vs)")
      (force simp: find_unwritable index_path_def split: prod.splits)+
next
  case (2 field d)
  then show ?case by (auto split: option.splits intro: rendered.intros)
next
  case (3 field vs)
  then show ?case by (auto split: option.splits intro: rendered.intros)
qed (auto intro: rendered.intros)

section \<open>Properties\<close>

text \<open>C39: Every float of a digest-bearing field is written as ECMA-262 writes a number: positionally from
  10^-6 up to but not including 10^21, with a signed exponent outside, both zeros as 0, and NaN and the infinities
  not at all, with an error that names the field.  The digits written are those of the shortest significand \<open>s\<close>:
  it has as many digits as the text of \<open>repr\<close> and no trailing zero.\<close>

theorem float_text_is_ecmascript:
  assumes "valid_float v"
  shows "float_to_str v field =
      (case number_text v of None \<Rightarrow> Inl (FloatInDigestError field) | Some t \<Rightarrow> Inr t) \<and>
    (case v of FFin negative ds n \<Rightarrow>
       (\<exists>s. 10 ^ (length ds - 1) \<le> s \<and> s < 10 ^ length ds \<and> \<not> 10 dvd s \<and>
          digit_string ds = decimals s (length ds) 0 \<and>
          number_text v = Some ((if negative then ''-'' else []) @ es_text (length ds) s n))
     | _ \<Rightarrow> True)"
proof (cases v)
  case (FFin negative ds n)
  with assms have g: "good_digits ds" by (simp add: good_digits_def)
  then have "digit_string ds = decimals (significand ds) (length ds) 0"
    by (simp add: digit_string_decimals good_digits_def)
  with float_to_str_number_text [OF assms] significand_bounds [OF g] FFin show ?thesis
    by (fastforce simp: number_text_def)
qed (simp_all add: float_to_str_number_text)

theorem float_text_is_ecmascript_witness:
  "float_to_str (FFin True [1, 5] 21) ''x'' = Inr ''-150000000000000000000'' \<and>
   float_to_str (FFin False [1, 5] 22) ''x'' = Inr ''1.5e+21'' \<and>
   float_to_str (FFin False [1] (- 4)) ''x'' = Inr ''0.00001''"
proof -
  have t: "number_text (FFin True [1, 5] 21) = Some ''-150000000000000000000''"
      "number_text (FFin False [1, 5] 22) = Some ''1.5e+21''" "number_text (FFin False [1] (- 4)) = Some ''0.00001''"
    by code_simp+
  show ?thesis
    using float_text_is_ecmascript [of "FFin True [1, 5] 21" "''x''"] float_text_is_ecmascript [of "FFin False [1, 5] 22" "''x''"]
      float_text_is_ecmascript [of "FFin False [1] (- 4)" "''x''"]
    by (simp only: t) simp
qed

text \<open>The text determines the float: two floats with the same text are equal, except that both zeros are
  written 0; NaN and the infinities have no text, and the error names the field.\<close>

theorem float_text_determines_float:
  assumes "valid_float v" "valid_float w" "float_to_str v f = Inr s" "float_to_str w g = Inr s"
  shows "(v = w \<or> (\<exists>a b. v = FZero a \<and> w = FZero b)) \<and> \<not> non_finite v"
  using float_to_str_inj [OF assms] float_to_str_total [OF assms(1), of f] assms(3) by (auto split: if_splits)

theorem float_text_determines_float_witness:
  "FFin False [4, 2] 2 = FFin False [4, 2] (2 :: int) \<and> \<not> non_finite (FFin False [4, 2] 2)"
proof -
  have "float_to_str (FFin False [4, 2] 2) ''x'' = Inr ''42''" by code_simp
  from float_text_determines_float [OF _ _ this this] show ?thesis by simp
qed

text \<open>C40: Canonicalising a payload keeps its shape - every key, length and value that is no float - and writes
  each float as its ECMA-262 text, so that no float is left at any depth and canonicalising again changes nothing; a
  payload without floats comes back unchanged.  A payload with a NaN or an infinity is refused, with the path of the
  first one in document order in the error.\<close>

theorem canonical_payload_is_float_free:
  assumes "list_all valid_float (json_floats v)"
  shows "(case find (\<lambda>(p, f). non_finite f) (float_places v) of
      Some (p, f) \<Rightarrow> canonicalize_for_digest field v = Inl (FloatInDigestError (path_text field p))
    | None \<Rightarrow> \<exists>w. canonicalize_for_digest field v = Inr w \<and> rendered v w \<and> float_free w \<and>
        canonicalize_for_digest field w = Inr w \<and> (float_free v \<longrightarrow> w = v))"
proof -
  have "(\<lambda>(p, f). non_finite f) = unwritable"
    by (auto simp: number_text_def fun_eq_iff split: pyfloat.splits)
  with canonicalize_cases(1) [OF assms, of field] show ?thesis
    using canonicalize_float_free(1) canonicalize_same(1) by (fastforce split: option.splits prod.splits)
qed

theorem canonical_payload_is_float_free_witness:
  "canonicalize_for_digest [] (JObj [(''a'', JFloat (FFin False [1, 5] 1)), (''b'', JArr [JInt 1, JFloat (FZero True)])])
     = Inr (JObj [(''a'', JStr ''1.5''), (''b'', JArr [JInt 1, JStr ''0''])]) \<and>
   canonicalize_for_digest ''x'' (JObj [(''a'', JInt 1), (''b'', JArr [JNull, JFloat FNaN]), (''c'', JFloat (FInf True))])
     = Inl (FloatInDigestError ''x.b[1]'')"
proof -
  let ?v = "JObj [(''a'', JFloat (FFin False [1, 5] 1)), (''b'', JArr [JInt 1, JFloat (FZero True)])]"
  let ?bad = "JObj [(''a'', JInt 1), (''b'', JArr [JNull, JFloat FNaN]), (''c'', JFloat (FInf True))]"
  have t: "number_text (FFin False [1, 5] 1) = Some ''1.5''" "nat_str 1 = ''1''" by code_simp+
  from canonical_payload_is_float_free [of ?v "[]"] obtain w
    where w: "canonicalize_for_digest [] ?v = Inr w" "rendered ?v w"
    by auto
  have "w = JObj [(''a'', JStr ''1.5''), (''b'', JArr [JInt 1, JStr ''0''])]"
    using w(2) t(1) by (auto elim!: rendered.cases simp: number_text_def [of "FZero True"] list_all2_Cons1)
  with w(1) canonical_payload_is_float_free [of ?bad "''x''"] t(2) show ?thesis by simp
qed

end
