(* ===== verification/Adjudication.thy ===== *)
theory Adjudication
  imports Numbers
begin

text \<open>
  \<open>adjudication.py\<close>: the three shapes of a twin-comparison verdict, the block a verdict capsule carries, and
  the reader that recognises such a capsule.  Sealing it is \<open>core._emit_capsule\<close>.
\<close>

section \<open>Verdicts\<close>

definition RELATION_ADJUDICATES :: string where "RELATION_ADJUDICATES = ''confirms''"
definition LEGACY_RELATION_ADJUDICATES :: string where "LEGACY_RELATION_ADJUDICATES = ''adjudicates''"
definition SOURCE_TWIN_COMPARISON :: string where "SOURCE_TWIN_COMPARISON = ''twin_comparison''"
definition CAPTURE_METHOD_DETERMINISTIC_REPLAY :: string where
  "CAPTURE_METHOD_DETERMINISTIC_REPLAY = ''deterministic_replay''"
definition ADJUDICATION_SCHEMA :: string where "ADJUDICATION_SCHEMA = ''capsule-emit/adjudication/v1''"
definition VERDICT_CORROBORATED :: string where "VERDICT_CORROBORATED = ''corroborated''"
definition VERDICT_INCONCLUSIVE :: string where "VERDICT_INCONCLUSIVE = ''inconclusive''"
definition VERDICT_CONTRADICTED_PREFIX :: string where "VERDICT_CONTRADICTED_PREFIX = ''contradicted:''"

datatype adjudication_error = VerdictValueError | MarginError number_error

definition contradicted :: "string \<Rightarrow> adjudication_error + string" where
  "contradicted owner_id =
     (if owner_id = [] then Inl VerdictValueError else Inr (VERDICT_CONTRADICTED_PREFIX @ owner_id))"

definition validate_verdict :: "string \<Rightarrow> adjudication_error + unit" where
  "validate_verdict verdict =
     (if verdict = VERDICT_CORROBORATED \<or> verdict = VERDICT_INCONCLUSIVE then Inr ()
      else if prefix VERDICT_CONTRADICTED_PREFIX verdict \<and> length VERDICT_CONTRADICTED_PREFIX < length verdict
      then Inr () else Inl VerdictValueError)"

text \<open>The argument of the call of \<open>_emit_capsule\<close>: the block under \<open>compute_attestation\<close>.\<close>

definition margin_text :: "pyfloat \<Rightarrow> string \<Rightarrow> adjudication_error + string" where
  "margin_text v field = (case float_to_str v field of Inl e \<Rightarrow> Inl (MarginError e) | Inr s \<Rightarrow> Inr s)"

definition adjudication_block ::
    "string \<Rightarrow> string \<Rightarrow> string \<Rightarrow> pyfloat \<Rightarrow> pyfloat \<Rightarrow> json \<Rightarrow> json \<Rightarrow> json \<Rightarrow> adjudication_error + json" where
  "adjudication_block half_a half_b verdict margin margin_tau divergence_index twin_owner_distinct weights_digest =
     sbind (validate_verdict verdict) (\<lambda>_.
     sbind (margin_text margin ''adjudication.margin'') (\<lambda>m.
     sbind (margin_text margin_tau ''adjudication.margin_tau'') (\<lambda>mt.
       Inr (JObj [(''adjudication'', JObj
         [(''schema'', JStr ADJUDICATION_SCHEMA), (''source'', JStr SOURCE_TWIN_COMPARISON),
          (''capture_method'', JStr CAPTURE_METHOD_DETERMINISTIC_REPLAY), (''verdict'', JStr verdict),
          (''divergence_index'', divergence_index), (''margin'', JStr m), (''margin_tau'', JStr mt),
          (''twin_owner_distinct'', twin_owner_distinct), (''weights_digest'', weights_digest),
          (''half_a_capsule_id'', JStr half_a), (''half_b_capsule_id'', JStr half_b)])]))))"

text \<open>\<open>entry[k1][k2]\<dots>\<close> with \<open>KeyError\<close> and \<open>TypeError\<close> caught: a missing key or a value that is no dict.\<close>

fun json_path :: "json \<Rightarrow> string list \<Rightarrow> json option" where
  "json_path v [] = Some v"
| "json_path (JObj d) (k # ks) = (if dhas d k then json_path (dget d k) ks else None)"
| "json_path _ (k # ks) = None"

definition ADJUDICATION_PATH :: "string list" where
  "ADJUDICATION_PATH = [''model_attestation'', ''compute_attestation'', ''adjudication'']"

definition is_adjudication :: "json \<Rightarrow> bool" where
  "is_adjudication entry \<longleftrightarrow>
     (case entry of
        JObj e \<Rightarrow>
          (case dget e ''chain'' of
             JObj chain \<Rightarrow> dget chain ''relation'' = JStr LEGACY_RELATION_ADJUDICATES | _ \<Rightarrow> False) \<or>
          (case json_path entry ADJUDICATION_PATH of
             Some (JObj block) \<Rightarrow> dget block ''source'' = JStr SOURCE_TWIN_COMPARISON | _ \<Rightarrow> False)
      | _ \<Rightarrow> False)"

section \<open>Lemmas\<close>

lemma contradicted_valid: "contradicted owner = Inr v \<Longrightarrow> validate_verdict v = Inr ()"
  by (auto simp: contradicted_def validate_verdict_def split: if_splits)

lemma validate_verdict_iff:
  "validate_verdict v = Inr () \<longleftrightarrow>
     v = VERDICT_CORROBORATED \<or> v = VERDICT_INCONCLUSIVE \<or> (\<exists>owner. contradicted owner = Inr v)"
proof -
  have "prefix VERDICT_CONTRADICTED_PREFIX v \<and> length VERDICT_CONTRADICTED_PREFIX < length v
      \<longleftrightarrow> (\<exists>owner. contradicted owner = Inr v)" (is "?l \<longleftrightarrow> ?r")
  proof
    assume ?l
    then obtain z where "v = VERDICT_CONTRADICTED_PREFIX @ z" "z \<noteq> []" by (auto elim!: prefixE)
    then have "contradicted z = Inr v" by (simp add: contradicted_def)
    then show ?r ..
  next
    assume ?r
    then obtain z where "z \<noteq> []" "v = VERDICT_CONTRADICTED_PREFIX @ z"
      by (auto simp: contradicted_def split: if_splits)
    then show ?l by simp
  qed
  then show ?thesis by (simp add: validate_verdict_def)
qed

lemma contradicted_owner: "contradicted owner = Inr v \<Longrightarrow> drop (length VERDICT_CONTRADICTED_PREFIX) v = owner"
  by (auto simp: contradicted_def split: if_splits)

lemma sealed_block_is_adjudication:
  assumes "adjudication_block a b verdict m mt di tod wd = Inr block"
    and "json_path (JObj entry) [''model_attestation'', ''compute_attestation''] = Some block"
  shows "is_adjudication (JObj entry) \<and>
    json_path (JObj entry) (ADJUDICATION_PATH @ [''verdict'']) = Some (JStr verdict)"
proof -
  obtain d where block: "block = JObj [(''adjudication'', JObj d)]" "dget d ''source'' = JStr SOURCE_TWIN_COMPARISON"
      "dget d ''verdict'' = JStr verdict" "dhas d ''verdict''"
    using assms(1) by (auto simp: adjudication_block_def res_simps dhas_def)
  have step: "json_path v (ks @ ls) = (case json_path v ks of None \<Rightarrow> None | Some w \<Rightarrow> json_path w ls)" for v ks ls
    by (induction v ks rule: json_path.induct) auto
  have "json_path (JObj entry) ADJUDICATION_PATH = Some (JObj d)"
    using step [of "JObj entry" "[''model_attestation'', ''compute_attestation'']" "[''adjudication'']"] assms(2) block(1)
    by (simp add: ADJUDICATION_PATH_def dhas_def)
  with block step [of "JObj entry" ADJUDICATION_PATH "[''verdict'']"] show ?thesis
    by (simp add: is_adjudication_def)
qed

end
