(* ===== verification/Python_Text.thy ===== *)
theory Python_Text
  imports Json_Text
begin

text \<open>
  Python strings as octets of UTF-8: their code points, and the white space that \<open>str.strip\<close> removes.
\<close>

function code_points :: "string \<Rightarrow> string list" where
  "code_points [] = []"
| "code_points (c # s) = (c # takeWhile cont s) # code_points (dropWhile cont s)"
  by pat_completeness auto
termination
  by (relation "measure length") (auto simp: le_imp_less_Suc length_dropWhile_le)

lemma concat_code_points: "concat (code_points s) = s"
  by (induction s rule: code_points.induct) auto

text \<open>\<open>str.isspace\<close> of one code point.\<close>

definition py_space :: "string \<Rightarrow> bool" where
  "py_space cp \<longleftrightarrow>
     (let bs = map byte cp; last = (if bs = [] then 0 else bs ! (length bs - 1)) in
      if length bs = 1 then last = 32 \<or> (9 \<le> last \<and> last \<le> 13) \<or> (28 \<le> last \<and> last \<le> 31)
      else if length bs = 2 then bs ! 0 = 0xC2 \<and> (last = 0x85 \<or> last = 0xA0)
      else length bs = 3 \<and>
        (take 2 bs = [0xE1, 0x9A] \<and> last = 0x80 \<or>
         take 2 bs = [0xE2, 0x80] \<and> ((0x80 \<le> last \<and> last \<le> 0x8A) \<or> last = 0xA8 \<or> last = 0xA9 \<or> last = 0xAF) \<or>
         take 2 bs = [0xE2, 0x81] \<and> last = 0x9F \<or>
         take 2 bs = [0xE3, 0x80] \<and> last = 0x80))"

text \<open>\<open>not s.strip()\<close>\<close>

definition blank :: "string \<Rightarrow> bool" where
  "blank s \<longleftrightarrow> list_all py_space (code_points s)"

lemma blank_Nil [simp]: "blank []"
  by (simp add: blank_def)

end
