(* ===== verification/Chain_Segment.thy ===== *)
theory Chain_Segment
  imports Adjudication Python_Values Python_Text
begin

text \<open>
  \<open>chain_segment.py\<close>: the chain of checkpoints between two sizes of a log, with a consistency proof per link
  and the leaves of each checkpoint counted by kind, and its offline verification.  Checkpoints and the
  Merkle mountain range belong to \<open>cll\<close>: what the code uses of them is the record \<open>mmr_ext\<close>; a store is the
  list of the digests that were added to it.
\<close>

section \<open>What the code uses of \<open>cll\<close>, and of the standard library on odd values\<close>

datatype segment_exn = ChainSegmentError | SegKeyError | SegTypeError | SegValueError | SegAttributeError

record checkpoint =
  k_mmr_size :: int
  k_prev_size :: int
  k_root :: string
  k_prev_root :: string
  k_witnesses :: "json list"
  k_rest :: json

record consistency_proof =
  c_v :: int
  c_kind :: json
  c_size_a :: int
  c_size_b :: int
  c_old_peaks :: "json list"
  c_witness :: "json list list"
  c_new_peaks :: "json list"

record mmr_ext =
  g_checkpoint :: "json \<Rightarrow> segment_exn + checkpoint"
  g_checkpoint_dict :: "checkpoint \<Rightarrow> json"
  g_leaf_count :: "int \<Rightarrow> segment_exn + nat"
  g_store_size :: "string list \<Rightarrow> int"
  g_consistency :: "string list \<Rightarrow> int \<Rightarrow> int \<Rightarrow> segment_exn + consistency_proof"
  g_verify_consistency :: "string \<Rightarrow> int \<Rightarrow> string \<Rightarrow> int \<Rightarrow> consistency_proof \<Rightarrow> bool"
  g_signature_ok :: "checkpoint \<Rightarrow> bool"
  g_witnessed :: "checkpoint \<Rightarrow> json \<Rightarrow> json \<Rightarrow> bool"
  g_ts_url :: "json \<Rightarrow> string"
  g_int :: "json \<Rightarrow> segment_exn + int"
  g_dict :: "json list \<Rightarrow> segment_exn + dict"
  g_str :: "json \<Rightarrow> string"

text \<open>\<open>g_int\<close> is \<open>int()\<close> of a float or string, \<open>g_dict\<close> is \<open>dict()\<close> of a list, \<open>g_str\<close> is \<open>str()\<close> of a value
  that is no string.\<close>

definition py_int :: "mmr_ext \<Rightarrow> json \<Rightarrow> segment_exn + int" where
  "py_int g v = (case v of JInt i \<Rightarrow> Inr i | JBool b \<Rightarrow> Inr (if b then 1 else 0) | _ \<Rightarrow> g_int g v)"

definition py_dict :: "mmr_ext \<Rightarrow> json \<Rightarrow> segment_exn + dict" where
  "py_dict g v = (case v of JObj d \<Rightarrow> Inr d | JArr vs \<Rightarrow> g_dict g vs | JStr [] \<Rightarrow> Inr [] | JStr _ \<Rightarrow> Inl SegValueError
     | _ \<Rightarrow> Inl SegTypeError)"

definition py_str :: "mmr_ext \<Rightarrow> json \<Rightarrow> string" where
  "py_str g v = (case v of JStr s \<Rightarrow> s | _ \<Rightarrow> g_str g v)"



definition py_iter :: "json \<Rightarrow> segment_exn + json list" where
  "py_iter v = (case v of JArr vs \<Rightarrow> Inr vs | JObj d \<Rightarrow> Inr (map (\<lambda>(k, _). JStr k) d)
     | JStr s \<Rightarrow> Inr (map JStr (code_points s)) | _ \<Rightarrow> Inl SegTypeError)"

definition getitem :: "dict \<Rightarrow> string \<Rightarrow> segment_exn + json" where
  "getitem d k = (if dhas d k then Inr (dget d k) else Inl SegKeyError)"

text \<open>\<open>bytes.hex\<close> and \<open>bytes.fromhex\<close>, which skips white space between octets and reads either case.\<close>

definition hex_nibble :: "char \<Rightarrow> nat option" where
  "hex_nibble c =
     (if is_digit c then Some (byte c - 48)
      else if 97 \<le> byte c \<and> byte c \<le> 102 then Some (byte c - 87)
      else if 65 \<le> byte c \<and> byte c \<le> 70 then Some (byte c - 55) else None)"

definition is_space :: "char \<Rightarrow> bool" where
  "is_space c \<longleftrightarrow> byte c = 32 \<or> (9 \<le> byte c \<and> byte c \<le> 13)"

fun from_hex :: "string \<Rightarrow> string option" where
  "from_hex [] = Some []"
| "from_hex (c # s) =
     (if is_space c then from_hex s
      else (case s of
              [] \<Rightarrow> None
            | d # t \<Rightarrow>
                (case (hex_nibble c, hex_nibble d) of
                   (Some a, Some b) \<Rightarrow> map_option (\<lambda>r. char_of (16 * a + b) # r) (from_hex t)
                 | _ \<Rightarrow> None)))"

definition fromhex :: "json \<Rightarrow> segment_exn + string" where
  "fromhex v =
     (case v of JStr s \<Rightarrow> (case from_hex s of None \<Rightarrow> Inl SegValueError | Some b \<Rightarrow> Inr b) | _ \<Rightarrow> Inl SegTypeError)"

definition to_hex :: "string \<Rightarrow> string" where
  "to_hex b = concat (map (\<lambda>c. [hex_digit (byte c div 16), hex_digit (byte c mod 16)]) b)"

section \<open>Links and their dictionaries\<close>

definition consistency_proof_to_dict :: "consistency_proof \<Rightarrow> dict" where
  "consistency_proof_to_dict p =
     [(''v'', JInt (c_v p)), (''kind'', c_kind p), (''size_a'', JInt (c_size_a p)), (''size_b'', JInt (c_size_b p)),
      (''old_peaks'', JArr (c_old_peaks p)), (''witness'', JArr (map JArr (c_witness p))),
      (''new_peaks'', JArr (c_new_peaks p))]"

definition consistency_proof_from_dict :: "mmr_ext \<Rightarrow> dict \<Rightarrow> segment_exn + consistency_proof" where
  "consistency_proof_from_dict g d =
     sbind (sbind (getitem d ''v'') (py_int g)) (\<lambda>v.
     sbind (getitem d ''kind'') (\<lambda>kind.
     sbind (sbind (getitem d ''size_a'') (py_int g)) (\<lambda>size_a.
     sbind (sbind (getitem d ''size_b'') (py_int g)) (\<lambda>size_b.
     sbind (sbind (getitem d ''old_peaks'') py_iter) (\<lambda>old_peaks.
     sbind (sbind (getitem d ''witness'') (\<lambda>w. sbind (py_iter w) (mapM_r py_iter))) (\<lambda>witness.
     sbind (sbind (getitem d ''new_peaks'') py_iter) (\<lambda>new_peaks.
       Inr \<lparr>c_v = v, c_kind = kind, c_size_a = size_a, c_size_b = size_b, c_old_peaks = old_peaks,
            c_witness = witness, c_new_peaks = new_peaks\<rparr>)))))))"

record checkpoint_link =
  l_checkpoint :: checkpoint
  l_proof :: "consistency_proof option"
  l_cose :: "string option"
  l_leaf_counts :: dict
  l_adjudication :: "dict option"
  l_leaf_digests :: "json list option"

definition link_to_dict :: "mmr_ext \<Rightarrow> checkpoint_link \<Rightarrow> dict" where
  "link_to_dict g l =
     [(''checkpoint'', g_checkpoint_dict g (l_checkpoint l)),
      (''checkpoint_cose'', case l_cose l of None \<Rightarrow> JNull | Some b \<Rightarrow> JStr (to_hex b)),
      (''consistency_proof'', case l_proof l of None \<Rightarrow> JNull | Some p \<Rightarrow> JObj (consistency_proof_to_dict p)),
      (''leaf_counts'', JObj (l_leaf_counts l))]
     @ (case l_adjudication l of None \<Rightarrow> [] | Some a \<Rightarrow> [(''adjudication'', JObj a)])
     @ (case l_leaf_digests l of None \<Rightarrow> [] | Some ds \<Rightarrow> [(''leaf_digests'', JArr ds)])"

definition as_dict :: "segment_exn \<Rightarrow> json \<Rightarrow> segment_exn + dict" where
  "as_dict e v = (case v of JObj d \<Rightarrow> Inr d | _ \<Rightarrow> Inl e)"

definition link_from_dict :: "mmr_ext \<Rightarrow> dict \<Rightarrow> segment_exn + checkpoint_link" where
  "link_from_dict g d =
     sbind (sbind (getitem d ''checkpoint'') (g_checkpoint g)) (\<lambda>cp.
     sbind (case dget d ''consistency_proof'' of
              JNull \<Rightarrow> Inr None
            | v \<Rightarrow> sbind (as_dict SegTypeError v) (\<lambda>e. sbind (consistency_proof_from_dict g e) (\<lambda>p. Inr (Some p)))) (\<lambda>proof.
     sbind (if truthy (dget d ''checkpoint_cose'')
            then sbind (fromhex (dget d ''checkpoint_cose'')) (\<lambda>b. Inr (Some b)) else Inr None) (\<lambda>cose.
     sbind (if truthy (dget d ''leaf_counts'') then py_dict g (dget d ''leaf_counts'') else Inr []) (\<lambda>counts.
     sbind (if dhas d ''adjudication'' then sbind (py_dict g (dget d ''adjudication'')) (\<lambda>a. Inr (Some a))
            else Inr None) (\<lambda>adj.
     sbind (if dhas d ''leaf_digests'' then sbind (py_iter (dget d ''leaf_digests'')) (\<lambda>a. Inr (Some a))
            else Inr None) (\<lambda>digests.
       Inr \<lparr>l_checkpoint = cp, l_proof = proof, l_cose = cose, l_leaf_counts = counts, l_adjudication = adj,
            l_leaf_digests = digests\<rparr>))))))"

record chain_seg =
  e_v :: int
  e_links :: "checkpoint_link list"

definition segment_to_dict :: "mmr_ext \<Rightarrow> chain_seg \<Rightarrow> dict" where
  "segment_to_dict g s = [(''v'', JInt (e_v s)), (''links'', JArr (map (\<lambda>l. JObj (link_to_dict g l)) (e_links s)))]"

definition segment_from_dict :: "mmr_ext \<Rightarrow> dict \<Rightarrow> segment_exn + chain_seg" where
  "segment_from_dict g d =
     sbind (sbind (getitem d ''v'') (py_int g)) (\<lambda>v.
     sbind (sbind (getitem d ''links'') (\<lambda>x. sbind (py_iter x)
              (mapM_r (\<lambda>l. sbind (as_dict SegAttributeError l) (link_from_dict g))))) (\<lambda>links.
       Inr \<lparr>e_v = v, e_links = links\<rparr>))"

definition segment_checkpoint :: "chain_seg \<Rightarrow> checkpoint" where
  "segment_checkpoint s = l_checkpoint (last (e_links s))"

section \<open>Counting the leaves of a checkpoint\<close>

definition default_classify :: "mmr_ext \<Rightarrow> string \<Rightarrow> string \<Rightarrow> dict \<Rightarrow> string" where
  "default_classify g kind_field stamp_kind entry =
     (let kind = dget entry kind_field
      in if truthy kind then (if kind = JStr stamp_kind then ''stamp'' else py_str g kind)
         else if is_adjudication (JObj entry) then ''adjudication'' else ''capsule'')"

definition adjudication_verdict :: "dict \<Rightarrow> json" where
  "adjudication_verdict entry =
     (case json_path (JObj entry) (ADJUDICATION_PATH @ [''verdict'']) of None \<Rightarrow> JNull | Some v \<Rightarrow> v)"

record role_counts =
  o_corroborated :: nat
  o_contradicted_self :: nat
  o_contradicted_other :: nat
  o_inconclusive :: nat

definition count_verdict :: "string option \<Rightarrow> role_counts \<Rightarrow> dict \<Rightarrow> segment_exn + role_counts" where
  "count_verdict self_owner_id c entry =
     (case adjudication_verdict entry of
        JNull \<Rightarrow> Inr c
      | JStr verdict \<Rightarrow>
          if verdict = VERDICT_CORROBORATED then Inr (c\<lparr>o_corroborated := o_corroborated c + 1\<rparr>)
          else if verdict = VERDICT_INCONCLUSIVE then Inr (c\<lparr>o_inconclusive := o_inconclusive c + 1\<rparr>)
          else if prefix VERDICT_CONTRADICTED_PREFIX verdict then
            (if self_owner_id = Some (drop (length VERDICT_CONTRADICTED_PREFIX) verdict)
             then Inr (c\<lparr>o_contradicted_self := o_contradicted_self c + 1\<rparr>)
             else Inr (c\<lparr>o_contradicted_other := o_contradicted_other c + 1\<rparr>))
          else Inr c
      | _ \<Rightarrow> Inl SegAttributeError)"

definition verdict_role_counts :: "string option \<Rightarrow> dict list \<Rightarrow> segment_exn + role_counts" where
  "verdict_role_counts self_owner_id entries =
     foldM_r (count_verdict self_owner_id)
       \<lparr>o_corroborated = 0, o_contradicted_self = 0, o_contradicted_other = 0, o_inconclusive = 0\<rparr> entries"

definition role_dict :: "role_counts \<Rightarrow> dict" where
  "role_dict c =
     [(''corroborated'', JInt (int (o_corroborated c))), (''contradicted_self'', JInt (int (o_contradicted_self c))),
      (''contradicted_other'', JInt (int (o_contradicted_other c))), (''inconclusive'', JInt (int (o_inconclusive c)))]"

text \<open>\<open>counts[k] = counts.get(k, 0) + 1\<close> in the order of first use.\<close>

fun count_kind :: "(string \<times> nat) list \<Rightarrow> string \<Rightarrow> (string \<times> nat) list" where
  "count_kind [] k = [(k, 1)]"
| "count_kind ((k', n) # cs) k = (if k' = k then (k', n + 1) # cs else (k', n) # count_kind cs k)"

definition count_kinds :: "(dict \<Rightarrow> string) \<Rightarrow> dict list \<Rightarrow> (string \<times> nat) list" where
  "count_kinds classify entries = foldl count_kind [] (map classify entries)"

section \<open>Building a segment\<close>

record segment_query =
  y_from_size :: json
  y_to_size :: json
  y_last :: json
  y_self_owner_id :: "string option"
  y_classify :: "(dict \<Rightarrow> string) option"
  y_leaf_digests :: bool
  y_id_field :: string
  y_kind_field :: string
  y_stamp_kind :: string

text \<open>The checks on the three sizes: \<open>Inl n\<close> is \<open>last=n\<close>, \<open>Inr\<close> the two sizes.\<close>

definition check_selection :: "segment_query \<Rightarrow> segment_exn + (int + (int \<times> int))" where
  "check_selection q =
     (if y_last q \<noteq> JNull then
        (if y_from_size q \<noteq> JNull \<or> y_to_size q \<noteq> JNull then Inl ChainSegmentError
         else (case y_last q of JInt n \<Rightarrow> if n \<le> 0 then Inl ChainSegmentError else Inr (Inl n) | _ \<Rightarrow> Inl ChainSegmentError))
      else (case (y_from_size q, y_to_size q) of
              (JInt a, JInt b) \<Rightarrow> if a < 0 \<or> b < a then Inl ChainSegmentError else Inr (Inr (a, b))
            | _ \<Rightarrow> Inl ChainSegmentError))"

definition index_of :: "'a \<Rightarrow> 'a list \<Rightarrow> nat" where
  "index_of x xs = length (takeWhile (\<lambda>y. y \<noteq> x) xs)"

definition at_size :: "checkpoint list \<Rightarrow> int \<Rightarrow> checkpoint option" where
  "at_size cps n = find (\<lambda>cp. k_mmr_size cp = n) (rev cps)"

definition pick_segment :: "checkpoint list \<Rightarrow> int + (int \<times> int) \<Rightarrow> segment_exn + checkpoint list" where
  "pick_segment cps sel =
     (case sel of
        Inl n \<Rightarrow> Inr (drop (length cps - nat n) cps)
      | Inr (from_size, to_size) \<Rightarrow>
          (case at_size cps to_size of
             None \<Rightarrow> Inl ChainSegmentError
           | Some cp_to \<Rightarrow>
               let end_idx = index_of cp_to cps
               in if from_size = 0 then Inr (take (end_idx + 1) cps)
                  else (case at_size cps from_size of
                          None \<Rightarrow> Inl ChainSegmentError
                        | Some cp_from \<Rightarrow>
                            let start_idx = index_of cp_from cps
                            in if end_idx < start_idx then Inl ChainSegmentError
                               else Inr (drop start_idx (take (end_idx + 1) cps)))))"

definition own_entries :: "dict list \<Rightarrow> nat \<Rightarrow> nat \<Rightarrow> dict list" where
  "own_entries entries a b = drop a (take b entries)"

definition cose_by_size :: "(checkpoint \<times> dict) list \<Rightarrow> int \<Rightarrow> json" where
  "cose_by_size stamps n =
     (case find (\<lambda>(cp, e). k_mmr_size cp = n \<and> truthy (dget e ''checkpoint_cose'')) (rev stamps) of
        None \<Rightarrow> JNull | Some (cp, e) \<Rightarrow> dget e ''checkpoint_cose'')"

definition build_link ::
    "mmr_ext \<Rightarrow> segment_query \<Rightarrow> dict list \<Rightarrow> string list \<Rightarrow> (int \<Rightarrow> json) \<Rightarrow> checkpoint option \<Rightarrow> checkpoint \<Rightarrow>
     segment_exn + checkpoint_link" where
  "build_link g q entries store cose prev cp =
     (let classify = (case y_classify q of None \<Rightarrow> default_classify g (y_kind_field q) (y_stamp_kind q) | Some f \<Rightarrow> f)
      in sbind (case prev of
                  None \<Rightarrow> Inr None
                | Some p \<Rightarrow> sbind (g_consistency g store (k_mmr_size p) (k_mmr_size cp)) (\<lambda>pr. Inr (Some pr))) (\<lambda>proof.
         sbind (g_leaf_count g (k_prev_size cp)) (\<lambda>a.
         sbind (g_leaf_count g (k_mmr_size cp)) (\<lambda>b.
         let own = own_entries entries a b; adj = filter (\<lambda>e. classify e = ''adjudication'') own
         in sbind (if adj = [] then Inr None
                   else sbind (verdict_role_counts (y_self_owner_id q) adj) (\<lambda>c. Inr (Some (role_dict c)))) (\<lambda>adjudication.
            sbind (if truthy (cose (k_mmr_size cp)) then sbind (fromhex (cose (k_mmr_size cp))) (\<lambda>b. Inr (Some b))
                   else Inr None) (\<lambda>co.
            sbind (if y_leaf_digests q then sbind (mapM_r (\<lambda>e. getitem e (y_id_field q)) own) (\<lambda>ds. Inr (Some ds))
                   else Inr None) (\<lambda>digests.
              Inr \<lparr>l_checkpoint = cp, l_proof = proof, l_cose = co,
                   l_leaf_counts = map (\<lambda>(k, n). (k, JInt (int n))) (count_kinds classify own),
                   l_adjudication = adjudication, l_leaf_digests = digests\<rparr>)))))))"

fun build_links ::
    "mmr_ext \<Rightarrow> segment_query \<Rightarrow> dict list \<Rightarrow> string list \<Rightarrow> (int \<Rightarrow> json) \<Rightarrow> checkpoint option \<Rightarrow> checkpoint list \<Rightarrow>
     segment_exn + checkpoint_link list" where
  "build_links g q entries store cose prev [] = Inr []"
| "build_links g q entries store cose prev (cp # cps) =
     sbind (build_link g q entries store cose prev cp) (\<lambda>l.
     sbind (build_links g q entries store cose (Some cp) cps) (\<lambda>ls. Inr (l # ls)))"

definition leaf_store :: "segment_query \<Rightarrow> dict list \<Rightarrow> segment_exn + string list" where
  "leaf_store q entries = mapM_r (\<lambda>e. sbind (getitem e (y_id_field q)) fromhex) entries"

definition chain_segment :: "mmr_ext \<Rightarrow> dict list \<Rightarrow> segment_query \<Rightarrow> segment_exn + chain_seg" where
  "chain_segment g entries q =
     (if entries = [] then Inl ChainSegmentError
      else sbind (check_selection q) (\<lambda>sel.
        let stamps = filter (\<lambda>e. dget e (y_kind_field q) = JStr (y_stamp_kind q)) entries
        in sbind (mapM_r (\<lambda>e. sbind (getitem e ''checkpoint'') (g_checkpoint g)) stamps) (\<lambda>cps.
           if cps = [] then Inl ChainSegmentError
           else sbind (pick_segment cps sel) (\<lambda>segment.
                sbind (g_leaf_count g (k_mmr_size (last segment))) (\<lambda>covered.
                sbind (leaf_store q (take covered entries)) (\<lambda>store.
                if g_store_size g store \<noteq> k_mmr_size (last segment) then Inl ChainSegmentError
                else sbind (build_links g q entries store (cose_by_size (zip cps stamps)) None segment) (\<lambda>links.
                       Inr \<lparr>e_v = 1, e_links = links\<rparr>)))))))"

section \<open>Verifying a segment\<close>

record segment_result =
  z_ok :: bool
  z_errors :: "string list"
  z_continuity :: string
  z_depth :: nat
  z_witnessed :: string

definition broken_at :: "checkpoint \<Rightarrow> string \<Rightarrow> string" where
  "broken_at cp msg = ''broken at mmr_size='' @ int_str (k_mmr_size cp) @ '': '' @ msg"

text \<open>The message of the first check a link fails, \<open>None\<close> when it passes; \<open>bytes.fromhex\<close> of a root may raise.\<close>

definition check_link :: "mmr_ext \<Rightarrow> checkpoint option \<Rightarrow> checkpoint_link \<Rightarrow> segment_exn + string option" where
  "check_link g prev l =
     (let cp = l_checkpoint l
      in if \<not> g_signature_ok g cp then Inr (Some (broken_at cp ''checkpoint signature does not verify''))
         else (case prev of
                 None \<Rightarrow> Inr None
               | Some p \<Rightarrow>
                   if k_prev_size cp \<noteq> k_mmr_size p \<or> k_prev_root cp \<noteq> k_root p
                   then Inr (Some (broken_at cp (''does not chain from the prior checkpoint in this segment (mmr_size='' @
                     int_str (k_mmr_size p) @ '')'')))
                   else (case l_proof l of
                           None \<Rightarrow> Inr (Some (broken_at cp ''missing consistency proof for a non-first link''))
                         | Some pr \<Rightarrow>
                             sbind (fromhex (JStr (k_root p))) (\<lambda>root_a.
                             sbind (fromhex (JStr (k_root cp))) (\<lambda>root_b.
                               Inr (if g_verify_consistency g root_a (k_mmr_size p) root_b (k_mmr_size cp) pr then None
                                    else Some (broken_at cp (''consistency proof does not bridge '' @
                                      int_str (k_mmr_size p) @ '' -> '' @ int_str (k_mmr_size cp)))))))))"

definition link_witnessed :: "mmr_ext \<Rightarrow> dict \<Rightarrow> checkpoint_link \<Rightarrow> bool" where
  "link_witnessed g trust_anchor l \<longleftrightarrow>
     list_ex (\<lambda>w. g_witnessed g (l_checkpoint l) w (dget trust_anchor (g_ts_url g w))) (k_witnesses (l_checkpoint l))"

text \<open>The walk: depth, witnessed links and the message it stopped with.\<close>

fun walk_links ::
    "mmr_ext \<Rightarrow> dict \<Rightarrow> checkpoint option \<Rightarrow> nat \<Rightarrow> nat \<Rightarrow> checkpoint_link list \<Rightarrow> segment_exn + (nat \<times> nat \<times> string option)" where
  "walk_links g anchor prev depth wit [] = Inr (depth, wit, None)"
| "walk_links g anchor prev depth wit (l # ls) =
     sbind (check_link g prev l) (\<lambda>r.
       (case r of
          Some msg \<Rightarrow> Inr (depth, wit, Some msg)
        | None \<Rightarrow> walk_links g anchor (Some (l_checkpoint l)) (depth + 1)
                    (if link_witnessed g anchor l then wit + 1 else wit) ls))"

definition verify_chain_segment :: "mmr_ext \<Rightarrow> dict \<Rightarrow> chain_seg \<Rightarrow> segment_exn + segment_result" where
  "verify_chain_segment g anchor s =
     (if e_links s = []
      then Inr \<lparr>z_ok = False, z_errors = [''empty segment -- nothing to verify''], z_continuity = ''no checkpoints'',
                z_depth = 0, z_witnessed = ''0/0''\<rparr>
      else sbind (walk_links g anchor None 0 0 (e_links s)) (\<lambda>(depth, wit, msg).
        Inr \<lparr>z_ok = (msg = None), z_errors = (case msg of None \<Rightarrow> [] | Some m \<Rightarrow> [m]),
             z_continuity = (case msg of None \<Rightarrow> ''unbroken'' | Some m \<Rightarrow> m), z_depth = depth,
             z_witnessed = nat_str wit @ ''/'' @ nat_str (length (e_links s))\<rparr>))"

section \<open>Dictionaries survive\<close>

lemma hex_nibble_digit: "n < 16 \<Longrightarrow> hex_nibble (hex_digit n) = Some n \<and> \<not> is_space (hex_digit n)"
  by (cases "n < 10") (simp_all add: hex_digit_def hex_nibble_def is_space_def is_digit_def)

lemma of_char_less_256: "byte c < 256"
  by simp

lemma from_to_hex: "from_hex (to_hex b) = Some b"
proof (induction b)
  case (Cons c b)
  have lt: "byte c div 16 < 16" "byte c mod 16 < 16"
    using of_char_less_256 [of c] by (simp_all add: div_less_iff_less_mult)
  have split: "16 * (byte c div 16) + byte c mod 16 = byte c" by simp
  show ?case
    using Cons hex_nibble_digit [OF lt(1)] hex_nibble_digit [OF lt(2)]
    by (simp add: to_hex_def split)
qed (simp add: to_hex_def)

lemma py_iter_arr: "py_iter (JArr vs) = Inr vs"
  by (simp add: py_iter_def)

lemma mapM_r_iter: "mapM_r py_iter (map JArr ws) = Inr ws"
  by (induction ws) (simp_all add: py_iter_def)

lemma proof_dict_round_trip: "consistency_proof_from_dict g (consistency_proof_to_dict p) = Inr p"
  by (simp add: consistency_proof_from_dict_def consistency_proof_to_dict_def getitem_def dhas_def py_int_def
      py_iter_arr mapM_r_iter)

lemma dhas_simps: "dhas [] k = False" "dhas ((k', v) # d) k = (k' = k \<or> dhas d k)" "dhas (d @ e) k = (dhas d k \<or> dhas e k)"
  by (auto simp: dhas_def)

lemma to_hex_Nil: "to_hex b = [] \<longleftrightarrow> b = []"
  by (cases b) (simp_all add: to_hex_def)

lemma link_dict_round_trip:
  assumes "g_checkpoint g (g_checkpoint_dict g (l_checkpoint l)) = Inr (l_checkpoint l)" "l_cose l \<noteq> Some []"
  shows "link_from_dict g (link_to_dict g l) = Inr l"
proof -
  let ?d = "link_to_dict g l"
  have d: "getitem ?d ''checkpoint'' = Inr (g_checkpoint_dict g (l_checkpoint l))"
      "dget ?d ''checkpoint_cose'' = (case l_cose l of None \<Rightarrow> JNull | Some b \<Rightarrow> JStr (to_hex b))"
      "dget ?d ''consistency_proof'' = (case l_proof l of None \<Rightarrow> JNull | Some p \<Rightarrow> JObj (consistency_proof_to_dict p))"
      "dget ?d ''leaf_counts'' = JObj (l_leaf_counts l)"
      "dhas ?d ''adjudication'' = (l_adjudication l \<noteq> None)"
      "dget ?d ''adjudication'' = (case l_adjudication l of None \<Rightarrow> JNull | Some a \<Rightarrow> JObj a)"
      "dhas ?d ''leaf_digests'' = (l_leaf_digests l \<noteq> None)"
      "dget ?d ''leaf_digests'' = (case l_leaf_digests l of None \<Rightarrow> JNull | Some a \<Rightarrow> JArr a)"
    by (simp_all add: link_to_dict_def getitem_def dhas_simps dget_append split: option.splits)
  define co where "co = (case l_cose l of None \<Rightarrow> JNull | Some b \<Rightarrow> JStr (to_hex b))"
  have cose: "(if truthy co then sbind (fromhex co) (\<lambda>b. Inr (Some b)) else Inr None) = (Inr (l_cose l) :: segment_exn + _)"
    using assms(2) by (cases "l_cose l") (simp_all add: co_def fromhex_def from_to_hex to_hex_Nil)
  have counts: "(if truthy (JObj (l_leaf_counts l)) then py_dict g (JObj (l_leaf_counts l)) else Inr []) = Inr (l_leaf_counts l)"
    by (simp add: py_dict_def)
  show ?thesis
    unfolding link_from_dict_def d co_def [symmetric] cose counts
    by (cases "l_proof l"; cases "l_adjudication l"; cases "l_leaf_digests l")
       (simp_all add: assms(1) proof_dict_round_trip as_dict_def py_dict_def py_iter_def)
qed

section \<open>What the walk establishes\<close>

fun linked :: "mmr_ext \<Rightarrow> checkpoint option \<Rightarrow> checkpoint_link list \<Rightarrow> bool" where
  "linked g prev [] \<longleftrightarrow> True"
| "linked g prev (l # ls) \<longleftrightarrow> check_link g prev l = Inr None \<and> linked g (Some (l_checkpoint l)) ls"

lemma walk_linked: "linked g prev ls \<Longrightarrow> \<exists>w. walk_links g anchor prev d wit ls = Inr (d + length ls, w, None)"
proof (induction ls arbitrary: prev d wit)
  case (Cons l ls)
  let ?wit = "if link_witnessed g anchor l then wit + 1 else wit"
  from Cons.prems have "linked g (Some (l_checkpoint l)) ls" by simp
  from Cons.IH [OF this, of "d + 1" ?wit] obtain w
    where "walk_links g anchor (Some (l_checkpoint l)) (d + 1) ?wit ls = Inr (d + 1 + length ls, w, None)" by blast
  with Cons.prems show ?case by simp
qed simp

lemma walk_result:
  "walk_links g anchor prev d wit ls = Inr (d', wit', msg) \<Longrightarrow>
     (case msg of
        None \<Rightarrow> linked g prev ls \<and> d' = d + length ls
      | Some m \<Rightarrow> \<exists>pre l post. ls = pre @ l # post \<and> linked g prev pre \<and> d' = d + length pre \<and>
          check_link g (if pre = [] then prev else Some (l_checkpoint (last pre))) l = Inr (Some m))"
proof (induction ls arbitrary: prev d wit)
  case Nil
  then show ?case by auto
next
  case (Cons l ls)
  from Cons.prems obtain r where r: "check_link g prev l = Inr r" by (auto simp: res_simps)
  show ?case
  proof (cases r)
    case (Some m)
    with Cons.prems r have "msg = Some m \<and> d' = d" by simp
    moreover have "\<exists>pre l' post. l # ls = pre @ l' # post \<and> linked g prev pre \<and> d = d + length pre \<and>
        check_link g (if pre = [] then prev else Some (l_checkpoint (last pre))) l' = Inr (Some m)"
      using r Some by (intro exI [of _ "[]"]) auto
    ultimately show ?thesis by simp
  next
    case None
    with Cons.prems r have w: "walk_links g anchor (Some (l_checkpoint l)) (d + 1)
        (if link_witnessed g anchor l then wit + 1 else wit) ls = Inr (d', wit', msg)" by simp
    show ?thesis
    proof (cases msg)
      case None
      with Cons.IH [OF w] r \<open>r = None\<close> show ?thesis by simp
    next
      case (Some m)
      with Cons.IH [OF w] obtain pre l' post where p: "ls = pre @ l' # post" "linked g (Some (l_checkpoint l)) pre"
          "d' = d + 1 + length pre"
          "check_link g (if pre = [] then Some (l_checkpoint l) else Some (l_checkpoint (last pre))) l' = Inr (Some m)"
        by auto
      from p(1) have "l # ls = (l # pre) @ l' # post" by simp
      moreover from r \<open>r = None\<close> p(2) have "linked g prev (l # pre)" by simp
      moreover from p(3) have "d' = d + length (l # pre)" by simp
      moreover from p(4) have "check_link g (if l # pre = [] then prev else Some (l_checkpoint (last (l # pre)))) l' = Inr (Some m)"
        by (cases "pre = []") simp_all
      ultimately show ?thesis using Some by (simp only: option.case) blast
    qed
  qed
qed

text \<open>A link that extends the checkpoint before it.\<close>

definition bridges :: "mmr_ext \<Rightarrow> checkpoint \<Rightarrow> checkpoint_link \<Rightarrow> bool" where
  "bridges g p b \<longleftrightarrow>
     k_prev_size (l_checkpoint b) = k_mmr_size p \<and> k_prev_root (l_checkpoint b) = k_root p \<and>
     (case (l_proof b, from_hex (k_root p), from_hex (k_root (l_checkpoint b))) of
        (Some pr, Some ra, Some rb) \<Rightarrow>
          g_verify_consistency g ra (k_mmr_size p) rb (k_mmr_size (l_checkpoint b)) pr
      | _ \<Rightarrow> False)"

lemma check_link_ok:
  "check_link g prev l = Inr None \<longleftrightarrow>
     g_signature_ok g (l_checkpoint l) \<and> (\<forall>p. prev = Some p \<longrightarrow> bridges g p l)"
  by (auto simp: check_link_def bridges_def Let_def fromhex_def res_simps split: option.splits)

lemma linked_adjacent:
  "linked g prev ls \<Longrightarrow>
     list_all (\<lambda>l. g_signature_ok g (l_checkpoint l)) ls \<and> (\<forall>i. Suc i < length ls \<longrightarrow> bridges g (l_checkpoint (ls ! i)) (ls ! Suc i))"
proof (induction ls arbitrary: prev)
  case (Cons l ls)
  have "bridges g (l_checkpoint l) (ls ! 0)" if ne: "ls \<noteq> []"
  proof -
    obtain m ms where "ls = m # ms" using ne by (cases ls) auto
    with Cons.prems have "check_link g (Some (l_checkpoint l)) m = Inr None" by simp
    then show ?thesis using \<open>ls = m # ms\<close> by (simp add: check_link_ok)
  qed
  with Cons show ?case by (auto simp: check_link_ok nth_Cons split: nat.splits)
qed simp

lemma linked_head: "linked g (Some p) ls \<Longrightarrow> ls \<noteq> [] \<Longrightarrow> bridges g p (hd ls)"
  by (cases ls) (auto simp: check_link_ok)

lemma adjacent_linked:
  "list_all (\<lambda>l. g_signature_ok g (l_checkpoint l)) ls \<Longrightarrow>
   (\<forall>i. Suc i < length ls \<longrightarrow> bridges g (l_checkpoint (ls ! i)) (ls ! Suc i)) \<Longrightarrow>
   (\<forall>p. prev = Some p \<longrightarrow> ls \<noteq> [] \<longrightarrow> bridges g p (hd ls)) \<Longrightarrow> linked g prev ls"
proof (induction ls arbitrary: prev)
  case (Cons l ls)
  have "\<forall>i. Suc i < length ls \<longrightarrow> bridges g (l_checkpoint (ls ! i)) (ls ! Suc i)"
    using Cons.prems(2) by (metis Suc_less_eq length_Cons nth_Cons_Suc)
  moreover have "ls \<noteq> [] \<longrightarrow> bridges g (l_checkpoint l) (hd ls)"
    using Cons.prems(2) by (cases ls) (auto dest: spec [of _ 0])
  ultimately have "linked g (Some (l_checkpoint l)) ls" using Cons by simp
  with Cons.prems show ?case by (simp add: check_link_ok)
qed simp

lemma linked_append:
  "linked g prev (xs @ ys) \<longleftrightarrow>
     linked g prev xs \<and> linked g (if xs = [] then prev else Some (l_checkpoint (last xs))) ys"
  by (induction xs arbitrary: prev) auto

section \<open>Counts and construction\<close>

definition counted :: "dict \<Rightarrow> int" where
  "counted d = sum_list (map (\<lambda>(k, v). case v of JInt n \<Rightarrow> n | _ \<Rightarrow> 0) d)"

lemma count_kind_sum: "sum_list (map snd (count_kind cs k)) = sum_list (map snd cs) + 1"
  by (induction cs k rule: count_kind.induct) auto

lemma count_kinds_sum: "sum_list (map snd (count_kinds classify es)) = length es"
proof -
  have "sum_list (map snd (foldl count_kind cs ks)) = sum_list (map snd cs) + length ks" for cs ks
    by (induction ks arbitrary: cs) (simp_all add: count_kind_sum)
  then show ?thesis by (simp add: count_kinds_def)
qed

lemma counted_counts: "counted (map (\<lambda>(k, n). (k, JInt (int n))) cs) = int (sum_list (map snd cs))"
  by (induction cs) (auto simp: counted_def)

lemma build_link_facts:
  assumes "build_link g q entries store cose prev cp = Inr l"
  shows "l_checkpoint l = cp"
    and "(case prev of None \<Rightarrow> l_proof l = None
          | Some p \<Rightarrow> \<exists>pr. g_consistency g store (k_mmr_size p) (k_mmr_size cp) = Inr pr \<and> l_proof l = Some pr)"
    and "\<exists>a b. g_leaf_count g (k_prev_size cp) = Inr a \<and> g_leaf_count g (k_mmr_size cp) = Inr b \<and>
          counted (l_leaf_counts l) = int (length (own_entries entries a b))"
  using assms by (auto simp: build_link_def Let_def res_simps counted_counts count_kinds_sum split: option.splits)

lemma build_links_checkpoints:
  "build_links g q entries store cose prev cps = Inr ls \<Longrightarrow> map l_checkpoint ls = cps"
  by (induction cps arbitrary: prev ls) (auto simp: res_simps dest: build_link_facts(1))

definition chained :: "checkpoint list \<Rightarrow> bool" where
  "chained cps \<longleftrightarrow> (\<forall>i. Suc i < length cps \<longrightarrow>
     k_prev_size (cps ! Suc i) = k_mmr_size (cps ! i) \<and> k_prev_root (cps ! Suc i) = k_root (cps ! i))"

lemma chained_Cons:
  "chained (a # b # cps) \<longleftrightarrow> k_prev_size b = k_mmr_size a \<and> k_prev_root b = k_root a \<and> chained (b # cps)"
  by (auto simp: chained_def nth_Cons split: nat.splits)

text \<open>The law of \<open>cll\<close> the construction relies on: a proof taken from a store verifies between the store's
  roots at the two sizes.\<close>

definition proofs_verify :: "mmr_ext \<Rightarrow> string list \<Rightarrow> (int \<Rightarrow> string) \<Rightarrow> bool" where
  "proofs_verify g store root_at \<longleftrightarrow>
     (\<forall>a b p. g_consistency g store a b = Inr p \<longrightarrow> g_verify_consistency g (root_at a) a (root_at b) b p)"

lemma build_links_linked:
  assumes "build_links g q entries store cose prev cps = Inr ls" "proofs_verify g store root_at"
    and "list_all (g_signature_ok g) cps" "chained ((case prev of None \<Rightarrow> [] | Some p \<Rightarrow> [p]) @ cps)"
    and "list_all (\<lambda>cp. from_hex (k_root cp) = Some (root_at (k_mmr_size cp)))
           ((case prev of None \<Rightarrow> [] | Some p \<Rightarrow> [p]) @ cps)"
  shows "linked g prev ls"
  using assms
proof (induction cps arbitrary: prev ls)
  case Nil
  then show ?case by simp
next
  case (Cons cp cps)
  from Cons.prems(1) obtain l ms where ls: "ls = l # ms" "build_link g q entries store cose prev cp = Inr l"
      "build_links g q entries store cose (Some cp) cps = Inr ms"
    by (auto simp: res_simps)
  note f = build_link_facts [OF ls(2)]
  have chain: "chained (cp # cps)"
    using Cons.prems(4) by (cases prev) (simp_all add: chained_Cons)
  have "linked g (Some cp) ms"
    using Cons.prems chain by (intro Cons.IH [OF ls(3)]) (simp_all split: option.splits)
  moreover have "check_link g prev l = Inr None"
  proof (cases prev)
    case None
    with f(1) Cons.prems(3) show ?thesis by (simp add: check_link_def)
  next
    case (Some p)
    with f(2) obtain pr where "g_consistency g store (k_mmr_size p) (k_mmr_size cp) = Inr pr" "l_proof l = Some pr"
      by auto
    with Cons.prems(2-5) Some f(1) show ?thesis
      by (simp add: check_link_ok bridges_def chained_Cons proofs_verify_def)
  qed
  ultimately show ?case using ls(1) f(1) by simp
qed

lemma chain_segment_links:
  assumes "chain_segment g entries q = Inr s"
  obtains cps store stamps covered where "build_links g q entries store (cose_by_size stamps) None cps = Inr (e_links s)"
    "leaf_store q (take covered entries) = Inr store" "cps \<noteq> []" "g_leaf_count g (k_mmr_size (last cps)) = Inr covered"
    "e_v s = 1"
proof -
  have pick: "cps' \<noteq> []" if "pick_segment cps sel = Inr cps'" "check_selection q = Inr sel" "cps \<noteq> []" for cps cps' sel
  proof (cases sel)
    case (Inl n)
    with that(2) have "0 < n" by (auto simp: check_selection_def split: json.splits if_splits)
    with that(3) have "length cps - nat n < length cps" by simp
    with that(1) Inl show ?thesis by (auto simp: pick_segment_def)
  next
    case (Inr ab)
    have "index_of x cps < length cps" if "x \<in> set cps" for x
      using that unfolding index_of_def by (induction cps) auto
    then have "at_size cps n = Some x \<Longrightarrow> index_of x cps < length cps" for n x
      by (auto simp: at_size_def dest: find_SomeD)
    with that Inr show ?thesis
      by (fastforce simp: pick_segment_def Let_def split: option.splits prod.splits if_splits)
  qed
  from assms pick that show thesis
    by (fastforce simp: chain_segment_def Let_def res_simps split: if_splits)
qed

lemma counts_telescope:
  assumes "build_links g q entries store cose prev cps = Inr ls" "g_leaf_count g = (\<lambda>n. Inr (lc n))" "mono lc"
    and "chained cps" "list_all (\<lambda>cp. k_prev_size cp \<le> k_mmr_size cp) cps" "cps \<noteq> []"
    and "lc (k_mmr_size (last cps)) \<le> length entries"
  shows "sum_list (map (\<lambda>l. counted (l_leaf_counts l)) ls) = int (lc (k_mmr_size (last cps)) - lc (k_prev_size (hd cps)))
    \<and> lc (k_prev_size (hd cps)) \<le> lc (k_mmr_size (last cps))"
  using assms
proof (induction cps arbitrary: prev ls)
  case Nil
  then show ?case by simp
next
  case (Cons cp cps)
  from Cons.prems(1) obtain l ms where ls: "ls = l # ms" "build_link g q entries store cose prev cp = Inr l"
      "build_links g q entries store cose (Some cp) cps = Inr ms"
    by (auto simp: res_simps)
  have c: "counted (l_leaf_counts l) = int (length (own_entries entries (lc (k_prev_size cp)) (lc (k_mmr_size cp))))"
    using build_link_facts(3) [OF ls(2)] Cons.prems(2) by auto
  have le: "lc (k_prev_size cp) \<le> lc (k_mmr_size cp)"
    using Cons.prems(3,5) by (simp add: monoD)
  show ?case
  proof (cases "cps = []")
    case True
    with c le ls Cons.prems(7) show ?thesis by (simp add: own_entries_def)
  next
    case False
    then obtain b bs where cps: "cps = b # bs" by (cases cps) auto
    have "chained cps" "k_prev_size b = k_mmr_size cp"
      using Cons.prems(4) cps by (simp_all add: chained_Cons)
    moreover note Cons.IH [OF ls(3) Cons.prems(2,3)]
    ultimately have ih: "sum_list (map (\<lambda>l. counted (l_leaf_counts l)) ms)
        = int (lc (k_mmr_size (last cps)) - lc (k_mmr_size cp)) \<and> lc (k_mmr_size cp) \<le> lc (k_mmr_size (last cps))"
      using Cons.prems(5,7) False cps by simp
    with c le ls Cons.prems(7) False show ?thesis by (simp add: own_entries_def)
  qed
qed

section \<open>Properties\<close>

text \<open>C38: A segment verifies exactly when it is not empty, every checkpoint is signed, and every link after the
  first names the size and root of the checkpoint before it and carries a consistency proof between the two
  roots; the reported depth is then the number of links, otherwise the length of the longest good beginning.\<close>

theorem segment_verifies_iff_linked:
  assumes "verify_chain_segment g anchor s = Inr r"
  shows "(z_ok r \<longleftrightarrow> e_links s \<noteq> [] \<and> list_all (\<lambda>l. g_signature_ok g (l_checkpoint l)) (e_links s) \<and>
      (\<forall>i. Suc i < length (e_links s) \<longrightarrow> bridges g (l_checkpoint (e_links s ! i)) (e_links s ! Suc i))) \<and>
    linked g None (take (z_depth r) (e_links s)) \<and> (z_ok r \<longleftrightarrow> e_links s \<noteq> [] \<and> z_depth r = length (e_links s))"
proof -
  have iff: "linked g None (e_links s) \<longleftrightarrow> list_all (\<lambda>l. g_signature_ok g (l_checkpoint l)) (e_links s) \<and>
      (\<forall>i. Suc i < length (e_links s) \<longrightarrow> bridges g (l_checkpoint (e_links s ! i)) (e_links s ! Suc i))"
    using adjacent_linked [of g "e_links s" None] linked_adjacent [of g None "e_links s"] by auto
  show ?thesis
  proof (cases "e_links s = []")
    case True
    with assms show ?thesis by (auto simp: verify_chain_segment_def)
  next
    case False
    with assms obtain d w m where walk: "walk_links g anchor None 0 0 (e_links s) = Inr (d, w, m)"
        "z_ok r \<longleftrightarrow> m = None" "z_depth r = d"
      by (auto simp: verify_chain_segment_def res_simps)
    show ?thesis
    proof (cases m)
      case None
      with walk_result [OF walk(1)] have "linked g None (e_links s)" "d = length (e_links s)" by auto
      with None False walk iff show ?thesis by simp
    next
      case (Some msg)
      with walk_result [OF walk(1)] obtain pre l post where p: "e_links s = pre @ l # post" "linked g None pre" "d = length pre"
          "check_link g (if pre = [] then None else Some (l_checkpoint (last pre))) l = Inr (Some msg)"
        by auto
      have "\<not> linked g None (e_links s)"
        using p(1,4) linked_append [of g None pre "l # post"] by auto
      with iff Some walk p show ?thesis by auto
    qed
  qed
qed

definition demo_cp :: "int \<Rightarrow> checkpoint" where
  "demo_cp n = \<lparr>k_mmr_size = n, k_prev_size = n - 1, k_root = ''00'', k_prev_root = ''00'', k_witnesses = [], k_rest = JNull\<rparr>"

definition demo_proof :: consistency_proof where
  "demo_proof = \<lparr>c_v = 1, c_kind = JNull, c_size_a = 1, c_size_b = 2, c_old_peaks = [], c_witness = [], c_new_peaks = []\<rparr>"

definition demo_mmr :: mmr_ext where
  "demo_mmr = \<lparr>g_checkpoint = (\<lambda>v. case v of JInt n \<Rightarrow> Inr (demo_cp n) | _ \<Rightarrow> Inl SegTypeError),
     g_checkpoint_dict = (\<lambda>cp. JInt (k_mmr_size cp)), g_leaf_count = (\<lambda>n. Inr (nat n)),
     g_store_size = (\<lambda>s. int (length s)), g_consistency = (\<lambda>_ _ _. Inr demo_proof),
     g_verify_consistency = (\<lambda>_ _ _ _ p. p = demo_proof), g_signature_ok = (\<lambda>_. True), g_witnessed = (\<lambda>_ _ _. False),
     g_ts_url = (\<lambda>_. []), g_int = (\<lambda>_. Inl SegValueError), g_dict = (\<lambda>_. Inl SegValueError), g_str = (\<lambda>_. [])\<rparr>"

definition demo_query :: segment_query where
  "demo_query = \<lparr>y_from_size = JNull, y_to_size = JNull, y_last = JInt 2, y_self_owner_id = None, y_classify = None,
     y_leaf_digests = False, y_id_field = ''id'', y_kind_field = ''kind'', y_stamp_kind = ''stamp''\<rparr>"

definition demo_log :: "dict list" where
  "demo_log = [[(''id'', JStr ''00'')], [(''id'', JStr ''00''), (''kind'', JStr ''stamp''), (''checkpoint'', JInt 1)],
     [(''id'', JStr ''00''), (''kind'', JStr ''stamp''), (''checkpoint'', JInt 2)]]"

definition demo_link :: "int \<Rightarrow> consistency_proof option \<Rightarrow> string \<Rightarrow> checkpoint_link" where
  "demo_link n p k = \<lparr>l_checkpoint = demo_cp n, l_proof = p, l_cose = None, l_leaf_counts = [(k, JInt 1)],
     l_adjudication = None, l_leaf_digests = None\<rparr>"

definition demo_segment :: chain_seg where
  "demo_segment = \<lparr>e_v = 1, e_links = [demo_link 1 None ''capsule'', demo_link 2 (Some demo_proof) ''stamp'']\<rparr>"

lemma zero_hex: "from_hex ''00'' = Some [CHR 0x00]"
  by code_simp

lemma demo_built: "chain_segment demo_mmr demo_log demo_query = Inr demo_segment"
  by code_simp

lemma demo_verified: "verify_chain_segment demo_mmr [] demo_segment = Inr
    \<lparr>z_ok = True, z_errors = [], z_continuity = ''unbroken'', z_depth = 2, z_witnessed = ''0/2''\<rparr>"
  by code_simp

theorem segment_verifies_iff_linked_witness:
  "bridges demo_mmr (demo_cp 1) (demo_link 2 (Some demo_proof) ''stamp'')"
  using segment_verifies_iff_linked [OF demo_verified]
  by (auto simp: demo_segment_def demo_link_def dest: spec [of _ 0])

text \<open>A segment built from a log whose checkpoints are signed, name each the one before, and carry the roots
  the log has at their sizes verifies in full, and its leaf counts add up to the number of leaves between the
  first checkpoint's previous size and the last size: no leaf is counted twice and none is left out.\<close>

theorem built_segment_verifies:
  assumes "chain_segment g entries q = Inr s"
    and "list_all (g_signature_ok g) (map l_checkpoint (e_links s))" "chained (map l_checkpoint (e_links s))"
    and roots: "\<And>n store. leaf_store q (take n entries) = Inr store \<Longrightarrow> proofs_verify g store root_at"
      "list_all (\<lambda>cp. from_hex (k_root cp) = Some (root_at (k_mmr_size cp))) (map l_checkpoint (e_links s))"
    and leaves: "g_leaf_count g = (\<lambda>n. Inr (lc n))" "mono lc" "lc (k_mmr_size (segment_checkpoint s)) \<le> length entries"
      "list_all (\<lambda>cp. k_prev_size cp \<le> k_mmr_size cp) (map l_checkpoint (e_links s))"
  shows "\<exists>w. verify_chain_segment g anchor s = Inr \<lparr>z_ok = True, z_errors = [], z_continuity = ''unbroken'',
      z_depth = length (e_links s), z_witnessed = w\<rparr> \<and>
    sum_list (map (\<lambda>l. counted (l_leaf_counts l)) (e_links s))
      = int (lc (k_mmr_size (segment_checkpoint s)) - lc (k_prev_size (l_checkpoint (hd (e_links s)))))"
proof -
  obtain cps store stamps n where b: "build_links g q entries store (cose_by_size stamps) None cps = Inr (e_links s)"
      "leaf_store q (take n entries) = Inr store" "cps \<noteq> []"
    using chain_segment_links [OF assms(1)] by metis
  have cps: "map l_checkpoint (e_links s) = cps" by (rule build_links_checkpoints [OF b(1)])
  with b(3) have ne: "e_links s \<noteq> []" by auto
  have "linked g None (e_links s)"
    using build_links_linked [OF b(1) roots(1) [OF b(2)]] assms(2,3) roots(2) cps by simp
  from walk_linked [OF this, of anchor 0 0] ne
  have "\<exists>w. verify_chain_segment g anchor s = Inr \<lparr>z_ok = True, z_errors = [], z_continuity = ''unbroken'',
      z_depth = length (e_links s), z_witnessed = w\<rparr>"
    by (auto simp: verify_chain_segment_def)
  moreover have "k_mmr_size (last cps) = k_mmr_size (segment_checkpoint s)" "hd cps = l_checkpoint (hd (e_links s))"
    using ne by (simp_all add: segment_checkpoint_def last_map hd_map flip: cps)
  ultimately show ?thesis
    using counts_telescope [OF b(1) leaves(1,2)] assms(3) leaves(3,4) b(3) cps by auto
qed

theorem built_segment_verifies_witness:
  "sum_list (map (\<lambda>l. counted (l_leaf_counts l)) (e_links demo_segment)) = 2 \<and>
   (\<exists>w. verify_chain_segment demo_mmr [] demo_segment = Inr \<lparr>z_ok = True, z_errors = [], z_continuity = ''unbroken'',
      z_depth = 2, z_witnessed = w\<rparr>)"
proof -
  have cps: "map l_checkpoint (e_links demo_segment) = [demo_cp 1, demo_cp 2]"
    by (simp add: demo_segment_def demo_link_def)
  have facts: "k_mmr_size (segment_checkpoint demo_segment) = 2" "k_prev_size (l_checkpoint (hd (e_links demo_segment))) = 0"
      "length (e_links demo_segment) = 2"
    by (simp_all add: demo_segment_def demo_link_def segment_checkpoint_def demo_cp_def)
  have h: "list_all (g_signature_ok demo_mmr) (map l_checkpoint (e_links demo_segment))"
      "chained (map l_checkpoint (e_links demo_segment))"
      "\<And>n store. leaf_store demo_query (take n demo_log) = Inr store \<Longrightarrow> proofs_verify demo_mmr store (\<lambda>_. [CHR 0x00])"
      "list_all (\<lambda>cp. from_hex (k_root cp) = Some [CHR 0x00]) (map l_checkpoint (e_links demo_segment))"
      "g_leaf_count demo_mmr = (\<lambda>n. Inr (nat n))" "mono nat"
      "nat (k_mmr_size (segment_checkpoint demo_segment)) \<le> length demo_log"
      "list_all (\<lambda>cp. k_prev_size cp \<le> k_mmr_size cp) (map l_checkpoint (e_links demo_segment))"
    unfolding cps facts
    by (simp_all add: demo_mmr_def chained_Cons demo_cp_def proofs_verify_def zero_hex monoI nat_mono demo_log_def
        del: from_hex.simps) (simp add: chained_def)
  from built_segment_verifies [OF demo_built h, where anchor = "[]"] show ?thesis
    unfolding facts by simp
qed

text \<open>A segment survives its dictionary, where the checkpoints do and no COSE statement is empty.\<close>

theorem segment_dict_round_trip:
  assumes "\<And>l. l \<in> set (e_links s) \<Longrightarrow> g_checkpoint g (g_checkpoint_dict g (l_checkpoint l)) = Inr (l_checkpoint l)"
    and "\<And>l. l \<in> set (e_links s) \<Longrightarrow> l_cose l \<noteq> Some []"
  shows "segment_from_dict g (segment_to_dict g s) = Inr s"
proof -
  have "mapM_r (\<lambda>l. sbind (as_dict SegAttributeError l) (link_from_dict g)) (map (\<lambda>l. JObj (link_to_dict g l)) ls) = Inr ls"
    if "set ls \<subseteq> set (e_links s)" for ls
    using that assms link_dict_round_trip by (induction ls) (simp_all add: as_dict_def)
  from this [of "e_links s"] show ?thesis
    by (simp add: segment_from_dict_def segment_to_dict_def getitem_def dhas_simps py_int_def py_iter_arr)
qed

theorem segment_dict_round_trip_witness:
  "segment_from_dict demo_mmr (segment_to_dict demo_mmr demo_segment) = Inr demo_segment"
  by (rule segment_dict_round_trip) (auto simp: demo_segment_def demo_link_def demo_mmr_def demo_cp_def)

end
