(* ===== verification/Bilateral.thy ===== *)
theory Bilateral
  imports Json_Text
begin

text \<open>
  \<open>bilateral.py\<close>: the handshake of two organisations over one action, as the state machine of
  \<open>BilateralHandshake\<close> over its dictionary of records, one definition per method.  \<open>jcs\<close> of
  \<open>agent_action_capsule\<close>, SHA-256, HMAC and the verifier the caller brings are parameters; the handshake id is the
  \<open>uuid4\<close> of the call.  A scheme of signatures is the locale \<open>signature_scheme\<close>, interpreted on the two verifiers
  of the module.
\<close>

section \<open>Types\<close>

record bilateral_sig =
  bs_alg :: string
  bs_key_id :: string
  bs_signature :: string

datatype bilateral_state = REQUESTED | ACTED | BILATERAL | ONE_SIDED | COUNTERSIGN_REFUSED

record bilateral_record =
  br_handshake_id :: string
  br_requester_org :: string
  br_responder_org :: "string option"
  br_action_digest :: string
  br_state :: bilateral_state
  br_request_sig :: "bilateral_sig option"
  br_action_sig :: "bilateral_sig option"
  br_requester_confirm :: "bilateral_sig option"
  br_responder_confirm :: "bilateral_sig option"

datatype bilateral_error =
    BilateralError string
  | InvalidSignature string
  | IllegalTransition bilateral_state
  | UnknownParty string
  | AssertionError

section \<open>Payloads\<close>

type_synonym verify_fn = "string \<Rightarrow> string \<Rightarrow> bilateral_sig \<Rightarrow> bool"

record bilateral_env =
  bl_jcs :: "json \<Rightarrow> string"
  bl_sha256 :: "string \<Rightarrow> string"
  bl_verify :: verify_fn

definition sig_text :: "bilateral_sig \<Rightarrow> string" where
  "sig_text s = bs_alg s @ '':'' @ bs_key_id s @ '':'' @ bs_signature s"

definition sig_digest :: "bilateral_env \<Rightarrow> bilateral_sig \<Rightarrow> string" where
  "sig_digest env s = bl_sha256 env (sig_text s)"

definition opt_org :: "string option \<Rightarrow> json" where
  "opt_org x = (case x of None \<Rightarrow> JNull | Some s \<Rightarrow> JStr s)"

definition request_payload :: "bilateral_env \<Rightarrow> string \<Rightarrow> string option \<Rightarrow> string \<Rightarrow> string" where
  "request_payload env requester responder action_digest =
     bl_jcs env (JObj [(''phase'', JStr ''request''), (''requester_org'', JStr requester),
       (''responder_org'', opt_org responder), (''action_digest'', JStr action_digest)])"

definition action_payload :: "bilateral_env \<Rightarrow> string \<Rightarrow> string \<Rightarrow> string \<Rightarrow> string" where
  "action_payload env hid responder request_sig_digest =
     bl_jcs env (JObj [(''phase'', JStr ''action''), (''handshake_id'', JStr hid), (''responder_org'', JStr responder),
       (''request_sig_digest'', JStr request_sig_digest)])"

definition confirm_payload :: "bilateral_env \<Rightarrow> string \<Rightarrow> string \<Rightarrow> string \<Rightarrow> string" where
  "confirm_payload env hid party acked_sig_digest =
     bl_jcs env (JObj [(''phase'', JStr ''confirm''), (''handshake_id'', JStr hid), (''party_org'', JStr party),
       (''acked_sig_digest'', JStr acked_sig_digest)])"

section \<open>Verifiers\<close>

definition no_op_verifier :: verify_fn where
  "no_op_verifier org payload s \<longleftrightarrow> True"

text \<open>\<open>hmac key payload\<close> is the hexadecimal HMAC-SHA256.\<close>

definition dict_verifier :: "(string \<Rightarrow> string \<Rightarrow> string) \<Rightarrow> (string \<rightharpoonup> string) \<Rightarrow> verify_fn" where
  "dict_verifier hmac keys org payload s \<longleftrightarrow>
     (case keys org of None \<Rightarrow> False | Some key \<Rightarrow> hmac key payload = bs_signature s)"

text \<open>\<open>None\<close> is the \<open>KeyError\<close> of an organisation without a key.\<close>

definition dict_signer ::
    "(string \<Rightarrow> string \<Rightarrow> string) \<Rightarrow> (string \<rightharpoonup> string) \<Rightarrow> string \<Rightarrow> string \<Rightarrow> bilateral_sig option" where
  "dict_signer hmac keys org payload =
     map_option (\<lambda>key. \<lparr>bs_alg = ''hmac-sha256'', bs_key_id = org, bs_signature = hmac key payload\<rparr>) (keys org)"

section \<open>The state machine\<close>

type_synonym handshakes = "string \<rightharpoonup> bilateral_record"

definition check_sig :: "bilateral_env \<Rightarrow> string \<Rightarrow> string \<Rightarrow> bilateral_sig \<Rightarrow> bilateral_error + unit" where
  "check_sig env org payload s = ensure (bl_verify env org payload s) (InvalidSignature org)"

definition open_handshake ::
    "bilateral_env \<Rightarrow> string \<Rightarrow> handshakes \<Rightarrow> string \<Rightarrow> string option \<Rightarrow> string \<Rightarrow> bilateral_sig \<Rightarrow>
     bilateral_error + (bilateral_record \<times> handshakes)" where
  "open_handshake env hid rs requester responder action_digest request_sig =
     sbind (check_sig env requester (request_payload env requester responder action_digest) request_sig) (\<lambda>_.
       let r = \<lparr>br_handshake_id = hid, br_requester_org = requester, br_responder_org = responder,
                br_action_digest = action_digest,
                br_state = (if responder = None then ONE_SIDED else REQUESTED),
                br_request_sig = Some request_sig, br_action_sig = None,
                br_requester_confirm = None, br_responder_confirm = None\<rparr>
       in Inr (r, rs(hid \<mapsto> r)))"

definition find_record :: "handshakes \<Rightarrow> string \<Rightarrow> bilateral_state \<Rightarrow> bilateral_error + bilateral_record" where
  "find_record rs hid required =
     (case rs hid of
        None \<Rightarrow> Inl (BilateralError hid)
      | Some r \<Rightarrow> if br_state r \<noteq> required then Inl (IllegalTransition (br_state r)) else Inr r)"

definition respond ::
    "bilateral_env \<Rightarrow> handshakes \<Rightarrow> string \<Rightarrow> bilateral_sig \<Rightarrow> bilateral_error + (bilateral_record \<times> handshakes)" where
  "respond env rs hid action_sig =
     sbind (find_record rs hid REQUESTED) (\<lambda>r.
       (case (br_responder_org r, br_request_sig r) of
          (Some responder, Some request_sig) \<Rightarrow>
            sbind (check_sig env responder (action_payload env hid responder (sig_digest env request_sig)) action_sig) (\<lambda>_.
              let u = r\<lparr>br_action_sig := Some action_sig, br_state := ACTED\<rparr> in Inr (u, rs(hid \<mapsto> u)))
        | _ \<Rightarrow> Inl AssertionError))"

definition close_if :: "bool \<Rightarrow> bilateral_record \<Rightarrow> bilateral_record" where
  "close_if done r = (if done then r\<lparr>br_state := BILATERAL\<rparr> else r)"

definition confirm ::
    "bilateral_env \<Rightarrow> handshakes \<Rightarrow> string \<Rightarrow> string \<Rightarrow> bilateral_sig \<Rightarrow> bilateral_error + (bilateral_record \<times> handshakes)" where
  "confirm env rs hid party confirm_sig =
     sbind (find_record rs hid ACTED) (\<lambda>r.
       (case (br_request_sig r, br_action_sig r) of
          (Some request_sig, Some action_sig) \<Rightarrow>
            if party = br_requester_org r then
              sbind (check_sig env party (confirm_payload env hid party (sig_digest env action_sig)) confirm_sig) (\<lambda>_.
                let u = close_if (br_responder_confirm r \<noteq> None) (r\<lparr>br_requester_confirm := Some confirm_sig\<rparr>)
                in Inr (u, rs(hid \<mapsto> u)))
            else if Some party = br_responder_org r then
              sbind (check_sig env party (confirm_payload env hid party (sig_digest env request_sig)) confirm_sig) (\<lambda>_.
                let u = close_if (br_requester_confirm r \<noteq> None) (r\<lparr>br_responder_confirm := Some confirm_sig\<rparr>)
                in Inr (u, rs(hid \<mapsto> u)))
            else Inl (UnknownParty party)
        | _ \<Rightarrow> Inl AssertionError))"

definition ghost :: "handshakes \<Rightarrow> string \<Rightarrow> bilateral_error + (bilateral_record \<times> handshakes)" where
  "ghost rs hid =
     sbind (find_record rs hid REQUESTED) (\<lambda>r.
       let u = r\<lparr>br_state := COUNTERSIGN_REFUSED\<rparr> in Inr (u, rs(hid \<mapsto> u)))"

definition get_handshake :: "handshakes \<Rightarrow> string \<Rightarrow> bilateral_record option" where
  "get_handshake rs hid = rs hid"

text \<open>A step is a method call that returns; one that raises changes nothing.  The id of a new handshake is not
  one in use.\<close>

inductive bstep :: "bilateral_env \<Rightarrow> handshakes \<Rightarrow> handshakes \<Rightarrow> bool" for env where
  Open: "rs hid = None \<Longrightarrow> open_handshake env hid rs a b dg s = Inr (r, rs') \<Longrightarrow> bstep env rs rs'"
| Respond: "respond env rs hid s = Inr (r, rs') \<Longrightarrow> bstep env rs rs'"
| Confirm: "confirm env rs hid party s = Inr (r, rs') \<Longrightarrow> bstep env rs rs'"
| Ghost: "ghost rs hid = Inr (r, rs') \<Longrightarrow> bstep env rs rs'"

inductive_cases bstepE: "bstep env rs rs'"

abbreviation bsteps :: "bilateral_env \<Rightarrow> handshakes \<Rightarrow> handshakes \<Rightarrow> bool" where
  "bsteps env \<equiv> (bstep env)\<^sup>*\<^sup>*"


section \<open>What a record is evidence of\<close>

definition request_ok :: "bilateral_env \<Rightarrow> bilateral_record \<Rightarrow> bilateral_sig \<Rightarrow> bool" where
  "request_ok env r s \<longleftrightarrow>
     bl_verify env (br_requester_org r) (request_payload env (br_requester_org r) (br_responder_org r) (br_action_digest r)) s"

definition unanswered :: "bilateral_record \<Rightarrow> bool" where
  "unanswered r \<longleftrightarrow> br_action_sig r = None \<and> br_requester_confirm r = None \<and> br_responder_confirm r = None"

definition answered :: "bilateral_env \<Rightarrow> bilateral_record \<Rightarrow> bilateral_sig \<Rightarrow> string \<Rightarrow> bilateral_sig \<Rightarrow> bool" where
  "answered env r s b a \<longleftrightarrow>
     br_responder_org r = Some b \<and> br_action_sig r = Some a \<and>
     bl_verify env b (action_payload env (br_handshake_id r) b (sig_digest env s)) a \<and>
     pred_option (bl_verify env (br_requester_org r)
       (confirm_payload env (br_handshake_id r) (br_requester_org r) (sig_digest env a))) (br_requester_confirm r) \<and>
     pred_option (\<lambda>c. b \<noteq> br_requester_org r \<and>
       bl_verify env b (confirm_payload env (br_handshake_id r) b (sig_digest env s)) c) (br_responder_confirm r)"

definition wf_record :: "bilateral_env \<Rightarrow> bilateral_record \<Rightarrow> bool" where
  "wf_record env r \<longleftrightarrow>
     (\<exists>s. br_request_sig r = Some s \<and> request_ok env r s \<and>
       (case br_state r of
          ONE_SIDED \<Rightarrow> br_responder_org r = None \<and> unanswered r
        | REQUESTED \<Rightarrow> br_responder_org r \<noteq> None \<and> unanswered r
        | COUNTERSIGN_REFUSED \<Rightarrow> br_responder_org r \<noteq> None \<and> unanswered r
        | ACTED \<Rightarrow> (\<exists>b a. answered env r s b a) \<and> (br_requester_confirm r = None \<or> br_responder_confirm r = None)
        | BILATERAL \<Rightarrow> (\<exists>b a. answered env r s b a) \<and> br_requester_confirm r \<noteq> None \<and> br_responder_confirm r \<noteq> None))"

text \<open>What a later record keeps of an earlier one.\<close>

definition same_deal :: "bilateral_record \<Rightarrow> bilateral_record \<Rightarrow> bool" where
  "same_deal r u \<longleftrightarrow>
     br_handshake_id u = br_handshake_id r \<and> br_requester_org u = br_requester_org r \<and>
     br_responder_org u = br_responder_org r \<and> br_action_digest u = br_action_digest r \<and>
     br_request_sig u = br_request_sig r \<and> (br_action_sig r = None \<or> br_action_sig u = br_action_sig r)"

definition terminal :: "bilateral_state \<Rightarrow> bool" where
  "terminal st \<longleftrightarrow> st \<in> {BILATERAL, ONE_SIDED, COUNTERSIGN_REFUSED}"

lemma find_record_Inr: "find_record rs hid st = Inr r \<longleftrightarrow> rs hid = Some r \<and> br_state r = st"
  by (auto simp: find_record_def split: option.splits)

lemma check_sig_Inr: "check_sig env org p s = Inr u \<longleftrightarrow> bl_verify env org p s"
  by (simp add: check_sig_def ensure_eq_Inr)

lemma open_Inr:
  assumes "open_handshake env hid rs a b dg s = Inr (r, rs')"
  shows "rs' = rs(hid \<mapsto> r) \<and> br_handshake_id r = hid \<and> wf_record env r"
  using assms
  by (cases b)
    (auto simp: open_handshake_def res_simps Let_def check_sig_Inr wf_record_def request_ok_def unanswered_def)

lemma answered_exI:
  assumes "answered env r s b a"
  shows "\<exists>b a. answered env r s b a"
  using assms by blast

lemma respond_Inr:
  assumes "respond env rs hid s = Inr (u, rs')"
  obtains r where "rs hid = Some r" "br_state r = REQUESTED" "rs' = rs(hid \<mapsto> u)"
    "wf_record env r \<Longrightarrow> br_handshake_id r = hid \<Longrightarrow> wf_record env u \<and> same_deal r u"
proof -
  obtain r where r: "rs hid = Some r" "br_state r = REQUESTED"
    using assms by (auto simp: respond_def res_simps find_record_Inr)
  then obtain b q where bq: "br_responder_org r = Some b" "br_request_sig r = Some q"
    using assms by (auto simp: respond_def find_record_Inr [THEN iffD2] split: option.splits)
  then have v: "bl_verify env b (action_payload env hid b (sig_digest env q)) s"
    and u: "u = r\<lparr>br_action_sig := Some s, br_state := ACTED\<rparr>" and rs': "rs' = rs(hid \<mapsto> u)"
    using assms r by (auto simp: respond_def find_record_Inr [THEN iffD2] res_simps Let_def check_sig_Inr)
  have "wf_record env u \<and> same_deal r u" if wf: "wf_record env r" and id: "br_handshake_id r = hid"
  proof -
    have una: "unanswered r" and q: "request_ok env r q" using wf r bq by (auto simp: wf_record_def)
    have "answered env u q b s" using una v id bq by (simp add: u answered_def unanswered_def)
    from answered_exI [OF this] show ?thesis
      using una q bq by (simp add: u wf_record_def request_ok_def unanswered_def same_deal_def)
  qed
  then show thesis using that r rs' by blast
qed

lemma ghost_Inr:
  assumes "ghost rs hid = Inr (u, rs')"
  obtains r where "rs hid = Some r" "br_state r = REQUESTED" "rs' = rs(hid \<mapsto> u)"
    "wf_record env r \<Longrightarrow> wf_record env u \<and> same_deal r u"
proof -
  obtain r where r: "rs hid = Some r" "br_state r = REQUESTED"
    using assms by (auto simp: ghost_def res_simps find_record_Inr)
  then show thesis
    using assms
    by (intro that [OF r])
      (auto simp: ghost_def find_record_Inr [THEN iffD2] res_simps Let_def wf_record_def request_ok_def
        unanswered_def same_deal_def)
qed

lemma confirm_cases:
  assumes "confirm env rs hid party c = Inr (u, rs')"
  obtains (requester) r s a where "rs hid = Some r" "br_state r = ACTED" "br_request_sig r = Some s" "br_action_sig r = Some a"
      "party = br_requester_org r" "bl_verify env party (confirm_payload env hid party (sig_digest env a)) c"
      "u = close_if (br_responder_confirm r \<noteq> None) (r\<lparr>br_requester_confirm := Some c\<rparr>)" "rs' = rs(hid \<mapsto> u)"
  | (responder) r s a where "rs hid = Some r" "br_state r = ACTED" "br_request_sig r = Some s" "br_action_sig r = Some a"
      "party \<noteq> br_requester_org r" "br_responder_org r = Some party"
      "bl_verify env party (confirm_payload env hid party (sig_digest env s)) c"
      "u = close_if (br_requester_confirm r \<noteq> None) (r\<lparr>br_responder_confirm := Some c\<rparr>)" "rs' = rs(hid \<mapsto> u)"
proof -
  obtain r where r: "rs hid = Some r" "br_state r = ACTED"
    using assms by (auto simp: confirm_def res_simps find_record_Inr)
  obtain s a where sa: "br_request_sig r = Some s" "br_action_sig r = Some a"
    using assms r by (auto simp: confirm_def find_record_Inr [THEN iffD2] split: option.splits)
  show thesis
    using assms r sa requester [OF r sa] responder [OF r sa]
    by (auto simp: confirm_def find_record_Inr [THEN iffD2] res_simps Let_def check_sig_Inr split: if_splits)
qed

lemma wf_acted:
  assumes "wf_record env r" "br_state r = ACTED" "br_request_sig r = Some s" "br_action_sig r = Some a"
  obtains b where "request_ok env r s" "answered env r s b a"
proof -
  obtain b a' where "request_ok env r s" "answered env r s b a'"
    using assms(1-3) by (auto simp: wf_record_def)
  moreover from this(2) assms(4) have "a' = a" by (simp add: answered_def)
  ultimately show thesis using that by blast
qed

lemma wf_closed:
  assumes "br_request_sig r = Some s" "request_ok env r s" "answered env r s b a" "br_state r = ACTED"
    "done \<longleftrightarrow> br_requester_confirm r \<noteq> None \<and> br_responder_confirm r \<noteq> None"
  shows "wf_record env (close_if done r)"
proof (cases "done")
  case True
  have "answered env (close_if done r) s b a" using assms True by (simp add: close_if_def answered_def)
  from answered_exI [OF this] show ?thesis
    using assms True by (auto simp: wf_record_def close_if_def request_ok_def)
next
  case False
  from answered_exI [OF assms(3)] show ?thesis
    using assms False by (auto simp: wf_record_def close_if_def request_ok_def)
qed

lemma confirm_Inr:
  assumes "confirm env rs hid party c = Inr (u, rs')"
  obtains r where "rs hid = Some r" "br_state r = ACTED" "rs' = rs(hid \<mapsto> u)"
    "wf_record env r \<Longrightarrow> br_handshake_id r = hid \<Longrightarrow> wf_record env u \<and> same_deal r u"
  using assms
proof (cases rule: confirm_cases)
  case (requester r s a)
  have "wf_record env u" if wf: "wf_record env r" and id: "br_handshake_id r = hid"
  proof -
    obtain b where b: "request_ok env r s" "answered env r s b a"
      by (rule wf_acted [OF wf requester(2-4)])
    have "answered env (r\<lparr>br_requester_confirm := Some c\<rparr>) s b a"
      using b(2) requester(5,6) id by (simp add: answered_def)
    from wf_closed [OF _ _ this] show ?thesis
      using b(1) requester(2,3,7) by (simp add: request_ok_def)
  qed
  moreover have "same_deal r u" using requester by (simp add: close_if_def same_deal_def)
  ultimately show thesis using requester by (intro that [of r]) simp_all
next
  case (responder r s a)
  have "wf_record env u" if wf: "wf_record env r" and id: "br_handshake_id r = hid"
  proof -
    obtain b where b: "request_ok env r s" "answered env r s b a"
      by (rule wf_acted [OF wf responder(2-4)])
    have "answered env (r\<lparr>br_responder_confirm := Some c\<rparr>) s b a"
      using b(2) responder(5-7) id by (simp add: answered_def)
    from wf_closed [OF _ _ this] show ?thesis
      using b(1) responder(2,3,8) by (simp add: request_ok_def)
  qed
  moreover have "same_deal r u" using responder by (simp add: close_if_def same_deal_def)
  ultimately show thesis using responder by (intro that [of r]) simp_all
qed

text \<open>One step writes one record, and only a live one.\<close>

lemma bstep_write:
  assumes "bstep env rs rs'"
  obtains hid u where "rs' = rs(hid \<mapsto> u)"
    "case rs hid of None \<Rightarrow> br_handshake_id u = hid \<and> wf_record env u
     | Some r \<Rightarrow> \<not> terminal (br_state r) \<and> (wf_record env r \<and> br_handshake_id r = hid \<longrightarrow> wf_record env u \<and> same_deal r u)"
  using assms
proof (cases rule: bstep.cases)
  case (Open hid a b dg s r)
  then show thesis using open_Inr [OF Open(2)] by (intro that [of hid r]) auto
next
  case (Respond hid s r)
  show thesis
    by (rule respond_Inr [OF Respond(1)]) (rule that [of hid r], auto simp: terminal_def)
next
  case (Confirm hid party s r)
  show thesis
    by (rule confirm_Inr [OF Confirm(1)]) (rule that [of hid r], auto simp: terminal_def)
next
  case (Ghost hid r)
  show thesis
    by (rule ghost_Inr [OF Ghost(1), of env]) (rule that [of hid r], auto simp: terminal_def)
qed


section \<open>The invariant\<close>

definition handshakes_inv :: "bilateral_env \<Rightarrow> handshakes \<Rightarrow> bool" where
  "handshakes_inv env rs \<longleftrightarrow> (\<forall>hid r. rs hid = Some r \<longrightarrow> br_handshake_id r = hid \<and> wf_record env r)"

lemma handshakes_inv_step:
  assumes "bstep env rs rs'" "handshakes_inv env rs"
  shows "handshakes_inv env rs'"
proof (rule bstep_write [OF assms(1)])
  fix hid u
  assume "rs' = rs(hid \<mapsto> u)"
    "case rs hid of None \<Rightarrow> br_handshake_id u = hid \<and> wf_record env u
     | Some r \<Rightarrow> \<not> terminal (br_state r) \<and> (wf_record env r \<and> br_handshake_id r = hid \<longrightarrow> wf_record env u \<and> same_deal r u)"
  then show ?thesis
    using assms(2) by (auto simp: handshakes_inv_def same_deal_def split: option.splits)
qed

lemma handshakes_inv_steps:
  assumes "bsteps env rs rs'" "handshakes_inv env rs"
  shows "handshakes_inv env rs'"
  using assms by (induction rule: rtranclp_induct) (auto intro: handshakes_inv_step)

lemma handshakes_inv_reachable:
  assumes "bsteps env Map.empty rs" "rs hid = Some r"
  shows "br_handshake_id r = hid" "wf_record env r"
  using handshakes_inv_steps [OF assms(1)] assms(2) by (auto simp: handshakes_inv_def)

lemma same_deal_refl: "same_deal r r"
  by (simp add: same_deal_def)

lemma same_deal_trans: "same_deal r u \<Longrightarrow> same_deal u v \<Longrightarrow> same_deal r v"
  by (auto simp: same_deal_def)

definition kept :: "bilateral_record \<Rightarrow> bilateral_record option \<Rightarrow> bool" where
  "kept r x \<longleftrightarrow> (\<exists>u. x = Some u \<and> same_deal r u \<and> (terminal (br_state r) \<longrightarrow> u = r))"

lemma kept_step:
  assumes "bstep env rs rs'" "handshakes_inv env rs" "rs hid = Some r"
  shows "kept r (rs' hid)"
proof (rule bstep_write [OF assms(1)])
  fix hid' u
  assume "rs' = rs(hid' \<mapsto> u)"
    "case rs hid' of None \<Rightarrow> br_handshake_id u = hid' \<and> wf_record env u
     | Some r \<Rightarrow> \<not> terminal (br_state r) \<and> (wf_record env r \<and> br_handshake_id r = hid' \<longrightarrow> wf_record env u \<and> same_deal r u)"
  then show ?thesis
    using assms(2,3) by (cases "hid' = hid") (auto simp: handshakes_inv_def kept_def same_deal_refl)
qed

lemma kept_trans: "kept r (Some u) \<Longrightarrow> kept u x \<Longrightarrow> kept r x"
  by (auto simp: kept_def intro: same_deal_trans)

lemma kept_steps:
  assumes "bsteps env rs rs'" "handshakes_inv env rs" "rs hid = Some r"
  shows "kept r (rs' hid)"
  using assms
proof (induction rule: rtranclp_induct)
  case base
  then show ?case by (simp add: kept_def same_deal_refl)
next
  case (step y z)
  then obtain u where u: "y hid = Some u" by (auto simp: kept_def)
  have "kept u (z hid)"
    using step.hyps(2) handshakes_inv_steps [OF step.hyps(1)] u step.prems by (intro kept_step)
  then show ?case using step u by (auto intro: kept_trans)
qed


section \<open>Signature schemes\<close>

text \<open>What a completed handshake needs of the organisations in \<open>orgs\<close>: they can sign, and what they sign verifies.\<close>

locale signature_scheme =
  fixes sign :: "string \<Rightarrow> string \<Rightarrow> bilateral_sig option"
    and verify :: verify_fn
    and orgs :: "string set"
  assumes can_sign: "x \<in> orgs \<Longrightarrow> sign x p \<noteq> None"
    and signed: "sign x p = Some s \<Longrightarrow> verify x p s"
begin

lemma signature:
  assumes "x \<in> orgs"
  obtains s where "verify x p s"
  using can_sign [OF assms] signed by blast

lemma respond_possible:
  assumes "bl_verify env = verify" "rs hid = Some r" "br_state r = REQUESTED" "br_request_sig r = Some q"
    "br_responder_org r = Some b" "b \<in> orgs"
  obtains s where "respond env rs hid s = Inr (r\<lparr>br_action_sig := Some s, br_state := ACTED\<rparr>,
      rs(hid \<mapsto> r\<lparr>br_action_sig := Some s, br_state := ACTED\<rparr>))"
proof -
  obtain s where "verify b (action_payload env hid b (sig_digest env q)) s" by (rule signature [OF assms(6)])
  then show thesis
    using assms by (intro that [of s]) (simp add: respond_def find_record_def check_sig_def ensure_def Let_def)
qed

lemma requester_confirm_possible:
  assumes "bl_verify env = verify" "rs hid = Some r" "br_state r = ACTED" "br_request_sig r = Some q"
    "br_action_sig r = Some a" "br_requester_org r \<in> orgs"
  obtains s u where "confirm env rs hid (br_requester_org r) s = Inr (u, rs(hid \<mapsto> u))"
    "u = close_if (br_responder_confirm r \<noteq> None) (r\<lparr>br_requester_confirm := Some s\<rparr>)"
proof -
  obtain s where "verify (br_requester_org r) (confirm_payload env hid (br_requester_org r) (sig_digest env a)) s"
    by (rule signature [OF assms(6)])
  then show thesis
    using assms by (intro that [of s]) (simp_all add: confirm_def find_record_def check_sig_def ensure_def Let_def)
qed

lemma responder_confirm_possible:
  assumes "bl_verify env = verify" "rs hid = Some r" "br_state r = ACTED" "br_request_sig r = Some q"
    "br_action_sig r = Some a" "br_responder_org r = Some b" "b \<noteq> br_requester_org r" "b \<in> orgs"
  obtains s u where "confirm env rs hid b s = Inr (u, rs(hid \<mapsto> u))"
    "u = close_if (br_requester_confirm r \<noteq> None) (r\<lparr>br_responder_confirm := Some s\<rparr>)"
proof -
  obtain s where "verify b (confirm_payload env hid b (sig_digest env q)) s"
    by (rule signature [OF assms(8)])
  then show thesis
    using assms by (intro that [of s]) (simp_all add: confirm_def find_record_def check_sig_def ensure_def Let_def)
qed

text \<open>An acted handshake completes, the parties confirming in either order.\<close>

lemma acted_completes:
  assumes env: "bl_verify env = verify" and r: "rs hid = Some r" "br_state r = ACTED" and wf: "wf_record env r"
    and parties: "br_responder_org r = Some b" "b \<noteq> br_requester_org r" "br_requester_org r \<in> orgs" "b \<in> orgs"
  shows "\<exists>rs' u. bsteps env rs rs' \<and> rs' hid = Some u \<and> br_state u = BILATERAL"
proof -
  obtain q a where qa: "br_request_sig r = Some q" "br_action_sig r = Some a"
    using wf r by (auto simp: wf_record_def answered_def)
  obtain s u where c1: "confirm env rs hid (br_requester_org r) s = Inr (u, rs(hid \<mapsto> u))"
    "u = close_if (br_responder_confirm r \<noteq> None) (r\<lparr>br_requester_confirm := Some s\<rparr>)"
    by (rule requester_confirm_possible [where rs = rs and hid = hid, OF env r qa parties(3)])
  note step1 = bstep.Confirm [OF c1(1)]
  show ?thesis
  proof (cases "br_responder_confirm r")
    case None
    let ?rs = "rs(hid \<mapsto> u)"
    have u: "u = r\<lparr>br_requester_confirm := Some s\<rparr>" using c1(2) None by (simp add: close_if_def)
    obtain t v where c2: "confirm env ?rs hid b t = Inr (v, ?rs(hid \<mapsto> v))"
      "v = close_if (br_requester_confirm u \<noteq> None) (u\<lparr>br_responder_confirm := Some t\<rparr>)"
      by (rule responder_confirm_possible [OF env, of ?rs hid u q a b]) (use r qa parties u in simp_all)
    have "bsteps env rs (?rs(hid \<mapsto> v))"
      using step1 bstep.Confirm [OF c2(1)] by (metis converse_rtranclp_into_rtranclp rtranclp.rtrancl_refl)
    moreover have "br_state v = BILATERAL" using c2(2) u by (simp add: close_if_def)
    ultimately show ?thesis by (metis fun_upd_same)
  next
    case (Some d)
    then have "br_state u = BILATERAL" using c1(2) by (simp add: close_if_def)
    then show ?thesis using step1 by (metis fun_upd_same r_into_rtranclp)
  qed
qed

lemma live_completes:
  assumes env: "bl_verify env = verify" and reach: "bsteps env Map.empty rs" and r: "rs hid = Some r"
    and live: "\<not> terminal (br_state r)"
    and parties: "br_responder_org r = Some b" "b \<noteq> br_requester_org r" "br_requester_org r \<in> orgs" "b \<in> orgs"
  shows "\<exists>rs' u. bsteps env rs rs' \<and> rs' hid = Some u \<and> br_state u = BILATERAL"
proof -
  note wf = handshakes_inv_reachable [OF reach r]
  consider (acted) "br_state r = ACTED" | (requested) "br_state r = REQUESTED"
    using live by (cases "br_state r") (auto simp: terminal_def)
  then show ?thesis
  proof cases
    case acted
    then show ?thesis using acted_completes [where rs = rs and hid = hid, OF env r acted wf(2) parties] by blast
  next
    case requested
    obtain q where q: "br_request_sig r = Some q" using wf(2) by (auto simp: wf_record_def)
    obtain s where s: "respond env rs hid s = Inr (r\<lparr>br_action_sig := Some s, br_state := ACTED\<rparr>,
        rs(hid \<mapsto> r\<lparr>br_action_sig := Some s, br_state := ACTED\<rparr>))"
      by (rule respond_possible [where rs = rs and hid = hid, OF env r requested q parties(1,4)])
    let ?u = "r\<lparr>br_action_sig := Some s, br_state := ACTED\<rparr>"
    let ?rs = "rs(hid \<mapsto> ?u)"
    note step = bstep.Respond [OF s]
    have "wf_record env ?u"
      using handshakes_inv_reachable(2) [of env ?rs hid ?u] reach step by (simp add: rtranclp.rtrancl_into_rtrancl)
    then have "\<exists>rs' u. bsteps env ?rs rs' \<and> rs' hid = Some u \<and> br_state u = BILATERAL"
      using parties by (intro acted_completes [OF env, of ?rs hid ?u b]) simp_all
    then show ?thesis using step by (metis converse_rtranclp_into_rtranclp)
  qed
qed

end

interpretation demo: signature_scheme "dict_signer hmac keys" "dict_verifier hmac keys" "dom keys" for hmac keys
  by unfold_locales (auto simp: dict_signer_def dict_verifier_def)

interpretation no_op: signature_scheme "\<lambda>x p. Some s" no_op_verifier UNIV for s
  by unfold_locales (auto simp: no_op_verifier_def)

section \<open>Properties\<close>

text \<open>C27: a handshake that reached BILATERAL, by whatever calls, holds four signatures that verified: the requester's
  over the request, the responder's over the digest of the requester's, and the confirmation of each over the other's
  attestation.  The two parties are different organisations, so an organisation never completes a handshake with itself.\<close>

theorem bilateral_is_mutual:
  assumes "bsteps env Map.empty rs" "get_handshake rs hid = Some r" "br_state r = BILATERAL"
  shows "\<exists>b q a c d. br_responder_org r = Some b \<and> b \<noteq> br_requester_org r \<and>
    br_request_sig r = Some q \<and> br_action_sig r = Some a \<and> br_requester_confirm r = Some c \<and> br_responder_confirm r = Some d \<and>
    bl_verify env (br_requester_org r) (request_payload env (br_requester_org r) (Some b) (br_action_digest r)) q \<and>
    bl_verify env b (action_payload env hid b (sig_digest env q)) a \<and>
    bl_verify env (br_requester_org r) (confirm_payload env hid (br_requester_org r) (sig_digest env a)) c \<and>
    bl_verify env b (confirm_payload env hid b (sig_digest env q)) d"
proof -
  have "rs hid = Some r" using assms by (simp add: get_handshake_def)
  from handshakes_inv_reachable [OF assms(1) this] assms(3) show ?thesis
    by (auto simp: wf_record_def request_ok_def answered_def)
qed

text \<open>Whatever calls follow, a recorded handshake keeps its parties, its action, its request signature and, once
  given, its action signature; a handshake that is one-sided, refused or bilateral does not change at all.\<close>

theorem handshake_is_final:
  assumes "bsteps env Map.empty rs" "bsteps env rs rs'" "rs hid = Some r"
  shows "\<exists>u. rs' hid = Some u \<and> same_deal r u \<and> (terminal (br_state r) \<longrightarrow> u = r)"
proof -
  have "handshakes_inv env rs" by (rule handshakes_inv_steps [OF assms(1)]) (simp add: handshakes_inv_def)
  from kept_steps [OF assms(2) this assms(3)] show ?thesis by (simp add: kept_def)
qed

text \<open>With the module's HMAC scheme, a handshake between two organisations that both hold keys is never stuck: from
  every reachable state where it is requested or acted, calls that succeed take it to BILATERAL.\<close>

theorem live_handshake_can_complete:
  assumes "bl_verify env = dict_verifier hmac keys" "bsteps env Map.empty rs" "rs hid = Some r"
    "br_state r = REQUESTED \<or> br_state r = ACTED" "br_responder_org r = Some b" "b \<noteq> br_requester_org r"
    "br_requester_org r \<in> dom keys" "b \<in> dom keys"
  shows "\<exists>rs' u. bsteps env rs rs' \<and> rs' hid = Some u \<and> br_state u = BILATERAL"
  by (rule demo.live_completes [OF assms(1-3) _ assms(5-8)]) (use assms(4) in \<open>auto simp: terminal_def\<close>)

text \<open>Two signatures have the same digest text only if they agree, when no field before the last contains a colon.\<close>

lemma colon_split:
  assumes "x @ c # y = x' @ c # y'" "c \<notin> set x" "c \<notin> set x'"
  shows "x = x' \<and> y = y'"
  using assms
proof (induction x arbitrary: x')
  case Nil
  then show ?case by (cases x') auto
next
  case (Cons a x)
  then show ?case by (cases x') auto
qed

lemma sig_text_inj:
  assumes "sig_text s = sig_text t" "CHR '':'' \<notin> set (bs_alg s)" "CHR '':'' \<notin> set (bs_alg t)"
    "CHR '':'' \<notin> set (bs_key_id s)" "CHR '':'' \<notin> set (bs_key_id t)"
  shows "s = t"
proof -
  have "bs_alg s = bs_alg t \<and> bs_key_id s @ CHR '':'' # bs_signature s = bs_key_id t @ CHR '':'' # bs_signature t"
    using assms(1-3) by (intro colon_split [of _ "CHR '':''"]) (simp_all add: sig_text_def)
  moreover from this have "bs_key_id s = bs_key_id t \<and> bs_signature s = bs_signature t"
    using assms(4,5) by (intro colon_split [of _ "CHR '':''"]) simp_all
  ultimately show ?thesis by simp
qed

lemma sig_text_ambiguous:
  "sig_text \<lparr>bs_alg = ''a'', bs_key_id = ''b:c'', bs_signature = ''d''\<rparr> =
   sig_text \<lparr>bs_alg = ''a'', bs_key_id = ''b'', bs_signature = ''c:d''\<rparr>"
  by (simp add: sig_text_def)


section \<open>A handshake that completes\<close>

definition deal_keys :: "string \<rightharpoonup> string" where
  "deal_keys = [''a'' \<mapsto> ''k'', ''b'' \<mapsto> ''l'']"

definition deal_hmac :: "string \<Rightarrow> string \<Rightarrow> string" where
  "deal_hmac key payload = key @ payload"

definition deal_env :: bilateral_env where
  "deal_env = \<lparr>bl_jcs = json_dumps, bl_sha256 = (\<lambda>x. x), bl_verify = dict_verifier deal_hmac deal_keys\<rparr>"

definition deal_sign :: "string \<Rightarrow> string \<Rightarrow> bilateral_sig" where
  "deal_sign x p = the (dict_signer deal_hmac deal_keys x p)"

definition deal_q :: bilateral_sig where
  "deal_q = deal_sign ''a'' (request_payload deal_env ''a'' (Some ''b'') ''d'')"

definition deal_a :: bilateral_sig where
  "deal_a = deal_sign ''b'' (action_payload deal_env ''h'' ''b'' (sig_digest deal_env deal_q))"

definition deal_c :: bilateral_sig where
  "deal_c = deal_sign ''a'' (confirm_payload deal_env ''h'' ''a'' (sig_digest deal_env deal_a))"

definition deal_d :: bilateral_sig where
  "deal_d = deal_sign ''b'' (confirm_payload deal_env ''h'' ''b'' (sig_digest deal_env deal_q))"

definition deal_record ::
    "bilateral_state \<Rightarrow> bilateral_sig option \<Rightarrow> bilateral_sig option \<Rightarrow> bilateral_sig option \<Rightarrow> bilateral_record" where
  "deal_record st a c d = \<lparr>br_handshake_id = ''h'', br_requester_org = ''a'', br_responder_org = Some ''b'',
     br_action_digest = ''d'', br_state = st, br_request_sig = Some deal_q, br_action_sig = a,
     br_requester_confirm = c, br_responder_confirm = d\<rparr>"

abbreviation deal_at where
  "deal_at st a c d \<equiv> [''h'' \<mapsto> deal_record st a c d]"

lemma deal_verify [simp]:
  "bl_verify deal_env ''a'' p (deal_sign ''a'' p)" "bl_verify deal_env ''b'' p (deal_sign ''b'' p)"
  by (simp_all add: deal_env_def deal_sign_def dict_signer_def dict_verifier_def deal_keys_def)

lemmas deal_defs = check_sig_def ensure_def Let_def deal_record_def find_record_def close_if_def

lemma deal_open: "bstep deal_env Map.empty (deal_at REQUESTED None None None)"
  by (rule bstep.Open [of _ "''h''" _ "''a''" "Some ''b''" "''d''" deal_q "deal_record REQUESTED None None None"])
    (simp_all add: open_handshake_def deal_defs deal_q_def)

lemma deal_respond: "bstep deal_env (deal_at REQUESTED None None None) (deal_at ACTED (Some deal_a) None None)"
  by (rule bstep.Respond [of _ _ "''h''" deal_a "deal_record ACTED (Some deal_a) None None"])
    (simp add: respond_def deal_defs deal_a_def)

lemma deal_confirm1: "bstep deal_env (deal_at ACTED (Some deal_a) None None) (deal_at ACTED (Some deal_a) None (Some deal_d))"
  by (rule bstep.Confirm [of _ _ "''h''" "''b''" deal_d "deal_record ACTED (Some deal_a) None (Some deal_d)"])
    (simp add: confirm_def deal_defs deal_d_def)

lemma deal_confirm2:
  "bstep deal_env (deal_at ACTED (Some deal_a) None (Some deal_d)) (deal_at BILATERAL (Some deal_a) (Some deal_c) (Some deal_d))"
  by (rule bstep.Confirm [of _ _ "''h''" "''a''" deal_c "deal_record BILATERAL (Some deal_a) (Some deal_c) (Some deal_d)"])
    (simp add: confirm_def deal_defs deal_c_def)

lemma deal_live: "bsteps deal_env Map.empty (deal_at REQUESTED None None None)"
  using deal_open by blast

lemma deal_done: "bsteps deal_env Map.empty (deal_at BILATERAL (Some deal_a) (Some deal_c) (Some deal_d))"
  by (rule converse_rtranclp_into_rtranclp [of "bstep deal_env", OF deal_open], rule converse_rtranclp_into_rtranclp [of "bstep deal_env", OF deal_respond],
    rule converse_rtranclp_into_rtranclp [of "bstep deal_env", OF deal_confirm1], rule r_into_rtranclp [of "bstep deal_env", OF deal_confirm2])

section \<open>Witnesses\<close>

lemma bilateral_is_mutual_witness:
  "\<exists>b q a c d. b \<noteq> ''a'' \<and> bl_verify deal_env ''a'' (request_payload deal_env ''a'' (Some b) ''d'') q \<and>
     bl_verify deal_env b (action_payload deal_env ''h'' b (sig_digest deal_env q)) a \<and>
     bl_verify deal_env ''a'' (confirm_payload deal_env ''h'' ''a'' (sig_digest deal_env a)) c \<and>
     bl_verify deal_env b (confirm_payload deal_env ''h'' b (sig_digest deal_env q)) d"
proof -
  let ?r = "deal_record BILATERAL (Some deal_a) (Some deal_c) (Some deal_d)"
  have "get_handshake (deal_at BILATERAL (Some deal_a) (Some deal_c) (Some deal_d)) ''h'' = Some ?r"
    "br_state ?r = BILATERAL" "br_requester_org ?r = ''a''" "br_action_digest ?r = ''d''"
    by (simp_all add: get_handshake_def deal_record_def)
  from bilateral_is_mutual [OF deal_done this(1,2)] this(3,4) show ?thesis by auto
qed

lemma handshake_is_final_witness:
  "\<exists>u. deal_at ACTED (Some deal_a) None None ''h'' = Some u \<and> same_deal (deal_record REQUESTED None None None) u"
  using handshake_is_final [OF deal_live r_into_rtranclp [of "bstep deal_env", OF deal_respond], of "''h''"
    "deal_record REQUESTED None None None"] by auto

lemma live_handshake_can_complete_witness:
  "\<exists>rs' u. bsteps deal_env (deal_at REQUESTED None None None) rs' \<and> rs' ''h'' = Some u \<and> br_state u = BILATERAL"
  using live_handshake_can_complete [OF _ deal_live, of deal_hmac deal_keys "''h''" "deal_record REQUESTED None None None" "''b''"]
  by (simp add: deal_record_def deal_env_def deal_keys_def)

end
