(* ===== verification/Witness_Backlog.thy ===== *)
theory Witness_Backlog
  imports Chain_Segment Audit_Log Python_Text "HOL-Library.AList" "HOL-Library.List_Lexorder" "HOL-Library.Char_ord"
begin

text \<open>
  \<open>witness.py\<close>: the configuration of witnesses, the witness state of every checkpoint stamp of a ledger, and the
  drain of the backlog after an outage.  The ledger is the list of its lines (dictionaries); the network is the list
  of the registrations that were sent, and the answer of a witness may depend on all that was sent before.  The
  checkpoint and witness records of \<open>cll\<close>, \<open>binding_of\<close> of \<open>agent_action_capsule\<close> and SHA-256 are fields of
  \<open>witness_env\<close>.
\<close>

section \<open>Configuration\<close>

text \<open>\<open>s.strip().lower()\<close>; the values the code compares with are ASCII, which no other letter is lowered to.\<close>

definition py_strip :: "string \<Rightarrow> string" where
  "py_strip s = concat (rev (dropWhile py_space (rev (dropWhile py_space (code_points s)))))"

definition ascii_lower :: "string \<Rightarrow> string" where
  "ascii_lower s = map (\<lambda>c. if is_upper c then char_of (of_char c + (32 :: nat)) else c) s"

definition OFF_VALUES :: "string list" where
  "OFF_VALUES = [''off'', ''0'', ''false'', ''no'']"

definition STUB_VALUES :: "string list" where
  "STUB_VALUES = [''stub'']"

definition PRODUCTION_ENV_VALUES :: "string list" where
  "PRODUCTION_ENV_VALUES = [''production'']"

datatype wmode = ModeOff | ModeOn | ModeStub

type_synonym environ = "string \<Rightarrow> string option"

definition env_word :: "environ \<Rightarrow> string \<Rightarrow> string" where
  "env_word environ name = ascii_lower (py_strip (case environ name of None \<Rightarrow> [] | Some s \<Rightarrow> s))"

definition witness_mode :: "environ \<Rightarrow> bool option \<Rightarrow> wmode" where
  "witness_mode environ explicit =
     (case explicit of
        Some b \<Rightarrow> if b then ModeOn else ModeOff
      | None \<Rightarrow>
          let raw = env_word environ ''CAPSULE_WITNESS'' in
          if raw \<in> set OFF_VALUES then ModeOff
          else if raw \<in> set STUB_VALUES then ModeStub
          else ModeOn)"

definition witness_enabled :: "environ \<Rightarrow> bool option \<Rightarrow> bool" where
  "witness_enabled environ explicit \<longleftrightarrow> witness_mode environ explicit \<noteq> ModeOff"

datatype witness_exn =
    StubWitnessInProductionError
  | WitnessRequiredError
  | WKeyError
  | WTypeError
  | BadRecord

definition refuse_stub_in_production :: "environ \<Rightarrow> bool option \<Rightarrow> witness_exn + unit" where
  "refuse_stub_in_production environ explicit =
     (if witness_mode environ explicit \<noteq> ModeStub then Inr ()
      else ensure (env_word environ ''CAPSULE_ENV'' \<notin> set PRODUCTION_ENV_VALUES) StubWitnessInProductionError)"

definition DEFAULT_CADENCE_ENTRIES :: int where
  "DEFAULT_CADENCE_ENTRIES = 100"

definition DEFAULT_CADENCE_SECONDS :: int where
  "DEFAULT_CADENCE_SECONDS = 900"

text \<open>\<open>parse\<close> is \<open>int\<close> or \<open>float\<close> of a string, \<open>None\<close> its \<open>ValueError\<close>; seconds are counted in whole ticks.\<close>

definition resolved_cadence :: "(string \<Rightarrow> int option) \<Rightarrow> environ \<Rightarrow> int option \<Rightarrow> int" where
  "resolved_cadence parse environ override =
     (case override of
        Some n \<Rightarrow> n
      | None \<Rightarrow>
          (case environ ''CAPSULE_WITNESS_CADENCE_ENTRIES'' of
             None \<Rightarrow> DEFAULT_CADENCE_ENTRIES
           | Some raw \<Rightarrow>
               (case parse raw of
                  None \<Rightarrow> DEFAULT_CADENCE_ENTRIES
                | Some n \<Rightarrow> if 0 < n then n else DEFAULT_CADENCE_ENTRIES)))"

definition resolved_age_cadence :: "(string \<Rightarrow> int option) \<Rightarrow> environ \<Rightarrow> int option \<Rightarrow> int" where
  "resolved_age_cadence parse environ override =
     (case override of
        Some n \<Rightarrow> n
      | None \<Rightarrow>
          (case environ ''CAPSULE_WITNESS_CADENCE_SECONDS'' of
             None \<Rightarrow> DEFAULT_CADENCE_SECONDS
           | Some raw \<Rightarrow>
               (case parse raw of
                  None \<Rightarrow> DEFAULT_CADENCE_SECONDS
                | Some n \<Rightarrow> if 0 < n then n else DEFAULT_CADENCE_SECONDS)))"

datatype url_arg = UrlText string | UrlList "string list"

fun split_commas :: "string \<Rightarrow> string list" where
  "split_commas [] = [[]]"
| "split_commas (c # s) =
     (if c = CHR '','' then [] # split_commas s
      else (case split_commas s of [] \<Rightarrow> [[c]] | w # ws \<Rightarrow> (c # w) # ws))"

fun collect_urls :: "string list \<Rightarrow> string list \<Rightarrow> string list" where
  "collect_urls [] urls = urls"
| "collect_urls (candidate # cs) urls =
     (let url = py_strip candidate in
      collect_urls cs (if url \<noteq> [] \<and> url \<notin> set urls then urls @ [url] else urls))"

definition parse_witness_urls :: "url_arg option \<Rightarrow> string list" where
  "parse_witness_urls raw =
     (case raw of
        None \<Rightarrow> []
      | Some (UrlText s) \<Rightarrow> collect_urls (split_commas s) []
      | Some (UrlList l) \<Rightarrow> collect_urls l [])"

definition resolved_witness_urls :: "environ \<Rightarrow> url_arg option \<Rightarrow> string list" where
  "resolved_witness_urls environ ts_url =
     (case ts_url of
        None \<Rightarrow> parse_witness_urls (map_option UrlText (environ ''CAPSULE_WITNESS_URL''))
      | Some _ \<Rightarrow> parse_witness_urls ts_url)"

section \<open>Records of \<open>cll\<close>, and the world\<close>

record witness_rec =
  wr_ts_url :: string
  wr_is_stub :: bool
  wr_rest :: json

record wcheckpoint =
  cp_log_id :: string
  cp_mmr_size :: int
  cp_root :: string
  cp_witnesses :: "witness_rec list"
  cp_rest :: json

datatype binding = BINDING_CLL | BINDING_REKOR | BINDING_SCRAPI

text \<open>A registration that is sent: what goes out, to whom, by which route.\<close>

record wcall =
  wc_binding :: binding
  wc_url :: string
  wc_cose :: string
  wc_entry_hash :: "string option"

text \<open>What the code reads of an exception: \<open>last_accepted_mmr_size\<close> and \<open>last_accepted_root\<close>.\<close>

record reg_failure =
  rf_size :: "int option"
  rf_root :: "string option"

datatype stamp_verdict_kind = WITNESSED | UNVERIFIED | OtherVerdict

record witness_env =
  we_environ :: environ
  we_checkpoint_of :: "json \<Rightarrow> witness_exn + wcheckpoint"
  we_checkpoint_dict :: "wcheckpoint \<Rightarrow> json"
  we_witness_of :: "json \<Rightarrow> witness_exn + witness_rec"
  we_witness_dict :: "witness_rec \<Rightarrow> json"
  we_entry_digest :: "wcheckpoint \<Rightarrow> string"
  we_digest :: "wcheckpoint \<Rightarrow> string"
  we_sha256 :: "string \<Rightarrow> string"
  we_binding_of :: "string \<Rightarrow> binding"
  we_register :: "wcall list \<Rightarrow> wcall \<Rightarrow> reg_failure + witness_rec"
  we_write_ok :: "dict list \<Rightarrow> dict \<Rightarrow> bool"
  we_tristate :: "wcheckpoint \<Rightarrow> witness_rec \<Rightarrow> string option \<Rightarrow> stamp_verdict_kind"

record wworld =
  w_lines :: "dict list"
  w_calls :: "wcall list"

section \<open>Ledger lines\<close>

definition CHECKPOINT_STAMP_KIND :: string where
  "CHECKPOINT_STAMP_KIND = ''checkpoint_stamp''"

definition WITNESS_BACKFILL_KIND :: string where
  "WITNESS_BACKFILL_KIND = ''checkpoint_witness_backfill''"

definition line_id :: "dict \<Rightarrow> json" where
  "line_id e = dget e ''capsule_id''"

definition line_id_ok :: "dict \<Rightarrow> bool" where
  "line_id_ok e = (case line_id e of JStr i \<Rightarrow> hex_string 64 i | _ \<Rightarrow> False)"

text \<open>\<open>append_to_ledger\<close> of a bookkeeping line; every failure is an \<open>OSError\<close>.\<close>

datatype ledger_error = LedgerWriteFailed | LedgerConflict

definition append_entry :: "witness_env \<Rightarrow> dict \<Rightarrow> dict list \<Rightarrow> ledger_error + dict list" where
  "append_entry env e L =
     (if \<not> line_id_ok e \<or> \<not> we_write_ok env L e then Inl LedgerWriteFailed
      else (case find (\<lambda>r. line_id r = line_id e) L of
              Some r \<Rightarrow> if r = e then Inr L else Inl LedgerConflict
            | None \<Rightarrow> Inr (L @ [e])))"

interpretation stamp_log: audit_log append_entry line_id
proof
  fix env r L L'
  assume ok: "append_entry env r L = Inr L'"
  show "L' = L @ [r] \<or> (L' = L \<and> r \<in> set L)"
    using ok by (auto simp: append_entry_def dest: find_SomeD split: option.splits if_splits)
  show "line_id r \<notin> line_id ` set L" if "r \<notin> set L"
    using ok that by (force simp: append_entry_def find_None_iff' dest: find_SomeD split: option.splits if_splits)
  show "L' = L" if "r \<in> set L"
    using ok that by (auto simp: append_entry_def find_None_iff' split: option.splits if_splits)
qed

section \<open>The witness state of every checkpoint stamp\<close>

record stamp_state =
  st_digest :: json
  st_checkpoint :: wcheckpoint
  st_witnesses :: "(string \<times> witness_rec) list"
  st_cose :: json

text \<open>The dictionaries of the scan; \<open>AList.update\<close> is the assignment to a key of a \<open>dict\<close>.  The back fills of a digest
  are kept as the list of their assignments.\<close>

record stamp_scan =
  sc_checkpoints :: "(json \<times> wcheckpoint) list"
  sc_cose :: "(json \<times> json) list"
  sc_order :: "json list"
  sc_backfills :: "(json \<times> witness_rec) list"

definition line_item :: "dict \<Rightarrow> string \<Rightarrow> witness_exn + json" where
  "line_item e k = (if dhas e k then Inr (dget e k) else Inl WKeyError)"

definition hashable :: "json \<Rightarrow> witness_exn + unit" where
  "hashable v = (case v of JArr _ \<Rightarrow> Inl WTypeError | JObj _ \<Rightarrow> Inl WTypeError | _ \<Rightarrow> Inr ())"

definition scan_line :: "witness_env \<Rightarrow> stamp_scan \<Rightarrow> dict \<Rightarrow> witness_exn + stamp_scan" where
  "scan_line env sc e =
     (if dget e ''kind'' = JStr CHECKPOINT_STAMP_KIND then
        sbind (line_item e ''capsule_id'') (\<lambda>digest.
        sbind (line_item e ''checkpoint'') (\<lambda>c.
        sbind (we_checkpoint_of env c) (\<lambda>cp.
        sbind (hashable digest) (\<lambda>_.
          Inr (sc\<lparr>sc_checkpoints := AList.update digest cp (sc_checkpoints sc),
                   sc_cose := AList.update digest (dget e ''checkpoint_cose'') (sc_cose sc),
                   sc_order := sc_order sc @ [digest]\<rparr>)))))
      else if dget e ''kind'' = JStr WITNESS_BACKFILL_KIND then
        sbind (line_item e ''witness'') (\<lambda>w.
        sbind (we_witness_of env w) (\<lambda>wr.
        sbind (line_item e ''checkpoint_entry_digest'') (\<lambda>digest.
        sbind (hashable digest) (\<lambda>_.
          Inr (sc\<lparr>sc_backfills := sc_backfills sc @ [(digest, wr)]\<rparr>)))))
      else Inr sc)"

definition put_witness :: "(string \<times> witness_rec) list \<Rightarrow> witness_rec \<Rightarrow> (string \<times> witness_rec) list" where
  "put_witness ws w = AList.update (wr_ts_url w) w ws"

definition backfills_of :: "stamp_scan \<Rightarrow> json \<Rightarrow> witness_rec list" where
  "backfills_of sc digest = map snd (filter (\<lambda>(d, _). d = digest) (sc_backfills sc))"

definition state_of :: "stamp_scan \<Rightarrow> json \<Rightarrow> stamp_state list" where
  "state_of sc digest =
     (case map_of (sc_checkpoints sc) digest of
        None \<Rightarrow> []
      | Some cp \<Rightarrow>
          [\<lparr>st_digest = digest, st_checkpoint = cp,
            st_witnesses = foldl put_witness (foldl put_witness [] (cp_witnesses cp)) (backfills_of sc digest),
            st_cose = (case map_of (sc_cose sc) digest of None \<Rightarrow> JNull | Some c \<Rightarrow> c)\<rparr>])"

definition empty_scan :: stamp_scan where
  "empty_scan = \<lparr>sc_checkpoints = [], sc_cose = [], sc_order = [], sc_backfills = []\<rparr>"

definition scan_states :: "stamp_scan \<Rightarrow> stamp_state list" where
  "scan_states sc = concat (map (state_of sc) (sc_order sc))"

definition checkpoint_witness_states :: "witness_env \<Rightarrow> dict list \<Rightarrow> witness_exn + stamp_state list" where
  "checkpoint_witness_states env L =
     sbind (foldM_r (scan_line env) empty_scan L) (\<lambda>sc. Inr (scan_states sc))"

definition confirmed :: "string \<Rightarrow> stamp_state \<Rightarrow> bool" where
  "confirmed url s \<longleftrightarrow> url \<in> fst ` set (st_witnesses s)"

definition checkpoint_witness_backlog ::
    "witness_env \<Rightarrow> dict list \<Rightarrow> string list \<Rightarrow> witness_exn + (string \<times> wcheckpoint list) list" where
  "checkpoint_witness_backlog env L urls =
     sbind (checkpoint_witness_states env L) (\<lambda>states.
       Inr (map (\<lambda>url. (url, map st_checkpoint (filter (\<lambda>s. \<not> confirmed url s) states))) urls))"

section \<open>Grades\<close>

definition stamp_verdict ::
    "witness_env \<Rightarrow> wcheckpoint \<Rightarrow> witness_rec \<Rightarrow> string option \<Rightarrow> stamp_verdict_kind" where
  "stamp_verdict env cp w key = we_tristate env cp w key"

datatype wgrade = SelfAttested | Witnessed

definition stamp_grade :: "witness_env \<Rightarrow> string option \<Rightarrow> stamp_state \<Rightarrow> wgrade" where
  "stamp_grade env key s =
     (if list_ex (\<lambda>(_, w). \<not> wr_is_stub w \<and> stamp_verdict env (st_checkpoint s) w key = WITNESSED) (st_witnesses s)
      then Witnessed else SelfAttested)"

definition RECEIPT_GRADE_ALIASES :: "(string \<times> string) list" where
  "RECEIPT_GRADE_ALIASES =
     [(''observed-only'', ''observed-only''), (''countersigned-observed'', ''observed-only''),
      (''mmr-verified'', ''mmr-verified'')]"

definition normalize_receipt_grade :: "json \<Rightarrow> string option" where
  "normalize_receipt_grade label = (case label of JStr s \<Rightarrow> map_of RECEIPT_GRADE_ALIASES s | _ \<Rightarrow> None)"

section \<open>Draining the backlog\<close>

definition binding_code :: "witness_env \<Rightarrow> wcheckpoint \<Rightarrow> string option" where
  "binding_code env cp = map_option (we_sha256 env) (from_hex (we_digest env cp))"

definition wcall_for :: "witness_env \<Rightarrow> string \<Rightarrow> string \<Rightarrow> wcheckpoint \<Rightarrow> wcall" where
  "wcall_for env cose url cp =
     \<lparr>wc_binding = we_binding_of env url, wc_url = url, wc_cose = cose,
      wc_entry_hash = (if we_binding_of env url = BINDING_CLL then None else binding_code env cp)\<rparr>"

definition no_last_accepted :: reg_failure where
  "no_last_accepted = \<lparr>rf_size = None, rf_root = None\<rparr>"

text \<open>\<open>_register_with\<close>: one registration.  What raises before anything is sent gives no call.\<close>

definition register_with ::
    "witness_env \<Rightarrow> bool \<Rightarrow> string \<Rightarrow> string \<Rightarrow> wcheckpoint \<Rightarrow> wworld \<Rightarrow> (reg_failure + witness_rec) \<times> wworld" where
  "register_with env sign cose url cp w =
     (let b = we_binding_of env url; call = wcall_for env cose url cp in
      if b \<noteq> BINDING_CLL \<and> binding_code env cp = None then (Inl no_last_accepted, w)
      else if b = BINDING_REKOR \<and> \<not> sign then (Inl no_last_accepted, w)
      else (we_register env (w_calls w) call, w\<lparr>w_calls := w_calls w @ [call]\<rparr>))"

text \<open>\<open>json.dumps\<close> with sorted keys; the text is only hashed, so it stands for the escaped text of the same value.\<close>

fun sort_members :: "json \<Rightarrow> json" where
  "sort_members (JArr vs) = JArr (map sort_members vs)"
| "sort_members (JObj d) = JObj (sort_key fst (map (\<lambda>(k, v). (k, sort_members v)) d))"
| "sort_members v = v"

definition backfill_entry :: "witness_env \<Rightarrow> wcheckpoint \<Rightarrow> witness_rec \<Rightarrow> dict" where
  "backfill_entry env cp wr =
     (let body = [(''checkpoint_entry_digest'', JStr (we_entry_digest env cp)), (''witness'', we_witness_dict env wr)]
      in [(''kind'', JStr WITNESS_BACKFILL_KIND), (''v'', JInt 1),
          (''capsule_id'', JStr (we_sha256 env (json_dumps (sort_members (JObj body)))))] @ body)"

definition persist_line :: "witness_env \<Rightarrow> dict \<Rightarrow> wworld \<Rightarrow> wworld" where
  "persist_line env e w =
     (case append_entry env e (w_lines w) of Inl _ \<Rightarrow> w | Inr L \<Rightarrow> w\<lparr>w_lines := L\<rparr>)"

definition persist_witness_backfill :: "witness_env \<Rightarrow> wcheckpoint \<Rightarrow> witness_rec \<Rightarrow> wworld \<Rightarrow> wworld" where
  "persist_witness_backfill env cp wr w = persist_line env (backfill_entry env cp wr) w"

text \<open>A refusal from a witness that is ahead of this checkpoint on the same chain.\<close>

definition witness_ahead :: "stamp_state list \<Rightarrow> stamp_state \<Rightarrow> reg_failure \<Rightarrow> bool" where
  "witness_ahead states s f \<longleftrightarrow>
     (case rf_size f of
        None \<Rightarrow> False
      | Some k \<Rightarrow>
          cp_mmr_size (st_checkpoint s) \<le> k \<and>
          list_ex (\<lambda>t. cp_mmr_size (st_checkpoint t) = k \<and> Some (cp_root (st_checkpoint t)) = rf_root f) states)"

definition cose_bytes :: "stamp_state \<Rightarrow> string option" where
  "cose_bytes s = (case st_cose s of JStr h \<Rightarrow> from_hex h | _ \<Rightarrow> None)"

fun drain_witness ::
    "witness_env \<Rightarrow> bool \<Rightarrow> stamp_state list \<Rightarrow> string \<Rightarrow> stamp_state list \<Rightarrow> nat \<times> wworld \<Rightarrow> nat \<times> wworld" where
  "drain_witness env sign states url [] (n, w) = (n, w)"
| "drain_witness env sign states url (s # ss) (n, w) =
     (if confirmed url s \<or> st_cose s = JNull then drain_witness env sign states url ss (n, w)
      else (case cose_bytes s of
              None \<Rightarrow> (n, w)
            | Some cose \<Rightarrow>
                (case register_with env sign cose url (st_checkpoint s) w of
                   (Inl f, w') \<Rightarrow>
                     if witness_ahead states s f then drain_witness env sign states url ss (n, w') else (n, w')
                 | (Inr wr, w') \<Rightarrow>
                     drain_witness env sign states url ss (n + 1, persist_witness_backfill env (st_checkpoint s) wr w'))))"

definition skip_witness :: "witness_env \<Rightarrow> bool \<Rightarrow> string \<Rightarrow> bool" where
  "skip_witness env sign url \<longleftrightarrow> \<not> sign \<and> we_binding_of env url = BINDING_REKOR"

fun drain_all ::
    "witness_env \<Rightarrow> bool \<Rightarrow> stamp_state list \<Rightarrow> string list \<Rightarrow> wworld \<Rightarrow> (string \<times> nat) list \<times> wworld" where
  "drain_all env sign states [] w = ([], w)"
| "drain_all env sign states (url # urls) w =
     (let (n, w') = (if skip_witness env sign url then (0, w) else drain_witness env sign states url states (0, w));
          (counts, w'') = drain_all env sign states urls w'
      in ((url, n) # counts, w''))"

definition retry_pending_witness_stamps ::
    "witness_env \<Rightarrow> url_arg option \<Rightarrow> bool option \<Rightarrow> bool \<Rightarrow> wworld \<Rightarrow> witness_exn + ((string \<times> nat) list \<times> wworld)" where
  "retry_pending_witness_stamps env ts_url enabled sign w =
     (if \<not> witness_enabled (we_environ env) enabled then Inr ([], w)
      else sbind (checkpoint_witness_states env (w_lines w)) (\<lambda>states.
        Inr (drain_all env sign states (resolved_witness_urls (we_environ env) ts_url) w)))"

section \<open>What a back fill adds\<close>

definition fill :: "(json \<times> witness_rec) list \<Rightarrow> stamp_state \<Rightarrow> stamp_state" where
  "fill fs s = s\<lparr>st_witnesses := foldl put_witness (st_witnesses s) (map snd (filter (\<lambda>(d, _). d = st_digest s) fs))\<rparr>"

lemma fill_Nil [simp]: "fill [] s = s"
  by (simp add: fill_def)

lemma fill_keeps [simp]:
  "st_digest (fill fs s) = st_digest s" "st_checkpoint (fill fs s) = st_checkpoint s" "st_cose (fill fs s) = st_cose s"
  by (simp_all add: fill_def)

lemma state_of_backfills:
  "state_of (sc\<lparr>sc_backfills := sc_backfills sc @ fs\<rparr>) = (\<lambda>d. map (fill fs) (state_of sc d))"
  by (rule ext) (simp add: state_of_def backfills_of_def fill_def split: option.splits)

lemma scan_states_backfills:
  "scan_states (sc\<lparr>sc_backfills := sc_backfills sc @ fs\<rparr>) = map (fill fs) (scan_states sc)"
  by (simp add: scan_states_def state_of_backfills map_concat comp_def)

text \<open>The law of \<open>cll\<close> that a witness record survives its dictionary.\<close>

definition witness_dict_ok :: "witness_env \<Rightarrow> bool" where
  "witness_dict_ok env \<longleftrightarrow> (\<forall>wr. we_witness_of env (we_witness_dict env wr) = Inr wr)"

type_synonym fills = "(wcheckpoint \<times> witness_rec) list"

definition fill_lines :: "witness_env \<Rightarrow> fills \<Rightarrow> dict list" where
  "fill_lines env fs = map (\<lambda>(cp, wr). backfill_entry env cp wr) fs"

definition fill_pairs :: "witness_env \<Rightarrow> fills \<Rightarrow> (json \<times> witness_rec) list" where
  "fill_pairs env fs = map (\<lambda>(cp, wr). (JStr (we_entry_digest env cp), wr)) fs"

lemma backfill_entry_get:
  "dget (backfill_entry env cp wr) ''kind'' = JStr WITNESS_BACKFILL_KIND"
  "line_item (backfill_entry env cp wr) ''witness'' = Inr (we_witness_dict env wr)"
  "line_item (backfill_entry env cp wr) ''checkpoint_entry_digest'' = Inr (JStr (we_entry_digest env cp))"
  by (simp_all add: backfill_entry_def line_item_def dhas_def Let_def)

lemma kinds_differ: "WITNESS_BACKFILL_KIND \<noteq> CHECKPOINT_STAMP_KIND"
  by (simp add: WITNESS_BACKFILL_KIND_def CHECKPOINT_STAMP_KIND_def)

lemma scan_backfill:
  assumes "witness_dict_ok env"
  shows "scan_line env sc (backfill_entry env cp wr) =
    Inr (sc\<lparr>sc_backfills := sc_backfills sc @ [(JStr (we_entry_digest env cp), wr)]\<rparr>)"
  using assms kinds_differ by (simp add: scan_line_def backfill_entry_get witness_dict_ok_def hashable_def)

lemma scan_fill_lines:
  assumes "witness_dict_ok env"
  shows "foldM_r (scan_line env) sc (fill_lines env fs) = Inr (sc\<lparr>sc_backfills := sc_backfills sc @ fill_pairs env fs\<rparr>)"
proof (induction fs arbitrary: sc)
  case Nil
  then show ?case by (simp add: fill_lines_def fill_pairs_def)
next
  case (Cons f fs)
  show ?case
    using Cons.IH [of "sc\<lparr>sc_backfills := sc_backfills sc @ [(JStr (we_entry_digest env (fst f)), snd f)]\<rparr>"]
    by (cases f) (simp add: fill_lines_def fill_pairs_def scan_backfill [OF assms])
qed

lemma states_fill:
  assumes "witness_dict_ok env" "checkpoint_witness_states env L = Inr S"
  shows "checkpoint_witness_states env (L @ fill_lines env fs) = Inr (map (fill (fill_pairs env fs)) S)"
  using assms
  by (auto simp: checkpoint_witness_states_def foldM_r_append res_simps scan_fill_lines scan_states_backfills)

lemma keys_put: "fst ` set (put_witness ws w) = insert (wr_ts_url w) (fst ` set ws)"
  by (simp add: put_witness_def dom_update)

lemma keys_foldl_put: "fst ` set (foldl put_witness ws us) = fst ` set ws \<union> wr_ts_url ` set us"
  by (induction us arbitrary: ws) (auto simp: keys_put)

lemma lookup_put: "map_of (put_witness ws w) = (map_of ws)(wr_ts_url w \<mapsto> w)"
  by (simp add: put_witness_def update_conv')

lemma lookup_foldl_put:
  "url \<notin> wr_ts_url ` set us \<Longrightarrow> map_of (foldl put_witness ws us) url = map_of ws url"
  by (induction us arbitrary: ws) (auto simp: lookup_put)

lemma confirmed_fill:
  "confirmed url (fill fs s) \<longleftrightarrow> confirmed url s \<or> (\<exists>wr. (st_digest s, wr) \<in> set fs \<and> wr_ts_url wr = url)"
  by (force simp: confirmed_def fill_def keys_foldl_put)

text \<open>A back fill that the ledger holds confirms its checkpoint.\<close>

lemma scan_line_backfills:
  assumes "scan_line env sc e = Inr sc'"
  shows "\<exists>fs. sc_backfills sc' = sc_backfills sc @ fs"
  using assms by (auto simp: scan_line_def res_simps split: if_splits)

lemma scan_backfill_mem:
  assumes "foldM_r (scan_line env) sc L = Inr sc'" "p \<in> set (sc_backfills sc)"
  shows "p \<in> set (sc_backfills sc')"
  using assms
proof (induction L arbitrary: sc)
  case Nil
  then show ?case by simp
next
  case (Cons e L)
  then obtain t where t: "scan_line env sc e = Inr t" "foldM_r (scan_line env) t L = Inr sc'"
    by (auto simp: res_simps)
  with scan_line_backfills [OF t(1)] Cons.prems(2) show ?case by (intro Cons.IH [OF t(2)]) auto
qed

lemma scan_backfill_line:
  assumes "witness_dict_ok env" "foldM_r (scan_line env) sc L = Inr sc'" "backfill_entry env cp wr \<in> set L"
  shows "(JStr (we_entry_digest env cp), wr) \<in> set (sc_backfills sc')"
proof -
  obtain A B where L: "L = A @ backfill_entry env cp wr # B" using assms(3) by (auto simp: in_set_conv_decomp)
  with assms obtain t where "foldM_r (scan_line env) (t\<lparr>sc_backfills := sc_backfills t @ [(JStr (we_entry_digest env cp), wr)]\<rparr>) B = Inr sc'"
    by (auto simp: foldM_r_append res_simps scan_backfill)
  then show ?thesis by (rule scan_backfill_mem) simp
qed

lemma scan_states_member:
  assumes "s \<in> set (scan_states sc)" "(st_digest s, wr) \<in> set (sc_backfills sc)"
  shows "confirmed (wr_ts_url wr) s"
proof -
  have "wr_ts_url ` set (backfills_of sc (st_digest s)) \<subseteq> fst ` set (st_witnesses s)"
    using assms(1) by (auto simp: scan_states_def state_of_def keys_foldl_put split: option.splits)
  moreover have "wr \<in> set (backfills_of sc (st_digest s))"
    using assms(2) by (force simp: backfills_of_def)
  ultimately show ?thesis by (auto simp: confirmed_def)
qed

lemma backfilled_confirmed:
  assumes "witness_dict_ok env" "checkpoint_witness_states env L = Inr S" "backfill_entry env cp wr \<in> set L"
    "s \<in> set S" "st_digest s = JStr (we_entry_digest env cp)"
  shows "confirmed (wr_ts_url wr) s"
proof -
  obtain sc where sc: "foldM_r (scan_line env) empty_scan L = Inr sc" "S = scan_states sc"
    using assms(2) by (auto simp: checkpoint_witness_states_def res_simps)
  with scan_backfill_line [OF assms(1) sc(1) assms(3)] assms(4,5) show ?thesis
    by (intro scan_states_member [of s sc]) simp_all
qed

section \<open>What a drain sends and writes\<close>

definition pending :: "string \<Rightarrow> stamp_state \<Rightarrow> bool" where
  "pending url s \<longleftrightarrow> \<not> confirmed url s \<and> st_cose s \<noteq> JNull"

definition stamp_call :: "witness_env \<Rightarrow> string \<Rightarrow> stamp_state \<Rightarrow> wcall" where
  "stamp_call env url s = wcall_for env (the (cose_bytes s)) url (st_checkpoint s)"

lemma persist_line_cases:
  "w_calls (persist_line env e w) = w_calls w \<and>
   (w_lines (persist_line env e w) = w_lines w \<or> w_lines (persist_line env e w) = w_lines w @ [e])"
  by (auto simp: persist_line_def dest: stamp_log.app_shape split: sum.splits)

lemma register_with_cases:
  assumes "register_with env sign cose url cp w = (r, w')"
  shows "(w' = w \<and> r = Inl no_last_accepted) \<or>
    (w' = w\<lparr>w_calls := w_calls w @ [wcall_for env cose url cp]\<rparr> \<and>
     r = we_register env (w_calls w) (wcall_for env cose url cp))"
  using assms by (auto simp: register_with_def Let_def split: if_splits)

lemma not_ahead [simp]: "\<not> witness_ahead S s no_last_accepted"
  by (simp add: witness_ahead_def no_last_accepted_def)

text \<open>A witness answers for itself: the record it returns names the URL that was asked.\<close>

definition answers_own :: "witness_env \<Rightarrow> bool" where
  "answers_own env \<longleftrightarrow> (\<forall>calls c wr. we_register env calls c = Inr wr \<longrightarrow> wr_ts_url wr = wc_url c)"

definition drain_fill :: "witness_env \<Rightarrow> string \<Rightarrow> stamp_state list \<Rightarrow> wcheckpoint \<times> witness_rec \<Rightarrow> bool" where
  "drain_fill env url ss = (\<lambda>(cp, wr). (\<exists>s \<in> set ss. pending url s \<and> st_checkpoint s = cp) \<and>
     (\<exists>calls c. we_register env calls c = Inr wr \<and> wc_url c = url))"

lemma fill_lines_append: "fill_lines env (fs @ gs) = fill_lines env fs @ fill_lines env gs"
  by (simp add: fill_lines_def)

text \<open>What a drain of one witness over the stamps \<open>ss\<close> does, as a relation of the worlds before and after.\<close>

definition drained :: "witness_env \<Rightarrow> string \<Rightarrow> stamp_state list \<Rightarrow> wworld \<Rightarrow> wworld \<Rightarrow> bool" where
  "drained env url ss w w' \<longleftrightarrow>
     (\<exists>fs calls. w_lines w' = w_lines w @ fill_lines env fs \<and> list_all (drain_fill env url ss) fs \<and>
       w_calls w' = w_calls w @ calls \<and> prefix calls (map (stamp_call env url) (filter (pending url) ss)))"

lemma drained_refl: "drained env url ss w w"
  unfolding drained_def by (rule exI [of _ "[]"], rule exI [of _ "[]"]) (simp add: fill_lines_def)

lemma drained_skip: "\<not> pending url s \<Longrightarrow> drained env url ss w w' \<Longrightarrow> drained env url (s # ss) w w'"
  by (fastforce simp: drained_def drain_fill_def list_all_iff)

lemma drained_step:
  assumes "pending url s" "w1 = w\<lparr>w_calls := w_calls w @ [stamp_call env url s]\<rparr>"
    "w_calls w2 = w_calls w1" "w_lines w2 = w_lines w1 @ fill_lines env fs" "list_all (drain_fill env url [s]) fs"
    "drained env url ss w2 w'"
  shows "drained env url (s # ss) w w'"
proof -
  obtain gs calls where g: "w_lines w' = w_lines w2 @ fill_lines env gs" "list_all (drain_fill env url ss) gs"
    "w_calls w' = w_calls w2 @ calls" "prefix calls (map (stamp_call env url) (filter (pending url) ss))"
    using assms(6) by (auto simp: drained_def)
  show ?thesis
    unfolding drained_def
    by (rule exI [of _ "fs @ gs"], rule exI [of _ "stamp_call env url s # calls"])
      (use assms g in \<open>auto simp: fill_lines_append list_all_iff drain_fill_def\<close>)
qed

lemma drain_witness_drained: "drained env url ss w (snd (drain_witness env sign S url ss (n, w)))"
proof (induction ss arbitrary: n w)
  case Nil
  then show ?case by (simp add: drained_refl)
next
  case (Cons s ss)
  show ?case
  proof (cases "pending url s")
    case False
    then show ?thesis using Cons.IH [of w n] by (auto simp: pending_def intro: drained_skip)
  next
    case p: True
    show ?thesis
    proof (cases "cose_bytes s")
      case None
      then show ?thesis using p by (simp add: pending_def drained_refl)
    next
      case (Some cose)
      have call: "stamp_call env url s = wcall_for env cose url (st_checkpoint s)"
        using Some by (simp add: stamp_call_def)
      obtain r w1 where r: "register_with env sign cose url (st_checkpoint s) w = (r, w1)" by fastforce
      note step = drained_step [OF p, of w1 w env]
      from register_with_cases [OF r] show ?thesis
      proof (elim disjE conjE)
        assume "w1 = w" "r = Inl no_last_accepted"
        then show ?thesis using p Some r by (simp add: pending_def drained_refl)
      next
        assume w1: "w1 = w\<lparr>w_calls := w_calls w @ [wcall_for env cose url (st_checkpoint s)]\<rparr>"
          and ans: "r = we_register env (w_calls w) (wcall_for env cose url (st_checkpoint s))"
        show ?thesis
        proof (cases r)
          case (Inl f)
          have "drained env url (s # ss) w w'" if "drained env url ss w1 w'" for w'
            by (rule step [of w1 "[]"]) (use w1 call that in \<open>simp_all add: fill_lines_def\<close>)
          then show ?thesis using p Some r Inl Cons.IH [of w1 n] by (simp add: pending_def drained_refl)
        next
          case (Inr wr)
          let ?w2 = "persist_witness_backfill env (st_checkpoint s) wr w1"
          have "list_all (drain_fill env url [s]) [(st_checkpoint s, wr)]"
            using p ans Inr by (auto simp: drain_fill_def wcall_for_def intro!: exI)
          then have "\<exists>fs. w_calls ?w2 = w_calls w1 \<and> w_lines ?w2 = w_lines w1 @ fill_lines env fs \<and> list_all (drain_fill env url [s]) fs"
            using persist_line_cases [of env "backfill_entry env (st_checkpoint s) wr" w1]
            by (fastforce simp: persist_witness_backfill_def fill_lines_def intro: exI [of _ "[]"] exI [of _ "[(st_checkpoint s, wr)]"])
          then obtain fs where fs: "w_calls ?w2 = w_calls w1" "w_lines ?w2 = w_lines w1 @ fill_lines env fs"
            "list_all (drain_fill env url [s]) fs" by blast
          have "drained env url (s # ss) w w'" if "drained env url ss ?w2 w'" for w'
            by (rule step [OF _ fs that]) (simp add: w1 call)
          then show ?thesis using p Some r Inr Cons.IH [of ?w2 "n + 1"] by (simp add: pending_def)
        qed
      qed
    qed
  qed
qed

text \<open>The drains of all witnesses: each sends the head of its own backlog, oldest first.\<close>

definition all_drained :: "witness_env \<Rightarrow> stamp_state list \<Rightarrow> string list \<Rightarrow> wworld \<Rightarrow> wworld \<Rightarrow> bool" where
  "all_drained env S urls w w' \<longleftrightarrow>
     (\<exists>fs calls. w_lines w' = w_lines w @ fill_lines env fs \<and>
       list_all (\<lambda>f. \<exists>url \<in> set urls. drain_fill env url S f) fs \<and>
       w_calls w' = w_calls w @ calls \<and> wc_url ` set calls \<subseteq> set urls \<and>
       (\<forall>url. prefix (filter (\<lambda>c. wc_url c = url) calls) (map (stamp_call env url) (filter (pending url) S))))"

lemma calls_url: "prefix calls (map (stamp_call env url) ss) \<Longrightarrow> c \<in> set calls \<Longrightarrow> wc_url c = url"
  by (drule set_mono_prefix) (force simp: stamp_call_def wcall_for_def)

lemma drain_all_drained:
  "distinct urls \<Longrightarrow> all_drained env S urls w (snd (drain_all env sign S urls w))"
proof (induction urls arbitrary: w)
  case Nil
  then show ?case unfolding all_drained_def
    by (intro exI [of _ "[]"]) (simp add: fill_lines_def)
next
  case (Cons url urls)
  define w1 where "w1 = (if skip_witness env sign url then w else snd (drain_witness env sign S url S (0, w)))"
  have out: "snd (drain_all env sign S (url # urls) w) = snd (drain_all env sign S urls w1)"
    by (simp add: w1_def case_prod_beta Let_def)
  have "drained env url S w w1"
    unfolding w1_def using drain_witness_drained drained_refl by simp
  then obtain fs calls where f: "w_lines w1 = w_lines w @ fill_lines env fs" "list_all (drain_fill env url S) fs"
    "w_calls w1 = w_calls w @ calls" "prefix calls (map (stamp_call env url) (filter (pending url) S))"
    by (auto simp: drained_def)
  let ?w' = "snd (drain_all env sign S urls w1)"
  have "all_drained env S urls w1 ?w'" using Cons by simp
  then obtain gs rest where g: "w_lines ?w' = w_lines w1 @ fill_lines env gs"
    "list_all (\<lambda>f. \<exists>url \<in> set urls. drain_fill env url S f) gs" "w_calls ?w' = w_calls w1 @ rest"
    "wc_url ` set rest \<subseteq> set urls"
    "\<And>u. prefix (filter (\<lambda>c. wc_url c = u) rest) (map (stamp_call env u) (filter (pending u) S))"
    by (auto simp: all_drained_def)
  note own = calls_url [OF f(4)]
  have none: "filter (\<lambda>c. wc_url c = url) rest = []" using g(4) Cons.prems by (auto simp: filter_empty_conv)
  have "prefix (filter (\<lambda>c. wc_url c = u) (calls @ rest)) (map (stamp_call env u) (filter (pending u) S))" for u
  proof (cases "u = url")
    case True
    then have "filter (\<lambda>c. wc_url c = u) calls = calls" using own by (simp add: filter_id_conv)
    then show ?thesis using True none f(4) by simp
  next
    case False
    then have "filter (\<lambda>c. wc_url c = u) calls = []" using own by (auto simp: filter_empty_conv)
    then show ?thesis using g(5) by simp
  qed
  moreover have "wc_url ` set (calls @ rest) \<subseteq> set (url # urls)" using own g(4) by auto
  moreover have "list_all (\<lambda>f. \<exists>u \<in> set (url # urls). drain_fill env u S f) (fs @ gs)"
    using f(2) g(2) by (auto simp: list_all_iff)
  ultimately show ?case
    unfolding out all_drained_def using f(1,3) g(1,3)
    by (intro exI [of _ "fs @ gs"] exI [of _ "calls @ rest"]) (simp add: fill_lines_append)
qed

lemma distinct_collect: "distinct urls \<Longrightarrow> distinct (collect_urls cs urls)"
  by (induction cs urls rule: collect_urls.induct) (auto simp: Let_def)

lemma distinct_resolved: "distinct (resolved_witness_urls environ ts_url)"
  by (auto simp: resolved_witness_urls_def parse_witness_urls_def distinct_collect split: option.splits url_arg.splits)

section \<open>A drain that meets a witness that answers\<close>

text \<open>The lines that the drains over \<open>S\<close> can write, next to those of the ledger.\<close>

definition fill_universe :: "witness_env \<Rightarrow> stamp_state list \<Rightarrow> dict list \<Rightarrow> dict set" where
  "fill_universe env S L =
     set L \<union> {backfill_entry env (st_checkpoint s) wr |s wr. s \<in> set S \<and> (\<exists>calls c. we_register env calls c = Inr wr)}"

text \<open>The ledger file takes lines, and no two different lines have the same id.\<close>

definition writes_succeed :: "witness_env \<Rightarrow> stamp_state list \<Rightarrow> dict list \<Rightarrow> bool" where
  "writes_succeed env S L \<longleftrightarrow>
     (\<forall>L e. we_write_ok env L e) \<and> (\<forall>x. hex_string 64 (we_sha256 env x)) \<and> inj_on line_id (fill_universe env S L)"

lemma append_in_universe:
  assumes "we_write_ok env L e" "line_id_ok e" "inj_on line_id U" "set L \<subseteq> U" "e \<in> U"
  shows "append_entry env e L = Inr (if e \<in> set L then L else L @ [e])"
proof (cases "find (\<lambda>r. line_id r = line_id e) L")
  case None
  then have "e \<notin> set L" by (auto simp: find_None_iff')
  then show ?thesis using None assms(1,2) by (simp add: append_entry_def)
next
  case (Some r)
  then have r: "r \<in> set L" "line_id r = line_id e" by (auto dest: find_SomeD)
  then have "r = e" using assms(3-5) by (auto dest: inj_onD)
  then show ?thesis using Some r assms(1,2) by (simp add: append_entry_def)
qed

lemma backfill_id_ok: "\<forall>x. hex_string 64 (we_sha256 env x) \<Longrightarrow> line_id_ok (backfill_entry env cp wr)"
  by (simp add: backfill_entry_def line_id_ok_def line_id_def Let_def)

lemma persist_in_universe:
  assumes "writes_succeed env S L" "set (w_lines w) \<subseteq> fill_universe env S L" "s \<in> set S" "we_register env calls c = Inr wr"
  shows "set (w_lines (persist_witness_backfill env (st_checkpoint s) wr w)) =
    insert (backfill_entry env (st_checkpoint s) wr) (set (w_lines w))"
    "backfill_entry env (st_checkpoint s) wr \<in> fill_universe env S L"
proof -
  let ?e = "backfill_entry env (st_checkpoint s) wr"
  show u: "?e \<in> fill_universe env S L" using assms(3,4) by (auto simp: fill_universe_def)
  have "append_entry env ?e (w_lines w) = Inr (if ?e \<in> set (w_lines w) then w_lines w else w_lines w @ [?e])"
    using assms(1,2) u by (intro append_in_universe [of _ _ _ "fill_universe env S L"])
      (auto simp: writes_succeed_def intro: backfill_id_ok)
  then show "set (w_lines (persist_witness_backfill env (st_checkpoint s) wr w)) = insert ?e (set (w_lines w))"
    by (auto simp: persist_witness_backfill_def persist_line_def)
qed

lemma register_with_Inr:
  assumes "register_with env sign cose url cp w = (Inr wr, w')"
  shows "w_lines w' = w_lines w" "\<exists>calls. we_register env calls (wcall_for env cose url cp) = Inr wr"
  using register_with_cases [OF assms] by (auto simp: no_last_accepted_def intro: sym)

lemma register_with_lines:
  "register_with env sign cose url cp w = (r, w') \<Longrightarrow> w_lines w' = w_lines w"
  using register_with_cases by fastforce

lemma drain_witness_universe:
  assumes "writes_succeed env S L" "set ss \<subseteq> set S" "set (w_lines w) \<subseteq> fill_universe env S L"
  shows "set (w_lines (snd (drain_witness env sign T url ss (n, w)))) \<subseteq> fill_universe env S L"
  using assms(2,3)
proof (induction ss arbitrary: n w)
  case Nil
  then show ?case by simp
next
  case (Cons s ss)
  show ?case
  proof (cases "cose_bytes s")
    case None
    then show ?thesis using Cons by simp
  next
    case (Some cose)
    obtain r w1 where r: "register_with env sign cose url (st_checkpoint s) w = (r, w1)" by fastforce
    have lines: "set (w_lines w1) \<subseteq> fill_universe env S L" using register_with_lines [OF r] Cons.prems by simp
    show ?thesis
    proof (cases r)
      case (Inl f)
      then show ?thesis using Cons lines r Some by simp
    next
      case (Inr wr)
      obtain calls where "we_register env calls (wcall_for env cose url (st_checkpoint s)) = Inr wr"
        using register_with_Inr(2) [OF r [unfolded Inr]] by blast
      from persist_in_universe [OF assms(1) lines _ this]
      have "set (w_lines (persist_witness_backfill env (st_checkpoint s) wr w1)) \<subseteq> fill_universe env S L"
        using Cons.prems(1) lines by simp
      then show ?thesis using Cons lines r Some Inr by simp
    qed
  qed
qed

text \<open>The witness answers every registration of a stamp of \<open>S\<close>, and every stored statement can be sent.\<close>

definition witness_up :: "witness_env \<Rightarrow> string \<Rightarrow> stamp_state list \<Rightarrow> bool" where
  "witness_up env url S \<longleftrightarrow>
     (\<forall>calls c. wc_url c = url \<longrightarrow> \<not> isl (we_register env calls c)) \<and>
     list_all (\<lambda>s. st_cose s = JNull \<or> cose_bytes s \<noteq> None) S \<and>
     (we_binding_of env url = BINDING_CLL \<or> list_all (\<lambda>s. binding_code env (st_checkpoint s) \<noteq> None) S)"

lemma register_up:
  assumes "witness_up env url S" "\<not> skip_witness env sign url" "s \<in> set S"
  obtains wr where "register_with env sign cose url (st_checkpoint s) w =
      (Inr wr, w\<lparr>w_calls := w_calls w @ [wcall_for env cose url (st_checkpoint s)]\<rparr>)"
    "we_register env (w_calls w) (wcall_for env cose url (st_checkpoint s)) = Inr wr"
proof -
  have "\<not> isl (we_register env (w_calls w) (wcall_for env cose url (st_checkpoint s)))"
    using assms(1) by (simp add: witness_up_def wcall_for_def)
  then obtain wr where wr: "we_register env (w_calls w) (wcall_for env cose url (st_checkpoint s)) = Inr wr"
    by (cases "we_register env (w_calls w) (wcall_for env cose url (st_checkpoint s))") auto
  show thesis
    by (rule that [OF _ wr])
      (use assms wr in \<open>auto simp: register_with_def Let_def skip_witness_def witness_up_def list_all_iff\<close>)
qed

lemma drain_witness_up:
  assumes up: "witness_up env url S" "\<not> skip_witness env sign url" and ok: "writes_succeed env S L" "answers_own env"
    and "set ss \<subseteq> set S" "set (w_lines w) \<subseteq> fill_universe env S L"
  shows "set (w_lines w) \<subseteq> set (w_lines (snd (drain_witness env sign T url ss (n, w)))) \<and>
    (\<forall>s \<in> set ss. pending url s \<longrightarrow>
      (\<exists>wr. wr_ts_url wr = url \<and> backfill_entry env (st_checkpoint s) wr \<in> set (w_lines (snd (drain_witness env sign T url ss (n, w))))))"
  using assms(5,6)
proof (induction ss arbitrary: n w)
  case Nil
  then show ?case by simp
next
  case (Cons s ss)
  show ?case
  proof (cases "pending url s")
    case False
    then have "drain_witness env sign T url (s # ss) (n, w) = drain_witness env sign T url ss (n, w)"
      by (auto simp: pending_def)
    then show ?thesis using Cons False by simp
  next
    case p: True
    have s: "s \<in> set S" using Cons.prems by simp
    then obtain cose where cose: "cose_bytes s = Some cose"
      using p up(1) by (auto simp: witness_up_def list_all_iff pending_def)
    obtain wr where wr: "register_with env sign cose url (st_checkpoint s) w =
        (Inr wr, w\<lparr>w_calls := w_calls w @ [wcall_for env cose url (st_checkpoint s)]\<rparr>)"
      "we_register env (w_calls w) (wcall_for env cose url (st_checkpoint s)) = Inr wr"
      by (rule register_up [OF up s])
    define w2 where "w2 = persist_witness_backfill env (st_checkpoint s) wr (w\<lparr>w_calls := w_calls w @ [wcall_for env cose url (st_checkpoint s)]\<rparr>)"
    have own: "wr_ts_url wr = url" using ok(2) wr(2) by (auto simp: answers_own_def wcall_for_def)
    have lines: "set (w_lines w2) = insert (backfill_entry env (st_checkpoint s) wr) (set (w_lines w))"
      "backfill_entry env (st_checkpoint s) wr \<in> fill_universe env S L"
      unfolding w2_def using persist_in_universe [OF ok(1) _ s wr(2)] Cons.prems(2) by simp_all
    have "drain_witness env sign T url (s # ss) (n, w) = drain_witness env sign T url ss (n + 1, w2)"
      using p cose wr(1) by (simp add: pending_def w2_def)
    then show ?thesis using Cons.IH [of w2 "n + 1"] Cons.prems lines own by auto
  qed
qed

lemma drain_witness_lines: "set (w_lines w) \<subseteq> set (w_lines (snd (drain_witness env sign T url ss (n, w))))"
  using drain_witness_drained [of env url ss w sign T n] by (auto simp: drained_def)

lemma drain_all_up:
  assumes up: "witness_up env url S" "\<not> skip_witness env sign url" and ok: "writes_succeed env S L" "answers_own env"
    and "set (w_lines w) \<subseteq> fill_universe env S L" "url \<in> set urls" "s \<in> set S" "pending url s"
  shows "\<exists>wr. wr_ts_url wr = url \<and> backfill_entry env (st_checkpoint s) wr \<in> set (w_lines (snd (drain_all env sign S urls w)))"
  using assms(5,6)
proof (induction urls arbitrary: w)
  case Nil
  then show ?case by simp
next
  case (Cons u urls)
  define w1 where "w1 = (if skip_witness env sign u then w else snd (drain_witness env sign S u S (0, w)))"
  have out: "snd (drain_all env sign S (u # urls) w) = snd (drain_all env sign S urls w1)"
    by (simp add: w1_def case_prod_beta Let_def)
  have later: "set (w_lines w1) \<subseteq> set (w_lines (snd (drain_all env sign S us w1)))" for us
  proof (induction us arbitrary: w1)
    case (Cons v us)
    then show ?case
      using drain_witness_lines [of w1 env sign S v S 0] by (auto simp: case_prod_beta Let_def)
  qed simp
  show ?case
  proof (cases "u = url")
    case True
    then have "\<exists>wr. wr_ts_url wr = url \<and> backfill_entry env (st_checkpoint s) wr \<in> set (w_lines w1)"
      using drain_witness_up [OF up ok order_refl Cons.prems(1), of S 0] assms(7,8) up(2) by (auto simp: w1_def)
    then show ?thesis unfolding out using later [of urls] by blast
  next
    case False
    have "set (w_lines w1) \<subseteq> fill_universe env S L"
      unfolding w1_def using drain_witness_universe [OF ok(1) order_refl Cons.prems(1)] Cons.prems(1) by simp
    then show ?thesis unfolding out using Cons False by simp
  qed
qed

text \<open>A stamp is honest when the id of its line is the entry digest of the checkpoint it holds, as
  \<open>_persist_checkpoint_stamp\<close> writes it.\<close>

definition honest :: "witness_env \<Rightarrow> stamp_state \<Rightarrow> bool" where
  "honest env s \<longleftrightarrow> st_digest s = JStr (we_entry_digest env (st_checkpoint s))"

lemma retry_result:
  assumes "checkpoint_witness_states env (w_lines w) = Inr S" "witness_enabled (we_environ env) enabled"
  shows "retry_pending_witness_stamps env ts_url enabled sign w =
    Inr (drain_all env sign S (resolved_witness_urls (we_environ env) ts_url) w)"
  using assms by (simp add: retry_pending_witness_stamps_def)

lemma states_same_digest:
  assumes "checkpoint_witness_states env L = Inr S" "s \<in> set S" "t \<in> set S" "st_digest s = st_digest t"
  shows "s = t"
proof -
  have one: "state_of sc d = [s]" if "s \<in> set (state_of sc d)" for sc d s
    using that by (cases "map_of (sc_checkpoints sc) d") (auto simp: state_of_def)
  have dig: "st_digest s = d" if "s \<in> set (state_of sc d)" for sc d s
    using that by (auto simp: state_of_def split: option.splits)
  obtain sc where "S = scan_states sc" using assms(1) by (auto simp: checkpoint_witness_states_def res_simps)
  then obtain d e where "s \<in> set (state_of sc d)" "t \<in> set (state_of sc e)" using assms(2,3) by (auto simp: scan_states_def)
  then show ?thesis using one dig assms(4) by (metis list.inject)
qed

lemma states_distinct_urls:
  assumes "checkpoint_witness_states env L = Inr S" "s \<in> set S"
  shows "distinct (map fst (st_witnesses s))"
proof -
  have "distinct (map fst (foldl put_witness ws us))" if "distinct (map fst ws)" for ws us
    using that by (induction us arbitrary: ws) (simp_all add: put_witness_def distinct_update)
  then show ?thesis
    using assms by (auto simp: checkpoint_witness_states_def res_simps scan_states_def state_of_def split: option.splits)
qed

lemma retry_all_drained:
  assumes "retry_pending_witness_stamps env ts_url enabled sign w = Inr (counts, w')" "witness_enabled (we_environ env) enabled"
  obtains S where "checkpoint_witness_states env (w_lines w) = Inr S"
    "all_drained env S (resolved_witness_urls (we_environ env) ts_url) w w'"
proof -
  obtain S where S: "checkpoint_witness_states env (w_lines w) = Inr S"
    using assms by (auto simp: retry_pending_witness_stamps_def res_simps)
  have "all_drained env S (resolved_witness_urls (we_environ env) ts_url) w w'"
    using drain_all_drained [OF distinct_resolved, of env S "we_environ env" ts_url w sign]
      assms(1) retry_result [OF S assms(2), of ts_url sign] by simp
  with S show thesis by (rule that)
qed

lemma retry_off:
  "retry_pending_witness_stamps env ts_url enabled sign w = Inr (counts, w') \<Longrightarrow> \<not> witness_enabled (we_environ env) enabled \<Longrightarrow> w' = w"
  by (simp add: retry_pending_witness_stamps_def)

lemma retry_prefix:
  assumes "retry_pending_witness_stamps env ts_url enabled sign w = Inr (counts, w')"
  shows "prefix (w_lines w) (w_lines w')" "prefix (w_calls w) (w_calls w')"
  using retry_off [OF assms] retry_all_drained [OF assms]
  by (cases "witness_enabled (we_environ env) enabled"; fastforce simp: all_drained_def prefix_def)+

lemma retry_fills:
  assumes "retry_pending_witness_stamps env ts_url enabled sign w = Inr (counts, w')"
    "checkpoint_witness_states env (w_lines w) = Inr S"
  obtains fs where "w_lines w' = w_lines w @ fill_lines env fs" "list_all (\<lambda>f. \<exists>url. drain_fill env url S f) fs"
proof (cases "witness_enabled (we_environ env) enabled")
  case True
  obtain T where "checkpoint_witness_states env (w_lines w) = Inr T"
    "all_drained env T (resolved_witness_urls (we_environ env) ts_url) w w'"
    by (rule retry_all_drained [OF assms(1) True])
  then show thesis using that assms(2) by (auto simp: all_drained_def list_all_iff) (metis (no_types, lifting))
next
  case False
  then show thesis using retry_off [OF assms(1)] that [of "[]"] by (simp add: fill_lines_def)
qed

section \<open>Properties\<close>

text \<open>C29: a witness that is up again gets everything it missed.  Whatever the other witnesses do, after one call of
  \<open>retry_pending_witness_stamps\<close> no checkpoint that can be sent is without this witness: each stamp is confirmed by
  it, or was stored without the statement that would be sent.\<close>

theorem returned_witness_is_caught_up:
  assumes "checkpoint_witness_states env (w_lines w) = Inr S" "witness_enabled (we_environ env) enabled"
    "url \<in> set (resolved_witness_urls (we_environ env) ts_url)" "\<not> skip_witness env sign url"
    "witness_up env url S" "answers_own env" "witness_dict_ok env" "writes_succeed env S (w_lines w)" "list_all (honest env) S"
  shows "\<exists>counts w' S'. retry_pending_witness_stamps env ts_url enabled sign w = Inr (counts, w') \<and>
    checkpoint_witness_states env (w_lines w') = Inr S' \<and> map st_digest S' = map st_digest S \<and>
    list_all (\<lambda>s. confirmed url s \<or> st_cose s = JNull) S'"
proof -
  define w' where "w' = snd (drain_all env sign S (resolved_witness_urls (we_environ env) ts_url) w)"
  have ret: "\<exists>counts. retry_pending_witness_stamps env ts_url enabled sign w = Inr (counts, w')"
    using retry_result [OF assms(1,2), of ts_url sign] by (simp add: w'_def prod_eq_iff)
  then obtain counts where c: "retry_pending_witness_stamps env ts_url enabled sign w = Inr (counts, w')" by blast
  obtain fs where fs: "w_lines w' = w_lines w @ fill_lines env fs" by (rule retry_fills [OF c assms(1)])
  let ?S = "map (fill (fill_pairs env fs)) S"
  have S': "checkpoint_witness_states env (w_lines w') = Inr ?S" using states_fill [OF assms(7,1)] fs by simp
  have "confirmed url (fill (fill_pairs env fs) s) \<or> st_cose s = JNull" if s: "s \<in> set S" for s
  proof (cases "pending url s")
    case True
    then obtain wr where "wr_ts_url wr = url" "backfill_entry env (st_checkpoint s) wr \<in> set (w_lines w')"
      using drain_all_up [OF assms(5,4,8,6) _ assms(3) s] unfolding w'_def fill_universe_def by blast
    moreover have "st_digest s = JStr (we_entry_digest env (st_checkpoint s))"
      using assms(9) s by (simp add: list_all_iff honest_def)
    ultimately show ?thesis
      using backfilled_confirmed [OF assms(7) S', of "st_checkpoint s" wr "fill (fill_pairs env fs) s"] s by auto
  qed (auto simp: pending_def confirmed_fill)
  then show ?thesis using c S' by (intro exI [of _ counts] exI [of _ w'] exI [of _ ?S]) (auto simp: list_all_iff)
qed

text \<open>A retry sends, to every configured witness and to nobody else, a head of its backlog, oldest checkpoint
  first: nothing that the witness confirmed before, nothing without its stored statement, and nothing at all when
  witnessing is off.\<close>

theorem retry_sends_backlog_in_order:
  assumes "retry_pending_witness_stamps env ts_url enabled sign w = Inr (counts, w')"
  shows "\<exists>calls. w_calls w' = w_calls w @ calls \<and>
    (if witness_enabled (we_environ env) enabled
     then \<exists>S. checkpoint_witness_states env (w_lines w) = Inr S \<and>
       wc_url ` set calls \<subseteq> set (resolved_witness_urls (we_environ env) ts_url) \<and>
       (\<forall>url. prefix (filter (\<lambda>c. wc_url c = url) calls) (map (stamp_call env url) (filter (pending url) S)))
     else calls = [])"
proof (cases "witness_enabled (we_environ env) enabled")
  case True
  obtain S where "checkpoint_witness_states env (w_lines w) = Inr S"
    "all_drained env S (resolved_witness_urls (we_environ env) ts_url) w w'"
    by (rule retry_all_drained [OF assms True])
  then show ?thesis using True by (auto simp: all_drained_def)
qed (use retry_off [OF assms] in simp)

text \<open>A retry never takes a witness away: each stamp keeps the record of every witness it had, so a stamp that
  was witnessed under a key stays witnessed under it.\<close>

theorem retry_keeps_grades:
  assumes "retry_pending_witness_stamps env ts_url enabled sign w = Inr (counts, w')"
    "checkpoint_witness_states env (w_lines w) = Inr S" "answers_own env" "witness_dict_ok env" "list_all (honest env) S"
  shows "\<exists>S'. checkpoint_witness_states env (w_lines w') = Inr S' \<and>
    list_all2 (\<lambda>s s'. st_digest s' = st_digest s \<and> st_checkpoint s' = st_checkpoint s \<and>
      map_of (st_witnesses s) \<subseteq>\<^sub>m map_of (st_witnesses s') \<and>
      (stamp_grade env key s = Witnessed \<longrightarrow> stamp_grade env key s' = Witnessed)) S S'"
proof -
  obtain fs where fs: "w_lines w' = w_lines w @ fill_lines env fs" "list_all (\<lambda>f. \<exists>url. drain_fill env url S f) fs"
    by (rule retry_fills [OF assms(1,2)])
  let ?fill = "fill (fill_pairs env fs)"
  have kept: "map_of (st_witnesses s) \<subseteq>\<^sub>m map_of (st_witnesses (?fill s))" if s: "s \<in> set S" for s
  proof (unfold map_le_def, intro ballI)
    fix url
    assume "url \<in> dom (map_of (st_witnesses s))"
    then have conf: "confirmed url s" by (auto simp: confirmed_def dom_map_of_conv_image_fst)
    have "url \<noteq> wr_ts_url wr" if f: "(cp, wr) \<in> set fs" "JStr (we_entry_digest env cp) = st_digest s" for cp wr
    proof -
      obtain u t calls c where t: "t \<in> set S" "pending u t" "st_checkpoint t = cp" "we_register env calls c = Inr wr" "wc_url c = u"
        using fs(2) f(1) by (fastforce simp: list_all_iff drain_fill_def)
      then have "st_digest t = st_digest s" using assms(5) f(2) by (auto simp: list_all_iff honest_def)
      then have "t = s" using states_same_digest [OF assms(2) t(1) s] by simp
      then show ?thesis using t assms(3) conf by (auto simp: pending_def answers_own_def)
    qed
    then show "map_of (st_witnesses s) url = map_of (st_witnesses (?fill s)) url"
      by (force simp: fill_def fill_pairs_def intro!: lookup_foldl_put [symmetric])
  qed
  moreover have "stamp_grade env key (?fill s) = Witnessed" if s: "s \<in> set S" "stamp_grade env key s = Witnessed" for s
  proof -
    obtain u wr where u: "(u, wr) \<in> set (st_witnesses s)" "\<not> wr_is_stub wr"
      "stamp_verdict env (st_checkpoint s) wr key = WITNESSED"
      using s(2) by (auto simp: stamp_grade_def list_ex_iff split: if_splits)
    then have "map_of (st_witnesses (?fill s)) u = Some wr"
      using kept [OF s(1)] states_distinct_urls [OF assms(2) s(1)] by (fastforce simp: map_le_def dom_def)
    from map_of_SomeD [OF this] u show ?thesis by (force simp: stamp_grade_def list_ex_iff)
  qed
  ultimately show ?thesis
    using states_fill [OF assms(4,2)] fs(1)
    by (intro exI [of _ "map ?fill S"]) (auto simp: list_all2_conv_all_nth)
qed

section \<open>Witnesses\<close>

text \<open>A ledger with one stamp that no witness has confirmed, a witness that answers and one that is down.\<close>

definition outage_checkpoint :: wcheckpoint where
  "outage_checkpoint = \<lparr>cp_log_id = ''l'', cp_mmr_size = 1, cp_root = ''r'', cp_witnesses = [], cp_rest = JNull\<rparr>"

definition outage_witness_dict :: "witness_rec \<Rightarrow> json" where
  "outage_witness_dict wr = JArr [JStr (wr_ts_url wr), JBool (wr_is_stub wr), wr_rest wr]"

fun outage_witness_of :: "json \<Rightarrow> witness_exn + witness_rec" where
  "outage_witness_of (JArr [JStr u, JBool b, r]) = Inr \<lparr>wr_ts_url = u, wr_is_stub = b, wr_rest = r\<rparr>"
| "outage_witness_of _ = Inl BadRecord"

definition outage_env :: witness_env where
  "outage_env = \<lparr>we_environ = (\<lambda>_. None), we_checkpoint_of = (\<lambda>_. Inr outage_checkpoint),
     we_checkpoint_dict = (\<lambda>cp. JStr (cp_root cp)), we_witness_of = outage_witness_of, we_witness_dict = outage_witness_dict,
     we_entry_digest = (\<lambda>_. replicate 64 (CHR ''a'')), we_digest = (\<lambda>_. []), we_sha256 = (\<lambda>_. replicate 64 (CHR ''b'')),
     we_binding_of = (\<lambda>_. BINDING_CLL),
     we_register = (\<lambda>_ c. if wc_url c = ''u'' then Inr \<lparr>wr_ts_url = ''u'', wr_is_stub = False, wr_rest = JNull\<rparr>
                          else Inl no_last_accepted),
     we_write_ok = (\<lambda>_ _. True), we_tristate = (\<lambda>_ _ key. if key = None then UNVERIFIED else WITNESSED)\<rparr>"

definition outage_line :: dict where
  "outage_line = [(''kind'', JStr CHECKPOINT_STAMP_KIND), (''v'', JInt 1), (''capsule_id'', JStr (replicate 64 (CHR ''a''))),
     (''checkpoint'', JNull), (''checkpoint_cose'', JStr ''00'')]"

definition outage_state :: stamp_state where
  "outage_state = \<lparr>st_digest = JStr (replicate 64 (CHR ''a'')), st_checkpoint = outage_checkpoint, st_witnesses = [],
     st_cose = JStr ''00''\<rparr>"

abbreviation outage_world :: wworld where
  "outage_world \<equiv> \<lparr>w_lines = [outage_line], w_calls = []\<rparr>"

abbreviation outage_urls :: "url_arg option" where
  "outage_urls \<equiv> Some (UrlList [''v'', ''u''])"

lemma outage_states: "checkpoint_witness_states outage_env [outage_line] = Inr [outage_state]"
  by (simp add: checkpoint_witness_states_def scan_line_def outage_line_def line_item_def dhas_def outage_env_def
      hashable_def empty_scan_def scan_states_def state_of_def backfills_of_def outage_checkpoint_def outage_state_def)

lemma outage_resolved: "resolved_witness_urls (we_environ outage_env) outage_urls = [''v'', ''u'']"
  by code_simp

lemma outage_enabled: "witness_enabled (we_environ outage_env) None"
  by code_simp

lemma outage_laws:
  "answers_own outage_env" "witness_dict_ok outage_env" "list_all (honest outage_env) [outage_state]"
  "witness_up outage_env ''u'' [outage_state]" "\<not> skip_witness outage_env False ''u''"
  by (simp_all add: answers_own_def witness_dict_ok_def honest_def witness_up_def skip_witness_def outage_env_def
      outage_witness_dict_def outage_state_def outage_checkpoint_def cose_bytes_def is_space_def hex_nibble_def is_digit_def)

lemma outage_writes: "writes_succeed outage_env [outage_state] [outage_line]"
proof -
  let ?wr = "\<lparr>wr_ts_url = ''u'', wr_is_stub = False, wr_rest = JNull\<rparr>"
  have ans: "wr = ?wr" if "we_register outage_env calls c = Inr wr" for calls c wr
    using that by (simp add: outage_env_def split: if_splits)
  have st: "st_checkpoint outage_state = outage_checkpoint" by (simp add: outage_state_def)
  have "fill_universe outage_env [outage_state] [outage_line] \<subseteq> {outage_line, backfill_entry outage_env outage_checkpoint ?wr}"
    unfolding fill_universe_def using ans st by auto
  moreover have "inj_on line_id {outage_line, backfill_entry outage_env outage_checkpoint ?wr}"
    by (simp add: line_id_def outage_line_def backfill_entry_def outage_env_def Let_def)
  moreover have "hex_string 64 (replicate 64 (CHR ''b''))" by code_simp
  ultimately show ?thesis
    unfolding writes_succeed_def by (auto simp: outage_env_def intro: inj_on_subset)
qed

lemma returned_witness_is_caught_up_witness:
  "\<exists>counts w' S'. retry_pending_witness_stamps outage_env outage_urls None False outage_world = Inr (counts, w') \<and>
    checkpoint_witness_states outage_env (w_lines w') = Inr S' \<and> map st_digest S' = [st_digest outage_state] \<and>
    list_all (\<lambda>s. confirmed ''u'' s \<or> st_cose s = JNull) S'"
  using returned_witness_is_caught_up [of outage_env outage_world "[outage_state]" None "''u''" outage_urls False]
  by (simp add: outage_states outage_enabled outage_resolved outage_laws [simplified] outage_writes)

lemma outage_retry:
  "\<exists>counts w'. retry_pending_witness_stamps outage_env outage_urls None False outage_world = Inr (counts, w')"
  using retry_result [of outage_env outage_world "[outage_state]" None outage_urls False]
  by (simp add: outage_states outage_enabled prod_eq_iff)

lemma retry_sends_backlog_in_order_witness:
  "\<exists>counts w' calls. retry_pending_witness_stamps outage_env outage_urls None False outage_world = Inr (counts, w') \<and>
     w_calls w' = calls \<and> prefix (filter (\<lambda>c. wc_url c = ''u'') calls) [stamp_call outage_env ''u'' outage_state]"
proof -
  obtain counts w' where r: "retry_pending_witness_stamps outage_env outage_urls None False outage_world = Inr (counts, w')"
    using outage_retry by blast
  have "pending ''u'' outage_state"
    by (simp add: pending_def confirmed_def outage_state_def)
  then have p: "map (stamp_call outage_env ''u'') (filter (pending ''u'') [outage_state]) = [stamp_call outage_env ''u'' outage_state]"
    by simp
  have "\<forall>url. prefix (filter (\<lambda>c. wc_url c = url) (w_calls w')) (map (stamp_call outage_env url) (filter (pending url) [outage_state]))"
    using retry_sends_backlog_in_order [OF r]
    by (simp only: outage_states outage_enabled if_True sum.inject wworld.simps append_Nil) blast
  from spec [OF this, of "''u''"] show ?thesis using r unfolding p by blast
qed

lemma retry_keeps_grades_witness:
  "\<exists>counts w' S'. retry_pending_witness_stamps outage_env outage_urls None False outage_world = Inr (counts, w') \<and>
     checkpoint_witness_states outage_env (w_lines w') = Inr S' \<and> length S' = 1"
proof -
  obtain counts w' where r: "retry_pending_witness_stamps outage_env outage_urls None False outage_world = Inr (counts, w')"
    using outage_retry by blast
  have "\<exists>S'. checkpoint_witness_states outage_env (w_lines w') = Inr S' \<and> length S' = length [outage_state]"
    using retry_keeps_grades [OF r _ outage_laws(1,2,3), of "Some ''k''"] outage_states by (auto dest: list_all2_lengthD)
  then show ?thesis using r by auto
qed

end
