(* ===== verification/Witness_Checkpoint.thy ===== *)
theory Witness_Checkpoint
  imports Witness_Backlog
begin

text \<open>
  \<open>witness.py\<close>, the writing side: building a checkpoint of a ledger, registering it with the configured witnesses and
  storing its stamp; \<open>push\<close>, the fail-closed \<open>require_witness_receipt\<close>, and the cadence of \<open>maybe_checkpoint\<close>.  The
  Merkle mountain range of \<open>cll\<close>, its signer and the stub registration are fields of \<open>cll_env\<close>; the range is read
  from the ids of the lines, which is all that \<open>_JsonlLogSource\<close> gives it.
\<close>

section \<open>Building and registering\<close>

record cll_env =
  cl_stub_url :: string
  cl_register_stub :: "wcheckpoint \<Rightarrow> string \<Rightarrow> witness_rec option"
  cl_mmr_size :: "json list \<Rightarrow> int"
  cl_emit :: "json list \<Rightarrow> string \<Rightarrow> wcheckpoint option \<Rightarrow> string \<Rightarrow> wcheckpoint option"
  cl_cose :: "json list \<Rightarrow> wcheckpoint \<Rightarrow> wcheckpoint option \<Rightarrow> string option"

text \<open>\<open>cl_emit\<close> is \<open>None\<close> on \<open>CheckpointError\<close> and \<open>RollbackError\<close>; \<open>cl_cose\<close> gives the bytes of the COSE
  statement, \<open>None\<close> when they cannot be built.\<close>

definition line_ids :: "dict list \<Rightarrow> json list" where
  "line_ids L = map line_id L"

definition stamp_entry :: "witness_env \<Rightarrow> wcheckpoint \<Rightarrow> string option \<Rightarrow> dict" where
  "stamp_entry env cp cose =
     [(''kind'', JStr CHECKPOINT_STAMP_KIND), (''v'', JInt 1), (''capsule_id'', JStr (we_entry_digest env cp)),
      (''checkpoint'', we_checkpoint_dict env cp)]
     @ (case cose of None \<Rightarrow> [] | Some b \<Rightarrow> [(''checkpoint_cose'', JStr (to_hex b))])"

definition persist_checkpoint_stamp :: "witness_env \<Rightarrow> wcheckpoint \<Rightarrow> string option \<Rightarrow> wworld \<Rightarrow> wworld" where
  "persist_checkpoint_stamp env cp cose w = persist_line env (stamp_entry env cp cose) w"

fun fan_out ::
    "witness_env \<Rightarrow> bool \<Rightarrow> string \<Rightarrow> wcheckpoint \<Rightarrow> string list \<Rightarrow> wworld \<Rightarrow> witness_rec list \<times> wworld" where
  "fan_out env sign cose cp [] w = ([], w)"
| "fan_out env sign cose cp (url # urls) w =
     (let (r, w1) = register_with env sign cose url cp w;
          (ws, w2) = fan_out env sign cose cp urls w1
      in (case r of Inl _ \<Rightarrow> ws | Inr wr \<Rightarrow> wr # ws, w2))"

definition stub_stamps :: "cll_env \<Rightarrow> wcheckpoint \<Rightarrow> string list \<Rightarrow> witness_rec list" where
  "stub_stamps g cp urls = List.map_filter (cl_register_stub g cp) urls"

definition register_everywhere ::
    "witness_env \<Rightarrow> cll_env \<Rightarrow> bool \<Rightarrow> bool \<Rightarrow> string option \<Rightarrow> wcheckpoint \<Rightarrow> string list \<Rightarrow> wworld \<Rightarrow> witness_rec list \<times> wworld" where
  "register_everywhere env g stub sign cose cp urls w =
     (if stub then (stub_stamps g cp urls, w)
      else (case cose of None \<Rightarrow> ([], w) | Some b \<Rightarrow> fan_out env sign b cp urls w))"

definition build_and_register ::
    "witness_env \<Rightarrow> cll_env \<Rightarrow> string \<Rightarrow> bool \<Rightarrow> bool \<Rightarrow> string list \<Rightarrow> string \<Rightarrow> wcheckpoint option \<Rightarrow> wworld \<Rightarrow>
     witness_exn + (wcheckpoint option \<times> wworld)" where
  "build_and_register env g log_id stub sign ts_urls timestamp prev w =
     (let urls = (if stub then [cl_stub_url g] else ts_urls) in
      if urls = [] then Inr (prev, w)
      else sbind (retry_pending_witness_stamps env (Some (UrlList urls)) None sign w) (\<lambda>(_, w1).
        let ids = line_ids (w_lines w1) in
        (case cl_emit g ids log_id prev timestamp of
           None \<Rightarrow> Inr (prev, w1)
         | Some cp \<Rightarrow>
             let cose = cl_cose g ids cp prev;
                 (ws, w2) = register_everywhere env g stub sign cose cp urls w1;
                 cp' = cp\<lparr>cp_witnesses := cp_witnesses cp @ ws\<rparr>
             in Inr (Some cp', persist_checkpoint_stamp env cp' cose w2))))"

section \<open>The state of a ledger in the process\<close>

text \<open>\<open>p_prev\<close> is \<open>_WitnessState.prev\<close>, \<open>None\<close> while the ledger has no such state; the counter and the age clock are
  those of \<open>_counts\<close> and \<open>_armed_at\<close>; \<open>p_busy\<close> is the dispatch lock.\<close>

record wproc =
  p_prev :: "wcheckpoint option option"
  p_count :: int
  p_armed :: "int option"
  p_busy :: bool

definition last_persisted_checkpoint :: "witness_env \<Rightarrow> string \<Rightarrow> dict list \<Rightarrow> witness_exn + wcheckpoint option" where
  "last_persisted_checkpoint env log_id L =
     sbind (checkpoint_witness_states env L) (\<lambda>states.
       Inr (if states \<noteq> [] \<and> cp_log_id (st_checkpoint (last states)) = log_id
            then Some (st_checkpoint (last states)) else None))"

definition get_prev :: "witness_env \<Rightarrow> string \<Rightarrow> wproc \<Rightarrow> dict list \<Rightarrow> witness_exn + wcheckpoint option" where
  "get_prev env log_id p L =
     (case p_prev p of Some prev \<Rightarrow> Inr prev | None \<Rightarrow> last_persisted_checkpoint env log_id L)"

definition nothing_new :: "cll_env \<Rightarrow> wcheckpoint option \<Rightarrow> dict list \<Rightarrow> bool" where
  "nothing_new g prev L \<longleftrightarrow>
     cl_mmr_size g (line_ids L) = 0 \<or>
     (case prev of None \<Rightarrow> False | Some q \<Rightarrow> cl_mmr_size g (line_ids L) \<le> cp_mmr_size q)"

text \<open>The arguments of one call: the ledger's public log id, the two keyword arguments, the clocks.  \<open>push\<close> waits for
  the dispatch slot; it is modelled from the moment it holds it.\<close>

record wcall_args =
  a_log_id :: string
  a_ts_url :: "url_arg option"
  a_witness :: "bool option"
  a_sign :: bool
  a_timestamp :: string
  a_now :: int

definition push ::
    "witness_env \<Rightarrow> cll_env \<Rightarrow> wcall_args \<Rightarrow> wproc \<times> wworld \<Rightarrow> witness_exn + (wcheckpoint option \<times> wproc \<times> wworld)" where
  "push env g a st =
     (case st of (p, w) \<Rightarrow>
        let mode = witness_mode (we_environ env) (a_witness a) in
        if mode = ModeOff then Inr (None, p, w)
        else sbind (refuse_stub_in_production (we_environ env) (a_witness a)) (\<lambda>_.
          let stub = (mode = ModeStub); urls = resolved_witness_urls (we_environ env) (a_ts_url a) in
          if urls = [] \<and> \<not> stub then Inr (None, p, w)
          else sbind (get_prev env (a_log_id a) p (w_lines w)) (\<lambda>prev.
            if nothing_new g prev (w_lines w) then Inr (None, p\<lparr>p_prev := Some prev\<rparr>, w)
            else sbind (build_and_register env g (a_log_id a) stub (a_sign a) urls (a_timestamp a) prev w) (\<lambda>(prev', w').
              Inr (prev', p\<lparr>p_prev := Some prev', p_count := 0, p_armed := Some (a_now a)\<rparr>, w')))))"

text \<open>The state is returned with the exception too: a checkpoint that nobody confirmed is still stored.\<close>

definition require_witness_receipt ::
    "witness_env \<Rightarrow> cll_env \<Rightarrow> wcall_args \<Rightarrow> wproc \<times> wworld \<Rightarrow> (witness_exn + wcheckpoint) \<times> wproc \<times> wworld" where
  "require_witness_receipt env g a st =
     (let mode = witness_mode (we_environ env) (a_witness a) in
      if mode = ModeOff then (Inl WitnessRequiredError, st)
      else if mode = ModeOn \<and> resolved_witness_urls (we_environ env) (a_ts_url a) = [] then (Inl WitnessRequiredError, st)
      else (case push env g a st of
              Inl e \<Rightarrow> (Inl e, st)
            | Inr (cp, st') \<Rightarrow>
                (case cp of
                   None \<Rightarrow> (Inl WitnessRequiredError, st')
                 | Some c \<Rightarrow> (if cp_witnesses c = [] then Inl WitnessRequiredError else Inr c, st'))))"

section \<open>The cadence\<close>

datatype dispatch = NotDue | Deferred | Dispatched

text \<open>The decision that \<open>maybe_checkpoint\<close> takes once witnessing is on and a witness is configured; \<open>dispatch_at\<close> is
  the second reading of the clock.  The worker that a dispatch starts runs \<open>build_and_register\<close> and frees the slot.\<close>

definition cadence_step :: "int \<Rightarrow> int \<Rightarrow> int \<Rightarrow> int \<Rightarrow> wproc \<Rightarrow> dispatch \<times> wproc" where
  "cadence_step cadence age_cadence now dispatch_at p =
     (let count = p_count p + 1;
          armed = (case p_armed p of Some t \<Rightarrow> t | None \<Rightarrow> now);
          p1 = p\<lparr>p_armed := Some armed\<rparr>
      in if count < cadence \<and> now - armed < age_cadence then (NotDue, p1\<lparr>p_count := count\<rparr>)
         else if p_busy p then (Deferred, p1\<lparr>p_count := count\<rparr>)
         else (Dispatched, p1\<lparr>p_count := 0, p_armed := Some dispatch_at, p_busy := True\<rparr>))"

record cadence_args =
  k_parse_int :: "string \<Rightarrow> int option"
  k_parse_float :: "string \<Rightarrow> int option"
  k_entries :: "int option"
  k_seconds :: "int option"
  k_dispatch_at :: int

text \<open>The state is returned with the exception too: a state that cannot be loaded raises after the slot was
  claimed.\<close>

definition maybe_checkpoint ::
    "witness_env \<Rightarrow> cadence_args \<Rightarrow> wcall_args \<Rightarrow> wproc \<Rightarrow> wworld \<Rightarrow> (witness_exn + dispatch) \<times> wproc" where
  "maybe_checkpoint env k a p w =
     (let mode = witness_mode (we_environ env) (a_witness a) in
      if mode = ModeOff then (Inr NotDue, p)
      else (case refuse_stub_in_production (we_environ env) (a_witness a) of
        Inl e \<Rightarrow> (Inl e, p)
      | Inr _ \<Rightarrow>
          if resolved_witness_urls (we_environ env) (a_ts_url a) = [] \<and> mode \<noteq> ModeStub then (Inr NotDue, p)
          else
            let (d, p') = cadence_step (resolved_cadence (k_parse_int k) (we_environ env) (k_entries k))
                  (resolved_age_cadence (k_parse_float k) (we_environ env) (k_seconds k)) (a_now a) (k_dispatch_at k) p
            in if d = Dispatched
               then (case get_prev env (a_log_id a) p' (w_lines w) of
                       Inl e \<Rightarrow> (Inl e, p')
                     | Inr prev \<Rightarrow> (Inr d, p'\<lparr>p_prev := Some prev\<rparr>))
               else (Inr d, p')))"

definition worker ::
    "witness_env \<Rightarrow> cll_env \<Rightarrow> wcall_args \<Rightarrow> wproc \<times> wworld \<Rightarrow> wproc \<times> wworld" where
  "worker env g a st =
     (case st of (p, w) \<Rightarrow>
        (case build_and_register env g (a_log_id a) (witness_mode (we_environ env) (a_witness a) = ModeStub) (a_sign a)
                (resolved_witness_urls (we_environ env) (a_ts_url a)) (a_timestamp a) (case p_prev p of Some prev \<Rightarrow> prev | None \<Rightarrow> None) w of
           Inl _ \<Rightarrow> (p\<lparr>p_busy := False\<rparr>, w)
         | Inr (prev', w') \<Rightarrow> (p\<lparr>p_prev := Some prev', p_busy := False\<rparr>, w')))"

section \<open>What a build sends\<close>

text \<open>A record that a witness returned for one of the registrations \<open>calls\<close> that followed \<open>before\<close>, a registration
  \<open>own\<close> of the build.\<close>

definition answered_in :: "witness_env \<Rightarrow> wcall set \<Rightarrow> wcall list \<Rightarrow> wcall list \<Rightarrow> witness_rec \<Rightarrow> bool" where
  "answered_in env own before calls wr \<longleftrightarrow>
     (\<exists>i < length calls. calls ! i \<in> own \<and> we_register env (before @ take i calls) (calls ! i) = Inr wr)"

lemma answered_in_append: "answered_in env own before calls wr \<Longrightarrow> answered_in env own before (calls @ later) wr"
  by (force simp: answered_in_def nth_append)

lemma answered_in_prepend: "answered_in env own (before @ first) calls wr \<Longrightarrow> answered_in env own before (first @ calls) wr"
proof -
  assume "answered_in env own (before @ first) calls wr"
  then obtain i where "i < length calls" "calls ! i \<in> own" "we_register env (before @ first @ take i calls) (calls ! i) = Inr wr"
    by (auto simp: answered_in_def)
  then show ?thesis unfolding answered_in_def by (intro exI [of _ "length first + i"]) (simp add: nth_append)
qed

lemma fan_out_answers:
  assumes "fan_out env sign cose cp urls w = (ws, w')" "\<forall>url \<in> set urls. wcall_for env cose url cp \<in> own"
  shows "w_lines w' = w_lines w \<and>
    (\<exists>calls. w_calls w' = w_calls w @ calls \<and> wc_url ` set calls \<subseteq> set urls \<and> list_all (answered_in env own (w_calls w) calls) ws)"
  using assms
proof (induction urls arbitrary: w ws w')
  case Nil
  then show ?case by simp
next
  case (Cons url urls)
  obtain r w1 where r: "register_with env sign cose url cp w = (r, w1)" by fastforce
  obtain vs w2 where f: "fan_out env sign cose cp urls w1 = (vs, w2)" by fastforce
  have out: "w' = w2" "ws = (case r of Inl _ \<Rightarrow> vs | Inr wr \<Rightarrow> wr # vs)" using Cons.prems r f by (auto simp: Let_def)
  obtain calls where c: "w_lines w2 = w_lines w1" "w_calls w2 = w_calls w1 @ calls" "wc_url ` set calls \<subseteq> set urls"
    "list_all (answered_in env own (w_calls w1) calls) vs"
    using Cons.IH [OF f] Cons.prems(2) by auto
  have mine: "wcall_for env cose url cp \<in> own" using Cons.prems(2) by simp
  obtain first where first: "w_calls w1 = w_calls w @ first" "wc_url ` set first \<subseteq> {url}"
    "\<And>wr. r = Inr wr \<Longrightarrow> answered_in env own (w_calls w) first wr"
    using register_with_cases [OF r] mine
    by (elim disjE) (fastforce simp: no_last_accepted_def wcall_for_def answered_in_def)+
  have "list_all (answered_in env own (w_calls w) (first @ calls)) vs"
    using c(4) first(1) by (auto simp: list_all_iff intro: answered_in_prepend)
  then have "list_all (answered_in env own (w_calls w) (first @ calls)) ws"
    using out(2) first(3) by (auto intro: answered_in_append split: sum.splits)
  then show ?case
    using c first out(1) register_with_lines [OF r]
    by (intro conjI exI [of _ "first @ calls"]) auto
qed

lemma fan_out_lines: "fan_out env sign cose cp urls w = (ws, w') \<Longrightarrow> w_lines w' = w_lines w"
  using fan_out_answers [where own = UNIV] by fastforce

lemma persist_calls [simp]: "w_calls (persist_checkpoint_stamp env cp cose w) = w_calls w"
  using persist_line_cases by (simp add: persist_checkpoint_stamp_def)

lemma prefix_line_ids: "prefix L L' \<Longrightarrow> prefix (line_ids L) (line_ids L')"
  by (auto simp: line_ids_def prefix_def)

lemma prefix_calls:
  assumes "prefix A B" "list_all (answered_in env own B calls) ws"
  shows "\<exists>all. B @ calls = A @ all \<and> list_all (answered_in env own A all) ws \<and> set calls \<subseteq> set all"
proof -
  obtain first where "B = A @ first" using assms(1) by (auto simp: prefix_def)
  then show ?thesis
    using assms(2) by (intro exI [of _ "first @ calls"]) (auto simp: list_all_iff intro: answered_in_prepend)
qed

text \<open>A build that makes a checkpoint, with a real witness.\<close>

lemma build_checkpoint:
  assumes "build_and_register env g log_id False sign urls t prev w = Inr (prev', w')" "urls \<noteq> []"
    "cl_emit g (line_ids (w_lines w1)) log_id prev t = Some cp"
    "retry_pending_witness_stamps env (Some (UrlList urls)) None sign w = Inr (counts, w1)"
  obtains ws calls where "prev' = Some (cp\<lparr>cp_witnesses := cp_witnesses cp @ ws\<rparr>)" "w_calls w' = w_calls w @ calls"
    "ws \<noteq> [] \<longrightarrow> (\<exists>cose. cl_cose g (line_ids (w_lines w1)) cp prev = Some cose \<and>
       list_all (answered_in env ((\<lambda>url. wcall_for env cose url cp) ` set urls) (w_calls w) calls) ws)"
    "prefix (w_lines w) (w_lines w1)"
proof -
  let ?cose = "cl_cose g (line_ids (w_lines w1)) cp prev"
  obtain ws w2 where f: "register_everywhere env g False sign ?cose cp urls w1 = (ws, w2)" by fastforce
  have out: "prev' = Some (cp\<lparr>cp_witnesses := cp_witnesses cp @ ws\<rparr>)"
    "w' = persist_checkpoint_stamp env (cp\<lparr>cp_witnesses := cp_witnesses cp @ ws\<rparr>) ?cose w2"
    using assms f by (auto simp: build_and_register_def Let_def)
  note retry = retry_prefix [OF assms(4)]
  show thesis
  proof (cases ?cose)
    case None
    then have "ws = []" "w2 = w1" using f by (simp_all add: register_everywhere_def)
    moreover obtain first where "w_calls w1 = w_calls w @ first" using retry(2) by (auto simp: prefix_def)
    ultimately show ?thesis using out retry(1) by (intro that [of ws first]) simp_all
  next
    case (Some b)
    let ?own = "(\<lambda>url. wcall_for env b url cp) ` set urls"
    have "fan_out env sign b cp urls w1 = (ws, w2)" using f Some by (simp add: register_everywhere_def)
    from fan_out_answers [OF this, of ?own]
    obtain calls where c: "w_calls w2 = w_calls w1 @ calls" "list_all (answered_in env ?own (w_calls w1) calls) ws"
      by auto
    obtain all where "w_calls w1 @ calls = w_calls w @ all" "list_all (answered_in env ?own (w_calls w) all) ws"
      using prefix_calls [OF retry(2) c(2)] by blast
    then show ?thesis using out c retry(1) Some by (intro that [of ws all]) simp_all
  qed
qed

lemma push_on:
  assumes "push env g a (p, w) = Inr (Some c, p', w')" "witness_mode (we_environ env) (a_witness a) = ModeOn"
  obtains prev where "get_prev env (a_log_id a) p (w_lines w) = Inr prev" "\<not> nothing_new g prev (w_lines w)"
    "resolved_witness_urls (we_environ env) (a_ts_url a) \<noteq> []"
    "build_and_register env g (a_log_id a) False (a_sign a) (resolved_witness_urls (we_environ env) (a_ts_url a))
       (a_timestamp a) prev w = Inr (Some c, w')"
  using assms by (auto simp: push_def Let_def res_simps split: if_splits)

section \<open>The ledger only grows\<close>

lemma register_everywhere_lines:
  "register_everywhere env g stub sign cose cp urls w = (ws, w') \<Longrightarrow> w_lines w' = w_lines w"
  using fan_out_lines by (fastforce simp: register_everywhere_def split: if_splits option.splits)

lemma build_grows:
  assumes "build_and_register env g log_id stub sign urls t prev w = Inr (prev', w')"
  shows "prefix (w_lines w) (w_lines w')"
proof (cases "(if stub then [cl_stub_url g] else urls) = []")
  case True
  then show ?thesis using assms by (simp add: build_and_register_def Let_def)
next
  case False
  define us where "us = (if stub then [cl_stub_url g] else urls)"
  obtain counts w1 where r: "retry_pending_witness_stamps env (Some (UrlList us)) None sign w = Inr (counts, w1)"
    using assms False by (auto simp: build_and_register_def Let_def res_simps us_def)
  note grow = retry_prefix(1) [OF r]
  show ?thesis
  proof (cases "cl_emit g (line_ids (w_lines w1)) log_id prev t")
    case None
    then show ?thesis using assms False r grow by (simp add: build_and_register_def Let_def us_def)
  next
    case (Some cp)
    let ?cose = "cl_cose g (line_ids (w_lines w1)) cp prev"
    obtain ws w2 where f: "register_everywhere env g stub sign ?cose cp us w1 = (ws, w2)" by fastforce
    have "w' = persist_checkpoint_stamp env (cp\<lparr>cp_witnesses := cp_witnesses cp @ ws\<rparr>) ?cose w2"
      using assms False r Some f by (simp add: build_and_register_def Let_def us_def)
    then have "prefix (w_lines w2) (w_lines w')"
      using persist_line_cases [of env "stamp_entry env (cp\<lparr>cp_witnesses := cp_witnesses cp @ ws\<rparr>) ?cose" w2]
      by (auto simp: persist_checkpoint_stamp_def simp del: append_eq_conv_conj)
    then show ?thesis using grow register_everywhere_lines [OF f] by (auto intro: prefix_order.trans)
  qed
qed

lemma push_grows: "push env g a (p, w) = Inr (c, p', w') \<Longrightarrow> prefix (w_lines w) (w_lines w')"
  by (auto simp: push_def Let_def res_simps dest: build_grows split: if_splits)

lemma require_grows: "require_witness_receipt env g a (p, w) = (r, p', w') \<Longrightarrow> prefix (w_lines w) (w_lines w')"
  by (auto simp: require_witness_receipt_def Let_def dest: push_grows split: if_splits sum.splits option.splits)

section \<open>Properties\<close>

text \<open>What the code relies on of the mountain range: it commits to every line it is given, and a new checkpoint has
  no witness yet.\<close>

definition mmr_ok :: "cll_env \<Rightarrow> bool" where
  "mmr_ok g \<longleftrightarrow>
     (\<forall>ids more. cl_mmr_size g ids \<le> cl_mmr_size g (ids @ more)) \<and>
     (\<forall>ids l prev t cp. cl_emit g ids l prev t = Some cp \<longrightarrow> cp_mmr_size cp = cl_mmr_size g ids \<and> cp_witnesses cp = [])"

text \<open>C28: with a real witness configured, and when a checkpoint can be built, \<open>require_witness_receipt\<close> returns only a
  checkpoint that was emitted during this very call over every line that the ledger held, with at least one witness.  Every
  witness in it answered a registration that this call sent to a configured URL, of the COSE statement of exactly this
  checkpoint under the binding of the URL.\<close>

theorem required_receipt_is_fresh:
  assumes "require_witness_receipt env g a (p, w) = (Inr c, p', w')" "witness_mode (we_environ env) (a_witness a) = ModeOn"
    "mmr_ok g" "\<forall>ids prev. cl_emit g ids (a_log_id a) prev (a_timestamp a) \<noteq> None"
  shows "cp_witnesses c \<noteq> [] \<and> cl_mmr_size g (line_ids (w_lines w)) \<le> cp_mmr_size c \<and>
    (\<exists>ids prev cp cose calls. prefix (line_ids (w_lines w)) ids \<and>
       cl_emit g ids (a_log_id a) prev (a_timestamp a) = Some cp \<and> c = cp\<lparr>cp_witnesses := cp_witnesses c\<rparr> \<and>
       cl_cose g ids cp prev = Some cose \<and> w_calls w' = w_calls w @ calls \<and>
       (\<forall>wr \<in> set (cp_witnesses c). \<exists>i < length calls. \<exists>url \<in> set (resolved_witness_urls (we_environ env) (a_ts_url a)).
          calls ! i = \<lparr>wc_binding = we_binding_of env url, wc_url = url, wc_cose = cose,
            wc_entry_hash = (if we_binding_of env url = BINDING_CLL then None
                             else map_option (we_sha256 env) (from_hex (we_digest env cp)))\<rparr> \<and>
          we_register env (w_calls w @ take i calls) (calls ! i) = Inr wr))"
proof -
  have p: "push env g a (p, w) = Inr (Some c, p', w')" and ne: "cp_witnesses c \<noteq> []"
    using assms(1,2) by (auto simp: require_witness_receipt_def Let_def split: sum.splits option.splits if_splits)
  obtain prev where b: "resolved_witness_urls (we_environ env) (a_ts_url a) \<noteq> []"
    "build_and_register env g (a_log_id a) False (a_sign a) (resolved_witness_urls (we_environ env) (a_ts_url a))
       (a_timestamp a) prev w = Inr (Some c, w')"
    by (rule push_on [OF p assms(2)])
  let ?urls = "resolved_witness_urls (we_environ env) (a_ts_url a)"
  obtain counts w1 where r: "retry_pending_witness_stamps env (Some (UrlList ?urls)) None (a_sign a) w = Inr (counts, w1)"
    using b by (auto simp: build_and_register_def Let_def res_simps)
  let ?ids = "line_ids (w_lines w1)"
  obtain cp where cp: "cl_emit g ?ids (a_log_id a) prev (a_timestamp a) = Some cp"
    using assms(4) by blast
  obtain ws calls where o: "Some c = Some (cp\<lparr>cp_witnesses := cp_witnesses cp @ ws\<rparr>)" "w_calls w' = w_calls w @ calls"
    "ws \<noteq> [] \<longrightarrow> (\<exists>cose. cl_cose g ?ids cp prev = Some cose \<and>
       list_all (answered_in env ((\<lambda>url. wcall_for env cose url cp) ` set ?urls) (w_calls w) calls) ws)"
    "prefix (w_lines w) (w_lines w1)"
    by (rule build_checkpoint [OF b(2,1) cp r])
  have ids: "prefix (line_ids (w_lines w)) ?ids" by (rule prefix_line_ids [OF o(4)])
  then have "cl_mmr_size g (line_ids (w_lines w)) \<le> cl_mmr_size g ?ids"
    using assms(3) by (auto simp: prefix_def mmr_ok_def)
  moreover have "cp_mmr_size cp = cl_mmr_size g ?ids" "cp_witnesses cp = []"
    using assms(3) cp by (auto simp: mmr_ok_def)
  moreover from this(2) have c: "c = cp\<lparr>cp_witnesses := ws\<rparr>" using o(1) by simp
  moreover obtain cose where "cl_cose g ?ids cp prev = Some cose"
    "list_all (answered_in env ((\<lambda>url. wcall_for env cose url cp) ` set ?urls) (w_calls w) calls) ws"
    using o(3) ne c by auto
  ultimately show ?thesis
    using ne ids cp o(2)
    by (intro conjI exI [of _ ?ids] exI [of _ prev] exI [of _ cp] exI [of _ cose] exI [of _ calls])
      (force simp: list_all_iff answered_in_def wcall_for_def binding_code_def)+
qed

text \<open>C30: when no checkpoint can be built, \<open>require_witness_receipt\<close> does not fail: it returns the checkpoint before,
  with its witnesses, although that one covers none of the lines that came since.\<close>

theorem failed_checkpoint_passes_as_receipt:
  assumes "witness_mode (we_environ env) (a_witness a) = ModeOn" "resolved_witness_urls (we_environ env) (a_ts_url a) \<noteq> []"
    "p_prev p = Some (Some q)" "cp_witnesses q \<noteq> []" "cp_mmr_size q < cl_mmr_size g (line_ids (w_lines w))"
    "cl_mmr_size g (line_ids (w_lines w)) \<noteq> 0" "\<forall>ids l prev t. cl_emit g ids l prev t = None"
    "checkpoint_witness_states env (w_lines w) = Inr S"
  shows "\<exists>p' w'. require_witness_receipt env g a (p, w) = (Inr q, p', w')"
proof -
  obtain counts w1 where r: "retry_pending_witness_stamps env
      (Some (UrlList (resolved_witness_urls (we_environ env) (a_ts_url a)))) None (a_sign a) w = Inr (counts, w1)"
    using assms(8) by (cases "witness_enabled (we_environ env) None")
      (auto simp: retry_pending_witness_stamps_def prod_eq_iff)
  have "refuse_stub_in_production (we_environ env) (a_witness a) = Inr ()"
    using assms(1) by (simp add: refuse_stub_in_production_def)
  then show ?thesis
    using assms r
    by (simp add: require_witness_receipt_def push_def build_and_register_def get_prev_def nothing_new_def Let_def)
qed

section \<open>The cadence, call by call\<close>

text \<open>Calls of one ledger in a row: whether the worker in flight ended before the call, and the two clock readings.\<close>

fun cadence_run :: "int \<Rightarrow> int \<Rightarrow> (bool \<times> int \<times> int) list \<Rightarrow> wproc \<Rightarrow> dispatch list \<times> wproc" where
  "cadence_run c ac [] p = ([], p)"
| "cadence_run c ac ((ended, now, later) # xs) p =
     (let (d, p1) = cadence_step c ac now later (if ended then p\<lparr>p_busy := False\<rparr> else p);
          (ds, p2) = cadence_run c ac xs p1
      in (d # ds, p2))"

definition armed_from :: "wproc \<Rightarrow> int \<Rightarrow> int" where
  "armed_from p now = (case p_armed p of Some t \<Rightarrow> t | None \<Rightarrow> now)"

lemma cadence_step_waits:
  assumes "cadence_step c ac now later p = (d, p')" "d \<noteq> Dispatched"
  shows "p_count p' = p_count p + 1 \<and> p_armed p' = Some (armed_from p now) \<and>
    (d = NotDue \<longrightarrow> p_count p' < c \<and> now - armed_from p now < ac)"
  using assms by (auto simp: cadence_step_def Let_def armed_from_def split: if_splits)

lemma cadence_run_waits:
  assumes "cadence_run c ac xs p = (ds, p')" "Dispatched \<notin> set ds" "xs \<noteq> []"
  shows "p_count p' = p_count p + int (length xs) \<and> p_armed p' = Some (armed_from p (fst (snd (hd xs)))) \<and> length ds = length xs \<and>
    (last ds = NotDue \<longrightarrow> p_count p' < c \<and> fst (snd (last xs)) - armed_from p (fst (snd (hd xs))) < ac)"
  using assms
proof (induction xs arbitrary: p ds p')
  case Nil
  then show ?case by simp
next
  case (Cons x xs)
  obtain ended now later where x: "x = (ended, now, later)" by (cases x)
  let ?p = "if ended then p\<lparr>p_busy := False\<rparr> else p"
  obtain d p1 where d: "cadence_step c ac now later ?p = (d, p1)" by fastforce
  obtain es p2 where e: "cadence_run c ac xs p1 = (es, p2)" by fastforce
  have ds: "ds = d # es" "p' = p2" using Cons.prems(1) x d e by simp_all
  note s = cadence_step_waits [OF d]
  have a: "armed_from ?p now = armed_from p now" "p_count ?p = p_count p" by (simp_all add: armed_from_def)
  show ?case
  proof (cases "xs = []")
    case True
    then show ?thesis using s ds e Cons.prems(2) x a by auto
  next
    case False
    have "d \<noteq> Dispatched" using ds Cons.prems(2) by auto
    then have "armed_from p1 n = armed_from p now" for n using s a by (simp add: armed_from_def)
    then show ?thesis using Cons.IH [OF e] False s ds Cons.prems(2) x a e by (auto split: if_splits)
  qed
qed

lemma armed_step: "cadence_step c ac now later p = (Dispatched, p') \<Longrightarrow> p_count p' = 0 \<and> p_busy p'"
  by (auto simp: cadence_step_def Let_def split: if_splits)

text \<open>Entries cannot wait for ever.  In a row of calls of which none starts a checkpoint although the last one finds
  the slot free, there are fewer calls than the cadence, and less than the age cadence has passed since the clock was
  armed, which for a fresh ledger is the first of these calls.\<close>

theorem cadence_bounds_waiting:
  assumes "cadence_run c ac xs p = (ds, p')" "xs \<noteq> []" "Dispatched \<notin> set ds" "last ds = NotDue" "0 \<le> p_count p"
  shows "int (length xs) < c \<and> (\<exists>t. p_armed p' = Some t \<and> fst (snd (last xs)) - t < ac \<and>
    (p_armed p = None \<longrightarrow> t = fst (snd (hd xs))))"
  using cadence_run_waits [OF assms(1,3,2)] assms(4,5) by (auto simp: armed_from_def)

text \<open>The first entry of a ledger that was idle for the age cadence after a checkpoint is due at once: the clock is
  armed at the dispatch, not at the entry.\<close>

lemma idle_ledger_is_due_at_once:
  assumes "p_armed p = Some t" "ac \<le> now - t" "\<not> p_busy p"
  shows "fst (cadence_step c ac now later p) = Dispatched"
  using assms by (simp add: cadence_step_def Let_def)

text \<open>When the state of a ledger cannot be loaded, \<open>maybe_checkpoint\<close> raises after it took the dispatch slot and
  never frees it: as no worker was started to free it, no later call starts a checkpoint for this ledger.\<close>

theorem failed_load_keeps_slot:
  assumes "maybe_checkpoint env k a p w = (Inl e, p')" "e \<noteq> StubWitnessInProductionError"
  shows "p_busy p' \<and> fst (maybe_checkpoint env k' a' p' w') \<noteq> Inr Dispatched"
proof -
  have "refuse_stub_in_production (we_environ env) (a_witness a) \<noteq> Inl e"
    using assms(2) by (simp add: refuse_stub_in_production_def ensure_def)
  then have busy: "p_busy p'"
    using assms(1)
    by (auto simp: maybe_checkpoint_def Let_def dest: armed_step split: if_splits sum.splits prod.splits)
  have no: "cadence_step c ac now later p' \<noteq> (Dispatched, p'')" for c ac now later p''
    using busy by (simp add: cadence_step_def Let_def)
  have "fst (maybe_checkpoint env k' a' p' w') \<noteq> Inr Dispatched"
    by (auto simp: maybe_checkpoint_def Let_def no split: sum.split prod.split)
  with busy show ?thesis by blast
qed

text \<open>A push is never idle after one that stored its stamp: the stamp is itself a new line of the ledger.\<close>

lemma push_after_push:
  assumes "cp_mmr_size q = cl_mmr_size g (line_ids L)" "\<And>ids x. cl_mmr_size g ids < cl_mmr_size g (ids @ [x])"
    "0 \<le> cl_mmr_size g (line_ids L)"
  shows "\<not> nothing_new g (Some q) (L @ [stamp_entry env cp cose])"
  using assms(1,3) assms(2) [of "line_ids L" "line_id (stamp_entry env cp cose)"] by (simp add: nothing_new_def line_ids_def)

section \<open>Witnesses\<close>

text \<open>A range that counts the lines, a checkpoint that takes its size from it, and a witness that answers.\<close>

definition count_range :: cll_env where
  "count_range = \<lparr>cl_stub_url = ''stub'', cl_register_stub = (\<lambda>_ _. None), cl_mmr_size = (\<lambda>ids. int (length ids)),
     cl_emit = (\<lambda>ids l _ _. Some (outage_checkpoint\<lparr>cp_log_id := l, cp_mmr_size := int (length ids)\<rparr>)),
     cl_cose = (\<lambda>_ _ _. Some ''c'')\<rparr>"

definition broken_range :: cll_env where
  "broken_range = count_range\<lparr>cl_emit := (\<lambda>_ _ _ _. None)\<rparr>"

definition receipt_args :: wcall_args where
  "receipt_args = \<lparr>a_log_id = ''l'', a_ts_url = Some (UrlText ''u''), a_witness = None, a_sign = False,
     a_timestamp = ''t'', a_now = 0\<rparr>"

definition fresh_proc :: wproc where
  "fresh_proc = \<lparr>p_prev = None, p_count = 0, p_armed = None, p_busy = False\<rparr>"

definition receipt_line :: dict where
  "receipt_line = [(''capsule_id'', JStr (replicate 64 (CHR ''c'')))]"

abbreviation receipt_world :: wworld where
  "receipt_world \<equiv> \<lparr>w_lines = [receipt_line], w_calls = []\<rparr>"

lemma receipt_on:
  "witness_mode (we_environ outage_env) (a_witness receipt_args) = ModeOn"
  "resolved_witness_urls (we_environ outage_env) (a_ts_url receipt_args) = [''u'']"
  by code_simp+

lemma receipt_states: "checkpoint_witness_states outage_env [receipt_line] = Inr []"
  by code_simp

lemma receipt_obtained:
  "\<exists>c p' w'. require_witness_receipt outage_env count_range receipt_args (fresh_proc, receipt_world) = (Inr c, p', w')"
proof -
  have "\<not> isl (fst (require_witness_receipt outage_env count_range receipt_args (fresh_proc, receipt_world)))"
    by code_simp
  then obtain c st where "require_witness_receipt outage_env count_range receipt_args (fresh_proc, receipt_world) = (Inr c, st)"
    by (metis isl_def prod.collapse sum.exhaust)
  then show ?thesis by (cases st) blast
qed

lemma required_receipt_is_fresh_witness:
  "\<exists>c p' w' call. require_witness_receipt outage_env count_range receipt_args (fresh_proc, receipt_world) = (Inr c, p', w') \<and>
     cp_witnesses c \<noteq> [] \<and> 1 \<le> cp_mmr_size c \<and> call \<in> set (w_calls w') \<and> wc_cose call = ''c'' \<and> wc_url call = ''u''"
proof -
  obtain c p' w' where r: "require_witness_receipt outage_env count_range receipt_args (fresh_proc, receipt_world) = (Inr c, p', w')"
    using receipt_obtained by blast
  have "mmr_ok count_range" by (simp add: mmr_ok_def count_range_def outage_checkpoint_def)
  note fresh = required_receipt_is_fresh [OF r receipt_on(1) this, unfolded receipt_on(2)]
  have emit: "\<forall>ids prev. cl_emit count_range ids (a_log_id receipt_args) prev (a_timestamp receipt_args) \<noteq> None"
    and cose: "cl_cose count_range ids cp prev = Some b \<longleftrightarrow> b = ''c''"
    and size: "cl_mmr_size count_range (line_ids (w_lines receipt_world)) = 1" for ids cp prev b
    by (auto simp: count_range_def line_ids_def)
  obtain wr where "wr \<in> set (cp_witnesses c)" using fresh [OF emit] by (cases "cp_witnesses c") auto
  then obtain calls i where "w_calls w' = calls" "i < length calls" "wc_cose (calls ! i) = ''c''" "wc_url (calls ! i) = ''u''"
    using fresh [OF emit, unfolded cose size] by fastforce
  then show ?thesis using r fresh [OF emit, unfolded size] nth_mem by fastforce
qed

definition old_checkpoint :: wcheckpoint where
  "old_checkpoint = outage_checkpoint\<lparr>cp_mmr_size := 0, cp_witnesses := [\<lparr>wr_ts_url = ''u'', wr_is_stub = False, wr_rest = JNull\<rparr>]\<rparr>"

lemma failed_checkpoint_passes_as_receipt_witness:
  "\<exists>p' w'. require_witness_receipt outage_env broken_range receipt_args (fresh_proc\<lparr>p_prev := Some (Some old_checkpoint)\<rparr>, receipt_world)
     = (Inr old_checkpoint, p', w')"
  using failed_checkpoint_passes_as_receipt [OF receipt_on(1), of "fresh_proc\<lparr>p_prev := Some (Some old_checkpoint)\<rparr>" old_checkpoint
      broken_range receipt_world "[]"]
  by (simp add: receipt_on receipt_states old_checkpoint_def broken_range_def count_range_def line_ids_def)

lemma cadence_bounds_waiting_witness:
  "\<exists>ds p' t. cadence_run 3 10 [(False, 4, 4), (False, 5, 5)] fresh_proc = (ds, p') \<and> int (length ds) < 3 \<and>
     p_armed p' = Some t \<and> 5 - t < 10 \<and> t = 4"
proof -
  have r: "cadence_run 3 10 [(False, 4, 4), (False, 5, 5)] fresh_proc =
      ([NotDue, NotDue], fresh_proc\<lparr>p_count := 2, p_armed := Some 4\<rparr>)"
    by (simp add: cadence_step_def fresh_proc_def)
  from cadence_bounds_waiting [OF r] show ?thesis using r by (simp add: fresh_proc_def)
qed

definition torn_line :: dict where
  "torn_line = [(''kind'', JStr CHECKPOINT_STAMP_KIND)]"

definition every_entry :: cadence_args where
  "every_entry = \<lparr>k_parse_int = (\<lambda>_. None), k_parse_float = (\<lambda>_. None), k_entries = Some 1, k_seconds = None, k_dispatch_at = 0\<rparr>"

lemma failed_load_keeps_slot_witness:
  "\<exists>e p'. maybe_checkpoint outage_env every_entry receipt_args fresh_proc \<lparr>w_lines = [torn_line], w_calls = []\<rparr> = (Inl e, p') \<and>
     p_busy p' \<and> fst (maybe_checkpoint outage_env every_entry receipt_args p' receipt_world) \<noteq> Inr Dispatched"
proof -
  have r: "maybe_checkpoint outage_env every_entry receipt_args fresh_proc \<lparr>w_lines = [torn_line], w_calls = []\<rparr> =
      (Inl WKeyError, fresh_proc\<lparr>p_armed := Some 0, p_busy := True\<rparr>)"
    by code_simp
  then show ?thesis using failed_load_keeps_slot [OF r, of every_entry receipt_args receipt_world] by simp
qed

text \<open>In stub mode the drain sends a real registration for an old stamp, to the URL that labels stub stamps.\<close>

definition stub_env :: witness_env where
  "stub_env = outage_env\<lparr>we_environ := (\<lambda>k. if k = ''CAPSULE_WITNESS'' then Some ''stub'' else None)\<rparr>"

lemma stub_mode_registers:
  "case push stub_env count_range receipt_args (fresh_proc, \<lparr>w_lines = [outage_line, receipt_line], w_calls = []\<rparr>) of
     Inr (_, _, w') \<Rightarrow> map wc_url (w_calls w') = [''stub''] | Inl _ \<Rightarrow> False"
  by code_simp

end
