(* ===== verification/Produce_Digest.thy ===== *)
theory Produce_Digest
  imports Python_Text
begin

text \<open>
  \<open>produce/digest.py\<close>: the checks on a JSON value before it is digested, the copy with whole floats as
  integers, and the strict decoder.  The canonicalizer of \<open>agent_action_capsule\<close> is a parameter, a field of
  \<open>produce_env\<close>.  The walks that keep their own stack are modelled with that stack, its top at the head of
  a list; a Python dict has string keys here, so the \<open>TypeError\<close> of another key has no counterpart.
\<close>

section \<open>Errors and the environment\<close>

text \<open>What a call into the other package may raise, and what this one raises.\<close>

datatype lib_exn = RecursionError | LibValueError string | LibTypeError string

record verification_result =
  vr_ok :: bool
  vr_capsule_id :: json
  vr_findings :: "string list"

datatype produce_error =
  PValueError string | PTypeError string | Class1Error verification_result | PRecursionError

text \<open>
  \<open>pe_recursion\<close> is the nesting at which \<open>json.loads\<close> exhausts the stack of the interpreter; the others
  are \<open>json_digest\<close>, \<open>compute_capsule_id\<close>, \<open>verify\<close> and \<open>jcs\<close> of \<open>agent_action_capsule\<close>, and
  \<open>hashlib.sha256(data).hexdigest()\<close>.
\<close>

record produce_env =
  pe_json :: json_env
  pe_recursion :: nat
  pe_json_digest :: "json \<Rightarrow> lib_exn + string"
  pe_capsule_id :: "json \<Rightarrow> lib_exn + string"
  pe_verify :: "json \<Rightarrow> lib_exn + verification_result"
  pe_jcs :: "json \<Rightarrow> lib_exn + string"
  pe_sha256 :: "string \<Rightarrow> string"

definition canonical :: "lib_exn + 'a \<Rightarrow> produce_error + 'a" where
  "canonical r =
     (case r of
        Inr x \<Rightarrow> Inr x
      | Inl RecursionError \<Rightarrow> Inl (PValueError ''JSON nesting is too deep for this canonicalizer'')
      | Inl (LibValueError m) \<Rightarrow> Inl (PValueError m)
      | Inl (LibTypeError m) \<Rightarrow> Inl (PTypeError m))"

section \<open>Checking a value\<close>

type_synonym frame = "json \<times> string \<times> nat"

definition check_text :: "string \<Rightarrow> string \<Rightarrow> produce_error + unit" where
  "check_text s path =
     ensure (utf8_ok s) (PValueError (''text at '' @ path @ '' must be valid Unicode (unpaired surrogate)''))"

definition depth_error :: produce_error where
  "depth_error = PValueError (''JSON exceeds maximum depth of '' @ nat_str MAX_JSON_DEPTH)"

definition member_frames :: "dict \<Rightarrow> string \<Rightarrow> nat \<Rightarrow> frame list" where
  "member_frames d path depth = map (\<lambda>(k, v). (v, path @ ''.'' @ k, depth + 1)) d"

definition item_frames :: "json list \<Rightarrow> string \<Rightarrow> nat \<Rightarrow> frame list" where
  "item_frames vs path depth =
     map (\<lambda>(i, v). (v, path @ ''['' @ nat_str i @ '']'', depth + 1)) (zip [0..<length vs] vs)"

fun json_nodes :: "json \<Rightarrow> nat" where
  "json_nodes (JArr vs) = Suc (sum_list (map json_nodes vs))"
| "json_nodes (JObj d) = Suc (sum_list (map (\<lambda>(k, v). json_nodes v) d))"
| "json_nodes _ = 1"

abbreviation frame_nodes :: "frame list \<Rightarrow> nat" where
  "frame_nodes st \<equiv> sum_list (map (\<lambda>(v, _). json_nodes v) st)"

lemma map_snd_zip_nodes: "length is = length vs \<Longrightarrow> map (\<lambda>(i, v). f v) (zip is vs) = map f vs"
  by (induction "is" vs rule: list_induct2) auto

lemma frame_nodes_rev [simp]: "frame_nodes (rev st) = frame_nodes st"
  by (simp add: sum_list_rev flip: rev_map)

lemma frame_nodes_members [simp]: "frame_nodes (member_frames d path depth) = sum_list (map (\<lambda>(k, v). json_nodes v) d)"
  by (induction d) (auto simp: member_frames_def)

lemma frame_nodes_items [simp]: "frame_nodes (item_frames vs path depth) = sum_list (map json_nodes vs)"
  by (simp add: item_frames_def comp_def case_prod_unfold flip: map_snd_zip_nodes [of "[0..<length vs]" vs json_nodes])

function check_loop :: "frame list \<Rightarrow> produce_error + unit" where
  "check_loop [] = Inr ()"
| "check_loop ((item, path, depth) # stack) =
     (if MAX_JSON_DEPTH < depth then Inl depth_error
      else (case item of
              JStr s \<Rightarrow> sbind (check_text s path) (\<lambda>_. check_loop stack)
            | JObj d \<Rightarrow> sbind (mapM_r (\<lambda>(k, v). check_text k path) d) (\<lambda>_.
                         check_loop (rev (member_frames d path depth) @ stack))
            | JArr vs \<Rightarrow> check_loop (rev (item_frames vs path depth) @ stack)
            | _ \<Rightarrow> check_loop stack))"
  by pat_completeness auto
termination
  by (relation "measure frame_nodes") (auto simp del: frame_nodes_rev simp: frame_nodes_rev [simplified])

definition check_json_value :: "json \<Rightarrow> string \<Rightarrow> produce_error + unit" where
  "check_json_value v path = check_loop [(v, path, 1)]"


text \<open>The loop accepts exactly the frames whose value fits under the limit and holds text.\<close>

lemma json_depth_pos: "0 < json_depth v"
  by (cases v) simp_all

definition frame_ok :: "frame \<Rightarrow> bool" where
  "frame_ok = (\<lambda>(v, _, n). n + json_depth v \<le> Suc MAX_JSON_DEPTH \<and> json_utf8 v)"

lemma foldr_max_le: "foldr max xs (0 :: nat) \<le> n \<longleftrightarrow> (\<forall>x \<in> set xs. x \<le> n)"
  by (induction xs) auto

lemma add_foldr_max: "n + foldr max xs 0 \<le> m \<longleftrightarrow> n \<le> m \<and> (\<forall>x \<in> set xs. n + x \<le> (m :: nat))"
proof -
  have "n + foldr max xs 0 \<le> m \<longleftrightarrow> n \<le> m \<and> foldr max xs 0 \<le> m - n" by linarith
  also have "\<dots> \<longleftrightarrow> n \<le> m \<and> (\<forall>x \<in> set xs. n + x \<le> m)"
    unfolding foldr_max_le by (auto simp: le_diff_conv2)
  finally show ?thesis .
qed

lemma member_frames_ok:
  "list_all frame_ok (member_frames d path n) \<longleftrightarrow>
     (\<forall>x \<in> set (map (\<lambda>(k, v). json_depth v) d). Suc n + x \<le> Suc MAX_JSON_DEPTH) \<and> list_all (\<lambda>(k, v). json_utf8 v) d"
  by (force simp: member_frames_def frame_ok_def list_all_iff)

lemma set_item_frames: "fst ` set (item_frames vs path n) = set vs"
proof -
  have "map fst (item_frames vs path n) = vs"
    by (rule nth_equalityI) (simp_all add: item_frames_def case_prod_unfold)
  then show ?thesis
    by (metis set_map)
qed

lemma item_frame_depth: "f \<in> set (item_frames vs path n) \<Longrightarrow> snd (snd f) = Suc n"
  by (auto simp: item_frames_def)

lemma item_frames_ok:
  "list_all frame_ok (item_frames vs path n) \<longleftrightarrow>
     (\<forall>x \<in> set (map json_depth vs). Suc n + x \<le> Suc MAX_JSON_DEPTH) \<and> list_all json_utf8 vs"
proof -
  have "list_all frame_ok (item_frames vs path n) \<longleftrightarrow>
      (\<forall>v \<in> fst ` set (item_frames vs path n). Suc n + json_depth v \<le> Suc MAX_JSON_DEPTH \<and> json_utf8 v)"
    using item_frame_depth [of _ vs path n]
    by (auto simp: list_all_iff frame_ok_def case_prod_unfold)
  then show ?thesis
    unfolding set_item_frames by (auto simp: list_all_iff)
qed

lemma check_text_ok: "check_text s path = Inr u \<longleftrightarrow> utf8_ok s"
  by (simp add: check_text_def ensure_eq_Inr)

lemma check_keys_ok: "(\<exists>us. mapM_r (\<lambda>(k, v). check_text k path) d = Inr us) \<longleftrightarrow> list_all (\<lambda>(k, v). utf8_ok k) d"
  by (induction d) (auto simp: res_simps check_text_ok)

lemma list_all_rev_append: "list_all P (rev xs @ ys) \<longleftrightarrow> list_all P xs \<and> list_all P ys"
  by (auto simp: list_all_iff)

lemma check_loop_ok: "check_loop st = Inr () \<longleftrightarrow> list_all frame_ok st"
proof (induction st rule: check_loop.induct)
  case (2 item path depth stack)
  show ?case
  proof (cases "MAX_JSON_DEPTH < depth")
    case True
    then show ?thesis
      using json_depth_pos [of item] by (simp add: frame_ok_def)
  next
    case False
    show ?thesis
    proof (cases item)
      case (JStr s)
      then show ?thesis
        using False 2(5) [OF False JStr] check_text_ok [of s path] by (auto simp: res_simps frame_ok_def)
    next
      case (JArr vs)
      have "check_loop ((item, path, depth) # stack) = Inr () \<longleftrightarrow>
          list_all frame_ok (item_frames vs path depth) \<and> list_all frame_ok stack"
        using False 2(6) [OF False JArr] by (simp add: JArr list_all_rev_append)
      also have "\<dots> \<longleftrightarrow> list_all frame_ok ((item, path, depth) # stack)"
        using False unfolding item_frames_ok by (simp add: JArr frame_ok_def add_foldr_max)
      finally show ?thesis .
    next
      case (JObj d)
      have "check_loop ((item, path, depth) # stack) = Inr () \<longleftrightarrow>
          list_all (\<lambda>(k, v). utf8_ok k) d \<and> list_all frame_ok (member_frames d path depth) \<and> list_all frame_ok stack"
        using False 2(7) [OF False JObj] check_keys_ok [of path d] by (auto simp: JObj res_simps list_all_rev_append)
      also have "\<dots> \<longleftrightarrow> list_all frame_ok ((item, path, depth) # stack)"
        using False unfolding member_frames_ok
        by (simp add: JObj frame_ok_def add_foldr_max) (auto simp: list_all_iff)
      finally show ?thesis .
    qed (use False 2 in \<open>auto simp: frame_ok_def\<close>)
  qed
qed simp

lemma check_json_value_ok:
  "check_json_value v path = Inr () \<longleftrightarrow> json_depth v \<le> MAX_JSON_DEPTH \<and> json_utf8 v"
  by (simp add: check_json_value_def check_loop_ok frame_ok_def del: check_loop.simps)

lemma check_text_error: "check_text s path = Inl e \<Longrightarrow> \<exists>m. e = PValueError m"
  by (auto simp: check_text_def ensure_eq_Inl)

lemma check_keys_error: "mapM_r (\<lambda>(k, v). check_text k path) d = Inl e \<Longrightarrow> \<exists>m. e = PValueError m"
  by (induction d) (auto simp: res_simps dest: check_text_error)

lemma check_loop_error: "check_loop st = Inl e \<Longrightarrow> \<exists>m. e = PValueError m"
proof (induction st rule: check_loop.induct)
  case (2 item path depth stack)
  show ?case
    by (cases item) (use 2 in \<open>auto simp: res_simps depth_error_def split: if_splits
        dest: check_text_error check_keys_error\<close>)
qed simp

section \<open>Whole floats as integers\<close>

text \<open>
  \<open>int(v)\<close> of a whole binary64: its shortest decimal is a whole number too, and rounding that number to 53
  significant bits, halves to even, gives the exact value.
\<close>

fun bit_length :: "nat \<Rightarrow> nat" where
  "bit_length n = (if n = 0 then 0 else Suc (bit_length (n div 2)))"

declare bit_length.simps [simp del]

definition round_binary64 :: "nat \<Rightarrow> nat" where
  "round_binary64 n =
     (let unit = 2 ^ (bit_length n - 53); q = n div unit; r = n mod unit
      in (if unit < 2 * r \<or> (unit = 2 * r \<and> odd q) then q + 1 else q) * unit)"

definition whole_float :: "pyfloat \<Rightarrow> int option" where
  "whole_float f =
     (case f of
        FZero _ \<Rightarrow> Some 0
      | FFin neg ds p \<Rightarrow>
          if int (length ds) \<le> p
          then (let n = int (round_binary64 (foldl (\<lambda>a d. 10 * a + d) 0 ds * 10 ^ nat (p - int (length ds))))
                in Some (if neg then - n else n))
          else None
      | _ \<Rightarrow> None)"

fun integral_floats :: "json \<Rightarrow> json" where
  "integral_floats (JFloat f) = (case whole_float f of None \<Rightarrow> JFloat f | Some i \<Rightarrow> JInt i)"
| "integral_floats (JArr vs) = JArr (map integral_floats vs)"
| "integral_floats (JObj d) = JObj (map (\<lambda>(k, v). (k, integral_floats v)) d)"
| "integral_floats v = v"

definition digest_json :: "produce_env \<Rightarrow> json \<Rightarrow> produce_error + string" where
  "digest_json env v =
     sbind (check_json_value v ''$'') (\<lambda>_. canonical (pe_json_digest env (integral_floats v)))"

lemma integral_floats_depth: "json_depth (integral_floats v) = json_depth v"
proof (induction v rule: integral_floats.induct)
  case (2 vs)
  then show ?case by (simp add: comp_def cong: map_cong)
next
  case (3 d)
  then have eq: "map (\<lambda>x. json_depth (integral_floats (snd x))) d = map (\<lambda>x. json_depth (snd x)) d"
    by (intro map_cong) auto
  show ?case by (simp add: comp_def case_prod_unfold) (simp only: eq)
qed (auto split: option.splits)

lemma integral_floats_idem: "integral_floats (integral_floats v) = integral_floats v"
proof (induction v rule: integral_floats.induct)
  case (3 d)
  then show ?case by auto
qed (auto split: option.splits)

section \<open>Strict decoding\<close>

datatype json_input = InBytes string | InText string | InOther

definition decode_strict :: "produce_env \<Rightarrow> json_input \<Rightarrow> produce_error + json" where
  "decode_strict env data =
     sbind (case data of
              InBytes b \<Rightarrow> if utf8_ok b then Inr b else Inl (PValueError ''JSON must be UTF-8'')
            | InText t \<Rightarrow> Inr t
            | InOther \<Rightarrow> Inl (PTypeError ''JSON input must be bytes or str'')) (\<lambda>text.
       (case json_loads ((pe_json env)\<lparr>je_strict := True\<rparr>) text of
          None \<Rightarrow> Inl (PValueError ''invalid JSON'')
        | Some v \<Rightarrow>
            if pe_recursion env < json_depth v then Inl depth_error
            else sbind (check_json_value v ''$'') (\<lambda>_. Inr v)))"

lemma decode_strict_ok:
  assumes "decode_strict env data = Inr v"
  shows "json_depth v \<le> MAX_JSON_DEPTH \<and> json_utf8 v"
  using assms
  by (auto simp: decode_strict_def res_simps check_json_value_ok split: option.splits if_splits)


section \<open>The check as a whole\<close>

text \<open>C37: \<open>check_json_value\<close> walks the value with a stack of its own; it always ends, accepts exactly the
  values whose nesting is at most \<open>MAX_JSON_DEPTH\<close> and whose texts are all valid Unicode, whatever the shape
  of the value and the order of the walk, and raises \<open>ValueError\<close> for every other.\<close>

theorem json_check_accepts_iff_shallow_text:
  "if json_depth v \<le> MAX_JSON_DEPTH \<and> json_utf8 v then check_json_value v path = Inr ()
   else \<exists>m. check_json_value v path = Inl (PValueError m)"
proof (cases "check_json_value v path")
  case (Inl e)
  then show ?thesis
    using check_json_value_ok [of v path] check_loop_error [of "[(v, path, 1)]" e]
    by (simp add: check_json_value_def del: check_loop.simps)
next
  case (Inr u)
  then show ?thesis
    using check_json_value_ok [of v path] by simp
qed

end
