(* ===== verification/Produce_Timestamp.thy ===== *)
theory Produce_Timestamp
  imports Produce_Digest Artifact_Index
begin

text \<open>
  \<open>format_timestamp\<close> of \<open>produce/build.py\<close>: the normalisation of a time stamp, an RFC 3339 string or an
  aware \<open>datetime\<close>, to UTC with whole seconds or six fractional digits.  The theorems are stated over
  \<open>parse_timestamp\<close> of \<open>artifact/index.py\<close>, the reader of what is written here.
\<close>

section \<open>Dates\<close>

text \<open>A \<open>datetime\<close> holds civil fields of a year from 1 to 9999.  Subtracting an offset of less than a day
  moves it by at most one day; outside the range \<open>OverflowError\<close> is raised.\<close>

record datetime =
  dt_date :: "int \<times> int \<times> int"
  dt_micros :: int

datatype timestamp = Datetime datetime "int option" | TsText string | TsOther

definition prev_date :: "int \<times> int \<times> int \<Rightarrow> int \<times> int \<times> int" where
  "prev_date = (\<lambda>(y, m, d).
     if 1 < d then (y, m, d - 1)
     else if 1 < m then (y, m - 1, days_in y (m - 1)) else (y - 1, 12, 31))"

definition shift_back :: "datetime \<Rightarrow> int \<Rightarrow> datetime option" where
  "shift_back dt offset =
     (let t = dt_micros dt - offset;
          (date, t') = (if t < 0 then (prev_date (dt_date dt), t + day_micros)
                        else if day_micros \<le> t then (next_date (dt_date dt), t - day_micros)
                        else (dt_date dt, t))
      in if 1 \<le> fst date \<and> fst date \<le> 9999 then Some \<lparr>dt_date = date, dt_micros = t'\<rparr> else None)"

section \<open>Reading and writing\<close>

definition two_digits :: "int \<Rightarrow> string" where
  "two_digits n = [digit_char (nat n div 10), digit_char (nat n mod 10)]"

definition four_digits :: "int \<Rightarrow> string" where
  "four_digits n = two_digits (n div 100) @ two_digits (n mod 100)"

definition six_digits :: "int \<Rightarrow> string" where
  "six_digits n = two_digits (n div 10000) @ four_digits (n mod 10000)"

definition clock_text :: "int \<Rightarrow> string" where
  "clock_text seconds =
     two_digits (seconds div 3600) @ '':'' @ two_digits (seconds div 60 mod 60) @ '':'' @ two_digits (seconds mod 60)"

definition fraction_text :: "int \<Rightarrow> string" where
  "fraction_text us = (if us = 0 then [] else CHR ''.'' # six_digits us)"

definition render_utc :: "datetime \<Rightarrow> string" where
  "render_utc dt =
     (case dt_date dt of (y, m, d) \<Rightarrow>
        four_digits y @ ''-'' @ two_digits m @ ''-'' @ two_digits d @ ''T'' @
        clock_text (dt_micros dt div 1000000) @ fraction_text (dt_micros dt mod 1000000) @ ''Z'')"

text \<open>The match of \<open>_TIMESTAMP\<close> and \<open>strptime\<close> with its ranges; the digits of the fraction are returned too,
  the last seconds of a minute are 0 to 59.\<close>

definition ts_invalid :: produce_error where "ts_invalid = PValueError ''timestamp is invalid''"
definition ts_required :: produce_error where "ts_required = PValueError ''timestamp is required''"

definition match_timestamp ::
    "string \<Rightarrow> ((int \<times> int \<times> int \<times> int \<times> int \<times> int) \<times> string option \<times> (char \<times> int \<times> int) option) option" where
  "match_timestamp s =
     Option.bind (take_civil ''T'' s) (\<lambda>(civil, s).
     Option.bind (take_fraction s) (\<lambda>(fraction, s).
     Option.bind (take_zone ''Z'' s) (\<lambda>zone.
       if (case fraction of None \<Rightarrow> True | Some ds \<Rightarrow> length ds \<le> 9) then Some (civil, fraction, zone) else None)))"

definition read_text :: "string \<Rightarrow> produce_error + (datetime \<times> string)" where
  "read_text s =
     (case match_timestamp s of
        None \<Rightarrow> Inl (PValueError ''timestamp must be RFC 3339 with timezone'')
      | Some ((year, month, day, hour, minute, second), fraction, zone) \<Rightarrow>
          if \<not> (1 \<le> year \<and> valid_date year month day \<and> hour \<le> 23 \<and> minute \<le> 59 \<and> second \<le> 59) then Inl ts_invalid
          else sbind (case zone of
                  None \<Rightarrow> Inr 0
                | Some (sign, hours, minutes) \<Rightarrow>
                    if 23 < hours \<or> 59 < minutes then Inl ts_invalid
                    else Inr ((if sign = CHR ''-'' then - 1 else 1) * (hours * 60 + minutes) * 60000000)) (\<lambda>offset.
               (case shift_back \<lparr>dt_date = (year, month, day),
                                 dt_micros = (hour * 3600 + minute * 60 + second) * 1000000\<rparr> offset of
                  None \<Rightarrow> Inl ts_invalid
                | Some dt \<Rightarrow> Inr (dt\<lparr>dt_micros := dt_micros dt + micros_of fraction\<rparr>,
                                 case fraction of None \<Rightarrow> [] | Some ds \<Rightarrow> ds))))"

text \<open>The instant in UTC and the digits of the fraction as they were given.\<close>

definition utc_of :: "timestamp \<Rightarrow> produce_error + (datetime \<times> string)" where
  "utc_of ts =
     (case ts of
        Datetime dt None \<Rightarrow> Inl (PValueError ''timestamp must be timezone-aware'')
      | Datetime dt (Some offset) \<Rightarrow>
          (case shift_back dt offset of None \<Rightarrow> Inl ts_invalid | Some utc \<Rightarrow> Inr (utc, []))
      | TsText s \<Rightarrow> read_text s
      | TsOther \<Rightarrow> Inl ts_required)"

definition GO_ZERO_TIME :: datetime where
  "GO_ZERO_TIME = \<lparr>dt_date = (1, 1, 1), dt_micros = 0\<rparr>"

definition format_timestamp :: "timestamp \<Rightarrow> produce_error + string" where
  "format_timestamp ts =
     sbind (utc_of ts) (\<lambda>(utc, fraction).
       if utc = GO_ZERO_TIME \<and> list_all (\<lambda>c. c = CHR ''0'') fraction then Inl ts_required
       else Inr (render_utc utc))"

section \<open>The clock\<close>

definition wf_datetime :: "datetime \<Rightarrow> bool" where
  "wf_datetime dt \<longleftrightarrow>
     (case dt_date dt of (y, m, d) \<Rightarrow> 1 \<le> y \<and> y \<le> 9999 \<and> valid_date y m d) \<and>
     0 \<le> dt_micros dt \<and> dt_micros dt < day_micros"

definition instant_of :: "datetime \<Rightarrow> int" where
  "instant_of dt = (case dt_date dt of (y, m, d) \<Rightarrow> days_from_civil y m d * day_micros + dt_micros dt)"

lemma prev_date_next:
  assumes "valid_date y m d"
  shows "next_date (prev_date (y, m, d)) = (y, m, d) \<and>
    (case prev_date (y, m, d) of (y', m', d') \<Rightarrow> valid_date y' m' d')"
  using assms by (auto simp: prev_date_def next_date_def valid_date_def days_in_def split: if_splits)

lemma shift_back_instant:
  assumes "wf_datetime dt" "\<bar>offset\<bar> < day_micros" "shift_back dt offset = Some dt'"
  shows "wf_datetime dt' \<and> instant_of dt' = instant_of dt - offset"
proof -
  obtain y m d where date: "dt_date dt = (y, m, d)" by (cases "dt_date dt") auto
  have wf: "valid_date y m d" "0 \<le> dt_micros dt" "dt_micros dt < day_micros"
    using assms(1) by (simp_all add: wf_datetime_def date)
  define t where "t = dt_micros dt - offset"
  have bounds: "- day_micros < t" "t < 2 * day_micros"
    using wf assms(2) by (simp_all add: t_def)
  consider "t < 0" | "0 \<le> t" "t < day_micros" | "day_micros \<le> t" by linarith
  then show ?thesis
  proof cases
    case 1
    obtain y' m' d' where p: "prev_date (y, m, d) = (y', m', d')" by (metis prod_cases3)
    have prev: "next_date (y', m', d') = (y, m, d)" "valid_date y' m' d'"
      using prev_date_next [OF wf(1)] by (simp_all add: p)
    have "days_from_civil y m d = days_from_civil y' m' d' + 1"
      by (rule days_from_civil_next [OF prev(2) prev(1)])
    then show ?thesis
      using assms(3) 1 bounds prev(2)
      by (auto simp: shift_back_def Let_def date p wf_datetime_def instant_of_def t_def algebra_simps split: if_splits)
  next
    case 2
    then show ?thesis
      using assms(3) wf
      by (auto simp: shift_back_def Let_def date wf_datetime_def instant_of_def t_def split: if_splits)
  next
    case 3
    obtain y' m' d' where p: "next_date (y, m, d) = (y', m', d')" by (metis prod_cases3)
    have "0 \<le> t" using 3 by (simp add: day_micros_def)
    then show ?thesis
      using assms(3) 3 bounds days_from_civil_next [OF wf(1) p] next_date_valid [OF wf(1) p]
      by (auto simp: shift_back_def Let_def date p wf_datetime_def instant_of_def t_def algebra_simps split: if_splits)
  qed
qed

lemma shift_back_zero: "wf_datetime dt \<Longrightarrow> shift_back dt 0 = Some dt"
  by (auto simp: shift_back_def Let_def wf_datetime_def)


section \<open>Reading what was written\<close>

lemma two_digits_val:
  assumes "0 \<le> n" "n < 100"
  shows "list_all is_digit (two_digits n) \<and> int (digits_val (two_digits n)) = n"
proof -
  have "nat n div 10 < 10" "nat n mod 10 < 10"
    using assms by auto
  then show ?thesis
    using assms by (simp add: two_digits_def digits_val_def)
qed

lemma length_two_digits [simp]: "length (two_digits n) = 2"
  by (simp add: two_digits_def)

lemma take_digits_exact:
  "list_all is_digit ds \<Longrightarrow> length ds = n \<Longrightarrow> take_digits n (ds @ r) = Some (int (digits_val ds), r)"
  by (auto simp: take_digits_def)

lemma take_two_digits: "0 \<le> n \<Longrightarrow> n < 100 \<Longrightarrow> take_digits 2 (two_digits n @ r) = Some (n, r)"
  using two_digits_val [of n] take_digits_exact [of "two_digits n" 2 r] by simp

lemma digits_val_append: "digits_val (s @ t) = digits_val s * 10 ^ length t + digits_val t"
  by (induction t rule: rev_induct) (simp_all add: algebra_simps flip: append_assoc)

lemma digits_pair:
  assumes "list_all is_digit s" "int (digits_val s) = n div k" "length s = i"
    "list_all is_digit t" "int (digits_val t) = n mod k" "k = 10 ^ length t" "length t = j"
  shows "list_all is_digit (s @ t) \<and> int (digits_val (s @ t)) = n \<and> length (s @ t) = i + j"
proof -
  have "int (digits_val (s @ t)) = n div k * k + n mod k"
    using assms by (simp add: digits_val_append)
  also have "\<dots> = n" by simp
  finally show ?thesis using assms by simp
qed

lemma four_digits_val:
  assumes "0 \<le> n" "n < 10000"
  shows "list_all is_digit (four_digits n) \<and> int (digits_val (four_digits n)) = n \<and> length (four_digits n) = 4"
proof -
  have "0 \<le> n div 100" "n div 100 < 100" "0 \<le> n mod 100" "n mod 100 < 100" using assms by auto
  then show ?thesis
    unfolding four_digits_def
    using digits_pair [of "two_digits (n div 100)" n 100 2 "two_digits (n mod 100)" 2] two_digits_val by simp
qed

lemma six_digits_val:
  assumes "0 \<le> n" "n < 1000000"
  shows "list_all is_digit (six_digits n) \<and> int (digits_val (six_digits n)) = n \<and> length (six_digits n) = 6"
proof -
  have "0 \<le> n div 10000" "n div 10000 < 100" "0 \<le> n mod 10000" "n mod 10000 < 10000" using assms by auto
  then show ?thesis
    unfolding six_digits_def
    using digits_pair [of "two_digits (n div 10000)" n 10000 2 "four_digits (n mod 10000)" 4]
      two_digits_val four_digits_val by simp
qed

lemma take_four_digits: "0 \<le> n \<Longrightarrow> n < 10000 \<Longrightarrow> take_digits 4 (four_digits n @ r) = Some (n, r)"
  using four_digits_val [of n] take_digits_exact [of "four_digits n" 4 r] by simp

lemma take_civil_text:
  assumes "0 \<le> y" "y < 10000" "0 \<le> m" "m < 100" "0 \<le> d" "d < 100" "0 \<le> h" "h < 100" "0 \<le> i" "i < 100"
    "0 \<le> s" "s < 100"
  shows "take_civil ''T'' (four_digits y @ ''-'' @ two_digits m @ ''-'' @ two_digits d @ ''T'' @
      (two_digits h @ '':'' @ two_digits i @ '':'' @ two_digits s) @ r) = Some ((y, m, d, h, i, s), r)"
  using assms by (simp add: take_civil_def take_four_digits take_two_digits)

definition fraction_digits :: "int \<Rightarrow> string option" where
  "fraction_digits us = (if us = 0 then None else Some (six_digits us))"

lemma take_fraction_text:
  assumes "0 \<le> us" "us < 1000000"
  shows "take_fraction (fraction_text us @ ''Z'') = Some (fraction_digits us, ''Z'')"
proof (cases "us = 0")
  case False
  have ds: "list_all is_digit (six_digits us)" "six_digits us \<noteq> []" "\<not> is_digit (CHR ''Z'')"
    using six_digits_val [OF assms] by (auto simp: is_digit_def)
  then have "takeWhile is_digit (six_digits us @ ''Z'') = six_digits us"
    "dropWhile is_digit (six_digits us @ ''Z'') = ''Z''"
    by (simp_all add: list_all_iff takeWhile_append2 dropWhile_append2)
  with False ds show ?thesis
    by (simp add: take_fraction_def fraction_text_def fraction_digits_def Let_def)
qed (simp add: take_fraction_def fraction_text_def fraction_digits_def)

lemma micros_of_fraction_digits:
  assumes "0 \<le> us" "us < 1000000"
  shows "micros_of (fraction_digits us) = us"
  using six_digits_val [OF assms] by (auto simp: micros_of_def fraction_digits_def)

lemma clock_parts:
  assumes "0 \<le> us" "us < day_micros"
  shows "us = ((us div 1000000 div 3600) * 3600 + (us div 1000000 div 60 mod 60) * 60 + us div 1000000 mod 60) * 1000000
           + us mod 1000000"
    and "0 \<le> us div 1000000 div 3600 \<and> us div 1000000 div 3600 \<le> 23"
    and "0 \<le> us div 1000000 div 60 mod 60 \<and> us div 1000000 div 60 mod 60 \<le> 59"
    and "0 \<le> us div 1000000 mod 60 \<and> us div 1000000 mod 60 \<le> 59"
proof -
  define s where "s = us div 1000000"
  have us: "us = s * 1000000 + us mod 1000000" by (simp add: s_def)
  have s: "0 \<le> s" "s < 86400"
    using assms by (simp_all add: s_def day_micros_def)
  have hour: "s div 60 div 60 = s div 3600" using zdiv_zmult2_eq [of 60 s 60] by simp
  have "s = s div 60 * 60 + s mod 60" by simp
  also have "s div 60 = s div 3600 * 60 + s div 60 mod 60"
    using div_mult_mod_eq [of "s div 60" 60] by (simp add: hour)
  finally have "s = s div 3600 * 3600 + s div 60 mod 60 * 60 + s mod 60" by simp
  then show "us = ((us div 1000000 div 3600) * 3600 + (us div 1000000 div 60 mod 60) * 60 + us div 1000000 mod 60)
      * 1000000 + us mod 1000000"
    using us by (simp add: s_def [symmetric])
  show "0 \<le> us div 1000000 div 3600 \<and> us div 1000000 div 3600 \<le> 23"
    using s by (simp add: s_def [symmetric]) linarith
  show "0 \<le> us div 1000000 div 60 mod 60 \<and> us div 1000000 div 60 mod 60 \<le> 59"
    using pos_mod_bound [of 60 "s div 60"] by (simp add: s_def [symmetric])
  show "0 \<le> us div 1000000 mod 60 \<and> us div 1000000 mod 60 \<le> 59"
    using pos_mod_bound [of 60 s] by (simp add: s_def [symmetric])
qed


lemma valid_date_bounds: "valid_date y m d \<Longrightarrow> 1 \<le> m \<and> m \<le> 12 \<and> 1 \<le> d \<and> d \<le> 31"
  by (auto simp: valid_date_def days_in_def split: if_splits)

lemma match_render:
  assumes "wf_datetime dt" "dt_date dt = (y, m, d)"
  shows "match_timestamp (render_utc dt) =
    Some ((y, m, d, dt_micros dt div 1000000 div 3600, dt_micros dt div 1000000 div 60 mod 60,
           dt_micros dt div 1000000 mod 60), fraction_digits (dt_micros dt mod 1000000), None)"
proof -
  define us where "us = dt_micros dt"
  have date: "0 \<le> y" "y < 10000" "0 \<le> m" "m < 100" "0 \<le> d" "d < 100" and us: "0 \<le> us" "us < day_micros"
    using assms valid_date_bounds [of y m d] by (auto simp: wf_datetime_def us_def)
  have lt: "0 \<le> a \<and> a \<le> k \<Longrightarrow> k < 100 \<Longrightarrow> 0 \<le> a \<and> a < 100" for a k :: int
    by simp
  have clock: "0 \<le> us div 1000000 div 3600" "us div 1000000 div 3600 < 100" "0 \<le> us div 1000000 div 60 mod 60"
    "us div 1000000 div 60 mod 60 < 100" "0 \<le> us div 1000000 mod 60" "us div 1000000 mod 60 < 100"
    using lt [OF clock_parts(2) [OF us]] lt [OF clock_parts(3) [OF us]] lt [OF clock_parts(4) [OF us]]
    by (simp_all only: numeral_less_iff semiring_norm simp_thms)
  have frac: "0 \<le> us mod 1000000" "us mod 1000000 < 1000000" by simp_all
  have len: "case fraction_digits (us mod 1000000) of None \<Rightarrow> True | Some ds \<Rightarrow> length ds \<le> 9"
    using six_digits_val [OF frac] by (simp add: fraction_digits_def)
  have civil: "take_civil ''T'' (render_utc dt) =
      Some ((y, m, d, us div 1000000 div 3600, us div 1000000 div 60 mod 60, us div 1000000 mod 60),
            fraction_text (us mod 1000000) @ ''Z'')"
    unfolding render_utc_def assms(2) clock_text_def us_def [symmetric] prod.case
    by (rule take_civil_text [OF date clock])
  have zone: "take_zone ''Z'' ''Z'' = Some None"
    by (simp add: take_zone_def)
  show ?thesis
    unfolding match_timestamp_def us_def [symmetric] civil Option.bind.bind_lunit prod.case take_fraction_text [OF frac] zone
    using len by (simp only: if_True)
qed

lemma wf_shift_zero:
  assumes "wf_datetime dt"
  shows "shift_back (dt\<lparr>dt_micros := dt_micros dt div 1000000 * 1000000\<rparr>) 0
       = Some (dt\<lparr>dt_micros := dt_micros dt div 1000000 * 1000000\<rparr>)"
proof (rule shift_back_zero)
  have "dt_micros dt div 1000000 * 1000000 \<le> dt_micros dt"
    using div_mult_mod_eq [of "dt_micros dt" 1000000] pos_mod_sign [of 1000000 "dt_micros dt"] by linarith
  then show "wf_datetime (dt\<lparr>dt_micros := dt_micros dt div 1000000 * 1000000\<rparr>)"
    using assms by (simp add: wf_datetime_def pos_imp_zdiv_nonneg_iff)
qed

lemma whole_seconds:
  assumes "0 \<le> us" "us < day_micros"
  shows "(us div 1000000 div 3600 * 3600 + us div 1000000 div 60 mod 60 * 60 + us div 1000000 mod 60) * 1000000
       = us div 1000000 * 1000000"
  using clock_parts(1) [OF assms] div_mult_mod_eq [of us 1000000] by linarith

lemma read_text_match:
  assumes "match_timestamp t = Some ((y, m, d, h, i, s), f, None)" "1 \<le> y" "valid_date y m d"
    "h \<le> 23" "i \<le> 59" "s \<le> 59"
    "shift_back \<lparr>dt_date = (y, m, d), dt_micros = (h * 3600 + i * 60 + s) * 1000000\<rparr> 0 = Some dt"
  shows "read_text t = Inr (dt\<lparr>dt_micros := dt_micros dt + micros_of f\<rparr>, case f of None \<Rightarrow> [] | Some ds \<Rightarrow> ds)"
  using assms by (simp add: read_text_def)

lemma read_render:
  assumes "wf_datetime dt"
  shows "read_text (render_utc dt) =
    Inr (dt, case fraction_digits (dt_micros dt mod 1000000) of None \<Rightarrow> [] | Some ds \<Rightarrow> ds)"
proof -
  obtain y m d where date: "dt_date dt = (y, m, d)" by (cases "dt_date dt") auto
  define us where "us = dt_micros dt"
  have wf: "1 \<le> y" "valid_date y m d" and us: "0 \<le> us" "us < day_micros"
    using assms by (auto simp: wf_datetime_def date us_def)
  note clock = clock_parts(2-4) [OF us, THEN conjunct2]
  have base: "\<lparr>dt_date = (y, m, d), dt_micros = us div 1000000 * 1000000\<rparr> = dt\<lparr>dt_micros := us div 1000000 * 1000000\<rparr>"
    by (cases dt) (use date in simp)
  have whole: "dt\<lparr>dt_micros := us div 1000000 * 1000000 + us mod 1000000\<rparr> = dt"
    by (cases dt) (simp add: us_def)
  have shift: "shift_back \<lparr>dt_date = (y, m, d), dt_micros = (us div 1000000 div 3600 * 3600 +
      us div 1000000 div 60 mod 60 * 60 + us div 1000000 mod 60) * 1000000\<rparr> 0
      = Some (dt\<lparr>dt_micros := us div 1000000 * 1000000\<rparr>)"
    unfolding whole_seconds [OF us] base using wf_shift_zero [OF assms] by (simp only: us_def)
  have frac: "0 \<le> us mod 1000000" "us mod 1000000 < 1000000" by simp_all
  have "dt\<lparr>dt_micros := us div 1000000 * 1000000, dt_micros := dt_micros (dt\<lparr>dt_micros := us div 1000000 * 1000000\<rparr>) +
      micros_of (fraction_digits (us mod 1000000))\<rparr> = dt"
    unfolding micros_of_fraction_digits [OF frac] using whole by (cases dt) (simp only: datetime.simps)
  then show ?thesis
    using read_text_match [OF match_render [OF assms date, folded us_def] wf clock shift] by (simp only: us_def [symmetric])
qed

lemma parse_timestamp_match:
  "parse_timestamp s =
     (case match_timestamp s of
        None \<Rightarrow> None
      | Some ((year, month, day, hour, minute, second), fraction, zone) \<Rightarrow>
          if valid_date year month day \<and> hour \<le> 23 \<and> minute \<le> 59 \<and> second \<le> 59
             \<and> (case zone of None \<Rightarrow> True | Some (_, oh, om) \<Rightarrow> oh \<le> 23 \<and> om \<le> 59)
          then let offset = (case zone of None \<Rightarrow> 0
                     | Some (sign, oh, om) \<Rightarrow> if sign = CHR ''-'' then - (oh * 60 + om) else oh * 60 + om)
               in Some (time_micros year month day hour minute second (micros_of fraction) - offset * 60000000)
          else None)"
proof (cases "take_civil ''T'' s")
  case (Some p)
  obtain y m d h i sec r where p: "p = ((y, m, d, h, i, sec), r)" by (metis prod.exhaust)
  show ?thesis
  proof (cases "take_fraction r")
    case fr: (Some q)
    obtain f r' where q: "q = (f, r')" by (cases q) auto
    show ?thesis
    proof (cases "take_zone ''Z'' r'")
      case zone: (Some z)
      show ?thesis
        by (cases "case f of None \<Rightarrow> True | Some ds \<Rightarrow> length ds \<le> 9")
          (simp_all add: parse_timestamp_def match_timestamp_def Some p fr q zone)
    qed (simp add: parse_timestamp_def match_timestamp_def Some p fr q)
  qed (simp add: parse_timestamp_def match_timestamp_def Some p)
qed (simp add: parse_timestamp_def match_timestamp_def)

lemma parse_timestamp_utc:
  assumes "match_timestamp t = Some ((y, m, d, h, i, s), f, None)" "valid_date y m d" "h \<le> 23" "i \<le> 59" "s \<le> 59"
  shows "parse_timestamp t = Some (time_micros y m d h i s (micros_of f))"
  using assms by (simp add: parse_timestamp_match)

lemma time_micros_clock:
  "us = (h * 3600 + i * 60 + s) * 1000000 + f \<Longrightarrow> time_micros y m d h i s f = days_from_civil y m d * day_micros + us"
  by (simp add: time_micros_def day_micros_def)

lemma parse_render:
  assumes "wf_datetime dt"
  shows "parse_timestamp (render_utc dt) = Some (instant_of dt)"
proof -
  obtain y m d where date: "dt_date dt = (y, m, d)" by (cases "dt_date dt") auto
  define us where "us = dt_micros dt"
  have wf: "valid_date y m d" and us: "0 \<le> us" "us < day_micros"
    using assms by (auto simp: wf_datetime_def date us_def)
  have time: "time_micros y m d (us div 1000000 div 3600) (us div 1000000 div 60 mod 60) (us div 1000000 mod 60)
      (us mod 1000000) = instant_of dt"
    using time_micros_clock [OF clock_parts(1) [OF us]] by (simp only: instant_of_def date us_def [symmetric] prod.case)
  have frac: "0 \<le> us mod 1000000" "us mod 1000000 < 1000000" by simp_all
  show ?thesis
    using parse_timestamp_utc [OF match_render [OF assms date, folded us_def] wf clock_parts(2-4) [OF us, THEN conjunct2]]
    by (simp only: micros_of_fraction_digits [OF frac] time)
qed


section \<open>What is read\<close>

lemma take_civil_nonneg:
  "take_civil ts s = Some ((y, m, d, h, i, sec), r) \<Longrightarrow> y < 10000 \<and> 0 \<le> h \<and> 0 \<le> i \<and> 0 \<le> sec"
  unfolding take_civil_def by (auto simp: Option.bind_eq_Some_conv dest!: take_digits_bound split: prod.splits)

lemma take_zone_nonneg: "take_zone zs s = Some (Some (sign, h, m)) \<Longrightarrow> 0 \<le> h \<and> 0 \<le> m"
  unfolding take_zone_def
  by (auto simp: Option.bind_eq_Some_conv dest!: take_digits_bound split: prod.splits list.splits if_splits)

lemma take_fraction_digits: "take_fraction s = Some (Some ds, r) \<Longrightarrow> list_all is_digit ds"
  by (auto simp: take_fraction_def Let_def list_all_iff split: list.splits char.splits bool.splits if_splits
      dest: set_takeWhileD)

lemma micros_of_range:
  assumes "case f of None \<Rightarrow> True | Some ds \<Rightarrow> list_all is_digit ds"
  shows "0 \<le> micros_of f \<and> micros_of f < 1000000"
proof (cases f)
  case (Some ds)
  define s where "s = take 6 (ds @ replicate 5 CHR ''0'')"
  have "list_all is_digit (ds @ replicate 5 CHR ''0'')"
    using assms by (simp add: Some is_digit_def list_all_iff)
  then have "list_all is_digit s"
    by (auto simp: s_def list_all_iff dest: in_set_takeD)
  then have "digits_val s < 10 ^ length s" by (rule digits_val_bound)
  also have "(10 :: nat) ^ length s \<le> 10 ^ 6" by (rule power_increasing) (simp_all add: s_def)
  finally show ?thesis by (simp add: micros_of_def Some s_def)
qed (simp add: micros_of_def)

lemma match_timestamp_parts:
  assumes "match_timestamp s = Some ((y, m, d, h, i, sec), f, z)"
  shows "y < 10000 \<and> 0 \<le> h \<and> 0 \<le> i \<and> 0 \<le> sec" and "0 \<le> micros_of f \<and> micros_of f < 1000000"
    and "z = Some (sign, oh, om) \<Longrightarrow> 0 \<le> oh \<and> 0 \<le> om"
proof -
  obtain r r' where civil: "take_civil ''T'' s = Some ((y, m, d, h, i, sec), r)"
    and fr: "take_fraction r = Some (f, r')" and zone: "take_zone ''Z'' r' = Some z"
    using assms by (auto simp: match_timestamp_def Option.bind_eq_Some_conv split: if_splits)
  show "y < 10000 \<and> 0 \<le> h \<and> 0 \<le> i \<and> 0 \<le> sec" using take_civil_nonneg [OF civil] .
  show "0 \<le> micros_of f \<and> micros_of f < 1000000"
    by (rule micros_of_range) (use take_fraction_digits fr in \<open>auto split: option.splits\<close>)
  show "0 \<le> oh \<and> 0 \<le> om" if "z = Some (sign, oh, om)"
    using take_zone_nonneg zone that by blast
qed

lemma shift_back_whole_seconds:
  assumes "shift_back dt offset = Some dt'" "1000000 dvd dt_micros dt" "1000000 dvd offset"
  shows "1000000 dvd dt_micros dt'"
proof -
  have "1000000 dvd day_micros" by (simp add: day_micros_def)
  then show ?thesis
    using assms by (auto simp: shift_back_def Let_def split: if_splits)
qed

lemma add_fraction_wf:
  assumes "wf_datetime dt" "1000000 dvd dt_micros dt" "0 \<le> us \<and> us < 1000000"
  shows "wf_datetime (dt\<lparr>dt_micros := dt_micros dt + us\<rparr>) \<and>
    instant_of (dt\<lparr>dt_micros := dt_micros dt + us\<rparr>) = instant_of dt + us"
proof -
  obtain q where q: "dt_micros dt = 1000000 * q" using assms(2) by (auto elim: dvdE)
  have "dt_micros dt + 1000000 \<le> day_micros"
    using assms(1) by (simp add: wf_datetime_def q day_micros_def)
  then show ?thesis
    using assms by (auto simp: wf_datetime_def instant_of_def split: prod.splits)
qed

definition zone_offset :: "(char \<times> int \<times> int) option \<Rightarrow> int" where
  "zone_offset zone = (case zone of None \<Rightarrow> 0
     | Some (sign, oh, om) \<Rightarrow> (if sign = CHR ''-'' then - 1 else 1) * (oh * 60 + om) * 60000000)"

lemma read_text_Inr:
  assumes "read_text s = Inr (dt, fr)"
  obtains y m d h i sec f z dt0 where
    "match_timestamp s = Some ((y, m, d, h, i, sec), f, z)" "1 \<le> y" "valid_date y m d" "h \<le> 23" "i \<le> 59" "sec \<le> 59"
    "case z of None \<Rightarrow> True | Some (_, oh, om) \<Rightarrow> oh \<le> 23 \<and> om \<le> 59"
    "shift_back \<lparr>dt_date = (y, m, d), dt_micros = (h * 3600 + i * 60 + sec) * 1000000\<rparr> (zone_offset z) = Some dt0"
    "dt = dt0\<lparr>dt_micros := dt_micros dt0 + micros_of f\<rparr>" "fr = (case f of None \<Rightarrow> [] | Some ds \<Rightarrow> ds)"
proof -
  obtain y m d h i sec f z where mt: "match_timestamp s = Some ((y, m, d, h, i, sec), f, z)"
    using assms by (cases "match_timestamp s") (auto simp: read_text_def)
  then have ok: "1 \<le> y" "valid_date y m d" "h \<le> 23" "i \<le> 59" "sec \<le> 59"
    using assms by (auto simp: read_text_def split: if_splits)
  have "\<exists>dt0. shift_back \<lparr>dt_date = (y, m, d), dt_micros = (h * 3600 + i * 60 + sec) * 1000000\<rparr> (zone_offset z) = Some dt0 \<and>
      dt = dt0\<lparr>dt_micros := dt_micros dt0 + micros_of f\<rparr> \<and> fr = (case f of None \<Rightarrow> [] | Some ds \<Rightarrow> ds) \<and>
      (case z of None \<Rightarrow> True | Some (_, oh, om) \<Rightarrow> oh \<le> 23 \<and> om \<le> 59)"
    using assms mt ok
    by (cases z) (auto simp: read_text_def zone_offset_def split: option.splits if_splits)
  then show thesis
    using that [OF mt ok] by blast
qed

lemma zone_offset_facts:
  assumes "case z of None \<Rightarrow> True | Some (_, oh, om) \<Rightarrow> oh \<le> 23 \<and> om \<le> 59" "\<And>s a b. z = Some (s, a, b) \<Longrightarrow> 0 \<le> a \<and> 0 \<le> b"
  shows "\<bar>zone_offset z\<bar> < day_micros \<and> 1000000 dvd zone_offset z"
proof (cases z)
  case (Some w)
  obtain s a b where w: "w = (s, a, b)" by (metis prod_cases3)
  have "0 \<le> a" "a \<le> 23" "0 \<le> b" "b \<le> 59"
    using assms(1) assms(2) [of s a b] by (simp_all add: Some w)
  then have "\<bar>(if s = CHR ''-'' then - 1 else 1) * (a * 60 + b) * 60000000\<bar> < day_micros"
    by (simp add: day_micros_def abs_mult)
  moreover have "(1000000 :: int) dvd (if s = CHR ''-'' then - 1 else 1) * (a * 60 + b) * 60000000"
    by (rule dvd_mult) simp
  ultimately show ?thesis by (simp add: zone_offset_def Some w)
qed (simp add: zone_offset_def day_micros_def)

lemma read_text_instant:
  assumes "read_text s = Inr (dt, fr)"
  shows "wf_datetime dt \<and> parse_timestamp s = Some (instant_of dt)"
proof -
  obtain y m d h i sec f z dt0 where mt: "match_timestamp s = Some ((y, m, d, h, i, sec), f, z)"
    and ok: "1 \<le> y" "valid_date y m d" "h \<le> 23" "i \<le> 59" "sec \<le> 59"
    and zone: "case z of None \<Rightarrow> True | Some (_, oh, om) \<Rightarrow> oh \<le> 23 \<and> om \<le> 59"
    and sh: "shift_back \<lparr>dt_date = (y, m, d), dt_micros = (h * 3600 + i * 60 + sec) * 1000000\<rparr> (zone_offset z) = Some dt0"
    and dt: "dt = dt0\<lparr>dt_micros := dt_micros dt0 + micros_of f\<rparr>"
    by (rule read_text_Inr [OF assms])
  have off: "\<bar>zone_offset z\<bar> < day_micros" "1000000 dvd zone_offset z"
    using zone_offset_facts [OF zone match_timestamp_parts(3) [OF mt]] by simp_all
  define base where "base = \<lparr>dt_date = (y, m, d), dt_micros = (h * 3600 + i * 60 + sec) * 1000000\<rparr>"
  have wf: "wf_datetime base"
    using ok match_timestamp_parts(1) [OF mt] by (simp add: base_def wf_datetime_def day_micros_def)
  have dt0: "wf_datetime dt0" "instant_of dt0 = instant_of base - zone_offset z" "1000000 dvd dt_micros dt0"
    using shift_back_instant [OF wf off(1) sh [folded base_def]]
      shift_back_whole_seconds [OF sh [folded base_def] _ off(2)] by (simp_all add: base_def)
  have "parse_timestamp s = Some (time_micros y m d h i sec (micros_of f) - zone_offset z)"
    using mt ok zone by (auto simp: parse_timestamp_match zone_offset_def algebra_simps split: option.splits)
  also have "time_micros y m d h i sec (micros_of f) = instant_of base + micros_of f"
    by (simp add: time_micros_clock [OF refl] instant_of_def base_def)
  finally show ?thesis
    using add_fraction_wf [OF dt0(1) dt0(3) match_timestamp_parts(2) [OF mt]] dt0(2) by (simp add: dt)
qed


section \<open>The normal form\<close>

text \<open>What a \<open>datetime\<close> object is: its fields in range, its offset less than a day.\<close>

fun wf_timestamp :: "timestamp \<Rightarrow> bool" where
  "wf_timestamp (Datetime dt offset) \<longleftrightarrow>
     wf_datetime dt \<and> (case offset of None \<Rightarrow> True | Some z \<Rightarrow> \<bar>z\<bar> < day_micros)"
| "wf_timestamp _ \<longleftrightarrow> True"

definition ts_instant :: "timestamp \<Rightarrow> int option" where
  "ts_instant ts =
     (case ts of
        Datetime dt offset \<Rightarrow> map_option (\<lambda>z. instant_of dt - z) offset
      | TsText s \<Rightarrow> parse_timestamp s
      | TsOther \<Rightarrow> None)"

lemma utc_of_instant:
  assumes "wf_timestamp ts" "utc_of ts = Inr (utc, fr)"
  shows "wf_datetime utc \<and> ts_instant ts = Some (instant_of utc)"
proof (cases ts)
  case (Datetime dt offset)
  then show ?thesis
    using assms by (auto simp: utc_of_def ts_instant_def split: option.splits dest: shift_back_instant)
next
  case (TsText s)
  then show ?thesis
    using assms read_text_instant [of s utc fr] by (simp add: utc_of_def ts_instant_def)
qed (use assms in \<open>simp add: utc_of_def\<close>)

lemma format_timestamp_Inr:
  assumes "format_timestamp ts = Inr s"
  obtains utc fr where "utc_of ts = Inr (utc, fr)" "s = render_utc utc"
  using assms by (auto simp: format_timestamp_def res_simps split: if_splits)

lemma render_go_zero: "render_utc GO_ZERO_TIME = ''0001-01-01T00:00:00Z''"
  by code_simp

lemma micros_of_zeros:
  assumes "wf_datetime utc" "list_all (\<lambda>c. c = CHR ''0'')
    (case fraction_digits (dt_micros utc mod 1000000) of None \<Rightarrow> [] | Some ds \<Rightarrow> ds)" "utc = GO_ZERO_TIME"
  shows "render_utc utc = ''0001-01-01T00:00:00Z''"
  using assms render_go_zero by simp

lemma format_of_rendered:
  assumes "wf_datetime utc"
  shows "format_timestamp (TsText (render_utc utc)) =
    (if utc = GO_ZERO_TIME then Inl ts_required else Inr (render_utc utc))"
proof -
  have "fraction_digits (dt_micros GO_ZERO_TIME mod 1000000) = None"
    by (simp add: fraction_digits_def GO_ZERO_TIME_def)
  then show ?thesis
    by (simp add: format_timestamp_def utc_of_def read_render [OF assms])
qed

text \<open>The text determines the instant, so only the zero time is written as it.\<close>

lemma render_inj:
  assumes "wf_datetime a" "wf_datetime b" "render_utc a = render_utc b"
  shows "a = b"
proof -
  obtain x where x: "read_text (render_utc a) = Inr (a, x)" using read_render [OF assms(1)] by blast
  obtain y where y: "read_text (render_utc b) = Inr (b, y)" using read_render [OF assms(2)] by blast
  show ?thesis
    using x y unfolding assms(3) by simp
qed

text \<open>A time stamp that is accepted is written in a normal form that denotes the same instant, to the
  microsecond, for the reader of the artifact index: what is sealed into a capsule and what \<open>find\<close> later
  compares are the same time, whether the caller passed a string with any offset or a \<open>datetime\<close>.\<close>

theorem formatted_timestamp_keeps_instant:
  assumes "wf_timestamp ts" "format_timestamp ts = Inr s"
  shows "parse_timestamp s = ts_instant ts \<and> ts_instant ts \<noteq> None"
proof -
  obtain utc fr where utc: "utc_of ts = Inr (utc, fr)" and s: "s = render_utc utc"
    by (rule format_timestamp_Inr [OF assms(2)])
  show ?thesis
    using utc_of_instant [OF assms(1) utc] parse_render [of utc] by (simp add: s)
qed

lemma formatted_timestamp_keeps_instant_witness:
  "format_timestamp (TsText ''2024-03-01T00:30:00.0000015+01:00'') = Inr ''2024-02-29T23:30:00.000001Z'' \<and>
   parse_timestamp ''2024-02-29T23:30:00.000001Z'' = ts_instant (TsText ''2024-03-01T00:30:00.0000015+01:00'')"
proof -
  have f: "format_timestamp (TsText ''2024-03-01T00:30:00.0000015+01:00'') = Inr ''2024-02-29T23:30:00.000001Z''"
    by code_simp
  show ?thesis
    using f formatted_timestamp_keeps_instant [OF _ f] by simp
qed

text \<open>The normal form is a fixed point: formatting it again changes nothing.  The one exception is the
  zero time of Go, which a time stamp with a fraction below a microsecond reaches although it is refused
  itself.\<close>

theorem format_timestamp_idempotent:
  assumes "wf_timestamp ts" "format_timestamp ts = Inr s"
  shows "format_timestamp (TsText s) = (if s = ''0001-01-01T00:00:00Z'' then Inl ts_required else Inr s)"
proof -
  obtain utc fr where utc: "utc_of ts = Inr (utc, fr)" and s: "s = render_utc utc"
    by (rule format_timestamp_Inr [OF assms(2)])
  have wf: "wf_datetime utc" using utc_of_instant [OF assms(1) utc] by simp
  have "wf_datetime GO_ZERO_TIME" by code_simp
  then have "s = ''0001-01-01T00:00:00Z'' \<longleftrightarrow> utc = GO_ZERO_TIME"
    using render_inj [OF wf] render_go_zero by (auto simp: s)
  then show ?thesis
    using format_of_rendered [OF wf] by (simp add: s)
qed

lemma format_timestamp_idempotent_witness:
  "format_timestamp (TsText ''0001-01-01T00:00:00.0000001Z'') = Inr ''0001-01-01T00:00:00Z'' \<and>
   format_timestamp (TsText ''0001-01-01T00:00:00Z'') = Inl ts_required"
proof -
  have f: "format_timestamp (TsText ''0001-01-01T00:00:00.0000001Z'') = Inr ''0001-01-01T00:00:00Z''"
    by code_simp
  show ?thesis
    using f format_timestamp_idempotent [OF _ f] by simp
qed

end
