(* ===== verification/Produce_Model.thy ===== *)
theory Produce_Model
  imports Produce_Timestamp
begin

text \<open>
  \<open>produce/constants.py\<close> and \<open>produce/model.py\<close>: the vocabulary of a format-4 capsule and the typed inputs of
  the producing API.  A class of string constants is an association list from the attribute to its value;
  a string that is empty means that the member is absent, as in the dataclasses.  A field that the code checks
  with \<open>isinstance\<close> holds a \<open>json\<close> value.
\<close>

section \<open>Constants\<close>

definition SPEC_VERSION :: string where "SPEC_VERSION = ''draft-mih-scitt-agent-action-capsule-05''"
definition ACCEPTED_SPEC_VERSIONS :: "string list" where
  "ACCEPTED_SPEC_VERSIONS = [''draft-mih-scitt-agent-action-capsule-04'', SPEC_VERSION]"
definition FORMAT_VERSION :: string where "FORMAT_VERSION = ''4''"
definition CANONICALIZATION_ID_JCS :: string where "CANONICALIZATION_ID_JCS = ''jcs''"
definition CONTENT_TYPE :: string where "CONTENT_TYPE = ''application/agent-action-capsule-id''"

type_synonym vocabulary = "(string \<times> string) list"

definition ActionType :: vocabulary where
  "ActionType = [(''FYI'', ''fyi''), (''DECIDE'', ''decide'')]"

definition Decision :: vocabulary where
  "Decision = [(''ACCEPT'', ''accept''), (''REJECT'', ''reject''), (''NEEDS_INPUT'', ''needs_input''),
     (''DEFERRED'', ''deferred'')]"

definition Approver :: vocabulary where
  "Approver = [(''HUMAN'', ''human''), (''POLICY'', ''policy''), (''COUNTERPARTY'', ''counterparty'')]"

definition VerdictClass :: vocabulary where
  "VerdictClass = [(''EXECUTED'', ''executed''), (''BLOCKED'', ''blocked''), (''HITL_DISPATCHED'', ''hitl_dispatched''),
     (''DENIED'', ''denied''), (''TIMEOUT'', ''timeout''), (''ERRORED'', ''errored''),
     (''ENGINE_FAILURE'', ''engine_failure''), (''DEFERRED'', ''deferred''), (''NEEDS_DECISION'', ''needs_decision''),
     (''EXPIRED'', ''expired''), (''ESCALATED'', ''escalated''), (''RESOLVED'', ''resolved''),
     (''EPOCH_BOUNDARY'', ''epoch_boundary'')]"

definition EffectStatus :: vocabulary where
  "EffectStatus = [(''PLANNED'', ''planned''), (''DISPATCHED'', ''dispatched''), (''CONFIRMED'', ''confirmed''),
     (''FAILED'', ''failed''), (''REVERTED'', ''reverted'')]"

definition IrreversibilityClass :: vocabulary where
  "IrreversibilityClass = [(''TWO_WAY'', ''two_way''), (''ONE_WAY_RECOVERABLE'', ''one_way_recoverable''),
     (''ONE_WAY_CONSEQUENTIAL'', ''one_way_consequential''), (''ONE_WAY_TERMINAL'', ''one_way_terminal'')]"

definition EffectAttestation :: vocabulary where
  "EffectAttestation = [(''GATE_EXECUTED'', ''gate_executed''), (''RUNTIME_CLAIMED'', ''runtime_claimed'')]"

definition ChainRelation :: vocabulary where
  "ChainRelation = [(''CONFIRMS'', ''confirms''), (''SUPERSEDES'', ''supersedes''), (''EPOCH_OPENS'', ''epoch_opens''),
     (''DUPLICATES'', ''duplicates'')]"

definition EffectMode :: vocabulary where
  "EffectMode = [(''NOT_APPLICABLE'', ''not_applicable''), (''DISPATCHED_UNCONFIRMED'', ''dispatched_unconfirmed''),
     (''CONFIRMED'', ''confirmed'')]"

definition AttestationMode :: vocabulary where
  "AttestationMode = [(''SELF_ATTESTED'', ''self_attested''), (''ANCHORED'', ''anchored'')]"

definition LedgerMode :: vocabulary where
  "LedgerMode = [(''STANDALONE'', ''standalone''), (''CHAINED'', ''chained''), (''ANCHORED'', ''anchored'')]"

definition DomainRole :: vocabulary where
  "DomainRole = [(''ACTION'', ''action''), (''MEMORY'', ''memory''), (''REASONING'', ''reasoning'')]"

definition ProvenanceTier :: vocabulary where
  "ProvenanceTier = [(''GATE'', ''gate''), (''RUNTIME'', ''runtime''), (''COLLECTOR'', ''collector'')]"

definition ProvenanceModeValue :: vocabulary where
  "ProvenanceModeValue = [(''CONTEMPORANEOUS'', ''contemporaneous''), (''BACKFILLED'', ''backfilled'')]"

definition TimeRung :: vocabulary where
  "TimeRung = [(''SELF_ATTESTED'', ''self_attested''), (''WITNESSED'', ''witnessed'')]"

text \<open>Attribute access: \<open>of_class cls attribute\<close>.\<close>

definition of_class :: "vocabulary \<Rightarrow> string \<Rightarrow> string" where
  "of_class cls attribute = (case map_of cls attribute of None \<Rightarrow> [] | Some v \<Rightarrow> v)"

lemmas vocabulary_defs = ActionType_def Approver_def EffectStatus_def ChainRelation_def EffectMode_def
  AttestationMode_def LedgerMode_def ProvenanceModeValue_def TimeRung_def

section \<open>Inputs\<close>

record model =
  mdl_provider :: string
  mdl_model_id :: string

record compute_attestation =
  cmp_agent_input_digest :: string
  cmp_agent_output_digest :: string
  cmp_runtime :: string

record disposition =
  dsp_decision :: string
  dsp_approver :: string
  dsp_human_disposed :: json
  dsp_verdict_class :: string
  dsp_reason_digest :: string

record effect =
  eff_type :: string
  eff_status :: string
  eff_irreversibility_class :: string
  eff_effect_attestation :: string
  eff_request_digest :: string
  eff_response_digest :: string
  eff_external_ref :: string

record chain =
  chn_parent_capsule_id :: string
  chn_relation :: string

record reference =
  rfr_type :: string
  rfr_digest_alg :: string
  rfr_digest :: string
  rfr_citation_purpose :: string
  rfr_log_coordinates :: "dict option"

record provenance_mode =
  prv_mode :: string
  prv_source_ref :: "reference option"
  prv_source_asserted_at :: string
  prv_import_batch :: string
  prv_imported_at :: string
  prv_time_rung :: string

record extension =
  ext_name :: json
  ext_value :: json_input

record capsule_input =
  inp_action_id :: json
  inp_action_type :: string
  inp_operator :: json
  inp_developer :: json
  inp_timestamp :: timestamp
  inp_epoch_id :: string
  inp_domain :: string
  inp_provenance :: string
  inp_disposition :: "disposition option"
  inp_effect :: "effect option"
  inp_chain :: "chain option"
  inp_references :: "reference list option"
  inp_model :: "model option"
  inp_compute :: "compute_attestation option"
  inp_provenance_mode :: "provenance_mode option"
  inp_extensions :: "extension list"

record built_payload =
  bp_capsule_id :: string
  bp_value :: json
  bp_json :: string

record sealed_result =
  sr_capsule_id :: string
  sr_payload :: string
  sr_envelope :: string

record slot_member =
  slm_slot :: string
  slm_capsule_id :: string
  slm_json :: string

end
