(* ===== verification/Produce_Build.thy ===== *)
theory Produce_Build
  imports Produce_Model
begin

text \<open>
  \<open>produce/build.py\<close> and \<open>class1\<close> of \<open>produce/verify.py\<close>: validation of an \<open>Input\<close>, the assembly of the
  payload in the order of the code, its extensions, and the call chain from the payload to the built capsule.
  \<open>build_payload\<close> is \<open>build_with_binding\<close> up to the check of the finished payload; what follows it calls the
  functions of \<open>agent_action_capsule\<close> in \<open>produce_env\<close>.  A name that a message puts in quotation
  marks is modelled without the marks, and a name of the caller that it quotes with \<open>json.dumps\<close> is left out.
  \<open>TsOther\<close> is the time stamp \<open>None\<close>.
\<close>

section \<open>Constants and small checks\<close>

definition BASE_MEMBERS :: "string list" where
  "BASE_MEMBERS =
     [''spec_version'', ''format_version'', ''canonicalization_id'', ''capsule_id'',
      ''action_id'', ''action_type'', ''operator'', ''developer'', ''timestamp'',
      ''epoch_id'', ''domain'', ''provenance'', ''provenance_mode'', ''disposition'',
      ''effect'', ''chain'', ''assurance'', ''cross_party'', ''model_attestation'',
      ''references'', ''constraints'', ''compliance'', ''signature'', ''key_id'']"

definition EFFECT_STATUSES :: "string list" where
  "EFFECT_STATUSES = map (of_class EffectStatus) [''PLANNED'', ''DISPATCHED'', ''CONFIRMED'', ''FAILED'', ''REVERTED'']"

definition APPROVERS :: "string list" where
  "APPROVERS = map (of_class Approver) [''HUMAN'', ''POLICY'', ''COUNTERPARTY'']"

definition MAX_SAFE_INTEGER :: int where
  "MAX_SAFE_INTEGER = 2 ^ 53 - 1"

definition is_hex64 :: "string \<Rightarrow> bool" where
  "is_hex64 s \<longleftrightarrow> hex_string 64 s"

definition extension_name_ok :: "string \<Rightarrow> bool" where
  "extension_name_ok s \<longleftrightarrow>
     (case s of [] \<Rightarrow> False | c # r \<Rightarrow> is_lower c \<and> list_all (\<lambda>c. is_lower c \<or> is_digit c \<or> c = CHR ''_'') r)"

definition nonblank :: "json \<Rightarrow> bool" where
  "nonblank v \<longleftrightarrow> (case v of JStr s \<Rightarrow> \<not> blank s | _ \<Rightarrow> False)"

abbreviation req :: "bool \<Rightarrow> string \<Rightarrow> produce_error + unit" where
  "req b m \<equiv> ensure b (PValueError m)"

text \<open>The present strings of a list of members.\<close>

definition present :: "string \<Rightarrow> string \<Rightarrow> dict" where
  "present k s = (if s = [] then [] else [(k, JStr s)])"

section \<open>Validation\<close>

definition validate_chain :: "chain \<Rightarrow> string \<Rightarrow> produce_error + unit" where
  "validate_chain c epoch_id =
     sbind (req (is_hex64 (chn_parent_capsule_id c)) ''chain parent capsule id must be 64 lowercase hex characters'') (\<lambda>_.
     sbind (req (chn_relation c \<noteq> []) ''chain relation is required'') (\<lambda>_.
       req (\<not> (chn_relation c = of_class ChainRelation ''EPOCH_OPENS'' \<and> epoch_id = [])) ''epoch_opens chain requires epoch id''))"

definition validate_disposition :: "disposition \<Rightarrow> produce_error + unit" where
  "validate_disposition d =
     sbind (req (dsp_decision d \<noteq> []) ''disposition decision is required'') (\<lambda>_.
     sbind (req (dsp_approver d \<in> set APPROVERS) ''disposition approver must be human, policy, or counterparty'') (\<lambda>_.
     sbind (req (case dsp_human_disposed d of JBool _ \<Rightarrow> True | _ \<Rightarrow> False) ''disposition human_disposed must be a bool'') (\<lambda>_.
     sbind (req (\<not> (dsp_human_disposed d = JBool True \<and> dsp_approver d \<noteq> of_class Approver ''HUMAN''))
       ''human-disposed decision requires human approver'') (\<lambda>_.
       req (dsp_reason_digest d = [] \<or> is_hex64 (dsp_reason_digest d))
         ''disposition reason digest must be 64 lowercase hex characters''))))"

definition validate_status :: "effect \<Rightarrow> produce_error + unit" where
  "validate_status e =
     (let status = eff_status e
      in if status = of_class EffectStatus ''PLANNED'' then
           sbind (req (eff_request_digest e = [] \<and> eff_response_digest e = [])
             ''planned effect must not carry request or response digests'') (\<lambda>_.
             req (eff_effect_attestation e = []) ''planned effect must not carry effect attestation'')
         else if status = of_class EffectStatus ''DISPATCHED'' then
           sbind (req (eff_response_digest e = []) ''dispatched effect must not carry a response digest'') (\<lambda>_.
             req (eff_effect_attestation e \<noteq> []) ''dispatched effect requires effect attestation'')
         else if status = of_class EffectStatus ''CONFIRMED'' then
           sbind (req (eff_response_digest e \<noteq> []) ''confirmed effect requires a response digest'') (\<lambda>_.
             req (eff_effect_attestation e \<noteq> []) ''confirmed effect requires effect attestation'')
         else req (eff_effect_attestation e \<noteq> []) (status @ '' effect requires effect attestation''))"

definition validate_effect :: "effect \<Rightarrow> produce_error + unit" where
  "validate_effect e =
     sbind (req (\<not> blank (eff_type e)) ''effect type is required'') (\<lambda>_.
     sbind (req (eff_status e \<in> set EFFECT_STATUSES) ''unsupported effect status'') (\<lambda>_.
     sbind (req (eff_irreversibility_class e \<noteq> []) ''effect irreversibility class is required'') (\<lambda>_.
     sbind (req (eff_request_digest e = [] \<or> is_hex64 (eff_request_digest e))
       ''effect request digest must be 64 lowercase hex characters'') (\<lambda>_.
     sbind (req (eff_response_digest e = [] \<or> is_hex64 (eff_response_digest e))
       ''effect response digest must be 64 lowercase hex characters'') (\<lambda>_.
       validate_status e)))))"

definition validate_model :: "model \<Rightarrow> produce_error + unit" where
  "validate_model m =
     sbind (req (\<not> (blank (mdl_provider m) \<and> blank (mdl_model_id m))) ''model must include provider or model id'') (\<lambda>_.
     sbind (req (mdl_provider m = [] \<or> \<not> blank (mdl_provider m)) ''model provider must be non-empty when present'') (\<lambda>_.
       req (mdl_model_id m = [] \<or> \<not> blank (mdl_model_id m)) ''model id must be non-empty when present''))"

definition validate_compute :: "compute_attestation \<Rightarrow> produce_error + unit" where
  "validate_compute c =
     sbind (req (cmp_runtime c = [] \<or> \<not> blank (cmp_runtime c)) ''compute attestation runtime must be non-empty when present'') (\<lambda>_.
     sbind (req (cmp_agent_input_digest c \<noteq> [] \<or> cmp_agent_output_digest c \<noteq> [] \<or> cmp_runtime c \<noteq> [])
       ''compute attestation must include a digest or runtime'') (\<lambda>_.
     sbind (req (cmp_agent_input_digest c = [] \<or> is_hex64 (cmp_agent_input_digest c))
       ''compute attestation agent input digest must be 64 lowercase hex characters'') (\<lambda>_.
       req (cmp_agent_output_digest c = [] \<or> is_hex64 (cmp_agent_output_digest c))
       ''compute attestation agent output digest must be 64 lowercase hex characters'')))"

definition opt_check :: "('a \<Rightarrow> produce_error + unit) \<Rightarrow> 'a option \<Rightarrow> produce_error + unit" where
  "opt_check f x = (case x of None \<Rightarrow> Inr () | Some y \<Rightarrow> f y)"

definition validate_attestation :: "model option \<Rightarrow> compute_attestation option \<Rightarrow> produce_error + unit" where
  "validate_attestation m c = sbind (opt_check validate_model m) (\<lambda>_. opt_check validate_compute c)"

fun comma_join :: "string list \<Rightarrow> string" where
  "comma_join [] = []"
| "comma_join [s] = s"
| "comma_join (s # ss) = s @ '', '' @ comma_join ss"

definition missing_companions :: "provenance_mode \<Rightarrow> string list" where
  "missing_companions p =
     (if prv_source_ref p = None then [''source ref''] else []) @
     (if blank (prv_source_asserted_at p) then [''source asserted at''] else []) @
     (if blank (prv_import_batch p) then [''import batch''] else []) @
     (if blank (prv_imported_at p) then [''imported at''] else [])"

definition validate_provenance_mode :: "provenance_mode \<Rightarrow> produce_error + unit" where
  "validate_provenance_mode p =
     sbind (req (prv_mode p \<in> {of_class ProvenanceModeValue ''CONTEMPORANEOUS'', of_class ProvenanceModeValue ''BACKFILLED''})
       ''provenance mode must be contemporaneous or backfilled'') (\<lambda>_.
     sbind (req (case prv_source_ref p of None \<Rightarrow> True
                 | Some s \<Rightarrow> rfr_citation_purpose s = [] \<and> rfr_log_coordinates s = None)
       ''provenance mode source ref must not carry citation purpose or log coordinates'') (\<lambda>_.
     sbind (if prv_mode p = of_class ProvenanceModeValue ''BACKFILLED'' then
              sbind (req (case prv_source_ref p of None \<Rightarrow> True
                          | Some s \<Rightarrow> \<not> blank (rfr_type s) \<and> \<not> blank (rfr_digest_alg s) \<and> \<not> blank (rfr_digest s))
                ''provenance mode source ref requires type, digest alg, and digest'') (\<lambda>_.
                req (missing_companions p = [])
                  (''backfilled provenance mode requires '' @ comma_join (missing_companions p)))
            else
              req (prv_source_ref p = None \<and> prv_source_asserted_at p = [] \<and> prv_import_batch p = [] \<and>
                   prv_imported_at p = [] \<and> prv_time_rung p = [])
                ''provenance mode companions are meaningful only when mode is backfilled'') (\<lambda>_.
       req (prv_time_rung p = [] \<or> prv_time_rung p \<in> {of_class TimeRung ''SELF_ATTESTED'', of_class TimeRung ''WITNESSED''})
         ''provenance mode time rung must be self_attested or witnessed'')))"

definition validate_input :: "capsule_input \<Rightarrow> dict option \<Rightarrow> produce_error + unit" where
  "validate_input i binding =
     sbind (req (nonblank (inp_action_id i)) ''action id is required'') (\<lambda>_.
     sbind (req (nonblank (inp_operator i)) ''operator is required'') (\<lambda>_.
     sbind (req (nonblank (inp_developer i)) ''developer is required'') (\<lambda>_.
     sbind (ensure (inp_timestamp i \<noteq> TsOther \<and> inp_timestamp i \<noteq> TsText []) ts_required) (\<lambda>_.
     sbind (req (inp_action_type i \<in> {of_class ActionType ''FYI'', of_class ActionType ''DECIDE''})
       ''action type must be fyi or decide'') (\<lambda>_.
     sbind (req (\<not> (inp_action_type i = of_class ActionType ''DECIDE'' \<and> inp_disposition i = None))
       ''decide action requires a disposition'') (\<lambda>_.
     sbind (opt_check validate_disposition (inp_disposition i)) (\<lambda>_.
     sbind (opt_check validate_effect (inp_effect i)) (\<lambda>_.
     sbind (validate_attestation (inp_model i) (inp_compute i)) (\<lambda>_.
     sbind (req (case (binding, inp_compute i) of
                   (Some b, Some c) \<Rightarrow> cmp_agent_input_digest c = [] \<and> cmp_agent_output_digest c = []
                 | _ \<Rightarrow> True)
       ''carried or composed binding must not include agent input or output digest'') (\<lambda>_.
     sbind (opt_check (\<lambda>c. validate_chain c (inp_epoch_id i)) (inp_chain i)) (\<lambda>_.
       opt_check validate_provenance_mode (inp_provenance_mode i))))))))))))"


section \<open>The members\<close>

definition digest_reference :: "string \<Rightarrow> string \<Rightarrow> string \<Rightarrow> string \<Rightarrow> dict" where
  "digest_reference kind digest_alg digest slot =
     [(''type'', JStr kind), (''digest_alg'', JStr digest_alg), (''digest'', JStr digest)] @ present ''slot'' slot"

definition provenance_mode_map :: "provenance_mode \<Rightarrow> dict" where
  "provenance_mode_map p =
     [(''mode'', JStr (prv_mode p))] @
     (case prv_source_ref p of None \<Rightarrow> []
      | Some s \<Rightarrow> [(''source_ref'', JObj (digest_reference (rfr_type s) (rfr_digest_alg s) (rfr_digest s) []))]) @
     present ''source_asserted_at'' (prv_source_asserted_at p) @ present ''import_batch'' (prv_import_batch p) @
     present ''imported_at'' (prv_imported_at p) @ present ''time_rung'' (prv_time_rung p)"

definition disposition_map :: "disposition \<Rightarrow> dict" where
  "disposition_map d =
     [(''decision'', JStr (dsp_decision d)), (''approver'', JStr (dsp_approver d)),
      (''human_disposed'', dsp_human_disposed d)] @
     present ''verdict_class'' (dsp_verdict_class d) @ present ''reason_digest'' (dsp_reason_digest d)"

definition effect_map :: "effect \<Rightarrow> dict" where
  "effect_map e =
     [(''type'', JStr (eff_type e)), (''status'', JStr (eff_status e)),
      (''irreversibility_class'', JStr (eff_irreversibility_class e))] @
     present ''effect_attestation'' (eff_effect_attestation e) @ present ''request_digest'' (eff_request_digest e) @
     present ''response_digest'' (eff_response_digest e) @ present ''external_ref'' (eff_external_ref e)"

definition effect_mode :: "effect option \<Rightarrow> string" where
  "effect_mode e =
     (case e of
        None \<Rightarrow> of_class EffectMode ''NOT_APPLICABLE''
      | Some f \<Rightarrow>
          if eff_status f = of_class EffectStatus ''PLANNED'' then of_class EffectMode ''NOT_APPLICABLE''
          else if eff_status f = of_class EffectStatus ''CONFIRMED'' then of_class EffectMode ''CONFIRMED''
          else of_class EffectMode ''DISPATCHED_UNCONFIRMED'')"

definition assurance :: "effect option \<Rightarrow> chain option \<Rightarrow> dict" where
  "assurance e c =
     [(''effect_mode'', JStr (effect_mode e)),
      (''attestation_mode'', JStr (of_class AttestationMode ''SELF_ATTESTED'')),
      (''ledger_mode'', JStr (of_class LedgerMode (if c = None then ''STANDALONE'' else ''CHAINED'')))]"

definition compute_map :: "compute_attestation option \<Rightarrow> dict option \<Rightarrow> dict" where
  "compute_map c binding =
     dict_update
       (case c of None \<Rightarrow> []
        | Some a \<Rightarrow> present ''agent_input_digest'' (cmp_agent_input_digest a) @
                   present ''agent_output_digest'' (cmp_agent_output_digest a) @ present ''runtime'' (cmp_runtime a))
       (case binding of None \<Rightarrow> [] | Some b \<Rightarrow> b)"

definition model_attestation :: "model option \<Rightarrow> compute_attestation option \<Rightarrow> dict option \<Rightarrow> dict option" where
  "model_attestation m c binding =
     (let result = (case m of None \<Rightarrow> []
            | Some a \<Rightarrow> present ''model_id'' (mdl_model_id a) @ present ''provider'' (mdl_provider a)) @
          (if compute_map c binding = [] then [] else [(''compute_attestation'', JObj (compute_map c binding))])
      in if result = [] then None else Some result)"

fun semicolon_join :: "string list \<Rightarrow> string" where
  "semicolon_join [] = []"
| "semicolon_join [s] = s"
| "semicolon_join (s # ss) = s @ ''; '' @ semicolon_join ss"

fun error_text :: "produce_error \<Rightarrow> string" where
  "error_text (PValueError m) = m"
| "error_text (PTypeError m) = m"
| "error_text PRecursionError = []"
| "error_text (Class1Error r) =
     ''AAC Class 1 verification failed: '' @ semicolon_join (vr_findings r)"

definition loads_canonical :: "produce_env \<Rightarrow> string \<Rightarrow> produce_error + json" where
  "loads_canonical env encoded =
     (case json_loads ((pe_json env)\<lparr>je_strict := False\<rparr>) encoded of
        None \<Rightarrow> Inl (PValueError ''invalid JSON'')
      | Some v \<Rightarrow> if pe_recursion env < json_depth v then canonical (Inl RecursionError) else Inr v)"

text \<open>An exception of the calls inside is a \<open>TypeError\<close> or a \<open>ValueError\<close>, \<open>Class1Error\<close> among them.\<close>

definition wrapped :: "string \<Rightarrow> produce_error + 'a \<Rightarrow> produce_error + 'a" where
  "wrapped what r =
     (case r of
        Inl e \<Rightarrow> Inl (if e = PRecursionError then e else PValueError (what @ '': '' @ error_text e))
      | Inr x \<Rightarrow> Inr x)"

definition copy_json :: "produce_env \<Rightarrow> dict \<Rightarrow> string \<Rightarrow> produce_error + json" where
  "copy_json env d what =
     wrapped what
       (sbind (check_json_value (JObj d) ''$'') (\<lambda>_.
        sbind (canonical (pe_jcs env (integral_floats (JObj d)))) (loads_canonical env)))"

definition reference_map :: "produce_env \<Rightarrow> reference \<Rightarrow> produce_error + json" where
  "reference_map env r =
     (let d = digest_reference (rfr_type r) (rfr_digest_alg r) (rfr_digest r) [] @
              present ''citation_purpose'' (rfr_citation_purpose r)
      in case rfr_log_coordinates r of
           None \<Rightarrow> Inr (JObj d)
         | Some c \<Rightarrow> sbind (copy_json env c ''reference log coordinates'') (\<lambda>v. Inr (JObj (d @ [(''log_coordinates'', v)]))))"

section \<open>Extensions\<close>

text \<open>\<open>_check_extension_numbers\<close>: the first member ends on top of the stack.\<close>

definition number_frames :: "json \<Rightarrow> string \<Rightarrow> (json \<times> string) list" where
  "number_frames item path =
     (case item of
        JObj d \<Rightarrow> map (\<lambda>(v, p, _). (v, p)) (member_frames d path 0)
      | JArr vs \<Rightarrow> map (\<lambda>(v, p, _). (v, p)) (item_frames vs path 0)
      | _ \<Rightarrow> [])"

abbreviation value_nodes :: "(json \<times> string) list \<Rightarrow> nat" where
  "value_nodes st \<equiv> sum_list (map (\<lambda>(v, _). json_nodes v) st)"

lemma value_nodes_frames: "value_nodes (number_frames item path) < json_nodes item"
  by (cases item) (simp_all add: number_frames_def comp_def case_prod_unfold
    frame_nodes_members [simplified case_prod_unfold] frame_nodes_items [simplified case_prod_unfold])

fun number_ok :: "json \<Rightarrow> string \<Rightarrow> produce_error + unit" where
  "number_ok (JFloat _) path =
     Inl (PValueError (''float at '' @ path @ '': floating-point values are forbidden in a Capsule''))"
| "number_ok (JInt i) path =
     req (- MAX_SAFE_INTEGER \<le> i \<and> i \<le> MAX_SAFE_INTEGER) (''integer at '' @ path @ '' is outside the interoperable range'')"
| "number_ok _ path = Inr ()"

function number_loop :: "(json \<times> string) list \<Rightarrow> produce_error + unit" where
  "number_loop [] = Inr ()"
| "number_loop ((item, path) # stack) =
     sbind (number_ok item path) (\<lambda>_. number_loop (number_frames item path @ stack))"
  by pat_completeness auto
termination
  by (relation "measure value_nodes") (use value_nodes_frames in auto)

definition check_extension_numbers :: "json \<Rightarrow> string \<Rightarrow> produce_error + unit" where
  "check_extension_numbers v path = number_loop [(v, path)]"

fun empty_input :: "json_input \<Rightarrow> bool" where
  "empty_input (InBytes b) = (b = [])"
| "empty_input (InText t) = (t = [])"
| "empty_input InOther = False"

definition extension_key :: "extension \<Rightarrow> string" where
  "extension_key x = (case ext_name x of JStr s \<Rightarrow> s | _ \<Rightarrow> [])"

definition extension_value :: "produce_env \<Rightarrow> extension \<Rightarrow> dict \<Rightarrow> produce_error + json" where
  "extension_value env x payload =
     (let name = extension_key x
      in sbind (req (extension_name_ok name)
           ''extension name must be lowercase letters, digits and underscores, starting with a letter'') (\<lambda>_.
         sbind (req (name \<notin> set BASE_MEMBERS) ''extension is a base-profile member'') (\<lambda>_.
         sbind (req (\<not> dhas payload name) ''extension is given more than once'') (\<lambda>_.
         sbind (req (\<not> empty_input (ext_value x)) ''extension has no value'') (\<lambda>_.
         sbind (wrapped ''extension'' (decode_strict env (ext_value x))) (\<lambda>v.
         sbind (req (v \<noteq> JNull) ''extension must not be null'') (\<lambda>_.
         sbind (check_extension_numbers v (''$.'' @ name)) (\<lambda>_. Inr v))))))))"

definition add_extension :: "produce_env \<Rightarrow> dict \<Rightarrow> extension \<Rightarrow> produce_error + dict" where
  "add_extension env payload x =
     sbind (extension_value env x payload) (\<lambda>v. Inr (dict_set payload (extension_key x) v))"

section \<open>Building\<close>

definition opt_member :: "string \<Rightarrow> ('a \<Rightarrow> dict) \<Rightarrow> 'a option \<Rightarrow> dict" where
  "opt_member k f x = (case x of None \<Rightarrow> [] | Some y \<Rightarrow> [(k, JObj (f y))])"

definition chain_map :: "chain \<Rightarrow> dict" where
  "chain_map c = [(''parent_capsule_id'', JStr (chn_parent_capsule_id c)), (''relation'', JStr (chn_relation c))]"

definition base_members :: "capsule_input \<Rightarrow> dict option \<Rightarrow> string \<Rightarrow> dict \<Rightarrow> dict" where
  "base_members i binding timestamp references =
     [(''spec_version'', JStr SPEC_VERSION), (''format_version'', JStr FORMAT_VERSION),
      (''canonicalization_id'', JStr CANONICALIZATION_ID_JCS), (''action_id'', inp_action_id i),
      (''action_type'', JStr (inp_action_type i)), (''operator'', inp_operator i),
      (''developer'', inp_developer i), (''timestamp'', JStr timestamp),
      (''assurance'', JObj (assurance (inp_effect i) (inp_chain i)))] @
     present ''epoch_id'' (inp_epoch_id i) @ present ''domain'' (inp_domain i) @
     present ''provenance'' (inp_provenance i) @
     opt_member ''provenance_mode'' provenance_mode_map (inp_provenance_mode i) @
     opt_member ''disposition'' disposition_map (inp_disposition i) @
     opt_member ''effect'' effect_map (inp_effect i) @ opt_member ''chain'' chain_map (inp_chain i) @
     opt_member ''model_attestation'' id (model_attestation (inp_model i) (inp_compute i) binding) @
     references"

definition base_payload :: "produce_env \<Rightarrow> capsule_input \<Rightarrow> dict option \<Rightarrow> produce_error + dict" where
  "base_payload env i binding =
     sbind (format_timestamp (inp_timestamp i)) (\<lambda>timestamp.
     sbind (case inp_references i of
              None \<Rightarrow> Inr []
            | Some rs \<Rightarrow> sbind (mapM_r (reference_map env) rs) (\<lambda>vs. Inr [(''references'', JArr vs)])) (\<lambda>references.
       Inr (base_members i binding timestamp references)))"

definition build_payload :: "produce_env \<Rightarrow> capsule_input \<Rightarrow> dict option \<Rightarrow> produce_error + dict" where
  "build_payload env i binding =
     sbind (validate_input i binding) (\<lambda>_.
     sbind (base_payload env i binding) (\<lambda>base.
     sbind (foldM_r (add_extension env) base (inp_extensions i)) (\<lambda>payload.
     sbind (check_json_value (JObj payload) ''$'') (\<lambda>_. Inr payload))))"

definition class1 :: "produce_env \<Rightarrow> json \<Rightarrow> lib_exn + verification_result" where
  "class1 env payload = pe_verify env payload"

definition build_with_binding :: "produce_env \<Rightarrow> capsule_input \<Rightarrow> dict option \<Rightarrow> produce_error + built_payload" where
  "build_with_binding env i binding =
     sbind (build_payload env i binding) (\<lambda>payload.
     sbind (canonical (pe_capsule_id env (JObj payload))) (\<lambda>capsule_id.
     let sealed = JObj (dict_set payload ''capsule_id'' (JStr capsule_id))
     in sbind (canonical (class1 env sealed)) (\<lambda>result.
        if \<not> vr_ok result then Inl (Class1Error result)
        else sbind (canonical (pe_jcs env sealed)) (\<lambda>encoded.
             sbind (loads_canonical env encoded) (\<lambda>v.
               Inr \<lparr>bp_capsule_id = capsule_id, bp_value = v, bp_json = encoded\<rparr>)))))"

definition build :: "produce_env \<Rightarrow> capsule_input \<Rightarrow> produce_error + built_payload" where
  "build env i = build_with_binding env i None"


section \<open>Numbers of an extension\<close>

fun capsule_numbers :: "json \<Rightarrow> bool" where
  "capsule_numbers (JFloat _) \<longleftrightarrow> False"
| "capsule_numbers (JInt i) \<longleftrightarrow> - MAX_SAFE_INTEGER \<le> i \<and> i \<le> MAX_SAFE_INTEGER"
| "capsule_numbers (JArr vs) \<longleftrightarrow> list_all capsule_numbers vs"
| "capsule_numbers (JObj d) \<longleftrightarrow> list_all (\<lambda>(k, v). capsule_numbers v) d"
| "capsule_numbers _ \<longleftrightarrow> True"

lemma set_number_frames:
  "fst ` set (number_frames item path) = (case item of JObj d \<Rightarrow> snd ` set d | JArr vs \<Rightarrow> set vs | _ \<Rightarrow> {})"
proof (cases item)
  case (JArr vs)
  have "fst ` (\<lambda>(v, p, _). (v, p)) ` set (item_frames vs path 0) = fst ` set (item_frames vs path 0)"
    by (force simp: image_iff)
  then show ?thesis
    by (simp add: JArr number_frames_def set_item_frames)
next
  case (JObj d)
  then show ?thesis
    by (force simp: number_frames_def member_frames_def)
qed (simp_all add: number_frames_def)

lemma number_frames_ok:
  "list_all (\<lambda>(v, p). capsule_numbers v) (number_frames item path) \<and> number_ok item path = Inr () \<longleftrightarrow> capsule_numbers item"
proof -
  have "list_all (\<lambda>(v, p). capsule_numbers v) (number_frames item path) \<longleftrightarrow>
      (\<forall>v \<in> fst ` set (number_frames item path). capsule_numbers v)"
    by (auto simp: list_all_iff)
  then show ?thesis
    unfolding set_number_frames by (cases item) (auto simp: list_all_iff ensure_eq_Inr)
qed

lemma number_loop_ok: "number_loop st = Inr () \<longleftrightarrow> list_all (\<lambda>(v, p). capsule_numbers v) st"
proof (induction st rule: number_loop.induct)
  case (2 item path stack)
  show ?case
    using 2 number_frames_ok [of item path] by (auto simp: res_simps)
qed simp

lemma check_extension_numbers_ok: "check_extension_numbers v path = Inr () \<longleftrightarrow> capsule_numbers v"
  by (simp add: check_extension_numbers_def number_loop_ok del: number_loop.simps)

section \<open>The shape of a payload\<close>

definition base_order :: "string list" where
  "base_order =
     [''spec_version'', ''format_version'', ''canonicalization_id'', ''action_id'', ''action_type'', ''operator'',
      ''developer'', ''timestamp'', ''assurance'', ''epoch_id'', ''domain'', ''provenance'', ''provenance_mode'',
      ''disposition'', ''effect'', ''chain'', ''model_attestation'', ''references'']"

lemma base_order_facts: "distinct base_order" "set base_order \<subseteq> set BASE_MEMBERS - {''capsule_id''}"
  by (simp_all add: base_order_def BASE_MEMBERS_def)

lemma present_keys: "subseq (map fst (present k s)) [k]"
  by (simp add: present_def)

lemma opt_member_keys: "subseq (map fst (opt_member k f x)) [k]"
  by (cases x) (simp_all add: opt_member_def)

lemma base_payload_Inr:
  assumes "base_payload env i binding = Inr base"
  obtains ts refs where "format_timestamp (inp_timestamp i) = Inr ts" "subseq (map fst refs) [''references'']"
    "base = base_members i binding ts refs"
proof -
  obtain ts refs where ts: "format_timestamp (inp_timestamp i) = Inr ts"
    and refs: "(case inp_references i of None \<Rightarrow> Inr []
      | Some rs \<Rightarrow> sbind (mapM_r (reference_map env) rs) (\<lambda>vs. Inr [(''references'', JArr vs)])) = Inr refs"
    and base: "base = base_members i binding ts refs"
    using assms unfolding base_payload_def by (elim sbindE) blast
  have "subseq (map fst refs) [''references'']"
    using refs by (auto simp: res_simps split: option.splits)
  then show thesis by (rule that [OF ts _ base])
qed

lemma base_members_keys:
  assumes "subseq (map fst refs) [''references'']"
  shows "subseq (map fst (base_members i binding ts refs)) base_order"
proof -
  have order: "base_order = [''spec_version'', ''format_version'', ''canonicalization_id'', ''action_id'', ''action_type'',
      ''operator'', ''developer'', ''timestamp'', ''assurance''] @ [''epoch_id''] @ [''domain''] @ [''provenance''] @
      [''provenance_mode''] @ [''disposition''] @ [''effect''] @ [''chain''] @ [''model_attestation''] @ [''references'']"
    by (simp add: base_order_def)
  show ?thesis
    unfolding base_members_def order map_append
    by (intro list_emb_append_mono present_keys opt_member_keys assms) simp
qed

lemma base_payload_keys:
  assumes "base_payload env i binding = Inr base"
  shows "subseq (map fst base) base_order"
  using base_payload_Inr [OF assms] base_members_keys by metis

lemma subseq_keys: "subseq xs ys \<Longrightarrow> distinct ys \<Longrightarrow> distinct xs \<and> set xs \<subseteq> set ys"
  by (induction rule: list_emb.induct) auto

lemma dict_set_absent: "\<not> dhas d k \<Longrightarrow> dict_set d k v = d @ [(k, v)]"
  by (induction d k v rule: dict_set.induct) (auto simp: dhas_def)

definition extension_ok :: "string \<times> json \<Rightarrow> bool" where
  "extension_ok = (\<lambda>(k, v). extension_name_ok k \<and> k \<notin> set BASE_MEMBERS \<and> v \<noteq> JNull \<and> capsule_numbers v)"

lemma add_extension_Inr:
  assumes "add_extension env payload x = Inr q"
  obtains v where "q = payload @ [(extension_key x, v)]" "extension_ok (extension_key x, v)" "\<not> dhas payload (extension_key x)"
proof -
  obtain v where v: "extension_value env x payload = Inr v" and q: "q = dict_set payload (extension_key x) v"
    using assms by (auto simp: add_extension_def res_simps)
  then have "extension_ok (extension_key x, v)" "\<not> dhas payload (extension_key x)"
    by (auto simp: extension_value_def Let_def res_simps extension_ok_def check_extension_numbers_ok)
  then show thesis
    using that q dict_set_absent by metis
qed

lemma add_extensions:
  assumes "foldM_r (add_extension env) base xs = Inr payload" "distinct (map fst base)"
  shows "\<exists>exts. payload = base @ exts \<and> list_all extension_ok exts \<and> map fst exts = map extension_key xs \<and>
    distinct (map fst payload)"
  using assms
proof (induction xs arbitrary: base)
  case (Cons x xs)
  obtain q where q: "add_extension env base x = Inr q" "foldM_r (add_extension env) q xs = Inr payload"
    using Cons.prems(1) by (auto simp: res_simps)
  obtain v where v: "q = base @ [(extension_key x, v)]" "extension_ok (extension_key x, v)" "\<not> dhas base (extension_key x)"
    by (rule add_extension_Inr [OF q(1)])
  have "distinct (map fst q)"
    using Cons.prems(2) v(3) by (auto simp: v(1) dhas_def)
  from Cons.IH [OF q(2) this] obtain exts where
    "payload = q @ exts" "list_all extension_ok exts" "map fst exts = map extension_key xs" "distinct (map fst payload)"
    by blast
  then show ?case
    using v by (intro exI [of _ "(extension_key x, v) # exts"]) simp
qed simp

lemma build_payload_parts:
  assumes "build_payload env i binding = Inr payload"
  obtains base exts where "validate_input i binding = Inr ()" "base_payload env i binding = Inr base"
    "payload = base @ exts" "list_all extension_ok exts" "map fst exts = map extension_key (inp_extensions i)"
    "distinct (map fst payload)" "set (map fst base) \<subseteq> set BASE_MEMBERS - {''capsule_id''}"
    "json_depth (JObj payload) \<le> MAX_JSON_DEPTH" "json_utf8 (JObj payload)"
proof -
  obtain base where v: "validate_input i binding = Inr ()" and base: "base_payload env i binding = Inr base"
    and ext: "foldM_r (add_extension env) base (inp_extensions i) = Inr payload"
    and chk: "check_json_value (JObj payload) ''$'' = Inr ()"
    using assms by (auto simp: build_payload_def res_simps)
  have keys: "distinct (map fst base)" "set (map fst base) \<subseteq> set BASE_MEMBERS - {''capsule_id''}"
    using subseq_keys [OF base_payload_keys [OF base] base_order_facts(1)] base_order_facts(2) by auto
  show thesis
    using add_extensions [OF ext keys(1)] that [OF v base _ _ _ _ keys(2)] check_json_value_ok [of "JObj payload" "''$''"] chk
    by auto
qed


lemma foldr_max_mono: "set xs \<subseteq> set ys \<Longrightarrow> foldr max xs (0 :: nat) \<le> foldr max ys 0"
  using foldr_max_le [of ys "foldr max ys 0"] foldr_max_le [of xs "foldr max ys 0"] by blast

lemma dget_absent_prefix: "\<not> dhas d k \<Longrightarrow> dget (d @ e) k = dget e k"
  by (simp add: dget_append)

lemma dget_present_prefix: "dhas d k \<Longrightarrow> dget (d @ e) k = dget d k"
  by (simp add: dget_append)

lemma dhas_keys: "dhas d k \<longleftrightarrow> k \<in> set (map fst d)"
  by (simp add: dhas_def)

lemma dhas_present [simp]: "dhas (present k s) k' \<longleftrightarrow> k' = k \<and> s \<noteq> []"
  by (auto simp: present_def dhas_def)

lemma dhas_opt_member [simp]: "dhas (opt_member k f x) k' \<longleftrightarrow> k' = k \<and> x \<noteq> None"
  by (cases x) (auto simp: opt_member_def dhas_def)

lemma base_members_lookup:
  assumes "subseq (map fst refs) [''references'']"
  shows "dget (base_members i binding ts refs) ''assurance'' = JObj (assurance (inp_effect i) (inp_chain i)) \<and>
    dget (base_members i binding ts refs) ''timestamp'' = JStr ts \<and>
    dget (base_members i binding ts refs) ''effect'' = (case inp_effect i of None \<Rightarrow> JNull | Some e \<Rightarrow> JObj (effect_map e)) \<and>
    dget (base_members i binding ts refs) ''disposition'' =
      (case inp_disposition i of None \<Rightarrow> JNull | Some d \<Rightarrow> JObj (disposition_map d)) \<and>
    dget (base_members i binding ts refs) ''model_attestation'' =
      (case model_attestation (inp_model i) (inp_compute i) binding of None \<Rightarrow> JNull | Some m \<Rightarrow> JObj m)"
proof -
  have refs: "\<not> dhas refs ''effect''" "\<not> dhas refs ''disposition''" "\<not> dhas refs ''model_attestation''"
    using subseq_keys [OF assms] by (auto simp: dhas_keys)
  have opt: "dget (opt_member k f x @ d) k' = (if k' = k \<and> x \<noteq> None then JObj (f (the x)) else dget d k')" for k f x d k'
    by (cases x) (simp_all add: opt_member_def)
  have pre: "k' \<noteq> k \<Longrightarrow> dget (present k s @ d) k' = dget d k'" for k s d k'
    by (simp add: present_def)
  show ?thesis
    unfolding base_members_def append_Cons append_Nil
    by (simp add: opt pre dget_absent [OF refs(1)] dget_absent [OF refs(2)] dget_absent [OF refs(3)] split: option.splits)
qed

text \<open>What an extension can not change: the members of the base profile.\<close>

lemma payload_base_member:
  assumes "list_all extension_ok exts" "k \<in> set BASE_MEMBERS"
  shows "dget (base @ exts) k = dget base k"
proof -
  have "\<not> dhas exts k"
    using assms by (auto simp: dhas_def list_all_iff extension_ok_def)
  then show ?thesis
    by (simp add: dget_append dget_absent)
qed

section \<open>Properties of what is built\<close>

text \<open>Extensions never touch the base profile: if a payload is built, every member of the base profile
  has in it the value it has without any extension, no member is given twice, and the names that were added are
  exactly the names of the extensions.\<close>

theorem extensions_keep_base_members:
  assumes "build_payload env i binding = Inr payload"
  shows "\<exists>plain. build_payload env (i\<lparr>inp_extensions := []\<rparr>) binding = Inr plain \<and>
    list_all (\<lambda>k. dget payload k = dget plain k) BASE_MEMBERS \<and> distinct (map fst payload) \<and>
    map fst payload = map fst plain @ map extension_key (inp_extensions i)"
proof -
  obtain base exts where v: "validate_input i binding = Inr ()" and b: "base_payload env i binding = Inr base"
    and p: "payload = base @ exts" and ok: "list_all extension_ok exts"
    and names: "map fst exts = map extension_key (inp_extensions i)" and d: "distinct (map fst payload)"
    and size: "json_depth (JObj payload) \<le> MAX_JSON_DEPTH" "json_utf8 (JObj payload)"
    by (rule build_payload_parts [OF assms])
  have "foldr max (map (\<lambda>(k, v). json_depth v) base) 0 \<le> foldr max (map (\<lambda>(k, v). json_depth v) payload) 0"
    by (rule foldr_max_mono) (auto simp: p)
  then have plain: "check_json_value (JObj base) ''$'' = Inr ()"
    using size by (simp add: check_json_value_ok p)
  have "validate_input (i\<lparr>inp_extensions := []\<rparr>) binding = validate_input i binding"
    "base_payload env (i\<lparr>inp_extensions := []\<rparr>) binding = base_payload env i binding"
    by (simp_all add: validate_input_def base_payload_def base_members_def)
  then have "build_payload env (i\<lparr>inp_extensions := []\<rparr>) binding = Inr base"
    using v b plain by (simp add: build_payload_def)
  moreover have "list_all (\<lambda>k. dget payload k = dget base k) BASE_MEMBERS"
    unfolding list_all_iff p using payload_base_member [OF ok] by blast
  ultimately show ?thesis
    using d names by (simp add: p)
qed


text \<open>What \<open>validate_input\<close> guarantees of an effect and a disposition.\<close>

lemma of_class_simps [simp]:
  "of_class EffectStatus ''PLANNED'' = ''planned''" "of_class EffectStatus ''DISPATCHED'' = ''dispatched''"
  "of_class EffectStatus ''CONFIRMED'' = ''confirmed''" "of_class EffectMode ''NOT_APPLICABLE'' = ''not_applicable''"
  "of_class EffectMode ''CONFIRMED'' = ''confirmed''"
  "of_class EffectMode ''DISPATCHED_UNCONFIRMED'' = ''dispatched_unconfirmed''"
  "of_class Approver ''HUMAN'' = ''human''"
  by (simp_all add: of_class_def vocabulary_defs)

lemma opt_check_ok: "opt_check f x = Inr u \<longleftrightarrow> (case x of None \<Rightarrow> True | Some y \<Rightarrow> f y = Inr ())"
  by (cases x) (auto simp: opt_check_def)

lemma validate_input_effect:
  assumes "validate_input i binding = Inr u" "inp_effect i = Some e"
  shows "validate_effect e = Inr ()"
  using assms by (simp add: validate_input_def res_simps opt_check_ok)

lemma validate_input_disposition:
  assumes "validate_input i binding = Inr u"
  shows "(case inp_disposition i of None \<Rightarrow> inp_action_type i \<noteq> of_class ActionType ''DECIDE'' | Some d \<Rightarrow> validate_disposition d = Inr ())"
  using assms by (auto simp: validate_input_def res_simps opt_check_ok split: option.splits)

lemma effect_map_lookup:
  "dget (effect_map e) ''response_digest'' = (if eff_response_digest e = [] then JNull else JStr (eff_response_digest e))"
  "dget (effect_map e) ''request_digest'' = (if eff_request_digest e = [] then JNull else JStr (eff_request_digest e))"
  "dget (effect_map e) ''effect_attestation'' = (if eff_effect_attestation e = [] then JNull else JStr (eff_effect_attestation e))"
  "dget (effect_map e) ''status'' = JStr (eff_status e)"
  by (simp_all add: effect_map_def present_def)

lemma disposition_map_lookup:
  "dget (disposition_map d) ''human_disposed'' = dsp_human_disposed d"
  "dget (disposition_map d) ''approver'' = JStr (dsp_approver d)"
  by (simp_all add: disposition_map_def)

lemma built_lookup:
  assumes "build_payload env i binding = Inr payload"
  shows "dget payload ''assurance'' = JObj (assurance (inp_effect i) (inp_chain i)) \<and>
    dget payload ''effect'' = (case inp_effect i of None \<Rightarrow> JNull | Some e \<Rightarrow> JObj (effect_map e)) \<and>
    dget payload ''disposition'' = (case inp_disposition i of None \<Rightarrow> JNull | Some d \<Rightarrow> JObj (disposition_map d))"
proof -
  obtain base exts where b: "base_payload env i binding = Inr base"
    and p: "payload = base @ exts" and ok: "list_all extension_ok exts"
    by (rule build_payload_parts [OF assms])
  obtain ts refs where refs: "subseq (map fst refs) [''references'']" and base: "base = base_members i binding ts refs"
    by (rule base_payload_Inr [OF b])
  have "''assurance'' \<in> set BASE_MEMBERS" "''effect'' \<in> set BASE_MEMBERS" "''disposition'' \<in> set BASE_MEMBERS"
    by (simp_all add: BASE_MEMBERS_def)
  then show ?thesis
    using base_members_lookup [OF refs, of i binding ts] payload_base_member [OF ok] by (simp add: p base)
qed

lemma assurance_block:
  "assurance e c =
     [(''effect_mode'', JStr (effect_mode e)), (''attestation_mode'', JStr ''self_attested''),
      (''ledger_mode'', JStr (if c = None then ''standalone'' else ''chained''))]"
  by (simp add: assurance_def of_class_def vocabulary_defs)

text \<open>C36: No capsule claims more about its effect than its evidence.  The assurance block of a built payload is
  self-attested, says \<open>chained\<close> exactly when the input has a chain, and its effect mode is \<open>not_applicable\<close>
  without an effect or with a planned one, which carries no digest and no attestation; \<open>confirmed\<close> exactly when the
  effect member of the payload has that status, with a response digest of 64 hex digits and an attestation; and
  \<open>dispatched_unconfirmed\<close> for an effect that was dispatched, failed or reverted, with an attestation.\<close>

theorem assurance_is_evidenced:
  assumes "build_payload env i binding = Inr payload"
  shows "\<exists>mode. dget payload ''assurance'' =
      JObj [(''effect_mode'', JStr mode), (''attestation_mode'', JStr ''self_attested''),
            (''ledger_mode'', JStr (if inp_chain i = None then ''standalone'' else ''chained''))] \<and>
    (case inp_effect i of
       None \<Rightarrow> mode = ''not_applicable'' \<and> dget payload ''effect'' = JNull
     | Some e \<Rightarrow> \<exists>m. dget payload ''effect'' = JObj m \<and> dget m ''status'' = JStr (eff_status e) \<and>
         (if eff_status e = ''planned''
          then mode = ''not_applicable'' \<and> dget m ''request_digest'' = JNull \<and> dget m ''response_digest'' = JNull \<and>
            dget m ''effect_attestation'' = JNull
          else dget m ''effect_attestation'' = JStr (eff_effect_attestation e) \<and> eff_effect_attestation e \<noteq> [] \<and>
            (if eff_status e = ''confirmed''
             then mode = ''confirmed'' \<and> (\<exists>dg. dget m ''response_digest'' = JStr dg \<and> hex_string 64 dg)
             else mode = ''dispatched_unconfirmed'' \<and> eff_status e \<in> {''dispatched'', ''failed'', ''reverted''} \<and>
               (eff_status e = ''dispatched'' \<longrightarrow> dget m ''response_digest'' = JNull))))"
proof -
  have v: "validate_input i binding = Inr ()"
    by (rule build_payload_parts [OF assms])
  show ?thesis
  proof (cases "inp_effect i")
    case None
    then show ?thesis using built_lookup [OF assms] by (simp add: assurance_block effect_mode_def of_class_def vocabulary_defs)
  next
    case (Some e)
    have "validate_effect e = Inr ()" by (rule validate_input_effect [OF v Some])
    then have "eff_status e \<in> set EFFECT_STATUSES" "eff_response_digest e = [] \<or> is_hex64 (eff_response_digest e)"
      "validate_status e = Inr ()"
      by (simp_all add: validate_effect_def res_simps)
    then show ?thesis
      using built_lookup [OF assms]
      by (auto simp: Some assurance_block is_hex64_def effect_mode_def effect_map_lookup validate_status_def res_simps Let_def
          EFFECT_STATUSES_def of_class_def vocabulary_defs split: if_splits)
  qed
qed


section \<open>A concrete payload\<close>

definition demo_effect :: effect where
  "demo_effect = \<lparr>eff_type = ''http'', eff_status = ''confirmed'', eff_irreversibility_class = ''two_way'',
     eff_effect_attestation = ''gate_executed'', eff_request_digest = [],
     eff_response_digest = replicate 64 CHR ''a'', eff_external_ref = []\<rparr>"

definition demo_input :: capsule_input where
  "demo_input = \<lparr>inp_action_id = JStr ''a-1'', inp_action_type = ''fyi'', inp_operator = JStr ''op'', inp_developer = JStr ''dev'',
     inp_timestamp = TsText ''2024-01-02T03:04:05Z'', inp_epoch_id = [], inp_domain = ''action'', inp_provenance = [],
     inp_disposition = None, inp_effect = Some demo_effect, inp_chain = None, inp_references = None, inp_model = None,
     inp_compute = None, inp_provenance_mode = None,
     inp_extensions = [\<lparr>ext_name = JStr ''limits'', ext_value = InText ''[1, 2]''\<rparr>]\<rparr>"

definition demo_env :: produce_env where
  "demo_env = \<lparr>pe_json = \<lparr>je_strict = False, je_read_float = (\<lambda>_. FNaN), je_max_digits = 20\<rparr>, pe_recursion = 50,
     pe_json_digest = (\<lambda>v. Inr (json_dumps v)), pe_capsule_id = (\<lambda>v. Inr (replicate 64 CHR ''b'')),
     pe_verify = (\<lambda>v. Inr \<lparr>vr_ok = True, vr_capsule_id = JStr (replicate 64 CHR ''b''), vr_findings = []\<rparr>),
     pe_jcs = (\<lambda>v. Inr (json_dumps v)), pe_sha256 = (\<lambda>s. replicate 64 CHR ''c'')\<rparr>"

definition demo_payload :: dict where
  "demo_payload = base_members demo_input None ''2024-01-02T03:04:05Z'' [] @ [(''limits'', JArr [JInt 1, JInt 2])]"

lemma build_demo_payload: "build_payload demo_env demo_input None = Inr demo_payload"
  by code_simp

lemma extensions_keep_base_members_witness:
  "\<exists>plain. build_payload demo_env (demo_input\<lparr>inp_extensions := []\<rparr>) None = Inr plain \<and>
    dget demo_payload ''assurance'' = dget plain ''assurance'' \<and> map fst demo_payload = map fst plain @ [''limits'']"
proof -
  have "map extension_key (inp_extensions demo_input) = [''limits'']" "''assurance'' \<in> set BASE_MEMBERS"
    by (simp_all add: demo_input_def extension_key_def BASE_MEMBERS_def)
  then show ?thesis
    using extensions_keep_base_members [OF build_demo_payload] by (auto simp: list_all_iff)
qed

lemma assurance_is_evidenced_witness:
  "dget demo_payload ''assurance'' =
     JObj [(''effect_mode'', JStr ''confirmed''), (''attestation_mode'', JStr ''self_attested''),
           (''ledger_mode'', JStr ''standalone'')] \<and>
   (\<exists>m dg. dget demo_payload ''effect'' = JObj m \<and> dget m ''response_digest'' = JStr dg \<and> hex_string 64 dg)"
proof -
  have "inp_effect demo_input = Some demo_effect" "eff_status demo_effect = ''confirmed''" "inp_chain demo_input = None"
    by (simp_all add: demo_input_def demo_effect_def)
  then show ?thesis
    using assurance_is_evidenced [OF build_demo_payload] by auto
qed

end
