(* ===== verification/Produce_Construction.thy ===== *)
theory Produce_Construction
  imports Produce_Build "HOL-Library.Multiset"
begin

text \<open>
  \<open>produce/verify.py\<close> and \<open>produce/construction.py\<close>: strict decoding and verification of a capsule, the
  binding of a foreign artifact, and the composition of existing capsules into the four slots.
\<close>

section \<open>Verification\<close>

definition decode_payload :: "produce_env \<Rightarrow> json_input \<Rightarrow> produce_error + dict" where
  "decode_payload env data =
     (case decode_strict env data of
        Inl (PValueError m) \<Rightarrow> Inl (PValueError (''decode capsule payload: '' @ m))
      | Inl e \<Rightarrow> Inl e
      | Inr (JObj d) \<Rightarrow> Inr d
      | Inr _ \<Rightarrow> Inl (PValueError ''capsule payload is not an object''))"

text \<open>A call outside \<open>canonical\<close>: the exception escapes as it is.\<close>

definition uncaught :: "lib_exn + 'a \<Rightarrow> produce_error + 'a" where
  "uncaught r =
     (case r of
        Inr x \<Rightarrow> Inr x
      | Inl RecursionError \<Rightarrow> Inl PRecursionError
      | Inl (LibValueError m) \<Rightarrow> Inl (PValueError m)
      | Inl (LibTypeError m) \<Rightarrow> Inl (PTypeError m))"

definition verify_capsule :: "produce_env \<Rightarrow> json_input \<Rightarrow> produce_error + verification_result" where
  "verify_capsule env data =
     sbind (decode_payload env data) (\<lambda>payload.
       if dget payload ''format_version'' \<noteq> JStr FORMAT_VERSION \<or>
          dget payload ''canonicalization_id'' \<noteq> JStr CANONICALIZATION_ID_JCS
       then Inl (PValueError ''unsupported Capsule profile: only AAC format 4 with canonicalization_id jcs is supported'')
       else sbind (uncaught (class1 env (JObj payload))) (\<lambda>result.
              if vr_ok result then Inr result else Inl (Class1Error result)))"

section \<open>Foreign artifacts\<close>

definition DIGEST_ALG :: string where "DIGEST_ALG = ''SHA-256''"
definition FOREIGN_ARTIFACT_TYPE :: string where "FOREIGN_ARTIFACT_TYPE = ''foreign-artifact''"
definition CAPSULE_REFERENCE_TYPE :: string where "CAPSULE_REFERENCE_TYPE = ''capsule''"
definition SLOTS :: "string list" where "SLOTS = [''who'', ''can'', ''did'', ''audit'']"

definition received :: "produce_env \<Rightarrow> capsule_input \<Rightarrow> json_input \<Rightarrow> json \<Rightarrow> produce_error + built_payload" where
  "received env i artifact artifact_type =
     (case artifact of
        InBytes data \<Rightarrow>
          sbind (req (data \<noteq> []) ''received artifact must not be empty'') (\<lambda>_.
          sbind (req (nonblank artifact_type) ''received artifact type must be a non-empty string'') (\<lambda>_.
          let digest = pe_sha256 env data;
              kind = (case artifact_type of JStr s \<Rightarrow> s | _ \<Rightarrow> [])
          in build_with_binding env i
               (Some [(''carried_artifact'', JObj (digest_reference kind DIGEST_ALG digest [])),
                      (''carried_input_digest'', JStr digest)])))
      | _ \<Rightarrow> Inl (PTypeError ''received artifact must be bytes''))"

definition carry :: "produce_env \<Rightarrow> capsule_input \<Rightarrow> json_input \<Rightarrow> produce_error + built_payload" where
  "carry env i artifact = received env i artifact (JStr FOREIGN_ARTIFACT_TYPE)"

section \<open>Composition\<close>

datatype member_source = FromBuilt built_payload | FromResult sealed_result | FromOther

definition make_slot :: "string \<Rightarrow> member_source \<Rightarrow> produce_error + slot_member" where
  "make_slot slot member =
     (case member of
        FromBuilt b \<Rightarrow> Inr \<lparr>slm_slot = slot, slm_capsule_id = bp_capsule_id b, slm_json = bp_json b\<rparr>
      | FromResult r \<Rightarrow> Inr \<lparr>slm_slot = slot, slm_capsule_id = sr_capsule_id r, slm_json = sr_payload r\<rparr>
      | FromOther \<Rightarrow> Inl (PTypeError (slot @ ''() takes a BuiltPayload or Result'')))"

definition who :: "member_source \<Rightarrow> produce_error + slot_member" where "who = make_slot ''who''"
definition can :: "member_source \<Rightarrow> produce_error + slot_member" where "can = make_slot ''can''"
definition did :: "member_source \<Rightarrow> produce_error + slot_member" where "did = make_slot ''did''"
definition audit :: "member_source \<Rightarrow> produce_error + slot_member" where "audit = make_slot ''audit''"

text \<open>One turn of the loop; \<open>TypeError\<close> and \<open>ValueError\<close> of the verification mean \<open>None\<close>, another exception
  escapes.\<close>

definition verified_member :: "produce_env \<Rightarrow> slot_member \<Rightarrow> produce_error + bool" where
  "verified_member env m =
     (case verify_capsule env (InBytes (slm_json m)) of
        Inl PRecursionError \<Rightarrow> Inl PRecursionError
      | Inl _ \<Rightarrow> Inr False
      | Inr r \<Rightarrow> Inr (vr_capsule_id r = JStr (slm_capsule_id m)))"

type_synonym slot_map = "(string \<times> string) list"

definition compose_member ::
    "produce_env \<Rightarrow> slot_map \<times> slot_map \<Rightarrow> nat \<times> slot_member \<Rightarrow> produce_error + (slot_map \<times> slot_map)" where
  "compose_member env = (\<lambda>(by_slot, seen) (index, m).
     let slot = slm_slot m; cid = slm_capsule_id m
     in sbind (req (slot \<in> set SLOTS) (''composition member '' @ nat_str index @ '' has invalid slot'')) (\<lambda>_.
        sbind (req (map_of by_slot slot = None) (''composition duplicates '' @ slot @ '' slot'')) (\<lambda>_.
        sbind (req (is_hex64 cid) (''composition '' @ slot @ '' member has malformed Capsule ID'')) (\<lambda>_.
        sbind (verified_member env m) (\<lambda>ok.
        sbind (req ok (''composition '' @ slot @ '' member is not a matching verified format-4 Capsule'')) (\<lambda>_.
        sbind (case map_of seen cid of None \<Rightarrow> Inr ()
               | Some other \<Rightarrow> Inl (PValueError (''composition '' @ slot @ '' slot duplicates Capsule ID '' @ cid @ '' from '' @ other @ '' slot''))) (\<lambda>_.
          Inr (by_slot @ [(slot, cid)], seen @ [(cid, slot)]))))))))"

definition composed_members :: "slot_map \<Rightarrow> json list" where
  "composed_members by_slot =
     concat (map (\<lambda>slot. case map_of by_slot slot of
        None \<Rightarrow> [] | Some cid \<Rightarrow> [JObj (digest_reference CAPSULE_REFERENCE_TYPE DIGEST_ALG cid slot)]) SLOTS)"

definition build_composition :: "produce_env \<Rightarrow> capsule_input \<Rightarrow> slot_member list \<Rightarrow> produce_error + built_payload" where
  "build_composition env i members =
     sbind (req (members \<noteq> []) ''composition requires at least one slot member'') (\<lambda>_.
     sbind (foldM_r (compose_member env) ([], []) (zip [0..<length members] members)) (\<lambda>(by_slot, seen).
       build_with_binding env i (Some [(''composed_members'', JArr (composed_members by_slot))])))"

section \<open>What a composition accepts\<close>

definition member_ok :: "produce_env \<Rightarrow> slot_member \<Rightarrow> bool" where
  "member_ok env m \<longleftrightarrow> slm_slot m \<in> set SLOTS \<and> is_hex64 (slm_capsule_id m) \<and> verified_member env m = Inr True"

definition slot_pairs :: "slot_member list \<Rightarrow> slot_map" where
  "slot_pairs ms = map (\<lambda>m. (slm_slot m, slm_capsule_id m)) ms"

definition id_pairs :: "slot_member list \<Rightarrow> slot_map" where
  "id_pairs ms = map (\<lambda>m. (slm_capsule_id m, slm_slot m)) ms"

definition composable :: "produce_env \<Rightarrow> slot_member list \<Rightarrow> bool" where
  "composable env ms \<longleftrightarrow> list_all (member_ok env) ms \<and> distinct (map slm_slot ms) \<and> distinct (map slm_capsule_id ms)"

lemma map_of_slot_pairs: "map_of (slot_pairs ms) s = None \<longleftrightarrow> s \<notin> slm_slot ` set ms"
  by (simp add: slot_pairs_def map_of_eq_None_iff image_image)

lemma map_of_id_pairs: "map_of (id_pairs ms) c = None \<longleftrightarrow> c \<notin> slm_capsule_id ` set ms"
  by (simp add: id_pairs_def map_of_eq_None_iff image_image)

lemma pairs_snoc:
  "slot_pairs (ms @ [m]) = slot_pairs ms @ [(slm_slot m, slm_capsule_id m)]"
  "id_pairs (ms @ [m]) = id_pairs ms @ [(slm_capsule_id m, slm_slot m)]"
  by (simp_all add: slot_pairs_def id_pairs_def)

lemma case_None_ok: "(case x of None \<Rightarrow> Inr () | Some y \<Rightarrow> Inl (f y)) = Inr u \<longleftrightarrow> x = None"
  by (cases x) auto

lemma compose_member_Inr:
  "compose_member env (slot_pairs ms, id_pairs ms) (n, m) = Inr r \<longleftrightarrow>
     member_ok env m \<and> slm_slot m \<notin> slm_slot ` set ms \<and> slm_capsule_id m \<notin> slm_capsule_id ` set ms \<and>
     r = (slot_pairs (ms @ [m]), id_pairs (ms @ [m]))"
  by (auto simp: compose_member_def Let_def res_simps member_ok_def map_of_slot_pairs map_of_id_pairs case_None_ok pairs_snoc)

lemma compose_loop:
  "length ns = length xs \<Longrightarrow> composable env ms \<Longrightarrow>
     foldM_r (compose_member env) (slot_pairs ms, id_pairs ms) (zip ns xs) = Inr r \<longleftrightarrow>
     composable env (ms @ xs) \<and> r = (slot_pairs (ms @ xs), id_pairs (ms @ xs))"
proof (induction xs arbitrary: ns ms)
  case (Cons x xs)
  obtain n ns' where ns: "ns = n # ns'" "length ns' = length xs" using Cons.prems(1) by (cases ns) auto
  show ?case
  proof (cases "compose_member env (slot_pairs ms, id_pairs ms) (n, x)")
    case (Inl e)
    then have "\<not> (member_ok env x \<and> slm_slot x \<notin> slm_slot ` set ms \<and> slm_capsule_id x \<notin> slm_capsule_id ` set ms)"
      using compose_member_Inr [of env ms n x "(slot_pairs (ms @ [x]), id_pairs (ms @ [x]))"] by auto
    then show ?thesis
      using Inl by (auto simp: ns composable_def)
  next
    case (Inr q)
    then have q: "member_ok env x" "slm_slot x \<notin> slm_slot ` set ms" "slm_capsule_id x \<notin> slm_capsule_id ` set ms"
      "q = (slot_pairs (ms @ [x]), id_pairs (ms @ [x]))"
      by (simp_all add: compose_member_Inr)
    then have "composable env (ms @ [x])" using Cons.prems(2) by (simp add: composable_def)
    then show ?thesis
      using Cons.IH [OF ns(2), of "ms @ [x]"] Inr q(4) by (simp add: ns)
  qed
qed (auto simp: composable_def)

lemma build_composition_alt:
  "build_composition env i ms = Inr r \<longleftrightarrow>
     ms \<noteq> [] \<and> composable env ms \<and>
     build_with_binding env i (Some [(''composed_members'', JArr (composed_members (slot_pairs ms)))]) = Inr r"
  using compose_loop [of "[0..<length ms]" ms env "[]"]
  by (auto simp: build_composition_def res_simps composable_def slot_pairs_def id_pairs_def)

lemma map_of_slot_pairs_mset:
  assumes "mset xs = mset ys" "distinct (map slm_slot xs)"
  shows "map_of (slot_pairs xs) = map_of (slot_pairs ys)"
proof -
  have keys: "map fst (slot_pairs zs) = map slm_slot zs" for zs
    by (simp add: slot_pairs_def)
  have "distinct (map slm_slot ys)"
    using assms by (metis mset_eq_imp_distinct_iff mset_map)
  moreover have "set (slot_pairs xs) = set (slot_pairs ys)"
    using mset_eq_setD [OF assms(1)] by (simp add: slot_pairs_def)
  ultimately show ?thesis
    using assms(2) by (simp add: map_of_inject_set keys)
qed

text \<open>A composition does not depend on the order of its members: whatever the order of the arguments,
  the same capsule is built from them, its members in the canonical order of the slots.\<close>

theorem composition_ignores_order:
  assumes "build_composition env i ms = Inr r" "mset ms' = mset ms"
  shows "build_composition env i ms' = Inr r"
proof -
  have c: "ms \<noteq> []" "composable env ms"
    "build_with_binding env i (Some [(''composed_members'', JArr (composed_members (slot_pairs ms)))]) = Inr r"
    using assms(1) by (simp_all add: build_composition_alt)
  have same: "map_of (slot_pairs ms') = map_of (slot_pairs ms)"
    using map_of_slot_pairs_mset [OF assms(2) [symmetric]] c(2) by (simp add: composable_def)
  have "composable env ms'"
    using c(2) assms(2) unfolding composable_def list_all_iff
    by (metis mset_eq_imp_distinct_iff mset_map set_mset_mset)
  moreover have "ms' \<noteq> []" using c(1) assms(2) by auto
  ultimately show ?thesis
    using c(3) by (simp add: build_composition_alt composed_members_def same)
qed


definition demo_verifier :: produce_env where
  "demo_verifier = demo_env\<lparr>
     pe_verify := (\<lambda>v. Inr \<lparr>vr_ok = True, vr_capsule_id = (case v of JObj d \<Rightarrow> dget d ''capsule_id'' | _ \<Rightarrow> JNull), vr_findings = []\<rparr>),
     pe_jcs := (\<lambda>v. Inr ''{}'')\<rparr>"

definition demo_member :: "string \<Rightarrow> char \<Rightarrow> slot_member" where
  "demo_member slot c = \<lparr>slm_slot = slot, slm_capsule_id = replicate 64 c,
     slm_json = json_dumps (JObj [(''format_version'', JStr ''4''), (''canonicalization_id'', JStr ''jcs''),
       (''capsule_id'', JStr (replicate 64 c))])\<rparr>"

lemma demo_composition:
  "case build_composition demo_verifier demo_input [demo_member ''audit'' CHR ''1'', demo_member ''who'' CHR ''2''] of
     Inr r \<Rightarrow> bp_capsule_id r = replicate 64 CHR ''b'' | Inl e \<Rightarrow> False"
  by code_simp

lemma composition_ignores_order_witness:
  "\<exists>r. bp_capsule_id r = replicate 64 CHR ''b'' \<and>
    build_composition demo_verifier demo_input [demo_member ''audit'' CHR ''1'', demo_member ''who'' CHR ''2''] = Inr r \<and>
    build_composition demo_verifier demo_input [demo_member ''who'' CHR ''2'', demo_member ''audit'' CHR ''1''] = Inr r"
proof -
  obtain r where r: "bp_capsule_id r = replicate 64 CHR ''b''"
    "build_composition demo_verifier demo_input [demo_member ''audit'' CHR ''1'', demo_member ''who'' CHR ''2''] = Inr r"
    using demo_composition by (auto split: sum.splits)
  show ?thesis
    using r composition_ignores_order [OF r(2), of "[demo_member ''who'' CHR ''2'', demo_member ''audit'' CHR ''1'']"]
    by auto
qed

end
