(* ===== verification/Emit_Builder.thy ===== *)
theory Emit_Builder
  imports Reconciliation Hold_Records Witness_Checkpoint
begin

text \<open>
  \<open>builder.py\<close>, \<open>canonicalization.py\<close>, \<open>spec_version.py\<close>: from the fields of an action to the \<open>Capsule\<close> object that
  \<open>agent_action_capsule\<close> seals, and the content address of a capsule line.  \<open>Capsule.seal\<close>, its contracts and
  \<open>derive_effect_mode\<close>, JCS and SHA-256 are fields of \<open>emit_env\<close>; \<open>uuid4\<close> and the clock are the values they give.
\<close>

section \<open>Dictionaries\<close>

lemma dhas_dict_set: "dhas (dict_set d k v) j \<longleftrightarrow> j = k \<or> dhas d j"
  by (induction d k v rule: dict_set.induct) (auto simp: dhas_def)

lemma dget_dict_set: "dget (dict_set d k v) j = (if j = k then v else dget d j)"
  by (induction d k v rule: dict_set.induct) auto

lemma set_dict_set: "set (dict_set d k v) \<subseteq> insert (k, v) (set d)"
  by (induction d k v rule: dict_set.induct) auto

lemma set_dict_update: "set (dict_update d e) \<subseteq> set d \<union> set e"
proof (induction e rule: rev_induct)
  case (snoc m e)
  obtain k v where m: "m = (k, v)" by (cases m)
  have "dict_update d (e @ [m]) = dict_set (dict_update d e) k v" by (simp add: dict_update_def m)
  then show ?case using snoc set_dict_set [of "dict_update d e" k v] m by auto
qed (simp add: dict_update_def)

lemma map_of_dict_set: "map_of (dict_set d k v) = (map_of d)(k \<mapsto> v)"
  by (induction d k v rule: dict_set.induct) (auto simp: fun_upd_twist)

lemma keys_dict_set: "fst ` set (dict_set d k v) = insert k (fst ` set d)"
  by (induction d k v rule: dict_set.induct) auto

lemma distinct_dict_set: "distinct (map fst d) \<Longrightarrow> distinct (map fst (dict_set d k v))"
  by (induction d k v rule: dict_set.induct) (auto simp: keys_dict_set)

lemma keys_dict_update: "fst ` set (dict_update d e) = fst ` set d \<union> fst ` set e"
proof (induction e rule: rev_induct)
  case (snoc m e)
  have "dict_update d (e @ [m]) = dict_set (dict_update d e) (fst m) (snd m)"
    by (simp add: dict_update_def split: prod.splits)
  then show ?case using snoc by (simp only: keys_dict_set) simp
qed (simp add: dict_update_def)

lemma map_of_rev_distinct: "distinct (map fst d) \<Longrightarrow> map_of (rev d) = map_of d"
proof (induction d)
  case (Cons m d)
  then have "map_of d (fst m) = None" by (simp add: map_of_eq_None_iff)
  then show ?case using Cons by (cases m) (auto simp: fun_eq_iff map_add_def split: option.splits)
qed simp

lemma filter_dict_set:
  "\<not> P k \<Longrightarrow> filter (\<lambda>(k, v). P k) (dict_set d k v) = filter (\<lambda>(k, v). P k) d"
  by (induction d k v rule: dict_set.induct) auto

section \<open>The contracts of \<open>agent_action_capsule\<close>\<close>

record aac_reference =
  xr_type :: string
  xr_digest_alg :: string
  xr_digest :: string
  xr_citation_purpose :: "string option"
  xr_log_coordinates :: json

record aac_effect =
  xe_type :: json
  xe_status :: json
  xe_response_digest :: "string option"
  xe_attestation :: "string option"

record aac_disposition =
  xd_decision :: string
  xd_approver :: string
  xd_human_disposed :: bool
  xd_verdict_class :: string
  xd_authority :: "string option"

record aac_model_attestation =
  xm_model_id :: json
  xm_provider :: json
  xm_compute :: "dict option"

record aac_chain =
  xc_parent :: string
  xc_relation :: string

record aac_assurance =
  xs_attestation_mode :: string
  xs_effect_mode :: string
  xs_ledger_mode :: string

record aac_capsule =
  xa_spec_version :: string
  xa_format_version :: string
  xa_action_id :: string
  xa_action_type :: string
  xa_operator :: string
  xa_developer :: string
  xa_timestamp :: string
  xa_canonicalization_id :: string
  xa_domain :: "string option"
  xa_provenance :: "string option"
  xa_provenance_mode :: "json option"
  xa_model :: "aac_model_attestation option"
  xa_reasoning_digest :: "string option"
  xa_effect :: "aac_effect option"
  xa_assurance :: aac_assurance
  xa_disposition :: "aac_disposition option"
  xa_chain :: "aac_chain option"
  xa_constraints :: "json list"
  xa_references :: "aac_reference list option"

datatype emit_exn =
    InvariantError
  | EmitValueError
  | EmitTypeError
  | EmitAttributeError
  | FloatInDigestError
  | UnsupportedCanonicalizationError
  | SealError
  | SignError
  | AppendError
  | WitnessExn witness_exn

record emit_env =
  em_uuid :: string
  em_now :: string
  em_salt :: string
  em_format_version :: string
  em_effect_mode :: "aac_effect option \<Rightarrow> string"
  em_seal :: "aac_capsule \<Rightarrow> emit_exn + dict"
  em_jcs :: "dict \<Rightarrow> string"
  em_normalize :: "dict \<Rightarrow> dict"
  em_sha256 :: "string \<Rightarrow> string"
  em_json_digest :: "json \<Rightarrow> string option"
  em_value_bytes :: "json \<Rightarrow> string option"
  em_sign :: "string \<Rightarrow> emit_exn + (string \<times> string)"
  em_anchor :: "string \<Rightarrow> string \<Rightarrow> bool option"

section \<open>\<open>build_capsule\<close>\<close>

record build_args =
  b_action_id :: "string option"
  b_action_type :: string
  b_operator :: string
  b_developer :: string
  b_model_id :: json
  b_provider :: json
  b_timestamp :: "string option"
  b_compute :: "dict option"
  b_effect :: "aac_effect option"
  b_prior :: "string option"
  b_chain_relation :: "string option"
  b_disposition :: "aac_disposition option"
  b_constraints :: "json list"
  b_references :: "aac_reference list option"
  b_domain :: "string option"
  b_provenance :: "string option"
  b_provenance_mode :: "json option"
  b_reasoning_digest :: "string option"
  b_spec_version :: string
  b_format_version :: string
  b_tool_name :: "string option"

definition action_id_for :: "emit_env \<Rightarrow> build_args \<Rightarrow> string" where
  "action_id_for env a =
     (case b_action_id a of
        Some i \<Rightarrow> i
      | None \<Rightarrow>
          (case b_tool_name a of
             Some t \<Rightarrow> if t = [] then ''tool-call'' else t
           | None \<Rightarrow> ''tool-call'') @ ''/'' @ em_uuid env)"

definition model_attestation_of :: "build_args \<Rightarrow> aac_model_attestation option" where
  "model_attestation_of a =
     (if b_model_id a \<noteq> JNull \<and> b_provider a \<noteq> JNull
      then Some \<lparr>xm_model_id = b_model_id a, xm_provider = b_provider a, xm_compute = b_compute a\<rparr>
      else if b_compute a \<noteq> None
      then Some \<lparr>xm_model_id = JNull, xm_provider = JNull, xm_compute = b_compute a\<rparr>
      else None)"

definition chain_of :: "build_args \<Rightarrow> aac_chain option" where
  "chain_of a =
     map_option (\<lambda>parent. \<lparr>xc_parent = parent,
       xc_relation = (case b_chain_relation a of
                        Some r \<Rightarrow> r
                      | None \<Rightarrow> if b_tool_name a \<noteq> None then ''sequence'' else ''follows'')\<rparr>) (b_prior a)"

definition claimed_effect :: "aac_effect \<Rightarrow> aac_effect" where
  "claimed_effect e =
     (if xe_attestation e = None \<and>
         xe_status e \<in> {JStr ''dispatched'', JStr ''confirmed'', JStr ''failed'', JStr ''reverted''}
      then e\<lparr>xe_attestation := Some ''runtime_claimed''\<rparr> else e)"

definition default_disposition :: aac_disposition where
  "default_disposition = \<lparr>xd_decision = ''accept'', xd_approver = ''policy'', xd_human_disposed = False,
     xd_verdict_class = ''executed'', xd_authority = None\<rparr>"

definition capsule_of :: "emit_env \<Rightarrow> build_args \<Rightarrow> aac_capsule" where
  "capsule_of env a =
     (let effect = map_option claimed_effect (b_effect a); chain = chain_of a in
      \<lparr>xa_spec_version = b_spec_version a, xa_format_version = b_format_version a, xa_action_id = action_id_for env a,
       xa_action_type = b_action_type a, xa_operator = b_operator a, xa_developer = b_developer a,
       xa_timestamp = (case b_timestamp a of Some t \<Rightarrow> if t = [] then em_now env else t | None \<Rightarrow> em_now env),
       xa_canonicalization_id = ''jcs'', xa_domain = b_domain a, xa_provenance = b_provenance a,
       xa_provenance_mode = b_provenance_mode a, xa_model = model_attestation_of a,
       xa_reasoning_digest = b_reasoning_digest a, xa_effect = effect,
       xa_assurance = \<lparr>xs_attestation_mode = ''self_attested'', xs_effect_mode = em_effect_mode env effect,
         xs_ledger_mode = (if chain \<noteq> None then ''chained'' else ''standalone'')\<rparr>,
       xa_disposition = (if b_disposition a = None \<and> b_action_type a = ''fyi'' then Some default_disposition else b_disposition a),
       xa_chain = chain, xa_constraints = b_constraints a, xa_references = b_references a\<rparr>)"

definition build_capsule :: "emit_env \<Rightarrow> build_args \<Rightarrow> emit_exn + dict" where
  "build_capsule env a =
     (if b_format_version a \<noteq> em_format_version env then Inl InvariantError
      else em_seal env (capsule_of env a))"

section \<open>The content address\<close>

definition VINTAGE_CANONICALIZATION_ID :: string where
  "VINTAGE_CANONICALIZATION_ID = ''jcs-n''"

definition LOCAL_ONLY_FIELDS :: "string list" where
  "LOCAL_ONLY_FIELDS = [''signature'', ''key_id'']"

definition VINTAGE_ONLY_EXCLUDED_FIELDS :: "string list" where
  "VINTAGE_ONLY_EXCLUDED_FIELDS = [''chain'']"

definition resolve_canonicalization_id :: "dict \<Rightarrow> json" where
  "resolve_canonicalization_id capsule =
     (let declared = dget capsule ''canonicalization_id'' in
      if declared = JNull then JStr VINTAGE_CANONICALIZATION_ID else declared)"

definition preimage :: "dict \<Rightarrow> dict" where
  "preimage capsule = filter (\<lambda>(k, v). k \<noteq> ''capsule_id'' \<and> k \<notin> set LOCAL_ONLY_FIELDS) capsule"

definition canonical_capsule_bytes :: "emit_env \<Rightarrow> dict \<Rightarrow> emit_exn + string" where
  "canonical_capsule_bytes env capsule =
     (let algorithm = resolve_canonicalization_id capsule; canonical = preimage capsule in
      if algorithm = JStr ''jcs-n''
      then Inr (em_jcs env (em_normalize env (filter (\<lambda>(k, v). k \<notin> set VINTAGE_ONLY_EXCLUDED_FIELDS) canonical)))
      else if algorithm = JStr ''jcs'' then Inr (em_jcs env canonical)
      else Inl UnsupportedCanonicalizationError)"

definition compute_capsule_id :: "emit_env \<Rightarrow> dict \<Rightarrow> emit_exn + string" where
  "compute_capsule_id env capsule = sbind (canonical_capsule_bytes env capsule) (\<lambda>b. Inr (em_sha256 env b))"

text \<open>Setting one of the fields that are kept out of the preimage leaves the address alone.\<close>

lemma capsule_id_local_field:
  assumes "k = ''capsule_id'' \<or> k \<in> set LOCAL_ONLY_FIELDS"
  shows "compute_capsule_id env (dict_set capsule k v) = compute_capsule_id env capsule"
proof -
  have "preimage (dict_set capsule k v) = preimage capsule"
    unfolding preimage_def
    by (rule filter_dict_set [of "\<lambda>k. k \<noteq> ''capsule_id'' \<and> k \<notin> set LOCAL_ONLY_FIELDS"]) (use assms in auto)
  moreover have "resolve_canonicalization_id (dict_set capsule k v) = resolve_canonicalization_id capsule"
    using assms by (auto simp: resolve_canonicalization_id_def dget_dict_set LOCAL_ONLY_FIELDS_def)
  ultimately show ?thesis by (simp add: compute_capsule_id_def canonical_capsule_bytes_def)
qed

end
