(* ===== verification/Emit.thy ===== *)
theory Emit
  imports Emit_Builder
begin

text \<open>
  \<open>core.py\<close>: the emission of a capsule, from the keyword arguments of \<open>_emit_capsule_at\<close> to the ledger line, the
  witness and the legacy anchor, and the unsigned \<open>_emit_log_entry_at\<close>.  Payload values are JSON values; the
  fallback of the digest for other Python objects is not modelled.  The process state is the ledger and network of
  \<open>Witness_Backlog\<close>, the checkpoint state of the ledger and the anchors that were submitted.  The notices on stderr
  are left out.
\<close>

section \<open>Ledger lines of capsules\<close>

definition is_record :: "dict \<Rightarrow> bool" where
  "is_record e \<longleftrightarrow> (case dget e ''kind'' of JStr k \<Rightarrow> k \<notin> set NON_CAPSULE_KINDS | _ \<Rightarrow> True)"

text \<open>The position of the line with an id, counted from 1.\<close>

fun line_seq :: "json \<Rightarrow> dict list \<Rightarrow> nat" where
  "line_seq i [] = 0"
| "line_seq i (e # L) = (if line_id e = i then 1 else Suc (line_seq i L))"

definition append_line :: "witness_env \<Rightarrow> dict \<Rightarrow> dict list \<Rightarrow> emit_exn + (nat \<times> dict list)" where
  "append_line wenv e L =
     (if \<not> line_id_ok e \<or> \<not> is_record e then Inl AppendError
      else (case append_entry wenv e L of
              Inl _ \<Rightarrow> Inl AppendError
            | Inr L' \<Rightarrow> Inr (line_seq (line_id e) L', L')))"

definition valid_id :: "string \<Rightarrow> bool" where
  "valid_id i \<longleftrightarrow> hex_string 64 i"

definition in_ledger :: "string \<Rightarrow> dict list \<Rightarrow> bool" where
  "in_ledger i L \<longleftrightarrow> (if \<not> valid_id i then True else list_ex (\<lambda>e. line_id e = JStr i) L)"

definition cite_foreign :: "string \<Rightarrow> aac_reference list option \<Rightarrow> aac_reference list" where
  "cite_foreign i references =
     (let refs = (case references of None \<Rightarrow> [] | Some r \<Rightarrow> r) in
      if list_ex (\<lambda>r. xr_digest_alg r = ''SHA-256'' \<and> xr_digest r = i) refs then refs
      else refs @ [\<lparr>xr_type = ''agent-action-capsule'', xr_digest_alg = ''SHA-256'', xr_digest = i,
                    xr_citation_purpose = Some ''responds_to'', xr_log_coordinates = JNull\<rparr>])"

section \<open>Arguments and results\<close>

record emit_args =
  ea_action :: string
  ea_operator :: string
  ea_developer :: string
  ea_runtime :: "string option"
  ea_input :: "json option"
  ea_output :: "json option"
  ea_model :: "dict option"
  ea_verdict :: string
  ea_effect :: "dict option"
  ea_confirms :: "string option"
  ea_relation :: "string option"
  ea_anchor :: "bool option"
  ea_anchor_url :: "string option"
  ea_anchor_wait :: bool
  ea_witness :: "bool option"
  ea_witness_url :: "url_arg option"
  ea_require_witness :: bool
  ea_human_disposed :: bool
  ea_approver :: string
  ea_decision :: string
  ea_action_type :: "string option"
  ea_extra_compute :: "dict option"
  ea_authority :: "string option"
  ea_salt_digests :: bool
  ea_canonicalization_id :: json
  ea_references :: "aac_reference list option"
  ea_payload_members :: "dict option"
  ea_provenance_mode :: "json option"

datatype anchor_status = Confirmed | Submitted | Failed | Skipped

datatype witness_outcome = LocalSealed | CheckpointQueued | WitnessReceiptObtained

record emit_result =
  er_capsule_id :: string
  er_anchored :: bool
  er_capsule :: dict
  er_anchor_status :: anchor_status
  er_signature :: string
  er_key_id :: string
  er_seq :: nat
  er_witness_outcome :: witness_outcome

record emit_state =
  es_proc :: wproc
  es_world :: wworld
  es_anchors :: "(string \<times> string) list"

section \<open>Planning the capsule\<close>

text \<open>\<open>_digest\<close> of a JSON value.\<close>

definition digest_value :: "emit_env \<Rightarrow> json \<Rightarrow> string option \<Rightarrow> emit_exn + string" where
  "digest_value env v salt =
     (case salt of
        None \<Rightarrow> (case em_json_digest env v of None \<Rightarrow> Inl FloatInDigestError | Some d \<Rightarrow> Inr d)
      | Some s \<Rightarrow> (case em_value_bytes env v of
                     None \<Rightarrow> Inl FloatInDigestError
                   | Some b \<Rightarrow> Inr (em_sha256 env (b @ ''|'' @ s))))"

definition digest_opt :: "emit_env \<Rightarrow> json option \<Rightarrow> string option \<Rightarrow> emit_exn + string option" where
  "digest_opt env v salt =
     (case v of None \<Rightarrow> Inr None | Some x \<Rightarrow> sbind (digest_value env x salt) (\<lambda>d. Inr (Some d)))"

definition guards :: "environ \<Rightarrow> emit_args \<Rightarrow> emit_exn + unit" where
  "guards environ a =
     sbind (ensure (\<not> (ea_human_disposed a \<and> ea_approver a \<noteq> ''human'')) InvariantError) (\<lambda>_.
     sbind (ensure (case ea_relation a of None \<Rightarrow> True | Some r \<Rightarrow> r \<in> set REGISTERED_RELATIONS) EmitValueError) (\<lambda>_.
     sbind (ensure (\<not> (ea_relation a \<noteq> None \<and> ea_relation a \<noteq> Some ''confirms'' \<and> ea_confirms a = None)) EmitValueError) (\<lambda>_.
       (case refuse_stub_in_production environ (ea_witness a) of Inl e \<Rightarrow> Inl (WitnessExn e) | Inr u \<Rightarrow> Inr u))))"

definition opt_entry :: "string \<Rightarrow> string option \<Rightarrow> dict" where
  "opt_entry k v = (case v of None \<Rightarrow> [] | Some s \<Rightarrow> [(k, JStr s)])"

definition emit_salt :: "emit_env \<Rightarrow> emit_args \<Rightarrow> string option" where
  "emit_salt env a = (if ea_salt_digests a then Some (em_salt env) else None)"

definition compute_of :: "emit_env \<Rightarrow> emit_args \<Rightarrow> string option \<Rightarrow> string option \<Rightarrow> dict" where
  "compute_of env a input_digest output_digest =
     (let base = opt_entry ''agent_input_digest'' input_digest @ opt_entry ''agent_output_digest'' output_digest
            @ (if ea_salt_digests a \<and> (input_digest \<noteq> None \<or> output_digest \<noteq> None)
               then [(''digest_salt'', JStr (em_salt env))] else [])
            @ opt_entry ''runtime'' (ea_runtime a);
          extra = (case ea_extra_compute a of None \<Rightarrow> [] | Some d \<Rightarrow> d);
          chip = (case ea_model a of None \<Rightarrow> [] | Some m \<Rightarrow> filter (\<lambda>(k, v). k \<notin> {''model_id'', ''provider''}) m)
      in dict_update (dict_update base extra) chip)"

definition effect_record :: "emit_env \<Rightarrow> emit_args \<Rightarrow> emit_exn + aac_effect option" where
  "effect_record env a =
     (case ea_effect a of
        None \<Rightarrow> Inr None
      | Some e \<Rightarrow>
          let status = dget_default e ''status'' (JStr ''dispatched'') in
          sbind (if status \<noteq> JStr ''confirmed'' then Inr None
                 else (case ea_output a of
                         Some out \<Rightarrow> digest_opt env (Some out) (emit_salt env a)
                       | None \<Rightarrow>
                           digest_opt env (map_option (\<lambda>i. JObj [(''confirmed_capsule_id'', JStr i)]) (ea_confirms a))
                             (emit_salt env a))) (\<lambda>response.
            Inr (Some \<lparr>xe_type = dget_default e ''type'' (JStr (ea_action a)), xe_status = status,
                       xe_response_digest = response, xe_attestation = None\<rparr>)))"

definition action_type_of :: "emit_args \<Rightarrow> string" where
  "action_type_of a =
     (case ea_action_type a of
        Some t \<Rightarrow> t
      | None \<Rightarrow>
          if ea_verdict a \<in> {''executed'', ''confirmed'', ''denied'', ''blocked'', ''assessed''} then ''decide'' else ''fyi'')"

definition disposition_of :: "emit_args \<Rightarrow> aac_disposition" where
  "disposition_of a = \<lparr>xd_decision = ea_decision a, xd_approver = ea_approver a, xd_human_disposed = ea_human_disposed a,
     xd_verdict_class = ea_verdict a, xd_authority = ea_authority a\<rparr>"

text \<open>The link to the capsule that this one follows up: the parent and relation of \<open>chain\<close>, and the references.\<close>

definition link_of :: "emit_args \<Rightarrow> dict list \<Rightarrow> (string option \<times> string option) \<times> aac_reference list option" where
  "link_of a L =
     (case ea_confirms a of
        None \<Rightarrow> ((None, None), ea_references a)
      | Some i \<Rightarrow>
          if in_ledger i L
          then ((Some i, Some (case ea_relation a of Some r \<Rightarrow> r | None \<Rightarrow> ''follows'')), ea_references a)
          else ((None, None), Some (cite_foreign i (ea_references a))))"

definition build_args_of :: "emit_env \<Rightarrow> emit_args \<Rightarrow> dict list \<Rightarrow> emit_exn + build_args" where
  "build_args_of env a L =
     sbind (digest_opt env (ea_input a) (emit_salt env a)) (\<lambda>input_digest.
     sbind (digest_opt env (ea_output a) (emit_salt env a)) (\<lambda>output_digest.
     sbind (effect_record env a) (\<lambda>effect.
       let compute = compute_of env a input_digest output_digest;
           model = (case ea_model a of None \<Rightarrow> [] | Some m \<Rightarrow> m);
           ((parent, relation), references) = link_of a L
       in Inr \<lparr>b_action_id = None, b_action_type = action_type_of a, b_operator = ea_operator a, b_developer = ea_developer a,
            b_model_id = dget model ''model_id'', b_provider = dget model ''provider'', b_timestamp = None,
            b_compute = (if compute = [] then None else Some compute), b_effect = effect, b_prior = parent,
            b_chain_relation = relation, b_disposition = Some (disposition_of a), b_constraints = [],
            b_references = references, b_domain = None, b_provenance = None, b_provenance_mode = ea_provenance_mode a,
            b_reasoning_digest = None, b_spec_version = SPEC_VERSION, b_format_version = em_format_version env,
            b_tool_name = Some (ea_action a)\<rparr>)))"

section \<open>Sealing\<close>

definition RESERVED_MEMBERS :: "string list" where
  "RESERVED_MEMBERS = [''canonicalization_id'', ''capsule_id'', ''signature'', ''key_id'']"

definition add_member :: "dict \<Rightarrow> string \<times> json \<Rightarrow> emit_exn + dict" where
  "add_member capsule m =
     (if dhas capsule (fst m) \<or> fst m \<in> set RESERVED_MEMBERS then Inl EmitValueError
      else Inr (dict_set capsule (fst m) (snd m)))"

text \<open>The members of the profile, the binding slot, the content address and the producer's envelope.\<close>

definition finish_capsule :: "emit_env \<Rightarrow> emit_args \<Rightarrow> dict \<Rightarrow> emit_exn + (string \<times> string \<times> string \<times> dict)" where
  "finish_capsule env a base =
     sbind (foldM_r add_member base (case ea_payload_members a of None \<Rightarrow> [] | Some ms \<Rightarrow> ms)) (\<lambda>c.
       let c1 = dict_set c ''canonicalization_id'' (ea_canonicalization_id a) in
       sbind (compute_capsule_id env c1) (\<lambda>i.
         let c2 = dict_set c1 ''capsule_id'' (JStr i) in
         sbind (em_sign env i) (\<lambda>(signature, key_id).
           Inr (i, signature, key_id, dict_set (dict_set c2 ''signature'' (JStr signature)) ''key_id'' (JStr key_id)))))"

definition prepare_capsule ::
    "emit_env \<Rightarrow> environ \<Rightarrow> emit_args \<Rightarrow> dict list \<Rightarrow> emit_exn + (string \<times> string \<times> string \<times> dict)" where
  "prepare_capsule env environ a L =
     sbind (guards environ a) (\<lambda>_.
     sbind (build_args_of env a L) (\<lambda>b.
     sbind (build_capsule env b) (\<lambda>base. finish_capsule env a base)))"

section \<open>Egress\<close>

definition witness_endpoint :: "environ \<Rightarrow> url_arg option \<Rightarrow> url_arg option" where
  "witness_endpoint environ url =
     (if url = None \<or> url = Some (UrlText []) \<or> url = Some (UrlList [])
      then map_option UrlText (environ ''CAPSULE_WITNESS_URL'') else url)"

definition anchor_endpoint :: "environ \<Rightarrow> emit_args \<Rightarrow> string option" where
  "anchor_endpoint environ a =
     (if ea_anchor_url a = None \<or> ea_anchor_url a = Some [] then environ ''AAC_ANCHOR_URL'' else ea_anchor_url a)"

definition anchor_opted_in :: "environ \<Rightarrow> bool option \<Rightarrow> bool" where
  "anchor_opted_in environ explicit =
     (case explicit of Some b \<Rightarrow> b | None \<Rightarrow> env_word environ ''CAPSULE_ANCHOR'' = ''legacy-on'')"

definition anchor_active :: "environ \<Rightarrow> emit_args \<Rightarrow> bool" where
  "anchor_active environ a \<longleftrightarrow>
     anchor_opted_in environ (ea_anchor a) \<and> witness_enabled environ (ea_witness a) \<and>
     anchor_endpoint environ a \<notin> {None, Some []}"

text \<open>Everything of one call that does not come from its keyword arguments.\<close>

record emit_ctx =
  ec_env :: emit_env
  ec_wenv :: witness_env
  ec_cll :: cll_env
  ec_cadence :: cadence_args
  ec_call :: wcall_args
  ec_resolve_signer :: "emit_exn + unit"

abbreviation ctx_environ :: "emit_ctx \<Rightarrow> environ" where
  "ctx_environ cx \<equiv> we_environ (ec_wenv cx)"

definition witness_call :: "emit_ctx \<Rightarrow> bool option \<Rightarrow> url_arg option \<Rightarrow> wcall_args" where
  "witness_call cx witness url =
     (ec_call cx)\<lparr>a_ts_url := witness_endpoint (ctx_environ cx) url, a_witness := witness\<rparr>"

definition witness_step ::
    "emit_ctx \<Rightarrow> bool \<Rightarrow> bool option \<Rightarrow> url_arg option \<Rightarrow> emit_state \<Rightarrow> (emit_exn + witness_outcome) \<times> emit_state" where
  "witness_step cx require witness url st =
     (let call = witness_call cx witness url; mode = witness_mode (ctx_environ cx) witness in
      if require then
        (case require_witness_receipt (ec_wenv cx) (ec_cll cx) call (es_proc st, es_world st) of
           (r, p, w) \<Rightarrow>
             (case r of Inl e \<Rightarrow> Inl (WitnessExn e) | Inr _ \<Rightarrow> Inr WitnessReceiptObtained, st\<lparr>es_proc := p, es_world := w\<rparr>))
      else
        (case maybe_checkpoint (ec_wenv cx) (ec_cadence cx) call (es_proc st) (es_world st) of
           (r, p) \<Rightarrow>
             (case r of
                Inl e \<Rightarrow> Inl (WitnessExn e)
              | Inr _ \<Rightarrow>
                  Inr (if mode = ModeOff \<or> (mode = ModeOn \<and> resolved_witness_urls (ctx_environ cx) (a_ts_url call) = [])
                       then LocalSealed else CheckpointQueued),
              st\<lparr>es_proc := p\<rparr>)))"

definition anchor_step :: "emit_ctx \<Rightarrow> emit_args \<Rightarrow> string \<Rightarrow> emit_state \<Rightarrow> anchor_status \<times> emit_state" where
  "anchor_step cx a i st =
     (if \<not> anchor_active (ctx_environ cx) a then (Skipped, st)
      else
        let endpoint = (case anchor_endpoint (ctx_environ cx) a of None \<Rightarrow> [] | Some e \<Rightarrow> e) in
        (if \<not> ea_anchor_wait a then Submitted
         else (case em_anchor (ec_env cx) i endpoint of
                 None \<Rightarrow> Submitted
               | Some True \<Rightarrow> Confirmed
               | Some False \<Rightarrow> Failed),
         st\<lparr>es_anchors := es_anchors st @ [(i, endpoint)]\<rparr>))"

definition append_capsule :: "emit_ctx \<Rightarrow> dict \<Rightarrow> emit_state \<Rightarrow> emit_exn + (nat \<times> emit_state)" where
  "append_capsule cx c st =
     sbind (append_line (ec_wenv cx) c (w_lines (es_world st))) (\<lambda>(seq, L).
       Inr (seq, st\<lparr>es_world := (es_world st)\<lparr>w_lines := L\<rparr>\<rparr>))"

definition emit_capsule :: "emit_ctx \<Rightarrow> emit_args \<Rightarrow> emit_state \<Rightarrow> (emit_exn + emit_result) \<times> emit_state" where
  "emit_capsule cx a st =
     (case prepare_capsule (ec_env cx) (ctx_environ cx) a (w_lines (es_world st)) of
        Inl e \<Rightarrow> (Inl e, st)
      | Inr (i, signature, key_id, c) \<Rightarrow>
          (case append_capsule cx c st of
             Inl e \<Rightarrow> (Inl e, st)
           | Inr (seq, st1) \<Rightarrow>
               (case witness_step cx (ea_require_witness a) (ea_witness a) (ea_witness_url a) st1 of
                  (Inl e, st2) \<Rightarrow> (Inl e, st2)
                | (Inr outcome, st2) \<Rightarrow>
                    (case anchor_step cx a i st2 of
                       (status, st3) \<Rightarrow>
                         (Inr \<lparr>er_capsule_id = i, er_anchored = (status = Confirmed), er_capsule = c,
                               er_anchor_status = status, er_signature = signature, er_key_id = key_id,
                               er_seq = seq, er_witness_outcome = outcome\<rparr>, st3)))))"

section \<open>Unsigned log entries\<close>

record log_args =
  la_action :: string
  la_operator :: string
  la_developer :: string
  la_log_digest :: string
  la_witness :: "bool option"
  la_witness_url :: "url_arg option"
  la_require_witness :: bool
  la_extra_compute :: "dict option"
  la_canonicalization_id :: json

record log_entry =
  le_capsule_id :: string
  le_capsule :: dict
  le_seq :: nat
  le_witness_outcome :: witness_outcome

definition log_build_args :: "emit_env \<Rightarrow> log_args \<Rightarrow> build_args" where
  "log_build_args env a =
     \<lparr>b_action_id = None, b_action_type = ''fyi'', b_operator = la_operator a, b_developer = la_developer a,
      b_model_id = JNull, b_provider = JNull, b_timestamp = None,
      b_compute = Some (dict_update [(''log_digest'', JStr (la_log_digest a)), (''digest_alg'', JStr ''SHA-256'')]
        (case la_extra_compute a of None \<Rightarrow> [] | Some d \<Rightarrow> d)),
      b_effect = None, b_prior = None, b_chain_relation = None,
      b_disposition = Some \<lparr>xd_decision = ''accept'', xd_approver = ''policy'', xd_human_disposed = False,
        xd_verdict_class = ''logged'', xd_authority = None\<rparr>,
      b_constraints = [], b_references = None, b_domain = None, b_provenance = None, b_provenance_mode = None,
      b_reasoning_digest = None, b_spec_version = SPEC_VERSION, b_format_version = em_format_version env,
      b_tool_name = Some (la_action a)\<rparr>"

definition prepare_log_entry :: "emit_env \<Rightarrow> environ \<Rightarrow> log_args \<Rightarrow> emit_exn + (string \<times> dict)" where
  "prepare_log_entry env environ a =
     (case refuse_stub_in_production environ (la_witness a) of
        Inl e \<Rightarrow> Inl (WitnessExn e)
      | Inr _ \<Rightarrow>
          sbind (build_capsule env (log_build_args env a)) (\<lambda>base.
            let c = dict_set base ''canonicalization_id'' (la_canonicalization_id a) in
            sbind (compute_capsule_id env c) (\<lambda>i. Inr (i, dict_set c ''capsule_id'' (JStr i)))))"

definition emit_log_entry :: "emit_ctx \<Rightarrow> log_args \<Rightarrow> emit_state \<Rightarrow> (emit_exn + log_entry) \<times> emit_state" where
  "emit_log_entry cx a st =
     (case prepare_log_entry (ec_env cx) (ctx_environ cx) a of
        Inl e \<Rightarrow> (Inl e, st)
      | Inr (i, c) \<Rightarrow>
          (case append_capsule cx c st of
             Inl e \<Rightarrow> (Inl e, st)
           | Inr (seq, st1) \<Rightarrow>
               (case ec_resolve_signer cx of
                  Inl e \<Rightarrow> (Inl e, st1)
                | Inr _ \<Rightarrow>
                    (case witness_step cx (la_require_witness a) (la_witness a) (la_witness_url a) st1 of
                       (Inl e, st2) \<Rightarrow> (Inl e, st2)
                     | (Inr outcome, st2) \<Rightarrow>
                         (Inr \<lparr>le_capsule_id = i, le_capsule = c, le_seq = seq, le_witness_outcome = outcome\<rparr>, st2)))))"

section \<open>What an emission leaves behind\<close>

lemma witness_step_grows:
  assumes "witness_step cx require witness url st = (r, st')"
  shows "prefix (w_lines (es_world st)) (w_lines (es_world st')) \<and> es_anchors st' = es_anchors st"
  using assms
  by (auto simp: witness_step_def Let_def dest: require_grows split: if_splits prod.splits)

lemma witness_step_error:
  "witness_step cx require witness url st = (Inl e, st') \<Longrightarrow> \<exists>x. e = WitnessExn x"
  by (auto simp: witness_step_def Let_def split: if_splits prod.splits sum.splits)

text \<open>With witnessing off no checkpoint is built, counted or sent.\<close>

lemma witness_step_off:
  assumes "\<not> witness_enabled (ctx_environ cx) witness"
  shows "\<exists>r. witness_step cx require witness url st = (r, st)"
  using assms
  by (simp add: witness_step_def witness_enabled_def require_witness_receipt_def maybe_checkpoint_def witness_call_def Let_def)

lemma anchor_step_effect:
  assumes "anchor_step cx a i st = (status, st')"
  shows "es_world st' = es_world st" "es_proc st' = es_proc st"
    "(\<not> anchor_active (ctx_environ cx) a \<and> status = Skipped \<and> st' = st) \<or>
     (anchor_active (ctx_environ cx) a \<and> (\<exists>e. anchor_endpoint (ctx_environ cx) a = Some e \<and>
        es_anchors st' = es_anchors st @ [(i, e)] \<and>
        (status = Confirmed \<longrightarrow> ea_anchor_wait a \<and> em_anchor (ec_env cx) i e = Some True)))"
  using assms
  by (auto simp: anchor_step_def anchor_active_def Let_def split: if_splits option.splits bool.splits)

lemma line_seq_found:
  "find (\<lambda>r. line_id r = i) L = Some r \<Longrightarrow> 0 < line_seq i L \<and> line_seq i L \<le> length L \<and> L ! (line_seq i L - 1) = r"
  by (induction L) (auto split: if_splits simp: nth_Cons')

lemma line_seq_new:
  "find (\<lambda>r. line_id r = line_id e) L = None \<Longrightarrow> line_seq (line_id e) (L @ [e]) = length L + 1"
  by (induction L) (auto split: if_splits)

lemma append_line_Inr:
  assumes "append_line wenv e L = Inr (seq, L')"
  shows "(L' = L @ [e] \<and> seq = length L + 1) \<or> (L' = L \<and> e \<in> set L)"
    "0 < seq" "seq \<le> length L'" "L' ! (seq - 1) = e"
proof -
  have a: "append_entry wenv e L = Inr L'" "seq = line_seq (line_id e) L'"
    using assms by (auto simp: append_line_def split: if_splits sum.splits)
  have "(L' = L @ [e] \<and> seq = length L + 1) \<or> (L' = L \<and> find (\<lambda>r. line_id r = line_id e) L = Some e)"
    using a line_seq_new [of e L] by (auto simp: append_entry_def split: if_splits option.splits)
  then show "(L' = L @ [e] \<and> seq = length L + 1) \<or> (L' = L \<and> e \<in> set L)"
    "0 < seq" "seq \<le> length L'" "L' ! (seq - 1) = e"
    using line_seq_found [of "line_id e" L e] a(2) by (auto dest: find_SomeD)
qed

lemma append_capsule_Inr:
  assumes "append_capsule cx c st = Inr (seq, st')"
  obtains L where "st' = st\<lparr>es_world := (es_world st)\<lparr>w_lines := L\<rparr>\<rparr>" "append_line (ec_wenv cx) c (w_lines (es_world st)) = Inr (seq, L)"
  using assms by (auto simp: append_capsule_def res_simps)

text \<open>The stages of an emission that returns, and of one that raises after the line was written.\<close>

lemma emit_capsule_Inr:
  assumes "emit_capsule cx a st = (Inr r, st')"
  obtains sig key seq st1 outcome st2 status where
    "prepare_capsule (ec_env cx) (ctx_environ cx) a (w_lines (es_world st)) = Inr (er_capsule_id r, er_signature r, er_key_id r, er_capsule r)"
    "append_capsule cx (er_capsule r) st = Inr (er_seq r, st1)"
    "witness_step cx (ea_require_witness a) (ea_witness a) (ea_witness_url a) st1 = (Inr (er_witness_outcome r), st2)"
    "anchor_step cx a (er_capsule_id r) st2 = (er_anchor_status r, st')"
    "er_anchored r \<longleftrightarrow> er_anchor_status r = Confirmed"
  using assms by (auto simp: emit_capsule_def split: sum.splits prod.splits)

lemma emit_capsule_Inl:
  assumes "emit_capsule cx a st = (Inl e, st')"
  shows "st' = st \<or> (\<exists>i sig key c seq st1. prepare_capsule (ec_env cx) (ctx_environ cx) a (w_lines (es_world st)) = Inr (i, sig, key, c) \<and>
    append_capsule cx c st = Inr (seq, st1) \<and>
    witness_step cx (ea_require_witness a) (ea_witness a) (ea_witness_url a) st1 = (Inl e, st'))"
  using assms by (auto simp: emit_capsule_def split: sum.splits prod.splits)

section \<open>What is sealed\<close>

lemma prepare_Inr:
  assumes "prepare_capsule env environ a L = Inr (i, sig, key, c)"
  obtains b base where "guards environ a = Inr ()" "build_args_of env a L = Inr b" "em_seal env (capsule_of env b) = Inr base"
    "finish_capsule env a base = Inr (i, sig, key, c)"
  using assms by (auto simp: prepare_capsule_def res_simps build_capsule_def split: if_splits)

lemma add_members_Inr:
  assumes "foldM_r add_member base ms = Inr c"
  shows "(\<forall>k. dhas base k \<longrightarrow> dhas c k \<and> dget c k = dget base k) \<and>
    (\<forall>(k, v) \<in> set ms. dget c k = v \<and> \<not> dhas base k \<and> k \<notin> set RESERVED_MEMBERS)"
  using assms
proof (induction ms arbitrary: base)
  case Nil
  then show ?case by simp
next
  case (Cons m ms)
  let ?b = "dict_set base (fst m) (snd m)"
  have step: "add_member base m = Inr d \<longleftrightarrow> \<not> dhas base (fst m) \<and> fst m \<notin> set RESERVED_MEMBERS \<and> d = ?b" for d
    by (auto simp: add_member_def)
  have ok: "\<not> dhas base (fst m)" "fst m \<notin> set RESERVED_MEMBERS" "foldM_r add_member ?b ms = Inr c"
    using Cons.prems by (auto simp: res_simps step)
  show ?case
    using Cons.IH [OF ok(3)] ok(1,2) by (auto simp: dhas_dict_set dget_dict_set)
qed

lemma add_members_other:
  "foldM_r add_member base ms = Inr c \<Longrightarrow> k \<notin> fst ` set ms \<Longrightarrow> dget c k = dget base k"
  by (induction ms arbitrary: base) (auto simp: res_simps add_member_def dget_dict_set split: if_splits)

lemma finish_Inr:
  assumes "finish_capsule env a base = Inr (i, sig, key, c)"
  shows "compute_capsule_id env c = Inr i" "dget c ''capsule_id'' = JStr i" "dget c ''signature'' = JStr sig" "dget c ''key_id'' = JStr key"
    "em_sign env i = Inr (sig, key)"
    "k \<notin> set RESERVED_MEMBERS \<Longrightarrow> dhas base k \<Longrightarrow> dget c k = dget base k"
    "ea_payload_members a = Some ms \<Longrightarrow> (k, v) \<in> set ms \<Longrightarrow> dget c k = v \<and> \<not> dhas base k"
    "k \<notin> set RESERVED_MEMBERS \<Longrightarrow> ea_payload_members a = None \<Longrightarrow> dget c k = dget base k"
    "k \<notin> set RESERVED_MEMBERS \<Longrightarrow> (\<And>ms. ea_payload_members a = Some ms \<Longrightarrow> k \<notin> fst ` set ms) \<Longrightarrow> dget c k = dget base k"
proof -
  obtain d where d: "foldM_r add_member base (case ea_payload_members a of None \<Rightarrow> [] | Some ms \<Rightarrow> ms) = Inr d"
    and c: "c = dict_set (dict_set (dict_set (dict_set d ''canonicalization_id'' (ea_canonicalization_id a)) ''capsule_id'' (JStr i))
      ''signature'' (JStr sig)) ''key_id'' (JStr key)"
    and i: "compute_capsule_id env (dict_set d ''canonicalization_id'' (ea_canonicalization_id a)) = Inr i"
    and s: "em_sign env i = Inr (sig, key)"
    using assms by (auto simp: finish_capsule_def res_simps Let_def)
  show "compute_capsule_id env c = Inr i"
    unfolding c using i by (simp add: capsule_id_local_field LOCAL_ONLY_FIELDS_def)
  show "em_sign env i = Inr (sig, key)" by (rule s)
  show "dget c ''capsule_id'' = JStr i" "dget c ''signature'' = JStr sig" "dget c ''key_id'' = JStr key"
    unfolding c by (simp_all add: dget_dict_set)
  note m = add_members_Inr [OF d]
  have out: "dget c k = dget d k" if "k \<notin> set RESERVED_MEMBERS" for k
    using that unfolding c by (simp add: dget_dict_set RESERVED_MEMBERS_def)
  show "k \<notin> set RESERVED_MEMBERS \<Longrightarrow> dhas base k \<Longrightarrow> dget c k = dget base k" using m out by simp
  show "ea_payload_members a = Some ms \<Longrightarrow> (k, v) \<in> set ms \<Longrightarrow> dget c k = v \<and> \<not> dhas base k"
    using m out by fastforce
  show "k \<notin> set RESERVED_MEMBERS \<Longrightarrow> ea_payload_members a = None \<Longrightarrow> dget c k = dget base k" using d out by simp
  assume k: "k \<notin> set RESERVED_MEMBERS" "\<And>ms. ea_payload_members a = Some ms \<Longrightarrow> k \<notin> fst ` set ms"
  then have "k \<notin> fst ` set (case ea_payload_members a of None \<Rightarrow> [] | Some ms \<Rightarrow> ms)"
    by (cases "ea_payload_members a") simp_all
  with out [OF k(1)] add_members_other [OF d] show "dget c k = dget base k" by simp
qed

lemma guards_Inr:
  assumes "guards environ a = Inr u"
  shows "ea_human_disposed a \<longrightarrow> ea_approver a = ''human''" "ea_relation a = Some x \<Longrightarrow> x \<in> set REGISTERED_RELATIONS"
  using assms by (auto simp: guards_def res_simps split: sum.splits)

lemma build_args_Inr:
  assumes "build_args_of env a L = Inr b"
  shows "((b_prior b, b_chain_relation b), b_references b) = link_of a L" "b_disposition b = Some (disposition_of a)"
proof -
  obtain p q refs where l: "link_of a L = ((p, q), refs)" by (metis prod.collapse)
  show "((b_prior b, b_chain_relation b), b_references b) = link_of a L" "b_disposition b = Some (disposition_of a)"
    using assms by (auto simp: build_args_of_def res_simps Let_def l)
qed

lemma cite_foreign_cites:
  "\<exists>x \<in> set (cite_foreign i refs). xr_digest_alg x = ''SHA-256'' \<and> xr_digest x = i"
  by (auto simp: cite_foreign_def Let_def list_ex_iff)

lemma cite_foreign_keeps: "refs = Some rs \<Longrightarrow> set rs \<subseteq> set (cite_foreign i refs)"
  by (auto simp: cite_foreign_def Let_def)

section \<open>The parts of an emission\<close>

lemma emit_capsule_parts:
  assumes "emit_capsule cx a st = (Inr r, st')"
  obtains b base where "guards (ctx_environ cx) a = Inr ()" "build_args_of (ec_env cx) a (w_lines (es_world st)) = Inr b"
    "em_seal (ec_env cx) (capsule_of (ec_env cx) b) = Inr base"
    "\<And>k. k \<notin> set RESERVED_MEMBERS \<Longrightarrow> dhas base k \<Longrightarrow> dget (er_capsule r) k = dget base k"
    "\<And>k. k \<notin> set RESERVED_MEMBERS \<Longrightarrow> ea_payload_members a = None \<Longrightarrow> dget (er_capsule r) k = dget base k"
    "\<And>k. k \<notin> set RESERVED_MEMBERS \<Longrightarrow> (\<And>ms. ea_payload_members a = Some ms \<Longrightarrow> k \<notin> fst ` set ms) \<Longrightarrow>
      dget (er_capsule r) k = dget base k"
    "dget (er_capsule r) ''capsule_id'' = JStr (er_capsule_id r)"
proof (rule emit_capsule_Inr [OF assms])
  assume "prepare_capsule (ec_env cx) (ctx_environ cx) a (w_lines (es_world st)) =
    Inr (er_capsule_id r, er_signature r, er_key_id r, er_capsule r)"
  from prepare_Inr [OF this] obtain b base where g: "guards (ctx_environ cx) a = Inr ()"
    "build_args_of (ec_env cx) a (w_lines (es_world st)) = Inr b" "em_seal (ec_env cx) (capsule_of (ec_env cx) b) = Inr base"
    and f: "finish_capsule (ec_env cx) a base = Inr (er_capsule_id r, er_signature r, er_key_id r, er_capsule r)"
    by blast
  show thesis by (rule that [OF g finish_Inr(6) [OF f] finish_Inr(8) [OF f] finish_Inr(9) [OF f] finish_Inr(2) [OF f]])
qed

section \<open>Contract of \<open>Capsule.seal\<close>\<close>

text \<open>The members of the sealed capsule that the readers of this package look at.\<close>

definition writes_members :: "dict \<Rightarrow> aac_capsule \<Rightarrow> bool" where
  "writes_members base x \<longleftrightarrow>
     dget base ''kind'' = JNull \<and> dget base ''record_type'' = JNull \<and>
     (case xa_chain x of
        None \<Rightarrow> dget base ''chain'' = JNull
      | Some ch \<Rightarrow> \<exists>d. dget base ''chain'' = JObj d \<and> dget d ''relation'' = JStr (xc_relation ch) \<and>
          dget d ''parent_capsule_id'' = JStr (xc_parent ch)) \<and>
     (case xa_disposition x of
        None \<Rightarrow> dget base ''disposition'' = JNull
      | Some p \<Rightarrow> \<exists>d. dget base ''disposition'' = JObj d \<and> dget d ''verdict_class'' = JStr (xd_verdict_class p)) \<and>
     (case xa_effect x of
        None \<Rightarrow> dget base ''effect'' = JNull
      | Some e \<Rightarrow> \<exists>d. dget base ''effect'' = JObj d \<and> dget d ''status'' = xe_status e)"

definition seal_writes :: "emit_env \<Rightarrow> bool" where
  "seal_writes env \<longleftrightarrow> (\<forall>x base. em_seal env x = Inr base \<longrightarrow> writes_members base x)"

lemma seal_writesD: "seal_writes env \<Longrightarrow> em_seal env x = Inr base \<Longrightarrow> writes_members base x"
  by (simp add: seal_writes_def)

text \<open>It refuses a parent that is no capsule id, and writes the references in their order.\<close>

definition seal_links :: "emit_env \<Rightarrow> bool" where
  "seal_links env \<longleftrightarrow> (\<forall>x base. em_seal env x = Inr base \<longrightarrow>
     (\<forall>ch. xa_chain x = Some ch \<longrightarrow> hex_string 64 (xc_parent ch)) \<and>
     (\<forall>refs. xa_references x = Some refs \<longrightarrow>
        (\<exists>ds. dget base ''references'' = JArr (map JObj ds) \<and>
           list_all2 (\<lambda>x d. dget d ''type'' = JStr (xr_type x) \<and> dget d ''digest_alg'' = JStr (xr_digest_alg x) \<and>
             dget d ''digest'' = JStr (xr_digest x)) refs ds)))"

lemma seal_linksD:
  assumes "seal_links env" "em_seal env x = Inr base"
  shows "xa_chain x = Some ch \<Longrightarrow> hex_string 64 (xc_parent ch)"
    and "xa_references x = Some refs \<Longrightarrow>
      \<exists>ds. dget base ''references'' = JArr (map JObj ds) \<and>
        list_all2 (\<lambda>x d. dget d ''type'' = JStr (xr_type x) \<and> dget d ''digest_alg'' = JStr (xr_digest_alg x) \<and>
          dget d ''digest'' = JStr (xr_digest x)) refs ds"
  using assms by (auto simp: seal_links_def)

text \<open>The link of the final capsule, which a member of the profile cannot replace.\<close>

lemma not_linked:
  assumes "em_seal env x = Inr base" "seal_links env" "xa_references x = Some (cite_foreign i refs)"
  shows "\<exists>vs d. dget base ''references'' = JArr vs \<and> JObj d \<in> set vs \<and>
    dget d ''digest_alg'' = JStr ''SHA-256'' \<and> dget d ''digest'' = JStr i"
proof -
  obtain ds where ds: "dget base ''references'' = JArr (map JObj ds)"
    "list_all2 (\<lambda>x d. dget d ''type'' = JStr (xr_type x) \<and> dget d ''digest_alg'' = JStr (xr_digest_alg x) \<and>
       dget d ''digest'' = JStr (xr_digest x)) (cite_foreign i refs) ds"
    using seal_linksD(2) [OF assms(2,1,3)] by blast
  obtain n where n: "n < length (cite_foreign i refs)" "xr_digest_alg (cite_foreign i refs ! n) = ''SHA-256''"
    "xr_digest (cite_foreign i refs ! n) = i"
    using cite_foreign_cites [of i refs] by (metis in_set_conv_nth)
  with ds(2) have "ds ! n \<in> set ds" "dget (ds ! n) ''digest_alg'' = JStr ''SHA-256''" "dget (ds ! n) ''digest'' = JStr i"
    by (auto simp: list_all2_conv_all_nth)
  with ds(1) show ?thesis by auto
qed

lemma in_ledger_id: "hex_string 64 i \<Longrightarrow> in_ledger i L \<longleftrightarrow> (\<exists>e \<in> set L. dget e ''capsule_id'' = JStr i)"
  by (auto simp: in_ledger_def valid_id_def line_id_def list_ex_iff)

lemma final_link:
  assumes "emit_capsule cx a st = (Inr r, st')" "seal_writes (ec_env cx)" "seal_links (ec_env cx)"
    "\<And>ms. ea_payload_members a = Some ms \<Longrightarrow> ''chain'' \<notin> fst ` set ms"
  shows "case ea_confirms a of
      None \<Rightarrow> dget (er_capsule r) ''chain'' = JNull
    | Some i \<Rightarrow> hex_string 64 i \<and>
        (if \<exists>e \<in> set (w_lines (es_world st)). dget e ''capsule_id'' = JStr i
         then \<exists>d relation. dget (er_capsule r) ''chain'' = JObj d \<and> dget d ''parent_capsule_id'' = JStr i \<and>
           dget d ''relation'' = JStr relation \<and>
           relation = (case ea_relation a of None \<Rightarrow> ''follows'' | Some q \<Rightarrow> q) \<and>
           relation \<in> {''follows'', ''confirms'', ''supersedes'', ''epoch_opens'', ''duplicates''}
         else dget (er_capsule r) ''chain'' = JNull \<and>
           (\<exists>vs d. dget (er_capsule r) ''references'' = JArr vs \<and> JObj d \<in> set vs \<and>
              dget d ''digest_alg'' = JStr ''SHA-256'' \<and> dget d ''digest'' = JStr i))"
proof (rule emit_capsule_parts [OF assms(1)])
  fix b base
  let ?x = "capsule_of (ec_env cx) b" and ?L = "w_lines (es_world st)"
  assume g: "guards (ctx_environ cx) a = Inr ()"
    and b: "build_args_of (ec_env cx) a ?L = Inr b" "em_seal (ec_env cx) ?x = Inr base"
    and keep: "\<And>k. k \<notin> set RESERVED_MEMBERS \<Longrightarrow> dhas base k \<Longrightarrow> dget (er_capsule r) k = dget base k"
    and other: "\<And>k. k \<notin> set RESERVED_MEMBERS \<Longrightarrow> (\<And>ms. ea_payload_members a = Some ms \<Longrightarrow> k \<notin> fst ` set ms) \<Longrightarrow>
      dget (er_capsule r) k = dget base k"
  have chain: "dget (er_capsule r) ''chain'' = dget base ''chain''"
    by (rule other) (simp_all add: RESERVED_MEMBERS_def assms(4))
  have refs: "dget (er_capsule r) ''references'' = dget base ''references''" if "dget base ''references'' \<noteq> JNull"
    using that dget_absent [of base "''references''"] by (intro keep) (auto simp: RESERVED_MEMBERS_def)
  have l: "((b_prior b, b_chain_relation b), b_references b) = link_of a ?L" by (rule build_args_Inr [OF b(1)])
  have x: "xa_chain ?x = chain_of b" "xa_references ?x = b_references b" by (simp_all add: capsule_of_def Let_def)
  note w = seal_writesD [OF assms(2) b(2), unfolded writes_members_def]
  show ?thesis
  proof (cases "ea_confirms a")
    case None
    then show ?thesis using l x w chain by (simp add: link_of_def chain_of_def)
  next
    case (Some i)
    show ?thesis
    proof (cases "in_ledger i ?L")
      case True
      then have p: "b_prior b = Some i" "b_chain_relation b = Some (case ea_relation a of None \<Rightarrow> ''follows'' | Some q \<Rightarrow> q)"
        using l Some by (simp_all add: link_of_def)
      then have "hex_string 64 i" using seal_linksD(1) [OF assms(3) b(2), of "the (chain_of b)"] x(1) by (simp add: chain_of_def)
      moreover have "(case ea_relation a of None \<Rightarrow> ''follows'' | Some q \<Rightarrow> q) \<in> set REGISTERED_RELATIONS"
        using guards_Inr(2) [OF g] by (auto simp: REGISTERED_RELATIONS_def split: option.splits)
      ultimately show ?thesis
        using Some True p w chain x(1) by (auto simp: in_ledger_id chain_of_def REGISTERED_RELATIONS_def)
    next
      case False
      then have i: "hex_string 64 i" by (simp add: in_ledger_def valid_id_def split: if_splits)
      have p: "b_prior b = None" "xa_references ?x = Some (cite_foreign i (ea_references a))"
        using l Some False x(2) by (simp_all add: link_of_def)
      have "\<exists>vs d. dget (er_capsule r) ''references'' = JArr vs \<and> JObj d \<in> set vs \<and>
          dget d ''digest_alg'' = JStr ''SHA-256'' \<and> dget d ''digest'' = JStr i"
        using not_linked [OF b(2) assms(3) p(2)] refs by (metis json.distinct(9))
      then show ?thesis using Some False i w chain x(1) p(1) by (simp add: in_ledger_id chain_of_def)
    qed
  qed
qed

lemma emitted_id: "emit_capsule cx a st = (Inr r, st') \<Longrightarrow> dget (er_capsule r) ''capsule_id'' = JStr (er_capsule_id r)"
  by (erule emit_capsule_Inr, erule prepare_Inr) (rule finish_Inr(2))

section \<open>Properties\<close>

text \<open>C6: the capsule that an emission returns carries an address that recomputes from it, whoever signed it, the
  signature over exactly that address, every member that was built for it and every member the caller's profile added;
  none of those replaced another.\<close>

theorem emitted_capsule_recomputes:
  assumes "emit_capsule cx a st = (Inr r, st')"
  shows "compute_capsule_id (ec_env cx) (er_capsule r) = Inr (er_capsule_id r) \<and>
    dget (er_capsule r) ''capsule_id'' = JStr (er_capsule_id r) \<and>
    em_sign (ec_env cx) (er_capsule_id r) = Inr (er_signature r, er_key_id r) \<and>
    dget (er_capsule r) ''signature'' = JStr (er_signature r) \<and> dget (er_capsule r) ''key_id'' = JStr (er_key_id r) \<and>
    (\<exists>x base. em_seal (ec_env cx) x = Inr base \<and>
      (\<forall>k. dhas base k \<longrightarrow> k \<notin> set RESERVED_MEMBERS \<longrightarrow> dget (er_capsule r) k = dget base k) \<and>
      (\<forall>ms. ea_payload_members a = Some ms \<longrightarrow> (\<forall>(k, v) \<in> set ms. dget (er_capsule r) k = v \<and> \<not> dhas base k)))"
proof (rule emit_capsule_Inr [OF assms])
  assume "prepare_capsule (ec_env cx) (ctx_environ cx) a (w_lines (es_world st)) =
    Inr (er_capsule_id r, er_signature r, er_key_id r, er_capsule r)"
  from prepare_Inr [OF this] obtain b base where b: "em_seal (ec_env cx) (capsule_of (ec_env cx) b) = Inr base"
    and f: "finish_capsule (ec_env cx) a base = Inr (er_capsule_id r, er_signature r, er_key_id r, er_capsule r)"
    by blast
  show ?thesis
    using finish_Inr(1-5) [OF f]
    by (intro conjI exI [of _ "capsule_of (ec_env cx) b"] exI [of _ base] b)
      (auto intro: finish_Inr(6) [OF f] dest: finish_Inr(7) [OF f])
qed

text \<open>C7: a capsule that follows up a record is chained to it exactly when its own ledger holds a record with that id, with
  the relation of the call, which is a registered one; otherwise it has no chain and cites the id as a reference.  An id that
  is no capsule id is never chained nor cited: nothing is returned for it.  A capsule that follows up nothing has no
  chain.\<close>

theorem chain_stays_in_ledger:
  assumes "emit_capsule cx a st = (Inr r, st')" "seal_writes (ec_env cx)" "seal_links (ec_env cx)"
    "\<forall>ms. ea_payload_members a = Some ms \<longrightarrow> ''chain'' \<notin> fst ` set ms"
  shows "case ea_confirms a of
      None \<Rightarrow> dget (er_capsule r) ''chain'' = JNull
    | Some i \<Rightarrow> hex_string 64 i \<and>
        (if \<exists>e \<in> set (w_lines (es_world st)). dget e ''capsule_id'' = JStr i
         then \<exists>d relation. dget (er_capsule r) ''chain'' = JObj d \<and> dget d ''parent_capsule_id'' = JStr i \<and>
           dget d ''relation'' = JStr relation \<and>
           relation = (case ea_relation a of None \<Rightarrow> ''follows'' | Some q \<Rightarrow> q) \<and>
           relation \<in> {''follows'', ''confirms'', ''supersedes'', ''epoch_opens'', ''duplicates''}
         else dget (er_capsule r) ''chain'' = JNull \<and>
           (\<exists>vs d. dget (er_capsule r) ''references'' = JArr vs \<and> JObj d \<in> set vs \<and>
              dget d ''digest_alg'' = JStr ''SHA-256'' \<and> dget d ''digest'' = JStr i))"
  by (rule final_link [OF assms(1-3)]) (use assms(4) in blast)

text \<open>C8: the witness switch is the one switch.  With it off an emission sends nothing and builds nothing, whatever
  the anchor arguments say: no registration, no anchor, no checkpoint; it returns a capsule that claims neither.\<close>

theorem kill_switch_stops_egress:
  assumes "emit_capsule cx a st = (res, st')" "\<not> witness_enabled (ctx_environ cx) (ea_witness a)"
  shows "w_calls (es_world st') = w_calls (es_world st) \<and> es_anchors st' = es_anchors st \<and> es_proc st' = es_proc st \<and>
    (\<forall>r. res = Inr r \<longrightarrow> \<not> er_anchored r \<and> er_anchor_status r = Skipped \<and> er_witness_outcome r = LocalSealed)"
proof -
  have app: "w_calls (es_world t) = w_calls (es_world st) \<and> es_anchors t = es_anchors st \<and> es_proc t = es_proc st"
    if "append_capsule cx c st = Inr (seq, t)" for c seq t
    using that by (auto simp: append_capsule_def res_simps)
  have off: "witness_step cx req (ea_witness a) url t = (r, t') \<Longrightarrow> t' = t \<and> (\<forall>o'. r = Inr o' \<longrightarrow> o' = LocalSealed)" for req url t r t'
    using assms(2)
    by (auto simp: witness_step_def witness_enabled_def require_witness_receipt_def maybe_checkpoint_def witness_call_def Let_def
        split: if_splits)
  have inactive: "\<not> anchor_active (ctx_environ cx) a" using assms(2) by (simp add: anchor_active_def)
  show ?thesis
  proof (cases res)
    case (Inl e)
    with assms(1) have "emit_capsule cx a st = (Inl e, st')" by simp
    from emit_capsule_Inl [OF this] Inl show ?thesis using app off by (auto dest!: off)
  next
    case (Inr r)
    with assms(1) have e: "emit_capsule cx a st = (Inr r, st')" by simp
    from emit_capsule_Inr [OF this] obtain st1 st2 where
      s: "append_capsule cx (er_capsule r) st = Inr (er_seq r, st1)"
        "witness_step cx (ea_require_witness a) (ea_witness a) (ea_witness_url a) st1 = (Inr (er_witness_outcome r), st2)"
        "anchor_step cx a (er_capsule_id r) st2 = (er_anchor_status r, st')" "er_anchored r \<longleftrightarrow> er_anchor_status r = Confirmed"
      by metis
    have "st2 = st1" "er_witness_outcome r = LocalSealed" using off [OF s(2)] by auto
    moreover have "st' = st2" "er_anchor_status r = Skipped" using anchor_step_effect(3) [OF s(3)] inactive by auto
    ultimately show ?thesis using app [OF s(1)] s(4) Inr by simp
  qed
qed


lemma append_capsule_lines:
  assumes "append_capsule cx c st = Inr (seq, st')"
  shows "(w_lines (es_world st') = w_lines (es_world st) @ [c] \<and> seq = length (w_lines (es_world st)) + 1) \<or>
      (w_lines (es_world st') = w_lines (es_world st) \<and> c \<in> set (w_lines (es_world st)))"
    "prefix (w_lines (es_world st)) (w_lines (es_world st'))"
    "0 < seq" "seq \<le> length (w_lines (es_world st'))" "w_lines (es_world st') ! (seq - 1) = c"
proof -
  obtain L where l: "st' = st\<lparr>es_world := (es_world st)\<lparr>w_lines := L\<rparr>\<rparr>" "append_line (ec_wenv cx) c (w_lines (es_world st)) = Inr (seq, L)"
    by (rule append_capsule_Inr [OF assms])
  note a = append_line_Inr [OF l(2)]
  show "(w_lines (es_world st') = w_lines (es_world st) @ [c] \<and> seq = length (w_lines (es_world st)) + 1) \<or>
      (w_lines (es_world st') = w_lines (es_world st) \<and> c \<in> set (w_lines (es_world st)))"
    "0 < seq" "seq \<le> length (w_lines (es_world st'))" "w_lines (es_world st') ! (seq - 1) = c"
    using a l(1) by simp_all
  show "prefix (w_lines (es_world st)) (w_lines (es_world st'))" using a(1) l(1) by auto
qed

lemma prefix_nth_keeps:
  "prefix xs ys \<Longrightarrow> 0 < n \<Longrightarrow> n \<le> length xs \<Longrightarrow> ys ! (n - 1) = xs ! (n - 1)"
  by (auto simp: prefix_def nth_append)

lemma emit_on_file:
  assumes "emit_capsule cx a st = (Inr r, st')"
  shows "prefix (w_lines (es_world st)) (w_lines (es_world st'))" "0 < er_seq r" "er_seq r \<le> length (w_lines (es_world st'))"
    "w_lines (es_world st') ! (er_seq r - 1) = er_capsule r" "er_capsule r \<in> set (w_lines (es_world st'))"
    "er_capsule r \<notin> set (w_lines (es_world st)) \<Longrightarrow> er_seq r = length (w_lines (es_world st)) + 1"
proof -
  obtain st1 st2 where
    s: "append_capsule cx (er_capsule r) st = Inr (er_seq r, st1)"
      "witness_step cx (ea_require_witness a) (ea_witness a) (ea_witness_url a) st1 = (Inr (er_witness_outcome r), st2)"
      "anchor_step cx a (er_capsule_id r) st2 = (er_anchor_status r, st')"
    using emit_capsule_Inr [OF assms] by metis
  have grow: "prefix (w_lines (es_world st1)) (w_lines (es_world st'))"
    using witness_step_grows [OF s(2)] anchor_step_effect(1) [OF s(3)] by simp
  note l = append_capsule_lines [OF s(1)]
  show "0 < er_seq r" by (rule l(3))
  show le: "er_seq r \<le> length (w_lines (es_world st'))" using grow l(4) prefix_length_le by fastforce
  show nth: "w_lines (es_world st') ! (er_seq r - 1) = er_capsule r" using prefix_nth_keeps [OF grow l(3,4)] l(5) by simp
  show "er_capsule r \<in> set (w_lines (es_world st'))" using nth le l(3) by (metis diff_less less_le_trans nth_mem zero_less_one)
  show "prefix (w_lines (es_world st)) (w_lines (es_world st'))" using grow l(2) prefix_order.trans by blast
  show "er_capsule r \<notin> set (w_lines (es_world st)) \<Longrightarrow> er_seq r = length (w_lines (es_world st)) + 1" using l(1) by auto
qed

text \<open>An emission only appends.  The capsule that it returns is the line at the position that it reports, a new line
  right after the old ones unless the ledger held it already.  One that raises has left everything alone, or the capsule
  is on file and only the witness failed.\<close>

theorem emit_writes_one_line:
  assumes "emit_capsule cx a st = (res, st')"
  shows "prefix (w_lines (es_world st)) (w_lines (es_world st')) \<and>
    (\<forall>r. res = Inr r \<longrightarrow> 0 < er_seq r \<and> er_seq r \<le> length (w_lines (es_world st')) \<and>
      w_lines (es_world st') ! (er_seq r - 1) = er_capsule r \<and>
      (er_capsule r \<notin> set (w_lines (es_world st)) \<longrightarrow> er_seq r = length (w_lines (es_world st)) + 1)) \<and>
    (\<forall>e. res = Inl e \<longrightarrow> st' = st \<or> (\<exists>x. e = WitnessExn x) \<and>
      (\<exists>i sig key c. prepare_capsule (ec_env cx) (ctx_environ cx) a (w_lines (es_world st)) = Inr (i, sig, key, c) \<and>
        c \<in> set (w_lines (es_world st'))))"
proof (cases res)
  case (Inl e)
  with assms have "emit_capsule cx a st = (Inl e, st')" by simp
  from emit_capsule_Inl [OF this] show ?thesis
  proof (elim disjE exE conjE)
    fix i sig key c seq st1
    assume p: "prepare_capsule (ec_env cx) (ctx_environ cx) a (w_lines (es_world st)) = Inr (i, sig, key, c)"
      and s: "append_capsule cx c st = Inr (seq, st1)"
        "witness_step cx (ea_require_witness a) (ea_witness a) (ea_witness_url a) st1 = (Inl e, st')"
    have grow: "prefix (w_lines (es_world st1)) (w_lines (es_world st'))" using witness_step_grows [OF s(2)] by simp
    moreover have "c \<in> set (w_lines (es_world st1))" using append_capsule_lines(1) [OF s(1)] by auto
    ultimately have "c \<in> set (w_lines (es_world st'))" using set_mono_prefix by blast
    then show ?thesis using Inl p grow append_capsule_lines(2) [OF s(1)] witness_step_error [OF s(2)] by auto
  qed (simp add: Inl)
next
  case (Inr r)
  with assms have "emit_capsule cx a st = (Inr r, st')" by simp
  from emit_on_file [OF this] Inr show ?thesis by auto
qed

text \<open>A result says that its capsule is anchored only when the anchor channel was opted in, witnessing is on, an
  endpoint is configured, the capsule's id was submitted there, the caller waited and the anchor confirmed it.\<close>

theorem anchored_is_confirmed:
  assumes "emit_capsule cx a st = (Inr r, st')" "er_anchored r"
  shows "anchor_opted_in (ctx_environ cx) (ea_anchor a) \<and> witness_enabled (ctx_environ cx) (ea_witness a) \<and> ea_anchor_wait a \<and>
    (\<exists>url. url \<noteq> [] \<and> anchor_endpoint (ctx_environ cx) a = Some url \<and> em_anchor (ec_env cx) (er_capsule_id r) url = Some True \<and>
      es_anchors st' = es_anchors st @ [(er_capsule_id r, url)])"
proof -
  obtain st1 st2 where
    s: "append_capsule cx (er_capsule r) st = Inr (er_seq r, st1)"
      "witness_step cx (ea_require_witness a) (ea_witness a) (ea_witness_url a) st1 = (Inr (er_witness_outcome r), st2)"
      "anchor_step cx a (er_capsule_id r) st2 = (Confirmed, st')"
    using emit_capsule_Inr [OF assms(1)] assms(2) by metis
  have "es_anchors st1 = es_anchors st" by (rule append_capsule_Inr [OF s(1)]) simp
  then have "es_anchors st2 = es_anchors st" using witness_step_grows [OF s(2)] by simp
  then show ?thesis using anchor_step_effect(3) [OF s(3)] by (auto simp: anchor_active_def)
qed


text \<open>Without \<open>require_witness\<close> an emission writes its own line and no other.\<close>

lemma emit_writes_only_its_line:
  assumes "emit_capsule cx a st = (Inr r, st')" "\<not> ea_require_witness a"
  shows "w_lines (es_world st') = w_lines (es_world st) @ [er_capsule r] \<or>
    (w_lines (es_world st') = w_lines (es_world st) \<and> er_capsule r \<in> set (w_lines (es_world st)))"
proof -
  obtain st1 st2 where
    s: "append_capsule cx (er_capsule r) st = Inr (er_seq r, st1)"
      "witness_step cx (ea_require_witness a) (ea_witness a) (ea_witness_url a) st1 = (Inr (er_witness_outcome r), st2)"
      "anchor_step cx a (er_capsule_id r) st2 = (er_anchor_status r, st')"
    using emit_capsule_Inr [OF assms(1)] by metis
  have "es_world st2 = es_world st1" using s(2) assms(2) by (auto simp: witness_step_def Let_def split: prod.splits)
  then show ?thesis using append_capsule_lines(1) [OF s(1)] anchor_step_effect(1) [OF s(3)] by auto
qed

section \<open>Witnesses\<close>

definition seal_members :: "aac_capsule \<Rightarrow> dict" where
  "seal_members x = [(''spec_version'', JStr (xa_spec_version x)), (''action_id'', JStr (xa_action_id x)),
     (''action_type'', JStr (xa_action_type x)), (''operator'', JStr (xa_operator x))]
     @ (case xa_chain x of None \<Rightarrow> []
        | Some ch \<Rightarrow> [(''chain'', JObj [(''parent_capsule_id'', JStr (xc_parent ch)), (''relation'', JStr (xc_relation ch))])])"

definition pickup_env :: emit_env where
  "pickup_env = \<lparr>em_uuid = ''0'', em_now = ''t'', em_salt = ''00ff'', em_format_version = ''2'',
     em_effect_mode = (\<lambda>_. ''none''), em_seal = (\<lambda>x. Inr (seal_members x)), em_jcs = (\<lambda>d. concat (map fst d)),
     em_normalize = (\<lambda>d. d), em_sha256 = (\<lambda>b. replicate 64 (if even (length b) then CHR ''d'' else CHR ''e'')),
     em_json_digest = (\<lambda>_. Some (replicate 64 (CHR ''f''))), em_value_bytes = (\<lambda>_. Some ''{}''),
     em_sign = (\<lambda>i. Inr (''sig '' @ i, ''key'')), em_anchor = (\<lambda>_ _. Some True)\<rparr>"

definition pickup_args :: emit_args where
  "pickup_args = \<lparr>ea_action = ''book_pickup'', ea_operator = ''o'', ea_developer = ''d'', ea_runtime = None,
     ea_input = Some (JStr ''in''), ea_output = None, ea_model = None, ea_verdict = ''executed'',
     ea_effect = Some [(''status'', JStr ''confirmed'')], ea_confirms = Some (replicate 64 (CHR ''c'')), ea_relation = Some ''confirms'',
     ea_anchor = Some True, ea_anchor_url = Some ''http'', ea_anchor_wait = True, ea_witness = None,
     ea_witness_url = Some (UrlText ''u''), ea_require_witness = True, ea_human_disposed = False, ea_approver = ''policy'',
     ea_decision = ''accept'', ea_action_type = None, ea_extra_compute = None, ea_authority = None, ea_salt_digests = False,
     ea_canonicalization_id = JStr ''jcs'', ea_references = None, ea_payload_members = Some [(''settlement'', JObj [])],
     ea_provenance_mode = None\<rparr>"

definition pickup_cx :: emit_ctx where
  "pickup_cx = \<lparr>ec_env = pickup_env, ec_wenv = outage_env, ec_cll = count_range, ec_cadence = every_entry,
     ec_call = receipt_args, ec_resolve_signer = Inr ()\<rparr>"

definition pickup_state :: emit_state where
  "pickup_state = \<lparr>es_proc = fresh_proc, es_world = receipt_world, es_anchors = []\<rparr>"

lemma pickup_returns:
  obtains r st' where "emit_capsule pickup_cx pickup_args pickup_state = (Inr r, st')" "er_anchored r"
    "length (w_lines (es_world st')) = 3" "er_seq r = 2"
proof -
  have "case emit_capsule pickup_cx pickup_args pickup_state of
      (Inr r, st') \<Rightarrow> er_anchored r \<and> length (w_lines (es_world st')) = 3 \<and> er_seq r = 2 | _ \<Rightarrow> False"
    by code_simp
  then show thesis using that by (auto split: prod.splits sum.splits)
qed

lemma emitted_capsule_recomputes_witness:
  "\<exists>r st'. emit_capsule pickup_cx pickup_args pickup_state = (Inr r, st') \<and>
     compute_capsule_id pickup_env (er_capsule r) = Inr (er_capsule_id r) \<and> dget (er_capsule r) ''settlement'' = JObj []"
proof -
  obtain r st' where r: "emit_capsule pickup_cx pickup_args pickup_state = (Inr r, st')" by (rule pickup_returns)
  from emitted_capsule_recomputes [OF r] r show ?thesis by (auto simp: pickup_cx_def pickup_args_def)
qed

definition review_members :: "aac_capsule \<Rightarrow> dict" where
  "review_members x = seal_members x
     @ (case xa_disposition x of None \<Rightarrow> []
        | Some p \<Rightarrow> [(''disposition'', JObj [(''verdict_class'', JStr (xd_verdict_class p))])])
     @ (case xa_effect x of None \<Rightarrow> [] | Some e \<Rightarrow> [(''effect'', JObj [(''status'', xe_status e)])])"

lemma review_writes: "writes_members (review_members x) x"
  by (cases "xa_chain x"; cases "xa_disposition x"; cases "xa_effect x")
    (simp_all add: writes_members_def review_members_def seal_members_def dget_def)

definition reference_members :: "aac_reference \<Rightarrow> dict" where
  "reference_members x = [(''type'', JStr (xr_type x)), (''digest_alg'', JStr (xr_digest_alg x)), (''digest'', JStr (xr_digest x))]"

lemma reference_members_get:
  "dget (reference_members x) ''type'' = JStr (xr_type x)" "dget (reference_members x) ''digest_alg'' = JStr (xr_digest_alg x)"
  "dget (reference_members x) ''digest'' = JStr (xr_digest x)"
  by (simp_all add: reference_members_def dget_def)

definition strict_seal :: "aac_capsule \<Rightarrow> emit_exn + dict" where
  "strict_seal x =
     (if (case xa_chain x of None \<Rightarrow> True | Some ch \<Rightarrow> hex_string 64 (xc_parent ch))
      then Inr (review_members x
        @ (case xa_references x of None \<Rightarrow> [] | Some refs \<Rightarrow> [(''references'', JArr (map (\<lambda>r. JObj (reference_members r)) refs))]))
      else Inl SealError)"

definition strict_cx :: emit_ctx where
  "strict_cx = pickup_cx\<lparr>ec_env := pickup_env\<lparr>em_seal := strict_seal\<rparr>\<rparr>"

lemma strict_get:
  "dget (review_members x @ (case xa_references x of None \<Rightarrow> [] | Some refs \<Rightarrow> [(''references'', v refs)])) k
     = (if k = ''references'' then (case xa_references x of None \<Rightarrow> JNull | Some refs \<Rightarrow> v refs) else dget (review_members x) k)"
  by (cases "xa_chain x"; cases "xa_disposition x"; cases "xa_effect x"; cases "xa_references x")
    (auto simp: review_members_def seal_members_def dget_def)

lemma strict_seal_writes: "seal_writes (ec_env strict_cx)"
  using review_writes
  by (auto simp: seal_writes_def strict_cx_def strict_seal_def writes_members_def strict_get split: if_splits
      cong: option.case_cong)

lemma strict_seal_links: "seal_links (ec_env strict_cx)"
  unfolding seal_links_def
proof (intro allI impI conjI)
  fix x base
  assume s: "em_seal (ec_env strict_cx) x = Inr base"
  show "hex_string 64 (xc_parent ch)" if "xa_chain x = Some ch" for ch
    using s that by (simp add: strict_cx_def strict_seal_def split: if_splits)
  show "\<exists>ds. dget base ''references'' = JArr (map JObj ds) \<and>
      list_all2 (\<lambda>x d. dget d ''type'' = JStr (xr_type x) \<and> dget d ''digest_alg'' = JStr (xr_digest_alg x) \<and>
        dget d ''digest'' = JStr (xr_digest x)) refs ds" if "xa_references x = Some refs" for refs
    using s that strict_get [of x "\<lambda>refs. JArr (map (\<lambda>r. JObj (reference_members r)) refs)" "''references''"]
    by (intro exI [of _ "map reference_members refs"])
      (simp add: strict_cx_def strict_seal_def list_all2_conv_all_nth reference_members_get comp_def split: if_splits)
qed

text \<open>A follow-up of a record on file, and one of a record of another stream.\<close>

lemma chain_stays_in_ledger_witness:
  "(\<exists>r st' d. emit_capsule strict_cx pickup_args pickup_state = (Inr r, st') \<and> dget (er_capsule r) ''chain'' = JObj d \<and>
      dget d ''parent_capsule_id'' = JStr (replicate 64 (CHR ''c''))) \<and>
   (\<exists>r st' vs d. emit_capsule strict_cx (pickup_args\<lparr>ea_confirms := Some (replicate 64 (CHR ''a''))\<rparr>) pickup_state = (Inr r, st') \<and>
      dget (er_capsule r) ''chain'' = JNull \<and> dget (er_capsule r) ''references'' = JArr vs \<and> JObj d \<in> set vs \<and>
      dget d ''digest'' = JStr (replicate 64 (CHR ''a'')))"
proof -
  let ?c = "replicate 64 (CHR ''c'')" and ?a = "replicate 64 (CHR ''a'')"
  let ?far = "pickup_args\<lparr>ea_confirms := Some ?a\<rparr>"
  have returns: "\<not> isl (fst (emit_capsule strict_cx pickup_args pickup_state))" "\<not> isl (fst (emit_capsule strict_cx ?far pickup_state))"
    by code_simp+
  obtain r s where r: "emit_capsule strict_cx pickup_args pickup_state = (Inr r, s)"
    using returns(1) by (metis isl_def prod.collapse sum.exhaust)
  obtain q t where q: "emit_capsule strict_cx ?far pickup_state = (Inr q, t)"
    using returns(2) by (metis isl_def prod.collapse sum.exhaust)
  have members: "\<forall>ms. ea_payload_members pickup_args = Some ms \<longrightarrow> ''chain'' \<notin> fst ` set ms"
    "\<forall>ms. ea_payload_members ?far = Some ms \<longrightarrow> ''chain'' \<notin> fst ` set ms"
    by (simp_all add: pickup_args_def)
  have held: "\<exists>e \<in> set (w_lines (es_world pickup_state)). dget e ''capsule_id'' = JStr ?c"
    "\<not> (\<exists>e \<in> set (w_lines (es_world pickup_state)). dget e ''capsule_id'' = JStr ?a)" by code_simp+
  have "ea_confirms pickup_args = Some ?c" "ea_confirms ?far = Some ?a" by (simp_all add: pickup_args_def)
  then have "\<exists>d. dget (er_capsule r) ''chain'' = JObj d \<and> dget d ''parent_capsule_id'' = JStr ?c"
    "dget (er_capsule q) ''chain'' = JNull \<and>
      (\<exists>vs d. dget (er_capsule q) ''references'' = JArr vs \<and> JObj d \<in> set vs \<and> dget d ''digest'' = JStr ?a)"
    using chain_stays_in_ledger [OF r strict_seal_writes strict_seal_links members(1)]
      chain_stays_in_ledger [OF q strict_seal_writes strict_seal_links members(2)]
    by (simp_all only: option.case held if_True if_False) blast+
  with r q show ?thesis by blast
qed

lemma kill_switch_stops_egress_witness:
  "\<exists>r st'. emit_capsule pickup_cx (pickup_args\<lparr>ea_witness := Some False, ea_require_witness := False\<rparr>) pickup_state = (Inr r, st') \<and>
     w_calls (es_world st') = [] \<and> es_anchors st' = [] \<and> er_anchor_status r = Skipped \<and> er_witness_outcome r = LocalSealed"
proof -
  let ?a = "pickup_args\<lparr>ea_witness := Some False, ea_require_witness := False\<rparr>"
  have "\<not> isl (fst (emit_capsule pickup_cx ?a pickup_state))" by code_simp
  then obtain r st' where r: "emit_capsule pickup_cx ?a pickup_state = (Inr r, st')"
    by (metis isl_def prod.collapse sum.exhaust)
  have "\<not> witness_enabled (ctx_environ pickup_cx) (ea_witness ?a)" by code_simp
  from kill_switch_stops_egress [OF r this] r show ?thesis by (simp add: pickup_state_def)
qed

lemma emit_writes_one_line_witness:
  "\<exists>r st'. emit_capsule pickup_cx pickup_args pickup_state = (Inr r, st') \<and> prefix [receipt_line] (w_lines (es_world st')) \<and>
     w_lines (es_world st') ! 1 = er_capsule r"
proof -
  obtain r st' where r: "emit_capsule pickup_cx pickup_args pickup_state = (Inr r, st')" "er_seq r = 2" by (rule pickup_returns)
  from emit_writes_one_line [OF r(1)] r show ?thesis by (auto simp: pickup_state_def)
qed

lemma anchored_is_confirmed_witness:
  "\<exists>r st'. emit_capsule pickup_cx pickup_args pickup_state = (Inr r, st') \<and> es_anchors st' = [(er_capsule_id r, ''http'')]"
proof -
  obtain r st' where r: "emit_capsule pickup_cx pickup_args pickup_state = (Inr r, st')" "er_anchored r" by (rule pickup_returns)
  from anchored_is_confirmed [OF r] r show ?thesis by (auto simp: pickup_state_def pickup_args_def anchor_endpoint_def)
qed

end
