(* ===== verification/Approval.thy ===== *)
theory Approval
  imports Emit Adjudication Bilateral
begin

text \<open>
  The operations that seal through \<open>_emit_capsule\<close>: \<open>approval.py\<close> with its reader \<open>list_pending\<close>, the \<open>seal_*\<close>
  helpers of \<open>bilateral.py\<close> and \<open>seal_adjudication\<close>.  Each is the keyword arguments that it passes, over the defaults of
  \<open>_emit_capsule_at\<close>, and the emission of \<open>Emit\<close> on the ledger of the state.
\<close>

section \<open>The defaults of \<open>_emit_capsule_at\<close>\<close>

definition default_args :: "string \<Rightarrow> string \<Rightarrow> string \<Rightarrow> emit_args" where
  "default_args action operator developer =
     \<lparr>ea_action = action, ea_operator = operator, ea_developer = developer, ea_runtime = None, ea_input = None,
      ea_output = None, ea_model = None, ea_verdict = ''executed'', ea_effect = None, ea_confirms = None,
      ea_relation = Some ''confirms'', ea_anchor = None, ea_anchor_url = None, ea_anchor_wait = False, ea_witness = None,
      ea_witness_url = None, ea_require_witness = False, ea_human_disposed = False, ea_approver = ''policy'',
      ea_decision = ''accept'', ea_action_type = None, ea_extra_compute = None, ea_authority = None,
      ea_salt_digests = False, ea_canonicalization_id = JStr CANONICALIZATION_ID, ea_references = None,
      ea_payload_members = None, ea_provenance_mode = None\<rparr>"

text \<open>A plan that raises has emitted nothing.\<close>

definition emit_planned :: "emit_ctx \<Rightarrow> emit_exn + emit_args \<Rightarrow> emit_state \<Rightarrow> (emit_exn + emit_result) \<times> emit_state" where
  "emit_planned cx plan st = (case plan of Inl e \<Rightarrow> (Inl e, st) | Inr a \<Rightarrow> emit_capsule cx a st)"

section \<open>The capsules of a ledger\<close>

definition is_capsule_entry :: "dict \<Rightarrow> bool" where
  "is_capsule_entry r \<longleftrightarrow>
     dget r ''kind'' \<notin> JStr ` set NON_CAPSULE_KINDS \<and> dget r ''record_type'' \<noteq> JStr ''padding''"

definition read_capsules :: "dict list \<Rightarrow> dict list" where
  "read_capsules L = filter is_capsule_entry L"

section \<open>\<open>seal_approval\<close>\<close>

definition SUPERSEDES :: string where "SUPERSEDES = ''supersedes''"
definition LEGACY_RESOLVES :: string where "LEGACY_RESOLVES = ''resolves''"

definition RESOLVING_RELATIONS :: "string list" where
  "RESOLVING_RELATIONS = [SUPERSEDES, LEGACY_RESOLVES]"

record approval_args =
  pa_blocked :: string
  pa_approver_id :: string
  pa_decision :: string
  pa_action_digest :: string
  pa_anchor :: bool
  pa_action :: string
  pa_operator :: string
  pa_developer :: string
  pa_effect_type :: "string option"
  pa_resume_ok :: "bool option"
  pa_resume_reason :: json

text \<open>\<open>(blocked_record.get("action_id") or "").startswith("hold.reserve/")\<close>.\<close>

definition chains_from_reserve :: "string \<Rightarrow> dict list \<Rightarrow> emit_exn + bool" where
  "chains_from_reserve i L =
     (case find (\<lambda>c. line_id c = JStr i) (read_capsules L) of
        None \<Rightarrow> Inr False
      | Some r \<Rightarrow>
          (if \<not> truthy (dget r ''action_id'') then Inr False
           else (case dget r ''action_id'' of
                   JStr t \<Rightarrow> Inr (prefix ''hold.reserve/'' t)
                 | _ \<Rightarrow> Inl EmitAttributeError)))"

definition resolve_resume :: "approval_args \<Rightarrow> dict list \<Rightarrow> emit_exn + bool" where
  "resolve_resume a L =
     (case pa_resume_ok a of
        Some b \<Rightarrow> Inr b
      | None \<Rightarrow> sbind (chains_from_reserve (pa_blocked a) L) (\<lambda>r. if r then Inl EmitValueError else Inr True))"

definition plan_approval :: "approval_args \<Rightarrow> dict list \<Rightarrow> emit_exn + emit_args" where
  "plan_approval a L =
     sbind (ensure (pa_decision a \<in> {''approve'', ''deny''}) EmitValueError) (\<lambda>_.
     sbind (resolve_resume a L) (\<lambda>resume_ok.
       let decision = (if pa_decision a = ''approve'' \<and> \<not> resume_ok then ''deny'' else pa_decision a);
           verdict = (if decision = ''approve'' then ''executed'' else ''denied'');
           effect_type = (case pa_effect_type a of None \<Rightarrow> pa_action a | Some t \<Rightarrow> if t = [] then pa_action a else t);
           effect = (if decision = ''approve''
                     then Some [(''type'', JStr effect_type), (''status'', JStr ''dispatched'')] else None);
           extra_compute =
             [(''human_disposed'', JBool True), (''approver_id'', JStr (pa_approver_id a)),
              (''action_digest'', JStr (pa_action_digest a))]
             @ (if resume_ok then []
                else [(''resume_check'', JObj [(''ok'', JBool False), (''reason'', pa_resume_reason a)])])
       in Inr ((default_args (pa_action a) (pa_operator a) (pa_developer a))
            \<lparr>ea_human_disposed := True, ea_approver := ''human'', ea_decision := decision, ea_verdict := verdict,
             ea_confirms := Some (pa_blocked a), ea_relation := Some SUPERSEDES, ea_effect := effect,
             ea_anchor := Some (pa_anchor a), ea_extra_compute := Some extra_compute\<rparr>)))"

definition seal_approval :: "emit_ctx \<Rightarrow> approval_args \<Rightarrow> emit_state \<Rightarrow> (emit_exn + emit_result) \<times> emit_state" where
  "seal_approval cx a st = emit_planned cx (plan_approval a (w_lines (es_world st))) st"

section \<open>\<open>list_pending\<close>\<close>

text \<open>\<open>value or {}\<close>, on which a method is called.\<close>

definition or_empty :: "json \<Rightarrow> emit_exn + dict" where
  "or_empty v = (if \<not> truthy v then Inr [] else (case v of JObj d \<Rightarrow> Inr d | _ \<Rightarrow> Inl EmitAttributeError))"

definition hashable :: "json \<Rightarrow> bool" where
  "hashable v \<longleftrightarrow> (case v of JArr _ \<Rightarrow> False | JObj _ \<Rightarrow> False | _ \<Rightarrow> True)"

definition resolved_id :: "dict \<Rightarrow> emit_exn + json list" where
  "resolved_id c =
     sbind (or_empty (dget c ''chain'')) (\<lambda>chain.
       let relation = dget chain ''relation''; parent = dget chain ''parent_capsule_id'' in
       if \<not> hashable relation then Inl EmitTypeError
       else if relation \<in> JStr ` set RESOLVING_RELATIONS \<and> truthy parent
       then (if hashable parent then Inr [parent] else Inl EmitTypeError)
       else Inr [])"

definition is_blocked :: "dict \<Rightarrow> emit_exn + bool" where
  "is_blocked c =
     sbind (or_empty (dget c ''disposition'')) (\<lambda>disp.
     sbind (or_empty (dget c ''effect'')) (\<lambda>eff.
       Inr (dget disp ''verdict_class'' = JStr ''blocked'' \<or> dget eff ''status'' = JStr ''planned'')))"

definition pending_of :: "(int \<Rightarrow> pyfloat \<Rightarrow> bool) \<Rightarrow> json list \<Rightarrow> dict \<Rightarrow> emit_exn + dict list" where
  "pending_of ife resolved c =
     sbind (is_blocked c) (\<lambda>blocked.
       if \<not> blocked then Inr []
       else let cid = dget_default c ''capsule_id'' (JStr []) in
         if \<not> hashable cid then Inl EmitTypeError
         else Inr (if list_ex (py_eq ife cid) resolved then [] else [c]))"

definition list_pending :: "(int \<Rightarrow> pyfloat \<Rightarrow> bool) \<Rightarrow> dict list \<Rightarrow> emit_exn + dict list" where
  "list_pending ife L =
     (let capsules = read_capsules L in
      sbind (mapM_r resolved_id capsules) (\<lambda>ids.
      sbind (mapM_r (pending_of ife (concat ids)) capsules) (\<lambda>ps.
        Inr (concat ps))))"

section \<open>The \<open>seal_*\<close> helpers of \<open>bilateral.py\<close>\<close>

record bilateral_args =
  ba_org :: string
  ba_developer :: string
  ba_action :: string
  ba_action_digest :: string
  ba_anchor :: bool
  ba_extra_compute :: "dict option"

definition bilateral_call :: "bilateral_args \<Rightarrow> string \<Rightarrow> string \<Rightarrow> string \<Rightarrow> dict \<Rightarrow> emit_args" where
  "bilateral_call b action verdict status compute =
     (default_args action (ba_org b) (ba_developer b))
       \<lparr>ea_verdict := verdict, ea_effect := Some [(''type'', JStr (ba_action b)), (''status'', JStr status)],
        ea_anchor := Some (ba_anchor b),
        ea_extra_compute := Some (dict_update compute (case ba_extra_compute b of None \<Rightarrow> [] | Some d \<Rightarrow> d))\<rparr>"

definition request_args :: "bilateral_args \<Rightarrow> emit_args" where
  "request_args b = bilateral_call b (ba_action b) ''executed'' ''dispatched''
     [(''action_digest'', JStr (ba_action_digest b)), (''role'', JStr ''requester'')]"

definition action_args :: "bilateral_args \<Rightarrow> string \<Rightarrow> string \<Rightarrow> string \<Rightarrow> json list \<Rightarrow> emit_args" where
  "action_args b requester_capsule_id verdict effect_status gate_checks =
     (bilateral_call b (ba_action b) verdict effect_status
       ([(''action_digest'', JStr (ba_action_digest b)), (''role'', JStr ''responder'')]
        @ (if gate_checks = [] then [] else [(''gate_checks'', JArr gate_checks)])))
       \<lparr>ea_confirms := Some requester_capsule_id, ea_relation := Some ''confirms''\<rparr>"

definition completion_args :: "bilateral_args \<Rightarrow> string \<Rightarrow> emit_args" where
  "completion_args b prior =
     (bilateral_call b (ba_action b @ '':bilateral'') ''confirmed'' ''confirmed''
       [(''action_digest'', JStr (ba_action_digest b)), (''bilateral_state'', JStr ''bilateral'')])
       \<lparr>ea_confirms := Some prior, ea_relation := Some ''confirms''\<rparr>"

definition ghost_args :: "bilateral_args \<Rightarrow> string \<Rightarrow> emit_args" where
  "ghost_args b request_capsule_id =
     (bilateral_call b (ba_action b @ '':ghost'') ''countersign_refused'' ''planned''
       [(''action_digest'', JStr (ba_action_digest b)), (''role'', JStr ''requester''),
        (''asymmetry'', JStr ''countersign_refused'')])
       \<lparr>ea_confirms := Some request_capsule_id, ea_relation := Some ''supersedes''\<rparr>"

definition seal_request where "seal_request cx b st = emit_capsule cx (request_args b) st"
definition seal_action where
  "seal_action cx b i verdict effect_status gate_checks st = emit_capsule cx (action_args b i verdict effect_status gate_checks) st"
definition seal_bilateral where "seal_bilateral cx b i st = emit_capsule cx (completion_args b i) st"
definition seal_ghost where "seal_ghost cx b i st = emit_capsule cx (ghost_args b i) st"

section \<open>\<open>seal_adjudication\<close>\<close>

record adjudication_args =
  ja_half_a :: string
  ja_half_b :: string
  ja_verdict :: string
  ja_margin :: pyfloat
  ja_margin_tau :: pyfloat
  ja_divergence_index :: json
  ja_twin_owner_distinct :: json
  ja_weights_digest :: json
  ja_anchor :: bool
  ja_action :: string
  ja_operator :: string
  ja_developer :: string

definition plan_adjudication :: "adjudication_args \<Rightarrow> emit_exn + emit_args" where
  "plan_adjudication a =
     (case adjudication_block (ja_half_a a) (ja_half_b a) (ja_verdict a) (ja_margin a) (ja_margin_tau a)
            (ja_divergence_index a) (ja_twin_owner_distinct a) (ja_weights_digest a) of
        Inl VerdictValueError \<Rightarrow> Inl EmitValueError
      | Inl (MarginError _) \<Rightarrow> Inl emit_exn.FloatInDigestError
      | Inr block \<Rightarrow>
          Inr ((default_args (ja_action a) (ja_operator a) (ja_developer a))
            \<lparr>ea_verdict := ''assessed'', ea_confirms := Some (ja_half_a a), ea_relation := Some RELATION_ADJUDICATES,
             ea_extra_compute := (case block of JObj d \<Rightarrow> Some d | _ \<Rightarrow> None), ea_anchor := Some (ja_anchor a)\<rparr>))"

definition seal_adjudication :: "emit_ctx \<Rightarrow> adjudication_args \<Rightarrow> emit_state \<Rightarrow> (emit_exn + emit_result) \<times> emit_state" where
  "seal_adjudication cx a st = emit_planned cx (plan_adjudication a) st"


section \<open>What leaves the pending list\<close>

lemma mapM_r_append:
  "mapM_r f (xs @ ys) = sbind (mapM_r f xs) (\<lambda>us. sbind (mapM_r f ys) (\<lambda>vs. Inr (us @ vs)))"
  by (induction xs) (auto simp: sbind_def split: sum.splits)

lemma mapM_r_mem: "mapM_r f xs = Inr ys \<Longrightarrow> x \<in> set xs \<Longrightarrow> \<exists>y \<in> set ys. f x = Inr y"
  by (induction xs arbitrary: ys) (auto simp: res_simps)

lemma mapM_r_from: "mapM_r f xs = Inr ys \<Longrightarrow> y \<in> set ys \<Longrightarrow> \<exists>x \<in> set xs. f x = Inr y"
  by (induction xs arbitrary: ys) (auto simp: res_simps)

lemma py_eq_str: "py_eq ife v (JStr s) \<longleftrightarrow> v = JStr s"
  by (cases v) simp_all

definition closed_by :: "(int \<Rightarrow> pyfloat \<Rightarrow> bool) \<Rightarrow> json list \<Rightarrow> dict \<Rightarrow> bool" where
  "closed_by ife ids c \<longleftrightarrow> list_ex (py_eq ife (dget_default c ''capsule_id'' (JStr []))) ids"

lemma pending_of_more:
  assumes "pending_of ife ids c = Inr p"
  shows "pending_of ife (ids @ fresh) c = Inr (filter (\<lambda>c. \<not> closed_by ife fresh c) p)"
proof (cases "is_blocked c")
  case (Inr b)
  then show ?thesis using assms by (cases b; cases "hashable (dget_default c ''capsule_id'' (JStr []))")
      (auto simp: pending_of_def closed_by_def Let_def)
qed (use assms in \<open>simp add: pending_of_def\<close>)

lemma mapM_r_pending_more:
  assumes "mapM_r (pending_of ife ids) cs = Inr ps"
  shows "mapM_r (pending_of ife (ids @ fresh)) cs = Inr (map (filter (\<lambda>c. \<not> closed_by ife fresh c)) ps)"
  using assms
proof (induction cs arbitrary: ps)
  case (Cons c cs)
  then obtain p qs where p: "pending_of ife ids c = Inr p" "mapM_r (pending_of ife ids) cs = Inr qs" "ps = p # qs"
    by (auto simp: res_simps)
  show ?case using Cons.IH [OF p(2)] pending_of_more [OF p(1), of fresh] p(3) by simp
qed simp

lemma filter_concat_map: "filter P (concat xss) = concat (map (filter P) xss)"
  by (induction xss) simp_all

lemma list_pending_append:
  assumes "list_pending ife L = Inr ps" "mapM_r resolved_id (read_capsules M) = Inr new"
  shows "list_pending ife (L @ M) =
    (case mapM_r resolved_id (read_capsules L) of
       Inl e \<Rightarrow> Inl e
     | Inr old \<Rightarrow> sbind (mapM_r (pending_of ife (concat (old @ new))) (read_capsules M)) (\<lambda>qs.
         Inr (filter (\<lambda>c. \<not> closed_by ife (concat new) c) ps @ concat qs)))"
proof -
  obtain old qs where o: "mapM_r resolved_id (read_capsules L) = Inr old"
    "mapM_r (pending_of ife (concat old)) (read_capsules L) = Inr qs" "ps = concat qs"
    using assms(1) by (auto simp: list_pending_def res_simps Let_def)
  have "read_capsules (L @ M) = read_capsules L @ read_capsules M" by (simp add: read_capsules_def)
  then show ?thesis
    using o assms(2) mapM_r_pending_more [OF o(2), of "concat new"]
    by (simp add: list_pending_def Let_def mapM_r_append filter_concat_map)
       (simp add: sbind_def split: sum.splits)
qed


lemma or_empty_simps [simp]: "or_empty JNull = Inr []" "or_empty (JObj d) = Inr d"
  by (cases d) (simp_all add: or_empty_def)

lemma claimed_status [simp]: "xe_status (claimed_effect e) = xe_status e"
  by (simp add: claimed_effect_def)

lemma effect_record_status:
  "effect_record env a = Inr e \<Longrightarrow>
     map_option xe_status e = map_option (\<lambda>e. dget_default e ''status'' (JStr ''dispatched'')) (ea_effect a)"
  by (cases "ea_effect a") (auto simp: effect_record_def res_simps Let_def)

lemma build_args_effect:
  assumes "build_args_of env a L = Inr b"
  shows "effect_record env a = Inr (b_effect b)"
proof -
  obtain p q refs where lk: "link_of a L = ((p, q), refs)" by (metis prod.collapse)
  show ?thesis using assms by (auto simp: build_args_of_def res_simps Let_def lk)
qed

lemma sealed_entry:
  assumes "emit_capsule cx a st = (Inr r, st')" "seal_writes (ec_env cx)" "ea_payload_members a = None"
    "ea_confirms a = Some i" "in_ledger i (w_lines (es_world st))" "i \<noteq> []"
  obtains rel where "is_capsule_entry (er_capsule r)"
    "resolved_id (er_capsule r) = Inr (if rel \<in> set RESOLVING_RELATIONS then [JStr i] else [])"
    "is_blocked (er_capsule r) = Inr (ea_verdict a = ''blocked'' \<or>
       (\<exists>e. ea_effect a = Some e \<and> dget_default e ''status'' (JStr ''dispatched'') = JStr ''planned''))"
    "rel = (case ea_relation a of Some r \<Rightarrow> r | None \<Rightarrow> ''follows'')"
proof (rule emit_capsule_parts [OF assms(1)])
  fix b base
  let ?x = "capsule_of (ec_env cx) b"
  let ?rel = "case ea_relation a of Some r \<Rightarrow> r | None \<Rightarrow> ''follows''"
  assume b: "build_args_of (ec_env cx) a (w_lines (es_world st)) = Inr b" and base: "em_seal (ec_env cx) ?x = Inr base"
    and m: "\<And>k. k \<notin> set RESERVED_MEMBERS \<Longrightarrow> ea_payload_members a = None \<Longrightarrow> dget (er_capsule r) k = dget base k"
  note w = seal_writesD [OF assms(2) base, unfolded writes_members_def]
  note g = m [OF _ assms(3)]
  have get: "dget (er_capsule r) ''kind'' = dget base ''kind''" "dget (er_capsule r) ''record_type'' = dget base ''record_type''"
    "dget (er_capsule r) ''chain'' = dget base ''chain''" "dget (er_capsule r) ''disposition'' = dget base ''disposition''"
    "dget (er_capsule r) ''effect'' = dget base ''effect''"
    by (rule g, simp add: RESERVED_MEMBERS_def)+
  have l: "((b_prior b, b_chain_relation b), b_references b) = link_of a (w_lines (es_world st))"
    by (rule build_args_Inr [OF b])
  then have chain: "xa_chain ?x = Some \<lparr>xc_parent = i, xc_relation = ?rel\<rparr>"
    using assms(4,5) by (simp add: capsule_of_def Let_def chain_of_def link_of_def)
  have disp: "xa_disposition ?x = Some (disposition_of a)"
    using build_args_Inr(2) [OF b] by (simp add: capsule_of_def Let_def)
  have "effect_record (ec_env cx) a = Inr (b_effect b)" by (rule build_args_effect [OF b])
  then have eff: "map_option xe_status (xa_effect ?x) = map_option (\<lambda>e. dget_default e ''status'' (JStr ''dispatched'')) (ea_effect a)"
    using effect_record_status by (simp add: capsule_of_def Let_def option.map_comp comp_def)
  have "is_capsule_entry (er_capsule r)" using w get by (auto simp: is_capsule_entry_def)
  moreover have "resolved_id (er_capsule r) = Inr (if ?rel \<in> set RESOLVING_RELATIONS then [JStr i] else [])"
    using w get chain assms(6) by (auto simp: resolved_id_def hashable_def image_iff)
  moreover have "is_blocked (er_capsule r) = Inr (ea_verdict a = ''blocked'' \<or>
       (\<exists>e. ea_effect a = Some e \<and> dget_default e ''status'' (JStr ''dispatched'') = JStr ''planned''))"
    using w get disp eff by (cases "xa_effect ?x"; cases "ea_effect a") (auto simp: is_blocked_def disposition_of_def)
  ultimately show thesis using that by blast
qed

lemma plan_approval_Inr:
  assumes "plan_approval a L = Inr p"
  obtains ok where "resolve_resume a L = Inr ok" "ea_decision p = (if pa_decision a = ''approve'' \<and> ok then ''approve'' else ''deny'')"
    "ea_verdict p = (if ea_decision p = ''approve'' then ''executed'' else ''denied'')"
    "ea_effect p = None \<longleftrightarrow> ea_decision p = ''deny''"
    "\<And>e. ea_effect p = Some e \<Longrightarrow> dget_default e ''status'' (JStr ''dispatched'') = JStr ''dispatched''"
    "ea_payload_members p = None" "ea_confirms p = Some (pa_blocked a)" "ea_relation p = Some SUPERSEDES"
    "\<not> ea_require_witness p" "ea_human_disposed p" "ea_approver p = ''human''"
proof -
  obtain ok where ok: "resolve_resume a L = Inr ok" "pa_decision a \<in> {''approve'', ''deny''}"
    using assms by (auto simp: plan_approval_def res_simps)
  have "dget_default [(''type'', t), (''status'', JStr ''dispatched'')] ''status'' v = JStr ''dispatched''" for t v
    by (simp add: dget_default_def dget_def dhas_def)
  then show thesis
    using assms ok by (cases ok; intro that [of ok]) (auto simp: plan_approval_def Let_def default_args_def)
qed

lemma pending_not_closed:
  assumes "list_pending ife L = Inr ps" "mapM_r resolved_id (read_capsules L) = Inr old" "c \<in> set ps" "j \<in> set (concat old)"
  shows "\<not> py_eq ife (dget_default c ''capsule_id'' (JStr [])) j"
proof -
  obtain qs where qs: "mapM_r (pending_of ife (concat old)) (read_capsules L) = Inr qs" "ps = concat qs"
    using assms(1,2) by (auto simp: list_pending_def res_simps Let_def)
  have "c \<in> set q \<Longrightarrow> \<not> list_ex (py_eq ife (dget_default c ''capsule_id'' (JStr []))) (concat old)"
    if "pending_of ife (concat old) d = Inr q" for d q
    using that by (auto simp: pending_of_def res_simps Let_def split: if_splits)
  moreover obtain d q where "pending_of ife (concat old) d = Inr q" "c \<in> set q"
    using mapM_r_from [OF qs(1)] qs(2) assms(3) by (metis set_concat UN_E)
  ultimately show ?thesis using assms(4) by (auto simp: list_ex_iff)
qed

section \<open>Properties\<close>

text \<open>C18: an approval or a denial that is sealed for a record of the ledger takes exactly that record off the pending
  list: every other pending capsule stays, in order, and the approval is not pending itself.\<close>

theorem approval_closes_exactly_one:
  assumes "seal_approval cx a st = (Inr r, st')" "seal_writes (ec_env cx)"
    "valid_id (pa_blocked a)" "in_ledger (pa_blocked a) (w_lines (es_world st))"
    "list_pending ife (w_lines (es_world st)) = Inr ps"
  shows "list_pending ife (w_lines (es_world st')) = Inr (filter (\<lambda>c. dget c ''capsule_id'' \<noteq> JStr (pa_blocked a)) ps)"
proof -
  let ?L = "w_lines (es_world st)" and ?c = "er_capsule r" and ?i = "pa_blocked a"
  obtain p where p: "plan_approval a ?L = Inr p" and e: "emit_capsule cx p st = (Inr r, st')"
    using assms(1) by (auto simp: seal_approval_def emit_planned_def split: sum.splits)
  have i: "?i \<noteq> []" using assms(3) by (auto simp: valid_id_def hex_string_def)
  show ?thesis
  proof (rule plan_approval_Inr [OF p])
    assume pl: "ea_payload_members p = None" "ea_confirms p = Some ?i" "ea_relation p = Some SUPERSEDES" "\<not> ea_require_witness p"
      "ea_verdict p = (if ea_decision p = ''approve'' then ''executed'' else ''denied'')"
      "\<And>e. ea_effect p = Some e \<Longrightarrow> dget_default e ''status'' (JStr ''dispatched'') = JStr ''dispatched''"
    obtain c: "is_capsule_entry ?c" "resolved_id ?c = Inr [JStr ?i]" "is_blocked ?c = Inr False"
      by (rule sealed_entry [OF e assms(2) pl(1,2) assms(4) i])
        (use pl in \<open>auto simp: RESOLVING_RELATIONS_def split: if_splits\<close>)
    have closed: "closed_by ife [JStr ?i] d \<longleftrightarrow> dget d ''capsule_id'' = JStr ?i" for d
      using i by (auto simp: closed_by_def py_eq_str dget_default_def dget_absent)
    have pend: "pending_of ife ids ?c = Inr []" for ids using c(3) by (simp add: pending_of_def)
    obtain old where old: "mapM_r resolved_id (read_capsules ?L) = Inr old"
      using assms(5) by (auto simp: list_pending_def res_simps Let_def)
    from emit_writes_only_its_line [OF e pl(4)] show ?thesis
    proof (elim disjE conjE)
      assume L': "w_lines (es_world st') = ?L @ [?c]"
      have "mapM_r resolved_id (read_capsules [?c]) = Inr [[JStr ?i]]" using c by (simp add: read_capsules_def)
      from list_pending_append [OF assms(5) this] show ?thesis
        unfolding L' using old c(1) pend closed by (simp add: read_capsules_def)
    next
      assume L': "w_lines (es_world st') = ?L" and mem: "?c \<in> set ?L"
      then have "JStr ?i \<in> set (concat old)"
        using mapM_r_mem [OF old, of ?c] c(1,2) by (force simp: read_capsules_def)
      from pending_not_closed [OF assms(5) old _ this] have "\<not> closed_by ife [JStr ?i] d" if "d \<in> set ps" for d
        using that by (simp add: closed_by_def)
      then show ?thesis unfolding L' assms(5) closed by (simp add: filter_id_conv [symmetric])
    qed
  qed
qed


text \<open>The pending list is fail-closed.  However the ledger grows, a capsule leaves the list only when a new line
  resolves it by name, with \<open>supersedes\<close> or the legacy alias, and those that stay keep their order in front of the
  new ones.\<close>

theorem pending_leaves_only_by_resolution:
  assumes "list_pending ife L = Inr ps" "list_pending ife (L @ M) = Inr ps'"
  shows "\<exists>new. ps' = filter (\<lambda>c. \<not> (\<exists>m \<in> set M. is_capsule_entry m \<and> (\<exists>j. resolved_id m = Inr [j] \<and>
      py_eq ife (dget_default c ''capsule_id'' (JStr [])) j))) ps @ new \<and>
    set new \<subseteq> {m \<in> set M. is_capsule_entry m \<and> is_blocked m = Inr True}"
proof -
  obtain ids where "mapM_r resolved_id (read_capsules (L @ M)) = Inr ids"
    using assms(2) by (auto simp: list_pending_def res_simps Let_def)
  then obtain old fresh where ids: "mapM_r resolved_id (read_capsules L) = Inr old"
    "mapM_r resolved_id (read_capsules M) = Inr fresh"
    by (auto simp: read_capsules_def mapM_r_append res_simps)
  then obtain qs where qs: "mapM_r (pending_of ife (concat (old @ fresh))) (read_capsules M) = Inr qs"
    "ps' = filter (\<lambda>c. \<not> closed_by ife (concat fresh) c) ps @ concat qs"
    using list_pending_append [OF assms(1) ids(2)] assms(2)
    by (cases "mapM_r (pending_of ife (concat old @ concat fresh)) (read_capsules M)") auto
  have one: "resolved_id m = Inr js \<Longrightarrow> js = [] \<or> (\<exists>j. js = [j])" for m js
    by (auto simp: resolved_id_def res_simps Let_def split: if_splits)
  have "closed_by ife (concat fresh) c \<longleftrightarrow> (\<exists>m \<in> set M. is_capsule_entry m \<and> (\<exists>j. resolved_id m = Inr [j] \<and>
      py_eq ife (dget_default c ''capsule_id'' (JStr [])) j))" for c
  proof
    assume "closed_by ife (concat fresh) c"
    then obtain js j where "js \<in> set fresh" "j \<in> set js" "py_eq ife (dget_default c ''capsule_id'' (JStr [])) j"
      by (auto simp: closed_by_def list_ex_iff)
    then show "\<exists>m \<in> set M. is_capsule_entry m \<and> (\<exists>j. resolved_id m = Inr [j] \<and>
        py_eq ife (dget_default c ''capsule_id'' (JStr [])) j)"
      using mapM_r_from [OF ids(2)] one by (fastforce simp: read_capsules_def)
  next
    assume "\<exists>m \<in> set M. is_capsule_entry m \<and> (\<exists>j. resolved_id m = Inr [j] \<and>
        py_eq ife (dget_default c ''capsule_id'' (JStr [])) j)"
    then obtain m j where m: "m \<in> set (read_capsules M)" "resolved_id m = Inr [j]"
      "py_eq ife (dget_default c ''capsule_id'' (JStr [])) j"
      by (auto simp: read_capsules_def)
    then have "[j] \<in> set fresh" using mapM_r_mem [OF ids(2) m(1)] by auto
    then show "closed_by ife (concat fresh) c" using m(3) by (force simp: closed_by_def list_ex_iff)
  qed
  moreover have "set (concat qs) \<subseteq> {m \<in> set M. is_capsule_entry m \<and> is_blocked m = Inr True}"
  proof -
    have "pending_of ife js m = Inr q \<Longrightarrow> c \<in> set q \<Longrightarrow> c = m \<and> is_blocked m = Inr True" for js m q c
      by (auto simp: pending_of_def res_simps Let_def split: if_splits)
    then show ?thesis using mapM_r_from [OF qs(1)] by (fastforce simp: read_capsules_def)
  qed
  ultimately show ?thesis using qs(2) by auto
qed

text \<open>What is sealed is an approval only when the human approved and, for a hold, the caller's own check at resume
  time said that it is still good: a stale hold turns an approval into a denial, leaving the check out for a hold is
  refused, and a denial is never turned round.  A denial carries no effect.\<close>

theorem stale_hold_is_denied:
  assumes "seal_approval cx a st = (Inr r, st')"
  shows "\<exists>x base. em_seal (ec_env cx) x = Inr base \<and>
    (\<exists>d. xa_disposition x = Some d \<and> xd_human_disposed d \<and> xd_approver d = ''human'' \<and> xd_decision d \<in> {''approve'', ''deny''} \<and>
      (xd_decision d = ''approve'' \<longleftrightarrow> pa_decision a = ''approve'' \<and>
        (pa_resume_ok a = Some True \<or> pa_resume_ok a = None \<and> chains_from_reserve (pa_blocked a) (w_lines (es_world st)) = Inr False)) \<and>
      xd_verdict_class d = (if xd_decision d = ''approve'' then ''executed'' else ''denied'') \<and>
      (xa_effect x = None \<longleftrightarrow> xd_decision d = ''deny'')) \<and>
    (\<forall>k. dhas base k \<longrightarrow> k \<notin> set RESERVED_MEMBERS \<longrightarrow> dget (er_capsule r) k = dget base k)"
proof -
  let ?L = "w_lines (es_world st)"
  obtain p where p: "plan_approval a ?L = Inr p" and e: "emit_capsule cx p st = (Inr r, st')"
    using assms by (auto simp: seal_approval_def emit_planned_def split: sum.splits)
  obtain b base where b: "build_args_of (ec_env cx) p ?L = Inr b" "em_seal (ec_env cx) (capsule_of (ec_env cx) b) = Inr base"
    "\<And>k. k \<notin> set RESERVED_MEMBERS \<Longrightarrow> dhas base k \<Longrightarrow> dget (er_capsule r) k = dget base k"
    by (rule emit_capsule_parts [OF e]) blast
  have disp: "xa_disposition (capsule_of (ec_env cx) b) = Some (disposition_of p)"
    using build_args_Inr(2) [OF b(1)] by (simp add: capsule_of_def Let_def)
  have eff: "xa_effect (capsule_of (ec_env cx) b) = None \<longleftrightarrow> ea_effect p = None"
    using effect_record_status [OF build_args_effect [OF b(1)]] by (cases "ea_effect p") (auto simp: capsule_of_def Let_def)
  have ok: "resolve_resume a ?L = Inr ok \<Longrightarrow>
      ok \<longleftrightarrow> pa_resume_ok a = Some True \<or> pa_resume_ok a = None \<and> chains_from_reserve (pa_blocked a) ?L = Inr False" for ok
    by (auto simp: resolve_resume_def res_simps split: option.splits if_splits)
  show ?thesis
    by (rule plan_approval_Inr [OF p], intro exI [of _ "capsule_of (ec_env cx) b"] exI [of _ base])
      (auto simp: b disp eff disposition_of_def dest: ok)
qed


section \<open>Witnesses\<close>

definition review_cx :: emit_ctx where
  "review_cx = pickup_cx\<lparr>ec_env := pickup_env\<lparr>em_seal := (\<lambda>x. Inr (review_members x))\<rparr>\<rparr>"

lemma review_seal_writes: "seal_writes (ec_env review_cx)"
  using review_writes by (simp add: seal_writes_def review_cx_def)

abbreviation held_id :: string where
  "held_id \<equiv> replicate 64 (CHR ''c'')"

definition held_line :: dict where
  "held_line = [(''capsule_id'', JStr held_id), (''action_id'', JStr ''hold.reserve/1''),
     (''disposition'', JObj [(''verdict_class'', JStr ''blocked'')])]"

definition other_line :: dict where
  "other_line = [(''capsule_id'', JStr (replicate 64 (CHR ''a''))), (''effect'', JObj [(''status'', JStr ''planned'')])]"

definition review_state :: emit_state where
  "review_state = \<lparr>es_proc = fresh_proc, es_world = \<lparr>w_lines = [held_line, other_line], w_calls = []\<rparr>, es_anchors = []\<rparr>"

definition late_approval :: approval_args where
  "late_approval = \<lparr>pa_blocked = held_id, pa_approver_id = ''alice'', pa_decision = ''approve'', pa_action_digest = ''d'',
     pa_anchor = False, pa_action = ''review_action'', pa_operator = [], pa_developer = [], pa_effect_type = None,
     pa_resume_ok = Some False, pa_resume_reason = JStr ''expired''\<rparr>"

lemma late_approval_returns:
  obtains r st' where "seal_approval review_cx late_approval review_state = (Inr r, st')"
proof -
  have "\<not> isl (fst (seal_approval review_cx late_approval review_state))" by code_simp
  then show thesis using that by (metis isl_def prod.collapse sum.exhaust)
qed

lemma review_pending: "list_pending (\<lambda>_ _. False) [held_line, other_line] = Inr [held_line, other_line]"
  by code_simp

lemma approval_closes_exactly_one_witness:
  "\<exists>r st'. seal_approval review_cx late_approval review_state = (Inr r, st') \<and>
     list_pending (\<lambda>_ _. False) (w_lines (es_world st')) = Inr [other_line]"
proof -
  obtain r st' where r: "seal_approval review_cx late_approval review_state = (Inr r, st')" by (rule late_approval_returns)
  have "valid_id (pa_blocked late_approval)" by code_simp
  moreover have "in_ledger (pa_blocked late_approval) (w_lines (es_world review_state))" by code_simp
  moreover have "filter (\<lambda>c. dget c ''capsule_id'' \<noteq> JStr (pa_blocked late_approval)) [held_line, other_line] = [other_line]"
    by code_simp
  ultimately show ?thesis
    using approval_closes_exactly_one [OF r review_seal_writes, of "\<lambda>_ _. False" "[held_line, other_line]"] review_pending r
    by (auto simp: review_state_def)
qed

lemma pending_leaves_only_by_resolution_witness:
  "\<exists>new. [other_line] = filter (\<lambda>c. \<not> (\<exists>m \<in> set [[(''chain'', JObj [(''relation'', JStr ''resolves''), (''parent_capsule_id'', JStr held_id)])]].
     is_capsule_entry m \<and> (\<exists>j. resolved_id m = Inr [j] \<and> py_eq (\<lambda>_ _. False) (dget_default c ''capsule_id'' (JStr [])) j)))
     [held_line, other_line] @ new"
proof -
  have "list_pending (\<lambda>_ _. False) ([held_line, other_line]
      @ [[(''chain'', JObj [(''relation'', JStr ''resolves''), (''parent_capsule_id'', JStr held_id)])]]) = Inr [other_line]"
    by code_simp
  from pending_leaves_only_by_resolution [OF review_pending this] show ?thesis by blast
qed

lemma stale_hold_is_denied_witness:
  "\<exists>r st' x. seal_approval review_cx late_approval review_state = (Inr r, st') \<and>
     em_seal (ec_env review_cx) x = Inr (review_members x) \<and> xa_effect x = None \<and>
     (\<exists>d. xa_disposition x = Some d \<and> xd_decision d = ''deny'' \<and> xd_verdict_class d = ''denied'')"
proof -
  obtain r st' where r: "seal_approval review_cx late_approval review_state = (Inr r, st')" by (rule late_approval_returns)
  have "pa_resume_ok late_approval = Some False" by (simp add: late_approval_def)
  with stale_hold_is_denied [OF r] r show ?thesis by (auto simp: review_cx_def)
qed

text \<open>Leaving the check out for a hold is refused and writes nothing.\<close>

lemma unchecked_hold_refused:
  "seal_approval review_cx (late_approval\<lparr>pa_resume_ok := None\<rparr>) review_state = (Inl EmitValueError, review_state)"
proof -
  have "plan_approval (late_approval\<lparr>pa_resume_ok := None\<rparr>) [held_line, other_line] = Inl EmitValueError" by code_simp
  then show ?thesis by (simp add: seal_approval_def emit_planned_def review_state_def)
qed

end
