(* ===== verification/Gate.thy ===== *)
theory Gate
  imports Approval
begin

text \<open>
  \<open>gate.py\<close>, \<open>constraints/apache.py\<close> and the emitter base of the adapters (\<open>adapters/_base.py\<close>): run the constraints of
  an action, seal what they said, and let the output through or refuse it.  A constraint is any function; an exception
  of one is the text that it raises.  The escalation callback of the caller is a function that may raise.
\<close>

section \<open>Constraints\<close>

record constraint =
  cn_name :: string
  cn_check :: "dict \<Rightarrow> json \<Rightarrow> string + (bool \<times> string option)"

record check_result =
  cr_name :: string
  cr_passed :: bool
  cr_reason :: "string option"

definition check_dict :: "check_result \<Rightarrow> json" where
  "check_dict r = JObj ([(''name'', JStr (cr_name r)), (''passed'', JBool (cr_passed r))] @ opt_entry ''reason'' (cr_reason r))"

definition gate_passed :: "check_result list \<Rightarrow> bool" where
  "gate_passed rs \<longleftrightarrow> list_all cr_passed rs"

definition gate_checks :: "check_result list \<Rightarrow> json" where
  "gate_checks rs = JArr (map check_dict rs)"

definition check_one :: "dict \<Rightarrow> json \<Rightarrow> constraint \<Rightarrow> check_result" where
  "check_one inputs output c =
     (case cn_check c inputs output of
        Inl exc \<Rightarrow> \<lparr>cr_name = cn_name c, cr_passed = False, cr_reason = Some (''constraint raised: '' @ exc)\<rparr>
      | Inr (passed, reason) \<Rightarrow> \<lparr>cr_name = cn_name c, cr_passed = passed, cr_reason = reason\<rparr>)"

definition run_gate :: "constraint list \<Rightarrow> dict \<Rightarrow> json \<Rightarrow> check_result list" where
  "run_gate cs inputs output = map (check_one inputs output) cs"

text \<open>
  The examples of \<open>constraints/apache.py\<close>, for an integer cap.  The text of a value in an f-string, the comparison of a
  float with an integer and the text of a \<open>TypeError\<close> are the interpreter's.
\<close>

record py_text =
  pt_show :: "json \<Rightarrow> string"
  pt_float_less :: "pyfloat \<Rightarrow> int \<Rightarrow> bool"
  pt_type_error :: "json \<Rightarrow> string"

definition less_int :: "py_text \<Rightarrow> json \<Rightarrow> int \<Rightarrow> string + bool" where
  "less_int py v n =
     (case num_int v of
        Some i \<Rightarrow> Inr (i < n)
      | None \<Rightarrow> (case v of JFloat f \<Rightarrow> Inr (pt_float_less py f n) | _ \<Rightarrow> Inl (pt_type_error py v)))"

definition amount_under_cap :: "py_text \<Rightarrow> int \<Rightarrow> constraint" where
  "amount_under_cap py cap =
     \<lparr>cn_name = ''amount_under_'' @ pt_show py (JInt cap),
      cn_check = (\<lambda>inputs _.
        let amount = dget_default inputs ''amount'' (JInt 0) in
        sbind (less_int py amount cap) (\<lambda>ok.
          Inr (if ok then (True, None)
               else (False, Some (''amount '' @ pt_show py amount @ '' >= cap '' @ pt_show py (JInt cap))))))\<rparr>"

definition vendor_known :: "py_text \<Rightarrow> string list \<Rightarrow> constraint" where
  "vendor_known py known =
     \<lparr>cn_name = ''vendor_known'',
      cn_check = (\<lambda>inputs _.
        let vendor = dget inputs ''vendor'' in
        if \<not> hashable vendor then Inl (pt_type_error py vendor)
        else Inr (if vendor \<in> JStr ` set known then (True, None)
                  else (False, Some (''vendor '' @ [CHR 0x27] @ pt_show py vendor @ [CHR 0x27] @ '' not in approved set''))))\<rparr>"

section \<open>\<open>CapsuleEmitterBase\<close>\<close>

record emitter =
  et_operator :: string
  et_developer :: string
  et_anchor_arg :: "bool option"
  et_anchor_url :: "string option"
  et_anchor_wait :: bool
  et_default_model :: "dict option"
  et_max_results :: "nat option"
  et_last :: "emit_result option"
  et_results :: "emit_result list"

record tool_call =
  tc_action :: string
  tc_input :: json
  tc_output :: json
  tc_verdict :: string
  tc_effect :: "dict option"
  tc_prior :: "string option"
  tc_model :: "dict option"
  tc_human_disposed :: bool
  tc_approver :: string
  tc_decision :: string
  tc_relation :: "string option"
  tc_action_type :: "string option"
  tc_runtime :: "string option"
  tc_extra_compute :: "dict option"
  tc_provenance_mode :: "json option"

definition digest_input :: "string \<Rightarrow> json \<Rightarrow> emit_exn + json option" where
  "digest_input field v =
     (case canonicalize_for_digest field v of
        Inl _ \<Rightarrow> Inl emit_exn.FloatInDigestError
      | Inr w \<Rightarrow> Inr (if w = JNull then None else Some w))"

definition tool_args :: "emitter \<Rightarrow> tool_call \<Rightarrow> emit_exn + emit_args" where
  "tool_args em t =
     sbind (digest_input ''agent_input'' (tc_input t)) (\<lambda>i.
     sbind (digest_input ''agent_output'' (tc_output t)) (\<lambda>out.
       Inr ((default_args (tc_action t) (et_operator em) (et_developer em))
         \<lparr>ea_input := i, ea_output := out, ea_verdict := tc_verdict t, ea_effect := tc_effect t, ea_confirms := tc_prior t,
          ea_relation := tc_relation t, ea_anchor := et_anchor_arg em, ea_anchor_url := et_anchor_url em,
          ea_anchor_wait := et_anchor_wait em,
          ea_model := (if tc_model t \<noteq> None then tc_model t else et_default_model em),
          ea_human_disposed := tc_human_disposed t, ea_approver := tc_approver t, ea_decision := tc_decision t,
          ea_action_type := tc_action_type t, ea_runtime := tc_runtime t, ea_extra_compute := tc_extra_compute t,
          ea_provenance_mode := tc_provenance_mode t\<rparr>)))"

text \<open>\<open>append\<close> to the list of results, a \<open>deque\<close> with \<open>maxlen\<close> when a cap is set.\<close>

definition keep_result :: "nat option \<Rightarrow> emit_result list \<Rightarrow> emit_result \<Rightarrow> emit_result list" where
  "keep_result cap rs r =
     (let all = rs @ [r] in case cap of None \<Rightarrow> all | Some n \<Rightarrow> drop (length all - n) all)"

definition emit_tool ::
    "emit_ctx \<Rightarrow> tool_call \<Rightarrow> emitter \<times> emit_state \<Rightarrow> (emit_exn + emit_result) \<times> emitter \<times> emit_state" where
  "emit_tool cx t s =
     (case s of (em, st) \<Rightarrow>
        (case emit_planned cx (tool_args em t) st of
           (Inl e, st') \<Rightarrow> (Inl e, em, st')
         | (Inr r, st') \<Rightarrow>
             (Inr r, em\<lparr>et_last := Some r, et_results := keep_result (et_max_results em) (et_results em) r\<rparr>, st')))"

section \<open>\<open>gate_and_emit\<close>\<close>

datatype gate_exn =
    GateBlockedError string "check_result list"
  | CallbackError
  | GateEmitError emit_exn

type_synonym escalation = "string \<Rightarrow> check_result list \<Rightarrow> bool"

definition gate_call :: "string \<Rightarrow> dict \<Rightarrow> json \<Rightarrow> string \<Rightarrow> string \<Rightarrow> check_result list \<Rightarrow> tool_call" where
  "gate_call action inputs output verdict status rs =
     \<lparr>tc_action = action, tc_input = JObj inputs, tc_output = output, tc_verdict = verdict,
      tc_effect = Some [(''type'', JStr action), (''status'', JStr status)], tc_prior = None, tc_model = None,
      tc_human_disposed = False, tc_approver = ''policy'', tc_decision = ''accept'', tc_relation = Some ''confirms'',
      tc_action_type = None, tc_runtime = None, tc_extra_compute = Some [(''gate_checks'', gate_checks rs)],
      tc_provenance_mode = None\<rparr>"

definition pass_through :: "json \<Rightarrow> (emit_exn + emit_result) \<times> 's \<Rightarrow> (gate_exn + json) \<times> 's" where
  "pass_through output = (\<lambda>(r, s). (case r of Inl e \<Rightarrow> Inl (GateEmitError e) | Inr _ \<Rightarrow> Inr output, s))"

text \<open>A callback that raises is \<open>True\<close>.\<close>

definition gate_and_emit ::
    "emit_ctx \<Rightarrow> string \<Rightarrow> constraint list \<Rightarrow> dict \<Rightarrow> json \<Rightarrow> escalation option \<Rightarrow> emitter \<times> emit_state \<Rightarrow>
     (gate_exn + json) \<times> emitter \<times> emit_state" where
  "gate_and_emit cx action cs inputs output on_block s =
     (let rs = run_gate cs inputs output in
      if gate_passed rs then pass_through output (emit_tool cx (gate_call action inputs output ''executed'' ''dispatched'' rs) s)
      else (case on_block of
              None \<Rightarrow> (Inl (GateBlockedError action rs), s)
            | Some raises \<Rightarrow>
                if raises action rs then (Inl CallbackError, s)
                else pass_through output (emit_tool cx (gate_call action inputs output ''blocked'' ''planned'' rs) s)))"

section \<open>What is sealed\<close>

lemma tool_args_Inr:
  assumes "tool_args em t = Inr a"
  shows "ea_verdict a = tc_verdict t" "ea_extra_compute a = tc_extra_compute t" "ea_effect a = tc_effect t"
    "ea_model a = (if tc_model t \<noteq> None then tc_model t else et_default_model em)" "ea_payload_members a = None"
    "\<not> ea_require_witness a"
  using assms by (auto simp: tool_args_def res_simps default_args_def)

lemma emit_tool_Inr:
  assumes "emit_tool cx t (em, st) = (Inr r, em', st')"
  obtains a where "tool_args em t = Inr a" "emit_capsule cx a st = (Inr r, st')" "et_last em' = Some r"
    "et_results em' = keep_result (et_max_results em) (et_results em) r"
  using assms by (auto simp: emit_tool_def emit_planned_def split: sum.splits prod.splits)

lemma dget_dict_update:
  "dget (dict_update d e) k = (case map_of (rev e) k of None \<Rightarrow> dget d k | Some v \<Rightarrow> v)"
  by (induction e rule: rev_induct) (auto simp: dict_update_def dget_dict_set)

text \<open>A member of \<open>extra_compute\<close> is in the compute attestation, whatever else is, unless the model names it too.\<close>

lemma compute_of_extra:
  assumes "ea_extra_compute a = Some e" "map_of (rev e) k = Some v" "\<And>m. ea_model a = Some m \<Longrightarrow> \<not> dhas m k"
  shows "dget (compute_of env a i out) k = v"
proof -
  have "map_of (rev (filter (\<lambda>(k, v). k \<notin> {''model_id'', ''provider''}) m)) k = None" if "ea_model a = Some m" for m
    using assms(3) [OF that] by (auto simp: map_of_eq_None_iff dhas_def)
  then show ?thesis
    using assms(1,2) by (auto simp: compute_of_def Let_def dget_dict_update split: option.splits)
qed

lemma build_args_compute:
  assumes "build_args_of env a L = Inr b"
  shows "\<exists>i out. b_compute b = (if compute_of env a i out = [] then None else Some (compute_of env a i out))"
proof -
  obtain p q refs where lk: "link_of a L = ((p, q), refs)" by (metis prod.collapse)
  show ?thesis
    using assms by (clarsimp simp: build_args_of_def res_simps Let_def lk split del: if_split) (intro exI, rule refl)
qed

text \<open>The compute attestation of the sealed object holds every member of \<open>extra_compute\<close>.\<close>

lemma sealed_compute:
  assumes "build_args_of env a L = Inr b" "ea_extra_compute a = Some e" "map_of (rev e) k = Some v" "v \<noteq> JNull"
    "\<And>m. ea_model a = Some m \<Longrightarrow> \<not> dhas m k"
  shows "\<exists>m c. xa_model (capsule_of env b) = Some m \<and> xm_compute m = Some c \<and> dget c k = v"
proof -
  obtain i out where c: "b_compute b = (if compute_of env a i out = [] then None else Some (compute_of env a i out))"
    using build_args_compute [OF assms(1)] by blast
  have v: "dget (compute_of env a i out) k = v" by (rule compute_of_extra [OF assms(2,3,5)])
  then have "compute_of env a i out \<noteq> []" using assms(4) by (auto simp: dget_def)
  then show ?thesis using c v by (auto simp: capsule_of_def Let_def model_attestation_of_def)
qed


section \<open>Reading the sealed capsule\<close>

fun null_free :: "json \<Rightarrow> bool" where
  "null_free JNull \<longleftrightarrow> False"
| "null_free (JArr vs) \<longleftrightarrow> list_all null_free vs"
| "null_free (JObj d) \<longleftrightarrow> list_all (\<lambda>(k, v). null_free v) d"
| "null_free _ \<longleftrightarrow> True"

text \<open>\<open>Capsule.seal\<close> writes the compute attestation; it may leave out null members.\<close>

definition seal_commits :: "emit_env \<Rightarrow> bool" where
  "seal_commits env \<longleftrightarrow> (\<forall>x base m c. em_seal env x = Inr base \<longrightarrow> xa_model x = Some m \<longrightarrow> xm_compute m = Some c \<longrightarrow>
     (\<exists>d c'. dget base ''model_attestation'' = JObj d \<and> dget d ''compute_attestation'' = JObj c' \<and>
        (\<forall>k. null_free (dget c k) \<longrightarrow> dget c' k = dget c k)))"

definition committed :: "dict \<Rightarrow> string \<Rightarrow> json option" where
  "committed c k = json_path (JObj c) [''model_attestation'', ''compute_attestation'', k]"

definition verdict_class :: "dict \<Rightarrow> json option" where
  "verdict_class c = json_path (JObj c) [''disposition'', ''verdict_class'']"

lemma json_path_get: "dget d k = v \<Longrightarrow> v \<noteq> JNull \<Longrightarrow> json_path (JObj d) (k # ks) = json_path v ks"
  using dget_absent [of d k] by auto

lemma sealed_verdict:
  assumes "emit_capsule cx a st = (Inr r, st')" "seal_writes (ec_env cx)" "ea_payload_members a = None"
  shows "verdict_class (er_capsule r) = Some (JStr (ea_verdict a))"
proof (rule emit_capsule_parts [OF assms(1)])
  fix b base
  let ?x = "capsule_of (ec_env cx) b"
  assume b: "build_args_of (ec_env cx) a (w_lines (es_world st)) = Inr b" "em_seal (ec_env cx) ?x = Inr base"
    and m: "\<And>k. k \<notin> set RESERVED_MEMBERS \<Longrightarrow> ea_payload_members a = None \<Longrightarrow> dget (er_capsule r) k = dget base k"
  have "xa_disposition ?x = Some (disposition_of a)" using build_args_Inr(2) [OF b(1)] by (simp add: capsule_of_def Let_def)
  then obtain d where "dget base ''disposition'' = JObj d" "dget d ''verdict_class'' = JStr (ea_verdict a)"
    using seal_writesD [OF assms(2) b(2)] by (auto simp: writes_members_def disposition_of_def)
  moreover have "dget (er_capsule r) ''disposition'' = dget base ''disposition''"
    by (rule m) (simp_all add: RESERVED_MEMBERS_def assms(3))
  ultimately show ?thesis by (simp add: verdict_class_def json_path_get del: json_path.simps(2))
qed

lemma sealed_extra:
  assumes "emit_capsule cx a st = (Inr r, st')" "seal_commits (ec_env cx)" "ea_payload_members a = None"
    "ea_extra_compute a = Some e" "map_of (rev e) k = Some v" "null_free v" "\<And>m. ea_model a = Some m \<Longrightarrow> \<not> dhas m k"
  shows "committed (er_capsule r) k = Some v"
proof (rule emit_capsule_parts [OF assms(1)])
  fix b base
  let ?x = "capsule_of (ec_env cx) b"
  assume b: "build_args_of (ec_env cx) a (w_lines (es_world st)) = Inr b" "em_seal (ec_env cx) ?x = Inr base"
    and m: "\<And>k. k \<notin> set RESERVED_MEMBERS \<Longrightarrow> ea_payload_members a = None \<Longrightarrow> dget (er_capsule r) k = dget base k"
  have v: "v \<noteq> JNull" using assms(6) by auto
  obtain ma c where c: "xa_model ?x = Some ma" "xm_compute ma = Some c" "dget c k = v"
    using sealed_compute [OF b(1) assms(4,5) v assms(7)] by blast
  then obtain d c' where "dget base ''model_attestation'' = JObj d" "dget d ''compute_attestation'' = JObj c'" "dget c' k = v"
    using assms(2) [unfolded seal_commits_def, rule_format, OF b(2) c(1,2)] assms(6) by auto
  moreover have "dget (er_capsule r) ''model_attestation'' = dget base ''model_attestation''"
    by (rule m) (simp_all add: RESERVED_MEMBERS_def assms(3))
  ultimately show ?thesis using v by (simp add: committed_def json_path_get del: json_path.simps(2))
qed

lemma gate_checks_null_free: "null_free (gate_checks rs)"
  by (auto simp: gate_checks_def check_dict_def opt_entry_def list_all_iff split: option.splits)

lemma emit_tool_gate:
  assumes "emit_tool cx (gate_call action inputs output verdict status rs) (em, st) = (Inr r, em', st')"
    "seal_writes (ec_env cx)" "seal_commits (ec_env cx)" "\<And>m. et_default_model em = Some m \<Longrightarrow> \<not> dhas m ''gate_checks''"
  shows "et_last em' = Some r" "er_capsule r \<in> set (w_lines (es_world st'))"
    "verdict_class (er_capsule r) = Some (JStr verdict)" "committed (er_capsule r) ''gate_checks'' = Some (gate_checks rs)"
proof -
  let ?t = "gate_call action inputs output verdict status rs"
  obtain a where a: "tool_args em ?t = Inr a" "emit_capsule cx a st = (Inr r, st')" and l: "et_last em' = Some r"
    by (rule emit_tool_Inr [OF assms(1)]) blast
  note t = tool_args_Inr [OF a(1)]
  show "et_last em' = Some r" by (rule l)
  show "er_capsule r \<in> set (w_lines (es_world st'))" using emit_writes_only_its_line [OF a(2) t(6)] by auto
  show "verdict_class (er_capsule r) = Some (JStr verdict)"
    using sealed_verdict [OF a(2) assms(2) t(5)] t(1) by (simp add: gate_call_def)
  show "committed (er_capsule r) ''gate_checks'' = Some (gate_checks rs)"
    by (rule sealed_extra [OF a(2) assms(3) t(5), of "[(''gate_checks'', gate_checks rs)]"])
      (use t(2,4) assms(4) gate_checks_null_free in \<open>auto simp: gate_call_def\<close>)
qed

lemma check_one_passed: "cr_passed (check_one inputs output c) \<longleftrightarrow> (\<exists>reason. cn_check c inputs output = Inr (True, reason))"
  by (auto simp: check_one_def split: sum.splits prod.splits)

lemma gate_checks_text:
  "gate_checks rs = JArr (map (\<lambda>c. JObj ([(''name'', JStr (cr_name c)), (''passed'', JBool (cr_passed c))] @
     (case cr_reason c of None \<Rightarrow> [] | Some why \<Rightarrow> [(''reason'', JStr why)]))) rs)"
  by (auto simp: gate_checks_def check_dict_def opt_entry_def split: option.splits)

section \<open>Properties\<close>

text \<open>C19: every constraint is run, in order, and an exception of one counts as not passed.  When all of them passed, the
  output comes back unchanged with a capsule of verdict \<open>executed\<close> on file, or sealing raised.  When one did not, the gate
  raises \<open>GateBlockedError\<close> with the results and seals nothing, unless the caller gave a callback: if that raises,
  nothing is sealed either, and if it returns, the output comes back with a capsule of verdict \<open>blocked\<close> on file.  The capsule
  on file names every constraint with what it said.\<close>

theorem gate_seals_what_was_checked:
  assumes "gate_and_emit cx action cs inputs output on_block (em, st) = (res, em', st')"
    "seal_writes (ec_env cx)" "seal_commits (ec_env cx)" "\<forall>m. et_default_model em = Some m \<longrightarrow> \<not> dhas m ''gate_checks''"
  shows "\<exists>rs. list_all2 (\<lambda>c r. cr_name r = cn_name c \<and>
        (case cn_check c inputs output of
           Inl exc \<Rightarrow> \<not> cr_passed r \<and> cr_reason r = Some (''constraint raised: '' @ exc)
         | Inr (passed, reason) \<Rightarrow> cr_passed r = passed \<and> cr_reason r = reason)) cs rs \<and>
    (let sealed = (\<lambda>verdict. case res of Inl e \<Rightarrow> (\<exists>x. e = GateEmitError x) | Inr out \<Rightarrow> out = output \<and>
          (\<exists>r. et_last em' = Some r \<and> er_capsule r \<in> set (w_lines (es_world st')) \<and>
             verdict_class (er_capsule r) = Some (JStr verdict) \<and>
             committed (er_capsule r) ''gate_checks'' = Some (JArr (map (\<lambda>c.
               JObj ([(''name'', JStr (cr_name c)), (''passed'', JBool (cr_passed c))] @
                 (case cr_reason c of None \<Rightarrow> [] | Some why \<Rightarrow> [(''reason'', JStr why)]))) rs))))
     in if \<forall>r \<in> set rs. cr_passed r then sealed ''executed''
        else (case on_block of
                None \<Rightarrow> res = Inl (GateBlockedError action rs) \<and> em' = em \<and> st' = st
              | Some raises \<Rightarrow> if raises action rs then res = Inl CallbackError \<and> em' = em \<and> st' = st
                              else sealed ''blocked''))"
proof (intro exI conjI)
  let ?rs = "run_gate cs inputs output"
  have model: "\<And>m. et_default_model em = Some m \<Longrightarrow> \<not> dhas m ''gate_checks''" using assms(4) by blast
  note tool = emit_tool_gate [where em = em, OF _ assms(2,3) model]
  show "list_all2 (\<lambda>c r. cr_name r = cn_name c \<and>
        (case cn_check c inputs output of
           Inl exc \<Rightarrow> \<not> cr_passed r \<and> cr_reason r = Some (''constraint raised: '' @ exc)
         | Inr (passed, reason) \<Rightarrow> cr_passed r = passed \<and> cr_reason r = reason)) cs ?rs"
    by (simp add: run_gate_def list_all2_conv_all_nth check_one_def split: sum.splits prod.splits)
  have all: "(\<forall>r \<in> set ?rs. cr_passed r) = gate_passed ?rs" by (simp add: gate_passed_def list_all_iff)
  show "let sealed = (\<lambda>verdict. case res of Inl e \<Rightarrow> (\<exists>x. e = GateEmitError x) | Inr out \<Rightarrow> out = output \<and>
          (\<exists>r. et_last em' = Some r \<and> er_capsule r \<in> set (w_lines (es_world st')) \<and>
             verdict_class (er_capsule r) = Some (JStr verdict) \<and>
             committed (er_capsule r) ''gate_checks'' = Some (JArr (map (\<lambda>c.
               JObj ([(''name'', JStr (cr_name c)), (''passed'', JBool (cr_passed c))] @
                 (case cr_reason c of None \<Rightarrow> [] | Some why \<Rightarrow> [(''reason'', JStr why)]))) ?rs))))
     in if \<forall>r \<in> set ?rs. cr_passed r then sealed ''executed''
        else (case on_block of
                None \<Rightarrow> res = Inl (GateBlockedError action ?rs) \<and> em' = em \<and> st' = st
              | Some raises \<Rightarrow> if raises action ?rs then res = Inl CallbackError \<and> em' = em \<and> st' = st
                              else sealed ''blocked'')"
    using assms(1) unfolding Let_def all gate_checks_text [symmetric]
    by (auto simp: gate_and_emit_def Let_def pass_through_def split: prod.splits sum.splits option.splits if_splits dest: tool)
qed

text \<open>The list of results keeps the newest ones up to its cap; the last result does not depend on the cap.\<close>

lemma keep_result_bound:
  "keep_result (Some n) rs r = drop (Suc (length rs) - n) (rs @ [r]) \<and> length (keep_result (Some n) rs r) \<le> n"
  by (simp add: keep_result_def Let_def)

section \<open>Witnesses\<close>

definition gate_members :: "aac_capsule \<Rightarrow> dict" where
  "gate_members x = review_members x
     @ (case xa_model x of None \<Rightarrow> []
        | Some m \<Rightarrow> [(''model_attestation'', JObj (case xm_compute m of None \<Rightarrow> [] | Some c \<Rightarrow> [(''compute_attestation'', JObj c)]))])"

definition gate_cx :: emit_ctx where
  "gate_cx = pickup_cx\<lparr>ec_env := pickup_env
     \<lparr>em_seal := (\<lambda>x. Inr (gate_members x)), em_jcs := (\<lambda>d. case dget d ''action_id'' of JStr s \<Rightarrow> s | _ \<Rightarrow> []),
      em_sha256 := (\<lambda>b. replicate 64 (if length b < 6 then CHR ''1'' else CHR ''2''))\<rparr>\<rparr>"

lemma gate_members_get: "k \<noteq> ''model_attestation'' \<Longrightarrow> dget (gate_members x) k = dget (review_members x) k"
  by (auto simp: gate_members_def dget_def map_add_def split: option.splits)

lemma gate_seal_writes: "seal_writes (ec_env gate_cx)"
  using review_writes [unfolded writes_members_def]
  by (simp add: seal_writes_def gate_cx_def writes_members_def gate_members_get cong: option.case_cong)

lemma gate_seal_commits: "seal_commits (ec_env gate_cx)"
proof -
  have "dget (review_members x) ''model_attestation'' = JNull" for x
    by (cases "xa_chain x"; cases "xa_disposition x"; cases "xa_effect x")
      (simp_all add: review_members_def seal_members_def dget_def)
  then have "map_of (review_members x) ''model_attestation'' = None" for x
    by (cases "xa_chain x"; cases "xa_disposition x"; cases "xa_effect x")
      (simp_all add: review_members_def seal_members_def dget_def)
  then show ?thesis by (auto simp: seal_commits_def gate_cx_def gate_members_def dget_def map_add_def)
qed

definition plain_text :: py_text where
  "plain_text = \<lparr>pt_show = (\<lambda>_. ''v''), pt_float_less = (\<lambda>_ _. False), pt_type_error = (\<lambda>_. ''e'')\<rparr>"

definition gate_emitter :: emitter where
  "gate_emitter = \<lparr>et_operator = ''o'', et_developer = ''d'', et_anchor_arg = None, et_anchor_url = None, et_anchor_wait = False,
     et_default_model = None, et_max_results = Some 2, et_last = None, et_results = []\<rparr>"

abbreviation order_constraints :: "constraint list" where
  "order_constraints \<equiv> [amount_under_cap plain_text 5000, vendor_known plain_text [''Acme'']]"

abbreviation order_inputs :: dict where
  "order_inputs \<equiv> [(''amount'', JInt 1200), (''vendor'', JStr ''Evil'')]"

lemma vendor_fails:
  assumes "list_all2 (\<lambda>c r. cr_name r = cn_name c \<and>
        (case cn_check c order_inputs JNull of
           Inl exc \<Rightarrow> \<not> cr_passed r \<and> cr_reason r = Some (''constraint raised: '' @ exc)
         | Inr (passed, reason) \<Rightarrow> cr_passed r = passed \<and> cr_reason r = reason)) order_constraints rs"
  shows "\<not> (\<forall>r \<in> set rs. cr_passed r)"
proof -
  have "map_sum id fst (cn_check (vendor_known plain_text [''Acme'']) order_inputs JNull) = Inr False" by code_simp
  then obtain why where "cn_check (vendor_known plain_text [''Acme'']) order_inputs JNull = Inr (False, why)"
    by (cases "cn_check (vendor_known plain_text [''Acme'']) order_inputs JNull") auto
  then show ?thesis using assms by (auto simp: list_all2_Cons1)
qed

lemma gate_seals_what_was_checked_witness:
  "\<exists>em' st' r. gate_and_emit gate_cx ''write_po'' order_constraints order_inputs JNull (Some (\<lambda>_ _. False))
       (gate_emitter, pickup_state) = (Inr JNull, em', st') \<and>
     et_last em' = Some r \<and> verdict_class (er_capsule r) = Some (JStr ''blocked'')"
proof -
  let ?g = "gate_and_emit gate_cx ''write_po'' order_constraints order_inputs JNull (Some (\<lambda>_ _. False)) (gate_emitter, pickup_state)"
  have "fst ?g = Inr JNull" by code_simp
  then obtain em' st' where g: "?g = (Inr JNull, em', st')" by (metis prod.collapse)
  have "\<forall>m. et_default_model gate_emitter = Some m \<longrightarrow> \<not> dhas m ''gate_checks''" by (simp add: gate_emitter_def)
  note sealed = gate_seals_what_was_checked [OF g gate_seal_writes gate_seal_commits this]
  have "\<exists>r. et_last em' = Some r \<and> verdict_class (er_capsule r) = Some (JStr ''blocked'')"
    using sealed by (elim exE conjE) (frule vendor_fails, simp only: Let_def sum.case option.case if_False, blast)
  with g show ?thesis by blast
qed

end
