(* ===== verification/Surface.thy ===== *)
theory Surface
  imports Gate Python_Text "HOL-Library.Multiset"
begin

text \<open>
  \<open>surface.py\<close>: \<open>seal\<close>, \<open>received\<close>, the slot wrappers and \<open>log\<close> over the emission of \<open>Emit\<close>.  The keywords that a call
  passes through are the names it gave and the arguments of the emission that they make.  The digest of a capsule object
  that is sealed as a payload goes through the \<open>str\<close> fallback of \<open>_digest\<close>; the value that it stands for is \<open>fallback\<close>.
\<close>

section \<open>Slots\<close>

definition SLOTS :: "string list" where
  "SLOTS = [''who'', ''can'', ''did'', ''audit'']"

datatype seal_value = Authored json | RawBytes string | Held emit_result

datatype seal_arg = Payload seal_value | Slotted string seal_value

definition slot_wrapper :: "string \<Rightarrow> seal_value \<Rightarrow> emit_exn + seal_arg" where
  "slot_wrapper slot v = (case v of RawBytes _ \<Rightarrow> Inl EmitTypeError | _ \<Rightarrow> Inr (Slotted slot v))"

fun index_of :: "string \<Rightarrow> string list \<Rightarrow> nat" where
  "index_of s [] = 0"
| "index_of s (t # ts) = (if s = t then 0 else Suc (index_of s ts))"

text \<open>\<open>capsule.get("model_attestation", {}).get("compute_attestation", {}).get("carried_artifact")\<close>.\<close>

definition get_dict :: "dict \<Rightarrow> string \<Rightarrow> emit_exn + dict" where
  "get_dict d k = (case dget_default d k (JObj []) of JObj e \<Rightarrow> Inr e | _ \<Rightarrow> Inl EmitAttributeError)"

definition carried_artifact_ref :: "emit_result \<Rightarrow> emit_exn + json" where
  "carried_artifact_ref r =
     sbind (get_dict (er_capsule r) ''model_attestation'') (\<lambda>m.
     sbind (get_dict m ''compute_attestation'') (\<lambda>c. Inr (dget c ''carried_artifact'')))"

section \<open>Keywords\<close>

record seal_keywords =
  kw_names :: "string list"
  kw_args :: emit_args

definition payload_opt :: "json \<Rightarrow> json option" where
  "payload_opt v = (if v = JNull then None else Some v)"

definition extra_of :: "emit_args \<Rightarrow> dict" where
  "extra_of a = (case ea_extra_compute a of None \<Rightarrow> [] | Some d \<Rightarrow> d)"

definition mint :: "emit_ctx \<Rightarrow> emit_args \<Rightarrow> string \<Rightarrow> json \<Rightarrow> emit_state \<Rightarrow> (emit_exn + emit_result) \<times> emit_state" where
  "mint cx a action payload st = emit_capsule cx (a\<lparr>ea_action := action, ea_input := payload_opt payload\<rparr>) st"

section \<open>Composition\<close>

text \<open>Members are resolved one after the other; one that raises leaves the capsules minted before it in the ledger.\<close>

fun resolve_members ::
    "emit_ctx \<Rightarrow> emit_args \<Rightarrow> (string \<times> seal_value) list \<Rightarrow> emit_state \<Rightarrow> (emit_exn + emit_result list) \<times> emit_state" where
  "resolve_members cx a [] st = (Inr [], st)"
| "resolve_members cx a ((slot, v) # ms) st =
     (case (case v of
              Held r \<Rightarrow> (Inr r, st)
            | Authored payload \<Rightarrow> mint cx a slot payload st
            | RawBytes _ \<Rightarrow> (Inl EmitTypeError, st)) of
        (Inl e, st1) \<Rightarrow> (Inl e, st1)
      | (Inr r, st1) \<Rightarrow>
          (case resolve_members cx a ms st1 of
             (Inl e, st2) \<Rightarrow> (Inl e, st2)
           | (Inr rs, st2) \<Rightarrow> (Inr (r # rs), st2)))"

text \<open>\<open>slots[capsule.capsule_id] = member.slot\<close>: the last member of an id counts.\<close>

definition slot_map :: "(string \<times> seal_value) list \<Rightarrow> emit_result list \<Rightarrow> string \<Rightarrow> string option" where
  "slot_map ms rs = map_of (rev (zip (map er_capsule_id rs) (map fst ms)))"

definition slot_rank :: "(string \<Rightarrow> string option) \<Rightarrow> emit_result \<Rightarrow> nat" where
  "slot_rank slots r = (case slots (er_capsule_id r) of None \<Rightarrow> length SLOTS | Some s \<Rightarrow> index_of s SLOTS)"

definition member_ref :: "(string \<Rightarrow> string option) \<Rightarrow> emit_result \<Rightarrow> json" where
  "member_ref slots r =
     JObj ([(''type'', JStr ''capsule''), (''digest_alg'', JStr ''SHA-256''), (''digest'', JStr (er_capsule_id r))]
       @ opt_entry ''slot'' (slots (er_capsule_id r)))"

definition compose_args :: "emit_args \<Rightarrow> (string \<Rightarrow> string option) \<Rightarrow> emit_result list \<Rightarrow> emit_exn + emit_args" where
  "compose_args a slots members =
     sbind (ensure (members \<noteq> []) EmitValueError) (\<lambda>_.
       Inr (a\<lparr>ea_action := ''compose'',
              ea_extra_compute := Some (dict_set (extra_of a) ''composed_members'' (JArr (map (member_ref slots) members)))\<rparr>))"

definition seal_slots ::
    "emit_ctx \<Rightarrow> emit_args \<Rightarrow> (string \<times> seal_value) list \<Rightarrow> emit_state \<Rightarrow> (emit_exn + emit_result) \<times> emit_state" where
  "seal_slots cx a ms st =
     (case resolve_members cx (a\<lparr>ea_references := None\<rparr>) ms st of
        (Inl e, st1) \<Rightarrow> (Inl e, st1)
      | (Inr rs, st1) \<Rightarrow>
          let slots = slot_map ms rs in
          emit_planned cx (compose_args a slots (sort_key (slot_rank slots) rs)) st1)"

section \<open>\<open>seal\<close>\<close>

definition is_slotted :: "seal_arg \<Rightarrow> bool" where
  "is_slotted x = (case x of Slotted _ _ \<Rightarrow> True | Payload _ \<Rightarrow> False)"

definition slot_members :: "seal_arg list \<Rightarrow> (string \<times> seal_value) list" where
  "slot_members xs = concat (map (\<lambda>x. case x of Slotted s v \<Rightarrow> [(s, v)] | Payload _ \<Rightarrow> []) xs)"

definition seal ::
    "emit_ctx \<Rightarrow> (emit_result \<Rightarrow> json) \<Rightarrow> seal_arg list \<Rightarrow> string option \<Rightarrow> seal_keywords \<Rightarrow> emit_state \<Rightarrow>
     (emit_exn + emit_result) \<times> emit_state" where
  "seal cx fallback xs action kw st =
     (let resolved_action = (case action of None \<Rightarrow> ''seal'' | Some a \<Rightarrow> a) in
      if xs = [] then (Inl EmitTypeError, st)
      else if list_ex is_slotted xs then
        (if \<not> list_all is_slotted xs \<or> action \<noteq> None then (Inl EmitTypeError, st)
         else seal_slots cx (kw_args kw) (slot_members xs) st)
      else if 1 < length xs then (Inl EmitTypeError, st)
      else (case hd xs of
              Payload (RawBytes _) \<Rightarrow> (Inl EmitTypeError, st)
            | Payload (Authored v) \<Rightarrow> mint cx (kw_args kw) resolved_action v st
            | Payload (Held r) \<Rightarrow>
                (case carried_artifact_ref r of
                   Inl e \<Rightarrow> (Inl e, st)
                 | Inr carried \<Rightarrow>
                     if carried = JNull then mint cx (kw_args kw) resolved_action (fallback r) st
                     else if kw_names kw \<noteq> [] \<or> action \<noteq> None then (Inl EmitTypeError, st)
                     else (Inr r, st))
            | Slotted _ _ \<Rightarrow> (Inl EmitTypeError, st)))"

section \<open>\<open>received\<close> and \<open>log\<close>\<close>

datatype artifact = Octets string | NoBuffer

definition coerce_artifact :: "artifact \<Rightarrow> emit_exn + string" where
  "coerce_artifact v = (case v of Octets b \<Rightarrow> Inr b | NoBuffer \<Rightarrow> Inl EmitTypeError)"

text \<open>The declared type is \<open>None\<close> when it is not a string.\<close>

definition carry_args :: "emit_env \<Rightarrow> artifact \<Rightarrow> string option \<Rightarrow> string \<Rightarrow> emit_args \<Rightarrow> emit_exn + emit_args" where
  "carry_args env v carried_type action a =
     (case carried_type of
        None \<Rightarrow> Inl EmitTypeError
      | Some t \<Rightarrow>
          if blank t then Inl EmitTypeError
          else sbind (coerce_artifact v) (\<lambda>raw.
            let d = em_sha256 env raw;
                ref = JObj [(''type'', JStr t), (''digest_alg'', JStr ''SHA-256''), (''digest'', JStr d)]
            in Inr (a\<lparr>ea_action := action,
                  ea_extra_compute := Some (dict_set (dict_set (extra_of a) ''carried_artifact'' ref) ''carried_input_digest'' (JStr d))\<rparr>)))"

definition received ::
    "emit_ctx \<Rightarrow> artifact \<Rightarrow> string option \<Rightarrow> string \<Rightarrow> emit_args \<Rightarrow> emit_state \<Rightarrow> (emit_exn + emit_result) \<times> emit_state" where
  "received cx v carried_type action a st = emit_planned cx (carry_args (ec_env cx) v carried_type action a) st"

definition log_artifact :: "emit_ctx \<Rightarrow> artifact \<Rightarrow> string \<Rightarrow> log_args \<Rightarrow> emit_state \<Rightarrow> (emit_exn + log_entry) \<times> emit_state" where
  "log_artifact cx v action a st =
     (case coerce_artifact v of
        Inl e \<Rightarrow> (Inl e, st)
      | Inr raw \<Rightarrow> emit_log_entry cx (a\<lparr>la_action := action, la_log_digest := em_sha256 (ec_env cx) raw\<rparr>) st)"


section \<open>What a composition cites\<close>

lemma resolve_members_Inr:
  assumes "resolve_members cx a ms st = (Inr rs, st')"
  shows "list_all2 (\<lambda>(s, v) r. case v of Held h \<Rightarrow> r = h
        | Authored _ \<Rightarrow> er_capsule r \<in> set (w_lines (es_world st')) \<and> dget (er_capsule r) ''capsule_id'' = JStr (er_capsule_id r)
        | RawBytes _ \<Rightarrow> False)
      ms rs \<and> prefix (w_lines (es_world st)) (w_lines (es_world st'))"
  using assms
proof (induction cx a ms st arbitrary: rs st' rule: resolve_members.induct)
  case (2 cx a slot v ms st)
  let ?one = "case v of Held r \<Rightarrow> (Inr r, st) | Authored payload \<Rightarrow> mint cx a slot payload st | RawBytes _ \<Rightarrow> (Inl EmitTypeError, st)"
  obtain r st1 rs' where r: "?one = (Inr r, st1)" "resolve_members cx a ms st1 = (Inr rs', st')" "rs = r # rs'"
    using "2.prems" by (auto split: prod.splits sum.splits)
  note ih = "2.IH" [OF r(1) [symmetric] refl r(2)]
  have "prefix (w_lines (es_world st)) (w_lines (es_world st1)) \<and>
      (case v of Held h \<Rightarrow> r = h
        | Authored _ \<Rightarrow> er_capsule r \<in> set (w_lines (es_world st1)) \<and> dget (er_capsule r) ''capsule_id'' = JStr (er_capsule_id r)
        | RawBytes _ \<Rightarrow> False)"
    using r(1) emit_on_file emitted_id by (fastforce simp: mint_def split: seal_value.splits)
  moreover have "set (w_lines (es_world st1)) \<subseteq> set (w_lines (es_world st'))"
    using ih set_mono_prefix by blast
  ultimately show ?case using ih r(3) by (auto split: seal_value.splits intro: prefix_order.trans)
qed simp

lemma member_ref_null_free: "null_free (member_ref slots r)"
  by (auto simp: member_ref_def opt_entry_def split: option.splits)

abbreviation keys_ok :: "dict \<Rightarrow> bool" where
  "keys_ok d \<equiv> distinct (map fst d)"

lemma keys_ok_dict_set: "keys_ok d \<Longrightarrow> keys_ok (dict_set d k v)"
proof (induction d k v rule: dict_set.induct)
  case (2 k' v' d k v)
  then show ?case using keys_dict_set [of d k v] by auto
qed simp

lemma map_of_rev_keys: "distinct (map fst d) \<Longrightarrow> map_of (rev d) = map_of d"
  by (rule ext) (metis distinct_rev map_of_eq_Some_iff not_None_eq rev_map set_rev)

lemma json_path_step:
  "json_path (JObj d) (k # ks) = Some v \<Longrightarrow> dhas d k \<and> json_path (dget d k) ks = Some v"
  by (simp split: if_splits)

lemma json_path_obj: "json_path w (k # ks) = Some v \<Longrightarrow> \<exists>d. w = JObj d"
  by (cases w) simp_all

lemma committed_is_carried:
  assumes "committed (er_capsule r) ''carried_artifact'' = Some v"
  shows "carried_artifact_ref r = Inr v"
proof -
  let ?c = "er_capsule r"
  obtain m where m: "dhas ?c ''model_attestation''" "dget ?c ''model_attestation'' = JObj m"
    "json_path (JObj m) [''compute_attestation'', ''carried_artifact''] = Some v"
    using json_path_step [OF assms [unfolded committed_def]] json_path_obj by metis
  obtain c where c: "dhas m ''compute_attestation''" "dget m ''compute_attestation'' = JObj c"
    "json_path (JObj c) [''carried_artifact''] = Some v"
    using json_path_step [OF m(3)] json_path_obj by metis
  show ?thesis
    using m c json_path_step [OF c(3)] by (simp add: carried_artifact_ref_def get_dict_def dget_default_def)
qed

text \<open>The keywords of a call: dicts without repeated keys, no profile members, and no model chip called \<open>k\<close>.\<close>

definition plain_keywords :: "string list \<Rightarrow> emit_args \<Rightarrow> bool" where
  "plain_keywords ks a \<longleftrightarrow>
     keys_ok (extra_of a) \<and> ea_payload_members a = None \<and> (\<forall>m. ea_model a = Some m \<longrightarrow> (\<forall>k \<in> set ks. \<not> dhas m k))"

text \<open>Sorting by a rank below \<open>n\<close> is putting the ranks one after the other, each in the order of the list.\<close>

lemma mset_by_rank:
  "mset (concat (map (\<lambda>k. filter (\<lambda>x. f x = k) xs) [0..<n])) = mset (filter (\<lambda>x. f x < n) xs)"
proof (induction n)
  case (Suc n)
  have "mset (filter (\<lambda>x. f x < n) xs) + mset (filter (\<lambda>x. f x = n) xs) = mset (filter (\<lambda>x. f x < Suc n) xs)"
    by (induction xs) (auto simp: less_Suc_eq)
  with Suc show ?case by simp
qed simp

lemma filter_by_rank:
  "filter (\<lambda>x. k = f x) (concat (map (\<lambda>k. filter (\<lambda>x. f x = k) xs) [0..<n])) = (if k < n then filter (\<lambda>x. k = f x) xs else [])"
  by (induction n) (auto simp: filter_concat intro: filter_cong filter_False)

lemma sorted_by_rank: "sorted (map f (concat (map (\<lambda>k. filter (\<lambda>x. f x = k) xs) [0..<n])))"
proof (induction n)
  case (Suc n)
  have "sorted (map f (filter (\<lambda>x. f x = n) xs))" by (induction xs) auto
  with Suc show ?case by (auto simp: sorted_append)
qed simp

lemma sort_key_by_rank:
  assumes "\<And>x. x \<in> set xs \<Longrightarrow> f x < (n :: nat)"
  shows "sort_key f xs = concat (map (\<lambda>k. filter (\<lambda>x. f x = k) xs) [0..<n])"
proof (rule properties_for_sort_key)
  show "mset (concat (map (\<lambda>k. filter (\<lambda>x. f x = k) xs) [0..<n])) = mset xs"
    using assms by (simp add: mset_by_rank filter_id_conv [THEN iffD2])
  show "filter (\<lambda>x. f k = f x) (concat (map (\<lambda>k. filter (\<lambda>x. f x = k) xs) [0..<n])) = filter (\<lambda>x. f k = f x) xs"
    if "k \<in> set (concat (map (\<lambda>k. filter (\<lambda>x. f x = k) xs) [0..<n]))" for k
    using that assms by (auto simp: filter_by_rank)
  show "sorted (map f (concat (map (\<lambda>k. filter (\<lambda>x. f x = k) xs) [0..<n])))" by (rule sorted_by_rank)
qed

text \<open>Every member has a slot, the one that was named last for its id.\<close>

lemma slot_of_member:
  assumes "length ms = length rs" "i < length rs"
  obtains j where "j < length rs" "slot_map ms rs (er_capsule_id (rs ! i)) = Some (fst (ms ! j))"
    "er_capsule_id (rs ! j) = er_capsule_id (rs ! i)" "\<forall>k < length rs. j < k \<longrightarrow> er_capsule_id (rs ! k) \<noteq> er_capsule_id (rs ! i)"
proof -
  let ?J = "{j. j < length rs \<and> er_capsule_id (rs ! j) = er_capsule_id (rs ! i)}"
  have fin: "finite ?J" "?J \<noteq> {}" using assms(2) by auto
  let ?j = "Max ?J"
  have j: "?j < length rs" "er_capsule_id (rs ! ?j) = er_capsule_id (rs ! i)" using Max_in [OF fin] by simp_all
  have last: "er_capsule_id (rs ! k) \<noteq> er_capsule_id (rs ! i)" if "k < length rs" "?j < k" for k
    using Max_ge [OF fin(1), of k] that by fastforce
  let ?z = "zip (map er_capsule_id rs) (map fst ms)"
  have split: "?z = take ?j ?z @ (er_capsule_id (rs ! i), fst (ms ! ?j)) # drop (Suc ?j) ?z"
    using j assms(1) id_take_nth_drop [of ?j ?z] by simp
  have "map_of (rev (drop (Suc ?j) ?z)) (er_capsule_id (rs ! i)) = None"
  proof (rule ccontr)
    assume "map_of (rev (drop (Suc ?j) ?z)) (er_capsule_id (rs ! i)) \<noteq> None"
    then obtain k where "k < length (drop (Suc ?j) ?z)" "fst (drop (Suc ?j) ?z ! k) = er_capsule_id (rs ! i)"
      by (auto simp: map_of_eq_None_iff in_set_conv_nth)
    then have "Suc ?j + k < length rs" "er_capsule_id (rs ! (Suc ?j + k)) = er_capsule_id (rs ! i)" using assms(1) by auto
    then show False using last [of "Suc ?j + k"] by simp
  qed
  then have "slot_map ms rs (er_capsule_id (rs ! i)) = Some (fst (ms ! ?j))"
    unfolding slot_map_def by (subst split) (simp add: map_add_def)
  then show thesis using that j last by blast
qed

abbreviation citation :: "emit_result \<times> string \<Rightarrow> json" where
  "citation x \<equiv> JObj [(''type'', JStr ''capsule''), (''digest_alg'', JStr ''SHA-256''),
     (''digest'', JStr (er_capsule_id (fst x))), (''slot'', JStr (snd x))]"

lemma index_of_nth: "s \<in> set xs \<Longrightarrow> index_of s xs < length xs \<and> xs ! index_of s xs = s"
  by (induction xs) auto

lemma index_of_slots:
  assumes "s \<in> {''who'', ''can'', ''did'', ''audit''}"
  shows "index_of s SLOTS < 4" "k < 4 \<Longrightarrow> index_of s SLOTS = k \<longleftrightarrow> s = [''who'', ''can'', ''did'', ''audit''] ! k"
proof -
  have S: "SLOTS = [''who'', ''can'', ''did'', ''audit'']" "length SLOTS = 4" "distinct SLOTS" by code_simp+
  have "s \<in> set SLOTS" unfolding S(1) using assms by auto
  note i = index_of_nth [OF this]
  then show "index_of s SLOTS < 4" using S(2) by simp
  assume "k < 4"
  then show "index_of s SLOTS = k \<longleftrightarrow> s = [''who'', ''can'', ''did'', ''audit''] ! k"
    unfolding S(1) [symmetric] using i S(2,3) by (metis nth_eq_iff_index_eq)
qed

lemma seal_slots_Inr:
  assumes "seal cx fallback (map (\<lambda>(s, v). Slotted s v) ms) None kw st = (Inr r, st')" "ms \<noteq> []"
  obtains rs st1 p where "resolve_members cx ((kw_args kw)\<lparr>ea_references := None\<rparr>) ms st = (Inr rs, st1)"
    "compose_args (kw_args kw) (slot_map ms rs) (sort_key (slot_rank (slot_map ms rs)) rs) = Inr p" "emit_capsule cx p st1 = (Inr r, st')"
proof -
  have "slot_members (map (\<lambda>(s, v). Slotted s v) ms) = ms" by (induction ms) (auto simp: slot_members_def)
  moreover have "list_all is_slotted (map (\<lambda>(s, v). Slotted s v) ms)" "list_ex is_slotted (map (\<lambda>(s, v). Slotted s v) ms)"
    using assms(2) by (cases ms; auto simp: is_slotted_def list_all_iff)+
  ultimately have "seal_slots cx (kw_args kw) ms st = (Inr r, st')" using assms by (simp add: seal_def)
  then show thesis
    using that by (auto simp: seal_slots_def emit_planned_def Let_def split: prod.splits sum.splits)
qed

lemma committed_members:
  assumes "compose_args a slots members = Inr p" "emit_capsule cx p st = (Inr r, st')"
    "seal_commits (ec_env cx)" "plain_keywords [''composed_members''] a"
  shows "committed (er_capsule r) ''composed_members'' = Some (JArr (map (member_ref slots) members))"
proof -
  have p: "ea_payload_members p = ea_payload_members a" "ea_model p = ea_model a"
    "ea_extra_compute p = Some (dict_set (extra_of a) ''composed_members'' (JArr (map (member_ref slots) members)))"
    using assms(1) by (auto simp: compose_args_def res_simps)
  have kw: "keys_ok (extra_of a)" "ea_payload_members a = None" "\<And>m. ea_model a = Some m \<Longrightarrow> \<not> dhas m ''composed_members''"
    using assms(4) by (auto simp: plain_keywords_def)
  show ?thesis
    by (rule sealed_extra [OF assms(2,3) _ p(3)])
      (use p kw member_ref_null_free in \<open>auto simp: map_of_rev_keys keys_ok_dict_set map_of_dict_set list_all_iff\<close>)
qed

text \<open>The capsules with their slots in the order of the citations.\<close>

lemma cited_in_slot_order:
  assumes "length ms = length rs" "fst ` set ms \<subseteq> {''who'', ''can'', ''did'', ''audit''}"
  defines "slots \<equiv> slot_map ms rs"
  defines "cited \<equiv> map (\<lambda>c. (c, the (slots (er_capsule_id c)))) (sort_key (slot_rank slots) rs)"
  shows "map (member_ref slots) (sort_key (slot_rank slots) rs) = map citation cited"
    and "mset (map fst cited) = mset rs"
    and "\<exists>n\<^sub>1 n\<^sub>2 n\<^sub>3 n\<^sub>4. map snd cited =
      replicate n\<^sub>1 ''who'' @ replicate n\<^sub>2 ''can'' @ replicate n\<^sub>3 ''did'' @ replicate n\<^sub>4 ''audit''"
    and "distinct (map er_capsule_id rs) \<Longrightarrow>
      cited = concat (map (\<lambda>s. filter (\<lambda>(c, t). t = s) (zip rs (map fst ms))) [''who'', ''can'', ''did'', ''audit''])"
proof -
  let ?slot = "\<lambda>c. the (slots (er_capsule_id c))" and ?S = "[''who'', ''can'', ''did'', ''audit'']"
  have slot: "slots (er_capsule_id c) = Some (?slot c) \<and> ?slot c \<in> {''who'', ''can'', ''did'', ''audit''}" if c: "c \<in> set rs" for c
  proof -
    obtain i where i: "i < length rs" "rs ! i = c" using c by (auto simp: in_set_conv_nth)
    obtain j where "j < length rs" "slots (er_capsule_id c) = Some (fst (ms ! j))"
      unfolding slots_def by (rule slot_of_member [OF assms(1) i(1), unfolded i(2)])
    moreover from this have "fst (ms ! j) \<in> fst ` set ms" using assms(1) by simp
    ultimately show ?thesis using assms(2) by auto
  qed
  have rank: "slot_rank slots c = index_of (?slot c) SLOTS" if "c \<in> set rs" for c
    unfolding slot_rank_def by (subst conjunct1 [OF slot [OF that]]) simp
  have ref: "member_ref slots c = citation (c, ?slot c)" if "c \<in> set rs" for c
    unfolding member_ref_def by (subst conjunct1 [OF slot [OF that]]) (simp add: opt_entry_def)
  show "map (member_ref slots) (sort_key (slot_rank slots) rs) = map citation cited"
    by (simp add: cited_def ref)
  show "mset (map fst cited) = mset rs" by (simp add: cited_def comp_def)
  have "slot_rank slots c < 4" if "c \<in> set rs" for c
    using index_of_slots(1) [OF conjunct2 [OF slot [OF that]]] rank [OF that] by simp
  then have sorted: "sort_key (slot_rank slots) rs = concat (map (\<lambda>k. filter (\<lambda>c. slot_rank slots c = k) rs) [0..<4])"
    by (rule sort_key_by_rank)
  have bucket: "filter (\<lambda>c. slot_rank slots c = k) rs = filter (\<lambda>c. ?slot c = ?S ! k) rs" if "k < 4" for k
    using rank index_of_slots(2) [OF conjunct2 [OF slot] that] by (intro filter_cong refl) simp
  have four: "[0..<4] = [0, 1, 2, 3 :: nat]" by (simp add: upt_rec)
  have sort: "sort_key (slot_rank slots) rs = concat (map (\<lambda>s. filter (\<lambda>c. ?slot c = s) rs) ?S)"
    by (simp add: sorted four bucket)
  have buckets: "cited = concat (map (\<lambda>s. filter (\<lambda>(c, t). t = s) (map (\<lambda>c. (c, ?slot c)) rs)) ?S)"
    unfolding cited_def sort by (simp add: filter_map comp_def)
  have same: "map ?slot (filter (\<lambda>c. ?slot c = s) rs) = replicate (length (filter (\<lambda>c. ?slot c = s) rs)) s" for s
    by (induction rs) auto
  have "map snd cited = map ?slot (concat (map (\<lambda>s. filter (\<lambda>c. ?slot c = s) rs) ?S))"
    unfolding cited_def sort by (simp add: comp_def)
  then show "\<exists>n\<^sub>1 n\<^sub>2 n\<^sub>3 n\<^sub>4. map snd cited =
      replicate n\<^sub>1 ''who'' @ replicate n\<^sub>2 ''can'' @ replicate n\<^sub>3 ''did'' @ replicate n\<^sub>4 ''audit''"
    by (simp add: same) blast
  assume d: "distinct (map er_capsule_id rs)"
  have "map (\<lambda>c. (c, ?slot c)) rs = zip rs (map fst ms)"
  proof (rule nth_equalityI)
    fix i
    assume i: "i < length (map (\<lambda>c. (c, ?slot c)) rs)"
    then have il: "i < length rs" by simp
    then obtain j where "j < length rs" "slots (er_capsule_id (rs ! i)) = Some (fst (ms ! j))" "er_capsule_id (rs ! j) = er_capsule_id (rs ! i)"
      unfolding slots_def by (rule slot_of_member [OF assms(1)])
    moreover from this have "j = i" using nth_eq_iff_index_eq [OF d, of j i] il by simp
    ultimately show "map (\<lambda>c. (c, ?slot c)) rs ! i = zip rs (map fst ms) ! i" using i assms(1) by simp
  qed (simp add: assms(1))
  with buckets show "cited = concat (map (\<lambda>s. filter (\<lambda>(c, t). t = s) (zip rs (map fst ms))) ?S)" by simp
qed

text \<open>C20: a composition capsule cites exactly its members, each with its identifier and its slot, in the order who, can, did,
  audit: each capsule that the caller held, as it is, and each payload, minted and on file before it.  When no capsule is in
  two slots every citation carries the slot that the caller declared, and within a slot the order of the call is kept; a
  capsule that is in two slots is cited in the one that was named last.\<close>

theorem composition_cites_its_members:
  assumes "seal cx fallback (map (\<lambda>(s, v). Slotted s v) ms) None kw st = (Inr r, st')" "ms \<noteq> []"
    "fst ` set ms \<subseteq> {''who'', ''can'', ''did'', ''audit''}"
    "seal_commits (ec_env cx)" "plain_keywords [''composed_members''] (kw_args kw)"
  shows "\<exists>rs cited.
      list_all2 (\<lambda>(s, v) c. case v of Held h \<Rightarrow> c = h
        | Authored _ \<Rightarrow> er_capsule c \<in> set (w_lines (es_world st')) \<and> dget (er_capsule c) ''capsule_id'' = JStr (er_capsule_id c)
        | RawBytes _ \<Rightarrow> False) ms rs \<and>
      committed (er_capsule r) ''composed_members'' = Some (JArr (map (\<lambda>(c, s).
        JObj [(''type'', JStr ''capsule''), (''digest_alg'', JStr ''SHA-256''), (''digest'', JStr (er_capsule_id c)),
              (''slot'', JStr s)]) cited)) \<and>
      mset (map fst cited) = mset rs \<and>
      (\<exists>n\<^sub>1 n\<^sub>2 n\<^sub>3 n\<^sub>4. map snd cited =
      replicate n\<^sub>1 ''who'' @ replicate n\<^sub>2 ''can'' @ replicate n\<^sub>3 ''did'' @ replicate n\<^sub>4 ''audit'') \<and>
      (\<forall>(c, s) \<in> set cited. \<exists>j < length rs. er_capsule_id (rs ! j) = er_capsule_id c \<and> s = fst (ms ! j) \<and>
         (\<forall>k < length rs. j < k \<longrightarrow> er_capsule_id (rs ! k) \<noteq> er_capsule_id c)) \<and>
      (distinct (map er_capsule_id rs) \<longrightarrow>
         cited = concat (map (\<lambda>s. filter (\<lambda>(c, t). t = s) (zip rs (map fst ms))) [''who'', ''can'', ''did'', ''audit'']))"
proof (rule seal_slots_Inr [OF assms(1,2)])
  fix rs st1 p
  let ?a = "kw_args kw" and ?slots = "slot_map ms rs"
  assume rs: "resolve_members cx (?a\<lparr>ea_references := None\<rparr>) ms st = (Inr rs, st1)"
    and p: "compose_args ?a ?slots (sort_key (slot_rank ?slots) rs) = Inr p" "emit_capsule cx p st1 = (Inr r, st')"
  let ?refs = "JArr (map (member_ref ?slots) (sort_key (slot_rank ?slots) rs))"
  let ?cited = "map (\<lambda>c. (c, the (?slots (er_capsule_id c)))) (sort_key (slot_rank ?slots) rs)"
  note m = resolve_members_Inr [OF rs]
  have len: "length ms = length rs" by (rule list_all2_lengthD [OF conjunct1 [OF m]])
  have sub: "set (w_lines (es_world st1)) \<subseteq> set (w_lines (es_world st'))"
    using emit_on_file(1) [OF p(2)] set_mono_prefix by blast
  have members: "list_all2 (\<lambda>(s, v) c. case v of Held h \<Rightarrow> c = h
        | Authored _ \<Rightarrow> er_capsule c \<in> set (w_lines (es_world st')) \<and> dget (er_capsule c) ''capsule_id'' = JStr (er_capsule_id c)
        | RawBytes _ \<Rightarrow> False) ms rs"
    by (rule list_all2_mono [OF conjunct1 [OF m]]) (use sub in \<open>auto split: seal_value.splits\<close>)
  have last: "\<exists>j < length rs. er_capsule_id (rs ! j) = er_capsule_id c \<and> s = fst (ms ! j) \<and>
      (\<forall>k < length rs. j < k \<longrightarrow> er_capsule_id (rs ! k) \<noteq> er_capsule_id c)" if c: "(c, s) \<in> set ?cited" for c s
  proof -
    obtain i where i: "i < length rs" "rs ! i = c" "s = the (?slots (er_capsule_id c))" using c by (auto simp: in_set_conv_nth)
    show ?thesis by (rule slot_of_member [OF len i(1)]) (use i in auto)
  qed
  have "committed (er_capsule r) ''composed_members'' = Some ?refs"
    by (rule committed_members [OF p assms(4,5)])
  then have "committed (er_capsule r) ''composed_members'' = Some (JArr (map (\<lambda>(c, s).
        JObj [(''type'', JStr ''capsule''), (''digest_alg'', JStr ''SHA-256''), (''digest'', JStr (er_capsule_id c)),
              (''slot'', JStr s)]) ?cited))"
    by (simp add: cited_in_slot_order(1) [OF len assms(3)] comp_def)
  then show ?thesis
    using members cited_in_slot_order(2-4) [OF len assms(3)] last
    by (intro exI [of _ rs] exI [of _ ?cited] conjI) blast+
qed

text \<open>A capsule that is declared in two slots loses the first one: the composition cites it twice, both times in the
  slot that was named last.\<close>

theorem capsule_in_two_slots_loses_one:
  assumes "seal cx fallback [Slotted s1 (Held c), Slotted s2 (Held c)] None kw st = (Inr r, st')"
    "seal_commits (ec_env cx)" "plain_keywords [''composed_members''] (kw_args kw)"
  shows "committed (er_capsule r) ''composed_members'' =
    Some (JArr (replicate 2 (member_ref (\<lambda>_. Some s2) c)))"
proof -
  let ?a = "kw_args kw" and ?slots = "slot_map [(s1, Held c), (s2, Held c)] [c, c]"
  have slots: "?slots (er_capsule_id c) = Some s2" by (simp add: slot_map_def)
  obtain p st1 where p: "compose_args ?a ?slots (sort_key (slot_rank ?slots) [c, c]) = Inr p" "emit_capsule cx p st1 = (Inr r, st')"
    using assms(1)
    by (auto simp: seal_def is_slotted_def slot_members_def seal_slots_def emit_planned_def Let_def split: prod.splits sum.splits)
  have one: "member_ref ?slots c = member_ref (\<lambda>_. Some s2) c" by (simp add: member_ref_def slots)
  show ?thesis using committed_members [OF p assms(2,3)] by (simp add: one numeral_2_eq_2)
qed

text \<open>A foreign artifact that is brought in is committed by the digest of its octets under the type that the caller
  declared, whatever other fields the call adds; sealing the carried capsule again returns it as it is and writes
  nothing, and with any option of its own it is refused.\<close>

theorem carried_artifact_is_kept:
  assumes "received cx (Octets raw) (Some t) action a st = (Inr r, st')"
    "seal_commits (ec_env cx)" "plain_keywords [''carried_artifact'', ''carried_input_digest''] a"
  shows "committed (er_capsule r) ''carried_artifact'' = Some (JObj [(''type'', JStr t), (''digest_alg'', JStr ''SHA-256''),
        (''digest'', JStr (em_sha256 (ec_env cx) raw))]) \<and>
    committed (er_capsule r) ''carried_input_digest'' = Some (JStr (em_sha256 (ec_env cx) raw)) \<and> \<not> blank t \<and>
    er_capsule r \<in> set (w_lines (es_world st')) \<and>
    seal cx fallback [Payload (Held r)] action' kw st2 =
      (if kw_names kw = [] \<and> action' = None then (Inr r, st2) else (Inl EmitTypeError, st2))"
proof -
  let ?d = "em_sha256 (ec_env cx) raw"
  let ?ref = "JObj [(''type'', JStr t), (''digest_alg'', JStr ''SHA-256''), (''digest'', JStr ?d)]"
  obtain p where p: "carry_args (ec_env cx) (Octets raw) (Some t) action a = Inr p" "emit_capsule cx p st = (Inr r, st')"
    using assms(1) by (auto simp: received_def emit_planned_def split: sum.splits)
  have p': "ea_payload_members p = ea_payload_members a" "ea_model p = ea_model a" "\<not> blank t"
    "ea_extra_compute p = Some (dict_set (dict_set (extra_of a) ''carried_artifact'' ?ref) ''carried_input_digest'' (JStr ?d))"
    using p(1) by (auto simp: carry_args_def coerce_artifact_def Let_def split: if_splits)
  have kw: "keys_ok (extra_of a)" "ea_payload_members a = None" "\<And>m. ea_model a = Some m \<Longrightarrow> \<not> dhas m ''carried_artifact''"
    "\<And>m. ea_model a = Some m \<Longrightarrow> \<not> dhas m ''carried_input_digest''"
    using assms(3) by (auto simp: plain_keywords_def)
  have ref: "committed (er_capsule r) ''carried_artifact'' = Some ?ref"
    by (rule sealed_extra [OF p(2) assms(2) _ p'(4)])
      (use p' kw in \<open>auto simp: map_of_rev_keys keys_ok_dict_set map_of_dict_set\<close>)
  have dig: "committed (er_capsule r) ''carried_input_digest'' = Some (JStr ?d)"
    by (rule sealed_extra [OF p(2) assms(2) _ p'(4)])
      (use p' kw in \<open>auto simp: map_of_rev_keys keys_ok_dict_set map_of_dict_set\<close>)
  have "carried_artifact_ref r = Inr ?ref" by (rule committed_is_carried [OF ref])
  then have "seal cx fallback [Payload (Held r)] action' kw st2 =
      (if kw_names kw = [] \<and> action' = None then (Inr r, st2) else (Inl EmitTypeError, st2))"
    by (simp add: seal_def is_slotted_def)
  then show ?thesis using ref dig p'(3) emit_on_file(5) [OF p(2)] by simp
qed


section \<open>Witnesses\<close>

definition plain_kw :: seal_keywords where
  "plain_kw = \<lparr>kw_names = [], kw_args = default_args ''seal'' ''o'' ''d''\<rparr>"

lemma plain_kw_ok: "plain_keywords ks (kw_args plain_kw)"
  by (simp add: plain_keywords_def plain_kw_def default_args_def extra_of_def)

definition grant :: emit_result where
  "grant = \<lparr>er_capsule_id = replicate 64 (CHR ''9''), er_anchored = False, er_capsule = [], er_anchor_status = Skipped,
     er_signature = [], er_key_id = [], er_seq = 1, er_witness_outcome = LocalSealed\<rparr>"

abbreviation demo_members :: "(string \<times> seal_value) list" where
  "demo_members \<equiv> [(''did'', Authored (JStr ''pay'')), (''can'', Held grant)]"

lemma composition_cites_its_members_witness:
  "\<exists>r st'. seal gate_cx (\<lambda>_. JNull) (map (\<lambda>(s, v). Slotted s v) demo_members) None plain_kw pickup_state = (Inr r, st') \<and>
     (\<exists>refs. committed (er_capsule r) ''composed_members'' = Some (JArr refs))"
proof -
  have "\<not> isl (fst (seal gate_cx (\<lambda>_. JNull) (map (\<lambda>(s, v). Slotted s v) demo_members) None plain_kw pickup_state))"
    by code_simp
  then obtain r st' where r: "seal gate_cx (\<lambda>_. JNull) (map (\<lambda>(s, v). Slotted s v) demo_members) None plain_kw pickup_state = (Inr r, st')"
    by (metis isl_def prod.collapse sum.exhaust)
  have "fst ` set demo_members \<subseteq> {''who'', ''can'', ''did'', ''audit''}" by simp
  from composition_cites_its_members [OF r _ this gate_seal_commits plain_kw_ok] r show ?thesis by blast
qed

lemma capsule_in_two_slots_loses_one_witness:
  "\<exists>r st'. seal gate_cx (\<lambda>_. JNull) [Slotted ''who'' (Held grant), Slotted ''can'' (Held grant)] None plain_kw pickup_state = (Inr r, st') \<and>
     committed (er_capsule r) ''composed_members'' = Some (JArr (replicate 2 (member_ref (\<lambda>_. Some ''can'') grant)))"
proof -
  have "\<not> isl (fst (seal gate_cx (\<lambda>_. JNull) [Slotted ''who'' (Held grant), Slotted ''can'' (Held grant)] None plain_kw pickup_state))"
    by code_simp
  then obtain r st' where r:
    "seal gate_cx (\<lambda>_. JNull) [Slotted ''who'' (Held grant), Slotted ''can'' (Held grant)] None plain_kw pickup_state = (Inr r, st')"
    by (metis isl_def prod.collapse sum.exhaust)
  from capsule_in_two_slots_loses_one [OF r gate_seal_commits plain_kw_ok] r show ?thesis by blast
qed

lemma carried_artifact_is_kept_witness:
  "\<exists>r st'. received gate_cx (Octets ''jws'') (Some ''machine-mandate'') ''carry'' (kw_args plain_kw) pickup_state = (Inr r, st') \<and>
     seal gate_cx (\<lambda>_. JNull) [Payload (Held r)] None plain_kw st' = (Inr r, st')"
proof -
  have "\<not> isl (fst (received gate_cx (Octets ''jws'') (Some ''machine-mandate'') ''carry'' (kw_args plain_kw) pickup_state))"
    by code_simp
  then obtain r st' where r:
    "received gate_cx (Octets ''jws'') (Some ''machine-mandate'') ''carry'' (kw_args plain_kw) pickup_state = (Inr r, st')"
    by (metis isl_def prod.collapse sum.exhaust)
  have "kw_names plain_kw = []" by (simp add: plain_kw_def)
  with carried_artifact_is_kept [OF r gate_seal_commits plain_kw_ok] r show ?thesis by auto
qed

end
