(* ===== verification/Settlement.thy ===== *)
theory Settlement
  imports Gate Base64
begin

text \<open>
  \<open>settlement.py\<close>: the exact amount, the digest reference, and building and sealing one leg of a settlement.  The tables
  of the draft, \<open>amount_ok\<close>, \<open>normal_payment_ref\<close> and \<open>structure_failures\<close> are \<open>agent_action_capsule.settlement\<close>'s and
  fields of \<open>settle_env\<close>; its verifier is not called here.
\<close>

record settle_env =
  se_version :: json
  se_member :: string
  se_wrapped_types :: "string list"
  se_amount_ok :: "dict \<Rightarrow> bool"
  se_normal_payment_ref :: "dict \<Rightarrow> json"
  se_structure_failures :: "dict \<Rightarrow> string list"
  se_jcs :: "json \<Rightarrow> string option"
  se_sha256 :: "string \<Rightarrow> string"

datatype settle_exn =
    SettlementError "string list"
  | SettleTypeError
  | SettleFloatError
  | SettleEmit emit_exn

section \<open>\<open>amount\<close>\<close>

datatype amount_value = IntValue int | TextValue string | OtherValue

text \<open>\<open>^(0|[1-9][0-9]*)$\<close> with \<open>match\<close>: the dollar also matches before a newline at the end.\<close>

definition decimal_form :: "string \<Rightarrow> bool" where
  "decimal_form s \<longleftrightarrow> s = ''0'' \<or> (s \<noteq> [] \<and> hd s \<noteq> CHR ''0'' \<and> list_all is_digit s)"

definition amount_syntax :: "string \<Rightarrow> bool" where
  "amount_syntax s \<longleftrightarrow> decimal_form s \<or> (s \<noteq> [] \<and> last s = CHR 0x0A \<and> decimal_form (butlast s))"

definition amount_text :: "amount_value \<Rightarrow> string option" where
  "amount_text v =
     (case v of IntValue i \<Rightarrow> Some (int_str i) | TextValue s \<Rightarrow> Some s | OtherValue \<Rightarrow> None)"

definition amount :: "settle_env \<Rightarrow> amount_value \<Rightarrow> json \<Rightarrow> json \<Rightarrow> settle_exn + dict" where
  "amount se v asset_code asset_scale =
     (case amount_text v of
        None \<Rightarrow> Inl (SettlementError [''amount_not_exact''])
      | Some t \<Rightarrow>
          if \<not> amount_syntax t then Inl (SettlementError [''amount_not_exact''])
          else let out = [(''value'', JStr t), (''assetCode'', asset_code), (''assetScale'', asset_scale)] in
            if se_amount_ok se out then Inr out else Inl (SettlementError [''amount_not_exact'']))"

section \<open>\<open>wrap\<close> and citations\<close>

definition url_char :: "char \<Rightarrow> char" where
  "url_char c = (if c = CHR ''+'' then CHR ''-'' else if c = CHR ''/'' then CHR ''_'' else c)"

definition b64u :: "string \<Rightarrow> string" where
  "b64u octets = rev (dropWhile (\<lambda>c. c = CHR ''='') (rev (map url_char (b64_encode octets))))"

datatype wrap_source = WrapOctets string | WrapValue json

definition wrap_octets :: "settle_env \<Rightarrow> wrap_source \<Rightarrow> settle_exn + string" where
  "wrap_octets se obj =
     (case obj of
        WrapOctets b \<Rightarrow> Inr b
      | WrapValue v \<Rightarrow> (case se_jcs se v of None \<Rightarrow> Inl SettleFloatError | Some b \<Rightarrow> Inr b))"

definition wrap :: "settle_env \<Rightarrow> wrap_source \<Rightarrow> string \<Rightarrow> bool \<Rightarrow> settle_exn + dict" where
  "wrap se obj kind include_content =
     sbind (ensure (kind \<in> set (se_wrapped_types se)) (SettlementError [''settlement_malformed''])) (\<lambda>_.
     sbind (wrap_octets se obj) (\<lambda>octets.
       Inr ([(''type'', JStr kind), (''digest_alg'', JStr ''SHA-256''), (''digest'', JStr (se_sha256 se octets))]
         @ (if include_content then [(''content'', JStr (b64u octets))] else []))))"

definition counterparty_reference :: "string \<Rightarrow> aac_reference" where
  "counterparty_reference i = \<lparr>xr_type = ''agent-action-capsule'', xr_digest_alg = ''SHA-256'', xr_digest = i,
     xr_citation_purpose = Some ''counterparty_half'', xr_log_coordinates = JNull\<rparr>"

section \<open>\<open>build_leg\<close>\<close>

text \<open>\<open>list(value)\<close> of a JSON value; \<open>chars\<close> splits a text into its characters.\<close>

definition py_list :: "(string \<Rightarrow> string list) \<Rightarrow> json \<Rightarrow> settle_exn + json list" where
  "py_list chars v =
     (case v of
        JArr vs \<Rightarrow> Inr vs
      | JObj d \<Rightarrow> Inr (map (\<lambda>(k, v). JStr k) d)
      | JStr s \<Rightarrow> Inr (map JStr (chars s))
      | _ \<Rightarrow> Inl SettleTypeError)"

definition leg_member :: "settle_env \<Rightarrow> (string \<Rightarrow> string list) \<Rightarrow> dict \<Rightarrow> string \<times> json \<Rightarrow> settle_exn + dict" where
  "leg_member se chars s m =
     (let name = fst m; value = snd m in
      if value = JNull then Inr s
      else
        let value = (case value of JObj d \<Rightarrow> if name = ''payment_ref'' then se_normal_payment_ref se d else value | _ \<Rightarrow> value) in
        if name = ''wrapped''
        then sbind (py_list chars value) (\<lambda>vs. Inr (if vs = [] then s else dict_set s name (JArr vs)))
        else Inr (dict_set s name value))"

definition build_leg :: "settle_env \<Rightarrow> (string \<Rightarrow> string list) \<Rightarrow> json \<Rightarrow> json \<Rightarrow> dict \<Rightarrow> settle_exn + dict" where
  "build_leg se chars leg sealer_role members =
     sbind (foldM_r (leg_member se chars) [(''version'', se_version se), (''leg'', leg), (''sealer_role'', sealer_role)] members) (\<lambda>s.
       let codes = se_structure_failures se s in if codes \<noteq> [] then Inl (SettlementError codes) else Inr s)"

section \<open>\<open>seal_leg\<close>\<close>

text \<open>
  \<open>a\<close> carries the keywords that pass through.  A member whose \<open>leg\<close> is no text has a structure failure, so the f-string
  of the action is applied to texts only.
\<close>

definition plan_leg :: "settle_env \<Rightarrow> dict \<Rightarrow> string option \<Rightarrow> string \<Rightarrow> emit_args \<Rightarrow> settle_exn + emit_args" where
  "plan_leg se leg prior relation a =
     (let codes = se_structure_failures se leg in
      if codes \<noteq> [] then Inl (SettlementError codes)
      else (case dget leg ''leg'' of
              JStr l \<Rightarrow> Inr (a\<lparr>ea_action := ''settlement.'' @ l, ea_action_type := Some ''fyi'', ea_confirms := prior,
                 ea_relation := (if prior \<noteq> None then Some relation else None),
                 ea_payload_members := Some [(se_member se, JObj leg)]\<rparr>)
            | _ \<Rightarrow> Inl SettleTypeError))"

definition seal_leg ::
    "emit_ctx \<Rightarrow> settle_env \<Rightarrow> dict \<Rightarrow> string option \<Rightarrow> string \<Rightarrow> emit_args \<Rightarrow> emit_state \<Rightarrow>
     (settle_exn + emit_result) \<times> emit_state" where
  "seal_leg cx se leg prior relation a st =
     (case plan_leg se leg prior relation a of
        Inl e \<Rightarrow> (Inl e, st)
      | Inr p \<Rightarrow> (case emit_capsule cx p st of (r, st') \<Rightarrow> (case r of Inl e \<Rightarrow> Inl (SettleEmit e) | Inr x \<Rightarrow> Inr x, st')))"

section \<open>Lemmas\<close>

lemma decimal_form_nat_str: "decimal_form (nat_str n)"
proof (cases "n = 0")
  case True
  then show ?thesis using nat_str_zero [of 0 "[]"] by (simp add: decimal_form_def)
next
  case False
  then show ?thesis using nat_str_digits [of n] hd_nat_str [of n] by (simp add: decimal_form_def)
qed



lemma nat_str_digits_val:
  assumes "s \<noteq> []" "list_all is_digit s" "hd s \<noteq> CHR ''0''"
  shows "nat_str (digits_val s) = s \<and> 0 < digits_val s"
  using assms
proof (induction s rule: rev_induct)
  case (snoc c s)
  have c: "digit_char (digit_val c) = c" "digit_val c < 10" using snoc.prems(2) digit_char_val digit_val_less by auto
  show ?case
  proof (cases "s = []")
    case True
    have "digit_char 0 = CHR ''0''" by code_simp
    with True snoc.prems(3) c have "0 < digit_val c" by (cases "digit_val c") auto
    then show ?thesis using True c nat_str.simps [of "digit_val c"] by (simp add: digits_val_def)
  next
    case False
    with snoc have ih: "nat_str (digits_val s) = s" "0 < digits_val s" by auto
    then show ?thesis using c nat_str.simps [of "10 * digits_val s + digit_val c"] by auto
  qed
qed simp

lemma decimal_form_value: "decimal_form s \<Longrightarrow> \<exists>n. s = nat_str n"
proof (cases "s = ''0''")
  case True
  then have "s = nat_str 0" using nat_str_zero [of 0 "[]"] by simp
  then show ?thesis ..
next
  case False
  moreover assume "decimal_form s"
  ultimately show ?thesis using nat_str_digits_val [of s] by (metis decimal_form_def)
qed

lemma build_args_type:
  assumes "build_args_of env a L = Inr b"
  shows "b_action_type b = action_type_of a"
proof -
  obtain p q refs where lk: "link_of a L = ((p, q), refs)" by (metis prod.collapse)
  show ?thesis using assms by (auto simp: build_args_of_def res_simps Let_def lk)
qed

section \<open>Properties\<close>

text \<open>An amount is exact.  The text in it is the canonical decimal of a non-negative integer, that of the argument when
  it was an integer, but for one newline that a text may end with.\<close>

theorem amount_is_exact:
  assumes "amount se v asset_code asset_scale = Inr out"
  shows "\<exists>n nl. dget out ''value'' = JStr (nat_str n @ nl) \<and> (nl = [] \<or> nl = [CHR 0x0A]) \<and>
    (\<forall>i. v = IntValue i \<longrightarrow> i = int n \<and> nl = []) \<and> (\<forall>t. v = TextValue t \<longrightarrow> t = nat_str n @ nl) \<and> v \<noteq> OtherValue"
proof -
  obtain t where t: "amount_text v = Some t" "amount_syntax t" "dget out ''value'' = JStr t"
    using assms by (auto simp: amount_def Let_def dget_def split: option.splits if_splits)
  show ?thesis
  proof (cases v)
    case (IntValue i)
    then have i: "t = int_str i" using t(1) by (simp add: amount_text_def)
    have last: "last (nat_str m) \<noteq> CHR 0x0A" for m
    proof -
      have "is_digit (last (nat_str m))" using nat_str_digits [of m] by (simp add: list_all_iff)
      moreover have "\<not> is_digit (CHR 0x0A)" by code_simp
      ultimately show ?thesis by metis
    qed
    have "0 \<le> i"
    proof (rule ccontr)
      assume neg: "\<not> 0 \<le> i"
      then have "t = CHR ''-'' # nat_str (nat (- i))" using i by (simp add: int_str_def)
      moreover have "\<not> is_digit (CHR ''-'')" by code_simp
      ultimately show False using t(2) last [of "nat (- i)"]
        by (auto simp: amount_syntax_def decimal_form_def split: if_splits)
    qed
    then have "t = nat_str (nat i)" using i by (simp add: int_str_def)
    then show ?thesis using t(3) IntValue \<open>0 \<le> i\<close> by (intro exI [of _ "nat i"] exI [of _ "[]"]) simp
  next
    case (TextValue s)
    then have s: "s = t" using t(1) by (simp add: amount_text_def)
    from t(2) show ?thesis
    proof (unfold amount_syntax_def, elim disjE conjE)
      assume "decimal_form t"
      then obtain n where "t = nat_str n" using decimal_form_value by blast
      then show ?thesis using t(3) TextValue s by (intro exI [of _ n] exI [of _ "[]"]) simp
    next
      assume nl: "t \<noteq> []" "last t = CHR 0x0A" "decimal_form (butlast t)"
      then obtain n where "butlast t = nat_str n" using decimal_form_value by blast
      then have "t = nat_str n @ [CHR 0x0A]" using nl by (metis append_butlast_last_id)
      then show ?thesis using t(3) TextValue s by (intro exI [of _ n] exI [of _ "[CHR 0x0A]"]) simp
    qed
  next
    case OtherValue
    then show ?thesis using t(1) by (simp add: amount_text_def)
  qed
qed

text \<open>The newline is let in: only \<open>amount_ok\<close> could refuse it.\<close>

lemma amount_accepts_newline:
  "(\<And>d. se_amount_ok se d) \<Longrightarrow>
     amount se (TextValue (''12'' @ [CHR 0x0A])) c s =
       Inr [(''value'', JStr (''12'' @ [CHR 0x0A])), (''assetCode'', c), (''assetScale'', s)]"
  by (simp add: amount_def amount_text_def amount_syntax_def decimal_form_def is_digit_def Let_def)

text \<open>The content that a reference carries is the octets whose digest it cites: the text of \<open>b64u\<close>, with its padding put
  back and the two characters of the alphabet restored, decodes to them.\<close>

definition url_char_back :: "char \<Rightarrow> char" where
  "url_char_back c = (if c = CHR ''-'' then CHR ''+'' else if c = CHR ''_'' then CHR ''/'' else c)"

lemma byte_bound: "byte c < 256"
  by simp

lemma b64_encode_chars: "set (b64_encode s) \<subseteq> insert (CHR ''='') (set b64_alphabet)"
proof -
  have "b64_char n \<in> set b64_alphabet" if "n < 64" for n
    using that b64_alphabet_facts(1) by (simp add: b64_char_def)
  moreover have "byte a div 4 < 64" "byte a mod 4 * 16 + byte b div 16 < 64" "byte b mod 16 * 4 + byte c div 64 < 64"
    "byte a mod 4 * 16 < 64" "byte b mod 16 * 4 < 64" "byte c mod 64 < 64" for a b c
    by (simp_all only: split_parts(1,2,3,4,5,6) [OF byte_bound byte_bound byte_bound])
  ultimately show ?thesis
    by (induction s rule: b64_encode.induct) (simp_all add: Let_def)
qed

lemma wrapped_content_decodes:
  "\<exists>pad. set pad \<subseteq> {CHR ''=''} \<and> b64_decode (map url_char_back (b64u octets) @ pad) = Some octets"
proof -
  let ?s = "map url_char (b64_encode octets)" and ?P = "\<lambda>c. c = CHR ''=''"
  let ?pad = "rev (takeWhile ?P (rev ?s))"
  have no: "CHR ''-'' \<notin> insert (CHR ''='') (set b64_alphabet)" "CHR ''_'' \<notin> insert (CHR ''='') (set b64_alphabet)"
    by code_simp+
  have restored: "map url_char_back ?s = b64_encode octets"
    using b64_encode_chars [of octets] no by (auto simp: url_char_def url_char_back_def intro!: map_idI)
  have pad: "set ?pad \<subseteq> {CHR ''=''}" by (auto dest: set_takeWhileD)
  then have "map url_char_back ?pad = ?pad" by (auto simp: url_char_back_def intro!: map_idI)
  moreover have "b64u octets @ ?pad = ?s" by (simp add: b64u_def rev_append [symmetric] del: rev_append)
  ultimately have "map url_char_back (b64u octets) @ ?pad = b64_encode octets"
    using restored by (metis map_append)
  then show ?thesis using pad b64_decode_encode [of octets] by metis
qed

text \<open>C21: a leg that is sealed has no structure failure and is the \<open>settlement\<close> member of the capsule that was written,
  under the address that recomputes from it; nothing that the emission writes replaces it.  The capsule is chained to the
  prior leg, with the registered relation of the call, exactly when its own ledger holds that leg; a prior leg of another
  ledger is cited as a reference and not chained.\<close>

theorem sealed_leg_is_committed:
  assumes "seal_leg cx se leg prior relation a st = (Inr r, st')" "se_member se \<notin> set (''chain'' # RESERVED_MEMBERS)"
    "seal_writes (ec_env cx)" "seal_links (ec_env cx)"
  shows "se_structure_failures se leg = [] \<and> dget (er_capsule r) (se_member se) = JObj leg \<and>
    er_capsule r \<in> set (w_lines (es_world st')) \<and>
    compute_capsule_id (ec_env cx) (er_capsule r) = Inr (er_capsule_id r) \<and>
    (\<exists>x base. em_seal (ec_env cx) x = Inr base \<and> \<not> dhas base (se_member se) \<and> xa_action_type x = ''fyi'') \<and>
    (case prior of
       None \<Rightarrow> dget (er_capsule r) ''chain'' = JNull
     | Some i \<Rightarrow> hex_string 64 i \<and>
         (if \<exists>e \<in> set (w_lines (es_world st)). dget e ''capsule_id'' = JStr i
          then \<exists>d. dget (er_capsule r) ''chain'' = JObj d \<and> dget d ''parent_capsule_id'' = JStr i \<and>
            dget d ''relation'' = JStr relation \<and>
            relation \<in> {''follows'', ''confirms'', ''supersedes'', ''epoch_opens'', ''duplicates''}
          else dget (er_capsule r) ''chain'' = JNull \<and>
            (\<exists>vs d. dget (er_capsule r) ''references'' = JArr vs \<and> JObj d \<in> set vs \<and>
               dget d ''digest_alg'' = JStr ''SHA-256'' \<and> dget d ''digest'' = JStr i)))"
proof -
  obtain p where p: "plan_leg se leg prior relation a = Inr p" and e: "emit_capsule cx p st = (Inr r, st')"
    using assms(1) by (auto simp: seal_leg_def split: sum.splits prod.splits)
  have p': "se_structure_failures se leg = []" "ea_payload_members p = Some [(se_member se, JObj leg)]"
    "ea_action_type p = Some ''fyi''" "ea_confirms p = prior" "ea_relation p = (if prior \<noteq> None then Some relation else None)"
    using p by (auto simp: plan_leg_def Let_def split: if_splits json.splits)
  have "prepare_capsule (ec_env cx) (ctx_environ cx) p (w_lines (es_world st)) =
      Inr (er_capsule_id r, er_signature r, er_key_id r, er_capsule r)"
    by (rule emit_capsule_Inr [OF e]) blast
  from prepare_Inr [OF this] obtain b base where
    b: "build_args_of (ec_env cx) p (w_lines (es_world st)) = Inr b" "em_seal (ec_env cx) (capsule_of (ec_env cx) b) = Inr base"
    and f: "finish_capsule (ec_env cx) p base = Inr (er_capsule_id r, er_signature r, er_key_id r, er_capsule r)"
    by blast
  have t: "xa_action_type (capsule_of (ec_env cx) b) = ''fyi''"
    using build_args_type [OF b(1)] p'(3) by (simp add: action_type_of_def capsule_of_def Let_def)
  have "\<And>ms. ea_payload_members p = Some ms \<Longrightarrow> ''chain'' \<notin> fst ` set ms" using p'(2) assms(2) by auto
  note link = final_link [OF e assms(3,4) this, unfolded p'(4,5)]
  have "case prior of
       None \<Rightarrow> dget (er_capsule r) ''chain'' = JNull
     | Some i \<Rightarrow> hex_string 64 i \<and>
         (if \<exists>e \<in> set (w_lines (es_world st)). dget e ''capsule_id'' = JStr i
          then \<exists>d. dget (er_capsule r) ''chain'' = JObj d \<and> dget d ''parent_capsule_id'' = JStr i \<and>
            dget d ''relation'' = JStr relation \<and>
            relation \<in> {''follows'', ''confirms'', ''supersedes'', ''epoch_opens'', ''duplicates''}
          else dget (er_capsule r) ''chain'' = JNull \<and>
            (\<exists>vs d. dget (er_capsule r) ''references'' = JArr vs \<and> JObj d \<in> set vs \<and>
               dget d ''digest_alg'' = JStr ''SHA-256'' \<and> dget d ''digest'' = JStr i))"
    using link by (cases prior) (auto split: if_splits)
  with p'(1) finish_Inr(7) [OF f p'(2)] finish_Inr(1) [OF f] emit_on_file(5) [OF e] b(2) t show ?thesis
    by (intro conjI exI [of _ "capsule_of (ec_env cx) b"] exI [of _ base]) simp_all
qed

section \<open>Witnesses\<close>

definition draft_tables :: settle_env where
  "draft_tables = \<lparr>se_version = JInt 1, se_member = ''settlement'', se_wrapped_types = [''x402''], se_amount_ok = (\<lambda>_. True),
     se_normal_payment_ref = JObj, se_structure_failures = (\<lambda>d. if dhas d ''leg'' then [] else [''settlement_malformed'']),
     se_jcs = (\<lambda>_. Some ''{}''), se_sha256 = (\<lambda>_. replicate 64 (CHR ''5''))\<rparr>"

lemma amount_is_exact_witness:
  "\<exists>n nl. dget [(''value'', JStr ''12''), (''assetCode'', JStr ''BTC''), (''assetScale'', JInt 11)] ''value'' = JStr (nat_str n @ nl) \<and>
     (\<forall>i. IntValue 12 = IntValue i \<longrightarrow> i = int n \<and> nl = [])"
proof -
  have "amount draft_tables (IntValue 12) (JStr ''BTC'') (JInt 11) =
      Inr [(''value'', JStr ''12''), (''assetCode'', JStr ''BTC''), (''assetScale'', JInt 11)]"
    by code_simp
  from amount_is_exact [OF this] show ?thesis by blast
qed

lemma sealed_leg_is_committed_witness:
  "\<exists>r st' d. seal_leg strict_cx draft_tables [(''leg'', JStr ''terms'')] (Some held_id) ''follows''
       (default_args ''x'' ''o'' ''d'') pickup_state = (Inr r, st') \<and> dget (er_capsule r) ''settlement'' = JObj [(''leg'', JStr ''terms'')] \<and>
     dget (er_capsule r) ''chain'' = JObj d \<and> dget d ''parent_capsule_id'' = JStr held_id"
proof -
  have "\<not> isl (fst (seal_leg strict_cx draft_tables [(''leg'', JStr ''terms'')] (Some held_id) ''follows''
      (default_args ''x'' ''o'' ''d'') pickup_state))"
    by code_simp
  then obtain r st' where r: "seal_leg strict_cx draft_tables [(''leg'', JStr ''terms'')] (Some held_id) ''follows''
      (default_args ''x'' ''o'' ''d'') pickup_state = (Inr r, st')"
    by (metis isl_def prod.collapse sum.exhaust)
  have m: "se_member draft_tables \<notin> set (''chain'' # RESERVED_MEMBERS)" by code_simp
  have held: "\<exists>e \<in> set (w_lines (es_world pickup_state)). dget e ''capsule_id'' = JStr held_id" by code_simp
  have member: "se_member draft_tables = ''settlement''" by (simp add: draft_tables_def)
  note committed = sealed_leg_is_committed [OF r m strict_seal_writes strict_seal_links]
  have "dget (er_capsule r) ''settlement'' = JObj [(''leg'', JStr ''terms'')]"
    "\<exists>d. dget (er_capsule r) ''chain'' = JObj d \<and> dget d ''parent_capsule_id'' = JStr held_id"
    using committed by (simp_all only: option.case held if_True member) blast
  with r show ?thesis by blast
qed

end
