(* ===== verification/Otel.thy ===== *)
theory Otel
  imports Gate Python_Text
begin

text \<open>
  \<open>otel/\<close> and the classification of \<open>connector.py\<close>: which spans are effects, the allow-listed block of a span, and the
  seal of one span (\<open>process_span_facts\<close>).  Span attributes are JSON values; \<open>str\<close> of a value that is no text and
  \<open>str.upper\<close> are the interpreter's.  Reading the facts off an OpenTelemetry span is not modelled.
\<close>

section \<open>The allow-list\<close>

datatype tier = CLEAR_SAFE | CLEAR_SAFE_CONDITIONAL | DIGEST_ONLY | NEVER_ENTERS

definition DEFAULT_SEMCONV_SOURCE :: string where
  "DEFAULT_SEMCONV_SOURCE = ''open-telemetry/semantic-conventions-genai@8c1b98a''"

definition RESOURCE_ATTRS :: "(string \<times> tier) list" where
  "RESOURCE_ATTRS =
     [(''service.name'', CLEAR_SAFE), (''service.version'', CLEAR_SAFE), (''service.namespace'', CLEAR_SAFE),
      (''deployment.environment.name'', CLEAR_SAFE), (''telemetry.sdk.name'', CLEAR_SAFE),
      (''telemetry.sdk.version'', CLEAR_SAFE)]"

definition SEMCONV_ATTRS :: "(string \<times> tier) list" where
  "SEMCONV_ATTRS =
     map (\<lambda>k. (k, CLEAR_SAFE))
       [''gen_ai.provider.name'', ''gen_ai.request.model'', ''gen_ai.response.model'', ''gen_ai.operation.name'',
        ''gen_ai.agent.id'', ''gen_ai.agent.name'', ''gen_ai.agent.version'', ''gen_ai.tool.name'', ''gen_ai.tool.type'',
        ''gen_ai.usage.input_tokens'', ''gen_ai.usage.output_tokens'', ''gen_ai.usage.reasoning.output_tokens'',
        ''gen_ai.usage.cache_read.input_tokens'', ''gen_ai.usage.cache_creation.input_tokens'',
        ''gen_ai.request.temperature'', ''gen_ai.request.top_p'', ''gen_ai.request.top_k'', ''gen_ai.request.max_tokens'',
        ''gen_ai.request.seed'', ''gen_ai.request.stop_sequences'', ''gen_ai.request.reasoning.level'',
        ''gen_ai.request.choice.count'', ''gen_ai.response.finish_reasons'', ''gen_ai.response.status'', ''gen_ai.output.type'']
     @ map (\<lambda>k. (k, CLEAR_SAFE_CONDITIONAL))
       [''gen_ai.workflow.name'', ''gen_ai.tool.call.id'', ''gen_ai.data_source.id'', ''gen_ai.memory.store.id'',
        ''gen_ai.prompt.name'', ''gen_ai.prompt.version'']
     @ map (\<lambda>k. (k, DIGEST_ONLY)) [''gen_ai.response.id'', ''gen_ai.request.previous_response.id'']"

definition NEVER_ENTERS_SEMCONV :: "string list" where
  "NEVER_ENTERS_SEMCONV =
     [''gen_ai.input.messages'', ''gen_ai.output.messages'', ''gen_ai.system_instructions'', ''gen_ai.tool.call.arguments'',
      ''gen_ai.tool.call.result'', ''gen_ai.tool.definitions'', ''gen_ai.memory.records'', ''gen_ai.memory.query.text'',
      ''gen_ai.retrieval.query.text'', ''gen_ai.retrieval.documents'', ''gen_ai.conversation.id'', ''mcp.session.id'',
      ''session_id'']"

definition NEVER_ENTERS_SEMCONV_PREFIXES :: "string list" where
  "NEVER_ENTERS_SEMCONV_PREFIXES = [''gen_ai.prompt.variable.'', ''enduser.'', ''user.'']"

definition BLOCK_FIELDS :: "string list" where
  "BLOCK_FIELDS = [''trace_id'', ''span_id'', ''parent_span_id'', ''trace_flags'', ''tracestate_digest'', ''span_name'',
     ''resource'', ''semconv'']"

definition tier_for_semconv_attribute :: "string \<Rightarrow> (string \<times> tier) list \<Rightarrow> tier option" where
  "tier_for_semconv_attribute key table = map_of table key"

section \<open>Signal 1\<close>

datatype classification = Effect | Observation

record py_str_env =
  ps_upper :: "string \<Rightarrow> string"
  ps_show :: "json \<Rightarrow> string"

record connector_event =
  ce_name :: string
  ce_http_method :: "string option"
  ce_read_only_hint :: "bool option"
  ce_destructive_hint :: "bool option"
  ce_commit_step :: "bool option"

datatype otel_exn = OtelValueError

text \<open>\<open>ConnectorEvent\<close> with its check of the name; the events here are not foreign.\<close>

definition connector_event_of :: "string \<Rightarrow> string option \<Rightarrow> bool option \<Rightarrow> otel_exn + connector_event" where
  "connector_event_of name http_method commit_step =
     (if blank name then Inl OtelValueError
      else Inr \<lparr>ce_name = name, ce_http_method = http_method, ce_read_only_hint = None, ce_destructive_hint = None,
             ce_commit_step = commit_step\<rparr>)"

definition READ_ONLY_HTTP_METHODS :: "string list" where
  "READ_ONLY_HTTP_METHODS = [''GET'', ''HEAD'', ''OPTIONS'']"

definition classify_signal_1 :: "py_str_env \<Rightarrow> connector_event \<Rightarrow> classification" where
  "classify_signal_1 ps e =
     (if ce_destructive_hint e = Some True then Effect
      else (case ce_read_only_hint e of
              Some b \<Rightarrow> if b then Observation else Effect
            | None \<Rightarrow>
                (case ce_http_method e of
                   Some m \<Rightarrow> if ps_upper ps m \<in> set READ_ONLY_HTTP_METHODS then Observation else Effect
                 | None \<Rightarrow>
                     (case ce_commit_step e of
                        Some b \<Rightarrow> if b then Effect else Observation
                      | None \<Rightarrow> Effect))))"

definition listed_signal :: "string list \<Rightarrow> string list \<Rightarrow> string \<Rightarrow> bool option" where
  "listed_signal write_ops read_ops op =
     (if op \<in> set write_ops then Some True else if op \<in> set read_ops then Some False else None)"

definition db_operation_signal :: "py_str_env \<Rightarrow> string \<Rightarrow> bool option" where
  "db_operation_signal ps op =
     listed_signal [''INSERT'', ''UPDATE'', ''DELETE'', ''MERGE''] [''SELECT''] (ps_upper ps (py_strip op))"

definition messaging_operation_signal :: "string \<Rightarrow> bool option" where
  "messaging_operation_signal op =
     listed_signal [''create'', ''send'', ''settle''] [''receive'', ''process''] (ascii_lower (py_strip op))"

definition MUTATING_RPC_PREFIXES :: "string list" where
  "MUTATING_RPC_PREFIXES =
     [''Create'', ''Update'', ''Delete'', ''Put'', ''Post'', ''Insert'', ''Remove'', ''Set'', ''Write'', ''Patch'', ''Merge'',
      ''Cancel'', ''Submit'', ''Register'', ''Revoke'', ''Grant'']"

definition QUERY_RPC_PREFIXES :: "string list" where
  "QUERY_RPC_PREFIXES =
     [''Get'', ''List'', ''Describe'', ''Read'', ''Query'', ''Find'', ''Search'', ''Lookup'', ''Check'', ''Head'', ''Fetch'',
      ''Watch'']"

definition rpc_method_signal :: "string \<Rightarrow> bool option" where
  "rpc_method_signal m =
     (if list_ex (\<lambda>p. prefix p m) MUTATING_RPC_PREFIXES then Some True
      else if list_ex (\<lambda>p. prefix p m) QUERY_RPC_PREFIXES then Some False
      else None)"

definition str_signal :: "json \<Rightarrow> (string \<Rightarrow> bool option) \<Rightarrow> bool option" where
  "str_signal v f = (case v of JStr s \<Rightarrow> f s | _ \<Rightarrow> None)"

definition first_signal :: "bool option \<Rightarrow> bool option \<Rightarrow> bool option" where
  "first_signal a b = (if a \<noteq> None then a else b)"

definition span_commit_step_signal :: "py_str_env \<Rightarrow> dict \<Rightarrow> bool option" where
  "span_commit_step_signal ps attributes =
     first_signal (str_signal (dget attributes ''db.operation.name'') (db_operation_signal ps))
       (first_signal (str_signal (dget attributes ''messaging.operation.type'') messaging_operation_signal)
         (str_signal (dget attributes ''rpc.method'') rpc_method_signal))"

definition classify_span_signal_1 :: "py_str_env \<Rightarrow> string \<Rightarrow> dict \<Rightarrow> otel_exn + classification" where
  "classify_span_signal_1 ps name attributes =
     sbind (case dget attributes ''http.request.method'' of
              JStr m \<Rightarrow>
                if m \<noteq> [] then connector_event_of name (Some m) None
                else connector_event_of name None (span_commit_step_signal ps attributes)
            | _ \<Rightarrow> connector_event_of name None (span_commit_step_signal ps attributes))
       (\<lambda>e. Inr (classify_signal_1 ps e))"

section \<open>The block\<close>

definition otel_sha256 :: "emit_env \<Rightarrow> py_str_env \<Rightarrow> json \<Rightarrow> string" where
  "otel_sha256 env ps v = em_sha256 env (case v of JStr s \<Rightarrow> s | _ \<Rightarrow> ps_show ps v)"

lemma otel_sha256_JStr [simp]: "otel_sha256 env ps (JStr s) = em_sha256 env s"
  by (simp add: otel_sha256_def)

definition validated_hex :: "nat \<Rightarrow> string \<Rightarrow> otel_exn + string" where
  "validated_hex n value =
     (let normalized = ascii_lower (py_strip value) in
      if hex_string n normalized then Inr normalized else Inl OtelValueError)"

definition validated_id :: "nat \<Rightarrow> string \<Rightarrow> otel_exn + string" where
  "validated_id n value =
     sbind (validated_hex n value) (\<lambda>s. if list_all (\<lambda>c. c = CHR ''0'') s then Inl OtelValueError else Inr s)"

definition resource_subset :: "dict \<Rightarrow> dict" where
  "resource_subset attributes = filter (\<lambda>(k, v). map_of RESOURCE_ATTRS k = Some CLEAR_SAFE) attributes"

definition semconv_entry ::
    "emit_env \<Rightarrow> py_str_env \<Rightarrow> (string \<times> tier) list \<Rightarrow> string list \<Rightarrow> string \<times> json \<Rightarrow> dict" where
  "semconv_entry env ps table admit m =
     (let tier = tier_for_semconv_attribute (fst m) table in
      if tier = Some CLEAR_SAFE \<or> (tier = Some CLEAR_SAFE_CONDITIONAL \<and> fst m \<in> set admit) then [m]
      else if tier = Some DIGEST_ONLY then [(fst m, JStr (otel_sha256 env ps (snd m)))]
      else [])"

definition semconv_subset ::
    "emit_env \<Rightarrow> py_str_env \<Rightarrow> dict \<Rightarrow> (string \<times> tier) list \<Rightarrow> string \<Rightarrow> string list \<Rightarrow> dict" where
  "semconv_subset env ps attributes table source admit =
     dict_update [(''source'', JStr source)] (concat (map (semconv_entry env ps table admit) attributes))"

record span_facts =
  sf_name :: string
  sf_attributes :: dict
  sf_resource_attributes :: dict
  sf_trace_id :: string
  sf_span_id :: string
  sf_parent_span_id :: "string option"
  sf_trace_flags :: "string option"
  sf_tracestate :: "string option"
  sf_status_is_error :: bool
  sf_baggage :: dict

text \<open>\<open>if value:\<close> of an optional text.\<close>

definition given :: "string option \<Rightarrow> string option" where
  "given v = (if v = Some [] then None else v)"

definition opt_field ::
    "string option \<Rightarrow> (string \<Rightarrow> otel_exn + dict) \<Rightarrow> otel_exn + dict" where
  "opt_field v f = (case given v of None \<Rightarrow> Inr [] | Some s \<Rightarrow> f s)"

definition build_otel_block ::
    "emit_env \<Rightarrow> py_str_env \<Rightarrow> string \<Rightarrow> span_facts \<Rightarrow> bool \<Rightarrow> (string \<times> tier) list \<Rightarrow> string \<Rightarrow> string list \<Rightarrow> otel_exn + dict" where
  "build_otel_block env ps span_name f clear table source admit =
     (let shown = (\<lambda>s. JStr (if clear then s else otel_sha256 env ps (JStr s))) in
      sbind (validated_id 32 (sf_trace_id f)) (\<lambda>trace_id.
      sbind (validated_id 16 (sf_span_id f)) (\<lambda>span_id.
      sbind (opt_field (sf_parent_span_id f) (\<lambda>p. sbind (validated_id 16 p) (\<lambda>i. Inr [(''parent_span_id'', shown i)]))) (\<lambda>parent.
      sbind (opt_field (sf_trace_flags f) (\<lambda>t. sbind (validated_hex 2 t) (\<lambda>h. Inr [(''trace_flags'', JStr h)]))) (\<lambda>flags.
        let resource = resource_subset (sf_resource_attributes f);
            semconv = semconv_subset env ps (sf_attributes f) table source admit
        in Inr ([(''trace_id'', shown trace_id), (''span_id'', shown span_id)] @ parent @ flags
          @ (case given (sf_tracestate f) of
               None \<Rightarrow> [] | Some s \<Rightarrow> [(''tracestate_digest'', JStr (otel_sha256 env ps (JStr s)))])
          @ (if span_name \<noteq> [] \<and> clear then [(''span_name'', JStr span_name)] else [])
          @ (if resource \<noteq> [] then [(''resource'', JObj resource)] else [])
          @ (if 1 < length semconv then [(''semconv'', JObj semconv)] else [])))))))"

definition build_outcome_context_block :: "emit_env \<Rightarrow> py_str_env \<Rightarrow> dict \<Rightarrow> string list \<Rightarrow> dict" where
  "build_outcome_context_block env ps baggage allowed =
     map (\<lambda>(k, v). (k, JStr (otel_sha256 env ps v))) (filter (\<lambda>(k, v). k \<in> set allowed) baggage)"

section \<open>\<open>process_span_facts\<close>\<close>

record span_args =
  sa_operator :: string
  sa_developer :: string
  sa_anchor :: "bool option"
  sa_clear_trace_context :: bool
  sa_semconv_source :: string
  sa_baggage_keys :: "string list"
  sa_admit_conditional :: "string list"
  sa_provenance_mode :: "json option"
  sa_extra_compute :: dict

definition OTEL_BLOCK_KEY :: string where "OTEL_BLOCK_KEY = ''org.agentactioncapsule.otel''"
definition OUTCOME_CONTEXT_KEY :: string where "OUTCOME_CONTEXT_KEY = ''ext.otel.outcome_context''"

definition span_call :: "emit_env \<Rightarrow> py_str_env \<Rightarrow> span_args \<Rightarrow> span_facts \<Rightarrow> string \<Rightarrow> dict \<Rightarrow> tool_call" where
  "span_call env ps a f name block =
     (let label = (if sa_clear_trace_context a then name else otel_sha256 env ps (JStr name));
          outcome = build_outcome_context_block env ps (sf_baggage f) (sa_baggage_keys a);
          members = dict_set (sa_extra_compute a) OTEL_BLOCK_KEY (JObj block)
      in \<lparr>tc_action = label, tc_input = JObj [(''span_name'', JStr name)],
          tc_output = JObj [(''status'', JStr (if sf_status_is_error f then ''ERROR'' else ''OK''))], tc_verdict = ''executed'',
          tc_effect = Some [(''type'', JStr label), (''status'', JStr (if sf_status_is_error f then ''failed'' else ''confirmed''))],
          tc_prior = None, tc_model = None, tc_human_disposed = False, tc_approver = ''policy'', tc_decision = ''accept'',
          tc_relation = Some ''confirms'', tc_action_type = Some ''fyi'', tc_runtime = Some ''otel'',
          tc_extra_compute = Some (if outcome = [] then members else dict_set members OUTCOME_CONTEXT_KEY (JObj outcome)),
          tc_provenance_mode = sa_provenance_mode a\<rparr>)"

definition span_emitter :: "span_args \<Rightarrow> emitter" where
  "span_emitter a = \<lparr>et_operator = sa_operator a, et_developer = sa_developer a, et_anchor_arg = sa_anchor a,
     et_anchor_url = None, et_anchor_wait = False, et_default_model = None, et_max_results = None, et_last = None,
     et_results = []\<rparr>"

text \<open>The result is \<open>None\<close> for an observation and for a span whose block or seal failed.\<close>

definition process_span_facts ::
    "emit_ctx \<Rightarrow> py_str_env \<Rightarrow> span_args \<Rightarrow> span_facts \<Rightarrow> emit_state \<Rightarrow> (otel_exn + emit_result option) \<times> emit_state" where
  "process_span_facts cx ps a f st =
     (let name = (if sf_name f = [] then ''unknown'' else sf_name f) in
      (case classify_span_signal_1 ps name (sf_attributes f) of
         Inl e \<Rightarrow> (Inl e, st)
       | Inr Observation \<Rightarrow> (Inr None, st)
       | Inr Effect \<Rightarrow>
           (case build_otel_block (ec_env cx) ps name f (sa_clear_trace_context a) SEMCONV_ATTRS (sa_semconv_source a)
                   (sa_admit_conditional a) of
              Inl e \<Rightarrow> (Inr None, st)
            | Inr block \<Rightarrow>
                (case emit_tool cx (span_call (ec_env cx) ps a f name block) (span_emitter a, st) of
                   (Inl e, em, st') \<Rightarrow> (Inr None, st')
                 | (Inr r, em, st') \<Rightarrow> (Inr (Some r), st')))))"


section \<open>What leaves the process\<close>

text \<open>One semconv entry of the block, read off the attributes.\<close>

definition semconv_admits ::
    "emit_env \<Rightarrow> py_str_env \<Rightarrow> (string \<times> tier) list \<Rightarrow> string list \<Rightarrow> dict \<Rightarrow> string \<Rightarrow> json \<Rightarrow> bool" where
  "semconv_admits env ps table admit attributes k v \<longleftrightarrow> (\<exists>w. (k, w) \<in> set attributes \<and>
     (map_of table k = Some CLEAR_SAFE \<and> v = w \<or>
      map_of table k = Some CLEAR_SAFE_CONDITIONAL \<and> k \<in> set admit \<and> v = w \<or>
      map_of table k = Some DIGEST_ONLY \<and> v = JStr (otel_sha256 env ps w)))"

lemma semconv_subset_admitted:
  assumes "(k, v) \<in> set (semconv_subset env ps attributes table source admit)"
  shows "(k, v) = (''source'', JStr source) \<or> semconv_admits env ps table admit attributes k v"
proof -
  have "(k, v) = (''source'', JStr source) \<or> (\<exists>m \<in> set attributes. (k, v) \<in> set (semconv_entry env ps table admit m))"
    using assms set_dict_update [of "[(''source'', JStr source)]" "concat (map (semconv_entry env ps table admit) attributes)"]
    by (auto simp: semconv_subset_def)
  then show ?thesis
    by (auto simp: semconv_entry_def tier_for_semconv_attribute_def semconv_admits_def Let_def split: if_splits)
qed

lemma semconv_entry_denied:
  "fst m \<notin> fst ` set table \<Longrightarrow> semconv_entry env ps table admit m = []"
  by (simp add: semconv_entry_def tier_for_semconv_attribute_def Let_def map_of_eq_None_iff [THEN iffD2])

definition table_part :: "(string \<times> tier) list \<Rightarrow> dict \<Rightarrow> dict" where
  "table_part table attributes = filter (\<lambda>(k, v). k \<in> fst ` set table) attributes"

lemma semconv_subset_part:
  "semconv_subset env ps (table_part table attributes) table source admit = semconv_subset env ps attributes table source admit"
proof -
  have "concat (map (semconv_entry env ps table admit) (table_part table attributes)) =
      concat (map (semconv_entry env ps table admit) attributes)"
    by (induction attributes) (auto simp: table_part_def semconv_entry_denied)
  then show ?thesis by (simp add: semconv_subset_def)
qed

lemma resource_subset_part: "resource_subset (table_part RESOURCE_ATTRS attributes) = resource_subset attributes"
proof -
  have "map_of RESOURCE_ATTRS k = Some t \<Longrightarrow> k \<in> fst ` set RESOURCE_ATTRS" for k t
    by (force dest: map_of_SomeD)
  then show ?thesis by (auto simp: resource_subset_def table_part_def intro!: filter_cong)
qed

lemma classify_blank: "blank name \<Longrightarrow> classify_span_signal_1 ps name attributes = Inl OtelValueError"
  by (simp add: classify_span_signal_1_def connector_event_of_def split: json.splits)

section \<open>Floats\<close>

text \<open>A float in a digest-bearing field raises (\<open>agent_action_capsule\<close>'s \<open>FloatInDigestError\<close>).\<close>

definition seal_refuses_floats :: "emit_env \<Rightarrow> bool" where
  "seal_refuses_floats env \<longleftrightarrow> (\<forall>x m c. xa_model x = Some m \<longrightarrow> xm_compute m = Some c \<longrightarrow> \<not> float_free (JObj c) \<longrightarrow>
     (\<exists>e. em_seal env x = Inl e))"

lemma failed_seal_keeps_state:
  assumes "\<And>b. build_args_of (ec_env cx) a (w_lines (es_world st)) = Inr b \<Longrightarrow>
    \<exists>e. em_seal (ec_env cx) (capsule_of (ec_env cx) b) = Inl e"
  shows "\<exists>e. emit_capsule cx a st = (Inl e, st)"
proof (cases "prepare_capsule (ec_env cx) (ctx_environ cx) a (w_lines (es_world st))")
  case (Inl e)
  then show ?thesis by (simp add: emit_capsule_def)
next
  case (Inr x)
  then obtain b base where "build_args_of (ec_env cx) a (w_lines (es_world st)) = Inr b"
    "build_capsule (ec_env cx) b = Inr base"
    by (auto simp: prepare_capsule_def res_simps)
  then show ?thesis using assms by (fastforce simp: build_capsule_def split: if_splits)
qed

lemma float_free_dget: "float_free (JObj c) \<Longrightarrow> float_free (dget c k)"
  by (auto simp: dget_def list_all_iff split: option.splits dest!: map_of_SomeD)

lemma semconv_float:
  assumes "(k, JFloat x) \<in> set attributes" "distinct (map fst attributes)" "map_of table k = Some CLEAR_SAFE" "k \<noteq> ''source''"
  shows "(k, JFloat x) \<in> set (semconv_subset env ps attributes table source admit)"
proof -
  let ?f = "semconv_entry env ps table admit"
  have keys: "fst ` set (?f m) \<subseteq> {fst m}" for m by (auto simp: semconv_entry_def Let_def)
  have "map_of (rev (concat (map ?f attributes))) k = Some (JFloat x)"
    using assms(1,2)
  proof (induction attributes rule: rev_induct)
    case (snoc m as)
    then show ?case
    proof (cases "m = (k, JFloat x)")
      case True
      then show ?thesis using assms(3) by (simp add: semconv_entry_def tier_for_semconv_attribute_def Let_def)
    next
      case False
      then have "(k, JFloat x) \<in> set as" "fst m \<noteq> k" using snoc.prems by (force, force simp: image_iff)
      then have "map_of (rev (?f m)) k = None" using keys [of m] by (auto simp: map_of_eq_None_iff)
      then show ?thesis using snoc \<open>(k, JFloat x) \<in> set as\<close> by (simp add: map_add_def)
    qed
  qed simp
  then have "dget (semconv_subset env ps attributes table source admit) k = JFloat x"
    by (simp add: semconv_subset_def dget_dict_update)
  then show ?thesis by (auto simp: dget_def split: option.splits dest: map_of_SomeD)
qed

section \<open>Properties\<close>

text \<open>C26: default deny.  Two spans that differ only in attributes, resource attributes and baggage entries outside the
  allow-lists, and are classified alike, give the same outcome: the same result, the same ledger, the same network.  The
  attributes that only classify a span leave nothing but that one bit.\<close>

theorem denied_attributes_never_leave:
  assumes "table_part SEMCONV_ATTRS A = table_part SEMCONV_ATTRS (sf_attributes f)"
    "table_part RESOURCE_ATTRS R = table_part RESOURCE_ATTRS (sf_resource_attributes f)"
    "filter (\<lambda>(k, v). k \<in> set (sa_baggage_keys a)) B = filter (\<lambda>(k, v). k \<in> set (sa_baggage_keys a)) (sf_baggage f)"
    "classify_span_signal_1 ps (if sf_name f = [] then ''unknown'' else sf_name f) A =
     classify_span_signal_1 ps (if sf_name f = [] then ''unknown'' else sf_name f) (sf_attributes f)"
  shows "process_span_facts cx ps a (f\<lparr>sf_attributes := A, sf_resource_attributes := R, sf_baggage := B\<rparr>) st =
    process_span_facts cx ps a f st"
proof -
  let ?g = "f\<lparr>sf_attributes := A, sf_resource_attributes := R, sf_baggage := B\<rparr>"
  have "semconv_subset env ps A SEMCONV_ATTRS source admit = semconv_subset env ps (sf_attributes f) SEMCONV_ATTRS source admit"
    for env source admit
    by (metis assms(1) semconv_subset_part)
  moreover have "resource_subset R = resource_subset (sf_resource_attributes f)" by (metis assms(2) resource_subset_part)
  ultimately have "build_otel_block env ps name ?g clear SEMCONV_ATTRS source admit =
      build_otel_block env ps name f clear SEMCONV_ATTRS source admit" for env name clear source admit
    by (simp add: build_otel_block_def)
  moreover have "build_outcome_context_block env ps B (sa_baggage_keys a) =
      build_outcome_context_block env ps (sf_baggage f) (sa_baggage_keys a)" for env
    by (simp add: build_outcome_context_block_def assms(3))
  then have "span_call env ps a ?g name block = span_call env ps a f name block" for env name block
    by (simp add: span_call_def)
  moreover define nm where "nm = (if sf_name f = [] then ''unknown'' else sf_name f)"
  moreover have "(if sf_name ?g = [] then ''unknown'' else sf_name ?g) = nm" by (simp add: nm_def)
  moreover have "classify_span_signal_1 ps nm A = classify_span_signal_1 ps nm (sf_attributes f)"
    using assms(4) unfolding nm_def .
  ultimately show ?thesis
    unfolding process_span_facts_def Let_def by (simp cong: sum.case_cong classification.case_cong)
qed

text \<open>The block of a span has only the fields of the profile.  Its semconv entries are attributes that the table
  admits, in clear or as a digest as the table says, none of the never-enters keys among them; without the opt-in the
  identifiers are digests and the span name is left out, and the trace state is never in clear.\<close>

theorem otel_block_is_allow_listed:
  assumes "build_otel_block env ps name f clear SEMCONV_ATTRS source admit = Inr block"
  shows "set (map fst block) \<subseteq> set BLOCK_FIELDS \<and>
    (\<forall>S k v. (''semconv'', JObj S) \<in> set block \<and> (k, v) \<in> set S \<longrightarrow>
       ((k, v) = (''source'', JStr source) \<or> semconv_admits env ps SEMCONV_ATTRS admit (sf_attributes f) k v) \<and>
       k \<notin> set NEVER_ENTERS_SEMCONV \<and> \<not> list_ex (\<lambda>p. prefix p k) NEVER_ENTERS_SEMCONV_PREFIXES) \<and>
    (\<forall>v. (''tracestate_digest'', v) \<in> set block \<longrightarrow> (\<exists>t. v = JStr (em_sha256 env t))) \<and>
    (\<not> clear \<longrightarrow> ''span_name'' \<notin> set (map fst block) \<and>
      (\<forall>k v. (k, v) \<in> set block \<and> k \<in> {''trace_id'', ''span_id'', ''parent_span_id''} \<longrightarrow> (\<exists>i. v = JStr (em_sha256 env i))))"
proof -
  let ?S = "semconv_subset env ps (sf_attributes f) SEMCONV_ATTRS source admit"
  let ?R = "resource_subset (sf_resource_attributes f)"
  let ?shown = "\<lambda>s. JStr (if clear then s else otel_sha256 env ps (JStr s))"
  obtain t s parent flags where parts:
    "opt_field (sf_parent_span_id f) (\<lambda>p. sbind (validated_id 16 p) (\<lambda>i. Inr [(''parent_span_id'', ?shown i)])) = Inr parent"
    "opt_field (sf_trace_flags f) (\<lambda>t. sbind (validated_hex 2 t) (\<lambda>h. Inr [(''trace_flags'', JStr h)])) = Inr flags"
    and block: "block = [(''trace_id'', ?shown t), (''span_id'', ?shown s)] @ parent @ flags
          @ (case given (sf_tracestate f) of None \<Rightarrow> [] | Some s \<Rightarrow> [(''tracestate_digest'', JStr (otel_sha256 env ps (JStr s)))])
          @ (if name \<noteq> [] \<and> clear then [(''span_name'', JStr name)] else [])
          @ (if ?R \<noteq> [] then [(''resource'', JObj ?R)] else [])
          @ (if 1 < length ?S then [(''semconv'', JObj ?S)] else [])"
    using assms by (auto simp: build_otel_block_def Let_def res_simps)
  have parent: "parent = [] \<or> (\<exists>i. parent = [(''parent_span_id'', ?shown i)])"
    using parts(1) by (auto simp: opt_field_def res_simps split: option.splits)
  have flags: "flags = [] \<or> (\<exists>h. flags = [(''trace_flags'', JStr h)])"
    using parts(2) by (auto simp: opt_field_def res_simps split: option.splits)
  have S: "(k, v) = (''source'', JStr source) \<or> semconv_admits env ps SEMCONV_ATTRS admit (sf_attributes f) k v"
    "k \<notin> set NEVER_ENTERS_SEMCONV \<and> \<not> list_ex (\<lambda>p. prefix p k) NEVER_ENTERS_SEMCONV_PREFIXES"
    if "(k, v) \<in> set ?S" for k v
  proof -
    show *: "(k, v) = (''source'', JStr source) \<or> semconv_admits env ps SEMCONV_ATTRS admit (sf_attributes f) k v"
      by (rule semconv_subset_admitted [OF that])
    have "list_all (\<lambda>k. k \<notin> set NEVER_ENTERS_SEMCONV \<and> \<not> list_ex (\<lambda>p. prefix p k) NEVER_ENTERS_SEMCONV_PREFIXES)
        (''source'' # map fst SEMCONV_ATTRS)"
      by code_simp
    moreover have "k \<in> set (''source'' # map fst SEMCONV_ATTRS)"
      using * by (force simp: semconv_admits_def dest: map_of_SomeD)
    ultimately show "k \<notin> set NEVER_ENTERS_SEMCONV \<and> \<not> list_ex (\<lambda>p. prefix p k) NEVER_ENTERS_SEMCONV_PREFIXES"
      unfolding list_all_iff by blast
  qed
  show ?thesis
  proof (intro conjI)
    show "set (map fst block) \<subseteq> set BLOCK_FIELDS"
      using parent flags unfolding block by (auto simp: BLOCK_FIELDS_def split: option.splits)
    show "\<forall>S k v. (''semconv'', JObj S) \<in> set block \<and> (k, v) \<in> set S \<longrightarrow>
       ((k, v) = (''source'', JStr source) \<or> semconv_admits env ps SEMCONV_ATTRS admit (sf_attributes f) k v) \<and>
       k \<notin> set NEVER_ENTERS_SEMCONV \<and> \<not> list_ex (\<lambda>p. prefix p k) NEVER_ENTERS_SEMCONV_PREFIXES"
    proof (intro allI impI)
      fix S k v
      assume "(''semconv'', JObj S) \<in> set block \<and> (k, v) \<in> set S"
      then have "(k, v) \<in> set ?S" using parent flags unfolding block by (auto split: option.splits if_splits)
      then show "((k, v) = (''source'', JStr source) \<or> semconv_admits env ps SEMCONV_ATTRS admit (sf_attributes f) k v) \<and>
          k \<notin> set NEVER_ENTERS_SEMCONV \<and> \<not> list_ex (\<lambda>p. prefix p k) NEVER_ENTERS_SEMCONV_PREFIXES"
        using S by blast
    qed
    show "\<forall>v. (''tracestate_digest'', v) \<in> set block \<longrightarrow> (\<exists>t. v = JStr (em_sha256 env t))"
      using parent flags unfolding block by (auto split: option.splits if_splits)
    show "\<not> clear \<longrightarrow> ''span_name'' \<notin> set (map fst block) \<and>
      (\<forall>k v. (k, v) \<in> set block \<and> k \<in> {''trace_id'', ''span_id'', ''parent_span_id''} \<longrightarrow> (\<exists>i. v = JStr (em_sha256 env i)))"
      using parent flags unfolding block by (auto split: option.splits if_splits) (metis+)
  qed
qed

text \<open>The exporter must never raise, but a span whose name is white space makes it raise: the check of
  \<open>ConnectorEvent\<close> runs before the first guarded statement.\<close>

theorem blank_span_name_raises:
  assumes "sf_name f \<noteq> []" "blank (sf_name f)"
  shows "process_span_facts cx ps a f st = (Inl OtelValueError, st)"
  using assms by (simp add: process_span_facts_def Let_def classify_blank)


lemma float_block:
  assumes "build_otel_block env ps name f clear SEMCONV_ATTRS source admit = Inr block"
    "(k, JFloat x) \<in> set (sf_attributes f)" "distinct (map fst (sf_attributes f))" "map_of SEMCONV_ATTRS k = Some CLEAR_SAFE"
  shows "\<not> float_free (JObj block)"
proof -
  let ?S = "semconv_subset env ps (sf_attributes f) SEMCONV_ATTRS source admit"
  have "map_of SEMCONV_ATTRS ''source'' = None" by code_simp
  then have k: "k \<noteq> ''source''" using assms(4) by auto
  have x: "(k, JFloat x) \<in> set ?S" by (rule semconv_float [OF assms(2-4) k])
  have "''source'' \<in> fst ` set ?S" by (simp add: semconv_subset_def keys_dict_update)
  moreover have "k \<in> fst ` set ?S" using x by force
  ultimately have "1 < length ?S"
    using k by (cases ?S; cases "tl ?S") auto
  then have "(''semconv'', JObj ?S) \<in> set block" using assms(1) by (auto simp: build_otel_block_def Let_def res_simps)
  moreover have "\<not> float_free (JObj ?S)" using x by (force simp: list_all_iff)
  ultimately show ?thesis by (force simp: list_all_iff)
qed

text \<open>A span that carries a float attribute of the allow-list, such as the request temperature, has no capsule.  The
  block takes the float as it is, so the seal refuses it, and the span is dropped with a warning.\<close>

theorem float_attribute_is_never_sealed:
  assumes "seal_refuses_floats (ec_env cx)" "(k, JFloat x) \<in> set (sf_attributes f)" "distinct (map fst (sf_attributes f))"
    "map_of SEMCONV_ATTRS k = Some CLEAR_SAFE" "\<not> blank (sf_name f)" "distinct (map fst (sa_extra_compute a))"
  shows "process_span_facts cx ps a f st = (Inr None, st)"
proof -
  have sealed: "\<exists>e. emit_tool cx (span_call (ec_env cx) ps a f name block) (span_emitter a, st) = (Inl e, span_emitter a, st)"
    if b: "build_otel_block (ec_env cx) ps name f clear SEMCONV_ATTRS (sa_semconv_source a) (sa_admit_conditional a) = Inr block"
    for name clear block
  proof -
    let ?t = "span_call (ec_env cx) ps a f name block"
    obtain E where E: "tc_extra_compute ?t = Some E" "map_of (rev E) OTEL_BLOCK_KEY = Some (JObj block)"
    proof -
      let ?m = "dict_set (sa_extra_compute a) OTEL_BLOCK_KEY (JObj block)"
      let ?o = "build_outcome_context_block (ec_env cx) ps (sf_baggage f) (sa_baggage_keys a)"
      let ?E = "if ?o = [] then ?m else dict_set ?m OUTCOME_CONTEXT_KEY (JObj ?o)"
      have "distinct (map fst ?E)" using assms(6) distinct_dict_set by auto
      note map_of_rev_distinct [OF this]
      then show ?thesis
        using that [of ?E] by (simp add: span_call_def Let_def map_of_dict_set OTEL_BLOCK_KEY_def OUTCOME_CONTEXT_KEY_def)
    qed
    show ?thesis
    proof (cases "tool_args (span_emitter a) ?t")
      case (Inl e)
      then show ?thesis by (simp add: emit_tool_def emit_planned_def)
    next
      case (Inr args)
      note t = tool_args_Inr [OF Inr]
      have "\<exists>e. em_seal (ec_env cx) (capsule_of (ec_env cx) b) = Inl e"
        if args: "build_args_of (ec_env cx) args (w_lines (es_world st)) = Inr b" for b
      proof -
        have "\<exists>m c. xa_model (capsule_of (ec_env cx) b) = Some m \<and> xm_compute m = Some c \<and> dget c OTEL_BLOCK_KEY = JObj block"
          by (rule sealed_compute [OF args _ E(2)]) (use t(2,4) E(1) in \<open>auto simp: span_call_def span_emitter_def Let_def\<close>)
        then show ?thesis
          using assms(1) float_free_dget [of _ OTEL_BLOCK_KEY] float_block [OF b assms(2-4)]
          unfolding seal_refuses_floats_def by metis
      qed
      then obtain e where "emit_capsule cx args st = (Inl e, st)" using failed_seal_keeps_state by blast
      then show ?thesis using Inr by (simp add: emit_tool_def emit_planned_def)
    qed
  qed
  have name: "\<not> blank (if sf_name f = [] then ''unknown'' else sf_name f)" using assms(5) by auto
  have "\<exists>c. classify_span_signal_1 ps n A = Inr c" if "\<not> blank n" for n A
    using that by (auto simp: classify_span_signal_1_def connector_event_of_def split: json.splits)
  with name obtain c where "classify_span_signal_1 ps (if sf_name f = [] then ''unknown'' else sf_name f) (sf_attributes f) = Inr c"
    by blast
  then show ?thesis
    using sealed unfolding process_span_facts_def Let_def
    by (cases c) (fastforce split: sum.splits)+
qed


section \<open>Witnesses\<close>

definition span_text :: py_str_env where
  "span_text = \<lparr>ps_upper = (\<lambda>s. s), ps_show = (\<lambda>_. ''v'')\<rparr>"

definition demo_span :: span_facts where
  "demo_span = \<lparr>sf_name = ''charge'', sf_attributes = [(''gen_ai.request.model'', JStr ''m''), (''gen_ai.response.id'', JStr ''r'')],
     sf_resource_attributes = [(''service.name'', JStr ''s'')], sf_trace_id = replicate 31 (CHR ''0'') @ ''1'',
     sf_span_id = replicate 15 (CHR ''0'') @ ''1'', sf_parent_span_id = None, sf_trace_flags = Some ''01'',
     sf_tracestate = Some ''k=v'', sf_status_is_error = False, sf_baggage = []\<rparr>"

definition demo_span_args :: span_args where
  "demo_span_args = \<lparr>sa_operator = ''o'', sa_developer = ''d'', sa_anchor = None, sa_clear_trace_context = False,
     sa_semconv_source = DEFAULT_SEMCONV_SOURCE, sa_baggage_keys = [], sa_admit_conditional = [], sa_provenance_mode = None,
     sa_extra_compute = []\<rparr>"

abbreviation leaky_attributes :: dict where
  "leaky_attributes \<equiv> sf_attributes demo_span @ [(''gen_ai.input.messages'', JStr ''secret''), (''enduser.id'', JStr ''u'')]"

lemma denied_attributes_never_leave_witness:
  "process_span_facts gate_cx span_text demo_span_args
     (demo_span\<lparr>sf_attributes := leaky_attributes, sf_resource_attributes := sf_resource_attributes demo_span @ [(''host.name'', JStr ''h'')],
        sf_baggage := [(''user'', JStr ''u'')]\<rparr>) pickup_state =
   process_span_facts gate_cx span_text demo_span_args demo_span pickup_state"
proof (rule denied_attributes_never_leave)
  show "table_part SEMCONV_ATTRS leaky_attributes = table_part SEMCONV_ATTRS (sf_attributes demo_span)" by code_simp
  show "table_part RESOURCE_ATTRS (sf_resource_attributes demo_span @ [(''host.name'', JStr ''h'')]) =
      table_part RESOURCE_ATTRS (sf_resource_attributes demo_span)" by code_simp
  show "filter (\<lambda>(k, v). k \<in> set (sa_baggage_keys demo_span_args)) [(''user'', JStr ''u'')] =
      filter (\<lambda>(k, v). k \<in> set (sa_baggage_keys demo_span_args)) (sf_baggage demo_span)" by code_simp
  show "classify_span_signal_1 span_text (if sf_name demo_span = [] then ''unknown'' else sf_name demo_span) leaky_attributes =
      classify_span_signal_1 span_text (if sf_name demo_span = [] then ''unknown'' else sf_name demo_span) (sf_attributes demo_span)"
    by code_simp
qed

lemma otel_block_is_allow_listed_witness:
  "\<exists>block. build_otel_block (ec_env gate_cx) span_text ''charge'' demo_span False SEMCONV_ATTRS DEFAULT_SEMCONV_SOURCE [] = Inr block \<and>
     set (map fst block) \<subseteq> set BLOCK_FIELDS \<and> ''span_name'' \<notin> set (map fst block)"
proof -
  let ?b = "build_otel_block (ec_env gate_cx) span_text ''charge'' demo_span False SEMCONV_ATTRS DEFAULT_SEMCONV_SOURCE []"
  have "isl ?b = False" by code_simp
  then obtain block where b: "?b = Inr block" by (cases ?b) auto
  then show ?thesis using otel_block_is_allow_listed [OF b] by blast
qed

lemma blank_span_name_raises_witness:
  "process_span_facts gate_cx span_text demo_span_args (demo_span\<lparr>sf_name := '' ''\<rparr>) pickup_state = (Inl OtelValueError, pickup_state)"
proof (rule blank_span_name_raises)
  show "sf_name (demo_span\<lparr>sf_name := '' ''\<rparr>) \<noteq> []" by simp
  show "blank (sf_name (demo_span\<lparr>sf_name := '' ''\<rparr>))" by code_simp
qed

definition float_cx :: emit_ctx where
  "float_cx = gate_cx\<lparr>ec_env := (ec_env gate_cx)\<lparr>em_seal := (\<lambda>x.
     (case xa_model x of
        None \<Rightarrow> Inr (gate_members x)
      | Some m \<Rightarrow> (case xm_compute m of
                    None \<Rightarrow> Inr (gate_members x)
                  | Some c \<Rightarrow> if float_free (JObj c) then Inr (gate_members x) else Inl emit_exn.FloatInDigestError)))\<rparr>\<rparr>"

abbreviation warm_span :: span_facts where
  "warm_span \<equiv> demo_span\<lparr>sf_attributes := [(''gen_ai.request.temperature'', JFloat (FFin False [7] 0))]\<rparr>"

lemma float_attribute_is_never_sealed_witness:
  "process_span_facts float_cx span_text demo_span_args warm_span pickup_state = (Inr None, pickup_state)"
proof (rule float_attribute_is_never_sealed)
  show "seal_refuses_floats (ec_env float_cx)" by (simp add: seal_refuses_floats_def float_cx_def)
  show "(''gen_ai.request.temperature'', JFloat (FFin False [7] 0)) \<in> set (sf_attributes warm_span)" by simp
  show "distinct (map fst (sf_attributes warm_span))" by simp
  show "map_of SEMCONV_ATTRS ''gen_ai.request.temperature'' = Some CLEAR_SAFE" by code_simp
  show "\<not> blank (sf_name warm_span)" by code_simp
  show "distinct (map fst (sa_extra_compute demo_span_args))" by code_simp
qed

end
