(* ===== verification/Disclose.thy ===== *)
theory Disclose
  imports Approval Artifact_Record Python_Values "HOL-Library.AList"
begin

text \<open>
  \<open>disclose.py\<close>, \<open>disclosure.py\<close> and \<open>record_proof.py\<close>: the selection of records, the originals of a store, the completeness
  statement, the sealed disclosure record and the verification of a disclosure by a stranger.  The proof of a record and
  the integrity of its log are CLL's, the envelope builder and the grade of a signature \<open>agent_action_capsule\<close>'s: they
  are shown of \<open>disclose_env\<close>.  An error is its reason; the ids of the ledger's lines are texts.
\<close>

section \<open>Errors and parameters\<close>

datatype disclose_reason =
    BadPayloadsMode
  | EmptyLedger
  | NoRecordMatches string
  | AmbiguousPrefix string
  | BackwardsRange
  | NotSelected string
  | UnknownRevealField string string
  | UnknownSuppressField
  | RevealedAndSuppressed string
  | LegacyStoreRefused
  | StoreFailed string artifact_error
  | IncompletePayloads "(string \<times> string) list"
  | CannotBundle string
  | EnvelopeRefused string
  | NullMismatch string string

datatype disclose_exn =
    DiscloseError disclose_reason
  | DiscloseAttributeError
  | DiscloseTypeError
  | DiscloseValueError
  | DiscloseSignError emit_exn
  | DiscloseLedgerError ledger_error

datatype envelope_exn = EnvelopeValueError | EnvelopeAttributeError

datatype authorship = AUTHORED | UNCLAIMED | INVALID

text \<open>CLL's \<open>Bundle\<close>: its receipt, the id it is for and the rest of it.\<close>

record record_proof =
  rp_receipt :: dict
  rp_capsule_id :: string
  rp_log :: json

record disclose_env =
  dz_emit :: emit_env
  dz_ledger :: witness_env
  dz_json :: json_env
  dz_now :: string
  dz_prove :: "dict list \<Rightarrow> string \<Rightarrow> record_proof option"
  dz_log_ok :: "record_proof \<Rightarrow> bool \<times> string list"
  dz_authorship :: "dict \<Rightarrow> authorship \<times> string list"
  dz_envelope :: "dict \<Rightarrow> dict \<Rightarrow> envelope_exn + dict"
  dz_int_float_eq :: "int \<Rightarrow> pyfloat \<Rightarrow> bool"

section \<open>\<open>record_proof.py\<close>\<close>

definition prove_record :: "disclose_env \<Rightarrow> dict list \<Rightarrow> string \<Rightarrow> record_proof option" where
  "prove_record env L i = (if L = [] then None else dz_prove env L i)"

datatype proof_finding =
    ReceiptIdMismatch
  | ReceiptNotHashable
  | ReceiptTampered
  | AuthorshipFinding string
  | AuthorshipNotClaimed
  | LogFinding string

definition receipt_findings :: "disclose_env \<Rightarrow> record_proof \<Rightarrow> bool \<times> proof_finding list" where
  "receipt_findings env b =
     (let carried = dget (rp_receipt b) ''capsule_id'';
          ids = (if carried \<noteq> JStr (rp_capsule_id b) then [ReceiptIdMismatch] else []);
          hash = (case compute_capsule_id (dz_emit env) (rp_receipt b) of
                    Inl e \<Rightarrow> [ReceiptNotHashable]
                  | Inr h \<Rightarrow> if JStr h \<noteq> carried then [ReceiptTampered] else [])
      in (case dz_authorship env (rp_receipt b) of
            (INVALID, msgs) \<Rightarrow> (False, ids @ hash @ map AuthorshipFinding msgs)
          | (UNCLAIMED, msgs) \<Rightarrow> (ids @ hash = [], ids @ hash @ [AuthorshipNotClaimed])
          | (AUTHORED, msgs) \<Rightarrow> (ids @ hash = [], ids @ hash)))"

definition verify_record_proof :: "disclose_env \<Rightarrow> record_proof \<Rightarrow> bool \<times> proof_finding list" where
  "verify_record_proof env b =
     (let (ok, findings) = receipt_findings env b; (log_ok, msgs) = dz_log_ok env b
      in (ok \<and> log_ok, findings @ map LogFinding msgs))"

section \<open>\<open>disclosure.py\<close>\<close>

definition DISCLOSURE_ELIGIBLE_FIELDS :: "(string \<times> string) list" where
  "DISCLOSURE_ELIGIBLE_FIELDS =
     [(''agent_input'', ''agent_input_digest''), (''agent_output'', ''agent_output_digest'')]"

definition envelope_dict :: "dict \<Rightarrow> dict \<Rightarrow> dict" where
  "envelope_dict capsule disclosures = [(''capsule'', JObj capsule), (''disclosures'', JObj disclosures)]"

text \<open>A value that is \<open>JNull\<close> is the argument \<open>None\<close>: withheld.\<close>

definition build_disclosure_envelope ::
    "disclose_env \<Rightarrow> dict \<Rightarrow> json \<Rightarrow> json \<Rightarrow> bool \<Rightarrow> envelope_exn + dict" where
  "build_disclosure_envelope env capsule agent_input agent_output strict =
     (let disclosures = filter (\<lambda>(k, v). v \<noteq> JNull) [(''agent_input'', agent_input), (''agent_output'', agent_output)]
      in if \<not> strict then Inr (envelope_dict capsule disclosures) else dz_envelope env capsule disclosures)"

section \<open>Selection\<close>

definition has_cid :: "string \<Rightarrow> dict \<Rightarrow> bool" where
  "has_cid i r \<longleftrightarrow> dget r ''capsule_id'' = JStr i"

definition cid_of :: "dict \<Rightarrow> string" where
  "cid_of r = (case dget r ''capsule_id'' of JStr i \<Rightarrow> i | _ \<Rightarrow> [])"

definition token_matches :: "string \<Rightarrow> dict \<Rightarrow> bool" where
  "token_matches token r \<longleftrightarrow>
     has_cid token r \<or> (8 \<le> length (code_points token) \<and> prefix token (cid_of r))"

definition match_one :: "dict list \<Rightarrow> string \<Rightarrow> disclose_exn + (nat \<times> dict)" where
  "match_one records tok =
     (let token = py_strip tok;
          matches = filter (\<lambda>(i, r). token_matches token r) (enumerate 0 records)
      in (case matches of
            [] \<Rightarrow> Inl (DiscloseError (NoRecordMatches token))
          | m # ms \<Rightarrow>
              (case filter (\<lambda>(i, r). has_cid token r) matches of
                 e # es \<Rightarrow> Inr e
               | [] \<Rightarrow> if ms \<noteq> [] then Inl (DiscloseError (AmbiguousPrefix token)) else Inr m)))"

text \<open>\<open>partition("..")\<close> and \<open>split(",")\<close>.\<close>

fun partition_dots :: "string \<Rightarrow> (string \<times> string) option" where
  "partition_dots (a # b # s) =
     (if a = CHR ''.'' \<and> b = CHR ''.'' then Some ([], s)
      else map_option (\<lambda>(l, r). (a # l, r)) (partition_dots (b # s)))"
| "partition_dots _ = None"

fun comma_parts :: "string \<Rightarrow> string list" where
  "comma_parts [] = [[]]"
| "comma_parts (c # s) =
     (if c = CHR '','' then [] # comma_parts s
      else (case comma_parts s of [] \<Rightarrow> [[c]] | t # ts \<Rightarrow> (c # t) # ts))"

datatype records_mode = Contiguous | ProducerSelected

text \<open>The position that \<open>order\<close> gives an id: that of its last record.\<close>

fun last_pos :: "string \<Rightarrow> dict list \<Rightarrow> nat" where
  "last_pos i [] = 0"
| "last_pos i (r # rs) = (if list_ex (has_cid i) rs then Suc (last_pos i rs) else 0)"

definition pick_one :: "dict list \<Rightarrow> dict list \<Rightarrow> string \<Rightarrow> disclose_exn + dict list" where
  "pick_one records picked tok =
     sbind (match_one records tok) (\<lambda>(i, r). Inr (if list_ex (has_cid (cid_of r)) picked then picked else picked @ [r]))"

definition resolve_selector :: "dict list \<Rightarrow> string \<Rightarrow> disclose_exn + (dict list \<times> records_mode)" where
  "resolve_selector records selector =
     (case partition_dots selector of
        Some (left, right) \<Rightarrow>
          sbind (match_one records left) (\<lambda>(i0, r0).
          sbind (match_one records right) (\<lambda>(i1, r1).
            if i1 < i0 then Inl (DiscloseError BackwardsRange)
            else Inr (take (Suc i1 - i0) (drop i0 records), Contiguous)))
      | None \<Rightarrow>
          if CHR '','' \<in> set selector then
            sbind (foldM_r (pick_one records) [] (filter (\<lambda>t. \<not> blank t) (comma_parts selector))) (\<lambda>picked.
              Inr (sort_key (\<lambda>r. last_pos (cid_of r) records) picked, ProducerSelected))
          else sbind (match_one records selector) (\<lambda>(i, r). Inr ([r], Contiguous)))"

section \<open>Payloads\<close>

text \<open>\<open>v.get(k)\<close> and \<open>v or {}\<close> of a decoded value.\<close>

definition py_get :: "json \<Rightarrow> string \<Rightarrow> disclose_exn + json" where
  "py_get v k = (case v of JObj d \<Rightarrow> Inr (dget d k) | _ \<Rightarrow> Inl DiscloseAttributeError)"

definition or_obj :: "json \<Rightarrow> json" where
  "or_obj v = (if truthy v then v else JObj [])"

definition attestation_of :: "dict \<Rightarrow> disclose_exn + json" where
  "attestation_of r =
     sbind (py_get (or_obj (dget r ''model_attestation'')) ''compute_attestation'') (\<lambda>v. Inr (or_obj v))"

type_synonym revealed = "(string \<times> dict) list"

definition supplied_for :: "revealed \<Rightarrow> string \<Rightarrow> dict" where
  "supplied_for reveal i = (case map_of reveal i of None \<Rightarrow> [] | Some d \<Rightarrow> d)"

text \<open>The shown of a record that hold a committed digest and are wanted.\<close>

definition committed_fields :: "json \<Rightarrow> (string \<Rightarrow> bool) \<Rightarrow> disclose_exn + string list" where
  "committed_fields ca wanted =
     foldM_r (\<lambda>acc (field, digest_field).
         if wanted field then sbind (py_get ca digest_field) (\<lambda>d. Inr (if truthy d then acc @ [field] else acc))
         else Inr acc)
       [] DISCLOSURE_ELIGIBLE_FIELDS"

definition missing_in :: "revealed \<Rightarrow> string list \<Rightarrow> dict \<Rightarrow> disclose_exn + (string \<times> string) list" where
  "missing_in reveal suppress r =
     sbind (attestation_of r) (\<lambda>ca.
     sbind (committed_fields ca (\<lambda>f. f \<notin> set suppress)) (\<lambda>fs.
       Inr (map (\<lambda>f. (cid_of r, f)) (filter (\<lambda>f. \<not> dhas (supplied_for reveal (cid_of r)) f) fs))))"

definition missing_for_all :: "dict list \<Rightarrow> revealed \<Rightarrow> string list \<Rightarrow> disclose_exn + (string \<times> string) list" where
  "missing_for_all records reveal suppress =
     sbind (mapM_r (missing_in reveal suppress) records) (\<lambda>ms. Inr (concat ms))"

section \<open>Originals of a store\<close>

datatype disclose_store = LegacyStore | OriginalsStore "string \<Rightarrow> artifact_error + art_record"

definition NOT_STORED :: string where "NOT_STORED = ''not_stored''"
definition UNDECLARED :: string where "UNDECLARED = ''undeclared''"

definition field_of_binding :: "string \<Rightarrow> string option" where
  "field_of_binding b =
     (if b = join_dots PAYLOAD_DIGEST then Some ''agent_input''
      else if b = join_dots AGENT_OUTPUT_DIGEST then Some ''agent_output''
      else None)"

definition artifact_for :: "artifact list \<Rightarrow> string \<Rightarrow> artifact option" where
  "artifact_for arts field =
     fold (\<lambda>a found. if field_of_binding (a_binding a) = Some field \<and> (found = None \<or> a_state a = PRESENT)
                      then Some a else found) arts None"

type_synonym unavailable = "(string \<times> (string \<times> string) list) list"

definition original_of :: "disclose_env \<Rightarrow> artifact list \<Rightarrow> string \<Rightarrow> disclose_exn + (json + string)" where
  "original_of env arts field =
     (case artifact_for arts field of
        None \<Rightarrow> Inr (Inr UNDECLARED)
      | Some a \<Rightarrow>
          if a_state a \<noteq> PRESENT then Inr (Inr (a_state a))
          else (case a_content a of
                  None \<Rightarrow> Inl DiscloseTypeError
                | Some c \<Rightarrow> (case decode_strict_json (dz_json env) c of
                              None \<Rightarrow> Inl DiscloseValueError
                            | Some v \<Rightarrow> Inr (Inl v))))"

text \<open>The originals of one record, and the states of the shown without one.\<close>

definition store_reads ::
    "disclose_env \<Rightarrow> (string \<Rightarrow> artifact_error + art_record) \<Rightarrow> revealed \<Rightarrow> string list \<Rightarrow> dict \<Rightarrow>
     disclose_exn + (dict \<times> (string \<times> string) list)" where
  "store_reads env get reveal suppress r =
     (let i = cid_of r in
      sbind (attestation_of r) (\<lambda>ca.
      sbind (committed_fields ca (\<lambda>f. True)) (\<lambda>fs.
        let committed = filter (\<lambda>f. \<not> dhas (supplied_for reveal i) f \<and> f \<notin> set suppress) fs in
        if committed = [] then Inr ([], [])
        else (case get i of
                Inl NotFoundError \<Rightarrow> Inr ([], map (\<lambda>f. (f, NOT_STORED)) committed)
              | Inl e \<Rightarrow> Inl (DiscloseError (StoreFailed i e))
              | Inr stored \<Rightarrow>
                  sbind (mapM_r (\<lambda>f. sbind (original_of env (ar_artifacts stored) f) (\<lambda>x. Inr (f, x))) committed) (\<lambda>xs.
                    Inr (concat (map (\<lambda>(f, x). case x of Inl v \<Rightarrow> [(f, v)] | Inr s \<Rightarrow> []) xs),
                         concat (map (\<lambda>(f, x). case x of Inl v \<Rightarrow> [] | Inr s \<Rightarrow> [(f, s)]) xs)))))))"

definition store_originals ::
    "disclose_env \<Rightarrow> disclose_store \<Rightarrow> dict list \<Rightarrow> revealed \<Rightarrow> string list \<Rightarrow> disclose_exn + (revealed \<times> unavailable)" where
  "store_originals env store records reveal suppress =
     (case store of
        LegacyStore \<Rightarrow> Inl (DiscloseError LegacyStoreRefused)
      | OriginalsStore get \<Rightarrow>
          sbind (mapM_r (\<lambda>r. sbind (store_reads env get reveal suppress r) (\<lambda>x. Inr (cid_of r, x))) records) (\<lambda>xs.
            Inr (concat (map (\<lambda>(i, found, states). if found = [] then [] else [(i, found)]) xs),
                 concat (map (\<lambda>(i, found, states). if states = [] then [] else [(i, states)]) xs))))"

section \<open>The completeness statement\<close>

abbreviation ellipsis :: string where "ellipsis \<equiv> [CHR 0xE2, CHR 0x80, CHR 0xA6]"
abbreviation em_dash :: string where "em_dash \<equiv> [CHR 0xE2, CHR 0x80, CHR 0x94]"

definition id_head :: "dict \<Rightarrow> string" where
  "id_head r = concat (take 12 (code_points (cid_of r))) @ ellipsis"

fun join_comma :: "string list \<Rightarrow> string" where
  "join_comma [] = []"
| "join_comma [s] = s"
| "join_comma (s # t # ts) = s @ '', '' @ join_comma (t # ts)"

definition mode_text :: "records_mode \<Rightarrow> string" where
  "mode_text m = (case m of Contiguous \<Rightarrow> ''contiguous'' | ProducerSelected \<Rightarrow> ''producer-selected'')"

definition records_note :: "dict list \<Rightarrow> records_mode \<Rightarrow> string" where
  "records_note records m =
     (let n = nat_str (length records) in
      if m = Contiguous then
        if length records = 1
        then ''1 record ('' @ id_head (hd records) @ '') '' @ em_dash @ '' contiguous, nothing omitted''
        else n @ '' of '' @ n @ '' record(s), '' @ id_head (hd records) @ ''..'' @ id_head (last records) @ '' '' @ em_dash
          @ '' contiguous, nothing omitted''
      else n @ '' producer-selected record(s), explicit list '' @ em_dash @ '' not a bound range'')"

definition payloads_note :: "string \<Rightarrow> string list \<Rightarrow> unavailable \<Rightarrow> string" where
  "payloads_note payloads suppress unavailable =
     (if payloads = ''all'' then ''every eligible payload field disclosed for every selected record''
      else ''producer-selected payload field(s) only'')
     @ (if suppress = [] then []
        else ''; '' @ nat_str (length suppress) @ '' field(s) explicitly suppressed for this audience: '' @ join_comma suppress)
     @ (if unavailable = [] then []
        else ''; '' @ nat_str (sum_list (map (\<lambda>(i, fs). length fs) unavailable))
          @ '' committed field(s) not disclosed because the artifact store could not supply the original (see unavailable)'')"

definition completeness_of :: "dict list \<Rightarrow> records_mode \<Rightarrow> string \<Rightarrow> string list \<Rightarrow> unavailable \<Rightarrow> dict" where
  "completeness_of records m payloads suppress unavailable =
     [(''records_mode'', JStr (mode_text m)), (''records_note'', JStr (records_note records m)),
      (''payloads_mode'', JStr payloads), (''payloads_note'', JStr (payloads_note payloads suppress unavailable))]
     @ (if unavailable = [] then []
        else [(''unavailable'', JObj (map (\<lambda>(i, fs). (i, JObj (map (\<lambda>(f, s). (f, JStr s)) fs))) unavailable))])"

section \<open>\<open>disclose\<close>\<close>

definition DISCLOSURE_RECORD_KIND :: string where
  "DISCLOSURE_RECORD_KIND = ''disclosure_record''"

record disclosure =
  di_v :: int
  di_audience :: string
  di_record_ids :: "string list"
  di_bundles :: "(string \<times> record_proof) list"
  di_envelopes :: "(string \<times> json) list"
  di_completeness :: json
  di_suppressed_fields :: "string list"
  di_record :: dict

record disclose_args =
  da_selector :: string
  da_audience :: string
  da_payloads :: string
  da_reveal :: revealed
  da_suppress :: "string list"
  da_store :: "disclose_store option"

definition each :: "('a \<Rightarrow> 'e + unit) \<Rightarrow> 'a list \<Rightarrow> 'e + unit" where
  "each f xs = foldM_r (\<lambda>u x. f x) () xs"

definition check_reveal :: "string list \<Rightarrow> revealed \<Rightarrow> disclose_exn + unit" where
  "check_reveal selected_ids reveal =
     each (\<lambda>(i, shown).
         sbind (ensure (i \<in> set selected_ids) (DiscloseError (NotSelected i))) (\<lambda>_.
           each (\<lambda>(f, v). ensure (f \<in> fst ` set DISCLOSURE_ELIGIBLE_FIELDS) (DiscloseError (UnknownRevealField i f))) shown))
       reveal"

definition check_suppress :: "revealed \<Rightarrow> string list \<Rightarrow> disclose_exn + unit" where
  "check_suppress reveal suppress =
     sbind (ensure (set suppress \<subseteq> fst ` set DISCLOSURE_ELIGIBLE_FIELDS) (DiscloseError UnknownSuppressField)) (\<lambda>_.
       each (\<lambda>(i, shown). ensure (\<not> list_ex (\<lambda>(f, v). f \<in> set suppress) shown) (DiscloseError (RevealedAndSuppressed i)))
         reveal)"

text \<open>\<open>sorted(suppress_set)\<close>, the known shown of which are in this order.\<close>

definition suppressed_sorted :: "string list \<Rightarrow> string list" where
  "suppressed_sorted suppress = filter (\<lambda>f. f \<in> set suppress) (map fst DISCLOSURE_ELIGIBLE_FIELDS)"

definition add_originals :: "revealed \<Rightarrow> revealed \<Rightarrow> revealed" where
  "add_originals reveal originals =
     fold (\<lambda>(i, shown) acc. AList.update i (dict_update (supplied_for acc i) shown) acc) originals reveal"

definition add_null :: "disclose_env \<Rightarrow> dict \<Rightarrow> dict \<Rightarrow> json \<Rightarrow> dict \<Rightarrow> string \<times> string \<Rightarrow> disclose_exn + dict" where
  "add_null env r shown ca envelope m =
     (if dhas shown (fst m) \<and> dget shown (fst m) = JNull then
        sbind (py_get ca (snd m)) (\<lambda>stored.
          (case em_json_digest (dz_emit env) JNull of
             None \<Rightarrow> Inl DiscloseValueError
           | Some h \<Rightarrow>
               if stored \<noteq> JStr h then Inl (DiscloseError (NullMismatch (cid_of r) (fst m)))
               else (case dget envelope ''disclosures'' of
                       JObj D \<Rightarrow> Inr (dict_set envelope ''disclosures'' (JObj (dict_set D (fst m) JNull)))
                     | _ \<Rightarrow> Inl DiscloseTypeError)))
      else Inr envelope)"

definition envelope_for :: "disclose_env \<Rightarrow> revealed \<Rightarrow> string list \<Rightarrow> dict \<Rightarrow> disclose_exn + dict" where
  "envelope_for env supplied suppress r =
     (let shown = filter (\<lambda>(f, v). f \<notin> set suppress) (supplied_for supplied (cid_of r)) in
      (case build_disclosure_envelope env r (dget shown ''agent_input'') (dget shown ''agent_output'') True of
         Inl EnvelopeValueError \<Rightarrow> Inl (DiscloseError (EnvelopeRefused (cid_of r)))
       | Inl EnvelopeAttributeError \<Rightarrow> Inl DiscloseAttributeError
       | Inr envelope \<Rightarrow>
           sbind (attestation_of r) (\<lambda>ca. foldM_r (add_null env r shown ca) envelope DISCLOSURE_ELIGIBLE_FIELDS)))"

definition bundle_record ::
    "disclose_env \<Rightarrow> dict list \<Rightarrow> revealed \<Rightarrow> string list \<Rightarrow> dict \<Rightarrow> disclose_exn + (string \<times> record_proof \<times> dict)" where
  "bundle_record env L supplied suppress r =
     (case prove_record env L (cid_of r) of
        None \<Rightarrow> Inl (DiscloseError (CannotBundle (cid_of r)))
      | Some b \<Rightarrow> sbind (envelope_for env supplied suppress r) (\<lambda>e. Inr (cid_of r, b, e)))"

definition disclosed_keys :: "dict \<Rightarrow> disclose_exn + json" where
  "disclosed_keys envelope =
     (case dget envelope ''disclosures'' of
        JObj D \<Rightarrow> Inr (JArr (map JStr (sort (map fst D))))
      | _ \<Rightarrow> Inl DiscloseAttributeError)"

definition seal_record :: "disclose_env \<Rightarrow> dict \<Rightarrow> disclose_exn + dict" where
  "seal_record env d =
     (case compute_capsule_id (dz_emit env) d of
        Inl e \<Rightarrow> Inl (DiscloseSignError e)
      | Inr i \<Rightarrow>
          (case em_sign (dz_emit env) i of
             Inl e \<Rightarrow> Inl (DiscloseSignError e)
           | Inr (s, k) \<Rightarrow>
               Inr (dict_set (dict_set (dict_set d ''capsule_id'' (JStr i)) ''signature'' (JStr s)) ''key_id'' (JStr k))))"

definition record_body ::
    "disclose_env \<Rightarrow> disclose_args \<Rightarrow> dict list \<Rightarrow> (string \<times> json) list \<Rightarrow> string list \<Rightarrow> dict \<Rightarrow> dict" where
  "record_body env a selected keys suppressed completeness =
     [(''kind'', JStr DISCLOSURE_RECORD_KIND), (''v'', JInt 1), (''audience'', JStr (da_audience a)),
      (''selector'', JStr (da_selector a)), (''disclosed_capsule_ids'', JArr (map (\<lambda>r. JStr (cid_of r)) selected)),
      (''disclosed_fields'', JObj keys), (''suppressed_fields'', JArr (map JStr suppressed)),
      (''completeness'', JObj completeness), (''timestamp'', JStr (dz_now env))]"

definition supplied_of ::
    "disclose_env \<Rightarrow> disclose_args \<Rightarrow> dict list \<Rightarrow> disclose_exn + (revealed \<times> unavailable)" where
  "supplied_of env a selected =
     (case da_store a of
        None \<Rightarrow> Inr (da_reveal a, [])
      | Some s \<Rightarrow>
          sbind (store_originals env s selected (da_reveal a) (da_suppress a)) (\<lambda>(originals, unavailable).
            Inr (add_originals (da_reveal a) originals, unavailable)))"

definition all_supplied :: "disclose_args \<Rightarrow> dict list \<Rightarrow> revealed \<Rightarrow> disclose_exn + unit" where
  "all_supplied a selected supplied =
     (if da_payloads a = ''all'' then
        sbind (missing_for_all selected supplied (da_suppress a)) (\<lambda>missing.
          ensure (missing = []) (DiscloseError (IncompletePayloads missing)))
      else Inr ())"

text \<open>The disclosure of a selection, and the ledger with its record.\<close>

definition finish_disclosure ::
    "disclose_env \<Rightarrow> disclose_args \<Rightarrow> dict list \<Rightarrow> dict list \<Rightarrow> records_mode \<Rightarrow> revealed \<Rightarrow> unavailable \<Rightarrow>
     disclose_exn + (disclosure \<times> dict list)" where
  "finish_disclosure env a L selected m supplied unavailable =
     sbind (mapM_r (bundle_record env L supplied (da_suppress a)) selected) (\<lambda>bs.
     sbind (mapM_r (\<lambda>(i, b, e). sbind (disclosed_keys e) (\<lambda>ks. Inr (i, ks))) bs) (\<lambda>keys.
       let suppressed = suppressed_sorted (da_suppress a);
           completeness = completeness_of selected m (da_payloads a) suppressed unavailable in
       sbind (seal_record env (record_body env a selected keys suppressed completeness)) (\<lambda>rec.
         (case append_entry (dz_ledger env) rec L of
            Inl e \<Rightarrow> Inl (DiscloseLedgerError e)
          | Inr L' \<Rightarrow>
              Inr (\<lparr>di_v = 1, di_audience = da_audience a, di_record_ids = map cid_of selected,
                    di_bundles = map (\<lambda>(i, b, e). (i, b)) bs, di_envelopes = map (\<lambda>(i, b, e). (i, JObj e)) bs,
                    di_completeness = JObj completeness, di_suppressed_fields = suppressed, di_record = rec\<rparr>, L')))))"

definition disclose :: "disclose_env \<Rightarrow> disclose_args \<Rightarrow> dict list \<Rightarrow> disclose_exn + (disclosure \<times> dict list)" where
  "disclose env a L =
     sbind (ensure (da_payloads a = ''all'' \<or> da_payloads a = ''selected'') (DiscloseError BadPayloadsMode)) (\<lambda>_.
     sbind (ensure (read_capsules L \<noteq> []) (DiscloseError EmptyLedger)) (\<lambda>_.
     sbind (resolve_selector (read_capsules L) (da_selector a)) (\<lambda>(selected, m).
     sbind (check_reveal (map cid_of selected) (da_reveal a)) (\<lambda>_.
     sbind (check_suppress (da_reveal a) (da_suppress a)) (\<lambda>_.
     sbind (supplied_of env a selected) (\<lambda>(supplied, unavailable).
     sbind (all_supplied a selected supplied) (\<lambda>_.
       finish_disclosure env a L selected m supplied unavailable)))))))"

section \<open>\<open>verify_disclosure\<close>\<close>

datatype disclosure_finding =
    RecordSignature
  | AudienceMismatch
  | RecordIdsMismatch
  | CompletenessMismatch
  | SuppressedMismatch
  | MissingBundle string
  | ProofFinding string proof_finding
  | NoCommittedDigest string string
  | NotCanonical string string
  | PayloadMismatch string string
  | UnexpectedError

text \<open>\<open>list(v)\<close> of a decoded value; \<open>None\<close> where it raises.\<close>

definition list_of_value :: "json \<Rightarrow> json list option" where
  "list_of_value v = (case v of JArr vs \<Rightarrow> Some vs | JStr s \<Rightarrow> Some (map JStr (code_points s)) | JObj d \<Rightarrow> Some (map (JStr \<circ> fst) d)
     | _ \<Rightarrow> None)"

text \<open>The findings of a step, or those before the exception that ends it.\<close>

type_synonym findings = "disclosure_finding list + disclosure_finding list"

definition check_field :: "disclose_env \<Rightarrow> string \<Rightarrow> json \<Rightarrow> disclosure_finding list \<Rightarrow> string \<times> json \<Rightarrow> findings" where
  "check_field env i ca fs m =
     (case map_of DISCLOSURE_ELIGIBLE_FIELDS (fst m) of
        None \<Rightarrow> Inr (fs @ [NoCommittedDigest i (fst m)])
      | Some digest_field \<Rightarrow>
          (case py_get ca digest_field of
             Inl e \<Rightarrow> Inl fs
           | Inr stored \<Rightarrow>
               if stored = JNull then Inr (fs @ [NoCommittedDigest i (fst m)])
               else (case em_json_digest (dz_emit env) (snd m) of
                       None \<Rightarrow> Inr (fs @ [NotCanonical i (fst m)])
                     | Some h \<Rightarrow> Inr (if stored \<noteq> JStr h then fs @ [PayloadMismatch i (fst m)] else fs))))"

definition check_record :: "disclose_env \<Rightarrow> disclosure \<Rightarrow> disclosure_finding list \<Rightarrow> string \<Rightarrow> findings" where
  "check_record env d fs i =
     (case map_of (di_bundles d) i of
        None \<Rightarrow> Inr (fs @ [MissingBundle i])
      | Some b \<Rightarrow>
          let (ok, notes) = verify_record_proof env b;
              fs1 = (if ok then fs else fs @ map (ProofFinding i) notes);
              envelope = or_obj (case map_of (di_envelopes d) i of None \<Rightarrow> JNull | Some e \<Rightarrow> e)
          in (case (py_get envelope ''disclosures'', attestation_of (rp_receipt b)) of
                (Inr v, Inr ca) \<Rightarrow>
                  (case or_obj v of JObj D \<Rightarrow> foldM_r (check_field env i ca) fs1 D | _ \<Rightarrow> Inl fs1)
              | _ \<Rightarrow> Inl fs1))"

definition record_findings :: "disclose_env \<Rightarrow> disclosure \<Rightarrow> findings" where
  "record_findings env d =
     (let rec = di_record d;
          fs = (if fst (dz_authorship env rec) = AUTHORED then [] else [RecordSignature])
             @ (if dget rec ''audience'' = JStr (di_audience d) then [] else [AudienceMismatch]);
          ids = (if dhas rec ''disclosed_capsule_ids'' then list_of_value (dget rec ''disclosed_capsule_ids'') else Some [])
      in (case ids of
            None \<Rightarrow> Inl fs
          | Some vs \<Rightarrow>
              Inr (fs @ (if vs = map JStr (di_record_ids d) then [] else [RecordIdsMismatch])
                @ (if py_eq (dz_int_float_eq env) (di_completeness d) (dget rec ''completeness'') then []
                   else [CompletenessMismatch])
                @ (if dget rec ''suppressed_fields'' = JArr (map JStr (di_suppressed_fields d)) then []
                   else [SuppressedMismatch]))))"

definition verify_disclosure :: "disclose_env \<Rightarrow> disclosure \<Rightarrow> bool \<times> disclosure_finding list" where
  "verify_disclosure env d =
     (case sbind (record_findings env d) (\<lambda>fs. foldM_r (check_record env d) fs (di_record_ids d)) of
        Inl fs \<Rightarrow> (False, fs @ [UnexpectedError])
      | Inr fs \<Rightarrow> (fs = [], fs))"


section \<open>What a verified disclosure shows\<close>

lemma foldM_r_quiet:
  assumes "\<And>s x t. f s x = Inr t \<Longrightarrow> prefix s t"
  shows "foldM_r f s xs = Inr [] \<longleftrightarrow> s = [] \<and> (\<forall>x \<in> set xs. f [] x = Inr [])"
proof (induction xs arbitrary: s)
  case (Cons x xs)
  show ?case
  proof
    assume "foldM_r f s (x # xs) = Inr []"
    then obtain t where t: "f s x = Inr t" "foldM_r f t xs = Inr []" by (auto simp: res_simps)
    then have "t = []" "s = []" using assms [OF t(1)] Cons by auto
    then show "s = [] \<and> (\<forall>x \<in> set (x # xs). f [] x = Inr [])" using t Cons by auto
  qed (use Cons in auto)
qed simp

lemma check_field_grows: "check_field env i ca fs m = Inr fs' \<Longrightarrow> prefix fs fs'"
  by (auto simp: check_field_def split: option.splits sum.splits if_splits)

lemma foldM_r_grows:
  assumes "\<And>s x t. f s x = Inr t \<Longrightarrow> prefix s t" "foldM_r f s xs = Inr t"
  shows "prefix s t"
  using assms(2)
proof (induction xs arbitrary: s)
  case (Cons x xs)
  then show ?case by (auto simp: res_simps dest!: assms(1) intro: prefix_order.trans)
qed simp

lemma check_record_grows:
  assumes "check_record env d fs i = Inr fs'"
  shows "prefix fs fs'"
proof (cases "map_of (di_bundles d) i")
  case (Some b)
  have "prefix fs1 fs'" if "foldM_r (check_field env i ca) fs1 D = Inr fs'" for ca fs1 D
    by (rule foldM_r_grows [OF check_field_grows that])
  then have "prefix (if fst (verify_record_proof env b) then fs else fs @ map (ProofFinding i) (snd (verify_record_proof env b))) fs'"
    using assms Some by (auto simp: check_record_def Let_def split: prod.splits sum.splits json.splits if_splits)
  then show ?thesis by (auto split: if_splits dest: append_prefixD)
qed (use assms in \<open>auto simp: check_record_def\<close>)

text \<open>The disclosed values of a record, as the verifier reads them.\<close>

definition disclosures_of :: "disclosure \<Rightarrow> string \<Rightarrow> disclose_exn + json" where
  "disclosures_of d i =
     sbind (py_get (or_obj (case map_of (di_envelopes d) i of None \<Rightarrow> JNull | Some e \<Rightarrow> e)) ''disclosures'') (\<lambda>v. Inr (or_obj v))"

text \<open>A value is the preimage of the digest that an attestation holds for its field.\<close>

definition opens :: "disclose_env \<Rightarrow> json \<Rightarrow> string \<times> json \<Rightarrow> bool" where
  "opens env ca m \<longleftrightarrow> (\<exists>digest_field c h. map_of DISCLOSURE_ELIGIBLE_FIELDS (fst m) = Some digest_field \<and> ca = JObj c \<and>
     em_json_digest (dz_emit env) (snd m) = Some h \<and> dget c digest_field = JStr h)"

lemma check_field_quiet: "check_field env i ca [] m = Inr [] \<longleftrightarrow> opens env ca m"
  by (auto simp: check_field_def opens_def py_get_def split: option.splits json.splits)

text \<open>A refusal of CLL or of the envelope's verifier names a reason.\<close>

definition explains :: "disclose_env \<Rightarrow> bool" where
  "explains env \<longleftrightarrow> (\<forall>b. \<not> fst (dz_log_ok env b) \<longrightarrow> snd (dz_log_ok env b) \<noteq> []) \<and>
     (\<forall>r. fst (dz_authorship env r) = INVALID \<longrightarrow> snd (dz_authorship env r) \<noteq> [])"

lemma refused_proof_explained:
  assumes "explains env" "verify_record_proof env b = (False, notices)"
  shows "notices \<noteq> []"
proof -
  obtain a msgs where a: "dz_authorship env (rp_receipt b) = (a, msgs)" by fastforce
  obtain ok logs where l: "dz_log_ok env b = (ok, logs)" by fastforce
  have "\<not> ok \<longrightarrow> logs \<noteq> []" "a = INVALID \<longrightarrow> msgs \<noteq> []"
    using assms(1) a l unfolding explains_def by (metis fst_conv snd_conv)+
  then show ?thesis
    using assms(2) by (cases a) (auto simp: verify_record_proof_def receipt_findings_def Let_def a l split: sum.splits if_splits)
qed

lemma check_record_quiet:
  assumes "explains env"
  shows "check_record env d [] i = Inr [] \<longleftrightarrow>
    (\<exists>b ca D. map_of (di_bundles d) i = Some b \<and> fst (verify_record_proof env b) \<and> attestation_of (rp_receipt b) = Inr ca \<and>
       disclosures_of d i = Inr (JObj D) \<and> (\<forall>m \<in> set D. opens env ca m))"
proof (cases "map_of (di_bundles d) i")
  case (Some b)
  obtain ok notices where v: "verify_record_proof env b = (ok, notices)" by fastforce
  have quiet: "foldM_r (check_field env i ca) fs D = Inr [] \<longleftrightarrow> fs = [] \<and> (\<forall>m \<in> set D. opens env ca m)" for ca fs D
    by (simp add: foldM_r_quiet [OF check_field_grows] check_field_quiet)
  have "notices \<noteq> []" if "\<not> ok" using refused_proof_explained [OF assms] v that by simp
  then show ?thesis
    using Some v
    by (auto simp: check_record_def disclosures_of_def quiet res_simps split: sum.splits json.splits)
qed (simp add: check_record_def)

lemma verify_quiet:
  "verify_disclosure env d = (True, fs) \<longleftrightarrow>
    fs = [] \<and> record_findings env d = Inr [] \<and> (\<forall>i \<in> set (di_record_ids d). check_record env d [] i = Inr [])"
proof -
  have "foldM_r (check_record env d) gs (di_record_ids d) = Inr [] \<longleftrightarrow>
      gs = [] \<and> (\<forall>i \<in> set (di_record_ids d). check_record env d [] i = Inr [])" for gs
    by (rule foldM_r_quiet) (rule check_record_grows)
  note quiet = this
  show ?thesis
  proof (cases "record_findings env d")
    case (Inr gs)
    then show ?thesis
      using quiet [of gs] by (cases "foldM_r (check_record env d) gs (di_record_ids d)") (auto simp: verify_disclosure_def)
  qed (simp add: verify_disclosure_def)
qed

text \<open>The signed record says what the disclosure says.\<close>

definition statement_signed :: "disclose_env \<Rightarrow> disclosure \<Rightarrow> bool" where
  "statement_signed env d \<longleftrightarrow> fst (dz_authorship env (di_record d)) = AUTHORED \<and>
     dget (di_record d) ''audience'' = JStr (di_audience d) \<and>
     (if dhas (di_record d) ''disclosed_capsule_ids'' then list_of_value (dget (di_record d) ''disclosed_capsule_ids'') else Some [])
       = Some (map JStr (di_record_ids d)) \<and>
     py_eq (dz_int_float_eq env) (di_completeness d) (dget (di_record d) ''completeness'') \<and>
     dget (di_record d) ''suppressed_fields'' = JArr (map JStr (di_suppressed_fields d))"

lemma record_findings_quiet: "record_findings env d = Inr [] \<longleftrightarrow> statement_signed env d"
  by (auto simp: record_findings_def statement_signed_def Let_def split: option.splits if_splits)

section \<open>Properties of the verifier\<close>

text \<open>C24: a stranger who accepts a disclosure has a statement (audience, records, completeness, suppressed fields) that the
  producer signed, for every record a proof that its receipt hashes to its own id, carries no false claim of authorship
  and is in the log, and every disclosed value is the preimage of the digest committed on that receipt.\<close>

theorem verified_disclosure_is_committed:
  assumes "verify_disclosure env d = (True, fs)" "explains env"
  shows "statement_signed env d \<and>
    (\<forall>i \<in> set (di_record_ids d). \<exists>b ca D. map_of (di_bundles d) i = Some b \<and>
      dget (rp_receipt b) ''capsule_id'' = JStr (rp_capsule_id b) \<and>
      compute_capsule_id (dz_emit env) (rp_receipt b) = Inr (rp_capsule_id b) \<and>
      fst (dz_authorship env (rp_receipt b)) \<noteq> INVALID \<and> fst (dz_log_ok env b) \<and>
      attestation_of (rp_receipt b) = Inr ca \<and> disclosures_of d i = Inr (JObj D) \<and> (\<forall>m \<in> set D. opens env ca m))"
proof -
  have sound: "dget (rp_receipt b) ''capsule_id'' = JStr (rp_capsule_id b) \<and>
      compute_capsule_id (dz_emit env) (rp_receipt b) = Inr (rp_capsule_id b) \<and>
      fst (dz_authorship env (rp_receipt b)) \<noteq> INVALID \<and> fst (dz_log_ok env b)"
    if "fst (verify_record_proof env b)" for b
    using that
    by (auto simp: verify_record_proof_def receipt_findings_def Let_def split: prod.splits authorship.splits sum.splits if_splits)
  show ?thesis
    using assms(1) sound unfolding verify_quiet record_findings_quiet check_record_quiet [OF assms(2)] by blast
qed

text \<open>C25: what verification does not show.  The values of a disclosure that states that every payload is disclosed can be
  stripped, and the proof of a record replaced by any other proof that verifies, of another record too: the result still
  verifies under the producer's signature.  Neither the fields of the signed record nor its ids are compared with them.\<close>

theorem stripped_disclosure_verifies:
  assumes "verify_disclosure env d = (True, fs)" "explains env"
    "\<forall>i \<in> set (di_record_ids d). \<exists>b ca. map_of B i = Some b \<and> fst (verify_record_proof env b) \<and>
       attestation_of (rp_receipt b) = Inr ca"
  shows "verify_disclosure env (d\<lparr>di_bundles := B, di_envelopes := []\<rparr>) = (True, [])"
proof -
  have "disclosures_of (d\<lparr>di_bundles := B, di_envelopes := []\<rparr>) i = Inr (JObj [])" for i
    by (simp add: disclosures_of_def or_obj_def py_get_def dget_def)
  moreover have "statement_signed env (d\<lparr>di_bundles := B, di_envelopes := []\<rparr>) \<longleftrightarrow> statement_signed env d"
    by (simp add: statement_signed_def)
  ultimately show ?thesis
    using assms(1,3) unfolding verify_quiet record_findings_quiet check_record_quiet [OF assms(2)] by simp
qed


section \<open>What a selection is\<close>

lemma has_cid_cid_of: "has_cid i r \<Longrightarrow> cid_of r = i"
  by (simp add: has_cid_def cid_of_def)

text \<open>A token names one record: the one with that id or, for a prefix, the only one with that prefix.\<close>

definition names :: "dict list \<Rightarrow> string \<Rightarrow> dict \<Rightarrow> bool" where
  "names records tok r \<longleftrightarrow> r \<in> set records \<and> token_matches (py_strip tok) r \<and>
     (has_cid (py_strip tok) r \<or> (\<forall>r' \<in> set records. token_matches (py_strip tok) r' \<longrightarrow> r' = r))"

lemma match_one_Inr:
  assumes "match_one records tok = Inr (i, r)"
  shows "i < length records" "records ! i = r" "names records tok r"
proof -
  let ?t = "py_strip tok"
  let ?M = "filter (\<lambda>(i, r). token_matches ?t r) (enumerate 0 records)"
  let ?E = "filter (\<lambda>(i, r). has_cid ?t r) ?M"
  have M: "(j, q) \<in> set ?M \<longleftrightarrow> j < length records \<and> records ! j = q \<and> token_matches ?t q" for j q
    by (auto simp: in_set_enumerate_eq)
  have cases: "(i, r) \<in> set ?E \<or> ?M = [(i, r)]"
    using assms by (cases ?M; cases ?E) (auto simp: match_one_def Let_def split: if_splits)
  then have ir: "(i, r) \<in> set ?M"
  proof
    assume "(i, r) \<in> set ?E"
    then show ?thesis by simp
  next
    assume "?M = [(i, r)]"
    then show ?thesis by (metis list.set_intros(1))
  qed
  then show "i < length records" "records ! i = r" using M [of i r] by auto
  have "r' = r" if "?M = [(i, r)]" "r' \<in> set records" "token_matches ?t r'" for r'
  proof -
    obtain j where "j < length records" "records ! j = r'" using \<open>r' \<in> set records\<close> by (auto simp: in_set_conv_nth)
    then have "(j, r') \<in> set ?M" using M \<open>token_matches ?t r'\<close> by blast
    then show ?thesis using \<open>?M = [(i, r)]\<close> by simp
  qed
  moreover have "has_cid ?t r" if "(i, r) \<in> set ?E" using that by auto
  moreover have "token_matches ?t r" "r \<in> set records" using ir M [of i r] by auto
  ultimately show "names records tok r" using cases unfolding names_def by blast
qed

lemma pick_one_Inr:
  assumes "pick_one records picked tok = Inr picked'" "distinct (map cid_of picked)" "set picked \<subseteq> set records"
    "distinct (map cid_of records)" "\<forall>r \<in> set records. has_cid (cid_of r) r"
  obtains r where "names records tok r" "set picked' = insert r (set picked)" "distinct (map cid_of picked')"
proof -
  obtain i r where m: "match_one records tok = Inr (i, r)"
    and p: "picked' = (if list_ex (has_cid (cid_of r)) picked then picked else picked @ [r])"
    using assms(1) by (auto simp: pick_one_def res_simps)
  have r: "names records tok r" by (rule match_one_Inr [OF m])
  have same: "has_cid (cid_of r) q \<longleftrightarrow> q = r" if "q \<in> set records" for q
    using that r assms(4,5) unfolding names_def distinct_map by (metis has_cid_cid_of inj_onD)
  then have "list_ex (has_cid (cid_of r)) picked \<longleftrightarrow> r \<in> set picked"
    using assms(3) by (auto simp: list_ex_iff)
  moreover have "cid_of r \<notin> cid_of ` set picked" if "r \<notin> set picked"
  proof
    assume "cid_of r \<in> cid_of ` set picked"
    then obtain q where q: "q \<in> set picked" "cid_of q = cid_of r" by auto
    then have "q = r" using r assms(3,4) unfolding names_def distinct_map by (metis inj_onD subsetD)
    then show False using q(1) that by simp
  qed
  ultimately show ?thesis using that [OF r] p assms(2) by (cases "r \<in> set picked") (auto simp: insert_absorb)
qed

lemma foldM_pick_Inr:
  assumes "foldM_r (pick_one records) picked toks = Inr S" "distinct (map cid_of picked)" "set picked \<subseteq> set records"
    "distinct (map cid_of records)" "\<forall>r \<in> set records. has_cid (cid_of r) r"
  shows "distinct (map cid_of S) \<and> set S \<subseteq> set records \<and> set picked \<subseteq> set S \<and>
    (\<forall>t \<in> set toks. \<exists>r \<in> set S. names records t r) \<and> (\<forall>r \<in> set S - set picked. \<exists>t \<in> set toks. names records t r)"
  using assms(1-3)
proof (induction toks arbitrary: picked)
  case (Cons t toks)
  then obtain p where p: "pick_one records picked t = Inr p" "foldM_r (pick_one records) p toks = Inr S"
    by (auto simp: res_simps)
  obtain r where r: "names records t r" "set p = insert r (set picked)" "distinct (map cid_of p)"
    by (rule pick_one_Inr [OF p(1) Cons.prems(2,3) assms(4,5)])
  have "set p \<subseteq> set records" using r Cons.prems(3) by (auto simp: names_def)
  from Cons.IH [OF p(2) r(3) this] show ?case using r by auto
qed simp

lemma last_pos_nth:
  assumes "distinct (map cid_of records)" "\<forall>r \<in> set records. has_cid (cid_of r) r" "i < length records"
  shows "last_pos (cid_of (records ! i)) records = i"
  using assms
proof (induction records arbitrary: i)
  case (Cons r rs)
  show ?case
  proof (cases i)
    case 0
    have "\<not> has_cid (cid_of r) q" if "q \<in> set rs" for q
      using Cons.prems(1) that by (auto dest!: has_cid_cid_of) (metis imageI)
    then show ?thesis using 0 by (simp add: list_ex_iff)
  next
    case (Suc j)
    then have "list_ex (has_cid (cid_of (rs ! j))) rs" using Cons.prems by (auto simp: list_ex_iff intro!: bexI [of _ "rs ! j"])
    then show ?thesis using Suc Cons by simp
  qed
qed simp

lemma sort_by_position:
  assumes "distinct (map cid_of records)" "\<forall>r \<in> set records. has_cid (cid_of r) r" "set S \<subseteq> set records" "distinct S"
  shows "sort_key (\<lambda>r. last_pos (cid_of r) records) S = filter (\<lambda>r. r \<in> set S) records"
proof -
  let ?p = "\<lambda>r. last_pos (cid_of r) records"
  have nth: "?p (records ! i) = i" if "i < length records" for i by (rule last_pos_nth [OF assms(1,2) that])
  have inj: "inj_on ?p (set records)"
  proof (rule inj_onI)
    fix x y assume "x \<in> set records" "y \<in> set records" "?p x = ?p y"
    then show "x = y" using nth by (auto simp: in_set_conv_nth)
  qed
  have "map ?p records = [0..<length records]" by (rule nth_equalityI) (simp_all add: nth)
  then have "sorted (map ?p records)" by simp
  then have "sorted (map ?p (filter (\<lambda>r. r \<in> set S) records))" by (rule sorted_filter)
  moreover have "distinct records" using assms(1) by (simp add: distinct_map)
  then have "distinct (map ?p (filter (\<lambda>r. r \<in> set S) records))"
    using inj by (auto simp: distinct_map intro: inj_on_subset)
  moreover have "distinct (map ?p (sort_key ?p S))"
    using assms(3,4) inj by (simp add: distinct_map inj_on_subset)
  moreover have "set (map ?p (sort_key ?p S)) = set (map ?p (filter (\<lambda>r. r \<in> set S) records))" using assms(3) by auto
  ultimately have "map ?p (sort_key ?p S) = map ?p (filter (\<lambda>r. r \<in> set S) records)"
    by (intro sorted_distinct_set_unique) simp_all
  moreover have "inj_on ?p (set (sort_key ?p S) \<union> set (filter (\<lambda>r. r \<in> set S) records))"
    using inj assms(3) by (auto intro: inj_on_subset)
  ultimately show ?thesis by (rule map_inj_on)
qed


text \<open>The tokens of a selector that is an explicit list.\<close>

definition tokens_of :: "string \<Rightarrow> string list" where
  "tokens_of selector = filter (\<lambda>t. \<not> blank t) (comma_parts selector)"

lemma resolve_selector_spec:
  assumes "resolve_selector records selector = Inr (S, m)" "distinct (map cid_of records)"
    "\<forall>r \<in> set records. has_cid (cid_of r) r"
  shows "(m = Contiguous \<longrightarrow> S \<noteq> [] \<and> (\<exists>before after. records = before @ S @ after) \<and>
      (case partition_dots selector of
         Some (l, r) \<Rightarrow> names records l (hd S) \<and> names records r (last S)
       | None \<Rightarrow> names records selector (hd S) \<and> length S = 1)) \<and>
    (m = ProducerSelected \<longrightarrow> S = filter (\<lambda>r. r \<in> set S) records \<and>
      (\<forall>t \<in> set (tokens_of selector). \<exists>r \<in> set S. names records t r) \<and>
      (\<forall>r \<in> set S. \<exists>t \<in> set (tokens_of selector). names records t r))"
proof (cases "partition_dots selector")
  case (Some lr)
  obtain l r where lr: "lr = (l, r)" by fastforce
  obtain i0 r0 i1 r1 where m: "match_one records l = Inr (i0, r0)" "match_one records r = Inr (i1, r1)" "i0 \<le> i1"
    and S: "S = take (Suc i1 - i0) (drop i0 records)" "m = Contiguous"
    using assms(1) Some lr by (auto simp: resolve_selector_def res_simps split: if_splits)
  note l = match_one_Inr [OF m(1)] and r = match_one_Inr [OF m(2)]
  have "records = take i0 records @ S @ drop (Suc i1 - i0) (drop i0 records)"
    by (simp only: S(1) append_take_drop_id)
  moreover have "length S = Suc i1 - i0" using r(1) by (simp add: S(1))
  then have "S \<noteq> []" "hd S = records ! i0" "last S = records ! i1"
    using m(3) r(1) S(1) by (auto simp: hd_conv_nth last_conv_nth)
  ultimately show ?thesis using Some lr l r S(2) by auto
next
  case None
  show ?thesis
  proof (cases "CHR '','' \<in> set selector")
    case True
    then obtain P where P: "foldM_r (pick_one records) [] (tokens_of selector) = Inr P"
      and S: "S = sort_key (\<lambda>r. last_pos (cid_of r) records) P" "m = ProducerSelected"
      using assms(1) None by (auto simp: resolve_selector_def tokens_of_def res_simps)
    have *: "distinct (map cid_of P) \<and> set P \<subseteq> set records \<and>
        (\<forall>t \<in> set (tokens_of selector). \<exists>r \<in> set P. names records t r) \<and>
        (\<forall>r \<in> set P. \<exists>t \<in> set (tokens_of selector). names records t r)"
      using foldM_pick_Inr [OF P _ _ assms(2,3)] by simp
    then have "distinct P" by (simp add: distinct_map)
    then have "S = filter (\<lambda>r. r \<in> set P) records" "set S = set P"
      using sort_by_position [OF assms(2,3)] * S(1) by auto
    then show ?thesis using * S(2) by simp
  next
    case False
    then obtain i r where m: "match_one records selector = Inr (i, r)" and S: "S = [r]" "m = Contiguous"
      using assms(1) None by (auto simp: resolve_selector_def res_simps)
    note r = match_one_Inr [OF m]
    have "records = take i records @ [r] @ drop (Suc i) records" using r(1,2) id_take_nth_drop by fastforce
    then show ?thesis using r(3) S None by auto
  qed
qed


text \<open>What \<open>contiguous\<close> and \<open>producer-selected\<close> mean.  A contiguous selection is a block of the ledger with nothing left
  out between its ends, which are the records that the selector names.  An explicit list gives the named records, each
  once and in ledger order, whatever the order and the repetitions of the list.\<close>

theorem selection_is_what_it_says:
  assumes "resolve_selector records selector = Inr (S, m)" "distinct (map cid_of records)"
    "\<forall>r \<in> set records. has_cid (cid_of r) r"
  shows "(m = Contiguous \<longrightarrow> S \<noteq> [] \<and> (\<exists>before after. records = before @ S @ after) \<and>
      (case partition_dots selector of
         Some (l, r) \<Rightarrow> names records l (hd S) \<and> names records r (last S)
       | None \<Rightarrow> names records selector (hd S) \<and> length S = 1)) \<and>
    (m = ProducerSelected \<longrightarrow> S = filter (\<lambda>r. r \<in> set S) records \<and>
      (\<forall>t \<in> set (tokens_of selector). \<exists>r \<in> set S. names records t r) \<and>
      (\<forall>r \<in> set S. \<exists>t \<in> set (tokens_of selector). names records t r))"
  by (rule resolve_selector_spec [OF assms])

section \<open>What a disclosure holds\<close>

text \<open>\<open>agent_action_capsule\<close>'s envelope builder checks every value against the committed digest.\<close>

definition builds_envelopes :: "disclose_env \<Rightarrow> bool" where
  "builds_envelopes env \<longleftrightarrow> (\<forall>capsule D e. dz_envelope env capsule D = Inr e \<longrightarrow>
     e = envelope_dict capsule D \<and> (\<forall>m \<in> set D. \<exists>ca. attestation_of capsule = Inr ca \<and> opens env ca m))"

lemma dget_envelope [simp]: "dget (envelope_dict c D) ''disclosures'' = JObj D"
  by (simp add: envelope_dict_def dget_def)

lemma add_null_Inr:
  assumes "add_null env r shown ca (envelope_dict c D) (f, df) = Inr e" "map_of DISCLOSURE_ELIGIBLE_FIELDS f = Some df"
  obtains "e = envelope_dict c D" "\<not> (dhas shown f \<and> dget shown f = JNull)"
  | "e = envelope_dict c (dict_set D f JNull)" "dhas shown f" "opens env ca (f, JNull)"
  using assms
  by (auto simp: add_null_def res_simps opens_def py_get_def envelope_dict_def split: if_splits option.splits json.splits)

lemma add_null_step:
  assumes "add_null env r shown ca (envelope_dict c D) (f, df) = Inr e" "map_of DISCLOSURE_ELIGIBLE_FIELDS f = Some df"
    "\<forall>m \<in> set D. opens env ca m" "dget shown f \<noteq> JNull \<Longrightarrow> f \<in> fst ` set D"
  obtains D' where "e = envelope_dict c D'" "\<forall>m \<in> set D'. opens env ca m"
    "fst ` set D' = fst ` set D \<union> (if dhas shown f then {f} else {})"
proof (rule add_null_Inr [OF assms(1,2)])
  assume e: "e = envelope_dict c D" "\<not> (dhas shown f \<and> dget shown f = JNull)"
  then have "dhas shown f \<Longrightarrow> f \<in> fst ` set D" using assms(4) by blast
  then show thesis using that [of D] e(1) assms(3) by (auto simp: insert_absorb)
next
  assume e: "e = envelope_dict c (dict_set D f JNull)" "dhas shown f" "opens env ca (f, JNull)"
  show thesis
    by (rule that [OF e(1)]) (use assms(3) e(2,3) set_dict_set [of D f JNull] in \<open>auto simp: keys_dict_set\<close>)
qed

lemma envelope_for_Inr:
  assumes "envelope_for env supplied suppress r = Inr e" "builds_envelopes env"
  obtains D ca where "e = envelope_dict r D" "attestation_of r = Inr ca" "\<And>m. m \<in> set D \<Longrightarrow> opens env ca m"
    "\<And>f. f \<in> fst ` set D \<longleftrightarrow>
      f \<in> fst ` set DISCLOSURE_ELIGIBLE_FIELDS \<and> f \<notin> set suppress \<and> dhas (supplied_for supplied (cid_of r)) f"
proof -
  let ?d = "filter (\<lambda>(f, v). f \<notin> set suppress) (supplied_for supplied (cid_of r))"
  let ?D = "filter (\<lambda>(k, v). v \<noteq> JNull) [(''agent_input'', dget ?d ''agent_input''), (''agent_output'', dget ?d ''agent_output'')]"
  obtain e0 ca e1 where e0: "dz_envelope env r ?D = Inr e0" and ca: "attestation_of r = Inr ca"
    and e1: "add_null env r ?d ca e0 (''agent_input'', ''agent_input_digest'') = Inr e1"
    and e2: "add_null env r ?d ca e1 (''agent_output'', ''agent_output_digest'') = Inr e"
    using assms(1)
    by (auto simp: envelope_for_def build_disclosure_envelope_def DISCLOSURE_ELIGIBLE_FIELDS_def Let_def res_simps
        split: sum.splits envelope_exn.splits)
  have D: "e0 = envelope_dict r ?D" "\<forall>m \<in> set ?D. opens env ca m"
    using assms(2) e0 ca unfolding builds_envelopes_def by fastforce+
  have maps: "map_of DISCLOSURE_ELIGIBLE_FIELDS ''agent_input'' = Some ''agent_input_digest''"
    "map_of DISCLOSURE_ELIGIBLE_FIELDS ''agent_output'' = Some ''agent_output_digest''"
    by (simp_all add: DISCLOSURE_ELIGIBLE_FIELDS_def)
  have null: "dget ?d f \<noteq> JNull \<Longrightarrow> dhas ?d f" for f by (metis dget_absent)
  obtain D1 where D1: "e1 = envelope_dict r D1" "\<forall>m \<in> set D1. opens env ca m"
    "fst ` set D1 = fst ` set ?D \<union> (if dhas ?d ''agent_input'' then {''agent_input''} else {})"
    by (rule add_null_step [OF e1 [unfolded D(1)] maps(1) D(2)]) auto
  obtain D2 where D2: "e = envelope_dict r D2" "\<forall>m \<in> set D2. opens env ca m"
    "fst ` set D2 = fst ` set D1 \<union> (if dhas ?d ''agent_output'' then {''agent_output''} else {})"
    by (rule add_null_step [OF e2 [unfolded D1(1)] maps(2) D1(2)]) (use D1(3) in auto)
  have "fst ` set D2 = {f \<in> {''agent_input'', ''agent_output''}. dhas ?d f}"
    using null [of "''agent_input''"] null [of "''agent_output''"] unfolding D1(3) D2(3) by auto
  moreover have "dhas ?d f \<longleftrightarrow> f \<notin> set suppress \<and> dhas (supplied_for supplied (cid_of r)) f" for f
    by (auto simp: dhas_def)
  ultimately show ?thesis
    using D2 ca that by (simp add: DISCLOSURE_ELIGIBLE_FIELDS_def)
qed


lemma disclose_parts:
  assumes "disclose env a L = Inr (d, L')"
  obtains S m supplied unavailable bs keys rec where
    "resolve_selector (read_capsules L) (da_selector a) = Inr (S, m)"
    "supplied_of env a S = Inr (supplied, unavailable)" "all_supplied a S supplied = Inr ()"
    "mapM_r (bundle_record env L supplied (da_suppress a)) S = Inr bs"
    "mapM_r (\<lambda>(i, b, e). sbind (disclosed_keys e) (\<lambda>ks. Inr (i, ks))) bs = Inr keys"
    "seal_record env (record_body env a S keys (suppressed_sorted (da_suppress a))
       (completeness_of S m (da_payloads a) (suppressed_sorted (da_suppress a)) unavailable)) = Inr rec"
    "append_entry (dz_ledger env) rec L = Inr L'"
    "d = \<lparr>di_v = 1, di_audience = da_audience a, di_record_ids = map cid_of S, di_bundles = map (\<lambda>(i, b, e). (i, b)) bs,
       di_envelopes = map (\<lambda>(i, b, e). (i, JObj e)) bs,
       di_completeness = JObj (completeness_of S m (da_payloads a) (suppressed_sorted (da_suppress a)) unavailable),
       di_suppressed_fields = suppressed_sorted (da_suppress a), di_record = rec\<rparr>"
    "(da_payloads a = ''all'' \<or> da_payloads a = ''selected'')" "read_capsules L \<noteq> []"
proof -
  obtain S m supplied unavailable where S: "resolve_selector (read_capsules L) (da_selector a) = Inr (S, m)"
    "supplied_of env a S = Inr (supplied, unavailable)" "all_supplied a S supplied = Inr ()"
    "da_payloads a = ''all'' \<or> da_payloads a = ''selected''" "read_capsules L \<noteq> []"
    and fin: "finish_disclosure env a L S m supplied unavailable = Inr (d, L')"
    using assms unfolding disclose_def by (elim sbindE) (auto simp: res_simps split: prod.splits)
  show ?thesis
    using fin unfolding finish_disclosure_def Let_def
  proof (elim sbindE)
    fix bs keys rec
    assume *: "mapM_r (bundle_record env L supplied (da_suppress a)) S = Inr bs"
      "mapM_r (\<lambda>(i, b, e). sbind (disclosed_keys e) (\<lambda>ks. Inr (i, ks))) bs = Inr keys"
      "seal_record env (record_body env a S keys (suppressed_sorted (da_suppress a))
       (completeness_of S m (da_payloads a) (suppressed_sorted (da_suppress a)) unavailable)) = Inr rec"
      and app: "(case append_entry (dz_ledger env) rec L of Inl e \<Rightarrow> Inl (DiscloseLedgerError e)
          | Inr L' \<Rightarrow>
              Inr (\<lparr>di_v = 1, di_audience = da_audience a, di_record_ids = map cid_of S,
                    di_bundles = map (\<lambda>(i, b, e). (i, b)) bs, di_envelopes = map (\<lambda>(i, b, e). (i, JObj e)) bs,
                    di_completeness = JObj (completeness_of S m (da_payloads a) (suppressed_sorted (da_suppress a)) unavailable),
                    di_suppressed_fields = suppressed_sorted (da_suppress a), di_record = rec\<rparr>, L')) = Inr (d, L')"
    then obtain L1 where "append_entry (dz_ledger env) rec L = Inr L1"
      by (cases "append_entry (dz_ledger env) rec L") simp_all
    with app show ?thesis by (intro that [OF S(1-3) * _ _ S(4,5)]) simp_all
  qed
qed

lemma suppressed_sorted_set: "set (suppressed_sorted suppress) = set suppress \<inter> fst ` set DISCLOSURE_ELIGIBLE_FIELDS"
  by (auto simp: suppressed_sorted_def)

text \<open>The bundles and envelopes of a selection without repetitions, by id.\<close>

lemma bundled:
  assumes "mapM_r (bundle_record env L supplied suppress) S = Inr bs" "distinct (map cid_of S)" "r \<in> set S"
  obtains b e where "prove_record env L (cid_of r) = Some b" "envelope_for env supplied suppress r = Inr e"
    "map_of (map (\<lambda>(i, b, e). (i, b)) bs) (cid_of r) = Some b"
    "map_of (map (\<lambda>(i, b, e). (i, JObj e)) bs) (cid_of r) = Some (JObj e)"
proof -
  have *: "list_all2 (\<lambda>r x. bundle_record env L supplied suppress r = Inr x) S bs" by (rule mapM_r_all [OF assms(1)])
  have one: "\<exists>b e. x = (cid_of r, b, e) \<and> prove_record env L (cid_of r) = Some b \<and> envelope_for env supplied suppress r = Inr e"
    if "bundle_record env L supplied suppress r = Inr x" for r x
    using that by (auto simp: bundle_record_def res_simps split: option.splits)
  have ids: "map fst bs = map cid_of S"
  proof (rule nth_equalityI)
    show "length (map fst bs) = length (map cid_of S)" using * by (simp add: list_all2_lengthD)
    fix j assume "j < length (map fst bs)"
    then have "j < length bs" "j < length S" "bundle_record env L supplied suppress (S ! j) = Inr (bs ! j)"
      using * by (auto simp: list_all2_conv_all_nth)
    then show "map fst bs ! j = map cid_of S ! j" using one by fastforce
  qed
  obtain x where x: "x \<in> set bs" "bundle_record env L supplied suppress r = Inr x"
    using mapM_r_mem [OF assms(1,3)] by blast
  then obtain b e where be: "prove_record env L (cid_of r) = Some b" "envelope_for env supplied suppress r = Inr e" "x = (cid_of r, b, e)"
    using one by blast
  have "map_of (map (\<lambda>(i, b, e). (i, f b e)) bs) (cid_of r) = Some (f b e)" for f
  proof (rule map_of_is_SomeI)
    show "distinct (map fst (map (\<lambda>(i, b, e). (i, f b e)) bs))"
      using ids assms(2) by (simp add: comp_def case_prod_beta)
    show "(cid_of r, f b e) \<in> set (map (\<lambda>(i, b, e). (i, f b e)) bs)" using x(1) be(3) by force
  qed
  from this [of "\<lambda>b e. b"] this [of "\<lambda>b e. JObj e"] show ?thesis by (rule that [OF be(1,2)])
qed

text \<open>A record without a commitment for a field.\<close>

definition uncommitted :: "dict \<Rightarrow> string \<Rightarrow> bool" where
  "uncommitted r digest_field \<longleftrightarrow> (\<exists>c. attestation_of r = Inr (JObj c) \<and> \<not> truthy (dget c digest_field))"

lemma committed_fields_Inr:
  assumes "committed_fields ca wanted = Inr fs" "(f, df) \<in> set DISCLOSURE_ELIGIBLE_FIELDS" "wanted f"
  shows "\<exists>c. ca = JObj c \<and> (truthy (dget c df) \<longrightarrow> f \<in> set fs)"
  using assms
  by (cases ca) (auto simp: committed_fields_def DISCLOSURE_ELIGIBLE_FIELDS_def py_get_def res_simps split: if_splits)

lemma all_supplied_Inr:
  assumes "all_supplied a S supplied = Inr ()" "da_payloads a = ''all''" "r \<in> set S" "(f, df) \<in> set DISCLOSURE_ELIGIBLE_FIELDS"
    "f \<notin> set (da_suppress a)"
  shows "uncommitted r df \<or> dhas (supplied_for supplied (cid_of r)) f"
proof -
  obtain ms where ms: "mapM_r (missing_in supplied (da_suppress a)) S = Inr ms" "concat ms = []"
    using assms(1,2) by (auto simp: all_supplied_def missing_for_all_def res_simps)
  obtain x where "missing_in supplied (da_suppress a) r = Inr x" "x \<in> set ms"
    using mapM_r_mem [OF ms(1) assms(3)] by blast
  then have "missing_in supplied (da_suppress a) r = Inr []" using ms(2) by auto
  then obtain ca fs where "attestation_of r = Inr ca" "committed_fields ca (\<lambda>f. f \<notin> set (da_suppress a)) = Inr fs"
    "\<forall>f \<in> set fs. dhas (supplied_for supplied (cid_of r)) f"
    by (auto simp: missing_in_def res_simps filter_empty_conv)
  then show ?thesis using committed_fields_Inr [OF _ assms(4)] assms(5) by (fastforce simp: uncommitted_def)
qed

lemma selected_records:
  assumes "resolve_selector records selector = Inr (S, m)" "distinct (map cid_of records)" "\<forall>r \<in> set records. has_cid (cid_of r) r"
  shows "set S \<subseteq> set records" "distinct (map cid_of S)"
proof -
  have "(\<exists>before after. records = before @ S @ after) \<or> S = filter (\<lambda>r. r \<in> set S) records"
    using resolve_selector_spec [OF assms] by (cases m) simp_all
  then have "set S \<subseteq> set records \<and> distinct (map cid_of S)"
  proof
    assume "S = filter (\<lambda>r. r \<in> set S) records"
    then show ?thesis using assms(2) by (metis distinct_map_filter filter_is_subset)
  qed (use assms(2) in auto)
  then show "set S \<subseteq> set records" "distinct (map cid_of S)" by auto
qed


text \<open>The ids of a ledger are distinct texts: \<open>append_entry\<close> keeps this.\<close>

definition ids_ok :: "dict list \<Rightarrow> bool" where
  "ids_ok L \<longleftrightarrow> distinct (map line_id L) \<and> (\<forall>r \<in> set L. has_cid (cid_of r) r)"

lemma append_keeps_ids_ok:
  assumes "append_entry env e L = Inr L'" "ids_ok L"
  shows "ids_ok L'"
proof -
  have "line_id_ok e" using assms(1) by (simp add: append_entry_def split: if_splits)
  then have "has_cid (cid_of e) e" by (auto simp: line_id_ok_def line_id_def has_cid_def cid_of_def split: json.splits)
  then show ?thesis
    using stamp_log.app_distinct [OF assms(1)] stamp_log.app_shape [OF assms(1)] assms(2) by (auto simp: ids_ok_def)
qed

lemma ids_ok_same: "ids_ok L \<Longrightarrow> r \<in> set L \<Longrightarrow> q \<in> set L \<Longrightarrow> has_cid (cid_of r) q \<Longrightarrow> q = r"
proof -
  assume *: "ids_ok L" "r \<in> set L" "q \<in> set L" "has_cid (cid_of r) q"
  then have "line_id q = line_id r" by (auto simp: ids_ok_def line_id_def has_cid_def)
  with * show "q = r" unfolding ids_ok_def distinct_map by (blast dest: inj_onD)
qed

lemma ids_ok_capsules:
  assumes "ids_ok L"
  shows "distinct (map cid_of (read_capsules L))" "\<forall>r \<in> set (read_capsules L). has_cid (cid_of r) r"
proof -
  show *: "\<forall>r \<in> set (read_capsules L). has_cid (cid_of r) r" using assms by (simp add: ids_ok_def read_capsules_def)
  have "inj_on cid_of (set L)"
    using assms by (intro inj_onI) (metis ids_ok_def ids_ok_same)
  moreover have "distinct L" using assms by (simp add: ids_ok_def distinct_map)
  ultimately show "distinct (map cid_of (read_capsules L))"
    by (auto simp: read_capsules_def distinct_map intro: inj_on_subset)
qed

lemma disclosed_record:
  assumes "disclose env a L = Inr (d, L')" "builds_envelopes env" "ids_ok L" "i \<in> set (di_record_ids d)"
  obtains r b D ca where "r \<in> set (read_capsules L)" "has_cid i r" "prove_record env L i = Some b"
    "map_of (di_bundles d) i = Some b" "disclosures_of d i = Inr (JObj D)" "attestation_of r = Inr ca"
    "\<forall>m \<in> set D. opens env ca m" "\<forall>f \<in> fst ` set D. f \<notin> set (di_suppressed_fields d)"
    "da_payloads a = ''all'' \<Longrightarrow>
      \<forall>(f, df) \<in> set DISCLOSURE_ELIGIBLE_FIELDS. f \<in> set (di_suppressed_fields d) \<or> uncommitted r df \<or> f \<in> fst ` set D"
proof (rule disclose_parts [OF assms(1)])
  fix S m supplied unavailable bs keys rec
  assume S: "resolve_selector (read_capsules L) (da_selector a) = Inr (S, m)" "all_supplied a S supplied = Inr ()"
    and bs: "mapM_r (bundle_record env L supplied (da_suppress a)) S = Inr bs"
    and d: "d = \<lparr>di_v = 1, di_audience = da_audience a, di_record_ids = map cid_of S, di_bundles = map (\<lambda>(i, b, e). (i, b)) bs,
       di_envelopes = map (\<lambda>(i, b, e). (i, JObj e)) bs,
       di_completeness = JObj (completeness_of S m (da_payloads a) (suppressed_sorted (da_suppress a)) unavailable),
       di_suppressed_fields = suppressed_sorted (da_suppress a), di_record = rec\<rparr>"
  note sel = selected_records [OF S(1) ids_ok_capsules [OF assms(3)]]
  obtain r where r: "r \<in> set S" "i = cid_of r" using assms(4) d by auto
  obtain b e where b: "prove_record env L (cid_of r) = Some b" "envelope_for env supplied (da_suppress a) r = Inr e"
    "map_of (di_bundles d) i = Some b" "map_of (di_envelopes d) i = Some (JObj e)"
    by (rule bundled [OF bs sel(2) r(1)]) (simp add: d r(2))
  obtain D ca where D: "e = envelope_dict r D" "attestation_of r = Inr ca" "\<And>m. m \<in> set D \<Longrightarrow> opens env ca m"
    "\<And>f. f \<in> fst ` set D \<longleftrightarrow>
      f \<in> fst ` set DISCLOSURE_ELIGIBLE_FIELDS \<and> f \<notin> set (da_suppress a) \<and> dhas (supplied_for supplied (cid_of r)) f"
    by (rule envelope_for_Inr [OF b(2) assms(2)]) blast
  have "envelope_dict r D \<noteq> []" by (simp add: envelope_dict_def)
  then have "disclosures_of d i = Inr (JObj D)"
    by (simp add: disclosures_of_def b(4) or_obj_def D(1) py_get_def)
  moreover have "r \<in> set (read_capsules L)" using sel(1) r(1) by blast
  moreover have "has_cid i r" using ids_ok_capsules(2) [OF assms(3)] calculation(2) r(2) by blast
  moreover have "\<forall>f \<in> fst ` set D. f \<notin> set (di_suppressed_fields d)" using D(4) by (simp add: d suppressed_sorted_set)
  moreover have "f \<in> set (di_suppressed_fields d) \<or> uncommitted r df \<or> f \<in> fst ` set D"
    if "da_payloads a = ''all''" and f: "(f, df) \<in> set DISCLOSURE_ELIGIBLE_FIELDS" for f df
  proof -
    have "f \<in> fst ` set DISCLOSURE_ELIGIBLE_FIELDS" using f by force
    then show ?thesis
      using all_supplied_Inr [OF S(2) that(1) r(1) f] D(4) by (auto simp: d suppressed_sorted_set)
  qed
  then have "da_payloads a = ''all'' \<Longrightarrow>
      \<forall>(f, df) \<in> set DISCLOSURE_ELIGIBLE_FIELDS. f \<in> set (di_suppressed_fields d) \<or> uncommitted r df \<or> f \<in> fst ` set D"
    by blast
  ultimately show thesis using that b(1,3) D(2,3) r(2) by blast
qed

text \<open>C23: the honesty of \<open>payloads="all"\<close>.  Every field of every selected record that has a committed digest is either
  disclosed, with a value that opens the digest, or named as suppressed; nothing is both.\<close>

theorem all_payloads_are_disclosed:
  assumes "disclose env a L = Inr (d, L')" "da_payloads a = ''all''" "builds_envelopes env" "ids_ok L"
  shows "\<forall>i \<in> set (di_record_ids d). \<exists>r D ca. r \<in> set (read_capsules L) \<and> has_cid i r \<and>
    disclosures_of d i = Inr (JObj D) \<and> attestation_of r = Inr ca \<and> (\<forall>m \<in> set D. opens env ca m) \<and>
    (\<forall>f \<in> fst ` set D. f \<notin> set (di_suppressed_fields d)) \<and>
    (\<forall>(f, df) \<in> set DISCLOSURE_ELIGIBLE_FIELDS. f \<in> set (di_suppressed_fields d) \<or> uncommitted r df \<or> f \<in> fst ` set D)"
proof
  fix i assume "i \<in> set (di_record_ids d)"
  then show "\<exists>r D ca. r \<in> set (read_capsules L) \<and> has_cid i r \<and>
    disclosures_of d i = Inr (JObj D) \<and> attestation_of r = Inr ca \<and> (\<forall>m \<in> set D. opens env ca m) \<and>
    (\<forall>f \<in> fst ` set D. f \<notin> set (di_suppressed_fields d)) \<and>
    (\<forall>(f, df) \<in> set DISCLOSURE_ELIGIBLE_FIELDS. f \<in> set (di_suppressed_fields d) \<or> uncommitted r df \<or> f \<in> fst ` set D)"
    by (rule disclosed_record [OF assms(1,3,4)]) (use assms(2) in blast)
qed


section \<open>What is sealed verifies\<close>

text \<open>The producer's envelope over an id is graded authored; CLL's bundle of an id is the ledger's entry, with its log.\<close>

definition signs_records :: "disclose_env \<Rightarrow> bool" where
  "signs_records env \<longleftrightarrow> (\<forall>d i s k. compute_capsule_id (dz_emit env) d = Inr i \<longrightarrow> em_sign (dz_emit env) i = Inr (s, k) \<longrightarrow>
     dget d ''capsule_id'' = JStr i \<longrightarrow> dget d ''signature'' = JStr s \<longrightarrow> dget d ''key_id'' = JStr k \<longrightarrow>
     fst (dz_authorship env d) = AUTHORED)"

definition proves_records :: "disclose_env \<Rightarrow> bool" where
  "proves_records env \<longleftrightarrow> (\<forall>L i b. dz_prove env L i = Some b \<longrightarrow>
     rp_receipt b \<in> set L \<and> has_cid i (rp_receipt b) \<and> rp_capsule_id b = i \<and> fst (dz_log_ok env b))"

text \<open>An entry that is what its id and its signature say.\<close>

definition sound_entry :: "disclose_env \<Rightarrow> dict \<Rightarrow> bool" where
  "sound_entry env r \<longleftrightarrow> compute_capsule_id (dz_emit env) r = Inr (cid_of r) \<and> fst (dz_authorship env r) \<noteq> INVALID"

lemma seal_record_Inr:
  assumes "seal_record env d = Inr rec" "signs_records env"
  shows "fst (dz_authorship env rec) = AUTHORED" "k \<notin> {''capsule_id'', ''signature'', ''key_id''} \<Longrightarrow> dget rec k = dget d k"
    "k \<notin> {''capsule_id'', ''signature'', ''key_id''} \<Longrightarrow> dhas rec k = dhas d k"
proof -
  obtain i s q where i: "compute_capsule_id (dz_emit env) d = Inr i" "em_sign (dz_emit env) i = Inr (s, q)"
    and rec: "rec = dict_set (dict_set (dict_set d ''capsule_id'' (JStr i)) ''signature'' (JStr s)) ''key_id'' (JStr q)"
    using assms(1) by (auto simp: seal_record_def split: sum.splits)
  have "compute_capsule_id (dz_emit env) rec = Inr i"
    by (simp add: rec capsule_id_local_field LOCAL_ONLY_FIELDS_def i(1))
  then show "fst (dz_authorship env rec) = AUTHORED"
    using assms(2) i(2) unfolding signs_records_def by (force simp: rec dget_dict_set)
  show "k \<notin> {''capsule_id'', ''signature'', ''key_id''} \<Longrightarrow> dget rec k = dget d k"
    "k \<notin> {''capsule_id'', ''signature'', ''key_id''} \<Longrightarrow> dhas rec k = dhas d k"
    by (simp_all add: rec dget_dict_set dhas_dict_set)
qed

text \<open>The states that a store reports: one for each field, for records without repetitions.\<close>

definition states_ok :: "unavailable \<Rightarrow> bool" where
  "states_ok u \<longleftrightarrow> distinct (map fst u) \<and> (\<forall>(i, fs) \<in> set u. distinct (map fst fs))"

lemma committed_fields_distinct:
  assumes "committed_fields ca wanted = Inr fs"
  shows "distinct fs"
  using assms
  by (auto simp: committed_fields_def DISCLOSURE_ELIGIBLE_FIELDS_def res_simps split: if_splits)

lemma concat_map_states:
  "map fst (concat (map (\<lambda>(f, x). case x of Inl v \<Rightarrow> [] | Inr s \<Rightarrow> [(f, s)]) xs)) =
    map fst (filter (\<lambda>(f, x). \<not> isl x) xs)"
  by (induction xs) (auto split: sum.splits)

lemma store_reads_distinct:
  assumes "store_reads env get reveal suppress r = Inr (found, states)"
  shows "distinct (map fst states)"
proof -
  obtain ca fs where fs: "committed_fields ca (\<lambda>f. True) = Inr fs" using assms by (auto simp: store_reads_def Let_def res_simps)
  then have fd: "distinct fs" by (rule committed_fields_distinct)
  let ?c = "filter (\<lambda>f. \<not> dhas (supplied_for reveal (cid_of r)) f \<and> f \<notin> set suppress)"
  have mapM: "map fst xs = ys" if "mapM_r (\<lambda>f. sbind (h f) (\<lambda>x. Inr (f, x))) ys = Inr xs" for h xs and ys :: "string list"
    using that by (induction ys arbitrary: xs) (auto simp: res_simps)
  show ?thesis
    using assms committed_fields_distinct
    by (auto simp: store_reads_def Let_def res_simps concat_map_states distinct_map_filter comp_def
        split: if_splits sum.splits artifact_error.splits dest!: mapM)
qed


lemma supplied_states_ok:
  assumes "supplied_of env a S = Inr (supplied, u)" "distinct (map cid_of S)"
  shows "states_ok u"
proof (cases "da_store a")
  case None
  then show ?thesis using assms(1) by (simp add: supplied_of_def states_ok_def)
next
  case (Some s)
  then obtain get xs where
    xs: "mapM_r (\<lambda>r. sbind (store_reads env get (da_reveal a) (da_suppress a) r) (\<lambda>x. Inr (cid_of r, x))) S = Inr xs"
    and u: "u = concat (map (\<lambda>(i, found, states). if states = [] then [] else [(i, states)]) xs)"
    using assms(1) by (auto simp: supplied_of_def store_originals_def res_simps split: disclose_store.splits)
  have "map fst xs = map cid_of S \<and> (\<forall>(i, found, states) \<in> set xs. distinct (map fst states))"
    using xs by (induction S arbitrary: xs) (auto simp: res_simps dest: store_reads_distinct)
  moreover have "map fst u = map fst (filter (\<lambda>(i, found, states). states \<noteq> []) xs)"
    unfolding u by (induction xs) auto
  ultimately show ?thesis
    using assms(2) by (auto simp: states_ok_def u distinct_map_filter)
qed

lemma completeness_nan_free:
  assumes "states_ok u"
  shows "nan_free (JObj (completeness_of S m p suppress u))"
  using assms by (auto simp: completeness_of_def states_ok_def list_all_iff comp_def case_prod_beta)

section \<open>Properties of \<open>disclose\<close>\<close>

text \<open>C22: a disclosure that \<open>disclose\<close> builds from a ledger of sound records verifies, with no finding at all, and its sealed
  record is the one new line of the ledger (or the same line was there already), which is no capsule; the records that
  were there are kept.\<close>

theorem built_disclosure_verifies:
  assumes "disclose env a L = Inr (d, L')" "ids_ok L" "\<forall>r \<in> set (read_capsules L). sound_entry env r"
    "builds_envelopes env" "proves_records env" "signs_records env" "explains env"
  shows "verify_disclosure env d = (True, []) \<and> (L' = L @ [di_record d] \<or> L' = L \<and> di_record d \<in> set L) \<and>
    read_capsules L' = read_capsules L \<and> ids_ok L'"
proof (rule disclose_parts [OF assms(1)])
  fix S m supplied u bs keys rec
  let ?c = "completeness_of S m (da_payloads a) (suppressed_sorted (da_suppress a)) u"
  assume S: "resolve_selector (read_capsules L) (da_selector a) = Inr (S, m)" "supplied_of env a S = Inr (supplied, u)"
    and rec: "seal_record env (record_body env a S keys (suppressed_sorted (da_suppress a)) ?c) = Inr rec"
    and app: "append_entry (dz_ledger env) rec L = Inr L'"
    and d: "d = \<lparr>di_v = 1, di_audience = da_audience a, di_record_ids = map cid_of S, di_bundles = map (\<lambda>(i, b, e). (i, b)) bs,
       di_envelopes = map (\<lambda>(i, b, e). (i, JObj e)) bs, di_completeness = JObj ?c,
       di_suppressed_fields = suppressed_sorted (da_suppress a), di_record = rec\<rparr>"
  note sel = selected_records [OF S(1) ids_ok_capsules [OF assms(2)]]
  note sealed = seal_record_Inr [OF rec assms(6)]
  have "nan_free (JObj ?c)" by (rule completeness_nan_free [OF supplied_states_ok [OF S(2) sel(2)]])
  then have "py_eq (dz_int_float_eq env) (JObj ?c) (JObj ?c)" by (rule py_eq_refl)
  then have "statement_signed env d"
    using sealed by (simp add: statement_signed_def d record_body_def list_of_value_def dhas_def)
  moreover have "check_record env d [] i = Inr []" if i: "i \<in> set (di_record_ids d)" for i
  proof (rule disclosed_record [OF assms(1,4,2) i])
    fix r b D ca
    assume r: "r \<in> set (read_capsules L)" "has_cid i r" "prove_record env L i = Some b" "map_of (di_bundles d) i = Some b"
      and D: "disclosures_of d i = Inr (JObj D)" "attestation_of r = Inr ca" "\<forall>m \<in> set D. opens env ca m"
    have "dz_prove env L i = Some b" using r(3) by (simp add: prove_record_def split: if_splits)
    then have b: "rp_receipt b \<in> set L" "has_cid i (rp_receipt b)" "rp_capsule_id b = i" "fst (dz_log_ok env b)"
      using assms(5) unfolding proves_records_def by blast+
    have "r \<in> set L" using r(1) by (simp add: read_capsules_def)
    then have receipt: "rp_receipt b = r" using ids_ok_same [OF assms(2) _ b(1)] b(2) has_cid_cid_of [OF r(2)] by simp
    have "compute_capsule_id (dz_emit env) r = Inr i" "fst (dz_authorship env r) \<noteq> INVALID"
      using assms(3) r(1) has_cid_cid_of [OF r(2)] by (auto simp: sound_entry_def)
    then have "fst (verify_record_proof env b)"
      using b(3,4) r(2)
      by (auto simp: verify_record_proof_def receipt_findings_def Let_def receipt has_cid_def split: prod.splits authorship.splits)
    then show ?thesis
      unfolding check_record_quiet [OF assms(7)] using r(4) D receipt by blast
  qed
  ultimately have "verify_disclosure env d = (True, [])" by (simp add: verify_quiet record_findings_quiet)
  moreover have "dget rec ''kind'' = JStr DISCLOSURE_RECORD_KIND" using sealed(2) [of "''kind''"] by (simp add: record_body_def)
  then have "\<not> is_capsule_entry rec" by (simp add: is_capsule_entry_def NON_CAPSULE_KINDS_def DISCLOSURE_RECORD_KIND_def)
  then have "read_capsules L' = read_capsules L"
    using stamp_log.app_shape [OF app] by (auto simp: read_capsules_def)
  moreover have "L' = L @ [di_record d] \<or> L' = L \<and> di_record d \<in> set L" using stamp_log.app_shape [OF app] by (simp add: d)
  ultimately show ?thesis using append_keeps_ids_ok [OF app assms(2)] by blast
qed


section \<open>Witnesses\<close>

abbreviation shown_id :: string where "shown_id \<equiv> replicate 64 (CHR ''1'')"
abbreviation other_id :: string where "other_id \<equiv> replicate 64 (CHR ''3'')"

definition shown_digest :: "json \<Rightarrow> string" where
  "shown_digest v = (if v = JStr ''in'' then ''d1'' else ''d2'')"

definition demo_emit_env :: emit_env where
  "demo_emit_env = pickup_env
     \<lparr>em_jcs := (\<lambda>d. case dget d ''action_id'' of JStr s \<Rightarrow> s | _ \<Rightarrow> ''k''), em_normalize := (\<lambda>d. d),
      em_sha256 := (\<lambda>b. replicate 64 (if b = ''k'' then CHR ''2'' else if b = ''b'' then CHR ''3'' else CHR ''1'')),
      em_json_digest := (\<lambda>v. Some (shown_digest v)), em_sign := (\<lambda>i. Inr (''s'', ''p''))\<rparr>"

definition demo_builder :: "dict \<Rightarrow> dict \<Rightarrow> envelope_exn + dict" where
  "demo_builder capsule D =
     (case attestation_of capsule of
        Inr (JObj c) \<Rightarrow>
          if list_all (\<lambda>(f, v). case map_of DISCLOSURE_ELIGIBLE_FIELDS f of
                                  None \<Rightarrow> False | Some df \<Rightarrow> dget c df = JStr (shown_digest v)) D
          then Inr (envelope_dict capsule D) else Inl EnvelopeValueError
      | _ \<Rightarrow> Inl EnvelopeAttributeError)"

definition demo_disclose_env :: disclose_env where
  "demo_disclose_env =
     \<lparr>dz_emit = demo_emit_env, dz_ledger = ec_wenv pickup_cx, dz_json = \<lparr>je_strict = True, je_read_float = (\<lambda>_. FNaN), je_max_digits = 4300\<rparr>, dz_now = ''t'',
      dz_prove = (\<lambda>L i. map_option (\<lambda>r. \<lparr>rp_receipt = r, rp_capsule_id = i, rp_log = JNull\<rparr>) (find (has_cid i) L)),
      dz_log_ok = (\<lambda>_. (True, [])),
      dz_authorship = (\<lambda>d. (if dget d ''signature'' = JStr ''s'' then AUTHORED else UNCLAIMED, [])),
      dz_envelope = demo_builder, dz_int_float_eq = (\<lambda>_ _. False)\<rparr>"

definition shown_record :: dict where
  "shown_record = [(''capsule_id'', JStr shown_id), (''action_id'', JStr ''a''),
     (''model_attestation'', JObj [(''compute_attestation'', JObj [(''agent_input_digest'', JStr ''d1'')])])]"

definition other_record :: dict where
  "other_record = [(''capsule_id'', JStr other_id), (''action_id'', JStr ''b'')]"

definition shown_ledger :: "dict list" where
  "shown_ledger = [shown_record, other_record]"

definition demo_disclose_args :: disclose_args where
  "demo_disclose_args = \<lparr>da_selector = shown_id, da_audience = ''auditor'', da_payloads = ''all'',
     da_reveal = [(shown_id, [(''agent_input'', JStr ''in'')])], da_suppress = [], da_store = None\<rparr>"

lemma demo_laws:
  "builds_envelopes demo_disclose_env" "proves_records demo_disclose_env" "signs_records demo_disclose_env" "explains demo_disclose_env"
proof -
  show "builds_envelopes demo_disclose_env"
    by (auto simp: builds_envelopes_def demo_disclose_env_def demo_builder_def opens_def demo_emit_env_def list_all_iff
        split: sum.splits json.splits if_splits option.splits)
  show "proves_records demo_disclose_env"
    by (auto simp: proves_records_def demo_disclose_env_def dest: find_SomeD)
  show "signs_records demo_disclose_env"
    by (auto simp: signs_records_def demo_disclose_env_def demo_emit_env_def)
  show "explains demo_disclose_env" by (simp add: explains_def demo_disclose_env_def)
qed

lemma demo_disclosed:
  obtains d L' where "disclose demo_disclose_env demo_disclose_args shown_ledger = Inr (d, L')"
    "verify_disclosure demo_disclose_env d = (True, [])" "di_record_ids d = [shown_id]"
proof -
  have "(case disclose demo_disclose_env demo_disclose_args shown_ledger of
      Inl e \<Rightarrow> False | Inr (d, L') \<Rightarrow> verify_disclosure demo_disclose_env d = (True, []) \<and> di_record_ids d = [shown_id])"
    by code_simp
  then show ?thesis using that by (auto split: sum.splits)
qed


lemma shown_ledger_ok:
  "ids_ok shown_ledger" "\<forall>r \<in> set (read_capsules shown_ledger). sound_entry demo_disclose_env r"
proof -
  have "shown_id \<noteq> other_id" by code_simp
  then show "ids_ok shown_ledger"
    by (simp add: ids_ok_def shown_ledger_def shown_record_def other_record_def line_id_def has_cid_def cid_of_def)
  have "list_all (\<lambda>r. compute_capsule_id (dz_emit demo_disclose_env) r = Inr (cid_of r) \<and>
      fst (dz_authorship demo_disclose_env r) \<noteq> INVALID) (read_capsules shown_ledger)"
    by code_simp
  then show "\<forall>r \<in> set (read_capsules shown_ledger). sound_entry demo_disclose_env r"
    by (simp add: list_all_iff sound_entry_def)
qed

lemma built_disclosure_verifies_witness:
  "\<exists>d L'. disclose demo_disclose_env demo_disclose_args shown_ledger = Inr (d, L') \<and>
     verify_disclosure demo_disclose_env d = (True, []) \<and> read_capsules L' = shown_ledger"
proof -
  obtain d L' where d: "disclose demo_disclose_env demo_disclose_args shown_ledger = Inr (d, L')"
    by (rule demo_disclosed)
  have "read_capsules shown_ledger = shown_ledger" by code_simp
  then show ?thesis
    using built_disclosure_verifies [OF d shown_ledger_ok demo_laws] d by auto
qed

lemma all_payloads_are_disclosed_witness:
  "\<exists>d L'. disclose demo_disclose_env demo_disclose_args shown_ledger = Inr (d, L') \<and>
     (\<exists>r \<in> set (read_capsules shown_ledger). \<exists>D. has_cid shown_id r \<and> disclosures_of d shown_id = Inr (JObj D))"
proof -
  obtain d L' where d: "disclose demo_disclose_env demo_disclose_args shown_ledger = Inr (d, L')" "di_record_ids d = [shown_id]"
    by (rule demo_disclosed)
  have "da_payloads demo_disclose_args = ''all''" by (simp add: demo_disclose_args_def)
  then show ?thesis
    using all_payloads_are_disclosed [OF d(1) _ demo_laws(1) shown_ledger_ok(1)] d by auto
qed

lemma verified_disclosure_is_committed_witness:
  "\<exists>d L' b. disclose demo_disclose_env demo_disclose_args shown_ledger = Inr (d, L') \<and> statement_signed demo_disclose_env d \<and>
     map_of (di_bundles d) shown_id = Some b \<and> compute_capsule_id (dz_emit demo_disclose_env) (rp_receipt b) = Inr (rp_capsule_id b)"
proof -
  obtain d L' where d: "disclose demo_disclose_env demo_disclose_args shown_ledger = Inr (d, L')"
    "verify_disclosure demo_disclose_env d = (True, [])" "di_record_ids d = [shown_id]"
    by (rule demo_disclosed)
  then show ?thesis using verified_disclosure_is_committed [OF d(2) demo_laws(4)] by auto
qed

text \<open>The disclosure says that every payload of the first record is disclosed; the stripped one shows a proof of the second
  record and no payload.\<close>

abbreviation other_proof :: record_proof where
  "other_proof \<equiv> \<lparr>rp_receipt = other_record, rp_capsule_id = other_id, rp_log = JNull\<rparr>"

lemma stripped_disclosure_verifies_witness:
  "\<exists>d L'. disclose demo_disclose_env demo_disclose_args shown_ledger = Inr (d, L') \<and> di_record_ids d = [shown_id] \<and>
     verify_disclosure demo_disclose_env (d\<lparr>di_bundles := [(shown_id, other_proof)], di_envelopes := []\<rparr>) = (True, [])"
proof -
  obtain d L' where d: "disclose demo_disclose_env demo_disclose_args shown_ledger = Inr (d, L')"
    "verify_disclosure demo_disclose_env d = (True, [])" "di_record_ids d = [shown_id]"
    by (rule demo_disclosed)
  have "fst (verify_record_proof demo_disclose_env other_proof)" by code_simp
  moreover have "attestation_of (rp_receipt other_proof) = Inr (JObj [])" by code_simp
  ultimately show ?thesis
    using stripped_disclosure_verifies [OF d(2) demo_laws(4), of "[(shown_id, other_proof)]"] d by simp
qed

lemma selection_is_what_it_says_witness:
  "resolve_selector shown_ledger (other_id @ '','' @ shown_id) = Inr (shown_ledger, ProducerSelected) \<and>
   list_all (\<lambda>t. list_ex (names shown_ledger t) shown_ledger) (tokens_of (other_id @ '','' @ shown_id))"
proof -
  have *: "resolve_selector shown_ledger (other_id @ '','' @ shown_id) = Inr (shown_ledger, ProducerSelected)" by code_simp
  have "read_capsules shown_ledger = shown_ledger" by code_simp
  then have "distinct (map cid_of shown_ledger)" "\<forall>r \<in> set shown_ledger. has_cid (cid_of r) r"
    using ids_ok_capsules [OF shown_ledger_ok(1)] by simp_all
  from selection_is_what_it_says [OF * this] * show ?thesis by (simp add: list_all_iff list_ex_iff)
qed

end
