(* ===== verification/Store_Ledger.thy ===== *)
theory Store_Ledger
  imports Artifact_Jsonl Chain_Segment Emit_Builder "HOL-Library.AList"
begin

text \<open>
  \<open>store_backed_ledger.py\<close>: a ledger over an entry log, which holds the ids of its lines in order, and an artifact store,
  which holds each line as a record.  The entry log of \<open>cll\<close>, the two stores and the COSE verifier are fields of
  \<open>stores\<close>, so a ledger runs on any store with the operations of \<open>Artifact_Store\<close>.  An operation gives its result and the
  stores and the log it leaves behind, whether it raises or not.
\<close>

section \<open>Errors, stores, lines\<close>

datatype sl_error =
    CapsuleIdMismatchError
  | MissingCapsuleIdError
  | ChainBrokenError
  | StatementInvalidError
  | AppendChainMismatchError
  | MalformedPaddingError
  | PaddingMisroutedError
  | MissingRecordError
  | StoreError artifact_error
  | LogError string
  | AlreadyInLogError
  | EnvelopeError
  | StaleLedgerError
  | OtherLedgerError string

text \<open>\<open>sb_cose\<close> is \<open>verify_sign1\<close> under a raw public key and \<open>sb_parse\<close> the undecided parse of a COSE message; the outer
  \<open>None\<close> is an exception or a message of another shape, the inner one a payload that is no octets.  An entry of the log is
  its number, from 1, and its value; an append says whether it inserted.\<close>

record ('s, 'l) stores =
  sb_ax :: artifact_ext
  sb_get :: "string \<Rightarrow> 's \<Rightarrow> artifact_error + art_record"
  sb_put :: "art_record \<Rightarrow> 's \<Rightarrow> artifact_error + 's"
  sb_scan :: "'l \<Rightarrow> nat \<Rightarrow> nat \<Rightarrow> string + (nat \<times> octets) list"
  sb_append :: "octets \<Rightarrow> 'l \<Rightarrow> (string + bool \<times> nat) \<times> 'l"
  sb_page :: nat
  sb_cose :: "octets \<Rightarrow> octets \<Rightarrow> octets option option"
  sb_parse :: "octets \<Rightarrow> octets option option"
  sb_indexer :: "dict \<Rightarrow> string list"
  sb_linear :: bool
  sb_require :: bool

definition STATEMENT :: string where "STATEMENT = ''signed-statement''"

definition ENVELOPE_MEMBERS :: "string list" where
  "ENVELOPE_MEMBERS = [''signature'', ''key_id'']"

record ledger_line =
  ll_id :: string
  ll_offset :: nat
  ll_padding :: bool
  ll_timestamp :: "string option"

record sledger =
  sl_index :: "(string \<times> nat) list"
  sl_keys :: "string list"
  sl_lines :: "ledger_line list"
  sl_head :: "string option"

definition new_ledger :: sledger where
  "new_ledger = \<lparr>sl_index = [], sl_keys = [], sl_lines = [], sl_head = None\<rparr>"

text \<open>\<open>json.dumps\<close> refuses an infinity and a NaN, and the encoding refuses a lone surrogate.\<close>

fun json_finite :: "json \<Rightarrow> bool" where
  "json_finite (JFloat f) = (case f of FNaN \<Rightarrow> False | FInf _ \<Rightarrow> False | _ \<Rightarrow> True)"
| "json_finite (JArr vs) = list_all json_finite vs"
| "json_finite (JObj d) = list_all (\<lambda>(_, v). json_finite v) d"
| "json_finite _ = True"

definition line_bytes :: "json \<Rightarrow> sl_error + octets" where
  "line_bytes v =
     (if \<not> json_finite v then Inl (OtherLedgerError ''ValueError'')
      else if \<not> utf8_ok (json_dumps v) then Inl (OtherLedgerError ''UnicodeEncodeError'')
      else Inr (json_dumps v))"

definition is_padding :: "dict \<Rightarrow> bool" where
  "is_padding d \<longleftrightarrow> dget d ''record_type'' = JStr PADDING_RECORD_TYPE"

definition padding_shape_ok :: "dict \<Rightarrow> bool" where
  "padding_shape_ok d \<longleftrightarrow>
     list_all (\<lambda>(k, v). k \<in> set PADDING_MEMBERS \<or> k \<in> set ENVELOPE_MEMBERS) d \<and>
     dget d ''record_type'' = JStr PADDING_RECORD_TYPE \<and> dget d ''epistemic_type'' = JStr ''producer_claim'' \<and>
     (case dget d ''store_nonce'' of JStr s \<Rightarrow> hex_string 64 s | _ \<Rightarrow> False)"

definition padding_record_with_nonce :: "artifact_ext \<Rightarrow> string \<Rightarrow> sl_error + dict" where
  "padding_record_with_nonce ax nonce =
     (let body = [(''record_type'', JStr PADDING_RECORD_TYPE), (''epistemic_type'', JStr ''producer_claim''),
                  (''store_nonce'', JStr nonce)]
      in (case ax_json_digest ax (JObj body) of
            None \<Rightarrow> Inl (OtherLedgerError ''json_digest'')
          | Some i \<Rightarrow> Inr ((''capsule_id'', JStr i) # body)))"

text \<open>The record id; the digest raises \<open>ValueError\<close> or \<open>TypeError\<close> (\<open>None\<close>) on what has none.\<close>

definition compute_record_id :: "artifact_ext \<Rightarrow> dict \<Rightarrow> string option" where
  "compute_record_id ax d =
     ax_json_digest ax (JObj (filter (\<lambda>(k, v). k \<noteq> ''capsule_id'' \<and> k \<notin> set ENVELOPE_MEMBERS) d))"

definition recompute :: "artifact_ext \<Rightarrow> dict \<Rightarrow> string \<Rightarrow> sl_error + unit" where
  "recompute ax d stored = (if compute_record_id ax d = Some stored then Inr () else Inl CapsuleIdMismatchError)"

definition statement_payload :: "('s, 'l) stores \<Rightarrow> json \<Rightarrow> octets \<Rightarrow> octets option" where
  "statement_payload be key_id statement =
     (case key_id of
        JNull \<Rightarrow> Option.bind (sb_parse be statement) id
      | JStr h \<Rightarrow>
          (case from_hex h of
             None \<Rightarrow> None
           | Some raw \<Rightarrow> if length raw = 32 then Option.bind (sb_cose be raw statement) id else None)
      | _ \<Rightarrow> None)"

definition check_statement_matches :: "('s, 'l) stores \<Rightarrow> dict \<Rightarrow> string \<Rightarrow> octets \<Rightarrow> bool" where
  "check_statement_matches be d i statement =
     (case statement_payload be (dget d ''key_id'') statement of
        None \<Rightarrow> False
      | Some payload \<Rightarrow>
          (case decode_strict_json (ax_json (sb_ax be)) payload of
             Some (JObj named) \<Rightarrow> dget named ''capsule_id'' = JStr i
           | _ \<Rightarrow> False))"

definition check_statement :: "('s, 'l) stores \<Rightarrow> dict \<Rightarrow> string \<Rightarrow> octets \<Rightarrow> sl_error + unit" where
  "check_statement be d i statement =
     (if check_statement_matches be d i statement then Inr () else Inl StatementInvalidError)"

definition body_of :: "dict \<Rightarrow> dict" where
  "body_of d = filter (\<lambda>(k, v). k \<notin> set ENVELOPE_MEMBERS) d"

definition envelope_line :: "dict \<Rightarrow> octets \<Rightarrow> octets \<Rightarrow> dict" where
  "envelope_line d envelope pk = dict_set (dict_set d ''signature'' (JStr (to_hex envelope))) ''key_id'' (JStr (to_hex pk))"

definition to_record :: "('s, 'l) stores \<Rightarrow> string \<Rightarrow> dict \<Rightarrow> octets \<Rightarrow> sl_error + art_record" where
  "to_record be i d statement =
     (case (dget d ''signature'', dget d ''key_id'') of
        (JStr signature, JStr key_id) \<Rightarrow>
          (case from_hex signature of
             None \<Rightarrow> Inl EnvelopeError
           | Some envelope \<Rightarrow>
               (case ax_envelope (sb_ax be) i envelope of
                  None \<Rightarrow> Inl EnvelopeError
                | Some pk \<Rightarrow>
                    if key_id \<noteq> to_hex pk then Inl EnvelopeError
                    else if signature \<noteq> to_hex envelope then Inl EnvelopeError
                    else sbind (line_bytes (JObj (body_of d))) (\<lambda>line.
                      Inr \<lparr>ar_capsule_id = i, ar_capsule = line, ar_envelope = envelope,
                           ar_artifacts = [\<lparr>a_name = STATEMENT, a_state = PRESENT, a_binding = [], a_content = Some statement,
                             a_sha256 = ax_sha256 (sb_ax be) statement\<rparr>]\<rparr>)))
      | _ \<Rightarrow> Inl EnvelopeError)"

section \<open>Index keys\<close>

definition counterparty_half_key :: "string \<Rightarrow> string" where
  "counterparty_half_key i = ''counterparty_half:'' @ i"

definition counterparty_inclusion_key :: "string \<Rightarrow> string" where
  "counterparty_inclusion_key i = ''counterparty_inclusion:'' @ i"

definition purpose_of :: "json \<Rightarrow> json" where
  "purpose_of r = (case r of JObj d \<Rightarrow> dget d ''citation_purpose'' | _ \<Rightarrow> JNull)"

definition member_at :: "json \<Rightarrow> string \<Rightarrow> json" where
  "member_at v k = (case v of JObj d \<Rightarrow> dget d k | _ \<Rightarrow> JNull)"

definition counterparty_citation_keys :: "dict \<Rightarrow> string list" where
  "counterparty_citation_keys capsule =
     (case dget capsule ''references'' of
        JArr refs \<Rightarrow>
          concat (map (\<lambda>r. if purpose_of r = JStr ''counterparty_half'' then
              (case member_at r ''digest'' of JStr s \<Rightarrow> [counterparty_half_key s] | _ \<Rightarrow> []) else []) refs)
          @ (if list_ex (\<lambda>r. purpose_of r = JStr ''counterparty_inclusion'') refs then
               (case foldl member_at (JObj capsule)
                    [''model_attestation'', ''compute_attestation'', ''counterparty_inclusion'', ''half_capsule_id''] of
                  JStr s \<Rightarrow> [counterparty_inclusion_key s] | _ \<Rightarrow> [])
             else [])
      | _ \<Rightarrow> [])"

section \<open>Reading lines\<close>

definition parent_of :: "dict \<Rightarrow> string option" where
  "parent_of d = (case member_at (dget d ''chain'') ''parent_capsule_id'' of JStr s \<Rightarrow> Some s | _ \<Rightarrow> None)"

definition timestamp_of :: "dict \<Rightarrow> string option" where
  "timestamp_of d = (case dget d ''timestamp'' of JStr s \<Rightarrow> Some s | _ \<Rightarrow> None)"

definition store_error :: "artifact_error \<Rightarrow> sl_error" where
  "store_error e = (case e of OtherError x \<Rightarrow> OtherLedgerError x | _ \<Rightarrow> StoreError e)"

definition read_record :: "('s, 'l) stores \<Rightarrow> 's \<Rightarrow> string \<Rightarrow> sl_error + dict \<times> octets option \<times> bool" where
  "read_record be s i =
     (case sb_get be i s of
        Inl NotFoundError \<Rightarrow> Inl MissingRecordError
      | Inl e \<Rightarrow> Inl (store_error e)
      | Inr r \<Rightarrow>
          (case decode_strict_json (ax_json (sb_ax be)) (ar_capsule r) of
             Some (JObj d) \<Rightarrow>
               let pk = (case ax_envelope (sb_ax be) i (ar_envelope r) of None \<Rightarrow> [] | Some pk \<Rightarrow> pk);
                   statements = filter (\<lambda>a. a_name a = STATEMENT \<and> a_binding a = []) (ar_artifacts r)
               in Inr (envelope_line d (ar_envelope r) pk,
                       (case statements of [] \<Rightarrow> None | a # _ \<Rightarrow> a_content a), statements \<noteq> [])
           | _ \<Rightarrow> Inl MissingCapsuleIdError))"

definition index_line :: "('s, 'l) stores \<Rightarrow> string \<Rightarrow> nat \<Rightarrow> dict \<Rightarrow> bool \<Rightarrow> sledger \<Rightarrow> sledger" where
  "index_line be i seq d padding L =
     (let L' = L\<lparr>sl_lines := sl_lines L @ [\<lparr>ll_id = i, ll_offset = seq, ll_padding = padding, ll_timestamp = timestamp_of d\<rparr>]\<rparr> in
      if padding then L'
      else L'\<lparr>sl_keys := sl_keys L @ filter (\<lambda>k. k \<notin> set (sl_keys L)) (sb_indexer be d),
             sl_index := AList.update i seq (sl_index L), sl_head := Some i\<rparr>)"

definition admit_line ::
    "('s, 'l) stores \<Rightarrow> nat \<Rightarrow> dict \<Rightarrow> octets option \<Rightarrow> bool \<Rightarrow> sledger \<Rightarrow> sl_error + sledger" where
  "admit_line be seq d statement attached L =
     (case dget d ''capsule_id'' of
        JStr i \<Rightarrow>
          sbind (recompute (sb_ax be) d i) (\<lambda>_.
            if is_padding d \<and> \<not> padding_shape_ok d then Inl MalformedPaddingError
            else if \<not> is_padding d \<and> sb_linear be \<and> parent_of d \<noteq> sl_head L then Inl ChainBrokenError
            else sbind (case statement of
                          Some st \<Rightarrow> check_statement be d i st
                        | None \<Rightarrow> if attached \<or> sb_require be then Inl StatementInvalidError else Inr ())
                   (\<lambda>_. Inr (index_line be i seq d (is_padding d) L)))
      | _ \<Rightarrow> Inl MissingCapsuleIdError)"

definition admit_entry :: "('s, 'l) stores \<Rightarrow> 's \<Rightarrow> sledger \<Rightarrow> nat \<times> octets \<Rightarrow> sl_error + sledger" where
  "admit_entry be s L e =
     (let i = to_hex (snd e) in
      sbind (read_record be s i) (\<lambda>(d, statement, attached).
        if dget d ''capsule_id'' \<noteq> JStr i then Inl CapsuleIdMismatchError
        else admit_line be (fst e) d statement attached L))"

text \<open>The pages of the scan, until one is empty; a log that never ends is never open.\<close>

partial_function (option) replay_from ::
    "('s, 'l) stores \<Rightarrow> 's \<Rightarrow> 'l \<Rightarrow> nat \<Rightarrow> sledger \<Rightarrow> (sl_error + sledger) option" where
  "replay_from be s l after L =
     (case sb_scan be l after (sb_page be) of
        Inl e \<Rightarrow> Some (Inl (LogError e))
      | Inr page \<Rightarrow>
          if page = [] then Some (Inr L)
          else (case foldM_r (admit_entry be s) L page of
                  Inl e \<Rightarrow> Some (Inl e)
                | Inr L' \<Rightarrow> replay_from be s l (fst (last page)) L'))"

definition open_stores :: "('s, 'l) stores \<Rightarrow> 's \<Rightarrow> 'l \<Rightarrow> (sl_error + sledger) option" where
  "open_stores be s l = replay_from be s l 0 new_ledger"

section \<open>Reads\<close>

definition line_number :: "sledger \<Rightarrow> string \<Rightarrow> nat" where
  "line_number L i =
     (case find (\<lambda>(n, ln). ll_id ln = i) (zip [1..<Suc (length (sl_lines L))] (sl_lines L)) of
        None \<Rightarrow> 0 | Some (n, _) \<Rightarrow> n)"

definition sl_contains :: "sledger \<Rightarrow> string \<Rightarrow> bool" where
  "sl_contains L i \<longleftrightarrow> map_of (sl_index L) i \<noteq> None"

definition capsule_ids_in_order :: "sledger \<Rightarrow> string list" where
  "capsule_ids_in_order L = map fst (sort_key snd (sl_index L))"

definition has_index_key :: "sledger \<Rightarrow> string \<Rightarrow> bool" where
  "has_index_key L k \<longleftrightarrow> k \<in> set (sl_keys L)"

definition cites_counterparty_half :: "sledger \<Rightarrow> string \<Rightarrow> bool" where
  "cites_counterparty_half L i = has_index_key L (counterparty_half_key i)"

definition cites_counterparty_inclusion :: "sledger \<Rightarrow> string \<Rightarrow> bool" where
  "cites_counterparty_inclusion L i = has_index_key L (counterparty_inclusion_key i)"

definition read_line :: "('s, 'l) stores \<Rightarrow> 's \<Rightarrow> sledger \<Rightarrow> int \<Rightarrow> sl_error + dict" where
  "read_line be s L offset =
     (if \<not> (1 \<le> offset \<and> offset \<le> int (length (sl_lines L))) then Inl (LogError ''no log entry'')
      else sbind (read_record be s (ll_id (sl_lines L ! (nat offset - 1)))) (\<lambda>(d, _, _). Inr d))"

definition read_statement :: "('s, 'l) stores \<Rightarrow> 's \<Rightarrow> string \<Rightarrow> sl_error + octets option" where
  "read_statement be s i =
     sbind (read_record be s i) (\<lambda>(_, statement, attached).
       if attached \<and> statement = None then Inl StatementInvalidError else Inr statement)"

definition lookup_record ::
    "('s, 'l) stores \<Rightarrow> 's \<Rightarrow> sledger \<Rightarrow> string \<Rightarrow> sl_error + (dict \<times> octets option) option" where
  "lookup_record be s L i =
     (case map_of (sl_index L) i of
        None \<Rightarrow> Inr None
      | Some seq \<Rightarrow>
          sbind (read_record be s i) (\<lambda>(d, statement, attached).
            if attached \<and> statement = None then Inl StatementInvalidError else Inr (Some (d, statement))))"

section \<open>Writes\<close>

definition check_not_stale :: "('s, 'l) stores \<Rightarrow> 'l \<Rightarrow> sledger \<Rightarrow> sl_error + unit" where
  "check_not_stale be l L =
     (case sb_scan be l (length (sl_lines L)) 1 of
        Inl e \<Rightarrow> Inl (LogError e)
      | Inr ahead \<Rightarrow> if ahead \<noteq> [] then Inl StaleLedgerError else Inr ())"

text \<open>The record first, then the entry, which is the commit point.\<close>

definition commit_line ::
    "('s, 'l) stores \<Rightarrow> string \<Rightarrow> art_record \<Rightarrow> dict \<Rightarrow> bool \<Rightarrow> sledger \<Rightarrow> 's \<Rightarrow> 'l \<Rightarrow> (sl_error + sledger) \<times> 's \<times> 'l" where
  "commit_line be i r d padding L s l =
     (case sb_put be r s of
        Inl e \<Rightarrow> (Inl (store_error e), s, l)
      | Inr s' \<Rightarrow>
          (case from_hex i of
             None \<Rightarrow> (Inl (OtherLedgerError ''ValueError''), s', l)
           | Some v \<Rightarrow>
               (case sb_append be v l of
                  (Inl e, l') \<Rightarrow> (Inl (LogError e), s', l')
                | (Inr (inserted, seq), l') \<Rightarrow>
                    if \<not> inserted then (Inl AlreadyInLogError, s', l')
                    else (Inr (index_line be i seq d padding L), s', l'))))"

definition write_line ::
    "('s, 'l) stores \<Rightarrow> string \<Rightarrow> dict \<Rightarrow> octets \<Rightarrow> bool \<Rightarrow> sledger \<Rightarrow> 's \<Rightarrow> 'l \<Rightarrow> (sl_error + sledger) \<times> 's \<times> 'l" where
  "write_line be i d statement padding L s l =
     (case sbind (recompute (sb_ax be) d i) (\<lambda>_.
           sbind (check_statement be d i statement) (\<lambda>_.
           sbind (to_record be i d statement) (\<lambda>r.
           sbind (check_not_stale be l L) (\<lambda>_. Inr r)))) of
        Inl e \<Rightarrow> (Inl e, s, l)
      | Inr r \<Rightarrow> commit_line be i r d padding L s l)"

definition append_sealed ::
    "('s, 'l) stores \<Rightarrow> dict \<Rightarrow> octets \<Rightarrow> sledger \<Rightarrow> 's \<Rightarrow> 'l \<Rightarrow> (sl_error + sledger) \<times> 's \<times> 'l" where
  "append_sealed be d statement L s l =
     (if is_padding d then (Inl PaddingMisroutedError, s, l)
      else (case dget d ''capsule_id'' of
              JStr i \<Rightarrow>
                if sb_linear be \<and> parent_of d \<noteq> sl_head L then (Inl AppendChainMismatchError, s, l)
                else write_line be i d statement False L s l
            | _ \<Rightarrow> (Inl MissingCapsuleIdError, s, l)))"

definition append_padding ::
    "('s, 'l) stores \<Rightarrow> dict \<Rightarrow> octets \<Rightarrow> sledger \<Rightarrow> 's \<Rightarrow> 'l \<Rightarrow> (sl_error + sledger) \<times> 's \<times> 'l" where
  "append_padding be d statement L s l =
     (if \<not> is_padding d then (Inl PaddingMisroutedError, s, l)
      else if \<not> padding_shape_ok d then (Inl MalformedPaddingError, s, l)
      else (case dget d ''capsule_id'' of
              JStr i \<Rightarrow> write_line be i d statement True L s l
            | _ \<Rightarrow> (Inl MissingCapsuleIdError, s, l)))"

text \<open>A signer: the envelope of an id in hex with its key id, and the signed statement of a payload.  \<open>nonces\<close> are the
  fresh nonces, one per record.\<close>

record signer =
  sg_envelope :: "string \<Rightarrow> sl_error + string \<times> string"
  sg_statement :: "octets \<Rightarrow> string \<Rightarrow> string \<Rightarrow> sl_error + octets"

definition sign_padding :: "('s, 'l) stores \<Rightarrow> signer \<Rightarrow> string \<Rightarrow> string \<Rightarrow> sl_error + dict \<times> octets" where
  "sign_padding be sg issuer nonce =
     sbind (padding_record_with_nonce (sb_ax be) nonce) (\<lambda>d.
       (case dget d ''capsule_id'' of
          JStr i \<Rightarrow>
            sbind (sg_envelope sg i) (\<lambda>(signature, key_id).
              let d' = d @ [(''signature'', JStr signature), (''key_id'', JStr key_id)] in
              sbind (line_bytes (JObj d')) (\<lambda>payload.
              sbind (sg_statement sg payload issuer i) (\<lambda>statement. Inr (d', statement))))
        | _ \<Rightarrow> Inl (OtherLedgerError ''KeyError'')))"

fun pad_lines ::
    "('s, 'l) stores \<Rightarrow> signer \<Rightarrow> string \<Rightarrow> string list \<Rightarrow> sledger \<Rightarrow> 's \<Rightarrow> 'l \<Rightarrow> (sl_error \<times> sledger + sledger) \<times> 's \<times> 'l" where
  "pad_lines be sg issuer [] L s l = (Inr L, s, l)"
| "pad_lines be sg issuer (nonce # nonces) L s l =
     (case sign_padding be sg issuer nonce of
        Inl e \<Rightarrow> (Inl (e, L), s, l)
      | Inr (d, statement) \<Rightarrow>
          (case append_padding be d statement L s l of
             (Inl e, s', l') \<Rightarrow> (Inl (e, L), s', l')
           | (Inr L', s', l') \<Rightarrow> pad_lines be sg issuer nonces L' s' l'))"

text \<open>The count of lines after the padding; an error keeps the lines that were already padded.\<close>

definition pad_to_bucket ::
    "('s, 'l) stores \<Rightarrow> int \<Rightarrow> signer \<Rightarrow> string \<Rightarrow> (nat \<Rightarrow> string) \<Rightarrow> sledger \<Rightarrow> 's \<Rightarrow> 'l \<Rightarrow>
     (sl_error \<times> sledger + sledger) \<times> 's \<times> 'l" where
  "pad_to_bucket be bucket sg issuer nonces L s l =
     (if bucket \<le> 0 then (Inr L, s, l)
      else pad_lines be sg issuer
        (map nonces [0..<nat ((bucket - int (length (sl_lines L)) mod bucket) mod bucket)]) L s l)"

section \<open>Basic facts\<close>

lemma dget_filter: "P k \<Longrightarrow> dget (filter (\<lambda>(k, v). P k) d) k = dget d k"
  by (induction d) (auto simp: dget_def)

lemma body_get: "k \<notin> set ENVELOPE_MEMBERS \<Longrightarrow> dget (body_of d) k = dget d k"
  unfolding body_of_def by (rule dget_filter)

lemma dict_set_new: "k \<notin> fst ` set d \<Longrightarrow> dict_set d k v = d @ [(k, v)]"
  by (induction d) auto

lemma envelope_body:
  "envelope_line (body_of d) e pk = body_of d @ [(''signature'', JStr (to_hex e)), (''key_id'', JStr (to_hex pk))]"
proof -
  have "k \<notin> fst ` set (body_of d)" if "k \<in> set ENVELOPE_MEMBERS" for k
    using that by (auto simp: body_of_def)
  then show ?thesis by (simp add: envelope_line_def dict_set_new ENVELOPE_MEMBERS_def)
qed

lemma envelope_get: "k \<notin> set ENVELOPE_MEMBERS \<Longrightarrow> dget (envelope_line (body_of d) e pk) k = dget d k"
  by (simp add: envelope_line_def dget_dict_set body_get) (simp add: ENVELOPE_MEMBERS_def)

lemma envelope_key: "dget (envelope_line d e pk) ''key_id'' = JStr (to_hex pk)"
  by (simp add: envelope_line_def dget_dict_set)

lemma envelope_record_id: "compute_record_id ax (envelope_line (body_of d) e pk) = compute_record_id ax d"
proof -
  have "filter (\<lambda>(k, v). k \<noteq> ''capsule_id'' \<and> k \<notin> set ENVELOPE_MEMBERS) (envelope_line (body_of d) e pk)
      = filter (\<lambda>(k, v). k \<noteq> ''capsule_id'' \<and> k \<notin> set ENVELOPE_MEMBERS) (body_of d)"
    unfolding envelope_body by (simp add: ENVELOPE_MEMBERS_def)
  also have "\<dots> = filter (\<lambda>(k, v). k \<noteq> ''capsule_id'' \<and> k \<notin> set ENVELOPE_MEMBERS) d"
    unfolding body_of_def filter_filter by (rule filter_cong) auto
  finally show ?thesis by (simp add: compute_record_id_def)
qed

end
