(* ===== verification/Store_Ledger_Replay.thy ===== *)
theory Store_Ledger_Replay
  imports Store_Ledger
begin

text \<open>
  The ledger over two stores as a system of several writers, in processes that may die.  The contract of the artifact store
  gains the law of a read that must succeed, the entry log has a contract of its own, and the ledger is their client: what
  it replays from the two stores is what it checked when the lines were written.  An append is three steps that others
  interleave with (its checks with the look past the end of the log, the put of the record, the log entry), and an open is
  one step per page of the scan and one per entry.  The stale check alone does not exclude a second writer between it and
  the log entry: the writers of this system append under the caller's writer lock, which the module asks for.
\<close>

section \<open>The contracts\<close>

locale readable_store = artifact_store +
  assumes get_valid: "get i s = Inr r \<Longrightarrow> valid_id i"
    and get_stored: "inv s \<Longrightarrow> valid_id i \<Longrightarrow> content s i = Some r \<Longrightarrow> verify_record ax trusted r = Inr res \<Longrightarrow>
        get i s = Inr r"
begin

lemma put_keeps:
  assumes "inv s" "put r s = Inr s'" "content s i = Some q"
  shows "content s' i = Some q"
proof -
  obtain p where p: "admit ax trusted r = Inr p" using put_admits [OF assms(1,2)] by blast
  then show ?thesis
    using put_new [OF assms(1,2) p] put_again [OF assms(1,2) p] assms(3)
    by (cases "content s (ar_capsule_id p)") auto
qed

lemma get_keeps:
  assumes "inv s" "put r s = Inr s'" "get i s = Inr q"
  shows "get i s' = Inr q"
  using get_stored [OF put_inv [OF assms(1,2)] get_valid [OF assms(3)] put_keeps [OF assms(1,2)]] get_content [OF assms(1,3)]
  by blast

end

interpretation mem_store: readable_store ax trusted "\<lambda>s. sha_ok ax \<and> mem_inv ax trusted s" ms_records
    "mem_put ax trusted" "mem_get ax trusted" mem_purge
  for ax trusted
  by unfold_locales (auto simp: mem_get_def res_simps split: option.splits if_splits)

interpretation file_store: readable_store ax trusted "js_inv ax wide" "js_content ax" "js_put ax trusted" "js_get ax trusted"
    "js_purge ax wide"
  for ax trusted wide
  by unfold_locales (auto simp: js_get_def js_content_def res_simps split: option.splits if_splits sum.splits)

text \<open>The log: reads give the entries after a position, numbered from 1; an append that inserts adds a new value at the end,
  one that does not changes nothing, and one that raises may have written the entry.\<close>

locale entry_log =
  fixes entries :: "'l \<Rightarrow> octets list" and scan :: "'l \<Rightarrow> nat \<Rightarrow> nat \<Rightarrow> string + (nat \<times> octets) list"
    and append :: "octets \<Rightarrow> 'l \<Rightarrow> (string + bool \<times> nat) \<times> 'l"
  assumes scan_page: "scan l after limit = Inr (take limit (drop after (enumerate 1 (entries l))))"
    and append_new: "append v l = (Inr (True, seq), l') \<Longrightarrow>
        entries l' = entries l @ [v] \<and> seq = Suc (length (entries l)) \<and> v \<notin> set (entries l)"
    and append_old: "append v l = (Inr (False, seq), l') \<Longrightarrow> entries l' = entries l"
    and append_raises: "append v l = (Inl e, l') \<Longrightarrow> entries l' = entries l \<or> entries l' = entries l @ [v] \<and> v \<notin> set (entries l)"

lemma snoc_enumerate: "enumerate n (xs @ [x]) = enumerate n xs @ [(n + length xs, x)]"
  by (simp add: enumerate_append_eq)

section \<open>Replay\<close>

definition replayed :: "('s, 'l) stores \<Rightarrow> 's \<Rightarrow> octets list \<Rightarrow> sl_error + sledger" where
  "replayed be s vs = foldM_r (admit_entry be s) new_ledger (enumerate 1 vs)"

lemma replay_from_pages:
  assumes scan: "\<And>after limit. sb_scan be l after limit = Inr (take limit (drop after (enumerate 1 vs)))" and page: "0 < sb_page be"
  shows "replay_from be s l after L = Some (foldM_r (admit_entry be s) L (drop after (enumerate 1 vs)))"
proof (induction "length vs - after" arbitrary: after L rule: less_induct)
  case less
  let ?all = "enumerate 1 vs"
  show ?case
  proof (cases "length vs \<le> after")
    case True
    then show ?thesis by (subst replay_from.simps) (simp add: scan)
  next
    case False
    define pg where "pg = take (sb_page be) (drop after ?all)"
    have len: "length pg = min (sb_page be) (length vs - after)" by (simp add: pg_def)
    then have ne: "pg \<noteq> []" using False page by auto
    have "last pg = ?all ! (after + length pg - 1)"
      using ne len False by (simp add: last_conv_nth pg_def)
    also have "\<dots> = (after + length pg, vs ! (after + length pg - 1))"
      using len False page by (subst nth_enumerate_eq) auto
    finally have fst: "fst (last pg) = after + length pg" by simp
    have "drop after ?all = pg @ drop (length pg) (drop after ?all)"
    proof -
      have "length pg = sb_page be \<or> drop (sb_page be) (drop after ?all) = []"
        using len by (auto simp: min_def)
      then show ?thesis
        unfolding pg_def by (metis append_Nil2 append_take_drop_id drop_all order_refl)
    qed
    then have "drop after ?all = pg @ drop (after + length pg) ?all" by (simp add: add.commute)
    then have all: "foldM_r (admit_entry be s) L (drop after ?all)
        = sbind (foldM_r (admit_entry be s) L pg) (\<lambda>M. foldM_r (admit_entry be s) M (drop (after + length pg) ?all))"
      by (simp add: foldM_r_append)
    have "0 < length pg" using ne by simp
    then have "length vs - (after + length pg) < length vs - after" using False by linarith
    note ih = less.hyps [OF this]
    show ?thesis
    proof -
      have "sb_scan be l after (sb_page be) = Inr pg" unfolding pg_def by (rule scan)
      with ne show ?thesis
        unfolding all by (subst replay_from.simps) (simp add: fst ih sbind_def split: sum.splits)
    qed
  qed
qed

lemma admit_entry_lines:
  assumes "admit_entry be s L e = Inr M"
  shows "\<exists>ln. sl_lines M = sl_lines L @ [ln] \<and> ll_id ln = to_hex (snd e) \<and> ll_offset ln = fst e"
  using assms by (auto simp: admit_entry_def admit_line_def index_line_def Let_def res_simps split: json.splits if_splits)

lemma foldM_lines:
  "foldM_r (admit_entry be s) L es = Inr M \<Longrightarrow>
    prefix (sl_lines L) (sl_lines M) \<and> length (sl_lines M) = length (sl_lines L) + length es"
proof (induction es arbitrary: L)
  case (Cons e es)
  then obtain K where "admit_entry be s L e = Inr K" "foldM_r (admit_entry be s) K es = Inr M" by (auto simp: res_simps)
  with Cons.IH [of K] admit_entry_lines [of be s L e K] show ?case by (auto intro: prefix_order.trans [rotated])
qed simp

lemma replayed_length: "replayed be s vs = Inr L \<Longrightarrow> length (sl_lines L) = length vs"
  unfolding replayed_def by (drule foldM_lines) (simp add: new_ledger_def)

lemma replayed_snoc:
  "replayed be s (vs @ [v]) = sbind (replayed be s vs) (\<lambda>L. admit_entry be s L (Suc (length vs), v))"
  by (simp add: replayed_def snoc_enumerate foldM_r_append) (simp add: sbind_def split: sum.splits)

lemma replayed_prefix:
  assumes "replayed be s vs = Inr L" "replayed be s (take n vs) = Inr M" "n \<le> length vs"
  shows "prefix (sl_lines M) (sl_lines L)"
proof -
  have "enumerate 1 vs = enumerate 1 (take n vs) @ enumerate (1 + length (take n vs)) (drop n vs)"
    by (simp only: enumerate_append_eq [symmetric] append_take_drop_id)
  then have "foldM_r (admit_entry be s) M (enumerate (1 + length (take n vs)) (drop n vs)) = Inr L"
    using assms(1,2) unfolding replayed_def by (simp only: foldM_r_append sbind_Inr)
  from foldM_lines [OF this] show ?thesis by simp
qed

lemma foldM_index:
  "foldM_r (admit_entry be s) L es = Inr M \<Longrightarrow> map_of (sl_index L) i \<noteq> None \<Longrightarrow> map_of (sl_index M) i \<noteq> None"
proof (induction es arbitrary: L)
  case (Cons e es)
  then obtain K where K: "admit_entry be s L e = Inr K" "foldM_r (admit_entry be s) K es = Inr M" by (auto simp: res_simps)
  then have "map_of (sl_index K) i \<noteq> None"
    using Cons.prems(2)
    by (auto simp: admit_entry_def admit_line_def index_line_def Let_def res_simps update_conv split: json.splits if_splits)
  with Cons.IH K(2) show ?case by blast
qed simp

lemma foldM_r_keeps:
  "foldM_r f x ys = Inr z \<Longrightarrow> (\<And>x y z. f x y = Inr z \<Longrightarrow> g x y = Inr z) \<Longrightarrow> foldM_r g x ys = Inr z"
  by (induction ys arbitrary: x) (auto simp: res_simps)

lemma read_record_keeps:
  "read_record be s i = Inr x \<Longrightarrow> (\<And>q. sb_get be i s = Inr q \<Longrightarrow> sb_get be i s' = Inr q) \<Longrightarrow> read_record be s' i = Inr x"
  by (auto simp: read_record_def split: sum.splits artifact_error.splits)

lemma replayed_keeps:
  assumes "replayed be s vs = Inr L" "\<And>i q. sb_get be i s = Inr q \<Longrightarrow> sb_get be i s' = Inr q"
  shows "replayed be s' vs = Inr L"
  using assms(1) unfolding replayed_def
proof (rule foldM_r_keeps)
  fix L e M
  assume "admit_entry be s L e = Inr M"
  then obtain x where x: "read_record be s (to_hex (snd e)) = Inr x" by (auto simp: admit_entry_def Let_def res_simps)
  with read_record_keeps [OF x assms(2)] \<open>admit_entry be s L e = Inr M\<close> show "admit_entry be s' L e = Inr M"
    by (simp add: admit_entry_def Let_def)
qed

section \<open>A written line reads back\<close>

text \<open>What the ledger relies on: the JSON digest of the record profile has no floats and no integer that the interpreter
  does not read; the indexer reads members, not their order; the records written do not collide under the storage checksum.\<close>

definition digest_plain :: "artifact_ext \<Rightarrow> bool" where
  "digest_plain ax \<longleftrightarrow> (\<forall>v i. ax_json_digest ax v = Some i \<longrightarrow> json_plain (je_max_digits (ax_json ax)) v)"

definition reads_members :: "(dict \<Rightarrow> string list) \<Rightarrow> bool" where
  "reads_members indexer \<longleftrightarrow> (\<forall>d d'. (\<forall>k. k \<notin> set ENVELOPE_MEMBERS \<longrightarrow> dget d k = dget d' k) \<longrightarrow> indexer d = indexer d')"

definition no_collision :: "artifact_ext \<Rightarrow> art_record set \<Rightarrow> bool" where
  "no_collision ax R \<longleftrightarrow>
     (\<forall>r \<in> R. \<forall>p \<in> R. \<not> has_purged r \<longrightarrow> \<not> has_purged p \<longrightarrow> storage_checksum ax r = storage_checksum ax p \<longrightarrow> r = p)"

lemma default_indexer: "reads_members counterparty_citation_keys"
proof -
  have "counterparty_citation_keys d = counterparty_citation_keys d'"
    if "\<forall>k. k \<notin> set ENVELOPE_MEMBERS \<longrightarrow> dget d k = dget d' k" for d d'
  proof -
    have refs: "dget d ''references'' = dget d' ''references''" and
      half: "foldl member_at (JObj d) (''model_attestation'' # ks) = foldl member_at (JObj d') (''model_attestation'' # ks)" for ks
      using that by (simp_all add: member_at_def ENVELOPE_MEMBERS_def)
    show ?thesis unfolding counterparty_citation_keys_def refs half ..
  qed
  then show ?thesis by (simp add: reads_members_def)
qed

lemma to_record_parts:
  assumes "to_record be i d statement = Inr r"
  obtains envelope pk where "dget d ''signature'' = JStr (to_hex envelope)" "dget d ''key_id'' = JStr (to_hex pk)"
    "ax_envelope (sb_ax be) i envelope = Some pk" "utf8_ok (json_dumps (JObj (body_of d)))"
    "r = \<lparr>ar_capsule_id = i, ar_capsule = json_dumps (JObj (body_of d)), ar_envelope = envelope,
       ar_artifacts = [\<lparr>a_name = STATEMENT, a_state = PRESENT, a_binding = [], a_content = Some statement,
         a_sha256 = ax_sha256 (sb_ax be) statement\<rparr>]\<rparr>"
  using assms
  by (auto simp: to_record_def line_bytes_def res_simps split: json.splits option.splits if_splits)

lemma prepare_to_record:
  assumes "to_record be i d statement = Inr r" "prepare (sb_ax be) r = Inr p"
  shows "p = r"
  using assms(1) by (rule to_record_parts) (use assms(2) in \<open>auto simp: prepare_def Let_def res_simps split: if_splits\<close>)

lemma body_plain:
  assumes "digest_plain ax" "compute_record_id ax d = Some i" "distinct (map fst d)" "dget d ''capsule_id'' = JStr i"
  shows "json_plain (je_max_digits (ax_json ax)) (JObj (body_of d))"
proof -
  let ?k = "je_max_digits (ax_json ax)"
  let ?f = "filter (\<lambda>(k, v). k \<noteq> ''capsule_id'' \<and> k \<notin> set ENVELOPE_MEMBERS) d"
  have "json_plain ?k (JObj ?f)"
    using assms(1,2) unfolding digest_plain_def compute_record_id_def by blast
  then have plain: "json_plain ?k v" if "(k, v) \<in> set ?f" for k v using that by (auto simp: list_all_iff)
  have "json_plain ?k v" if "(k, v) \<in> set (body_of d)" for k v
  proof (cases "k = ''capsule_id''")
    case True
    with that have "map_of d k = Some v" using assms(3) by (auto simp: body_of_def)
    with True assms(4) have "v = JStr i" by (simp add: dget_def)
    then show ?thesis by simp
  next
    case False
    with that have "(k, v) \<in> set ?f" by (auto simp: body_of_def)
    then show ?thesis by (rule plain)
  qed
  moreover have "distinct (map fst (body_of d))"
    unfolding body_of_def using assms(3) by (induction d) (auto simp: case_prod_unfold)
  ultimately show ?thesis by (auto simp: list_all_iff)
qed

lemma verified_decodes: "verify_record ax trusted r = Inr res \<Longrightarrow> \<exists>v. decode_strict_json (ax_json ax) (ar_capsule r) = Some v"
  by (auto simp: verify_record_def verified_capsule_def decode_json_def res_simps split: option.splits)

lemma decoded_dumps:
  assumes "decode_strict_json je (json_dumps v) = Some w" "json_plain (je_max_digits je) v"
  shows "w = v"
  using assms json_loads_dumps [of "je\<lparr>je_strict := True\<rparr>" v] by (auto simp: decode_strict_json_def split: if_splits)

lemma read_written:
  assumes rec: "to_record be i d statement = Inr r" and got: "sb_get be i s = Inr r"
    and ver: "verify_record (sb_ax be) trusted r = Inr res"
    and plain: "json_plain (je_max_digits (ax_json (sb_ax be))) (JObj (body_of d))"
  obtains envelope pk where "read_record be s i = Inr (envelope_line (body_of d) envelope pk, Some statement, True)"
    "dget d ''key_id'' = JStr (to_hex pk)" "dget d ''signature'' = JStr (to_hex envelope)"
proof -
  obtain envelope pk where r: "dget d ''signature'' = JStr (to_hex envelope)" "dget d ''key_id'' = JStr (to_hex pk)"
    "ax_envelope (sb_ax be) i envelope = Some pk"
    "r = \<lparr>ar_capsule_id = i, ar_capsule = json_dumps (JObj (body_of d)), ar_envelope = envelope,
       ar_artifacts = [\<lparr>a_name = STATEMENT, a_state = PRESENT, a_binding = [], a_content = Some statement,
         a_sha256 = ax_sha256 (sb_ax be) statement\<rparr>]\<rparr>"
    using rec by (rule to_record_parts) 
  obtain v where "decode_strict_json (ax_json (sb_ax be)) (ar_capsule r) = Some v"
    using verified_decodes [OF ver] by blast
  moreover from this have "v = JObj (body_of d)"
    using decoded_dumps plain r(4) by simp
  ultimately have "read_record be s i = Inr (envelope_line (body_of d) envelope pk, Some statement, True)"
    using got r by (simp add: read_record_def del: json_dumps.simps)
  with that r show thesis by blast
qed

text \<open>The checks of a write are those of the replay.\<close>

lemma envelope_facts:
  assumes "dget d ''key_id'' = JStr (to_hex pk)"
  shows "parent_of (envelope_line (body_of d) e pk) = parent_of d" "is_padding (envelope_line (body_of d) e pk) = is_padding d"
    "timestamp_of (envelope_line (body_of d) e pk) = timestamp_of d"
    "check_statement be (envelope_line (body_of d) e pk) i st = check_statement be d i st"
    "padding_shape_ok d \<Longrightarrow> padding_shape_ok (envelope_line (body_of d) e pk)"
proof -
  let ?d = "envelope_line (body_of d) e pk"
  have get: "dget ?d k = dget d k" if "k \<notin> {''signature'', ''key_id''}" for k
    using that envelope_get [of k d e pk] by (simp add: ENVELOPE_MEMBERS_def)
  show "parent_of ?d = parent_of d" "is_padding ?d = is_padding d" "timestamp_of ?d = timestamp_of d"
    by (simp_all add: parent_of_def is_padding_def timestamp_of_def get)
  show "check_statement be ?d i st = check_statement be d i st"
    by (simp add: check_statement_def check_statement_matches_def envelope_key assms)
  have sub: "fst ` set ?d \<subseteq> fst ` set d \<union> set ENVELOPE_MEMBERS"
    unfolding envelope_body by (auto simp: body_of_def ENVELOPE_MEMBERS_def)
  assume "padding_shape_ok d"
  moreover from this have "\<forall>k \<in> fst ` set d. k \<in> set PADDING_MEMBERS \<or> k \<in> set ENVELOPE_MEMBERS"
    by (auto simp: padding_shape_ok_def list_all_iff)
  with sub have "\<forall>k \<in> fst ` set ?d. k \<in> set PADDING_MEMBERS \<or> k \<in> set ENVELOPE_MEMBERS" by blast
  then have "list_all (\<lambda>(k, v). k \<in> set PADDING_MEMBERS \<or> k \<in> set ENVELOPE_MEMBERS) ?d"
    unfolding list_all_iff by force
  ultimately show "padding_shape_ok ?d"
    unfolding padding_shape_ok_def by (simp add: get)
qed

lemma hex_of_octets:
  assumes "from_hex i = Some v" "list_all (\<lambda>c. is_hex c) i"
  shows "to_hex v = i"
  using assms
proof (induction i arbitrary: v rule: from_hex.induct)
  case (2 c s)
  have "\<not> is_space c" using 2(4) by (auto simp: is_hex_def is_digit_def is_space_def)
  with 2(3) obtain d t a b w where p: "s = d # t" "hex_nibble c = Some a" "hex_nibble d = Some b" "from_hex t = Some w"
      "v = char_of (16 * a + b) # w"
    by (auto split: list.splits option.splits)
  have digit: "x < 16 \<and> hex_digit x = c" if "hex_nibble c = Some x" "is_hex c" for x c
    using that by (auto simp: hex_nibble_def hex_digit_def is_hex_def is_digit_def split: if_splits)
  have "a < 16" "hex_digit a = c" "b < 16" "hex_digit b = d"
    using digit [OF p(2)] digit [OF p(3)] 2(4) p(1) by auto
  moreover have "to_hex w = t" using 2 p \<open>\<not> is_space c\<close> by auto
  ultimately show ?case using p by (simp add: to_hex_def)
qed (simp add: to_hex_def)

section \<open>Several writers\<close>

text \<open>The steps of an append: the checks, which give the id and the record; the put; the log entry.\<close>

definition begin_line :: "('s, 'l) stores \<Rightarrow> string \<Rightarrow> dict \<Rightarrow> octets \<Rightarrow> sledger \<Rightarrow> 'l \<Rightarrow> sl_error + string \<times> art_record" where
  "begin_line be i d statement L l =
     sbind (recompute (sb_ax be) d i) (\<lambda>_.
     sbind (check_statement be d i statement) (\<lambda>_.
     sbind (to_record be i d statement) (\<lambda>r.
     sbind (check_not_stale be l L) (\<lambda>_. Inr (i, r)))))"

definition begin_append :: "('s, 'l) stores \<Rightarrow> dict \<Rightarrow> octets \<Rightarrow> sledger \<Rightarrow> 'l \<Rightarrow> sl_error + string \<times> art_record" where
  "begin_append be d statement L l =
     (if is_padding d then Inl PaddingMisroutedError
      else (case dget d ''capsule_id'' of
              JStr i \<Rightarrow>
                if sb_linear be \<and> parent_of d \<noteq> sl_head L then Inl AppendChainMismatchError
                else begin_line be i d statement L l
            | _ \<Rightarrow> Inl MissingCapsuleIdError))"

definition begin_padding :: "('s, 'l) stores \<Rightarrow> dict \<Rightarrow> octets \<Rightarrow> sledger \<Rightarrow> 'l \<Rightarrow> sl_error + string \<times> art_record" where
  "begin_padding be d statement L l =
     (if \<not> is_padding d then Inl PaddingMisroutedError
      else if \<not> padding_shape_ok d then Inl MalformedPaddingError
      else (case dget d ''capsule_id'' of
              JStr i \<Rightarrow> begin_line be i d statement L l
            | _ \<Rightarrow> Inl MissingCapsuleIdError))"

definition log_line ::
    "('s, 'l) stores \<Rightarrow> string \<Rightarrow> dict \<Rightarrow> bool \<Rightarrow> sledger \<Rightarrow> 'l \<Rightarrow> (sl_error + sledger) \<times> 'l" where
  "log_line be i d padding L l =
     (case from_hex i of
        None \<Rightarrow> (Inl (OtherLedgerError ''ValueError''), l)
      | Some v \<Rightarrow>
          (case sb_append be v l of
             (Inl e, l') \<Rightarrow> (Inl (LogError e), l')
           | (Inr (inserted, seq), l') \<Rightarrow>
               if \<not> inserted then (Inl AlreadyInLogError, l') else (Inr (index_line be i seq d padding L), l')))"

text \<open>With nothing between them the steps are the operations.\<close>

definition in_steps ::
    "('s, 'l) stores \<Rightarrow> sl_error + string \<times> art_record \<Rightarrow> dict \<Rightarrow> sledger \<Rightarrow> 's \<Rightarrow> 'l \<Rightarrow> (sl_error + sledger) \<times> 's \<times> 'l" where
  "in_steps be begun d L s l =
     (case begun of
        Inl e \<Rightarrow> (Inl e, s, l)
      | Inr (i, r) \<Rightarrow>
          (case sb_put be r s of
             Inl e \<Rightarrow> (Inl (store_error e), s, l)
           | Inr s' \<Rightarrow> (case log_line be i d (is_padding d) L l of (res, l') \<Rightarrow> (res, s', l'))))"

lemma commit_line_steps: "commit_line be i r d (is_padding d) L s l = in_steps be (Inr (i, r)) d L s l"
  by (auto simp: commit_line_def in_steps_def log_line_def split: sum.splits option.splits prod.splits)

lemma append_steps: "append_sealed be d st L s l = in_steps be (begin_append be d st L l) d L s l"
  using commit_line_steps [of be _ _ d]
  by (auto simp: append_sealed_def begin_append_def write_line_def begin_line_def sbind_def in_steps_def split: json.splits sum.splits)

lemma padding_steps: "append_padding be d st L s l = in_steps be (begin_padding be d st L l) d L s l"
  using commit_line_steps [of be _ _ d]
  by (auto simp: append_padding_def begin_padding_def write_line_def begin_line_def sbind_def in_steps_def split: json.splits sum.splits)

text \<open>What a process is doing with its ledger: nothing; opening it, with the entries of the page that are still to be
  admitted and the position after them; an append past its checks, or with its record stored.  It may have failed to
  open or have died.\<close>

datatype wphase =
    WIdle
  | WOpening nat "(nat \<times> octets) list"
  | WOpenFailed sl_error
  | WChecked string art_record dict octets
  | WStored string art_record dict octets
  | WGone

record ('s, 'l) lworld =
  lw_store :: 's
  lw_log :: 'l
  lw_lock :: "nat option"
  lw_writers :: "(sledger \<times> wphase) list"

definition start_world :: "'s \<Rightarrow> 'l \<Rightarrow> ('s, 'l) lworld" where
  "start_world s l = \<lparr>lw_store = s, lw_log = l, lw_lock = None, lw_writers = []\<rparr>"

definition set_writer :: "nat \<Rightarrow> sledger \<times> wphase \<Rightarrow> ('s, 'l) lworld \<Rightarrow> ('s, 'l) lworld" where
  "set_writer k x w = w\<lparr>lw_writers := (lw_writers w)[k := x]\<rparr>"

text \<open>The records that a write of a line, or a put by another user of the artifact store, may store.\<close>

definition offers :: "('s, 'l) stores \<Rightarrow> art_record set \<Rightarrow> dict \<Rightarrow> octets \<Rightarrow> bool" where
  "offers be R d statement \<longleftrightarrow> distinct (map fst d) \<and> (\<forall>i r. dget d ''capsule_id'' = JStr i \<longrightarrow> to_record be i d statement = Inr r \<longrightarrow> r \<in> R)"

definition scanned_page :: "string + (nat \<times> octets) list \<Rightarrow> wphase" where
  "scanned_page res =
     (case res of
        Inl e \<Rightarrow> WOpenFailed (LogError e)
      | Inr page \<Rightarrow> if page = [] then WIdle else WOpening (fst (last page)) page)"

inductive lstep :: "('s, 'l) stores \<Rightarrow> art_record set \<Rightarrow> ('s, 'l) lworld \<Rightarrow> ('s, 'l) lworld \<Rightarrow> bool" for be R where
  locks: "lw_lock w = None \<Longrightarrow> k < length (lw_writers w) \<Longrightarrow> lstep be R w (w\<lparr>lw_lock := Some k\<rparr>)"
| unlocks: "lw_lock w = Some k \<Longrightarrow> snd (lw_writers w ! k) = WIdle \<Longrightarrow> lstep be R w (w\<lparr>lw_lock := None\<rparr>)"
| opens: "lstep be R w (w\<lparr>lw_writers := lw_writers w @ [(new_ledger, WOpening 0 [])]\<rparr>)"
| scans: "k < length (lw_writers w) \<Longrightarrow> lw_writers w ! k = (M, WOpening after []) \<Longrightarrow>
    lstep be R w (set_writer k (M, scanned_page (sb_scan be (lw_log w) after (sb_page be))) w)"
| admits: "k < length (lw_writers w) \<Longrightarrow> lw_writers w ! k = (M, WOpening after (x # xs)) \<Longrightarrow>
    lstep be R w (set_writer k (case admit_entry be (lw_store w) M x of
      Inl e \<Rightarrow> (M, WOpenFailed e) | Inr M' \<Rightarrow> (M', WOpening after xs)) w)"
| checks: "k < length (lw_writers w) \<Longrightarrow> lw_writers w ! k = (M, WIdle) \<Longrightarrow> lw_lock w = Some k \<Longrightarrow> offers be R d st \<Longrightarrow>
    begin_append be d st M (lw_log w) = Inr (i, r) \<or> begin_padding be d st M (lw_log w) = Inr (i, r) \<Longrightarrow>
    lstep be R w (set_writer k (M, WChecked i r d st) w)"
| stores: "k < length (lw_writers w) \<Longrightarrow> lw_writers w ! k = (M, WChecked i r d st) \<Longrightarrow> sb_put be r (lw_store w) = Inr s' \<Longrightarrow>
    lstep be R w (set_writer k (M, WStored i r d st) (w\<lparr>lw_store := s'\<rparr>))"
| store_raises: "k < length (lw_writers w) \<Longrightarrow> lw_writers w ! k = (M, WChecked i r d st) \<Longrightarrow> sb_put be r (lw_store w) = Inl e \<Longrightarrow>
    lstep be R w (set_writer k (M, WIdle) w)"
| logs: "k < length (lw_writers w) \<Longrightarrow> lw_writers w ! k = (M, WStored i r d st) \<Longrightarrow>
    log_line be i d (is_padding d) M (lw_log w) = (res, l') \<Longrightarrow>
    lstep be R w (set_writer k (case res of Inl _ \<Rightarrow> M | Inr L \<Rightarrow> L, WIdle) (w\<lparr>lw_log := l'\<rparr>))"
| puts: "sb_put be r (lw_store w) = Inr s' \<Longrightarrow> (\<forall>p. prepare (sb_ax be) r = Inr p \<longrightarrow> p \<in> R) \<Longrightarrow> lstep be R w (w\<lparr>lw_store := s'\<rparr>)"
| crashes: "k < length (lw_writers w) \<Longrightarrow> lw_writers w ! k = (M, ph) \<Longrightarrow>
    lstep be R w (set_writer k (M, WGone) (w\<lparr>lw_lock := if lw_lock w = Some k then None else lw_lock w\<rparr>))"

inductive lreach :: "('s, 'l) stores \<Rightarrow> art_record set \<Rightarrow> ('s, 'l) lworld \<Rightarrow> ('s, 'l) lworld \<Rightarrow> bool" for be R w where
  start: "lreach be R w w"
| step: "lreach be R w w' \<Longrightarrow> lstep be R w' w'' \<Longrightarrow> lreach be R w w''"

lemma lreach_step: "lstep be R w w' \<Longrightarrow> lreach be R w' w'' \<Longrightarrow> lreach be R w w''"
  by (rotate_tac 1, induction rule: lreach.induct) (auto intro: lreach.intros)

lemma lreach_trans: "lreach be R w w' \<Longrightarrow> lreach be R w' w'' \<Longrightarrow> lreach be R w w''"
  by (rotate_tac 1, induction rule: lreach.induct) (auto intro: lreach.intros)

text \<open>An append under the lock that nothing interleaves with is reached in three steps.\<close>

lemma append_reached:
  assumes "append_sealed be d st M (lw_store w) (lw_log w) = (Inr L, s', l')" "offers be R d st"
    "k < length (lw_writers w)" "lw_writers w ! k = (M, WIdle)" "lw_lock w = Some k"
  obtains i r where "lreach be R w (set_writer k (M, WStored i r d st) (w\<lparr>lw_store := s'\<rparr>))"
    "log_line be i d False M (lw_log w) = (Inr L, l')" "dget d ''capsule_id'' = JStr i" "\<not> is_padding d"
proof -
  obtain i r where b: "begin_append be d st M (lw_log w) = Inr (i, r)" "sb_put be r (lw_store w) = Inr s'"
    "log_line be i d (is_padding d) M (lw_log w) = (Inr L, l')"
    using assms(1) by (auto simp: append_steps in_steps_def split: sum.splits prod.splits)
  then have i: "dget d ''capsule_id'' = JStr i" "\<not> is_padding d"
    by (auto simp: begin_append_def begin_line_def res_simps split: json.splits if_splits)
  let ?w = "set_writer k (M, WChecked i r d st) w"
  have one: "lstep be R w ?w" by (rule lstep.checks [OF assms(3-5,2)]) (use b(1) in blast)
  have two: "lstep be R ?w (set_writer k (M, WStored i r d st) (?w\<lparr>lw_store := s'\<rparr>))"
    by (rule lstep.stores) (use assms(3) b(2) in \<open>simp_all add: set_writer_def\<close>)
  have "lreach be R w (set_writer k (M, WStored i r d st) (w\<lparr>lw_store := s'\<rparr>))"
    using lreach_step [OF one lreach_step [OF two lreach.start]] by (simp add: set_writer_def)
  with b(3) i show thesis by (intro that) simp_all
qed

text \<open>The client of the two contracts.\<close>

locale store_ledger =
  store: readable_store ax trusted inv content put get purge + entry_log entries scan append
  for ax :: artifact_ext and trusted :: "octets list" and inv :: "'s \<Rightarrow> bool" and content :: "'s \<Rightarrow> string \<Rightarrow> art_record option"
    and put :: "art_record \<Rightarrow> 's \<Rightarrow> artifact_error + 's" and get :: "string \<Rightarrow> 's \<Rightarrow> artifact_error + art_record"
    and purge :: "string \<Rightarrow> 's \<Rightarrow> artifact_error + 's"
    and entries :: "'l \<Rightarrow> octets list" and scan :: "'l \<Rightarrow> nat \<Rightarrow> nat \<Rightarrow> string + (nat \<times> octets) list"
    and append :: "octets \<Rightarrow> 'l \<Rightarrow> (string + bool \<times> nat) \<times> 'l" +
  fixes be :: "('s, 'l) stores" and R :: "art_record set"
  assumes fields: "sb_ax be = ax" "sb_get be = get" "sb_put be = put" "sb_scan be = scan" "sb_append be = append" "0 < sb_page be"
    and plain: "digest_plain ax" and indexer: "reads_members (sb_indexer be)" and collision: "no_collision ax R"
begin

definition held :: "'s \<Rightarrow> bool" where
  "held s \<longleftrightarrow> inv s \<and> (\<forall>i r. content s i = Some r \<longrightarrow> r \<in> R)"

lemma open_replayed: "open_stores be s l = Some (replayed be s (entries l))"
  using replay_from_pages [of be l "entries l" s 0 new_ledger] scan_page fields
  by (simp add: open_stores_def replayed_def)

lemma put_held:
  assumes "held s" "put r s = Inr s'" "\<And>p. prepare ax r = Inr p \<Longrightarrow> p \<in> R"
  shows "held s' \<and> (\<forall>i q. get i s = Inr q \<longrightarrow> get i s' = Inr q)"
proof -
  have inv: "inv s" using assms(1) by (simp add: held_def)
  obtain p where p: "admit ax trusted r = Inr p" using store.put_admits [OF inv assms(2)] by blast
  then have "p \<in> R" using assms(3) by (auto simp: admit_def res_simps)
  then have "\<forall>i r. content s' i = Some r \<longrightarrow> r \<in> R"
    using store.put_new [OF inv assms(2) p] store.put_again [OF inv assms(2) p] assms(1)
    by (cases "content s (ar_capsule_id p)") (auto simp: held_def)
  with store.put_inv [OF inv assms(2)] store.get_keeps [OF inv assms(2)] show ?thesis by (simp add: held_def)
qed

text \<open>A record that was put is what a get returns, whether the store had it or not.\<close>

lemma put_get:
  assumes "held s" "put r s = Inr s'" "prepare ax r = Inr r" "r \<in> R"
  shows "get (ar_capsule_id r) s' = Inr r \<and> (\<exists>res. verify_record ax trusted r = Inr res)"
proof -
  have inv: "inv s" using assms(1) by (simp add: held_def)
  obtain p where "admit ax trusted r = Inr p" using store.put_admits [OF inv assms(2)] by blast
  with assms(3) have p: "admit ax trusted r = Inr r" by (auto simp: admit_def res_simps)
  then obtain res where ver: "verify_record ax trusted r = Inr res" by (auto simp: admit_def res_simps)
  have "content s' (ar_capsule_id r) = Some r"
  proof (cases "content s (ar_capsule_id r)")
    case None
    with store.put_new [OF inv assms(2) p] show ?thesis by simp
  next
    case (Some old)
    have "\<not> has_purged r" using prepare_ok [OF assms(3)] by simp
    with store.put_again [OF inv assms(2) p Some] collision assms(1,4) Some have "old = r"
      unfolding no_collision_def held_def by metis
    with store.put_again [OF inv assms(2) p Some] Some show ?thesis by simp
  qed
  moreover have "valid_id (ar_capsule_id r)" using ver by (auto simp: verify_record_def res_simps)
  ultimately show ?thesis using store.get_stored [OF store.put_inv [OF inv assms(2)]] ver by blast
qed

lemma index_written:
  assumes "dget d ''key_id'' = JStr (to_hex pk)"
  shows "index_line be i seq (envelope_line (body_of d) e pk) p L = index_line be i seq d p L"
proof -
  have "sb_indexer be (envelope_line (body_of d) e pk) = sb_indexer be d"
    using indexer envelope_get [of _ d e pk] unfolding reads_members_def by blast
  then show ?thesis by (simp add: index_line_def Let_def envelope_facts [OF assms])
qed

text \<open>A line that passed the checks of a write, whose record is stored, is admitted at the end of the log.\<close>

lemma written_admits:
  assumes checks: "dget d ''capsule_id'' = JStr i" "recompute ax d i = Inr ()" "check_statement be d i st = Inr ()"
      "to_record be i d st = Inr r" "distinct (map fst d)" "is_padding d \<Longrightarrow> padding_shape_ok d"
      "\<not> is_padding d \<Longrightarrow> sb_linear be \<Longrightarrow> parent_of d = sl_head L"
    and got: "get i s = Inr r" "verify_record ax trusted r = Inr res" and hex: "to_hex v = i"
  shows "admit_entry be s L (seq, v) = Inr (index_line be i seq d (is_padding d) L)"
proof -
  have cid: "compute_record_id ax d = Some i" using checks(2) by (simp add: recompute_def split: if_splits)
  have pl: "json_plain (je_max_digits (ax_json (sb_ax be))) (JObj (body_of d))"
    using body_plain [OF plain cid checks(5,1)] fields by simp
  have g: "sb_get be i s = Inr r" "verify_record (sb_ax be) trusted r = Inr res" using got fields by simp_all
  obtain envelope pk where rd: "read_record be s i = Inr (envelope_line (body_of d) envelope pk, Some st, True)"
      "dget d ''key_id'' = JStr (to_hex pk)" "dget d ''signature'' = JStr (to_hex envelope)"
    using checks(4) g pl by (rule read_written)
  have get_id: "dget (envelope_line (body_of d) envelope pk) ''capsule_id'' = JStr i"
    using checks(1) by (simp add: envelope_get ENVELOPE_MEMBERS_def)
  have "admit_line be seq (envelope_line (body_of d) envelope pk) (Some st) True L = Inr (index_line be i seq d (is_padding d) L)"
    using checks(2,3,6,7)
    by (auto simp: admit_line_def get_id recompute_def envelope_record_id fields envelope_facts [OF rd(2)] index_written [OF rd(2)])
  with rd(1) get_id hex show ?thesis by (simp add: admit_entry_def)
qed

text \<open>What a write does, in every outcome: the log stays a ledger and so does what the writer has of it.\<close>

definition good :: "'s \<Rightarrow> 'l \<Rightarrow> bool" where
  "good s l \<longleftrightarrow> held s \<and> (\<exists>T. replayed be s (entries l) = Inr T)"

definition knows :: "'s \<Rightarrow> 'l \<Rightarrow> sledger \<Rightarrow> bool" where
  "knows s l L \<longleftrightarrow> (\<exists>n \<le> length (entries l). replayed be s (take n (entries l)) = Inr L)"

definition later :: "'s \<Rightarrow> 'l \<Rightarrow> 's \<Rightarrow> 'l \<Rightarrow> bool" where
  "later s l s' l' \<longleftrightarrow> prefix (entries l) (entries l') \<and> (\<forall>i q. get i s = Inr q \<longrightarrow> get i s' = Inr q)"

lemma knows_later:
  assumes "knows s l L" "later s l s' l'"
  shows "knows s' l' L"
proof -
  obtain n where n: "n \<le> length (entries l)" "replayed be s (take n (entries l)) = Inr L"
    using assms(1) by (auto simp: knows_def)
  obtain more where more: "entries l' = entries l @ more" using assms(2) by (auto simp: later_def prefix_def)
  have "replayed be s' (take n (entries l)) = Inr L"
    using n(2) by (rule replayed_keeps) (use assms(2) fields in \<open>simp add: later_def\<close>)
  with n(1) more have "n \<le> length (entries l') \<and> replayed be s' (take n (entries l')) = Inr L" by simp
  then show ?thesis unfolding knows_def by blast
qed

lemma not_stale:
  assumes "knows s l L" "check_not_stale be l L = Inr ()"
  shows "replayed be s (entries l) = Inr L"
proof -
  obtain n where n: "n \<le> length (entries l)" "replayed be s (take n (entries l)) = Inr L"
    using assms(1) by (auto simp: knows_def)
  then have len: "length (sl_lines L) = n" using replayed_length [OF n(2)] by simp
  have "sb_scan be l n 1 = Inr (take 1 (drop n (enumerate 1 (entries l))))" using scan_page fields by simp
  with assms(2) len have "take 1 (drop n (enumerate 1 (entries l))) = []"
    by (auto simp: check_not_stale_def split: if_splits)
  then have "length (entries l) \<le> n" by simp
  with n show ?thesis by simp
qed

text \<open>What a writer past its checks knows, as long as nobody else writes to the log.\<close>

definition writing :: "'s \<Rightarrow> 'l \<Rightarrow> sledger \<Rightarrow> string \<Rightarrow> art_record \<Rightarrow> dict \<Rightarrow> octets \<Rightarrow> bool" where
  "writing s l L i r d st \<longleftrightarrow>
     replayed be s (entries l) = Inr L \<and> dget d ''capsule_id'' = JStr i \<and> recompute ax d i = Inr () \<and>
     check_statement be d i st = Inr () \<and> to_record be i d st = Inr r \<and> (is_padding d \<longrightarrow> padding_shape_ok d) \<and>
     (\<not> is_padding d \<longrightarrow> sb_linear be \<longrightarrow> parent_of d = sl_head L) \<and> distinct (map fst d) \<and> r \<in> R"

lemma checks_writing:
  assumes "knows s l L" "offers be R d st"
    "begin_append be d st L l = Inr (i, r) \<or> begin_padding be d st L l = Inr (i, r)"
  shows "writing s l L i r d st"
proof -
  have c: "dget d ''capsule_id'' = JStr i" "begin_line be i d st L l = Inr (i, r)" "is_padding d \<longrightarrow> padding_shape_ok d"
      "\<not> is_padding d \<longrightarrow> sb_linear be \<longrightarrow> parent_of d = sl_head L"
    using assms(3) by (auto simp: begin_append_def begin_padding_def begin_line_def res_simps split: json.splits if_splits)
  then have "recompute ax d i = Inr ()" "check_statement be d i st = Inr ()" "to_record be i d st = Inr r"
      "check_not_stale be l L = Inr ()"
    by (auto simp: begin_line_def res_simps fields)
  with c assms(2) not_stale [OF assms(1)] show ?thesis by (auto simp: writing_def offers_def)
qed

lemma store_writing:
  assumes "held s" "writing s l L i r d st" "put r s = Inr s'"
  shows "held s' \<and> (\<forall>i q. get i s = Inr q \<longrightarrow> get i s' = Inr q) \<and> writing s' l L i r d st \<and> get i s' = Inr r \<and>
    (\<exists>res. verify_record ax trusted r = Inr res)"
proof -
  have w: "to_record be i d st = Inr r" "r \<in> R" "replayed be s (entries l) = Inr L" using assms(2) by (auto simp: writing_def)
  have inv: "inv s" using assms(1) by (simp add: held_def)
  obtain p where "prepare ax r = Inr p" using store.put_admits [OF inv assms(3)] by (auto simp: admit_def res_simps)
  with prepare_to_record [OF w(1)] fields have prep: "prepare ax r = Inr r" by simp
  then have h: "held s' \<and> (\<forall>i q. get i s = Inr q \<longrightarrow> get i s' = Inr q)" by (intro put_held [OF assms(1,3)]) (use w(2) in simp)
  have "replayed be s' (entries l) = Inr L" using w(3) by (rule replayed_keeps) (use h fields in simp)
  with h put_get [OF assms(1,3) prep w(2)] w(1) assms(2) show ?thesis by (auto simp: writing_def elim: to_record_parts)
qed

lemma log_good:
  assumes held: "held s" and w: "writing s l L i r d st" and got: "get i s = Inr r" "verify_record ax trusted r = Inr res0"
    and run: "log_line be i d (is_padding d) L l = (res, l')"
  shows "good s l' \<and> prefix (entries l) (entries l') \<and> (\<forall>L'. res = Inr L' \<longrightarrow> replayed be s (entries l') = Inr L' \<and>
    (\<exists>seq. L' = index_line be i seq d (is_padding d) L))"
proof -
  have all: "replayed be s (entries l) = Inr L" using w by (simp add: writing_def)
  have "valid_id i" using got(1) by (rule store.get_valid)
  then have id: "list_all is_hex i" by (simp add: valid_id_def hex_string_def)
  show ?thesis
  proof (cases "from_hex i")
    case None
    with run held all show ?thesis by (auto simp: log_line_def good_def)
  next
    case (Some v)
    define T where "T = index_line be i (Suc (length (entries l))) d (is_padding d) L"
    have admits: "replayed be s (entries l @ [v]) = Inr T"
      unfolding replayed_snoc all sbind_Inr T_def
      by (rule written_admits [OF _ _ _ _ _ _ _ got hex_of_octets [OF Some id]]) (use w in \<open>auto simp: writing_def\<close>)
    have "entries l' = entries l \<or> entries l' = entries l @ [v]"
      using run Some fields append_raises append_old append_new
      by (auto simp: log_line_def split: prod.splits sum.splits if_splits)
    then have "good s l'" "prefix (entries l) (entries l')" using held all admits by (auto simp: good_def)
    moreover have "replayed be s (entries l') = Inr L' \<and> (\<exists>seq. L' = index_line be i seq d (is_padding d) L)" if "res = Inr L'" for L'
    proof -
      from run Some fields that obtain seq where "append v l = (Inr (True, seq), l')" "L' = index_line be i seq d (is_padding d) L"
        by (auto simp: log_line_def split: prod.splits sum.splits if_splits)
      with append_new [of v l seq l'] admits show ?thesis by (auto simp: T_def)
    qed
    ultimately show ?thesis by blast
  qed
qed

text \<open>An open under way has replayed the log up to some entry, and holds the entries from there to the end of its page.\<close>

definition part_open :: "'s \<Rightarrow> 'l \<Rightarrow> sledger \<Rightarrow> nat \<Rightarrow> (nat \<times> octets) list \<Rightarrow> bool" where
  "part_open s l L after xs \<longleftrightarrow> after \<le> length (entries l) \<and>
     (\<exists>n \<le> after. replayed be s (take n (entries l)) = Inr L \<and> xs = drop n (take after (enumerate 1 (entries l))))"

lemma replayed_take: "replayed be s vs = Inr T \<Longrightarrow> \<exists>L. replayed be s (take n vs) = Inr L"
proof -
  assume r: "replayed be s vs = Inr T"
  have "enumerate 1 vs = enumerate 1 (take n vs) @ enumerate (1 + length (take n vs)) (drop n vs)"
    by (simp only: enumerate_append_eq [symmetric] append_take_drop_id)
  with r show ?thesis by (auto simp: replayed_def foldM_r_append res_simps)
qed

lemma scan_opening:
  assumes "part_open s l L after []"
  shows "case scanned_page (scan l after (sb_page be)) of WIdle \<Rightarrow> True | WOpening m xs \<Rightarrow> part_open s l L m xs | _ \<Rightarrow> False"
proof -
  let ?E = "enumerate 1 (entries l)" and ?pg = "take (sb_page be) (drop after (enumerate 1 (entries l)))"
  obtain n where n: "n \<le> after" "after \<le> length (entries l)" "replayed be s (take n (entries l)) = Inr L" "[] = drop n (take after ?E)"
    using assms by (auto simp: part_open_def)
  then have "n = after" by simp
  have sc: "scan l after (sb_page be) = Inr ?pg" by (rule scan_page)
  show ?thesis
  proof (cases "?pg = []")
    case True
    then show ?thesis by (simp add: sc scanned_page_def)
  next
    case False
    have len: "length ?pg = min (sb_page be) (length (entries l) - after)" by simp
    have "0 < length ?pg" using False by simp
    then have ne: "after < length (entries l)" "length ?pg \<le> length (entries l) - after" by simp_all
    have "length ?pg - 1 < sb_page be" using len \<open>0 < length ?pg\<close> by linarith
    then have "last ?pg = ?E ! (after + (length ?pg - 1))"
      unfolding last_conv_nth [OF False] using ne(1) by (subst nth_take) (simp_all add: nth_drop del: length_take length_drop)
    also have "\<dots> = (after + length ?pg, entries l ! (after + (length ?pg - 1)))"
      using \<open>0 < length ?pg\<close> ne by (subst nth_enumerate_eq) (linarith, simp)
    finally have fst: "fst (last ?pg) = after + length ?pg" by simp
    have "?pg = take (length ?pg) (drop after ?E)" by (simp add: min_def)
    then have "?pg = drop after (take (after + length ?pg) ?E)" by (simp only: drop_take add_diff_cancel_left')
    then have "part_open s l L (after + length ?pg) ?pg"
      using n \<open>n = after\<close> ne unfolding part_open_def by (intro conjI exI [of _ n]) (linarith | simp)+
    then show ?thesis using False by (simp only: sc scanned_page_def fst sum.case if_False wphase.case)
  qed
qed

lemma admit_opening:
  assumes "good s l" "part_open s l L after (x # xs)"
  obtains M where "admit_entry be s L x = Inr M" "part_open s l M after xs"
proof -
  let ?E = "enumerate 1 (entries l)"
  obtain n where n: "n \<le> after" "after \<le> length (entries l)" "replayed be s (take n (entries l)) = Inr L" "x # xs = drop n (take after ?E)"
    using assms(2) by (auto simp: part_open_def)
  have "length (x # xs) = after - n" using n(2) unfolding n(4) by simp
  then have lt: "n < after" by simp
  have "drop n (take after ?E) = (take after ?E ! n) # drop (Suc n) (take after ?E)"
    using lt n(2) by (intro Cons_nth_drop_Suc [symmetric]) simp
  then have x: "x = (Suc n, entries l ! n)" "xs = drop (Suc n) (take after ?E)"
    using n(4) lt n(2) by (simp_all add: nth_enumerate_eq)
  have "take (Suc n) (entries l) = take n (entries l) @ [entries l ! n]" using lt n(2) by (simp add: take_Suc_conv_app_nth)
  then have step: "replayed be s (take (Suc n) (entries l)) = admit_entry be s L x"
    using n(3) lt n(2) by (simp add: replayed_snoc x)
  obtain M where M: "replayed be s (take (Suc n) (entries l)) = Inr M"
    using assms(1) replayed_take by (fastforce simp: good_def)
  have "part_open s l M after xs" unfolding part_open_def using M x(2) n(2) lt by (intro conjI exI [of _ "Suc n"]) auto
  with M step show thesis by (intro that) simp_all
qed

lemma opening_knows: "part_open s l L after xs \<Longrightarrow> knows s l L"
  unfolding part_open_def knows_def by (meson order_trans)

text \<open>What holds of each writer: nobody but the holder of the lock is past its checks, and no open has failed.\<close>

definition phase_ok :: "nat option \<Rightarrow> 's \<Rightarrow> 'l \<Rightarrow> nat \<Rightarrow> sledger \<times> wphase \<Rightarrow> bool" where
  "phase_ok lk s l k = (\<lambda>(L, ph). knows s l L \<and>
     (case ph of
        WOpening after xs \<Rightarrow> part_open s l L after xs
      | WOpenFailed _ \<Rightarrow> False
      | WChecked i r d st \<Rightarrow> lk = Some k \<and> writing s l L i r d st
      | WStored i r d st \<Rightarrow> lk = Some k \<and> writing s l L i r d st \<and> get i s = Inr r \<and> (\<exists>res. verify_record ax trusted r = Inr res)
      | _ \<Rightarrow> True))"

definition world_ok :: "('s, 'l) lworld \<Rightarrow> bool" where
  "world_ok w \<longleftrightarrow> good (lw_store w) (lw_log w) \<and>
     (\<forall>k < length (lw_writers w). phase_ok (lw_lock w) (lw_store w) (lw_log w) k (lw_writers w ! k))"

definition later_world :: "('s, 'l) lworld \<Rightarrow> ('s, 'l) lworld \<Rightarrow> bool" where
  "later_world w w' \<longleftrightarrow> later (lw_store w) (lw_log w) (lw_store w') (lw_log w')"

lemma phase_later:
  assumes "phase_ok lk s l k x" "later s l s' l'" "entries l' = entries l \<or> lk \<noteq> Some k"
    "lk' = lk \<or> lk \<noteq> Some k"
  shows "phase_ok lk' s' l' k x"
proof -
  obtain L ph where x: "x = (L, ph)" by fastforce
  obtain more where more: "entries l' = entries l @ more" using assms(2) by (auto simp: later_def prefix_def)
  have keep: "replayed be s' vs = Inr M" if "replayed be s vs = Inr M" for vs M
    using that by (rule replayed_keeps) (use assms(2) fields in \<open>simp add: later_def\<close>)
  have gets: "get i s' = Inr q" if "get i s = Inr q" for i q using that assms(2) by (simp add: later_def)
  have "knows s' l' L" using assms(1,2) knows_later by (auto simp: phase_ok_def x)
  moreover have "part_open s' l' L after xs" if p: "part_open s l L after xs" for after xs
  proof -
    obtain n where n: "n \<le> after" "after \<le> length (entries l)" "replayed be s (take n (entries l)) = Inr L"
      "xs = drop n (take after (enumerate 1 (entries l)))" using p by (auto simp: part_open_def)
    moreover from this have "take n (entries l') = take n (entries l)"
      "take after (enumerate 1 (entries l')) = take after (enumerate 1 (entries l))"
      unfolding more by (simp_all add: enumerate_append_eq)
    ultimately show ?thesis unfolding part_open_def using keep more by (intro conjI exI [of _ n]) simp_all
  qed
  moreover have "writing s' l' L i r d st" if "writing s l L i r d st" "lk = Some k" for i r d st
    using that assms(3) keep by (auto simp: writing_def)
  ultimately show ?thesis using assms(1,4) gets by (auto simp: phase_ok_def x split: wphase.splits)
qed

text \<open>A step of writer \<open>k\<close> concerns the others only through the stores and the lock.\<close>

lemma step_world:
  assumes "world_ok w" "good s' l'" "later (lw_store w) (lw_log w) s' l'"
    "entries l' = entries (lw_log w) \<or> lw_lock w = Some k" "lk' = lw_lock w \<or> lw_lock w \<in> {None, Some k}"
    "phase_ok lk' s' l' k x"
  shows "world_ok \<lparr>lw_store = s', lw_log = l', lw_lock = lk', lw_writers = (lw_writers w)[k := x]\<rparr>"
proof -
  have "phase_ok lk' s' l' j (lw_writers w ! j)" if "j < length (lw_writers w)" "j \<noteq> k" for j
    by (rule phase_later [of "lw_lock w" "lw_store w" "lw_log w"]) (use assms that in \<open>auto simp: world_ok_def\<close>)
  then have "phase_ok lk' s' l' j ((lw_writers w)[k := x] ! j)" if "j < length (lw_writers w)" for j
    using that assms(6) by (cases "j = k") simp_all
  with assms(2) show ?thesis by (simp add: world_ok_def)
qed

lemma world_writer:
  assumes "world_ok w" "k < length (lw_writers w)" "lw_writers w ! k = x"
  shows "good (lw_store w) (lw_log w)" "held (lw_store w)" "phase_ok (lw_lock w) (lw_store w) (lw_log w) k x"
    "later (lw_store w) (lw_log w) (lw_store w) (lw_log w)"
  using assms by (auto simp: world_ok_def good_def later_def)

lemma set_writer_parts:
  "set_writer k x w = \<lparr>lw_store = lw_store w, lw_log = lw_log w, lw_lock = lw_lock w, lw_writers = (lw_writers w)[k := x]\<rparr>"
  by (cases w) (simp add: set_writer_def)


lemma put_world:
  assumes "world_ok w" "held s'" "\<forall>i q. get i (lw_store w) = Inr q \<longrightarrow> get i s' = Inr q"
  shows "good s' (lw_log w)" "later (lw_store w) (lw_log w) s' (lw_log w)"
proof -
  obtain T where "replayed be (lw_store w) (entries (lw_log w)) = Inr T" using assms(1) by (auto simp: world_ok_def good_def)
  then have "replayed be s' (entries (lw_log w)) = Inr T" by (rule replayed_keeps) (use assms(3) fields in simp)
  with assms(2,3) show "good s' (lw_log w)" "later (lw_store w) (lw_log w) s' (lw_log w)" by (auto simp: good_def later_def)
qed

lemma phase_lock:
  assumes "phase_ok lk s l k x" "snd x = WIdle \<or> lk \<noteq> Some k"
  shows "phase_ok lk' s l k x"
  by (cases x, cases "snd x") (use assms in \<open>auto simp: phase_ok_def\<close>)

lemma step_ok:
  assumes "lstep be R w w'" "world_ok w"
  shows "world_ok w' \<and> later_world w w'"
  using assms(1)
proof (cases rule: lstep.cases)
  case (locks k)
  have "phase_ok (Some k) (lw_store w) (lw_log w) j (lw_writers w ! j)" if "j < length (lw_writers w)" for j
    by (rule phase_lock [of None]) (use assms(2) that locks(2) in \<open>simp_all add: world_ok_def\<close>)
  with locks(1) assms(2) show ?thesis by (simp add: world_ok_def later_world_def later_def)
next
  case (unlocks k)
  have "phase_ok None (lw_store w) (lw_log w) j (lw_writers w ! j)" if "j < length (lw_writers w)" for j
    by (rule phase_lock [of "Some k"]) (use assms(2) that unlocks(2,3) in \<open>auto simp: world_ok_def\<close>)
  with unlocks(1) assms(2) show ?thesis by (simp add: world_ok_def later_world_def later_def)
next
  case opens
  have "phase_ok lk (lw_store w) (lw_log w) k (new_ledger, WOpening 0 [])" for lk k
    by (auto simp: phase_ok_def knows_def part_open_def replayed_def)
  with opens assms(2) show ?thesis by (auto simp: world_ok_def later_world_def later_def nth_append less_Suc_eq)
next
  case (scans k M after)
  note parts = world_writer [OF assms(2) scans(2,3)]
  have "part_open (lw_store w) (lw_log w) M after []" "knows (lw_store w) (lw_log w) M" using parts(3) by (auto simp: phase_ok_def)
  with scan_opening [OF this(1)] have "phase_ok (lw_lock w) (lw_store w) (lw_log w) k (M, scanned_page (sb_scan be (lw_log w) after (sb_page be)))"
    unfolding fields by (auto simp: phase_ok_def split: wphase.splits)
  from step_world [OF assms(2) parts(1,4) _ _ this] parts(4) show ?thesis
    by (simp add: scans(1) set_writer_parts later_world_def)
next
  case (admits k M after x xs)
  note parts = world_writer [OF assms(2) admits(2,3)]
  have p: "part_open (lw_store w) (lw_log w) M after (x # xs)" using parts(3) by (auto simp: phase_ok_def)
  obtain M' where M': "admit_entry be (lw_store w) M x = Inr M'" "part_open (lw_store w) (lw_log w) M' after xs"
    using admit_opening [OF parts(1) p] .
  then have "phase_ok (lw_lock w) (lw_store w) (lw_log w) k (M', WOpening after xs)" by (simp add: phase_ok_def opening_knows)
  from step_world [OF assms(2) parts(1,4) _ _ this] parts(4) show ?thesis
    by (simp add: admits(1) M'(1) set_writer_parts later_world_def)
next
  case (checks k M d st i r)
  note parts = world_writer [OF assms(2) checks(2,3)]
  have "knows (lw_store w) (lw_log w) M" using parts(3) by (simp add: phase_ok_def)
  then have "phase_ok (lw_lock w) (lw_store w) (lw_log w) k (M, WChecked i r d st)"
    using checks_writing [OF _ checks(5,6)] checks(4) by (simp add: phase_ok_def)
  from step_world [OF assms(2) parts(1,4) _ _ this] parts(4) show ?thesis
    by (simp add: checks(1) set_writer_parts later_world_def)
next
  case (stores k M i r d st s')
  note parts = world_writer [OF assms(2) stores(2,3)]
  have w: "writing (lw_store w) (lw_log w) M i r d st" "lw_lock w = Some k" using parts(3) by (auto simp: phase_ok_def)
  have out: "held s'" "\<forall>i q. get i (lw_store w) = Inr q \<longrightarrow> get i s' = Inr q" "writing s' (lw_log w) M i r d st" "get i s' = Inr r"
      "\<exists>res. verify_record ax trusted r = Inr res"
    using store_writing [OF parts(2) w(1)] stores(4) fields by auto
  note now = put_world [OF assms(2) out(1,2)]
  have "phase_ok (lw_lock w) s' (lw_log w) k (M, WStored i r d st)"
    using out(3-5) w(2) parts(3) knows_later [OF _ now(2)] by (auto simp: phase_ok_def)
  from step_world [OF assms(2) now _ _ this] now(2) show ?thesis
    by (simp add: stores(1) set_writer_parts later_world_def)
next
  case (store_raises k M i r d st e)
  note parts = world_writer [OF assms(2) store_raises(2,3)]
  have "phase_ok (lw_lock w) (lw_store w) (lw_log w) k (M, WIdle)" using parts(3) by (simp add: phase_ok_def)
  from step_world [OF assms(2) parts(1,4) _ _ this] parts(4) show ?thesis
    by (simp add: store_raises(1) set_writer_parts later_world_def)
next
  case (logs k M i r d st res l')
  note parts = world_writer [OF assms(2) logs(2,3)]
  have w: "writing (lw_store w) (lw_log w) M i r d st" "lw_lock w = Some k" "get i (lw_store w) = Inr r"
      "\<exists>res. verify_record ax trusted r = Inr res"
    using parts(3) by (auto simp: phase_ok_def)
  obtain res0 where ver: "verify_record ax trusted r = Inr res0" using w(4) by blast
  note out = log_good [OF parts(2) w(1,3) ver logs(4)]
  have lat: "later (lw_store w) (lw_log w) (lw_store w) l'" using out by (simp add: later_def)
  have "knows (lw_store w) l' (case res of Inl _ \<Rightarrow> M | Inr L \<Rightarrow> L)"
  proof (cases res)
    case (Inl e)
    with knows_later [OF _ lat] parts(3) show ?thesis by (simp add: phase_ok_def)
  next
    case (Inr L)
    with out show ?thesis by (auto simp: knows_def intro: exI [of _ "length (entries l')"])
  qed
  then have "phase_ok (lw_lock w) (lw_store w) l' k (case res of Inl _ \<Rightarrow> M | Inr L \<Rightarrow> L, WIdle)" by (simp add: phase_ok_def)
  from step_world [OF assms(2) _ lat _ _ this] w(2) out lat show ?thesis
    by (simp add: logs(1) set_writer_parts later_world_def)
next
  case (puts r s')
  have out: "held s' \<and> (\<forall>i q. get i (lw_store w) = Inr q \<longrightarrow> get i s' = Inr q)"
    by (rule put_held) (use assms(2) puts(2,3) fields in \<open>auto simp: world_ok_def good_def\<close>)
  have now: "good s' (lw_log w)" "later (lw_store w) (lw_log w) s' (lw_log w)" using put_world [OF assms(2)] out by blast+
  have "phase_ok (lw_lock w) s' (lw_log w) k (lw_writers w ! k)" if "k < length (lw_writers w)" for k
    by (rule phase_later [OF _ now(2)]) (use assms(2) that in \<open>auto simp: world_ok_def\<close>)
  with now puts(1) show ?thesis by (simp add: world_ok_def later_world_def)
next
  case (crashes k M ph)
  note parts = world_writer [OF assms(2) crashes(2,3)]
  have "phase_ok lk (lw_store w) (lw_log w) k (M, WGone)" for lk using parts(3) by (simp add: phase_ok_def)
  from step_world [OF assms(2) parts(1,4) _ _ this] parts(4) show ?thesis
    by (simp add: crashes(1) set_writer_parts later_world_def)
qed

lemma reach_ok: "lreach be R w w' \<Longrightarrow> world_ok w \<Longrightarrow> world_ok w' \<and> later_world w w'"
  by (induction rule: lreach.induct) (use step_ok in \<open>force simp: later_world_def later_def intro: prefix_order.trans\<close>)+

lemma start_ok:
  assumes "held s" "open_stores be s l = Some (Inr L)"
  shows "world_ok (start_world s l)"
  using assms by (simp add: world_ok_def good_def start_world_def open_replayed)

lemma reopens:
  assumes "world_ok w"
  shows "\<exists>T. open_stores be (lw_store w) (lw_log w) = Some (Inr T) \<and>
    (\<forall>(M, ph) \<in> set (lw_writers w). prefix (sl_lines M) (sl_lines T) \<and>
      (length (sl_lines M) = length (sl_lines T) \<longrightarrow> M = T) \<and> (\<forall>e. ph \<noteq> WOpenFailed e))"
proof -
  obtain T where T: "replayed be (lw_store w) (entries (lw_log w)) = Inr T" using assms by (auto simp: world_ok_def good_def)
  have "prefix (sl_lines M) (sl_lines T) \<and> (length (sl_lines M) = length (sl_lines T) \<longrightarrow> M = T) \<and> (\<forall>e. ph \<noteq> WOpenFailed e)"
    if in_w: "(M, ph) \<in> set (lw_writers w)" for M ph
  proof -
    obtain k where "phase_ok (lw_lock w) (lw_store w) (lw_log w) k (M, ph)"
      using assms in_w by (metis world_ok_def in_set_conv_nth)
    then have ph: "knows (lw_store w) (lw_log w) M" "\<forall>e. ph \<noteq> WOpenFailed e" by (auto simp: phase_ok_def)
    then obtain n where n: "n \<le> length (entries (lw_log w))" "replayed be (lw_store w) (take n (entries (lw_log w))) = Inr M"
      by (auto simp: knows_def)
    have "M = T" if "n = length (entries (lw_log w))" using n(2) T that by simp
    with ph(2) n(1) show ?thesis
      using replayed_prefix [OF T n(2,1)] replayed_length [OF T] replayed_length [OF n(2)] by simp
  qed
  with T show ?thesis by (auto simp: open_replayed)
qed

text \<open>A line whose append returned is in every later ledger.\<close>

lemma accepted_stays:
  assumes ok: "world_ok w" and k: "k < length (lw_writers w)" "lw_writers w ! k = (M, WStored i r d st)" and pad: "\<not> is_padding d"
    and run: "log_line be i d False M (lw_log w) = (Inr L, l')"
    and reach: "lreach be R (set_writer k (L, WIdle) (w\<lparr>lw_log := l'\<rparr>)) w'"
  shows "\<exists>T line. open_stores be (lw_store w') (lw_log w') = Some (Inr T) \<and>
    lookup_record be (lw_store w') T i = Inr (Some (line, Some st)) \<and> (\<forall>m. dget line m = dget d m)"
proof -
  have run': "log_line be i d (is_padding d) M (lw_log w) = (Inr L, l')" using run pad by simp
  have "world_ok (set_writer k (L, WIdle) (w\<lparr>lw_log := l'\<rparr>))" using step_ok [OF lstep.logs [OF k run'] ok] by simp
  from reach_ok [OF reach this] have ok': "world_ok w'" and later: "later (lw_store w) l' (lw_store w') (lw_log w')"
    by (auto simp: later_world_def set_writer_def)
  have "phase_ok (lw_lock w) (lw_store w) (lw_log w) k (M, WStored i r d st)" using world_writer [OF ok k] by simp
  then obtain res1 where w: "writing (lw_store w) (lw_log w) M i r d st"
      and got: "get i (lw_store w) = Inr r" "verify_record ax trusted r = Inr res1"
    by (auto simp: phase_ok_def)
  have held: "held (lw_store w)" using ok by (simp add: world_ok_def good_def)
  obtain seq where now: "replayed be (lw_store w) (entries l') = Inr L" and L: "L = index_line be i seq d (is_padding d) M"
    using log_good [OF held w got run'] by blast
  have got': "sb_get be i (lw_store w') = Inr r" "verify_record (sb_ax be) trusted r = Inr res1"
    using got later fields by (auto simp: later_def)
  have checks: "recompute ax d i = Inr ()" "to_record be i d st = Inr r" "distinct (map fst d)" "dget d ''capsule_id'' = JStr i"
    using w by (auto simp: writing_def)
  have cid: "compute_record_id ax d = Some i" using checks(1) by (simp add: recompute_def split: if_splits)
  have pl: "json_plain (je_max_digits (ax_json (sb_ax be))) (JObj (body_of d))"
    using body_plain [OF plain cid checks(3,4)] fields by simp
  obtain envelope pk where rd: "read_record be (lw_store w') i = Inr (envelope_line (body_of d) envelope pk, Some st, True)"
      "dget d ''key_id'' = JStr (to_hex pk)" "dget d ''signature'' = JStr (to_hex envelope)"
    using checks(2) got' pl by (rule read_written)
  have line: "dget (envelope_line (body_of d) envelope pk) m = dget d m" for m
    using envelope_get [of m d envelope pk] rd(2,3) envelope_key [of "body_of d" envelope pk]
    by (cases "m \<in> set ENVELOPE_MEMBERS") (auto simp: ENVELOPE_MEMBERS_def envelope_line_def dget_dict_set)
  obtain T where T: "replayed be (lw_store w') (entries (lw_log w')) = Inr T" using ok' by (auto simp: world_ok_def good_def)
  have "replayed be (lw_store w') (entries l') = Inr L"
    using now by (rule replayed_keeps) (use later fields in \<open>simp add: later_def\<close>)
  moreover obtain rest where "entries (lw_log w') = entries l' @ rest" using later by (auto simp: later_def prefix_def)
  ultimately have "foldM_r (admit_entry be (lw_store w')) L (enumerate (1 + length (entries l')) rest) = Inr T"
    using T by (simp add: replayed_def enumerate_append_eq foldM_r_append)
  moreover have "map_of (sl_index L) i \<noteq> None" using L pad by (simp add: index_line_def Let_def update_conv)
  ultimately have "map_of (sl_index T) i \<noteq> None" by (rule foldM_index)
  with rd(1) line T show ?thesis
    by (auto simp: lookup_record_def open_replayed intro!: exI [of _ "envelope_line (body_of d) envelope pk"])
qed

text \<open>Why the lock is needed: of two appends that passed their checks on the same log, both may be logged, and then
  head linkage refuses the log.\<close>

lemma unlocked_race:
  assumes held: "held s" and a: "writing s l L i r d st" "get i s = Inr r" "verify_record ax trusted r = Inr res1"
    and b: "writing s l L j q e su" "get j s = Inr q" "verify_record ax trusted q = Inr res2"
    and heads: "sb_linear be" "\<not> is_padding d" "\<not> is_padding e" "sl_head L \<noteq> Some i"
    and run: "log_line be i d False L l = (Inr L1, l1)" "log_line be j e False L l1 = (Inr L2, l2)"
  shows "\<exists>er. open_stores be s l2 = Some (Inl er)"
proof -
  obtain v where v: "from_hex j = Some v" "entries l2 = entries l1 @ [v]"
    using run(2) append_new fields by (fastforce simp: log_line_def split: option.splits prod.splits sum.splits if_splits)
  have run1: "log_line be i d (is_padding d) L l = (Inr L1, l1)" using run(1) heads(2) by simp
  obtain seq where now: "replayed be s (entries l1) = Inr L1" and "L1 = index_line be i seq d (is_padding d) L"
    using log_good [OF held a run1] by blast
  then have head: "sl_head L1 = Some i" using heads(2) by (simp add: index_line_def Let_def)
  have checks: "recompute ax e j = Inr ()" "to_record be j e su = Inr q" "distinct (map fst e)" "dget e ''capsule_id'' = JStr j"
      "parent_of e = sl_head L"
    using b(1) heads by (auto simp: writing_def)
  have cid: "compute_record_id ax e = Some j" using checks(1) by (simp add: recompute_def split: if_splits)
  have pl: "json_plain (je_max_digits (ax_json (sb_ax be))) (JObj (body_of e))"
    using body_plain [OF plain cid checks(3,4)] fields by simp
  have g: "sb_get be j s = Inr q" "verify_record (sb_ax be) trusted q = Inr res2" using b fields by simp_all
  obtain envelope pk where rd: "read_record be s j = Inr (envelope_line (body_of e) envelope pk, Some su, True)"
      "dget e ''key_id'' = JStr (to_hex pk)"
    using checks(2) g pl by (rule read_written)
  have "list_all is_hex j" using store.get_valid [OF b(2)] by (simp add: valid_id_def hex_string_def)
  then have hex: "to_hex v = j" using hex_of_octets [OF v(1)] by simp
  have get_id: "dget (envelope_line (body_of e) envelope pk) ''capsule_id'' = JStr j"
    using checks(4) by (simp add: envelope_get ENVELOPE_MEMBERS_def)
  have "\<exists>er. admit_line be n (envelope_line (body_of e) envelope pk) (Some su) True L1 = Inl er" for n
    using heads head checks(5)
    by (auto simp: admit_line_def get_id envelope_record_id envelope_facts [OF rd(2)] sbind_def split: sum.splits)
  then have "\<exists>er. admit_entry be s L1 (n, v) = Inl er" for n using rd(1) get_id hex by (simp add: admit_entry_def)
  then show ?thesis by (simp add: open_replayed v(2) replayed_snoc now)
qed

end

text \<open>What the replay establishes of every line, whatever wrote it.\<close>

fun one_chain :: "string option \<Rightarrow> dict list \<Rightarrow> bool" where
  "one_chain head [] = True"
| "one_chain head (d # ds) =
     (if is_padding d then one_chain head ds
      else parent_of d = head \<and> (case dget d ''capsule_id'' of JStr i \<Rightarrow> one_chain (Some i) ds | _ \<Rightarrow> False))"

definition sound_line :: "('s, 'l) stores \<Rightarrow> 's \<Rightarrow> octets \<Rightarrow> dict \<Rightarrow> bool" where
  "sound_line be s v d \<longleftrightarrow>
     dget d ''capsule_id'' = JStr (to_hex v) \<and> compute_record_id (sb_ax be) d = Some (to_hex v) \<and>
     (is_padding d \<longrightarrow> padding_shape_ok d) \<and>
     (\<exists>statement attached. read_record be s (to_hex v) = Inr (d, statement, attached) \<and>
        (case statement of None \<Rightarrow> \<not> sb_require be \<and> \<not> attached | Some st \<Rightarrow> check_statement_matches be d (to_hex v) st))"

lemma admit_entry_sound:
  assumes "admit_entry be s L (n, v) = Inr M"
  shows "\<exists>d. sound_line be s v d \<and> (\<not> is_padding d \<longrightarrow> sb_linear be \<longrightarrow> parent_of d = sl_head L) \<and>
    sl_head M = (if is_padding d then sl_head L else Some (to_hex v))"
proof -
  obtain d st att where rd: "read_record be s (to_hex v) = Inr (d, st, att)" "dget d ''capsule_id'' = JStr (to_hex v)"
      "admit_line be n d st att L = Inr M"
    using assms by (auto simp: admit_entry_def Let_def res_simps split: if_splits)
  then have checks: "recompute (sb_ax be) d (to_hex v) = Inr ()" "is_padding d \<longrightarrow> padding_shape_ok d"
      "\<not> is_padding d \<longrightarrow> sb_linear be \<longrightarrow> parent_of d = sl_head L"
      "case st of None \<Rightarrow> \<not> sb_require be \<and> \<not> att | Some x \<Rightarrow> check_statement be d (to_hex v) x = Inr ()"
      "M = index_line be (to_hex v) n d (is_padding d) L"
    by (auto simp: admit_line_def res_simps split: option.splits if_splits)
  have "sound_line be s v d"
    unfolding sound_line_def using rd(1,2) checks(1,2,4)
    by (auto simp: recompute_def check_statement_def split: option.splits if_splits)
  with checks(3,5) show ?thesis by (auto simp: index_line_def Let_def)
qed

lemma foldM_sound:
  "foldM_r (admit_entry be s) L (enumerate n vs) = Inr T \<Longrightarrow>
    \<exists>ds. list_all2 (sound_line be s) vs ds \<and> (sb_linear be \<longrightarrow> one_chain (sl_head L) ds)"
proof (induction vs arbitrary: n L)
  case (Cons v vs)
  then obtain M where M: "admit_entry be s L (n, v) = Inr M" "foldM_r (admit_entry be s) M (enumerate (Suc n) vs) = Inr T"
    by (auto simp: res_simps)
  obtain d where d: "sound_line be s v d" "\<not> is_padding d \<longrightarrow> sb_linear be \<longrightarrow> parent_of d = sl_head L"
    "sl_head M = (if is_padding d then sl_head L else Some (to_hex v))"
    using admit_entry_sound [OF M(1)] by blast
  obtain ds where "list_all2 (sound_line be s) vs ds" "sb_linear be \<longrightarrow> one_chain (sl_head M) ds" using Cons.IH [OF M(2)] by blast
  moreover have "dget d ''capsule_id'' = JStr (to_hex v)" using d(1) by (simp add: sound_line_def)
  ultimately show ?case using d by (intro exI [of _ "d # ds"]) auto
qed simp

lemma padding_effect:
  assumes "append_padding be d st L s l = (Inr M, s', l')"
  shows "length (sl_lines M) = Suc (length (sl_lines L)) \<and> prefix (sl_lines L) (sl_lines M) \<and> sl_head M = sl_head L \<and>
    sl_index M = sl_index L \<and> sl_keys M = sl_keys L"
  using assms
  by (auto simp: append_padding_def write_line_def commit_line_def index_line_def Let_def
      split: json.splits sum.splits option.splits prod.splits if_splits)

lemma pad_lines_effect:
  "pad_lines be sg issuer nonces L s l = (Inr M, s', l') \<Longrightarrow>
    length (sl_lines M) = length (sl_lines L) + length nonces \<and> prefix (sl_lines L) (sl_lines M) \<and> sl_head M = sl_head L \<and>
    sl_index M = sl_index L \<and> sl_keys M = sl_keys L"
proof (induction nonces arbitrary: L s l)
  case (Cons nonce nonces)
  then obtain d st L1 s1 l1 where "append_padding be d st L s l = (Inr L1, s1, l1)"
      "pad_lines be sg issuer nonces L1 s1 l1 = (Inr M, s', l')"
    by (auto split: sum.splits prod.splits)
  with Cons.IH [of L1 s1 l1] padding_effect [of be d st L s l L1 s1 l1] show ?case by (auto intro: prefix_order.trans)
qed simp

end
