(* ===== verification/Legacy_Ledger.thy ===== *)
theory Legacy_Ledger
  imports Store_Ledger_Replay
begin

text \<open>
  \<open>legacy_ledger.py\<close> over a flat file, with the file policy of \<open>ledger_layout.py\<close>: the incremental index of the lines of
  the file, the reads of the entry log, and the checked writes of the artifact store.  The file is its identity (device
  and inode) with its octets.  An operation gives its result, the file and the index it leaves.  The locks make
  an operation one step.  Not modelled: the ledger store directory behind the same class, the closed flag, the warning before
  a write and the caller's check under the locks.  A number beyond the digit limit of the interpreter counts as an unreadable line.
\<close>

section \<open>The text of a line\<close>

text \<open>Decoding with \<open>errors="replace"\<close>: each maximal part of an encoding that is cut short becomes one U+FFFD.\<close>

fun good_conts :: "nat \<Rightarrow> nat \<Rightarrow> nat \<Rightarrow> string \<Rightarrow> nat" where
  "good_conts 0 lo hi s = 0"
| "good_conts (Suc n) lo hi [] = 0"
| "good_conts (Suc n) lo hi (c # s) = (if lo \<le> byte c \<and> byte c < hi then Suc (good_conts n 128 192 s) else 0)"

function utf8_replace :: "octets \<Rightarrow> string" where
  "utf8_replace [] = []"
| "utf8_replace (c # s) =
     (case lead c of
        None \<Rightarrow> CHR 0xEF # CHR 0xBF # CHR 0xBD # utf8_replace s
      | Some (n, lo, hi) \<Rightarrow>
          let k = good_conts n lo hi s in
          if k = n then c # take n s @ utf8_replace (drop n s)
          else CHR 0xEF # CHR 0xBF # CHR 0xBD # utf8_replace (drop k s))"
  by pat_completeness auto
termination by (relation "measure length") auto

text \<open>\<open>bytes.strip\<close>\<close>

definition bytes_space :: "char \<Rightarrow> bool" where
  "bytes_space c \<longleftrightarrow> byte c = 32 \<or> (9 \<le> byte c \<and> byte c \<le> 13)"

definition bytes_strip :: "octets \<Rightarrow> octets" where
  "bytes_strip s = rev (dropWhile bytes_space (rev (dropWhile bytes_space s)))"

text \<open>\<open>json.dumps\<close> with ASCII escapes, the form of a line of the file.\<close>

definition cp_value :: "string \<Rightarrow> nat" where
  "cp_value cp =
     (case map byte cp of
        [a] \<Rightarrow> a
      | [a, b] \<Rightarrow> 64 * (a - 192) + (b - 128)
      | [a, b, c] \<Rightarrow> 4096 * (a - 224) + 64 * (b - 128) + (c - 128)
      | [a, b, c, d] \<Rightarrow> 262144 * (a - 240) + 4096 * (b - 128) + 64 * (c - 128) + (d - 128)
      | _ \<Rightarrow> 0xFFFD)"

definition u_escape :: "nat \<Rightarrow> string" where
  "u_escape n = [CHR 0x5C, CHR ''u'', hex_digit (n div 4096 mod 16), hex_digit (n div 256 mod 16), hex_digit (n div 16 mod 16),
     hex_digit (n mod 16)]"

definition ascii_char :: "string \<Rightarrow> string" where
  "ascii_char cp =
     (case cp of
        [c] \<Rightarrow> if byte c < 127 then esc_char c else u_escape (byte c)
      | _ \<Rightarrow>
          let n = cp_value cp in
          if n < 0x10000 then u_escape n
          else u_escape (0xD800 + (n - 0x10000) div 1024) @ u_escape (0xDC00 + (n - 0x10000) mod 1024))"

definition ascii_quote :: "string \<Rightarrow> string" where
  "ascii_quote s = CHR 0x22 # concat (map ascii_char (code_points s)) @ [CHR 0x22]"

fun ascii_dumps :: "json \<Rightarrow> string" where
  "ascii_dumps JNull = ''null''"
| "ascii_dumps (JBool b) = (if b then ''true'' else ''false'')"
| "ascii_dumps (JInt i) = int_str i"
| "ascii_dumps (JFloat f) = json_float f"
| "ascii_dumps (JStr s) = ascii_quote s"
| "ascii_dumps (JArr vs) = CHR ''['' # commas (map ascii_dumps vs) @ '']''"
| "ascii_dumps (JObj d) = CHR ''{'' # commas (map (\<lambda>(k, v). ascii_quote k @ CHR '':'' # ascii_dumps v) d) @ ''}''"

definition line_form :: "dict \<Rightarrow> string" where
  "line_form d = ascii_dumps (JObj d)"

section \<open>The index\<close>

datatype legacy_exn =
    LogCorrupt
  | LogNotFound
  | LogUnsupported
  | LogInvalid
  | FlatLedgerWriteRefused
  | ArtifactExn artifact_error

text \<open>\<open>lv_time\<close> is \<open>capsule_timestamp\<close> of \<open>cll\<close>, in milliseconds, \<open>None\<close> where it raises; \<open>lv_verify\<close> the verifier of
  \<open>agent_action_capsule\<close>; \<open>lv_stopped\<close> whether the window of the flat ledger is over, \<open>lv_new_flat\<close> whether a flat file may
  be created, with the identity it gets.\<close>

record legacy_env =
  lv_ax :: artifact_ext
  lv_emit :: emit_env
  lv_verify :: "dict \<Rightarrow> bool"
  lv_trusted :: "octets list option"
  lv_time :: "json \<Rightarrow> int option"
  lv_stopped :: bool
  lv_new_flat :: "nat option"

type_synonym flat_file = "(nat \<times> octets) option"

record legacy_line =
  le_seq :: nat
  le_value :: octets
  le_at :: int
  le_offset :: nat
  le_length :: nat
  le_capsule :: bool

record legacy_index =
  lx_lines :: "legacy_line list"
  lx_first :: "octets \<Rightarrow> nat option"
  lx_consumed :: nat
  lx_tail :: "legacy_line option"
  lx_identity :: "nat option"

definition new_index :: legacy_index where
  "new_index = \<lparr>lx_lines = [], lx_first = (\<lambda>_. None), lx_consumed = 0, lx_tail = None, lx_identity = None\<rparr>"

definition line_time :: "legacy_env \<Rightarrow> dict \<Rightarrow> int option" where
  "line_time env d =
     (let timestamp = (if dget d ''timestamp'' = JNull then member_at (dget d ''checkpoint'') ''timestamp''
                       else dget d ''timestamp'')
      in if timestamp = JNull then None else lv_time env timestamp)"

definition is_record_line :: "dict \<Rightarrow> bool" where
  "is_record_line d \<longleftrightarrow> dget d ''kind'' \<notin> JStr ` set NON_CAPSULE_KINDS"

definition hex32 :: "json \<Rightarrow> octets" where
  "hex32 v =
     (case v of
        JStr i \<Rightarrow> if length (code_points i) = 64 then (case from_hex i of None \<Rightarrow> [] | Some b \<Rightarrow> b) else []
      | _ \<Rightarrow> [])"

definition parse_line :: "legacy_env \<Rightarrow> octets \<Rightarrow> nat \<Rightarrow> nat \<Rightarrow> int \<Rightarrow> legacy_exn + legacy_line option" where
  "parse_line env raw offset seq previous =
     (let text = py_strip (utf8_replace raw) in
      if text = [] then Inr None
      else (case json_loads ((ax_json (lv_ax env))\<lparr>je_strict := False\<rparr>) text of
              None \<Rightarrow> Inr None
            | Some (JObj d) \<Rightarrow>
                let v = hex32 (dget d ''capsule_id'') in
                if length v \<noteq> 32 then Inl LogCorrupt
                else Inr (Some \<lparr>le_seq = seq, le_value = v,
                       le_at = (case line_time env d of None \<Rightarrow> previous | Some t \<Rightarrow> t),
                       le_offset = offset, le_length = length raw, le_capsule = is_record_line d\<rparr>)
            | Some _ \<Rightarrow> Inl LogCorrupt))"

fun parse_lines :: "legacy_env \<Rightarrow> nat \<Rightarrow> nat \<Rightarrow> int \<Rightarrow> octets list \<Rightarrow> legacy_exn + legacy_line list" where
  "parse_lines env offset seq previous [] = Inr []"
| "parse_lines env offset seq previous (raw # raws) =
     sbind (parse_line env raw offset seq previous) (\<lambda>ln.
       (case ln of
          None \<Rightarrow> parse_lines env (offset + length raw + 1) seq previous raws
        | Some ln \<Rightarrow>
            sbind (parse_lines env (offset + length raw + 1) (Suc seq) (le_at ln) raws) (\<lambda>lns. Inr (ln # lns))))"

definition last_time :: "int \<Rightarrow> legacy_line list \<Rightarrow> int" where
  "last_time previous lns = (if lns = [] then previous else le_at (last lns))"

definition add_first :: "legacy_line list \<Rightarrow> nat \<Rightarrow> (octets \<Rightarrow> nat option) \<Rightarrow> octets \<Rightarrow> nat option" where
  "add_first lns n first = fst (fold (\<lambda>ln (first, k).
     (if first (le_value ln) = None then first(le_value ln \<mapsto> k) else first, Suc k)) lns (first, n))"

definition file_octets :: "flat_file \<Rightarrow> octets" where
  "file_octets file = (case file of None \<Rightarrow> [] | Some (_, f) \<Rightarrow> f)"

definition refresh :: "legacy_env \<Rightarrow> flat_file \<Rightarrow> legacy_index \<Rightarrow> (legacy_exn + unit) \<times> legacy_index" where
  "refresh env file ix =
     (let f = file_octets file; identity = map_option fst file;
          ix1 = (if length f < lx_consumed ix \<or> (lx_identity ix \<noteq> None \<and> identity \<noteq> lx_identity ix) then new_index else ix)
                  \<lparr>lx_identity := identity\<rparr>
      in if length f = lx_consumed ix1 \<and> lx_tail ix1 = None then (Inr (), ix1)
         else
           let (raws, torn) = split_lines (drop (lx_consumed ix1) f);
               previous = last_time 0 (lx_lines ix1)
           in (case parse_lines env (lx_consumed ix1) (length (lx_lines ix1) + 1) previous raws of
                 Inl e \<Rightarrow> (Inl e, ix1)
               | Inr parsed \<Rightarrow>
                   let offset = lx_consumed ix1 + length (unlines raws);
                       seq = length (lx_lines ix1) + 1 + length parsed
                   in (case (if torn = [] then Inr None else parse_line env torn offset seq (last_time previous parsed)) of
                         Inl e \<Rightarrow> (Inl e, ix1)
                       | Inr tail \<Rightarrow>
                           (Inr (), ix1\<lparr>lx_lines := lx_lines ix1 @ parsed,
                                       lx_first := add_first parsed (length (lx_lines ix1)) (lx_first ix1),
                                       lx_consumed := offset, lx_tail := tail\<rparr>))))"

definition all_lines :: "legacy_index \<Rightarrow> legacy_line list" where
  "all_lines ix = lx_lines ix @ (case lx_tail ix of None \<Rightarrow> [] | Some t \<Rightarrow> [t])"

definition find_line :: "legacy_index \<Rightarrow> octets \<Rightarrow> legacy_line option" where
  "find_line ix v =
     (case lx_first ix v of
        Some k \<Rightarrow> Some (lx_lines ix ! k)
      | None \<Rightarrow> (case lx_tail ix of None \<Rightarrow> None | Some t \<Rightarrow> if le_value t = v then Some t else None))"

definition read_raw :: "flat_file \<Rightarrow> legacy_line \<Rightarrow> octets" where
  "read_raw file ln = bytes_strip (take (le_length ln) (drop (le_offset ln) (file_octets file)))"

section \<open>The entry log\<close>

text \<open>An entry is its line: number, value and time.  The checks of the arguments of a scan are those of \<open>cll\<close>.\<close>

definition scan_entries :: "legacy_env \<Rightarrow> nat \<Rightarrow> nat \<Rightarrow> flat_file \<Rightarrow> legacy_index \<Rightarrow> (legacy_exn + legacy_line list) \<times> legacy_index" where
  "scan_entries env after limit file ix =
     (case refresh env file ix of
        (Inl e, ix') \<Rightarrow> (Inl e, ix')
      | (Inr _, ix') \<Rightarrow>
          let lns = take limit (drop after (lx_lines ix')) in
          (Inr (case lx_tail ix' of
                  Some t \<Rightarrow> if length lns < limit \<and> after < le_seq t then lns @ [t] else lns
                | None \<Rightarrow> lns), ix'))"

definition get_entry :: "legacy_env \<Rightarrow> octets \<Rightarrow> flat_file \<Rightarrow> legacy_index \<Rightarrow> (legacy_exn + legacy_line) \<times> legacy_index" where
  "get_entry env v file ix =
     (if length v \<noteq> 32 then (Inl LogInvalid, ix)
      else (case refresh env file ix of
              (Inl e, ix') \<Rightarrow> (Inl e, ix')
            | (Inr _, ix') \<Rightarrow> (case find_line ix' v of None \<Rightarrow> Inl LogNotFound | Some ln \<Rightarrow> Inr ln, ix')))"

definition append_digest :: "legacy_env \<Rightarrow> octets \<Rightarrow> flat_file \<Rightarrow> legacy_index \<Rightarrow> (legacy_exn + legacy_line) \<times> legacy_index" where
  "append_digest env v file ix =
     (if length v \<noteq> 32 then (Inl LogInvalid, ix)
      else (case refresh env file ix of
              (Inl e, ix') \<Rightarrow> (Inl e, ix')
            | (Inr _, ix') \<Rightarrow> (case find_line ix' v of None \<Rightarrow> Inl LogUnsupported | Some ln \<Rightarrow> Inr ln, ix')))"

definition stamp_cose :: "legacy_env \<Rightarrow> flat_file \<Rightarrow> legacy_line \<Rightarrow> octets option" where
  "stamp_cose env file ln =
     (let raw = read_raw file ln in
      if \<not> utf8_ok raw then None
      else (case json_loads ((ax_json (lv_ax env))\<lparr>je_strict := False\<rparr>) raw of
              Some (JObj d) \<Rightarrow>
                if dget d ''kind'' \<noteq> JStr ''checkpoint_stamp'' then None
                else (case dget d ''checkpoint_cose'' of JStr h \<Rightarrow> if h = [] then None else from_hex h | _ \<Rightarrow> None)
            | _ \<Rightarrow> None))"

text \<open>\<open>state_at\<close> is \<open>_cll_state_at\<close>, which folds the leaves with \<open>cll\<close>: \<open>None\<close> where the statement does not verify or covers
  too much, an error where the leaves contradict the signed root.  The newest stamp first.\<close>

fun newest_state ::
    "legacy_env \<Rightarrow> (octets list \<Rightarrow> octets \<Rightarrow> (legacy_exn + 'c) option) \<Rightarrow> octets list \<Rightarrow> flat_file \<Rightarrow> legacy_line list \<Rightarrow>
     legacy_exn + 'c option" where
  "newest_state env state_at vs file [] = Inr None"
| "newest_state env state_at vs file (ln # lns) =
     (if le_capsule ln then newest_state env state_at vs file lns
      else (case stamp_cose env file ln of
              None \<Rightarrow> newest_state env state_at vs file lns
            | Some cose \<Rightarrow>
                (case state_at vs cose of
                   None \<Rightarrow> newest_state env state_at vs file lns
                 | Some (Inl e) \<Rightarrow> Inl e
                 | Some (Inr c) \<Rightarrow> Inr (Some c))))"

definition load_cll ::
    "legacy_env \<Rightarrow> (octets list \<Rightarrow> octets \<Rightarrow> (legacy_exn + 'c) option) \<Rightarrow> flat_file \<Rightarrow> legacy_index \<Rightarrow>
     (legacy_exn + 'c option) \<times> legacy_index" where
  "load_cll env state_at file ix =
     (case refresh env file ix of
        (Inl e, ix') \<Rightarrow> (Inl e, ix')
      | (Inr _, ix') \<Rightarrow>
          let lns = all_lines ix' in (newest_state env state_at (map le_value lns) file (rev lns), ix'))"

section \<open>Checking a record\<close>

definition verify_legacy :: "legacy_env \<Rightarrow> string \<Rightarrow> dict \<Rightarrow> octets option \<Rightarrow> legacy_exn + string option" where
  "verify_legacy env i capsule envelope =
     (if dget capsule ''capsule_id'' \<noteq> JStr i then Inl (ArtifactExn InvalidError)
      else
        sbind (if dget capsule ''record_type'' = JStr PADDING_RECORD_TYPE then
                 (case verify_padding (lv_ax env) i capsule of
                    Inl e \<Rightarrow> Inl (ArtifactExn e)
                  | Inr _ \<Rightarrow> if envelope = None then Inl (ArtifactExn InvalidError) else Inr ())
               else
                 (case compute_capsule_id (lv_emit env) capsule of
                    Inl _ \<Rightarrow> Inl (ArtifactExn InvalidError)
                  | Inr computed \<Rightarrow>
                      if computed \<noteq> i then Inl (ArtifactExn InvalidError)
                      else if resolve_canonicalization_id capsule = JStr ''jcs'' \<and> \<not> lv_verify env capsule
                      then Inl (ArtifactExn InvalidError) else Inr ()))
          (\<lambda>_. (case envelope of
                  None \<Rightarrow> Inr None
                | Some e \<Rightarrow>
                    (case ax_envelope (lv_ax env) i e of
                       None \<Rightarrow> Inl (ArtifactExn InvalidError)
                     | Some pk \<Rightarrow>
                         (case lv_trusted env of
                            Some keys \<Rightarrow> if pk \<notin> set keys then Inl (ArtifactExn UntrustedSignerError) else Inr (Some (to_hex pk))
                          | None \<Rightarrow> Inr (Some (to_hex pk)))))))"

definition checked_record :: "legacy_env \<Rightarrow> string \<Rightarrow> dict \<Rightarrow> legacy_exn + art_record" where
  "checked_record env i d =
     sbind (if dhas d ''signature'' \<or> dhas d ''key_id'' then
              (case (dget d ''signature'', dget d ''key_id'') of
                 (JStr signature, JStr key_id) \<Rightarrow>
                   (case from_hex signature of
                      Some (c # e) \<Rightarrow> Inr (Some (c # e))
                    | _ \<Rightarrow> Inl (ArtifactExn InvalidError))
               | _ \<Rightarrow> Inl (ArtifactExn InvalidError))
            else Inr None)
       (\<lambda>envelope.
          sbind (verify_legacy env i (body_of d) envelope) (\<lambda>signer.
            if (case (signer, dget d ''key_id'') of
                  (Some k, JStr key_id) \<Rightarrow> k \<noteq> ascii_lower key_id
                | _ \<Rightarrow> False)
            then Inl (ArtifactExn InvalidError)
            else Inr \<lparr>ar_capsule_id = i, ar_capsule = line_form (body_of d),
                       ar_envelope = (case envelope of None \<Rightarrow> [] | Some e \<Rightarrow> e), ar_artifacts = []\<rparr>))"

text \<open>On artifact operations a corrupt line of the log is \<open>CorruptError\<close>.\<close>

definition as_artifact :: "legacy_exn \<Rightarrow> legacy_exn" where
  "as_artifact e = (if e = LogCorrupt then ArtifactExn CorruptError else e)"

definition get_record :: "legacy_env \<Rightarrow> string \<Rightarrow> flat_file \<Rightarrow> legacy_index \<Rightarrow> (legacy_exn + art_record) \<times> legacy_index" where
  "get_record env i file ix =
     (if \<not> valid_id i then (Inl (ArtifactExn InvalidError), ix)
      else (case refresh env file ix of
              (Inl e, ix') \<Rightarrow> (Inl (as_artifact e), ix')
            | (Inr _, ix') \<Rightarrow>
                (case Option.bind (from_hex i) (find_line ix') of
                   None \<Rightarrow> Inl (ArtifactExn NotFoundError)
                 | Some ln \<Rightarrow>
                     if \<not> le_capsule ln then Inl (ArtifactExn NotFoundError)
                     else (case decode_strict_json (ax_json (lv_ax env)) (read_raw file ln) of
                             Some (JObj d) \<Rightarrow> checked_record env (to_hex (le_value ln)) d
                           | _ \<Rightarrow> Inl (ArtifactExn InvalidError)), ix')))"

definition purge_record :: "string \<Rightarrow> legacy_exn + unit" where
  "purge_record i = (if \<not> valid_id i then Inl (ArtifactExn InvalidError) else Inl (ArtifactExn UnsupportedError))"

section \<open>Writing\<close>

definition write_text :: "octets \<Rightarrow> octets \<Rightarrow> octets" where
  "write_text f text = f @ (if f \<noteq> [] \<and> last f \<noteq> newline then [newline] else []) @ text @ [newline]"

text \<open>The write under the locks: what is there already, else the policy of the flat file, else one more line.  \<open>windowed\<close>
  lines are new records, which the end of the window stops.\<close>

definition write_locked ::
    "legacy_env \<Rightarrow> string \<Rightarrow> octets \<Rightarrow> bool \<Rightarrow> bool \<Rightarrow> flat_file \<Rightarrow> legacy_index \<Rightarrow>
     (legacy_exn + legacy_line \<times> bool) \<times> flat_file \<times> legacy_index" where
  "write_locked env text v require_record windowed file ix =
     (case refresh env file ix of
        (Inl e, ix1) \<Rightarrow> (Inl (as_artifact e), file, ix1)
      | (Inr _, ix1) \<Rightarrow>
          (case find_line ix1 v of
             Some ln \<Rightarrow>
               (if (require_record \<and> \<not> le_capsule ln) \<or> read_raw file ln \<noteq> text then Inl (ArtifactExn ConflictError)
                else Inr (ln, False), file, ix1)
           | None \<Rightarrow>
               if file = None \<and> lv_new_flat env = None then (Inl FlatLedgerWriteRefused, file, ix1)
               else if windowed \<and> lv_stopped env then (Inl FlatLedgerWriteRefused, file, ix1)
               else
                 let file' = Some (case file of None \<Rightarrow> the (lv_new_flat env) | Some (inode, _) \<Rightarrow> inode,
                                   write_text (file_octets file) text)
                 in (case refresh env file' ix1 of
                       (Inl e, ix2) \<Rightarrow> (Inl (as_artifact e), file', ix2)
                     | (Inr _, ix2) \<Rightarrow>
                         (case find_line ix2 v of
                            None \<Rightarrow> Inl (ArtifactExn CorruptError)
                          | Some ln \<Rightarrow> Inr (ln, True), file', ix2))))"

definition write_checked ::
    "legacy_env \<Rightarrow> dict \<Rightarrow> bool \<Rightarrow> flat_file \<Rightarrow> legacy_index \<Rightarrow> (legacy_exn + legacy_line \<times> bool) \<times> flat_file \<times> legacy_index" where
  "write_checked env d require_record file ix =
     (case dget d ''capsule_id'' of
        JStr i \<Rightarrow>
          if \<not> valid_id i \<or> (require_record \<and> \<not> is_record_line d) then (Inl (ArtifactExn InvalidError), file, ix)
          else write_locked env (line_form d) (the (from_hex i)) require_record (is_record_line d) file ix
      | _ \<Rightarrow> (Inl (ArtifactExn InvalidError), file, ix))"

definition append_any ::
    "legacy_env \<Rightarrow> dict \<Rightarrow> flat_file \<Rightarrow> legacy_index \<Rightarrow> (legacy_exn + legacy_line \<times> bool) \<times> flat_file \<times> legacy_index" where
  "append_any env d file ix = write_checked env d False file ix"

definition append_record_line ::
    "legacy_env \<Rightarrow> dict \<Rightarrow> flat_file \<Rightarrow> legacy_index \<Rightarrow> (legacy_exn + legacy_line \<times> bool) \<times> flat_file \<times> legacy_index" where
  "append_record_line env d file ix = write_checked env d True file ix"

definition put_line :: "legacy_env \<Rightarrow> art_record \<Rightarrow> legacy_exn + dict" where
  "put_line env r =
     (case prepare (lv_ax env) r of
        Inl e \<Rightarrow> Inl (ArtifactExn e)
      | Inr p \<Rightarrow>
          if \<not> valid_id (ar_capsule_id p) then Inl (ArtifactExn InvalidError)
          else
            (case decode_strict_json (ax_json (lv_ax env)) (ar_capsule p) of
               Some (JObj capsule) \<Rightarrow>
                 if dhas capsule ''signature'' \<or> dhas capsule ''key_id'' then Inl (ArtifactExn InvalidError)
                 else if line_form capsule \<noteq> ar_capsule p then Inl (ArtifactExn InvalidError)
                 else
                   sbind (verify_legacy env (ar_capsule_id p) capsule (if ar_envelope p = [] then None else Some (ar_envelope p)))
                     (\<lambda>key. if ar_artifacts p \<noteq> [] then Inl (ArtifactExn UnsupportedError)
                            else Inr (case key of
                                        None \<Rightarrow> capsule
                                      | Some k \<Rightarrow> capsule @ [(''signature'', JStr (to_hex (ar_envelope p))), (''key_id'', JStr k)]))
             | _ \<Rightarrow> Inl (ArtifactExn InvalidError)))"

definition put_entry ::
    "legacy_env \<Rightarrow> art_record \<Rightarrow> flat_file \<Rightarrow> legacy_index \<Rightarrow> (legacy_exn + legacy_line \<times> bool) \<times> flat_file \<times> legacy_index" where
  "put_entry env r file ix =
     (case put_line env r of
        Inl e \<Rightarrow> (Inl e, file, ix)
      | Inr d \<Rightarrow> append_record_line env d file ix)"

definition put_record ::
    "legacy_env \<Rightarrow> art_record \<Rightarrow> flat_file \<Rightarrow> legacy_index \<Rightarrow> (legacy_exn + unit) \<times> flat_file \<times> legacy_index" where
  "put_record env r file ix =
     (case put_entry env r file ix of
        (Inl e, rest) \<Rightarrow> (Inl (if e = FlatLedgerWriteRefused then ArtifactExn UnsupportedError else e), rest)
      | (Inr _, rest) \<Rightarrow> (Inr (), rest))"

section \<open>The index of a file, read at once\<close>

text \<open>What a reader that never saw the file gets: the complete lines, and the torn rest when it parses.\<close>

definition parse_file :: "legacy_env \<Rightarrow> octets \<Rightarrow> legacy_exn + legacy_line list \<times> legacy_line option" where
  "parse_file env f =
     (let (raws, torn) = split_lines f in
      sbind (parse_lines env 0 1 0 raws) (\<lambda>lns.
      sbind (if torn = [] then Inr None
             else parse_line env torn (length (unlines raws)) (length lns + 1) (last_time 0 lns)) (\<lambda>tail. Inr (lns, tail))))"

definition indexed :: "legacy_line list \<Rightarrow> nat \<Rightarrow> legacy_line option \<Rightarrow> nat option \<Rightarrow> legacy_index" where
  "indexed lns consumed tail identity =
     \<lparr>lx_lines = lns, lx_first = add_first lns 0 (\<lambda>_. None), lx_consumed = consumed, lx_tail = tail, lx_identity = identity\<rparr>"

text \<open>An index agrees with a file when it holds the lines of some of its complete lines, from the start.\<close>

definition agrees :: "legacy_env \<Rightarrow> octets \<Rightarrow> legacy_index \<Rightarrow> bool" where
  "agrees env f ix \<longleftrightarrow>
     (\<exists>raws rest lns. f = unlines raws @ rest \<and> list_all line_ok raws \<and> parse_lines env 0 1 0 raws = Inr lns \<and>
        ix = indexed lns (length (unlines raws)) (lx_tail ix) (lx_identity ix))"

lemma fold_first_length:
  "snd (fold (\<lambda>ln (first, k). (if first (le_value ln) = None then first(le_value ln \<mapsto> k) else first, Suc k)) xs (g, m)) = m + length xs"
  by (induction xs arbitrary: g m) auto

lemma add_first_append: "add_first (xs @ ys) n first = add_first ys (n + length xs) (add_first xs n first)"
proof (cases "fold (\<lambda>ln (first, k). (if first (le_value ln) = None then first(le_value ln \<mapsto> k) else first, Suc k)) xs (first, n)")
  case (Pair g m)
  with fold_first_length [of xs first n] show ?thesis by (simp add: add_first_def)
qed

lemma last_time_append: "last_time (last_time p xs) ys = last_time p (xs @ ys)"
  by (simp add: last_time_def)

lemma parse_lines_append:
  "parse_lines env offset seq previous (xs @ ys) =
    sbind (parse_lines env offset seq previous xs) (\<lambda>lns.
    sbind (parse_lines env (offset + length (unlines xs)) (seq + length lns) (last_time previous lns) ys) (\<lambda>more. Inr (lns @ more)))"
proof (induction xs arbitrary: offset seq previous)
  case Nil
  show ?case by (simp add: last_time_def sbind_def split: sum.splits)
next
  case (Cons raw xs)
  show ?case
  proof (cases "parse_line env raw offset seq previous")
    case (Inr ln)
    then show ?thesis
    proof (cases ln)
      case (Some l)
      then show ?thesis
        using Inr Cons.IH [of "offset + length raw + 1" "Suc seq" "le_at l"]
        by (auto simp: sbind_def last_time_def algebra_simps split: sum.splits)
    qed (use Cons.IH [of "offset + length raw + 1" seq previous] in \<open>simp add: algebra_simps\<close>)
  qed simp
qed

lemma split_more:
  assumes "f = unlines raws @ rest" "list_all line_ok raws"
  shows "split_lines f = (raws @ fst (split_lines rest), snd (split_lines rest))"
proof -
  obtain xs t where s: "split_lines rest = (xs, t)" by fastforce
  from split_lines_inv [OF this] have "f = unlines (raws @ xs) @ t" "list_all line_ok (raws @ xs)" "line_ok t"
    using assms by auto
  with split_unlines [of "raws @ xs" t] s show ?thesis by (metis fst_conv snd_conv)
qed


lemma parse_file_more:
  assumes "f = unlines raws @ rest" "list_all line_ok raws" "parse_lines env 0 1 0 raws = Inr lns" "split_lines rest = (new, torn)"
  shows "parse_file env f =
    sbind (parse_lines env (length (unlines raws)) (length lns + 1) (last_time 0 lns) new) (\<lambda>parsed.
    sbind (if torn = [] then Inr None
           else parse_line env torn (length (unlines raws) + length (unlines new)) (length lns + 1 + length parsed)
             (last_time (last_time 0 lns) parsed)) (\<lambda>tail. Inr (lns @ parsed, tail)))"
  using split_more [OF assms(1,2)] assms(3,4)
  by (simp add: parse_file_def parse_lines_append last_time_append sbind_def ac_simps split: sum.splits)

text \<open>What a refresh of an index that agrees with the file gives: the index of the whole file, or the error of the whole
  file and the index as it was.\<close>

lemma refresh_agrees:
  assumes "agrees env f ix" "lx_identity ix = None \<or> lx_identity ix = Some inode"
  shows "refresh env (Some (inode, f)) ix =
    (case parse_file env f of
       Inl e \<Rightarrow> (Inl e, ix\<lparr>lx_identity := Some inode\<rparr>)
     | Inr (lns, tail) \<Rightarrow> (Inr (), indexed lns (length (unlines (fst (split_lines f)))) tail (Some inode)))"
proof -
  obtain raws rest lns where f: "f = unlines raws @ rest" "list_all line_ok raws" "parse_lines env 0 1 0 raws = Inr lns"
    "ix = indexed lns (length (unlines raws)) (lx_tail ix) (lx_identity ix)"
    using assms(1) unfolding agrees_def by blast
  obtain new torn where s: "split_lines rest = (new, torn)" by fastforce
  have whole: "split_lines f = (raws @ new, torn)" using split_more [OF f(1,2)] s by simp
  have parts: "lx_lines ix = lns" "lx_first ix = add_first lns 0 (\<lambda>_. None)" "lx_consumed ix = length (unlines raws)"
    by (subst f(4), simp add: indexed_def)+
  have kept: "\<not> (length f < lx_consumed ix \<or> (lx_identity ix \<noteq> None \<and> Some inode \<noteq> lx_identity ix))"
    using assms(2) parts f(1) by auto
  note entire = parse_file_more [OF f(1-3) s]
  show ?thesis
  proof (cases "length f = lx_consumed ix \<and> lx_tail ix = None")
    case True
    then have "rest = []" using f(1) parts by simp
    then have "new = [] \<and> torn = []" using s by simp
    moreover have "ix\<lparr>lx_identity := Some inode\<rparr> = indexed lns (length (unlines raws)) None (Some inode)"
      using True by (subst f(4)) (simp add: indexed_def)
    moreover have "refresh env (Some (inode, f)) ix = (Inr (), ix\<lparr>lx_identity := Some inode\<rparr>)"
      using True kept by (auto simp: refresh_def file_octets_def Let_def)
    ultimately show ?thesis by (simp add: entire whole last_time_def)
  next
    case False
    have "drop (length (unlines raws)) f = rest" by (simp add: f(1))
    with False s whole parts kept f(3) show ?thesis
      unfolding entire
      by (auto simp: refresh_def file_octets_def Let_def indexed_def add_first_append sbind_def split: sum.splits)
  qed
qed

lemma agrees_new [simp]: "agrees env f (indexed [] 0 tail identity)"
  unfolding agrees_def
  by (rule exI [of _ "[]"], rule exI [of _ f], rule exI [of _ "[]"]) (simp add: indexed_def)

lemma new_index_indexed: "new_index = indexed [] 0 None None"
  by (simp add: new_index_def indexed_def add_first_def)

lemma new_index_identity: "new_index\<lparr>lx_identity := identity\<rparr> = indexed [] 0 None identity"
  by (simp add: new_index_def indexed_def add_first_def)

lemma parse_file_prefix: "parse_file env f = Inr (lns, tail) \<Longrightarrow> parse_lines env 0 1 0 (fst (split_lines f)) = Inr lns"
  by (auto simp: parse_file_def sbind_def split: sum.splits prod.splits if_splits)

lemma agrees_whole:
  assumes "parse_file env f = Inr (lns, tail)"
  shows "agrees env f (indexed lns (length (unlines (fst (split_lines f)))) t identity)"
proof -
  obtain raws torn where "split_lines f = (raws, torn)" by fastforce
  with split_lines_inv [OF this] parse_file_prefix [OF assms] show ?thesis
    unfolding agrees_def by (intro exI [of _ raws] exI [of _ torn] exI [of _ lns]) (simp add: indexed_def)
qed

lemma agrees_grown: "agrees env f ix \<Longrightarrow> prefix f g \<Longrightarrow> agrees env g ix"
  unfolding agrees_def prefix_def by (metis append.assoc)

lemma agrees_identity: "agrees env f ix \<Longrightarrow> agrees env f (ix\<lparr>lx_identity := identity\<rparr>)"
  unfolding agrees_def by (elim exE conjE) (intro exI conjI, assumption+, cases ix, simp add: indexed_def)

text \<open>The index is that of the file last read: none before the first read and when there was no file.\<close>

definition index_of_file :: "legacy_env \<Rightarrow> flat_file \<Rightarrow> legacy_index \<Rightarrow> bool" where
  "index_of_file env file ix \<longleftrightarrow>
     ix = new_index \<or> (case file of None \<Rightarrow> False | Some (inode, f) \<Rightarrow> lx_identity ix = Some inode \<and> agrees env f ix)"

text \<open>The file between two reads: appended to, replaced by another one, gone or come back.\<close>

definition later_file :: "flat_file \<Rightarrow> flat_file \<Rightarrow> bool" where
  "later_file file file' \<longleftrightarrow>
     (case (file, file') of (Some (i, f), Some (j, g)) \<Rightarrow> i = j \<longrightarrow> prefix f g | _ \<Rightarrow> True)"

definition fresh_read :: "legacy_env \<Rightarrow> flat_file \<Rightarrow> (legacy_exn + unit) \<times> legacy_index" where
  "fresh_read env file = refresh env file new_index"

lemma refresh_new:
  "refresh env (Some (inode, f)) new_index =
    (case parse_file env f of
       Inl e \<Rightarrow> (Inl e, new_index\<lparr>lx_identity := Some inode\<rparr>)
     | Inr (lns, tail) \<Rightarrow> (Inr (), indexed lns (length (unlines (fst (split_lines f)))) tail (Some inode)))"
  by (rule refresh_agrees) (simp_all add: new_index_indexed, simp add: indexed_def)

lemma refresh_missing: "lx_identity ix = None \<longrightarrow> ix = new_index \<Longrightarrow> refresh env None ix = (Inr (), new_index)"
  by (cases "ix = new_index") (auto simp: refresh_def file_octets_def new_index_def Let_def)

lemma refresh_other:
  assumes "lx_identity ix \<noteq> None" "lx_identity ix \<noteq> Some inode"
  shows "refresh env (Some (inode, f)) ix = refresh env (Some (inode, f)) new_index"
proof -
  have "Some inode \<noteq> lx_identity ix" using assms(2) by metis
  moreover have "lx_identity new_index = None" "lx_consumed new_index = 0" by (simp_all add: new_index_def)
  ultimately show ?thesis using assms(1) by (simp add: refresh_def)
qed

lemma refresh_later:
  assumes "index_of_file env file ix" "later_file file file'"
  shows "fst (refresh env file' ix) = fst (fresh_read env file')"
    "fst (fresh_read env file') = Inr u \<Longrightarrow> refresh env file' ix = fresh_read env file'"
    "index_of_file env file' (snd (refresh env file' ix))"
proof -
  have "fst (refresh env file' ix) = fst (fresh_read env file') \<and>
    (fst (fresh_read env file') = Inr u \<longrightarrow> refresh env file' ix = fresh_read env file') \<and>
    index_of_file env file' (snd (refresh env file' ix))"
  proof (cases file')
    case None
    with assms(1) have "lx_identity ix = None \<longrightarrow> ix = new_index" by (auto simp: index_of_file_def split: option.splits)
    then show ?thesis using None by (simp add: refresh_missing fresh_read_def index_of_file_def)
  next
    case (Some p)
    obtain inode g where g: "file' = Some (inode, g)" using Some by (cases p) simp
    have new: "index_of_file env file' (snd (refresh env file' new_index))"
      unfolding g refresh_new new_index_identity
      by (auto simp: index_of_file_def agrees_whole split: sum.splits) (simp_all add: indexed_def)
    show ?thesis
    proof (cases "ix = new_index \<or> lx_identity ix \<noteq> Some inode")
      case True
      have "ix = new_index \<or> lx_identity ix \<noteq> None"
        using assms(1) by (auto simp: index_of_file_def split: option.splits prod.splits)
      with True have "refresh env file' ix = refresh env file' new_index"
        using refresh_other [of ix inode env g] unfolding g by blast
      with new show ?thesis by (simp add: fresh_read_def)
    next
      case False
      then obtain f where f: "file = Some (inode, f)" "agrees env f ix" "lx_identity ix = Some inode"
        using assms(1) by (auto simp: index_of_file_def split: option.splits prod.splits)
      then have "agrees env g ix" using assms(2) agrees_grown by (auto simp: later_file_def g)
      with f(3) have r: "refresh env file' ix =
        (case parse_file env g of
           Inl e \<Rightarrow> (Inl e, ix\<lparr>lx_identity := Some inode\<rparr>)
         | Inr (lns, tail) \<Rightarrow> (Inr (), indexed lns (length (unlines (fst (split_lines g)))) tail (Some inode)))"
        unfolding g by (intro refresh_agrees) simp_all
      have "index_of_file env file' (snd (refresh env file' ix))"
        using \<open>agrees env g ix\<close> f(3) unfolding r
        by (auto simp: index_of_file_def g agrees_identity agrees_whole split: sum.splits) (simp add: indexed_def)
      then show ?thesis
        by (auto simp: r [unfolded g] fresh_read_def g refresh_new split: sum.splits)
    qed
  qed
  then show "fst (refresh env file' ix) = fst (fresh_read env file')"
    "fst (fresh_read env file') = Inr u \<Longrightarrow> refresh env file' ix = fresh_read env file'"
    "index_of_file env file' (snd (refresh env file' ix))" by blast+
qed


text \<open>A value is looked up at its first line.\<close>

lemma add_first_snoc:
  "add_first (xs @ [x]) 0 first v =
    (if v = le_value x \<and> add_first xs 0 first v = None then Some (length xs) else add_first xs 0 first v)"
  by (auto simp: add_first_append) (simp_all add: add_first_def)

lemma add_first_find:
  "(case add_first lns 0 (\<lambda>_. None) v of
      None \<Rightarrow> List.find (\<lambda>ln. le_value ln = v) lns = None
    | Some k \<Rightarrow> k < length lns \<and> List.find (\<lambda>ln. le_value ln = v) lns = Some (lns ! k))"
proof (induction lns rule: rev_induct)
  case Nil
  show ?case by (simp add: add_first_def)
next
  case (snoc x xs)
  then show ?case by (auto simp: add_first_snoc find_append nth_append split: option.splits)
qed

lemma find_line_indexed:
  "find_line (indexed lns n tail identity) v =
    List.find (\<lambda>ln. le_value ln = v) (lns @ (case tail of None \<Rightarrow> [] | Some t \<Rightarrow> [t]))"
  using add_first_find [where lns = lns and v = v] by (auto simp: find_line_def indexed_def find_append split: option.splits)

lemma fresh_read_parse:
  assumes "fresh_read env file = (Inr u, ix)"
  obtains lns tail n identity where "parse_file env (file_octets file) = Inr (lns, tail)" "ix = indexed lns n tail identity"
proof (cases "file")
  case None
  with assms have "ix = indexed [] 0 None None" by (simp add: fresh_read_def refresh_missing new_index_indexed)
  with None show thesis by (intro that [of "[]" None]) (simp_all add: parse_file_def file_octets_def)
next
  case (Some p)
  with assms show thesis
    by (cases p) (auto simp: fresh_read_def refresh_new file_octets_def intro: that split: sum.splits)
qed

lemma write_text_split:
  assumes "split_lines f = (raws, torn)" "line_ok text"
  shows "split_lines (write_text f text) = (raws @ (if torn = [] then [] else [torn]) @ [text], [])"
    "write_text f text = unlines (raws @ (if torn = [] then [] else [torn])) @ text @ [newline]"
proof -
  have f: "f = unlines raws @ torn" "list_all line_ok raws" "line_ok torn" using split_lines_inv [OF assms(1)] by auto
  have "(f \<noteq> [] \<and> last f \<noteq> newline) = (torn \<noteq> [])"
  proof (cases "torn = []")
    case True
    then show ?thesis using f(1) by (cases raws rule: rev_cases) simp_all
  next
    case False
    then have "last f = last torn" "last torn \<in> set torn" using f(1) by simp_all
    with f(3) False f(1) show ?thesis unfolding line_ok_def by (metis append_is_Nil_conv)
  qed
  then show w: "write_text f text = unlines (raws @ (if torn = [] then [] else [torn])) @ text @ [newline]"
    by (auto simp: write_text_def f(1))
  show "split_lines (write_text f text) = (raws @ (if torn = [] then [] else [torn]) @ [text], [])"
    unfolding w using split_unlines [of "raws @ (if torn = [] then [] else [torn]) @ [text]" "[]"] f(2,3) assms(2)
    by (cases "torn = []") (simp_all add: line_ok_def)
qed

text \<open>After a write the torn rest counts where it stood and the new line is the last one.\<close>

lemma parse_written:
  fixes tail :: "legacy_line option"
  defines "old \<equiv> \<lambda>lns. lns @ (case tail of None \<Rightarrow> [] | Some t \<Rightarrow> [t])"
  assumes "parse_file env f = Inr (lns, tail)" "line_ok text"
  shows "parse_file env (write_text f text) =
    sbind (parse_line env text (length (write_text f text) - length text - 1) (length (old lns) + 1) (last_time 0 (old lns)))
      (\<lambda>ln. Inr (old lns @ (case ln of None \<Rightarrow> [] | Some l \<Rightarrow> [l]), None))"
proof -
  obtain raws torn where s: "split_lines f = (raws, torn)" by fastforce
  note w = write_text_split [OF s assms(3)]
  from assms(2) s have lns: "parse_lines env 0 1 0 raws = Inr lns" using parse_file_prefix by fastforce
  with assms(2) s have tail: "(if torn = [] then Inr None
      else parse_line env torn (length (unlines raws)) (length lns + 1) (last_time 0 lns)) = Inr tail"
    by (auto simp: parse_file_def sbind_def split: sum.splits if_splits)
  define xs where "xs = raws @ (if torn = [] then [] else [torn])"
  have p: "parse_lines env 0 1 0 xs = Inr (old lns)"
    unfolding xs_def parse_lines_append lns using tail by (auto simp: old_def split: if_splits option.splits)
  have len: "length (write_text f text) - length text - 1 = length (unlines xs)"
    unfolding w(2) xs_def by simp
  have split: "split_lines (write_text f text) = (xs @ [text], [])" unfolding w(1) xs_def by simp
  show ?thesis
    unfolding parse_file_def split len
    by (simp add: parse_lines_append [where xs = xs and ys = "[text]"] p [simplified] sbind_def split: sum.splits option.splits)
qed

lemma written_entry:
  assumes "parse_file env f = Inr (lns, tail)" "line_ok text" "parse_file env (write_text f text) = Inr (lns', tail')"
    "List.find (\<lambda>ln. le_value ln = v) (lns @ (case tail of None \<Rightarrow> [] | Some t \<Rightarrow> [t])) = None"
    "List.find (\<lambda>ln. le_value ln = v) (lns' @ (case tail' of None \<Rightarrow> [] | Some t \<Rightarrow> [t])) = Some ln"
  obtains seq previous where
    "parse_line env text (length (write_text f text) - length text - 1) seq previous = Inr (Some ln)"
  using assms(3-5) parse_written [OF assms(1,2)]
  by (auto simp: sbind_def find_append split: sum.splits option.splits if_splits)

lemma entry_line:
  assumes "parse_line env text (length (write_text f text) - length text - 1) seq previous = Inr (Some ln)" "bytes_strip text = text"
  shows "read_raw (Some (inode, write_text f text)) ln = text"
proof -
  have "le_offset ln = length (write_text f text) - length text - 1" "le_length ln = length text"
    using assms(1) by (auto simp: parse_line_def Let_def split: if_splits option.splits json.splits)
  moreover obtain p where "write_text f text = p @ text @ [newline]" by (simp add: write_text_def)
  ultimately show ?thesis using assms(2) by (simp add: read_raw_def file_octets_def)
qed


text \<open>The text of a line has no control character and no space at its ends.\<close>

lemma u_escape_printable: "printable (u_escape n)"
proof -
  have "k < 16 \<Longrightarrow> 32 \<le> byte (hex_digit k)" for k
    by (cases "k < 10") (simp_all add: hex_digit_def)
  then show ?thesis by (simp add: u_escape_def)
qed

lemma ascii_quote_printable: "printable (ascii_quote s)"
proof -
  have "printable (ascii_char cp)" for cp
    using u_escape_printable esc_char_printable
    by (auto simp: ascii_char_def Let_def list_all_append split: list.splits)
  then show ?thesis by (simp add: ascii_quote_def list_all_iff)
qed

lemma ascii_dumps_printable: "json_plain k v \<Longrightarrow> printable (ascii_dumps v)"
proof (induction v)
  case (JArr vs)
  then have "list_all printable (map ascii_dumps vs)" by (auto simp: list_all_iff)
  then show ?case by (simp add: printable_commas)
next
  case (JObj d)
  have "printable (case m of (k, v) \<Rightarrow> ascii_quote k @ CHR '':'' # ascii_dumps v)" if "m \<in> set d" for m
  proof -
    obtain i v where m: "m = (i, v)" by fastforce
    with that JObj.prems have "json_plain k v" by (auto simp: list_all_iff)
    with JObj.IH [of m v] that m have "printable (ascii_dumps v)" by simp
    then show ?thesis by (simp add: m ascii_quote_printable)
  qed
  then have "list_all printable (map (\<lambda>(k, v). ascii_quote k @ CHR '':'' # ascii_dumps v) d)" by (auto simp: list_all_iff)
  then show ?case by (simp add: printable_commas)
qed (simp_all add: ascii_quote_printable printable_int_str)

lemma line_form_ok:
  assumes "json_plain k (JObj d)"
  shows "line_ok (line_form d)" "bytes_strip (line_form d) = line_form d"
proof -
  have "printable (line_form d)" unfolding line_form_def by (rule ascii_dumps_printable [OF assms])
  then show "line_ok (line_form d)" by (auto simp: line_ok_def list_all_iff)
  show "bytes_strip (line_form d) = line_form d" by (simp add: line_form_def bytes_strip_def bytes_space_def)
qed

section \<open>Properties\<close>

text \<open>An index that follows the file through its reads.\<close>

definition follow :: "legacy_env \<Rightarrow> flat_file list \<Rightarrow> legacy_index" where
  "follow env history = foldl (\<lambda>ix file. snd (refresh env file ix)) new_index history"

lemma later_refl [simp]: "later_file f f"
  by (auto simp: later_file_def split: option.splits)

lemma follow_index:
  "successively later_file (history @ [f]) \<Longrightarrow> \<exists>g. index_of_file env g (follow env history) \<and> later_file g f"
proof (induction history arbitrary: f rule: rev_induct)
  case Nil
  have "index_of_file env None (follow env [])" by (simp add: follow_def index_of_file_def)
  then show ?case by (intro exI [of _ None]) (simp add: later_file_def)
next
  case (snoc h history)
  then have "successively later_file (history @ [h])" "later_file h f" by (auto simp: successively_append_iff)
  with snoc.IH obtain g where g: "index_of_file env g (follow env history)" "later_file g h" by blast
  have "index_of_file env h (follow env (history @ [h]))"
    using refresh_later(3) [OF g] by (simp add: follow_def)
  with \<open>later_file h f\<close> show ?case by blast
qed

text \<open>C13: reading on incrementally is reading afresh.  Whatever became of the file between the reads (appended to, with a
  torn line completed or not, deleted, replaced by another file, back again, unreadable for a while), a refresh of the
  index that followed it gives the result of a reader that opens the file for the first time, and when it succeeds also
  the same index: lines, numbers, first positions, torn line.\<close>

theorem incremental_index_is_fresh:
  assumes "successively later_file (history @ [f])"
  shows "(case refresh env f new_index of
            (Inr u, ix) \<Rightarrow> refresh env f (follow env history) = (Inr u, ix)
          | (Inl e, _) \<Rightarrow> fst (refresh env f (follow env history)) = Inl e)"
proof -
  from follow_index [OF assms] obtain g where g: "index_of_file env g (follow env history)" "later_file g f" by blast
  note both = refresh_later(1,2) [OF g, unfolded fresh_read_def]
  show ?thesis
    using both by (cases "refresh env f new_index") (auto split: sum.splits)
qed

lemma write_new:
  assumes "write_locked env text v rr w f ix = (Inr (ln, True), f', ix')"
  obtains ix1 inode where "refresh env f ix = (Inr (), ix1)" "find_line ix1 v = None"
    "f' = Some (inode, write_text (file_octets f) text)" "later_file f f'" "refresh env f' ix1 = (Inr (), ix')"
    "find_line ix' v = Some ln"
proof -
  obtain r ix1 where r: "refresh env f ix = (r, ix1)" by fastforce
  obtain r2 ix2 where r2: "refresh env f' ix1 = (r2, ix2)" by fastforce
  show thesis
    using assms r r2 that
    by (auto simp: write_locked_def Let_def later_file_def write_text_def file_octets_def
        split: sum.splits option.splits prod.splits if_splits)
qed

lemma refreshed:
  assumes "index_of_file env f ix" "later_file f g" "refresh env g ix = (Inr (), ix')"
  obtains lns tail n identity where "parse_file env (file_octets g) = Inr (lns, tail)" "ix' = indexed lns n tail identity"
    "refresh env g ix' = (Inr (), ix')" "index_of_file env g ix'"
proof -
  have f: "fresh_read env g = (Inr (), ix')"
    using refresh_later(1,2) [OF assms(1,2)] assms(3) by (metis fst_conv)
  have i: "index_of_file env g ix'" using refresh_later(3) [OF assms(1,2)] assms(3) by simp
  have "refresh env g ix' = (Inr (), ix')" using refresh_later(2) [OF i later_refl] f by (metis fst_conv)
  with i fresh_read_parse [OF f] that show thesis by blast
qed


text \<open>After an insertion the index reads the file, and the value is found at a line which is the text written.\<close>

lemma inserted:
  assumes "index_of_file env f ix" "write_locked env text v rr w f ix = (Inr (ln, True), f', ix')" "line_ok text"
    "bytes_strip text = text"
  obtains inode offset seq previous where "f' = Some (inode, write_text (file_octets f) text)" "refresh env f' ix' = (Inr (), ix')"
    "find_line ix' v = Some ln" "read_raw f' ln = text" "le_value ln = v" "parse_line env text offset seq previous = Inr (Some ln)"
proof -
  obtain ix1 inode where n: "refresh env f ix = (Inr (), ix1)" "find_line ix1 v = None"
    "f' = Some (inode, write_text (file_octets f) text)" "later_file f f'" "refresh env f' ix1 = (Inr (), ix')"
    "find_line ix' v = Some ln"
    using write_new [OF assms(2)] by blast
  obtain lns tail m identity where old: "parse_file env (file_octets f) = Inr (lns, tail)" "ix1 = indexed lns m tail identity"
    "index_of_file env f ix1"
    by (rule refreshed [OF assms(1) later_refl n(1)])
  obtain lns' tail' m' identity' where new: "parse_file env (file_octets f') = Inr (lns', tail')"
    "ix' = indexed lns' m' tail' identity'" "refresh env f' ix' = (Inr (), ix')"
    by (rule refreshed [OF old(3) n(4,5)])
  have parsed: "parse_file env (write_text (file_octets f) text) = Inr (lns', tail')"
    using new(1) n(3) by (simp add: file_octets_def)
  obtain seq previous where
      "parse_line env text (length (write_text (file_octets f) text) - length text - 1) seq previous = Inr (Some ln)"
    by (rule written_entry [OF old(1) assms(3) parsed n(2,6) [unfolded old(2) new(2) find_line_indexed]])
  moreover have "le_value ln = v" using n(6) by (auto simp: new(2) find_line_indexed find_Some_iff)
  ultimately show thesis using entry_line [OF _ assms(4)] new(3) n(3,6) that by blast
qed


text \<open>C14: appending twice is appending once, and an identifier keeps its line.  When \<open>append\<close> wrote a line (the index
  having followed the file up to some earlier read), the file is the old one with that line after a completed last
  line; appending an object with the same identifier then leaves file and index as they are, and returns the entry of the
  first append, now not inserted, when it is the same line, and raises \<open>ConflictError\<close> when it is another one.\<close>

theorem legacy_append_is_idempotent:
  assumes "index_of_file env f ix" "json_plain k (JObj d)" "append_any env d f ix = (Inr (ln, True), f', ix')"
    "dget e ''capsule_id'' = dget d ''capsule_id''"
  shows "(\<exists>inode. f' = Some (inode, write_text (file_octets f) (line_form d))) \<and>
    append_any env e f' ix' =
      (if line_form e = line_form d then Inr (ln, False) else Inl (ArtifactExn ConflictError), f', ix')"
proof -
  obtain i where i: "dget d ''capsule_id'' = JStr i" "valid_id i"
    and w: "write_locked env (line_form d) (the (from_hex i)) False (is_record_line d) f ix = (Inr (ln, True), f', ix')"
    using assms(3) by (auto simp: append_any_def write_checked_def split: json.splits if_splits)
  obtain inode offset seq previous where n: "f' = Some (inode, write_text (file_octets f) (line_form d))"
      "refresh env f' ix' = (Inr (), ix')" "find_line ix' (the (from_hex i)) = Some ln" "read_raw f' ln = line_form d"
    by (rule inserted [OF assms(1) w line_form_ok [OF assms(2)]])
  then have "write_locked env (line_form e) (the (from_hex i)) False (is_record_line e) f' ix' =
      (if line_form e = line_form d then Inr (ln, False) else Inl (ArtifactExn ConflictError), f', ix')"
    by (simp add: write_locked_def)
  with i n(1) assms(4) show ?thesis by (simp add: append_any_def write_checked_def)
qed


section \<open>Witnesses\<close>

definition bare_emit :: emit_env where
  "bare_emit = \<lparr>em_uuid = ''0'', em_now = ''t'', em_salt = ''00ff'', em_format_version = ''2'',
     em_effect_mode = (\<lambda>_. ''none''), em_seal = (\<lambda>x. Inr []), em_jcs = (\<lambda>d. concat (map fst d)),
     em_normalize = (\<lambda>d. d), em_sha256 = (\<lambda>b. replicate 64 (CHR ''d'')),
     em_json_digest = (\<lambda>_. Some (replicate 64 (CHR ''f''))), em_value_bytes = (\<lambda>_. Some ''{}''),
     em_sign = (\<lambda>i. Inr (''sig '' @ i, ''key'')), em_anchor = (\<lambda>_ _. Some True)\<rparr>"

definition flat_env :: legacy_env where
  "flat_env = \<lparr>lv_ax = \<lparr>ax_json = \<lparr>je_strict = True, je_read_float = (\<lambda>_. FZero False), je_max_digits = 4300\<rparr>,
       ax_sha256 = (\<lambda>b. ''''), ax_json_digest = (\<lambda>v. None), ax_class1 = (\<lambda>_. None), ax_envelope = (\<lambda>_ _. None)\<rparr>,
     lv_emit = bare_emit, lv_verify = (\<lambda>_. True), lv_trusted = None, lv_time = (\<lambda>_. None), lv_stopped = False,
     lv_new_flat = Some 7\<rparr>"

definition flat_line :: "string \<Rightarrow> dict" where
  "flat_line note = [(''kind'', JStr note), (''capsule_id'', JStr (replicate 64 (CHR ''a'')))]"

lemma code_points_ascii: "list_all (\<lambda>c. byte c < 128) s \<Longrightarrow> code_points s = map (\<lambda>c. [c]) s"
proof (induction s)
  case (Cons c s)
  then have "takeWhile cont s = []" "dropWhile cont s = s" by (cases s; simp add: cont_def)+
  with Cons show ?case by simp
qed simp

lemma ascii_quote_plain: "list_all (\<lambda>c. byte c < 127) s \<Longrightarrow> ascii_quote s = quote s"
proof -
  assume s: "list_all (\<lambda>c. byte c < 127) s"
  then have "list_all (\<lambda>c. byte c < 128) s" by (rule list.pred_mono_strong) simp
  moreover have "concat (map (\<lambda>c. ascii_char [c]) s) = concat (map esc_char s)"
    using s by (induction s) (simp_all add: ascii_char_def)
  ultimately show ?thesis by (simp add: ascii_quote_def quote_def code_points_ascii comp_def)
qed

lemma utf8_replace_ascii: "list_all (\<lambda>c. byte c < 128) s \<Longrightarrow> utf8_replace s = s"
  by (induction s) (simp_all add: lead_def)

lemma list_all_replicate: "list_all P (replicate n x) \<longleftrightarrow> n = 0 \<or> P x"
  by (induction n) auto

lemma quote_plain: "list_all (\<lambda>c. 32 \<le> byte c \<and> c \<noteq> CHR 0x22 \<and> c \<noteq> CHR 0x5C) s \<Longrightarrow> quote s = CHR 0x22 # s @ [CHR 0x22]"
  by (induction s) (auto simp: quote_def esc_char_def)

lemma flat_text: "line_form (flat_line note) = json_dumps (JObj (flat_line note))" "list_all (\<lambda>c. byte c < 128) (line_form (flat_line note))"
  if "note = ''n'' \<or> note = ''m''"
proof -
  show "line_form (flat_line note) = json_dumps (JObj (flat_line note))"
    using that by (auto simp: line_form_def flat_line_def ascii_quote_plain list_all_replicate)
  then show "list_all (\<lambda>c. byte c < 128) (line_form (flat_line note))"
    using that by (auto simp: flat_line_def quote_plain list_all_replicate)
qed

lemma flat_plain: "json_plain 4300 (JObj (flat_line ''n''))"
  by (simp add: flat_line_def)

definition flat_entry :: legacy_line where
  "flat_entry = \<lparr>le_seq = 1, le_value = replicate 32 CHR 0xAA, le_at = 0, le_offset = 0,
     le_length = length (line_form (flat_line ''n'')), le_capsule = True\<rparr>"

lemma from_hex_pairs: "from_hex (replicate (2 * n) (CHR ''a'')) = Some (replicate n CHR 0xAA)"
proof -
  have "char_of (byte (CHR 0xAA)) = CHR 0xAA" by (rule char_of_char)
  then have "char_of (170 :: nat) = CHR 0xAA" by simp
  then show ?thesis by (induction n) (simp_all add: is_space_def hex_nibble_def is_digit_def)
qed

lemma flat_hex: "from_hex (replicate 64 (CHR ''a'')) = Some (replicate 32 CHR 0xAA)"
  using from_hex_pairs [of 32] by simp

lemma strip_line_form:
  assumes "list_all (\<lambda>c. byte c < 128) (line_form d)"
  shows "py_strip (line_form d) = line_form d"
  by (simp add: py_strip_def code_points_ascii assms) (simp add: line_form_def py_space_def Let_def rev_map [symmetric])

lemma parse_ascii_line:
  assumes "line_form d = json_dumps (JObj d)" "list_all (\<lambda>c. byte c < 128) (line_form d)"
    "json_plain (je_max_digits (ax_json (lv_ax env))) (JObj d)" "hex32 (dget d ''capsule_id'') = v" "length v = 32"
    "line_time env d = None"
  shows "parse_line env (line_form d) offset seq previous =
    Inr (Some \<lparr>le_seq = seq, le_value = v, le_at = previous, le_offset = offset, le_length = length (line_form d),
      le_capsule = is_record_line d\<rparr>)"
proof -
  have "json_loads ((ax_json (lv_ax env))\<lparr>je_strict := False\<rparr>) (line_form d) = Some (JObj d)"
    unfolding assms(1) by (rule json_loads_dumps) (use assms(3) in simp)
  moreover have "line_form d \<noteq> []" by (simp add: line_form_def)
  ultimately show ?thesis
    using assms(4-6) by (simp add: parse_line_def Let_def utf8_replace_ascii [OF assms(2)] strip_line_form [OF assms(2)])
qed

lemma flat_parse: "parse_line flat_env (line_form (flat_line ''n'')) 0 1 0 = Inr (Some flat_entry)"
proof -
  have "hex32 (dget (flat_line ''n'') ''capsule_id'') = replicate 32 CHR 0xAA"
    by (simp add: flat_line_def hex32_def code_points_ascii flat_hex list_all_replicate del: replicate.simps)
  moreover have "is_record_line (flat_line ''n'')" "line_time flat_env (flat_line ''n'') = None"
    by (simp_all add: flat_line_def is_record_line_def NON_CAPSULE_KINDS_def line_time_def flat_env_def Let_def member_at_def)
  moreover have "je_max_digits (ax_json (lv_ax flat_env)) = 4300" by (simp add: flat_env_def)
  ultimately show ?thesis
    using parse_ascii_line [of "flat_line ''n''" flat_env "replicate 32 CHR 0xAA" 0 1 0] flat_text [of "''n''"] flat_plain
    by (simp add: flat_entry_def del: json_dumps.simps json_plain.simps replicate.simps)
qed

lemma flat_line_ok: "line_ok (line_form (flat_line ''n''))"
  by (rule line_form_ok(1) [OF flat_plain])

lemma flat_written: "parse_file flat_env (line_form (flat_line ''n'') @ [newline]) = Inr ([flat_entry], None)"
  using flat_parse flat_line_ok by (simp add: parse_file_def split_lines_line)

lemma flat_append:
  "append_any flat_env (flat_line ''n'') None new_index =
    (Inr (flat_entry, True), Some (7, line_form (flat_line ''n'') @ [newline]),
     indexed [flat_entry] (length (line_form (flat_line ''n'')) + 1) None (Some 7))"
proof -
  have "dget (flat_line ''n'') ''capsule_id'' = JStr (replicate 64 (CHR ''a''))" by (simp add: flat_line_def)
  moreover have "valid_id (replicate 64 (CHR ''a''))" by (simp add: valid_id_def hex_string_def is_hex_def is_digit_def list_all_replicate)
  moreover have "find_line new_index v = None" for v by (simp add: find_line_def new_index_def)
  moreover have "refresh flat_env (Some (7, line_form (flat_line ''n'') @ [newline])) new_index =
      (Inr (), indexed [flat_entry] (length (line_form (flat_line ''n'')) + 1) None (Some 7))"
    using flat_written by (simp add: refresh_new split_lines_line flat_line_ok)
  moreover have "lv_new_flat flat_env = Some 7" "lv_stopped flat_env = False" by (simp_all add: flat_env_def)
  moreover have "find_line (indexed [flat_entry] n None identity) (replicate 32 CHR 0xAA) = Some flat_entry" for n identity
    by (simp add: find_line_indexed flat_entry_def del: replicate.simps)
  moreover have "refresh flat_env None new_index = (Inr (), new_index)" by (rule refresh_missing) simp
  ultimately show ?thesis
    by (simp add: append_any_def write_checked_def write_locked_def flat_hex write_text_def file_octets_def del: replicate.simps)
qed

text \<open>The torn line of a file is completed by the append after it, and the index that had read it torn is that of a new
  reader.\<close>

theorem incremental_index_is_fresh_witness:
  "refresh flat_env (Some (7, line_form (flat_line ''n'') @ [newline]))
     (follow flat_env [None, Some (7, line_form (flat_line ''n''))]) =
   (Inr (), indexed [flat_entry] (length (line_form (flat_line ''n'')) + 1) None (Some 7))"
proof -
  have "refresh flat_env (Some (7, line_form (flat_line ''n'') @ [newline])) new_index =
      (Inr (), indexed [flat_entry] (length (line_form (flat_line ''n'')) + 1) None (Some 7))"
    using flat_written by (simp add: refresh_new split_lines_line flat_line_ok)
  with incremental_index_is_fresh [of "[None, Some (7, line_form (flat_line ''n''))]" "Some (7, line_form (flat_line ''n'') @ [newline])" flat_env]
  show ?thesis by (simp add: later_file_def)
qed

theorem legacy_append_is_idempotent_witness:
  "append_any flat_env (flat_line ''m'') (Some (7, line_form (flat_line ''n'') @ [newline]))
     (indexed [flat_entry] (length (line_form (flat_line ''n'')) + 1) None (Some 7)) =
   (Inl (ArtifactExn ConflictError), Some (7, line_form (flat_line ''n'') @ [newline]),
     indexed [flat_entry] (length (line_form (flat_line ''n'')) + 1) None (Some 7))"
proof -
  have "index_of_file flat_env None new_index" by (simp add: index_of_file_def)
  moreover have "dget (flat_line ''m'') ''capsule_id'' = dget (flat_line ''n'') ''capsule_id''" by (simp add: flat_line_def)
  moreover have "line_form (flat_line ''m'') \<noteq> line_form (flat_line ''n'')"
    by (simp only: flat_text(1) [OF disjI1 [OF refl]] flat_text(1) [OF disjI2 [OF refl]]) (simp add: flat_line_def quote_def esc_char_def)
  ultimately show ?thesis
    using legacy_append_is_idempotent [OF _ flat_plain flat_append, of "flat_line ''m''"] by (simp add: write_text_def file_octets_def)
qed

end
