(* ===== verification/Store_Ledger_Properties.thy ===== *)
theory Store_Ledger_Properties
  imports Store_Ledger_Replay
begin

text \<open>
  Properties of the store-backed ledger on the artifact store of one file, over any entry log with the contract
  \<open>entry_log\<close>, and the interpretation of the client on the model's own store.
\<close>

section \<open>The ledger on a file\<close>

definition file_stores ::
    "artifact_ext \<Rightarrow> octets list \<Rightarrow> ('l \<Rightarrow> nat \<Rightarrow> nat \<Rightarrow> string + (nat \<times> octets) list) \<Rightarrow>
     (octets \<Rightarrow> 'l \<Rightarrow> (string + bool \<times> nat) \<times> 'l) \<Rightarrow> nat \<Rightarrow> (octets \<Rightarrow> octets \<Rightarrow> octets option option) \<Rightarrow>
     (octets \<Rightarrow> octets option option) \<Rightarrow> (dict \<Rightarrow> string list) \<Rightarrow> bool \<Rightarrow> bool \<Rightarrow> (jsonl_store, 'l) stores" where
  "file_stores ax trusted scan app page cose parse indexer linear require =
     \<lparr>sb_ax = ax, sb_get = js_get ax trusted, sb_put = js_put ax trusted, sb_scan = scan, sb_append = app, sb_page = page,
      sb_cose = cose, sb_parse = parse, sb_indexer = indexer, sb_linear = linear, sb_require = require\<rparr>"

definition ledger_laws :: "artifact_ext \<Rightarrow> (dict \<Rightarrow> string list) \<Rightarrow> art_record set \<Rightarrow> bool" where
  "ledger_laws ax indexer R \<longleftrightarrow> digest_plain ax \<and> reads_members indexer \<and> no_collision ax R"

lemma file_ledger:
  assumes "entry_log contents scan app" "0 < page" "ledger_laws ax indexer R"
  shows "store_ledger ax trusted (js_inv ax wide) (js_content ax) (js_put ax trusted) (js_get ax trusted) (js_purge ax wide)
    contents scan app (file_stores ax trusted scan app page cose parse indexer linear require) R"
  using assms
  by (intro store_ledger.intro file_store.readable_store_axioms store_ledger_axioms.intro)
     (simp_all add: file_stores_def ledger_laws_def)

text \<open>A log of the entries themselves; the digest that has no value but of plain JSON; a set of records without a collision.\<close>

definition list_scan :: "octets list \<Rightarrow> nat \<Rightarrow> nat \<Rightarrow> string + (nat \<times> octets) list" where
  "list_scan l after limit = Inr (take limit (drop after (enumerate 1 l)))"

definition list_append :: "octets \<Rightarrow> octets list \<Rightarrow> (string + bool \<times> nat) \<times> octets list" where
  "list_append v l = (if v \<in> set l then (Inr (False, 0), l) else (Inr (True, Suc (length l)), l @ [v]))"

interpretation list_log: entry_log "\<lambda>l. l" list_scan list_append
  by unfold_locales (auto simp: list_scan_def list_append_def split: if_splits)

definition plain_ax :: "artifact_ext \<Rightarrow> artifact_ext" where
  "plain_ax ax = ax\<lparr>ax_json_digest :=
     (\<lambda>v. if json_plain (je_max_digits (ax_json ax)) v then ax_json_digest ax v else None)\<rparr>"

definition apart :: "artifact_ext \<Rightarrow> art_record set \<Rightarrow> art_record set" where
  "apart ax R = (if no_collision ax R then R else {})"

lemma plain_laws: "ledger_laws (plain_ax ax) counterparty_citation_keys (apart (plain_ax ax) R)"
  using default_indexer by (simp add: ledger_laws_def apart_def digest_plain_def plain_ax_def no_collision_def)

interpretation file_ledger: store_ledger "plain_ax ax" trusted "js_inv (plain_ax ax) wide" "js_content (plain_ax ax)"
    "js_put (plain_ax ax) trusted" "js_get (plain_ax ax) trusted" "js_purge (plain_ax ax) wide" "\<lambda>l. l" list_scan list_append
    "file_stores (plain_ax ax) trusted list_scan list_append 1000 cose parse counterparty_citation_keys linear require"
    "apart (plain_ax ax) R"
  for ax trusted wide cose parse linear require R
  by (rule file_ledger [OF list_log.entry_log_axioms _ plain_laws]) simp

section \<open>Properties\<close>


text \<open>C10: An append that returned is permanent.  When the log entry of a writer's append succeeds, whatever the writers do
  afterwards in the steps of C9 (appends under the writer lock, opens, puts, deaths), the log opens, and looking the id up
  gives the line with every member that was appended and its signed statement.\<close>

theorem accepted_append_is_permanent:
  assumes "entry_log contents scan app" "0 < page" "ledger_laws ax indexer R"
    and "be = file_stores ax trusted scan app page cose parse indexer linear require"
    and "js_inv ax wide s" "\<forall>i r. js_content ax s i = Some r \<longrightarrow> r \<in> R" "open_stores be s l = Some (Inr L0)"
    and "lreach be R (start_world s l) w" "k < length (lw_writers w)" "lw_writers w ! k = (M, WStored i r d st)"
    and "\<not> is_padding d" "log_line be i d False M (lw_log w) = (Inr L, l')"
    and "lreach be R (set_writer k (L, WIdle) (w\<lparr>lw_log := l'\<rparr>)) w'"
  shows "\<exists>T line. open_stores be (lw_store w') (lw_log w') = Some (Inr T) \<and>
    lookup_record be (lw_store w') T i = Inr (Some (line, Some st)) \<and> (\<forall>m. dget line m = dget d m)"
proof -
  note led = file_ledger [OF assms(1-3), of trusted wide cose parse linear require, folded assms(4)]
  have "store_ledger.held (js_inv ax wide) (js_content ax) R s"
    using assms(5,6) by (simp add: store_ledger.held_def [OF led])
  note ok = store_ledger.reach_ok [OF led assms(8) store_ledger.start_ok [OF led this assms(7)]]
  show ?thesis by (rule store_ledger.accepted_stays [OF led conjunct1 [OF ok] assms(9-13)])
qed

text \<open>C11: A ledger that opened has one line per entry of its log, and each is sound: it names the id of its entry, the id
  recomputes, padding has its shape, and the signed statement checks out (or the ledger does not require one and the
  record has none).  With head linkage on, the lines that are no padding are one chain from a line without a parent.  This
  holds over any artifact store, and whatever wrote the records.\<close>

theorem opened_ledger_is_one_chain:
  assumes "entry_log contents (sb_scan be) app" "0 < sb_page be" "open_stores be s l = Some (Inr T)"
  shows "\<exists>ds. list_all2 (sound_line be s) (contents l) ds \<and> length (sl_lines T) = length ds \<and>
    (sb_linear be \<longrightarrow> one_chain None ds)"
proof -
  have "replayed be s (contents l) = Inr T"
    using replay_from_pages [of be l "contents l" s 0 new_ledger] entry_log.scan_page [OF assms(1)] assms(2,3)
    by (simp add: open_stores_def replayed_def)
  with replayed_length [OF this] foldM_sound [of be s new_ledger 1 "contents l" T] show ?thesis
    by (force simp: replayed_def new_ledger_def dest: list_all2_lengthD)
qed

text \<open>A writer that does not have every entry of the log cannot write: its append raises, and neither the log nor the
  artifact store nor its ledger changes.\<close>

theorem stale_writer_is_refused:
  assumes "entry_log contents (sb_scan be) app" "length (sl_lines L) < length (contents l)"
  shows "(\<exists>e. append_sealed be d st L s l = (Inl e, s, l)) \<and> (\<exists>e. append_padding be d st L s l = (Inl e, s, l))"
proof -
  have "check_not_stale be l L = Inl StaleLedgerError"
    using assms(2) by (simp add: check_not_stale_def entry_log.scan_page [OF assms(1)])
  then have "\<exists>e. write_line be i d st p L s l = (Inl e, s, l)" for i p
    by (auto simp: write_line_def sbind_def split: sum.splits)
  then show ?thesis
    by (auto simp: append_sealed_def append_padding_def split: json.splits)
qed

text \<open>C12: A padding that succeeds brings the count of lines to the next multiple of the bucket, with fewer new lines than the
  bucket has, and is invisible otherwise: head, index and index keys are those from before, and every old line stays.\<close>

theorem padding_fills_bucket:
  assumes "0 < bucket" "pad_to_bucket be bucket sg issuer nonces L s l = (Inr M, s', l')"
  shows "bucket dvd int (length (sl_lines M)) \<and> int (length (sl_lines M)) < int (length (sl_lines L)) + bucket \<and>
    prefix (sl_lines L) (sl_lines M) \<and> sl_head M = sl_head L \<and> sl_index M = sl_index L \<and> sl_keys M = sl_keys L"
proof -
  let ?n = "int (length (sl_lines L))"
  let ?m = "(bucket - ?n mod bucket) mod bucket"
  from assms have eff: "length (sl_lines M) = length (sl_lines L) + nat ?m" "prefix (sl_lines L) (sl_lines M)"
      "sl_head M = sl_head L" "sl_index M = sl_index L" "sl_keys M = sl_keys L"
    using pad_lines_effect [of be sg issuer _ L s l M s' l'] by (auto simp: pad_to_bucket_def)
  have m: "0 \<le> ?m" "?m < bucket" using assms(1) by simp_all
  have "(?n + ?m) mod bucket = (?n + (bucket - ?n)) mod bucket" by (simp add: mod_simps)
  then have "bucket dvd ?n + ?m" by auto
  with eff m show ?thesis by simp
qed

section \<open>A ledger of one line\<close>

definition act_ax :: artifact_ext where
  "act_ax = plain_ax (pair_ax\<lparr>ax_json_digest := (\<lambda>v. case v of JObj d \<Rightarrow>
     (case dget d ''action'' of JStr s \<Rightarrow> Some (demo_id (hd s)) | _ \<Rightarrow> Some (demo_id CHR ''d'')) | _ \<Rightarrow> None)\<rparr>)"

definition act_id :: string where "act_id = demo_id CHR ''a''"

definition act_key :: octets where "act_key = replicate 32 CHR ''k''"

definition act_body :: dict where
  "act_body = (''capsule_id'', JStr act_id) # bare_fields CHR ''a''"

definition act_line :: dict where
  "act_line = act_body @ [(''signature'', JStr (to_hex ''e'')), (''key_id'', JStr (to_hex act_key))]"

definition act_statement :: octets where
  "act_statement = json_dumps (JObj [(''capsule_id'', JStr act_id)])"

definition act_record :: art_record where
  "act_record = \<lparr>ar_capsule_id = act_id, ar_capsule = json_dumps (JObj act_body), ar_envelope = ''e'',
     ar_artifacts = [\<lparr>a_name = STATEMENT, a_state = PRESENT, a_binding = [], a_content = Some act_statement,
       a_sha256 = ax_sha256 act_ax act_statement\<rparr>]\<rparr>"

definition act_stores :: "(jsonl_store, octets list) stores" where
  "act_stores = file_stores act_ax demo_trusted list_scan list_append 1000 (\<lambda>_ st. Some (Some st)) (\<lambda>_. None)
     counterparty_citation_keys True True"

lemma act_env: "ax_json act_ax = ax_json demo_ax" "ax_envelope act_ax = ax_envelope demo_ax" "ax_sha256 act_ax = ax_sha256 demo_ax"
    "je_max_digits (ax_json demo_ax) = 4300" "ax_envelope demo_ax i ''e'' = Some act_key"
  by (simp_all add: act_ax_def plain_ax_def pair_ax_def demo_ax_def act_key_def)

lemma act_id_ok: "valid_id act_id" "utf8_ok act_id"
  using demo_id_ok by (simp_all add: act_id_def)

lemma act_utf8: "utf8_ok ''4'' \<and> utf8_ok ''jcs'' \<and> utf8_ok ''format_version'' \<and> utf8_ok ''canonicalization_id'' \<and>
    utf8_ok ''action'' \<and> utf8_ok ''capsule_id'' \<and> utf8_ok ''a''"
  by (intro conjI; rule utf8_ok_ascii; simp)

lemma act_members: "dget (bare_fields CHR ''a'') ''format_version'' = JStr ''4''" "dget (bare_fields CHR ''a'') ''canonicalization_id'' = JStr ''jcs''"
    "dget (bare_fields CHR ''a'') ''record_type'' = JNull" "dget (bare_fields CHR ''a'') ''action'' = JStr ''a''"
    "dget (bare_fields CHR ''a'') ''chain'' = JNull" "json_plain k (JObj (bare_fields CHR ''a''))" "json_utf8 (JObj (bare_fields CHR ''a''))"
    "json_depth (JObj (bare_fields CHR ''a'')) \<le> 2" "json_finite (JObj (bare_fields CHR ''a''))"
    "fst ` set (bare_fields CHR ''a'') = {''format_version'', ''canonicalization_id'', ''action''}"
  using act_utf8 by (simp_all add: bare_fields_def)

lemma act_plain: "json_plain k (JObj act_body)" "json_utf8 (JObj act_body)" "json_depth (JObj act_body) \<le> MAX_JSON_DEPTH"
    "json_finite (JObj act_body)"
  using act_utf8 act_id_ok by (simp_all add: act_body_def bare_fields_def MAX_JSON_DEPTH_def)

lemma act_decode: "decode_strict_json (ax_json act_ax) (json_dumps (JObj act_body)) = Some (JObj act_body)"
  by (rule decode_dumps) (simp_all add: act_plain del: json_plain.simps json_utf8.simps json_depth.simps)

lemma act_payload: "decode_strict_json (ax_json act_ax) act_statement = Some (JObj [(''capsule_id'', JStr act_id)])"
  unfolding act_statement_def by (rule decode_dumps) (use act_utf8 act_id_ok in \<open>simp_all add: MAX_JSON_DEPTH_def\<close>)

lemma act_body_of: "body_of act_line = act_body"
  by (simp add: body_of_def act_line_def act_body_def bare_fields_def ENVELOPE_MEMBERS_def)

lemma act_line_get: "dget act_line ''capsule_id'' = JStr act_id" "dget act_line ''signature'' = JStr (to_hex ''e'')"
    "dget act_line ''key_id'' = JStr (to_hex act_key)" "dget act_line ''record_type'' = JNull" "dget act_line ''chain'' = JNull"
  by (simp_all add: act_line_def act_body_def bare_fields_def)

lemma act_digest: "compute_record_id act_ax act_line = Some act_id"
proof -
  have "filter (\<lambda>(k, v). k \<noteq> ''capsule_id'' \<and> k \<notin> set ENVELOPE_MEMBERS) act_line = bare_fields CHR ''a''"
    by (simp add: act_line_def act_body_def bare_fields_def ENVELOPE_MEMBERS_def)
  then show ?thesis
    using act_members(4,6) by (simp add: compute_record_id_def act_ax_def plain_ax_def act_id_def del: json_plain.simps)
qed

lemma act_checks: "check_statement act_stores act_line act_id act_statement = Inr ()"
    "to_record act_stores act_id act_line act_statement = Inr act_record"
proof -
  have len: "length act_key = 32" by (simp add: act_key_def)
  then show "check_statement act_stores act_line act_id act_statement = Inr ()"
    using act_payload
    by (simp add: check_statement_def check_statement_matches_def statement_payload_def act_line_get from_to_hex act_stores_def
        file_stores_def)
  have "utf8_ok (json_dumps (JObj act_body))" by (rule utf8_ok_dumps [OF act_plain(1,2)])
  then show "to_record act_stores act_id act_line act_statement = Inr act_record"
    using act_plain(4)
    by (simp add: to_record_def act_line_get from_to_hex act_body_of line_bytes_def act_env act_record_def act_stores_def
        file_stores_def del: json_dumps.simps json_finite.simps)
qed

lemma act_admit: "admit act_ax demo_trusted act_record = Inr act_record"
proof -
  have "verified_capsule act_ax act_record = Inr act_body"
    using act_decode act_members
    by (simp add: verified_capsule_def decode_capsule_def decode_json_def PADDING_RECORD_TYPE_def act_record_def)
       (simp add: act_body_def act_ax_def plain_ax_def pair_ax_def act_id_def)
  moreover have "valid_name STATEMENT"
    by (simp add: STATEMENT_def valid_name_def is_alnum_def is_lower_def is_digit_def is_upper_def name_char_def)
  ultimately have ver: "\<exists>res. verify_record act_ax demo_trusted act_record = Inr res"
    using act_id_ok
    by (simp add: verify_record_def act_env demo_trusted_def act_record_def verify_artifact_def) (simp add: act_key_def)
  have "length (json_dumps (JObj act_body)) \<le> 400" "length act_statement \<le> 200"
    by (simp_all add: act_body_def bare_fields_def act_statement_def act_id_def demo_id_def quote_def esc_char_def)
  then have "prepare act_ax act_record = Inr act_record"
    by (simp add: prepare_def act_record_def MAX_ARTIFACTS_def MAX_ENVELOPE_def MAX_TOTAL_def del: json_dumps.simps)
  with ver show ?thesis by (auto simp: admit_def)
qed

lemma act_laws: "ledger_laws act_ax counterparty_citation_keys {act_record}"
proof -
  have "digest_plain act_ax" by (simp add: digest_plain_def act_ax_def plain_ax_def)
  then show ?thesis using default_indexer by (simp add: ledger_laws_def no_collision_def)
qed

lemma act_sha: "sha_ok act_ax"
  using demo_sha_ok by (simp add: sha_ok_def act_env)

lemma act_put: "\<exists>s'. js_put act_ax demo_trusted act_record js_fresh = Inr s'"
proof -
  have "utf8_ok (encode_record act_record)"
    using admitted_utf8 [OF _ act_sha] admit_admitted [OF act_admit] by blast
  then show ?thesis
    using act_admit
    by (auto simp: js_put_def admit_def res_simps js_fresh_def js_append_def Let_def add_index_def empty_index_def)
qed

lemma act_hex: "\<exists>v. from_hex act_id = Some v"
proof -
  have "from_hex (demo_id CHR ''a'') \<noteq> None" by code_simp
  then show ?thesis by (auto simp: act_id_def)
qed

lemma act_offers: "offers act_stores {act_record} act_line act_statement"
  using act_checks(2) by (simp add: offers_def act_line_get) (simp add: act_line_def act_body_def bare_fields_def)

lemma act_append: "\<exists>L s' l'. append_sealed act_stores act_line act_statement new_ledger js_fresh [] = (Inr L, s', l') \<and>
    length (sl_lines L) = 1"
proof -
  obtain s' v where "js_put act_ax demo_trusted act_record js_fresh = Inr s'" "from_hex act_id = Some v"
    using act_put act_hex by blast
  moreover have "\<not> is_padding act_line" "parent_of act_line = None"
    by (simp_all add: is_padding_def parent_of_def member_at_def act_line_get)
  moreover have "recompute (sb_ax act_stores) act_line act_id = Inr ()"
    using act_digest by (simp add: recompute_def act_stores_def file_stores_def)
  moreover have "check_not_stale act_stores [] new_ledger = Inr ()"
    by (simp add: check_not_stale_def act_stores_def file_stores_def list_scan_def new_ledger_def)
  moreover have "sb_put act_stores = js_put act_ax demo_trusted" "sb_append act_stores = list_append"
    by (simp_all add: act_stores_def file_stores_def)
  ultimately show ?thesis
    using act_checks
    by (simp add: append_sealed_def act_line_get write_line_def commit_line_def list_append_def)
       (simp add: new_ledger_def index_line_def Let_def)
qed

lemma act_open: "open_stores act_stores js_fresh [] = Some (Inr new_ledger)"
  by (simp add: open_stores_def replay_from.simps act_stores_def file_stores_def list_scan_def)

lemma act_start: "js_inv act_ax (\<lambda>_. None) js_fresh" "\<forall>i r. js_content act_ax js_fresh i = Some r \<longrightarrow> r \<in> {act_record}"
  using js_fresh_sim [of act_ax "\<lambda>_. None" demo_trusted] by (simp_all add: js_sim_def mem_empty_def)

text \<open>One writer opens the empty log, takes the lock and appends the line.\<close>

definition act_world :: "(jsonl_store, octets list) lworld" where
  "act_world = \<lparr>lw_store = js_fresh, lw_log = [], lw_lock = Some 0, lw_writers = [(new_ledger, WIdle)]\<rparr>"

lemma act_opened: "lreach act_stores {act_record} (start_world js_fresh []) act_world"
proof -
  let ?w1 = "\<lparr>lw_store = js_fresh, lw_log = [], lw_lock = None, lw_writers = [(new_ledger, WOpening 0 [])]\<rparr>"
  let ?w2 = "\<lparr>lw_store = js_fresh, lw_log = [], lw_lock = None, lw_writers = [(new_ledger, WIdle)]\<rparr>"
  have "lstep act_stores {act_record} (start_world js_fresh []) ?w1"
    using lstep.opens [of act_stores "{act_record}" "start_world js_fresh []"] by (simp add: start_world_def)
  moreover have "lstep act_stores {act_record} ?w1 ?w2"
    using lstep.scans [of 0 ?w1 new_ledger 0 act_stores "{act_record}"]
    by (simp add: set_writer_def scanned_page_def act_stores_def file_stores_def list_scan_def)
  moreover have "lstep act_stores {act_record} ?w2 act_world"
    using lstep.locks [of ?w2 0 act_stores "{act_record}"] by (simp add: act_world_def)
  ultimately show ?thesis by (meson lreach.intros)
qed

lemma act_written:
  obtains L s' l' i r where "append_sealed act_stores act_line act_statement new_ledger js_fresh [] = (Inr L, s', l')"
    "length (sl_lines L) = 1" "i = act_id" "\<not> is_padding act_line"
    "lreach act_stores {act_record} (start_world js_fresh [])
       (set_writer 0 (new_ledger, WStored i r act_line act_statement) (act_world\<lparr>lw_store := s'\<rparr>))"
    "log_line act_stores i act_line False new_ledger [] = (Inr L, l')"
proof -
  obtain L s' l' where app: "append_sealed act_stores act_line act_statement new_ledger js_fresh [] = (Inr L, s', l')"
    "length (sl_lines L) = 1" using act_append by blast
  have w: "append_sealed act_stores act_line act_statement new_ledger (lw_store act_world) (lw_log act_world) = (Inr L, s', l')"
      "0 < length (lw_writers act_world)" "lw_writers act_world ! 0 = (new_ledger, WIdle)" "lw_lock act_world = Some 0"
    using app by (simp_all add: act_world_def)
  obtain i r where st: "lreach act_stores {act_record} act_world
        (set_writer 0 (new_ledger, WStored i r act_line act_statement) (act_world\<lparr>lw_store := s'\<rparr>))"
      "log_line act_stores i act_line False new_ledger (lw_log act_world) = (Inr L, l')" "dget act_line ''capsule_id'' = JStr i"
      "\<not> is_padding act_line"
    by (rule append_reached [OF w(1) act_offers w(2-4)])
  have "log_line act_stores i act_line False new_ledger [] = (Inr L, l')" "i = act_id"
    using st(2,3) by (simp_all add: act_world_def act_line_get)
  with app st(4) lreach_trans [OF act_opened st(1)] show thesis by (rule_tac that)
qed

lemma act_logged:
  obtains L s' l' w where "append_sealed act_stores act_line act_statement new_ledger js_fresh [] = (Inr L, s', l')"
    "length (sl_lines L) = 1" "lreach act_stores {act_record} (start_world js_fresh []) w"
    "lw_store w = s'" "lw_log w = l'" "lw_writers w = [(L, WIdle)]"
proof -
  obtain L s' l' i r where L: "append_sealed act_stores act_line act_statement new_ledger js_fresh [] = (Inr L, s', l')"
    "length (sl_lines L) = 1" "i = act_id" "\<not> is_padding act_line"
    "lreach act_stores {act_record} (start_world js_fresh [])
       (set_writer 0 (new_ledger, WStored i r act_line act_statement) (act_world\<lparr>lw_store := s'\<rparr>))"
    "log_line act_stores i act_line False new_ledger [] = (Inr L, l')"
    by (rule act_written)
  let ?w = "set_writer 0 (new_ledger, WStored i r act_line act_statement) (act_world\<lparr>lw_store := s'\<rparr>)"
  have "lstep act_stores {act_record} ?w (set_writer 0 (L, WIdle) (?w\<lparr>lw_log := l'\<rparr>))"
    using lstep.logs [of 0 ?w new_ledger i r act_line act_statement act_stores "Inr L" l' "{act_record}"] L(4,6)
    by (simp add: set_writer_def act_world_def)
  from lreach.step [OF L(5) this] show thesis
    by (rule that [OF L(1,2)]) (simp_all add: set_writer_def act_world_def)
qed


theorem accepted_append_is_permanent_witness:
  "\<exists>L s' l' T line. append_sealed act_stores act_line act_statement new_ledger js_fresh [] = (Inr L, s', l') \<and>
    open_stores act_stores s' l' = Some (Inr T) \<and> lookup_record act_stores s' T act_id = Inr (Some (line, Some act_statement))"
proof -
  obtain L s' l' i r where L: "append_sealed act_stores act_line act_statement new_ledger js_fresh [] = (Inr L, s', l')"
    "length (sl_lines L) = 1" "i = act_id" "\<not> is_padding act_line"
    "lreach act_stores {act_record} (start_world js_fresh [])
       (set_writer 0 (new_ledger, WStored i r act_line act_statement) (act_world\<lparr>lw_store := s'\<rparr>))"
    "log_line act_stores i act_line False new_ledger [] = (Inr L, l')"
    by (rule act_written)
  let ?w = "set_writer 0 (new_ledger, WStored i r act_line act_statement) (act_world\<lparr>lw_store := s'\<rparr>)"
  have w: "0 < length (lw_writers ?w)" "lw_writers ?w ! 0 = (new_ledger, WStored i r act_line act_statement)"
      "log_line act_stores i act_line False new_ledger (lw_log ?w) = (Inr L, l')"
      "lw_store (set_writer 0 (L, WIdle) (?w\<lparr>lw_log := l'\<rparr>)) = s'" "lw_log (set_writer 0 (L, WIdle) (?w\<lparr>lw_log := l'\<rparr>)) = l'"
    using L(6) by (simp_all add: set_writer_def act_world_def)
  from accepted_append_is_permanent [OF list_log.entry_log_axioms _ act_laws act_stores_def act_start act_open L(5) w(1,2) L(4) w(3)
      lreach.start] L(1,3) w(4,5)
  show ?thesis by auto
qed

theorem opened_ledger_is_one_chain_witness:
  "\<exists>s l T ds. open_stores act_stores s l = Some (Inr T) \<and> ds \<noteq> [] \<and> list_all2 (sound_line act_stores s) l ds \<and> one_chain None ds"
proof -
  obtain L s' l' w where L: "length (sl_lines L) = 1" "lreach act_stores {act_record} (start_world js_fresh []) w"
      "lw_store w = s'" "lw_log w = l'" "lw_writers w = [(L, WIdle)]"
    by (rule act_logged)
  have led: "store_ledger act_ax demo_trusted (js_inv act_ax (\<lambda>_. None)) (js_content act_ax) (js_put act_ax demo_trusted)
      (js_get act_ax demo_trusted) (js_purge act_ax (\<lambda>_. None)) (\<lambda>l. l) list_scan list_append act_stores {act_record}"
    unfolding act_stores_def by (rule file_ledger [OF list_log.entry_log_axioms _ act_laws]) simp
  have "store_ledger.held (js_inv act_ax (\<lambda>_. None)) (js_content act_ax) {act_record} js_fresh"
    using act_start by (simp add: store_ledger.held_def [OF led])
  note ok = store_ledger.reach_ok [OF led L(2) store_ledger.start_ok [OF led this act_open]]
  obtain T where T: "open_stores act_stores s' l' = Some (Inr T)" "prefix (sl_lines L) (sl_lines T)"
    using store_ledger.reopens [OF led conjunct1 [OF ok]] L(3-5) by auto
  have log: "entry_log (\<lambda>l. l) (sb_scan act_stores) list_append" "0 < sb_page act_stores" "sb_linear act_stores"
    using list_log.entry_log_axioms by (simp_all add: act_stores_def file_stores_def)
  from opened_ledger_is_one_chain [OF log(1,2) T(1)] log(3) obtain ds where
    ds: "list_all2 (sound_line act_stores s') l' ds" "length (sl_lines T) = length ds" "one_chain None ds" by auto
  moreover have "ds \<noteq> []" using ds(2) T(2) L(1) by (auto dest: prefix_length_le)
  ultimately show ?thesis using T(1) by blast
qed

theorem stale_writer_is_refused_witness:
  "\<exists>e. append_sealed act_stores act_line act_statement new_ledger js_fresh [''x''] = (Inl e, js_fresh, [''x''])"
proof -
  have log: "entry_log (\<lambda>l. l) (sb_scan act_stores) list_append"
    using list_log.entry_log_axioms by (simp add: act_stores_def file_stores_def)
  from stale_writer_is_refused [OF log, of new_ledger "[''x'']"] show ?thesis by (simp add: new_ledger_def)
qed

text \<open>Padding one line to two, with a signer whose statement is its payload.\<close>

definition pad_stores :: "(art_record list, octets list) stores" where
  "pad_stores = \<lparr>sb_ax = act_ax, sb_get = (\<lambda>_ _. Inl NotFoundError), sb_put = (\<lambda>r s. Inr (r # s)), sb_scan = list_scan,
     sb_append = list_append, sb_page = 10, sb_cose = (\<lambda>_ st. Some (Some st)), sb_parse = (\<lambda>_. None),
     sb_indexer = counterparty_citation_keys, sb_linear = True, sb_require = True\<rparr>"

definition pad_signer :: signer where
  "pad_signer = \<lparr>sg_envelope = (\<lambda>_. Inr (to_hex ''e'', to_hex act_key)), sg_statement = (\<lambda>payload _ _. Inr payload)\<rparr>"

definition pad_one :: sledger where
  "pad_one = new_ledger\<lparr>sl_lines := [\<lparr>ll_id = ''x'', ll_offset = 1, ll_padding = True, ll_timestamp = None\<rparr>]\<rparr>"

definition pad_id :: string where "pad_id = demo_id CHR ''d''"

definition pad_record :: dict where
  "pad_record = [(''capsule_id'', JStr pad_id), (''record_type'', JStr ''padding''), (''epistemic_type'', JStr ''producer_claim''),
     (''store_nonce'', JStr (demo_id CHR ''0'')), (''signature'', JStr (to_hex ''e'')), (''key_id'', JStr (to_hex act_key))]"

lemma pad_utf8: "utf8_ok ''capsule_id'' \<and> utf8_ok ''record_type'' \<and> utf8_ok ''padding'' \<and> utf8_ok ''epistemic_type'' \<and>
    utf8_ok ''producer_claim'' \<and> utf8_ok ''store_nonce'' \<and> utf8_ok ''signature'' \<and> utf8_ok ''key_id'' \<and>
    utf8_ok (to_hex ''e'') \<and> utf8_ok (to_hex act_key) \<and> utf8_ok pad_id \<and> utf8_ok (demo_id CHR ''0'')"
proof -
  have "utf8_ok (to_hex ''e'')" "utf8_ok (to_hex act_key)"
    by (rule utf8_ok_ascii; simp add: to_hex_def act_key_def hex_digit_def list_all_iff)+
  moreover have "utf8_ok pad_id" "utf8_ok (demo_id CHR ''0'')" using demo_id_ok by (simp_all add: pad_id_def)
  moreover have "utf8_ok ''capsule_id'' \<and> utf8_ok ''record_type'' \<and> utf8_ok ''padding'' \<and> utf8_ok ''epistemic_type'' \<and>
      utf8_ok ''producer_claim'' \<and> utf8_ok ''store_nonce'' \<and> utf8_ok ''signature'' \<and> utf8_ok ''key_id''"
    by (intro conjI; rule utf8_ok_ascii; simp)
  ultimately show ?thesis by blast
qed

lemma pad_sign: "sign_padding pad_stores pad_signer issuer (demo_id CHR ''0'') = Inr (pad_record, json_dumps (JObj pad_record))"
proof -
  have "padding_record_with_nonce act_ax (demo_id CHR ''0'') = Inr (take 4 pad_record)"
    by (simp add: padding_record_with_nonce_def Let_def act_ax_def plain_ax_def pad_record_def pad_id_def PADDING_RECORD_TYPE_def)
  moreover have "take 4 pad_record @ [(''signature'', JStr (to_hex ''e'')), (''key_id'', JStr (to_hex act_key))] = pad_record"
    "dget (take 4 pad_record) ''capsule_id'' = JStr pad_id" by (simp_all add: pad_record_def)
  moreover have "json_finite (JObj pad_record)" by (simp add: pad_record_def)
  moreover have "utf8_ok (json_dumps (JObj pad_record))"
    by (rule utf8_ok_dumps [of 0]) (use pad_utf8 in \<open>simp_all add: pad_record_def\<close>)
  ultimately show ?thesis
    by (simp add: sign_padding_def pad_signer_def line_bytes_def pad_stores_def del: json_dumps.simps json_finite.simps)
qed

lemma pad_append: "\<exists>M s' l'. append_padding pad_stores pad_record (json_dumps (JObj pad_record)) pad_one [] [''x''] = (Inr M, s', l')"
proof -
  let ?st = "json_dumps (JObj pad_record)"
  have get: "dget pad_record ''capsule_id'' = JStr pad_id" "dget pad_record ''record_type'' = JStr ''padding''"
      "dget pad_record ''epistemic_type'' = JStr ''producer_claim''" "dget pad_record ''store_nonce'' = JStr (demo_id CHR ''0'')"
      "dget pad_record ''signature'' = JStr (to_hex ''e'')" "dget pad_record ''key_id'' = JStr (to_hex act_key)"
    by (simp_all add: pad_record_def)
  have "padding_shape_ok pad_record" "is_padding pad_record"
    using demo_id_ok(1) [of "CHR ''0''"] get
    by (simp_all add: padding_shape_ok_def is_padding_def PADDING_RECORD_TYPE_def valid_id_def)
       (simp add: pad_record_def PADDING_MEMBERS_def ENVELOPE_MEMBERS_def)
  moreover have "recompute (sb_ax pad_stores) pad_record pad_id = Inr ()"
    by (simp add: recompute_def compute_record_id_def pad_stores_def act_ax_def plain_ax_def pad_record_def ENVELOPE_MEMBERS_def
        pad_id_def)
  moreover have "decode_strict_json (ax_json act_ax) ?st = Some (JObj pad_record)"
    by (rule decode_dumps) (use pad_utf8 in \<open>simp_all add: pad_record_def MAX_JSON_DEPTH_def\<close>)
  then have "check_statement pad_stores pad_record pad_id ?st = Inr ()"
    by (simp add: check_statement_def check_statement_matches_def statement_payload_def get from_to_hex pad_stores_def del: json_dumps.simps)
       (simp add: act_key_def)
  moreover have "utf8_ok (json_dumps (JObj (body_of pad_record)))" "json_finite (JObj (body_of pad_record))"
    by (rule utf8_ok_dumps [of 0]) (use pad_utf8 in \<open>simp_all add: body_of_def pad_record_def ENVELOPE_MEMBERS_def\<close>)
  then have "\<exists>r. to_record pad_stores pad_id pad_record ?st = Inr r"
    by (simp add: to_record_def get from_to_hex line_bytes_def act_env pad_stores_def del: json_dumps.simps json_finite.simps)
  moreover have "check_not_stale pad_stores [''x''] pad_one = Inr ()"
    by (simp add: check_not_stale_def pad_stores_def list_scan_def pad_one_def)
  moreover have "from_hex (demo_id CHR ''d'') \<noteq> None \<and> from_hex (demo_id CHR ''d'') \<noteq> Some ''x''" by code_simp
  then have "\<exists>v. from_hex pad_id = Some v \<and> v \<noteq> ''x''" by (auto simp: pad_id_def)
  ultimately show ?thesis
    by (auto simp: append_padding_def get write_line_def commit_line_def pad_stores_def list_append_def simp del: json_dumps.simps)
qed

theorem padding_fills_bucket_witness:
  "\<exists>M s' l'. pad_to_bucket pad_stores 2 pad_signer ''i'' (\<lambda>_. demo_id CHR ''0'') pad_one [] [''x''] = (Inr M, s', l') \<and>
    2 dvd int (length (sl_lines M)) \<and> sl_head M = None"
proof -
  obtain M s' l' where "append_padding pad_stores pad_record (json_dumps (JObj pad_record)) pad_one [] [''x''] = (Inr M, s', l')"
    using pad_append by blast
  then have "pad_to_bucket pad_stores 2 pad_signer ''i'' (\<lambda>_. demo_id CHR ''0'') pad_one [] [''x''] = (Inr M, s', l')"
    using pad_sign by (simp add: pad_to_bucket_def pad_one_def del: json_dumps.simps)
  with padding_fills_bucket [OF _ this] show ?thesis by (simp add: pad_one_def new_ledger_def)
qed

end
