(* ===== verification/Import_Flat.thy ===== *)
theory Import_Flat
  imports Legacy_Ledger Store_Ledger_Properties
begin

text \<open>
  \<open>import_flat\<close> of \<open>store_backed_ledger.py\<close>: the records of a flat ledger, read through \<open>LegacyLedger.get\<close>, copied in order into
  the entry log and the artifact store of a store-backed ledger.  The flat file is that of \<open>Legacy_Ledger\<close>, the two stores are
  those of \<open>Store_Ledger\<close>; a run gives its result and what it leaves in the two stores.
\<close>

section \<open>Reading the flat ledger\<close>

datatype import_exn =
    FlatNotFound
  | ImportRefusedError "nat list"
  | ImportStoreError artifact_error nat string
  | ImportLedgerError sl_error
  | OtherImportError string

text \<open>A text file is read with universal newlines.\<close>

fun universal_newlines :: "string \<Rightarrow> string" where
  "universal_newlines [] = []"
| "universal_newlines (CHR 0x0D # CHR 0x0A # s) = newline # universal_newlines s"
| "universal_newlines (c # s) = (if c = CHR 0x0D then newline else c) # universal_newlines s"

definition read_flat_entries :: "artifact_ext \<Rightarrow> octets \<Rightarrow> import_exn + json list" where
  "read_flat_entries ax f =
     (if \<not> utf8_ok f then Inl (OtherImportError ''UnicodeDecodeError'')
      else
        let (ls, torn) = split_lines (universal_newlines f) in
        Inr (List.map_filter (\<lambda>raw. let t = py_strip raw in
          if t = [] then None else json_loads ((ax_json ax)\<lparr>je_strict := False\<rparr>) t) (ls @ [torn])))"

record flat_scan =
  fs_copy :: "(nat \<times> art_record) list"
  fs_skipped :: "(string \<times> nat) list"
  fs_refused :: "nat list"
  fs_seen :: "(string \<times> dict) list"

definition new_scan :: flat_scan where
  "new_scan = \<lparr>fs_copy = [], fs_skipped = [], fs_refused = [], fs_seen = []\<rparr>"

definition skip_line :: "string \<Rightarrow> flat_scan \<Rightarrow> flat_scan" where
  "skip_line kind st = st\<lparr>fs_skipped :=
     AList.update kind (Suc (case map_of (fs_skipped st) kind of None \<Rightarrow> 0 | Some n \<Rightarrow> n)) (fs_skipped st)\<rparr>"

definition refuse_line :: "nat \<Rightarrow> flat_scan \<Rightarrow> flat_scan" where
  "refuse_line n st = st\<lparr>fs_refused := fs_refused st @ [n]\<rparr>"

definition signer_key :: "artifact_ext \<Rightarrow> art_record \<Rightarrow> octets" where
  "signer_key ax r = (case ax_envelope ax (ar_capsule_id r) (ar_envelope r) of None \<Rightarrow> [] | Some pk \<Rightarrow> pk)"

definition art :: "artifact_error + 'a \<Rightarrow> legacy_exn + 'a" where
  "art x = (case x of Inl e \<Rightarrow> Inl (ArtifactExn e) | Inr y \<Rightarrow> Inr y)"

text \<open>The record of a line that a store can keep; an unsigned one has no envelope and is refused like an invalid one.\<close>

definition importable :: "legacy_env \<Rightarrow> string \<Rightarrow> flat_file \<Rightarrow> legacy_index \<Rightarrow> (legacy_exn + art_record) \<times> legacy_index" where
  "importable env i f ix =
     (let (res, ix') = get_record (env\<lparr>lv_trusted := None\<rparr>) i f ix in
      (sbind res (\<lambda>r.
         if ar_envelope r = [] then Inl (ArtifactExn InvalidError)
         else sbind (art (prepare (lv_ax env) r)) (\<lambda>p.
              sbind (art (verify_record (lv_ax env) [signer_key (lv_ax env) r] p)) (\<lambda>_. Inr r))), ix'))"

definition caught :: "legacy_exn \<Rightarrow> bool" where
  "caught e = (case e of ArtifactExn a \<Rightarrow> (case a of OtherError _ \<Rightarrow> False | _ \<Rightarrow> True) | _ \<Rightarrow> False)"

text \<open>One line.  \<open>ife\<close> compares an integer with a float.\<close>

definition import_line ::
    "legacy_env \<Rightarrow> (int \<Rightarrow> pyfloat \<Rightarrow> bool) \<Rightarrow> flat_file \<Rightarrow> flat_scan \<times> legacy_index \<Rightarrow> nat \<times> json \<Rightarrow>
     import_exn + flat_scan \<times> legacy_index" where
  "import_line env ife f = (\<lambda>(st, ix) (n, obj).
     (case obj of
        JObj d \<Rightarrow>
          if dget d ''kind'' = JStr ''checkpoint_stamp'' then Inr (skip_line ''checkpoint_stamp'' st, ix)
          else if dget d ''kind'' = JStr ''checkpoint_witness_backfill'' then Inr (skip_line ''checkpoint_witness_backfill'' st, ix)
          else
            (case dget d ''capsule_id'' of
               JStr i \<Rightarrow>
                 if dget d ''kind'' \<noteq> JNull then Inr (refuse_line n st, ix)
                 else
                   (case map_of (fs_seen st) i of
                      Some e \<Rightarrow>
                        if \<not> py_eq ife (JObj d) (JObj e) then Inr (refuse_line n st, ix)
                        else Inr (skip_line ''repeat'' st, ix)
                    | None \<Rightarrow>
                        (case importable env i f ix of
                           (Inl e, ix') \<Rightarrow> if caught e then Inr (refuse_line n st, ix') else Inl (OtherImportError ''get'')
                         | (Inr r, ix') \<Rightarrow>
                             Inr (st\<lparr>fs_copy := fs_copy st @ [(n, r)], fs_seen := (i, d) # fs_seen st\<rparr>, ix')))
             | _ \<Rightarrow> Inr (refuse_line n st, ix))
      | _ \<Rightarrow> Inr (refuse_line n st, ix)))"

definition scan_flat :: "legacy_env \<Rightarrow> (int \<Rightarrow> pyfloat \<Rightarrow> bool) \<Rightarrow> flat_file \<Rightarrow> import_exn + flat_scan" where
  "scan_flat env ife f =
     (if f = None then Inl FlatNotFound
      else
        sbind (read_flat_entries (lv_ax env) (file_octets f)) (\<lambda>objs.
        sbind (foldM_r (import_line env ife f) (new_scan, new_index) (enumerate 1 objs)) (\<lambda>(st, _).
          if fs_refused st \<noteq> [] then Inl (ImportRefusedError (fs_refused st)) else Inr st)))"

section \<open>Copying\<close>

definition flat_rules :: "('s, 'l) stores \<Rightarrow> ('s, 'l) stores" where
  "flat_rules be = be\<lparr>sb_linear := False, sb_require := False\<rparr>"

definition import_store_error :: "nat \<Rightarrow> string \<Rightarrow> artifact_error \<Rightarrow> import_exn" where
  "import_store_error n i e = (case e of OtherError x \<Rightarrow> OtherImportError x | _ \<Rightarrow> ImportStoreError e n i)"

text \<open>A resumed import: each entry already in the log holds its record as stored.\<close>

definition check_resumed :: "('s, 'l) stores \<Rightarrow> 's \<Rightarrow> (nat \<times> art_record) \<times> ledger_line \<Rightarrow> import_exn + unit" where
  "check_resumed be s = (\<lambda>((n, r), ln).
     if ll_id ln \<noteq> ar_capsule_id r then Inl (ImportRefusedError [n])
     else (case sb_get be (ll_id ln) s of
             Inl e \<Rightarrow> Inl (import_store_error 0 (ll_id ln) e)
           | Inr q \<Rightarrow>
               (case prepare (sb_ax be) r of
                  Inl e \<Rightarrow> Inl (OtherImportError ''prepare'')
                | Inr p \<Rightarrow> if encode_record q \<noteq> encode_record p then Inl (ImportRefusedError [n]) else Inr ())))"

fun put_all :: "('s, 'l) stores \<Rightarrow> (nat \<times> art_record) list \<Rightarrow> 's \<Rightarrow> (import_exn + unit) \<times> 's" where
  "put_all be [] s = (Inr (), s)"
| "put_all be ((n, r) # rs) s =
     (case sb_put be r s of
        Inl e \<Rightarrow> (Inl (import_store_error n (ar_capsule_id r) e), s)
      | Inr s' \<Rightarrow> put_all be rs s')"

fun append_all ::
    "('s, 'l) stores \<Rightarrow> (nat \<times> art_record) list \<Rightarrow> sledger \<Rightarrow> 's \<Rightarrow> 'l \<Rightarrow> (import_exn + sledger) \<times> 's \<times> 'l" where
  "append_all be [] L s l = (Inr L, s, l)"
| "append_all be ((n, r) # rs) L s l =
     (case decode_strict_json (ax_json (sb_ax be)) (ar_capsule r) of
        Some (JObj d) \<Rightarrow>
          (case check_not_stale be l L of
             Inl e \<Rightarrow> (Inl (ImportLedgerError e), s, l)
           | Inr _ \<Rightarrow>
               (case commit_line be (ar_capsule_id r) r d (is_padding d) L s l of
                  (Inl e, s', l') \<Rightarrow> (Inl (ImportLedgerError e), s', l')
                | (Inr L', s', l') \<Rightarrow> append_all be rs L' s' l'))
      | _ \<Rightarrow> (Inl (OtherImportError ''StrictJSONError''), s, l))"

record import_report =
  ir_records :: nat
  ir_resumed :: nat
  ir_skipped :: "(string \<times> nat) list"
  ir_head :: "string option"

definition opened :: "('s, 'l) stores \<Rightarrow> 's \<Rightarrow> 'l \<Rightarrow> (import_exn + sledger) option" where
  "opened be s l = map_option (\<lambda>res. case res of Inl e \<Rightarrow> Inl (ImportLedgerError e) | Inr L \<Rightarrow> Inr L) (open_stores be s l)"

definition import_copy ::
    "('s, 'l) stores \<Rightarrow> flat_scan \<Rightarrow> sledger \<Rightarrow> 's \<Rightarrow> 'l \<Rightarrow> ((import_exn + sledger \<times> import_report) \<times> 's \<times> 'l) option" where
  "import_copy be st L s l =
     (if length (fs_copy st) < length (sl_lines L) then Some (Inl (ImportRefusedError []), s, l)
      else (case mapM_r (check_resumed be s) (zip (fs_copy st) (sl_lines L)) of
              Inl e \<Rightarrow> Some (Inl e, s, l)
            | Inr _ \<Rightarrow>
                let rest = drop (length (sl_lines L)) (fs_copy st) in
                (case put_all be rest s of
                   (Inl e, s') \<Rightarrow> Some (Inl e, s', l)
                 | (Inr _, s1) \<Rightarrow>
                     (case append_all be rest L s1 l of
                        (Inl e, s', l') \<Rightarrow> Some (Inl e, s', l')
                      | (Inr L', s', l') \<Rightarrow>
                          if length (sl_lines L') \<noteq> length (fs_copy st) then Some (Inl (ImportRefusedError []), s', l')
                          else map_option (\<lambda>res. (sbind res (\<lambda>M.
                            Inr (M, \<lparr>ir_records = length (sl_lines M), ir_resumed = length (sl_lines L),
                                     ir_skipped = fs_skipped st, ir_head = sl_head M\<rparr>)), s', l')) (opened be s' l')))))"

definition import_flat ::
    "legacy_env \<Rightarrow> (int \<Rightarrow> pyfloat \<Rightarrow> bool) \<Rightarrow> ('s, 'l) stores \<Rightarrow> flat_file \<Rightarrow> 's \<Rightarrow> 'l \<Rightarrow>
     ((import_exn + sledger \<times> import_report) \<times> 's \<times> 'l) option" where
  "import_flat env ife be f s l =
     (case scan_flat env ife f of
        Inl e \<Rightarrow> Some (Inl e, s, l)
      | Inr st \<Rightarrow>
          (case opened (flat_rules be) s l of
             None \<Rightarrow> None
           | Some (Inl e) \<Rightarrow> Some (Inl e, s, l)
           | Some (Inr L) \<Rightarrow> import_copy (flat_rules be) st L s l))"


section \<open>What a scan gives\<close>

text \<open>Every line is copied, skipped or refused, and what is copied is a record without originals that verifies.\<close>

definition accounted :: "flat_scan \<Rightarrow> nat" where
  "accounted st = length (fs_copy st) + sum_list (map snd (fs_skipped st)) + length (fs_refused st)"

definition keepable :: "artifact_ext \<Rightarrow> art_record \<Rightarrow> bool" where
  "keepable ax r \<longleftrightarrow> prepare ax r = Inr r \<and> (\<exists>res. verify_record ax [signer_key ax r] r = Inr res)"

definition scanned :: "artifact_ext \<Rightarrow> flat_scan \<Rightarrow> bool" where
  "scanned ax st \<longleftrightarrow> distinct (map fst (fs_skipped st)) \<and> list_all (\<lambda>(n, r). keepable ax r) (fs_copy st)"

lemma sum_update:
  "distinct (map fst xs) \<Longrightarrow>
    sum_list (map snd (AList.update k (Suc (case map_of xs k of None \<Rightarrow> 0 | Some n \<Rightarrow> n)) xs)) = Suc (sum_list (map snd xs))"
proof (induction xs)
  case (Cons x xs)
  then show ?case by (cases x) (auto split: option.splits)
qed simp

lemma skip_line_facts:
  assumes "scanned ax st"
  shows "scanned ax (skip_line kind st) \<and> accounted (skip_line kind st) = Suc (accounted st)"
  using assms sum_update [of "fs_skipped st" kind]
  by (simp add: scanned_def accounted_def skip_line_def distinct_update)

lemma refuse_line_facts:
  "scanned ax st \<Longrightarrow> scanned ax (refuse_line n st) \<and> accounted (refuse_line n st) = Suc (accounted st)"
  by (simp add: scanned_def accounted_def refuse_line_def)

lemma importable_keepable:
  assumes "importable env i f ix = (Inr r, ix')"
  shows "keepable (lv_ax env) r"
proof -
  obtain res where g: "get_record (env\<lparr>lv_trusted := None\<rparr>) i f ix = (res, ix')" "res = Inr r"
      "sbind (art (prepare (lv_ax env) r)) (\<lambda>p. art (verify_record (lv_ax env) [signer_key (lv_ax env) r] p)) \<noteq> Inl e" for e
    using assms by (auto simp: importable_def res_simps split: prod.splits if_splits)
  have "ar_artifacts r = []"
    using g(1,2)
    by (auto simp: get_record_def checked_record_def res_simps split: if_splits prod.splits sum.splits option.splits json.splits)
  then have "prepare (lv_ax env) r = Inr p \<Longrightarrow> p = r" for p
    by (auto simp: prepare_def split: if_splits)
  with assms show ?thesis
    by (auto simp: keepable_def importable_def art_def res_simps split: prod.splits if_splits sum.splits)
qed

lemma import_line_facts:
  assumes "import_line env ife f (st, ix) (n, obj) = Inr (st', ix')" "scanned (lv_ax env) st"
  shows "scanned (lv_ax env) st' \<and> accounted st' = Suc (accounted st)"
proof -
  consider (skip) k where "st' = skip_line k st" | (refuse) "st' = refuse_line n st"
    | (copy) r i d where "st' = st\<lparr>fs_copy := fs_copy st @ [(n, r)], fs_seen := (i, d) # fs_seen st\<rparr>"
        "importable env i f ix = (Inr r, ix')"
    using assms(1)
    by (auto simp: import_line_def split: json.splits if_splits option.splits prod.splits sum.splits)
  then show ?thesis
  proof cases
    case (copy r i d)
    then show ?thesis using assms(2) importable_keepable [OF copy(2)] by (simp add: scanned_def accounted_def)
  qed (use assms(2) skip_line_facts refuse_line_facts in auto)
qed

lemma import_lines_facts:
  "foldM_r (import_line env ife f) (st, ix) es = Inr (st', ix') \<Longrightarrow> scanned (lv_ax env) st \<Longrightarrow>
    scanned (lv_ax env) st' \<and> accounted st' = accounted st + length es"
proof (induction es arbitrary: st ix)
  case (Cons e es)
  obtain n obj where e: "e = (n, obj)" by fastforce
  with Cons.prems(1) obtain st1 ix1 where s: "import_line env ife f (st, ix) (n, obj) = Inr (st1, ix1)"
      "foldM_r (import_line env ife f) (st1, ix1) es = Inr (st', ix')"
    by (auto simp: res_simps)
  from import_line_facts [OF s(1) Cons.prems(2)] Cons.IH [OF s(2)] show ?case by simp
qed simp

lemma scan_flat_facts:
  assumes "scan_flat env ife f = Inr st"
  obtains objs where "read_flat_entries (lv_ax env) (file_octets f) = Inr objs" "scanned (lv_ax env) st"
    "length (fs_copy st) + sum_list (map snd (fs_skipped st)) = length objs"
proof -
  from assms obtain objs ix where "read_flat_entries (lv_ax env) (file_octets f) = Inr objs"
      "foldM_r (import_line env ife f) (new_scan, new_index) (enumerate 1 objs) = Inr (st, ix)" "fs_refused st = []"
    by (auto simp: scan_flat_def res_simps split: if_splits)
  moreover have "scanned (lv_ax env) new_scan" "accounted new_scan = 0"
    by (simp_all add: scanned_def accounted_def new_scan_def)
  ultimately show thesis using import_lines_facts [of env ife f new_scan new_index "enumerate 1 objs" st ix] that
    by (simp add: accounted_def)
qed

section \<open>What the flat ledger holds\<close>

text \<open>The ids of the records among the JSON lines of a file, and a list without its later repetitions.\<close>

definition record_ids :: "json list \<Rightarrow> string list" where
  "record_ids objs = concat (map (\<lambda>obj.
     case obj of
       JObj d \<Rightarrow> (case dget d ''capsule_id'' of JStr i \<Rightarrow> if dget d ''kind'' = JNull then [i] else [] | _ \<Rightarrow> [])
     | _ \<Rightarrow> []) objs)"

definition firsts :: "'a list \<Rightarrow> 'a list" where
  "firsts xs = rev (remdups (rev xs))"

lemma firsts_snoc: "firsts (xs @ [x]) = (if x \<in> set xs then firsts xs else firsts xs @ [x])"
  by (simp add: firsts_def)

lemma set_firsts [simp]: "set (firsts xs) = set xs"
  by (simp add: firsts_def)

text \<open>A line that an import can take: a record, or one of the two kinds of lines that are no records.\<close>

definition takeable :: "json \<Rightarrow> bool" where
  "takeable obj \<longleftrightarrow> (\<exists>d. obj = JObj d \<and>
     (dget d ''kind'' \<in> {JStr ''checkpoint_stamp'', JStr ''checkpoint_witness_backfill''} \<or>
      (dget d ''kind'' = JNull \<and> (\<exists>i. dget d ''capsule_id'' = JStr i))))"

text \<open>The record that a new reader of the flat ledger gets for an id.\<close>

definition served :: "legacy_env \<Rightarrow> flat_file \<Rightarrow> string \<Rightarrow> legacy_exn + art_record" where
  "served env f i = fst (get_record (env\<lparr>lv_trusted := None\<rparr>) i f new_index)"

lemma get_record_index:
  assumes "index_of_file env f ix"
  shows "fst (get_record env i f ix) = fst (get_record env i f new_index)" "index_of_file env f (snd (get_record env i f ix))"
proof -
  have new: "index_of_file env f new_index" by (simp add: index_of_file_def)
  note r = refresh_later [OF assms later_refl] and n = refresh_later [OF new later_refl]
  obtain res ix1 where p: "refresh env f ix = (res, ix1)" by fastforce
  obtain ix2 where q: "refresh env f new_index = (res, ix2)" using r(1) p by (cases "refresh env f new_index") (simp add: fresh_read_def)
  have same: "ix2 = ix1" if "res = Inr ()" using r(2) p q that by (simp add: fresh_read_def)
  show "fst (get_record env i f ix) = fst (get_record env i f new_index)"
    using p q same by (cases res) (simp_all add: get_record_def)
  show "index_of_file env f (snd (get_record env i f ix))"
    using r(3) p assms by (cases res) (simp_all add: get_record_def)
qed

lemma served_id:
  assumes "served env f i = Inr r"
  shows "ar_capsule_id r = i"
proof -
  let ?env = "env\<lparr>lv_trusted := None\<rparr>"
  obtain ix where ok: "valid_id i" "refresh ?env f new_index = (Inr (), ix)"
    using assms by (auto simp: served_def get_record_def split: if_splits prod.splits sum.splits)
  obtain v ln where v: "from_hex i = Some v" "find_line ix v = Some ln" and r: "ar_capsule_id r = to_hex (le_value ln)"
    using assms ok
    by (auto simp: served_def get_record_def checked_record_def res_simps Option.bind_eq_Some_conv
        split: if_splits option.splits json.splits)
  obtain lns tail n identity where "ix = indexed lns n tail identity"
    by (rule fresh_read_parse [OF ok(2) [folded fresh_read_def]])
  then have "le_value ln = v" using v(2) by (auto simp: find_line_indexed dest: find_SomeD)
  moreover have "to_hex v = i" using hex_of_octets [OF v(1)] ok(1) by (simp add: valid_id_def hex_string_def)
  ultimately show ?thesis using r by simp
qed

lemma importable_served:
  assumes "importable env i f ix = (res, ix')" "index_of_file (env\<lparr>lv_trusted := None\<rparr>) f ix"
  shows "index_of_file (env\<lparr>lv_trusted := None\<rparr>) f ix'" "res = Inr r \<Longrightarrow> served env f i = Inr r"
  using get_record_index [OF assms(2), of i] assms(1)
  by (auto simp: importable_def served_def res_simps split: prod.splits if_splits)

text \<open>What the lines so far make of a scan that has refused none of them.\<close>

definition scan_of :: "legacy_env \<Rightarrow> flat_file \<Rightarrow> json list \<Rightarrow> flat_scan \<times> legacy_index \<Rightarrow> bool" where
  "scan_of env f objs = (\<lambda>(st, ix).
     index_of_file (env\<lparr>lv_trusted := None\<rparr>) f ix \<and>
     (fs_refused st = [] \<longrightarrow>
        map (\<lambda>(n, r). ar_capsule_id r) (fs_copy st) = firsts (record_ids objs) \<and>
        fst ` set (fs_seen st) = set (record_ids objs) \<and>
        (\<forall>(n, r) \<in> set (fs_copy st). served env f (ar_capsule_id r) = Inr r) \<and> list_all takeable objs))"

lemma record_ids_snoc: "record_ids (objs @ [obj]) = record_ids objs @ record_ids [obj]"
  by (simp add: record_ids_def)

lemma import_line_scan:
  assumes "import_line env ife f (st, ix) (n, obj) = Inr (st', ix')" "scan_of env f objs (st, ix)"
  shows "scan_of env f (objs @ [obj]) (st', ix')"
proof -
  consider (refuse) "st' = refuse_line n st" "index_of_file (env\<lparr>lv_trusted := None\<rparr>) f ix'"
    | (other) d k where "obj = JObj d" "dget d ''kind'' = JStr k" "k \<in> {''checkpoint_stamp'', ''checkpoint_witness_backfill''}"
        "st' = skip_line k st" "ix' = ix"
    | (again) d i e where "obj = JObj d" "dget d ''kind'' = JNull" "dget d ''capsule_id'' = JStr i" "map_of (fs_seen st) i = Some e"
        "st' = skip_line ''repeat'' st" "ix' = ix"
    | (copy) d i r where "obj = JObj d" "dget d ''kind'' = JNull" "dget d ''capsule_id'' = JStr i" "map_of (fs_seen st) i = None"
        "st' = st\<lparr>fs_copy := fs_copy st @ [(n, r)], fs_seen := (i, d) # fs_seen st\<rparr>" "importable env i f ix = (Inr r, ix')"
    using assms importable_served(1) [of env _ f ix]
    by (auto simp: import_line_def scan_of_def split: json.splits if_splits option.splits prod.splits sum.splits)
  then show ?thesis
  proof cases
    case refuse
    then show ?thesis by (simp add: scan_of_def refuse_line_def)
  next
    case (other d k)
    then have "record_ids [obj] = []" by (auto simp: record_ids_def split: json.splits)
    with other assms(2) show ?thesis
      by (auto simp: scan_of_def skip_line_def record_ids_snoc takeable_def)
  next
    case (again d i e)
    then have "record_ids [obj] = [i]" "i \<in> fst ` set (fs_seen st)" by (auto simp: record_ids_def dest: map_of_SomeD intro: rev_image_eqI)
    with again assms(2) show ?thesis
      by (auto simp: scan_of_def skip_line_def record_ids_snoc firsts_snoc takeable_def)
  next
    case (copy d i r)
    have s: "served env f i = Inr r" "index_of_file (env\<lparr>lv_trusted := None\<rparr>) f ix'"
      using importable_served [OF copy(6)] assms(2) by (auto simp: scan_of_def)
    have "record_ids [obj] = [i]" "i \<notin> fst ` set (fs_seen st)" using copy by (auto simp: record_ids_def map_of_eq_None_iff)
    with copy s served_id [OF s(1)] assms(2) show ?thesis
      by (auto simp: scan_of_def record_ids_snoc firsts_snoc takeable_def)
  qed
qed

lemma import_lines_scan:
  "foldM_r (import_line env ife f) (st, ix) (enumerate n objs) = Inr (st', ix') \<Longrightarrow> scan_of env f before (st, ix) \<Longrightarrow>
    scan_of env f (before @ objs) (st', ix')"
proof (induction objs arbitrary: st ix n before)
  case (Cons obj objs)
  then obtain st1 ix1 where s: "import_line env ife f (st, ix) (n, obj) = Inr (st1, ix1)"
      "foldM_r (import_line env ife f) (st1, ix1) (enumerate (Suc n) objs) = Inr (st', ix')"
    by (auto simp: res_simps)
  from Cons.IH [OF s(2) import_line_scan [OF s(1) Cons.prems(2)]] show ?case by simp
qed simp

lemma scan_flat_takes:
  assumes "scan_flat env ife f = Inr st"
  obtains objs where "read_flat_entries (lv_ax env) (file_octets f) = Inr objs" "scanned (lv_ax env) st"
    "length (fs_copy st) + sum_list (map snd (fs_skipped st)) = length objs" "list_all takeable objs"
    "map (\<lambda>(n, r). ar_capsule_id r) (fs_copy st) = firsts (record_ids objs)"
    "\<forall>(n, r) \<in> set (fs_copy st). served env f (ar_capsule_id r) = Inr r"
proof -
  from assms obtain objs ix where o: "read_flat_entries (lv_ax env) (file_octets f) = Inr objs"
      "foldM_r (import_line env ife f) (new_scan, new_index) (enumerate 1 objs) = Inr (st, ix)" "fs_refused st = []"
    by (auto simp: scan_flat_def res_simps split: if_splits)
  have "scan_of env f [] (new_scan, new_index)"
    by (simp add: scan_of_def new_scan_def index_of_file_def record_ids_def firsts_def)
  from import_lines_scan [OF o(2) this] have "scan_of env f objs (st, ix)" by simp
  with o scan_flat_facts [OF assms] that show thesis by (auto simp: scan_of_def)
qed

section \<open>What a run leaves\<close>

lemma append_all_length:
  "append_all be rest L s l = (Inr L', s', l') \<Longrightarrow> length (sl_lines L') = length (sl_lines L) + length rest"
proof (induction rest arbitrary: L s l)
  case (Cons x rest)
  obtain n r where x: "x = (n, r)" by fastforce
  with Cons.prems obtain d M s1 l1 where m: "commit_line be (ar_capsule_id r) r d (is_padding d) L s l = (Inr M, s1, l1)"
      "append_all be rest M s1 l1 = (Inr L', s', l')"
    by (auto split: option.splits json.splits sum.splits prod.splits)
  then have "length (sl_lines M) = Suc (length (sl_lines L))"
    by (auto simp: commit_line_def index_line_def Let_def split: sum.splits option.splits prod.splits if_splits)
  with Cons.IH [OF m(2)] show ?case by simp
qed simp

lemma append_all_error: "append_all be rest L s l = (Inl e, s', l') \<Longrightarrow> (\<exists>x. e = ImportLedgerError x) \<or> (\<exists>x. e = OtherImportError x)"
  by (induction rest arbitrary: L s l) (auto split: option.splits json.splits sum.splits prod.splits)

lemma put_all_error: "put_all be rest s = (Inl e, s') \<Longrightarrow> e \<noteq> FlatNotFound \<and> (\<nexists>ns. e = ImportRefusedError ns)"
  by (induction rest arbitrary: s) (auto simp: import_store_error_def split: sum.splits artifact_error.splits)

lemma opened_Inr: "opened be s l = Some (Inr M) \<longleftrightarrow> open_stores be s l = Some (Inr M)"
  unfolding opened_def by (cases "open_stores be s l"; cases "the (open_stores be s l)") auto

lemma opened_Inl: "opened be s l = Some (Inl e) \<longleftrightarrow> (\<exists>x. e = ImportLedgerError x \<and> open_stores be s l = Some (Inl x))"
  unfolding opened_def by (cases "open_stores be s l"; cases "the (open_stores be s l)") auto

lemma opened_error:
  assumes "opened be s l = Some res" "sbind res (\<lambda>M. Inr (g M)) = Inl e"
  shows "\<exists>x. e = ImportLedgerError x"
  using assms by (cases res) (auto simp: opened_Inl)

lemma import_copy_error:
  assumes "import_copy be st L s l = Some (Inl e, s', l')"
  shows "(case e of FlatNotFound \<Rightarrow> s' = s \<and> l' = l | ImportRefusedError _ \<Rightarrow> s' = s \<and> l' = l | ImportStoreError _ _ _ \<Rightarrow> l' = l | _ \<Rightarrow> True)"
proof (cases "length (fs_copy st) < length (sl_lines L)")
  case True
  with assms show ?thesis by (auto simp: import_copy_def)
next
  case False
  let ?rest = "drop (length (sl_lines L)) (fs_copy st)"
  show ?thesis
  proof (cases "mapM_r (check_resumed be s) (zip (fs_copy st) (sl_lines L))")
    case (Inl x)
    with assms False show ?thesis by (auto simp: import_copy_def split: import_exn.splits)
  next
    case (Inr y)
    obtain res s1 where p: "put_all be ?rest s = (res, s1)" by fastforce
    show ?thesis
    proof (cases res)
      case (Inl x)
      with assms False Inr p put_all_error [of be ?rest s x s1] show ?thesis
        by (auto simp: import_copy_def split: import_exn.splits)
    next
      case a: (Inr u)
      obtain out s2 l2 where q: "append_all be ?rest L s1 l = (out, s2, l2)" by (metis prod_cases3)
      show ?thesis
      proof (cases out)
        case (Inl x)
        with assms False Inr p a q append_all_error [of be ?rest L s1 l x s2 l2] show ?thesis
          by (auto simp: import_copy_def split: import_exn.splits)
      next
        case b: (Inr L')
        with append_all_length [of be ?rest L s1 l L' s2 l2] q False have "length (sl_lines L') = length (fs_copy st)" by simp
        with assms False Inr p a q b show ?thesis
          by (auto simp: import_copy_def dest!: opened_error [rotated])
      qed
    qed
  qed
qed


lemma encode_record_inject: "encode_record q = encode_record r \<Longrightarrow> q = r"
  by (metis decode_encode_record sum.inject(2))

lemma foldM_ids:
  "foldM_r (admit_entry be s) L es = Inr M \<Longrightarrow> map ll_id (sl_lines M) = map ll_id (sl_lines L) @ map (to_hex \<circ> snd) es"
proof (induction es arbitrary: L)
  case (Cons e es)
  then obtain K where "admit_entry be s L e = Inr K" "foldM_r (admit_entry be s) K es = Inr M" by (auto simp: res_simps)
  with Cons.IH [of K] admit_entry_lines [of be s L e K] show ?case by auto
qed simp

lemma replayed_ids: "replayed be s vs = Inr L \<Longrightarrow> map ll_id (sl_lines L) = map to_hex vs"
  unfolding replayed_def by (drule foldM_ids) (simp add: new_ledger_def flip: map_map)

lemma zip_agree:
  "length ys \<le> length xs \<Longrightarrow> \<forall>p \<in> set (zip xs ys). f (fst p) = g (snd p) \<Longrightarrow> map g ys = map f (take (length ys) xs)"
  by (induction ys arbitrary: xs) (auto simp: Suc_le_length_iff)

lemma check_resumed_Inr:
  assumes "keepable (sb_ax be) r"
  shows "check_resumed be s ((n, r), ln) = Inr u \<longleftrightarrow> ll_id ln = ar_capsule_id r \<and> sb_get be (ar_capsule_id r) s = Inr r"
  using assms encode_record_inject
  by (auto simp: check_resumed_def keepable_def split: sum.splits)

lemma mapM_r_unit: "(\<exists>ys. mapM_r f xs = Inr ys) \<longleftrightarrow> (\<forall>x \<in> set xs. f x = Inr ())"
proof (induction xs)
  case (Cons x xs)
  then show ?case by (cases "f x") (auto simp: res_simps)
qed simp

context store_ledger
begin

lemma put_all_keeps:
  assumes "held s" "put_all be rest s = (Inr (), s1)" "list_all (\<lambda>(n, r). keepable ax r \<and> r \<in> R) rest"
  shows "held s1 \<and> (\<forall>i q. get i s = Inr q \<longrightarrow> get i s1 = Inr q) \<and> list_all (\<lambda>(n, r). get (ar_capsule_id r) s1 = Inr r) rest"
  using assms
proof (induction rest arbitrary: s)
  case (Cons x rest)
  obtain n r where x: "x = (n, r)" by fastforce
  with Cons.prems(2) fields obtain s2 where p: "put r s = Inr s2" "put_all be rest s2 = (Inr (), s1)"
    by (auto split: sum.splits)
  have r: "prepare ax r = Inr r" "r \<in> R" using Cons.prems(3) x by (auto simp: keepable_def)
  have "held s2 \<and> (\<forall>i q. get i s = Inr q \<longrightarrow> get i s2 = Inr q)"
    by (rule put_held [OF Cons.prems(1) p(1)]) (use r in simp)
  moreover have "get (ar_capsule_id r) s2 = Inr r" using put_get [OF Cons.prems(1) p(1) r] by blast
  ultimately show ?case using Cons.IH [of s2] p(2) Cons.prems(3) by (auto simp: x)
qed simp

lemma append_all_keeps:
  assumes "held s" "append_all be rest L s l = (Inr L', s', l')" "list_all (\<lambda>(n, r). keepable ax r \<and> r \<in> R) rest"
  shows "held s' \<and> (\<forall>i q. get i s = Inr q \<longrightarrow> get i s' = Inr q) \<and>
    (\<exists>vs. entries l' = entries l @ vs \<and> map to_hex vs = map (\<lambda>(n, r). ar_capsule_id r) rest)"
  using assms
proof (induction rest arbitrary: L s l)
  case (Cons x rest)
  obtain n r where x: "x = (n, r)" by fastforce
  with Cons.prems(2) obtain d M s1 l1 where m: "commit_line be (ar_capsule_id r) r d (is_padding d) L s l = (Inr M, s1, l1)"
      "append_all be rest M s1 l1 = (Inr L', s', l')"
    by (auto split: option.splits json.splits sum.splits prod.splits)
  from m(1) fields obtain v seq where v: "put r s = Inr s1" "from_hex (ar_capsule_id r) = Some v"
      "append v l = (Inr (True, seq), l1)"
    by (auto simp: commit_line_def split: sum.splits option.splits prod.splits if_splits)
  have r: "keepable ax r" "r \<in> R" using Cons.prems(3) x by auto
  then have "list_all is_hex (ar_capsule_id r)"
    by (auto simp: keepable_def verify_record_def res_simps valid_id_def hex_string_def)
  from hex_of_octets [OF v(2) this] have hex: "to_hex v = ar_capsule_id r" .
  have "held s1 \<and> (\<forall>i q. get i s = Inr q \<longrightarrow> get i s1 = Inr q)"
    by (rule put_held [OF Cons.prems(1) v(1)]) (use r in \<open>simp add: keepable_def\<close>)
  with Cons.IH [of s1 M l1] m(2) Cons.prems(3) x obtain vs where
      "held s'" "\<forall>i q. get i s = Inr q \<longrightarrow> get i s' = Inr q" "entries l' = entries l1 @ vs"
      "map to_hex vs = map (\<lambda>(n, r). ar_capsule_id r) rest"
    by auto
  with append_new [OF v(3)] hex x show ?case by (auto intro: exI [of _ "v # vs"])
qed simp

text \<open>A run that returns left every record of the flat ledger in the two stores, in order, and a second run has nothing to do.\<close>

lemma import_copies:
  assumes ok: "list_all (\<lambda>(n, r). keepable ax r \<and> r \<in> R) (fs_copy st)" and held: "held s"
    and start: "open_stores be s l = Some (Inr L)" and run: "import_copy be st L s l = Some (Inr (M, rep), s', l')"
  shows "map to_hex (entries l') = map (\<lambda>(n, r). ar_capsule_id r) (fs_copy st)" "prefix (entries l) (entries l')"
    "list_all (\<lambda>(n, r). get (ar_capsule_id r) s' = Inr r) (fs_copy st)"
    "rep = \<lparr>ir_records = length (fs_copy st), ir_resumed = length (entries l), ir_skipped = fs_skipped st, ir_head = sl_head M\<rparr>"
    "open_stores be s' l' = Some (Inr M)"
    "import_copy be st M s' l' = Some (Inr (M, rep\<lparr>ir_resumed := length (fs_copy st)\<rparr>), s', l')"
proof -
  define n where "n = length (sl_lines L)"
  have L: "replayed be s (entries l) = Inr L" using start open_replayed by simp
  note old = replayed_ids [OF L] replayed_length [OF L]
  from run have n: "n \<le> length (fs_copy st)" by (simp add: import_copy_def n_def split: if_splits)
  from run obtain y where y: "mapM_r (check_resumed be s) (zip (fs_copy st) (sl_lines L)) = Inr y"
    by (auto simp: import_copy_def split: if_splits sum.splits)
  from run y n obtain s1 where s1: "put_all be (drop n (fs_copy st)) s = (Inr (), s1)"
    by (auto simp: import_copy_def Let_def n_def split: if_splits sum.splits prod.splits)
  from run y n s1 obtain L' where L': "append_all be (drop n (fs_copy st)) L s1 l = (Inr L', s', l')"
    by (auto simp: import_copy_def Let_def n_def split: if_splits sum.splits prod.splits)
  with run y n s1 have M: "open_stores be s' l' = Some (Inr M)" and rep:
    "rep = \<lparr>ir_records = length (sl_lines M), ir_resumed = n, ir_skipped = fs_skipped st, ir_head = sl_head M\<rparr>"
    by (auto simp: import_copy_def Let_def n_def opened_Inr res_simps split: if_splits sum.splits prod.splits)
  have rest: "list_all (\<lambda>(n, r). keepable ax r \<and> r \<in> R) (drop n (fs_copy st))"
    using ok by (auto simp: list_all_iff dest: in_set_dropD)
  note p = put_all_keeps [OF held s1 rest]
  from append_all_keeps [OF _ L' rest] p obtain vs where a: "\<forall>i q. get i s1 = Inr q \<longrightarrow> get i s' = Inr q"
      "entries l' = entries l @ vs" "map to_hex vs = map (\<lambda>(n, r). ar_capsule_id r) (drop n (fs_copy st))"
    by blast
  have pairs: "ll_id ln = ar_capsule_id r \<and> get (ar_capsule_id r) s = Inr r" if "((k, r), ln) \<in> set (zip (fs_copy st) (sl_lines L))" for k r ln
  proof -
    have "keepable (sb_ax be) r" using that ok fields by (auto simp: list_all_iff dest: set_zip_leftD)
    moreover have "check_resumed be s ((k, r), ln) = Inr ()" using mapM_r_unit [of "check_resumed be s"] y that by blast
    ultimately show ?thesis using check_resumed_Inr fields by metis
  qed
  have "map ll_id (sl_lines L) = map (\<lambda>(n, r). ar_capsule_id r) (take (length (sl_lines L)) (fs_copy st))"
    by (rule zip_agree) (use n pairs in \<open>auto simp: n_def\<close>)
  with a old show ids: "map to_hex (entries l') = map (\<lambda>(n, r). ar_capsule_id r) (fs_copy st)"
    by (simp add: n_def) (metis append_take_drop_id map_append)
  show "prefix (entries l) (entries l')" using a(2) by simp
  have "get (ar_capsule_id r) s = Inr r" if "(k, r) \<in> set (take n (fs_copy st))" for k r
  proof -
    have "take n (fs_copy st) = map fst (zip (fs_copy st) (sl_lines L))" using n by (simp add: map_fst_zip_take n_def)
    with that obtain ln where "((k, r), ln) \<in> set (zip (fs_copy st) (sl_lines L))" by force
    with pairs show ?thesis by blast
  qed
  moreover have "set (fs_copy st) = set (take n (fs_copy st)) \<union> set (drop n (fs_copy st))"
    by (metis append_take_drop_id set_append)
  ultimately show gets: "list_all (\<lambda>(n, r). get (ar_capsule_id r) s' = Inr r) (fs_copy st)"
    using p a(1) by (auto simp: list_all_iff)
  have rM: "replayed be s' (entries l') = Inr M" using M open_replayed by simp
  have len: "length (sl_lines M) = length (fs_copy st)"
    using replayed_ids [OF rM] ids by (metis length_map)
  show "rep = \<lparr>ir_records = length (fs_copy st), ir_resumed = length (entries l), ir_skipped = fs_skipped st, ir_head = sl_head M\<rparr>"
    using rep len old(2) by (simp add: n_def)
  show "open_stores be s' l' = Some (Inr M)" by (rule M)
  have "check_resumed be s' x = Inr ()" if "x \<in> set (zip (fs_copy st) (sl_lines M))" for x
  proof -
    obtain k where "k < length (zip (fs_copy st) (sl_lines M))" "zip (fs_copy st) (sl_lines M) ! k = x"
      using \<open>x \<in> set (zip (fs_copy st) (sl_lines M))\<close> unfolding in_set_conv_nth by blast
    with len have k: "k < length (fs_copy st)" "x = (fs_copy st ! k, sl_lines M ! k)" by simp_all
    obtain m r where r: "fs_copy st ! k = (m, r)" by fastforce
    have "ll_id (sl_lines M ! k) = map ll_id (sl_lines M) ! k" using k(1) len by simp
    also have "\<dots> = ar_capsule_id r" using k(1) r unfolding replayed_ids [OF rM] ids by simp
    finally have "ll_id (sl_lines M ! k) = ar_capsule_id r" .
    moreover have "(m, r) \<in> set (fs_copy st)" using k(1) r by (metis nth_mem)
    ultimately show ?thesis
      using check_resumed_Inr [of be r s' m "sl_lines M ! k" "()"] ok gets fields k(2) r by (auto simp: list_all_iff)
  qed
  then have "\<exists>z. mapM_r (check_resumed be s') (zip (fs_copy st) (sl_lines M)) = Inr z" unfolding mapM_r_unit by blast
  then show "import_copy be st M s' l' = Some (Inr (M, rep\<lparr>ir_resumed := length (fs_copy st)\<rparr>), s', l')"
    using len rep opened_Inr [THEN iffD2, OF M] by (auto simp: import_copy_def)
qed

end


section \<open>Properties\<close>

lemma flat_rules_file [simp]:
  "flat_rules (file_stores ax trusted scan app page cose parse indexer linear require) =
    file_stores ax trusted scan app page cose parse indexer False False"
  by (simp add: flat_rules_def file_stores_def)

text \<open>C16: An import that returns copied the whole flat ledger.  Every JSON line of the file is a record or one of the two
  kinds of lines that are no records, and the report counts the records and the lines left out (those kinds, and repeated
  records).  The log names exactly the records of the file, each once, in the order of their first lines; the entries that
  it had are still its first ones; and the artifact store gives for each of them the record that a new reader of the flat
  ledger gets.  Running the import again changes nothing and reports every record as resumed.  The stores are a file store
  and a list log.\<close>

theorem import_copies_the_ledger:
  assumes "lv_ax env = plain_ax ax" "js_inv (plain_ax ax) wide s"
    "\<forall>i r. js_content (plain_ax ax) s i = Some r \<longrightarrow> r \<in> apart (plain_ax ax) R"
    "\<forall>i r. fst (get_record (env\<lparr>lv_trusted := None\<rparr>) i f new_index) = Inr r \<longrightarrow> r \<in> apart (plain_ax ax) R"
    "be = file_stores (plain_ax ax) trusted list_scan list_append 1000 cose parse counterparty_citation_keys linear require"
    "import_flat env ife be f s l = Some (Inr (M, rep), s', l')"
  shows "\<exists>objs. read_flat_entries (plain_ax ax) (file_octets f) = Inr objs \<and> list_all takeable objs \<and>
    ir_records rep = length l' \<and> ir_records rep + sum_list (map snd (ir_skipped rep)) = length objs \<and>
    map to_hex l' = firsts (record_ids objs) \<and> prefix l l' \<and>
    (\<forall>i \<in> set (record_ids objs). \<exists>r. js_get (plain_ax ax) trusted i s' = Inr r \<and>
       fst (get_record (env\<lparr>lv_trusted := None\<rparr>) i f new_index) = Inr r \<and> ar_capsule_id r = i) \<and>
    import_flat env ife be f s' l' = Some (Inr (M, rep\<lparr>ir_resumed := ir_records rep\<rparr>), s', l')"
proof -
  let ?be = "file_stores (plain_ax ax) trusted list_scan list_append 1000 cose parse counterparty_citation_keys False False"
  obtain st where st: "scan_flat env ife f = Inr st" using assms(6) by (auto simp: import_flat_def split: sum.splits)
  obtain objs where objs: "read_flat_entries (plain_ax ax) (file_octets f) = Inr objs" "scanned (plain_ax ax) st"
      "length (fs_copy st) + sum_list (map snd (fs_skipped st)) = length objs" "list_all takeable objs"
      "map (\<lambda>(n, r). ar_capsule_id r) (fs_copy st) = firsts (record_ids objs)"
      "\<forall>(n, r) \<in> set (fs_copy st). served env f (ar_capsule_id r) = Inr r"
    by (rule scan_flat_takes [OF st, unfolded assms(1)])
  have ok: "list_all (\<lambda>(n, r). keepable (plain_ax ax) r \<and> r \<in> apart (plain_ax ax) R) (fs_copy st)"
    using objs(2,6) assms(4) by (auto simp: scanned_def list_all_iff served_def)
  have held: "file_ledger.held ax wide R s" using assms(2,3) by (simp add: file_ledger.held_def)
  from st assms(5,6) obtain L where L: "open_stores ?be s l = Some (Inr L)" "import_copy ?be st L s l = Some (Inr (M, rep), s', l')"
    by (auto simp: import_flat_def opened_Inr split: option.splits sum.splits)
  note out = file_ledger.import_copies [OF ok held L]
  have again: "import_flat env ife be f s' l' = Some (Inr (M, rep\<lparr>ir_resumed := length (fs_copy st)\<rparr>), s', l')"
    using st assms(5) out(5,6) by (simp add: import_flat_def opened_def)
  have copied: "\<exists>r. js_get (plain_ax ax) trusted i s' = Inr r \<and>
      fst (get_record (env\<lparr>lv_trusted := None\<rparr>) i f new_index) = Inr r \<and> ar_capsule_id r = i"
    if "i \<in> set (record_ids objs)" for i
  proof -
    have "i \<in> set (map (\<lambda>(n, r). ar_capsule_id r) (fs_copy st))" using that by (simp only: objs(5) set_firsts)
    then obtain n r where r: "(n, r) \<in> set (fs_copy st)" "ar_capsule_id r = i" by auto
    with out(3) objs(6) show ?thesis by (auto simp: list_all_iff served_def)
  qed
  have "length l' = length (fs_copy st)" using out(1) by (metis length_map)
  with objs out(1,2,4) again copied show ?thesis by (intro exI [of _ objs]) simp
qed

text \<open>C17: A refusal writes nothing.  When the import refuses (a line no store record can keep, an entry of the log that is
  not the record of its line, too many entries), or the flat ledger does not exist, both stores are as they were; when
  the artifact store refuses a record, the log is.  For any stores.\<close>

theorem refused_import_writes_nothing:
  assumes "import_flat env ife be f s l = Some (Inl e, s', l')"
  shows "(case e of FlatNotFound \<Rightarrow> s' = s \<and> l' = l | ImportRefusedError _ \<Rightarrow> s' = s \<and> l' = l
    | ImportStoreError _ _ _ \<Rightarrow> l' = l | _ \<Rightarrow> True)"
proof (cases "scan_flat env ife f")
  case (Inl x)
  with assms show ?thesis by (auto simp: import_flat_def split: import_exn.splits)
next
  case (Inr st)
  with assms show ?thesis
    by (auto simp: import_flat_def opened_Inl split: option.splits sum.splits dest: import_copy_error)
qed


section \<open>A flat ledger of one record\<close>

lemma universal_plain: "CHR 0x0D \<notin> set s \<Longrightarrow> universal_newlines s = s"
  by (induction s rule: universal_newlines.induct) auto

lemma to_hex_ascii: "list_all (\<lambda>c. byte c < 127) (to_hex b)" "ascii_lower (to_hex b) = to_hex b"
proof -
  have digit: "byte (hex_digit n) < 127 \<and> \<not> is_upper (hex_digit n)" if "n < 16" for n
    using that by (cases "n < 10") (simp_all add: hex_digit_def is_upper_def)
  have "byte c div 16 < 16" for c :: char by (simp add: less_mult_imp_div_less)
  then have all: "list_all (\<lambda>c. byte c < 127 \<and> \<not> is_upper c) (to_hex b)"
    using digit by (induction b) (simp_all add: to_hex_def)
  then show "list_all (\<lambda>c. byte c < 127) (to_hex b)" by (auto simp: list_all_iff)
  from all show "ascii_lower (to_hex b) = to_hex b"
    unfolding ascii_lower_def by (intro map_idI) (auto simp: list_all_iff)
qed

lemma read_one_line:
  assumes "line_form d = json_dumps (JObj d)" "list_all (\<lambda>c. byte c < 128) (line_form d)"
    "json_plain (je_max_digits (ax_json ax)) (JObj d)"
  shows "read_flat_entries ax (line_form d @ [newline]) = Inr [JObj d]"
proof -
  have "printable (line_form d)"
    unfolding line_form_def by (rule ascii_dumps_printable [OF assms(3)])
  then have "CHR 0x0D \<notin> set (line_form d @ [newline])" by (auto simp: list_all_iff)
  moreover have "utf8_ok (line_form d @ [newline])"
    by (rule utf8_ok_ascii) (use assms(2) in \<open>simp add: list_all_append\<close>)
  moreover have "split_lines (line_form d @ [newline]) = ([line_form d], [])"
    by (simp add: split_lines_line line_form_ok(1) [OF assms(3)])
  moreover have "json_loads ((ax_json ax)\<lparr>je_strict := False\<rparr>) (line_form d) = Some (JObj d)"
    unfolding assms(1) by (rule json_loads_dumps) (use assms(3) in simp)
  moreover have "line_form d \<noteq> []" by (simp add: line_form_def)
  moreover have "py_strip [] = []" by (simp add: py_strip_def)
  ultimately show ?thesis
    by (simp add: read_flat_entries_def universal_plain map_filter_simps strip_line_form [OF assms(2)])
qed

definition flat_stores :: "(jsonl_store, octets list) stores" where
  "flat_stores = file_stores act_ax demo_trusted list_scan list_append 1000 (\<lambda>_ st. Some (Some st)) (\<lambda>_. None)
     counterparty_citation_keys True True"

theorem refused_import_writes_nothing_witness:
  "\<exists>ns s' l'. import_flat flat_env (\<lambda>_ _. False) flat_stores (Some (7, line_form (flat_line ''n'') @ [newline])) js_fresh [] =
     Some (Inl (ImportRefusedError ns), s', l') \<and> s' = js_fresh \<and> l' = []"
proof -
  have "read_flat_entries (lv_ax flat_env) (line_form (flat_line ''n'') @ [newline]) = Inr [JObj (flat_line ''n'')]"
    by (rule read_one_line) (use flat_text [of "''n''"] flat_plain in \<open>simp_all add: flat_env_def del: json_plain.simps json_dumps.simps\<close>)
  then have "scan_flat flat_env (\<lambda>_ _. False) (Some (7, line_form (flat_line ''n'') @ [newline])) = Inl (ImportRefusedError [1])"
    by (simp add: scan_flat_def file_octets_def import_line_def flat_line_def new_scan_def refuse_line_def)
  then obtain s' l' where run: "import_flat flat_env (\<lambda>_ _. False) flat_stores (Some (7, line_form (flat_line ''n'') @ [newline])) js_fresh [] =
     Some (Inl (ImportRefusedError [1]), s', l')" by (simp add: import_flat_def)
  from refused_import_writes_nothing [OF run] run show ?thesis by auto
qed

definition copy_env :: legacy_env where
  "copy_env = flat_env\<lparr>lv_ax := act_ax, lv_emit := bare_emit\<lparr>em_sha256 := (\<lambda>_. act_id)\<rparr>\<rparr>"

definition copy_file :: flat_file where
  "copy_file = Some (7, line_form act_line @ [newline])"

definition copied :: art_record where
  "copied = \<lparr>ar_capsule_id = act_id, ar_capsule = json_dumps (JObj act_body), ar_envelope = ''e'', ar_artifacts = []\<rparr>"

lemma copy_ascii: "list_all (\<lambda>c. byte c < 127) act_id" "list_all (\<lambda>c. byte c < 127) (to_hex ''e'')"
  "list_all (\<lambda>c. byte c < 127) (to_hex act_key)"
  by (simp_all add: act_id_def demo_id_def list_all_replicate to_hex_ascii)

lemma copy_text: "line_form act_line = json_dumps (JObj act_line)" "line_form act_body = json_dumps (JObj act_body)"
    "list_all (\<lambda>c. byte c < 128) (line_form act_line)"
proof -
  show line: "line_form act_line = json_dumps (JObj act_line)" "line_form act_body = json_dumps (JObj act_body)"
    using copy_ascii by (simp_all add: line_form_def act_line_def act_body_def bare_fields_def ascii_quote_plain)
  have "list_all (\<lambda>c. byte c < 128) (quote s)" if "list_all (\<lambda>c. byte c < 127) s" for s
  proof -
    have "list_all (\<lambda>c. byte c < 128) (esc_char c)" if "byte c < 127" for c using that by (intro esc_char_ascii) simp
    with that show ?thesis by (induction s) (auto simp: quote_def)
  qed
  then show "list_all (\<lambda>c. byte c < 128) (line_form act_line)"
    unfolding line using copy_ascii by (simp add: act_line_def act_body_def bare_fields_def)
qed

lemma copy_plain: "json_plain k (JObj act_line)" "json_utf8 (JObj act_line)" "json_depth (JObj act_line) \<le> MAX_JSON_DEPTH"
proof -
  have "utf8_ok (to_hex b)" for b
    by (rule utf8_ok_ascii, rule list.pred_mono_strong [OF to_hex_ascii(1)]) simp
  moreover have "utf8_ok ''signature''" "utf8_ok ''key_id''" by (rule utf8_ok_ascii, simp)+
  ultimately show "json_plain k (JObj act_line)" "json_utf8 (JObj act_line)" "json_depth (JObj act_line) \<le> MAX_JSON_DEPTH"
    using act_utf8 act_id_ok by (simp_all add: act_line_def act_body_def bare_fields_def MAX_JSON_DEPTH_def)
qed


lemma copy_value: "\<exists>v. from_hex act_id = Some v \<and> length v = 32 \<and> to_hex v = act_id"
proof -
  have "from_hex act_id = Some (replicate 32 CHR 0xAA)" using flat_hex by (simp add: act_id_def demo_id_def)
  moreover have "to_hex (replicate 32 CHR 0xAA) = act_id"
    using hex_of_octets [OF calculation] act_id_ok(1) by (simp add: valid_id_def hex_string_def)
  ultimately show ?thesis by simp
qed

lemma copy_env_simps: "lv_ax copy_env = act_ax" "lv_trusted copy_env = None" "lv_verify copy_env d"
    "je_max_digits (ax_json act_ax) = 4300"
  using act_env by (simp_all add: copy_env_def flat_env_def)

lemma copy_verifies: "verify_legacy copy_env act_id act_body (Some ''e'') = Inr (Some (to_hex act_key))"
proof -
  have "compute_capsule_id (lv_emit copy_env) act_body = Inr act_id"
    by (simp add: compute_capsule_id_def canonical_capsule_bytes_def resolve_canonicalization_id_def act_body_def bare_fields_def
        copy_env_def)
  moreover have "dget act_body ''capsule_id'' = JStr act_id" "dget act_body ''record_type'' = JNull"
    by (simp_all add: act_body_def bare_fields_def)
  ultimately show ?thesis
    using act_env by (simp add: verify_legacy_def copy_env_simps)
qed

lemma copy_checked: "checked_record copy_env act_id act_line = Inr copied"
proof -
  have "dhas act_line ''signature''" by (simp add: act_line_def act_body_def bare_fields_def)
  then show ?thesis
    using copy_verifies
    by (simp add: checked_record_def act_line_get from_to_hex act_body_of to_hex_ascii copied_def copy_text)
qed

lemma copy_env_trusted: "copy_env\<lparr>lv_trusted := None\<rparr> = copy_env"
  by (simp add: copy_env_def flat_env_def)

lemma copy_parsed:
  obtains v ln where "from_hex act_id = Some v" "to_hex v = act_id" "le_value ln = v" "le_capsule ln" "le_offset ln = 0"
    "le_length ln = length (line_form act_line)"
    "refresh copy_env copy_file new_index = (Inr (), indexed [ln] (length (line_form act_line) + 1) None (Some 7))"
proof -
  obtain v where v: "from_hex act_id = Some v" "length v = 32" "to_hex v = act_id" using copy_value by blast
  define ln where "ln = \<lparr>le_seq = 1, le_value = v, le_at = 0, le_offset = 0, le_length = length (line_form act_line), le_capsule = True\<rparr>"
  have "list_all (\<lambda>c. byte c < 128) act_id"
    by (rule list.pred_mono_strong [OF copy_ascii(1)]) simp
  then have "hex32 (dget act_line ''capsule_id'') = v"
    using v act_id_ok(1) by (simp add: act_line_get hex32_def code_points_ascii valid_id_def hex_string_def)
  moreover have "is_record_line act_line" "line_time copy_env act_line = None"
    by (simp_all add: is_record_line_def line_time_def act_line_def act_body_def bare_fields_def NON_CAPSULE_KINDS_def member_at_def)
  ultimately have "parse_line copy_env (line_form act_line) 0 1 0 = Inr (Some ln)"
    using parse_ascii_line [of act_line copy_env v 0 1 0] copy_text copy_plain(1) v(2)
    by (simp add: ln_def copy_env_simps del: json_dumps.simps json_plain.simps)
  moreover have ok: "line_ok (line_form act_line)" by (rule line_form_ok(1) [OF copy_plain(1)])
  ultimately have "parse_file copy_env (line_form act_line @ [newline]) = Inr ([ln], None)"
    by (simp add: parse_file_def split_lines_line)
  then have "refresh copy_env copy_file new_index = (Inr (), indexed [ln] (length (line_form act_line) + 1) None (Some 7))"
    using ok by (simp add: copy_file_def refresh_new split_lines_line)
  with v show thesis by (intro that [of v ln]) (simp_all add: ln_def)
qed

lemma copy_get: "\<exists>ix. get_record copy_env act_id copy_file new_index = (Inr copied, ix)"
    "fst (get_record copy_env i copy_file new_index) = Inr r \<Longrightarrow> r = copied"
proof -
  obtain v ln where v: "from_hex act_id = Some v" "to_hex v = act_id"
    and ln: "le_value ln = v" "le_capsule ln" "le_offset ln = 0" "le_length ln = length (line_form act_line)"
    and parsed: "refresh copy_env copy_file new_index = (Inr (), indexed [ln] (length (line_form act_line) + 1) None (Some 7))"
    by (rule copy_parsed)
  have find: "find_line (indexed [ln] m None identity) u = (if u = v then Some ln else None)" for m identity u
    by (simp add: find_line_indexed ln)
  have raw: "read_raw copy_file ln = line_form act_line"
    using line_form_ok(2) [OF copy_plain(1)] by (simp add: read_raw_def copy_file_def file_octets_def ln)
  have dec: "decode_strict_json (ax_json act_ax) (line_form act_line) = Some (JObj act_line)"
    unfolding copy_text(1) by (rule decode_dumps [OF copy_plain])
  show "\<exists>ix. get_record copy_env act_id copy_file new_index = (Inr copied, ix)"
    using find raw dec act_id_ok(1) v parsed ln(1,2) copy_checked by (simp add: get_record_def copy_env_simps)
  assume "fst (get_record copy_env i copy_file new_index) = Inr r"
  then show "r = copied"
    using find raw dec v parsed ln(1,2) copy_checked
    by (auto simp: get_record_def copy_env_simps Option.bind_eq_Some_conv split: if_splits option.splits)
qed

lemma copied_ok: "prepare act_ax copied = Inr copied" "verify_record act_ax [act_key] copied = Inr []" "signer_key act_ax copied = act_key"
proof -
  have "length (json_dumps (JObj act_body)) \<le> 400"
    by (simp add: act_body_def bare_fields_def act_id_def demo_id_def quote_def esc_char_def)
  then show "prepare act_ax copied = Inr copied"
    by (simp add: prepare_def copied_def MAX_ARTIFACTS_def MAX_ENVELOPE_def MAX_TOTAL_def del: json_dumps.simps)
  have "verified_capsule act_ax copied = Inr act_body"
    using act_decode act_members
    by (simp add: verified_capsule_def decode_capsule_def decode_json_def PADDING_RECORD_TYPE_def copied_def)
       (simp add: act_body_def act_ax_def plain_ax_def pair_ax_def act_id_def)
  moreover have "length act_key = 32" by (simp add: act_key_def)
  ultimately show "verify_record act_ax [act_key] copied = Inr []"
    using act_id_ok act_env by (simp add: verify_record_def copied_def)
  show "signer_key act_ax copied = act_key" using act_env by (simp add: signer_key_def copied_def)
qed

lemma copy_scan: "scan_flat copy_env (\<lambda>_ _. False) copy_file =
    Inr \<lparr>fs_copy = [(1, copied)], fs_skipped = [], fs_refused = [], fs_seen = [(act_id, act_line)]\<rparr>"
proof -
  obtain ix where "get_record copy_env act_id copy_file new_index = (Inr copied, ix)" using copy_get(1) by blast
  then have "importable copy_env act_id copy_file new_index = (Inr copied, ix)"
    using copied_ok by (simp add: importable_def copy_env_trusted copy_env_simps art_def) (simp add: copied_def)
  moreover have "dget act_line ''kind'' = JNull" by (simp add: act_line_def act_body_def bare_fields_def)
  ultimately have "import_line copy_env (\<lambda>_ _. False) copy_file (new_scan, new_index) (1, JObj act_line) =
      Inr (\<lparr>fs_copy = [(1, copied)], fs_skipped = [], fs_refused = [], fs_seen = [(act_id, act_line)]\<rparr>, ix)"
    by (simp add: import_line_def act_line_get) (simp add: new_scan_def)
  moreover have "file_octets copy_file = line_form act_line @ [newline]" "copy_file \<noteq> None"
    by (simp_all add: copy_file_def file_octets_def)
  ultimately show ?thesis
    using read_one_line [OF copy_text(1,3) copy_plain(1), of act_ax] by (simp add: scan_flat_def copy_env_simps)
qed


lemma copy_octets: "file_octets copy_file = line_form act_line @ [newline]"
  by (simp add: copy_file_def file_octets_def)

lemma copied_admit: "admit act_ax demo_trusted copied = Inr copied"
  using copied_ok(1,2) by (simp add: admit_def demo_trusted_def act_key_def)

text \<open>The store takes the record, and takes it again.\<close>

lemma copied_put:
  obtains s1 s2 where "js_put act_ax demo_trusted copied js_fresh = Inr s1" "js_put act_ax demo_trusted copied s1 = Inr s2"
proof -
  have sim: "js_sim act_ax (\<lambda>_. None) demo_trusted js_fresh mem_empty" by (rule js_fresh_sim)
  have utf8: "utf8_ok (encode_record copied)"
    using admitted_utf8 [OF _ act_sha] admit_admitted [OF copied_admit] by blast
  have v: "verify_record act_ax demo_trusted copied = Inr []" using copied_ok(2) by (simp add: demo_trusted_def act_key_def)
  obtain m1 where m: "mem_put act_ax demo_trusted copied mem_empty = Inr m1" "ms_records m1 (ar_capsule_id copied) = Some copied"
    using copied_ok(1) v by (auto simp: mem_put_def mem_empty_def add_index_def empty_index_def)
  then obtain s1 where s1: "js_put act_ax demo_trusted copied js_fresh = Inr s1" "js_sim act_ax (\<lambda>_. None) demo_trusted s1 m1"
    using sim_put [OF sim act_sha, of copied] by (auto simp: call_sim_def split: sum.splits)
  have "\<not> has_purged copied" by (simp add: has_purged_def copied_def)
  then have "mem_put act_ax demo_trusted copied m1 = Inr m1"
    using copied_ok(1) v m(2) by (simp add: mem_put_def)
  then obtain s2 where "js_put act_ax demo_trusted copied s1 = Inr s2"
    using sim_put [OF s1(2) act_sha, of copied] by (auto simp: call_sim_def split: sum.splits)
  with s1(1) that show thesis by blast
qed

lemma copied_apart: "apart act_ax {copied} = {copied}"
  by (simp add: apart_def no_collision_def)

lemma copied_admits:
  assumes "sb_get be act_id s = Inr copied" "sb_ax be = act_ax" "\<not> sb_linear be" "\<not> sb_require be" "to_hex v = act_id"
  shows "\<exists>M. admit_entry be s L (n, v) = Inr M"
proof -
  let ?d = "envelope_line (body_of act_line) ''e'' act_key"
  have "read_record be s act_id = Inr (?d, None, False)"
    using assms(1,2) act_decode act_env by (simp add: read_record_def copied_def act_body_of)
  moreover have "dget ?d ''capsule_id'' = JStr act_id" "\<not> is_padding ?d"
    using act_line_get by (simp_all add: envelope_get ENVELOPE_MEMBERS_def is_padding_def)
  moreover have "recompute act_ax ?d act_id = Inr ()"
    using act_digest by (simp add: recompute_def envelope_record_id)
  ultimately show ?thesis
    using assms(2-5) by (simp add: admit_entry_def admit_line_def)
qed

lemma copy_runs:
  obtains M rep s' l' where "import_flat copy_env (\<lambda>_ _. False) flat_stores copy_file js_fresh [] = Some (Inr (M, rep), s', l')"
proof -
  let ?be = "flat_rules flat_stores"
  obtain s1 s2 where s: "js_put act_ax demo_trusted copied js_fresh = Inr s1" "js_put act_ax demo_trusted copied s1 = Inr s2"
    by (rule copied_put)
  obtain v where v: "from_hex act_id = Some v" "to_hex v = act_id" using copy_value by blast
  obtain ax where ax: "act_ax = plain_ax ax" by (simp add: act_ax_def)
  have be: "?be = file_stores (plain_ax ax) demo_trusted list_scan list_append 1000 (\<lambda>_ st. Some (Some st)) (\<lambda>_. None)
      counterparty_citation_keys False False"
    by (simp add: flat_stores_def ax)
  have fields: "sb_ax ?be = act_ax" "sb_put ?be = js_put act_ax demo_trusted" "sb_get ?be = js_get act_ax demo_trusted"
      "sb_append ?be = list_append" "\<not> sb_linear ?be" "\<not> sb_require ?be"
    by (simp_all add: flat_stores_def flat_rules_def file_stores_def)
  have open0: "open_stores ?be js_fresh [] = Some (Inr new_ledger)"
    by (simp add: open_stores_def replay_from.simps flat_stores_def flat_rules_def file_stores_def list_scan_def)
  have put: "put_all ?be [(1, copied)] js_fresh = (Inr (), s1)" using s(1) by (simp add: fields)
  have fresh: "check_not_stale ?be [] new_ledger = Inr ()"
    by (simp add: check_not_stale_def flat_stores_def flat_rules_def file_stores_def list_scan_def new_ledger_def)
  obtain L where app: "append_all ?be [(1, copied)] new_ledger s1 [] = (Inr L, s2, [v])"
    using s(2) v(1) act_decode fresh
    by (simp add: fields copied_def commit_line_def list_append_def)
  then have len: "length (sl_lines L) = 1" using append_all_length by (fastforce simp: new_ledger_def)
  have held: "file_ledger.held ax (\<lambda>_. None) {copied} js_fresh"
    unfolding file_ledger.held_def using js_fresh_sim [of act_ax "\<lambda>_. None" demo_trusted] copied_apart
    by (simp add: js_sim_def mem_empty_def ax [symmetric])
  have ok: "list_all (\<lambda>(n, r). keepable (plain_ax ax) r \<and> r \<in> apart (plain_ax ax) {copied}) [(1, copied)]"
    using copied_apart copied_ok by (simp add: keepable_def ax [symmetric])
  from file_ledger.put_all_keeps [OF held put [unfolded be] ok]
  have "file_ledger.held ax (\<lambda>_. None) {copied} s1" "js_get act_ax demo_trusted (ar_capsule_id copied) s1 = Inr copied"
    by (simp_all add: ax)
  from file_ledger.append_all_keeps [OF this(1) app [unfolded be] ok] this(2)
  have "js_get act_ax demo_trusted act_id s2 = Inr copied" by (simp add: ax copied_def)
  then obtain M where "admit_entry ?be s2 new_ledger (1, v) = Inr M"
    using copied_admits [of ?be s2 v new_ledger 1] fields v(2) by auto
  then have "open_stores ?be s2 [v] = Some (Inr M)"
    unfolding be file_ledger.open_replayed by (simp add: replayed_def)
  then have open1: "opened ?be s2 [v] = Some (Inr M)" by (simp only: opened_Inr)
  have "opened ?be js_fresh [] = Some (Inr new_ledger)" using open0 by (simp only: opened_Inr)
  moreover have "sl_lines new_ledger = []" by (simp add: new_ledger_def)
  ultimately show thesis
    using that open1 put app len
    by (simp add: import_flat_def copy_scan import_copy_def del: One_nat_def put_all.simps append_all.simps)
qed

theorem import_copies_the_ledger_witness:
  "\<exists>M rep s' l'. import_flat copy_env (\<lambda>_ _. False) flat_stores copy_file js_fresh [] = Some (Inr (M, rep), s', l') \<and>
     map to_hex l' = [act_id] \<and> js_get act_ax demo_trusted act_id s' = Inr copied \<and>
     import_flat copy_env (\<lambda>_ _. False) flat_stores copy_file s' l' = Some (Inr (M, rep\<lparr>ir_resumed := ir_records rep\<rparr>), s', l')"
proof -
  obtain M rep s' l' where run: "import_flat copy_env (\<lambda>_ _. False) flat_stores copy_file js_fresh [] = Some (Inr (M, rep), s', l')"
    by (rule copy_runs)
  obtain ax where ax: "act_ax = plain_ax ax" by (simp add: act_ax_def)
  have start: "js_inv (plain_ax ax) (\<lambda>_. None) js_fresh"
      "\<forall>i r. js_content (plain_ax ax) js_fresh i = Some r \<longrightarrow> r \<in> apart (plain_ax ax) {copied}"
    using js_fresh_sim [of act_ax "\<lambda>_. None" demo_trusted] by (simp_all add: js_sim_def mem_empty_def ax)
  have "\<forall>i r. fst (get_record (copy_env\<lparr>lv_trusted := None\<rparr>) i copy_file new_index) = Inr r \<longrightarrow> r \<in> apart (plain_ax ax) {copied}"
    using copy_get(2) copied_apart by (auto simp: copy_env_trusted ax [symmetric])
  from import_copies_the_ledger [OF _ start this _ run, of demo_trusted "\<lambda>_ st. Some (Some st)" "\<lambda>_. None" True True]
  have "map to_hex l' = firsts (record_ids [JObj act_line]) \<and> (\<forall>i \<in> set (record_ids [JObj act_line]). \<exists>r.
      js_get act_ax demo_trusted i s' = Inr r \<and> fst (get_record copy_env i copy_file new_index) = Inr r) \<and>
      import_flat copy_env (\<lambda>_ _. False) flat_stores copy_file s' l' = Some (Inr (M, rep\<lparr>ir_resumed := ir_records rep\<rparr>), s', l')"
    using read_one_line [OF copy_text(1,3) copy_plain(1), of act_ax]
    by (force simp: copy_env_simps copy_env_trusted copy_octets ax [symmetric] flat_stores_def)
  moreover have "record_ids [JObj act_line] = [act_id]"
    by (simp add: record_ids_def act_line_get) (simp add: act_line_def act_body_def bare_fields_def)
  ultimately show ?thesis using run copy_get(2) by (auto simp: firsts_def)
qed

end
