(* ===== verification/Legacy_Round_Trip.thy ===== *)
theory Legacy_Round_Trip
  imports Import_Flat
begin

text \<open>
  What the flat ledger writes is what it reads: JSON with ASCII escapes is read back as the value that was written, for
  values without floats whose texts are valid UTF-8, and a record that was put is the record that \<open>get\<close> returns.
\<close>

section \<open>A string with ASCII escapes\<close>

lemma take_hex4_escape:
  assumes "u < 65536"
  shows "take_hex4 (hex_digit (u div 4096 mod 16) # hex_digit (u div 256 mod 16) # hex_digit (u div 16 mod 16) # hex_digit (u mod 16) # r)
    = Some (u, r)"
proof -
  have top: "u div 4096 < 16" using assms by (simp add: less_mult_imp_div_less)
  then have "u div 4096 mod 16 = u div 4096" "hex_val (hex_digit (u div 4096)) = Some (u div 4096)" by (simp_all add: hex_val_digit)
  moreover have "4096 * (u div 4096) + 256 * (u div 256 mod 16) + 16 * (u div 16 mod 16) + u mod 16 = u"
  proof -
    define p q where "p = u div 16" and "q = p div 16"
    have "u = 16 * p + u mod 16" "p = 16 * q + p mod 16" "q = 16 * (q div 16) + q mod 16" by (simp_all add: p_def q_def)
    then have "u = 4096 * (q div 16) + 256 * (q mod 16) + 16 * (p mod 16) + u mod 16" by linarith
    moreover have "q = u div 256" "q div 16 = u div 4096" by (simp_all add: p_def q_def div_mult2_eq [symmetric])
    ultimately show ?thesis by (simp add: p_def)
  qed
  ultimately show ?thesis
    by (simp add: take_hex4_def hex_val_digit)
qed

lemma take_unicode_escape:
  assumes "u < 65536" "\<not> (0xD800 \<le> u \<and> u \<le> 0xDBFF)"
  shows "take_unicode (drop 2 (u_escape u) @ r) = Some (utf8_encode u, r)"
  using take_hex4_escape [OF assms(1)] assms(2) by (auto simp: take_unicode_def u_escape_def)

lemma take_unicode_pair:
  assumes "0x10000 \<le> v" "v < 0x110000"
  shows "take_unicode (drop 2 (u_escape (0xD800 + (v - 0x10000) div 1024)) @ u_escape (0xDC00 + (v - 0x10000) mod 1024) @ r)
    = Some (utf8_encode v, r)"
proof -
  define a b where "a = (v - 0x10000) div 1024" and "b = (v - 0x10000) mod 1024"
  have a: "a < 1024" "b < 1024" using assms by (auto simp: a_def b_def)
  have v: "0x10000 + 1024 * a + b = v" using assms(1) by (simp add: a_def b_def)
  have "take_hex4 (drop 2 (u_escape (0xD800 + a)) @ s) = Some (0xD800 + a, s)" for s
    using take_hex4_escape [of "0xD800 + a" s] a by (simp add: u_escape_def)
  moreover have "take_hex4 (drop 2 (u_escape (0xDC00 + b)) @ s) = Some (0xDC00 + b, s)" for s
    using take_hex4_escape [of "0xDC00 + b" s] a by (simp add: u_escape_def)
  moreover have form: "u_escape (0xDC00 + b) @ r = CHR 0x5C # CHR ''u'' # drop 2 (u_escape (0xDC00 + b)) @ r" by (simp add: u_escape_def)
  ultimately show ?thesis
    unfolding a_def [symmetric] b_def [symmetric] using a v by (simp add: take_unicode_def form)
qed

text \<open>A code point of a valid text, by the length of its encoding.\<close>

lemma sextets:
  fixes x y z :: nat
  assumes "y < 64" "z < 64"
  shows "(4096 * x + 64 * y + z) div 4096 = x" "(4096 * x + 64 * y + z) div 64 mod 64 = y" "(4096 * x + 64 * y + z) mod 64 = z"
proof -
  have v: "4096 * x + 64 * y + z = z + (64 * x + y) * 64" by simp
  have hi: "(z + (64 * x + y) * 64) div 64 = 64 * x + y" and lo: "(z + (64 * x + y) * 64) mod 64 = z"
    using assms(2) by (simp_all only: div_mult_self1 mod_mult_self1) simp_all
  have m: "(64 * x + y) div 64 = x" "(64 * x + y) mod 64 = y" using assms(1) by simp_all
  have "(4096 * x + 64 * y + z) div 4096 = (4096 * x + 64 * y + z) div 64 div 64"
    by (simp only: div_mult2_eq [symmetric]) simp
  then show "(4096 * x + 64 * y + z) div 4096 = x" by (simp only: v hi m)
  show "(4096 * x + 64 * y + z) div 64 mod 64 = y" by (simp only: v hi m)
  show "(4096 * x + 64 * y + z) mod 64 = z" by (simp only: v lo)
qed

lemma encode_value:
  assumes "lead c = Some (n, lo, hi)" "length t = n" "n = 0 \<or> lo \<le> byte (hd t) \<and> byte (hd t) < hi" "list_all cont t"
  shows "utf8_encode (cp_value (c # t)) = c # t" "cp_value (c # t) < 0x110000"
    "n \<le> 2 \<Longrightarrow> cp_value (c # t) < 0x10000 \<and> \<not> (0xD800 \<le> cp_value (c # t) \<and> cp_value (c # t) \<le> 0xDBFF)"
    "n = 3 \<Longrightarrow> 0x10000 \<le> cp_value (c # t)"
proof -
  consider (one) "n = 0" "t = []" "byte c < 128"
    | (two) b where "n = 1" "t = [b]" "194 \<le> byte c" "byte c < 224" "cont b"
    | (three) b d where "n = 2" "t = [b, d]" "cont b" "cont d" "224 \<le> byte c" "byte c < 240" "byte c = 224 \<longrightarrow> 160 \<le> byte b"
        "byte c = 237 \<longrightarrow> byte b < 160"
    | (four) b d e where "n = 3" "t = [b, d, e]" "cont b" "cont d" "cont e" "240 \<le> byte c" "byte c < 245" "byte c = 240 \<longrightarrow> 144 \<le> byte b"
        "byte c = 244 \<longrightarrow> byte b < 144"
    using assms by (auto simp: lead_def Let_def length_Suc_conv Suc_length_conv numeral_2_eq_2 numeral_3_eq_3 split: if_splits)
  then have "utf8_encode (cp_value (c # t)) = c # t \<and> cp_value (c # t) < 0x110000 \<and>
    (n \<le> 2 \<longrightarrow> cp_value (c # t) < 0x10000 \<and> \<not> (0xD800 \<le> cp_value (c # t) \<and> cp_value (c # t) \<le> 0xDBFF)) \<and>
    (n = 3 \<longrightarrow> 0x10000 \<le> cp_value (c # t))"
  proof cases
    case one
    then show ?thesis by (simp add: cp_value_def utf8_encode_def)
  next
    case (two b)
    define x y where "x = byte c - 192" and "y = byte b - 128"
    have xy: "byte c = 192 + x" "byte b = 128 + y" "2 \<le> x" "x < 32" "y < 64"
      using two by (auto simp: x_def y_def cont_def)
    have "char_of (192 + x) = c" "char_of (128 + y) = b" using xy(1,2) by (metis char_of_char)+
    with two xy show ?thesis by (simp add: cp_value_def utf8_encode_def)
  next
    case (three b d)
    define x y z where "x = byte c - 224" and "y = byte b - 128" and "z = byte d - 128"
    have xy: "byte c = 224 + x" "byte b = 128 + y" "byte d = 128 + z" "x < 16" "y < 64" "z < 64" "x = 0 \<longrightarrow> 32 \<le> y"
        "x = 13 \<longrightarrow> y < 32"
      using three by (auto simp: x_def y_def z_def cont_def)
    have cs: "char_of (224 + x) = c" "char_of (128 + y) = b" "char_of (128 + z) = d" using xy(1-3) by (metis char_of_char)+
    have v: "cp_value (c # t) = 4096 * x + 64 * y + z" using three xy by (simp add: cp_value_def)
    have "(4096 * x + 64 * y + z) div 4096 = x" "(4096 * x + 64 * y + z) div 64 mod 64 = y" "(4096 * x + 64 * y + z) mod 64 = z"
      using sextets [of y "z" x] xy(5,6) by simp_all
    moreover have "2048 \<le> 4096 * x + 64 * y + z" "4096 * x + 64 * y + z < 65536" using xy(4-8) by (cases "x = 0"; simp)+
    moreover have "\<not> (0xD800 \<le> 4096 * x + 64 * y + z \<and> 4096 * x + 64 * y + z \<le> 0xDBFF)"
    proof
      assume v: "0xD800 \<le> 4096 * x + 64 * y + z \<and> 4096 * x + 64 * y + z \<le> 0xDBFF"
      then have "x < 14" by simp
      moreover have "\<not> x \<le> 12" using v xy(5,6) by linarith
      ultimately have "x = 13" by simp
      with v xy(6,8) show False by simp
    qed
    ultimately show ?thesis using three cs unfolding v by (simp add: utf8_encode_def)
  next
    case (four b d e)
    define x y z w where "x = byte c - 240" and "y = byte b - 128" and "z = byte d - 128" and "w = byte e - 128"
    have xy: "byte c = 240 + x" "byte b = 128 + y" "byte d = 128 + z" "byte e = 128 + w" "x < 5" "y < 64" "z < 64" "w < 64"
        "x = 0 \<longrightarrow> 16 \<le> y" "x = 4 \<longrightarrow> y < 16"
      using four by (auto simp: x_def y_def z_def w_def cont_def)
    have cs: "char_of (240 + x) = c" "char_of (128 + y) = b" "char_of (128 + z) = d" "char_of (128 + w) = e"
      using xy(1-4) by (metis char_of_char)+
    have v: "cp_value (c # t) = 262144 * x + 4096 * y + 64 * z + w" using four xy by (simp add: cp_value_def)
    have "262144 * x + 4096 * y + 64 * z + w = 4096 * (64 * x + y) + 64 * z + w" by simp
    moreover have "(4096 * (64 * x + y) + 64 * z + w) div 262144 = (4096 * (64 * x + y) + 64 * z + w) div 4096 div 64"
      by (simp only: div_mult2_eq [symmetric]) simp
    ultimately have "(262144 * x + 4096 * y + 64 * z + w) div 262144 = x" "(262144 * x + 4096 * y + 64 * z + w) div 4096 mod 64 = y"
        "(262144 * x + 4096 * y + 64 * z + w) div 64 mod 64 = z" "(262144 * x + 4096 * y + 64 * z + w) mod 64 = w"
      using sextets [of z w "64 * x + y"] xy(6-8) by simp_all
    moreover have "65536 \<le> 262144 * x + 4096 * y + 64 * z + w" using xy(9) by (cases "x = 0") simp_all
    moreover have "262144 * x + 4096 * y + 64 * z + w < 0x110000" using xy(5-8,10) by (cases "x = 4") simp_all
    ultimately show ?thesis using four cs unfolding v by (simp add: utf8_encode_def)
  qed
  then show "utf8_encode (cp_value (c # t)) = c # t" "cp_value (c # t) < 0x110000"
    "n \<le> 2 \<Longrightarrow> cp_value (c # t) < 0x10000 \<and> \<not> (0xD800 \<le> cp_value (c # t) \<and> cp_value (c # t) \<le> 0xDBFF)"
    "n = 3 \<Longrightarrow> 0x10000 \<le> cp_value (c # t)" by blast+
qed


lemma p_string_code_point:
  assumes "lead c = Some (n, lo, hi)" "length t = n" "n = 0 \<or> lo \<le> byte (hd t) \<and> byte (hd t) < hi" "list_all cont t"
  shows "p_string (ascii_char (c # t) @ r) = map_option (\<lambda>(u, q). ((c # t) @ u, q)) (p_string r)"
proof (cases "t = [] \<and> byte c < 127")
  case True
  then show ?thesis by (simp add: ascii_char_def p_string_esc)
next
  case False
  define u where "u = cp_value (c # t)"
  note e = encode_value [OF assms, folded u_def]
  have n: "n \<le> 3" using assms(1) by (auto simp: lead_def Let_def split: if_splits)
  show ?thesis
  proof (cases "n \<le> 2")
    case True
    have "ascii_char (c # t) = u_escape u"
    proof (cases t)
      case Nil
      with False have "u = byte c" "\<not> byte c < 127" by (simp_all add: u_def cp_value_def)
      with Nil show ?thesis by (simp add: ascii_char_def)
    next
      case (Cons a v)
      with e(3) True show ?thesis by (simp add: ascii_char_def Let_def u_def)
    qed
    moreover have "u_escape u = CHR 0x5C # CHR ''u'' # drop 2 (u_escape u)" by (simp add: u_escape_def)
    moreover have "take_unicode (drop 2 (u_escape u) @ r) = Some (c # t, r)"
      using take_unicode_escape [of u r] e(1,3) True by simp
    ultimately show ?thesis by (simp add: u_escape_def)
  next
    case False
    with n have "n = 3" by simp
    then have "ascii_char (c # t) = u_escape (0xD800 + (u - 0x10000) div 1024) @ u_escape (0xDC00 + (u - 0x10000) mod 1024)"
      using e(4) assms(2) by (cases t) (auto simp: ascii_char_def Let_def u_def)
    moreover have "u_escape m @ s = CHR 0x5C # CHR ''u'' # drop 2 (u_escape m) @ s" for m s by (simp add: u_escape_def)
    moreover have "take_unicode (drop 2 (u_escape (0xD800 + (u - 0x10000) div 1024)) @ u_escape (0xDC00 + (u - 0x10000) mod 1024) @ r)
        = Some (c # t, r)"
      using take_unicode_pair [of u r] e(1,2,4) \<open>n = 3\<close> by simp
    moreover have "length r \<le> length (drop 2 (u_escape (0xD800 + (u - 0x10000) div 1024)) @ u_escape (0xDC00 + (u - 0x10000) mod 1024) @ r)"
      by simp
    ultimately show ?thesis by simp
  qed
qed

lemma takeWhile_cont:
  "list_all cont t \<Longrightarrow> utf8_ok s \<Longrightarrow> takeWhile cont (t @ s) = t \<and> dropWhile cont (t @ s) = s"
proof -
  assume t: "list_all cont t" and s: "utf8_ok s"
  have "s = [] \<or> \<not> cont (hd s)"
  proof (cases s)
    case (Cons a u)
    with s have "lead a \<noteq> None" by (auto simp: utf8_ok.simps(2) split: option.splits)
    with Cons show ?thesis by (auto simp: lead_def cont_def Let_def split: if_splits)
  qed simp
  then have "takeWhile cont s = []" "dropWhile cont s = s" by (cases s; simp)+
  with t show ?thesis by (simp add: list_all_iff)
qed

lemma p_string_ascii:
  "utf8_ok t \<Longrightarrow> p_string (concat (map ascii_char (code_points t)) @ CHR 0x22 # s) = Some (t, s)"
proof (induction t rule: utf8_ok.induct)
  case (2 c t)
  obtain n lo hi where l: "lead c = Some (n, lo, hi)" using 2(2) by (auto simp: utf8_ok.simps(2) split: option.splits)
  then have t: "n \<le> length t" "n = 0 \<or> lo \<le> byte (hd t) \<and> byte (hd t) < hi" "list_all cont (take n t)" "utf8_ok (drop n t)"
    using 2(2) l by (auto simp: utf8_ok.simps(2))
  have "takeWhile cont t = take n t" "dropWhile cont t = drop n t"
    using takeWhile_cont [OF t(3,4)] by simp_all
  moreover have "p_string (concat (map ascii_char (code_points (drop n t))) @ CHR 0x22 # s) = Some (drop n t, s)"
    using 2(1) [OF l refl refl t(4)] .
  moreover have "p_string (ascii_char (c # take n t) @ r) = map_option (\<lambda>(u, q). ((c # take n t) @ u, q)) (p_string r)" for r
    by (rule p_string_code_point [OF l]) (use t in \<open>cases t; auto\<close>)+
  ultimately show ?case by simp
qed simp

text \<open>The writer with ASCII escapes is a writer of JSON, on valid UTF-8.\<close>

interpretation escaped: json_writer ascii_quote utf8_ok ascii_dumps json_utf8
  by unfold_locales (auto simp: ascii_quote_def p_string_ascii list_all_iff)

lemma loads_ascii: "json_plain (je_max_digits je) v \<Longrightarrow> json_utf8 v \<Longrightarrow> json_loads je (ascii_dumps v) = Some v"
  by (rule escaped.loads_written)

lemma ascii_dumps_ascii: "json_plain k v \<Longrightarrow> json_utf8 v \<Longrightarrow> list_all (\<lambda>c. byte c < 128) (ascii_dumps v)"
proof -
  have digit: "byte (hex_digit (n mod 16)) < 128" for n by (rule hex_digit_ascii) simp
  have esc: "list_all (\<lambda>c. byte c < 128) (u_escape n)" for n using digit by (simp add: u_escape_def)
  have ch: "list_all (\<lambda>c. byte c < 128) (ascii_char cp)" for cp
    using esc by (auto simp: ascii_char_def Let_def esc_char_ascii split: list.splits)
  have quote: "list_all (\<lambda>c. byte c < 128) (ascii_quote t)" for t using ch by (simp add: ascii_quote_def list_all_iff)
  have sep: "list_all (\<lambda>c. byte c < 128) (commas xs)" if "list_all (list_all (\<lambda>c. byte c < 128)) xs" for xs
    using that by (induction xs rule: commas.induct) auto
  have "list_all (\<lambda>c. byte c < 128) (nat_str n)" for n
    using nat_str_digits [of n] by (rule list.pred_mono_strong) (simp add: is_digit_def)
  then have int: "list_all (\<lambda>c. byte c < 128) (int_str i)" for i by (simp add: int_str_def)
  show "json_plain k v \<Longrightarrow> json_utf8 v \<Longrightarrow> list_all (\<lambda>c. byte c < 128) (ascii_dumps v)"
  proof (induction v)
    case (JArr vs)
    then have "list_all (list_all (\<lambda>c. byte c < 128)) (map ascii_dumps vs)" by (auto simp: list_all_iff)
    then show ?case by (simp add: sep)
  next
    case (JObj d)
    then have "list_all (list_all (\<lambda>c. byte c < 128)) (map (\<lambda>(k, v). ascii_quote k @ CHR '':'' # ascii_dumps v) d)"
      using quote by (fastforce simp: list_all_iff)
    then show ?case by (simp add: sep)
  qed (simp_all add: quote int)
qed

lemma decode_line_form:
  assumes "json_plain (je_max_digits je) (JObj d)" "json_utf8 (JObj d)" "json_depth (JObj d) \<le> MAX_JSON_DEPTH"
  shows "decode_strict_json je (line_form d) = Some (JObj d)"
  using assms loads_ascii [of "je\<lparr>je_strict := True\<rparr>" "JObj d"] utf8_ok_ascii [OF ascii_dumps_ascii [OF assms(1,2)]]
  by (simp add: decode_strict_json_def line_form_def)

section \<open>What was put is what \<open>get\<close> returns\<close>

text \<open>The line of a dictionary is of the dictionary's kind.\<close>

lemma line_kind:
  assumes "json_plain (je_max_digits (ax_json (lv_ax env))) (JObj d)" "json_utf8 (JObj d)"
    "parse_line env (line_form d) offset seq previous = Inr (Some ln)"
  shows "le_capsule ln = is_record_line d"
proof -
  have ascii: "list_all (\<lambda>c. byte c < 128) (line_form d)"
    unfolding line_form_def by (rule ascii_dumps_ascii [OF assms(1,2)])
  have "json_loads ((ax_json (lv_ax env))\<lparr>je_strict := False\<rparr>) (line_form d) = Some (JObj d)"
    unfolding line_form_def by (rule loads_ascii) (use assms(1,2) in simp_all)
  with assms(3) show ?thesis
    by (auto simp: parse_line_def Let_def utf8_replace_ascii [OF ascii] strip_line_form [OF ascii] split: if_splits)
qed

text \<open>A write that succeeds, whether it wrote the line or found it, leaves the value at a record line with that text.\<close>

lemma locked_line:
  assumes "index_of_file env f ix" "json_plain (je_max_digits (ax_json (lv_ax env))) (JObj d)" "json_utf8 (JObj d)"
    "is_record_line d" "write_locked env (line_form d) v True w f ix = (Inr (ln, b), f', ix')"
  shows "refresh env f' ix' = (Inr (), ix')" "find_line ix' v = Some ln" "le_value ln = v" "read_raw f' ln = line_form d"
    "le_capsule ln"
proof -
  have "refresh env f' ix' = (Inr (), ix') \<and> find_line ix' v = Some ln \<and> le_value ln = v \<and> read_raw f' ln = line_form d \<and>
    le_capsule ln"
  proof (cases b)
    case True
    with assms(5) have w: "write_locked env (line_form d) v True w f ix = (Inr (ln, True), f', ix')" by simp
    obtain offset seq previous where n: "refresh env f' ix' = (Inr (), ix')" "find_line ix' v = Some ln"
        "read_raw f' ln = line_form d" "le_value ln = v" "parse_line env (line_form d) offset seq previous = Inr (Some ln)"
      by (rule inserted [OF assms(1) w line_form_ok [OF assms(2)]]) blast
    with line_kind [OF assms(2,3) n(5)] assms(4) show ?thesis by simp
  next
    case False
    then have n: "refresh env f ix = (Inr (), ix')" "find_line ix' v = Some ln" "le_capsule ln" "read_raw f ln = line_form d"
        "f' = f"
      using assms(5) by (auto simp: write_locked_def Let_def split: prod.splits sum.splits option.splits if_splits)
    obtain lns tail m identity where i: "ix' = indexed lns m tail identity" "refresh env f ix' = (Inr (), ix')"
      by (rule refreshed [OF assms(1) later_refl n(1)])
    have "le_value ln = v" using n(2) by (auto simp: i(1) find_line_indexed find_Some_iff)
    with n i(2) show ?thesis by simp
  qed
  then show "refresh env f' ix' = (Inr (), ix')" "find_line ix' v = Some ln" "le_value ln = v" "read_raw f' ln = line_form d"
    "le_capsule ln" by blast+
qed

text \<open>The line that \<open>put\<close> writes, and the record that a line gives.\<close>

lemma put_line_fields:
  assumes "prepare (lv_ax env) r = Inr p" "decode_strict_json (ax_json (lv_ax env)) (ar_capsule p) = Some v" "put_line env r = Inr d"
  obtains capsule key where "v = JObj capsule" "\<not> dhas capsule ''signature''" "\<not> dhas capsule ''key_id''"
    "line_form capsule = ar_capsule p" "valid_id (ar_capsule_id p)" "ar_artifacts p = []"
    "verify_legacy env (ar_capsule_id p) capsule (if ar_envelope p = [] then None else Some (ar_envelope p)) = Inr key"
    "d = (case key of None \<Rightarrow> capsule
          | Some k \<Rightarrow> capsule @ [(''signature'', JStr (to_hex (ar_envelope p))), (''key_id'', JStr k)])"
  using assms by (auto simp: put_line_def sbind_def split: json.splits if_splits sum.splits)

lemma verified_key:
  assumes "verify_legacy env i capsule envelope = Inr key"
  shows "dget capsule ''capsule_id'' = JStr i" "key = None \<longleftrightarrow> envelope = None" "\<And>k. key = Some k \<Longrightarrow> \<exists>pk. k = to_hex pk"
  using assms by (auto simp: verify_legacy_def sbind_def split: if_splits sum.splits option.splits)

text \<open>The record that the line of a put gives.\<close>

lemma line_of_key:
  assumes "\<not> dhas capsule ''signature''" "\<not> dhas capsule ''key_id''"
    and d: "d = (case key of None \<Rightarrow> capsule
      | Some k \<Rightarrow> capsule @ [(''signature'', JStr (to_hex e)), (''key_id'', JStr k)])"
  shows "body_of d = capsule" "dhas d ''signature'' \<longleftrightarrow> key \<noteq> None" "dhas d ''key_id'' \<longleftrightarrow> key \<noteq> None"
    "key = Some k \<Longrightarrow> dget d ''signature'' = JStr (to_hex e) \<and> dget d ''key_id'' = JStr k"
    "n \<noteq> ''signature'' \<Longrightarrow> n \<noteq> ''key_id'' \<Longrightarrow> dget d n = dget capsule n"
proof -
  have "k \<notin> set ENVELOPE_MEMBERS" if "(k, v) \<in> set capsule" for k v
    using that assms(1,2) by (force simp: ENVELOPE_MEMBERS_def dhas_def)
  then have "body_of capsule = capsule" unfolding body_of_def by (intro filter_True) auto
  moreover have "body_of (xs @ ys) = body_of xs @ body_of ys" for xs ys by (simp add: body_of_def)
  ultimately show "body_of d = capsule" by (auto simp: d body_of_def ENVELOPE_MEMBERS_def split: option.splits)
  show "dhas d ''signature'' \<longleftrightarrow> key \<noteq> None" "dhas d ''key_id'' \<longleftrightarrow> key \<noteq> None"
    using assms(1,2) by (auto simp: d dhas_simps split: option.splits)
  have app: "dget (xs @ ys) n = (if dhas xs n then dget xs n else dget ys n)" for xs ys n
    by (induction xs) (auto simp: dget_def dhas_simps split: option.splits)
  show "key = Some k \<Longrightarrow> dget d ''signature'' = JStr (to_hex e) \<and> dget d ''key_id'' = JStr k"
    using assms(1,2) by (simp add: d app dget_Cons)
  assume n: "n \<noteq> ''signature''" "n \<noteq> ''key_id''"
  have "\<not> dhas capsule n \<Longrightarrow> dget capsule n = JNull" by (rule dget_absent) (simp add: dhas_def)
  with n show "dget d n = dget capsule n" by (cases key) (simp_all add: d app dget_Cons)
qed

lemma signed_line_plain:
  assumes "\<not> dhas capsule ''signature''" "\<not> dhas capsule ''key_id''"
    and d: "d = (case key of None \<Rightarrow> capsule
      | Some k \<Rightarrow> capsule @ [(''signature'', JStr (to_hex e)), (''key_id'', JStr k)])"
    and key: "\<And>k. key = Some k \<Longrightarrow> \<exists>pk. k = to_hex pk"
    and capsule: "json_plain n (JObj capsule)" "json_utf8 (JObj capsule)" "json_depth (JObj capsule) \<le> MAX_JSON_DEPTH"
  shows "json_plain n (JObj d)" "json_utf8 (JObj d)" "json_depth (JObj d) \<le> MAX_JSON_DEPTH"
proof -
  have hex: "utf8_ok (to_hex b)" for b
    by (rule utf8_ok_ascii, rule list.pred_mono_strong [OF to_hex_ascii(1)]) simp
  have name: "utf8_ok ''signature''" "utf8_ok ''key_id''" by (rule utf8_ok_ascii, simp)+
  have depth: "foldr max xs (Suc 0) = max (foldr max xs 0) (Suc 0)" for xs :: "nat list" by (induction xs) auto
  show "json_plain n (JObj d)" using assms(1,2) capsule(1) by (auto simp: d dhas_def split: option.splits)
  show "json_utf8 (JObj d)" using key capsule(2) by (auto simp: d hex name split: option.splits)
  show "json_depth (JObj d) \<le> MAX_JSON_DEPTH"
    using capsule(3) by (auto simp: d depth MAX_JSON_DEPTH_def split: option.splits)
qed

lemma checked_line:
  assumes "\<not> dhas capsule ''signature''" "\<not> dhas capsule ''key_id''"
    and d: "d = (case key of None \<Rightarrow> capsule
      | Some k \<Rightarrow> capsule @ [(''signature'', JStr (to_hex e)), (''key_id'', JStr k)])"
    and verified: "verify_legacy env i capsule (if e = [] then None else Some e) = Inr key"
    and key: "key = None \<longleftrightarrow> (if e = [] then None else Some e) = None" "\<And>k. key = Some k \<Longrightarrow> \<exists>pk. k = to_hex pk"
  shows "checked_record env i d = Inr \<lparr>ar_capsule_id = i, ar_capsule = line_form capsule, ar_envelope = e, ar_artifacts = []\<rparr>"
proof (cases key)
  case None
  with key(1) have "e = []" by (simp split: if_splits)
  with verified None line_of_key [OF assms(1,2) d] show ?thesis
    using assms(1,2) by (simp add: checked_record_def d)
next
  case (Some k)
  with key obtain pk c t where k: "k = to_hex pk" "e = c # t" by (cases e) auto
  have hex: "from_hex (to_hex e) = Some (c # t)" by (simp add: from_to_hex k(2))
  have "verify_legacy env i capsule (Some (c # t)) = Inr (Some k)" using verified Some k(2) by simp
  with line_of_key [OF assms(1,2) d] Some hex show ?thesis
    by (simp add: checked_record_def k to_hex_ascii(2))
qed

lemma valid_id_octets:
  assumes "valid_id i"
  obtains v where "from_hex i = Some v" "to_hex v = i"
proof -
  have "list_all is_hex i \<Longrightarrow> even (length i) \<Longrightarrow> from_hex i \<noteq> None" for i
  proof (induction i rule: induct_list012)
    case (3 c d t)
    then have "\<not> is_space c" "hex_nibble c \<noteq> None" "hex_nibble d \<noteq> None"
      by (auto simp: is_hex_def is_space_def is_digit_def hex_nibble_def)
    with 3 show ?case by auto
  qed simp_all
  moreover have "list_all is_hex i" "even (length i)" using assms by (simp_all add: valid_id_def hex_string_def)
  ultimately obtain v where "from_hex i = Some v" by blast
  with hex_of_octets [OF this] assms that show thesis by (simp add: valid_id_def hex_string_def)
qed

text \<open>C15: what was put is what \<open>get\<close> returns.  When \<open>put\<close> succeeds on the flat ledger, whether it wrote a line or found one
  that was there, \<open>get\<close> of the record's identifier gives the prepared record back with its capsule, its envelope and
  no originals, although the line holds the capsule re-encoded with ASCII escapes, the envelope in hexadecimal and the
  key of the signer among its members.  For a capsule without floats whose texts are valid UTF-8, and any index that
  followed the file.\<close>

theorem flat_put_get_round_trip:
  assumes "index_of_file env f ix" "prepare (lv_ax env) r = Inr p"
    "decode_strict_json (ax_json (lv_ax env)) (ar_capsule p) = Some v"
    "json_plain (je_max_digits (ax_json (lv_ax env))) v" "json_utf8 v"
    "put_record env r f ix = (Inr (), f', ix')"
  shows "get_record env (ar_capsule_id p) f' ix' = (Inr p, ix')"
proof -
  obtain d ln b where put: "put_line env r = Inr d" and w: "append_record_line env d f ix = (Inr (ln, b), f', ix')"
    using assms(6) by (auto simp: put_record_def put_entry_def split: sum.splits prod.splits)
  obtain capsule key where c: "v = JObj capsule" "\<not> dhas capsule ''signature''" "\<not> dhas capsule ''key_id''"
    "line_form capsule = ar_capsule p" "valid_id (ar_capsule_id p)" "ar_artifacts p = []"
    "verify_legacy env (ar_capsule_id p) capsule (if ar_envelope p = [] then None else Some (ar_envelope p)) = Inr key"
    "d = (case key of None \<Rightarrow> capsule
          | Some k \<Rightarrow> capsule @ [(''signature'', JStr (to_hex (ar_envelope p))), (''key_id'', JStr k)])"
    by (rule put_line_fields [OF assms(2,3) put])
  note key = verified_key [OF c(7)] and line = line_of_key [OF c(2,3,8)]
  have plain: "json_plain (je_max_digits (ax_json (lv_ax env))) (JObj d)" "json_utf8 (JObj d)"
      "json_depth (JObj d) \<le> MAX_JSON_DEPTH"
    using signed_line_plain [OF c(2,3,8) key(3)] assms(3-5) c(1) by (auto simp: decode_strict_json_def split: if_splits option.splits)
  have "dget d ''capsule_id'' = JStr (ar_capsule_id p)" using line(5) key(1) by simp
  with w c(5) have rec: "is_record_line d"
    and locked: "write_locked env (line_form d) (the (from_hex (ar_capsule_id p))) True (is_record_line d) f ix = (Inr (ln, b), f', ix')"
    by (auto simp: append_record_line_def write_checked_def split: if_splits)
  note l = locked_line [OF assms(1) plain(1,2) rec locked]
  obtain x where x: "from_hex (ar_capsule_id p) = Some x" "to_hex x = ar_capsule_id p" by (rule valid_id_octets [OF c(5)])
  have "checked_record env (ar_capsule_id p) d = Inr p"
    using checked_line [OF c(2,3,8,7) key(2,3)] c(4,6) by simp
  with l x c(5) decode_line_form [OF plain] show ?thesis by (simp add: get_record_def)
qed

section \<open>Witness\<close>

lemma copied_line: "put_line copy_env copied = Inr act_line"
proof -
  have "\<not> dhas act_body ''signature''" "\<not> dhas act_body ''key_id''" by (simp_all add: act_body_def bare_fields_def)
  moreover have "ar_capsule copied = json_dumps (JObj act_body)" "ar_capsule_id copied = act_id" "ar_envelope copied = ''e''"
      "ar_artifacts copied = []"
    by (simp_all add: copied_def)
  ultimately show ?thesis
    using copied_ok(1) act_id_ok(1) act_decode copy_text(2) copy_verifies
    by (simp add: put_line_def copy_env_simps del: json_dumps.simps) (simp add: act_line_def)
qed

lemma copied_stored: "\<exists>ix'. put_record copy_env copied None new_index = (Inr (), copy_file, ix')"
proof -
  obtain v ln where v: "from_hex act_id = Some v" "le_value ln = v"
    and parsed: "refresh copy_env copy_file new_index = (Inr (), indexed [ln] (length (line_form act_line) + 1) None (Some 7))"
    by (rule copy_parsed)
  have "is_record_line act_line"
    by (simp add: is_record_line_def act_line_def act_body_def bare_fields_def NON_CAPSULE_KINDS_def)
  moreover have "find_line (indexed [ln] m None identity) v = Some ln" "find_line new_index v = None" for m identity
    by (simp_all add: find_line_indexed v(2)) (simp add: find_line_def new_index_def)
  moreover have "refresh copy_env None new_index = (Inr (), new_index)" by (rule refresh_missing) simp
  moreover have "lv_new_flat copy_env = Some 7" "lv_stopped copy_env = False" by (simp_all add: copy_env_def flat_env_def)
  moreover have "Some (7, write_text (file_octets None) (line_form act_line)) = copy_file"
    by (simp add: write_text_def file_octets_def copy_file_def)
  ultimately show ?thesis
    using act_id_ok(1) v(1) parsed
    by (simp add: put_record_def put_entry_def copied_line append_record_line_def write_checked_def act_line_get write_locked_def)
qed

theorem flat_put_get_round_trip_witness:
  "\<exists>ix'. put_record copy_env copied None new_index = (Inr (), copy_file, ix') \<and>
    get_record copy_env act_id copy_file ix' = (Inr copied, ix')"
proof -
  obtain ix' where put: "put_record copy_env copied None new_index = (Inr (), copy_file, ix')" using copied_stored by blast
  have "json_plain 4300 (JObj act_body)" "json_utf8 (JObj act_body)" using act_plain by auto
  moreover have "index_of_file copy_env None new_index" by (simp add: index_of_file_def)
  moreover have "ar_capsule copied = json_dumps (JObj act_body)" "ar_capsule_id copied = act_id" by (simp_all add: copied_def)
  ultimately show ?thesis
    using flat_put_get_round_trip [OF _ _ _ _ _ put, of copied "JObj act_body"] copied_ok(1) act_decode put
    by (simp add: copy_env_simps del: json_plain.simps json_utf8.simps json_dumps.simps)
qed

end
