(* ===== verification/Spec2Isabelle.thy ===== *)
theory Spec2Isabelle
  imports Hold_Outcomes Artifact_Jsonl Account Reconciliation Chain_Segment Bilateral Witness_Checkpoint Produce_Construction Surface Settlement
    Otel Disclose Legacy_Round_Trip
begin

text \<open>
  A model of the core of \<open>capsule-emit\<close> (\<open>src/python/capsule_emit\<close>).

  The program seals the actions of an agent into capsules, JSON records with a content digest as their id, keeps
  them in append-only ledgers, and offers components over those records.  What is modelled, with its theories:

  \<^item> \<open>Capsule_Prelude\<close>, \<open>Json_Text\<close>, \<open>Base64\<close>, \<open>Rfc3339\<close>, \<open>Python_Text\<close>, \<open>Python_Values\<close>: results as sums, JSON
    values and their text, civil dates, strings as octets of UTF-8, Python equality.  They hold the shared
    collections \<open>res_simps\<close> and \<open>json_simps\<close>.
  \<^item> \<open>Hold_Records\<close>, \<open>Hold_Aggregate\<close>, \<open>Hold_Engine\<close> (\<open>holds/\<close>, the append and read of \<open>legacy_ledger.py\<close> and
    \<open>ledger.py\<close>): the hold records, the running balance and the engine, one definition per method, each over the
    ledger as a list of lines.  \<open>Audit_Log\<close> is the locale of an append-only log, interpreted on the ledger;
    \<open>Hold_Lifecycle\<close>, \<open>Hold_Refinement\<close>, \<open>Hold_Safety\<close>, \<open>Hold_Concurrency\<close> hold the invariants, the abstract account
    book that the ledger refines, and the interleavings of several callers; \<open>Hold_Properties\<close> and \<open>Hold_Outcomes\<close>
    the theorems.
  \<^item> \<open>Artifact_Record\<close>, \<open>Artifact_Index\<close>, \<open>Artifact_Memory\<close> (\<open>artifact/\<close>): a stored record, its checks, its JSON
    line and its purge; the index with its cursors; the memory store.  \<open>Artifact_Store\<close> is the locale of the
    contract of a store, interpreted on the memory store and on the file store of \<open>Artifact_Jsonl\<close>, which works on the
    octets of its file and refines the memory store; \<open>Artifact_Properties\<close> holds the other theorems.
  \<^item> \<open>Store_Ledger\<close> (\<open>store_backed_ledger.py\<close>): the ledger over an entry log and an artifact store, one definition per
    method, each giving its result and what it left in the two stores.  \<open>Store_Ledger_Replay\<close> states the contracts of the
    two stores as locales, takes the append apart into its checks, its put and its log entry, which others interleave
    with, and in a third locale proves that what several writers leave always replays.  The module asks its callers for a
    writer lock across processes, since the stale check does not exclude a second writer between it and the log entry; the
    writers of the step relation append under it, and \<open>unlocked_race\<close> shows what happens without it.
    \<open>Store_Ledger_Properties\<close> interprets the locale on the file store of \<open>Artifact_Jsonl\<close> and holds the theorems.
  \<^item> \<open>Legacy_Ledger\<close> (\<open>legacy_ledger.py\<close>, \<open>_write_line\<close> of \<open>ledger.py\<close>): the flat file behind the same two contracts, from
    its octets: the incremental index with the torn last line, the reads, the checked writes.  \<open>Legacy_Round_Trip\<close> shows
    that what was put is what \<open>get\<close> returns.  Both writers of JSON, the compact one and the one with ASCII escapes, are
    interpretations of the locale \<open>json_writer\<close> of \<open>Json_Text\<close>, which proves once that what is written reads back.
  \<^item> \<open>Import_Flat\<close> (\<open>import_flat\<close> of \<open>store_backed_ledger.py\<close>): the copy of a flat ledger into a store-backed one, which
    composes the two; what it copies is stated on the lines of the file (\<open>record_ids\<close>, \<open>firsts\<close>, \<open>takeable\<close>).
  \<^item> \<open>Numbers\<close> (\<open>numbers.py\<close>): the decimal text of a float, equal to a specification of ECMA-262 of its own
    (\<open>es_text\<close> on the integer significand and exponent), and the payload walk, against the relation \<open>rendered\<close>.
  \<^item> \<open>Account\<close> (\<open>account/\<close>): definitions, accounts and their replay.
  \<^item> \<open>Reconciliation\<close> (\<open>reconciliation.py\<close>, \<open>relations.py\<close>) and \<open>Adjudication\<close> (\<open>adjudication.py\<close>).
  \<^item> \<open>Chain_Segment\<close> (\<open>chain_segment.py\<close>): the checkpoint chain between two sizes, built, sent and verified.
  \<^item> \<open>Witness_Backlog\<close>, \<open>Witness_Checkpoint\<close> (\<open>witness.py\<close>): the witness state of the checkpoint stamps of a
    ledger, the drain of the backlog after an outage, building and registering a checkpoint, \<open>push\<close>, the fail-closed
    receipt and the cadence.  The stamp lines are an instance of the append-only log; the network is the list of
    registrations sent, whose answers may depend on all that was sent before.
  \<^item> \<open>Emit_Builder\<close>, \<open>Emit\<close> (\<open>builder.py\<close>, \<open>canonicalization.py\<close>, \<open>core.py\<close>): the emission of a capsule from its
    keyword arguments to the sealed line, its append, the witness and the legacy anchor.  An emission runs on the
    ledger and network of \<open>Witness_Checkpoint\<close>.  The sealing of a built capsule is a parameter; what a theorem about the
    final capsule needs of it (that it keeps the members built, the chain and the references) are the hypotheses
    \<open>seal_writes\<close>, \<open>seal_links\<close> and \<open>seal_commits\<close>, which a strict sealer meets.
  \<^item> \<open>Approval\<close> (\<open>approval.py\<close>, the \<open>seal_*\<close> of \<open>bilateral.py\<close> and \<open>adjudication.py\<close>), \<open>Gate\<close> (\<open>gate.py\<close>,
    \<open>constraints/apache.py\<close>, \<open>adapters/_base.py\<close>), \<open>Settlement\<close> (\<open>settlement.py\<close>), \<open>Surface\<close> (\<open>surface.py\<close>): the
    operations that seal through an emission, each the arguments it makes and the emission that it runs, and the readers
    of what they sealed.
  \<^item> \<open>Otel\<close> (\<open>otel/\<close>, the classification of \<open>connector.py\<close>): which spans are effects, the allow-listed block of a
    span and its seal.
  \<^item> \<open>Disclose\<close> (\<open>disclose.py\<close>, \<open>disclosure.py\<close>, \<open>record_proof.py\<close>): a disclosure of records with their payloads,
    its completeness statement and sealed record, and what a stranger learns by verifying it.
  \<^item> \<open>Bilateral\<close> (\<open>bilateral.py\<close>): the handshake of two organisations as a step relation; a signature scheme is a
    locale, interpreted on the verifiers of the module.
  \<^item> \<open>Produce_Digest\<close>, \<open>Produce_Timestamp\<close>, \<open>Produce_Model\<close>, \<open>Produce_Build\<close>, \<open>Produce_Construction\<close>
    (\<open>produce/\<close>): the producing API from the typed input to the built capsule and to compositions of capsules.

  How the parts interact: the capsules that \<open>produce\<close> builds are what the artifact store verifies and indexes
  (the time stamps that \<open>format_timestamp\<close> writes are read by \<open>parse_timestamp\<close> as the same instant); the hold
  engine, the reconciliation and the chain segments read the same ledger lines; the store-backed ledger is a client of
  the contract of the artifact stores.

  What is a parameter: the functions of \<open>agent_action_capsule\<close> (\<open>jcs\<close>, \<open>json_digest\<close>, \<open>compute_capsule_id\<close>,
  \<open>verify\<close>, the envelope verifier), the Merkle mountain range and checkpoints of \<open>cll\<close>, SHA-256, the clock,
  \<open>uuid4\<close>, the reading of a float from its digits, and the limits of the interpreter on digits and on recursion.
  They are fields of an environment record or arguments; what a theorem needs of them is a hypothesis of it.

  Bounds: no definition has fuel.  Recursion is structural or ends by a measure: the length of the text in the
  JSON scanner, the nodes of the values on the stack in the explicit-stack walks of \<open>produce\<close>.

  Not modelled: files, locks and SQL behind the ledgers and durable artifact stores, HTTP,
  signing, rendering, the command line, the OpenTelemetry SDK and the adapters to agent frameworks.  Messages of errors are
  carried where the code gives no other name to the error; the sentences that only explain are not.
\<close>

end
